(* ===== verification/Prelude.thy ===== *)
theory Prelude
  imports Main "HOL-Library.Word" "HOL-Library.Monad_Syntax"
begin

text \<open>
  Shared vocabulary of the development: the C integer types as words, the return codes of
  include/common.h and include/gtypes.h, checked access to arrays, and the byte encodings of
  16- and 32-bit integers that every wire format of the program uses.

  Conventions. A C pointer that the program always passes as the address of an object is the
  object itself; a pointer that the program really passes or stores as NULL is an option. Access
  to an array is checked: a read or write outside an array gives \<open>None\<close>, so that a theorem
  whose conclusion is \<open>Some \<dots>\<close> also says that the code stays inside its buffers. The target is
  a little-endian machine, so copying an integer with memcpy stores its bytes low byte first,
  and htons or htonl followed by memcpy stores them high byte first.
\<close>

unbundle bit_operations_syntax

subsection \<open>Types, return codes and collections\<close>

type_synonym u8 = "8 word"
type_synonym u16 = "16 word"
type_synonym u32 = "32 word"
type_synonym u64 = "64 word"
type_synonym bytes = "8 word list"

abbreviation SUCCESS :: int where "SUCCESS \<equiv> 0"
abbreviation ERROR_GENERAL :: int where "ERROR_GENERAL \<equiv> - 1"
abbreviation ERROR_INVALID_PARAM :: int where "ERROR_INVALID_PARAM \<equiv> - 2"
abbreviation ERROR_MEMORY :: int where "ERROR_MEMORY \<equiv> - 3"
abbreviation ERROR_NETWORK :: int where "ERROR_NETWORK \<equiv> - 4"
abbreviation ERROR_TIMEOUT :: int where "ERROR_TIMEOUT \<equiv> - 5"
abbreviation ERROR_NOT_INITIALIZED :: int where "ERROR_NOT_INITIALIZED \<equiv> - 6"
abbreviation ERROR_NOT_READY :: int where "ERROR_NOT_READY \<equiv> - 7"

named_theorems u32_nat "arithmetic of 32-bit values read as natural numbers"
named_theorems codec_simps "encoders and decoders of byte sequences"

subsection \<open>Words as natural numbers\<close>

lemma u32_less_nat [u32_nat]: "((a::u32) < b) = (unat a < unat b)"
  by (rule word_less_nat_alt)

lemma u32_le_nat [u32_nat]: "((a::u32) \<le> b) = (unat a \<le> unat b)"
  by (rule word_le_nat_alt)

lemma u32_eq_nat [u32_nat]: "((a::u32) = b) = (unat a = unat b)"
  by (simp add: word_unat_eq_iff)

lemma u32_min_nat [u32_nat]: "unat (min (a::u32) b) = min (unat a) (unat b)"
  by (simp add: min_def u32_le_nat)

lemma u32_sub_nat: "unat b \<le> unat a \<Longrightarrow> unat ((a::u32) - b) = unat a - unat b"
  by (simp add: unat_sub word_le_nat_alt)

lemma u32_add_nat: "unat a + unat b < 2 ^ 32 \<Longrightarrow> unat ((a::u32) + b) = unat a + unat b"
  by (simp add: unat_word_ariths)

lemma u32_bound: "unat (a::u32) < 2 ^ 32"
  using unsigned_less [of a] by simp

lemma u32_of_nat: "n < 2 ^ 32 \<Longrightarrow> unat (of_nat n :: u32) = n"
  by (simp add: unat_of_nat take_bit_eq_mod)

lemma u16_of_nat: "n < 2 ^ 16 \<Longrightarrow> unat (of_nat n :: u16) = n"
  by (simp add: unat_of_nat take_bit_eq_mod)

lemma u8_of_nat: "n < 2 ^ 8 \<Longrightarrow> unat (of_nat n :: u8) = n"
  by (simp add: unat_of_nat take_bit_eq_mod)

lemma u8_bound: "unat (a::u8) < 256"
  using unsigned_less [of a] by simp

lemma u16_bound: "unat (a::u16) < 65536"
  using unsigned_less [of a] by simp

lemma unat_ucast_up: "unat (ucast (a::u16) :: u32) = unat a" "unat (ucast (b::u8) :: u32) = unat b"
    "unat (ucast (b::u8) :: u16) = unat b"
  using u16_bound [of a] u8_bound [of b]
  by (simp_all add: unsigned_ucast_eq take_bit_nat_eq_self)

lemma u32_suc_nat: "i < n \<Longrightarrow> unat ((i::u32) + 1) = Suc (unat i)"
  using u32_bound [of n] by (simp add: u32_less_nat unat_word_ariths)

text \<open>The sign of a 32-bit \<open>int\<close>, and of the difference of two small unsigned values.\<close>

lemma u32_sless_zero: "((a::u32) <s 0) = (2 ^ 31 \<le> unat a)"
proof -
  have "(a <s 0) = bit a 31"
    by (simp add: word_sless_alt sint_uint signed_take_bit_negative_iff bit_uint_iff)
  also have "\<dots> = odd (unat a div 2 ^ 31)"
    using bit_unsigned_iff [where ?'a = nat and w = a and n = 31] by (simp add: bit_nat_iff bit_iff_odd)
  also have "\<dots> = (2 ^ 31 \<le> unat a)"
  proof (cases "2 ^ 31 \<le> unat a")
    case True
    have "unat a div 2 ^ 31 = 1" using True u32_bound [of a] by (intro div_nat_eqI) auto
    with True show ?thesis by simp
  qed simp
  finally show ?thesis .
qed

lemma u32_signed_negative:
  assumes "unat a < 2 ^ 31" and "unat b < 2 ^ 31"
  shows "((a::u32) - b <s 0) = (unat a < unat b)"
  using assms u32_bound [of a] u32_bound [of b]
  by (auto simp: u32_sless_zero unat_sub_if_size word_size)

lemma u32_sint:
  assumes "unat (a::u32) < 2 ^ 31"
  shows "sint a = int (unat a)"
proof -
  have "int (unat a) < int (2 ^ 31)" using assms by (simp only: of_nat_less_iff)
  then have "uint a < 2 ^ 31" by simp
  then have "signed_take_bit 31 (uint a) = uint a" 
    by (intro signed_take_bit_int_eq_self order_trans [OF _ uint_ge_0]) simp_all
  then show ?thesis by (simp add: sint_uint)
qed

subsection \<open>Checked array access\<close>

definition arr_get :: "'a list \<Rightarrow> nat \<Rightarrow> 'a option" where
  "arr_get xs i = (if i < length xs then Some (xs ! i) else None)"

definition arr_set :: "'a list \<Rightarrow> nat \<Rightarrow> 'a \<Rightarrow> 'a list option" where
  "arr_set xs i v = (if i < length xs then Some (xs[i := v]) else None)"

text \<open>memcpy of \<open>n\<close> elements between two different arrays.\<close>

definition mem_copy :: "'a list \<Rightarrow> nat \<Rightarrow> 'a list \<Rightarrow> nat \<Rightarrow> nat \<Rightarrow> 'a list option" where
  "mem_copy dst d src s n =
     (if d + n \<le> length dst \<and> s + n \<le> length src
      then Some (take d dst @ take n (drop s src) @ drop (d + n) dst) else None)"

text \<open>memcpy out of an array: the \<open>n\<close> elements at offset \<open>s\<close>.\<close>

definition mem_read :: "'a list \<Rightarrow> nat \<Rightarrow> nat \<Rightarrow> 'a list option" where
  "mem_read src s n = (if s + n \<le> length src then Some (take n (drop s src)) else None)"

text \<open>The loop \<open>for (i = 0; i < n; ++i) dst[d + i] = src[s + i]\<close> with 32-bit indices.\<close>

function copy_loop :: "'a list \<Rightarrow> u32 \<Rightarrow> 'a list \<Rightarrow> u32 \<Rightarrow> u32 \<Rightarrow> u32 \<Rightarrow> 'a list option" where
  "copy_loop dst d src s i n =
     (if i < n
      then do {
        v \<leftarrow> arr_get src (unat (s + i));
        dst' \<leftarrow> arr_set dst (unat (d + i)) v;
        copy_loop dst' d src s (i + 1) n }
      else Some dst)"
  by pat_completeness auto
termination
  by (relation "measure (\<lambda>(dst, d, src, s, i, n). unat n - unat i)")
     (auto simp: u32_suc_nat u32_less_nat intro: diff_less_mono2)

declare copy_loop.simps [simp del]

lemma mem_copy_length: "mem_copy dst d src s n = Some dst' \<Longrightarrow> length dst' = length dst"
  by (auto simp: mem_copy_def split: if_splits)

lemma mem_copy_Some [simp]:
  "d + n \<le> length dst \<Longrightarrow> s + n \<le> length src \<Longrightarrow>
     mem_copy dst d src s n = Some (take d dst @ take n (drop s src) @ drop (d + n) dst)"
  by (simp add: mem_copy_def)

lemma mem_read_Some [simp]:
  "s + n \<le> length src \<Longrightarrow> mem_read src s n = Some (take n (drop s src))"
  by (simp add: mem_read_def)

lemma mem_read_length: "mem_read src s n = Some xs \<Longrightarrow> length xs = n"
  by (auto simp: mem_read_def split: if_splits)

lemma take_snoc_nth: "i < length xs \<Longrightarrow> take i xs @ [xs ! i] = take (Suc i) xs"
  by (simp add: take_Suc_conv_app_nth)

text \<open>One step of the copy, seen on the finished array.\<close>

lemma copy_step:
  assumes "d + i < length dst" and "s + i < length src" and "i < n"
    and "d + n \<le> length dst" and "s + n \<le> length src"
  shows "take (d + Suc i) (dst[d + i := src ! (s + i)]) @ take (n - Suc i) (drop (s + Suc i) src)
             @ drop (d + n) (dst[d + i := src ! (s + i)])
       = take (d + i) dst @ take (n - i) (drop (s + i) src) @ drop (d + n) dst"
proof -
  have "take (n - i) (drop (s + i) src) = src ! (s + i) # take (n - Suc i) (drop (s + Suc i) src)"
    using assms by (simp add: Cons_nth_drop_Suc [symmetric] take_Cons' Suc_diff_Suc [symmetric])
  moreover have "take (d + Suc i) (dst[d + i := src ! (s + i)]) = take (d + i) dst @ [src ! (s + i)]"
    using assms by (simp add: take_Suc_conv_app_nth)
  ultimately show ?thesis using assms by simp
qed

lemma copy_loop_mem_copy_aux:
  assumes "unat d + unat n < 2 ^ 32" and "unat s + unat n < 2 ^ 32"
    and "unat d + unat n \<le> length dst" and "unat s + unat n \<le> length src" and "unat i \<le> unat n"
  shows "copy_loop dst d src s i n =
     Some (take (unat d + unat i) dst @ take (unat n - unat i) (drop (unat s + unat i) src)
             @ drop (unat d + unat n) dst)"
  using assms
proof (induction dst d src s i n rule: copy_loop.induct)
  case (1 dst d src s i n)
  show ?case
  proof (cases "i < n")
    case True
    then have in_n: "unat i < unat n" by (simp add: u32_less_nat)
    have di: "unat (d + i) = unat d + unat i" and si: "unat (s + i) = unat s + unat i"
      using "1.prems" in_n by (auto intro: u32_add_nat)
    have si1: "unat (i + 1) = Suc (unat i)" using True by (rule u32_suc_nat)
    have rd: "arr_get src (unat (s + i)) = Some (src ! (unat s + unat i))"
      using "1.prems" in_n by (simp add: arr_get_def si)
    let ?dst = "dst[unat d + unat i := src ! (unat s + unat i)]"
    have wr: "arr_set dst (unat (d + i)) (src ! (unat s + unat i)) = Some ?dst"
      using "1.prems" in_n by (simp add: arr_set_def di)
    have "copy_loop dst d src s i n = copy_loop ?dst d src s (i + 1) n"
      using True by (subst copy_loop.simps) (simp add: rd wr)
    also have "\<dots> = Some (take (unat d + unat (i + 1)) ?dst
        @ take (unat n - unat (i + 1)) (drop (unat s + unat (i + 1)) src) @ drop (unat d + unat n) ?dst)"
      using "1.prems" in_n by (intro "1.IH" [OF True rd wr]) (simp_all add: si1)
    also have "\<dots> = Some (take (unat d + unat i) dst @ take (unat n - unat i) (drop (unat s + unat i) src)
        @ drop (unat d + unat n) dst)"
      unfolding si1 using "1.prems" in_n by (simp only: copy_step)
    finally show ?thesis .
  next
    case False
    then have "unat i = unat n" using "1.prems" by (simp add: u32_less_nat)
    then show ?thesis using False by (subst copy_loop.simps) simp
  qed
qed

text \<open>The byte loop is memcpy wherever both ranges lie inside their arrays.\<close>

lemma copy_loop_mem_copy:
  assumes "unat d + unat n \<le> length dst" and "unat s + unat n \<le> length src"
    and "length dst < 2 ^ 32" and "unat s + unat n < 2 ^ 32"
  shows "copy_loop dst d src s 0 n = mem_copy dst (unat d) src (unat s) (unat n)"
  using copy_loop_mem_copy_aux [of d n s dst src 0] assms by simp

lemma take_drop_split:
  assumes "i + n \<le> m"
  shows "take n (drop i b) @ take (m - (i + n)) (drop (i + n) b) = take (m - i) (drop i b)"
proof -
  have "m - i = n + (m - (i + n))" using assms by simp
  then show ?thesis by (metis take_add drop_drop add.commute)
qed

lemma cut_three: "xs = take i xs @ take j (drop i xs) @ take k (drop (i + j) xs) @ drop (i + j + k) xs"
  by (metis append_take_drop_id drop_drop add.commute append.assoc)

subsection \<open>Integers as bytes\<close>

definition le16 :: "u16 \<Rightarrow> bytes" where
  "le16 w = [ucast w, ucast (drop_bit 8 w)]"

definition le32 :: "u32 \<Rightarrow> bytes" where
  "le32 w = [ucast w, ucast (drop_bit 8 w), ucast (drop_bit 16 w), ucast (drop_bit 24 w)]"

definition be16 :: "u16 \<Rightarrow> bytes" where
  "be16 w = [ucast (drop_bit 8 w), ucast w]"

definition be32 :: "u32 \<Rightarrow> bytes" where
  "be32 w = [ucast (drop_bit 24 w), ucast (drop_bit 16 w), ucast (drop_bit 8 w), ucast w]"

definition of_le16 :: "u8 \<Rightarrow> u8 \<Rightarrow> u16" where
  "of_le16 b0 b1 = ucast b0 OR push_bit 8 (ucast b1)"

definition of_le32 :: "u8 \<Rightarrow> u8 \<Rightarrow> u8 \<Rightarrow> u8 \<Rightarrow> u32" where
  "of_le32 b0 b1 b2 b3 =
     ucast b0 OR push_bit 8 (ucast b1) OR push_bit 16 (ucast b2) OR push_bit 24 (ucast b3)"

definition of_be16 :: "u8 \<Rightarrow> u8 \<Rightarrow> u16" where
  "of_be16 b0 b1 = of_le16 b1 b0"

definition of_be32 :: "u8 \<Rightarrow> u8 \<Rightarrow> u8 \<Rightarrow> u8 \<Rightarrow> u32" where
  "of_be32 b0 b1 b2 b3 = of_le32 b3 b2 b1 b0"

lemma le_length [simp]: "length (le16 a) = 2" "length (le32 b) = 4" "length (be16 a) = 2"
    "length (be32 b) = 4"
  by (simp_all add: le16_def le32_def be16_def be32_def)

lemma of_le16_le16 [codec_simps]: "of_le16 (ucast w) (ucast (drop_bit 8 w)) = w"
  unfolding of_le16_def
  by (rule bit_word_eqI) (auto simp: bit_simps)

lemma of_le32_le32 [codec_simps]:
  "of_le32 (ucast w) (ucast (drop_bit 8 w)) (ucast (drop_bit 16 w)) (ucast (drop_bit 24 w)) = w"
proof (rule bit_word_eqI)
  fix n assume "n < LENGTH(32)"
  then consider "n < 8" | "8 \<le> n \<and> n < 16" | "16 \<le> n \<and> n < 24" | "24 \<le> n \<and> n < 32"
    by fastforce
  then show "bit (of_le32 (ucast w) (ucast (drop_bit 8 w)) (ucast (drop_bit 16 w)) (ucast (drop_bit 24 w))) n
      = bit w n"
    by cases (auto simp: of_le32_def bit_simps)
qed

text \<open>Reading an integer out of an array, byte by byte or with memcpy.\<close>

definition read_le16 :: "bytes \<Rightarrow> nat \<Rightarrow> u16 option" where
  "read_le16 b i = do { b0 \<leftarrow> arr_get b i; b1 \<leftarrow> arr_get b (i + 1); Some (of_le16 b0 b1) }"

definition read_le32 :: "bytes \<Rightarrow> nat \<Rightarrow> u32 option" where
  "read_le32 b i = do {
     b0 \<leftarrow> arr_get b i; b1 \<leftarrow> arr_get b (i + 1); b2 \<leftarrow> arr_get b (i + 2); b3 \<leftarrow> arr_get b (i + 3);
     Some (of_le32 b0 b1 b2 b3) }"

definition read_be16 :: "bytes \<Rightarrow> nat \<Rightarrow> u16 option" where
  "read_be16 b i = do { b0 \<leftarrow> arr_get b i; b1 \<leftarrow> arr_get b (i + 1); Some (of_be16 b0 b1) }"

definition read_be32 :: "bytes \<Rightarrow> nat \<Rightarrow> u32 option" where
  "read_be32 b i = do {
     b0 \<leftarrow> arr_get b i; b1 \<leftarrow> arr_get b (i + 1); b2 \<leftarrow> arr_get b (i + 2); b3 \<leftarrow> arr_get b (i + 3);
     Some (of_be32 b0 b1 b2 b3) }"

lemma arr_get_append [simp]: "arr_get (a @ b) (length a + i) = arr_get b i"
  by (simp add: arr_get_def)

lemma arr_get_Cons: "arr_get (x # xs) i = (if i = 0 then Some x else arr_get xs (i - 1))"
  by (auto simp: arr_get_def nth_Cons')

lemma read_append:
  "length a = i \<Longrightarrow> read_le16 (a @ le16 w @ c) i = Some w"
  "length a = i \<Longrightarrow> read_le32 (a @ le32 v @ c) i = Some v"
  "length a = i \<Longrightarrow> read_be16 (a @ be16 w @ c) i = Some w"
  "length a = i \<Longrightarrow> read_be32 (a @ be32 v @ c) i = Some v"
  by (auto simp: read_le16_def read_le32_def read_be16_def read_be32_def le16_def le32_def be16_def be32_def
      arr_get_def nth_append of_be16_def of_be32_def codec_simps)

text \<open>Writes at the end of a prefix that has been written already.\<close>

lemma mem_copy_at:
  "length a = d \<Longrightarrow> n \<le> length rest \<Longrightarrow> n \<le> length src \<Longrightarrow>
     mem_copy (a @ rest) d src 0 n = Some (a @ take n src @ drop n rest)"
  by auto

lemma arr_set_at: "length a = d \<Longrightarrow> rest \<noteq> [] \<Longrightarrow> arr_set (a @ rest) d v = Some (a @ [v] @ drop 1 rest)"
  by (cases rest) (auto simp: arr_set_def)

text \<open>memcpy of a whole source to an offset.\<close>

definition mem_put :: "'a list \<Rightarrow> nat \<Rightarrow> 'a list \<Rightarrow> 'a list option" where
  "mem_put dst d src = mem_copy dst d src 0 (length src)"

lemma mem_put_at:
  "length a = d \<Longrightarrow> length src \<le> length rest \<Longrightarrow>
     mem_put (a @ rest) d src = Some ((a @ src) @ drop (length src) rest)"
  by (simp add: mem_put_def mem_copy_at)

lemma mem_put_start: "length src \<le> length rest \<Longrightarrow> mem_put rest 0 src = Some (src @ drop (length src) rest)"
  using mem_put_at [of "[]" 0 src rest] by simp

end
