(* ===== verification/RingBuf.thy ===== *)
theory RingBuf
  imports Prelude
begin

text \<open>
  The byte ring of rBuf.c: one producer writes at \<open>inIndex\<close>, one consumer reads and removes at
  \<open>outIndex\<close>, and one slot stays free so that equal indices mean empty. The operations are
  translated with the 32-bit indices of the source and with every array access checked. The
  interface \<open>byte_fifo\<close> states what the clients of the ring rely on; it is interpreted on the
  operations of the source, and the stream property of the ring is proved inside it.
\<close>

subsection \<open>State and operations\<close>

record rbuf =
  rb_buf :: bytes
  rb_len :: u32
  rb_in :: u32
  rb_out :: u32

definition rBufPut :: "rbuf \<Rightarrow> bytes \<Rightarrow> u32 \<Rightarrow> (u32 \<times> rbuf) option" where
  "rBufPut r src len =
     (if rb_in r < rb_out r
      then do {
        let retLen = min len (rb_out r - rb_in r - 1);
        b \<leftarrow> copy_loop (rb_buf r) (rb_in r) src 0 0 retLen;
        Some (retLen, r\<lparr>rb_buf := b, rb_in := rb_in r + retLen\<rparr>) }
      else if rb_out r = 0
      then do {
        let retLen = min len (rb_len r - rb_in r - 1);
        b \<leftarrow> copy_loop (rb_buf r) (rb_in r) src 0 0 retLen;
        Some (retLen, r\<lparr>rb_buf := b, rb_in := rb_in r + retLen\<rparr>) }
      else do {
        let retLen = min len (rb_len r - rb_in r);
        b \<leftarrow> copy_loop (rb_buf r) (rb_in r) src 0 0 retLen;
        if retLen < len
        then do {
          let rests = min (len - retLen) (rb_out r - 1);
          b' \<leftarrow> copy_loop b 0 src retLen 0 rests;
          Some (retLen + rests, r\<lparr>rb_buf := b', rb_in := rests\<rparr>) }
        else
          let inIndex = rb_in r + retLen
          in Some (retLen, r\<lparr>rb_buf := b, rb_in := (if inIndex = rb_len r then 0 else inIndex)\<rparr>) })"

definition rBufGet :: "rbuf \<Rightarrow> bytes \<Rightarrow> u32 \<Rightarrow> (u32 \<times> bytes) option" where
  "rBufGet r dst len =
     (if rb_in r \<ge> rb_out r
      then do {
        let retLen = min len (rb_in r - rb_out r);
        d \<leftarrow> copy_loop dst 0 (rb_buf r) (rb_out r) 0 retLen;
        Some (retLen, d) }
      else do {
        let retLen = min len (rb_len r - rb_out r);
        d \<leftarrow> copy_loop dst 0 (rb_buf r) (rb_out r) 0 retLen;
        if retLen < len
        then do {
          let rests = min (len - retLen) (rb_in r);
          d' \<leftarrow> copy_loop d retLen (rb_buf r) 0 0 rests;
          Some (retLen + rests, d') }
        else Some (retLen, d) })"

text \<open>
  The C code subtracts the indices as \<open>int\<close> and tests the sign; a 32-bit word read with the
  signed order \<open><s\<close> is the same value. The macro \<open>min\<close> compares an unsigned with an int, that is,
  as unsigned.
\<close>

definition rBufRemove :: "rbuf \<Rightarrow> u32 \<Rightarrow> u32 \<times> rbuf" where
  "rBufRemove r len =
     (let n = rb_in r - rb_out r;
          n = (if n <s 0 then n + rb_len r else n);
          retLen = min len n;
          added = rb_out r + retLen;
          added = (if added \<ge> rb_len r then added - rb_len r else added)
      in (retLen, r\<lparr>rb_out := added\<rparr>))"

definition rBufNBytes :: "rbuf \<Rightarrow> u32" where
  "rBufNBytes r = (let n = rb_in r - rb_out r in if n <s 0 then n + rb_len r else n)"

definition rBufIsFull :: "rbuf \<Rightarrow> bool" where
  "rBufIsFull r = (let n = rb_in r - rb_out r + 1 in n = 0 \<or> n = rb_len r)"

definition rBufClear :: "rbuf \<Rightarrow> rbuf" where
  "rBufClear r = r\<lparr>rb_in := 0, rb_out := 0\<rparr>"

definition rBufInit :: "rbuf \<Rightarrow> rbuf" where
  "rBufInit r = r\<lparr>rb_in := 0, rb_out := 0\<rparr>"

subsection \<open>Invariant and contents\<close>

text \<open>
  The storage has the configured length, both indices lie inside it, and the length is below
  $2^{31}$, so that the index difference of \<open>rBufRemove\<close> fits an \<open>int\<close>.
\<close>

definition rb_inv :: "rbuf \<Rightarrow> bool" where
  "rb_inv r \<longleftrightarrow> length (rb_buf r) = unat (rb_len r) \<and> rb_in r < rb_len r \<and> rb_out r < rb_len r
     \<and> unat (rb_len r) < 2 ^ 31"

definition ring_view :: "'a list \<Rightarrow> nat \<Rightarrow> nat \<Rightarrow> 'a list" where
  "ring_view b i out = (if out \<le> i then take (i - out) (drop out b) else drop out b @ take i b)"

definition rb_contents :: "rbuf \<Rightarrow> bytes" where
  "rb_contents r = ring_view (rb_buf r) (unat (rb_in r)) (unat (rb_out r))"

definition rb_room :: "rbuf \<Rightarrow> nat" where
  "rb_room r = unat (rb_len r) - 1 - length (rb_contents r)"

lemma rb_invD:
  assumes "rb_inv r"
  shows "length (rb_buf r) = unat (rb_len r)" "unat (rb_in r) < unat (rb_len r)"
    "unat (rb_out r) < unat (rb_len r)" "unat (rb_len r) < 2 ^ 31" "unat (rb_len r) < 2 ^ 32"
  using assms by (auto simp: rb_inv_def u32_less_nat)

lemma rb_contents_length:
  assumes "rb_inv r"
  shows "length (rb_contents r) =
    (if unat (rb_out r) \<le> unat (rb_in r) then unat (rb_in r) - unat (rb_out r)
     else unat (rb_len r) - unat (rb_out r) + unat (rb_in r))"
  using rb_invD [OF assms] by (auto simp: rb_contents_def ring_view_def)

lemma rb_contents_bound: "rb_inv r \<Longrightarrow> length (rb_contents r) < unat (rb_len r)"
  using rb_invD [of r] by (auto simp: rb_contents_length)

lemma rb_contents_free: "rb_inv r \<Longrightarrow> length (rb_contents r) + rb_room r + 1 = unat (rb_len r)"
  using rb_contents_bound [of r] by (simp add: rb_room_def)

text \<open>What a write of \<open>xs\<close> at the input index does to the view, by position of the indices.\<close>

lemma ring_view_write_wrapped:
  "i < out \<Longrightarrow> i + length xs < out \<Longrightarrow> out \<le> length b \<Longrightarrow>
     ring_view (take i b @ xs @ drop (i + length xs) b) (i + length xs) out = ring_view b i out @ xs"
  by (auto simp: ring_view_def)

lemma ring_view_write_linear:
  "out \<le> i \<Longrightarrow> i + length xs \<le> length b \<Longrightarrow>
     ring_view (take i b @ xs @ drop (i + length xs) b) (i + length xs) out = ring_view b i out @ xs"
  by (auto simp: ring_view_def drop_take)

lemma ring_view_write_end:
  "out \<le> i \<Longrightarrow> 0 < out \<Longrightarrow> i + length xs = length b \<Longrightarrow>
     ring_view (take i b @ xs @ drop (i + length xs) b) 0 out = ring_view b i out @ xs"
  by (auto simp: ring_view_def drop_take)

lemma copy_in_ring:
  assumes "rb_inv r" and "unat i + unat n \<le> length b" and "length b = unat (rb_len r)"
    and "unat s + unat n \<le> length src" and "unat s + unat n < 2 ^ 32"
  shows "copy_loop b i src s 0 n =
    Some (take (unat i) b @ take (unat n) (drop (unat s) src) @ drop (unat i + unat n) b)"
  using assms rb_invD [OF assms(1)] by (simp add: copy_loop_mem_copy)

subsection \<open>Put\<close>

text \<open>What one put promises: as many bytes as there is room for, appended to the contents.\<close>

definition put_ok :: "rbuf \<Rightarrow> bytes \<Rightarrow> u32 \<Rightarrow> (u32 \<times> rbuf) option \<Rightarrow> bool" where
  "put_ok r src len res \<longleftrightarrow> (\<exists>n r'. res = Some (n, r') \<and> unat n = min (unat len) (rb_room r)
     \<and> rb_inv r' \<and> rb_contents r' = rb_contents r @ take (unat n) src \<and> rb_len r' = rb_len r)"

lemma put_okI:
  assumes "rb_inv r" and "res = Some (n, r\<lparr>rb_buf := b, rb_in := i\<rparr>)"
    and "unat n = min (unat len) (rb_room r)" and "length b = length (rb_buf r)"
    and "unat i < unat (rb_len r)"
    and "ring_view b (unat i) (unat (rb_out r)) = rb_contents r @ take (unat n) src"
  shows "put_ok r src len res"
  using assms by (auto simp: put_ok_def rb_inv_def rb_contents_def u32_less_nat)

lemma rBufPut_wrapped:
  assumes inv: "rb_inv r" and wr: "rb_in r < rb_out r" and src: "unat len \<le> length src"
  shows "put_ok r src len (rBufPut r src len)"
proof (rule put_okI [OF inv])
  note d = rb_invD [OF inv]
  let ?n = "min len (rb_out r - rb_in r - 1)"
  let ?b = "take (unat (rb_in r)) (rb_buf r) @ take (unat ?n) src @ drop (unat (rb_in r) + unat ?n) (rb_buf r)"
  have io: "unat (rb_in r) < unat (rb_out r)" using wr by (simp add: u32_less_nat)
  have nn: "unat ?n = min (unat len) (unat (rb_out r) - unat (rb_in r) - 1)"
    using io by (simp add: u32_min_nat u32_sub_nat)
  have inn: "unat (rb_in r + ?n) = unat (rb_in r) + unat ?n"
    using d io nn by (intro u32_add_nat) auto
  show "rBufPut r src len = Some (?n, r\<lparr>rb_buf := ?b, rb_in := rb_in r + ?n\<rparr>)"
    unfolding rBufPut_def using wr inv d io nn src u32_bound [of len]
    by (simp add: Let_def copy_in_ring)
  show "unat ?n = min (unat len) (rb_room r)"
    using io d by (simp add: nn rb_room_def rb_contents_length [OF inv])
  show "length ?b = length (rb_buf r)" and "unat (rb_in r + ?n) < unat (rb_len r)"
    using d io src by (simp_all add: inn nn)
  show "ring_view ?b (unat (rb_in r + ?n)) (unat (rb_out r)) = rb_contents r @ take (unat ?n) src"
    unfolding inn rb_contents_def
    using ring_view_write_wrapped [of "unat (rb_in r)" "unat (rb_out r)" "take (unat ?n) src" "rb_buf r"] d io nn src
    by (simp add: min_absorb2)
qed

lemma rBufPut_linear:
  assumes inv: "rb_inv r" and wr: "rb_out r = 0" and src: "unat len \<le> length src"
  shows "put_ok r src len (rBufPut r src len)"
proof (rule put_okI [OF inv])
  note d = rb_invD [OF inv]
  let ?n = "min len (rb_len r - rb_in r - 1)"
  let ?b = "take (unat (rb_in r)) (rb_buf r) @ take (unat ?n) src @ drop (unat (rb_in r) + unat ?n) (rb_buf r)"
  have nn: "unat ?n = min (unat len) (unat (rb_len r) - unat (rb_in r) - 1)"
    using d by (simp add: u32_min_nat u32_sub_nat)
  have inn: "unat (rb_in r + ?n) = unat (rb_in r) + unat ?n"
    using d nn by (intro u32_add_nat) auto
  show "rBufPut r src len = Some (?n, r\<lparr>rb_buf := ?b, rb_in := rb_in r + ?n\<rparr>)"
    unfolding rBufPut_def using wr inv d nn src u32_bound [of len]
    by (simp add: Let_def copy_in_ring)
  show "unat ?n = min (unat len) (rb_room r)"
    using wr d by (simp add: nn rb_room_def rb_contents_length [OF inv])
  show "length ?b = length (rb_buf r)" and "unat (rb_in r + ?n) < unat (rb_len r)"
    using d src by (simp_all add: inn nn)
  show "ring_view ?b (unat (rb_in r + ?n)) (unat (rb_out r)) = rb_contents r @ take (unat ?n) src"
    unfolding inn rb_contents_def
    using ring_view_write_linear [of "unat (rb_out r)" "unat (rb_in r)" "take (unat ?n) src" "rb_buf r"] d nn src wr
    by (simp add: min_absorb2)
qed

text \<open>The third branch fits before the end of the storage.\<close>

lemma rBufPut_split_fits:
  assumes inv: "rb_inv r" and le: "\<not> rb_in r < rb_out r" and out: "rb_out r \<noteq> 0"
    and src: "unat len \<le> length src" and fits: "unat len \<le> unat (rb_len r) - unat (rb_in r)"
  shows "put_ok r src len (rBufPut r src len)"
proof -
  note d = rb_invD [OF inv]
  let ?b = "take (unat (rb_in r)) (rb_buf r) @ take (unat len) src @ drop (unat (rb_in r) + unat len) (rb_buf r)"
  have io: "unat (rb_out r) \<le> unat (rb_in r)" and o0: "0 < unat (rb_out r)"
    using le out by (simp_all add: u32_less_nat unat_gt_0)
  have nn: "min len (rb_len r - rb_in r) = len"
    using fits d by (simp add: u32_eq_nat u32_min_nat u32_sub_nat)
  have inn: "unat (rb_in r + len) = unat (rb_in r) + unat len"
    using d fits by (intro u32_add_nat) auto
  let ?i = "if rb_in r + len = rb_len r then 0 else rb_in r + len"
  show ?thesis
  proof (rule put_okI [OF inv, where n = len and b = ?b and i = ?i])
    show "rBufPut r src len = Some (len, r\<lparr>rb_buf := ?b, rb_in := ?i\<rparr>)"
      unfolding rBufPut_def nn using le out inv d src fits u32_bound [of len]
      by (simp add: Let_def copy_in_ring)
    show "unat len = min (unat len) (rb_room r)"
      using io o0 d fits by (simp add: rb_room_def rb_contents_length [OF inv])
    show "length ?b = length (rb_buf r)" and "unat ?i < unat (rb_len r)"
      using d src fits inn by (auto simp: u32_eq_nat)
    show "ring_view ?b (unat ?i) (unat (rb_out r)) = rb_contents r @ take (unat len) src"
      using ring_view_write_linear [of "unat (rb_out r)" "unat (rb_in r)" "take (unat len) src" "rb_buf r"]
        ring_view_write_end [of "unat (rb_out r)" "unat (rb_in r)" "take (unat len) src" "rb_buf r"]
        d io o0 src fits inn
      by (auto simp: rb_contents_def u32_eq_nat min_absorb2)
  qed
qed

lemma splice_length:
  "s + n \<le> length src \<Longrightarrow> n \<le> length b \<Longrightarrow> length (take n (drop s src) @ drop n b) = length b"
  by simp

lemma rBufPut_split_over:
  assumes inv: "rb_inv r" and le: "\<not> rb_in r < rb_out r" and out: "rb_out r \<noteq> 0"
    and src: "unat len \<le> length src" and over: "\<not> unat len \<le> unat (rb_len r) - unat (rb_in r)"
  shows "put_ok r src len (rBufPut r src len)"
proof -
  note d = rb_invD [OF inv]
  let ?n = "rb_len r - rb_in r"
  have io: "unat (rb_out r) \<le> unat (rb_in r)" and o0: "0 < unat (rb_out r)"
    using le out by (simp_all add: u32_less_nat unat_gt_0)
  have n: "unat ?n = unat (rb_len r) - unat (rb_in r)" using d by (simp add: u32_sub_nat)
  have nn: "min len ?n = ?n" and nlt: "?n < len"
    using over n by (simp_all add: u32_eq_nat u32_min_nat u32_less_nat)
  let ?m = "min (len - ?n) (rb_out r - 1)"
  have m: "unat ?m = min (unat len - unat ?n) (unat (rb_out r) - 1)"
    using nlt o0 by (simp add: u32_min_nat u32_sub_nat u32_less_nat)
  have mb: "unat ?m \<le> unat len - unat ?n" "unat ?n < unat len"
    using m nlt by (simp_all add: u32_less_nat)
  then have nm: "unat (?n + ?m) = unat ?n + unat ?m"
    using u32_bound [of len] by (intro u32_add_nat) linarith
  let ?b = "take (unat (rb_in r)) (rb_buf r) @ take (unat ?n) src"
  let ?c = "take (unat ?m) (drop (unat ?n) src) @ drop (unat ?m) ?b"
  have lb: "length ?b = length (rb_buf r)" using d n over src by simp
  have room: "rb_room r = unat (rb_len r) - unat (rb_in r) + (unat (rb_out r) - 1)"
    using io o0 d by (simp add: rb_room_def rb_contents_length [OF inv])
  have mo: "unat ?m < unat (rb_out r)" using m o0 by linarith
  have c1: "copy_loop (rb_buf r) (rb_in r) src 0 0 ?n = Some ?b"
    using d src over n u32_bound [of len] by (subst copy_in_ring [OF inv]) auto
  have fit: "unat ?n + unat ?m \<le> length src" using mb src by linarith
  then have lm: "length (take (unat ?m) (drop (unat ?n) src)) = unat ?m" by simp
  have "unat ?m < unat (rb_len r)" using m d by linarith
  moreover have "unat ?n + unat ?m < 2 ^ 32" using nm u32_bound [of "?n + ?m"] by simp
  ultimately have c2: "copy_loop ?b 0 src ?n 0 ?m = Some ?c"
    using fit copy_in_ring [OF inv, of 0 ?m ?b ?n src] d(1) lb by simp
  show ?thesis
  proof (rule put_okI [OF inv, where n = "?n + ?m" and b = ?c and i = ?m])
    show "rBufPut r src len = Some (?n + ?m, r\<lparr>rb_buf := ?c, rb_in := ?m\<rparr>)"
      unfolding rBufPut_def nn using le out nlt by (simp add: Let_def c1 c2)
    show "unat (?n + ?m) = min (unat len) (rb_room r)"
      unfolding nm m room n using n over by linarith
    show "unat ?m < unat (rb_len r)" by fact
    then show "length ?c = length (rb_buf r)"
      unfolding lb [symmetric] using fit lb d(1) by (intro splice_length) simp_all
    have "ring_view ?b 0 (unat (rb_out r)) = rb_contents r @ take (unat ?n) src"
      using ring_view_write_end [of "unat (rb_out r)" "unat (rb_in r)" "take (unat ?n) src" "rb_buf r"]
        d io o0 src over n by (simp add: rb_contents_def min_absorb2)
    moreover have "ring_view ?c (unat ?m) (unat (rb_out r)) =
        ring_view ?b 0 (unat (rb_out r)) @ take (unat ?m) (drop (unat ?n) src)"
      using ring_view_write_wrapped [of 0 "unat (rb_out r)" "take (unat ?m) (drop (unat ?n) src)" ?b]
        d(1,3) o0 mo lb lm by (simp del: append_assoc length_append)
    ultimately show "ring_view ?c (unat ?m) (unat (rb_out r)) = rb_contents r @ take (unat (?n + ?m)) src"
      by (simp add: nm take_add)
  qed
qed
lemma rBufPut_ok: "rb_inv r \<Longrightarrow> unat len \<le> length src \<Longrightarrow> put_ok r src len (rBufPut r src len)"
  using rBufPut_wrapped rBufPut_linear rBufPut_split_fits rBufPut_split_over by metis

subsection \<open>Get, remove and the queries\<close>

definition get_ok :: "rbuf \<Rightarrow> bytes \<Rightarrow> u32 \<Rightarrow> (u32 \<times> bytes) option \<Rightarrow> bool" where
  "get_ok r dst len res \<longleftrightarrow> (\<exists>n. unat n = min (unat len) (length (rb_contents r))
     \<and> res = Some (n, take (unat n) (rb_contents r) @ drop (unat n) dst))"

lemma copy_out_ring:
  assumes "rb_inv r" and "unat s + unat n \<le> length (rb_buf r)" and "unat d + unat n \<le> length dst"
    and "length dst < 2 ^ 32"
  shows "copy_loop dst d (rb_buf r) s 0 n =
    Some (take (unat d) dst @ take (unat n) (drop (unat s) (rb_buf r)) @ drop (unat d + unat n) dst)"
  using assms rb_invD [OF assms(1)] by (simp add: copy_loop_mem_copy)

lemma rBufGet_linear:
  assumes inv: "rb_inv r" and io: "unat (rb_out r) \<le> unat (rb_in r)"
    and dst: "unat len \<le> length dst" "length dst < 2 ^ 32"
  shows "get_ok r dst len (rBufGet r dst len)"
proof -
  note d = rb_invD [OF inv]
  let ?n = "min len (rb_in r - rb_out r)"
  have n: "unat ?n = min (unat len) (unat (rb_in r) - unat (rb_out r))"
    using io by (simp add: u32_min_nat u32_sub_nat)
  have "rBufGet r dst len = Some (?n, take (unat ?n) (drop (unat (rb_out r)) (rb_buf r)) @ drop (unat ?n) dst)"
    unfolding rBufGet_def using io d dst n by (simp add: u32_le_nat copy_out_ring [OF inv])
  moreover have "take (unat ?n) (rb_contents r) = take (unat ?n) (drop (unat (rb_out r)) (rb_buf r))"
    using io n by (simp add: rb_contents_def ring_view_def)
  ultimately show ?thesis using io n by (auto simp: get_ok_def rb_contents_length [OF inv])
qed

lemma rBufGet_wrapped_part:
  assumes inv: "rb_inv r" and io: "unat (rb_in r) < unat (rb_out r)"
    and dst: "unat len \<le> length dst" "length dst < 2 ^ 32"
    and fits: "unat len \<le> unat (rb_len r) - unat (rb_out r)"
  shows "get_ok r dst len (rBufGet r dst len)"
proof -
  note d = rb_invD [OF inv]
  have n: "min len (rb_len r - rb_out r) = len"
    using fits d by (simp add: u32_eq_nat u32_min_nat u32_sub_nat)
  have "rBufGet r dst len = Some (len, take (unat len) (drop (unat (rb_out r)) (rb_buf r)) @ drop (unat len) dst)"
    unfolding rBufGet_def n using io d dst fits by (simp add: u32_le_nat copy_out_ring [OF inv])
  moreover have "take (unat len) (rb_contents r) = take (unat len) (drop (unat (rb_out r)) (rb_buf r))"
    using io d fits by (simp add: rb_contents_def ring_view_def)
  ultimately show ?thesis using io fits d by (auto simp: get_ok_def rb_contents_length [OF inv])
qed

lemma rBufGet_wrapped_both:
  assumes inv: "rb_inv r" and io: "unat (rb_in r) < unat (rb_out r)"
    and dst: "unat len \<le> length dst" "length dst < 2 ^ 32"
    and over: "unat (rb_len r) - unat (rb_out r) < unat len"
  shows "get_ok r dst len (rBufGet r dst len)"
proof -
  note d = rb_invD [OF inv]
  let ?n = "rb_len r - rb_out r"
  have n: "unat ?n = unat (rb_len r) - unat (rb_out r)" using d by (simp add: u32_sub_nat)
  have nn: "min len ?n = ?n" and lt: "?n < len"
    using over n by (simp_all add: u32_eq_nat u32_min_nat u32_less_nat)
  let ?m = "min (len - ?n) (rb_in r)"
  have m: "unat ?m = min (unat len - unat ?n) (unat (rb_in r))"
    using over n by (simp add: u32_min_nat u32_sub_nat)
  have mb: "unat ?m \<le> unat len - unat ?n" "unat ?m \<le> unat (rb_in r)" using m by simp_all
  have nm: "unat (?n + ?m) = unat ?n + unat ?m"
    using mb over n u32_bound [of len] by (intro u32_add_nat) linarith
  let ?x = "drop (unat (rb_out r)) (rb_buf r)"
  let ?y = "take (unat ?m) (rb_buf r)"
  have c1: "copy_loop dst 0 (rb_buf r) (rb_out r) 0 ?n = Some (?x @ drop (unat ?n) dst)"
    using d dst n over by (simp add: copy_out_ring [OF inv])
  have lx: "length ?x = unat ?n" using d n by simp
  have dd: "unat ?n + unat ?m \<le> length dst" using mb over n dst by linarith
  have c2: "copy_loop (?x @ drop (unat ?n) dst) ?n (rb_buf r) 0 0 ?m
      = Some (?x @ ?y @ drop (unat ?n + unat ?m) dst)"
    using copy_out_ring [OF inv, of 0 ?m ?n "?x @ drop (unat ?n) dst"] d mb dst dd lx over n
    by (simp add: add.commute)
  have "rBufGet r dst len = Some (?n + ?m, ?x @ ?y @ drop (unat ?n + unat ?m) dst)"
    unfolding rBufGet_def nn using io lt by (simp add: u32_le_nat Let_def c1 c2)
  moreover have "take (unat (?n + ?m)) (rb_contents r) = ?x @ ?y"
    using io mb lx by (simp add: nm rb_contents_def ring_view_def)
  moreover have "unat (?n + ?m) = min (unat len) (length (rb_contents r))"
    unfolding nm m using io d over n by (simp add: rb_contents_length [OF inv])
  ultimately show ?thesis by (auto simp: get_ok_def nm)
qed

lemma rBufGet_ok:
  "rb_inv r \<Longrightarrow> unat len \<le> length dst \<Longrightarrow> length dst < 2 ^ 32 \<Longrightarrow> get_ok r dst len (rBufGet r dst len)"
  by (meson rBufGet_linear rBufGet_wrapped_part rBufGet_wrapped_both not_le)

lemma rBufNBytes_count:
  assumes inv: "rb_inv r"
  shows "unat (rBufNBytes r) = length (rb_contents r)"
proof -
  note d = rb_invD [OF inv]
  have sgn: "(rb_in r - rb_out r <s 0) = (unat (rb_in r) < unat (rb_out r))"
    using d by (intro u32_signed_negative) auto
  show ?thesis
  proof (cases "unat (rb_in r) < unat (rb_out r)")
    case True
    have "rBufNBytes r = rb_len r - (rb_out r - rb_in r)"
      using True by (simp add: rBufNBytes_def sgn)
    then show ?thesis
      using True d by (simp add: u32_sub_nat rb_contents_length [OF inv])
  next
    case False
    then show ?thesis
      using d by (simp add: rBufNBytes_def sgn u32_sub_nat rb_contents_length [OF inv])
  qed
qed

lemma rBufRemove_count:
  "rBufRemove r len = (let k = min len (rBufNBytes r); a = rb_out r + k
     in (k, r\<lparr>rb_out := (if a \<ge> rb_len r then a - rb_len r else a)\<rparr>))"
  by (simp add: rBufRemove_def rBufNBytes_def Let_def)

lemma ring_view_drop_linear:
  "k + out \<le> i \<Longrightarrow> ring_view b i (out + k) = drop k (ring_view b i out)"
  by (auto simp: ring_view_def add.commute drop_take)

lemma ring_view_drop_wrapped:
  "i < out \<Longrightarrow> out + k \<le> length b \<Longrightarrow> i < length b \<Longrightarrow>
    (if out + k = length b then ring_view b i 0 else ring_view b i (out + k)) = drop k (ring_view b i out)"
  by (auto simp: ring_view_def add.commute)

lemma ring_view_drop_around:
  "i < out \<Longrightarrow> out \<le> length b \<Longrightarrow> length b \<le> out + k \<Longrightarrow> out + k - length b \<le> i \<Longrightarrow>
    ring_view b i (out + k - length b) = drop k (ring_view b i out)"
  by (auto simp: ring_view_def drop_take add.commute)

lemma rBufRemove_ok:
  assumes inv: "rb_inv r"
  shows "case rBufRemove r len of (k, r') \<Rightarrow> unat k = min (unat len) (length (rb_contents r))
     \<and> rb_inv r' \<and> rb_contents r' = drop (unat k) (rb_contents r) \<and> rb_len r' = rb_len r"
proof -
  note d = rb_invD [OF inv]
  let ?k = "min len (rBufNBytes r)"
  let ?a = "rb_out r + ?k"
  let ?o = "if ?a \<ge> rb_len r then ?a - rb_len r else ?a"
  have k: "unat ?k = min (unat len) (length (rb_contents r))"
    by (simp add: u32_min_nat rBufNBytes_count [OF inv])
  then have kb: "unat ?k \<le> length (rb_contents r)" by simp
  have a: "unat ?a = unat (rb_out r) + unat ?k"
    using kb rb_contents_bound [OF inv] d by (intro u32_add_nat) simp
  have o: "unat ?o = (if unat (rb_len r) \<le> unat ?a then unat ?a - unat (rb_len r) else unat ?a)"
    by (simp add: u32_le_nat u32_sub_nat)
  have "ring_view (rb_buf r) (unat (rb_in r)) (unat ?o) = drop (unat ?k) (rb_contents r)"
    using kb d ring_view_drop_linear [of "unat ?k" "unat (rb_out r)" "unat (rb_in r)" "rb_buf r"]
      ring_view_drop_wrapped [of "unat (rb_in r)" "unat (rb_out r)" "unat ?k" "rb_buf r"]
      ring_view_drop_around [of "unat (rb_in r)" "unat (rb_out r)" "rb_buf r" "unat ?k"]
    by (auto simp: o a rb_contents_def [symmetric] rb_contents_length [OF inv] split: if_splits)
  moreover have "unat ?o < unat (rb_len r)"
    using kb d by (auto simp: o a rb_contents_length [OF inv] split: if_splits)
  ultimately show ?thesis
    using inv k by (simp add: rBufRemove_count Let_def rb_inv_def u32_less_nat rb_contents_def)
qed

lemma rBufIsFull_iff:
  assumes inv: "rb_inv r"
  shows "rBufIsFull r = (rb_room r = 0)"
proof (cases "unat (rb_in r) < unat (rb_out r)")
  case True
  note d = rb_invD [OF inv]
  let ?g = "rb_out r - rb_in r - 1"
  have g: "unat ?g = unat (rb_out r) - unat (rb_in r) - 1" using True by (simp add: u32_sub_nat)
  have "rb_in r - rb_out r + 1 = - ?g" by simp
  then have "rBufIsFull r = (?g = 0 \<or> - ?g = rb_len r)"
    unfolding rBufIsFull_def Let_def by (metis neg_equal_0_iff_equal)
  moreover have "- ?g \<noteq> rb_len r"
  proof
    assume eq: "- ?g = rb_len r"
    have "unat (?g + rb_len r) = unat ?g + unat (rb_len r)"
      using g d by (intro u32_add_nat) simp
    moreover have "?g + rb_len r = 0" unfolding eq [symmetric] by simp
    ultimately show False using d by simp
  qed
  ultimately show ?thesis
    using True g d by (simp add: u32_eq_nat rb_room_def rb_contents_length [OF inv])
next
  case False
  note d = rb_invD [OF inv]
  have "unat (rb_in r - rb_out r + 1) = unat (rb_in r) - unat (rb_out r) + 1"
    using False d by (subst u32_add_nat) (simp_all add: u32_sub_nat)
  then show ?thesis
    using False d by (auto simp: rBufIsFull_def Let_def u32_eq_nat rb_room_def rb_contents_length [OF inv])
qed

lemma rBufClear_inv: "rb_inv r \<Longrightarrow> rb_inv (rBufClear r) \<and> rb_contents (rBufClear r) = []"
  by (auto simp: rb_inv_def rBufClear_def rb_contents_def ring_view_def u32_less_nat)
lemma rBufPut_room:
  "rb_inv r \<Longrightarrow> unat len \<le> length src \<Longrightarrow> rBufPut r src len = Some (k, r') \<Longrightarrow>
     rb_room r' = rb_room r - unat k"
  using rBufPut_ok [of r len src] by (auto simp: put_ok_def rb_room_def)

subsection \<open>The interface of the ring\<close>

text \<open>
  A bounded first-in first-out store of bytes: a put appends what there is room for, a get copies
  a prefix and leaves the store alone, a remove drops a prefix.
\<close>

locale byte_fifo =
  fixes put :: "'q \<Rightarrow> bytes \<Rightarrow> u32 \<Rightarrow> (u32 \<times> 'q) option"
    and get :: "'q \<Rightarrow> bytes \<Rightarrow> u32 \<Rightarrow> (u32 \<times> bytes) option"
    and remove :: "'q \<Rightarrow> u32 \<Rightarrow> u32 \<times> 'q"
    and contents :: "'q \<Rightarrow> bytes"
    and room :: "'q \<Rightarrow> nat"
    and inv :: "'q \<Rightarrow> bool"
  assumes put_spec: "inv q \<Longrightarrow> unat n \<le> length src \<Longrightarrow>
      \<exists>k q'. put q src n = Some (k, q') \<and> unat k = min (unat n) (room q) \<and> inv q'
        \<and> contents q' = contents q @ take (unat k) src \<and> room q' = room q - unat k"
    and get_spec: "inv q \<Longrightarrow> unat n \<le> length dst \<Longrightarrow> length dst < 2 ^ 32 \<Longrightarrow>
      \<exists>k. unat k = min (unat n) (length (contents q))
        \<and> get q dst n = Some (k, take (unat k) (contents q) @ drop (unat k) dst)"
    and remove_spec: "inv q \<Longrightarrow>
      \<exists>k q'. remove q n = (k, q') \<and> unat k = min (unat n) (length (contents q)) \<and> inv q'
        \<and> contents q' = drop (unat k) (contents q)"

text \<open>
  A client of a store is a list of puts by the producer and takes (a get and then a remove of what
  was read) by the consumer, in any order. A run gives the bytes the store accepted, the bytes the
  consumer saw and the final store.
\<close>

datatype fifo_op = FPut bytes | FTake u32

fun fifo_run :: "('q \<Rightarrow> bytes \<Rightarrow> u32 \<Rightarrow> (u32 \<times> 'q) option) \<Rightarrow> ('q \<Rightarrow> bytes \<Rightarrow> u32 \<Rightarrow> (u32 \<times> bytes) option)
    \<Rightarrow> ('q \<Rightarrow> u32 \<Rightarrow> u32 \<times> 'q) \<Rightarrow> 'q \<Rightarrow> fifo_op list \<Rightarrow> (bytes \<times> bytes \<times> 'q) option" where
  "fifo_run put get remove q [] = Some ([], [], q)"
| "fifo_run put get remove q (FPut src # ops) = do {
     (k, q') \<leftarrow> put q src (of_nat (length src));
     (acc, seen, q'') \<leftarrow> fifo_run put get remove q' ops;
     Some (take (unat k) src @ acc, seen, q'') }"
| "fifo_run put get remove q (FTake n # ops) = do {
     (k, d) \<leftarrow> get q (replicate (unat n) 0) n;
     (acc, seen, q'') \<leftarrow> fifo_run put get remove (snd (remove q k)) ops;
     Some (acc, take (unat k) d @ seen, q'') }"

definition fifo_op_ok :: "fifo_op \<Rightarrow> bool" where
  "fifo_op_ok p = (case p of FPut src \<Rightarrow> length src < 2 ^ 32 | FTake n \<Rightarrow> True)"

context byte_fifo
begin

lemma get_remove:
  assumes "inv q" and "get q (replicate (unat n) 0) n = Some (k, d)"
  shows "take (unat k) d @ contents (snd (remove q k)) = contents q \<and> inv (snd (remove q k))"
proof -
  obtain j where j: "unat j = min (unat n) (length (contents q))"
      "get q (replicate (unat n) 0) n = Some (j, take (unat j) (contents q) @ drop (unat j) (replicate (unat n) 0))"
    using get_spec [OF assms(1), of n "replicate (unat n) 0"] u32_bound [of n] by auto
  obtain i q' where "remove q k = (i, q')" "unat i = min (unat k) (length (contents q))" "inv q'"
      "contents q' = drop (unat i) (contents q)"
    using remove_spec [OF assms(1), of k] by auto
  with j assms(2) show ?thesis by auto
qed

lemma stream:
  assumes "inv q" and "list_all fifo_op_ok ops"
  shows "\<exists>acc seen q'. fifo_run put get remove q ops = Some (acc, seen, q') \<and> inv q'
     \<and> contents q @ acc = seen @ contents q'"
  using assms
proof (induction ops arbitrary: q)
  case Nil
  then show ?case by simp
next
  case (Cons p ops)
  show ?case
  proof (cases p)
    case (FPut src)
    then have len: "unat (of_nat (length src) :: u32) = length src"
      using Cons.prems(2) by (simp add: fifo_op_ok_def u32_of_nat)
    from put_spec [OF Cons.prems(1), of "of_nat (length src)" src]
    obtain k q' where put: "put q src (of_nat (length src)) = Some (k, q')" "inv q'"
        "contents q' = contents q @ take (unat k) src"
      by (auto simp: len)
    with Cons.IH [of q'] Cons.prems(2) show ?thesis by (auto simp: FPut)
  next
    case (FTake n)
    obtain k d where get: "get q (replicate (unat n) 0) n = Some (k, d)"
      using get_spec [OF Cons.prems(1), of n "replicate (unat n) 0"] u32_bound [of n] by auto
    note gr = get_remove [OF Cons.prems(1) get]
    then obtain acc seen q'' where "fifo_run put get remove (snd (remove q k)) ops = Some (acc, seen, q'')"
        "inv q''" "contents (snd (remove q k)) @ acc = seen @ contents q''"
      using Cons.IH [of "snd (remove q k)"] Cons.prems(2) by auto
    with gr get show ?thesis
      by (auto simp: FTake) (metis append_assoc)
  qed
qed

end

interpretation ring: byte_fifo rBufPut rBufGet rBufRemove rb_contents rb_room rb_inv
proof unfold_locales
  fix q :: rbuf and n :: u32 and src :: bytes
  assume *: "rb_inv q" "unat n \<le> length src"
  show "\<exists>k q'. rBufPut q src n = Some (k, q') \<and> unat k = min (unat n) (rb_room q) \<and> rb_inv q'
      \<and> rb_contents q' = rb_contents q @ take (unat k) src \<and> rb_room q' = rb_room q - unat k"
    using rBufPut_ok [OF *] rBufPut_room [OF *] by (fastforce simp: put_ok_def)
next
  fix q :: rbuf and n :: u32 and dst :: bytes
  assume "rb_inv q" "unat n \<le> length dst" "length dst < 2 ^ 32"
  then show "\<exists>k. unat k = min (unat n) (length (rb_contents q))
      \<and> rBufGet q dst n = Some (k, take (unat k) (rb_contents q) @ drop (unat k) dst)"
    using rBufGet_ok [of q n dst] by (simp add: get_ok_def)
next
  fix q :: rbuf and n :: u32
  assume "rb_inv q"
  then show "\<exists>k q'. rBufRemove q n = (k, q') \<and> unat k = min (unat n) (length (rb_contents q)) \<and> rb_inv q'
      \<and> rb_contents q' = drop (unat k) (rb_contents q)"
    using rBufRemove_ok [of q n] by (auto split: prod.splits)
qed

subsection \<open>Properties\<close>

text \<open>C36. The ring is a lossless byte stream: for any interleaving of producer puts and consumer
  takes, no access leaves the storage, the invariant is kept, and the bytes accepted by the puts
  come out of the takes in order, the rest of them still being stored.\<close>

theorem ring_stream:
  assumes "rb_inv r" and "list_all fifo_op_ok ops"
  shows "\<exists>acc seen r'. fifo_run rBufPut rBufGet rBufRemove r ops = Some (acc, seen, r') \<and> rb_inv r'
     \<and> rb_contents r @ acc = seen @ rb_contents r'"
  using assms by (rule ring.stream)

definition ring_example :: rbuf where
  "ring_example = \<lparr>rb_buf = [10, 11, 12, 13], rb_len = 4, rb_in = 3, rb_out = 1\<rparr>"

theorem ring_stream_witness:
  "\<exists>acc seen r'. fifo_run rBufPut rBufGet rBufRemove ring_example [FPut [20, 21], FTake 2, FPut [22]]
        = Some (acc, seen, r') \<and> rb_inv r' \<and> rb_contents ring_example @ acc = seen @ rb_contents r'"
  using ring_stream [of ring_example "[FPut [20, 21], FTake 2, FPut [22]]"]
  by (simp add: ring_example_def rb_inv_def fifo_op_ok_def)

text \<open>One put stores the first \<open>min len room\<close> bytes of its argument behind the contents, where
  the room is the capacity less one less the bytes stored, reports that number, and never writes
  outside the storage, whichever of its three branches it takes.\<close>

theorem rBufPut_appends:
  assumes "rb_inv r" and "unat len \<le> length src"
  shows "\<exists>k r'. rBufPut r src len = Some (k, r')
     \<and> unat k = min (unat len) (unat (rb_len r) - 1 - length (rb_contents r))
     \<and> rb_contents r' = rb_contents r @ take (unat k) src \<and> rb_inv r' \<and> rb_len r' = rb_len r"
  using rBufPut_ok [OF assms] by (auto simp: put_ok_def rb_room_def)

theorem rBufPut_appends_witness:
  "\<exists>k r'. rBufPut ring_example [20, 21] 2 = Some (k, r')
     \<and> unat k = min (unat (2::u32)) (unat (rb_len ring_example) - 1 - length (rb_contents ring_example))
     \<and> rb_contents r' = rb_contents ring_example @ take (unat k) [20, 21] \<and> rb_inv r'
     \<and> rb_len r' = rb_len ring_example"
  using rBufPut_appends [of ring_example 2 "[20, 21]"] by (simp add: ring_example_def rb_inv_def)

text \<open>The byte count and the full test are exact: \<open>rBufNBytes\<close> is the number of stored bytes, and
  \<open>rBufIsFull\<close> holds exactly when no further byte can be put.\<close>

theorem ring_count_and_full:
  assumes "rb_inv r"
  shows "unat (rBufNBytes r) = length (rb_contents r)
     \<and> (rBufIsFull r \<longleftrightarrow> length (rb_contents r) = unat (rb_len r) - 1)"
  using rBufNBytes_count [OF assms] rBufIsFull_iff [OF assms] rb_contents_free [OF assms] by auto

theorem ring_count_and_full_witness:
  "unat (rBufNBytes ring_example) = 2 \<and> \<not> rBufIsFull ring_example"
  using ring_count_and_full [of ring_example]
  by (simp add: ring_example_def rb_inv_def rb_contents_def ring_view_def)

end
