(* ===== verification/PacketFinder.thy ===== *)
theory PacketFinder
  imports RingBuf
begin

text \<open>
  The packet finder of pkfinder.c: \<open>pkfinderFind\<close> looks for a masked header in a byte buffer and
  decides whether a whole packet follows it, \<open>pkfinderParse\<close> drains a ring buffer, hands every
  whole packet to a callback and removes what has been dealt with. The loop of
  \<open>pkfinderParse\<close> need not stop for every configuration, so it is a partial function: \<open>None\<close> is a
  run that does not return or that leaves its buffers. \<open>pf_ok\<close> is the condition on the
  configuration under which it always returns.
\<close>

subsection \<open>Configuration and header search\<close>

record pkfinder =
  pf_headBuf :: "bytes option"
  pf_headLen :: u32
  pf_headMasks :: "bytes option"
  pf_isPkFixLen :: bool
  pf_pkFixLen :: u32
  pf_pkLenPos :: u32
  pf_pkLenLen :: u32
  pf_pkLenFirstMsk :: u8
  pf_pkLenEnd :: u8
  pf_pkLenAdd :: u32

definition ENDIAN_LITTLE :: u8 where "ENDIAN_LITTLE = 0x55"

definition ENDIAN_BIG :: u8 where "ENDIAN_BIG = 0xaa"

text \<open>STATUS values of gtypes.h.\<close>

abbreviation STATUS_OK :: int where "STATUS_OK \<equiv> 0"
abbreviation STATUS_ERROR :: int where "STATUS_ERROR \<equiv> - 1"

text \<open>The inner loop: compare header bytes from index \<open>j\<close>; the result is the value of \<open>j\<close> at the
  \<open>break\<close> or at the end.\<close>

function match_head :: "bytes \<Rightarrow> bytes \<Rightarrow> bytes \<Rightarrow> u32 \<Rightarrow> u32 \<Rightarrow> u32 \<Rightarrow> u32 option" where
  "match_head buf hb hm i j n =
     (if j < n
      then do {
        b \<leftarrow> arr_get buf (unat (i + j));
        m \<leftarrow> arr_get hm (unat j);
        h \<leftarrow> arr_get hb (unat j);
        if b AND m \<noteq> h then Some j else match_head buf hb hm i (j + 1) n }
      else Some j)"
  by pat_completeness auto
termination
  by (relation "measure (\<lambda>(buf, hb, hm, i, j, n). unat n - unat j)")
     (auto simp: u32_suc_nat u32_less_nat intro: diff_less_mono2)

text \<open>The outer loop, with \<open>lim = len - headLen + 1\<close>.\<close>

function find_head :: "bytes \<Rightarrow> bytes \<Rightarrow> bytes \<Rightarrow> u32 \<Rightarrow> u32 \<Rightarrow> u32 \<Rightarrow> u32 option option" where
  "find_head buf hb hm i n lim =
     (if i < lim
      then do {
        j \<leftarrow> match_head buf hb hm i 0 n;
        if j = n then Some (Some i) else find_head buf hb hm (i + 1) n lim }
      else Some None)"
  by pat_completeness auto
termination
  by (relation "measure (\<lambda>(buf, hb, hm, i, n, lim). unat lim - unat i)")
     (auto simp: u32_suc_nat u32_less_nat intro: diff_less_mono2)

declare match_head.simps [simp del] find_head.simps [simp del]

subsection \<open>The length field\<close>

text \<open>The four-byte array \<open>pkLenArr\<close> after the copy loop and the mask on its first byte.\<close>

definition pk_len_arr :: "pkfinder \<Rightarrow> bytes \<Rightarrow> u32 \<Rightarrow> bytes option" where
  "pk_len_arr pf buf fndPos = do {
     arr \<leftarrow> copy_loop [0, 0, 0, 0] 0 buf (fndPos + pf_pkLenPos pf) 0 (pf_pkLenLen pf);
     b0 \<leftarrow> arr_get arr 0;
     arr_set arr 0 (b0 AND pf_pkLenFirstMsk pf) }"

definition pk_len_value :: "pkfinder \<Rightarrow> bytes \<Rightarrow> u32" where
  "pk_len_value pf arr =
     (let n = unat (pf_pkLenLen pf)
      in if pf_pkLenEnd pf = ENDIAN_LITTLE
         then foldl (\<lambda>v i. v OR push_bit (i * 8) (ucast (arr ! i))) 0 [0..<n]
         else foldl (\<lambda>v i. v OR push_bit (i * 8) (ucast (arr ! (n - i - 1)))) 0 [0..<n])"

text \<open>
  \<open>pkfinderFind\<close> returns its code and the values of the two output parameters, which keep their
  old values where the code does not assign them.
\<close>

definition pkfinderFind :: "pkfinder \<Rightarrow> bytes \<Rightarrow> u32 \<Rightarrow> u32 \<Rightarrow> u32 \<Rightarrow> (int \<times> u32 \<times> u32) option" where
  "pkfinderFind pf buf len fndPos fndLen =
     (case (pf_headBuf pf, pf_headMasks pf) of
        (Some hb, Some hm) \<Rightarrow> do {
          found \<leftarrow> find_head buf hb hm 0 (pf_headLen pf) (len - pf_headLen pf + 1);
          (case found of
             None \<Rightarrow> Some (0, fndPos, fndLen)
           | Some pos \<Rightarrow>
               if pf_isPkFixLen pf
               then if pos + pf_pkFixLen pf > len then Some (1, pos, fndLen)
                    else Some (2, pos, pf_pkFixLen pf)
               else if pf_pkLenLen pf > 4 then Some (- 1, pos, fndLen)
               else if pos + pf_pkLenPos pf + pf_pkLenLen pf > len then Some (1, pos, fndLen)
               else do {
                 arr \<leftarrow> pk_len_arr pf buf pos;
                 let pkLen = pk_len_value pf arr;
                 if pos + pkLen + pf_pkLenAdd pf > len
                 then Some (1, pos, pkLen + pf_pkLenAdd pf)
                 else Some (2, pos, pkLen + pf_pkLenAdd pf) }) }
      | _ \<Rightarrow> Some (- 1, fndPos, fndLen))"

subsection \<open>Draining the ring\<close>

text \<open>
  The callback gets the packet's bytes and their number and may change the state \<open>'s\<close> of its
  module. The loop ends with \<open>Inl\<close> on the error return and otherwise with the index up to which
  the ring is to be emptied and the status.
\<close>

partial_function (option) parse_loop ::
  "pkfinder \<Rightarrow> bytes \<Rightarrow> u32 \<Rightarrow> u32 \<Rightarrow> ('s \<Rightarrow> bytes \<Rightarrow> u32 \<Rightarrow> (bool \<times> 's) option)
    \<Rightarrow> u32 \<Rightarrow> u32 \<Rightarrow> u32 \<Rightarrow> int \<Rightarrow> 's \<Rightarrow> ('s + u32 \<times> int \<times> 's) option" where
  "parse_loop pf parseBuf parseBufLen datLen chkExec fndIndex pkPos pkLen pk_fres s =
     (if fndIndex + pf_headLen pf \<le> datLen
      then do {
        (findRslt, pkPos', pkLen') \<leftarrow>
          pkfinderFind pf (drop (unat fndIndex) parseBuf) (datLen - fndIndex) pkPos pkLen;
        if findRslt = 0 then Some (Inr (datLen - pf_headLen pf, pk_fres, s))
        else if findRslt = 1
        then Some (Inr (if pkLen' > parseBufLen then fndIndex + (pkPos' + pf_headLen pf)
                        else fndIndex + pkPos', pk_fres, s))
        else if findRslt = 2
        then do {
          pk \<leftarrow> mem_read parseBuf (unat (fndIndex + pkPos')) (unat pkLen');
          (f, s') \<leftarrow> chkExec s pk pkLen';
          if f
          then parse_loop pf parseBuf parseBufLen datLen chkExec
                 (fndIndex + (pkPos' + pkLen')) pkPos' pkLen' STATUS_OK s'
          else parse_loop pf parseBuf parseBufLen datLen chkExec
                 (fndIndex + (pkPos' + pf_headLen pf)) pkPos' pkLen' pk_fres s' }
        else Some (Inl s) }
      else Some (Inr (fndIndex, pk_fres, s)))"

definition pkfinderParse :: "pkfinder \<Rightarrow> rbuf \<Rightarrow> bytes \<Rightarrow> u32
    \<Rightarrow> ('s \<Rightarrow> bytes \<Rightarrow> u32 \<Rightarrow> (bool \<times> 's) option) \<Rightarrow> 's \<Rightarrow> (int \<times> rbuf \<times> bytes \<times> 's) option" where
  "pkfinderParse pf r parseBuf parseBufLen chkExec s = do {
     (datLen, pb) \<leftarrow> rBufGet r parseBuf parseBufLen;
     res \<leftarrow> parse_loop pf pb parseBufLen datLen chkExec 0 0 0 STATUS_ERROR s;
     (case res of
        Inl s' \<Rightarrow> Some (STATUS_ERROR, r, pb, s')
      | Inr (fndIndex, pk_fres, s') \<Rightarrow> Some (pk_fres, snd (rBufRemove r fndIndex), pb, s')) }"

subsection \<open>What a header and a packet are\<close>

definition head_at :: "pkfinder \<Rightarrow> bytes \<Rightarrow> nat \<Rightarrow> bool" where
  "head_at pf buf i \<longleftrightarrow> (\<forall>j < unat (pf_headLen pf).
     buf ! (i + j) AND the (pf_headMasks pf) ! j = the (pf_headBuf pf) ! j)"

text \<open>The packet length the code reads at a header at position \<open>i\<close>.\<close>

definition packet_len :: "pkfinder \<Rightarrow> bytes \<Rightarrow> nat \<Rightarrow> nat" where
  "packet_len pf buf i =
     (if pf_isPkFixLen pf then unat (pf_pkFixLen pf)
      else let p = i + unat (pf_pkLenPos pf); n = unat (pf_pkLenLen pf);
               arr = take n (drop p buf) @ replicate (4 - n) 0
           in unat (pk_len_value pf (arr[0 := arr ! 0 AND pf_pkLenFirstMsk pf])) + unat (pf_pkLenAdd pf))"

text \<open>
  A configuration for which no packet is empty and no 32-bit sum of the code wraps: at most a
  two-byte length field, and small positions and lengths.
\<close>

definition pf_ok :: "pkfinder \<Rightarrow> bool" where
  "pf_ok pf \<longleftrightarrow> (\<exists>hb hm. pf_headBuf pf = Some hb \<and> pf_headMasks pf = Some hm
       \<and> unat (pf_headLen pf) \<le> length hb \<and> unat (pf_headLen pf) \<le> length hm)
     \<and> 0 < unat (pf_headLen pf) \<and> unat (pf_headLen pf) < 2 ^ 16
     \<and> (if pf_isPkFixLen pf then 0 < unat (pf_pkFixLen pf) \<and> unat (pf_pkFixLen pf) < 2 ^ 16
        else unat (pf_pkLenLen pf) \<le> 2 \<and> unat (pf_pkLenPos pf) < 2 ^ 16
          \<and> 0 < unat (pf_pkLenAdd pf) \<and> unat (pf_pkLenAdd pf) < 2 ^ 16)"

subsection \<open>The header search finds the first header\<close>

lemma match_head_spec:
  assumes "unat i + unat n \<le> length buf" and "length buf < 2 ^ 32"
    and "unat n \<le> length hb" and "unat n \<le> length hm" and "j \<le> n"
  shows "\<exists>k. match_head buf hb hm i j n = Some k \<and>
     (k = n \<longleftrightarrow> (\<forall>m. unat j \<le> m \<and> m < unat n \<longrightarrow> buf ! (unat i + m) AND hm ! m = hb ! m))"
  using assms
proof (induction buf hb hm i j n rule: match_head.induct)
  case (1 buf hb hm i j n)
  show ?case
  proof (cases "j < n")
    case True
    then have jn: "unat j < unat n" by (simp add: u32_less_nat)
    have ij: "unat (i + j) = unat i + unat j" using "1.prems" jn by (intro u32_add_nat) linarith
    have gets: "arr_get buf (unat (i + j)) = Some (buf ! (unat i + unat j))"
        "arr_get hm (unat j) = Some (hm ! unat j)" "arr_get hb (unat j) = Some (hb ! unat j)"
      using "1.prems" jn by (simp_all add: arr_get_def ij)
    have unfolded: "match_head buf hb hm i j n =
        (if buf ! (unat i + unat j) AND hm ! unat j \<noteq> hb ! unat j then Some j
         else match_head buf hb hm i (j + 1) n)"
      using True by (subst match_head.simps) (simp add: gets)
    show ?thesis
    proof (cases "buf ! (unat i + unat j) AND hm ! unat j \<noteq> hb ! unat j")
      case True
      then show ?thesis using jn unfolded \<open>j < n\<close> by auto
    next
      case False
      have "j + 1 \<le> n" using True by (simp add: u32_le_nat u32_suc_nat [OF True] u32_less_nat)
      then obtain k where k: "match_head buf hb hm i (j + 1) n = Some k"
          "k = n \<longleftrightarrow> (\<forall>m. unat (j + 1) \<le> m \<and> m < unat n \<longrightarrow> buf ! (unat i + m) AND hm ! m = hb ! m)"
        using "1.IH" [OF True gets False] "1.prems" by auto
      have "(\<forall>m. unat j \<le> m \<and> m < unat n \<longrightarrow> buf ! (unat i + m) AND hm ! m = hb ! m) =
          (\<forall>m. unat (j + 1) \<le> m \<and> m < unat n \<longrightarrow> buf ! (unat i + m) AND hm ! m = hb ! m)"
        using False u32_suc_nat [OF True] by (metis Suc_leD le_antisym not_less_eq_eq)
      then show ?thesis using k unfolded False by simp
    qed
  next
    case False
    then have "j = n" using "1.prems" by simp
    then show ?thesis by (subst match_head.simps) auto
  qed
qed

lemma find_head_find:
  assumes "unat lim + unat n \<le> length buf + 1" and "length buf < 2 ^ 32 - 1"
    and "unat n \<le> length hb" and "unat n \<le> length hm" 
  shows "find_head buf hb hm i n lim = Some (map_option of_nat
     (find (\<lambda>i. \<forall>j < unat n. buf ! (i + j) AND hm ! j = hb ! j) [unat i..<unat lim]))"
  using assms
proof (induction buf hb hm i n lim rule: find_head.induct)
  case (1 buf hb hm i n lim)
  show ?case
  proof (cases "i < lim")
    case True
    then have il: "unat i < unat lim" by (simp add: u32_less_nat)
    obtain k where k: "match_head buf hb hm i 0 n = Some k"
        "k = n \<longleftrightarrow> (\<forall>m. m < unat n \<longrightarrow> buf ! (unat i + m) AND hm ! m = hb ! m)"
      using match_head_spec [of i n buf hb hm 0] "1.prems" il by auto
    have IH: "k \<noteq> n \<Longrightarrow> find_head buf hb hm (i + 1) n lim = Some (map_option of_nat
        (find (\<lambda>i. \<forall>j < unat n. buf ! (i + j) AND hm ! j = hb ! j) [Suc (unat i)..<unat lim]))"
      using "1.IH" [OF True k(1)] "1.prems" by (simp add: u32_suc_nat [OF True])
    show ?thesis
    proof (cases "k = n")
      case True
      then have "\<forall>m < unat n. buf ! (unat i + m) AND hm ! m = hb ! m" using k by simp
      then show ?thesis
        using \<open>i < lim\<close> il k True by (subst find_head.simps) (simp add: upt_conv_Cons)
    next
      case False
      then have "\<not> (\<forall>m < unat n. buf ! (unat i + m) AND hm ! m = hb ! m)" using k by simp
      then show ?thesis
        using True il k False IH by (subst find_head.simps) (auto simp: upt_conv_Cons)
    qed
  next
    case False
    then show ?thesis by (subst find_head.simps) (simp add: u32_less_nat)
  qed
qed

lemma pf_okD:
  assumes "pf_ok pf"
  obtains hb hm where "pf_headBuf pf = Some hb" "pf_headMasks pf = Some hm"
    "unat (pf_headLen pf) \<le> length hb" "unat (pf_headLen pf) \<le> length hm"
    "0 < unat (pf_headLen pf)" "unat (pf_headLen pf) < 65536"
  using assms by (auto simp: pf_ok_def)

lemma find_head_pf:
  assumes "pf_ok pf" and "pf_headLen pf \<le> len" and "unat len \<le> length buf" and "length buf < 2 ^ 32 - 1"
  shows "find_head buf (the (pf_headBuf pf)) (the (pf_headMasks pf)) 0 (pf_headLen pf) (len - pf_headLen pf + 1)
     = Some (map_option of_nat (find (head_at pf buf) [0..<unat len - unat (pf_headLen pf) + 1]))"
proof -
  obtain hb hm where h: "pf_headBuf pf = Some hb" "pf_headMasks pf = Some hm"
    "unat (pf_headLen pf) \<le> length hb" "unat (pf_headLen pf) \<le> length hm"
    "0 < unat (pf_headLen pf)" "unat (pf_headLen pf) < 65536"
    using pf_okD [OF assms(1)] .
  have "unat (len - pf_headLen pf + 1) = unat len - unat (pf_headLen pf) + 1"
    using assms h(5) by (subst u32_add_nat) (auto simp: u32_sub_nat u32_le_nat)
  then show ?thesis
    using find_head_find [of "len - pf_headLen pf + 1" "pf_headLen pf" buf hb hm 0] assms h
    by (simp add: head_at_def [abs_def] u32_le_nat)
qed

subsection \<open>The length field\<close>

lemma u32_field_bound: "unat (ucast (a::u8) OR push_bit 8 (ucast (b::u8)) :: u32) < 65536"
proof -
  let ?w = "ucast a OR push_bit 8 (ucast b) :: u32"
  have "take_bit 16 ?w = ?w"
  proof (rule bit_word_eqI)
    fix n
    have "\<not> n < 16 \<Longrightarrow> \<not> bit a n \<and> \<not> bit b (n - 8)"
      using bit_imp_le_length [of a n] bit_imp_le_length [of b "n - 8"] by auto
    then show "bit (take_bit 16 ?w) n = bit ?w n"
      by (cases "n < 16") (simp_all add: bit_simps)
  qed
  then have "unat ?w = unat (take_bit 16 ?w)" by simp
  also have "\<dots> = take_bit 16 (unat ?w)" by (rule unsigned_take_bit_eq)
  also have "\<dots> < 2 ^ 16" by (rule take_bit_nat_less_exp)
  finally show ?thesis by simp
qed

lemma upt_small: "[0..<0] = []" "[0..<Suc 0] = [0]" "[0..<2] = [0, 1]"
  by (simp_all add: upt_rec)

lemma pk_len_value_small:
  "unat (pf_pkLenLen pf) = 0 \<Longrightarrow> pk_len_value pf arr = 0"
  "unat (pf_pkLenLen pf) = 1 \<Longrightarrow> pk_len_value pf arr = ucast (arr ! 0)"
  "unat (pf_pkLenLen pf) = 2 \<Longrightarrow> pk_len_value pf arr =
     (if pf_pkLenEnd pf = ENDIAN_LITTLE then ucast (arr ! 0) OR push_bit 8 (ucast (arr ! 1))
      else ucast (arr ! 1) OR push_bit 8 (ucast (arr ! 0)))"
  by (simp_all only: pk_len_value_def Let_def upt_small One_nat_def) simp_all

lemma pk_len_value_bound:
  assumes "unat (pf_pkLenLen pf) \<le> 2"
  shows "unat (pk_len_value pf arr) < 65536"
proof -
  consider "unat (pf_pkLenLen pf) = 0" | "unat (pf_pkLenLen pf) = 1" | "unat (pf_pkLenLen pf) = 2"
    using assms by linarith
  then show ?thesis
    using u32_field_bound [of "arr ! 0" "arr ! 1"] u32_field_bound [of "arr ! 1" "arr ! 0"]
      u32_field_bound [of "arr ! 0" 0]
    by cases (simp_all add: pk_len_value_small)
qed

lemma pk_len_arr_Some:
  assumes "unat (pf_pkLenLen pf) \<le> 4" and "i + unat (pf_pkLenPos pf) + unat (pf_pkLenLen pf) \<le> length buf"
    and "length buf < 2 ^ 32"
  shows "\<exists>arr. pk_len_arr pf buf (of_nat i) = Some arr \<and>
    arr = (let a = take (unat (pf_pkLenLen pf)) (drop (i + unat (pf_pkLenPos pf)) buf)
             @ replicate (4 - unat (pf_pkLenLen pf)) 0 in a[0 := a ! 0 AND pf_pkLenFirstMsk pf])"
proof -
  let ?n = "unat (pf_pkLenLen pf)"
  let ?a = "take ?n (drop (i + unat (pf_pkLenPos pf)) buf) @ replicate (4 - ?n) 0"
  have p: "unat (of_nat i + pf_pkLenPos pf) = i + unat (pf_pkLenPos pf)"
    using assms by (subst u32_add_nat) (simp_all add: u32_of_nat)
  have z: "drop ?n [0, 0, 0, 0 :: u8] = replicate (4 - ?n) 0"
    using drop_replicate [of ?n 4 "0 :: u8"] by (simp add: eval_nat_numeral)
  have "copy_loop [0, 0, 0, 0] 0 buf (of_nat i + pf_pkLenPos pf) 0 (pf_pkLenLen pf) = Some ?a"
    using assms by (subst copy_loop_mem_copy) (simp_all add: p z)
  moreover have "0 < length ?a" using assms by simp
  ultimately show ?thesis
    unfolding pk_len_arr_def arr_get_def arr_set_def Let_def by (simp del: length_append)
qed

subsection \<open>The finder as a function of the first header\<close>

lemma find_upt_Some: "find P [0..<n] = Some i \<Longrightarrow> i < n \<and> P i \<and> (\<forall>j < i. \<not> P j)"
  by (auto simp: find_Some_iff)

lemma packet_len_bound: "pf_ok pf \<Longrightarrow> 0 < packet_len pf buf i \<and> packet_len pf buf i < 2 ^ 17"
  by (auto simp: pf_ok_def packet_len_def Let_def intro!: add_less_mono [of _ "2 ^ 16" _ "2 ^ 16", simplified]
      intro: pk_len_value_bound)

definition find_result :: "pkfinder \<Rightarrow> bytes \<Rightarrow> nat \<Rightarrow> nat \<Rightarrow> u32 \<Rightarrow> int \<times> u32 \<times> u32" where
  "find_result pf buf len i l0 =
     (if \<not> pf_isPkFixLen pf \<and> len < i + unat (pf_pkLenPos pf) + unat (pf_pkLenLen pf) then (1, of_nat i, l0)
      else if len < i + packet_len pf buf i
      then (1, of_nat i, if pf_isPkFixLen pf then l0 else of_nat (packet_len pf buf i))
      else (2, of_nat i, of_nat (packet_len pf buf i)))"

lemma pkfinderFind_found:
  assumes ok: "pf_ok pf" and len: "pf_headLen pf \<le> len" "unat len \<le> length buf" "length buf < 2 ^ 31"
    and find: "find (head_at pf buf) [0..<unat len - unat (pf_headLen pf) + 1] = Some i"
  shows "pkfinderFind pf buf len p0 l0 = Some (find_result pf buf (unat len) i l0)"
proof -
  obtain hb hm where h: "pf_headBuf pf = Some hb" "pf_headMasks pf = Some hm"
    using pf_okD [OF ok] by blast
  have fh: "find_head buf hb hm 0 (pf_headLen pf) (len - pf_headLen pf + 1) = Some (Some (of_nat i))"
    using find_head_pf [OF ok len(1,2)] len(3) find h by simp
  have i: "i < 2 ^ 31" using conjunct1 [OF find_upt_Some [OF find]] len by simp
  have iw: "unat (of_nat i :: u32) = i" using i by (simp add: u32_of_nat)
  show ?thesis
  proof (cases "pf_isPkFixLen pf")
    case True
    then have "unat (of_nat i + pf_pkFixLen pf) = i + unat (pf_pkFixLen pf)"
      using ok i by (subst u32_add_nat) (simp_all add: iw pf_ok_def)
    then show ?thesis
      using True by (simp add: pkfinderFind_def h fh find_result_def packet_len_def u32_less_nat)
  next
    case False
    note f = False ok [unfolded pf_ok_def]
    have s1: "unat (of_nat i + pf_pkLenPos pf + pf_pkLenLen pf) = i + unat (pf_pkLenPos pf) + unat (pf_pkLenLen pf)"
      using f i by (subst u32_add_nat; (subst u32_add_nat)?) (simp_all add: iw u32_add_nat)
    show ?thesis
    proof (cases "unat len < i + unat (pf_pkLenPos pf) + unat (pf_pkLenLen pf)")
      case True
      then show ?thesis
        using f s1 by (simp add: pkfinderFind_def h fh find_result_def u32_less_nat)
    next
      case in_range: False
      obtain arr where arr: "pk_len_arr pf buf (of_nat i) = Some arr"
          "packet_len pf buf i = unat (pk_len_value pf arr) + unat (pf_pkLenAdd pf)"
        using pk_len_arr_Some [of pf i buf] in_range len f by (auto simp: packet_len_def Let_def)
      have v: "unat (pk_len_value pf arr) < 65536" using f by (intro pk_len_value_bound) simp
      have s2: "unat (of_nat i + pk_len_value pf arr + pf_pkLenAdd pf) = i + packet_len pf buf i"
        using f i v by (subst u32_add_nat; (subst u32_add_nat)?) (simp_all add: iw u32_add_nat arr)
      have s3: "pk_len_value pf arr + pf_pkLenAdd pf = of_nat (packet_len pf buf i)"
        unfolding arr by simp
      show ?thesis
        using f s1 s2 in_range
        by (simp add: pkfinderFind_def h fh find_result_def u32_less_nat arr(1) s3)
    qed
  qed
qed

lemma pkfinderFind_none:
  assumes ok: "pf_ok pf" and len: "pf_headLen pf \<le> len" "unat len \<le> length buf" "length buf < 2 ^ 31"
    and find: "find (head_at pf buf) [0..<unat len - unat (pf_headLen pf) + 1] = None"
  shows "pkfinderFind pf buf len p0 l0 = Some (0, p0, l0)"
proof -
  obtain hb hm where h: "pf_headBuf pf = Some hb" "pf_headMasks pf = Some hm"
    using pf_okD [OF ok] by blast
  have "find_head buf hb hm 0 (pf_headLen pf) (len - pf_headLen pf + 1) = Some None"
    using find_head_pf [OF ok len(1,2)] len(3) find h by simp
  then show ?thesis by (simp add: pkfinderFind_def h)
qed
subsection \<open>The drain loop returns\<close>

text \<open>A callback is total on the states with \<open>P\<close> when it accepts or rejects every packet it is given there
  and keeps \<open>P\<close>.\<close>

definition chk_total :: "('s \<Rightarrow> bool) \<Rightarrow> ('s \<Rightarrow> bytes \<Rightarrow> u32 \<Rightarrow> (bool \<times> 's) option) \<Rightarrow> bool" where
  "chk_total P chk \<longleftrightarrow>
     (\<forall>s pk n. P s \<longrightarrow> length pk = unat n \<longrightarrow> (\<exists>b s'. chk s pk n = Some (b, s') \<and> P s'))"

lemma chk_totalD:
  "chk_total P chk \<Longrightarrow> P s \<Longrightarrow> length pk = unat n \<Longrightarrow> \<exists>b s'. chk s pk n = Some (b, s') \<and> P s'"
  by (simp add: chk_total_def)

text \<open>Every outcome of a search of a window of the parse buffer, with the position inside it.\<close>

lemma pkfinderFind_cases:
  assumes ok: "pf_ok pf" and len: "pf_headLen pf \<le> len" "unat len \<le> length buf" "length buf < 2 ^ 31"
  obtains (none) "pkfinderFind pf buf len p0 l0 = Some (0, p0, l0)"
  | (short) p l where "pkfinderFind pf buf len p0 l0 = Some (1, p, l)" "unat p + unat (pf_headLen pf) \<le> unat len"
  | (whole) p l where "pkfinderFind pf buf len p0 l0 = Some (2, p, l)" "unat p + unat (pf_headLen pf) \<le> unat len"
      "unat p + unat l \<le> unat len" "0 < unat l"
proof (cases "find (head_at pf buf) [0..<unat len - unat (pf_headLen pf) + 1]")
  case None
  then show ?thesis using that(1) pkfinderFind_none [OF ok len] by blast
next
  case (Some i)
  note fd = pkfinderFind_found [OF ok len Some, of p0 l0]
  have i: "i + unat (pf_headLen pf) \<le> unat len"
    using conjunct1 [OF find_upt_Some [OF Some]] len(1) by (simp add: u32_le_nat)
  then have iw: "unat (of_nat i :: u32) = i" using len by (simp add: u32_of_nat)
  have pl: "unat (of_nat (packet_len pf buf i) :: u32) = packet_len pf buf i" "0 < packet_len pf buf i"
    using packet_len_bound [OF ok, of buf i] by (simp_all add: u32_of_nat)
  show ?thesis
    using that(2,3) fd i iw pl by (auto simp: find_result_def split: if_splits)
qed

lemma pf_ok_headLen:
  assumes "pf_ok pf"
  shows "0 < unat (pf_headLen pf)" "unat (pf_headLen pf) < 65536"
  using assms by (simp_all add: pf_ok_def)

lemma parse_loop_total:
  assumes ok: "pf_ok pf" and chk: "chk_total P chk" and buf: "unat datLen \<le> length pb" "length pb < 2 ^ 31"
    and idx: "unat fndIndex \<le> unat datLen" and P: "P s"
  shows "\<exists>k st s'. parse_loop pf pb pbLen datLen chk fndIndex pkPos pkLen fres s = Some (Inr (k, st, s'))
     \<and> unat k \<le> unat datLen \<and> P s'"
  using idx P
proof (induction "unat datLen - unat fndIndex" arbitrary: fndIndex pkPos pkLen fres s rule: less_induct)
  case less
  note hl = pf_ok_headLen [OF ok]
  have add: "unat (fndIndex + w) = unat fndIndex + unat w" if "unat w \<le> 2 ^ 31" for w
    using less.prems buf that by (intro u32_add_nat) simp
  show ?case
  proof (cases "fndIndex + pf_headLen pf \<le> datLen")
    case False
    then show ?thesis using less.prems by (subst parse_loop.simps) auto
  next
    case True
    then have le: "unat fndIndex + unat (pf_headLen pf) \<le> unat datLen" using hl by (simp add: u32_le_nat add)
    let ?buf = "drop (unat fndIndex) pb" and ?len = "datLen - fndIndex"
    have len: "unat ?len = unat datLen - unat fndIndex" using less.prems by (simp add: u32_sub_nat)
    have win: "pf_headLen pf \<le> ?len" "unat ?len \<le> length ?buf" "length ?buf < 2 ^ 31"
      using le len buf by (auto simp: u32_le_nat)
    show ?thesis
    proof (cases rule: pkfinderFind_cases [OF ok win, of pkPos pkLen, case_names none short whole])
      case none
      then show ?thesis using True le less.prems(2) by (subst parse_loop.simps) (simp add: u32_sub_nat)
    next
      case (short p l)
      have "unat (p + pf_headLen pf) = unat p + unat (pf_headLen pf)"
        using short(2) len buf by (intro u32_add_nat) simp
      then have "unat (fndIndex + (p + pf_headLen pf)) \<le> unat datLen" "unat (fndIndex + p) \<le> unat datLen"
        using short(2) len buf less.prems by (simp_all add: add)
      then show ?thesis using True short(1) less.prems(2) by (subst parse_loop.simps) simp
    next
      case (whole p l)
      have ph: "unat (p + pf_headLen pf) = unat p + unat (pf_headLen pf)" "unat (p + l) = unat p + unat l"
        using whole(2,3) len buf by (intro u32_add_nat; simp)+
      have fp: "unat (fndIndex + p) = unat fndIndex + unat p" using whole(3) len buf by (intro add) simp
      have rd: "mem_read pb (unat (fndIndex + p)) (unat l) = Some (take (unat l) (drop (unat fndIndex + unat p) pb))"
        using whole(3) len buf less.prems by (simp add: fp)
      have "length (take (unat l) (drop (unat fndIndex + unat p) pb)) = unat l"
        using whole(3) len buf less.prems by simp
      then obtain f s1 where f: "chk s (take (unat l) (drop (unat fndIndex + unat p) pb)) l = Some (f, s1)" "P s1"
        using chk_totalD [OF chk less.prems(2)] by blast
      let ?nx = "fndIndex + (p + (if f then l else pf_headLen pf))"
      have nx: "unat ?nx \<le> unat datLen" "unat fndIndex < unat ?nx"
        using whole(2-4) len hl ph buf less.prems by (auto simp: add)
      have "parse_loop pf pb pbLen datLen chk fndIndex pkPos pkLen fres s =
          parse_loop pf pb pbLen datLen chk ?nx p l (if f then STATUS_OK else fres) s1"
        using True whole(1) rd f(1) by (subst parse_loop.simps) simp
      moreover have "unat datLen - unat ?nx < unat datLen - unat fndIndex" using nx by linarith
      ultimately show ?thesis using less.hyps [of ?nx s1 p l] nx(1) f(2) by simp
    qed
  qed
qed

text \<open>The prefix of the parse buffer that a get fills is the contents of the ring.\<close>

lemma parse_get:
  assumes inv: "rb_inv r" and pb: "unat pbLen \<le> length pb" "length pb < 2 ^ 31"
    and fits: "length (rb_contents r) \<le> unat pbLen"
  obtains datLen where "unat datLen = length (rb_contents r)"
    "rBufGet r pb pbLen = Some (datLen, rb_contents r @ drop (length (rb_contents r)) pb)"
proof -
  obtain n where "unat n = min (unat pbLen) (length (rb_contents r))"
      "rBufGet r pb pbLen = Some (n, take (unat n) (rb_contents r) @ drop (unat n) pb)"
    using rBufGet_ok [OF inv pb(1)] pb(2) by (auto simp: get_ok_def)
  with that fits show ?thesis by simp
qed

lemma parse_remove:
  assumes inv: "rb_inv r" and "unat k \<le> length (rb_contents r)"
  shows "rb_inv (snd (rBufRemove r k)) \<and> rb_contents (snd (rBufRemove r k)) = drop (unat k) (rb_contents r)
     \<and> rb_len (snd (rBufRemove r k)) = rb_len r"
  using rBufRemove_ok [OF inv, of k] assms(2) by (auto split: prod.splits)

subsection \<open>Framing\<close>

definition is_packet :: "pkfinder \<Rightarrow> bytes \<Rightarrow> bool" where
  "is_packet pf f \<longleftrightarrow> unat (pf_headLen pf) \<le> length f \<and> head_at pf f 0
     \<and> (\<not> pf_isPkFixLen pf \<longrightarrow> unat (pf_pkLenPos pf) + unat (pf_pkLenLen pf) \<le> length f)
     \<and> packet_len pf f 0 = length f"

text \<open>The bytes left behind whole packets: too short for a header, or a proper prefix of a packet
  that fits the parse buffer.\<close>

definition is_partial :: "pkfinder \<Rightarrow> nat \<Rightarrow> bytes \<Rightarrow> bool" where
  "is_partial pf cap rest \<longleftrightarrow> length rest < unat (pf_headLen pf)
     \<or> (\<exists>t. t \<noteq> [] \<and> is_packet pf (rest @ t) \<and> length (rest @ t) \<le> cap)"

text \<open>Feeding packets to a callback that accepts each of them.\<close>

fun feed :: "('s \<Rightarrow> bytes \<Rightarrow> u32 \<Rightarrow> (bool \<times> 's) option) \<Rightarrow> 's \<Rightarrow> bytes list \<Rightarrow> 's option" where
  "feed chk s [] = Some s"
| "feed chk s (f # fs) =
     (case chk s f (of_nat (length f)) of Some (True, s') \<Rightarrow> feed chk s' fs | _ \<Rightarrow> None)"

lemma head_at_append: "unat (pf_headLen pf) \<le> length a \<Longrightarrow> head_at pf (a @ x) 0 = head_at pf (a @ y) 0"
  by (auto simp: head_at_def nth_append)

lemma packet_len_append:
  "(\<not> pf_isPkFixLen pf \<longrightarrow> unat (pf_pkLenPos pf) + unat (pf_pkLenLen pf) \<le> length a) \<Longrightarrow>
     packet_len pf (a @ x) 0 = packet_len pf (a @ y) 0"
  by (auto simp: packet_len_def)

lemma find_first: "P 0 \<Longrightarrow> find P [0..<n + 1] = Some 0"
  by (simp add: upt_conv_Cons del: upt_Suc)

lemma find_at_packet:
  assumes ok: "pf_ok pf" and f: "is_packet pf f" and len: "length f \<le> unat len" "unat len \<le> length (f @ t)"
    and buf: "length (f @ t) < 2 ^ 31"
  shows "pkfinderFind pf (f @ t) len p0 l0 = Some (2, 0, of_nat (length f))"
proof -
  have "head_at pf (f @ t) 0" "packet_len pf (f @ t) 0 = length f"
    using f head_at_append [of pf f t "[]"] packet_len_append [of pf f t "[]"] by (simp_all add: is_packet_def)
  moreover have "pf_headLen pf \<le> len" using f len by (simp add: is_packet_def u32_le_nat)
  ultimately show ?thesis
    using pkfinderFind_found [OF ok _ len(2) buf find_first] len f
    by (auto simp: find_result_def is_packet_def)
qed

lemma find_at_partial:
  assumes ok: "pf_ok pf" and f: "is_packet pf (rest @ t)" "t \<noteq> []" "unat (pf_headLen pf) \<le> length rest"
    and cap: "length (rest @ t) \<le> cap" "unat l0 \<le> cap" and len: "unat len = length rest"
    and buf: "length (rest @ u) < 2 ^ 31"
  shows "\<exists>l. pkfinderFind pf (rest @ u) len p0 l0 = Some (1, 0, l) \<and> unat l \<le> cap"
proof -
  let ?b = "rest @ u"
  have h: "head_at pf ?b 0" using f head_at_append [of pf rest u t] by (simp add: is_packet_def)
  have "pf_headLen pf \<le> len" using f len by (simp add: u32_le_nat)
  then have fd: "pkfinderFind pf ?b len p0 l0 = Some (find_result pf ?b (length rest) 0 l0)"
    using pkfinderFind_found [OF ok _ _ buf find_first, of len] h len by simp
  show ?thesis
  proof (cases "\<not> pf_isPkFixLen pf \<and> length rest < unat (pf_pkLenPos pf) + unat (pf_pkLenLen pf)")
    case True
    then show ?thesis using fd cap by (simp add: find_result_def)
  next
    case False
    then have pl: "packet_len pf ?b 0 = length (rest @ t)"
      using f packet_len_append [of pf rest u t] by (auto simp: is_packet_def)
    have "unat (of_nat (length (rest @ t)) :: u32) = length (rest @ t)"
      using packet_len_bound [OF ok, of ?b 0] by (intro u32_of_nat) (simp add: pl)
    then show ?thesis using False fd pl f(2) cap by (auto simp: find_result_def)
  qed
qed

lemma parse_loop_packets:
  assumes ok: "pf_ok pf" and buf: "unat datLen \<le> length pb" "length pb < 2 ^ 31" "unat datLen \<le> unat pbLen"
    and idx: "unat fndIndex \<le> unat datLen"
    and data: "drop (unat fndIndex) (take (unat datLen) pb) = concat fs @ rest"
    and fs: "list_all (is_packet pf) fs" and fed: "feed chk s fs = Some s'"
    and part: "is_partial pf (unat pbLen) rest" and pkLen: "unat pkLen \<le> unat pbLen"
  shows "parse_loop pf pb pbLen datLen chk fndIndex pkPos pkLen fres s =
     Some (Inr (datLen - of_nat (length rest), if fs = [] then fres else STATUS_OK, s'))"
  using idx data fs fed pkLen
proof (induction fs arbitrary: fndIndex pkPos pkLen fres s)
  case Nil
  note hl = pf_ok_headLen [OF ok]
  have rest: "drop (unat fndIndex) (take (unat datLen) pb) = rest" and s: "s' = s"
    using Nil.prems by simp_all
  then have lr: "unat datLen - unat fndIndex = length rest" using buf by (metis length_drop length_take min.absorb2)
  have fi: "fndIndex = datLen - of_nat (length rest)"
    unfolding lr [symmetric] using Nil.prems(1) by (simp add: of_nat_diff)
  have add: "unat (fndIndex + pf_headLen pf) = unat fndIndex + unat (pf_headLen pf)"
    using Nil.prems(1) buf hl by (intro u32_add_nat) simp
  show ?case
  proof (cases "length rest < unat (pf_headLen pf)")
    case True
    then have "\<not> fndIndex + pf_headLen pf \<le> datLen"
      unfolding u32_le_nat add lr [symmetric] using Nil.prems(1) by linarith
    then show ?thesis using s by (subst parse_loop.simps) (simp add: fi [symmetric])
  next
    case False
    then obtain t where t: "t \<noteq> []" "is_packet pf (rest @ t)" "length (rest @ t) \<le> unat pbLen"
      using part by (auto simp: is_partial_def)
    have split: "drop (unat fndIndex) pb = rest @ drop (unat datLen) pb"
      using rest lr Nil.prems(1) by (metis append_take_drop_id drop_append diff_is_0_eq drop_0 length_take
          min.absorb2 buf(1))
    have "unat (datLen - fndIndex) = length rest" using lr Nil.prems(1) by (simp add: u32_sub_nat)
    moreover have "length (rest @ drop (unat datLen) pb) < 2 ^ 31" using buf lr by simp
    ultimately obtain l where "pkfinderFind pf (drop (unat fndIndex) pb) (datLen - fndIndex) pkPos pkLen
        = Some (1, 0, l)" "unat l \<le> unat pbLen"
      using find_at_partial [OF ok t(2,1) _ t(3) Nil.prems(5), of "datLen - fndIndex" "drop (unat datLen) pb" pkPos]
        False unfolding split not_less by blast
    then show ?thesis
      using False lr Nil.prems(1) s by (subst parse_loop.simps) (simp add: u32_le_nat u32_less_nat add fi [symmetric])
  qed
next
  case (Cons f fs)
  note hl = pf_ok_headLen [OF ok]
  have pkt: "is_packet pf f" using Cons.prems(3) by simp
  then have f0: "unat (pf_headLen pf) \<le> length f" by (simp add: is_packet_def)
  obtain s1 where s1: "chk s f (of_nat (length f)) = Some (True, s1)" "feed chk s1 fs = Some s'"
    using Cons.prems(4) by (auto split: option.splits prod.splits bool.splits)
  let ?i = "unat fndIndex"
  have dl: "drop ?i (take (unat datLen) pb) = f @ concat fs @ rest" using Cons.prems(2) by simp
  have "length (drop ?i (take (unat datLen) pb)) = unat datLen - ?i" using buf by simp
  then have lf: "?i + length f \<le> unat datLen" unfolding dl using Cons.prems(1) by simp
  let ?t = "concat fs @ rest @ drop (unat datLen) pb"
  have "drop ?i pb = drop ?i (take (unat datLen) pb @ drop (unat datLen) pb)" by simp
  also have "\<dots> = f @ ?t" using dl Cons.prems(1) buf by (simp only: drop_append) simp
  finally have split: "drop ?i pb = f @ ?t" .
  have ft: "length (f @ ?t) = length pb - ?i" using split by (metis length_drop)
  have fw: "unat (of_nat (length f) :: u32) = length f" using lf buf by (intro u32_of_nat) simp
  have fnd: "pkfinderFind pf (drop ?i pb) (datLen - fndIndex) pkPos pkLen = Some (2, 0, of_nat (length f))"
    unfolding split using find_at_packet [OF ok pkt, of "datLen - fndIndex" ?t] ft buf lf Cons.prems(1)
    by (simp add: u32_sub_nat)
  have rd: "mem_read pb ?i (length f) = Some f" using split lf buf by (simp add: mem_read_def)
  have add: "unat (fndIndex + w) = ?i + unat w" if "unat w < 2 ^ 31" for w
    using Cons.prems(1) buf that by (intro u32_add_nat) simp
  let ?n = "fndIndex + of_nat (length f)"
  have n: "unat ?n = ?i + length f" using lf buf by (subst add) (simp_all add: fw)
  have "parse_loop pf pb pbLen datLen chk fndIndex pkPos pkLen fres s =
      parse_loop pf pb pbLen datLen chk ?n 0 (of_nat (length f)) STATUS_OK s1"
    using fnd rd s1 f0 lf hl by (subst parse_loop.simps) (simp add: u32_le_nat add fw)
  also have "\<dots> = Some (Inr (datLen - of_nat (length rest), if fs = [] then STATUS_OK else STATUS_OK, s'))"
  proof (rule Cons.IH)
    show "unat ?n \<le> unat datLen" using n lf by simp
    have "drop (length f) (drop ?i (take (unat datLen) pb)) = concat fs @ rest" unfolding dl by simp
    then show "drop (unat ?n) (take (unat datLen) pb) = concat fs @ rest" by (simp add: n add.commute)
    show "unat (of_nat (length f) :: u32) \<le> unat pbLen" using lf buf(3) by (simp add: fw)
  qed (use Cons.prems s1 in simp_all)
  finally show ?case by simp
qed

lemma parse_packets:
  assumes ok: "pf_ok pf" and inv: "rb_inv r" and pb: "unat pbLen \<le> length pb" "length pb < 2 ^ 31"
    and fits: "length (rb_contents r) \<le> unat pbLen"
    and data: "rb_contents r = concat fs @ rest" and fs: "list_all (is_packet pf) fs"
    and fed: "feed chk s fs = Some s'" and part: "is_partial pf (unat pbLen) rest"
  shows "\<exists>r' pb'. pkfinderParse pf r pb pbLen chk s =
       Some (if fs = [] then STATUS_ERROR else STATUS_OK, r', pb', s') \<and> rb_inv r' \<and> rb_contents r' = rest
       \<and> rb_len r' = rb_len r \<and> length pb' = length pb"
proof -
  obtain n where n: "unat n = length (rb_contents r)"
      "rBufGet r pb pbLen = Some (n, rb_contents r @ drop (length (rb_contents r)) pb)"
    using parse_get [OF inv pb fits] .
  let ?pb = "rb_contents r @ drop (length (rb_contents r)) pb"
  let ?k = "n - of_nat (length rest)"
  have loop: "parse_loop pf ?pb pbLen n chk 0 0 0 STATUS_ERROR s =
      Some (Inr (?k, if fs = [] then STATUS_ERROR else STATUS_OK, s'))"
    using n pb fits data by (intro parse_loop_packets [OF ok _ _ _ _ _ fs fed part]) simp_all
  have "length rest \<le> unat n" and "length rest < 2 ^ 32" using n data u32_bound [of n] by simp_all
  then have k: "unat ?k = length (concat fs)" using n data by (subst u32_sub_nat) (simp_all add: u32_of_nat)
  then have "rb_inv (snd (rBufRemove r ?k))" "rb_contents (snd (rBufRemove r ?k)) = rest"
      "rb_len (snd (rBufRemove r ?k)) = rb_len r"
    using parse_remove [OF inv, of ?k] data by simp_all
  then show ?thesis using n fits pb by (simp add: pkfinderParse_def n(2) loop)
qed

lemma parse_total:
  assumes ok: "pf_ok pf" and chk: "chk_total P chk" and P: "P s" and inv: "rb_inv r"
    and pb: "unat pbLen \<le> length pb" "length pb < 2 ^ 31" and fits: "length (rb_contents r) \<le> unat pbLen"
  shows "\<exists>st r' pb' s' k. pkfinderParse pf r pb pbLen chk s = Some (st, r', pb', s') \<and> rb_inv r'
     \<and> rb_contents r' = drop k (rb_contents r) \<and> rb_len r' = rb_len r \<and> length pb' = length pb \<and> P s'"
proof -
  obtain n where n: "unat n = length (rb_contents r)"
      "rBufGet r pb pbLen = Some (n, rb_contents r @ drop (length (rb_contents r)) pb)"
    using parse_get [OF inv pb fits] .
  let ?pb = "rb_contents r @ drop (length (rb_contents r)) pb"
  obtain k st s' where "parse_loop pf ?pb pbLen n chk 0 0 0 STATUS_ERROR s = Some (Inr (k, st, s'))"
      "unat k \<le> unat n" "P s'"
    using parse_loop_total [OF ok chk, of n ?pb 0 s pbLen 0 0 STATUS_ERROR] n pb fits P by auto
  then show ?thesis
    using parse_remove [OF inv, of k] n pb fits by (simp add: pkfinderParse_def) blast
qed

subsection \<open>Bytes that arrive in pieces\<close>

text \<open>A reader that puts each piece into the ring and then parses, as the receive loop of the
  RS422 client does.\<close>

fun drain :: "pkfinder \<Rightarrow> u32 \<Rightarrow> ('s \<Rightarrow> bytes \<Rightarrow> u32 \<Rightarrow> (bool \<times> 's) option) \<Rightarrow> rbuf \<times> bytes \<times> 's
    \<Rightarrow> bytes list \<Rightarrow> (rbuf \<times> bytes \<times> 's) option" where
  "drain pf pbLen chk st [] = Some st"
| "drain pf pbLen chk (r, pb, s) (c # cs) = do {
     (n, r1) \<leftarrow> rBufPut r c (of_nat (length c));
     (fres, r2, pb2, s2) \<leftarrow> pkfinderParse pf r1 pb pbLen chk s;
     drain pf pbLen chk (r2, pb2, s2) cs }"

text \<open>Every prefix of a sequence of packets is some of the packets and a part of the next.\<close>

lemma split_packets:
  assumes "p @ q = concat fs" and "list_all (\<lambda>f. f \<noteq> []) fs"
  shows "\<exists>fs1 fs2 rest. fs = fs1 @ fs2 \<and> p = concat fs1 @ rest
     \<and> (rest = [] \<or> (\<exists>f fs' t. fs2 = f # fs' \<and> f = rest @ t \<and> t \<noteq> []))"
  using assms
proof (induction fs arbitrary: p)
  case Nil
  then show ?case by simp
next
  case (Cons f fs)
  show ?case
  proof (cases "length f \<le> length p")
    case True
    then obtain p' where p': "p = f @ p'" "p' @ q = concat fs"
      using Cons.prems(1) by (metis append_eq_append_conv_if append_eq_conv_conj concat.simps(2))
    then obtain fs1 fs2 rest where "fs = fs1 @ fs2" "p' = concat fs1 @ rest"
        "rest = [] \<or> (\<exists>f fs' t. fs2 = f # fs' \<and> f = rest @ t \<and> t \<noteq> [])"
      using Cons.IH [OF p'(2)] Cons.prems(2) by auto
    then have "f # fs = (f # fs1) @ fs2 \<and> p = concat (f # fs1) @ rest
        \<and> (rest = [] \<or> (\<exists>f fs' t. fs2 = f # fs' \<and> f = rest @ t \<and> t \<noteq> []))" using p' by simp
    then show ?thesis by blast
  next
    case False
    then have "p = take (length p) f" using Cons.prems(1) by (simp add: append_eq_append_conv_if)
    then have "f = p @ drop (length p) f" by (metis append_take_drop_id)
    moreover have "drop (length p) f \<noteq> []" using False by simp
    ultimately have "f = p @ drop (length p) f \<and> drop (length p) f \<noteq> []" by (rule conjI)
    then have "\<exists>g fs' t. f # fs = g # fs' \<and> g = p @ t \<and> t \<noteq> []" by blast
    then show ?thesis by (intro exI [of _ "[]"] exI [of _ "f # fs"] exI [of _ p]) simp
  qed
qed

lemma feed_append: "feed chk s (fs @ gs) = do { s' \<leftarrow> feed chk s fs; feed chk s' gs }"
  by (induction fs arbitrary: s) (auto split: option.splits prod.splits bool.splits)

lemma is_packet_nonempty: "pf_ok pf \<Longrightarrow> is_packet pf f \<Longrightarrow> f \<noteq> []"
  using pf_ok_headLen(1) [of pf] by (auto simp: is_packet_def)

text \<open>Whatever the pieces, the callback is given exactly the packets, in order.\<close>

lemma drain_packets:
  assumes ok: "pf_ok pf" and inv: "rb_inv r" and pb: "unat pbLen \<le> length pb" "length pb < 2 ^ 31"
    and data: "rb_contents r @ concat cs = concat fs"
    and head: "rb_contents r = [] \<or> (\<exists>f fs' t. fs = f # fs' \<and> f = rb_contents r @ t \<and> t \<noteq> [])"
    and fs: "list_all (is_packet pf) fs" "list_all (\<lambda>f. length f \<le> m) fs"
    and cs: "list_all (\<lambda>c. length c + m \<le> unat pbLen \<and> length c + m < unat (rb_len r)) cs"
    and fed: "feed chk s fs = Some s'"
  shows "\<exists>r' pb'. drain pf pbLen chk (r, pb, s) cs = Some (r', pb', s') \<and> rb_inv r' \<and> rb_contents r' = []"
  using inv pb data head fs cs fed
proof (induction cs arbitrary: r pb s fs)
  case Nil
  have "rb_contents r = []"
  proof (rule ccontr)
    assume ne: "rb_contents r \<noteq> []"
    then obtain f fs' t where "fs = f # fs'" "f = rb_contents r @ t" "t \<noteq> []" using Nil.prems(5) by auto
    then have "length (rb_contents r @ concat []) < length (concat fs)" by simp
    then show False using Nil.prems(4) by simp
  qed
  then have "fs = []" using Nil.prems(4,6) is_packet_nonempty [OF ok] by (cases fs) auto
  then show ?case using Nil.prems \<open>rb_contents r = []\<close> by simp
next
  case (Cons c cs)
  have len: "rb_contents r = [] \<or> length (rb_contents r) \<le> m"
    using Cons.prems(5,7) by auto
  have cl: "length c + m \<le> unat pbLen" "length c + m < unat (rb_len r)" using Cons.prems(8) by auto
  have lc: "length (rb_contents r) + length c \<le> unat pbLen" "length (rb_contents r) + length c < unat (rb_len r)"
    using len cl by auto
  have cw: "unat (of_nat (length c) :: u32) = length c"
    using cl u32_bound [of pbLen] by (intro u32_of_nat) linarith
  obtain n r1 where r1: "rBufPut r c (of_nat (length c)) = Some (n, r1)" "rb_inv r1"
      "rb_contents r1 = rb_contents r @ c" "rb_len r1 = rb_len r"
    using rBufPut_ok [OF Cons.prems(1), of "of_nat (length c)" c] lc
    by (auto simp: put_ok_def cw rb_room_def)
  have "(rb_contents r @ c) @ concat cs = concat fs" using Cons.prems(4) by simp
  moreover have "list_all (\<lambda>f. f \<noteq> []) fs"
    using Cons.prems(6) is_packet_nonempty [OF ok] by (auto simp: list_all_iff)
  ultimately obtain fs1 fs2 rest where sp: "fs = fs1 @ fs2" "rb_contents r @ c = concat fs1 @ rest"
      "rest = [] \<or> (\<exists>f fs' t. fs2 = f # fs' \<and> f = rest @ t \<and> t \<noteq> [])"
    using split_packets by metis
  obtain s1 where s1: "feed chk s fs1 = Some s1" "feed chk s1 fs2 = Some s'"
    using Cons.prems(9) by (auto simp: sp(1) feed_append split: bind_splits)
  have part: "is_partial pf (unat pbLen) rest"
    using sp(3) Cons.prems(6,7) cl pf_ok_headLen(1) [OF ok] by (auto simp: is_partial_def sp(1))
  have "length (rb_contents r1) \<le> unat pbLen" using r1(3) lc by simp
  then obtain st r2 pb2 where r2: "pkfinderParse pf r1 pb pbLen chk s = Some (st, r2, pb2, s1)" "rb_inv r2"
      "rb_contents r2 = rest" "rb_len r2 = rb_len r1" "length pb2 = length pb"
    using parse_packets [OF ok r1(2) Cons.prems(2,3) _ _ _ s1(1) part] r1(3) sp(1,2) Cons.prems(6) by auto
  have "concat fs = concat fs1 @ rest @ concat cs" using Cons.prems(4) sp(2) by (metis append.assoc concat.simps(2))
  then have "rest @ concat cs = concat fs2" by (simp add: sp(1))
  then have "\<exists>r' pb'. drain pf pbLen chk (r2, pb2, s1) cs = Some (r', pb', s') \<and> rb_inv r' \<and> rb_contents r' = []"
    using Cons.prems r2 sp(1,3) s1(2) r1(4) by (intro Cons.IH [of _ _ fs2]) simp_all
  then show ?case by (simp add: r1(1) r2(1))
qed

subsection \<open>Properties\<close>

text \<open>A small configuration: header byte 0x55, then one byte with the number of data bytes.\<close>

definition pf_example :: pkfinder where
  "pf_example = \<lparr>pf_headBuf = Some [0x55], pf_headLen = 1, pf_headMasks = Some [0xff],
     pf_isPkFixLen = False, pf_pkFixLen = 0, pf_pkLenPos = 1, pf_pkLenLen = 1,
     pf_pkLenFirstMsk = 0xff, pf_pkLenEnd = ENDIAN_LITTLE, pf_pkLenAdd = 2\<rparr>"

definition ring_empty :: rbuf where
  "ring_empty = rBufInit \<lparr>rb_buf = replicate 16 0, rb_len = 16, rb_in = 0, rb_out = 0\<rparr>"

definition log_packet :: "bytes list \<Rightarrow> bytes \<Rightarrow> u32 \<Rightarrow> (bool \<times> bytes list) option" where
  "log_packet s pk n = Some (True, s @ [pk])"

lemma pf_example_ok: "pf_ok pf_example"
  by (simp add: pf_ok_def pf_example_def)

lemma ring_empty_inv: "rb_inv ring_empty" "rb_contents ring_empty = []" "rb_len ring_empty = 16"
  by (simp_all add: ring_empty_def rBufInit_def rb_inv_def rb_contents_def ring_view_def)

lemma pf_example_packet: "is_packet pf_example [0x55, 1, 7]" "is_packet pf_example [0x55, 2, 8, 9]"
  by (simp_all add: is_packet_def pf_example_def head_at_def packet_len_def pk_len_value_def)

text \<open>A callback that turns empty packets down.\<close>

definition log_packet_nonempty :: "bytes list \<Rightarrow> bytes \<Rightarrow> u32 \<Rightarrow> (bool \<times> bytes list) option" where
  "log_packet_nonempty s pk n = (if pk = [] then Some (False, s) else Some (True, s @ [pk]))"

lemma log_packet_total: "chk_total (\<lambda>s. [] \<notin> set s) log_packet_nonempty"
  by (auto simp: chk_total_def log_packet_nonempty_def)

text \<open>C1. Packets that arrive in pieces. Let the bytes of a sequence of packets arrive cut into
  pieces at arbitrary places, each piece being put into the ring and then parsed. Then every parse
  returns, no buffer is left, the callback is given exactly the packets, each once and in order,
  and the ring is empty at the end. The pieces need only leave room for one packet of the largest
  length.\<close>

theorem packets_in_pieces:
  assumes "pf_ok pf" and "rb_inv r" and "rb_contents r = []"
    and "unat pbLen \<le> length pb" and "length pb < 2 ^ 31"
    and "list_all (is_packet pf) fs" and "list_all (\<lambda>f. length f \<le> m) fs"
    and "concat cs = concat fs"
    and "list_all (\<lambda>c. length c + m \<le> unat pbLen \<and> length c + m < unat (rb_len r)) cs"
    and "feed chk s fs = Some s'"
  shows "\<exists>r' pb'. drain pf pbLen chk (r, pb, s) cs = Some (r', pb', s') \<and> rb_inv r' \<and> rb_contents r' = []"
  using assms by (intro drain_packets) auto

theorem packets_in_pieces_witness:
  "\<exists>r' pb'. drain pf_example 12 log_packet (ring_empty, replicate 12 0, []) [[0x55], [1, 7, 0x55, 2], [8, 9]]
     = Some (r', pb', [[0x55, 1, 7], [0x55, 2, 8, 9]]) \<and> rb_inv r' \<and> rb_contents r' = []"
  by (rule packets_in_pieces [where fs = "[[0x55, 1, 7], [0x55, 2, 8, 9]]" and m = 4])
     (simp_all add: pf_example_ok ring_empty_inv pf_example_packet log_packet_def)

text \<open>\<open>pkfinderParse\<close> always returns on any bytes at all: for a configuration with a
  non-empty packet length and a callback that answers, and keeps some property of its state,
  whatever is in the ring, the parse ends with that property,
  never reads or writes outside the ring, the parse buffer, the header or the mask, and leaves in
  the ring a suffix of what was there.\<close>

theorem pkfinderParse_returns:
  assumes "pf_ok pf" and "chk_total P chk" and "P s" and "rb_inv r" and "unat pbLen \<le> length pb"
    and "length pb < 2 ^ 31" and "length (rb_contents r) \<le> unat pbLen"
  shows "\<exists>st r' pb' s' k. pkfinderParse pf r pb pbLen chk s = Some (st, r', pb', s') \<and> rb_inv r'
     \<and> rb_contents r' = drop k (rb_contents r) \<and> rb_len r' = rb_len r \<and> length pb' = length pb \<and> P s'"
  using assms by (rule parse_total)

theorem pkfinderParse_returns_witness:
  "\<exists>st r' pb' s' k. pkfinderParse pf_example ring_example (replicate 12 0) 12 log_packet_nonempty []
       = Some (st, r', pb', s') \<and> rb_inv r' \<and> rb_contents r' = drop k (rb_contents ring_example)
     \<and> rb_len r' = rb_len ring_example \<and> length pb' = length (replicate 12 (0 :: u8)) \<and> [] \<notin> set s'"
  by (rule pkfinderParse_returns [where P = "\<lambda>s. [] \<notin> set s" and chk = log_packet_nonempty])
     (simp_all add: pf_example_ok log_packet_total ring_example_def rb_inv_def rb_contents_def
       ring_view_def)

text \<open>The status of a parse does not tell an incomplete packet from a bad one: when the ring
  holds no whole packet but a proper part of one, \<open>pkfinderParse\<close> keeps the bytes in the ring and
  returns ERROR, although its header reserves ERROR for a serious error.\<close>

theorem incomplete_packet_is_error:
  assumes "pf_ok pf" and "rb_inv r" and "unat pbLen \<le> length pb" and "length pb < 2 ^ 31"
    and "length (rb_contents r) \<le> unat pbLen" and "is_partial pf (unat pbLen) (rb_contents r)"
  shows "\<exists>r' pb'. pkfinderParse pf r pb pbLen chk s = Some (STATUS_ERROR, r', pb', s) \<and> rb_inv r'
     \<and> rb_contents r' = rb_contents r"
  using parse_packets [where fs = "[]" and rest = "rb_contents r", OF assms(1-5) _ _ _ assms(6), of chk s s] by auto

theorem incomplete_packet_is_error_witness:
  "let r = ring_empty\<lparr>rb_buf := [0x55, 2, 8] @ replicate 13 0, rb_in := 3\<rparr>
   in \<exists>r' pb'. pkfinderParse pf_example r (replicate 12 0) 12 log_packet [] = Some (STATUS_ERROR, r', pb', [])
     \<and> rb_inv r' \<and> rb_contents r' = [0x55, 2, 8]"
proof -
  let ?r = "ring_empty\<lparr>rb_buf := [0x55, 2, 8] @ replicate 13 0, rb_in := 3\<rparr>"
  have c: "rb_contents ?r = [0x55, 2, 8]" by (simp add: rb_contents_def ring_empty_def rBufInit_def ring_view_def)
  have p: "is_partial pf_example (unat (12::u32)) [0x55, 2, 8]"
    using pf_example_packet(2) unfolding is_partial_def by (intro disjI2 exI [of _ "[9]"]) simp
  have "rb_inv ?r" by (simp add: rb_inv_def ring_empty_def rBufInit_def)
  then show ?thesis
    using incomplete_packet_is_error [OF pf_example_ok, of ?r 12 "replicate 12 0" log_packet "[]"] p
    unfolding Let_def c by simp
qed

end
