(* ===== verification/PayloadPool.thy ===== *)
theory PayloadPool
  imports Prelude
begin

text \<open>
  The static payload pools of cpri_protocol.c and fpga_protocol.c: an array of buffers, each with
  an in-use flag, handed out under a mutex. The two files hold the same code with different
  sizes; what they share is here, with the contract of such a pool as the locale
  \<open>payload_pool\<close>. The mutex makes each operation atomic, so that a sequence of operations is any
  interleaving of the threads' calls.
\<close>

subsection \<open>Slots and pointers\<close>

record pool_slot =
  in_use :: u8
  slot_data :: bytes

type_synonym pool = "pool_slot list"

text \<open>A payload pointer is the data of a slot or points to a buffer outside the pool, which is
  given with its contents.\<close>

datatype payload_ptr = InPool nat | Outside bytes

definition payload_bytes :: "pool \<Rightarrow> payload_ptr \<Rightarrow> bytes" where
  "payload_bytes pool p =
     (case p of InPool i \<Rightarrow> (if i < length pool then slot_data (pool ! i) else []) | Outside b \<Rightarrow> b)"

text \<open>The loop over the slots that looks for one that is not in use.\<close>

fun first_free :: "pool \<Rightarrow> nat \<Rightarrow> nat option" where
  "first_free [] i = None"
| "first_free (s # ss) i = (if in_use s = 0 then Some i else first_free ss (i + 1))"

definition slot_mark :: "pool \<Rightarrow> nat \<Rightarrow> u8 \<Rightarrow> pool" where
  "slot_mark pool i v = (if i < length pool then pool[i := (pool ! i)\<lparr>in_use := v\<rparr>] else pool)"

text \<open>memcpy of a payload into the buffer of a slot.\<close>

definition slot_write :: "pool \<Rightarrow> nat \<Rightarrow> bytes \<Rightarrow> pool option" where
  "slot_write pool i b =
     (if i < length pool
      then do {
        d \<leftarrow> mem_copy (slot_data (pool ! i)) 0 b 0 (length b);
        Some (pool[i := (pool ! i)\<lparr>slot_data := d\<rparr>]) }
      else None)"

definition pool_used :: "pool \<Rightarrow> nat set" where
  "pool_used pool = {i. i < length pool \<and> in_use (pool ! i) \<noteq> 0}"

definition pool_inv :: "nat \<Rightarrow> nat \<Rightarrow> pool \<Rightarrow> bool" where
  "pool_inv n m pool \<longleftrightarrow> length pool = n \<and> list_all (\<lambda>s. length (slot_data s) = m) pool"

lemma pool_invD:
  "pool_inv n m pool \<Longrightarrow> length pool = n"
  "pool_inv n m pool \<Longrightarrow> i < n \<Longrightarrow> length (slot_data (pool ! i)) = m"
  by (auto simp: pool_inv_def list_all_length)

lemma first_free_None: "first_free pool k = None \<longleftrightarrow> (\<forall>i < length pool. in_use (pool ! i) \<noteq> 0)"
  by (induction pool k rule: first_free.induct) (auto simp: less_Suc_eq_0_disj)

lemma first_free_Some:
  "first_free pool k = Some i \<Longrightarrow> k \<le> i \<and> i - k < length pool \<and> in_use (pool ! (i - k)) = 0"
  by (induction pool k rule: first_free.induct) (auto split: if_splits simp: Suc_diff_Suc)

lemma slot_mark_inv: "pool_inv n m pool \<Longrightarrow> pool_inv n m (slot_mark pool i v)"
  by (auto simp: pool_inv_def slot_mark_def list_all_length nth_list_update)

lemma slot_mark_used:
  "i < length pool \<Longrightarrow> pool_used (slot_mark pool i v) = (if v = 0 then pool_used pool - {i} else insert i (pool_used pool))"
  by (auto simp: pool_used_def slot_mark_def nth_list_update)

lemma slot_mark_data: "i < length pool \<Longrightarrow> slot_data (slot_mark pool j v ! i) = slot_data (pool ! i)"
  by (auto simp: slot_mark_def nth_list_update)

lemma slot_mark_length [simp]: "length (slot_mark pool i v) = length pool"
  by (simp add: slot_mark_def)

lemma slot_write_Some:
  assumes "pool_inv n m pool" and "i < n" and "length b \<le> m"
  obtains pool' where "slot_write pool i b = Some pool'" "pool_inv n m pool'" "pool_used pool' = pool_used pool"
    "take (length b) (payload_bytes pool' (InPool i)) = b"
    "\<And>j. j \<noteq> i \<Longrightarrow> payload_bytes pool' (InPool j) = payload_bytes pool (InPool j)"
proof -
  have l: "length pool = n" "length (slot_data (pool ! i)) = m" using assms by (auto simp: pool_invD)
  let ?p = "pool[i := (pool ! i)\<lparr>slot_data := b @ drop (length b) (slot_data (pool ! i))\<rparr>]"
  show ?thesis
  proof (rule that [of ?p])
    show "slot_write pool i b = Some ?p" using assms l by (simp add: slot_write_def)
    show "pool_inv n m ?p" using assms l by (auto simp: pool_inv_def list_all_length nth_list_update)
    show "pool_used ?p = pool_used pool" using assms l by (auto simp: pool_used_def nth_list_update)
  qed (use assms l in \<open>auto simp: payload_bytes_def nth_list_update\<close>)
qed

text \<open>The scan finds a slot exactly when not all are in use, and taking and giving back a slot keep
  the shape of the pool.\<close>

lemma scan_take:
  assumes inv: "pool_inv n m p" and "pool_used p \<noteq> {..<n}"
  shows "\<exists>i. first_free p 0 = Some i \<and> i < n \<and> i \<notin> pool_used p \<and> pool_inv n m (slot_mark p i 1)
     \<and> pool_used (slot_mark p i 1) = insert i (pool_used p)"
proof -
  have "first_free p 0 \<noteq> None"
    using assms(2) pool_invD(1) [OF inv] by (auto simp: first_free_None pool_used_def)
  then obtain i where i: "first_free p 0 = Some i" by auto
  have "i < n" "i < length p" "i \<notin> pool_used p"
    using first_free_Some [OF i] pool_invD(1) [OF inv] by (simp_all add: pool_used_def)
  then show ?thesis using i slot_mark_inv [OF inv, of i 1] slot_mark_used [of i p 1] by simp
qed

lemma scan_full: "pool_inv n m p \<Longrightarrow> pool_used p = {..<n} \<Longrightarrow> first_free p 0 = None"
  unfolding first_free_None pool_used_def pool_inv_def by auto

lemma scan_release:
  "pool_inv n m p \<Longrightarrow> i < n \<Longrightarrow>
     pool_inv n m (slot_mark p i 0) \<and> pool_used (slot_mark p i 0) = pool_used p - {i}"
  using slot_mark_used [of i p 0] by (simp add: slot_mark_inv pool_invD(1))

lemma pool_used_bound: "pool_inv n m p \<Longrightarrow> pool_used p \<subseteq> {..<n}"
  unfolding pool_used_def pool_inv_def by auto

subsection \<open>The contract of a pool\<close>

text \<open>
  Calls on a pool: an allocation of some size, or the release of the \<open>k\<close>-th of the buffers that
  are live, counted from the last one allocated.
\<close>

datatype pool_op = PAlloc u32 | PFree nat

text \<open>The pool and the live buffers after a sequence of calls.\<close>

fun pool_run :: "('p \<Rightarrow> u32 \<Rightarrow> payload_ptr option \<times> 'p) \<Rightarrow> ('p \<Rightarrow> payload_ptr option \<Rightarrow> 'p)
    \<Rightarrow> 'p \<times> nat list \<Rightarrow> pool_op list \<Rightarrow> 'p \<times> nat list" where
  "pool_run al rl st [] = st"
| "pool_run al rl (p, live) (PAlloc n # ops) =
     (case al p n of
        (Some (InPool i), p') \<Rightarrow> pool_run al rl (p', i # live) ops
      | (_, p') \<Rightarrow> pool_run al rl (p', live) ops)"
| "pool_run al rl (p, live) (PFree k # ops) =
     (if k < length live
      then pool_run al rl (rl p (Some (InPool (live ! k))), remove1 (live ! k) live) ops
      else pool_run al rl (p, live) ops)"

locale payload_pool =
  fixes alloc :: "'p \<Rightarrow> u32 \<Rightarrow> payload_ptr option \<times> 'p"
    and release :: "'p \<Rightarrow> payload_ptr option \<Rightarrow> 'p"
    and used :: "'p \<Rightarrow> nat set"
    and inv :: "'p \<Rightarrow> bool"
    and slots :: nat
    and limit :: nat
  assumes alloc_ok: "inv p \<Longrightarrow> unat n \<le> limit \<Longrightarrow> used p \<noteq> {..<slots} \<Longrightarrow>
      \<exists>i p'. alloc p n = (Some (InPool i), p') \<and> i < slots \<and> i \<notin> used p \<and> inv p' \<and> used p' = insert i (used p)"
    and alloc_fail: "inv p \<Longrightarrow> limit < unat n \<or> used p = {..<slots} \<Longrightarrow> alloc p n = (None, p)"
    and release_ok: "inv p \<Longrightarrow> i < slots \<Longrightarrow> inv (release p (Some (InPool i)))
      \<and> used (release p (Some (InPool i))) = used p - {i}"
    and used_slots: "inv p \<Longrightarrow> used p \<subseteq> {..<slots}"
begin

definition live_ok :: "'p \<times> nat list \<Rightarrow> bool" where
  "live_ok st \<longleftrightarrow> inv (fst st) \<and> distinct (snd st) \<and> set (snd st) = used (fst st)"

lemma alloc_cases:
  assumes "inv p"
  obtains (ok) i p' where "alloc p n = (Some (InPool i), p')" "i \<notin> used p" "inv p'" "used p' = insert i (used p)"
  | (fail) "alloc p n = (None, p)"
proof (cases "unat n \<le> limit \<and> used p \<noteq> {..<slots}")
  case True
  then show ?thesis using alloc_ok [OF assms] that(1) by blast
next
  case False
  then have "limit < unat n \<or> used p = {..<slots}" by auto
  then show ?thesis using alloc_fail [OF assms] that(2) by blast
qed

text \<open>Live buffers are distinct and are exactly the slots in use, whatever the calls.\<close>

lemma live_ok_release:
  assumes "live_ok (p, live)" and "k < length live"
  shows "live_ok (release p (Some (InPool (live ! k))), remove1 (live ! k) live)"
proof -
  have st: "inv p" "distinct live" "set live = used p" using assms by (simp_all add: live_ok_def)
  then have "live ! k < slots" using used_slots assms(2) nth_mem by blast
  note rel = release_ok [OF st(1) this]
  have "set (remove1 (live ! k) live) = used p - {live ! k}" using st by (simp add: set_remove1_eq)
  then show ?thesis unfolding live_ok_def using rel st(2) by simp
qed

lemma pool_run_ok: "live_ok st \<Longrightarrow> live_ok (pool_run alloc release st ops)"
proof (induction ops arbitrary: st)
  case (Cons op ops)
  obtain p live where st: "st = (p, live)" by (cases st)
  then have inv: "inv p" using Cons.prems by (simp add: live_ok_def)
  show ?case
  proof (cases op)
    case (PAlloc n)
    then show ?thesis
      using Cons st by (cases rule: alloc_cases [OF inv, of n, case_names ok fail]) (auto simp: live_ok_def)
  next
    case (PFree k)
    then show ?thesis using Cons st live_ok_release by simp
  qed
qed simp

text \<open>An allocation after any calls succeeds exactly when the size is allowed and not all slots
  are live, and gives a buffer no one holds.\<close>

lemma alloc_after:
  assumes start: "inv p" "used p = {}"
  shows "\<exists>q live. pool_run alloc release (p, []) ops = (q, live) \<and> distinct live \<and> length live \<le> slots
     \<and> (case alloc q n of
          (Some (InPool i), q') \<Rightarrow> unat n \<le> limit \<and> length live < slots \<and> i < slots \<and> i \<notin> set live
        | (Some (Outside b), q') \<Rightarrow> False
        | (None, q') \<Rightarrow> limit < unat n \<or> length live = slots)"
proof -
  obtain q live where st: "pool_run alloc release (p, []) ops = (q, live)" by (cases "pool_run alloc release (p, []) ops")
  then have ok: "inv q" "distinct live" "set live = used q"
    using pool_run_ok [of "(p, [])" ops] start by (auto simp: live_ok_def)
  have sub: "set live \<subseteq> {..<slots}" using ok used_slots [of q] by simp
  have card: "length live = card (set live)" using ok(2) by (simp add: distinct_card)
  have len: "length live \<le> slots" using card card_mono [OF _ sub] by simp
  have full: "used q = {..<slots} \<longleftrightarrow> length live = slots"
    unfolding ok(3) [symmetric] card using card_subset_eq [OF _ sub] by (metis card_lessThan finite_lessThan)
  show ?thesis
  proof (cases "unat n \<le> limit \<and> used q \<noteq> {..<slots}")
    case True
    then obtain i q' where "alloc q n = (Some (InPool i), q')" "i < slots" "i \<notin> used q"
      using alloc_ok [OF ok(1)] by blast
    then show ?thesis using st ok(2) ok(3) [symmetric] len True full by simp
  next
    case False
    then have "limit < unat n \<or> used q = {..<slots}" by auto
    then have "alloc q n = (None, q)" "limit < unat n \<or> length live = slots"
      using alloc_fail [OF ok(1)] full by simp_all
    then show ?thesis using st ok(2) len by simp
  qed
qed

end

end
