(* ===== verification/CpriProtocol.thy ===== *)
theory CpriProtocol
  imports PayloadPool
begin

text \<open>
  The CPRI message layer of cpri_protocol.c: the message numbers, the 15-byte little-endian
  header, encoding into a caller's buffer and decoding into a message whose payload comes from a
  static pool of 16 buffers of 8192 bytes.
\<close>

subsection \<open>Message numbers\<close>

datatype cpri_msg_type =
    MSG_CHANNEL_SETUP_REQ | MSG_CHANNEL_SETUP_CFG | MSG_CHANNEL_SETUP_CFG_ACK
    | MSG_VERSION_UPDATE_RESULT_IND | MSG_VERSION_UPDATE_RESULT_IND_ACK | MSG_PAAU_VERSION_QUERY
    | MSG_PAAU_VERSION_QUERY_ACK | MSG_VERSION_DOWNLOAD_REQ | MSG_VERSION_DOWNLOAD_ACK
    | MSG_VERSION_DOWNLOAD_RESULT_IND | MSG_PAAU_VERSION_ACTIVATE_IND
    | MSG_PAAU_VERSION_ACTIVATE_ACK | MSG_PAAU_STATUS_QUERY | MSG_PAAU_STATUS_QUERY_RSP
    | MSG_PAAU_PARAM_QUERY | MSG_PAAU_PARAM_QUERY_RSP | MSG_PAAU_PARAM_CONFIG
    | MSG_PAAU_PARAM_CONFIG_RSP | MSG_PHASED_ARRAY_CALIB_IND | MSG_PHASED_ARRAY_CALIB_IND_ACK
    | MSG_LOOPBACK_REQ | MSG_LOOPBACK_REQ_RSP | MSG_ALARM_REPORT_REQ | MSG_ALARM_QUERY_REQ
    | MSG_ALARM_REPORT_REQ_ACK | MSG_LOG_UPLOAD_REQ | MSG_LOG_UPLOAD_REQ_ACK
    | MSG_LOG_UPLOAD_RESULT_IND | MSG_RESET_IND | MSG_REMOTE_PAAU_RESET_IND | MSG_PAAU_HEARTBEAT
    | MSG_BBU_HEARTBEAT | MSG_NR_CELL_CONFIG | MSG_NR_CELL_CONFIG_RSP

primrec cpri_msg_code :: "cpri_msg_type \<Rightarrow> u32" where
  "cpri_msg_code MSG_CHANNEL_SETUP_REQ = 1"
| "cpri_msg_code MSG_CHANNEL_SETUP_CFG = 2"
| "cpri_msg_code MSG_CHANNEL_SETUP_CFG_ACK = 3"
| "cpri_msg_code MSG_VERSION_UPDATE_RESULT_IND = 4"
| "cpri_msg_code MSG_VERSION_UPDATE_RESULT_IND_ACK = 5"
| "cpri_msg_code MSG_PAAU_VERSION_QUERY = 11"
| "cpri_msg_code MSG_PAAU_VERSION_QUERY_ACK = 12"
| "cpri_msg_code MSG_VERSION_DOWNLOAD_REQ = 21"
| "cpri_msg_code MSG_VERSION_DOWNLOAD_ACK = 22"
| "cpri_msg_code MSG_VERSION_DOWNLOAD_RESULT_IND = 23"
| "cpri_msg_code MSG_PAAU_VERSION_ACTIVATE_IND = 31"
| "cpri_msg_code MSG_PAAU_VERSION_ACTIVATE_ACK = 32"
| "cpri_msg_code MSG_PAAU_STATUS_QUERY = 41"
| "cpri_msg_code MSG_PAAU_STATUS_QUERY_RSP = 42"
| "cpri_msg_code MSG_PAAU_PARAM_QUERY = 51"
| "cpri_msg_code MSG_PAAU_PARAM_QUERY_RSP = 52"
| "cpri_msg_code MSG_PAAU_PARAM_CONFIG = 61"
| "cpri_msg_code MSG_PAAU_PARAM_CONFIG_RSP = 62"
| "cpri_msg_code MSG_PHASED_ARRAY_CALIB_IND = 71"
| "cpri_msg_code MSG_PHASED_ARRAY_CALIB_IND_ACK = 72"
| "cpri_msg_code MSG_LOOPBACK_REQ = 81"
| "cpri_msg_code MSG_LOOPBACK_REQ_RSP = 82"
| "cpri_msg_code MSG_ALARM_REPORT_REQ = 111"
| "cpri_msg_code MSG_ALARM_QUERY_REQ = 121"
| "cpri_msg_code MSG_ALARM_REPORT_REQ_ACK = 122"
| "cpri_msg_code MSG_LOG_UPLOAD_REQ = 131"
| "cpri_msg_code MSG_LOG_UPLOAD_REQ_ACK = 132"
| "cpri_msg_code MSG_LOG_UPLOAD_RESULT_IND = 133"
| "cpri_msg_code MSG_RESET_IND = 141"
| "cpri_msg_code MSG_REMOTE_PAAU_RESET_IND = 151"
| "cpri_msg_code MSG_PAAU_HEARTBEAT = 171"
| "cpri_msg_code MSG_BBU_HEARTBEAT = 181"
| "cpri_msg_code MSG_NR_CELL_CONFIG = 195"
| "cpri_msg_code MSG_NR_CELL_CONFIG_RSP = 196"

text \<open>
  The table of message names, as the enumerators of its rows in order; a row's name is shown for
  its enumerator. \<open>None\<close> is the name for an unknown message.
\<close>

definition msg_type_names :: "cpri_msg_type list" where
  "msg_type_names =
    [MSG_CHANNEL_SETUP_REQ, MSG_CHANNEL_SETUP_CFG, MSG_CHANNEL_SETUP_CFG_ACK
     , MSG_VERSION_UPDATE_RESULT_IND, MSG_VERSION_UPDATE_RESULT_IND_ACK, MSG_PAAU_VERSION_QUERY
     , MSG_PAAU_VERSION_QUERY_ACK, MSG_VERSION_DOWNLOAD_REQ, MSG_VERSION_DOWNLOAD_ACK
     , MSG_VERSION_DOWNLOAD_RESULT_IND, MSG_PAAU_VERSION_ACTIVATE_IND
     , MSG_PAAU_VERSION_ACTIVATE_ACK, MSG_PAAU_STATUS_QUERY, MSG_PAAU_STATUS_QUERY_RSP
     , MSG_PAAU_PARAM_QUERY, MSG_PAAU_PARAM_QUERY_RSP, MSG_PAAU_PARAM_CONFIG
     , MSG_PAAU_PARAM_CONFIG_RSP, MSG_PHASED_ARRAY_CALIB_IND, MSG_PHASED_ARRAY_CALIB_IND_ACK
     , MSG_LOOPBACK_REQ, MSG_LOOPBACK_REQ_RSP, MSG_ALARM_REPORT_REQ, MSG_ALARM_QUERY_REQ
     , MSG_ALARM_REPORT_REQ_ACK, MSG_LOG_UPLOAD_REQ, MSG_LOG_UPLOAD_REQ_ACK
     , MSG_LOG_UPLOAD_RESULT_IND, MSG_RESET_IND, MSG_REMOTE_PAAU_RESET_IND, MSG_PAAU_HEARTBEAT
     , MSG_BBU_HEARTBEAT, MSG_NR_CELL_CONFIG, MSG_NR_CELL_CONFIG_RSP]"

definition cpri_get_msg_type_name :: "u32 \<Rightarrow> cpri_msg_type option" where
  "cpri_get_msg_type_name msg_id = find (\<lambda>m. cpri_msg_code m = msg_id) msg_type_names"

subsection \<open>The payload pool\<close>

definition MAX_CPRI_PAYLOAD_SIZE :: nat where "MAX_CPRI_PAYLOAD_SIZE = 8192"

definition MAX_CPRI_MESSAGE_POOL :: nat where "MAX_CPRI_MESSAGE_POOL = 16"

definition g_cpri_payload_pool :: pool where
  "g_cpri_payload_pool = replicate MAX_CPRI_MESSAGE_POOL
     \<lparr>in_use = 0, slot_data = replicate MAX_CPRI_PAYLOAD_SIZE 0\<rparr>"

definition cpri_payload_alloc :: "pool \<Rightarrow> u32 \<Rightarrow> payload_ptr option \<times> pool" where
  "cpri_payload_alloc pool sz =
     (if unat sz > MAX_CPRI_PAYLOAD_SIZE then (None, pool)
      else case first_free pool 0 of
             Some i \<Rightarrow> (Some (InPool i), slot_mark pool i 1)
           | None \<Rightarrow> (None, pool))"

text \<open>A pointer from outside the pool goes to \<open>free\<close> of the C library, which leaves the pool alone.\<close>

definition cpri_payload_free :: "pool \<Rightarrow> payload_ptr option \<Rightarrow> pool" where
  "cpri_payload_free pool ptr =
     (case ptr of
        None \<Rightarrow> pool
      | Some (InPool i) \<Rightarrow> slot_mark pool i 0
      | Some (Outside b) \<Rightarrow> pool)"

subsection \<open>Messages\<close>

definition CPRI_HEADER_LEN :: u32 where "CPRI_HEADER_LEN = 15"

record cpri_msg_header =
  ch_msg_id :: u32
  ch_msg_length :: u32
  ch_paau_id :: u8
  ch_bbu_id :: u8
  ch_port_num :: u8
  ch_serial_num :: u32

record cpri_message =
  cm_header :: cpri_msg_header
  cm_payload :: "payload_ptr option"
  cm_payload_len :: u32

text \<open>The result is the returned \<open>int\<close>, the 32-bit length read as signed, and the buffer.\<close>

definition cpri_encode_message :: "pool \<Rightarrow> cpri_message \<Rightarrow> bytes \<Rightarrow> u32 \<Rightarrow> (int \<times> bytes) option" where
  "cpri_encode_message pool msg buffer buffer_size =
     (let total_len = CPRI_HEADER_LEN + cm_payload_len msg
      in if buffer_size < total_len then Some (ERROR_INVALID_PARAM, buffer)
      else do {
        b \<leftarrow> mem_copy buffer 0 (le32 (ch_msg_id (cm_header msg))) 0 4;
        b \<leftarrow> mem_copy b 4 (le32 total_len) 0 4;
        b \<leftarrow> arr_set b 8 (ch_paau_id (cm_header msg));
        b \<leftarrow> arr_set b 9 (ch_bbu_id (cm_header msg));
        b \<leftarrow> arr_set b 10 (ch_port_num (cm_header msg));
        b \<leftarrow> mem_copy b 11 (le32 (ch_serial_num (cm_header msg))) 0 4;
        b \<leftarrow> (case cm_payload msg of
                Some p \<Rightarrow> if cm_payload_len msg > 0
                          then mem_copy b 15 (payload_bytes pool p) 0 (unat (cm_payload_len msg)) else Some b
              | None \<Rightarrow> Some b);
        Some (sint total_len, b) })"

definition cpri_decode_message ::
  "pool \<Rightarrow> bytes \<Rightarrow> u32 \<Rightarrow> cpri_message \<Rightarrow> (int \<times> pool \<times> cpri_message) option" where
  "cpri_decode_message pool buffer buffer_len msg =
     (if buffer_len < CPRI_HEADER_LEN then Some (ERROR_INVALID_PARAM, pool, msg)
      else do {
        mid \<leftarrow> read_le32 buffer 0;
        mlen \<leftarrow> read_le32 buffer 4;
        pa \<leftarrow> arr_get buffer 8;
        bb \<leftarrow> arr_get buffer 9;
        po \<leftarrow> arr_get buffer 10;
        ser \<leftarrow> read_le32 buffer 11;
        let h = \<lparr>ch_msg_id = mid, ch_msg_length = mlen, ch_paau_id = pa, ch_bbu_id = bb,
                 ch_port_num = po, ch_serial_num = ser\<rparr>;
        let n = buffer_len - CPRI_HEADER_LEN;
        let m = \<lparr>cm_header = h, cm_payload = None, cm_payload_len = n\<rparr>;
        if n > 0
        then (case cpri_payload_alloc pool n of
                (Some (InPool i), pool') \<Rightarrow> do {
                  d \<leftarrow> mem_read buffer 15 (unat n);
                  pool'' \<leftarrow> slot_write pool' i d;
                  Some (SUCCESS, pool'', m\<lparr>cm_payload := Some (InPool i)\<rparr>) }
              | (_, pool') \<Rightarrow> Some (ERROR_MEMORY, pool', m))
        else Some (SUCCESS, pool, m) })"

definition cpri_free_message :: "pool \<Rightarrow> cpri_message \<Rightarrow> pool \<times> cpri_message" where
  "cpri_free_message pool msg =
     (case cm_payload msg of
        None \<Rightarrow> (pool, msg)
      | Some p \<Rightarrow> (cpri_payload_free pool (Some p), msg\<lparr>cm_payload := None, cm_payload_len := 0\<rparr>))"

subsection \<open>The wire format\<close>

definition cpri_frame :: "cpri_msg_header \<Rightarrow> bytes \<Rightarrow> bytes" where
  "cpri_frame h d = le32 (ch_msg_id h) @ le32 (of_nat (15 + length d)) @ [ch_paau_id h, ch_bbu_id h, ch_port_num h]
     @ le32 (ch_serial_num h) @ d"

definition cpri_payload :: "pool \<Rightarrow> cpri_message \<Rightarrow> bytes" where
  "cpri_payload pool m = (case cm_payload m of None \<Rightarrow> [] | Some p \<Rightarrow> take (unat (cm_payload_len m)) (payload_bytes pool p))"

text \<open>A message whose payload pointer covers the stated length.\<close>

definition cpri_msg_ok :: "pool \<Rightarrow> cpri_message \<Rightarrow> bool" where
  "cpri_msg_ok pool m \<longleftrightarrow> length (cpri_payload pool m) = unat (cm_payload_len m)"

lemma encode_header:
  fixes buf :: bytes
  assumes "15 \<le> length buf"
  shows "do {
      b \<leftarrow> mem_copy buf 0 (le32 i) 0 4;
      b \<leftarrow> mem_copy b 4 (le32 l) 0 4;
      b \<leftarrow> arr_set b 8 x;
      b \<leftarrow> arr_set b 9 y;
      b \<leftarrow> arr_set b 10 z;
      b \<leftarrow> mem_copy b 11 (le32 s) 0 4;
      f b } = f ((le32 i @ le32 l @ [x, y, z] @ le32 s) @ drop 15 buf)"
proof -
  have 1: "mem_copy buf 0 (le32 i) 0 4 = Some (le32 i @ drop 4 buf)"
    using assms mem_copy_at [of "[]" 0 4 buf "le32 i"] by simp
  have 2: "mem_copy (le32 i @ drop 4 buf) 4 (le32 l) 0 4 = Some ((le32 i @ le32 l) @ drop 8 buf)"
    using assms by (subst mem_copy_at) simp_all
  have 3: "arr_set ((le32 i @ le32 l) @ drop 8 buf) 8 x = Some ((le32 i @ le32 l @ [x]) @ drop 9 buf)"
    using assms by (subst arr_set_at) simp_all
  have 4: "arr_set ((le32 i @ le32 l @ [x]) @ drop 9 buf) 9 y = Some ((le32 i @ le32 l @ [x, y]) @ drop 10 buf)"
    using assms by (subst arr_set_at) simp_all
  have 5: "arr_set ((le32 i @ le32 l @ [x, y]) @ drop 10 buf) 10 z = Some ((le32 i @ le32 l @ [x, y, z]) @ drop 11 buf)"
    using assms by (subst arr_set_at) simp_all
  have 6: "mem_copy ((le32 i @ le32 l @ [x, y, z]) @ drop 11 buf) 11 (le32 s) 0 4
      = Some ((le32 i @ le32 l @ [x, y, z] @ le32 s) @ drop 15 buf)"
    using assms by (subst mem_copy_at) simp_all
  show ?thesis by (simp only: 1 2 3 4 5 6 bind.simps)
qed

lemma cpri_encode_frame:
  assumes msg: "cpri_msg_ok pool m" and len: "15 + unat (cm_payload_len m) \<le> unat n" "unat n \<le> length buf"
    and small: "unat n < 2 ^ 31"
  shows "cpri_encode_message pool m buf n = Some (int (15 + unat (cm_payload_len m)),
     cpri_frame (cm_header m) (cpri_payload pool m) @ drop (15 + unat (cm_payload_len m)) buf)"
proof -
  let ?l = "cm_payload_len m"
  have tot: "unat (15 + ?l) = 15 + unat ?l" using len(1) small by (subst u32_add_nat) simp_all
  then have w: "15 + ?l = of_nat (15 + length (cpri_payload pool m))" and s: "sint (15 + ?l) = int (15 + unat ?l)"
    using msg len(1) small by (simp_all add: cpri_msg_ok_def u32_sint)
  let ?h = "cm_header m"
  have fits: "\<not> n < 15 + ?l" using len(1) tot by (simp add: u32_less_nat)
  define hd where "hd = le32 (ch_msg_id ?h) @ le32 (15 + ?l) @ [ch_paau_id ?h, ch_bbu_id ?h, ch_port_num ?h] @ le32 (ch_serial_num ?h)"
  have pay: "(case cm_payload m of Some p \<Rightarrow> if ?l > 0 then mem_copy (hd @ drop 15 buf) 15 (payload_bytes pool p) 0 (unat ?l)
        else Some (hd @ drop 15 buf) | None \<Rightarrow> Some (hd @ drop 15 buf))
      = Some (hd @ cpri_payload pool m @ drop (15 + unat ?l) buf)"
  proof (cases "cm_payload m")
    case None
    then show ?thesis using msg by (simp add: cpri_msg_ok_def cpri_payload_def)
  next
    case (Some p)
    then have "unat ?l \<le> length (payload_bytes pool p)" using msg by (simp add: cpri_msg_ok_def cpri_payload_def)
    moreover have "\<not> ?l > 0 \<Longrightarrow> unat ?l = 0" by (simp add: u32_less_nat)
    moreover have "length hd = 15" by (simp add: hd_def)
    ultimately show ?thesis
      using Some len by (auto simp: cpri_payload_def mem_copy_at add.commute)
  qed
  have "15 \<le> length buf" using len by simp
  then show ?thesis
    unfolding cpri_encode_message_def Let_def CPRI_HEADER_LEN_def
    by (simp only: fits if_False encode_header pay [unfolded hd_def] bind.simps s)
       (simp add: cpri_frame_def w)
qed

subsection \<open>The pool keeps the contract\<close>

lemma cpri_pool_initial: "pool_inv 16 8192 g_cpri_payload_pool" "pool_used g_cpri_payload_pool = {}"
  unfolding g_cpri_payload_pool_def MAX_CPRI_MESSAGE_POOL_def MAX_CPRI_PAYLOAD_SIZE_def pool_inv_def pool_used_def
  by (simp_all only: length_replicate list_all_length nth_replicate select_convs, simp_all)

interpretation cpri_pool: payload_pool cpri_payload_alloc cpri_payload_free pool_used "pool_inv 16 8192" 16 8192
proof unfold_locales
  fix p :: pool and n :: u32
  assume "pool_inv 16 8192 p" "unat n \<le> 8192" "pool_used p \<noteq> {..<16}"
  then show "\<exists>i p'. cpri_payload_alloc p n = (Some (InPool i), p') \<and> i < 16 \<and> i \<notin> pool_used p
      \<and> pool_inv 16 8192 p' \<and> pool_used p' = insert i (pool_used p)"
    using scan_take [of 16 8192 p] by (auto simp: cpri_payload_alloc_def MAX_CPRI_PAYLOAD_SIZE_def)
next
  fix p :: pool and n :: u32
  assume "pool_inv 16 8192 p" "8192 < unat n \<or> pool_used p = {..<16}"
  then show "cpri_payload_alloc p n = (None, p)"
    using scan_full by (auto simp: cpri_payload_alloc_def MAX_CPRI_PAYLOAD_SIZE_def)
next
  fix p :: pool and i :: nat
  assume "pool_inv 16 8192 p" "i < 16"
  then show "pool_inv 16 8192 (cpri_payload_free p (Some (InPool i)))
      \<and> pool_used (cpri_payload_free p (Some (InPool i))) = pool_used p - {i}"
    by (simp add: cpri_payload_free_def scan_release)
qed (rule pool_used_bound)

subsection \<open>Decoding\<close>

lemma cpri_frame_length: "length (cpri_frame h d) = 15 + length d"
  by (simp add: cpri_frame_def)

lemma cpri_frame_fields:
  "read_le32 (cpri_frame h d @ t) 0 = Some (ch_msg_id h)"
  "read_le32 (cpri_frame h d @ t) 4 = Some (of_nat (15 + length d))"
  "arr_get (cpri_frame h d @ t) 8 = Some (ch_paau_id h)"
  "arr_get (cpri_frame h d @ t) 9 = Some (ch_bbu_id h)"
  "arr_get (cpri_frame h d @ t) 10 = Some (ch_port_num h)"
  "read_le32 (cpri_frame h d @ t) 11 = Some (ch_serial_num h)"
  "mem_read (cpri_frame h d @ t) 15 (length d) = Some d"
  by (simp_all add: cpri_frame_def read_le32_def le32_def arr_get_def codec_simps mem_read_def)

text \<open>The header that decoding yields: the one encoded, with the length of the whole message.\<close>

definition cpri_wire_header :: "cpri_msg_header \<Rightarrow> nat \<Rightarrow> cpri_msg_header" where
  "cpri_wire_header h n = h\<lparr>ch_msg_length := of_nat (15 + n)\<rparr>"

lemma cpri_decode_frame:
  assumes inv: "pool_inv 16 8192 pool" and d: "length d \<le> 8192" and free: "pool_used pool \<noteq> {..<16}"
  shows "\<exists>pool' m'. cpri_decode_message pool (cpri_frame h d @ t) (of_nat (15 + length d)) m0 = Some (SUCCESS, pool', m')
     \<and> cm_header m' = cpri_wire_header h (length d) \<and> cpri_msg_ok pool' m' \<and> cpri_payload pool' m' = d
     \<and> pool_inv 16 8192 pool' \<and> card (pool_used pool') \<le> card (pool_used pool) + 1
     \<and> (\<forall>j \<in> pool_used pool. payload_bytes pool' (InPool j) = payload_bytes pool (InPool j))"
proof -
  have tot: "unat (of_nat (15 + length d) :: u32) = 15 + length d" using d by (intro u32_of_nat) simp
  have big: "\<not> (of_nat (15 + length d) :: u32) < CPRI_HEADER_LEN"
    unfolding CPRI_HEADER_LEN_def u32_less_nat tot by simp
  have n: "of_nat (15 + length d) - CPRI_HEADER_LEN = (of_nat (length d) :: u32)"
    by (simp add: CPRI_HEADER_LEN_def)
  have ln: "unat (of_nat (length d) :: u32) = length d" using d by (intro u32_of_nat) simp
  note fields = cpri_frame_fields [of h d t]
  show ?thesis
  proof (cases "d = []")
    case True
    have "cpri_decode_message pool (cpri_frame h d @ t) (of_nat (15 + length d)) m0 =
        Some (SUCCESS, pool, \<lparr>cm_header = cpri_wire_header h (length d), cm_payload = None, cm_payload_len = 0\<rparr>)"
      unfolding cpri_decode_message_def Let_def n if_not_P [OF big] fields bind.simps
      using True by (simp add: cpri_wire_header_def)
    then show ?thesis using True inv by (simp add: cpri_msg_ok_def cpri_payload_def)
  next
    case False
    then have pos: "of_nat (length d) > (0 :: u32)" unfolding u32_less_nat ln by simp
    obtain i p1 where i: "cpri_payload_alloc pool (of_nat (length d)) = (Some (InPool i), p1)" "i < 16"
        "i \<notin> pool_used pool" "pool_inv 16 8192 p1" "pool_used p1 = insert i (pool_used pool)"
      using cpri_pool.alloc_ok [OF inv _ free, of "of_nat (length d)"] d ln by auto
    obtain p2 where p2: "slot_write p1 i d = Some p2" "pool_inv 16 8192 p2" "pool_used p2 = pool_used p1"
        "take (length d) (payload_bytes p2 (InPool i)) = d"
        "\<And>j. j \<noteq> i \<Longrightarrow> payload_bytes p2 (InPool j) = payload_bytes p1 (InPool j)"
      using slot_write_Some [OF i(4,2) d] by blast
    have same: "payload_bytes p1 (InPool j) = payload_bytes pool (InPool j)" for j
    proof -
      have "p1 = slot_mark pool i 1"
        using i(1) by (auto simp: cpri_payload_alloc_def split: if_splits option.splits)
      then show ?thesis by (auto simp: payload_bytes_def slot_mark_data)
    qed
    let ?m = "\<lparr>cm_header = cpri_wire_header h (length d), cm_payload = Some (InPool i), cm_payload_len = of_nat (length d)\<rparr>"
    have pay: "cpri_payload p2 ?m = d" using p2(4) ln by (simp add: cpri_payload_def)
    have "cpri_decode_message pool (cpri_frame h d @ t) (of_nat (15 + length d)) m0 = Some (SUCCESS, p2, ?m)"
      unfolding cpri_decode_message_def Let_def n if_not_P [OF big] fields bind.simps
      using pos i(1) p2(1) fields(7) by (simp add: cpri_wire_header_def ln)
    moreover have "card (pool_used p2) \<le> card (pool_used pool) + 1"
      unfolding p2(3) i(5) by (simp add: card_insert_le_m1 card_insert_if finite_subset [OF pool_used_bound [OF inv]])
    moreover have "\<forall>j \<in> pool_used pool. payload_bytes p2 (InPool j) = payload_bytes pool (InPool j)"
      using p2(5) same i(3) by metis
    ultimately show ?thesis using p2(2) ln pay by (simp add: cpri_msg_ok_def del: of_nat_add)
  qed
qed

lemma cpri_decode_no_room:
  assumes "pool_inv 16 8192 pool" and "0 < length d" and "15 + length d < 2 ^ 32"
    and "8192 < length d \<or> pool_used pool = {..<16}"
  shows "\<exists>m'. cpri_decode_message pool (cpri_frame h d @ t) (of_nat (15 + length d)) m0 = Some (ERROR_MEMORY, pool, m')
     \<and> cm_payload m' = None"
proof -
  have tot: "unat (of_nat (15 + length d) :: u32) = 15 + length d" using assms by (intro u32_of_nat) simp
  have big: "\<not> (of_nat (15 + length d) :: u32) < CPRI_HEADER_LEN"
    unfolding CPRI_HEADER_LEN_def u32_less_nat tot by simp
  have n: "of_nat (15 + length d) - CPRI_HEADER_LEN = (of_nat (length d) :: u32)"
    by (simp add: CPRI_HEADER_LEN_def)
  have ln: "unat (of_nat (length d) :: u32) = length d" using assms by (intro u32_of_nat) simp
  have pos: "of_nat (length d) > (0 :: u32)" unfolding u32_less_nat ln using assms by simp
  have "cpri_payload_alloc pool (of_nat (length d)) = (None, pool)"
    using cpri_pool.alloc_fail [OF assms(1), of "of_nat (length d)"] assms(4) ln by simp
  then show ?thesis
    unfolding cpri_decode_message_def Let_def n if_not_P [OF big] cpri_frame_fields bind.simps
    using pos by simp
qed

lemma read_le32_Some: "i + 4 \<le> length b \<Longrightarrow> \<exists>v. read_le32 b i = Some v"
  by (simp add: read_le32_def arr_get_def)

text \<open>Decoding any bytes: what it allocates, freeing the message gives back.\<close>

lemma cpri_decode_any:
  assumes inv: "pool_inv 16 8192 pool" and len: "unat n \<le> length buf"
  obtains (rejected) r m' where "cpri_decode_message pool buf n m0 = Some (r, pool, m')" "r < 0"
  | (empty) m' where "cpri_decode_message pool buf n m0 = Some (SUCCESS, pool, m')" "cm_payload m' = None"
  | (taken) i pool' m' where "cpri_decode_message pool buf n m0 = Some (SUCCESS, pool', m')"
      "cm_payload m' = Some (InPool i)" "i < 16" "i \<notin> pool_used pool" "pool_inv 16 8192 pool'"
      "pool_used pool' = insert i (pool_used pool)"
proof (cases "n < CPRI_HEADER_LEN")
  case True
  then show ?thesis using that(1) [of "ERROR_INVALID_PARAM"] by (simp add: cpri_decode_message_def)
next
  case False
  let ?k = "n - CPRI_HEADER_LEN"
  have n15: "15 \<le> unat n" using False by (simp add: CPRI_HEADER_LEN_def u32_less_nat)
  then have k: "unat ?k = unat n - 15" by (subst u32_sub_nat) (simp_all add: CPRI_HEADER_LEN_def)
  obtain a b c where rd: "read_le32 buf 0 = Some a" "read_le32 buf 4 = Some b" "read_le32 buf 11 = Some c"
    using read_le32_Some [of 0 buf] read_le32_Some [of 4 buf] read_le32_Some [of 11 buf] n15 len by auto
  have bytes: "arr_get buf 8 = Some (buf ! 8)" "arr_get buf 9 = Some (buf ! 9)" "arr_get buf 10 = Some (buf ! 10)"
    using n15 len by (simp_all add: arr_get_def)
  note unf = cpri_decode_message_def Let_def if_not_P [OF False] rd bytes bind.simps
  show ?thesis
  proof (cases "0 < ?k")
    case False
    then show ?thesis using that(2) by (simp add: unf)
  next
    case pos: True
    show ?thesis
    proof (cases rule: cpri_pool.alloc_cases [OF inv, of ?k, case_names ok fail])
      case (ok i p1)
      have i: "i < 16" using subsetD [OF pool_used_bound [OF ok(3)], of i] unfolding ok(4) by simp
      have rdp: "mem_read buf 15 (unat ?k) = Some (take (unat ?k) (drop 15 buf))" using len n15 k by simp
      have "unat ?k \<le> 8192" 
      proof (rule ccontr)
        assume "\<not> unat ?k \<le> 8192"
        then have "cpri_payload_alloc pool ?k = (None, pool)" by (intro cpri_pool.alloc_fail [OF inv]) linarith
        then show False unfolding ok(1) by simp
      qed
      then have le: "length (take (unat ?k) (drop 15 buf)) \<le> 8192" by simp
      obtain p2 where p2: "slot_write p1 i (take (unat ?k) (drop 15 buf)) = Some p2" "pool_inv 16 8192 p2"
          "pool_used p2 = pool_used p1"
        by (rule slot_write_Some [OF ok(3) i le], rule that)
      have "\<exists>m'. cpri_decode_message pool buf n m0 = Some (SUCCESS, p2, m') \<and> cm_payload m' = Some (InPool i)"
        unfolding unf using pos ok(1) rdp p2(1) by simp
      then show ?thesis using that(3) ok i p2 by metis
    next
      case fail
      have "\<exists>m'. cpri_decode_message pool buf n m0 = Some (ERROR_MEMORY, pool, m')"
        unfolding unf using pos fail by simp
      then show ?thesis using that(1) [of ERROR_MEMORY] by auto
    qed
  qed
qed

subsection \<open>Properties\<close>

definition cpri_example :: cpri_message where
  "cpri_example = \<lparr>cm_header = \<lparr>ch_msg_id = 181, ch_msg_length = 0, ch_paau_id = 1, ch_bbu_id = 2, ch_port_num = 3,
       ch_serial_num = 0x01020304\<rparr>, cm_payload = Some (Outside [9, 8, 7]), cm_payload_len = 3\<rparr>"

text \<open>C33. CPRI round trip. A message whose payload is at most 8192 bytes long, encoded into a buffer
  that is large enough, decodes while the pool has a free slot to a message with the same number,
  identifiers, serial number and payload and with the whole length in the header; encoding
  returns the length and leaves the bytes behind the message alone, and decoding disturbs no
  payload that is in use.\<close>

theorem cpri_round_trip:
  assumes "cpri_msg_ok pool0 m" and "unat (cm_payload_len m) \<le> 8192"
    and "15 + unat (cm_payload_len m) \<le> unat n" and "unat n \<le> length buf" and "unat n < 2 ^ 31"
    and "pool_inv 16 8192 pool" and "pool_used pool \<noteq> {..<16}"
  shows "\<exists>l buf' pool' m'. cpri_encode_message pool0 m buf n = Some (int (unat l), buf')
     \<and> unat l = 15 + unat (cm_payload_len m) \<and> drop (unat l) buf' = drop (unat l) buf
     \<and> cpri_decode_message pool buf' l m0 = Some (SUCCESS, pool', m')
     \<and> cm_header m' = (cm_header m)\<lparr>ch_msg_length := l\<rparr> \<and> cpri_payload pool' m' = cpri_payload pool0 m
     \<and> pool_inv 16 8192 pool'
     \<and> (\<forall>j \<in> pool_used pool. payload_bytes pool' (InPool j) = payload_bytes pool (InPool j))"
proof -
  let ?d = "cpri_payload pool0 m"
  have len: "length ?d = unat (cm_payload_len m)" using assms(1) by (simp add: cpri_msg_ok_def)
  have l: "unat (of_nat (15 + length ?d) :: u32) = 15 + length ?d" using assms(2) len by (intro u32_of_nat) simp
  obtain pool' m' where
      "cpri_decode_message pool (cpri_frame (cm_header m) ?d @ drop (15 + length ?d) buf) (of_nat (15 + length ?d)) m0
         = Some (SUCCESS, pool', m')"
      "cm_header m' = cpri_wire_header (cm_header m) (length ?d)" "cpri_payload pool' m' = ?d" "pool_inv 16 8192 pool'"
      "\<forall>j \<in> pool_used pool. payload_bytes pool' (InPool j) = payload_bytes pool (InPool j)"
    using cpri_decode_frame [OF assms(6) _ assms(7), of ?d] assms(2) len by metis
  then show ?thesis
    using cpri_encode_frame [OF assms(1,3,4,5)] len l
    by (intro exI [of _ "of_nat (15 + length ?d)"] exI [of _ "cpri_frame (cm_header m) ?d @ drop (15 + length ?d) buf"])
      (simp add: cpri_wire_header_def cpri_frame_length del: of_nat_add)
qed

theorem cpri_round_trip_witness:
  "\<exists>l buf' pool' m'. cpri_encode_message [] cpri_example (replicate 32 0) 32 = Some (int (unat l), buf')
     \<and> unat l = 18 \<and> cpri_decode_message g_cpri_payload_pool buf' l cpri_example = Some (SUCCESS, pool', m')
     \<and> cm_header m' = (cm_header cpri_example)\<lparr>ch_msg_length := l\<rparr> \<and> cpri_payload pool' m' = [9, 8, 7]"
proof -
  have "cpri_payload [] cpri_example = [9, 8, 7]" "cpri_msg_ok [] cpri_example"
    by (simp_all add: cpri_example_def cpri_payload_def payload_bytes_def cpri_msg_ok_def)
  then show ?thesis
    using cpri_round_trip [of "[]" cpri_example 32 "replicate 32 0" g_cpri_payload_pool cpri_example] cpri_pool_initial
    by (fastforce simp: cpri_example_def)
qed

text \<open>No buffer of the CPRI pool is handed out twice. After any sequence of allocations and
  releases, by any interleaving of the callers, the buffers held are distinct, and a further
  allocation succeeds exactly when the size is at most 8192 and fewer than 16 buffers are held,
  and then gives a buffer that no one holds.\<close>

theorem cpri_pool_exclusive:
  "\<exists>q live. pool_run cpri_payload_alloc cpri_payload_free (g_cpri_payload_pool, []) ops = (q, live)
     \<and> distinct live \<and> length live \<le> 16
     \<and> (case cpri_payload_alloc q n of
          (Some (InPool i), q') \<Rightarrow> unat n \<le> 8192 \<and> length live < 16 \<and> i < 16 \<and> i \<notin> set live
        | (Some (Outside b), q') \<Rightarrow> False
        | (None, q') \<Rightarrow> 8192 < unat n \<or> length live = 16)"
  by (rule cpri_pool.alloc_after [OF cpri_pool_initial])

text \<open>Decoding leaks no buffer: on any received bytes, decoding either fails, or allocates nothing, and
  then leaves the pool as it was, or it succeeds and freeing the message makes the set of used
  slots what it was before.\<close>

theorem cpri_decode_free_balanced:
  assumes "pool_inv 16 8192 pool" and "unat n \<le> length buf"
  shows "\<exists>r pool' m'. cpri_decode_message pool buf n m0 = Some (r, pool', m')
     \<and> (if r = SUCCESS then pool_used (fst (cpri_free_message pool' m')) = pool_used pool else pool' = pool)
     \<and> pool_inv 16 8192 pool'"
proof (cases rule: cpri_decode_any [OF assms, of m0, case_names rejected empty taken])
  case (taken i pool' m')
  then show ?thesis
    using cpri_pool.release_ok [OF taken(5,3)] by (auto simp: cpri_free_message_def)
qed (use assms(1) in \<open>auto simp: cpri_free_message_def\<close>)

theorem cpri_decode_free_balanced_witness:
  "\<exists>r pool' m'. cpri_decode_message g_cpri_payload_pool (replicate 20 1) 20 cpri_example = Some (r, pool', m')
     \<and> (if r = SUCCESS then pool_used (fst (cpri_free_message pool' m')) = pool_used g_cpri_payload_pool
        else pool' = g_cpri_payload_pool) \<and> pool_inv 16 8192 pool'"
  by (rule cpri_decode_free_balanced) (simp_all add: cpri_pool_initial)

text \<open>The name table covers every message number once: looking up the number of a message type
  finds the row of that type, and every other number is unknown.\<close>

theorem cpri_msg_names:
  "cpri_get_msg_type_name i = Some m \<longleftrightarrow> cpri_msg_code m = i"
proof
  assume "cpri_get_msg_type_name i = Some m"
  then show "cpri_msg_code m = i" by (auto simp: cpri_get_msg_type_name_def find_Some_iff)
next
  assume "cpri_msg_code m = i"
  then show "cpri_get_msg_type_name i = Some m"
    by (cases m) (auto simp: cpri_get_msg_type_name_def msg_type_names_def)
qed

end
