(* ===== verification/FpgaProtocol.thy ===== *)
theory FpgaProtocol
  imports PayloadPool
begin

text \<open>
  The FPGA message layer of fpga_protocol.c: the frequency code, command frames, the 133-byte
  status frame with its big-endian fields, and the payload pool of 8 buffers of 2048 bytes.
\<close>

subsection \<open>Constants\<close>

definition FPGA_FRAME_HEADER :: u16 where "FPGA_FRAME_HEADER = 0xEB90"

definition FPGA_FRAME_TAIL :: u16 where "FPGA_FRAME_TAIL = 0x5555"

definition MAX_FPGA_PAYLOAD_SIZE :: nat where "MAX_FPGA_PAYLOAD_SIZE = 2048"

definition MAX_FPGA_MESSAGE_POOL :: nat where "MAX_FPGA_MESSAGE_POOL = 8"

datatype fpga_msg_id =
    FPGA_MSG_CPRI_MODE | FPGA_MSG_CPRI_CONFIG | FPGA_MSG_CMD_BEAM_NUM |
    FPGA_MSG_SERVICE_BEAM_NUM | FPGA_MSG_PHASE_RESTORE | FPGA_MSG_CALIBRATION |
    FPGA_MSG_LOOPBACK | FPGA_MSG_FREQ_BAND | FPGA_MSG_WAVE_TIMES | FPGA_MSG_SYSTEM_TIME |
    FPGA_MSG_TX_CONTROL | FPGA_MSG_POWER_OFF_ACK | FPGA_MSG_LOG_QUERY | FPGA_MSG_PASSTHROUGH |
    FPGA_MSG_TELEMETRY_POLL_V7A | FPGA_MSG_TELEMETRY_POLL_V7B1 | FPGA_MSG_TELEMETRY_POLL_V7B2 |
    FPGA_MSG_STATUS_QUERY

primrec fpga_msg_code :: "fpga_msg_id \<Rightarrow> u8" where
  "fpga_msg_code FPGA_MSG_CPRI_MODE = 0x01"
| "fpga_msg_code FPGA_MSG_CPRI_CONFIG = 0x02"
| "fpga_msg_code FPGA_MSG_CMD_BEAM_NUM = 0x03"
| "fpga_msg_code FPGA_MSG_SERVICE_BEAM_NUM = 0x04"
| "fpga_msg_code FPGA_MSG_PHASE_RESTORE = 0x05"
| "fpga_msg_code FPGA_MSG_CALIBRATION = 0x06"
| "fpga_msg_code FPGA_MSG_LOOPBACK = 0x07"
| "fpga_msg_code FPGA_MSG_FREQ_BAND = 0x08"
| "fpga_msg_code FPGA_MSG_WAVE_TIMES = 0x09"
| "fpga_msg_code FPGA_MSG_SYSTEM_TIME = 0x0A"
| "fpga_msg_code FPGA_MSG_TX_CONTROL = 0x0B"
| "fpga_msg_code FPGA_MSG_POWER_OFF_ACK = 0x0D"
| "fpga_msg_code FPGA_MSG_LOG_QUERY = 0x11"
| "fpga_msg_code FPGA_MSG_PASSTHROUGH = 0x12"
| "fpga_msg_code FPGA_MSG_TELEMETRY_POLL_V7A = 0xA1"
| "fpga_msg_code FPGA_MSG_TELEMETRY_POLL_V7B1 = 0xB1"
| "fpga_msg_code FPGA_MSG_TELEMETRY_POLL_V7B2 = 0xB2"
| "fpga_msg_code FPGA_MSG_STATUS_QUERY = 0xFF"

subsection \<open>The payload pool\<close>

definition g_fpga_payload_pool :: pool where
  "g_fpga_payload_pool = replicate MAX_FPGA_MESSAGE_POOL
     \<lparr>in_use = 0, slot_data = replicate MAX_FPGA_PAYLOAD_SIZE 0\<rparr>"

definition fpga_payload_alloc :: "pool \<Rightarrow> u32 \<Rightarrow> payload_ptr option \<times> pool" where
  "fpga_payload_alloc pool sz =
     (if unat sz > MAX_FPGA_PAYLOAD_SIZE then (None, pool)
      else case first_free pool 0 of
             Some i \<Rightarrow> (Some (InPool i), slot_mark pool i 1)
           | None \<Rightarrow> (None, pool))"

definition fpga_payload_free_internal :: "pool \<Rightarrow> payload_ptr option \<Rightarrow> pool" where
  "fpga_payload_free_internal pool ptr =
     (case ptr of
        None \<Rightarrow> pool
      | Some (InPool i) \<Rightarrow> slot_mark pool i 0
      | Some (Outside b) \<Rightarrow> pool)"

subsection \<open>The frequency code\<close>

text \<open>The quotient is stored in a \<open>uint8_t\<close>; the shift by 24 is of the promoted \<open>int\<close>.\<close>

definition fpga_encode_frequency :: "u32 \<Rightarrow> u32" where
  "fpga_encode_frequency freq_khz =
     (let quotient = (ucast (freq_khz div 50000) :: u8);
          remainder = (freq_khz mod 50000) * 2
      in push_bit 24 (ucast quotient) OR (remainder AND 0xFFFFFF))"

definition fpga_decode_frequency :: "u32 \<Rightarrow> u32" where
  "fpga_decode_frequency encoded_freq =
     (let quotient = (ucast (drop_bit 24 encoded_freq AND 0xFF) :: u8);
          remainder = encoded_freq AND 0xFFFFFF
      in ucast quotient * 50000 + remainder div 2)"

subsection \<open>Command frames\<close>

record fpga_message =
  fm_msg_id :: u8
  fm_payload :: "payload_ptr option"
  fm_payload_len :: u32

definition fpga_encode_message :: "pool \<Rightarrow> fpga_message \<Rightarrow> bytes \<Rightarrow> u32 \<Rightarrow> (int \<times> bytes) option" where
  "fpga_encode_message pool msg buffer buffer_size =
     (let total_len = 2 + 1 + 1 + fm_payload_len msg + 2
      in if buffer_size < total_len then Some (ERROR_INVALID_PARAM, buffer)
      else do {
        let length_field = (ucast (fm_payload_len msg) :: u8);
        b \<leftarrow> mem_copy buffer 0 (be16 FPGA_FRAME_HEADER) 0 2;
        b \<leftarrow> arr_set b 2 (fm_msg_id msg);
        b \<leftarrow> arr_set b 3 length_field;
        (b, offset) \<leftarrow> (case fm_payload msg of
            Some p \<Rightarrow>
              if fm_payload_len msg > 0
              then do {
                b' \<leftarrow> mem_copy b 4 (payload_bytes pool p) 0 (unat (fm_payload_len msg));
                Some (b', 4 + fm_payload_len msg) }
              else Some (b, 4)
          | None \<Rightarrow> Some (b, 4));
        b \<leftarrow> mem_copy b (unat offset) (be16 FPGA_FRAME_TAIL) 0 2;
        Some (sint total_len, b) })"

text \<open>The copy of the payload reads the receive buffer: a length field that points behind it gives
  \<open>None\<close>.\<close>

definition fpga_decode_message ::
  "pool \<Rightarrow> bytes \<Rightarrow> u32 \<Rightarrow> fpga_message \<Rightarrow> (int \<times> pool \<times> fpga_message) option" where
  "fpga_decode_message pool buffer buffer_len msg =
     (if buffer_len < 6 then Some (ERROR_INVALID_PARAM, pool, msg)
      else do {
        hd \<leftarrow> read_be16 buffer 0;
        if hd \<noteq> FPGA_FRAME_HEADER then Some (ERROR_GENERAL, pool, msg)
        else do {
          tl \<leftarrow> read_be16 buffer (unat (buffer_len - 2));
          if tl \<noteq> FPGA_FRAME_TAIL then Some (ERROR_GENERAL, pool, msg)
          else do {
            mid \<leftarrow> arr_get buffer 2;
            length_field \<leftarrow> arr_get buffer 3;
            let n = (if length_field \<ge> 2 then ucast length_field - 2 else 0 :: u32);
            let m = msg\<lparr>fm_msg_id := mid, fm_payload_len := n\<rparr>;
            if n > 0
            then (case fpga_payload_alloc pool n of
                    (Some (InPool i), pool') \<Rightarrow> do {
                      d \<leftarrow> mem_read buffer 4 (unat n);
                      pool'' \<leftarrow> slot_write pool' i d;
                      Some (SUCCESS, pool'', m\<lparr>fm_payload := Some (InPool i)\<rparr>) }
                  | (_, pool') \<Rightarrow> Some (ERROR_MEMORY, pool', m\<lparr>fm_payload := None\<rparr>))
            else Some (SUCCESS, pool, m\<lparr>fm_payload := None\<rparr>) } } })"

definition fpga_free_message :: "pool \<Rightarrow> fpga_message \<Rightarrow> pool \<times> fpga_message" where
  "fpga_free_message pool msg =
     (case fm_payload msg of
        None \<Rightarrow> (pool, msg)
      | Some p \<Rightarrow> (fpga_payload_free_internal pool (Some p), msg\<lparr>fm_payload := None, fm_payload_len := 0\<rparr>))"

definition fpga_telemetry_payload_len :: "u8 \<Rightarrow> u32" where
  "fpga_telemetry_payload_len src =
     (if src = fpga_msg_code FPGA_MSG_TELEMETRY_POLL_V7A then 127
      else if src = fpga_msg_code FPGA_MSG_TELEMETRY_POLL_V7B1 then 146
      else if src = fpga_msg_code FPGA_MSG_TELEMETRY_POLL_V7B2 then 146
      else 0)"

subsection \<open>The status frame\<close>

record fpga_status_data =
  sd_link_success_flag :: u8
  sd_main_fiber_num :: u8
  sd_backup_fiber_num :: u8
  sd_channel_setup_reason :: u8
  sd_nr_beam_count :: u32
  sd_max_tx_power :: u16
  sd_supported_modes :: u16
  sd_hw_type :: bytes
  sd_hw_version :: u32
  sd_current_output_power :: u16
  sd_power_off_notify :: u8
  sd_reserved1 :: u8
  sd_cmd_beam_num :: u8
  sd_service_beam_num :: u8
  sd_beam_status :: u32
  sd_lo_frequency :: u32
  sd_lo_lock_status :: u32
  sd_hw_type_ext :: bytes
  sd_reserved2 :: u8
  sd_clock_sync_status :: u32
  sd_phased_array_work_mode :: u32
  sd_cpri_work_mode :: u32
  sd_calib_result :: u8
  sd_reserved3 :: u8
  sd_toffset :: u32
  sd_t2a :: u32
  sd_ta3 :: u32
  sd_loopback_result :: u8
  sd_reserved4 :: bytes
  sd_channel_fault_count :: u8
  sd_temp1 :: u8
  sd_temp2 :: u8
  sd_temp3 :: u8
  sd_temp1_high :: u8
  sd_temp1_low :: u8
  sd_temp2_high :: u8
  sd_temp2_low :: u8
  sd_temp3_high :: u8
  sd_temp3_low :: u8
  sd_tx_freq_start :: u16
  sd_tx_freq_end :: u16
  sd_rx_freq_start :: u16
  sd_rx_freq_end :: u16
  sd_beam_bandwidth :: u16
  sd_reserved5 :: u32

record fpga_status_frame =
  sf_frame_header :: u16
  sf_length :: u16
  sf_data :: fpga_status_data
  sf_frame_tail :: u16

text \<open>Fields of the packed structure as the little-endian machine sees them after memcpy.\<close>

definition le16_at :: "bytes \<Rightarrow> nat \<Rightarrow> u16" where
  "le16_at d i = of_le16 (d ! i) (d ! (i + 1))"

definition le32_at :: "bytes \<Rightarrow> nat \<Rightarrow> u32" where
  "le32_at d i = of_le32 (d ! i) (d ! (i + 1)) (d ! (i + 2)) (d ! (i + 3))"

definition status_data_raw :: "bytes \<Rightarrow> fpga_status_data" where
  "status_data_raw d = \<lparr>
      sd_link_success_flag = d ! 0, sd_main_fiber_num = d ! 1, sd_backup_fiber_num = d ! 2,
      sd_channel_setup_reason = d ! 3, sd_nr_beam_count = le32_at d 4,
      sd_max_tx_power = le16_at d 8, sd_supported_modes = le16_at d 10,
      sd_hw_type = take 32 (drop 12 d), sd_hw_version = le32_at d 44,
      sd_current_output_power = le16_at d 48, sd_power_off_notify = d ! 50,
      sd_reserved1 = d ! 51, sd_cmd_beam_num = d ! 52, sd_service_beam_num = d ! 53,
      sd_beam_status = le32_at d 54, sd_lo_frequency = le32_at d 58,
      sd_lo_lock_status = le32_at d 62, sd_hw_type_ext = take 6 (drop 66 d),
      sd_reserved2 = d ! 72, sd_clock_sync_status = le32_at d 73,
      sd_phased_array_work_mode = le32_at d 77, sd_cpri_work_mode = le32_at d 81,
      sd_calib_result = d ! 85, sd_reserved3 = d ! 86, sd_toffset = le32_at d 87,
      sd_t2a = le32_at d 91, sd_ta3 = le32_at d 95, sd_loopback_result = d ! 99,
      sd_reserved4 = take 3 (drop 100 d), sd_channel_fault_count = d ! 103, sd_temp1 = d ! 104,
      sd_temp2 = d ! 105, sd_temp3 = d ! 106, sd_temp1_high = d ! 107, sd_temp1_low = d ! 108,
      sd_temp2_high = d ! 109, sd_temp2_low = d ! 110, sd_temp3_high = d ! 111,
      sd_temp3_low = d ! 112, sd_tx_freq_start = le16_at d 113, sd_tx_freq_end = le16_at d 115,
      sd_rx_freq_start = le16_at d 117, sd_rx_freq_end = le16_at d 119,
      sd_beam_bandwidth = le16_at d 121, sd_reserved5 = le32_at d 123\<rparr>"

text \<open>NTOHS and NTOHL.\<close>

definition bswap16 :: "u16 \<Rightarrow> u16" where
  "bswap16 w = of_le16 (ucast (drop_bit 8 w)) (ucast w)"

definition bswap32 :: "u32 \<Rightarrow> u32" where
  "bswap32 w = of_le32 (ucast (drop_bit 24 w)) (ucast (drop_bit 16 w)) (ucast (drop_bit 8 w)) (ucast w)"

definition status_data_swap :: "fpga_status_data \<Rightarrow> fpga_status_data" where
  "status_data_swap d = d\<lparr>
      sd_nr_beam_count := bswap32 (sd_nr_beam_count d),
      sd_max_tx_power := bswap16 (sd_max_tx_power d),
      sd_supported_modes := bswap16 (sd_supported_modes d),
      sd_hw_version := bswap32 (sd_hw_version d),
      sd_current_output_power := bswap16 (sd_current_output_power d),
      sd_beam_status := bswap32 (sd_beam_status d),
      sd_lo_frequency := bswap32 (sd_lo_frequency d),
      sd_lo_lock_status := bswap32 (sd_lo_lock_status d),
      sd_clock_sync_status := bswap32 (sd_clock_sync_status d),
      sd_phased_array_work_mode := bswap32 (sd_phased_array_work_mode d),
      sd_cpri_work_mode := bswap32 (sd_cpri_work_mode d), sd_toffset := bswap32 (sd_toffset d),
      sd_t2a := bswap32 (sd_t2a d), sd_ta3 := bswap32 (sd_ta3 d),
      sd_tx_freq_start := bswap16 (sd_tx_freq_start d),
      sd_tx_freq_end := bswap16 (sd_tx_freq_end d),
      sd_rx_freq_start := bswap16 (sd_rx_freq_start d),
      sd_rx_freq_end := bswap16 (sd_rx_freq_end d),
      sd_beam_bandwidth := bswap16 (sd_beam_bandwidth d), sd_reserved5 := bswap32 (sd_reserved5 d)\<rparr>"

definition fpga_decode_status_frame ::
  "bytes \<Rightarrow> u32 \<Rightarrow> fpga_status_frame \<Rightarrow> (int \<times> fpga_status_frame) option" where
  "fpga_decode_status_frame buffer buffer_len status =
     (if buffer_len \<noteq> 133 then Some (ERROR_INVALID_PARAM, status)
      else do {
        h \<leftarrow> read_le16 buffer 0;
        l \<leftarrow> read_le16 buffer 2;
        d \<leftarrow> mem_read buffer 4 127;
        t \<leftarrow> read_le16 buffer 131;
        let st = \<lparr>sf_frame_header = bswap16 h, sf_length = bswap16 l, sf_data = status_data_raw d,
                   sf_frame_tail = bswap16 t\<rparr>;
        if sf_frame_header st \<noteq> FPGA_FRAME_HEADER \<or> sf_frame_tail st \<noteq> FPGA_FRAME_TAIL
        then Some (ERROR_GENERAL, st)
        else Some (SUCCESS, st\<lparr>sf_data := status_data_swap (sf_data st)\<rparr>) })"

subsection \<open>The frequency code\<close>

lemma freq_fields:
  fixes q :: u8 and r :: u32
  assumes "take_bit 24 r = r"
  shows "(ucast (drop_bit 24 (push_bit 24 (ucast q) OR r) AND 0xFF) :: u8) = q"
    and "(push_bit 24 (ucast q) OR r) AND 0xFFFFFF = r"
proof -
  have r: "\<not> bit r n" if "24 \<le> n" for n
    using assms that by (metis bit_take_bit_iff not_less)
  have r': "bit r n \<Longrightarrow> n < 24" for n using r not_less by blast
  have ff: "(0xFF :: u32) = mask 8" "(0xFFFFFF :: u32) = mask 24" by (simp_all add: mask_eq_exp_minus_1)
  show "(ucast (drop_bit 24 (push_bit 24 (ucast q) OR r) AND 0xFF) :: u8) = q"
    unfolding ff by (rule bit_word_eqI) (auto simp: bit_simps r)
  show "(push_bit 24 (ucast q) OR r) AND 0xFFFFFF = r"
    unfolding ff by (rule bit_word_eqI) (auto simp: bit_simps dest: r')
qed

lemma freq_code_inverse:
  assumes f: "unat f < 12800000"
  shows "fpga_decode_frequency (fpga_encode_frequency f) = f"
proof -
  let ?q = "ucast (f div 50000) :: u8" and ?r = "(f mod 50000) * 2"
  have m: "unat (f mod 50000) < 50000" by (simp add: unat_mod)
  then have r: "unat ?r = 2 * (unat f mod 50000)"
    by (simp add: unat_word_ariths unat_mod)
  then have "take_bit 24 ?r = ?r"
    using m by (simp add: word_unat_eq_iff unsigned_take_bit_eq take_bit_nat_eq_self unat_mod del: of_nat_take_bit)
  moreover have "?r AND 0xFFFFFF = take_bit 24 ?r" by (simp add: take_bit_eq_mask mask_eq_exp_minus_1)
  ultimately have dec: "fpga_decode_frequency (fpga_encode_frequency f) = ucast ?q * 50000 + ?r div 2"
    unfolding fpga_decode_frequency_def fpga_encode_frequency_def Let_def by (simp only: freq_fields)
  have q: "unat (ucast ?q :: u32) = unat f div 50000"
    using f by (simp add: unsigned_ucast_eq unsigned_take_bit_eq unat_div take_bit_nat_eq_self del: of_nat_take_bit)
  have "unat (ucast ?q * 50000 + ?r div 2 :: u32) = unat f div 50000 * 50000 + unat f mod 50000"
    using f q r by (simp add: unat_word_ariths unat_div)
  then show ?thesis unfolding dec by (simp add: word_unat_eq_iff)
qed

subsection \<open>The payload pool\<close>

lemma fpga_pool_initial: "pool_inv 8 2048 g_fpga_payload_pool" "pool_used g_fpga_payload_pool = {}"
  unfolding g_fpga_payload_pool_def MAX_FPGA_MESSAGE_POOL_def MAX_FPGA_PAYLOAD_SIZE_def pool_inv_def pool_used_def
  by (simp_all only: length_replicate list_all_length nth_replicate select_convs, simp_all)

interpretation fpga_pool: payload_pool fpga_payload_alloc fpga_payload_free_internal pool_used "pool_inv 8 2048" 8 2048
proof unfold_locales
  fix p :: pool and n :: u32
  assume "pool_inv 8 2048 p" "unat n \<le> 2048" "pool_used p \<noteq> {..<8}"
  then show "\<exists>i p'. fpga_payload_alloc p n = (Some (InPool i), p') \<and> i < 8 \<and> i \<notin> pool_used p
      \<and> pool_inv 8 2048 p' \<and> pool_used p' = insert i (pool_used p)"
    using scan_take [of 8 2048 p] by (auto simp: fpga_payload_alloc_def MAX_FPGA_PAYLOAD_SIZE_def)
next
  fix p :: pool and n :: u32
  assume "pool_inv 8 2048 p" "2048 < unat n \<or> pool_used p = {..<8}"
  then show "fpga_payload_alloc p n = (None, p)"
    using scan_full by (auto simp: fpga_payload_alloc_def MAX_FPGA_PAYLOAD_SIZE_def)
next
  fix p :: pool and i :: nat
  assume "pool_inv 8 2048 p" "i < 8"
  then show "pool_inv 8 2048 (fpga_payload_free_internal p (Some (InPool i)))
      \<and> pool_used (fpga_payload_free_internal p (Some (InPool i))) = pool_used p - {i}"
    by (simp add: fpga_payload_free_internal_def scan_release)
qed (rule pool_used_bound)

subsection \<open>Status frames\<close>

definition be16_at :: "bytes \<Rightarrow> nat \<Rightarrow> u16" where
  "be16_at d i = of_be16 (d ! i) (d ! (i + 1))"

definition be32_at :: "bytes \<Rightarrow> nat \<Rightarrow> u32" where
  "be32_at d i = of_be32 (d ! i) (d ! (i + 1)) (d ! (i + 2)) (d ! (i + 3))"

text \<open>The 127 data bytes as the telemetry definition lays them out: every integer big-endian.\<close>

definition status_layout :: "bytes \<Rightarrow> fpga_status_data" where
  "status_layout d = \<lparr>
      sd_link_success_flag = d ! 0, sd_main_fiber_num = d ! 1, sd_backup_fiber_num = d ! 2,
      sd_channel_setup_reason = d ! 3, sd_nr_beam_count = be32_at d 4,
      sd_max_tx_power = be16_at d 8, sd_supported_modes = be16_at d 10,
      sd_hw_type = take 32 (drop 12 d), sd_hw_version = be32_at d 44,
      sd_current_output_power = be16_at d 48, sd_power_off_notify = d ! 50,
      sd_reserved1 = d ! 51, sd_cmd_beam_num = d ! 52, sd_service_beam_num = d ! 53,
      sd_beam_status = be32_at d 54, sd_lo_frequency = be32_at d 58,
      sd_lo_lock_status = be32_at d 62, sd_hw_type_ext = take 6 (drop 66 d),
      sd_reserved2 = d ! 72, sd_clock_sync_status = be32_at d 73,
      sd_phased_array_work_mode = be32_at d 77, sd_cpri_work_mode = be32_at d 81,
      sd_calib_result = d ! 85, sd_reserved3 = d ! 86, sd_toffset = be32_at d 87,
      sd_t2a = be32_at d 91, sd_ta3 = be32_at d 95, sd_loopback_result = d ! 99,
      sd_reserved4 = take 3 (drop 100 d), sd_channel_fault_count = d ! 103, sd_temp1 = d ! 104,
      sd_temp2 = d ! 105, sd_temp3 = d ! 106, sd_temp1_high = d ! 107, sd_temp1_low = d ! 108,
      sd_temp2_high = d ! 109, sd_temp2_low = d ! 110, sd_temp3_high = d ! 111,
      sd_temp3_low = d ! 112, sd_tx_freq_start = be16_at d 113, sd_tx_freq_end = be16_at d 115,
      sd_rx_freq_start = be16_at d 117, sd_rx_freq_end = be16_at d 119,
      sd_beam_bandwidth = be16_at d 121, sd_reserved5 = be32_at d 123\<rparr>"

lemma of_le16_bytes:
  "ucast (of_le16 a b) = a" "(ucast (drop_bit 8 (of_le16 a b)) :: u8) = b"
  by (rule bit_word_eqI; auto simp: of_le16_def bit_simps dest: bit_imp_le_length)+

lemma of_le32_bytes:
  "(ucast (of_le32 a b c d) :: u8) = a" "(ucast (drop_bit 8 (of_le32 a b c d)) :: u8) = b"
  "(ucast (drop_bit 16 (of_le32 a b c d)) :: u8) = c" "(ucast (drop_bit 24 (of_le32 a b c d)) :: u8) = d"
  by (rule bit_word_eqI; auto simp: of_le32_def bit_simps dest: bit_imp_le_length)+

lemma bswap_at: "bswap16 (le16_at d i) = be16_at d i" "bswap32 (le32_at d i) = be32_at d i"
  by (simp_all add: bswap16_def bswap32_def le16_at_def le32_at_def be16_at_def be32_at_def of_be16_def of_be32_def
      of_le16_bytes of_le32_bytes)

lemma status_data_layout: "status_data_swap (status_data_raw d) = status_layout d"
  by (simp add: status_data_swap_def status_data_raw_def status_layout_def bswap_at)


subsection \<open>Command frames\<close>

definition fpga_frame :: "u8 \<Rightarrow> bytes \<Rightarrow> bytes" where
  "fpga_frame i d = be16 FPGA_FRAME_HEADER @ [i, of_nat (length d)] @ d @ be16 FPGA_FRAME_TAIL"

definition fpga_payload :: "pool \<Rightarrow> fpga_message \<Rightarrow> bytes" where
  "fpga_payload pool m = (case fm_payload m of None \<Rightarrow> [] | Some p \<Rightarrow> take (unat (fm_payload_len m)) (payload_bytes pool p))"

definition fpga_msg_ok :: "pool \<Rightarrow> fpga_message \<Rightarrow> bool" where
  "fpga_msg_ok pool m \<longleftrightarrow> length (fpga_payload pool m) = unat (fm_payload_len m)"

lemma fpga_encode_start:
  fixes buf :: bytes
  assumes "4 \<le> length buf"
  shows "do {
      b \<leftarrow> mem_copy buf 0 (be16 h) 0 2;
      b \<leftarrow> arr_set b 2 x;
      b \<leftarrow> arr_set b 3 y;
      f b } = f ((be16 h @ [x, y]) @ drop 4 buf)"
proof -
  have 1: "mem_copy buf 0 (be16 h) 0 2 = Some (be16 h @ drop 2 buf)"
    using assms mem_copy_at [of "[]" 0 2 buf "be16 h"] by simp
  have 2: "arr_set (be16 h @ drop 2 buf) 2 x = Some ((be16 h @ [x]) @ drop 3 buf)"
    using assms by (subst arr_set_at) (simp_all add: eval_nat_numeral)
  have 3: "arr_set ((be16 h @ [x]) @ drop 3 buf) 3 y = Some ((be16 h @ [x, y]) @ drop 4 buf)"
    using assms by (subst arr_set_at) simp_all
  show ?thesis by (simp only: 1 2 3 bind.simps)
qed

lemma fpga_encode_frame:
  assumes msg: "fpga_msg_ok pool m" and len: "6 + unat (fm_payload_len m) \<le> unat n" "unat n \<le> length buf"
    and small: "unat n < 2 ^ 31"
  shows "fpga_encode_message pool m buf n = Some (int (6 + unat (fm_payload_len m)),
     fpga_frame (fm_msg_id m) (fpga_payload pool m) @ drop (6 + unat (fm_payload_len m)) buf)"
proof -
  let ?l = "fm_payload_len m" and ?d = "fpga_payload pool m"
  have ld: "length ?d = unat ?l" using msg by (simp add: fpga_msg_ok_def)
  have tot: "unat (2 + 1 + 1 + ?l + 2) = 6 + unat ?l"
  proof -
    have "2 + 1 + 1 + ?l + 2 = 6 + ?l" by simp
    then show ?thesis using len(1) small by (simp only:) (subst u32_add_nat; simp)
  qed
  then have s: "sint (2 + 1 + 1 + ?l + 2) = int (6 + unat ?l)"
    using len(1) small by (subst u32_sint) simp_all
  have fits: "\<not> n < 2 + 1 + 1 + ?l + 2" unfolding u32_less_nat tot using len(1) by simp
  have lf: "(ucast ?l :: u8) = of_nat (length ?d)" unfolding ld by (simp add: of_nat_unat)
  define hd where "hd = be16 FPGA_FRAME_HEADER @ [fm_msg_id m, ucast ?l]"
  have lh: "length hd = 4" by (simp add: hd_def)
  have off: "unat (4 + ?l) = 4 + unat ?l" using len(1) small by (subst u32_add_nat) simp_all
  have pay: "(case fm_payload m of Some p \<Rightarrow> if ?l > 0
        then do { b' \<leftarrow> mem_copy (hd @ drop 4 buf) 4 (payload_bytes pool p) 0 (unat ?l); Some (b', 4 + ?l) }
        else Some (hd @ drop 4 buf, 4) | None \<Rightarrow> Some (hd @ drop 4 buf, 4))
      = Some ((hd @ ?d) @ drop (4 + unat ?l) buf, 4 + ?l)"
  proof (cases "fm_payload m")
    case None
    then have "unat ?l = 0" using ld by (simp add: fpga_payload_def)
    then show ?thesis using None by (simp add: fpga_payload_def unat_eq_0)
  next
    case (Some p)
    then have "unat ?l \<le> length (payload_bytes pool p)" using ld by (simp add: fpga_payload_def)
    moreover have "\<not> ?l > 0 \<Longrightarrow> ?l = 0" by (simp add: u32_less_nat unat_eq_0)
    ultimately show ?thesis
      using Some len lh by (auto simp: fpga_payload_def mem_copy_at add.commute)
  qed
  have tl: "mem_copy ((hd @ ?d) @ drop (4 + unat ?l) buf) (unat (4 + ?l)) (be16 FPGA_FRAME_TAIL) 0 2
      = Some ((hd @ ?d) @ be16 FPGA_FRAME_TAIL @ drop (6 + unat ?l) buf)"
    using len ld lh off by (subst mem_copy_at) simp_all
  have b4: "4 \<le> length buf" using len by simp
  show ?thesis
    unfolding fpga_encode_message_def Let_def if_not_P [OF fits] fpga_encode_start [OF b4]
    unfolding hd_def [symmetric] pay bind.simps prod.case tl s
    by (simp add: fpga_frame_def hd_def lf)
qed

lemma read_be16_eq:
  "i + 2 \<le> length b \<Longrightarrow> (read_be16 b i = Some (of_be16 x y)) = (take 2 (drop i b) = [x, y])"
proof -
  assume len: "i + 2 \<le> length b"
  then have "take 2 (drop i b) = [b ! i, b ! (i + 1)]"
    by (simp add: take_Suc_conv_app_nth numeral_2_eq_2 hd_drop_conv_nth)
  moreover have "of_le16 a c = of_le16 a' c' \<longleftrightarrow> a = a' \<and> c = c'" for a c a' c'
    by (metis of_le16_bytes)
  ultimately show ?thesis using len by (auto simp: read_be16_def arr_get_def of_be16_def)
qed

lemma bswap_read: "i + 2 \<le> length b \<Longrightarrow> \<exists>w. read_le16 b i = Some w \<and> read_be16 b i = Some (bswap16 w)
    \<and> bswap16 w = be16_at b i"
  by (simp add: read_le16_def read_be16_def arr_get_def bswap16_def of_be16_def of_le16_bytes be16_at_def)

lemma fpga_marks: "FPGA_FRAME_HEADER = of_be16 0xEB 0x90" "FPGA_FRAME_TAIL = of_be16 0x55 0x55"
  by (simp_all add: FPGA_FRAME_HEADER_def FPGA_FRAME_TAIL_def of_be16_def of_le16_def)

lemma fpga_status_decode:
  assumes "133 \<le> length buf"
  shows "fpga_decode_status_frame buf 133 st0 = Some (
     if take 2 buf = [0xEB, 0x90] \<and> take 2 (drop 131 buf) = [0x55, 0x55]
     then (SUCCESS, \<lparr>sf_frame_header = be16_at buf 0, sf_length = be16_at buf 2,
             sf_data = status_layout (take 127 (drop 4 buf)), sf_frame_tail = be16_at buf 131\<rparr>)
     else (ERROR_GENERAL, \<lparr>sf_frame_header = be16_at buf 0, sf_length = be16_at buf 2,
             sf_data = status_data_raw (take 127 (drop 4 buf)), sf_frame_tail = be16_at buf 131\<rparr>))"
proof -
  obtain h l t where w: "read_le16 buf 0 = Some h" "read_be16 buf 0 = Some (bswap16 h)" "bswap16 h = be16_at buf 0"
      "read_le16 buf 2 = Some l" "bswap16 l = be16_at buf 2"
      "read_le16 buf 131 = Some t" "read_be16 buf 131 = Some (bswap16 t)" "bswap16 t = be16_at buf 131"
    using assms bswap_read [of 0 buf] bswap_read [of 2 buf] bswap_read [of 131 buf] by auto
  have hd: "bswap16 h = FPGA_FRAME_HEADER \<longleftrightarrow> take 2 buf = [0xEB, 0x90]"
    using read_be16_eq [of 0 buf "0xEB" "0x90"] assms w(2) by (simp add: fpga_marks)
  have tl: "bswap16 t = FPGA_FRAME_TAIL \<longleftrightarrow> take 2 (drop 131 buf) = [0x55, 0x55]"
    using read_be16_eq [of 131 buf "0x55" "0x55"] assms w(7) by (simp add: fpga_marks)
  have d: "mem_read buf 4 127 = Some (take 127 (drop 4 buf))" using assms by simp
  show ?thesis
    unfolding fpga_decode_status_frame_def Let_def
    by (simp add: w(1,4,6) d hd [unfolded w(3)] tl [unfolded w(8)] status_data_layout w(3,5,8))
qed

text \<open>The decoder on a frame that the encoder wrote.\<close>

lemma fpga_decode_own_frame:
  assumes inv: "pool_inv 8 2048 pool" and free: "pool_used pool \<noteq> {..<8}" and d: "2 < length d" "length d \<le> 255"
  shows "\<exists>pool' m'. fpga_decode_message pool (fpga_frame i d @ t) (of_nat (6 + length d)) m0 = Some (SUCCESS, pool', m')
     \<and> fm_msg_id m' = i \<and> fpga_payload pool' m' = take (length d - 2) d"
proof -
  let ?b = "fpga_frame i d @ t" and ?n = "of_nat (6 + length d) :: u32"
  have n: "unat ?n = 6 + length d" using d by (intro u32_of_nat) simp
  have big: "\<not> ?n < 6" unfolding u32_less_nat n by simp
  have n2: "unat (?n - 2) = 4 + length d" using n by (subst u32_sub_nat) simp_all
  have hd: "read_be16 ?b 0 = Some FPGA_FRAME_HEADER"
    using read_append(3) [of "[]" 0 FPGA_FRAME_HEADER] by (simp add: fpga_frame_def)
  have "?b = (be16 FPGA_FRAME_HEADER @ [i, of_nat (length d)] @ d) @ be16 FPGA_FRAME_TAIL @ t"
    by (simp add: fpga_frame_def)
  then have tl: "read_be16 ?b (4 + length d) = Some FPGA_FRAME_TAIL" by (simp only:) (rule read_append(3), simp)
  have bs: "arr_get ?b 2 = Some i" "arr_get ?b 3 = Some (of_nat (length d))"
    by (simp_all add: fpga_frame_def be16_def arr_get_Cons)
  let ?lf = "of_nat (length d) :: u8" and ?k = "of_nat (length d - 2) :: u32"
  have lf: "unat ?lf = length d" using d by (simp add: unat_of_nat take_bit_eq_mod)
  have lf2: "?lf \<ge> 2" unfolding word_le_nat_alt lf using d by simp
  have "ucast ?lf = (of_nat (length d) :: u32)" 
    using arg_cong [OF lf, of "of_nat :: nat \<Rightarrow> u32"] by (simp add: of_nat_unat del: of_nat_take_bit)
  then have k: "ucast ?lf - 2 = ?k" using d by (simp add: of_nat_diff)
  have ku: "unat ?k = length d - 2" using d by (intro u32_of_nat) simp
  have pos: "0 < ?k" unfolding u32_less_nat ku using d by simp
  have "unat ?k \<le> 2048" unfolding ku using d by simp
  then obtain j p1 where j: "fpga_payload_alloc pool ?k = (Some (InPool j), p1)" "j < 8" "pool_inv 8 2048 p1"
    using fpga_pool.alloc_ok [OF inv _ free, of ?k] by blast
  have le: "length (take (length d - 2) d) \<le> 2048" using d by simp
  obtain p2 where p2: "slot_write p1 j (take (length d - 2) d) = Some p2"
      "take (length (take (length d - 2) d)) (payload_bytes p2 (InPool j)) = take (length d - 2) d"
    by (rule slot_write_Some [OF j(3,2) le], rule that)
  have rd: "mem_read ?b 4 (length d - 2) = Some (take (length d - 2) d)"
    by (simp add: mem_read_def fpga_frame_def be16_def)
  have "fpga_decode_message pool ?b ?n m0 = Some (SUCCESS, p2, m0\<lparr>fm_msg_id := i, fm_payload_len := ?k, fm_payload := Some (InPool j)\<rparr>)"
    unfolding fpga_decode_message_def Let_def if_not_P [OF big] hd n2 tl bs bind.simps if_P [OF lf2] k if_P [OF pos] j(1)
      prod.case option.case payload_ptr.case ku rd p2(1)
    by simp
  then show ?thesis using p2(2) ku by (simp add: fpga_payload_def)
qed

subsection \<open>Properties\<close>

definition status_example :: bytes where
  "status_example = [0xEB, 0x90, 0, 127] @ replicate 4 0 @ [0, 0, 0, 16] @ replicate 119 0 @ [0x55, 0x55]"

definition status_zero :: fpga_status_frame where
  "status_zero = \<lparr>sf_frame_header = 0, sf_length = 0, sf_data = status_layout (replicate 127 0), sf_frame_tail = 0\<rparr>"

text \<open>Status frames. On a received status frame of 133 bytes the decoder succeeds exactly when
  the frame starts with EB 90 and ends with 55 55, and then every field of the status data is the
  big-endian integer, or the bytes, at its offset in the telemetry definition, the one-byte
  fields included; no multi-byte field is left in the wrong byte order.\<close>

theorem fpga_status_frame_decoded:
  assumes "133 \<le> length buf"
  shows "\<exists>r st. fpga_decode_status_frame buf 133 st0 = Some (r, st)
     \<and> (r = SUCCESS \<longleftrightarrow> take 2 buf = [0xEB, 0x90] \<and> take 2 (drop 131 buf) = [0x55, 0x55])
     \<and> (r = SUCCESS \<longrightarrow> sf_data st = status_layout (take 127 (drop 4 buf)) \<and> sf_length st = be16_at buf 2)"
  unfolding fpga_status_decode [OF assms] by simp

theorem fpga_status_frame_decoded_witness:
  "\<exists>st. fpga_decode_status_frame status_example 133 status_zero = Some (SUCCESS, st)
     \<and> sd_nr_beam_count (sf_data st) = 16 \<and> sf_length st = 127"
proof -
  have "133 \<le> length status_example" "take 2 status_example = [0xEB, 0x90]"
    "take 2 (drop 131 status_example) = [0x55, 0x55]"
    by (simp_all add: status_example_def)
  moreover have "sd_nr_beam_count (status_layout (take 127 (drop 4 status_example))) = 16"
    "be16_at status_example 2 = 127"
    by (simp_all add: status_layout_def status_example_def be32_at_def be16_at_def of_be32_def of_be16_def
        of_le32_def of_le16_def nth_append)
  ultimately show ?thesis using fpga_status_frame_decoded [of status_example status_zero] by auto
qed

text \<open>The frequency code loses nothing below 12.8 GHz: decoding the code of a frequency given in
  kHz returns the frequency, although the quotient is kept in eight bits.\<close>

theorem fpga_frequency_round_trip:
  assumes "unat f < 12800000"
  shows "fpga_decode_frequency (fpga_encode_frequency f) = f"
  using assms by (rule freq_code_inverse)

theorem fpga_frequency_round_trip_witness:
  "fpga_decode_frequency (fpga_encode_frequency 2185123) = 2185123"
  using fpga_frequency_round_trip [of 2185123] by simp

text \<open>No buffer of the FPGA pool is handed out twice, and an allocation fails only when the size
  exceeds 2048 or all 8 buffers are held, after any sequence of allocations and releases.\<close>

theorem fpga_pool_exclusive:
  "\<exists>q live. pool_run fpga_payload_alloc fpga_payload_free_internal (g_fpga_payload_pool, []) ops = (q, live)
     \<and> distinct live \<and> length live \<le> 8
     \<and> (case fpga_payload_alloc q n of
          (Some (InPool i), q') \<Rightarrow> unat n \<le> 2048 \<and> length live < 8 \<and> i < 8 \<and> i \<notin> set live
        | (Some (Outside b), q') \<Rightarrow> False
        | (None, q') \<Rightarrow> 2048 < unat n \<or> length live = 8)"
  by (rule fpga_pool.alloc_after [OF fpga_pool_initial])

text \<open>The FPGA codec does not agree with itself. The encoder writes the frame EB 90, number,
  payload length, payload, 55 55, and the decoder, which takes the length field to count the
  number and the length byte too, returns SUCCESS on that frame with the last two payload bytes
  cut off.\<close>

theorem fpga_codec_drops_two_bytes:
  assumes "fpga_msg_ok pool0 m" and "2 < unat (fm_payload_len m)" and "unat (fm_payload_len m) \<le> 255"
    and "6 + unat (fm_payload_len m) \<le> unat n" and "unat n \<le> length buf" and "unat n < 2 ^ 31"
    and "pool_inv 8 2048 pool" and "pool_used pool \<noteq> {..<8}"
  shows "\<exists>l buf' pool' m'. fpga_encode_message pool0 m buf n = Some (int (unat l), buf')
     \<and> take (unat l) buf' = fpga_frame (fm_msg_id m) (fpga_payload pool0 m)
     \<and> fpga_decode_message pool buf' l m0 = Some (SUCCESS, pool', m') \<and> fm_msg_id m' = fm_msg_id m
     \<and> fpga_payload pool' m' = take (unat (fm_payload_len m) - 2) (fpga_payload pool0 m)"
proof -
  let ?d = "fpga_payload pool0 m"
  have len: "length ?d = unat (fm_payload_len m)" using assms(1) by (simp add: fpga_msg_ok_def)
  have l: "unat (of_nat (6 + length ?d) :: u32) = 6 + length ?d" using assms(3) len by (intro u32_of_nat) simp
  have fl: "length (fpga_frame (fm_msg_id m) ?d) = 6 + length ?d" by (simp add: fpga_frame_def)
  obtain pool' m' where
      "fpga_decode_message pool (fpga_frame (fm_msg_id m) ?d @ drop (6 + length ?d) buf) (of_nat (6 + length ?d)) m0
         = Some (SUCCESS, pool', m')" "fm_msg_id m' = fm_msg_id m" "fpga_payload pool' m' = take (length ?d - 2) ?d"
    using fpga_decode_own_frame [OF assms(7,8), of ?d] assms(2,3) len by metis
  then show ?thesis
    using fpga_encode_frame [OF assms(1,4,5,6)] len l fl
    by (intro exI [of _ "of_nat (6 + length ?d)"] exI [of _ "fpga_frame (fm_msg_id m) ?d @ drop (6 + length ?d) buf"])
      (simp del: of_nat_add)
qed

definition fpga_example :: fpga_message where
  "fpga_example = \<lparr>fm_msg_id = 8, fm_payload = Some (Outside [1, 2, 3, 4, 5]), fm_payload_len = 5\<rparr>"

theorem fpga_codec_drops_two_bytes_witness:
  "\<exists>l buf' pool' m'. fpga_encode_message [] fpga_example (replicate 32 0) 32 = Some (int (unat l), buf')
     \<and> fpga_decode_message g_fpga_payload_pool buf' l fpga_example = Some (SUCCESS, pool', m')
     \<and> fpga_payload pool' m' = [1, 2, 3]"
proof -
  have "fpga_payload [] fpga_example = [1, 2, 3, 4, 5]" "fpga_msg_ok [] fpga_example" "unat (fm_payload_len fpga_example) = 5"
    by (simp_all add: fpga_example_def fpga_payload_def payload_bytes_def fpga_msg_ok_def)
  then show ?thesis
    using fpga_codec_drops_two_bytes [of "[]" fpga_example 32 "replicate 32 0" g_fpga_payload_pool fpga_example]
      fpga_pool_initial by fastforce
qed

end
