(* ===== verification/Rs422Protocol.thy ===== *)
theory Rs422Protocol
  imports Prelude
begin

text \<open>
  The RS-422 frame layer of rs422_protocol.c, used to load firmware into the FPGA: the additive
  checksum of a frame, the CRC of a file, encoding with the running sequence counter, decoding
  of acknowledge frames, and the frame builders and reply parsers of the upload commands. The
  sequence counter \<open>g_seq_counter\<close> is passed through.
\<close>

subsection \<open>Constants\<close>

abbreviation RS422_SYNC_WORD_CMD :: u16 where "RS422_SYNC_WORD_CMD \<equiv> 0xEB90"
abbreviation RS422_SYNC_WORD_ACK :: u16 where "RS422_SYNC_WORD_ACK \<equiv> 0x1ACF"
abbreviation RS422_CMD_RECONFIG_START :: u16 where "RS422_CMD_RECONFIG_START \<equiv> 0x01AF"
abbreviation RS422_CMD_RECONFIG_QUERY :: u16 where "RS422_CMD_RECONFIG_QUERY \<equiv> 0x01C5"
abbreviation RS422_CMD_RECONFIG_ACK :: u16 where "RS422_CMD_RECONFIG_ACK \<equiv> 0x01CA"
abbreviation RS422_CMD_VERSION_QUERY :: u16 where "RS422_CMD_VERSION_QUERY \<equiv> 0x0101"
abbreviation RS422_CMD_VERSION_ACK :: u16 where "RS422_CMD_VERSION_ACK \<equiv> 0x0108"
abbreviation RS422_CMD_TRANSFER_START :: u16 where "RS422_CMD_TRANSFER_START \<equiv> 0x0155"
abbreviation RS422_CMD_TRANSFER_START_ACK :: u16 where "RS422_CMD_TRANSFER_START_ACK \<equiv> 0x015A"
abbreviation RS422_CMD_DATA_ACK :: u16 where "RS422_CMD_DATA_ACK \<equiv> 0x018A"
abbreviation RS422_CMD_TRANSFER_END :: u16 where "RS422_CMD_TRANSFER_END \<equiv> 0x01AA"
abbreviation RS422_CMD_TRANSFER_END_ACK :: u16 where "RS422_CMD_TRANSFER_END_ACK \<equiv> 0x01BB"
abbreviation RS422_CMD_TRANSFER_ABORT :: u16 where "RS422_CMD_TRANSFER_ABORT \<equiv> 0x018F"
abbreviation RS422_CMD_UPLOAD_NOTIFY :: u16 where "RS422_CMD_UPLOAD_NOTIFY \<equiv> 0xA207"
abbreviation RS422_APID_CONTROL :: u16 where "RS422_APID_CONTROL \<equiv> 0x0180"
abbreviation RS422_APID_FILE_DATA :: u16 where "RS422_APID_FILE_DATA \<equiv> 0x018F"
abbreviation RS422_UPLOAD_NOTIFY_FILLER :: u8 where "RS422_UPLOAD_NOTIFY_FILLER \<equiv> 0xAA"

abbreviation RS422_HEADER_SIZE :: u32 where "RS422_HEADER_SIZE \<equiv> 8"
abbreviation RS422_CRC_SIZE :: u32 where "RS422_CRC_SIZE \<equiv> 2"
abbreviation RS422_MAX_PAYLOAD_SIZE :: u32 where "RS422_MAX_PAYLOAD_SIZE \<equiv> 1002"

subsection \<open>Sequence counter, checksum and CRC\<close>

definition rs422_protocol_init :: "u16 \<Rightarrow> int \<times> u16" where
  "rs422_protocol_init seq = (SUCCESS, 0)"

definition rs422_seq_counter_rollback :: "u16 \<Rightarrow> u16" where
  "rs422_seq_counter_rollback seq = (if seq > 0 then seq - 1 else seq)"

definition rs422_seq_counter_reset :: "u16 \<Rightarrow> u16" where
  "rs422_seq_counter_reset seq = 0"

text \<open>The loops over \<open>data[0] \<dots> data[len - 1]\<close>, as functions of those bytes.\<close>

definition rs422_checksum :: "bytes \<Rightarrow> u16" where
  "rs422_checksum d = ucast (NOT (foldl (\<lambda>sum b. sum + ucast b) (0 :: u32) d) AND 0xFFFF)"

definition crc_bit :: "u16 \<Rightarrow> u16" where
  "crc_bit crc = (if crc AND 0x8000 \<noteq> 0 then push_bit 1 crc XOR 0x1021 else push_bit 1 crc)"

definition crc_byte :: "u16 \<Rightarrow> u8 \<Rightarrow> u16" where
  "crc_byte crc b = (crc_bit ^^ 8) (crc XOR push_bit 8 (ucast b))"

definition rs422_crc16_ccitt_false :: "bytes \<Rightarrow> u16" where
  "rs422_crc16_ccitt_false d = foldl crc_byte 0xFFFF d"

subsection \<open>Encoding\<close>

text \<open>The result is the returned value, the sequence counter and the frame buffer.\<close>

definition rs422_encode_frame :: "u16 \<Rightarrow> u16 \<Rightarrow> u16 \<Rightarrow> bytes option \<Rightarrow> u32 \<Rightarrow> bytes \<Rightarrow> u32
    \<Rightarrow> (int \<times> u16 \<times> bytes) option" where
  "rs422_encode_frame seq apid cmd_code payload payload_len frame_buf frame_buf_size =
     (if frame_buf_size < RS422_HEADER_SIZE + payload_len + RS422_CRC_SIZE + 2
      then Some (ERROR_INVALID_PARAM, seq, frame_buf)
      else if payload_len > RS422_MAX_PAYLOAD_SIZE - 2
      then Some (ERROR_INVALID_PARAM, seq, frame_buf)
      else do {
        b \<leftarrow> mem_put frame_buf 0 (be16 RS422_SYNC_WORD_CMD);
        b \<leftarrow> mem_put b 2 (be16 (apid AND 0x07FF));
        let seq_ctrl = push_bit 14 3 OR (seq AND 0x3FFF);
        b \<leftarrow> mem_put b 4 (be16 seq_ctrl);
        let data_len = (ucast (2 + payload_len - 1) :: u16);
        b \<leftarrow> mem_put b 6 (be16 data_len);
        b \<leftarrow> mem_put b 8 (be16 cmd_code);
        (b, offset) \<leftarrow> (case payload of
            Some p \<Rightarrow>
              if payload_len > 0
              then do { b' \<leftarrow> mem_copy b 10 p 0 (unat payload_len); Some (b', 10 + payload_len) }
              else Some (b, 10)
          | None \<Rightarrow> Some (b, 10));
        d \<leftarrow> mem_read b 2 (unat (offset - 2));
        b \<leftarrow> mem_put b (unat offset) (be16 (rs422_checksum d));
        Some (sint (offset + 2), seq + 1, b) })"

subsection \<open>Decoding\<close>

text \<open>The output parameters, kept where the code returns before assigning them. The payload
  pointer is the part of the frame buffer from its target on.\<close>

record rs422_out =
  ro_apid :: u16
  ro_cmd_code :: u16
  ro_payload :: bytes
  ro_payload_len :: u32

definition rs422_decode_frame :: "bytes \<Rightarrow> u32 \<Rightarrow> rs422_out \<Rightarrow> (int \<times> rs422_out) option" where
  "rs422_decode_frame frame_buf frame_len out =
     (if frame_len < RS422_HEADER_SIZE + 2 + RS422_CRC_SIZE then Some (ERROR_INVALID_PARAM, out)
      else do {
        sync \<leftarrow> read_be16 frame_buf 0;
        if sync \<noteq> RS422_SYNC_WORD_ACK then Some (ERROR_GENERAL, out)
        else do {
          apid_val \<leftarrow> read_be16 frame_buf 2;
          let out = out\<lparr>ro_apid := apid_val\<rparr>;
          data_len \<leftarrow> read_be16 frame_buf 6;
          let actual_data_len = (ucast data_len + 1 :: u32);
          if actual_data_len < 2 then Some (ERROR_GENERAL, out)
          else if frame_len < RS422_HEADER_SIZE + actual_data_len + RS422_CRC_SIZE then Some (ERROR_GENERAL, out)
          else do {
            let checksum_offset = RS422_HEADER_SIZE + actual_data_len;
            d \<leftarrow> mem_read frame_buf 2 (unat (checksum_offset - 2));
            actual_checksum \<leftarrow> read_be16 frame_buf (unat checksum_offset);
            if actual_checksum \<noteq> rs422_checksum d then Some (ERROR_GENERAL, out)
            else do {
              cmd \<leftarrow> read_be16 frame_buf 8;
              Some (SUCCESS, out\<lparr>ro_cmd_code := cmd, ro_payload := drop 10 frame_buf,
                                 ro_payload_len := actual_data_len - 2\<rparr>) } } } })"

subsection \<open>Builders and parsers\<close>

definition rs422_build_reconfig_start :: "u16 \<Rightarrow> u8 \<Rightarrow> u8 \<Rightarrow> bytes \<Rightarrow> u32 \<Rightarrow> (int \<times> u16 \<times> bytes) option" where
  "rs422_build_reconfig_start seq file_type file_sub_type frame_buf frame_buf_size =
     rs422_encode_frame seq RS422_APID_CONTROL RS422_CMD_RECONFIG_START
       (Some [file_type, file_sub_type]) 2 frame_buf frame_buf_size"

definition rs422_build_reconfig_query :: "u16 \<Rightarrow> bytes \<Rightarrow> u32 \<Rightarrow> (int \<times> u16 \<times> bytes) option" where
  "rs422_build_reconfig_query seq frame_buf frame_buf_size =
     rs422_encode_frame seq RS422_APID_CONTROL RS422_CMD_RECONFIG_QUERY None 0 frame_buf frame_buf_size"

text \<open>Each acknowledge carries one result byte; a short payload leaves the result alone.\<close>

definition rs422_parse_reconfig_ack :: "bytes \<Rightarrow> u32 \<Rightarrow> u8 \<Rightarrow> (int \<times> u8) option" where
  "rs422_parse_reconfig_ack payload payload_len result =
     (if payload_len < 1 then Some (ERROR_INVALID_PARAM, result)
      else do { r \<leftarrow> arr_get payload 0; Some (SUCCESS, r) })"

definition rs422_build_version_query :: "u16 \<Rightarrow> bytes \<Rightarrow> u32 \<Rightarrow> (int \<times> u16 \<times> bytes) option" where
  "rs422_build_version_query seq frame_buf frame_buf_size =
     rs422_encode_frame seq RS422_APID_CONTROL RS422_CMD_VERSION_QUERY None 0 frame_buf frame_buf_size"

definition rs422_parse_version_ack :: "bytes \<Rightarrow> u32 \<Rightarrow> bytes \<Rightarrow> (int \<times> bytes) option" where
  "rs422_parse_version_ack payload payload_len version =
     (if payload_len < 32 then Some (ERROR_INVALID_PARAM, version)
      else do { v \<leftarrow> mem_copy version 0 payload 0 32; v \<leftarrow> arr_set v 31 0; Some (SUCCESS, v) })"

record rs422_cmd_transfer_start =
  ts_device_id :: u8
  ts_file_type :: u8
  ts_file_sub_type :: u8
  ts_segment_info :: u16
  ts_file_length :: u32
  ts_last_segment_len :: u32
  ts_file_checksum :: u16

definition rs422_build_transfer_start :: "u16 \<Rightarrow> rs422_cmd_transfer_start \<Rightarrow> bytes \<Rightarrow> u32
    \<Rightarrow> (int \<times> u16 \<times> bytes) option" where
  "rs422_build_transfer_start seq params frame_buf frame_buf_size =
     rs422_encode_frame seq RS422_APID_CONTROL RS422_CMD_TRANSFER_START
       (Some ([ts_device_id params, ts_file_type params, ts_file_sub_type params]
          @ be16 (ts_segment_info params) @ be32 (ts_file_length params)
          @ be32 (ts_last_segment_len params) @ be16 (ts_file_checksum params)))
       15 frame_buf frame_buf_size"

definition rs422_parse_transfer_start_ack :: "bytes \<Rightarrow> u32 \<Rightarrow> u8 \<Rightarrow> (int \<times> u8) option" where
  "rs422_parse_transfer_start_ack payload payload_len result =
     (if payload_len < 1 then Some (ERROR_INVALID_PARAM, result)
      else do { r \<leftarrow> arr_get payload 0; Some (SUCCESS, r) })"

text \<open>The group flag of a packet of a segment.\<close>

definition rs422_group_flag :: "u32 \<Rightarrow> u32 \<Rightarrow> u8" where
  "rs422_group_flag packet_index total_packets_in_segment =
     (if total_packets_in_segment = 1 then 3
      else if packet_index = 0 then 1
      else if packet_index = total_packets_in_segment - 1 then 2
      else 0)"

definition rs422_build_file_data :: "u16 \<Rightarrow> bytes \<Rightarrow> u32 \<Rightarrow> bytes \<Rightarrow> u32 \<Rightarrow> u32 \<Rightarrow> u32 \<Rightarrow> (int \<times> bytes) option" where
  "rs422_build_file_data segment_num data data_len frame_buf frame_buf_size packet_index total_packets_in_segment =
     (if data_len = 0 then Some (ERROR_INVALID_PARAM, frame_buf)
      else if frame_buf_size < RS422_HEADER_SIZE + 2 + data_len + RS422_CRC_SIZE
      then Some (ERROR_INVALID_PARAM, frame_buf)
      else do {
        b \<leftarrow> mem_put frame_buf 0 (be16 RS422_SYNC_WORD_CMD);
        b \<leftarrow> mem_put b 2 (be16 (RS422_APID_FILE_DATA AND 0x07FF));
        let seq_ctrl = push_bit 14 (ucast (rs422_group_flag packet_index total_packets_in_segment))
                       OR (ucast (packet_index AND 0x3FFF) :: u16);
        b \<leftarrow> mem_put b 4 (be16 seq_ctrl);
        let data_domain_len = (ucast (2 + data_len - 1) :: u16);
        b \<leftarrow> mem_put b 6 (be16 data_domain_len);
        b \<leftarrow> mem_put b 8 (be16 segment_num);
        b \<leftarrow> mem_copy b 10 data 0 (unat data_len);
        let offset = 10 + data_len;
        d \<leftarrow> mem_read b 2 (unat (offset - 2));
        b \<leftarrow> mem_put b (unat offset) (be16 (rs422_checksum d));
        Some (sint (offset + 2), b) })"

definition rs422_parse_data_ack :: "bytes \<Rightarrow> u32 \<Rightarrow> u8 \<Rightarrow> (int \<times> u8) option" where
  "rs422_parse_data_ack payload payload_len result =
     (if payload_len < 1 then Some (ERROR_INVALID_PARAM, result)
      else do { r \<leftarrow> arr_get payload 0; Some (SUCCESS, r) })"

definition rs422_build_transfer_end :: "u16 \<Rightarrow> bytes \<Rightarrow> u32 \<Rightarrow> (int \<times> u16 \<times> bytes) option" where
  "rs422_build_transfer_end seq frame_buf frame_buf_size =
     rs422_encode_frame seq RS422_APID_CONTROL RS422_CMD_TRANSFER_END None 0 frame_buf frame_buf_size"

definition rs422_parse_transfer_end_ack :: "bytes \<Rightarrow> u32 \<Rightarrow> u8 \<Rightarrow> (int \<times> u8) option" where
  "rs422_parse_transfer_end_ack payload payload_len result =
     (if payload_len < 1 then Some (ERROR_INVALID_PARAM, result)
      else do { r \<leftarrow> arr_get payload 0; Some (SUCCESS, r) })"

definition rs422_build_transfer_abort :: "u16 \<Rightarrow> bytes \<Rightarrow> u32 \<Rightarrow> (int \<times> u16 \<times> bytes) option" where
  "rs422_build_transfer_abort seq frame_buf frame_buf_size =
     rs422_encode_frame seq RS422_APID_CONTROL RS422_CMD_TRANSFER_ABORT None 0 frame_buf frame_buf_size"

definition rs422_build_upload_notify :: "u16 \<Rightarrow> u8 \<Rightarrow> bytes \<Rightarrow> u32 \<Rightarrow> (int \<times> u16 \<times> bytes) option" where
  "rs422_build_upload_notify seq notify_code frame_buf frame_buf_size =
     rs422_encode_frame seq RS422_APID_CONTROL RS422_CMD_UPLOAD_NOTIFY
       (Some [notify_code, RS422_UPLOAD_NOTIFY_FILLER]) 2 frame_buf frame_buf_size"

subsection \<open>The frame format\<close>

definition rs422_body :: "u16 \<Rightarrow> u16 \<Rightarrow> u16 \<Rightarrow> bytes \<Rightarrow> bytes" where
  "rs422_body pid sc w d = be16 pid @ be16 sc @ be16 (of_nat (length d + 1)) @ be16 w @ d"

definition rs422_frame :: "u16 \<Rightarrow> u16 \<Rightarrow> u16 \<Rightarrow> u16 \<Rightarrow> bytes \<Rightarrow> bytes" where
  "rs422_frame sync pid sc w d =
     be16 sync @ rs422_body pid sc w d @ be16 (rs422_checksum (rs422_body pid sc w d))"

lemma rs422_frame_length [simp]: "length (rs422_body pid sc w d) = 8 + length d"
    "length (rs422_frame sync pid sc w d) = 12 + length d"
  by (simp_all add: rs422_frame_def rs422_body_def)

lemma header_puts:
  fixes buf :: bytes
  assumes "10 \<le> length buf"
  shows "do {
      b \<leftarrow> mem_put buf 0 (be16 a);
      b \<leftarrow> mem_put b 2 (be16 c);
      b \<leftarrow> mem_put b 4 (be16 d);
      b \<leftarrow> mem_put b 6 (be16 e);
      b \<leftarrow> mem_put b 8 (be16 f);
      g b } = g ((be16 a @ be16 c @ be16 d @ be16 e @ be16 f) @ drop 10 buf)"
proof -
  have 1: "mem_put buf 0 (be16 a) = Some (be16 a @ drop 2 buf)"
    using assms by (simp add: mem_put_start)
  have 2: "mem_put (be16 a @ drop 2 buf) 2 (be16 c) = Some ((be16 a @ be16 c) @ drop 4 buf)"
    using assms by (subst mem_put_at) simp_all
  have 3: "mem_put ((be16 a @ be16 c) @ drop 4 buf) 4 (be16 d) = Some ((be16 a @ be16 c @ be16 d) @ drop 6 buf)"
    using assms by (subst mem_put_at) simp_all
  have 4: "mem_put ((be16 a @ be16 c @ be16 d) @ drop 6 buf) 6 (be16 e)
      = Some ((be16 a @ be16 c @ be16 d @ be16 e) @ drop 8 buf)"
    using assms by (subst mem_put_at) simp_all
  have 5: "mem_put ((be16 a @ be16 c @ be16 d @ be16 e) @ drop 8 buf) 8 (be16 f)
      = Some ((be16 a @ be16 c @ be16 d @ be16 e @ be16 f) @ drop 10 buf)"
    using assms by (subst mem_put_at) simp_all
  show ?thesis by (simp only: 1 2 3 4 5 bind.simps)
qed

text \<open>The payload copy, the checksum over what has been written behind the sync word, and the
  frame length, which both frame encoders end with.\<close>

lemma frame_tail:
  fixes off :: u32
  assumes hdr: "hdr = be16 s @ be16 p @ be16 q @ be16 (of_nat (length d + 1)) @ be16 w"
    and len: "12 + length d \<le> length buf" "length d \<le> 1000" and off: "unat off = 10 + length d"
  shows "do {
      x \<leftarrow> mem_read ((hdr @ d) @ drop (10 + length d) buf) 2 (unat (off - 2));
      b \<leftarrow> mem_put ((hdr @ d) @ drop (10 + length d) buf) (unat off) (be16 (rs422_checksum x));
      f (sint (off + 2)) b } = f (int (12 + length d)) (rs422_frame s p q w d @ drop (12 + length d) buf)"
proof -
  let ?b = "(hdr @ d) @ drop (10 + length d) buf"
  have o2: "unat (off - 2) = 8 + length d" using off by (subst u32_sub_nat) simp_all
  have "unat (off + 2) = 12 + length d" using off len by (subst u32_add_nat) simp_all
  then have o3: "sint (off + 2) = int (12 + length d)" using len by (subst u32_sint) simp_all
  have "?b = be16 s @ rs422_body p q w d @ drop (10 + length d) buf" by (simp add: hdr rs422_body_def)
  then have rd: "mem_read ?b 2 (8 + length d) = Some (rs422_body p q w d)"
    by (simp only:) (simp add: mem_read_def)
  have wr: "mem_put ?b (10 + length d) x = Some ((hdr @ d) @ x @ drop (12 + length d) buf)" if "length x = 2" for x
    using len that by (subst mem_put_at) (simp_all add: hdr)
  show ?thesis
    unfolding o2 rd bind.simps off wr [OF le_length(3)] o3 by (simp add: rs422_frame_def rs422_body_def hdr)
qed

definition payload_arg :: "bytes option \<Rightarrow> nat \<Rightarrow> bytes" where
  "payload_arg payload n = (case payload of None \<Rightarrow> [] | Some p \<Rightarrow> take n p)"

lemma rs422_encode_ok:
  assumes pay: "length (payload_arg payload (unat n)) = unat n" and n: "unat n \<le> 1000"
    and len: "12 + unat n \<le> unat sz" "unat sz \<le> length buf"
  shows "rs422_encode_frame seq apid cmd payload n buf sz = Some (int (12 + unat n), seq + 1,
     rs422_frame RS422_SYNC_WORD_CMD (apid AND 0x07FF) (push_bit 14 3 OR (seq AND 0x3FFF)) cmd (payload_arg payload (unat n))
       @ drop (12 + unat n) buf)"
proof -
  let ?d = "payload_arg payload (unat n)"
  have s: "unat (8 + n + 2 + 2) = 12 + unat n"
  proof -
    have "8 + n + 2 + 2 = 12 + n" by simp
    then show ?thesis using n by (simp only:) (subst u32_add_nat; simp)
  qed
  have g1: "\<not> sz < 8 + n + 2 + 2" unfolding u32_less_nat s using len by simp
  have g2: "\<not> n > 1002 - 2" unfolding u32_less_nat using n by simp
  have dl: "(ucast (2 + n - 1) :: u16) = of_nat (length ?d + 1)"
  proof -
    have "unat (2 + n - 1) = unat n + 1"
      using n by (simp add: u32_add_nat [of 1 n, simplified])
    then show ?thesis unfolding pay by (metis of_nat_unat)
  qed
  define hdr where "hdr = be16 RS422_SYNC_WORD_CMD @ be16 (apid AND 0x07FF)
     @ be16 (push_bit 14 3 OR (seq AND 0x3FFF)) @ be16 (of_nat (length ?d + 1)) @ be16 cmd"
  have lh: "length hdr = 10" by (simp add: hdr_def)
  have off: "unat (10 + n) = 10 + length ?d" using n pay by (subst u32_add_nat) simp_all
  have b10: "10 \<le> length buf" using len by simp
  have wr: "(case payload of Some p \<Rightarrow> if n > 0 then do { b' \<leftarrow> mem_copy (hdr @ drop 10 buf) 10 p 0 (unat n); Some (b', 10 + n) }
        else Some (hdr @ drop 10 buf, 10) | None \<Rightarrow> Some (hdr @ drop 10 buf, 10))
      = Some ((hdr @ ?d) @ drop (10 + length ?d) buf, 10 + n)"
  proof (cases payload)
    case None
    then have "unat n = 0" using pay by (simp add: payload_arg_def)
    then show ?thesis using None by (simp add: payload_arg_def unat_eq_0)
  next
    case (Some p)
    then have "unat n \<le> length p" using pay by (simp add: payload_arg_def)
    moreover have "\<not> n > 0 \<Longrightarrow> n = 0" by (simp add: u32_less_nat unat_eq_0)
    ultimately show ?thesis
      using Some len lh by (auto simp: payload_arg_def mem_copy_at add.commute)
  qed
  have "12 + length ?d \<le> length buf" "length ?d \<le> 1000" using len n pay by simp_all
  note tail = frame_tail [OF hdr_def this off, of "\<lambda>r b. Some (r, seq + 1, b)"]
  show ?thesis
    unfolding rs422_encode_frame_def if_not_P [OF g1] if_not_P [OF g2] Let_def header_puts [OF b10] dl
    unfolding hdr_def [symmetric] wr bind.simps prod.case tail by (simp add: pay)
qed

subsection \<open>Decoding accepts exactly the frames\<close>

lemma be16_of_be16: "be16 (of_be16 x y) = [x, y]"
proof -
  have "(ucast (of_le16 y x) :: u8) = y" "(ucast (drop_bit 8 (of_le16 y x)) :: u8) = x"
    by (rule bit_word_eqI; auto simp: of_le16_def bit_simps dest: bit_imp_le_length)+
  then show ?thesis by (simp add: be16_def of_be16_def)
qed

lemma read_be16_take: "read_be16 b i = Some w \<longleftrightarrow> i + 2 \<le> length b \<and> take 2 (drop i b) = be16 w"
proof (cases "i + 2 \<le> length b")
  case True
  then have t: "take 2 (drop i b) = be16 (of_be16 (b ! i) (b ! (i + 1)))"
    unfolding be16_of_be16 by (simp add: take_Suc_conv_app_nth numeral_2_eq_2 hd_drop_conv_nth)
  have r: "read_be16 b i = Some (of_be16 (b ! i) (b ! (i + 1)))"
    using True by (simp add: read_be16_def arr_get_def)
  have inj: "be16 a = be16 c \<longleftrightarrow> a = c" for a c :: u16
    by (metis append_Nil list.size(3) option.inject read_append(3))
  show ?thesis unfolding r t inj using True by simp
next
  case False
  then show ?thesis by (auto simp: read_be16_def arr_get_def split: bind_splits)
qed

text \<open>The length field of a frame, as the code reads it.\<close>

lemma data_len_word:
  assumes "length d < 65535"
  shows "ucast (of_nat (length d + 1) :: u16) + 1 = (of_nat (length d + 2) :: u32)"
proof -
  have "unat (of_nat (length d + 1) :: u16) = length d + 1"
    using assms by (intro u16_of_nat) simp
  then have "ucast (of_nat (length d + 1) :: u16) = (of_nat (length d + 1) :: u32)" by (metis of_nat_unat)
  then show ?thesis by simp
qed

lemma rs422_decode_ok:
  assumes d: "length d < 65535" and len: "12 + length d \<le> unat n"
  shows "rs422_decode_frame (rs422_frame RS422_SYNC_WORD_ACK pid sc w d @ t) n out = Some (SUCCESS,
     out\<lparr>ro_apid := pid, ro_cmd_code := w,
         ro_payload := d @ be16 (rs422_checksum (rs422_body pid sc w d)) @ t, ro_payload_len := of_nat (length d)\<rparr>)"
proof -
  let ?f = "rs422_frame RS422_SYNC_WORD_ACK pid sc w d @ t"
  have f: "?f = be16 RS422_SYNC_WORD_ACK @ be16 pid @ be16 sc @ be16 (of_nat (length d + 1)) @ be16 w @ d
      @ be16 (rs422_checksum (rs422_body pid sc w d)) @ t" by (simp add: rs422_frame_def rs422_body_def)
  have r: "read_be16 ?f 0 = Some RS422_SYNC_WORD_ACK" "read_be16 ?f 2 = Some pid"
      "read_be16 ?f 6 = Some (of_nat (length d + 1))" "read_be16 ?f 8 = Some w"
      "read_be16 ?f (10 + length d) = Some (rs422_checksum (rs422_body pid sc w d))"
    unfolding read_be16_take f by simp_all
  let ?a = "of_nat (length d + 2) :: u32"
  have a: "unat ?a = length d + 2" using d by (intro u32_of_nat) simp
  have a8: "unat (8 + ?a) = 10 + length d" using a d by (subst u32_add_nat) simp_all
  have a10: "unat (8 + ?a + 2) = 12 + length d" using a8 d by (subst u32_add_nat) simp_all
  have a6: "unat (8 + ?a - 2) = 8 + length d" using a8 by (subst u32_sub_nat) simp_all
  have g: "\<not> n < 8 + 2 + 2" "\<not> ?a < 2" "\<not> n < 8 + ?a + 2"
    unfolding u32_less_nat a a10 using len by simp_all
  have rd: "mem_read ?f 2 (8 + length d) = Some (rs422_body pid sc w d)"
    by (simp add: mem_read_def rs422_frame_def)
  have dr: "drop 10 ?f = d @ be16 (rs422_checksum (rs422_body pid sc w d)) @ t" unfolding f by simp
  have al: "?a - 2 = of_nat (length d)" by simp
  show ?thesis
    unfolding rs422_decode_frame_def if_not_P [OF g(1)] r bind.simps Let_def data_len_word [OF d]
      if_not_P [OF g(2)] if_not_P [OF g(3)] a6 rd a8 dr al by simp
qed

lemma rs422_decode_accepts:
  assumes dec: "rs422_decode_frame f n out = Some (SUCCESS, out')" and len: "unat n \<le> length f"
  shows "\<exists>pid sc w d t. f = rs422_frame RS422_SYNC_WORD_ACK pid sc w d @ t \<and> length d < 65535
     \<and> 12 + length d \<le> unat n"
proof -
  have g: "\<not> n < 8 + 2 + 2" using dec by (auto simp: rs422_decode_frame_def)
  then have n12: "12 \<le> unat n" by (simp add: u32_less_nat)
  obtain pid l cs w where r: "read_be16 f 0 = Some RS422_SYNC_WORD_ACK" "read_be16 f 2 = Some pid"
      "read_be16 f 6 = Some l" "read_be16 f 8 = Some w"
      "\<not> ucast l + 1 < (2 :: u32)" "\<not> n < 8 + (ucast l + 1) + 2"
      "mem_read f 2 (unat (8 + (ucast l + 1) - 2 :: u32)) = Some cs"
      "read_be16 f (unat (8 + (ucast l + 1) :: u32)) = Some (rs422_checksum cs)"
    using dec g unfolding rs422_decode_frame_def Let_def by (auto split: bind_splits if_splits)
  define m where "m = unat l - 1"
  have l16: "unat l < 65536" by (rule u16_bound)
  have lu: "unat (ucast l + 1 :: u32) = unat l + 1"
    using l16 by (subst u32_add_nat) (simp_all add: unat_ucast_up)
  have l1: "1 \<le> unat l" using r(5) lu by (simp add: u32_less_nat)
  then have lm: "unat (ucast l + 1 :: u32) = m + 2" using lu by (simp add: m_def)
  have m: "m < 65535" using l16 l1 by (simp add: m_def)
  have a8: "unat (8 + (ucast l + 1) :: u32) = 10 + m" using lm m by (subst u32_add_nat) simp_all
  have a10: "unat (8 + (ucast l + 1) + 2 :: u32) = 12 + m" using a8 m by (subst u32_add_nat) simp_all
  have a6: "unat (8 + (ucast l + 1) - 2 :: u32) = 8 + m" using a8 by (subst u32_sub_nat) simp_all
  have nm: "12 + m \<le> unat n" using r(6) unfolding u32_less_nat a10 by simp
  define d where "d = take m (drop 10 f)"
  have ld: "length d = m" using nm len by (simp add: d_def)
  obtain sc where sc: "read_be16 f 4 = Some sc" using n12 len by (simp add: read_be16_def arr_get_def)
  have lw: "l = of_nat (length d + 1)" using l1 ld by (simp add: m_def)
  note t = r(1-4)[unfolded read_be16_take] sc [unfolded read_be16_take]
  have "take 8 (drop 2 f) = be16 pid @ be16 sc @ be16 l @ be16 w"
    using t take_drop_split [of 2 2 10 f] take_drop_split [of 4 2 10 f] take_drop_split [of 6 2 10 f] by simp
  moreover have "take (8 + m) (drop 2 f) = take 8 (drop 2 f) @ d"
    by (simp add: d_def take_add)
  ultimately have body: "take (8 + m) (drop 2 f) = rs422_body pid sc w d"
    by (simp add: rs422_body_def lw)
  then have cs: "cs = rs422_body pid sc w d"
    using r(7) unfolding a6 by (simp add: mem_read_def split: if_splits)
  have ck: "take 2 (drop (10 + m) f) = be16 (rs422_checksum (rs422_body pid sc w d))"
    using r(8) unfolding a8 read_be16_take cs by simp
  have "f = take 2 f @ take (8 + m) (drop 2 f) @ take 2 (drop (10 + m) f) @ drop (12 + m) f"
    using cut_three [of f 2 "8 + m" 2] by (simp add: add.assoc [symmetric])
  then have "f = rs422_frame RS422_SYNC_WORD_ACK pid sc w d @ drop (12 + m) f"
    using t(1) body ck by (simp add: rs422_frame_def)
  then show ?thesis using ld m nm by blast
qed

subsection \<open>What the checksum and the CRC detect\<close>

lemma byte_sum: "foldl (\<lambda>s b. s + ucast b) s0 d = (s0 :: u32) + of_nat (sum_list (map unat (d :: bytes)))"
  by (induction d arbitrary: s0) (simp_all add: of_nat_unat add.assoc)

lemma rs422_checksum_sum: "rs422_checksum d = NOT (of_nat (sum_list (map unat d)))"
proof -
  have low: "(ucast (NOT w AND 0xFFFF) :: u16) = NOT (ucast w)" for w :: u32
  proof -
    have m: "(0xFFFF :: u32) = mask 16" by (simp add: mask_eq_exp_minus_1)
    show ?thesis unfolding m by (rule bit_word_eqI) (auto simp: bit_simps)
  qed
  have "(ucast (of_nat k :: u32) :: u16) = of_nat k" for k
    by (rule bit_word_eqI) (auto simp: bit_simps)
  then show ?thesis by (simp add: rs422_checksum_def byte_sum low)
qed

lemma rs422_checksum_update:
  assumes i: "i < length d" and b: "b \<noteq> d ! i"
  shows "rs422_checksum (d[i := b]) \<noteq> rs422_checksum d"
proof
  let ?s = "sum_list (map unat d)"
  assume "rs422_checksum (d[i := b]) = rs422_checksum d"
  then have "of_nat (sum_list (map unat (d[i := b]))) = (of_nat ?s :: u16)"
    by (simp add: rs422_checksum_sum)
  moreover have "sum_list (map unat (d[i := b])) + unat (d ! i) = ?s + unat b"
    using i elem_le_sum_list [of i "map unat d"] by (simp add: map_update sum_list_update)
  ultimately have "(of_nat (unat (d ! i)) :: u16) = of_nat (unat b)"
    by (metis add_left_cancel of_nat_add)
  then have "unat (d ! i) = unat b"
    using u8_bound [of "d ! i"] u8_bound [of b] u16_of_nat [of "unat (d ! i)"] u16_of_nat [of "unat b"] by simp
  then show False using b by (simp add: word_unat_eq_iff)
qed

lemma crc_top: "(c :: u16) AND 0x8000 \<noteq> 0 \<longleftrightarrow> bit c 15"
proof -
  have "(0x8000 :: u16) = push_bit 15 1" by simp
  then have "c AND 0x8000 = 0 \<longleftrightarrow> \<not> bit c 15"
    by (metis and_exp_eq_0_iff_not_bit push_bit_of_1)
  then show ?thesis by blast
qed

lemma xor_cancel:
  fixes a b c :: "'a::len word"
  assumes "a XOR c = b XOR c"
  shows "a = b"
proof -
  have "a = (a XOR c) XOR c" "b = (b XOR c) XOR c" by (simp_all add: xor.assoc)
  then show ?thesis using assms by simp
qed

lemma push_bit_bits:
  fixes a b :: u16
  assumes "push_bit k a = push_bit k b" and "n + k < 16"
  shows "bit a n = bit b n"
proof -
  have "bit (push_bit k c) (n + k) = bit c n" for c :: u16 using assms(2) by (simp add: bit_simps)
  then show ?thesis using assms(1) by metis
qed

lemma crc_bit_inj: "crc_bit a = crc_bit b \<Longrightarrow> a = b"
proof -
  assume eq: "crc_bit a = crc_bit b"
  have low: "bit (crc_bit c) 0 = bit c 15" for c
  proof -
    have "\<not> bit (push_bit 1 c) 0" by (subst bit_push_bit_iff) simp
    moreover have "bit (0x1021 :: u16) 0" by simp
    ultimately show ?thesis unfolding crc_bit_def crc_top
      by (cases "bit c 15") (simp_all only: if_True if_False bit_xor_iff, simp_all)
  qed
  then have top: "bit a 15 = bit b 15" using eq by metis
  then have "push_bit 1 a = push_bit 1 b"
    using eq unfolding crc_bit_def crc_top by (auto split: if_splits dest: xor_cancel)
  then have low: "n + 1 < 16 \<Longrightarrow> bit a n = bit b n" for n by (rule push_bit_bits)
  show "a = b"
  proof (rule bit_word_eqI)
    fix n assume "n < LENGTH(16)"
    then have "n = 15 \<or> n + 1 < 16" by auto
    then show "bit a n = bit b n" using low top by blast
  qed
qed

lemma funpow_crc_inj: "(crc_bit ^^ k) a = (crc_bit ^^ k) b \<Longrightarrow> a = b"
  by (induction k) (auto dest: crc_bit_inj)

lemma crc_byte_inj:
  "crc_byte a x = crc_byte b x \<Longrightarrow> a = b"
  "crc_byte a x = crc_byte a y \<Longrightarrow> x = y"
proof -
  assume "crc_byte a x = crc_byte b x"
  then have "a XOR push_bit 8 (ucast x) = b XOR push_bit 8 (ucast x)"
    unfolding crc_byte_def by (rule funpow_crc_inj)
  then show "a = b" by (rule xor_cancel)
next
  assume "crc_byte a x = crc_byte a y"
  then have "a XOR push_bit 8 (ucast x) = a XOR push_bit 8 (ucast y)"
    unfolding crc_byte_def by (rule funpow_crc_inj)
  then have "push_bit 8 (ucast x) = (push_bit 8 (ucast y) :: u16)" 
    unfolding xor.commute [of a] by (rule xor_cancel)
  then have "bit (ucast x :: u16) n = bit (ucast y :: u16) n" if "n + 8 < 16" for n
    using that by (rule push_bit_bits)
  then have "bit x n = bit y n" if "n < 8" for n using that by (simp add: bit_simps)
  then show "x = y" by (intro bit_word_eqI) simp
qed

lemma crc_fold_inj: "foldl crc_byte a d = foldl crc_byte b d \<Longrightarrow> a = b"
  by (induction d arbitrary: a b) (auto dest: crc_byte_inj)

lemma rs422_crc_update:
  assumes i: "i < length d" and b: "b \<noteq> d ! i"
  shows "rs422_crc16_ccitt_false (d[i := b]) \<noteq> rs422_crc16_ccitt_false d"
proof
  assume eq: "rs422_crc16_ccitt_false (d[i := b]) = rs422_crc16_ccitt_false d"
  have "d = take i d @ d ! i # drop (Suc i) d" using i by (simp add: id_take_nth_drop)
  moreover have "d[i := b] = take i d @ b # drop (Suc i) d" using i by (rule upd_conv_take_nth_drop)
  ultimately have "foldl crc_byte (crc_byte (foldl crc_byte 0xFFFF (take i d)) b) (drop (Suc i) d)
      = foldl crc_byte (crc_byte (foldl crc_byte 0xFFFF (take i d)) (d ! i)) (drop (Suc i) d)"
    using eq unfolding rs422_crc16_ccitt_false_def by (metis foldl_Cons foldl_append)
  then show False using b crc_fold_inj crc_byte_inj(2) by metis
qed

lemma rs422_file_data_ok:
  assumes n: "0 < unat n" "unat n \<le> 1000" "unat n \<le> length data"
    and len: "12 + unat n \<le> unat sz" "unat sz \<le> length buf"
  shows "rs422_build_file_data seg data n buf sz idx cnt = Some (int (12 + unat n),
     rs422_frame RS422_SYNC_WORD_CMD (RS422_APID_FILE_DATA AND 0x07FF)
       (push_bit 14 (ucast (rs422_group_flag idx cnt)) OR ucast (idx AND 0x3FFF)) seg (take (unat n) data)
     @ drop (12 + unat n) buf)"
proof -
  let ?d = "take (unat n) data"
  have ld: "length ?d = unat n" using n by simp
  have s: "unat (8 + 2 + n + 2) = 12 + unat n"
  proof -
    have "8 + 2 + n + 2 = 12 + n" by simp
    then show ?thesis using n by (simp only:) (subst u32_add_nat; simp)
  qed
  have g: "\<not> n = 0" "\<not> sz < 8 + 2 + n + 2" unfolding u32_less_nat s using n(1) len by auto
  have "unat (2 + n - 1) = unat n + 1" using n by (simp add: u32_add_nat [of 1 n, simplified])
  then have dl: "(ucast (2 + n - 1) :: u16) = of_nat (length ?d + 1)" unfolding ld by (metis of_nat_unat)
  define hdr where "hdr = be16 RS422_SYNC_WORD_CMD @ be16 (RS422_APID_FILE_DATA AND 0x07FF)
     @ be16 (push_bit 14 (ucast (rs422_group_flag idx cnt)) OR ucast (idx AND 0x3FFF))
     @ be16 (of_nat (length ?d + 1)) @ be16 seg"
  have lh: "length hdr = 10" by (simp add: hdr_def)
  have off: "unat (10 + n) = 10 + length ?d" using n ld by (subst u32_add_nat) simp_all
  have b10: "10 \<le> length buf" using len by simp
  have wr: "mem_copy (hdr @ drop 10 buf) 10 data 0 (unat n) = Some ((hdr @ ?d) @ drop (10 + length ?d) buf)"
    using n len lh ld by (subst mem_copy_at) (simp_all add: add.commute)
  have "12 + length ?d \<le> length buf" "length ?d \<le> 1000" using len n ld by simp_all
  note tail = frame_tail [OF hdr_def this off, of "\<lambda>r b. Some (r, b)"]
  show ?thesis
    unfolding rs422_build_file_data_def if_not_P [OF g(1)] if_not_P [OF g(2)] Let_def header_puts [OF b10] dl
    unfolding hdr_def [symmetric] wr bind.simps tail by (simp only: ld)
qed

text \<open>The two parts of a frame, and a frame with one byte changed.\<close>

lemma rs422_frame_parts:
  assumes "f = rs422_frame s pid sc w d"
  shows "take 2 f = be16 s" "take (8 + length d) (drop 2 f) = rs422_body pid sc w d"
    "drop (10 + length d) f = be16 (rs422_checksum (rs422_body pid sc w d))"
    "take 2 (drop 6 f) = be16 (of_nat (length d + 1))"
  unfolding assms by (simp_all add: rs422_frame_def, simp add: rs422_body_def)

lemma be16_inj: "be16 a = be16 c \<Longrightarrow> a = c"
  by (metis append_Nil list.size(3) option.inject read_append(3))

lemma rs422_frame_corrupt:
  assumes f: "f = rs422_frame s pid sc w d" and g: "f[i := b] = rs422_frame s pid' sc' w' d'"
    and i: "i < length f" "i \<noteq> 6" "i \<noteq> 7" and b: "b \<noteq> f ! i"
  shows False
proof -
  let ?m = "length d"
  have len: "length f = 12 + ?m" unfolding f by simp
  moreover have "length (f[i := b]) = 12 + length d'" unfolding g by simp
  ultimately have m: "length d' = ?m" by simp
  note pf = rs422_frame_parts [OF f] and pg = rs422_frame_parts [OF g, unfolded m]
  consider "i < 2" | "2 \<le> i" "i < 10 + ?m" | "10 + ?m \<le> i" by linarith
  then show False
  proof cases
    case 1
    then have "take 2 (f[i := b]) ! i = b" "take 2 f ! i = f ! i" using i(1) by simp_all
    then show False using pf(1) pg(1) b by simp
  next
    case 2
    have "take (8 + ?m) (drop 2 (f[i := b])) = (take (8 + ?m) (drop 2 f))[i - 2 := b]"
      using 2 by (simp add: drop_update_swap take_update_swap)
    then have "rs422_body pid' sc' w' d' = (rs422_body pid sc w d)[i - 2 := b]" using pf(2) pg(2) by simp
    moreover have "drop (10 + ?m) (f[i := b]) = drop (10 + ?m) f" using 2 by simp
    then have "rs422_checksum (rs422_body pid' sc' w' d') = rs422_checksum (rs422_body pid sc w d)"
      unfolding pf(3) pg(3) by (rule be16_inj)
    moreover have "rs422_body pid sc w d ! (i - 2) = f ! i" "i - 2 < length (rs422_body pid sc w d)"
      unfolding pf(2) [symmetric] using 2 len le_add_diff_inverse [OF 2(1)]
      by (simp_all add: nth_drop del: add_2_eq_Suc)
    ultimately show False using rs422_checksum_update [of "i - 2" "rs422_body pid sc w d" b] b by simp
  next
    case 3
    then have "take (8 + ?m) (drop 2 (f[i := b])) = take (8 + ?m) (drop 2 f)"
      by (simp add: drop_update_swap take_update_cancel)
    then have same: "drop (10 + ?m) (f[i := b]) = drop (10 + ?m) f" using pf(2,3) pg(2,3) by simp
    have "drop (10 + ?m) (f[i := b]) ! (i - (10 + ?m)) = b" "drop (10 + ?m) f ! (i - (10 + ?m)) = f ! i"
      using 3 i(1) len by simp_all
    then show False using same b by simp
  qed
qed

subsection \<open>Properties\<close>

definition rs422_no_out :: rs422_out where
  "rs422_no_out = \<lparr>ro_apid = 0, ro_cmd_code = 0, ro_payload = [], ro_payload_len = 0\<rparr>"




text \<open>Every single damaged byte is noticed: changing one byte of an acknowledge frame, at any place
  except the two bytes of the length field, makes the decoder reject it.\<close>

theorem rs422_corruption_detected:
  assumes "f = rs422_frame RS422_SYNC_WORD_ACK pid sc w d" and "length d < 65535"
    and "i < length f" and "i \<noteq> 6" and "i \<noteq> 7" and "b \<noteq> f ! i" and "unat n = length f"
  shows "rs422_decode_frame (f[i := b]) n out \<noteq> Some (SUCCESS, out')"
proof
  let ?g = "f[i := b]"
  assume "rs422_decode_frame ?g n out = Some (SUCCESS, out')"
  moreover have "unat n \<le> length ?g" using assms(7) by simp
  ultimately obtain pid' sc' w' d' t where g: "?g = rs422_frame RS422_SYNC_WORD_ACK pid' sc' w' d' @ t" "length d' < 65535"
    using rs422_decode_accepts by blast
  have "take 2 (drop 6 ?g) = take 2 (drop 6 f)"
    using assms(3-5) by (cases "i < 6") (simp_all add: drop_update_swap take_update_cancel)
  moreover have "take 2 (drop 6 ?g) = be16 (of_nat (length d' + 1))"
    unfolding g(1) by (simp add: rs422_frame_def rs422_body_def)
  ultimately have "(of_nat (length d' + 1) :: u16) = of_nat (length d + 1)"
    using rs422_frame_parts(4) [OF assms(1)] be16_inj by metis
  then have "length d' + 1 = length d + 1"
    using u16_of_nat [of "length d' + 1"] u16_of_nat [of "length d + 1"] assms(2) g(2) by simp
  moreover have "length ?g = 12 + length d' + length t" unfolding g(1) by simp
  ultimately have "t = []" using assms(1) by simp
  then have "?g = rs422_frame RS422_SYNC_WORD_ACK pid' sc' w' d'" using g(1) by simp
  then show False by (rule rs422_frame_corrupt [OF assms(1) _ assms(3-6)])
qed

theorem rs422_corruption_detected_witness:
  "rs422_decode_frame ((rs422_frame RS422_SYNC_WORD_ACK 0x180 0xC000 RS422_CMD_DATA_ACK [0])[10 := 0xFF]) 13 rs422_no_out
     \<noteq> Some (SUCCESS, rs422_no_out)"
proof (rule rs422_corruption_detected [OF refl])
  show "0xFF \<noteq> rs422_frame RS422_SYNC_WORD_ACK 0x180 0xC000 RS422_CMD_DATA_ACK [0] ! 10"
    by (simp add: rs422_frame_def rs422_body_def nth_append)
qed simp_all

text \<open>RS-422 round trip. The frame that the encoder writes has the length it returns and uses up
  one sequence number; as it stands the decoder rejects it, since it only takes the acknowledge
  sync word, and with that sync word in place of the command one it decodes to the application
  identifier (its low eleven bits), the command and the payload that were encoded.\<close>

theorem rs422_round_trip:
  assumes "length p = unat n" and "unat n \<le> 1000" and "12 + unat n \<le> unat sz" and "unat sz \<le> length buf"
  shows "\<exists>l buf' out'. rs422_encode_frame seq apid cmd (Some p) n buf sz = Some (int (unat l), seq + 1, buf')
     \<and> unat l = 12 + unat n \<and> rs422_decode_frame buf' l out = Some (ERROR_GENERAL, out)
     \<and> rs422_decode_frame (be16 RS422_SYNC_WORD_ACK @ drop 2 buf') l out = Some (SUCCESS, out')
     \<and> ro_apid out' = apid AND 0x07FF \<and> ro_cmd_code out' = cmd \<and> ro_payload_len out' = n
     \<and> take (unat n) (ro_payload out') = p"
proof -
  let ?sc = "push_bit 14 3 OR (seq AND 0x3FFF)" and ?l = "of_nat (12 + unat n) :: u32"
  let ?f = "\<lambda>s. rs422_frame s (apid AND 0x07FF) ?sc cmd p @ drop (12 + unat n) buf"
  have arg: "payload_arg (Some p) (unat n) = p" using assms(1) by (simp add: payload_arg_def)
  have l: "unat ?l = 12 + unat n" using assms(2) by (intro u32_of_nat) simp
  have enc: "rs422_encode_frame seq apid cmd (Some p) n buf sz = Some (int (unat ?l), seq + 1, ?f RS422_SYNC_WORD_CMD)"
    using rs422_encode_ok [of "Some p" n sz buf seq apid cmd] assms arg l by simp
  have sw: "be16 RS422_SYNC_WORD_ACK @ drop 2 (?f RS422_SYNC_WORD_CMD) = ?f RS422_SYNC_WORD_ACK"
    by (simp add: rs422_frame_def)
  have "read_be16 (?f RS422_SYNC_WORD_CMD) 0 = Some RS422_SYNC_WORD_CMD"
    unfolding rs422_frame_def append.assoc using read_append(3) [of "[]" 0] by simp
  moreover have "\<not> ?l < 8 + 2 + 2" unfolding u32_less_nat l by simp
  ultimately have rej: "rs422_decode_frame (?f RS422_SYNC_WORD_CMD) ?l out = Some (ERROR_GENERAL, out)"
    unfolding rs422_decode_frame_def by simp
  have acc: "rs422_decode_frame (?f RS422_SYNC_WORD_ACK) ?l out = Some (SUCCESS,
     out\<lparr>ro_apid := apid AND 0x07FF, ro_cmd_code := cmd,
         ro_payload := p @ be16 (rs422_checksum (rs422_body (apid AND 0x07FF) ?sc cmd p)) @ drop (12 + unat n) buf,
         ro_payload_len := of_nat (length p)\<rparr>)"
    using assms l by (intro rs422_decode_ok) simp_all
  show ?thesis
  proof (intro exI conjI)
    show "rs422_decode_frame (be16 RS422_SYNC_WORD_ACK @ drop 2 (?f RS422_SYNC_WORD_CMD)) ?l out = Some (SUCCESS,
     out\<lparr>ro_apid := apid AND 0x07FF, ro_cmd_code := cmd,
         ro_payload := p @ be16 (rs422_checksum (rs422_body (apid AND 0x07FF) ?sc cmd p)) @ drop (12 + unat n) buf,
         ro_payload_len := of_nat (length p)\<rparr>)" unfolding sw by (rule acc)
    show "unat ?l = 12 + unat n" by (rule l)
    show "rs422_encode_frame seq apid cmd (Some p) n buf sz = Some (int (unat ?l), seq + 1, ?f RS422_SYNC_WORD_CMD)"
      by (rule enc)
    show "rs422_decode_frame (?f RS422_SYNC_WORD_CMD) ?l out = Some (ERROR_GENERAL, out)" by (rule rej)
  qed (simp_all add: assms(1))
qed

theorem rs422_round_trip_witness:
  "\<exists>l buf' out'. rs422_encode_frame 5 RS422_APID_CONTROL RS422_CMD_UPLOAD_NOTIFY (Some [1, 0xAA]) 2 (replicate 32 0) 32
       = Some (int (unat l), 5 + 1, buf')
     \<and> unat l = 12 + unat (2 :: u32) \<and> rs422_decode_frame buf' l rs422_no_out = Some (ERROR_GENERAL, rs422_no_out)
     \<and> rs422_decode_frame (be16 RS422_SYNC_WORD_ACK @ drop 2 buf') l rs422_no_out = Some (SUCCESS, out')
     \<and> ro_apid out' = RS422_APID_CONTROL AND 0x07FF \<and> ro_cmd_code out' = RS422_CMD_UPLOAD_NOTIFY \<and> ro_payload_len out' = 2
     \<and> take (unat (2 :: u32)) (ro_payload out') = [1, 0xAA]"
  by (rule rs422_round_trip) simp_all

text \<open>The file CRC notices every change of a single byte of the file, whatever the length of the
  file.\<close>

theorem rs422_crc_detects_byte:
  assumes "i < length d" and "b \<noteq> d ! i"
  shows "rs422_crc16_ccitt_false (d[i := b]) \<noteq> rs422_crc16_ccitt_false d"
  using assms by (rule rs422_crc_update)

theorem rs422_crc_detects_byte_witness:
  "rs422_crc16_ccitt_false ([1, 2, 3][1 := 7]) \<noteq> rs422_crc16_ccitt_false [1, 2, 3]"
  using rs422_crc_detects_byte [of 1 "[1, 2, 3]" 7] by simp

end
