(* ===== verification/UartRs422.thy ===== *)
theory UartRs422
  imports PacketFinder Rs422Protocol
begin

text \<open>
  The RS-422 client of uart_rs422_client.c, which loads firmware over a serial line: sending a
  frame with retries, receiving one through the ring buffer and the packet finder, and the
  exchange of a command for its reply. The kernel is a script: what each \<open>write\<close> returns, and for
  each turn of the receive loop the clock and what \<open>select\<close> and \<open>read\<close> give. The global receive
  context \<open>g_recv_ctx\<close> is passed through. The mutexes make each call atomic.
\<close>

subsection \<open>State\<close>

record uart_recv_context =
  rc_rd_buf :: bytes
  rc_rbuf :: rbuf
  rc_parse_buf :: bytes
  rc_received_frame :: bytes
  rc_received_frame_len :: u32
  rc_frame_ready :: int
  rc_pkfinder :: pkfinder

record uart_rs422_client =
  uc_fd :: int
  uc_device_path :: string
  uc_is_open :: bool
  uc_timeout_ms :: u32
  uc_max_retries :: u32

text \<open>The packet check of the finder. The dump of a bad packet to the log is left out.\<close>

definition rs422_frame_check_and_process ::
  "uart_recv_context \<Rightarrow> bytes \<Rightarrow> u32 \<Rightarrow> (bool \<times> uart_recv_context) option" where
  "rs422_frame_check_and_process ctx pkBuf pkLen =
     (if pkLen = 0 then Some (False, ctx)
      else if pkLen < 8 + 2 then Some (False, ctx)
      else if pkLen > 2048 then Some (False, ctx)
      else do {
        let checksum_offset = pkLen - 2;
        d \<leftarrow> mem_read pkBuf 2 (unat (checksum_offset - 2));
        actual_checksum \<leftarrow> read_be16 pkBuf (unat checksum_offset);
        if actual_checksum \<noteq> rs422_checksum d then Some (False, ctx)
        else do {
          fr \<leftarrow> mem_copy (rc_received_frame ctx) 0 pkBuf 0 (unat pkLen);
          Some (True, ctx\<lparr>rc_received_frame := fr, rc_received_frame_len := pkLen, rc_frame_ready := 1\<rparr>) } })"

definition rs422_pkfinder :: pkfinder where
  "rs422_pkfinder = \<lparr>pf_headBuf = Some [0x1a, 0xcf], pf_headLen = 2, pf_headMasks = Some [0xff, 0xff],
     pf_isPkFixLen = False, pf_pkFixLen = 0, pf_pkLenPos = 6, pf_pkLenLen = 2,
     pf_pkLenFirstMsk = 0xff, pf_pkLenEnd = ENDIAN_BIG, pf_pkLenAdd = 11\<rparr>"

definition uart_recv_context_init :: uart_recv_context where
  "uart_recv_context_init = \<lparr>rc_rd_buf = replicate 1024 0,
     rc_rbuf = rBufInit \<lparr>rb_buf = replicate 5120 0, rb_len = 5120, rb_in = 0, rb_out = 0\<rparr>,
     rc_parse_buf = replicate 5120 0, rc_received_frame = replicate 2048 0, rc_received_frame_len = 0,
     rc_frame_ready = 0, rc_pkfinder = rs422_pkfinder\<rparr>"

definition uart_rs422_init :: "string \<Rightarrow> int \<times> uart_rs422_client \<times> uart_recv_context" where
  "uart_rs422_init device_path =
     (SUCCESS, \<lparr>uc_fd = - 1, uc_device_path = take 63 device_path, uc_is_open = False, uc_timeout_ms = 5000,
        uc_max_retries = 3\<rparr>, uart_recv_context_init)"

definition uart_rs422_close :: "uart_rs422_client \<Rightarrow> uart_rs422_client" where
  "uart_rs422_close client =
     (if \<not> uc_is_open client then client
      else (if uc_fd client \<ge> 0 then client\<lparr>uc_fd := - 1\<rparr> else client)\<lparr>uc_is_open := False\<rparr>)"

subsection \<open>Sending\<close>

text \<open>
  The retry loop, over the values that the successive writes return. The result is the return
  value, the number of writes and the values not used; a script that ends before the loop does
  gives \<open>None\<close>.
\<close>

fun send_loop :: "u32 \<Rightarrow> u32 \<Rightarrow> u32 \<Rightarrow> int list \<Rightarrow> (int \<times> nat \<times> int list) option" where
  "send_loop max_retries frame_len retry ws =
     (if retry \<le> max_retries
      then (case ws of
              [] \<Rightarrow> None
            | written # ws' \<Rightarrow>
                if written = int (unat frame_len) then Some (SUCCESS, 1, ws')
                else do {
                  (ret, k, rest) \<leftarrow> send_loop max_retries frame_len (retry + 1) ws';
                  Some (ret, k + 1, rest) })
      else Some (ERROR_GENERAL, 0, ws))"

definition uart_rs422_send_frame :: "uart_rs422_client \<Rightarrow> u32 \<Rightarrow> int list \<Rightarrow> (int \<times> nat \<times> int list) option" where
  "uart_rs422_send_frame client frame_len ws =
     (if \<not> uc_is_open client \<or> frame_len = 0 then Some (ERROR_INVALID_PARAM, 0, ws)
      else send_loop (uc_max_retries client) frame_len 0 ws)"

subsection \<open>Receiving\<close>

text \<open>What one turn of the loop meets: the clock in seconds and nanoseconds, and the outcome of
  \<open>select\<close> and \<open>read\<close>.\<close>

datatype uart_event = Select_error | Select_timeout | Read_error | Read_bytes bytes

type_synonym clock = "int \<times> int"

definition elapsed_ms :: "clock \<Rightarrow> clock \<Rightarrow> u32" where
  "elapsed_ms start cur =
     (let ns = snd cur - snd start
      in of_int ((fst cur - fst start) * 1000 + (if ns < 0 then - (- ns div 1000000) else ns div 1000000)))"

text \<open>The outcome of the loop: it returns, or it is still waiting when the script ends.\<close>

datatype recv_outcome =
    Returned int uart_recv_context bytes u32
  | Waiting uart_recv_context

text \<open>Storing what was read in the ring, which is cleared when nothing fits.\<close>

definition recv_store :: "uart_recv_context \<Rightarrow> bytes \<Rightarrow> uart_recv_context option" where
  "recv_store ctx bs = do {
     rd \<leftarrow> mem_put (rc_rd_buf ctx) 0 bs;
     let ret = of_nat (length bs);
     (put_len, r) \<leftarrow> rBufPut (rc_rbuf ctx) rd ret;
     if put_len \<noteq> ret \<and> put_len = 0
     then do {
       (put_len, r) \<leftarrow> rBufPut (rBufClear r) rd ret;
       Some (ctx\<lparr>rc_rd_buf := rd, rc_rbuf := r\<rparr>) }
     else Some (ctx\<lparr>rc_rd_buf := rd, rc_rbuf := r\<rparr>) }"

definition recv_parse :: "uart_recv_context \<Rightarrow> (int \<times> uart_recv_context) option" where
  "recv_parse ctx = do {
     (status, r, pb, ctx') \<leftarrow>
       pkfinderParse (rc_pkfinder ctx) (rc_rbuf ctx) (rc_parse_buf ctx) 5120 rs422_frame_check_and_process ctx;
     Some (status, ctx'\<lparr>rc_rbuf := r, rc_parse_buf := pb\<rparr>) }"

fun recv_loop :: "u32 \<Rightarrow> clock \<Rightarrow> u32 \<Rightarrow> uart_recv_context \<Rightarrow> bytes \<Rightarrow> (clock \<times> uart_event) list
    \<Rightarrow> recv_outcome option" where
  "recv_loop timeout_ms start frame_buf_size ctx frame_buf [] = Some (Waiting ctx)"
| "recv_loop timeout_ms start frame_buf_size ctx frame_buf ((now, ev) # evs) =
     (if elapsed_ms start now \<ge> timeout_ms then Some (Returned ERROR_TIMEOUT ctx frame_buf 0)
      else case ev of
        Select_error \<Rightarrow> Some (Returned ERROR_GENERAL ctx frame_buf 0)
      | Select_timeout \<Rightarrow> recv_loop timeout_ms start frame_buf_size ctx frame_buf evs
      | Read_error \<Rightarrow> Some (Returned ERROR_GENERAL ctx frame_buf 0)
      | Read_bytes bs \<Rightarrow>
          if bs = [] then recv_loop timeout_ms start frame_buf_size ctx frame_buf evs
          else do {
            ctx1 \<leftarrow> recv_store ctx bs;
            (status, ctx2) \<leftarrow> recv_parse ctx1;
            if status = STATUS_OK \<and> rc_frame_ready ctx2 = 1
            then if rc_received_frame_len ctx2 > frame_buf_size
                 then Some (Returned ERROR_GENERAL (ctx2\<lparr>rc_frame_ready := 0\<rparr>) frame_buf 0)
                 else do {
                   fb \<leftarrow> mem_copy frame_buf 0 (rc_received_frame ctx2) 0 (unat (rc_received_frame_len ctx2));
                   Some (Returned SUCCESS (ctx2\<lparr>rc_frame_ready := 0\<rparr>) fb (rc_received_frame_len ctx2)) }
            else if status = STATUS_ERROR
            then Some (Returned ERROR_GENERAL ctx2 frame_buf 0)
            else recv_loop timeout_ms start frame_buf_size ctx2 frame_buf evs })"

definition uart_rs422_recv_frame :: "uart_rs422_client \<Rightarrow> uart_recv_context \<Rightarrow> bytes \<Rightarrow> u32 \<Rightarrow> u32 \<Rightarrow> clock
    \<Rightarrow> (clock \<times> uart_event) list \<Rightarrow> recv_outcome option" where
  "uart_rs422_recv_frame client ctx frame_buf frame_buf_size received_len start evs =
     (if \<not> uc_is_open client then Some (Returned ERROR_INVALID_PARAM ctx frame_buf received_len)
      else recv_loop (uc_timeout_ms client) start frame_buf_size (ctx\<lparr>rc_frame_ready := 0\<rparr>) frame_buf evs)"

text \<open>Clearing the driver's buffers is part of the script of what is read later.\<close>

definition uart_rs422_discard_pending :: "uart_rs422_client \<Rightarrow> uart_recv_context \<Rightarrow> int \<times> uart_recv_context" where
  "uart_rs422_discard_pending client ctx =
     (if \<not> uc_is_open client \<or> uc_fd client < 0 then (ERROR_INVALID_PARAM, ctx)
      else (SUCCESS, ctx\<lparr>rc_rbuf := rBufClear (rc_rbuf ctx), rc_frame_ready := 0, rc_received_frame_len := 0\<rparr>))"

subsection \<open>Command and reply\<close>

definition uart_rs422_send_and_wait :: "uart_rs422_client \<Rightarrow> uart_recv_context \<Rightarrow> u32 \<Rightarrow> bytes \<Rightarrow> u32 \<Rightarrow> u32 \<Rightarrow> u16
    \<Rightarrow> int list \<Rightarrow> clock \<Rightarrow> (clock \<times> uart_event) list \<Rightarrow> recv_outcome option" where
  "uart_rs422_send_and_wait client ctx send_len recv_frame recv_buf_size recv_len expected_cmd ws start evs = do {
     let ctx1 = snd (uart_rs422_discard_pending client ctx);
     (ret, k, ws') \<leftarrow> uart_rs422_send_frame client send_len ws;
     if ret \<noteq> SUCCESS then Some (Returned ret ctx1 recv_frame recv_len)
     else do {
       res \<leftarrow> uart_rs422_recv_frame client ctx1 recv_frame recv_buf_size recv_len start evs;
       (case res of
          Waiting c \<Rightarrow> Some (Waiting c)
        | Returned ret c fb n \<Rightarrow>
            if ret \<noteq> SUCCESS then Some (Returned ret c fb n)
            else if expected_cmd \<noteq> 0
            then do {
              (dret, out) \<leftarrow> rs422_decode_frame fb n
                \<lparr>ro_apid = 0, ro_cmd_code = 0, ro_payload = [], ro_payload_len = 0\<rparr>;
              if dret \<noteq> SUCCESS then Some (Returned dret c fb n)
              else if ro_cmd_code out \<noteq> expected_cmd then Some (Returned ERROR_GENERAL c fb n)
              else Some (Returned SUCCESS c fb n) }
            else Some (Returned SUCCESS c fb n)) } }"

definition uart_rs422_set_timeout :: "uart_rs422_client \<Rightarrow> u32 \<Rightarrow> uart_rs422_client" where
  "uart_rs422_set_timeout client timeout_ms = client\<lparr>uc_timeout_ms := timeout_ms\<rparr>"

definition uart_rs422_set_max_retries :: "uart_rs422_client \<Rightarrow> u32 \<Rightarrow> uart_rs422_client" where
  "uart_rs422_set_max_retries client max_retries = client\<lparr>uc_max_retries := max_retries\<rparr>"

declare send_loop.simps [simp del] 

subsection \<open>The receive context\<close>

text \<open>A frame that passed the check: its last two bytes are the checksum of what lies between them
  and the sync word.\<close>

definition rs422_checked :: "bytes \<Rightarrow> bool" where
  "rs422_checked f \<longleftrightarrow> 10 \<le> length f \<and> length f \<le> 2048
     \<and> drop (length f - 2) f = be16 (rs422_checksum (take (length f - 4) (drop 2 f)))"

definition ctx_frame :: "uart_recv_context \<Rightarrow> bytes" where
  "ctx_frame ctx = take (unat (rc_received_frame_len ctx)) (rc_received_frame ctx)"

definition ctx_inv :: "uart_recv_context \<Rightarrow> bool" where
  "ctx_inv ctx \<longleftrightarrow> length (rc_rd_buf ctx) = 1024 \<and> rb_inv (rc_rbuf ctx) \<and> rb_len (rc_rbuf ctx) = 5120
     \<and> length (rc_parse_buf ctx) = 5120 \<and> length (rc_received_frame ctx) = 2048 \<and> rc_pkfinder ctx = rs422_pkfinder
     \<and> unat (rc_received_frame_len ctx) \<le> 2048 \<and> (rc_frame_ready ctx = 1 \<longrightarrow> rs422_checked (ctx_frame ctx))"

lemma ctx_invD:
  assumes "ctx_inv ctx"
  shows "length (rc_rd_buf ctx) = 1024" "rb_inv (rc_rbuf ctx)" "rb_len (rc_rbuf ctx) = 5120"
    "length (rc_parse_buf ctx) = 5120" "length (rc_received_frame ctx) = 2048" "rc_pkfinder ctx = rs422_pkfinder"
    "unat (rc_received_frame_len ctx) \<le> 2048" "rc_frame_ready ctx = 1 \<longrightarrow> rs422_checked (ctx_frame ctx)"
  using assms by (simp_all add: ctx_inv_def)

lemma ctx_inv_init: "ctx_inv uart_recv_context_init"
  by (simp add: ctx_inv_def uart_recv_context_init_def rBufInit_def rb_inv_def)

lemma rs422_pkfinder_ok: "pf_ok rs422_pkfinder"
  by (simp add: pf_ok_def rs422_pkfinder_def)

lemma ctx_inv_ready: "ctx_inv ctx \<Longrightarrow> ctx_inv (ctx\<lparr>rc_frame_ready := 0\<rparr>)"
  by (simp add: ctx_inv_def ctx_frame_def)

lemma ctx_inv_bufs:
  "ctx_inv ctx \<Longrightarrow> rb_inv r \<Longrightarrow> rb_len r = 5120 \<Longrightarrow> length pb = 5120 \<Longrightarrow>
     ctx_inv (ctx\<lparr>rc_rbuf := r, rc_parse_buf := pb\<rparr>)"
  "ctx_inv ctx \<Longrightarrow> rb_inv r \<Longrightarrow> rb_len r = 5120 \<Longrightarrow> length rd = 1024 \<Longrightarrow>
     ctx_inv (ctx\<lparr>rc_rd_buf := rd, rc_rbuf := r\<rparr>)"
  by (simp_all add: ctx_inv_def ctx_frame_def)

lemma read_be16_Some: "i + 2 \<le> length b \<Longrightarrow> \<exists>w. read_be16 b i = Some w"
  by (simp add: read_be16_def arr_get_def)

text \<open>The outcome of the packet check.\<close>

lemma frame_check_cases:
  assumes inv: "ctx_inv ctx" and len: "length pk = unat n"
  shows "rs422_frame_check_and_process ctx pk n =
     (if rs422_checked pk
      then Some (True, ctx\<lparr>rc_received_frame := pk @ drop (unat n) (rc_received_frame ctx), rc_received_frame_len := n,
                           rc_frame_ready := 1\<rparr>)
      else Some (False, ctx))"
proof (cases "10 \<le> unat n \<and> unat n \<le> 2048")
  case False
  then have "n = 0 \<or> n < 8 + 2 \<or> n > 2048" unfolding u32_less_nat by auto
  then show ?thesis using False len by (auto simp: rs422_frame_check_and_process_def rs422_checked_def)
next
  case True
  then have g: "n \<noteq> 0" "\<not> n < 8 + 2" "\<not> n > 2048" unfolding u32_less_nat by auto
  have n2: "unat (n - 2) = unat n - 2" "unat (n - 2 - 2) = unat n - 4"
    using True by (simp_all add: u32_sub_nat)
  have rd: "mem_read pk 2 (unat n - 4) = Some (take (unat n - 4) (drop 2 pk))"
    using True len by (intro mem_read_Some) linarith
  have "take 2 (drop (unat n - 2) pk) = drop (unat n - 2) pk" using True len by simp
  then have rb: "(read_be16 pk (unat n - 2) = Some w) = (drop (unat n - 2) pk = be16 w)" for w
  proof -
    have "unat n - 2 + 2 \<le> length pk" using True len by linarith
    then show ?thesis using \<open>take 2 (drop (unat n - 2) pk) = drop (unat n - 2) pk\<close> by (simp only: read_be16_take) simp
  qed
  have "unat n - 2 + 2 \<le> length pk" using True len by linarith
  then obtain c where c: "read_be16 pk (unat n - 2) = Some c" using read_be16_Some by blast
  have "c = rs422_checksum (take (unat n - 4) (drop 2 pk)) \<longleftrightarrow> rs422_checked pk"
    using rb [of "rs422_checksum (take (unat n - 4) (drop 2 pk))"] c True len by (simp add: rs422_checked_def)
  moreover have "mem_copy (rc_received_frame ctx) 0 pk 0 (unat n) = Some (pk @ drop (unat n) (rc_received_frame ctx))"
    using True len ctx_invD(5) [OF inv] by simp
  ultimately show ?thesis
    using g unfolding rs422_frame_check_and_process_def Let_def n2 rd c bind.simps by auto
qed

lemma frame_check_total: "chk_total ctx_inv rs422_frame_check_and_process"
  unfolding chk_total_def
proof (intro allI impI)
  fix s and pk :: bytes and n :: u32 assume inv: "ctx_inv s" and len: "length pk = unat n"
  show "\<exists>b s'. rs422_frame_check_and_process s pk n = Some (b, s') \<and> ctx_inv s'"
  proof (cases "rs422_checked pk")
    case True
    then have "unat n \<le> 2048" using len by (simp add: rs422_checked_def)
    then show ?thesis
      using True inv len unfolding frame_check_cases [OF inv len]
      by (auto simp: ctx_inv_def ctx_frame_def)
  next
    case False
    then show ?thesis using inv unfolding frame_check_cases [OF inv len] by auto
  qed
qed

subsection \<open>The receive loop\<close>

lemma recv_store_ok:
  assumes inv: "ctx_inv ctx" and bs: "length bs \<le> 1024"
  shows "\<exists>ctx'. recv_store ctx bs = Some ctx' \<and> ctx_inv ctx' \<and> rc_frame_ready ctx' = rc_frame_ready ctx
     \<and> (length (rb_contents (rc_rbuf ctx)) + length bs < 5120 \<longrightarrow>
          rb_contents (rc_rbuf ctx') = rb_contents (rc_rbuf ctx) @ bs)"
proof -
  note d = ctx_invD [OF inv]
  define rd where "rd = bs @ drop (length bs) (rc_rd_buf ctx)"
  have rd: "mem_put (rc_rd_buf ctx) 0 bs = Some rd" using bs d by (simp add: mem_put_start rd_def)
  have lrd: "length rd = 1024" using bs d by (simp add: rd_def)
  let ?n = "of_nat (length bs) :: u32"
  have n: "unat ?n = length bs" using bs by (intro u32_of_nat) simp
  have fits: "unat ?n \<le> length rd" using bs lrd n by simp
  obtain k r where r: "rBufPut (rc_rbuf ctx) rd ?n = Some (k, r)" "unat k = min (length bs) (rb_room (rc_rbuf ctx))"
      "rb_inv r" "rb_contents r = rb_contents (rc_rbuf ctx) @ take (unat k) rd" "rb_len r = 5120"
    using rBufPut_ok [OF d(2) fits] d(3) by (auto simp: put_ok_def n)
  have c: "rb_inv (rBufClear r)" "rb_len (rBufClear r) = 5120"
    using rBufClear_inv [OF r(3)] r(5) by (simp_all add: rBufClear_def)
  obtain k2 r2 where r2: "rBufPut (rBufClear r) rd ?n = Some (k2, r2)" "rb_inv r2" "rb_len r2 = 5120"
    using rBufPut_ok [OF c(1) fits] c(2) by (auto simp: put_ok_def)
  have room: "length (rb_contents (rc_rbuf ctx)) + length bs < 5120 \<Longrightarrow> unat k = length bs"
    using r(2) d(3) by (simp add: rb_room_def)
  then have kn: "length (rb_contents (rc_rbuf ctx)) + length bs < 5120 \<Longrightarrow> k = ?n"
    using n by (simp add: word_unat_eq_iff)
  have tk: "take (length bs) rd = bs" by (simp add: rd_def)
  show ?thesis
  proof (cases "k \<noteq> ?n \<and> k = 0")
    case True
    then have "recv_store ctx bs = Some (ctx\<lparr>rc_rd_buf := rd, rc_rbuf := r2\<rparr>)"
      unfolding recv_store_def Let_def rd r(1) bind.simps prod.case if_P [OF True] r2(1) by simp
    then show ?thesis using ctx_inv_bufs(2) [OF inv r2(2,3) lrd] True kn by auto
  next
    case False
    then have "recv_store ctx bs = Some (ctx\<lparr>rc_rd_buf := rd, rc_rbuf := r\<rparr>)"
      unfolding recv_store_def Let_def rd r(1) bind.simps prod.case if_not_P [OF False] by simp
    then show ?thesis using ctx_inv_bufs(2) [OF inv r(3,5) lrd] r(4) room tk by auto
  qed
qed

lemma ring_fits: "ctx_inv ctx \<Longrightarrow> length (rb_contents (rc_rbuf ctx)) \<le> 5120"
  using ctx_invD(2,3) [of ctx] rb_contents_length [of "rc_rbuf ctx"] rb_invD [of "rc_rbuf ctx"] by auto

lemma recv_parse_ok:
  assumes inv: "ctx_inv ctx"
  shows "\<exists>st ctx'. recv_parse ctx = Some (st, ctx') \<and> ctx_inv ctx'"
proof -
  note d = ctx_invD [OF inv]
  have "\<exists>st r pb s' k. pkfinderParse rs422_pkfinder (rc_rbuf ctx) (rc_parse_buf ctx) 5120 rs422_frame_check_and_process ctx
      = Some (st, r, pb, s') \<and> rb_inv r \<and> rb_contents r = drop k (rb_contents (rc_rbuf ctx))
      \<and> rb_len r = rb_len (rc_rbuf ctx) \<and> length pb = length (rc_parse_buf ctx) \<and> ctx_inv s'"
    using d ring_fits [OF inv] by (intro parse_total [OF rs422_pkfinder_ok frame_check_total inv]) simp_all
  then show ?thesis using d ctx_inv_bufs(1) unfolding recv_parse_def d(6) by fastforce
qed

definition event_ok :: "clock \<times> uart_event \<Rightarrow> bool" where
  "event_ok e \<longleftrightarrow> (case snd e of Read_bytes bs \<Rightarrow> length bs \<le> 1024 | _ \<Rightarrow> True)"

text \<open>What a caller can rely on, whatever arrives on the line.\<close>

fun outcome_ok :: "nat \<Rightarrow> nat \<Rightarrow> recv_outcome \<Rightarrow> bool" where
  "outcome_ok sz buflen (Waiting c) = ctx_inv c"
| "outcome_ok sz buflen (Returned r c fb n) \<longleftrightarrow> ctx_inv c \<and> length fb = buflen
     \<and> r \<in> {SUCCESS, ERROR_GENERAL, ERROR_TIMEOUT}
     \<and> (if r = SUCCESS then unat n \<le> sz \<and> rs422_checked (take (unat n) fb) else n = 0)"

lemma recv_loop_safe:
  assumes "ctx_inv ctx" and "list_all event_ok evs" and "unat sz \<le> length fb"
  shows "\<exists>res. recv_loop tmo start sz ctx fb evs = Some res \<and> outcome_ok (unat sz) (length fb) res"
  using assms
proof (induction evs arbitrary: ctx)
  case Nil
  then show ?case by simp
next
  case (Cons e evs)
  obtain now ev where e: "e = (now, ev)" by (cases e)
  note IH = Cons.IH [OF _ _ Cons.prems(3)]
  have evs: "list_all event_ok evs" using Cons.prems(2) by simp
  show ?case
  proof (cases "elapsed_ms start now \<ge> tmo")
    case True
    then show ?thesis using e Cons.prems by simp
  next
    case time: False
    show ?thesis
    proof (cases ev)
      case (Read_bytes bs)
      have bs: "length bs \<le> 1024" using Cons.prems(2) e Read_bytes by (simp add: event_ok_def)
      obtain c1 where c1: "recv_store ctx bs = Some c1" "ctx_inv c1"
        using recv_store_ok [OF Cons.prems(1) bs] by blast
      obtain st c2 where c2: "recv_parse c1 = Some (st, c2)" "ctx_inv c2" using recv_parse_ok [OF c1(2)] by blast
      note d = ctx_invD [OF c2(2)]
      show ?thesis
      proof (cases "st = STATUS_OK \<and> rc_frame_ready c2 = 1 \<and> \<not> rc_received_frame_len c2 > sz \<and> bs \<noteq> []")
        case True
        then have le: "unat (rc_received_frame_len c2) \<le> unat sz" by (simp add: u32_less_nat)
        let ?n = "unat (rc_received_frame_len c2)"
        have cp: "mem_copy fb 0 (rc_received_frame c2) 0 ?n = Some (ctx_frame c2 @ drop ?n fb)"
          using le Cons.prems(3) d(5,7) by (simp add: ctx_frame_def)
        have len: "length (ctx_frame c2) = ?n" using d(5,7) by (simp add: ctx_frame_def)
        have "recv_loop tmo start sz ctx fb (e # evs) = Some (Returned SUCCESS (c2\<lparr>rc_frame_ready := 0\<rparr>)
            (ctx_frame c2 @ drop ?n fb) (rc_received_frame_len c2))"
          using True time e Read_bytes c1(1) c2(1) cp by simp
        then show ?thesis
          using True d(8) len le Cons.prems(3) ctx_inv_ready [OF c2(2)] by simp
      next
        case False
        then show ?thesis
          using time e Read_bytes c1(1) c2 ctx_inv_ready [OF c2(2)] IH [OF c2(2) evs] IH [OF Cons.prems(1) evs] by auto
      qed
    qed (use time e Cons.prems IH evs in simp_all)
  qed
qed

subsection \<open>Acknowledge frames on the line\<close>

definition ack_frame :: "bytes \<Rightarrow> bool" where
  "ack_frame f \<longleftrightarrow> length f \<le> 2048 \<and> (\<exists>pid sc w d. f = rs422_frame RS422_SYNC_WORD_ACK pid sc w d)"

lemma ack_frame_checked: "ack_frame f \<Longrightarrow> rs422_checked f"
  by (auto simp: ack_frame_def rs422_checked_def rs422_frame_def)

lemma ack_frame_packet:
  assumes "ack_frame f"
  shows "is_packet rs422_pkfinder f"
proof -
  obtain pid sc w d where f: "f = rs422_frame RS422_SYNC_WORD_ACK pid sc w d" and l: "length f \<le> 2048"
    using assms by (auto simp: ack_frame_def)
  have ld: "length d \<le> 2036" using l f by simp
  have t: "take 2 (drop 6 f) = be16 (of_nat (length d + 1))" using rs422_frame_parts(4) [OF f] .
  have h: "f ! 0 = 0x1a" "f ! Suc 0 = 0xcf" unfolding f by (simp_all add: rs422_frame_def be16_def)
  let ?w = "of_nat (length d + 1) :: u16"
  have w: "unat ?w = length d + 1" using ld by (intro u16_of_nat) simp
  have m: "x AND 0xff = x" for x :: u8 
  proof -
    have "(0xff :: u8) = - 1" by simp
    then show ?thesis by (simp only: and.right_neutral)
  qed
  have "unat (ucast (ucast ?w :: u8) OR push_bit 8 (ucast (ucast (drop_bit 8 ?w) :: u8)) :: u32) = length d + 1"
  proof -
    have "ucast (ucast ?w :: u8) OR push_bit 8 (ucast (ucast (drop_bit 8 ?w) :: u8)) = (ucast ?w :: u32)"
      by (rule bit_word_eqI) (auto simp: bit_simps dest: bit_imp_le_length)
    then show ?thesis using w by (simp only: unat_ucast_up)
  qed
  moreover have "pk_len_value rs422_pkfinder [hi, lo, 0, 0] = ucast lo OR push_bit 8 (ucast hi)" for hi lo
    using pk_len_value_small(3) [of rs422_pkfinder "[hi, lo, 0, 0]"]
    by (simp add: rs422_pkfinder_def ENDIAN_LITTLE_def ENDIAN_BIG_def)
  ultimately have "unat (pk_len_value rs422_pkfinder [ucast (drop_bit 8 ?w), ucast ?w, 0, 0]) = length d + 1" by simp
  moreover have "take 2 (drop 6 f) @ replicate 2 0 = [ucast (drop_bit 8 ?w), ucast ?w, 0, 0]"
    unfolding t by (simp add: be16_def numeral_2_eq_2)
  ultimately have "packet_len rs422_pkfinder f 0 = length d + 1 + 11"
    unfolding packet_len_def by (simp add: rs422_pkfinder_def m)
  then have "packet_len rs422_pkfinder f 0 = length f" using f by simp
  then show ?thesis
    using h f m unfolding is_packet_def by (auto simp: head_at_def rs422_pkfinder_def less_2_cases_iff)
qed

lemma feed_acks:
  assumes "ctx_inv ctx" and "list_all ack_frame fs"
  shows "\<exists>ctx'. feed rs422_frame_check_and_process ctx fs = Some ctx' \<and> ctx_inv ctx'
     \<and> (if fs = [] then ctx' = ctx else rc_frame_ready ctx' = 1 \<and> ctx_frame ctx' = last fs
          \<and> rc_received_frame_len ctx' = of_nat (length (last fs)))"
  using assms
proof (induction fs arbitrary: ctx)
  case (Cons f fs)
  have f: "ack_frame f" "rs422_checked f" using Cons.prems(2) ack_frame_checked by simp_all
  let ?n = "of_nat (length f) :: u32"
  have n: "length f = unat ?n" using f(1) by (subst u32_of_nat) (simp_all add: ack_frame_def)
  let ?c = "ctx\<lparr>rc_received_frame := f @ drop (unat ?n) (rc_received_frame ctx), rc_received_frame_len := ?n,
              rc_frame_ready := 1\<rparr>"
  have chk: "rs422_frame_check_and_process ctx f ?n = Some (True, ?c)"
    using frame_check_cases [OF Cons.prems(1) n] f(2) by simp
  then have inv: "ctx_inv ?c" using chk_totalD [OF frame_check_total Cons.prems(1) n] by simp
  have cf: "ctx_frame ?c = f" using n by (simp add: ctx_frame_def)
  obtain c' where "feed rs422_frame_check_and_process ?c fs = Some c'" "ctx_inv c'"
      "if fs = [] then c' = ?c else rc_frame_ready c' = 1 \<and> ctx_frame c' = last fs
          \<and> rc_received_frame_len c' = of_nat (length (last fs))"
    using Cons.IH [OF inv] Cons.prems(2) by auto
  then show ?case using chk cf by (cases "fs = []") simp_all
qed simp

lemma recv_parse_acks:
  assumes inv: "ctx_inv ctx" and data: "rb_contents (rc_rbuf ctx) = concat fs @ rest"
    and fs: "list_all ack_frame fs" and part: "is_partial rs422_pkfinder 5120 rest"
  shows "\<exists>ctx'. recv_parse ctx = Some (if fs = [] then STATUS_ERROR else STATUS_OK, ctx') \<and> ctx_inv ctx'
     \<and> (fs = [] \<longrightarrow> rc_frame_ready ctx' = rc_frame_ready ctx)
     \<and> (fs \<noteq> [] \<longrightarrow> rc_frame_ready ctx' = 1 \<and> ctx_frame ctx' = last fs
          \<and> rc_received_frame_len ctx' = of_nat (length (last fs)))"
proof -
  note d = ctx_invD [OF inv]
  obtain c1 where c1: "feed rs422_frame_check_and_process ctx fs = Some c1" "ctx_inv c1"
      "if fs = [] then c1 = ctx else rc_frame_ready c1 = 1 \<and> ctx_frame c1 = last fs
          \<and> rc_received_frame_len c1 = of_nat (length (last fs))"
    using feed_acks [OF inv fs] by blast
  have pk: "list_all (is_packet rs422_pkfinder) fs" using fs ack_frame_packet by (auto simp: list_all_iff)
  obtain r pb where r: "pkfinderParse rs422_pkfinder (rc_rbuf ctx) (rc_parse_buf ctx) 5120 rs422_frame_check_and_process ctx
      = Some (if fs = [] then STATUS_ERROR else STATUS_OK, r, pb, c1)" "rb_inv r" "rb_len r = 5120" "length pb = 5120"
    using parse_packets [OF rs422_pkfinder_ok d(2) _ _ _ data pk c1(1), of 5120 "rc_parse_buf ctx"] part
      d(3,4) ring_fits [OF inv] by auto
  have "recv_parse ctx = Some (if fs = [] then STATUS_ERROR else STATUS_OK, c1\<lparr>rc_rbuf := r, rc_parse_buf := pb\<rparr>)"
    by (simp add: recv_parse_def d(6) r(1))
  then show ?thesis using ctx_inv_bufs(1) [OF c1(2) r(2-4)] c1(3) by (cases "fs = []") (auto simp: ctx_frame_def)
qed

lemma partial_Nil: "is_partial rs422_pkfinder 5120 []"
  by (simp add: is_partial_def rs422_pkfinder_def)

lemma partial_ack:
  assumes "ack_frame (bs @ t)" and "t \<noteq> []"
  shows "is_partial rs422_pkfinder 5120 bs"
  using ack_frame_packet [OF assms(1)] assms by (auto simp: is_partial_def ack_frame_def)

text \<open>A burst of replies that arrives in one read.\<close>

lemma recv_loop_burst:
  assumes inv: "ctx_inv ctx" and empty: "rb_contents (rc_rbuf ctx) = []"
    and fs: "list_all ack_frame fs" "fs \<noteq> []" "length (concat fs) \<le> 1024" and time: "elapsed_ms start now < tmo"
    and sz: "length (last fs) \<le> unat sz" "unat sz \<le> length fb"
  shows "\<exists>c. recv_loop tmo start sz ctx fb ((now, Read_bytes (concat fs)) # evs) =
     Some (Returned SUCCESS c (last fs @ drop (length (last fs)) fb) (of_nat (length (last fs)))) \<and> ctx_inv c"
proof -
  let ?n = "of_nat (length (last fs)) :: u32"
  have lf: "ack_frame (last fs)" using fs(1,2) by (simp add: list_all_iff)
  then have ln: "unat ?n = length (last fs)" by (subst u32_of_nat) (simp_all add: ack_frame_def)
  have ne: "concat fs \<noteq> []"
    using fs(1,2) is_packet_nonempty [OF rs422_pkfinder_ok ack_frame_packet] by (cases fs) auto
  obtain c1 where c1: "recv_store ctx (concat fs) = Some c1" "ctx_inv c1" "rb_contents (rc_rbuf c1) = concat fs"
    using recv_store_ok [OF inv fs(3)] fs(3) empty by auto
  obtain c2 where c2: "recv_parse c1 = Some (STATUS_OK, c2)" "ctx_inv c2" "rc_frame_ready c2 = 1"
      "ctx_frame c2 = last fs" "rc_received_frame_len c2 = ?n"
    using recv_parse_acks [OF c1(2) _ fs(1) partial_Nil] c1(3) fs(2) by auto
  have le: "\<not> ?n > sz" unfolding u32_less_nat ln using sz by simp
  have "length (last fs) \<le> length (rc_received_frame c2)" using ctx_invD(5) [OF c2(2)] lf by (simp add: ack_frame_def)
  moreover have "take (length (last fs)) (rc_received_frame c2) = last fs"
    using c2(4) by (simp add: ctx_frame_def c2(5) ln)
  ultimately have cp: "mem_copy fb 0 (rc_received_frame c2) 0 (length (last fs)) = Some (last fs @ drop (length (last fs)) fb)"
    using sz by simp
  define bs where "bs = concat fs"
  show ?thesis
    using ne time c1(1) c2 le cp ln ctx_inv_ready [OF c2(2)] unfolding bs_def [symmetric] by simp
qed

text \<open>A reply of which only the first part has arrived.\<close>

lemma recv_loop_part:
  assumes inv: "ctx_inv ctx" and empty: "rb_contents (rc_rbuf ctx) = []" and f: "ack_frame (bs @ t)" "bs \<noteq> []" "t \<noteq> []"
    and bs: "length bs \<le> 1024" and time: "elapsed_ms start now < tmo"
  shows "\<exists>c. recv_loop tmo start sz ctx fb ((now, Read_bytes bs) # evs) = Some (Returned ERROR_GENERAL c fb 0)"
proof -
  obtain c1 where c1: "recv_store ctx bs = Some c1" "ctx_inv c1" "rb_contents (rc_rbuf c1) = bs"
    using recv_store_ok [OF inv bs] bs empty by auto
  have "\<exists>c2. recv_parse c1 = Some (STATUS_ERROR, c2)"
    using recv_parse_acks [OF c1(2) _ _ partial_ack [OF f(1,3)], of "[]"] c1(3) by auto
  then show ?thesis using f(2) time c1(1) by auto
qed

subsection \<open>Sending with retries\<close>

lemma send_loop_spec:
  assumes "unat m < 2 ^ 32 - 1" and "unat r \<le> unat m + 1" and "unat m + 1 - unat r \<le> length ws"
  shows "\<exists>ret k. send_loop m n r ws = Some (ret, k, drop k ws) \<and> k \<le> unat m + 1 - unat r
     \<and> (if int (unat n) \<in> set (take (unat m + 1 - unat r) ws)
        then ret = SUCCESS \<and> 0 < k \<and> ws ! (k - 1) = int (unat n) \<and> int (unat n) \<notin> set (take (k - 1) ws)
        else ret = ERROR_GENERAL \<and> k = unat m + 1 - unat r)"
  using assms
proof (induction "unat m + 1 - unat r" arbitrary: r ws)
  case 0
  then have "\<not> r \<le> m" by (simp add: u32_le_nat)
  then show ?case using 0 by (subst send_loop.simps) simp
next
  case (Suc j)
  then have le: "r \<le> m" by (simp add: u32_le_nat)
  then have r1: "unat (r + 1) = unat r + 1" using Suc.prems(1) by (subst u32_add_nat) (simp_all add: u32_le_nat)
  obtain w ws' where ws: "ws = w # ws'" using Suc.hyps(2) Suc.prems(3) by (cases ws) auto
  have j: "j = unat m + 1 - unat (r + 1)" using Suc.hyps(2) r1 by simp
  show ?case
  proof (cases "w = int (unat n)")
    case True
    then have "send_loop m n r ws = Some (SUCCESS, 1, drop 1 ws)" using le ws by (subst send_loop.simps) simp
    then show ?thesis using True ws Suc.hyps(2) [symmetric] by auto
  next
    case False
    have pre: "unat (r + 1) \<le> unat m + 1" "unat m + 1 - unat (r + 1) \<le> length ws'"
      using le r1 Suc.prems(3) ws by (simp_all add: u32_le_nat)
    obtain ret k where k: "send_loop m n (r + 1) ws' = Some (ret, k, drop k ws')" "k \<le> j"
        "if int (unat n) \<in> set (take j ws')
         then ret = SUCCESS \<and> 0 < k \<and> ws' ! (k - 1) = int (unat n) \<and> int (unat n) \<notin> set (take (k - 1) ws')
         else ret = ERROR_GENERAL \<and> k = j"
      using Suc.hyps(1) [OF j Suc.prems(1) pre] unfolding j [symmetric] by blast
    have "send_loop m n r ws = Some (ret, k + 1, drop (k + 1) ws)"
      using le ws False k(1) by (subst send_loop.simps) simp
    then show ?thesis
      using k(2,3) ws False Suc.hyps(2) [symmetric] by (cases k) (auto split: if_splits)
  qed
qed

subsection \<open>Properties\<close>

definition client_example :: uart_rs422_client where
  "client_example = (fst (snd (uart_rs422_init ''/dev/ttyAMA2'')))\<lparr>uc_fd := 3, uc_is_open := True\<rparr>"

definition ack_example :: "u8 \<Rightarrow> bytes" where
  "ack_example r = rs422_frame RS422_SYNC_WORD_ACK RS422_APID_CONTROL 0xC000 RS422_CMD_DATA_ACK [r]"

lemma ack_example_ok: "ack_frame (ack_example r)" "length (ack_example r) = 13"
  by (auto simp: ack_frame_def ack_example_def)

lemma client_example_simps: "uc_is_open client_example" "uc_timeout_ms client_example = 5000"
    "uc_max_retries client_example = 3" "uc_fd client_example = 3"
  by (simp_all add: client_example_def uart_rs422_init_def)

text \<open>Receiving is safe on every line. Whatever bytes arrive and whatever errors and timeouts the
  kernel reports, the receive loop never leaves a buffer, keeps the context consistent, and when
  it returns SUCCESS the buffer of the caller holds a frame that fits, is between 10 and 2048
  bytes long and ends with its checksum; otherwise the length is 0.\<close>

theorem uart_recv_safe:
  assumes "ctx_inv ctx" and "uc_is_open client" and "list_all event_ok evs" and "unat sz \<le> length fb"
  shows "\<exists>res. uart_rs422_recv_frame client ctx fb sz n0 start evs = Some res \<and> outcome_ok (unat sz) (length fb) res"
  using recv_loop_safe [OF ctx_inv_ready [OF assms(1)] assms(3,4)] assms(2) by (simp add: uart_rs422_recv_frame_def)

theorem uart_recv_safe_witness:
  "\<exists>res. uart_rs422_recv_frame client_example uart_recv_context_init (replicate 64 0) 64 0 (0, 0)
       [((0, 0), Read_bytes [0x1a, 0xcf, 7]), ((1, 0), Read_bytes [1, 2])] = Some res
     \<and> outcome_ok (unat (64 :: u32)) (length (replicate 64 (0 :: u8))) res"
  by (rule uart_recv_safe) (simp_all add: ctx_inv_init client_example_simps event_ok_def)

lemma send_and_wait_burst:
  assumes "ctx_inv ctx" and "uc_is_open client" and "0 \<le> uc_fd client" and "n \<noteq> 0"
    and "list_all ack_frame fs" and "fs = fs0 @ [rs422_frame RS422_SYNC_WORD_ACK pid sc w d]"
    and "length (concat fs) \<le> 1024" and "elapsed_ms start now < uc_timeout_ms client"
    and "12 + length d \<le> unat sz" and "unat sz \<le> length fb" and "cmd \<noteq> 0"
  shows "\<exists>c fb' l. uart_rs422_send_and_wait client ctx n fb sz n0 cmd (int (unat n) # ws) start
         ((now, Read_bytes (concat fs)) # evs)
       = Some (Returned (if w = cmd then SUCCESS else ERROR_GENERAL) c fb' l)
     \<and> unat l = 12 + length d \<and> take (unat l) fb' = rs422_frame RS422_SYNC_WORD_ACK pid sc w d \<and> ctx_inv c"
proof -
  let ?f = "rs422_frame RS422_SYNC_WORD_ACK pid sc w d"
  let ?c = "ctx\<lparr>rc_rbuf := rBufClear (rc_rbuf ctx), rc_frame_ready := 0, rc_received_frame_len := 0\<rparr>"
  have rc: "rb_inv (rBufClear (rc_rbuf ctx))" "rb_contents (rBufClear (rc_rbuf ctx)) = []"
    using rBufClear_inv [OF ctx_invD(2) [OF assms(1)]] by auto
  then have inv: "ctx_inv ?c" using assms(1) by (simp add: ctx_inv_def ctx_frame_def rBufClear_def)
  have disc: "uart_rs422_discard_pending client ctx = (SUCCESS, ?c)"
    using assms(2,3) by (simp add: uart_rs422_discard_pending_def)
  have send: "uart_rs422_send_frame client n (int (unat n) # ws) = Some (SUCCESS, 1, ws)"
    using assms(2,4) by (simp add: uart_rs422_send_frame_def send_loop.simps u32_le_nat)
  have ne: "fs \<noteq> []" "last fs = ?f" "length (last fs) \<le> unat sz" using assms(6,9) by simp_all
  have rdy: "?c\<lparr>rc_frame_ready := 0\<rparr> = ?c" by simp
  let ?l = "of_nat (12 + length d) :: u32"
  obtain c where recv: "uart_rs422_recv_frame client ?c fb sz n0 start ((now, Read_bytes (concat fs)) # evs)
       = Some (Returned SUCCESS c (?f @ drop (12 + length d) fb) ?l)" "ctx_inv c"
    using recv_loop_burst [OF inv _ assms(5) ne(1) assms(7,8) ne(3) assms(10), of evs] rc(2) assms(2) ne(2)
    unfolding uart_rs422_recv_frame_def rdy by auto
  have "ack_frame ?f" using assms(5,6) by simp
  then have ld: "length d \<le> 2036" by (simp add: ack_frame_def)
  then have l: "unat ?l = 12 + length d" by (intro u32_of_nat) simp
  let ?o = "\<lparr>ro_apid = 0, ro_cmd_code = 0, ro_payload = [], ro_payload_len = 0\<rparr> :: rs422_out"
  have dec: "\<exists>out. rs422_decode_frame (?f @ drop (12 + length d) fb) ?l ?o = Some (SUCCESS, out) \<and> ro_cmd_code out = w"
    using rs422_decode_ok [of d ?l pid sc w "drop (12 + length d) fb" ?o] ld l by simp
  have "uart_rs422_send_and_wait client ctx n fb sz n0 cmd (int (unat n) # ws) start ((now, Read_bytes (concat fs)) # evs)
      = Some (Returned (if w = cmd then SUCCESS else ERROR_GENERAL) c (?f @ drop (12 + length d) fb) ?l)"
    unfolding uart_rs422_send_and_wait_def Let_def disc snd_conv send bind.simps prod.case recv(1)
    using dec assms(11) by auto
  then show ?thesis using recv(2) l by auto
qed

text \<open>A command is answered by its own reply. If the write succeeds and the replies that arrive in
  the next read are acknowledge frames, the exchange returns the last of them with SUCCESS when
  its command is the expected one and ERROR\_GENERAL otherwise, and nothing left over in the ring
  or in the frame slot from earlier exchanges has any influence.\<close>

theorem send_and_wait_reply:
  assumes "ctx_inv ctx" and "uc_is_open client" and "0 \<le> uc_fd client" and "n \<noteq> 0"
    and "list_all ack_frame fs" and "fs = fs0 @ [rs422_frame RS422_SYNC_WORD_ACK pid sc w d]"
    and "length (concat fs) \<le> 1024" and "elapsed_ms start now < uc_timeout_ms client"
    and "12 + length d \<le> unat sz" and "unat sz \<le> length fb" and "cmd \<noteq> 0"
  shows "\<exists>c fb' l. uart_rs422_send_and_wait client ctx n fb sz n0 cmd (int (unat n) # ws) start
         ((now, Read_bytes (concat fs)) # evs)
       = Some (Returned (if w = cmd then SUCCESS else ERROR_GENERAL) c fb' l)
     \<and> unat l = 12 + length d \<and> take (unat l) fb' = rs422_frame RS422_SYNC_WORD_ACK pid sc w d \<and> ctx_inv c"
  using send_and_wait_burst [OF assms] .

theorem send_and_wait_reply_witness:
  "\<exists>c fb' l. uart_rs422_send_and_wait client_example uart_recv_context_init 20 (replicate 64 0) 64 0 RS422_CMD_DATA_ACK
         (int (unat (20 :: u32)) # []) (0, 0) [((0, 0), Read_bytes (concat [ack_example 1, ack_example 0]))]
       = Some (Returned (if RS422_CMD_DATA_ACK = RS422_CMD_DATA_ACK then SUCCESS else ERROR_GENERAL) c fb' l)
     \<and> unat l = 12 + length [0 :: u8]
     \<and> take (unat l) fb' = rs422_frame RS422_SYNC_WORD_ACK RS422_APID_CONTROL 0xC000 RS422_CMD_DATA_ACK [0] \<and> ctx_inv c"
  by (rule send_and_wait_reply [where fs = "[ack_example 1, ack_example 0]" and ?fs0.0 = "[ack_example 1]"])
     (simp_all add: ctx_inv_init client_example_simps ack_example_ok elapsed_ms_def ack_example_def [of 0]
       ack_example_ok(1) [of 0, unfolded ack_example_def])

text \<open>A reply that arrives in two reads is not received. When the first read brings only a part of
  an acknowledge frame, the receive returns ERROR\_GENERAL at once, with time left, because the
  packet finder reports an incomplete packet as ERROR; the rest of the frame is never waited
  for.\<close>

theorem split_reply_fails:
  assumes "ctx_inv ctx" and "rb_contents (rc_rbuf ctx) = []" and "uc_is_open client"
    and "ack_frame (bs @ t)" and "bs \<noteq> []" and "t \<noteq> []" and "length bs \<le> 1024"
    and "elapsed_ms start now < uc_timeout_ms client"
  shows "\<exists>c. uart_rs422_recv_frame client ctx fb sz n0 start ((now, Read_bytes bs) # (later, Read_bytes t) # evs)
     = Some (Returned ERROR_GENERAL c fb 0)"
  using recv_loop_part [OF ctx_inv_ready [OF assms(1)] _ assms(4-8)] assms(2,3) by (simp add: uart_rs422_recv_frame_def)

theorem split_reply_fails_witness:
  "\<exists>c. uart_rs422_recv_frame client_example uart_recv_context_init (replicate 64 0) 64 0 (0, 0)
       (((0, 0), Read_bytes (take 5 (ack_example 0))) # ((0, 1000), Read_bytes (drop 5 (ack_example 0))) # [])
     = Some (Returned ERROR_GENERAL c (replicate 64 0) 0)"
proof (rule split_reply_fails [OF ctx_inv_init])
  show "rb_contents (rc_rbuf uart_recv_context_init) = []"
    by (simp add: uart_recv_context_init_def rBufInit_def rb_contents_def ring_view_def)
qed (use ack_example_ok [of 0] in \<open>auto simp: client_example_simps elapsed_ms_def\<close>)

text \<open>Sending tries at most \<open>max_retries + 1\<close> times: if one of these writes takes the whole frame the
  call returns SUCCESS after the first such write, and otherwise it returns ERROR\_GENERAL after
  exactly that many writes. (A limit of $2^{32}-1$ would never run out.)\<close>

theorem send_frame_retries:
  assumes "uc_is_open client" and "n \<noteq> 0" and "unat (uc_max_retries client) < 2 ^ 32 - 1"
    and "unat (uc_max_retries client) < length ws"
  shows "\<exists>ret k. uart_rs422_send_frame client n ws = Some (ret, k, drop k ws) \<and> k \<le> unat (uc_max_retries client) + 1
     \<and> (if int (unat n) \<in> set (take (unat (uc_max_retries client) + 1) ws)
        then ret = SUCCESS \<and> 0 < k \<and> ws ! (k - 1) = int (unat n) \<and> int (unat n) \<notin> set (take (k - 1) ws)
        else ret = ERROR_GENERAL \<and> k = unat (uc_max_retries client) + 1)"
proof -
  have eq: "uart_rs422_send_frame client n ws = send_loop (uc_max_retries client) n 0 ws"
    using assms(1,2) by (simp add: uart_rs422_send_frame_def)
  have "unat (0 :: u32) \<le> unat (uc_max_retries client) + 1" "unat (uc_max_retries client) + 1 - unat (0 :: u32) \<le> length ws"
    using assms(4) by simp_all
  note spec = send_loop_spec [OF assms(3) this, of n]
  show ?thesis unfolding eq using spec unfolding unsigned_0 minus_nat.diff_0 by blast
qed

theorem send_frame_retries_witness:
  "\<exists>ret k. uart_rs422_send_frame client_example 20 [- 1, 7, 20, 20] = Some (ret, k, drop k [- 1, 7, 20, 20]) \<and> ret = SUCCESS
     \<and> ([- 1, 7, 20, 20] :: int list) ! (k - 1) = 20"
  using send_frame_retries [of client_example 20 "[- 1, 7, 20, 20]"] by (auto simp: client_example_simps)

end
