(* ===== verification/ShellUtil.thy ===== *)
theory ShellUtil
  imports Prelude
begin

text \<open>
  The helpers of shell_util.c that guard file names and command output: the capture loop of
  \<open>shell_run\<close>, and the checks on names, relative paths and archive members that come from outside.
  A C string is the list of its characters before the terminating NUL.
\<close>

subsection \<open>Capturing the output of a command\<close>

text \<open>What the successive reads of the pipe give; the end of the list is the end of the file. A read
  returns at most as many characters as it is offered room for.\<close>

datatype pipe_read = Pipe_intr | Pipe_error | Pipe_data string

definition read_cap :: "nat \<Rightarrow> nat \<Rightarrow> nat" where
  "read_cap out_size used = (if used < out_size - 1 then out_size - 1 - used else 256)"

fun capture_loop :: "nat \<Rightarrow> string \<Rightarrow> pipe_read list \<Rightarrow> string option" where
  "capture_loop out_size out [] = Some out"
| "capture_loop out_size out (Pipe_intr # rs) = capture_loop out_size out rs"
| "capture_loop out_size out (Pipe_error # rs) = Some out"
| "capture_loop out_size out (Pipe_data cs # rs) =
     (if cs = [] then Some out
      else if read_cap out_size (length out) < length cs then None
      else if length out < out_size - 1 then capture_loop out_size (out @ cs) rs
      else capture_loop out_size out rs)"

text \<open>The parent's part of \<open>shell_run\<close>, once pipe and fork have succeeded: the text captured and the
  status that \<open>waitpid\<close> reports.\<close>

definition shell_run :: "string list \<Rightarrow> nat \<Rightarrow> pipe_read list \<Rightarrow> int \<Rightarrow> (int \<times> string) option" where
  "shell_run argv out_size reads status =
     (if argv = [] \<or> out_size = 0 then Some (- 1, [])
      else do { out \<leftarrow> capture_loop out_size [] reads; Some (status, out) })"

subsection \<open>Names and paths\<close>

abbreviation ch :: "char \<Rightarrow> nat" where "ch c \<equiv> of_char c"

definition name_char :: "char \<Rightarrow> bool" where
  "name_char c \<longleftrightarrow> (ch (CHR ''A'') \<le> ch c \<and> ch c \<le> ch (CHR ''Z''))
     \<or> (ch (CHR ''a'') \<le> ch c \<and> ch c \<le> ch (CHR ''z''))
     \<or> (ch (CHR ''0'') \<le> ch c \<and> ch c \<le> ch (CHR ''9''))
     \<or> c = CHR ''.'' \<or> c = CHR ''_'' \<or> c = CHR ''-''"

definition shell_safe_name :: "string \<Rightarrow> bool" where
  "shell_safe_name name =
     (if name = [] then False
      else if length name > 255 then False
      else if \<not> list_all name_char name then False
      else if name = ''.'' \<or> name = ''..'' then False
      else True)"

definition control_char :: "char \<Rightarrow> bool" where
  "control_char c \<longleftrightarrow> ch c < 0x20 \<or> ch c = 0x7f"

text \<open>The loop over the segments: \<open>True\<close> when it ends without meeting a segment \<open>..\<close>.\<close>

function segments_ok :: "string \<Rightarrow> bool" where
  "segments_ok p =
     (if p = [] then True
      else let seg = takeWhile (\<lambda>c. c \<noteq> CHR ''/'') p; rest = dropWhile (\<lambda>c. c \<noteq> CHR ''/'') p
      in if length seg = 2 \<and> p ! 0 = CHR ''.'' \<and> p ! 1 = CHR ''.'' then False
      else if rest = [] then True
      else segments_ok (tl rest))"
  by pat_completeness auto
termination
proof (relation "measure length")
  fix p :: string and x xa
  assume "p \<noteq> []" "xa = dropWhile (\<lambda>c. c \<noteq> CHR ''/'') p" "xa \<noteq> []"
  then have "length xa \<le> length p" "length (tl xa) < length xa"
    using length_dropWhile_le [of "\<lambda>c. c \<noteq> CHR ''/''" p] by (cases xa; simp)+
  then show "(tl xa, p) \<in> measure length" by simp
qed simp

declare segments_ok.simps [simp del]

definition shell_safe_relpath :: "string \<Rightarrow> bool" where
  "shell_safe_relpath path =
     (if path = [] then False
      else if length path > 255 then False
      else if list_ex control_char path then False
      else segments_ok path)"

definition shell_safe_tar_member :: "string \<Rightarrow> bool" where
  "shell_safe_tar_member member =
     (if member = [] then False
      else if member ! 0 = CHR ''/'' then False
      else if length member > 255 then False
      else if list_ex control_char member then False
      else segments_ok member)"

subsection \<open>What the capture keeps\<close>

fun pipe_output :: "pipe_read list \<Rightarrow> string" where
  "pipe_output [] = []"
| "pipe_output (Pipe_intr # rs) = pipe_output rs"
| "pipe_output (Pipe_error # rs) = []"
| "pipe_output (Pipe_data cs # rs) = (if cs = [] then [] else cs @ pipe_output rs)"

lemma capture_loop_take:
  "capture_loop n out reads = Some out' \<Longrightarrow> length out \<le> n - 1 \<Longrightarrow> out' = take (n - 1) (out @ pipe_output reads)"
proof (induction n out reads rule: capture_loop.induct)
  case (4 n out cs rs)
  show ?case
  proof (cases "cs = []")
    case False
    then have cap: "length cs \<le> read_cap n (length out)" using "4.prems" by (auto split: if_splits)
    show ?thesis
    proof (cases "length out < n - 1")
      case True
      then have "length (out @ cs) \<le> n - 1" using cap by (simp add: read_cap_def)
      then show ?thesis using "4.IH"(1) "4.prems" False True cap by (simp add: not_less)
    next
      case full: False
      then have "length out = n - 1" using "4.prems" by simp
      then show ?thesis using "4.IH"(2) "4.prems" False full cap by (simp add: not_less)
    qed
  qed (use 4 in simp)
qed auto

subsection \<open>Segments\<close>

fun split_path :: "string \<Rightarrow> string list" where
  "split_path [] = [[]]"
| "split_path (c # cs) =
     (if c = CHR ''/'' then [] # split_path cs
      else case split_path cs of [] \<Rightarrow> [[c]] | s # ss \<Rightarrow> (c # s) # ss)"

lemma split_path_nonempty: "split_path p \<noteq> []"
  by (induction p) (auto split: list.splits)

lemma split_path_while:
  "split_path p = takeWhile (\<lambda>c. c \<noteq> CHR ''/'') p #
     (case dropWhile (\<lambda>c. c \<noteq> CHR ''/'') p of [] \<Rightarrow> [] | c # cs \<Rightarrow> split_path cs)"
  by (induction p) (auto split: list.splits)

lemma dotdot_iff:
  "length (takeWhile (\<lambda>c. c \<noteq> CHR ''/'') p) = 2 \<and> p ! 0 = CHR ''.'' \<and> p ! 1 = CHR ''.'' \<longleftrightarrow>
     takeWhile (\<lambda>c. c \<noteq> CHR ''/'') p = ''..''"
proof -
  let ?s = "takeWhile (\<lambda>c. c \<noteq> CHR ''/'') p"
  have nth: "i < length ?s \<Longrightarrow> ?s ! i = p ! i" for i by (rule takeWhile_nth)
  show ?thesis
  proof
    assume a: "length ?s = 2 \<and> p ! 0 = CHR ''.'' \<and> p ! 1 = CHR ''.''"
    then obtain x y where s: "?s = [x, y]" by (auto simp: length_Suc_conv numeral_2_eq_2)
    then show "?s = ''..''" using nth [of 0] nth [of 1] a by simp
  next
    assume s: "?s = ''..''"
    then show "length ?s = 2 \<and> p ! 0 = CHR ''.'' \<and> p ! 1 = CHR ''.''" using nth [of 0] nth [of 1] by simp
  qed
qed

lemma segments_ok_step:
  assumes "p \<noteq> []"
  shows "segments_ok p \<longleftrightarrow> takeWhile (\<lambda>c. c \<noteq> CHR ''/'') p \<noteq> ''..''
     \<and> (case dropWhile (\<lambda>c. c \<noteq> CHR ''/'') p of [] \<Rightarrow> True | c # cs \<Rightarrow> segments_ok cs)"
proof -
  let ?s = "takeWhile (\<lambda>c. c \<noteq> CHR ''/'') p" and ?r = "dropWhile (\<lambda>c. c \<noteq> CHR ''/'') p"
  have eq: "segments_ok p = (if ?s = ''..'' then False else if ?r = [] then True else segments_ok (tl ?r))"
    using assms by (subst segments_ok.simps) (simp only: Let_def dotdot_iff if_False)
  show ?thesis
    by (cases ?r) (simp_all only: eq list.case list.sel list.distinct if_True if_False split: if_split, simp_all)
qed

lemma segments_ok_split: "segments_ok p \<longleftrightarrow> ''..'' \<notin> set (split_path p)"
proof (induction "length p" arbitrary: p rule: less_induct)
  case less
  let ?r = "dropWhile (\<lambda>c. c \<noteq> CHR ''/'') p"
  show ?case
  proof (cases "p = []")
    case True
    then show ?thesis by (simp add: segments_ok.simps)
  next
    case ne: False
    have IH: "segments_ok cs \<longleftrightarrow> ''..'' \<notin> set (split_path cs)" if "?r = c # cs" for c cs
      using less [of cs] length_dropWhile_le [of "\<lambda>c. c \<noteq> CHR ''/''" p] that by simp
    show ?thesis
    proof (cases ?r)
      case Nil
      show ?thesis unfolding segments_ok_step [OF ne] split_path_while [of p] Nil by auto
    next
      case (Cons c cs)
      show ?thesis unfolding segments_ok_step [OF ne] split_path_while [of p] Cons list.case
        using IH [OF Cons] by auto
    qed
  qed
qed

text \<open>Following a path from a directory, given as the stack of the directories above it.\<close>

fun walk :: "string list \<Rightarrow> string list \<Rightarrow> string list" where
  "walk st [] = st"
| "walk st (s # ss) =
     (if s = [] \<or> s = ''.'' then walk st ss
      else if s = ''..'' then walk (tl st) ss
      else walk (s # st) ss)"

lemma walk_inside: "''..'' \<notin> set ss \<Longrightarrow> \<exists>below. walk st ss = below @ st"
proof (induction st ss rule: walk.induct)
  case (2 st s ss)
  then show ?case by (cases "s = [] \<or> s = ''.''") auto
qed simp

subsection \<open>Properties\<close>

text \<open>An accepted archive member or relative path stays inside the directory it is unpacked in:
  following it from any directory ends in that directory or below it, it is not empty, at most 255
  characters long and has no control characters; a member is moreover not absolute.\<close>

theorem safe_paths_stay_inside:
  assumes "shell_safe_tar_member p \<or> shell_safe_relpath p"
  shows "(\<exists>below. walk dir (split_path p) = below @ dir) \<and> p \<noteq> [] \<and> length p \<le> 255 \<and> \<not> list_ex control_char p"
  using assms walk_inside [of "split_path p" dir] segments_ok_split [of p]
  by (auto simp: shell_safe_tar_member_def shell_safe_relpath_def split: if_splits)

theorem safe_paths_stay_inside_witness:
  "(\<exists>below. walk [''v1''] (split_path ''a/b..c/d'') = below @ [''v1'']) \<and> ''a/b..c/d'' \<noteq> []
     \<and> length ''a/b..c/d'' \<le> 255 \<and> \<not> list_ex control_char ''a/b..c/d''"
  by (rule safe_paths_stay_inside) (simp add: shell_safe_tar_member_def control_char_def segments_ok_split)

text \<open>The path checks turn down only what they should: a relative path is accepted exactly when it
  is not empty, at most 255 characters long, without control characters, and none of its segments
  between slashes is \<open>..\<close>; an archive member additionally must not start with a slash.\<close>

theorem safe_relpath_exact:
  "(shell_safe_relpath p \<longleftrightarrow> p \<noteq> [] \<and> length p \<le> 255 \<and> \<not> list_ex control_char p \<and> ''..'' \<notin> set (split_path p))
   \<and> (shell_safe_tar_member p \<longleftrightarrow> p \<noteq> [] \<and> p ! 0 \<noteq> CHR ''/'' \<and> length p \<le> 255 \<and> \<not> list_ex control_char p
        \<and> ''..'' \<notin> set (split_path p))"
  by (auto simp: shell_safe_relpath_def shell_safe_tar_member_def segments_ok_split)

text \<open>The capture of a command's output never overruns its buffer and loses only what does not fit:
  the text is the first \<open>out_size - 1\<close> characters of what the command wrote.\<close>

theorem shell_run_captures:
  assumes "shell_run argv n reads status = Some (st, out)" and "argv \<noteq> []" and "0 < n"
  shows "out = take (n - 1) (pipe_output reads) \<and> length out < n \<and> st = status"
  using assms capture_loop_take [of n "[]" reads] by (auto simp: shell_run_def split: bind_splits)

theorem shell_run_captures_witness:
  "''abcd'' = take (5 - 1) (pipe_output [Pipe_data ''ab'', Pipe_intr, Pipe_data ''cd'', Pipe_data ''ef''])
     \<and> length ''abcd'' < 5 \<and> (0::int) = 0"
  by (rule shell_run_captures [where argv = "[''tar'']"]) (simp_all add: shell_run_def read_cap_def)

end
