(* ===== verification/FirmwarePackage.thy ===== *)
theory FirmwarePackage
  imports ShellUtil
begin

text \<open>
  The firmware package module of firmware_package.c: the kinds of FPGA, the parser of the
  metadata file of a package, and the integrity check of the firmware file. The file system is a
  parameter: \<open>fopen\<close> gives the contents of a file that can be opened, \<open>stat\<close> the size it reports.
  OpenSSL's SHA-256 is a parameter too: its initial context and its update and final functions.
\<close>

subsection \<open>Kinds of FPGA\<close>

datatype fpga_kind = FPGA_KIND_UNKNOWN | FPGA_KIND_V7A | FPGA_KIND_V7B | FPGA_KIND_SUBARRAY | FPGA_KIND_COUNT

definition firmware_fpga_kind :: "u8 \<Rightarrow> fpga_kind" where
  "firmware_fpga_kind file_sub_type =
     (if file_sub_type = 0x01 \<or> file_sub_type = 0x02 then FPGA_KIND_V7A
      else if file_sub_type = 0x13 \<or> file_sub_type = 0x14 then FPGA_KIND_V7B
      else if file_sub_type = 0x11 \<or> file_sub_type = 0x12 then FPGA_KIND_SUBARRAY
      else FPGA_KIND_UNKNOWN)"

definition firmware_fpga_kind_dir :: "fpga_kind \<Rightarrow> string option" where
  "firmware_fpga_kind_dir kind =
     (case kind of
        FPGA_KIND_V7A \<Rightarrow> Some ''v7a''
      | FPGA_KIND_V7B \<Rightarrow> Some ''v7b''
      | FPGA_KIND_SUBARRAY \<Rightarrow> Some ''subarray''
      | _ \<Rightarrow> None)"

subsection \<open>The C library\<close>

abbreviation newline :: char where "newline \<equiv> CHR 0x0A"

definition isspace :: "char \<Rightarrow> bool" where
  "isspace c \<longleftrightarrow> ch c = 32 \<or> (9 \<le> ch c \<and> ch c \<le> 13)"

text \<open>\<open>fgets\<close> with a buffer of \<open>n + 1\<close>: up to \<open>n\<close> characters, ending after a newline; and the lines
  that a loop over it sees.\<close>

definition fgets :: "nat \<Rightarrow> string \<Rightarrow> string" where
  "fgets n s =
     (let w = take n s; l = takeWhile (\<lambda>c. c \<noteq> newline) w
      in if l = w then w else l @ [newline])"

lemma fgets_progress: "s \<noteq> [] \<Longrightarrow> 0 < n \<Longrightarrow> fgets n s \<noteq> []"
  by (auto simp: fgets_def Let_def)

function fgets_all :: "nat \<Rightarrow> string \<Rightarrow> string list" where
  "fgets_all n s = (if s = [] \<or> n = 0 then [] else fgets n s # fgets_all n (drop (length (fgets n s)) s))"
  by pat_completeness auto
termination
  by (relation "measure (length \<circ> snd)") (auto simp: fgets_progress)

declare fgets_all.simps [simp del]

text \<open>A line as a C string ends at the first NUL.\<close>

definition cstr :: "string \<Rightarrow> string" where
  "cstr s = takeWhile (\<lambda>c. ch c \<noteq> 0) s"

text \<open>strtoul with base 0 on a 64-bit \<open>unsigned long\<close>: white space, a sign, a prefix that chooses
  the base, digits up to the first that is none; too large a value saturates.\<close>

definition digit_val :: "char \<Rightarrow> nat" where
  "digit_val c =
     (if ch (CHR ''0'') \<le> ch c \<and> ch c \<le> ch (CHR ''9'') then ch c - 48
      else if ch (CHR ''a'') \<le> ch c \<and> ch c \<le> ch (CHR ''z'') then ch c - 87
      else if ch (CHR ''A'') \<le> ch c \<and> ch c \<le> ch (CHR ''Z'') then ch c - 55
      else 255)"

definition digits_value :: "nat \<Rightarrow> string \<Rightarrow> nat" where
  "digits_value base s = foldl (\<lambda>v c. v * base + digit_val c) 0 (takeWhile (\<lambda>c. digit_val c < base) s)"

definition strtoul0 :: "string \<Rightarrow> u64" where
  "strtoul0 s =
     (let t = dropWhile isspace s;
          neg = (t \<noteq> [] \<and> hd t = CHR ''-'');
          u = (if t \<noteq> [] \<and> (hd t = CHR ''-'' \<or> hd t = CHR ''+'') then tl t else t);
          v = (case u of
                 z # x # d # r \<Rightarrow>
                   if z = CHR ''0'' \<and> (x = CHR ''x'' \<or> x = CHR ''X'') \<and> digit_val d < 16
                   then digits_value 16 (d # r)
                   else if z = CHR ''0'' then digits_value 8 u else digits_value 10 u
               | _ \<Rightarrow> if u \<noteq> [] \<and> hd u = CHR ''0'' then digits_value 8 u else digits_value 10 u);
          w = (if v < 2 ^ 64 then of_nat v else - 1)
      in if neg \<and> v < 2 ^ 64 then - w else w)"

subsection \<open>Metadata\<close>

record firmware_metadata =
  md_file_type :: u8
  md_file_sub_type :: u8
  md_sha256 :: string
  md_file_size :: u32
  md_version :: string
  md_bin_file_path :: string

definition trim_whitespace :: "string \<Rightarrow> string" where
  "trim_whitespace str =
     (let s = dropWhile isspace str
      in if s = [] then s else rev (dropWhile isspace (rev s)))"

text \<open>The state of the line loop: the record, the file name and the number of fields found.\<close>

definition parse_field :: "string \<Rightarrow> string \<Rightarrow> firmware_metadata \<times> string \<times> int \<Rightarrow> firmware_metadata \<times> string \<times> int" where
  "parse_field key value st =
     (case st of (metadata, bin_filename, fields_found) \<Rightarrow>
        if key = ''file_type'' then (metadata\<lparr>md_file_type := ucast (strtoul0 value)\<rparr>, bin_filename, fields_found + 1)
        else if key = ''file_sub_type''
        then (metadata\<lparr>md_file_sub_type := ucast (strtoul0 value)\<rparr>, bin_filename, fields_found + 1)
        else if key = ''sha256'' then (metadata\<lparr>md_sha256 := take 64 value\<rparr>, bin_filename, fields_found + 1)
        else if key = ''version'' then (metadata\<lparr>md_version := take 39 value\<rparr>, bin_filename, fields_found + 1)
        else if key = ''bin_file'' then (metadata, take 255 value, fields_found + 1)
        else (metadata, bin_filename, fields_found))"

definition parse_line :: "string \<Rightarrow> firmware_metadata \<times> string \<times> int \<Rightarrow> firmware_metadata \<times> string \<times> int" where
  "parse_line line st =
     (let trimmed = trim_whitespace (cstr line)
      in if trimmed = [] \<or> hd trimmed = CHR ''#'' then st
      else let before = takeWhile (\<lambda>c. c \<noteq> CHR ''='') trimmed; rest = dropWhile (\<lambda>c. c \<noteq> CHR ''='') trimmed
      in if rest = [] then st
      else parse_field (trim_whitespace before) (trim_whitespace (tl rest)) st)"

definition firmware_get_file_size :: "(string \<Rightarrow> int option) \<Rightarrow> string \<Rightarrow> u32 \<Rightarrow> int \<times> u32" where
  "firmware_get_file_size stat bin_file_path file_size =
     (case stat bin_file_path of
        None \<Rightarrow> (ERROR_GENERAL, file_size)
      | Some n \<Rightarrow> (SUCCESS, of_int n))"

definition metadata_zero :: firmware_metadata where
  "metadata_zero = \<lparr>md_file_type = 0, md_file_sub_type = 0, md_sha256 = [], md_file_size = 0, md_version = [],
     md_bin_file_path = []\<rparr>"

definition firmware_parse_metadata ::
  "(string \<Rightarrow> string option) \<Rightarrow> (string \<Rightarrow> int option) \<Rightarrow> string \<Rightarrow> int \<times> firmware_metadata" where
  "firmware_parse_metadata fopen stat version_dir =
     (case fopen (take 511 (version_dir @ ''/metadata.txt'')) of
        None \<Rightarrow> (ERROR_GENERAL, metadata_zero)
      | Some text \<Rightarrow>
          (case foldl (\<lambda>st line. parse_line line st) (metadata_zero, [], 0) (fgets_all 511 text) of
             (metadata, bin_filename, fields_found) \<Rightarrow>
               if fields_found < 5 then (ERROR_GENERAL, metadata)
               else if \<not> shell_safe_name bin_filename then (ERROR_GENERAL, metadata)
               else let path = take 255 (version_dir @ ''/'' @ bin_filename);
                        (ret, sz) = firmware_get_file_size stat path (md_file_size metadata);
                        m = metadata\<lparr>md_bin_file_path := path, md_file_size := sz\<rparr>
                    in if ret \<noteq> SUCCESS then (ret, m) else (SUCCESS, m)))"

subsection \<open>Integrity\<close>

function chunks :: "bytes \<Rightarrow> bytes list" where
  "chunks d = (if d = [] then [] else take 8192 d # chunks (drop 8192 d))"
  by pat_completeness auto
termination
  by (relation "measure length") auto

declare chunks.simps [simp del]

definition hex_digit :: "nat \<Rightarrow> char" where
  "hex_digit n = ''0123456789abcdef'' ! n"

definition hex_byte :: "u8 \<Rightarrow> string" where
  "hex_byte b = [hex_digit (unat b div 16), hex_digit (unat b mod 16)]"

definition tolower :: "char \<Rightarrow> char" where
  "tolower c = (if 65 \<le> ch c \<and> ch c \<le> 90 then char_of (ch c + 32) else c)"

definition firmware_verify_integrity ::
  "'c \<Rightarrow> ('c \<Rightarrow> bytes \<Rightarrow> 'c) \<Rightarrow> ('c \<Rightarrow> bytes) \<Rightarrow> (string \<Rightarrow> bytes option) \<Rightarrow> string \<Rightarrow> string \<Rightarrow> int" where
  "firmware_verify_integrity sha_init sha_update sha_final fopen bin_file_path expected_sha256 =
     (case fopen bin_file_path of
        None \<Rightarrow> ERROR_GENERAL
      | Some d \<Rightarrow>
          let ctx = foldl sha_update sha_init (chunks d);
              calculated = concat (map hex_byte (take 32 (sha_final ctx)))
          in if map tolower calculated \<noteq> map tolower expected_sha256 then ERROR_GENERAL else SUCCESS)"

subsection \<open>Lines\<close>

lemma fgets_newline:
  assumes "newline \<notin> set l" and "length l < n"
  shows "fgets n (l @ newline # rest) = l @ [newline]"
proof -
  have w: "take n (l @ newline # rest) = l @ newline # take (n - 1 - length l) rest"
    using assms(2) by (simp add: take_Cons')
  have t: "takeWhile (\<lambda>c. c \<noteq> newline) (l @ newline # take (n - 1 - length l) rest) = l"
    using assms(1) by (subst takeWhile_append2) auto
  show ?thesis unfolding fgets_def w Let_def t by simp
qed

lemma fgets_all_lines:
  "list_all (\<lambda>l. newline \<notin> set l \<and> length l < n) ls \<Longrightarrow>
     fgets_all n (concat (map (\<lambda>l. l @ [newline]) ls)) = map (\<lambda>l. l @ [newline]) ls"
proof (induction ls)
  case Nil
  then show ?case by (simp add: fgets_all.simps)
next
  case (Cons l ls)
  let ?r = "concat (map (\<lambda>l. l @ [newline]) ls)"
  have g: "fgets n (l @ newline # ?r) = l @ [newline]" "0 < n" using Cons.prems by (auto intro: fgets_newline)
  have "fgets_all n (l @ newline # ?r) = (l @ [newline]) # fgets_all n ?r"
    using g(2) by (subst fgets_all.simps) (simp add: g(1))
  then show ?case using Cons by simp
qed

text \<open>Text that white space does not touch.\<close>

definition clean :: "string \<Rightarrow> bool" where
  "clean v \<longleftrightarrow> v \<noteq> [] \<and> \<not> isspace (hd v) \<and> \<not> isspace (last v) \<and> newline \<notin> set v \<and> list_all (\<lambda>c. ch c \<noteq> 0) v"

lemma trim_clean:
  assumes "clean v" and "list_all isspace ws"
  shows "trim_whitespace (v @ ws) = v"
proof -
  have v: "v \<noteq> []" "\<not> isspace (hd v)" "\<not> isspace (last v)" using assms(1) by (auto simp: clean_def)
  have 1: "dropWhile isspace (v @ ws) = v @ ws" using v by (cases v) auto
  have "dropWhile isspace (rev ws @ rev v) = dropWhile isspace (rev v)"
    using assms(2) by (intro dropWhile_append2) (simp add: list_all_iff)
  also have "\<dots> = rev v" using v by (cases v rule: rev_cases) auto
  finally show ?thesis using v by (simp add: trim_whitespace_def 1)
qed

lemma isspace_newline: "isspace newline" by (simp add: isspace_def)

definition field_line :: "string \<Rightarrow> string \<Rightarrow> string" where
  "field_line k v = k @ CHR ''='' # v"

lemma parse_field_line:
  assumes k: "clean k" "CHR ''='' \<notin> set k" "hd k \<noteq> CHR ''#''" and v: "clean v"
  shows "parse_line (field_line k v @ [newline]) st = parse_field k v st"
proof -
  let ?l = "field_line k v"
  have kv: "k \<noteq> []" "v \<noteq> []" using k(1) v by (auto simp: clean_def)
  have cl: "clean ?l"
    using k(1) v kv by (auto simp: clean_def field_line_def)
  have "list_all (\<lambda>c. ch c \<noteq> 0) (?l @ [newline])" using cl by (simp add: clean_def)
  then have "cstr (?l @ [newline]) = ?l @ [newline]"
    unfolding cstr_def by (auto simp: list_all_iff takeWhile_eq_all_conv)
  then have t: "trim_whitespace (cstr (?l @ [newline])) = ?l"
    using trim_clean [OF cl, of "[newline]"] isspace_newline by simp
  have h: "?l \<noteq> []" "hd ?l \<noteq> CHR ''#''" using kv(1) k(3) by (simp_all add: field_line_def)
  have tw: "takeWhile (\<lambda>c. c \<noteq> CHR ''='') ?l = k"
    using k(2) unfolding field_line_def by (subst takeWhile_append2) auto
  have dw: "dropWhile (\<lambda>c. c \<noteq> CHR ''='') ?l = CHR ''='' # v"
    using k(2) unfolding field_line_def by (subst dropWhile_append2) auto
  show ?thesis
    using h trim_clean [OF k(1), of "[]"] trim_clean [OF v, of "[]"] by (simp add: parse_line_def Let_def t tw dw)
qed

lemma keys_clean: "k \<in> {''file_type'', ''file_sub_type'', ''sha256'', ''version'', ''bin_file''} \<Longrightarrow>
    clean k \<and> CHR ''='' \<notin> set k \<and> hd k \<noteq> CHR ''#''"
  by (auto simp: clean_def isspace_def)

lemma parse_key_line:
  "k \<in> {''file_type'', ''file_sub_type'', ''sha256'', ''version'', ''bin_file''} \<Longrightarrow> clean v \<Longrightarrow>
     parse_line (field_line k v @ [newline]) st = parse_field k v st"
  using keys_clean [of k] by (intro parse_field_line) auto

text \<open>A metadata file with one line for each field.\<close>

definition metadata_text :: "string \<Rightarrow> string \<Rightarrow> string \<Rightarrow> string \<Rightarrow> string \<Rightarrow> string" where
  "metadata_text ft sub sha ver bin = concat (map (\<lambda>l. l @ [newline])
     [field_line ''file_type'' ft, field_line ''file_sub_type'' sub, field_line ''sha256'' sha,
      field_line ''version'' ver, field_line ''bin_file'' bin])"

lemma parse_metadata_text:
  assumes "list_all clean [ft, sub, sha, ver, bin]" and "list_all (\<lambda>v. length v \<le> 255) [ft, sub, sha, ver, bin]"
  shows "foldl (\<lambda>st line. parse_line line st) (metadata_zero, [], 0) (fgets_all 511 (metadata_text ft sub sha ver bin)) =
     (metadata_zero\<lparr>md_file_type := ucast (strtoul0 ft), md_file_sub_type := ucast (strtoul0 sub),
        md_sha256 := take 64 sha, md_version := take 39 ver\<rparr>, bin, 5)"
proof -
  have nl: "newline \<notin> set (field_line k v) \<and> length (field_line k v) < 511"
    if "k \<in> {''file_type'', ''file_sub_type'', ''sha256'', ''version'', ''bin_file''}" "clean v" "length v \<le> 255" for k v
    using that keys_clean [OF that(1)] by (auto simp: field_line_def clean_def)
  have ls: "list_all (\<lambda>l. newline \<notin> set l \<and> length l < 511)
     [field_line ''file_type'' ft, field_line ''file_sub_type'' sub, field_line ''sha256'' sha,
      field_line ''version'' ver, field_line ''bin_file'' bin]"
    using assms by (simp add: nl)
  show ?thesis
    unfolding metadata_text_def fgets_all_lines [OF ls]
    using assms by (simp add: parse_key_line parse_field_def)
qed

subsection \<open>Chunks\<close>

lemma concat_chunks: "concat (chunks d) = d"
  by (induction d rule: chunks.induct) (subst chunks.simps, simp)

lemma foldl_update:
  assumes "\<And>c. upd c [] = c" and "\<And>c a b. upd (upd c a) b = upd c (a @ b)"
  shows "foldl upd c ds = upd c (concat ds)"
  using assms by (induction ds arbitrary: c) simp_all

text \<open>Bounds that every line keeps.\<close>

definition fields_bounded :: "firmware_metadata \<times> string \<times> int \<Rightarrow> bool" where
  "fields_bounded st \<longleftrightarrow> (case st of (m, b, n) \<Rightarrow> length (md_sha256 m) \<le> 64 \<and> length (md_version m) \<le> 39 \<and> length b \<le> 255)"

lemma parse_line_bounded: "fields_bounded st \<Longrightarrow> fields_bounded (parse_line line st)"
  by (cases st) (simp add: parse_line_def Let_def parse_field_def fields_bounded_def)

lemma parse_lines_bounded: "fields_bounded st \<Longrightarrow> fields_bounded (foldl (\<lambda>st line. parse_line line st) st ls)"
  by (induction ls arbitrary: st) (simp_all add: parse_line_bounded)

lemma safe_name_no_slash: "shell_safe_name name \<Longrightarrow> CHR ''/'' \<notin> set name \<and> name \<noteq> ''..'' \<and> name \<noteq> []"
  by (auto simp: shell_safe_name_def list_all_iff name_char_def split: if_splits)

subsection \<open>Properties\<close>

text \<open>Metadata cannot point outside its package. Whatever the metadata file contains, when the
  parser succeeds the firmware path is the version directory, a slash and a name without any slash
  that is not \<open>..\<close>, cut to 255 characters, the size is the one reported for that path, and the
  digest and the version fit their fields.\<close>

theorem metadata_path_confined:
  assumes "firmware_parse_metadata fopen stat dir = (SUCCESS, m)"
  shows "\<exists>name n. shell_safe_name name \<and> CHR ''/'' \<notin> set name \<and> name \<noteq> ''..'' \<and> name \<noteq> []
     \<and> md_bin_file_path m = take 255 (dir @ ''/'' @ name) \<and> stat (md_bin_file_path m) = Some n
     \<and> md_file_size m = of_int n \<and> length (md_sha256 m) \<le> 64 \<and> length (md_version m) \<le> 39"
proof -
  obtain content where t: "fopen (take 511 (dir @ ''/metadata.txt'')) = Some content"
    using assms by (auto simp: firmware_parse_metadata_def split: option.splits)
  obtain m0 b k where st: "foldl (\<lambda>st line. parse_line line st) (metadata_zero, [], 0) (fgets_all 511 content) = (m0, b, k)"
    by (rule prod_cases3)
  have "fields_bounded (m0, b, k)"
    using parse_lines_bounded [of "(metadata_zero, [], 0)" "fgets_all 511 content"] unfolding st
    by (simp add: fields_bounded_def metadata_zero_def)
  then show ?thesis
    using assms safe_name_no_slash [of b] t st
    by (auto simp: firmware_parse_metadata_def Let_def firmware_get_file_size_def fields_bounded_def
        split: if_splits option.splits)
qed

definition fs_example :: "string \<Rightarrow> string option" where
  "fs_example p = (if p = ''v/metadata.txt'' then Some (metadata_text ''0xF1'' ''0x13'' ''ab12'' ''1.0'' ''top.bin'') else None)"

definition stat_example :: "string \<Rightarrow> int option" where
  "stat_example p = (if p = ''v/top.bin'' then Some 4096 else None)"

lemma metadata_example: "firmware_parse_metadata fs_example stat_example ''v'' = (SUCCESS,
     \<lparr>md_file_type = 0xF1, md_file_sub_type = 0x13, md_sha256 = ''ab12'', md_file_size = 4096, md_version = ''1.0'',
      md_bin_file_path = ''v/top.bin''\<rparr>)"
proof -
  have c: "list_all clean [''0xF1'', ''0x13'', ''ab12'', ''1.0'', ''top.bin'']"
    by (simp add: clean_def isspace_def)
  have n: "ucast (strtoul0 ''0xF1'') = (0xF1 :: u8)" "ucast (strtoul0 ''0x13'') = (0x13 :: u8)"
    by (simp_all add: strtoul0_def digits_value_def digit_val_def isspace_def)
  have s: "shell_safe_name ''top.bin''" by (simp add: shell_safe_name_def name_char_def)
  show ?thesis
    using parse_metadata_text [OF c] s n
    by (simp add: firmware_parse_metadata_def fs_example_def stat_example_def firmware_get_file_size_def metadata_zero_def)
qed

theorem metadata_path_confined_witness:
  "\<exists>name n. shell_safe_name name \<and> CHR ''/'' \<notin> set name \<and> name \<noteq> ''..'' \<and> name \<noteq> []
     \<and> ''v/top.bin'' = take 255 (''v'' @ ''/'' @ name) \<and> stat_example ''v/top.bin'' = Some n \<and> (4096 :: u32) = of_int n"
  using metadata_path_confined [OF metadata_example] by auto

text \<open>Metadata round trip. A metadata file with the five lines \<open>key=value\<close>, whose values carry no
  white space at their ends and fit their fields, is parsed to exactly these values, the numbers
  as \<open>strtoul\<close> with base 0 reads them, when the firmware file exists and its path is not cut.\<close>

theorem metadata_round_trip:
  assumes "list_all clean [ft, sub, sha, ver, bin]" and "length ft \<le> 255" and "length sub \<le> 255"
    and "length sha \<le> 64" and "length ver \<le> 39" and "shell_safe_name bin" and "length (dir @ ''/'' @ bin) \<le> 255"
    and "fopen (dir @ ''/metadata.txt'') = Some (metadata_text ft sub sha ver bin)"
    and "stat (dir @ ''/'' @ bin) = Some n"
  shows "firmware_parse_metadata fopen stat dir = (SUCCESS,
     \<lparr>md_file_type = ucast (strtoul0 ft), md_file_sub_type = ucast (strtoul0 sub), md_sha256 = sha,
      md_file_size = of_int n, md_version = ver, md_bin_file_path = dir @ ''/'' @ bin\<rparr>)"
proof -
  have "length bin \<le> 255" using assms(6) by (auto simp: shell_safe_name_def split: if_splits)
  then have l: "list_all (\<lambda>v. length v \<le> 255) [ft, sub, sha, ver, bin]" using assms(2-5) by simp
  have p: "take 511 (dir @ ''/metadata.txt'') = dir @ ''/metadata.txt''" using assms(7) by simp
  have q: "take 255 (dir @ ''/'' @ bin) = dir @ ''/'' @ bin" using assms(7) by simp
  show ?thesis
    unfolding firmware_parse_metadata_def p assms(8) option.case parse_metadata_text [OF assms(1) l] prod.case Let_def q
    using assms(4,5,6,9) by (simp add: firmware_get_file_size_def metadata_zero_def)
qed

theorem metadata_round_trip_witness:
  "firmware_parse_metadata fs_example stat_example ''v'' = (SUCCESS,
     \<lparr>md_file_type = ucast (strtoul0 ''0xF1''), md_file_sub_type = ucast (strtoul0 ''0x13''), md_sha256 = ''ab12'',
      md_file_size = of_int 4096, md_version = ''1.0'', md_bin_file_path = ''v'' @ ''/'' @ ''top.bin''\<rparr>)"
  by (rule metadata_round_trip)
     (simp_all add: clean_def isspace_def shell_safe_name_def name_char_def fs_example_def stat_example_def)

text \<open>The integrity check hashes the whole file. For a hash whose updates compose, as SHA-256's do,
  the check returns SUCCESS exactly when the file can be read and the hexadecimal digest of its
  whole contents equals the expected text up to the case of letters, although the file is hashed
  in pieces of 8192 bytes.\<close>

theorem verify_integrity_whole_file:
  assumes "\<And>c. sha_update c [] = c" and "\<And>c a b. sha_update (sha_update c a) b = sha_update c (a @ b)"
  shows "firmware_verify_integrity sha_init sha_update sha_final fopen path expected = SUCCESS \<longleftrightarrow>
     (\<exists>d. fopen path = Some d \<and>
        map tolower (concat (map hex_byte (take 32 (sha_final (sha_update sha_init d))))) = map tolower expected)"
  using foldl_update [of sha_update, OF assms]
  by (auto simp: firmware_verify_integrity_def Let_def concat_chunks split: option.splits)

theorem verify_integrity_whole_file_witness:
  "firmware_verify_integrity [] (@) (take 2) (\<lambda>p. Some [0xAB, 1, 2]) ''f'' ''AB01'' = SUCCESS \<longleftrightarrow>
     (\<exists>d. Some [0xAB, 1, 2] = Some d \<and>
        map tolower (concat (map hex_byte (take 32 (take 2 ([] @ d))))) = map tolower ''AB01'')"
  by (rule verify_integrity_whole_file) simp_all

text \<open>Missing fields are not noticed when others are repeated: a metadata file with four version
  lines and a file name, and neither a type nor a digest, passes the check for the five required
  fields.\<close>

theorem metadata_repeated_fields:
  "let content = concat (map (\<lambda>l. l @ [newline])
         (replicate 4 (field_line ''version'' ''1.0'') @ [field_line ''bin_file'' ''top.bin'']))
   in firmware_parse_metadata (\<lambda>p. Some content) stat_example ''v'' = (SUCCESS,
     \<lparr>md_file_type = 0, md_file_sub_type = 0, md_sha256 = [], md_file_size = 4096, md_version = ''1.0'',
      md_bin_file_path = ''v/top.bin''\<rparr>)"
proof -
  let ?ls = "replicate 4 (field_line ''version'' ''1.0'') @ [field_line ''bin_file'' ''top.bin'']"
  have ls: "list_all (\<lambda>l. newline \<notin> set l \<and> length l < 511) ?ls" by (simp add: field_line_def eval_nat_numeral)
  have c: "clean ''1.0''" "clean ''top.bin''" by (simp_all add: clean_def isspace_def)
  have s: "shell_safe_name ''top.bin''" by (simp add: shell_safe_name_def name_char_def)
  show ?thesis
    unfolding Let_def firmware_parse_metadata_def option.case fgets_all_lines [OF ls]
    by (simp add: eval_nat_numeral parse_key_line c parse_field_def s metadata_zero_def firmware_get_file_size_def
        stat_example_def)
qed

end
