(* ===== verification/AlarmManager.thy ===== *)
theory AlarmManager
  imports CpriProtocol FpgaProtocol
begin

text \<open>
  The alarm manager of alarm_manager.c: a table of 64 alarm records, the trackers that turn
  telemetry into edges, the report of an alarm to the BBU as a CPRI message, and the report of
  what is pending when the connection comes up. The globals of the file are one record, with the
  serial number of main.c and the list of the messages handed to \<open>tcp_client_send\<close>. The clocks are
  an argument: \<open>time\<close>, \<open>localtime_r\<close> and the monotonic clock, each of which may fail where the code
  foresees it. \<open>alarm_trigger\<close> drops the mutex while it reports; the parts between which other
  threads may run are definitions of their own.
\<close>

subsection \<open>State\<close>

datatype alarm_attribute = ALARM_ATTR_FAULT | ALARM_ATTR_EVENT | ALARM_ATTR_STATE

record alarm_record =
  ar_active :: bool
  ar_alarm_code :: u32
  ar_sub_code :: u32
  ar_start_time :: int
  ar_clear_time :: int
  ar_reported :: bool
  ar_clear_reported :: bool
  ar_attribute :: alarm_attribute
  ar_additional_info :: string

record alarm_state_tracker =
  at_lo_unlock_active :: bool
  at_optical_sync_loss :: "bool list"
  at_over_temperature :: "bool list"
  at_channel_fault_exceed_active :: bool
  at_tcp_disconnect_active :: bool

record alarm_config =
  ac_channel_fault_threshold :: u8
  ac_over_temp_threshold_high :: u8
  ac_over_temp_threshold_low :: u8
  ac_link_grace_sec :: u32
  ac_optical_port_count :: u8

record alarm_manager =
  am_records :: "alarm_record list"
  am_state_tracker :: alarm_state_tracker
  am_alarm_count :: u32
  am_total_count :: u32
  am_tcp_connected :: bool
  am_pending_tcp_alarm :: bool
  am_config :: alarm_config
  am_grace_armed :: bool
  am_grace_end :: u64
  am_serial_num :: u32
  am_sent :: "bytes list"

text \<open>Broken-down local time: year, month, day, hour, minute, second, with the offsets of
  \<open>struct tm\<close> already added.\<close>

type_synonym local_time = "int \<times> int \<times> int \<times> int \<times> int \<times> int"

record alarm_env =
  en_time :: int
  en_local :: "local_time option"
  en_mono :: "u64 option"

abbreviation (input) ALARM_CODE_LO_UNLOCK :: u32 where "ALARM_CODE_LO_UNLOCK \<equiv> 50001"
abbreviation (input) ALARM_CODE_OPTICAL_SYNC_LOSS :: u32 where "ALARM_CODE_OPTICAL_SYNC_LOSS \<equiv> 1097"
abbreviation (input) ALARM_CODE_OVER_TEMPERATURE :: u32 where "ALARM_CODE_OVER_TEMPERATURE \<equiv> 1156"
abbreviation (input) ALARM_CODE_VERSION_ACTIVATE_FAIL :: u32 where "ALARM_CODE_VERSION_ACTIVATE_FAIL \<equiv> 1158"
abbreviation (input) ALARM_CODE_CHANNEL_FAULT_EXCEED :: u32 where "ALARM_CODE_CHANNEL_FAULT_EXCEED \<equiv> 1159"
abbreviation (input) ALARM_CODE_TCP_DISCONNECT :: u32 where "ALARM_CODE_TCP_DISCONNECT \<equiv> 1160"
abbreviation (input) ALARM_CLEAR_FLAG_ACTIVE :: u32 where "ALARM_CLEAR_FLAG_ACTIVE \<equiv> 0"
abbreviation (input) ALARM_CLEAR_FLAG_CLEARED :: u32 where "ALARM_CLEAR_FLAG_CLEARED \<equiv> 1"

definition MAX_ALARM_RECORDS :: nat where "MAX_ALARM_RECORDS = 64"

definition get_next_serial_num_safe :: "alarm_manager \<Rightarrow> u32 \<times> alarm_manager" where
  "get_next_serial_num_safe g = (am_serial_num g + 1, g\<lparr>am_serial_num := am_serial_num g + 1\<rparr>)"

text \<open>The codes and attributes of the alarm table; its names and descriptions are display texts.\<close>

definition g_alarm_info :: "(u32 \<times> alarm_attribute) list" where
  "g_alarm_info = [(ALARM_CODE_LO_UNLOCK, ALARM_ATTR_FAULT), (ALARM_CODE_OPTICAL_SYNC_LOSS, ALARM_ATTR_FAULT),
     (ALARM_CODE_OVER_TEMPERATURE, ALARM_ATTR_FAULT), (ALARM_CODE_VERSION_ACTIVATE_FAIL, ALARM_ATTR_FAULT),
     (ALARM_CODE_CHANNEL_FAULT_EXCEED, ALARM_ATTR_FAULT), (ALARM_CODE_TCP_DISCONNECT, ALARM_ATTR_FAULT)]"

definition alarm_get_attribute :: "u32 \<Rightarrow> alarm_attribute" where
  "alarm_get_attribute code =
     (case find (\<lambda>e. fst e = code) g_alarm_info of Some e \<Rightarrow> snd e | None \<Rightarrow> ALARM_ATTR_FAULT)"

definition alarm_record_zero :: alarm_record where
  "alarm_record_zero = \<lparr>ar_active = False, ar_alarm_code = 0, ar_sub_code = 0, ar_start_time = 0, ar_clear_time = 0,
     ar_reported = False, ar_clear_reported = False, ar_attribute = ALARM_ATTR_FAULT, ar_additional_info = []\<rparr>"

text \<open>The first argument is the outcome of \<open>pthread_mutex_init\<close>.\<close>

definition alarm_manager_init :: "bool \<Rightarrow> alarm_config option \<Rightarrow> alarm_manager \<Rightarrow> int \<times> alarm_manager" where
  "alarm_manager_init mutex_ok config g =
     (let c = (case config of
                 Some c \<Rightarrow> c
               | None \<Rightarrow> \<lparr>ac_channel_fault_threshold = 10, ac_over_temp_threshold_high = 85,
                           ac_over_temp_threshold_low = - 40, ac_link_grace_sec = 10, ac_optical_port_count = 4\<rparr>);
          c = (if ac_optical_port_count c \<noteq> 4 \<and> ac_optical_port_count c \<noteq> 8
               then c\<lparr>ac_optical_port_count := 4\<rparr> else c);
          g = g\<lparr>am_records := replicate MAX_ALARM_RECORDS alarm_record_zero,
            am_state_tracker := \<lparr>at_lo_unlock_active = False, at_optical_sync_loss = replicate 8 False,
              at_over_temperature = replicate 10 False, at_channel_fault_exceed_active = False,
              at_tcp_disconnect_active = False\<rparr>,
            am_alarm_count := 0, am_total_count := 0, am_tcp_connected := False, am_pending_tcp_alarm := False,
            am_config := c\<rparr>
      in if \<not> mutex_ok then (ERROR_GENERAL, g) else (SUCCESS, g\<lparr>am_grace_armed := False, am_grace_end := 0\<rparr>))"

subsection \<open>Searching the table\<close>

definition find_alarm_record :: "alarm_manager \<Rightarrow> u32 \<Rightarrow> u32 \<Rightarrow> nat option" where
  "find_alarm_record g code sub =
     find (\<lambda>i. ar_active (am_records g ! i) \<and> ar_alarm_code (am_records g ! i) = code
             \<and> ar_sub_code (am_records g ! i) = sub) [0..<MAX_ALARM_RECORDS]"

definition find_free_record :: "alarm_manager \<Rightarrow> nat option" where
  "find_free_record g = find (\<lambda>i. \<not> ar_active (am_records g ! i)) [0..<MAX_ALARM_RECORDS]"

definition alarm_is_active :: "alarm_manager \<Rightarrow> u32 \<Rightarrow> u32 \<Rightarrow> bool" where
  "alarm_is_active g code sub \<longleftrightarrow> find_alarm_record g code sub \<noteq> None"

subsection \<open>Text\<close>

definition dec_digit :: "nat \<Rightarrow> char" where
  "dec_digit n = ''0123456789'' ! n"

fun dec :: "nat \<Rightarrow> string" where
  "dec n = (if n < 10 then [dec_digit n] else dec (n div 10) @ [dec_digit (n mod 10)])"

definition dec_int :: "int \<Rightarrow> string" where
  "dec_int i = (if i < 0 then CHR ''-'' # dec (nat (- i)) else dec (nat i))"

text \<open>The conversion \<open>%0kd\<close>.\<close>

definition pad_int :: "nat \<Rightarrow> int \<Rightarrow> string" where
  "pad_int k i =
     (if i < 0 then let d = dec (nat (- i)) in CHR ''-'' # replicate (k - 1 - length d) CHR ''0'' @ d
      else let d = dec (nat i) in replicate (k - length d) CHR ''0'' @ d)"

definition timestamp_text :: "local_time \<Rightarrow> string" where
  "timestamp_text t =
     (case t of (y, mo, d, h, mi, s) \<Rightarrow>
        take 19 (pad_int 4 y @ ''-'' @ pad_int 2 mo @ ''-'' @ pad_int 2 d @ '' '' @ pad_int 2 h @ '':''
          @ pad_int 2 mi @ '':'' @ pad_int 2 s))"

text \<open>A character field of a fixed size, filled up with NUL.\<close>

definition char_field :: "nat \<Rightarrow> string \<Rightarrow> bytes" where
  "char_field n s = map of_char (take (n - 1) s) @ replicate (n - length (take (n - 1) s)) 0"

subsection \<open>Reporting\<close>

text \<open>The 134 bytes of the information element, in the order of the packed structure.\<close>

definition alarm_report_ie :: "u32 \<Rightarrow> u32 \<Rightarrow> u32 \<Rightarrow> string \<Rightarrow> string option \<Rightarrow> bytes" where
  "alarm_report_ie code sub clear_flag timestamp info =
     le16 0 @ le32 code @ le32 sub @ le32 clear_flag @ char_field 20 timestamp
     @ char_field 100 (case info of Some s \<Rightarrow> take 99 s | None \<Rightarrow> [])"

definition alarm_report_msg :: "u32 \<Rightarrow> bytes \<Rightarrow> cpri_message" where
  "alarm_report_msg serial ie =
     \<lparr>cm_header = \<lparr>ch_msg_id = cpri_msg_code MSG_ALARM_REPORT_REQ, ch_msg_length = 0, ch_paau_id = 0, ch_bbu_id = 0,
        ch_port_num = 0, ch_serial_num = serial\<rparr>,
      cm_payload = Some (Outside (le16 0x3E9 @ le16 138 @ ie)), cm_payload_len = 138\<rparr>"

text \<open>The message goes through a buffer of 512 bytes, which it never leaves (lemma
  \<open>alarm_report_encodes\<close>); what \<open>tcp_client_send\<close> returns is not looked at.\<close>

definition alarm_report_to_bbu :: "alarm_env \<Rightarrow> alarm_manager \<Rightarrow> u32 \<Rightarrow> u32 \<Rightarrow> u32 \<Rightarrow> string option
    \<Rightarrow> int \<times> alarm_manager" where
  "alarm_report_to_bbu env g code sub clear_flag info =
     (let (serial, g) = get_next_serial_num_safe g
      in case en_local env of
           None \<Rightarrow> (ERROR_GENERAL, g)
         | Some tm \<Rightarrow>
             (case cpri_encode_message [] (alarm_report_msg serial
                     (alarm_report_ie code sub clear_flag (timestamp_text tm) info)) (replicate 512 0) 512 of
                Some (len, buffer) \<Rightarrow>
                  if len > 0 then (SUCCESS, g\<lparr>am_sent := am_sent g @ [take (nat len) buffer]\<rparr>)
                  else (ERROR_GENERAL, g)
              | None \<Rightarrow> (ERROR_GENERAL, g)))"

subsection \<open>Triggering and clearing\<close>

text \<open>The first locked part of \<open>alarm_trigger\<close>: an active alarm is left alone, a full table is an
  error, and otherwise the index of the new record is given.\<close>

datatype trigger_result = Already_active | Table_full | Recorded nat

definition trigger_section :: "alarm_env \<Rightarrow> alarm_manager \<Rightarrow> u32 \<Rightarrow> u32 \<Rightarrow> string option
    \<Rightarrow> trigger_result \<times> alarm_manager" where
  "trigger_section env g code sub info =
     (case find_alarm_record g code sub of
        Some i \<Rightarrow> (Already_active, g)
      | None \<Rightarrow>
          (case find_free_record g of
             None \<Rightarrow> (Table_full, g)
           | Some idx \<Rightarrow>
               (Recorded idx, g\<lparr>am_records := (am_records g)[idx := (am_records g ! idx)\<lparr>ar_active := True,
                    ar_alarm_code := code, ar_sub_code := sub, ar_start_time := en_time env, ar_clear_time := 0,
                    ar_reported := False, ar_clear_reported := False, ar_attribute := alarm_get_attribute code,
                    ar_additional_info := (case info of Some s \<Rightarrow> take 99 s | None \<Rightarrow> [])\<rparr>],
                  am_alarm_count := am_alarm_count g + 1, am_total_count := am_total_count g + 1\<rparr>)))"

text \<open>The second locked part, after the report: mark the record if it is still the same alarm.\<close>

definition mark_reported_section :: "alarm_manager \<Rightarrow> nat \<Rightarrow> u32 \<Rightarrow> u32 \<Rightarrow> alarm_manager" where
  "mark_reported_section g idx code sub =
     (if idx < MAX_ALARM_RECORDS
      then let r = am_records g ! idx
           in if ar_active r \<and> ar_alarm_code r = code \<and> ar_sub_code r = sub
              then g\<lparr>am_records := (am_records g)[idx := r\<lparr>ar_reported := True\<rparr>]\<rparr> else g
      else g)"

definition alarm_trigger :: "alarm_env \<Rightarrow> alarm_manager \<Rightarrow> u32 \<Rightarrow> u32 \<Rightarrow> string option \<Rightarrow> int \<times> alarm_manager" where
  "alarm_trigger env g code sub info =
     (case trigger_section env g code sub info of
        (Already_active, g) \<Rightarrow> (SUCCESS, g)
      | (Table_full, g) \<Rightarrow> (ERROR_GENERAL, g)
      | (Recorded idx, g) \<Rightarrow>
          if am_tcp_connected g
          then (SUCCESS, mark_reported_section
                           (snd (alarm_report_to_bbu env g code sub ALARM_CLEAR_FLAG_ACTIVE info)) idx code sub)
          else if code = ALARM_CODE_TCP_DISCONNECT then (SUCCESS, g\<lparr>am_pending_tcp_alarm := True\<rparr>)
          else (SUCCESS, g))"

text \<open>The locked part of \<open>alarm_clear\<close>: the text of the cleared alarm, when there was one.\<close>

definition clear_section :: "alarm_env \<Rightarrow> alarm_manager \<Rightarrow> u32 \<Rightarrow> u32 \<Rightarrow> string option \<times> alarm_manager" where
  "clear_section env g code sub =
     (case find_alarm_record g code sub of
        None \<Rightarrow> (None, g)
      | Some idx \<Rightarrow>
          (Some (take 99 (ar_additional_info (am_records g ! idx))),
           g\<lparr>am_records := (am_records g)[idx := (am_records g ! idx)\<lparr>ar_clear_time := en_time env, ar_active := False\<rparr>],
             am_alarm_count := am_alarm_count g - 1\<rparr>))"

definition alarm_clear :: "alarm_env \<Rightarrow> alarm_manager \<Rightarrow> u32 \<Rightarrow> u32 \<Rightarrow> int \<times> alarm_manager" where
  "alarm_clear env g code sub =
     (case clear_section env g code sub of
        (None, g) \<Rightarrow> (SUCCESS, g)
      | (Some info, g) \<Rightarrow>
          if am_tcp_connected g
          then (SUCCESS, snd (alarm_report_to_bbu env g code sub ALARM_CLEAR_FLAG_CLEARED (Some info)))
          else (SUCCESS, g))"

text \<open>One turn of the loop over the records.\<close>

definition report_pending_turn :: "alarm_env \<Rightarrow> int \<times> alarm_manager \<Rightarrow> nat \<Rightarrow> int \<times> alarm_manager" where
  "report_pending_turn env st i =
     (case st of (count, g) \<Rightarrow>
        let r = am_records g ! i
        in if ar_active r \<and> \<not> ar_reported r
           then let (ret, g) = alarm_report_to_bbu env g (ar_alarm_code r) (ar_sub_code r) ALARM_CLEAR_FLAG_ACTIVE
                                 (Some (take 99 (ar_additional_info r)))
                in if ret = SUCCESS
                   then (count + 1, mark_reported_section g i (ar_alarm_code r) (ar_sub_code r))
                   else (count, g)
           else (count, g))"

definition alarm_report_all_pending :: "alarm_env \<Rightarrow> alarm_manager \<Rightarrow> int \<times> alarm_manager" where
  "alarm_report_all_pending env g =
     (case foldl (report_pending_turn env) (0, g) [0..<MAX_ALARM_RECORDS] of
        (count, g) \<Rightarrow> (count, g\<lparr>am_pending_tcp_alarm := False\<rparr>))"

definition alarm_set_tcp_status :: "alarm_env \<Rightarrow> alarm_manager \<Rightarrow> bool \<Rightarrow> alarm_manager" where
  "alarm_set_tcp_status env g connected =
     (let prev_status = am_tcp_connected g; g = g\<lparr>am_tcp_connected := connected\<rparr>
      in if connected \<and> \<not> prev_status then snd (alarm_report_all_pending env g) else g)"

subsection \<open>Checks\<close>

text \<open>What every check does with the old and the new state of its alarm.\<close>

definition alarm_edge :: "('g \<Rightarrow> u32 \<Rightarrow> u32 \<Rightarrow> string option \<Rightarrow> int \<times> 'g) \<Rightarrow> ('g \<Rightarrow> u32 \<Rightarrow> u32 \<Rightarrow> int \<times> 'g)
    \<Rightarrow> 'g \<Rightarrow> bool \<Rightarrow> bool \<Rightarrow> u32 \<Rightarrow> u32 \<Rightarrow> string \<Rightarrow> 'g" where
  "alarm_edge trigger clear g prev_state current_state code sub info =
     (if current_state \<and> \<not> prev_state then snd (trigger g code sub (Some info))
      else if \<not> current_state \<and> prev_state then snd (clear g code sub)
      else g)"

abbreviation tracker_update :: "(alarm_state_tracker \<Rightarrow> alarm_state_tracker) \<Rightarrow> alarm_manager \<Rightarrow> alarm_manager" where
  "tracker_update f g \<equiv> g\<lparr>am_state_tracker := f (am_state_tracker g)\<rparr>"

definition alarm_check_lo_unlock :: "alarm_env \<Rightarrow> alarm_manager \<Rightarrow> u32 \<Rightarrow> alarm_manager" where
  "alarm_check_lo_unlock env g lo_lock_status =
     (let prev_state = at_lo_unlock_active (am_state_tracker g);
          current_state = (lo_lock_status \<noteq> 0);
          g = tracker_update (\<lambda>t. t\<lparr>at_lo_unlock_active := current_state\<rparr>) g
      in alarm_edge (alarm_trigger env) (alarm_clear env) g prev_state current_state ALARM_CODE_LO_UNLOCK 0
           ''LO unlock detected'')"

definition alarm_check_optical_sync_loss :: "alarm_env \<Rightarrow> alarm_manager \<Rightarrow> u8 \<Rightarrow> bool \<Rightarrow> alarm_manager" where
  "alarm_check_optical_sync_loss env g optical_port sync_status =
     (if optical_port \<ge> 8 then g
      else let p = unat optical_port;
               prev_state = at_optical_sync_loss (am_state_tracker g) ! p;
               current_state = (\<not> sync_status);
               g = tracker_update (\<lambda>t. t\<lparr>at_optical_sync_loss := (at_optical_sync_loss t)[p := current_state]\<rparr>) g
           in alarm_edge (alarm_trigger env) (alarm_clear env) g prev_state current_state
                ALARM_CODE_OPTICAL_SYNC_LOSS (ucast optical_port)
                (take 99 (''Optical port '' @ dec p @ '' sync lost'')))"

definition temp_out_of_range :: "alarm_config \<Rightarrow> u8 \<Rightarrow> bool" where
  "temp_out_of_range c temperature \<longleftrightarrow> sint temperature > sint (ac_over_temp_threshold_high c)
     \<or> sint temperature < sint (ac_over_temp_threshold_low c)"

text \<open>The degree sign is two bytes in the source.\<close>

definition alarm_check_over_temperature :: "alarm_env \<Rightarrow> alarm_manager \<Rightarrow> u8 \<Rightarrow> u8 \<Rightarrow> alarm_manager" where
  "alarm_check_over_temperature env g probe_id temperature =
     (if probe_id \<ge> 10 then g
      else let p = unat probe_id;
               prev_state = at_over_temperature (am_state_tracker g) ! p;
               current_state = temp_out_of_range (am_config g) temperature;
               g = tracker_update (\<lambda>t. t\<lparr>at_over_temperature := (at_over_temperature t)[p := current_state]\<rparr>) g
           in alarm_edge (alarm_trigger env) (alarm_clear env) g prev_state current_state
                ALARM_CODE_OVER_TEMPERATURE (ucast probe_id)
                (take 99 (''Probe '' @ dec p @ '' temp='' @ dec_int (sint temperature) @ [CHR 0xC2, CHR 0xB0]
                   @ ''C (threshold: '' @ dec_int (sint (ac_over_temp_threshold_low (am_config g))) @ ''~''
                   @ dec_int (sint (ac_over_temp_threshold_high (am_config g))) @ [CHR 0xC2, CHR 0xB0] @ ''C)'')))"

definition alarm_check_channel_fault_exceed :: "alarm_env \<Rightarrow> alarm_manager \<Rightarrow> u8 \<Rightarrow> alarm_manager" where
  "alarm_check_channel_fault_exceed env g fault_count =
     (let prev_state = at_channel_fault_exceed_active (am_state_tracker g);
          current_state = (fault_count > ac_channel_fault_threshold (am_config g));
          g = tracker_update (\<lambda>t. t\<lparr>at_channel_fault_exceed_active := current_state\<rparr>) g
      in alarm_edge (alarm_trigger env) (alarm_clear env) g prev_state current_state
           ALARM_CODE_CHANNEL_FAULT_EXCEED 0
           (take 99 (''Channel fault count='' @ dec (unat fault_count) @ '' (threshold: ''
              @ dec (unat (ac_channel_fault_threshold (am_config g))) @ '')'')))"

definition alarm_trigger_version_activate_fail :: "alarm_env \<Rightarrow> alarm_manager \<Rightarrow> string option \<Rightarrow> alarm_manager" where
  "alarm_trigger_version_activate_fail env g version_info =
     snd (alarm_trigger env g ALARM_CODE_VERSION_ACTIVATE_FAIL 0
       (Some (take 99 (''Version activation failed: '' @ (case version_info of Some v \<Rightarrow> v | None \<Rightarrow> ''unknown'')))))"

definition alarm_trigger_tcp_disconnect :: "alarm_env \<Rightarrow> alarm_manager \<Rightarrow> string option \<Rightarrow> alarm_manager" where
  "alarm_trigger_tcp_disconnect env g reason =
     (let prev_state = at_tcp_disconnect_active (am_state_tracker g);
          g = tracker_update (\<lambda>t. t\<lparr>at_tcp_disconnect_active := True\<rparr>) g
      in if \<not> prev_state
         then snd (alarm_trigger env g ALARM_CODE_TCP_DISCONNECT 0
                (Some (take 99 (''TCP disconnected: '' @ (case reason of Some r \<Rightarrow> r | None \<Rightarrow> ''unknown reason'')))))
         else g)"

definition alarm_clear_tcp_disconnect :: "alarm_env \<Rightarrow> alarm_manager \<Rightarrow> alarm_manager" where
  "alarm_clear_tcp_disconnect env g =
     (let prev_state = at_tcp_disconnect_active (am_state_tracker g);
          g = tracker_update (\<lambda>t. t\<lparr>at_tcp_disconnect_active := False\<rparr>) g
      in if prev_state then snd (alarm_clear env g ALARM_CODE_TCP_DISCONNECT 0) else g)"

definition alarm_optical_in_grace :: "alarm_env \<Rightarrow> alarm_manager \<Rightarrow> bool \<times> alarm_manager" where
  "alarm_optical_in_grace env g =
     (if ac_link_grace_sec (am_config g) = 0 then (False, g)
      else case en_mono env of
             None \<Rightarrow> (False, g)
           | Some now \<Rightarrow>
               if \<not> am_grace_armed g
               then (True, g\<lparr>am_grace_armed := True, am_grace_end := now + ucast (ac_link_grace_sec (am_config g))\<rparr>)
               else (now < am_grace_end g, g))"

text \<open>The loop over the four main ports, each followed by its backup port when eight are fitted.\<close>

definition optical_turn :: "alarm_env \<Rightarrow> u8 \<Rightarrow> alarm_manager \<Rightarrow> nat \<Rightarrow> alarm_manager" where
  "optical_turn env flag g i =
     (let g = alarm_check_optical_sync_loss env g (of_nat i) (bit flag i)
      in if ac_optical_port_count (am_config g) = 8
         then alarm_check_optical_sync_loss env g (of_nat (i + 4)) (bit flag (i + 4))
         else g)"

definition alarm_periodic_check :: "alarm_env \<Rightarrow> alarm_manager \<Rightarrow> fpga_status_frame \<Rightarrow> alarm_manager" where
  "alarm_periodic_check env g fpga_status =
     (let d = sf_data fpga_status;
          g = alarm_check_lo_unlock env g (sd_lo_lock_status d);
          g = alarm_check_over_temperature env g 0 (sd_temp1 d);
          g = alarm_check_over_temperature env g 1 (sd_temp2 d);
          g = alarm_check_over_temperature env g 2 (sd_temp3 d);
          g = alarm_check_channel_fault_exceed env g (sd_channel_fault_count d);
          (grace, g) = alarm_optical_in_grace env g
      in if \<not> grace then foldl (optical_turn env (sd_link_success_flag d)) g [0..<4] else g)"

definition alarm_get_active_alarms :: "alarm_manager \<Rightarrow> int \<Rightarrow> int \<times> alarm_record list" where
  "alarm_get_active_alarms g max_count =
     (if max_count \<le> 0 then (ERROR_INVALID_PARAM, [])
      else (SUCCESS, take (nat max_count) (filter ar_active (am_records g))))"

section \<open>The table as a set of alarms\<close>

definition record_key :: "alarm_record \<Rightarrow> u32 \<times> u32" where
  "record_key r = (ar_alarm_code r, ar_sub_code r)"

definition key_list :: "alarm_record list \<Rightarrow> (u32 \<times> u32) list" where
  "key_list rs = map record_key (filter ar_active rs)"

definition active_keys :: "alarm_manager \<Rightarrow> (u32 \<times> u32) set" where
  "active_keys g = set (key_list (am_records g))"

text \<open>The invariant of the table: 64 records, no alarm active twice, and the counter exact.\<close>

definition am_inv :: "alarm_manager \<Rightarrow> bool" where
  "am_inv g \<longleftrightarrow> length (am_records g) = 64 \<and> distinct (key_list (am_records g))
     \<and> unat (am_alarm_count g) = length (key_list (am_records g))"

lemma key_list_split: "i < length xs \<Longrightarrow>
    key_list xs = key_list (take i xs) @ (if ar_active (xs ! i) then [record_key (xs ! i)] else []) @ key_list (drop (Suc i) xs)
    \<and> key_list (xs[i := r]) = key_list (take i xs) @ (if ar_active r then [record_key r] else []) @ key_list (drop (Suc i) xs)"
  by (subst (1) id_take_nth_drop, assumption, subst upd_conv_take_nth_drop, assumption) (simp add: key_list_def)

lemma key_list_fill:
  assumes "i < length xs" "\<not> ar_active (xs ! i)" "ar_active r" "record_key r \<notin> set (key_list xs)"
  shows "set (key_list (xs[i := r])) = insert (record_key r) (set (key_list xs))"
    "length (key_list (xs[i := r])) = Suc (length (key_list xs))"
    "distinct (key_list xs) \<Longrightarrow> distinct (key_list (xs[i := r]))"
  using key_list_split [OF assms(1), of r] assms by auto

lemma key_list_drop:
  assumes "i < length xs" "ar_active (xs ! i)" "\<not> ar_active r" "distinct (key_list xs)"
  shows "set (key_list (xs[i := r])) = set (key_list xs) - {record_key (xs ! i)}"
    "length (key_list xs) = Suc (length (key_list (xs[i := r])))"
    "distinct (key_list (xs[i := r]))"
  using key_list_split [OF assms(1), of r] assms by auto

lemma key_list_same:
  "i < length xs \<Longrightarrow> ar_active r = ar_active (xs ! i) \<Longrightarrow> record_key r = record_key (xs ! i) \<Longrightarrow> key_list (xs[i := r]) = key_list xs"
  using key_list_split [of i xs r] by simp

lemma key_in_list: "k \<in> set (key_list xs) \<longleftrightarrow> (\<exists>i<length xs. ar_active (xs ! i) \<and> record_key (xs ! i) = k)"
  by (auto simp: key_list_def in_set_conv_nth)

lemma key_list_full: "length (key_list xs) = length xs \<longleftrightarrow> (\<forall>i<length xs. ar_active (xs ! i))"
proof -
  have "length (filter ar_active xs) = length xs \<longleftrightarrow> (\<forall>r\<in>set xs. ar_active r)"
    by (metis filter_True length_filter_less less_irrefl)
  then show ?thesis by (simp add: key_list_def all_set_conv_all_nth)
qed

lemma key_list_le: "length (key_list xs) \<le> length xs"
  by (simp add: key_list_def)

lemma active_keys_card: "am_inv g \<Longrightarrow> card (active_keys g) = length (key_list (am_records g))"
  by (simp add: active_keys_def am_inv_def distinct_card)

lemma active_keys_finite: "finite (active_keys g)"
  by (simp add: active_keys_def)

lemma find_slot_Some: "find P [0..<n] = Some i \<Longrightarrow> i < n \<and> P i"
  by (auto simp: find_Some_iff)

lemma find_slot_None: "find P [0..<n] = None \<longleftrightarrow> (\<forall>i<n. \<not> P i)"
  by (auto simp: find_None_iff)

lemma find_alarm_Some:
  assumes "find_alarm_record g c s = Some i"
  shows "i < 64" "ar_active (am_records g ! i)" "record_key (am_records g ! i) = (c, s)"
  using find_slot_Some [OF assms [unfolded find_alarm_record_def]] by (simp_all add: record_key_def MAX_ALARM_RECORDS_def)

lemma find_alarm_None:
  "am_inv g \<Longrightarrow> find_alarm_record g c s = None \<longleftrightarrow> (c, s) \<notin> active_keys g"
  unfolding find_alarm_record_def find_slot_None
  by (auto simp: active_keys_def key_in_list am_inv_def record_key_def MAX_ALARM_RECORDS_def)

lemma find_free_None:
  assumes "am_inv g"
  shows "find_free_record g = None \<longleftrightarrow> card (active_keys g) = 64"
proof -
  have "find_free_record g = None \<longleftrightarrow> (\<forall>i<length (am_records g). ar_active (am_records g ! i))"
    using assms unfolding find_free_record_def find_slot_None by (simp add: am_inv_def MAX_ALARM_RECORDS_def)
  then show ?thesis unfolding active_keys_card [OF assms] key_list_full [symmetric] using assms by (simp add: am_inv_def)
qed

lemma find_free_Some: "find_free_record g = Some i \<Longrightarrow> i < 64 \<and> \<not> ar_active (am_records g ! i)"
  unfolding find_free_record_def by (drule find_slot_Some) (simp add: MAX_ALARM_RECORDS_def)

lemma alarm_is_active_keys: "am_inv g \<Longrightarrow> alarm_is_active g c s \<longleftrightarrow> (c, s) \<in> active_keys g"
  by (simp add: alarm_is_active_def find_alarm_None del: not_None_eq)

section \<open>Reports\<close>

text \<open>What goes over the wire for one alarm.\<close>

definition alarm_wire :: "u32 \<Rightarrow> local_time \<Rightarrow> u32 \<Rightarrow> u32 \<Rightarrow> u32 \<Rightarrow> string option \<Rightarrow> bytes" where
  "alarm_wire serial tm code sub clear_flag info =
     cpri_frame \<lparr>ch_msg_id = 111, ch_msg_length = 0, ch_paau_id = 0, ch_bbu_id = 0, ch_port_num = 0, ch_serial_num = serial\<rparr>
       (le16 0x3E9 @ le16 138 @ alarm_report_ie code sub clear_flag (timestamp_text tm) info)"

lemma char_field_length [simp]: "0 < n \<Longrightarrow> length (char_field n s) = n"
  by (simp add: char_field_def)

lemma alarm_report_ie_length [simp]: "length (alarm_report_ie c s f t i) = 134"
  by (simp add: alarm_report_ie_def)

lemma alarm_report_encodes:
  assumes "length ie = 134"
  shows "cpri_encode_message [] (alarm_report_msg serial ie) (replicate 512 0) 512
     = Some (153, cpri_frame (cm_header (alarm_report_msg serial ie)) (le16 0x3E9 @ le16 138 @ ie) @ replicate 359 0)"
proof -
  have "cpri_payload [] (alarm_report_msg serial ie) = le16 0x3E9 @ le16 138 @ ie"
    using assms by (simp add: cpri_payload_def alarm_report_msg_def payload_bytes_def)
  moreover have "cpri_msg_ok [] (alarm_report_msg serial ie)"
    using assms calculation by (simp add: cpri_msg_ok_def alarm_report_msg_def)
  ultimately show ?thesis
    by (subst cpri_encode_frame) (simp_all add: alarm_report_msg_def)
qed

text \<open>A report takes a serial number in any case, and hands over one message unless the local time
  is not available.\<close>

lemma report_result:
  "alarm_report_to_bbu env g c s f i =
     (case en_local env of
        None \<Rightarrow> (ERROR_GENERAL, g\<lparr>am_serial_num := am_serial_num g + 1\<rparr>)
      | Some tm \<Rightarrow> (SUCCESS, g\<lparr>am_serial_num := am_serial_num g + 1,
                        am_sent := am_sent g @ [alarm_wire (am_serial_num g + 1) tm c s f i]\<rparr>))"
proof (cases "en_local env")
  case (Some tm)
  have "length (alarm_wire n t c s f i) = 153" for n t by (simp add: alarm_wire_def cpri_frame_length)
  moreover have "alarm_wire n t c s f i = cpri_frame (cm_header (alarm_report_msg n ie))
      (le16 0x3E9 @ le16 138 @ alarm_report_ie c s f (timestamp_text t) i)" for n t ie
    by (simp add: alarm_wire_def alarm_report_msg_def)
  ultimately show ?thesis
    using Some by (simp add: alarm_report_to_bbu_def get_next_serial_num_safe_def alarm_report_encodes)
qed (simp add: alarm_report_to_bbu_def get_next_serial_num_safe_def)

section \<open>The locked sections\<close>

lemma am_inv_frame [simp]:
  "am_inv (g\<lparr>am_serial_num := n\<rparr>) = am_inv g" "am_inv (g\<lparr>am_sent := m\<rparr>) = am_inv g"
  "am_inv (g\<lparr>am_pending_tcp_alarm := b\<rparr>) = am_inv g" "am_inv (g\<lparr>am_tcp_connected := b\<rparr>) = am_inv g"
  "am_inv (g\<lparr>am_state_tracker := t\<rparr>) = am_inv g" "am_inv (g\<lparr>am_grace_armed := b\<rparr>) = am_inv g"
  "am_inv (g\<lparr>am_grace_end := e\<rparr>) = am_inv g"
  by (simp_all add: am_inv_def)

lemma active_keys_frame [simp]:
  "active_keys (g\<lparr>am_serial_num := n\<rparr>) = active_keys g" "active_keys (g\<lparr>am_sent := m\<rparr>) = active_keys g"
  "active_keys (g\<lparr>am_pending_tcp_alarm := b\<rparr>) = active_keys g" "active_keys (g\<lparr>am_tcp_connected := b\<rparr>) = active_keys g"
  "active_keys (g\<lparr>am_state_tracker := t\<rparr>) = active_keys g" "active_keys (g\<lparr>am_grace_armed := b\<rparr>) = active_keys g"
  "active_keys (g\<lparr>am_grace_end := e\<rparr>) = active_keys g"
  by (simp_all add: active_keys_def)

definition info_text :: "string option \<Rightarrow> string" where
  "info_text info = (case info of Some s \<Rightarrow> take 99 s | None \<Rightarrow> [])"

definition new_record :: "alarm_env \<Rightarrow> u32 \<Rightarrow> u32 \<Rightarrow> string option \<Rightarrow> alarm_record" where
  "new_record env code sub info =
     \<lparr>ar_active = True, ar_alarm_code = code, ar_sub_code = sub, ar_start_time = en_time env, ar_clear_time = 0,
      ar_reported = False, ar_clear_reported = False, ar_attribute = alarm_get_attribute code,
      ar_additional_info = info_text info\<rparr>"

lemma new_record_overwrites:
  "r\<lparr>ar_active := True, ar_alarm_code := c, ar_sub_code := s, ar_start_time := en_time env, ar_clear_time := 0,
     ar_reported := False, ar_clear_reported := False, ar_attribute := alarm_get_attribute c,
     ar_additional_info := (case i of Some s \<Rightarrow> take 99 s | None \<Rightarrow> [])\<rparr> = new_record env c s i"
  by (cases r) (simp add: new_record_def info_text_def)

lemma new_record_simps [simp]:
  "ar_active (new_record env c s i)" "record_key (new_record env c s i) = (c, s)" "\<not> ar_reported (new_record env c s i)"
  "ar_alarm_code (new_record env c s i) = c" "ar_sub_code (new_record env c s i) = s"
  "ar_additional_info (new_record env c s i) = info_text i"
  by (simp_all add: new_record_def record_key_def)

definition record_added :: "alarm_manager \<Rightarrow> nat \<Rightarrow> alarm_record \<Rightarrow> alarm_manager" where
  "record_added g idx r = g\<lparr>am_records := (am_records g)[idx := r], am_alarm_count := am_alarm_count g + 1,
     am_total_count := am_total_count g + 1\<rparr>"

lemma record_added_simps [simp]:
  "am_records (record_added g idx r) = (am_records g)[idx := r]" "am_tcp_connected (record_added g idx r) = am_tcp_connected g"
  "am_sent (record_added g idx r) = am_sent g" "am_serial_num (record_added g idx r) = am_serial_num g"
  "am_state_tracker (record_added g idx r) = am_state_tracker g" "am_config (record_added g idx r) = am_config g"
  "am_grace_armed (record_added g idx r) = am_grace_armed g" "am_grace_end (record_added g idx r) = am_grace_end g"
  by (simp_all add: record_added_def)

lemma trigger_section_result:
  assumes "am_inv g"
  shows "if (c, s) \<in> active_keys g then trigger_section env g c s i = (Already_active, g)
     else if card (active_keys g) = 64 then trigger_section env g c s i = (Table_full, g)
     else \<exists>idx<64. \<not> ar_active (am_records g ! idx)
            \<and> trigger_section env g c s i = (Recorded idx, record_added g idx (new_record env c s i))"
  using find_alarm_None [OF assms, of c s] find_free_None [OF assms] find_free_Some [of g]
  unfolding trigger_section_def new_record_overwrites record_added_def
  by (auto simp del: not_None_eq split: option.splits)

lemma record_added_inv:
  assumes "am_inv g" "idx < 64" "\<not> ar_active (am_records g ! idx)" "ar_active r" "record_key r \<notin> active_keys g"
  shows "am_inv (record_added g idx r)" "active_keys (record_added g idx r) = insert (record_key r) (active_keys g)"
proof -
  let ?l = "length (key_list (am_records g))"
  have "?l < 64"
    using assms(1-3) key_list_full [of "am_records g"] key_list_le [of "am_records g"]
    by (auto simp: am_inv_def order_less_le)
  then have c: "unat (am_alarm_count g + 1) = Suc ?l"
    using assms(1) by (subst u32_add_nat) (simp_all add: am_inv_def)
  note k = key_list_fill [of idx "am_records g" r]
  have l: "idx < length (am_records g)" "record_key r \<notin> set (key_list (am_records g))" "distinct (key_list (am_records g))"
    using assms(1,2,5) by (simp_all add: am_inv_def active_keys_def)
  then show "active_keys (record_added g idx r) = insert (record_key r) (active_keys g)"
    using k(1) [OF l(1) assms(3,4) l(2)] by (simp add: active_keys_def)
  show "am_inv (record_added g idx r)"
    using k(2,3) [OF l(1) assms(3,4) l(2)] l(3) c assms(1) by (simp add: am_inv_def record_added_def)
qed

lemma mark_reported_keys:
  assumes "am_inv g"
  shows "am_inv (mark_reported_section g idx c s)" "active_keys (mark_reported_section g idx c s) = active_keys g"
proof -
  have "key_list (am_records (mark_reported_section g idx c s)) = key_list (am_records g)"
    using assms by (auto simp: mark_reported_section_def Let_def am_inv_def record_key_def MAX_ALARM_RECORDS_def intro!: key_list_same)
  then show "am_inv (mark_reported_section g idx c s)" "active_keys (mark_reported_section g idx c s) = active_keys g"
    using assms by (simp_all add: am_inv_def active_keys_def) (simp_all add: mark_reported_section_def Let_def)
qed

definition record_cleared :: "alarm_env \<Rightarrow> alarm_manager \<Rightarrow> nat \<Rightarrow> alarm_manager" where
  "record_cleared env g idx = g\<lparr>am_records := (am_records g)[idx := (am_records g ! idx)\<lparr>ar_clear_time := en_time env,
     ar_active := False\<rparr>], am_alarm_count := am_alarm_count g - 1\<rparr>"

lemma clear_section_result:
  assumes "am_inv g"
  shows "if (c, s) \<in> active_keys g
     then \<exists>idx<64. ar_active (am_records g ! idx) \<and> record_key (am_records g ! idx) = (c, s)
            \<and> clear_section env g c s = (Some (take 99 (ar_additional_info (am_records g ! idx))), record_cleared env g idx)
     else clear_section env g c s = (None, g)"
  using find_alarm_None [OF assms, of c s] find_alarm_Some [of g c s]
  by (auto simp: clear_section_def record_cleared_def simp del: not_None_eq split: option.splits)

lemma record_cleared_inv:
  assumes "am_inv g" "idx < 64" "ar_active (am_records g ! idx)"
  shows "am_inv (record_cleared env g idx)" "active_keys (record_cleared env g idx) = active_keys g - {record_key (am_records g ! idx)}"
proof -
  have l: "idx < length (am_records g)" "distinct (key_list (am_records g))" using assms by (simp_all add: am_inv_def)
  note k = key_list_drop [OF l(1) assms(3) _ l(2), of "(am_records g ! idx)\<lparr>ar_clear_time := en_time env, ar_active := False\<rparr>"]
  have "1 \<le> unat (am_alarm_count g)" using k(2) assms(1) by (simp add: am_inv_def)
  then have "unat (am_alarm_count g - 1) = unat (am_alarm_count g) - 1" by (subst u32_sub_nat) simp_all
  then show "am_inv (record_cleared env g idx)" using k assms(1) by (simp add: am_inv_def record_cleared_def)
  show "active_keys (record_cleared env g idx) = active_keys g - {record_key (am_records g ! idx)}"
    using k by (simp add: active_keys_def record_cleared_def)
qed

lemma clear_section_inv:
  assumes "am_inv g"
  shows "am_inv (snd (clear_section env g c s))" "active_keys (snd (clear_section env g c s)) = active_keys g - {(c, s)}"
  using clear_section_result [OF assms, of c s env] record_cleared_inv [OF assms] assms by (auto split: if_splits)

section \<open>The interface of the table\<close>

datatype alarm_op = Op_trigger u32 u32 "string option" | Op_clear u32 u32

fun table_run :: "('g \<Rightarrow> u32 \<Rightarrow> u32 \<Rightarrow> string option \<Rightarrow> int \<times> 'g) \<Rightarrow> ('g \<Rightarrow> u32 \<Rightarrow> u32 \<Rightarrow> int \<times> 'g) \<Rightarrow> 'g \<Rightarrow> alarm_op list \<Rightarrow> 'g" where
  "table_run trigger clear g [] = g"
| "table_run trigger clear g (Op_trigger c s i # ops) = table_run trigger clear (snd (trigger g c s i)) ops"
| "table_run trigger clear g (Op_clear c s # ops) = table_run trigger clear (snd (clear g c s)) ops"

text \<open>The specification: a set of alarms.\<close>

fun set_run :: "(u32 \<times> u32) set \<Rightarrow> alarm_op list \<Rightarrow> (u32 \<times> u32) set" where
  "set_run A [] = A"
| "set_run A (Op_trigger c s i # ops) = set_run (insert (c, s) A) ops"
| "set_run A (Op_clear c s # ops) = set_run (A - {(c, s)}) ops"

fun op_key :: "alarm_op \<Rightarrow> u32 \<times> u32" where
  "op_key (Op_trigger c s i) = (c, s)"
| "op_key (Op_clear c s) = (c, s)"

text \<open>What the checks rely on: triggering adds an alarm while there is room and does nothing to one
  that is active, clearing removes it, and neither touches the state of the trackers.\<close>

locale alarm_set =
  fixes trigger :: "'g \<Rightarrow> u32 \<Rightarrow> u32 \<Rightarrow> string option \<Rightarrow> int \<times> 'g"
    and clear :: "'g \<Rightarrow> u32 \<Rightarrow> u32 \<Rightarrow> int \<times> 'g"
    and keys :: "'g \<Rightarrow> (u32 \<times> u32) set"
    and valid :: "'g \<Rightarrow> bool"
    and rest :: "'g \<Rightarrow> 'r"
    and capacity :: nat
  assumes trigger_new: "valid g \<Longrightarrow> (c, s) \<notin> keys g \<Longrightarrow> card (keys g) < capacity \<Longrightarrow>
      valid (snd (trigger g c s i)) \<and> keys (snd (trigger g c s i)) = insert (c, s) (keys g) \<and> rest (snd (trigger g c s i)) = rest g"
    and trigger_known: "valid g \<Longrightarrow> (c, s) \<in> keys g \<Longrightarrow> trigger g c s i = (SUCCESS, g)"
    and trigger_full: "valid g \<Longrightarrow> (c, s) \<notin> keys g \<Longrightarrow> card (keys g) = capacity \<Longrightarrow> trigger g c s i = (ERROR_GENERAL, g)"
    and clear_laws: "valid g \<Longrightarrow>
      valid (snd (clear g c s)) \<and> keys (snd (clear g c s)) = keys g - {(c, s)} \<and> rest (snd (clear g c s)) = rest g"
    and keys_card: "valid g \<Longrightarrow> finite (keys g) \<and> card (keys g) \<le> capacity"
begin

lemma room:
  assumes "valid g" "finite K" "keys g \<subseteq> K" "k \<in> K" "k \<notin> keys g" "card K \<le> capacity"
  shows "card (keys g) < capacity"
proof -
  have "card (insert k (keys g)) \<le> card K" using assms by (intro card_mono) auto
  then show ?thesis using assms keys_card [OF assms(1)] by simp
qed

lemma trigger_in:
  assumes "valid g" "finite K" "keys g \<subseteq> K" "(c, s) \<in> K" "card K \<le> capacity"
  shows "valid (snd (trigger g c s i)) \<and> keys (snd (trigger g c s i)) = insert (c, s) (keys g) \<and> rest (snd (trigger g c s i)) = rest g"
  using assms trigger_new [OF assms(1) _ room] trigger_known [OF assms(1), of c s i] by (cases "(c, s) \<in> keys g") auto

lemma run_set:
  assumes "valid g" "finite K" "card K \<le> capacity" "keys g \<subseteq> K" "op_key ` set ops \<subseteq> K"
  shows "valid (table_run trigger clear g ops) \<and> keys (table_run trigger clear g ops) = set_run (keys g) ops
    \<and> rest (table_run trigger clear g ops) = rest g"
  using assms
proof (induction ops arbitrary: g)
  case (Cons p ops)
  show ?case
  proof (cases p)
    case (Op_trigger c s i)
    then have "(c, s) \<in> K" using Cons.prems(5) by simp
    note t = trigger_in [OF Cons.prems(1,2,4) this Cons.prems(3), of i]
    then show ?thesis using Cons.IH [of "snd (trigger g c s i)"] Cons.prems Op_trigger by auto
  next
    case (Op_clear c s)
    then show ?thesis using clear_laws [OF Cons.prems(1), of c s] Cons.IH [of "snd (clear g c s)"] Cons.prems by auto
  qed
qed simp

text \<open>A check that knows whether its alarm is active leaves it active exactly when its condition
  holds.\<close>

lemma edge_keys:
  assumes "valid g" "finite K" "card K \<le> capacity" "keys g \<subseteq> K" "(c, s) \<in> K" "prev \<longleftrightarrow> (c, s) \<in> keys g"
  shows "valid (alarm_edge trigger clear g prev cur c s info)
     \<and> keys (alarm_edge trigger clear g prev cur c s info) = (if cur then insert (c, s) (keys g) else keys g - {(c, s)})
     \<and> rest (alarm_edge trigger clear g prev cur c s info) = rest g"
  using trigger_in [OF assms(1,2,4,5,3), of "Some info"] clear_laws [OF assms(1), of c s] assms(1,6)
  by (auto simp: alarm_edge_def)

end

definition alarm_rest :: "alarm_manager \<Rightarrow> alarm_state_tracker \<times> alarm_config \<times> bool \<times> u64 \<times> bool" where
  "alarm_rest g = (am_state_tracker g, am_config g, am_grace_armed g, am_grace_end g, am_tcp_connected g)"

lemma report_table [simp]:
  "am_inv (snd (alarm_report_to_bbu env g c s f i)) = am_inv g"
  "active_keys (snd (alarm_report_to_bbu env g c s f i)) = active_keys g"
  "alarm_rest (snd (alarm_report_to_bbu env g c s f i)) = alarm_rest g"
  "am_records (snd (alarm_report_to_bbu env g c s f i)) = am_records g"
  by (simp_all add: report_result alarm_rest_def split: option.splits)

lemma mark_reported_rest [simp]:
  "alarm_rest (mark_reported_section g idx c s) = alarm_rest g"
  "am_sent (mark_reported_section g idx c s) = am_sent g" "am_serial_num (mark_reported_section g idx c s) = am_serial_num g"
  by (simp_all add: mark_reported_section_def Let_def alarm_rest_def)

lemma record_cleared_rest [simp]: "alarm_rest (record_cleared env g idx) = alarm_rest g"
  by (simp add: record_cleared_def alarm_rest_def)

interpretation table: alarm_set "alarm_trigger env" "alarm_clear env" active_keys am_inv alarm_rest 64
proof
  fix g c s i
  assume inv: "am_inv g"
  note tr = trigger_section_result [OF inv, of c s env i]
  show "alarm_trigger env g c s i = (SUCCESS, g)" if "(c, s) \<in> active_keys g"
    using tr that by (simp add: alarm_trigger_def)
  show "alarm_trigger env g c s i = (ERROR_GENERAL, g)" if "(c, s) \<notin> active_keys g" "card (active_keys g) = 64"
    using tr that by (simp add: alarm_trigger_def)
  show "am_inv (snd (alarm_trigger env g c s i)) \<and> active_keys (snd (alarm_trigger env g c s i)) = insert (c, s) (active_keys g)
      \<and> alarm_rest (snd (alarm_trigger env g c s i)) = alarm_rest g"
    if new: "(c, s) \<notin> active_keys g" "card (active_keys g) < 64"
  proof -
    obtain idx where idx: "idx < 64" "\<not> ar_active (am_records g ! idx)"
      "trigger_section env g c s i = (Recorded idx, record_added g idx (new_record env c s i))"
      using tr new by auto
    note k = record_added_inv [OF inv idx(1,2), of "new_record env c s i"]
    then show ?thesis
      using idx(3) new by (auto simp: alarm_trigger_def mark_reported_keys) (auto simp: alarm_rest_def)
  qed
  show "am_inv (snd (alarm_clear env g c s)) \<and> active_keys (snd (alarm_clear env g c s)) = active_keys g - {(c, s)}
      \<and> alarm_rest (snd (alarm_clear env g c s)) = alarm_rest g"
  proof (cases "(c, s) \<in> active_keys g")
    case True
    then obtain idx t where "clear_section env g c s = (Some t, record_cleared env g idx)"
      using clear_section_result [OF inv, of c s env] by auto
    then show ?thesis using clear_section_inv [OF inv, of env c s] by (simp add: alarm_clear_def)
  next
    case False
    then show ?thesis using clear_section_result [OF inv, of c s env] inv by (simp add: alarm_clear_def)
  qed
  show "finite (active_keys g) \<and> card (active_keys g) \<le> 64"
    using active_keys_card [OF inv] key_list_le [of "am_records g"] inv by (simp add: active_keys_def am_inv_def)
qed

section \<open>Checks and trackers\<close>

abbreviation temp_key :: "nat \<Rightarrow> u32 \<times> u32" where "temp_key p \<equiv> (ALARM_CODE_OVER_TEMPERATURE, of_nat p)"
abbreviation optical_key :: "nat \<Rightarrow> u32 \<times> u32" where "optical_key p \<equiv> (ALARM_CODE_OPTICAL_SYNC_LOSS, of_nat p)"

definition check_keys :: "(u32 \<times> u32) set" where
  "check_keys = {(ALARM_CODE_LO_UNLOCK, 0), (ALARM_CODE_CHANNEL_FAULT_EXCEED, 0)} \<union> temp_key ` {..<10} \<union> optical_key ` {..<8}"

text \<open>The trackers agree with the table.\<close>

definition tracker_ok :: "alarm_state_tracker \<Rightarrow> (u32 \<times> u32) set \<Rightarrow> bool" where
  "tracker_ok t A \<longleftrightarrow> length (at_optical_sync_loss t) = 8 \<and> length (at_over_temperature t) = 10
     \<and> (at_lo_unlock_active t \<longleftrightarrow> (ALARM_CODE_LO_UNLOCK, 0) \<in> A)
     \<and> (at_channel_fault_exceed_active t \<longleftrightarrow> (ALARM_CODE_CHANNEL_FAULT_EXCEED, 0) \<in> A)
     \<and> (\<forall>p<10. at_over_temperature t ! p \<longleftrightarrow> temp_key p \<in> A) \<and> (\<forall>p<8. at_optical_sync_loss t ! p \<longleftrightarrow> optical_key p \<in> A)"

text \<open>\<open>K\<close> is a set of alarms that covers what is active and what the checks can raise, and for which
  the table has room.\<close>

definition checks_ok :: "(u32 \<times> u32) set \<Rightarrow> alarm_manager \<Rightarrow> bool" where
  "checks_ok K g \<longleftrightarrow> am_inv g \<and> finite K \<and> card K \<le> 64 \<and> check_keys \<subseteq> K \<and> active_keys g \<subseteq> K
     \<and> tracker_ok (am_state_tracker g) (active_keys g)"

fun put_keys :: "(u32 \<times> u32) set \<Rightarrow> ((u32 \<times> u32) \<times> bool) list \<Rightarrow> (u32 \<times> u32) set" where
  "put_keys A [] = A"
| "put_keys A ((k, b) # kbs) = put_keys (if b then insert k A else A - {k}) kbs"

lemma put_keys_append: "put_keys A (xs @ ys) = put_keys (put_keys A xs) ys"
  by (induction A xs rule: put_keys.induct) simp_all

lemma put_keys_other: "k \<notin> fst ` set kbs \<Longrightarrow> k \<in> put_keys A kbs \<longleftrightarrow> k \<in> A"
  by (induction A kbs rule: put_keys.induct) auto

lemma put_keys_at: "distinct (map fst kbs) \<Longrightarrow> (k, b) \<in> set kbs \<Longrightarrow> k \<in> put_keys A kbs \<longleftrightarrow> b"
proof (induction A kbs rule: put_keys.induct)
  case (2 A k' b' kbs)
  then show ?case using put_keys_other [of k' kbs] by (force split: if_splits)
qed simp

definition check_step :: "(u32 \<times> u32) set \<Rightarrow> alarm_manager \<Rightarrow> ((u32 \<times> u32) \<times> bool) list \<Rightarrow> alarm_manager \<Rightarrow> bool" where
  "check_step K g kbs g' \<longleftrightarrow> checks_ok K g' \<and> active_keys g' = put_keys (active_keys g) kbs
     \<and> am_config g' = am_config g \<and> am_grace_armed g' = am_grace_armed g \<and> am_grace_end g' = am_grace_end g"

lemma check_step_refl: "checks_ok K g \<Longrightarrow> check_step K g [] g"
  by (simp add: check_step_def)

lemma check_step_trans: "check_step K g a g' \<Longrightarrow> check_step K g' b g'' \<Longrightarrow> check_step K g (a @ b) g''"
  by (simp add: check_step_def put_keys_append)

lemma u32_of_nat_inj: "p < 2 ^ 32 \<Longrightarrow> q < 2 ^ 32 \<Longrightarrow> (of_nat p :: u32) = of_nat q \<longleftrightarrow> p = q"
  by (metis u32_of_nat)

lemma port_word: "p < 256 \<Longrightarrow> (ucast (of_nat p :: u8) :: u32) = of_nat p"
  by (simp add: u32_eq_nat unat_ucast_up u8_of_nat u32_of_nat)

text \<open>The common part of the checks: update the tracker, then act on the edge.\<close>

lemma check_edge:
  assumes ok: "checks_ok K g" and k: "(c, s) \<in> check_keys" and prev: "prev \<longleftrightarrow> (c, s) \<in> active_keys g"
    and t: "tracker_ok (f (am_state_tracker g)) (put_keys (active_keys g) [((c, s), cur)])"
  shows "check_step K g [((c, s), cur)] (alarm_edge (alarm_trigger env) (alarm_clear env) (tracker_update f g) prev cur c s info)"
proof -
  have "am_inv (tracker_update f g)" "finite K" "card K \<le> 64" "active_keys (tracker_update f g) \<subseteq> K" "(c, s) \<in> K"
    "prev \<longleftrightarrow> (c, s) \<in> active_keys (tracker_update f g)" using ok k prev by (auto simp: checks_ok_def)
  note e = table.edge_keys [OF this, of env cur info]
  then have "active_keys (alarm_edge (alarm_trigger env) (alarm_clear env) (tracker_update f g) prev cur c s info)
      = put_keys (active_keys g) [((c, s), cur)]" by simp
  then show ?thesis using e ok t k by (auto simp: check_step_def checks_ok_def alarm_rest_def)
qed

lemma check_lo_unlock_step:
  assumes "checks_ok K g"
  shows "check_step K g [((ALARM_CODE_LO_UNLOCK, 0), w \<noteq> 0)] (alarm_check_lo_unlock env g w)"
  unfolding alarm_check_lo_unlock_def Let_def
  by (rule check_edge [OF assms]) (use assms in \<open>auto simp: check_keys_def checks_ok_def tracker_ok_def\<close>)

lemma check_channel_fault_step:
  assumes "checks_ok K g"
  shows "check_step K g [((ALARM_CODE_CHANNEL_FAULT_EXCEED, 0), ac_channel_fault_threshold (am_config g) < n)]
     (alarm_check_channel_fault_exceed env g n)"
  unfolding alarm_check_channel_fault_exceed_def Let_def
  by (rule check_edge [OF assms]) (use assms in \<open>auto simp: check_keys_def checks_ok_def tracker_ok_def\<close>)

lemma check_temperature_step:
  assumes "checks_ok K g" "p < 10"
  shows "check_step K g [(temp_key p, temp_out_of_range (am_config g) t)] (alarm_check_over_temperature env g (of_nat p) t)"
proof -
  have p: "\<not> (10 :: u8) \<le> of_nat p" "unat (of_nat p :: u8) = p" "(ucast (of_nat p :: u8) :: u32) = of_nat p"
    using assms(2) by (simp_all add: word_le_nat_alt u8_of_nat port_word)
  show ?thesis
    unfolding alarm_check_over_temperature_def Let_def p(2,3) if_not_P [OF p(1)]
    by (rule check_edge [OF assms(1)])
      (use assms in \<open>auto simp: check_keys_def checks_ok_def tracker_ok_def nth_list_update u32_of_nat_inj\<close>)
qed

lemma check_optical_step:
  assumes "checks_ok K g" "p < 8"
  shows "check_step K g [(optical_key p, \<not> sync)] (alarm_check_optical_sync_loss env g (of_nat p) sync)"
proof -
  have p: "\<not> (8 :: u8) \<le> of_nat p" "unat (of_nat p :: u8) = p" "(ucast (of_nat p :: u8) :: u32) = of_nat p"
    using assms(2) by (simp_all add: word_le_nat_alt u8_of_nat port_word)
  show ?thesis
    unfolding alarm_check_optical_sync_loss_def Let_def p(2,3) if_not_P [OF p(1)]
    by (rule check_edge [OF assms(1)])
      (use assms in \<open>auto simp: check_keys_def checks_ok_def tracker_ok_def nth_list_update u32_of_nat_inj\<close>)
qed

text \<open>The alarms a telemetry frame is about, each with whether it should be active.\<close>

definition port_conditions :: "alarm_config \<Rightarrow> u8 \<Rightarrow> nat \<Rightarrow> ((u32 \<times> u32) \<times> bool) list" where
  "port_conditions c flag i = (optical_key i, \<not> bit flag i)
     # (if ac_optical_port_count c = 8 then [(optical_key (i + 4), \<not> bit flag (i + 4))] else [])"

definition status_conditions :: "alarm_config \<Rightarrow> fpga_status_data \<Rightarrow> ((u32 \<times> u32) \<times> bool) list" where
  "status_conditions c d =
     [((ALARM_CODE_LO_UNLOCK, 0), sd_lo_lock_status d \<noteq> 0), (temp_key 0, temp_out_of_range c (sd_temp1 d)),
      (temp_key 1, temp_out_of_range c (sd_temp2 d)), (temp_key 2, temp_out_of_range c (sd_temp3 d)),
      ((ALARM_CODE_CHANNEL_FAULT_EXCEED, 0), ac_channel_fault_threshold c < sd_channel_fault_count d)]"

definition telemetry_conditions :: "alarm_config \<Rightarrow> fpga_status_data \<Rightarrow> bool \<Rightarrow> ((u32 \<times> u32) \<times> bool) list" where
  "telemetry_conditions c d grace =
     status_conditions c d @ (if grace then [] else concat (map (port_conditions c (sd_link_success_flag d)) [0..<4]))"

lemma telemetry_conditions_distinct: "distinct (map fst (telemetry_conditions c d grace))"
  by (simp add: telemetry_conditions_def status_conditions_def port_conditions_def upt_rec)

lemma optical_turn_step:
  assumes "checks_ok K g" "i < 4"
  shows "check_step K g (port_conditions (am_config g) flag i) (optical_turn env flag g i)"
proof -
  note a = check_optical_step [OF assms(1), of i "bit flag i" env]
  then have "checks_ok K (alarm_check_optical_sync_loss env g (of_nat i) (bit flag i))"
    "am_config (alarm_check_optical_sync_loss env g (of_nat i) (bit flag i)) = am_config g"
    using assms(2) by (simp_all add: check_step_def)
  then show ?thesis
    using check_step_trans [OF a check_optical_step [of K _ "i + 4" "bit flag (i + 4)" env]] a assms(2)
    by (simp add: optical_turn_def port_conditions_def Let_def)
qed

lemma optical_turns_step:
  "checks_ok K g \<Longrightarrow> list_all (\<lambda>i. i < 4) is \<Longrightarrow>
     check_step K g (concat (map (port_conditions (am_config g) flag) is)) (foldl (optical_turn env flag) g is)"
proof (induction "is" arbitrary: g)
  case (Cons i js)
  then have a: "check_step K g (port_conditions (am_config g) flag i) (optical_turn env flag g i)"
    by (simp add: optical_turn_step)
  then show ?case
    using check_step_trans [OF a] Cons.IH [of "optical_turn env flag g i"] Cons.prems by (simp add: check_step_def)
qed (simp add: check_step_refl)

definition status_checks :: "alarm_env \<Rightarrow> alarm_manager \<Rightarrow> fpga_status_data \<Rightarrow> alarm_manager" where
  "status_checks env g d =
     (let g = alarm_check_lo_unlock env g (sd_lo_lock_status d);
          g = alarm_check_over_temperature env g 0 (sd_temp1 d);
          g = alarm_check_over_temperature env g 1 (sd_temp2 d);
          g = alarm_check_over_temperature env g 2 (sd_temp3 d)
      in alarm_check_channel_fault_exceed env g (sd_channel_fault_count d))"

lemma status_checks_step:
  assumes "checks_ok K g"
  shows "check_step K g (status_conditions (am_config g) d) (status_checks env g d)"
proof -
  define g1 where "g1 = alarm_check_lo_unlock env g (sd_lo_lock_status d)"
  define g2 where "g2 = alarm_check_over_temperature env g1 (of_nat 0) (sd_temp1 d)"
  define g3 where "g3 = alarm_check_over_temperature env g2 (of_nat 1) (sd_temp2 d)"
  define g4 where "g4 = alarm_check_over_temperature env g3 (of_nat 2) (sd_temp3 d)"
  have s1: "check_step K g [((ALARM_CODE_LO_UNLOCK, 0), sd_lo_lock_status d \<noteq> 0)] g1"
    unfolding g1_def by (rule check_lo_unlock_step [OF assms])
  then have c1: "checks_ok K g1" "am_config g1 = am_config g" by (simp_all add: check_step_def)
  have s2: "check_step K g1 [(temp_key 0, temp_out_of_range (am_config g) (sd_temp1 d))] g2"
    unfolding g2_def c1(2) [symmetric] by (rule check_temperature_step [OF c1(1)]) simp
  then have c2: "checks_ok K g2" "am_config g2 = am_config g" using c1 by (simp_all add: check_step_def)
  have s3: "check_step K g2 [(temp_key 1, temp_out_of_range (am_config g) (sd_temp2 d))] g3"
    unfolding g3_def c2(2) [symmetric] by (rule check_temperature_step [OF c2(1)]) simp
  then have c3: "checks_ok K g3" "am_config g3 = am_config g" using c2 by (simp_all add: check_step_def)
  have s4: "check_step K g3 [(temp_key 2, temp_out_of_range (am_config g) (sd_temp3 d))] g4"
    unfolding g4_def c3(2) [symmetric] by (rule check_temperature_step [OF c3(1)]) simp
  then have c4: "checks_ok K g4" "am_config g4 = am_config g" using c3 by (simp_all add: check_step_def)
  note s5 = check_channel_fault_step [OF c4(1), of "sd_channel_fault_count d" env, unfolded c4(2)]
  have "status_checks env g d = alarm_check_channel_fault_exceed env g4 (sd_channel_fault_count d)"
    by (simp add: status_checks_def g1_def g2_def g3_def g4_def)
  then show ?thesis
    using check_step_trans [OF check_step_trans [OF check_step_trans [OF check_step_trans [OF s1 s2] s3] s4] s5]
    by (simp add: status_conditions_def)
qed

lemma periodic_check_parts:
  "alarm_periodic_check env g f =
     (let (grace, g) = alarm_optical_in_grace env (status_checks env g (sf_data f))
      in if \<not> grace then foldl (optical_turn env (sd_link_success_flag (sf_data f))) g [0..<4] else g)"
  by (simp add: alarm_periodic_check_def status_checks_def Let_def)

lemma optical_in_grace_frame:
  "alarm_optical_in_grace env g = (grace, g') \<Longrightarrow>
     checks_ok K g' = checks_ok K g \<and> active_keys g' = active_keys g \<and> am_config g' = am_config g"
  by (auto simp: alarm_optical_in_grace_def checks_ok_def split: if_splits option.splits)

lemma optical_in_grace_cong:
  "am_config g' = am_config g \<Longrightarrow> am_grace_armed g' = am_grace_armed g \<Longrightarrow> am_grace_end g' = am_grace_end g \<Longrightarrow>
     fst (alarm_optical_in_grace env g') = fst (alarm_optical_in_grace env g)"
  by (simp add: alarm_optical_in_grace_def split: option.splits)

lemma periodic_check_keys:
  assumes "checks_ok K g"
  shows "checks_ok K (alarm_periodic_check env g f)"
    "active_keys (alarm_periodic_check env g f)
       = put_keys (active_keys g) (telemetry_conditions (am_config g) (sf_data f) (fst (alarm_optical_in_grace env g)))"
    "am_config (alarm_periodic_check env g f) = am_config g"
proof -
  let ?g1 = "status_checks env g (sf_data f)"
  note s = status_checks_step [OF assms, of "sf_data f" env]
  obtain grace g2 where og: "alarm_optical_in_grace env ?g1 = (grace, g2)" by fastforce
  have gr: "fst (alarm_optical_in_grace env g) = grace"
    using optical_in_grace_cong [of ?g1 g env] og s by (simp add: check_step_def)
  have g2: "checks_ok K g2" "active_keys g2 = active_keys ?g1" "am_config g2 = am_config g"
    using optical_in_grace_frame [OF og] s by (auto simp: check_step_def)
  note o = optical_turns_step [OF g2(1), of "[0..<4]" "sd_link_success_flag (sf_data f)" env]
  have l: "list_all (\<lambda>i. i < 4) [0..<4::nat]" by (simp add: list_all_iff)
  show "checks_ok K (alarm_periodic_check env g f)" "am_config (alarm_periodic_check env g f) = am_config g"
    "active_keys (alarm_periodic_check env g f)
       = put_keys (active_keys g) (telemetry_conditions (am_config g) (sf_data f) (fst (alarm_optical_in_grace env g)))"
    using s g2 o [OF l] unfolding gr
    by (simp_all add: periodic_check_parts og telemetry_conditions_def check_step_def put_keys_append del: upt_rec_numeral)
qed

text \<open>Checks whose alarm already is as the condition says change nothing at all.\<close>

lemma tracker_update_same:
  "tracker_update (\<lambda>t. t\<lparr>at_lo_unlock_active := at_lo_unlock_active (am_state_tracker g)\<rparr>) g = g"
  "tracker_update (\<lambda>t. t\<lparr>at_channel_fault_exceed_active := at_channel_fault_exceed_active (am_state_tracker g)\<rparr>) g = g"
  "tracker_update (\<lambda>t. t\<lparr>at_over_temperature := (at_over_temperature t)[p := at_over_temperature (am_state_tracker g) ! p]\<rparr>) g = g"
  "tracker_update (\<lambda>t. t\<lparr>at_optical_sync_loss := (at_optical_sync_loss t)[p := at_optical_sync_loss (am_state_tracker g) ! p]\<rparr>) g = g"
  by (cases "am_state_tracker g"; cases g; simp)+

lemma alarm_edge_same [simp]: "alarm_edge trigger clear g b b c s info = g"
  by (simp add: alarm_edge_def)

lemma check_lo_unlock_quiet:
  assumes "checks_ok K g" "(ALARM_CODE_LO_UNLOCK, 0) \<in> active_keys g \<longleftrightarrow> w \<noteq> 0"
  shows "alarm_check_lo_unlock env g w = g"
proof -
  have "(w \<noteq> 0) = at_lo_unlock_active (am_state_tracker g)" using assms by (auto simp: checks_ok_def tracker_ok_def)
  then show ?thesis unfolding alarm_check_lo_unlock_def by (simp only: Let_def tracker_update_same alarm_edge_same)
qed

lemma check_channel_fault_quiet:
  assumes "checks_ok K g" "(ALARM_CODE_CHANNEL_FAULT_EXCEED, 0) \<in> active_keys g \<longleftrightarrow> ac_channel_fault_threshold (am_config g) < n"
  shows "alarm_check_channel_fault_exceed env g n = g"
proof -
  have "(ac_channel_fault_threshold (am_config g) < n) = at_channel_fault_exceed_active (am_state_tracker g)"
    using assms by (auto simp: checks_ok_def tracker_ok_def)
  then show ?thesis unfolding alarm_check_channel_fault_exceed_def by (simp only: Let_def tracker_update_same alarm_edge_same)
qed

lemma check_temperature_quiet:
  assumes "checks_ok K g" "p < 10" "temp_key p \<in> active_keys g \<longleftrightarrow> temp_out_of_range (am_config g) t"
  shows "alarm_check_over_temperature env g (of_nat p) t = g"
proof -
  have "temp_out_of_range (am_config g) t = at_over_temperature (am_state_tracker g) ! p"
    using assms by (auto simp: checks_ok_def tracker_ok_def)
  moreover have "unat (of_nat p :: u8) = p" using assms(2) by (simp add: u8_of_nat)
  ultimately show ?thesis
    unfolding alarm_check_over_temperature_def by (simp only: Let_def tracker_update_same alarm_edge_same if_cancel)
qed

lemma check_optical_quiet:
  assumes "checks_ok K g" "p < 8" "optical_key p \<in> active_keys g \<longleftrightarrow> \<not> sync"
  shows "alarm_check_optical_sync_loss env g (of_nat p) sync = g"
proof -
  have "(\<not> sync) = at_optical_sync_loss (am_state_tracker g) ! p"
    using assms by (auto simp: checks_ok_def tracker_ok_def)
  moreover have "unat (of_nat p :: u8) = p" using assms(2) by (simp add: u8_of_nat)
  ultimately show ?thesis
    unfolding alarm_check_optical_sync_loss_def by (simp only: Let_def tracker_update_same alarm_edge_same if_cancel)
qed

definition conditions_met :: "((u32 \<times> u32) \<times> bool) list \<Rightarrow> (u32 \<times> u32) set \<Rightarrow> bool" where
  "conditions_met kbs A \<longleftrightarrow> list_all (\<lambda>(k, b). k \<in> A \<longleftrightarrow> b) kbs"

lemma conditions_met_append: "conditions_met (xs @ ys) A \<longleftrightarrow> conditions_met xs A \<and> conditions_met ys A"
  by (simp add: conditions_met_def)

lemma conditions_met_concat: "conditions_met (concat yss) A \<longleftrightarrow> (\<forall>ys\<in>set yss. conditions_met ys A)"
  by (induction yss) (simp_all add: conditions_met_append, simp add: conditions_met_def)

lemma put_keys_met: "distinct (map fst kbs) \<Longrightarrow> conditions_met kbs (put_keys A kbs)"
  by (auto simp: conditions_met_def list_all_iff put_keys_at)

lemma optical_turn_quiet:
  assumes "checks_ok K g" "i < 4" "conditions_met (port_conditions (am_config g) flag i) (active_keys g)"
  shows "optical_turn env flag g i = g"
proof -
  have "alarm_check_optical_sync_loss env g (of_nat i) (bit flag i) = g"
    using assms by (intro check_optical_quiet) (auto simp: conditions_met_def port_conditions_def)
  moreover have "alarm_check_optical_sync_loss env g (of_nat (i + 4)) (bit flag (i + 4)) = g" if "ac_optical_port_count (am_config g) = 8"
    using assms that by (intro check_optical_quiet) (auto simp: conditions_met_def port_conditions_def)
  ultimately show ?thesis by (simp add: optical_turn_def Let_def)
qed

lemma status_checks_quiet:
  assumes "checks_ok K g" "conditions_met (status_conditions (am_config g) d) (active_keys g)"
  shows "status_checks env g d = g"
proof -
  note t = check_temperature_quiet [OF assms(1), of 0, simplified] check_temperature_quiet [OF assms(1), of 1, simplified]
    check_temperature_quiet [OF assms(1), of 2, simplified]
  show ?thesis
    using assms(2) t check_lo_unlock_quiet [OF assms(1)] check_channel_fault_quiet [OF assms(1)]
    by (simp add: status_checks_def conditions_met_def status_conditions_def)
qed

lemma foldl_fixed: "list_all (\<lambda>i. f g i = g) is \<Longrightarrow> foldl f g is = g"
  by (induction "is") simp_all

lemma periodic_check_quiet:
  assumes "checks_ok K g" "conditions_met (telemetry_conditions (am_config g) (sf_data f) False) (active_keys g)"
    "\<not> fst (alarm_optical_in_grace env g)"
  shows "alarm_periodic_check env g f = g"
proof -
  have m: "conditions_met (status_conditions (am_config g) (sf_data f)) (active_keys g)"
    "\<And>i. i < 4 \<Longrightarrow> conditions_met (port_conditions (am_config g) (sd_link_success_flag (sf_data f)) i) (active_keys g)"
    using assms(2) by (simp_all add: telemetry_conditions_def conditions_met_append conditions_met_concat del: upt_rec_numeral)
  have "alarm_optical_in_grace env g = (False, g)"
    using assms(3) by (auto simp: alarm_optical_in_grace_def split: if_splits option.splits)
  moreover have "list_all (\<lambda>i. optical_turn env (sd_link_success_flag (sf_data f)) g i = g) [0..<4]"
    using optical_turn_quiet [OF assms(1) _ m(2)] by (simp add: list_all_iff del: upt_rec_numeral)
  ultimately show ?thesis
    by (simp add: periodic_check_parts status_checks_quiet [OF assms(1) m(1)] foldl_fixed del: upt_rec_numeral)
qed

lemma check_keys_card: "finite check_keys" "card check_keys \<le> 20"
proof -
  have t: "card (temp_key ` {..<10}) \<le> 10" "card (optical_key ` {..<8}) \<le> 8"
    using card_image_le [of "{..<10}" temp_key] card_image_le [of "{..<8}" optical_key] by simp_all
  have "card ({(ALARM_CODE_LO_UNLOCK, 0), (ALARM_CODE_CHANNEL_FAULT_EXCEED, 0)} \<union> temp_key ` {..<10}) \<le> 12"
    by (rule order_trans [OF card_Un_le]) (use t in simp)
  then show "card check_keys \<le> 20" unfolding check_keys_def by (intro order_trans [OF card_Un_le]) (use t in simp)
qed (simp add: check_keys_def)

lemma init_checks_ok:
  "active_keys (snd (alarm_manager_init ok config g)) = {}" "checks_ok check_keys (snd (alarm_manager_init ok config g))"
proof -
  have k: "key_list (replicate n alarm_record_zero) = []" for n by (simp add: key_list_def alarm_record_zero_def)
  then show e: "active_keys (snd (alarm_manager_init ok config g)) = {}" by (simp add: active_keys_def alarm_manager_init_def Let_def)
  show "checks_ok check_keys (snd (alarm_manager_init ok config g))"
    using check_keys_card unfolding checks_ok_def e
    by (simp add: k am_inv_def alarm_manager_init_def MAX_ALARM_RECORDS_def tracker_ok_def Let_def nth_replicate)
qed

section \<open>Pending reports\<close>

definition unreported :: "alarm_record \<Rightarrow> bool" where
  "unreported r \<longleftrightarrow> ar_active r \<and> \<not> ar_reported r"

definition mark_unreported :: "alarm_record \<Rightarrow> alarm_record" where
  "mark_unreported r = (if unreported r then r\<lparr>ar_reported := True\<rparr> else r)"

text \<open>The messages for a list of records, with the serial numbers that follow \<open>n\<close>.\<close>

fun pending_wires :: "u32 \<Rightarrow> local_time \<Rightarrow> alarm_record list \<Rightarrow> bytes list" where
  "pending_wires n tm [] = []"
| "pending_wires n tm (r # rs) =
     alarm_wire (n + 1) tm (ar_alarm_code r) (ar_sub_code r) ALARM_CLEAR_FLAG_ACTIVE (Some (take 99 (ar_additional_info r)))
     # pending_wires (n + 1) tm rs"

lemma pending_wires_snoc: "pending_wires n tm (rs @ [r]) = pending_wires n tm rs @
    [alarm_wire (n + of_nat (length rs) + 1) tm (ar_alarm_code r) (ar_sub_code r) ALARM_CLEAR_FLAG_ACTIVE
       (Some (take 99 (ar_additional_info r)))]"
  by (induction rs arbitrary: n) (simp_all add: ac_simps)

definition pending_state :: "local_time \<Rightarrow> alarm_manager \<Rightarrow> nat \<Rightarrow> alarm_manager" where
  "pending_state tm g n =
     (let todo = filter unreported (take n (am_records g))
      in g\<lparr>am_records := map mark_unreported (take n (am_records g)) @ drop n (am_records g),
           am_serial_num := am_serial_num g + of_nat (length todo),
           am_sent := am_sent g @ pending_wires (am_serial_num g) tm todo\<rparr>)"

lemma mark_turn:
  assumes "am_records g = xs @ r # ys" "unreported r" "i < 64" "length xs = i"
  shows "mark_reported_section g i (ar_alarm_code r) (ar_sub_code r) = g\<lparr>am_records := xs @ mark_unreported r # ys\<rparr>"
  using assms
  by (auto simp: mark_reported_section_def mark_unreported_def unreported_def MAX_ALARM_RECORDS_def nth_append list_update_append)

lemma report_pending_turn_state:
  assumes "length (am_records g) = 64" "n < 64" "en_local env = Some tm"
  shows "report_pending_turn env (int (length (filter unreported (take n (am_records g)))), pending_state tm g n) n
     = (int (length (filter unreported (take (Suc n) (am_records g)))), pending_state tm g (Suc n))"
proof -
  let ?rs = "am_records g" and ?r = "am_records g ! n"
  have d: "drop n ?rs = ?r # drop (Suc n) ?rs" and t: "take (Suc n) ?rs = take n ?rs @ [?r]"
    using assms by (simp_all add: Cons_nth_drop_Suc take_Suc_conv_app_nth)
  have at: "am_records (pending_state tm g n) ! n = ?r"
    using assms by (simp add: pending_state_def Let_def nth_append d)
  define h where "h = pending_state tm g n"
  have h: "am_records h = map mark_unreported (take n ?rs) @ ?r # drop (Suc n) ?rs"
    "am_records h ! n = ?r" "am_serial_num h = am_serial_num g + of_nat (length (filter unreported (take n ?rs)))"
    "am_sent h = am_sent g @ pending_wires (am_serial_num g) tm (filter unreported (take n ?rs))"
    using at by (simp_all add: h_def pending_state_def Let_def d)
  show ?thesis
  proof (cases "unreported ?r")
    case True
    let ?h' = "h\<lparr>am_serial_num := am_serial_num h + 1, am_sent := am_sent h @ [alarm_wire (am_serial_num h + 1) tm
      (ar_alarm_code ?r) (ar_sub_code ?r) ALARM_CLEAR_FLAG_ACTIVE (Some (take 99 (ar_additional_info ?r)))]\<rparr>"
    have "mark_reported_section ?h' n (ar_alarm_code ?r) (ar_sub_code ?r)
        = ?h'\<lparr>am_records := map mark_unreported (take n ?rs) @ mark_unreported ?r # drop (Suc n) ?rs\<rparr>"
      using assms h(1) True by (intro mark_turn) simp_all
    moreover have "pending_state tm g (Suc n)
        = ?h'\<lparr>am_records := map mark_unreported (take n ?rs) @ mark_unreported ?r # drop (Suc n) ?rs\<rparr>"
      using True unfolding h(3,4) by (simp add: pending_state_def Let_def t pending_wires_snoc h_def)
    ultimately show ?thesis
      using True assms(3) unfolding h_def [symmetric]
      by (simp add: report_pending_turn_def h(2) report_result t Let_def unreported_def)
  next
    case False
    then have "pending_state tm g (Suc n) = h"
      by (simp add: h_def pending_state_def Let_def t d mark_unreported_def)
    then show ?thesis using False unfolding h_def [symmetric]
      by (auto simp: report_pending_turn_def h(2) t Let_def unreported_def)
  qed
qed

lemma report_pending_turns:
  assumes "length (am_records g) = 64" "en_local env = Some tm" "n \<le> 64"
  shows "foldl (report_pending_turn env) (0, g) [0..<n]
     = (int (length (filter unreported (take n (am_records g)))), pending_state tm g n)"
  using assms(3)
proof (induction n)
  case (Suc n)
  then show ?case using report_pending_turn_state [OF assms(1) _ assms(2), of n] by simp
qed (simp add: pending_state_def)

lemma report_all_pending_result:
  assumes "length (am_records g) = 64" "en_local env = Some tm"
  shows "alarm_report_all_pending env g = (int (length (filter unreported (am_records g))),
     g\<lparr>am_records := map mark_unreported (am_records g), am_pending_tcp_alarm := False,
       am_serial_num := am_serial_num g + of_nat (length (filter unreported (am_records g))),
       am_sent := am_sent g @ pending_wires (am_serial_num g) tm (filter unreported (am_records g))\<rparr>)"
  unfolding alarm_report_all_pending_def MAX_ALARM_RECORDS_def report_pending_turns [OF assms order_refl]
  using assms by (simp add: pending_state_def Let_def)

lemma mark_unreported_simps [simp]: "\<not> unreported (mark_unreported r)" "ar_active (mark_unreported r) = ar_active r"
  "record_key (mark_unreported r) = record_key r"
  by (simp_all add: mark_unreported_def unreported_def record_key_def)

lemma key_list_mark: "key_list (map mark_unreported rs) = key_list rs"
  by (induction rs) (simp_all add: key_list_def)

section \<open>Interleaved threads\<close>

text \<open>The operations give up the mutex between their locked sections and while they report. A step
  is one locked section, one report, or one of the assignments to the other fields, with any
  arguments: the index and the codes with which a thread comes back to mark its record are those it
  kept while other threads ran.\<close>

inductive alarm_step :: "alarm_manager \<Rightarrow> alarm_manager \<Rightarrow> bool" where
  step_trigger: "alarm_step g (snd (trigger_section env g c s i))"
| step_mark: "alarm_step g (mark_reported_section g idx c s)"
| step_clear: "alarm_step g (snd (clear_section env g c s))"
| step_report: "alarm_step g (snd (alarm_report_to_bbu env g c s f i))"
| step_connected: "alarm_step g (g\<lparr>am_tcp_connected := b\<rparr>)"
| step_pending: "alarm_step g (g\<lparr>am_pending_tcp_alarm := b\<rparr>)"
| step_tracker: "alarm_step g (g\<lparr>am_state_tracker := t\<rparr>)"
| step_grace: "alarm_step g (g\<lparr>am_grace_armed := b, am_grace_end := e\<rparr>)"

lemma alarm_step_inv: "alarm_step g g' \<Longrightarrow> am_inv g \<Longrightarrow> am_inv g'"
proof (induction rule: alarm_step.induct)
  case (step_trigger g env c s i)
  show ?case
    using trigger_section_result [OF step_trigger, of c s env i] record_added_inv(1) [OF step_trigger] step_trigger
    by (auto split: if_splits)
qed (simp_all add: mark_reported_keys clear_section_inv)

lemma alarm_steps_inv: "alarm_step\<^sup>*\<^sup>* g g' \<Longrightarrow> am_inv g \<Longrightarrow> am_inv g'"
  by (induction rule: rtranclp_induct) (auto intro: alarm_step_inv)

text \<open>The operations are sequences of steps.\<close>

lemma alarm_trigger_steps: "alarm_step\<^sup>*\<^sup>* g (snd (alarm_trigger env g c s i))"
proof -
  obtain res g1 where t: "trigger_section env g c s i = (res, g1)" by fastforce
  have g1: "alarm_step\<^sup>*\<^sup>* g g1" using step_trigger [of g env c s i] t by (simp add: r_into_rtranclp)
  have "alarm_step\<^sup>*\<^sup>* g (mark_reported_section (snd (alarm_report_to_bbu env g1 c s ALARM_CLEAR_FLAG_ACTIVE i)) idx c s)" for idx
    by (rule rtranclp.rtrancl_into_rtrancl [OF rtranclp.rtrancl_into_rtrancl [OF g1 step_report] step_mark])
  moreover have "alarm_step\<^sup>*\<^sup>* g (g1\<lparr>am_pending_tcp_alarm := True\<rparr>)"
    by (rule rtranclp.rtrancl_into_rtrancl [OF g1 step_pending])
  ultimately show ?thesis using t g1 by (auto simp: alarm_trigger_def split: trigger_result.splits)
qed

lemma alarm_clear_steps: "alarm_step\<^sup>*\<^sup>* g (snd (alarm_clear env g c s))"
proof -
  obtain res g1 where t: "clear_section env g c s = (res, g1)" by fastforce
  have g1: "alarm_step\<^sup>*\<^sup>* g g1" using step_clear [of g env c s] t by (simp add: r_into_rtranclp)
  have "alarm_step\<^sup>*\<^sup>* g (snd (alarm_report_to_bbu env g1 c s ALARM_CLEAR_FLAG_CLEARED i))" for i
    by (rule rtranclp.rtrancl_into_rtrancl [OF g1 step_report])
  then show ?thesis using t g1 by (simp add: alarm_clear_def split: option.splits)
qed

lemma key_list_distinct_index:
  assumes "distinct (key_list rs)" "i < length rs" "j < length rs" "ar_active (rs ! i)" "ar_active (rs ! j)"
    "record_key (rs ! i) = record_key (rs ! j)"
  shows "i = j"
  using assms
proof (induction rs arbitrary: i j)
  case (Cons r rs)
  have in_rs: "record_key (rs ! k) \<in> set (key_list rs)" if "k < length rs" "ar_active (rs ! k)" for k
    using that by (auto simp: key_in_list)
  show ?case
    using Cons.prems Cons.IH [of "i - 1" "j - 1"] in_rs [of "i - 1"] in_rs [of "j - 1"]
    by (cases i; cases j) (auto simp: key_list_def split: if_splits)
qed simp

section \<open>Properties\<close>

text \<open>C32. Alarms follow telemetry. In a state where the trackers agree with the table, and as long as the
  table has room for the alarms of the checks beside the others that are active, one periodic check
  leaves each alarm the status frame is about (local oscillator, the three temperatures, channel
  faults, and outside the grace period the four or eight optical ports) active exactly when the
  frame says so, leaves every other alarm as it was, and keeps the agreement.\<close>

theorem alarms_follow_telemetry:
  assumes "checks_ok K g"
  shows "checks_ok K (alarm_periodic_check env g f)
     \<and> (\<forall>((c, s), b) \<in> set (telemetry_conditions (am_config g) (sf_data f) (fst (alarm_optical_in_grace env g))).
          alarm_is_active (alarm_periodic_check env g f) c s \<longleftrightarrow> b)
     \<and> (\<forall>c s. (c, s) \<notin> fst ` set (telemetry_conditions (am_config g) (sf_data f) (fst (alarm_optical_in_grace env g)))
          \<longrightarrow> alarm_is_active (alarm_periodic_check env g f) c s = alarm_is_active g c s)"
proof -
  note p = periodic_check_keys [OF assms, of env f]
  have i: "am_inv g" "am_inv (alarm_periodic_check env g f)" using p(1) assms by (simp_all add: checks_ok_def)
  show ?thesis
    using p(1) put_keys_at [OF telemetry_conditions_distinct] put_keys_other
    unfolding alarm_is_active_keys [OF i(1)] alarm_is_active_keys [OF i(2)] p(2) by blast
qed

definition am_blank :: alarm_manager where
  "am_blank = \<lparr>am_records = [], am_state_tracker = \<lparr>at_lo_unlock_active = False, at_optical_sync_loss = [],
     at_over_temperature = [], at_channel_fault_exceed_active = False, at_tcp_disconnect_active = False\<rparr>,
     am_alarm_count = 0, am_total_count = 0, am_tcp_connected = False, am_pending_tcp_alarm = False,
     am_config = \<lparr>ac_channel_fault_threshold = 0, ac_over_temp_threshold_high = 0, ac_over_temp_threshold_low = 0,
       ac_link_grace_sec = 0, ac_optical_port_count = 0\<rparr>, am_grace_armed = False, am_grace_end = 0, am_serial_num = 0, am_sent = []\<rparr>"

abbreviation am_start :: alarm_manager where
  "am_start \<equiv> snd (alarm_manager_init True None am_blank)"

definition hot_frame :: fpga_status_frame where
  "hot_frame = status_zero\<lparr>sf_data := (sf_data status_zero)\<lparr>sd_temp2 := 90, sd_link_success_flag := 0xF3\<rparr>\<rparr>"

abbreviation am_env :: alarm_env where
  "am_env \<equiv> \<lparr>en_time = 0, en_local = Some (2024, 5, 17, 8, 30, 0), en_mono = None\<rparr>"

lemma am_start_conditions:
  "telemetry_conditions (am_config am_start) (sf_data hot_frame) (fst (alarm_optical_in_grace am_env am_start))
     = [((ALARM_CODE_LO_UNLOCK, 0), False), (temp_key 0, False), (temp_key 1, True), (temp_key 2, False),
        ((ALARM_CODE_CHANNEL_FAULT_EXCEED, 0), False), (optical_key 0, False), (optical_key 1, False),
        (optical_key 2, True), (optical_key 3, True)]"
  by (simp add: telemetry_conditions_def status_conditions_def port_conditions_def alarm_manager_init_def
      alarm_optical_in_grace_def am_blank_def hot_frame_def status_zero_def temp_out_of_range_def Let_def upt_rec bit_simps status_layout_def be32_at_def of_be32_def of_le32_def)

theorem alarms_follow_telemetry_witness:
  "alarm_is_active (alarm_periodic_check am_env am_start hot_frame) ALARM_CODE_OVER_TEMPERATURE 1
   \<and> alarm_is_active (alarm_periodic_check am_env am_start hot_frame) ALARM_CODE_OPTICAL_SYNC_LOSS 2
   \<and> \<not> alarm_is_active (alarm_periodic_check am_env am_start hot_frame) ALARM_CODE_LO_UNLOCK 0"
  using alarms_follow_telemetry [OF init_checks_ok(2) [of True None am_blank], of am_env hot_frame]
  unfolding am_start_conditions by simp

text \<open>Steady telemetry is quiet. Outside the grace period, checking the same status frame a second
  time, at any later time, changes nothing: no record, no tracker, no serial number and no message
  to the BBU.\<close>

theorem steady_telemetry_quiet:
  assumes "checks_ok K g" and "\<not> fst (alarm_optical_in_grace env g)"
    and "\<not> fst (alarm_optical_in_grace env' (alarm_periodic_check env g f))"
  shows "alarm_periodic_check env' (alarm_periodic_check env g f) f = alarm_periodic_check env g f"
proof (rule periodic_check_quiet [OF _ _ assms(3)])
  note p = periodic_check_keys [OF assms(1), of env f]
  show "checks_ok K (alarm_periodic_check env g f)" by (rule p)
  show "conditions_met (telemetry_conditions (am_config (alarm_periodic_check env g f)) (sf_data f) False)
      (active_keys (alarm_periodic_check env g f))"
    unfolding p(2,3) using assms(2) put_keys_met [OF telemetry_conditions_distinct] by simp
qed

theorem steady_telemetry_quiet_witness:
  "alarm_periodic_check am_env (alarm_periodic_check am_env am_start hot_frame) hot_frame
     = alarm_periodic_check am_env am_start hot_frame"
  by (rule steady_telemetry_quiet [OF init_checks_ok(2)]) (simp_all add: alarm_optical_in_grace_def)

text \<open>Nothing pending is lost. When the connection to the BBU comes up, every active alarm that has
  not been reported is sent exactly once, in the order of the table and with consecutive serial
  numbers, every active alarm counts as reported afterwards, the set of active alarms does not
  change, and a second connection event sends nothing.\<close>

theorem pending_alarms_reported:
  assumes "am_inv g" and "\<not> am_tcp_connected g" and "en_local env = Some tm"
  shows "\<exists>g'. alarm_set_tcp_status env g True = g'
     \<and> am_sent g' = am_sent g @ pending_wires (am_serial_num g) tm (filter unreported (am_records g))
     \<and> list_all (\<lambda>r. ar_active r \<longrightarrow> ar_reported r) (am_records g') \<and> active_keys g' = active_keys g \<and> am_inv g'
     \<and> alarm_set_tcp_status env g' True = g'"
proof -
  have l: "length (am_records (g\<lparr>am_tcp_connected := True\<rparr>)) = 64" using assms(1) by (simp add: am_inv_def)
  have "list_all (\<lambda>r. ar_active r \<longrightarrow> ar_reported r) (map mark_unreported (am_records g))"
    using mark_unreported_simps(1) by (auto simp: list_all_iff unreported_def)
  then show ?thesis
    using assms(1,2) report_all_pending_result [OF l assms(3)]
    by (simp add: alarm_set_tcp_status_def key_list_mark active_keys_def am_inv_def)
qed

lemma am_start_inv: "am_inv am_start" "\<not> am_tcp_connected am_start" "active_keys am_start = {}"
  using init_checks_ok [of True None am_blank] by (simp_all add: checks_ok_def) (simp add: alarm_manager_init_def)

theorem pending_alarms_reported_witness:
  "\<exists>g'. alarm_set_tcp_status am_env (snd (alarm_trigger am_env am_start ALARM_CODE_LO_UNLOCK 0 None)) True = g'
     \<and> am_inv g' \<and> active_keys g' = {(ALARM_CODE_LO_UNLOCK, 0)}"
proof -
  let ?g = "snd (alarm_trigger am_env am_start ALARM_CODE_LO_UNLOCK 0 None)"
  have "am_inv ?g \<and> active_keys ?g = {(ALARM_CODE_LO_UNLOCK, 0)} \<and> alarm_rest ?g = alarm_rest am_start"
    using table.trigger_new [OF am_start_inv(1), of ALARM_CODE_LO_UNLOCK 0 am_env None] unfolding am_start_inv(3) by simp
  then show ?thesis
    using pending_alarms_reported [of ?g am_env] am_start_inv(2) by (simp add: alarm_rest_def)
qed

text \<open>A failed report is forgotten. When the local time is not available while an alarm is triggered
  on a live connection, the report fails, nothing is sent, and the alarm is nevertheless marked as
  reported: it is not sent either when the connection is lost and comes up again.\<close>

theorem failed_report_forgotten:
  assumes "am_inv g" and "am_tcp_connected g" and "en_local env = None" and "en_local env' = Some tm"
    and "(c, s) \<notin> active_keys g" and "card (active_keys g) < 64" and "filter unreported (am_records g) = []"
  shows "\<exists>g1. alarm_trigger env g c s i = (SUCCESS, g1) \<and> (c, s) \<in> active_keys g1
     \<and> am_sent (alarm_set_tcp_status env' (alarm_set_tcp_status env' g1 False) True) = am_sent g"
proof -
  obtain idx where idx: "idx < 64" "\<not> ar_active (am_records g ! idx)"
      "trigger_section env g c s i = (Recorded idx, record_added g idx (new_record env c s i))"
    using trigger_section_result [OF assms(1), of c s env i] assms(5,6) by auto
  let ?r = "new_record env c s i"
  define g1 where "g1 = snd (alarm_trigger env g c s i)"
  have len: "length (am_records g) = 64" using assms(1) by (simp add: am_inv_def)
  have g1: "am_records g1 = (am_records g)[idx := ?r\<lparr>ar_reported := True\<rparr>]" "am_sent g1 = am_sent g"
    using idx assms(2,3) len
    by (simp_all add: g1_def alarm_trigger_def report_result mark_reported_section_def MAX_ALARM_RECORDS_def Let_def)
  have "\<not> unreported (am_records g ! k)" if "k < 64" for k
    using assms(7) that len by (metis filter_empty_conv nth_mem)
  then have "\<not> unreported (am_records g1 ! k)" if "k < 64" for k
    using that len by (cases "k = idx") (simp_all add: g1(1) unreported_def)
  then have "filter unreported (am_records g1) = []"
    using len g1(1) by (auto simp: filter_empty_conv in_set_conv_nth)
  moreover have "length (am_records g1) = 64" using g1 len by simp
  ultimately have "am_sent (alarm_set_tcp_status env' (alarm_set_tcp_status env' g1 False) True) = am_sent g"
    using g1(2) assms(4) by (simp add: alarm_set_tcp_status_def report_all_pending_result)
  moreover have "alarm_trigger env g c s i = (SUCCESS, g1)" using idx(3) assms(2) by (simp add: g1_def alarm_trigger_def)
  moreover have "(c, s) \<in> active_keys g1" using table.trigger_new [OF assms(1,5,6), of env i] by (simp add: g1_def)
  ultimately show ?thesis by blast
qed

theorem failed_report_forgotten_witness:
  "\<exists>g1. alarm_trigger (am_env\<lparr>en_local := None\<rparr>) (alarm_set_tcp_status am_env am_start True) ALARM_CODE_LO_UNLOCK 0 None
      = (SUCCESS, g1) \<and> (ALARM_CODE_LO_UNLOCK, 0) \<in> active_keys g1
     \<and> am_sent (alarm_set_tcp_status am_env (alarm_set_tcp_status am_env g1 False) True)
       = am_sent (alarm_set_tcp_status am_env am_start True)"
proof -
  let ?g = "alarm_set_tcp_status am_env am_start True"
  have "length (am_records (am_start\<lparr>am_tcp_connected := True\<rparr>)) = 64" using am_start_inv(1) by (simp add: am_inv_def)
  then have g: "am_tcp_connected ?g" "am_records ?g = map mark_unreported (am_records am_start)" "am_alarm_count ?g = am_alarm_count am_start"
    using am_start_inv(2) by (simp_all add: alarm_set_tcp_status_def report_all_pending_result)
  have f: "filter unreported (am_records ?g) = []" unfolding g(2) by (simp add: filter_empty_conv)
  have i: "am_inv ?g" "active_keys ?g = {}" using am_start_inv g by (simp_all add: am_inv_def active_keys_def key_list_mark)
  show ?thesis
    by (rule failed_report_forgotten [OF i(1) g(1) _ _ _ _ f]) (simp_all add: i(2))
qed

text \<open>The table is a set. After the start, any sequence of triggers and clears of at most 64 different
  alarms, with any texts, leaves active exactly the alarms that were triggered and not cleared
  since; the count is their number.\<close>

theorem alarm_table_is_set:
  assumes "card (op_key ` set ops) \<le> 64"
  shows "\<exists>g. table_run (alarm_trigger env) (alarm_clear env) (snd (alarm_manager_init ok config g0)) ops = g
     \<and> (\<forall>c s. alarm_is_active g c s \<longleftrightarrow> (c, s) \<in> set_run {} ops) \<and> unat (am_alarm_count g) = card (set_run {} ops)"
proof -
  let ?g = "snd (alarm_manager_init ok config g0)"
  let ?r = "table_run (alarm_trigger env) (alarm_clear env) ?g ops"
  have i: "am_inv ?g" "active_keys ?g = {}" using init_checks_ok [of ok config g0] by (simp_all add: checks_ok_def)
  have "am_inv ?r" "active_keys ?r = set_run {} ops"
    using table.run_set [OF i(1), of "op_key ` set ops" ops env] assms i(2) by simp_all
  then show ?thesis
    using alarm_is_active_keys [of ?r] active_keys_card [of ?r] by (simp add: am_inv_def)
qed

theorem alarm_table_is_set_witness:
  "\<exists>g. table_run (alarm_trigger am_env) (alarm_clear am_env) am_start [Op_trigger 1 0 None, Op_trigger 2 0 None, Op_clear 1 0] = g
     \<and> alarm_is_active g 2 0 \<and> \<not> alarm_is_active g 1 0 \<and> unat (am_alarm_count g) = 1"
  using alarm_table_is_set [of "[Op_trigger 1 0 None, Op_trigger 2 0 None, Op_clear 1 0]" am_env True None am_blank]
  by (auto simp: card_insert_if insert_Diff_if)

text \<open>C37. Interleaved threads. After the start, and after any interleaving of the locked sections, reports
  and assignments of any number of threads with any arguments, the active count is the number of
  active records, no alarm is active in two records, and marking a record as reported touches no
  record of another alarm.\<close>

theorem interleaving_keeps_table:
  assumes "alarm_step\<^sup>*\<^sup>* (snd (alarm_manager_init ok config g0)) g"
  shows "unat (am_alarm_count g) = length (filter ar_active (am_records g)) \<and> length (am_records g) = 64
     \<and> (\<forall>i<64. \<forall>j<64. ar_active (am_records g ! i) \<longrightarrow> ar_active (am_records g ! j)
          \<longrightarrow> record_key (am_records g ! i) = record_key (am_records g ! j) \<longrightarrow> i = j)
     \<and> (\<forall>i<64. am_records (mark_reported_section g idx c s) ! i \<noteq> am_records g ! i
          \<longrightarrow> i = idx \<and> ar_active (am_records g ! i) \<and> record_key (am_records g ! i) = (c, s))"
proof -
  have "am_inv (snd (alarm_manager_init ok config g0))" using init_checks_ok(2) by (simp add: checks_ok_def)
  then have i: "am_inv g" by (rule alarm_steps_inv [OF assms])
  have "am_records (mark_reported_section g idx c s) ! k \<noteq> am_records g ! k
      \<longrightarrow> k = idx \<and> ar_active (am_records g ! k) \<and> record_key (am_records g ! k) = (c, s)" for k
    by (cases "k = idx") (auto simp: mark_reported_section_def Let_def record_key_def)
  moreover have "\<forall>i<64. \<forall>j<64. ar_active (am_records g ! i) \<longrightarrow> ar_active (am_records g ! j)
          \<longrightarrow> record_key (am_records g ! i) = record_key (am_records g ! j) \<longrightarrow> i = j"
    using i key_list_distinct_index [of "am_records g"] by (auto simp: am_inv_def)
  ultimately show ?thesis using i by (simp add: am_inv_def key_list_def)
qed

theorem interleaving_keeps_table_witness:
  "unat (am_alarm_count (snd (alarm_trigger am_env am_start ALARM_CODE_LO_UNLOCK 0 None)))
     = length (filter ar_active (am_records (snd (alarm_trigger am_env am_start ALARM_CODE_LO_UNLOCK 0 None))))"
  using interleaving_keeps_table [OF alarm_trigger_steps [of am_start am_env ALARM_CODE_LO_UNLOCK 0 None]] by blast

end
