(* ===== verification/Rs422Line.thy ===== *)
theory Rs422Line
  imports UartRs422
begin

text \<open>
  The serial line as the firmware injector sees it: handing over a frame and, for a command, waiting
  for its reply. A line is the client with its receive context, a script of what the kernel does in
  each call, and a log of the calls with their results. A script that says nothing about a call
  means writes that fail and a line that stays silent until the receive times out. The interface is
  the locale \<open>rs422_link\<close>; the client of uart_rs422_client.c is an interpretation of it.
\<close>

subsection \<open>Lines\<close>

type_synonym line_input = "int list \<times> clock \<times> (clock \<times> uart_event) list"

text \<open>What a call returned: the status, the receive buffer and the received length.\<close>

type_synonym line_result = "int \<times> bytes \<times> u32"

record rs422_line =
  ln_client :: uart_rs422_client
  ln_ctx :: uart_recv_context
  ln_script :: "line_input list"
  ln_log :: "(bytes \<times> line_result) list"

definition line_next :: "rs422_line \<Rightarrow> line_input" where
  "line_next l = (case ln_script l of
     [] \<Rightarrow> (replicate (unat (uc_max_retries (ln_client l)) + 1) (- 1), (0, 0), [])
   | (ws, start, evs) # rest \<Rightarrow> (ws @ replicate (unat (uc_max_retries (ln_client l)) + 1) (- 1), start, evs))"

definition line_done :: "rs422_line \<Rightarrow> uart_recv_context \<Rightarrow> bytes \<Rightarrow> line_result \<Rightarrow> rs422_line" where
  "line_done l ctx frame res = l\<lparr>ln_ctx := ctx, ln_script := tl (ln_script l), ln_log := ln_log l @ [(frame, res)]\<rparr>"

definition line_send :: "rs422_line \<Rightarrow> bytes \<Rightarrow> (int \<times> rs422_line) option" where
  "line_send l frame =
     (case line_next l of (ws, start, evs) \<Rightarrow> do {
        (ret, k, ws') \<leftarrow> uart_rs422_send_frame (ln_client l) (of_nat (length frame)) ws;
        Some (ret, line_done l (ln_ctx l) frame (ret, [], 0)) })"

definition line_exchange :: "rs422_line \<Rightarrow> bytes \<Rightarrow> u32 \<Rightarrow> u16 \<Rightarrow> (line_result \<times> rs422_line) option" where
  "line_exchange l frame recv_buf_size expected_cmd =
     (case line_next l of (ws, start, evs) \<Rightarrow> do {
        res \<leftarrow> uart_rs422_send_and_wait (ln_client l) (ln_ctx l) (of_nat (length frame))
                 (replicate (unat recv_buf_size) 0) recv_buf_size 0 expected_cmd ws start evs;
        (case res of
           Returned ret c fb n \<Rightarrow> Some ((ret, fb, n), line_done l c frame (ret, fb, n))
         | Waiting c \<Rightarrow>
             let r = (ERROR_TIMEOUT, replicate (unat recv_buf_size) 0, 0)
             in Some (r, line_done l c frame r)) })"

subsection \<open>The interface\<close>

text \<open>A reply that carries a decodable frame of the expected command.\<close>

definition reply_ok :: "u16 \<Rightarrow> line_result \<Rightarrow> bool" where
  "reply_ok cmd res = (case res of (ret, fb, n) \<Rightarrow> ret = SUCCESS \<and> unat n \<le> length fb
     \<and> (\<exists>pid sc d t. fb = rs422_frame RS422_SYNC_WORD_ACK pid sc cmd d @ t \<and> length d < 65535 \<and> 12 + length d \<le> unat n))"

locale rs422_link =
  fixes send :: "'l \<Rightarrow> bytes \<Rightarrow> (int \<times> 'l) option"
    and exchange :: "'l \<Rightarrow> bytes \<Rightarrow> u32 \<Rightarrow> u16 \<Rightarrow> (line_result \<times> 'l) option"
    and log :: "'l \<Rightarrow> (bytes \<times> line_result) list"
    and valid :: "'l \<Rightarrow> bool"
  assumes send_returns: "valid l \<Longrightarrow> \<exists>ret l'. send l f = Some (ret, l') \<and> valid l' \<and> log l' = log l @ [(f, ret, [], 0)]"
    and exchange_returns: "valid l \<Longrightarrow> cmd \<noteq> 0 \<Longrightarrow>
      \<exists>res l'. exchange l f sz cmd = Some (res, l') \<and> valid l' \<and> log l' = log l @ [(f, res)]
        \<and> (fst res = SUCCESS \<longrightarrow> reply_ok cmd res)"

subsection \<open>The client provides it\<close>

definition line_valid :: "rs422_line \<Rightarrow> bool" where
  "line_valid l \<longleftrightarrow> ctx_inv (ln_ctx l) \<and> unat (uc_max_retries (ln_client l)) < 2 ^ 32 - 1
     \<and> list_all (\<lambda>(ws, start, evs). list_all event_ok evs) (ln_script l)"

lemma line_next_cases:
  assumes "line_valid l" "line_next l = (ws, start, evs)"
  shows "unat (uc_max_retries (ln_client l)) < length ws" "list_all event_ok evs"
  using assms by (auto simp: line_next_def line_valid_def split: list.splits)

lemma line_done_valid: "line_valid l \<Longrightarrow> ctx_inv c \<Longrightarrow> line_valid (line_done l c f r)"
  by (cases "ln_script l") (auto simp: line_valid_def line_done_def)

lemma send_frame_returns:
  assumes "unat (uc_max_retries client) < 2 ^ 32 - 1" "unat (uc_max_retries client) < length ws"
  shows "\<exists>ret k. uart_rs422_send_frame client n ws = Some (ret, k, drop k ws)"
proof -
  have "unat (0 :: u32) \<le> unat (uc_max_retries client) + 1" "unat (uc_max_retries client) + 1 - unat (0 :: u32) \<le> length ws"
    using assms by simp_all
  from send_loop_spec [OF assms(1) this, of n] show ?thesis
    by (auto simp: uart_rs422_send_frame_def intro: exI [of _ 0])
qed

lemma discard_pending_inv: "ctx_inv ctx \<Longrightarrow> ctx_inv (snd (uart_rs422_discard_pending client ctx))"
  by (auto simp: uart_rs422_discard_pending_def ctx_inv_def rBufClear_inv rBufClear_def rb_inv_def)

lemma decode_returns:
  assumes "unat n \<le> length fb"
  shows "\<exists>ret out'. rs422_decode_frame fb n out = Some (ret, out')"
proof (cases "n < 12")
  case False
  then have n12: "12 \<le> length fb" using assms by (simp add: u32_less_nat)
  obtain a b c w where r: "read_be16 fb 0 = Some a" "read_be16 fb 2 = Some b" "read_be16 fb 6 = Some c" "read_be16 fb 8 = Some w"
    using n12 read_be16_Some [of 0 fb] read_be16_Some [of 2 fb] read_be16_Some [of 6 fb] read_be16_Some [of 8 fb] by auto
  let ?a = "ucast c + 1 :: u32"
  have u: "unat ?a = unat c + 1" using u16_bound [of c] by (subst u32_add_nat) (simp_all add: unat_ucast_up)
  have o: "unat (8 + ?a) = 9 + unat c" using u16_bound [of c] u by (subst u32_add_nat) simp_all
  have o2: "unat (8 + ?a + 2) = 11 + unat c" using u16_bound [of c] o by (subst u32_add_nat) simp_all
  have o3: "unat (8 + ?a - 2) = 7 + unat c" using o by (subst u32_sub_nat) simp_all
  show ?thesis
  proof (cases "n < 8 + ?a + 2")
    case True
    then show ?thesis using False r by (auto simp: rs422_decode_frame_def Let_def)
  next
    case fits: False
    then have f: "11 + unat c \<le> length fb" using assms o2 unfolding u32_less_nat by simp
    obtain d where d: "mem_read fb 2 (unat (8 + ?a - 2)) = Some d" using f unfolding o3 by (simp add: mem_read_def)
    obtain cs where cs: "read_be16 fb (unat (8 + ?a)) = Some cs" using f read_be16_Some [of "9 + unat c" fb] unfolding o by auto
    show ?thesis using r d cs False fits unfolding rs422_decode_frame_def Let_def by auto
  qed
qed (simp add: rs422_decode_frame_def)

lemma exchange_result:
  assumes inv: "ctx_inv ctx" and ws: "unat (uc_max_retries client) < 2 ^ 32 - 1" "unat (uc_max_retries client) < length ws"
    and evs: "list_all event_ok evs" and fb: "length fb = unat sz" and cmd: "cmd \<noteq> 0"
  shows "\<exists>res. uart_rs422_send_and_wait client ctx n fb sz 0 cmd ws start evs = Some res
     \<and> (case res of Waiting c \<Rightarrow> ctx_inv c
         | Returned ret c fb' n' \<Rightarrow> ctx_inv c \<and> (ret = SUCCESS \<longrightarrow> reply_ok cmd (ret, fb', n')))"
proof -
  let ?c = "snd (uart_rs422_discard_pending client ctx)"
  have c: "ctx_inv ?c" by (rule discard_pending_inv [OF inv])
  obtain ret k where s: "uart_rs422_send_frame client n ws = Some (ret, k, drop k ws)" using send_frame_returns [OF ws] by blast
  show ?thesis
  proof (cases "ret = SUCCESS")
    case False
    then show ?thesis using s c by (simp add: uart_rs422_send_and_wait_def)
  next
    case True
    then have open_: "uc_is_open client" using s by (auto simp: uart_rs422_send_frame_def split: if_splits)
    have "unat sz \<le> length fb" using fb by simp
    then obtain res where res: "uart_rs422_recv_frame client ?c fb sz 0 start evs = Some res" "outcome_ok (unat sz) (length fb) res"
      using recv_loop_safe [OF ctx_inv_ready [OF c] evs, of sz fb "uc_timeout_ms client" start] open_
      unfolding uart_rs422_recv_frame_def by auto
    show ?thesis
    proof (cases res)
      case (Waiting c')
      then show ?thesis using s True res by (simp add: uart_rs422_send_and_wait_def)
    next
      case (Returned r c' fb' n')
      show ?thesis
      proof (cases "r = SUCCESS")
        case False
        then show ?thesis using s True res Returned by (simp add: uart_rs422_send_and_wait_def)
      next
        case ok: True
        then have n': "unat n' \<le> length fb'" "ctx_inv c'" using res(2) Returned fb by auto
        obtain dr out' where d: "rs422_decode_frame fb' n' \<lparr>ro_apid = 0, ro_cmd_code = 0, ro_payload = [], ro_payload_len = 0\<rparr>
            = Some (dr, out')" using decode_returns [OF n'(1)] by blast
        have "reply_ok (ro_cmd_code out') (SUCCESS, fb', n')" if dr: "dr = SUCCESS"
        proof -
          obtain pid sc w dd t where f: "fb' = rs422_frame RS422_SYNC_WORD_ACK pid sc w dd @ t" "length dd < 65535" "12 + length dd \<le> unat n'"
            using rs422_decode_accepts [OF d [unfolded dr] n'(1)] by blast
          then have "ro_cmd_code out' = w" using d dr rs422_decode_ok [OF f(2,3)] by auto
          then show ?thesis using f n'(1) by (auto simp: reply_ok_def)
        qed
        then show ?thesis using s True res(1) Returned ok d n'(2) cmd by (auto simp: uart_rs422_send_and_wait_def)
      qed
    qed
  qed
qed

interpretation line: rs422_link line_send line_exchange ln_log line_valid
proof
  fix l and f :: bytes assume v: "line_valid l"
  obtain ws start evs where n: "line_next l = (ws, start, evs)" by (cases "line_next l")
  note w = line_next_cases [OF v n]
  have m: "unat (uc_max_retries (ln_client l)) < 2 ^ 32 - 1" "ctx_inv (ln_ctx l)" using v by (simp_all add: line_valid_def)
  obtain ret k where "uart_rs422_send_frame (ln_client l) (of_nat (length f)) ws = Some (ret, k, drop k ws)"
    using send_frame_returns [OF m(1) w(1)] by blast
  then show "\<exists>ret l'. line_send l f = Some (ret, l') \<and> line_valid l' \<and> ln_log l' = ln_log l @ [(f, ret, [], 0)]"
    using n line_done_valid [OF v m(2)] by (auto simp: line_send_def) (simp add: line_done_def)
  fix sz cmd assume "cmd \<noteq> (0 :: u16)"
  then obtain res where r: "uart_rs422_send_and_wait (ln_client l) (ln_ctx l) (of_nat (length f)) (replicate (unat sz) 0) sz 0 cmd ws start evs
      = Some res" "case res of Waiting c \<Rightarrow> ctx_inv c
         | Returned ret c fb' n' \<Rightarrow> ctx_inv c \<and> (ret = SUCCESS \<longrightarrow> reply_ok cmd (ret, fb', n'))"
    using exchange_result [OF m(2,1) w, of "replicate (unat sz) 0" sz cmd "of_nat (length f)" start] by auto
  have lg: "ln_log (line_done l c f x) = ln_log l @ [(f, x)]" for c x by (simp add: line_done_def)
  show "\<exists>res l'. line_exchange l f sz cmd = Some (res, l') \<and> line_valid l' \<and> ln_log l' = ln_log l @ [(f, res)]
        \<and> (fst res = SUCCESS \<longrightarrow> reply_ok cmd res)"
    using r n line_done_valid [OF v] by (cases res) (simp_all add: line_exchange_def Let_def lg)
qed

end
