(* ===== verification/FpgaInjector.thy ===== *)
theory FpgaInjector
  imports Rs422Line FirmwarePackage
begin

text \<open>
  The firmware injector of fpga_firmware_injector.c: a background thread that checks a firmware
  package, announces the transfer, sends the file in segments of 1 MB and packets of 1000 bytes,
  each acknowledged and re-sent at most three times, ends the transfer and starts and polls the
  reconfiguration of the FPGA. The global task is one record, with the sequence counter of the
  protocol layer and the serial line. The handlers take the two calls of the line as arguments.
  What a turn of the thread meets (clock, abort requests, failures of \<open>malloc\<close> and \<open>fseek\<close>) is
  an argument; the package files are a parameter.
\<close>

subsection \<open>State\<close>

datatype fpga_injection_state =
    FPGA_INJ_STATE_IDLE
  | FPGA_INJ_STATE_PARSING_METADATA
  | FPGA_INJ_STATE_TRANSFER_START
  | FPGA_INJ_STATE_TRANSFER_DATA
  | FPGA_INJ_STATE_TRANSFER_END
  | FPGA_INJ_STATE_RECONFIG_START
  | FPGA_INJ_STATE_RECONFIG_POLLING
  | FPGA_INJ_STATE_COMPLETED
  | FPGA_INJ_STATE_FAILED

definition FPGA_SEGMENT_SIZE :: u32 where "FPGA_SEGMENT_SIZE = 1048576"
definition FPGA_PACKET_SIZE :: u32 where "FPGA_PACKET_SIZE = 1000"
abbreviation (input) FPGA_TRANSFER_START_TIMEOUT_SEC :: int where "FPGA_TRANSFER_START_TIMEOUT_SEC \<equiv> 300"
abbreviation (input) FPGA_RECONFIG_TIMEOUT_SEC :: int where "FPGA_RECONFIG_TIMEOUT_SEC \<equiv> 600"
abbreviation (input) FPGA_MAX_PACKET_RETRIES :: u32 where "FPGA_MAX_PACKET_RETRIES \<equiv> 3"
abbreviation (input) RS422_UPLOAD_NOTIFY_PRE :: u8 where "RS422_UPLOAD_NOTIFY_PRE \<equiv> 1"
abbreviation (input) RS422_UPLOAD_NOTIFY_POST :: u8 where "RS422_UPLOAD_NOTIFY_POST \<equiv> 2"
abbreviation (input) RS422_CMD_ABORT_ACK :: u16 where "RS422_CMD_ABORT_ACK \<equiv> 0x018E"
abbreviation (input) RS422_RECONFIG_SUCCESS :: u8 where "RS422_RECONFIG_SUCCESS \<equiv> 0"
abbreviation (input) RS422_RECONFIG_IN_PROGRESS :: u8 where "RS422_RECONFIG_IN_PROGRESS \<equiv> 0x11"
abbreviation (input) RS422_TRANSFER_READY :: u8 where "RS422_TRANSFER_READY \<equiv> 0"
abbreviation (input) RS422_TRANSFER_PREPARING :: u8 where "RS422_TRANSFER_PREPARING \<equiv> 0x11"
abbreviation (input) RS422_DATA_RECEIVED_OK :: u8 where "RS422_DATA_RECEIVED_OK \<equiv> 0"
abbreviation (input) RS422_TRANSFER_COMPLETE_OK :: u8 where "RS422_TRANSFER_COMPLETE_OK \<equiv> 0"

text \<open>An open file is its contents and the position in it. The calls of the progress callback, when
  there is one, are recorded.\<close>

record 'l fpga_injection_task =
  it_state :: fpga_injection_state
  it_metadata :: firmware_metadata
  it_version_dir :: string
  it_version_num :: string
  it_total_segments :: u32
  it_current_segment :: u32
  it_total_packets_in_segment :: u32
  it_current_packet_in_segment :: u32
  it_segment_offset :: u32
  it_file_checksum :: u16
  it_bin_fp :: "(bytes \<times> nat) option"
  it_start_time :: int
  it_last_activity :: int
  it_retry_count :: u32
  it_max_retries :: u32
  it_progress_callback :: bool
  it_progress :: "(u32 \<times> u32) list"
  it_in_progress :: bool
  it_abort_requested :: bool
  it_seq :: u16
  it_link :: 'l

text \<open>The package on disk and the hash of the library.\<close>

record 'c package_env =
  pe_text :: "string \<Rightarrow> string option"
  pe_stat :: "string \<Rightarrow> int option"
  pe_bytes :: "string \<Rightarrow> bytes option"
  pe_sha_init :: 'c
  pe_sha_update :: "'c \<Rightarrow> bytes \<Rightarrow> 'c"
  pe_sha_final :: "'c \<Rightarrow> bytes"

type_synonym 'l sender = "'l \<Rightarrow> bytes \<Rightarrow> (int \<times> 'l) option"
type_synonym 'l exchanger = "'l \<Rightarrow> bytes \<Rightarrow> u32 \<Rightarrow> u16 \<Rightarrow> (line_result \<times> 'l) option"

subsection \<open>Starting and stopping\<close>

definition fpga_firmware_injection_init :: "'l \<Rightarrow> u16 \<Rightarrow> int \<times> 'l fpga_injection_task" where
  "fpga_firmware_injection_init link seq = (SUCCESS,
     \<lparr>it_state = FPGA_INJ_STATE_IDLE, it_metadata = metadata_zero, it_version_dir = [], it_version_num = [],
      it_total_segments = 0, it_current_segment = 0, it_total_packets_in_segment = 0,
      it_current_packet_in_segment = 0, it_segment_offset = 0, it_file_checksum = 0, it_bin_fp = None,
      it_start_time = 0, it_last_activity = 0, it_retry_count = 0, it_max_retries = FPGA_MAX_PACKET_RETRIES,
      it_progress_callback = False, it_progress = [], it_in_progress = False, it_abort_requested = False,
      it_seq = seq, it_link = link\<rparr>)"

definition fpga_firmware_injection_start :: "bool \<Rightarrow> int \<Rightarrow> string \<Rightarrow> string \<Rightarrow> 'l fpga_injection_task
    \<Rightarrow> int \<times> 'l fpga_injection_task" where
  "fpga_firmware_injection_start thread_ok now version_dir version_num t =
     (if it_in_progress t then (ERROR_GENERAL, t)
      else let t = t\<lparr>it_version_dir := take 255 version_dir, it_version_num := take 39 version_num,
                    it_state := FPGA_INJ_STATE_PARSING_METADATA, it_start_time := now, it_last_activity := now,
                    it_in_progress := True, it_abort_requested := False, it_current_segment := 0,
                    it_retry_count := 0, it_bin_fp := None\<rparr>
           in if \<not> thread_ok then (ERROR_GENERAL, t\<lparr>it_in_progress := False\<rparr>) else (SUCCESS, t))"

definition fpga_firmware_injection_get_progress :: "'l fpga_injection_task \<Rightarrow> u32 \<times> u32 \<times> fpga_injection_state" where
  "fpga_firmware_injection_get_progress t = (it_current_segment t, it_total_segments t, it_state t)"

definition fpga_firmware_injection_abort :: "'l sender \<Rightarrow> 'l fpga_injection_task \<Rightarrow> (int \<times> 'l fpga_injection_task) option" where
  "fpga_firmware_injection_abort send t =
     (if \<not> it_in_progress t then Some (ERROR_GENERAL, t)
      else do {
        let t = t\<lparr>it_abort_requested := True\<rparr>;
        (frame_len, seq, frame) \<leftarrow> rs422_build_transfer_abort (it_seq t) (replicate 256 0) 256;
        let t = t\<lparr>it_seq := seq\<rparr>;
        if frame_len > 0
        then do {
          (ret, l) \<leftarrow> send (it_link t) (take (nat frame_len) frame);
          Some (SUCCESS, t\<lparr>it_link := l\<rparr>) }
        else Some (SUCCESS, t) })"

text \<open>The wait and the cleanup look at the task again and again; each look is one element of a list.\<close>

fun wait_loop :: "u32 \<Rightarrow> int \<Rightarrow> (bool \<times> fpga_injection_state \<times> int) list \<Rightarrow> int option" where
  "wait_loop timeout_sec start [] = None"
| "wait_loop timeout_sec start ((in_progress, state, now) # looks) =
     (if \<not> in_progress \<or> state = FPGA_INJ_STATE_COMPLETED \<or> state = FPGA_INJ_STATE_FAILED
      then Some (if state = FPGA_INJ_STATE_COMPLETED then SUCCESS else ERROR_GENERAL)
      else if timeout_sec > 0 \<and> now - start \<ge> int (unat timeout_sec) then Some ERROR_TIMEOUT
      else wait_loop timeout_sec start looks)"

definition fpga_firmware_injection_wait :: "u32 \<Rightarrow> int \<Rightarrow> (bool \<times> fpga_injection_state \<times> int) list \<Rightarrow> int option" where
  "fpga_firmware_injection_wait timeout_sec start looks = wait_loop timeout_sec start looks"

text \<open>The cleanup of a task whose thread was started: whether it ran at each of at most 30 looks.\<close>

definition fpga_firmware_injection_cleanup :: "bool \<Rightarrow> bool list \<Rightarrow> 'l fpga_injection_task \<Rightarrow> int \<times> 'l fpga_injection_task" where
  "fpga_firmware_injection_cleanup thread_started running t =
     (if thread_started
      then let t = t\<lparr>it_abort_requested := True\<rparr>
           in if list_ex Not (take 30 running) then (SUCCESS, t) else (ERROR_TIMEOUT, t)
      else (SUCCESS, t))"

subsection \<open>Helpers\<close>

definition transition_state :: "int \<Rightarrow> fpga_injection_state \<Rightarrow> 'l fpga_injection_task \<Rightarrow> 'l fpga_injection_task" where
  "transition_state now new_state t = t\<lparr>it_state := new_state, it_last_activity := now\<rparr>"

text \<open>The sleep in slices of 100 ms; the result is how long it slept, given what the abort flag was
  before each slice.\<close>

fun sleep_loop :: "u32 \<Rightarrow> u32 \<Rightarrow> bool list \<Rightarrow> u32" where
  "sleep_loop total_ms slept_ms [] = slept_ms"
| "sleep_loop total_ms slept_ms (abort # aborts) =
     (if slept_ms < total_ms
      then if abort then slept_ms
           else let remain = total_ms - slept_ms; s = (if remain < 100 then remain else 100)
                in sleep_loop total_ms (slept_ms + s) aborts
      else slept_ms)"

definition interruptible_sleep :: "u32 \<Rightarrow> bool list \<Rightarrow> u32" where
  "interruptible_sleep total_sec aborts = sleep_loop (total_sec * 1000) 0 aborts"

definition note_abort :: "bool \<Rightarrow> 'l fpga_injection_task \<Rightarrow> 'l fpga_injection_task" where
  "note_abort abort t = t\<lparr>it_abort_requested := it_abort_requested t \<or> abort\<rparr>"

definition out_zero :: rs422_out where
  "out_zero = \<lparr>ro_apid = 0, ro_cmd_code = 0, ro_payload = [], ro_payload_len = 0\<rparr>"

definition send_upload_notify :: "'l sender \<Rightarrow> u8 \<Rightarrow> 'l fpga_injection_task \<Rightarrow> (int \<times> 'l fpga_injection_task) option" where
  "send_upload_notify send notify_code t = do {
     (frame_len, seq, frame) \<leftarrow> rs422_build_upload_notify (it_seq t) notify_code (replicate 64 0) 64;
     let t = t\<lparr>it_seq := seq\<rparr>;
     if frame_len \<le> 0 then Some (frame_len, t)
     else do {
       (ret, l) \<leftarrow> send (it_link t) (take (nat frame_len) frame);
       Some (ret, t\<lparr>it_link := l, it_seq := rs422_seq_counter_rollback (it_seq t)\<rparr>) } }"

definition send_transfer_abort :: "'l sender \<Rightarrow> 'l exchanger \<Rightarrow> 'l fpga_injection_task \<Rightarrow> (int \<times> 'l fpga_injection_task) option" where
  "send_transfer_abort send xchg t = do {
     (frame_len, seq, frame) \<leftarrow> rs422_build_transfer_abort (it_seq t) (replicate 256 0) 256;
     let t = t\<lparr>it_seq := seq\<rparr>;
     if frame_len < 0 then Some (ERROR_GENERAL, t)
     else do {
       let f = take (nat frame_len) frame;
       (ret, l) \<leftarrow> send (it_link t) f;
       let t = t\<lparr>it_link := l\<rparr>;
       if ret \<noteq> SUCCESS then Some (ERROR_GENERAL, t)
       else do {
         ((ret, recv_buf, recv_len), l) \<leftarrow> xchg (it_link t) f 256 RS422_CMD_ABORT_ACK;
         Some (SUCCESS, t\<lparr>it_link := l\<rparr>) } } }"

subsection \<open>Metadata\<close>

definition handle_parsing_metadata :: "'c package_env \<Rightarrow> bool \<Rightarrow> int \<Rightarrow> 'l fpga_injection_task \<Rightarrow> int \<times> 'l fpga_injection_task" where
  "handle_parsing_metadata pe malloc_ok now t =
     (let (ret, m) = firmware_parse_metadata (pe_text pe) (pe_stat pe) (it_version_dir t);
          t = t\<lparr>it_metadata := m\<rparr>
      in if ret \<noteq> SUCCESS then (ERROR_GENERAL, transition_state now FPGA_INJ_STATE_FAILED t)
         else if firmware_verify_integrity (pe_sha_init pe) (pe_sha_update pe) (pe_sha_final pe) (pe_bytes pe)
                   (md_bin_file_path m) (md_sha256 m) \<noteq> SUCCESS
         then (ERROR_GENERAL, transition_state now FPGA_INJ_STATE_FAILED t)
         else let t = t\<lparr>it_total_segments := (md_file_size m + FPGA_SEGMENT_SIZE - 1) div FPGA_SEGMENT_SIZE\<rparr>
              in case pe_bytes pe (md_bin_file_path m) of
                   None \<Rightarrow> (ERROR_GENERAL, transition_state now FPGA_INJ_STATE_FAILED t)
                 | Some d \<Rightarrow>
                     if \<not> malloc_ok then (ERROR_MEMORY, transition_state now FPGA_INJ_STATE_FAILED t)
                     else let file_data = take (unat (md_file_size m)) d
                          in if length file_data \<noteq> unat (md_file_size m)
                             then (ERROR_GENERAL, transition_state now FPGA_INJ_STATE_FAILED t)
                             else (SUCCESS, transition_state now FPGA_INJ_STATE_TRANSFER_START
                                     (t\<lparr>it_file_checksum := rs422_crc16_ccitt_false file_data\<rparr>)))"

subsection \<open>Transfer start\<close>

definition transfer_start_params :: "'l fpga_injection_task \<Rightarrow> rs422_cmd_transfer_start" where
  "transfer_start_params t =
     (let m = it_metadata t;
          last = md_file_size m mod FPGA_SEGMENT_SIZE
      in \<lparr>ts_device_id = ucast (drop_bit 4 RS422_APID_CONTROL AND 0x7F),
          ts_file_type = md_file_type m, ts_file_sub_type = md_file_sub_type m,
          ts_segment_info = (if it_total_segments t > 1 then ucast (push_bit 14 3 OR it_total_segments t) else 0),
          ts_file_length = (if it_total_segments t = 1 then md_file_size m else FPGA_SEGMENT_SIZE),
          ts_last_segment_len = (if it_total_segments t = 1 then md_file_size m
                                 else if last = 0 then FPGA_SEGMENT_SIZE else last),
          ts_file_checksum = it_file_checksum t\<rparr>)"

text \<open>One reply to a command: its result byte, when the exchange, the decoding and the parsing all
  succeed. The status of the exchange is kept, since some callers look at it.\<close>

definition reply_result :: "(bytes \<Rightarrow> u32 \<Rightarrow> u8 \<Rightarrow> (int \<times> u8) option) \<Rightarrow> line_result \<Rightarrow> u8 option option" where
  "reply_result parse res =
     (case res of (ret, fb, n) \<Rightarrow>
        if ret \<noteq> SUCCESS then Some None
        else do {
          (dret, out) \<leftarrow> rs422_decode_frame fb n out_zero;
          if dret \<noteq> SUCCESS then Some None
          else do {
            (pret, result) \<leftarrow> parse (ro_payload out) (ro_payload_len out) 0;
            Some (if pret \<noteq> SUCCESS then None else Some result) } })"

text \<open>The polling loop; each turn sees whether an abort was requested meanwhile, and the clock.\<close>

datatype start_outcome = Start_polling | Start_return int | Start_result u8

fun start_loop :: "'l exchanger \<Rightarrow> bytes \<Rightarrow> int \<Rightarrow> (bool \<times> int) list \<Rightarrow> 'l fpga_injection_task
    \<Rightarrow> (start_outcome \<times> 'l fpga_injection_task) option" where
  "start_loop xchg frame start_time [] t = Some (Start_polling, t)"
| "start_loop xchg frame start_time ((abort, now) # polls) t =
     (let t = note_abort abort t
      in if it_abort_requested t then Some (Start_return ERROR_GENERAL, transition_state now FPGA_INJ_STATE_FAILED t)
         else if now - start_time > FPGA_TRANSFER_START_TIMEOUT_SEC
         then Some (Start_return ERROR_TIMEOUT, transition_state now FPGA_INJ_STATE_FAILED t)
         else do {
           (res, l) \<leftarrow> xchg (it_link t) frame 256 RS422_CMD_TRANSFER_START_ACK;
           let t = t\<lparr>it_link := l\<rparr>;
           r \<leftarrow> reply_result rs422_parse_transfer_start_ack res;
           (case r of
              None \<Rightarrow> start_loop xchg frame start_time polls t
            | Some result \<Rightarrow>
                if result = RS422_TRANSFER_PREPARING then start_loop xchg frame start_time polls t
                else Some (Start_result result, t)) })"

definition handle_transfer_start :: "'l exchanger \<Rightarrow> 'c package_env \<Rightarrow> (bool \<times> int) list \<Rightarrow> bool \<Rightarrow> int \<Rightarrow> 'l fpga_injection_task
    \<Rightarrow> (int option \<times> 'l fpga_injection_task) option" where
  "handle_transfer_start xchg pe polls abort_after now t = do {
     (frame_len, seq, frame) \<leftarrow> rs422_build_transfer_start (it_seq t) (transfer_start_params t) (replicate 512 0) 512;
     let t = t\<lparr>it_seq := seq\<rparr>;
     if frame_len < 0 then Some (Some ERROR_GENERAL, transition_state now FPGA_INJ_STATE_FAILED t)
     else do {
       (outcome, t) \<leftarrow> start_loop xchg (take (nat frame_len) frame) now polls t;
       (case outcome of
          Start_polling \<Rightarrow> Some (None, t)
        | Start_return ret \<Rightarrow> Some (Some ret, t)
        | Start_result result \<Rightarrow>
            if result \<noteq> RS422_TRANSFER_READY then Some (Some ERROR_GENERAL, transition_state now FPGA_INJ_STATE_FAILED t)
            else case pe_bytes pe (md_bin_file_path (it_metadata t)) of
                   None \<Rightarrow> Some (Some ERROR_GENERAL, transition_state now FPGA_INJ_STATE_FAILED t)
                 | Some d \<Rightarrow>
                     let t = note_abort abort_after (t\<lparr>it_bin_fp := Some (d, 0)\<rparr>)
                     in if it_abort_requested t then Some (Some ERROR_GENERAL, transition_state now FPGA_INJ_STATE_FAILED t)
                        else Some (Some SUCCESS, transition_state now FPGA_INJ_STATE_TRANSFER_DATA
                               (t\<lparr>it_current_segment := 0, it_current_packet_in_segment := 0, it_segment_offset := 0,
                                 it_retry_count := 0\<rparr>))) } }"

subsection \<open>Data\<close>

text \<open>The four branches of a packet that was not acknowledged do the same.\<close>

definition data_retry :: "'l sender \<Rightarrow> 'l exchanger \<Rightarrow> int \<Rightarrow> 'l fpga_injection_task \<Rightarrow> (int \<times> 'l fpga_injection_task) option" where
  "data_retry send xchg now t =
     (let t = t\<lparr>it_retry_count := it_retry_count t + 1\<rparr>
      in if it_retry_count t \<ge> it_max_retries t
         then do {
           (ret, t) \<leftarrow> send_transfer_abort send xchg t;
           Some (ERROR_GENERAL, transition_state now FPGA_INJ_STATE_FAILED t) }
         else Some (ERROR_GENERAL, t))"

definition segment_size :: "'l fpga_injection_task \<Rightarrow> u32 \<Rightarrow> u32" where
  "segment_size t i =
     (if i = it_total_segments t - 1 then md_file_size (it_metadata t) - i * FPGA_SEGMENT_SIZE else FPGA_SEGMENT_SIZE)"

definition packets_of :: "u32 \<Rightarrow> u32" where
  "packets_of seg_size = (seg_size + FPGA_PACKET_SIZE - 1) div FPGA_PACKET_SIZE"

definition progress_report :: "'l fpga_injection_task \<Rightarrow> 'l fpga_injection_task" where
  "progress_report t =
     (if it_progress_callback t
      then let total = sum_list (map (\<lambda>i. packets_of (segment_size t (of_nat i))) [0..<unat (it_total_segments t)]);
               current = sum_list (map (\<lambda>i. packets_of (segment_size t (of_nat i))) [0..<unat (it_current_segment t)])
                         + it_current_packet_in_segment t
           in t\<lparr>it_progress := it_progress t @ [(current, total)]\<rparr>
      else t)"

text \<open>Opening a segment: the number of its packets, its offset, and the seek to it.\<close>

definition data_open_segment :: "bool \<Rightarrow> 'l fpga_injection_task \<Rightarrow> (bool \<times> 'l fpga_injection_task) option" where
  "data_open_segment fseek_ok t =
     (if it_current_packet_in_segment t = 0
      then do {
        let t = t\<lparr>it_total_packets_in_segment := packets_of (segment_size t (it_current_segment t)),
                  it_segment_offset := it_current_segment t * FPGA_SEGMENT_SIZE\<rparr>;
        (d, pos) \<leftarrow> it_bin_fp t;
        if fseek_ok then Some (True, t\<lparr>it_bin_fp := Some (d, unat (it_segment_offset t))\<rparr>) else Some (False, t) }
      else Some (True, t))"

definition data_packet_size :: "'l fpga_injection_task \<Rightarrow> u32" where
  "data_packet_size t =
     (if it_current_packet_in_segment t = it_total_packets_in_segment t - 1
      then let remaining = segment_size t (it_current_segment t) - it_current_packet_in_segment t * FPGA_PACKET_SIZE
           in if remaining < FPGA_PACKET_SIZE then remaining else FPGA_PACKET_SIZE
      else FPGA_PACKET_SIZE)"

text \<open>Seeking back for a packet that is sent again, then reading the packet.\<close>

definition data_read :: "bool \<Rightarrow> 'l fpga_injection_task \<Rightarrow> (bytes option \<times> 'l fpga_injection_task) option" where
  "data_read fseek_ok t = do {
     (d, pos) \<leftarrow> it_bin_fp t;
     if it_retry_count t > 0 \<and> \<not> fseek_ok then Some (None, t)
     else let pos = (if it_retry_count t > 0
                     then unat (it_segment_offset t + it_current_packet_in_segment t * FPGA_PACKET_SIZE) else pos);
              data = take (unat (data_packet_size t)) (drop pos d);
              t = t\<lparr>it_bin_fp := Some (d, pos + length data)\<rparr>
          in Some (if length data \<noteq> unat (data_packet_size t) then None else Some data, t) }"

text \<open>Sending the packet and acting on the reply.\<close>

definition data_send :: "'l sender \<Rightarrow> 'l exchanger \<Rightarrow> int \<Rightarrow> bytes \<Rightarrow> 'l fpga_injection_task \<Rightarrow> (int \<times> 'l fpga_injection_task) option" where
  "data_send send xchg now data t = do {
     (frame_len, frame) \<leftarrow> rs422_build_file_data (ucast (it_current_segment t)) data (of_nat (length data))
        (replicate 1512 0) 1512 (it_current_packet_in_segment t) (it_total_packets_in_segment t);
     if frame_len < 0 then Some (ERROR_GENERAL, transition_state now FPGA_INJ_STATE_FAILED t)
     else do {
       (res, l) \<leftarrow> xchg (it_link t) (take (nat frame_len) frame) 256 RS422_CMD_DATA_ACK;
       let t = t\<lparr>it_link := l\<rparr>;
       r \<leftarrow> reply_result rs422_parse_data_ack res;
       if r \<noteq> Some RS422_DATA_RECEIVED_OK then data_retry send xchg now t
       else Some (SUCCESS, progress_report (t\<lparr>it_current_packet_in_segment := it_current_packet_in_segment t + 1,
                     it_retry_count := 0\<rparr>)) } }"

definition handle_transfer_data :: "'l sender \<Rightarrow> 'l exchanger \<Rightarrow> bool \<Rightarrow> int \<Rightarrow> 'l fpga_injection_task
    \<Rightarrow> (int \<times> 'l fpga_injection_task) option" where
  "handle_transfer_data send xchg fseek_ok now t =
     (if it_current_segment t \<ge> it_total_segments t then Some (SUCCESS, transition_state now FPGA_INJ_STATE_TRANSFER_END t)
      else do {
        (ok, t) \<leftarrow> data_open_segment fseek_ok t;
        if \<not> ok then Some (ERROR_GENERAL, transition_state now FPGA_INJ_STATE_FAILED t)
        else if it_current_packet_in_segment t \<ge> it_total_packets_in_segment t
        then Some (SUCCESS, t\<lparr>it_current_segment := it_current_segment t + 1, it_current_packet_in_segment := 0,
                             it_retry_count := 0\<rparr>)
        else do {
          (data, t) \<leftarrow> data_read fseek_ok t;
          (case data of
             None \<Rightarrow> Some (ERROR_GENERAL, transition_state now FPGA_INJ_STATE_FAILED t)
           | Some bs \<Rightarrow> data_send send xchg now bs t) } })"

subsection \<open>Transfer end and reconfiguration\<close>

definition handle_transfer_end :: "'l sender \<Rightarrow> 'l exchanger \<Rightarrow> int \<Rightarrow> 'l fpga_injection_task
    \<Rightarrow> (int \<times> 'l fpga_injection_task) option" where
  "handle_transfer_end send xchg now t = do {
     let t = t\<lparr>it_bin_fp := None\<rparr>;
     (frame_len, seq, frame) \<leftarrow> rs422_build_transfer_end (it_seq t) (replicate 256 0) 256;
     let t = t\<lparr>it_seq := seq\<rparr>;
     if frame_len < 0 then Some (ERROR_GENERAL, transition_state now FPGA_INJ_STATE_FAILED t)
     else do {
       (res, l) \<leftarrow> xchg (it_link t) (take (nat frame_len) frame) 256 RS422_CMD_TRANSFER_END_ACK;
       let t = t\<lparr>it_link := l\<rparr>;
       r \<leftarrow> reply_result rs422_parse_transfer_end_ack res;
       (case r of
          None \<Rightarrow> Some (ERROR_GENERAL, transition_state now FPGA_INJ_STATE_FAILED t)
        | Some result \<Rightarrow>
            if result \<noteq> RS422_TRANSFER_COMPLETE_OK
            then do {
              (ret, t) \<leftarrow> send_transfer_abort send xchg t;
              Some (ERROR_GENERAL, transition_state now FPGA_INJ_STATE_FAILED t) }
            else Some (SUCCESS, transition_state now FPGA_INJ_STATE_RECONFIG_START t)) } }"

definition handle_reconfig_start :: "'l sender \<Rightarrow> int \<Rightarrow> 'l fpga_injection_task \<Rightarrow> (int \<times> 'l fpga_injection_task) option" where
  "handle_reconfig_start send now t = do {
     (frame_len, seq, frame) \<leftarrow> rs422_build_reconfig_start (it_seq t) (md_file_type (it_metadata t))
        (md_file_sub_type (it_metadata t)) (replicate 256 0) 256;
     let t = t\<lparr>it_seq := seq\<rparr>;
     if frame_len < 0 then Some (ERROR_GENERAL, transition_state now FPGA_INJ_STATE_FAILED t)
     else do {
       (ret, l) \<leftarrow> send (it_link t) (take (nat frame_len) frame);
       let t = t\<lparr>it_link := l\<rparr>;
       if ret \<noteq> SUCCESS then Some (ERROR_GENERAL, transition_state now FPGA_INJ_STATE_FAILED t)
       else Some (SUCCESS, transition_state now FPGA_INJ_STATE_RECONFIG_POLLING (t\<lparr>it_last_activity := now\<rparr>)) } }"

definition handle_reconfig_polling :: "'l exchanger \<Rightarrow> int \<Rightarrow> 'l fpga_injection_task \<Rightarrow> (int \<times> 'l fpga_injection_task) option" where
  "handle_reconfig_polling xchg now t =
     (if now - it_last_activity t > FPGA_RECONFIG_TIMEOUT_SEC
      then Some (ERROR_TIMEOUT, transition_state now FPGA_INJ_STATE_FAILED t)
      else do {
        (frame_len, seq, frame) \<leftarrow> rs422_build_reconfig_query (it_seq t) (replicate 256 0) 256;
        let t = t\<lparr>it_seq := seq\<rparr>;
        if frame_len < 0 then Some (ERROR_GENERAL, t)
        else do {
          (res, l) \<leftarrow> xchg (it_link t) (take (nat frame_len) frame) 256 RS422_CMD_RECONFIG_ACK;
          let t = t\<lparr>it_link := l\<rparr>;
          r \<leftarrow> reply_result rs422_parse_reconfig_ack res;
          (case r of
             None \<Rightarrow> Some (ERROR_GENERAL, t)
           | Some result \<Rightarrow>
               if result = RS422_RECONFIG_SUCCESS then Some (SUCCESS, transition_state now FPGA_INJ_STATE_COMPLETED t)
               else if result = RS422_RECONFIG_IN_PROGRESS then Some (SUCCESS, t)
               else Some (ERROR_GENERAL, transition_state now FPGA_INJ_STATE_FAILED t)) } })"

subsection \<open>The thread\<close>

text \<open>What one turn of the thread meets.\<close>

record turn_input =
  ti_abort :: bool
  ti_now :: int
  ti_malloc_ok :: bool
  ti_fseek_ok :: bool
  ti_polls :: "(bool \<times> int) list"
  ti_abort_after :: bool

text \<open>The body of the loop for a state that is not final. The result is \<open>None\<close> inside \<open>Some\<close> when the
  turn is still polling at the end of its script.\<close>

definition injection_turn :: "'l sender \<Rightarrow> 'l exchanger \<Rightarrow> 'c package_env \<Rightarrow> turn_input \<Rightarrow> 'l fpga_injection_task
    \<Rightarrow> (int option \<times> 'l fpga_injection_task) option" where
  "injection_turn send xchg pe e t =
     (let whole = map_option (\<lambda>(ret, t). (Some ret, t))
      in case it_state t of
           FPGA_INJ_STATE_PARSING_METADATA \<Rightarrow> whole (Some (handle_parsing_metadata pe (ti_malloc_ok e) (ti_now e) t))
         | FPGA_INJ_STATE_TRANSFER_START \<Rightarrow> handle_transfer_start xchg pe (ti_polls e) (ti_abort_after e) (ti_now e) t
         | FPGA_INJ_STATE_TRANSFER_DATA \<Rightarrow> whole (handle_transfer_data send xchg (ti_fseek_ok e) (ti_now e) t)
         | FPGA_INJ_STATE_TRANSFER_END \<Rightarrow> whole (handle_transfer_end send xchg (ti_now e) t)
         | FPGA_INJ_STATE_RECONFIG_START \<Rightarrow> whole (handle_reconfig_start send (ti_now e) t)
         | FPGA_INJ_STATE_RECONFIG_POLLING \<Rightarrow> whole (handle_reconfig_polling xchg (ti_now e) t)
         | _ \<Rightarrow> Some (Some SUCCESS, t))"

definition exit_thread :: "'l sender \<Rightarrow> 'l fpga_injection_task \<Rightarrow> 'l fpga_injection_task option" where
  "exit_thread send t = do {
     (ret, t) \<leftarrow> send_upload_notify send RS422_UPLOAD_NOTIFY_POST t;
     Some (t\<lparr>it_bin_fp := None, it_in_progress := False\<rparr>) }"

text \<open>The loop over the turns; the flag says whether the thread has ended.\<close>

fun thread_loop :: "'l sender \<Rightarrow> 'l exchanger \<Rightarrow> 'c package_env \<Rightarrow> turn_input list \<Rightarrow> 'l fpga_injection_task
    \<Rightarrow> (bool \<times> 'l fpga_injection_task) option" where
  "thread_loop send xchg pe [] t = Some (False, t)"
| "thread_loop send xchg pe (e # es) t =
     (let t = note_abort (ti_abort e) t
      in if it_abort_requested t \<or> it_state t = FPGA_INJ_STATE_COMPLETED \<or> it_state t = FPGA_INJ_STATE_FAILED
         then do { t \<leftarrow> exit_thread send t; Some (True, t) }
         else do {
           (ret, t) \<leftarrow> injection_turn send xchg pe e t;
           (case ret of None \<Rightarrow> Some (False, t) | Some r \<Rightarrow> thread_loop send xchg pe es t) })"

definition injection_thread_func :: "'l sender \<Rightarrow> 'l exchanger \<Rightarrow> 'c package_env \<Rightarrow> turn_input list \<Rightarrow> 'l fpga_injection_task
    \<Rightarrow> (bool \<times> 'l fpga_injection_task) option" where
  "injection_thread_func send xchg pe es t = do {
     (ret, t) \<leftarrow> send_upload_notify send RS422_UPLOAD_NOTIFY_PRE t;
     thread_loop send xchg pe es t }"

section \<open>The packets of a file\<close>

text \<open>A file of \<open>n\<close> bytes in segments of 1 MB and packets of 1000 bytes, in natural numbers.\<close>

definition seg_count :: "nat \<Rightarrow> nat" where
  "seg_count n = (n + 1048576 - 1) div 1048576"

definition seg_len :: "nat \<Rightarrow> nat \<Rightarrow> nat" where
  "seg_len n i = (if i = seg_count n - 1 then n - i * 1048576 else 1048576)"

definition pk_count :: "nat \<Rightarrow> nat \<Rightarrow> nat" where
  "pk_count n i = (seg_len n i + 1000 - 1) div 1000"

definition pk_start :: "nat \<Rightarrow> nat \<Rightarrow> nat" where
  "pk_start i j = i * 1048576 + j * 1000"

definition pk_size :: "nat \<Rightarrow> nat \<Rightarrow> nat \<Rightarrow> nat" where
  "pk_size n i j = min 1000 (seg_len n i - j * 1000)"

definition pk_data :: "bytes \<Rightarrow> nat \<Rightarrow> nat \<times> nat \<Rightarrow> bytes" where
  "pk_data d n ij = (case ij of (i, j) \<Rightarrow> take (pk_size n i j) (drop (pk_start i j) d))"

definition file_packets :: "nat \<Rightarrow> (nat \<times> nat) list" where
  "file_packets n = concat (map (\<lambda>i. map (Pair i) [0..<pk_count n i]) [0..<seg_count n])"

lemma ceil_div:
  fixes n c :: nat
  assumes "0 < c"
  shows "n \<le> (n + c - 1) div c * c" "0 < n \<Longrightarrow> 0 < (n + c - 1) div c" "0 < n \<Longrightarrow> ((n + c - 1) div c - 1) * c < n"
proof -
  let ?k = "(n + c - 1) div c"
  have e: "?k * c + (n + c - 1) mod c = n + c - 1" by (rule div_mult_mod_eq)
  moreover have m: "(n + c - 1) mod c < c" using assms by simp
  ultimately show "n \<le> ?k * c" by linarith
  have "(?k - 1) * c = ?k * c - c" by (simp add: diff_mult_distrib)
  then show "0 < n \<Longrightarrow> (?k - 1) * c < n" using e assms by linarith
  show "0 < n \<Longrightarrow> 0 < ?k" using assms by (simp add: div_greater_zero_iff)
qed

lemma seg_count_bounds: "n \<le> seg_count n * 1048576" "0 < n \<Longrightarrow> 0 < seg_count n" "0 < n \<Longrightarrow> (seg_count n - 1) * 1048576 < n"
  using ceil_div [of 1048576 n] by (simp_all add: seg_count_def)

lemma seg_count_0: "seg_count n = 0 \<longleftrightarrow> n = 0"
  using seg_count_bounds(2) [of n] by (auto simp: seg_count_def)

lemma seg_len_bounds:
  assumes "i < seg_count n"
  shows "0 < seg_len n i" "seg_len n i \<le> 1048576" "i * 1048576 + seg_len n i \<le> n"
proof -
  have n: "0 < n" using assms by (cases "n = 0") (simp_all add: seg_count_def)
  have "(seg_count n - 1) * 1048576 < n" "n \<le> seg_count n * 1048576" using seg_count_bounds n by blast+
  moreover have "Suc i * 1048576 \<le> (seg_count n - 1) * 1048576" if "i \<noteq> seg_count n - 1" using assms that by (intro mult_right_mono) simp_all
  moreover have "seg_count n * 1048576 = (seg_count n - 1) * 1048576 + 1048576" using assms by (cases "seg_count n") simp_all
  ultimately show "0 < seg_len n i" "seg_len n i \<le> 1048576" "i * 1048576 + seg_len n i \<le> n"
    unfolding seg_len_def by (auto split: if_splits)
qed

lemma seg_len_total: "i < seg_count n \<Longrightarrow> i * 1048576 + seg_len n i = min n (Suc i * 1048576)"
  using seg_len_bounds(3) [of i n] seg_count_bounds(1) [of n] by (auto simp: seg_len_def split: if_splits)

lemma pk_count_bounds:
  "seg_len n i \<le> pk_count n i * 1000" "i < seg_count n \<Longrightarrow> 0 < pk_count n i \<and> (pk_count n i - 1) * 1000 < seg_len n i"
  "i < seg_count n \<Longrightarrow> pk_count n i \<le> 1049"
proof -
  show "seg_len n i \<le> pk_count n i * 1000" using ceil_div(1) [of 1000] by (simp add: pk_count_def)
  assume i: "i < seg_count n"
  note s = seg_len_bounds [OF i]
  show p: "0 < pk_count n i \<and> (pk_count n i - 1) * 1000 < seg_len n i" using ceil_div(2,3) [of 1000] s(1) by (simp add: pk_count_def)
  show "pk_count n i \<le> 1049" using p s(2) by linarith
qed

lemma pk_size_bounds:
  assumes "i < seg_count n" "j < pk_count n i"
  shows "0 < pk_size n i j" "pk_size n i j \<le> 1000" "pk_start i j + pk_size n i j \<le> n"
    "j \<noteq> pk_count n i - 1 \<Longrightarrow> pk_size n i j = 1000"
proof -
  have "j * 1000 \<le> (pk_count n i - 1) * 1000" using assms(2) by simp
  then have "j * 1000 < seg_len n i" using pk_count_bounds(2) [OF assms(1)] by linarith
  then show "0 < pk_size n i j" "pk_size n i j \<le> 1000" "pk_start i j + pk_size n i j \<le> n"
    using seg_len_bounds [OF assms(1)] by (simp_all add: pk_size_def pk_start_def)
  assume "j \<noteq> pk_count n i - 1"
  then have "Suc j * 1000 \<le> (pk_count n i - 1) * 1000" using assms(2) by (intro mult_right_mono) simp_all
  then have "1000 + j * 1000 < seg_len n i" using pk_count_bounds(2) [OF assms(1)] by simp
  then show "pk_size n i j = 1000" by (simp add: pk_size_def)
qed

text \<open>Together the packets are the file.\<close>

lemma concat_map_concat: "concat (map f (concat xss)) = concat (map (\<lambda>xs. concat (map f xs)) xss)"
  by (induction xss) simp_all

lemma segment_data:
  assumes "i < seg_count n" "k \<le> pk_count n i"
  shows "concat (map (\<lambda>j. pk_data d n (i, j)) [0..<k]) = take (min (seg_len n i) (k * 1000)) (drop (i * 1048576) d)"
  using assms(2)
proof (induction k)
  case (Suc k)
  then have k: "k < pk_count n i" by simp
  have "k * 1000 \<le> (pk_count n i - 1) * 1000" using k by simp
  then have "k * 1000 < seg_len n i" using pk_count_bounds(2) [OF assms(1)] by linarith
  then have m: "min (seg_len n i) (Suc k * 1000) = k * 1000 + pk_size n i k" "min (seg_len n i) (k * 1000) = k * 1000"
    by (simp_all add: pk_size_def)
  have "concat (map (\<lambda>j. pk_data d n (i, j)) [0..<Suc k]) = take (k * 1000) (drop (i * 1048576) d) @ pk_data d n (i, k)"
    using Suc.IH k unfolding m(2) by simp
  then show ?case unfolding m(1) take_add by (simp add: pk_data_def pk_start_def add.commute)
qed simp

lemma file_packets_data: "concat (map (pk_data d n) (file_packets n)) = take n d"
proof -
  have "concat (map (\<lambda>i. concat (map (\<lambda>j. pk_data d n (i, j)) [0..<pk_count n i])) [0..<k]) = take (min n (k * 1048576)) d"
    if "k \<le> seg_count n" for k
    using that
  proof (induction k)
    case (Suc k)
    then have k: "k < seg_count n" by simp
    have "min (seg_len n k) (pk_count n k * 1000) = seg_len n k" using pk_count_bounds(1) [of n k] by simp
    then have "concat (map (\<lambda>j. pk_data d n (k, j)) [0..<pk_count n k]) = take (seg_len n k) (drop (k * 1048576) d)"
      using segment_data [OF k order_refl, of d] by simp
    moreover have "min n (Suc k * 1048576) = k * 1048576 + seg_len n k" "min n (k * 1048576) = k * 1048576"
      using seg_len_total [OF k] seg_len_bounds(3) [OF k] by simp_all
    ultimately show ?case using Suc by (simp add: take_add)
  qed simp
  from this [OF order_refl] show ?thesis
    using seg_count_bounds(1) [of n] by (simp add: file_packets_def concat_map_concat comp_def)
qed

section \<open>Sending a packet\<close>

definition packet_frame :: "bytes \<Rightarrow> nat \<Rightarrow> nat \<times> nat \<Rightarrow> bytes" where
  "packet_frame d n ij = (case ij of (i, j) \<Rightarrow>
     rs422_frame RS422_SYNC_WORD_CMD (RS422_APID_FILE_DATA AND 0x07FF)
       (push_bit 14 (ucast (rs422_group_flag (of_nat j) (of_nat (pk_count n i)))) OR ucast ((of_nat j :: u32) AND 0x3FFF))
       (of_nat i) (pk_data d n (i, j)))"

text \<open>The open file and what the metadata handler computed for it.\<close>

definition data_file :: "bytes \<Rightarrow> nat \<Rightarrow> 'l fpga_injection_task \<Rightarrow> bool" where
  "data_file d n t \<longleftrightarrow> unat (md_file_size (it_metadata t)) = n \<and> n + 1048576 \<le> 2 ^ 32 \<and> n \<le> length d
     \<and> it_total_segments t = of_nat (seg_count n)"

text \<open>The position of the transfer: packet \<open>j\<close> of segment \<open>i\<close>, sent \<open>r\<close> times without success. In the
  middle of a segment, and in any segment once it is opened, the packet count and the offset are
  those of the segment and the file is positioned for the packet.\<close>

definition segment_open :: "bytes \<Rightarrow> nat \<Rightarrow> nat \<Rightarrow> nat \<Rightarrow> nat \<Rightarrow> 'l fpga_injection_task \<Rightarrow> bool" where
  "segment_open d n i j r t \<longleftrightarrow> it_total_packets_in_segment t = of_nat (pk_count n i)
     \<and> it_segment_offset t = of_nat (i * 1048576)
     \<and> (r = 0 \<longrightarrow> j < pk_count n i \<longrightarrow> it_bin_fp t = Some (d, pk_start i j))"

definition data_at :: "bytes \<Rightarrow> nat \<Rightarrow> nat \<Rightarrow> nat \<Rightarrow> nat \<Rightarrow> 'l fpga_injection_task \<Rightarrow> bool" where
  "data_at d n i j r t \<longleftrightarrow> data_file d n t \<and> it_state t = FPGA_INJ_STATE_TRANSFER_DATA \<and> (\<exists>pos. it_bin_fp t = Some (d, pos))
     \<and> it_current_segment t = of_nat i \<and> it_current_packet_in_segment t = of_nat j \<and> it_retry_count t = of_nat r
     \<and> r < unat (it_max_retries t) \<and> (if i < seg_count n then j \<le> pk_count n i \<and> (0 < r \<longrightarrow> j < pk_count n i) else i = seg_count n \<and> j = 0 \<and> r = 0)
     \<and> (0 < j \<longrightarrow> segment_open d n i j r t)"

text \<open>What the transfer leaves alone.\<close>

definition same_task :: "'l fpga_injection_task \<Rightarrow> 'l fpga_injection_task \<Rightarrow> bool" where
  "same_task t t' \<longleftrightarrow> it_metadata t' = it_metadata t \<and> it_version_dir t' = it_version_dir t
     \<and> it_total_segments t' = it_total_segments t \<and> it_file_checksum t' = it_file_checksum t
     \<and> it_max_retries t' = it_max_retries t"

lemma same_task_refl [simp]: "same_task t t"
  by (simp add: same_task_def)

lemma same_task_trans: "same_task t t' \<Longrightarrow> same_task t' t'' \<Longrightarrow> same_task t t''"
  by (simp add: same_task_def)

lemma seg_count_small: "n + 1048576 \<le> 2 ^ 32 \<Longrightarrow> seg_count n \<le> 4096"
  unfolding seg_count_def by (rule order_trans [OF div_le_mono [of _ "2 ^ 32 - 1"]]) simp_all

lemma pk_count_pos: "i < seg_count n \<Longrightarrow> 0 < pk_count n i"
  using pk_count_bounds(2) by blast

lemma word_of_nat_inj: "p < 2 ^ 32 \<Longrightarrow> q < 2 ^ 32 \<Longrightarrow> (of_nat p :: u32) = of_nat q \<longleftrightarrow> p = q"
  by (metis u32_of_nat)

lemma word_of_nat_le: "p < 2 ^ 32 \<Longrightarrow> q < 2 ^ 32 \<Longrightarrow> (of_nat p :: u32) \<le> of_nat q \<longleftrightarrow> p \<le> q"
  by (simp only: u32_le_nat u32_of_nat)

lemma word_of_nat_less: "p < 2 ^ 32 \<Longrightarrow> q < 2 ^ 32 \<Longrightarrow> (of_nat p :: u32) < of_nat q \<longleftrightarrow> p < q"
  by (simp only: u32_less_nat u32_of_nat)

lemma word_of_nat_pred: "0 < p \<Longrightarrow> (of_nat p :: u32) - 1 = of_nat (p - 1)"
  by (simp add: of_nat_diff)

lemma segment_size_nat:
  assumes f: "data_file d n t" and i: "i < seg_count n"
  shows "segment_size t (of_nat i) = of_nat (seg_len n i)"
proof -
  have s: "seg_count n < 2 ^ 32" using f seg_count_small [of n] by (simp add: data_file_def)
  have "it_total_segments t - 1 = of_nat (seg_count n - 1)" 
    using f i word_of_nat_pred [of "seg_count n"] by (simp only: data_file_def)
  then have c: "(of_nat i :: u32) = it_total_segments t - 1 \<longleftrightarrow> i = seg_count n - 1"
    using i s word_of_nat_inj [of i "seg_count n - 1"] by simp
  have "md_file_size (it_metadata t) = of_nat n" using f by (auto simp: data_file_def)
  moreover have "i * 1048576 \<le> n" using seg_len_bounds(3) [OF i] by simp
  then have "(of_nat (n - i * 1048576) :: u32) = of_nat n - of_nat (i * 1048576)" by (rule of_nat_diff)
  ultimately show ?thesis unfolding segment_size_def c seg_len_def FPGA_SEGMENT_SIZE_def by auto
qed

lemma packets_of_nat: "s \<le> 1048576 \<Longrightarrow> packets_of (of_nat s) = of_nat ((s + 1000 - 1) div 1000)"
proof -
  assume s: "s \<le> 1048576"
  have e: "(of_nat s :: u32) + FPGA_PACKET_SIZE - 1 = of_nat (s + 999)" by (simp add: FPGA_PACKET_SIZE_def)
  have "unat (packets_of (of_nat s)) = (s + 999) div 1000"
    unfolding packets_of_def e using s by (simp add: unat_div u32_of_nat FPGA_PACKET_SIZE_def del: of_nat_add)
  moreover have "(s + 999) div 1000 \<le> 1049" by (rule order_trans [OF div_le_mono [of _ 1049575]]) (use s in simp_all)
  ultimately have "unat (packets_of (of_nat s)) = unat (of_nat ((s + 999) div 1000) :: u32)" by (subst u32_of_nat) simp_all
  then show ?thesis unfolding u32_eq_nat by (simp add: add.commute)
qed

lemma packets_of_segment:
  "data_file d n t \<Longrightarrow> i < seg_count n \<Longrightarrow> packets_of (segment_size t (of_nat i)) = of_nat (pk_count n i)"
  using seg_len_bounds(2) [of i n] by (simp add: segment_size_nat packets_of_nat pk_count_def)

lemma data_atD:
  assumes "data_at d n i j r t"
  shows "data_file d n t" "it_state t = FPGA_INJ_STATE_TRANSFER_DATA" "it_current_segment t = of_nat i"
    "it_current_packet_in_segment t = of_nat j" "it_retry_count t = of_nat r" "r < unat (it_max_retries t)"
    "i \<le> seg_count n" "i < seg_count n \<Longrightarrow> j \<le> pk_count n i" "0 < j \<Longrightarrow> segment_open d n i j r t"
    "\<exists>pos. it_bin_fp t = Some (d, pos)"
  using assms by (auto simp: data_at_def split: if_splits)

lemma data_at_end:
  assumes "data_at d n i j r t"
  shows "it_total_segments t \<le> it_current_segment t \<longleftrightarrow> i = seg_count n"
proof -
  note a = data_atD [OF assms]
  have "seg_count n < 2 ^ 32" using a(1) seg_count_small [of n] by (simp add: data_file_def)
  then have "(of_nat (seg_count n) :: u32) \<le> of_nat i \<longleftrightarrow> seg_count n \<le> i" using a(7) by (intro word_of_nat_le) simp_all
  then show ?thesis using a(1,3,7) by (auto simp: data_file_def)
qed

lemma open_segment:
  assumes at: "data_at d n i j r t" and i: "i < seg_count n"
  shows "\<exists>t'. data_open_segment ok t = Some (ok \<or> 0 < j, t') \<and> it_link t' = it_link t \<and> same_task t t'
     \<and> (ok \<or> 0 < j \<longrightarrow> data_at d n i j r t' \<and> segment_open d n i j r t')"
proof -
  note a = data_atD [OF at]
  have jb: "j < 2 ^ 32" using a(8) [OF i] pk_count_bounds(3) [OF i] by simp
  have j0: "(of_nat j :: u32) = 0 \<longleftrightarrow> j = 0" using word_of_nat_inj [OF jb, of 0] by simp
  show ?thesis
  proof (cases "j = 0")
    case False
    then show ?thesis using at a(9) unfolding data_open_segment_def a(4) j0 by simp
  next
    case True
    obtain pos where pos: "it_bin_fp t = Some (d, pos)" using a(10) by blast
    have e: "of_nat i * FPGA_SEGMENT_SIZE = of_nat (i * 1048576)" by (simp add: FPGA_SEGMENT_SIZE_def)
    have "i * 1048576 < 2 ^ 32" using seg_len_bounds(3) [OF i] a(1) by (simp add: data_file_def)
    then have b: "unat (of_nat i * FPGA_SEGMENT_SIZE) = i * 1048576" unfolding e by (rule u32_of_nat)
    let ?t = "t\<lparr>it_total_packets_in_segment := packets_of (segment_size t (it_current_segment t)),
                  it_segment_offset := it_current_segment t * FPGA_SEGMENT_SIZE\<rparr>"
    have "data_open_segment ok t = (if ok then Some (True, ?t\<lparr>it_bin_fp := Some (d, i * 1048576)\<rparr>) else Some (False, ?t))"
      using True b pos unfolding data_open_segment_def a(4) j0 by (simp add: a(3))
    moreover have "segment_open d n i j r (?t\<lparr>it_bin_fp := Some (d, i * 1048576)\<rparr>)"
      using True packets_of_segment [OF a(1) i] e by (simp add: segment_open_def a(3) pk_start_def)
    moreover from this have "data_at d n i j r (?t\<lparr>it_bin_fp := Some (d, i * 1048576)\<rparr>)"
      using at by (simp add: data_at_def data_file_def)
    ultimately show ?thesis using True by (cases ok) (simp_all add: same_task_def)
  qed
qed

lemma packet_size_nat:
  assumes at: "data_at d n i j r t" and i: "i < seg_count n" and op: "segment_open d n i j r t" and j: "j < pk_count n i"
  shows "data_packet_size t = of_nat (pk_size n i j)"
proof -
  note a = data_atD [OF at]
  have pk: "pk_count n i \<le> 1049" "0 < pk_count n i" using pk_count_bounds(2,3) [OF i] by simp_all
  have "it_total_packets_in_segment t - 1 = of_nat (pk_count n i - 1)"
    using op word_of_nat_pred [OF pk(2)] by (simp only: segment_open_def)
  then have l: "(of_nat j :: u32) = it_total_packets_in_segment t - 1 \<longleftrightarrow> j = pk_count n i - 1"
    using word_of_nat_inj [of j "pk_count n i - 1"] j pk by simp
  show ?thesis
  proof (cases "j = pk_count n i - 1")
    case False
    then show ?thesis using pk_size_bounds(4) [OF i j False]
      unfolding data_packet_size_def a(4) l by (simp add: FPGA_PACKET_SIZE_def)
  next
    case True
    have lt: "j * 1000 < seg_len n i" using pk_count_bounds(2) [OF i] True by simp
    let ?rem = "seg_len n i - j * 1000"
    have "(of_nat ?rem :: u32) = of_nat (seg_len n i) - of_nat (j * 1000)" using lt by (intro of_nat_diff) simp
    then have rem: "segment_size t (of_nat i) - of_nat j * FPGA_PACKET_SIZE = of_nat ?rem"
      by (simp add: segment_size_nat [OF a(1) i] FPGA_PACKET_SIZE_def)
    have "?rem \<le> 1000" using pk_count_bounds(1) [of n i] True pk(2) by (cases "pk_count n i") simp_all
    moreover have "(of_nat ?rem :: u32) < of_nat 1000 \<longleftrightarrow> ?rem < 1000" using calculation by (intro word_of_nat_less) simp_all
    ultimately show ?thesis
      using True unfolding data_packet_size_def a(3,4) l Let_def rem pk_size_def
      by (auto simp: min_def FPGA_PACKET_SIZE_def)
  qed
qed

lemma read_packet:
  assumes at: "data_at d n i j r t" and i: "i < seg_count n" and op: "segment_open d n i j r t" and j: "j < pk_count n i"
  shows "data_read ok t = (if 0 < r \<and> \<not> ok then Some (None, t)
     else Some (Some (pk_data d n (i, j)), t\<lparr>it_bin_fp := Some (d, pk_start i j + pk_size n i j)\<rparr>))"
proof -
  note a = data_atD [OF at] and b = pk_size_bounds [OF i j]
  obtain pos where pos: "it_bin_fp t = Some (d, pos)" using a(10) by blast
  have n: "n \<le> length d" "n < 2 ^ 32" using a(1) by (simp_all add: data_file_def)
  have r0: "0 < it_retry_count t \<longleftrightarrow> 0 < r"
  proof -
    have "r < 2 ^ 32" using a(6) u32_bound [of "it_max_retries t"] by simp
    then show ?thesis using word_of_nat_less [of 0 r] a(5) by simp
  qed
  have "it_segment_offset t + it_current_packet_in_segment t * FPGA_PACKET_SIZE = of_nat (pk_start i j)"
    using op by (simp add: segment_open_def a(4) pk_start_def FPGA_PACKET_SIZE_def)
  moreover have "pk_start i j < 2 ^ 32" using b(3) n by simp
  ultimately have off: "unat (it_segment_offset t + it_current_packet_in_segment t * FPGA_PACKET_SIZE) = pk_start i j"
    by (simp only: u32_of_nat)
  have at0: "(if 0 < r then pk_start i j else pos) = pk_start i j" using op j pos by (auto simp: segment_open_def)
  have sz: "unat (data_packet_size t) = pk_size n i j"
    unfolding packet_size_nat [OF assms] using b(2) by (intro u32_of_nat) simp
  have len: "length (take (pk_size n i j) (drop (pk_start i j) d)) = pk_size n i j" using b(3) n by simp
  have sz': "data_packet_size (t\<lparr>it_bin_fp := x\<rparr>) = data_packet_size t" for x
    by (simp add: data_packet_size_def segment_size_def)
  show ?thesis
    unfolding data_read_def pos bind.simps prod.case r0 off at0 sz sz' Let_def len by (simp add: pk_data_def)
qed

text \<open>The replies that the handlers accept never lead the parsers outside the received frame.\<close>

lemma reply_result_returns:
  assumes "fst res = SUCCESS \<longrightarrow> reply_ok cmd res"
  shows "\<exists>r. reply_result rs422_parse_data_ack res = Some r"
proof (cases "fst res = SUCCESS")
  case True
  then obtain fb m pid sc d t where r: "res = (SUCCESS, fb, m)" "fb = rs422_frame RS422_SYNC_WORD_ACK pid sc cmd d @ t"
      "length d < 65535" "12 + length d \<le> unat m"
    using assms by (cases res) (auto simp: reply_ok_def)
  show ?thesis
    using rs422_decode_ok [OF r(3,4), of pid sc cmd t out_zero] r(1,2)
    by (cases d) (auto simp: reply_result_def rs422_parse_data_ack_def arr_get_def)
next
  case False
  then show ?thesis by (cases res) (simp add: reply_result_def)
qed

lemma parse_acks [simp]:
  "rs422_parse_transfer_start_ack = rs422_parse_data_ack" "rs422_parse_transfer_end_ack = rs422_parse_data_ack"
  "rs422_parse_reconfig_ack = rs422_parse_data_ack"
  by (simp_all add: fun_eq_iff rs422_parse_transfer_start_ack_def rs422_parse_transfer_end_ack_def
      rs422_parse_reconfig_ack_def rs422_parse_data_ack_def)

definition acknowledged :: "line_result \<Rightarrow> bool" where
  "acknowledged res \<longleftrightarrow> reply_result rs422_parse_data_ack res = Some (Some 0)"

text \<open>The frames of the commands, which all carry the running sequence counter.\<close>

definition command_frame :: "u16 \<Rightarrow> u16 \<Rightarrow> bytes \<Rightarrow> bytes" where
  "command_frame seq cmd p = rs422_frame RS422_SYNC_WORD_CMD 0x180 (push_bit 14 3 OR (seq AND 0x3FFF)) cmd p"

lemma command_frame_length [simp]: "length (command_frame seq cmd p) = 12 + length p"
  by (simp add: command_frame_def)

lemma encode_command:
  assumes "length (payload_arg pl (unat k)) = unat k" "unat k \<le> 40" "52 \<le> unat sz"
  shows "rs422_encode_frame seq RS422_APID_CONTROL cmd pl k (replicate (unat sz) 0) sz = Some (int (12 + unat k), seq + 1,
     command_frame seq cmd (payload_arg pl (unat k)) @ replicate (unat sz - (12 + unat k)) 0)"
  using rs422_encode_ok [of pl k sz "replicate (unat sz) 0" seq RS422_APID_CONTROL cmd] assms
  by (simp add: command_frame_def)

definition start_payload :: "rs422_cmd_transfer_start \<Rightarrow> bytes" where
  "start_payload params = [ts_device_id params, ts_file_type params, ts_file_sub_type params]
     @ be16 (ts_segment_info params) @ be32 (ts_file_length params) @ be32 (ts_last_segment_len params)
     @ be16 (ts_file_checksum params)"

lemma build_commands:
  "rs422_build_transfer_abort seq (replicate 256 0) 256 = Some (12, seq + 1, command_frame seq RS422_CMD_TRANSFER_ABORT [] @ replicate 244 0)"
  "rs422_build_transfer_end seq (replicate 256 0) 256 = Some (12, seq + 1, command_frame seq RS422_CMD_TRANSFER_END [] @ replicate 244 0)"
  "rs422_build_reconfig_query seq (replicate 256 0) 256 = Some (12, seq + 1, command_frame seq RS422_CMD_RECONFIG_QUERY [] @ replicate 244 0)"
  "rs422_build_reconfig_start seq a b (replicate 256 0) 256 = Some (14, seq + 1, command_frame seq RS422_CMD_RECONFIG_START [a, b] @ replicate 242 0)"
  "rs422_build_upload_notify seq c (replicate 64 0) 64 = Some (14, seq + 1, command_frame seq RS422_CMD_UPLOAD_NOTIFY [c, 0xAA] @ replicate 50 0)"
  "rs422_build_transfer_start seq params (replicate 512 0) 512
     = Some (27, seq + 1, command_frame seq RS422_CMD_TRANSFER_START (start_payload params) @ replicate 485 0)"
  using encode_command [of None 0 256] encode_command [of "Some [a, b]" 2 256] encode_command [of "Some [c, 0xAA]" 2 64]
    encode_command [of "Some (start_payload params)" 15 512]
  by (simp_all add: payload_arg_def start_payload_def rs422_build_transfer_abort_def rs422_build_transfer_end_def
      rs422_build_reconfig_query_def rs422_build_reconfig_start_def rs422_build_upload_notify_def rs422_build_transfer_start_def)

lemma build_packet:
  assumes i: "i < seg_count n" and j: "j < pk_count n i" and n: "n + 1048576 \<le> 2 ^ 32" "n \<le> length d"
  shows "rs422_build_file_data (ucast (of_nat i :: u32)) (pk_data d n (i, j)) (of_nat (length (pk_data d n (i, j)))) (replicate 1512 0) 1512
      (of_nat j) (of_nat (pk_count n i)) = Some (int (12 + pk_size n i j), packet_frame d n (i, j) @ replicate (1500 - pk_size n i j) 0)"
proof -
  note b = pk_size_bounds [OF i j]
  have l: "length (pk_data d n (i, j)) = pk_size n i j" using b(3) n by (simp add: pk_data_def)
  have u: "unat (of_nat (pk_size n i j) :: u32) = pk_size n i j" using b(2) by (intro u32_of_nat) simp
  have w: "(ucast (of_nat i :: u32) :: u16) = of_nat i"
    using i seg_count_small [OF n(1)] by (simp add: unsigned_of_nat take_bit_nat_eq_self)
  show ?thesis
    using rs422_file_data_ok [of "of_nat (pk_size n i j)" "pk_data d n (i, j)" 1512 "replicate 1512 0"] b l u w
    by (simp add: packet_frame_def)
qed

section \<open>The data phase\<close>

text \<open>What one turn in the data state does, from packet \<open>j\<close> of segment \<open>i\<close> after \<open>r\<close> failures: the
  transfer is over, or the segment is, or the packet was sent and acknowledged, or it was sent and
  will be sent again, or the injection failed.\<close>

definition data_outcome :: "bytes \<Rightarrow> nat \<Rightarrow> nat \<Rightarrow> nat \<Rightarrow> nat \<Rightarrow> 'l fpga_injection_task \<Rightarrow> (bytes \<times> line_result) list \<Rightarrow> bool" where
  "data_outcome d n i j r t' entries \<longleftrightarrow>
     (i = seg_count n \<and> j = 0 \<and> it_state t' = FPGA_INJ_STATE_TRANSFER_END \<and> entries = [])
   \<or> (i < seg_count n \<and> j = pk_count n i \<and> data_at d n (Suc i) 0 0 t' \<and> entries = [])
   \<or> (i < seg_count n \<and> j < pk_count n i \<and> data_at d n i (Suc j) 0 t'
        \<and> (\<exists>res. acknowledged res \<and> entries = [(packet_frame d n (i, j), res)]))
   \<or> (i < seg_count n \<and> j < pk_count n i \<and> data_at d n i j (Suc r) t'
        \<and> (\<exists>res. \<not> acknowledged res \<and> entries = [(packet_frame d n (i, j), res)]))
   \<or> it_state t' = FPGA_INJ_STATE_FAILED"

lemma progress_report_frame [simp]: "it_link (progress_report t) = it_link t" "same_task t' (progress_report t) = same_task t' t"
  by (simp_all add: progress_report_def Let_def same_task_def)

lemma data_at_acknowledged:
  assumes at: "data_at d n i j r t" and op: "segment_open d n i j r t" and i: "i < seg_count n" and j: "j < pk_count n i"
  shows "data_at d n i (Suc j) 0 (progress_report (t\<lparr>it_bin_fp := Some (d, pk_start i j + pk_size n i j), it_link := l,
      it_current_packet_in_segment := it_current_packet_in_segment t + 1, it_retry_count := 0\<rparr>))" (is "data_at d n i (Suc j) 0 ?t'")
proof -
  have "pk_start i j + pk_size n i j = pk_start i (Suc j)" if "Suc j < pk_count n i"
    using pk_size_bounds(4) [OF i j] that by (simp add: pk_start_def)
  then show ?thesis
    using at op i j by (auto simp: data_at_def data_file_def segment_open_def progress_report_def Let_def)
qed

lemma data_at_sent:
  assumes "data_at d n i j r t" "segment_open d n i j r t"
  shows "data_at d n i j (Suc r) (t\<lparr>it_bin_fp := Some (d, pos), it_link := l, it_retry_count := it_retry_count t + 1\<rparr>)
      \<longleftrightarrow> Suc r < unat (it_max_retries t) \<and> i < seg_count n \<and> j < pk_count n i"
  using assms by (auto simp: data_at_def data_file_def segment_open_def)

context rs422_link
begin

lemma transfer_abort_returns:
  assumes "valid (it_link t)"
  shows "\<exists>ret t' more. send_transfer_abort send exchange t = Some (ret, t') \<and> valid (it_link t')
     \<and> log (it_link t') = log (it_link t) @ more \<and> same_task t t'"
proof -
  let ?f = "command_frame (it_seq t) RS422_CMD_TRANSFER_ABORT []"
  obtain ret l where s: "send (it_link t) ?f = Some (ret, l)" "valid l" "log l = log (it_link t) @ [(?f, ret, [], 0)]"
    using send_returns [OF assms] by blast
  obtain res l' where x: "exchange l ?f 256 RS422_CMD_ABORT_ACK = Some (res, l')" "valid l'" "log l' = log l @ [(?f, res)]"
    using exchange_returns [OF s(2), of RS422_CMD_ABORT_ACK ?f 256] by auto
  let ?t = "t\<lparr>it_seq := it_seq t + 1\<rparr>"
  have "send_transfer_abort send exchange t = (if ret \<noteq> SUCCESS then Some (ERROR_GENERAL, ?t\<lparr>it_link := l\<rparr>) else Some (SUCCESS, ?t\<lparr>it_link := l'\<rparr>))"
    using s(1) x(1) by (cases res) (simp add: send_transfer_abort_def build_commands Let_def)
  then show ?thesis using s(2,3) x(2,3) by (cases "ret = SUCCESS") (simp_all add: same_task_def)
qed

lemma data_retry_returns:
  assumes "valid (it_link t)"
  shows "\<exists>t' more. data_retry send exchange now t = Some (ERROR_GENERAL, t') \<and> valid (it_link t')
     \<and> log (it_link t') = log (it_link t) @ more \<and> same_task t t'
     \<and> (if it_retry_count t + 1 < it_max_retries t then t' = t\<lparr>it_retry_count := it_retry_count t + 1\<rparr> \<and> more = []
        else it_state t' = FPGA_INJ_STATE_FAILED)"
proof (cases "it_retry_count t + 1 < it_max_retries t")
  case True
  then have "\<not> it_max_retries t \<le> it_retry_count t + 1" by simp
  then show ?thesis using True assms by (simp add: data_retry_def same_task_def Let_def)
next
  case False
  let ?t = "t\<lparr>it_retry_count := it_retry_count t + 1\<rparr>"
  obtain ret t' more where "send_transfer_abort send exchange ?t = Some (ret, t')" "valid (it_link t')"
      "log (it_link t') = log (it_link t) @ more" "same_task ?t t'"
    using transfer_abort_returns [of ?t] assms by auto
  then show ?thesis using False by (auto simp: data_retry_def transition_state_def same_task_def Let_def)
qed

lemma data_send_step:
  assumes at: "data_at d n i j r t" and op: "segment_open d n i j r t" and i: "i < seg_count n" and j: "j < pk_count n i"
    and v: "valid (it_link t)"
  shows "\<exists>ret t' entries. data_send send exchange now (pk_data d n (i, j)) (t\<lparr>it_bin_fp := Some (d, pk_start i j + pk_size n i j)\<rparr>)
      = Some (ret, t') \<and> valid (it_link t') \<and> log (it_link t') = log (it_link t) @ entries \<and> same_task t t'
     \<and> data_outcome d n i j r t' entries"
proof -
  note a = data_atD [OF at]
  let ?t = "t\<lparr>it_bin_fp := Some (d, pk_start i j + pk_size n i j)\<rparr>" and ?f = "packet_frame d n (i, j)"
  have n: "n + 1048576 \<le> 2 ^ 32" "n \<le> length d" using a(1) by (simp_all add: data_file_def)
  have lf: "length ?f = 12 + pk_size n i j" using pk_size_bounds(3) [OF i j] n by (simp add: packet_frame_def pk_data_def)
  have tot: "it_total_packets_in_segment t = of_nat (pk_count n i)" using op by (simp add: segment_open_def)
  obtain res l where x: "exchange (it_link t) ?f 256 RS422_CMD_DATA_ACK = Some (res, l)" "valid l"
      "log l = log (it_link t) @ [(?f, res)]" "fst res = SUCCESS \<longrightarrow> reply_ok RS422_CMD_DATA_ACK res"
    using exchange_returns [OF v, of RS422_CMD_DATA_ACK ?f 256] by auto
  obtain rr where rr: "reply_result rs422_parse_data_ack res = Some rr" using reply_result_returns [OF x(4)] by blast
  have send: "data_send send exchange now (pk_data d n (i, j)) ?t = (if rr \<noteq> Some 0 then data_retry send exchange now (?t\<lparr>it_link := l\<rparr>)
      else Some (SUCCESS, progress_report (?t\<lparr>it_link := l, it_current_packet_in_segment := it_current_packet_in_segment t + 1,
        it_retry_count := 0\<rparr>)))"
    using build_packet [OF i j n] x(1) rr lf by (simp add: data_send_def a(3,4) tot Let_def)
  show ?thesis
  proof (cases "rr = Some 0")
    case True
    let ?u = "?t\<lparr>it_link := l, it_current_packet_in_segment := it_current_packet_in_segment t + 1, it_retry_count := 0\<rparr>"
    have "acknowledged res" using rr True by (simp add: acknowledged_def)
    then have "data_outcome d n i j r (progress_report ?u) [(?f, res)]"
      using data_at_acknowledged [OF at op i j, of l] i j unfolding data_outcome_def by blast
    moreover have "same_task t ?u" by (simp add: same_task_def)
    ultimately show ?thesis using send True x(2,3) by simp
  next
    case False
    have nack: "\<not> acknowledged res" using rr False by (simp add: acknowledged_def)
    obtain t' more where d: "data_retry send exchange now (?t\<lparr>it_link := l\<rparr>) = Some (ERROR_GENERAL, t')" "valid (it_link t')"
      "log (it_link t') = log l @ more" "same_task (?t\<lparr>it_link := l\<rparr>) t'"
      "if it_retry_count t + 1 < it_max_retries t then t' = ?t\<lparr>it_link := l, it_retry_count := it_retry_count t + 1\<rparr> \<and> more = []
       else it_state t' = FPGA_INJ_STATE_FAILED"
      using data_retry_returns [of "?t\<lparr>it_link := l\<rparr>" now] x(2) by auto
    have "Suc r < unat (it_max_retries t)" if "it_retry_count t + 1 < it_max_retries t"
    proof -
      have "Suc r < 2 ^ 32" using a(6) u32_bound [of "it_max_retries t"] by simp
      then have "unat (it_retry_count t + 1) = Suc r" using u32_of_nat [of "Suc r"] a(5) by (simp add: add.commute)
      then show ?thesis using that unfolding u32_less_nat by simp
    qed
    then have "data_at d n i j (Suc r) t' \<and> more = [] \<or> it_state t' = FPGA_INJ_STATE_FAILED"
      using d(5) data_at_sent [OF at op] i j by (auto split: if_splits)
    then have "data_outcome d n i j r t' ([(?f, res)] @ more)"
      unfolding data_outcome_def append_Cons append_Nil using i j nack by blast
    then show ?thesis using send False d x(3) by (auto simp: same_task_def)
  qed
qed

lemma transfer_data_step:
  assumes at: "data_at d n i j r t" and v: "valid (it_link t)"
  shows "\<exists>ret t' entries. handle_transfer_data send exchange ok now t = Some (ret, t') \<and> valid (it_link t')
     \<and> log (it_link t') = log (it_link t) @ entries \<and> same_task t t' \<and> data_outcome d n i j r t' entries"
proof (cases "i = seg_count n")
  case True
  then have "j = 0" using at by (simp add: data_at_def)
  then show ?thesis
    using True data_at_end [OF at] v by (simp add: handle_transfer_data_def data_outcome_def transition_state_def same_task_def)
next
  case False
  then have i: "i < seg_count n" using data_atD(7) [OF at] by simp
  have go: "\<not> it_total_segments t \<le> it_current_segment t" using data_at_end [OF at] False by simp
  obtain t1 where o: "data_open_segment ok t = Some (ok \<or> 0 < j, t1)" "it_link t1 = it_link t" "same_task t t1"
      "ok \<or> 0 < j \<longrightarrow> data_at d n i j r t1 \<and> segment_open d n i j r t1"
    using open_segment [OF at i, of ok] by blast
  show ?thesis
  proof (cases "ok \<or> 0 < j")
    case False
    then show ?thesis
      using go o v by (auto simp: handle_transfer_data_def data_outcome_def transition_state_def same_task_def)
  next
    case opened: True
    then have t1: "data_at d n i j r t1" "segment_open d n i j r t1" using o(4) by blast+
    have b: "j \<le> pk_count n i" "pk_count n i < 2 ^ 32" using data_atD(8) [OF at i] pk_count_bounds(3) [OF i] by simp_all
    have full: "it_total_packets_in_segment t1 \<le> it_current_packet_in_segment t1 \<longleftrightarrow> j = pk_count n i"
      using word_of_nat_le [of "pk_count n i" j] t1(2) data_atD(4) [OF t1(1)] b by (auto simp: segment_open_def)
    show ?thesis
    proof (cases "j = pk_count n i")
      case True
      let ?t = "t1\<lparr>it_current_segment := it_current_segment t1 + 1, it_current_packet_in_segment := 0, it_retry_count := 0\<rparr>"
      have "r = 0" using t1(1) True i by (auto simp: data_at_def)
      then have "data_at d n (Suc i) 0 0 ?t" using t1(1) i by (auto simp: data_at_def data_file_def)
      moreover have "handle_transfer_data send exchange ok now t = Some (SUCCESS, ?t)"
        using go o(1) opened full True by (simp add: handle_transfer_data_def)
      ultimately show ?thesis using o(2,3) v i True by (auto simp: data_outcome_def same_task_def)
    next
      case False
      then have j: "j < pk_count n i" using b by simp
      have rd: "handle_transfer_data send exchange ok now t = (if 0 < r \<and> \<not> ok
          then Some (ERROR_GENERAL, transition_state now FPGA_INJ_STATE_FAILED t1)
          else data_send send exchange now (pk_data d n (i, j)) (t1\<lparr>it_bin_fp := Some (d, pk_start i j + pk_size n i j)\<rparr>))"
        using go o(1) opened full False read_packet [OF t1(1) i t1(2) j, of ok] by (simp add: handle_transfer_data_def)
      show ?thesis
      proof (cases "0 < r \<and> \<not> ok")
        case True
        then show ?thesis using rd o(2,3) v by (auto simp: data_outcome_def transition_state_def same_task_def)
      next
        case False
        have "valid (it_link t1)" using v o(2) by simp
        from data_send_step [OF t1 i j this, of now] show ?thesis
          unfolding rd if_not_P [OF False] o(2) using same_task_trans [OF o(3)] by blast
      qed
    qed
  qed
qed

end

section \<open>The thread\<close>

definition done_packets :: "nat \<Rightarrow> nat \<Rightarrow> nat \<Rightarrow> (nat \<times> nat) list" where
  "done_packets n i j = concat (map (\<lambda>k. map (Pair k) [0..<pk_count n k]) [0..<i]) @ map (Pair i) [0..<j]"

lemma done_packets_simps:
  "done_packets n 0 0 = []" "done_packets n i (Suc j) = done_packets n i j @ [(i, j)]"
  "done_packets n (Suc i) 0 = done_packets n i (pk_count n i)" "done_packets n (seg_count n) 0 = file_packets n"
  by (simp_all add: done_packets_def file_packets_def)

lemma file_packets_member: "i < seg_count n \<Longrightarrow> j < pk_count n i \<Longrightarrow> (i, j) \<in> set (file_packets n)"
  by (simp add: file_packets_def) (rule bexI [of _ i], simp_all)

text \<open>A log of the data phase in which exactly the packets \<open>ps\<close> were acknowledged, in this order, and
  nothing but packets of the file was sent.\<close>

definition sent_ok :: "bytes \<Rightarrow> nat \<Rightarrow> (nat \<times> nat) list \<Rightarrow> (bytes \<times> line_result) list \<Rightarrow> bool" where
  "sent_ok d n ps B \<longleftrightarrow> map fst (filter (\<lambda>e. acknowledged (snd e)) B) = map (packet_frame d n) ps
     \<and> fst ` set B \<subseteq> packet_frame d n ` set (file_packets n)"

text \<open>The transfer was announced with the parameters of the task and the FPGA was ready.\<close>

definition announced :: "'l fpga_injection_task \<Rightarrow> (bytes \<times> line_result) list \<Rightarrow> bool" where
  "announced t A \<longleftrightarrow> (\<exists>seq res. (command_frame seq RS422_CMD_TRANSFER_START (start_payload (transfer_start_params t)), res) \<in> set A
     \<and> acknowledged res)"

definition file_checked :: "'c package_env \<Rightarrow> 'l fpga_injection_task \<Rightarrow> bytes \<Rightarrow> nat \<Rightarrow> bool" where
  "file_checked pe t d n \<longleftrightarrow>
     firmware_parse_metadata (pe_text pe) (pe_stat pe) (it_version_dir t) = (SUCCESS, it_metadata t)
   \<and> firmware_verify_integrity (pe_sha_init pe) (pe_sha_update pe) (pe_sha_final pe) (pe_bytes pe)
       (md_bin_file_path (it_metadata t)) (md_sha256 (it_metadata t)) = SUCCESS
   \<and> pe_bytes pe (md_bin_file_path (it_metadata t)) = Some d \<and> unat (md_file_size (it_metadata t)) = n \<and> n \<le> length d
   \<and> it_total_segments t = (md_file_size (it_metadata t) + FPGA_SEGMENT_SIZE - 1) div FPGA_SEGMENT_SIZE
   \<and> it_file_checksum t = rs422_crc16_ccitt_false (take n d)"

lemma same_task_params: "same_task t t' \<Longrightarrow> transfer_start_params t' = transfer_start_params t"
  by (simp add: same_task_def transfer_start_params_def)

lemma same_task_keeps:
  assumes "same_task t t'"
  shows "file_checked pe t d n \<Longrightarrow> file_checked pe t' d n" "announced t A \<Longrightarrow> announced t' A"
  using assms same_task_params [OF assms] by (simp_all add: announced_def) (simp add: same_task_def file_checked_def)

lemma announced_append: "announced t A \<Longrightarrow> announced t (B @ A)"
  by (auto simp: announced_def)

lemma file_checked_data:
  assumes "file_checked pe t d n" "n + 1048576 \<le> 2 ^ 32"
  shows "data_file d n t"
proof -
  have n: "md_file_size (it_metadata t) = of_nat n" using assms(1) by (auto simp: file_checked_def)
  have e: "(of_nat n :: u32) + FPGA_SEGMENT_SIZE - 1 = of_nat (n + 1048575)" by (simp add: FPGA_SEGMENT_SIZE_def)
  have "unat (it_total_segments t) = (n + 1048575) div 1048576"
    using assms unfolding file_checked_def n e by (simp add: unat_div u32_of_nat FPGA_SEGMENT_SIZE_def del: of_nat_add)
  then have "unat (it_total_segments t) = seg_count n" by (simp add: seg_count_def add.commute)
  then have "it_total_segments t = of_nat (seg_count n)" by (metis of_nat_unat ucast_id)
  then show ?thesis using assms by (simp add: data_file_def file_checked_def)
qed

text \<open>The whole file was transferred and the FPGA confirmed its reception.\<close>

definition transferred :: "bytes \<Rightarrow> nat \<Rightarrow> 'l fpga_injection_task \<Rightarrow> (bytes \<times> line_result) list \<Rightarrow> bool" where
  "transferred d n t lg \<longleftrightarrow> (\<exists>A B C seq res. lg = A @ B @ (command_frame seq RS422_CMD_TRANSFER_END [], res) # C
     \<and> announced t A \<and> sent_ok d n (file_packets n) B \<and> acknowledged res)"

lemma transferred_append: "transferred d n t lg \<Longrightarrow> transferred d n t (lg @ D)"
  unfolding transferred_def by (metis append_Cons append_assoc)

lemma same_task_transferred: "same_task t t' \<Longrightarrow> transferred d n t lg \<Longrightarrow> transferred d n t' lg"
  unfolding transferred_def using same_task_keeps(2) by blast

text \<open>What the state of the task says about the log of the line.\<close>

definition inj_ok :: "'c package_env \<Rightarrow> (bytes \<times> line_result) list \<Rightarrow> 'l fpga_injection_task \<Rightarrow> bool" where
  "inj_ok pe lg t \<longleftrightarrow> 0 < unat (it_max_retries t) \<and>
     (case it_state t of
        FPGA_INJ_STATE_TRANSFER_START \<Rightarrow> \<exists>d n. file_checked pe t d n
      | FPGA_INJ_STATE_TRANSFER_DATA \<Rightarrow> \<exists>d n i j r A B. file_checked pe t d n \<and> data_at d n i j r t \<and> lg = A @ B \<and> announced t A
          \<and> sent_ok d n (done_packets n i j) B
      | FPGA_INJ_STATE_TRANSFER_END \<Rightarrow> \<exists>d n A B. file_checked pe t d n \<and> lg = A @ B \<and> announced t A \<and> sent_ok d n (file_packets n) B
      | FPGA_INJ_STATE_RECONFIG_START \<Rightarrow> \<exists>d n. file_checked pe t d n \<and> transferred d n t lg
      | FPGA_INJ_STATE_RECONFIG_POLLING \<Rightarrow> \<exists>d n. file_checked pe t d n \<and> transferred d n t lg
      | FPGA_INJ_STATE_COMPLETED \<Rightarrow> \<exists>d n. file_checked pe t d n \<and> transferred d n t lg
          \<and> (\<exists>seq res. (command_frame seq RS422_CMD_RECONFIG_QUERY [], res) \<in> set lg \<and> acknowledged res)
      | _ \<Rightarrow> True)"

lemma inj_ok_data:
  assumes "file_checked pe t d n" "data_at d n i j r t" "announced t A" "sent_ok d n (done_packets n i j) B"
  shows "inj_ok pe (A @ B) t"
proof -
  have "\<exists>d n i j r A' B'. file_checked pe t d n \<and> data_at d n i j r t \<and> A @ B = A' @ B' \<and> announced t A'
      \<and> sent_ok d n (done_packets n i j) B'" using assms by blast
  then show ?thesis using data_atD(2,6) [OF assms(2)] unfolding inj_ok_def by simp
qed

lemma same_task_update [simp]:
  "same_task t (t'\<lparr>it_state := a\<rparr>) = same_task t t'" "same_task t (t'\<lparr>it_last_activity := b\<rparr>) = same_task t t'"
  "same_task t (t'\<lparr>it_seq := c\<rparr>) = same_task t t'" "same_task t (t'\<lparr>it_link := l\<rparr>) = same_task t t'"
  "same_task t (t'\<lparr>it_bin_fp := f\<rparr>) = same_task t t'" "same_task t (t'\<lparr>it_abort_requested := g\<rparr>) = same_task t t'"
  "same_task t (t'\<lparr>it_in_progress := g\<rparr>) = same_task t t'" "same_task t (t'\<lparr>it_retry_count := c1\<rparr>) = same_task t t'"
  "same_task t (t'\<lparr>it_current_segment := c2\<rparr>) = same_task t t'" "same_task t (t'\<lparr>it_segment_offset := c3\<rparr>) = same_task t t'"
  "same_task t (t'\<lparr>it_current_packet_in_segment := c4\<rparr>) = same_task t t'"
  by (simp_all add: same_task_def)

lemma data_outcome_log:
  assumes o: "data_outcome d n i j r t' entries" and l: "sent_ok d n (done_packets n i j) B" and f: "file_checked pe t' d n"
    and a: "announced t' A" and m: "0 < unat (it_max_retries t')"
  shows "inj_ok pe (A @ B @ entries) t'"
proof -
  have sent: "sent_ok d n (done_packets n i j @ (if acknowledged res then [(i, j)] else [])) (B @ [(packet_frame d n (i, j), res)])"
    if "i < seg_count n" "j < pk_count n i" for res
    using l file_packets_member [OF that] by (auto simp: sent_ok_def)
  consider "i = seg_count n" "j = 0" "it_state t' = FPGA_INJ_STATE_TRANSFER_END" "entries = []"
    | "i < seg_count n" "j = pk_count n i" "data_at d n (Suc i) 0 0 t'" "entries = []"
    | res where "i < seg_count n" "j < pk_count n i" "data_at d n i (Suc j) 0 t'" "acknowledged res" "entries = [(packet_frame d n (i, j), res)]"
    | res where "i < seg_count n" "j < pk_count n i" "data_at d n i j (Suc r) t'" "\<not> acknowledged res" "entries = [(packet_frame d n (i, j), res)]"
    | "it_state t' = FPGA_INJ_STATE_FAILED"
    using o unfolding data_outcome_def by blast
  then show ?thesis
  proof cases
    case 1
    then have "sent_ok d n (file_packets n) (B @ entries)" using l done_packets_simps(4) [of n] by simp
    then show ?thesis using 1 f a m by (auto simp: inj_ok_def)
  next
    case 2
    then have "sent_ok d n (done_packets n (Suc i) 0) (B @ entries)" using l done_packets_simps(3) [of n i] by simp
    then show ?thesis by (rule inj_ok_data [OF f 2(3) a])
  next
    case 3
    then have "sent_ok d n (done_packets n i (Suc j)) (B @ entries)" using sent [of res] by (simp add: done_packets_simps(2))
    then show ?thesis by (rule inj_ok_data [OF f 3(3) a])
  next
    case 4
    then have "sent_ok d n (done_packets n i j) (B @ entries)" using sent [of res] by simp
    then show ?thesis by (rule inj_ok_data [OF f 4(3) a])
  next
    case 5
    then show ?thesis using m by (simp add: inj_ok_def)
  qed
qed

text \<open>A turn of the polling loop never changes what the task knows about the file; a result other than
  \<open>preparing\<close> was read from a reply to the announcement.\<close>

definition start_outcome_ok :: "bytes \<Rightarrow> (bytes \<times> line_result) list \<Rightarrow> fpga_injection_state \<Rightarrow> start_outcome \<Rightarrow> 'l fpga_injection_task \<Rightarrow> bool" where
  "start_outcome_ok f entries st out t' \<longleftrightarrow> (case out of
     Start_polling \<Rightarrow> it_state t' = st
   | Start_return ret \<Rightarrow> it_state t' = FPGA_INJ_STATE_FAILED
   | Start_result r \<Rightarrow> it_state t' = st \<and> (\<exists>res. (f, res) \<in> set entries \<and> reply_result rs422_parse_data_ack res = Some (Some r)))"

lemma note_abort_frame [simp]:
  "it_link (note_abort b t) = it_link t" "same_task t' (note_abort b t) = same_task t' t" "it_state (note_abort b t) = it_state t"
  "same_task (note_abort b t) t' = same_task t t'" "it_seq (note_abort b t) = it_seq t" "it_metadata (note_abort b t) = it_metadata t"
  by (simp_all add: note_abort_def same_task_def)

lemma transition_frame [simp]:
  "it_link (transition_state now st t) = it_link t" "same_task t' (transition_state now st t) = same_task t' t"
  "it_state (transition_state now st t) = st" "it_metadata (transition_state now st t) = it_metadata t"
  "it_version_dir (transition_state now st t) = it_version_dir t"
  by (simp_all add: transition_state_def same_task_def)

lemma same_task_left [simp]: "same_task (t\<lparr>it_link := l\<rparr>) t' = same_task t t'" "same_task (t\<lparr>it_seq := s\<rparr>) t' = same_task t t'"
    "same_task (t\<lparr>it_bin_fp := f\<rparr>) t' = same_task t t'"
  by (simp_all add: same_task_def)

context rs422_link
begin

lemma start_loop_returns:
  assumes "valid (it_link t)"
  shows "\<exists>out t' entries. start_loop exchange f st polls t = Some (out, t') \<and> valid (it_link t')
     \<and> log (it_link t') = log (it_link t) @ entries \<and> same_task t t' \<and> start_outcome_ok f entries (it_state t) out t'"
  using assms
proof (induction polls arbitrary: t)
  case Nil
  then show ?case by (simp add: start_outcome_ok_def)
next
  case (Cons p polls)
  obtain ab now where p: "p = (ab, now)" by (cases p)
  let ?t = "note_abort ab t"
  obtain res l where x: "exchange (it_link t) f 256 RS422_CMD_TRANSFER_START_ACK = Some (res, l)" "valid l"
      "log l = log (it_link t) @ [(f, res)]" "fst res = SUCCESS \<longrightarrow> reply_ok RS422_CMD_TRANSFER_START_ACK res"
    using exchange_returns [OF Cons.prems, of RS422_CMD_TRANSFER_START_ACK f 256] by auto
  obtain rr where rr: "reply_result rs422_parse_data_ack res = Some rr" using reply_result_returns [OF x(4)] by blast
  obtain out t' entries where ih: "start_loop exchange f st polls (?t\<lparr>it_link := l\<rparr>) = Some (out, t')" "valid (it_link t')"
      "log (it_link t') = log l @ entries" "same_task t t'" "start_outcome_ok f entries (it_state t) out t'"
    using Cons.IH [of "?t\<lparr>it_link := l\<rparr>"] x(2) by auto
  have again: "start_outcome_ok f ((f, res) # entries) (it_state t) out t'"
    using ih(5) by (auto simp: start_outcome_ok_def split: start_outcome.splits)
  have step: "start_loop exchange f st (p # polls) t = (if it_abort_requested ?t
        then Some (Start_return ERROR_GENERAL, transition_state now FPGA_INJ_STATE_FAILED ?t)
      else if now - st > 300 then Some (Start_return ERROR_TIMEOUT, transition_state now FPGA_INJ_STATE_FAILED ?t)
      else case rr of None \<Rightarrow> Some (out, t')
        | Some r \<Rightarrow> if r = 0x11 then Some (out, t') else Some (Start_result r, ?t\<lparr>it_link := l\<rparr>))"
    using x(1) rr ih(1) by (simp add: p Let_def split: option.splits)
  consider "it_abort_requested ?t \<or> now - st > 300" | "\<not> it_abort_requested ?t" "\<not> now - st > 300" "rr = None \<or> rr = Some 0x11"
    | r where "\<not> it_abort_requested ?t" "\<not> now - st > 300" "rr = Some r" "r \<noteq> 0x11" by (cases rr) auto
  then show ?case
  proof cases
    case 1
    then show ?thesis unfolding step using Cons.prems by (auto simp: start_outcome_ok_def)
  next
    case 2
    then have "start_loop exchange f st (p # polls) t = Some (out, t')" unfolding step by auto
    then show ?thesis using again ih(2-4) x(3) by auto
  next
    case 3
    then have "start_loop exchange f st (p # polls) t = Some (Start_result r, ?t\<lparr>it_link := l\<rparr>)" unfolding step by simp
    moreover have "start_outcome_ok f [(f, res)] (it_state t) (Start_result r) (?t\<lparr>it_link := l\<rparr>)"
      using rr 3 by (simp add: start_outcome_ok_def)
    ultimately show ?thesis using x(2,3) by auto
  qed
qed

lemma transfer_start_turn:
  assumes st: "it_state t = FPGA_INJ_STATE_TRANSFER_START" and v: "valid (it_link t)" and ok: "inj_ok pe (log (it_link t)) t"
    and small: "unat (md_file_size (it_metadata t)) + 1048576 \<le> 2 ^ 32"
  shows "\<exists>ret t'. handle_transfer_start exchange pe polls ab now t = Some (ret, t') \<and> valid (it_link t') \<and> inj_ok pe (log (it_link t')) t'
     \<and> it_metadata t' = it_metadata t \<and> it_version_dir t' = it_version_dir t"
proof -
  obtain d n where f: "file_checked pe t d n" and m: "0 < unat (it_max_retries t)" using ok st by (auto simp: inj_ok_def)
  let ?f = "command_frame (it_seq t) RS422_CMD_TRANSFER_START (start_payload (transfer_start_params t))"
  have lf: "length ?f = 27" by (simp add: start_payload_def)
  obtain out t' entries where l: "start_loop exchange ?f now polls (t\<lparr>it_seq := it_seq t + 1\<rparr>) = Some (out, t')" "valid (it_link t')"
      "log (it_link t') = log (it_link t) @ entries" "same_task t t'" "start_outcome_ok ?f entries (it_state t) out t'"
    using start_loop_returns [of "t\<lparr>it_seq := it_seq t + 1\<rparr>" ?f now polls] v by auto
  have f': "file_checked pe t' d n" by (rule same_task_keeps(1) [OF l(4) f])
  have m': "0 < unat (it_max_retries t')" using m l(4) by (simp add: same_task_def)
  have meta: "it_metadata t' = it_metadata t" "it_version_dir t' = it_version_dir t" using l(4) by (simp_all add: same_task_def)
  have bytes: "pe_bytes pe (md_bin_file_path (it_metadata t')) = Some d" using f' by (simp add: file_checked_def)
  let ?u = "note_abort ab (t'\<lparr>it_bin_fp := Some (d, 0)\<rparr>)"
  let ?w = "transition_state now FPGA_INJ_STATE_TRANSFER_DATA (?u\<lparr>it_current_segment := 0, it_current_packet_in_segment := 0,
    it_segment_offset := 0, it_retry_count := 0\<rparr>)"
  have h: "handle_transfer_start exchange pe polls ab now t = (case out of Start_polling \<Rightarrow> Some (None, t')
      | Start_return ret \<Rightarrow> Some (Some ret, t')
      | Start_result r \<Rightarrow> if r \<noteq> 0 \<or> it_abort_requested ?u then Some (Some ERROR_GENERAL, transition_state now FPGA_INJ_STATE_FAILED (if r \<noteq> 0 then t' else ?u))
          else Some (Some SUCCESS, ?w))"
    using l(1) lf bytes by (simp add: handle_transfer_start_def build_commands Let_def split: start_outcome.split)
  have failed: "inj_ok pe lg (transition_state now FPGA_INJ_STATE_FAILED x)" if "same_task t x" for lg x
    using m that by (simp add: inj_ok_def same_task_def transition_state_def)
  show ?thesis
  proof (cases out)
    case Start_polling
    then have "it_state t' = FPGA_INJ_STATE_TRANSFER_START" using l(5) st by (simp add: start_outcome_ok_def)
    then have "inj_ok pe (log (it_link t')) t'" using f' m' by (auto simp: inj_ok_def)
    then show ?thesis using h Start_polling l(2) meta by simp
  next
    case (Start_return ret)
    then have "inj_ok pe (log (it_link t')) t'" using l(5) m' by (simp add: start_outcome_ok_def inj_ok_def)
    then show ?thesis using h Start_return l(2) meta by simp
  next
    case (Start_result r)
    show ?thesis
    proof (cases "r \<noteq> 0 \<or> it_abort_requested ?u")
      case True
      let ?x = "if r \<noteq> 0 then t' else ?u"
      have x: "same_task t ?x" "it_link ?x = it_link t'" using l(4) by simp_all
      then have "it_metadata ?x = it_metadata t" "it_version_dir ?x = it_version_dir t" unfolding same_task_def by blast+
      moreover have "handle_transfer_start exchange pe polls ab now t = Some (Some ERROR_GENERAL, transition_state now FPGA_INJ_STATE_FAILED ?x)"
        using h Start_result True by simp
      ultimately show ?thesis using failed [OF x(1)] l(2) x(2) by simp
    next
      case False
      have sw: "same_task t' ?w" by simp
      have "announced t' entries"
        using l(5) Start_result False unfolding start_outcome_ok_def announced_def acknowledged_def same_task_params [OF l(4)]
        by auto
      then have an: "announced ?w (log (it_link t) @ entries)" by (rule announced_append [OF same_task_keeps(2) [OF sw]])
      have fw: "file_checked pe ?w d n" by (rule same_task_keeps(1) [OF sw f'])
      have n: "unat (md_file_size (it_metadata t)) = n" using f by (simp add: file_checked_def)
      have "data_file d n ?w" using file_checked_data [OF fw] small n by simp
      then have at: "data_at d n 0 0 0 ?w"
        using m' by (simp add: data_at_def transition_state_def note_abort_def)
      have "sent_ok d n (done_packets n 0 0) []" by (simp add: sent_ok_def done_packets_simps(1))
      from inj_ok_data [OF fw at an this] have "inj_ok pe (log (it_link ?w)) ?w" using l(3) by simp
      then show ?thesis using h Start_result False l(2) meta by (simp add: transition_state_def note_abort_def)
    qed
  qed
qed

end

lemma inj_ok_failed: "0 < unat (it_max_retries t) \<Longrightarrow> it_state t = FPGA_INJ_STATE_FAILED \<Longrightarrow> inj_ok pe lg t"
  by (simp add: inj_ok_def)

lemma metadata_turn:
  assumes "0 < unat (it_max_retries t)"
  shows "inj_ok pe lg (snd (handle_parsing_metadata pe malloc_ok now t))"
    "it_link (snd (handle_parsing_metadata pe malloc_ok now t)) = it_link t"
    "it_version_dir (snd (handle_parsing_metadata pe malloc_ok now t)) = it_version_dir t"
proof -
  let ?t' = "snd (handle_parsing_metadata pe malloc_ok now t)"
  have "it_state ?t' = FPGA_INJ_STATE_FAILED \<or> it_state ?t' = FPGA_INJ_STATE_TRANSFER_START \<and> (\<exists>d. file_checked pe ?t' d (unat (md_file_size (it_metadata ?t'))))"
    "it_max_retries ?t' = it_max_retries t"
    by (auto simp: handle_parsing_metadata_def transition_state_def file_checked_def Let_def min_def split: prod.splits option.splits if_splits)
  then show "inj_ok pe lg ?t'" using assms by (elim disjE conjE exE) (simp_all add: inj_ok_def, intro exI)
  show "it_link ?t' = it_link t" "it_version_dir ?t' = it_version_dir t"
    by (auto simp: handle_parsing_metadata_def transition_state_def Let_def split: prod.splits option.splits if_splits)
qed

definition package_small :: "'c package_env \<Rightarrow> string \<Rightarrow> bool" where
  "package_small pe dir \<longleftrightarrow>
     (case firmware_parse_metadata (pe_text pe) (pe_stat pe) dir of (ret, m) \<Rightarrow> ret = SUCCESS \<longrightarrow> unat (md_file_size m) + 1048576 \<le> 2 ^ 32)"

lemma package_small_checked: "package_small pe (it_version_dir t) \<Longrightarrow> file_checked pe t d n \<Longrightarrow> n + 1048576 \<le> 2 ^ 32"
  by (simp add: package_small_def file_checked_def)

lemma inj_ok_update [simp]: "inj_ok pe lg (note_abort b t) = inj_ok pe lg t"
proof -
  have s: "same_task t (note_abort b t)" "same_task (note_abort b t) t" by simp_all
  have "data_at d n i j r (note_abort b t) = data_at d n i j r t" for d n i j r
    by (simp add: note_abort_def data_at_def data_file_def segment_open_def)
  moreover have "it_max_retries (note_abort b t) = it_max_retries t" by (simp add: note_abort_def)
  moreover have "file_checked pe (note_abort b t) d n = file_checked pe t d n" "announced (note_abort b t) A = announced t A"
    "transferred d n (note_abort b t) lg = transferred d n t lg" for d n A
    using same_task_keeps [OF s(1)] same_task_keeps [OF s(2)] same_task_transferred [OF s(1)] same_task_transferred [OF s(2)] by blast+
  ultimately show ?thesis by (simp add: inj_ok_def cong: fpga_injection_state.case_cong)
qed

text \<open>The states after the transfer.\<close>

lemma inj_ok_after:
  assumes "file_checked pe t d n" "transferred d n t lg" "0 < unat (it_max_retries t)"
    "it_state t \<in> {FPGA_INJ_STATE_RECONFIG_START, FPGA_INJ_STATE_RECONFIG_POLLING}
     \<or> it_state t = FPGA_INJ_STATE_COMPLETED \<and> (command_frame sq RS422_CMD_RECONFIG_QUERY [], res) \<in> set lg \<and> acknowledged res"
  shows "inj_ok pe lg t"
proof -
  have "\<exists>d n. file_checked pe t d n \<and> transferred d n t lg" using assms(1,2) by (intro exI conjI)
  moreover have "\<exists>d n. file_checked pe t d n \<and> transferred d n t lg
      \<and> (\<exists>sq res. (command_frame sq RS422_CMD_RECONFIG_QUERY [], res) \<in> set lg \<and> acknowledged res)"
    if "(command_frame sq RS422_CMD_RECONFIG_QUERY [], res) \<in> set lg" "acknowledged res" using assms(1,2) that by (intro exI conjI)
  ultimately show ?thesis using assms(3,4) unfolding inj_ok_def by (elim disjE insertE conjE) simp_all
qed

context rs422_link
begin

lemma transfer_end_turn:
  assumes st: "it_state t = FPGA_INJ_STATE_TRANSFER_END" and v: "valid (it_link t)" and ok: "inj_ok pe (log (it_link t)) t"
  shows "\<exists>ret t'. handle_transfer_end send exchange now t = Some (ret, t') \<and> valid (it_link t') \<and> inj_ok pe (log (it_link t')) t'
     \<and> same_task t t'"
proof -
  obtain d n A B where f: "file_checked pe t d n" "log (it_link t) = A @ B" "announced t A" "sent_ok d n (file_packets n) B"
      "0 < unat (it_max_retries t)" using ok st by (auto simp: inj_ok_def)
  let ?f = "command_frame (it_seq t) RS422_CMD_TRANSFER_END []"
  obtain res l where x: "exchange (it_link t) ?f 256 RS422_CMD_TRANSFER_END_ACK = Some (res, l)" "valid l"
      "log l = log (it_link t) @ [(?f, res)]" "fst res = SUCCESS \<longrightarrow> reply_ok RS422_CMD_TRANSFER_END_ACK res"
    using exchange_returns [OF v, of RS422_CMD_TRANSFER_END_ACK ?f 256] by auto
  obtain rr where rr: "reply_result rs422_parse_data_ack res = Some rr" using reply_result_returns [OF x(4)] by blast
  let ?t = "t\<lparr>it_bin_fp := None, it_seq := it_seq t + 1, it_link := l\<rparr>"
  obtain ret t' more where ab: "send_transfer_abort send exchange ?t = Some (ret, t')" "valid (it_link t')" "same_task t t'"
    using transfer_abort_returns [of ?t] x(2) by auto
  have h: "handle_transfer_end send exchange now t = (case rr of
        None \<Rightarrow> Some (ERROR_GENERAL, transition_state now FPGA_INJ_STATE_FAILED ?t)
      | Some r \<Rightarrow> if r \<noteq> 0 then Some (ERROR_GENERAL, transition_state now FPGA_INJ_STATE_FAILED t')
          else Some (SUCCESS, transition_state now FPGA_INJ_STATE_RECONFIG_START ?t))"
    using x(1) rr ab(1) by (simp add: handle_transfer_end_def build_commands Let_def split: option.split)
  have failed: "inj_ok pe lg (transition_state now FPGA_INJ_STATE_FAILED y)" if "same_task t y" for lg y
    using f(5) that by (intro inj_ok_failed) (simp_all add: same_task_def transition_state_def)
  show ?thesis
  proof (cases "rr = Some 0")
    case True
    let ?w = "transition_state now FPGA_INJ_STATE_RECONFIG_START ?t"
    have sw: "same_task t ?w" by simp
    have "acknowledged res" using rr True by (simp add: acknowledged_def)
    moreover have "log l = A @ B @ (?f, res) # []" using f(2) x(3) by simp
    ultimately have "transferred d n t (log l)" unfolding transferred_def using f(3,4) by blast
    then have "inj_ok pe (log l) ?w"
      using same_task_keeps(1) [OF sw f(1)] same_task_transferred [OF sw] f(5) by (intro inj_ok_after) (simp_all add: transition_state_def)
    then show ?thesis using h True x(2) by simp
  next
    case False
    then obtain y where "handle_transfer_end send exchange now t = Some (ERROR_GENERAL, transition_state now FPGA_INJ_STATE_FAILED y)"
        "same_task t y" "valid (it_link y)"
      using h ab(2,3) x(2) by (cases rr) auto
    then show ?thesis using failed by simp
  qed
qed

lemma reconfig_start_turn:
  assumes st: "it_state t = FPGA_INJ_STATE_RECONFIG_START" and v: "valid (it_link t)" and ok: "inj_ok pe (log (it_link t)) t"
  shows "\<exists>ret t'. handle_reconfig_start send now t = Some (ret, t') \<and> valid (it_link t') \<and> inj_ok pe (log (it_link t')) t'
     \<and> same_task t t'"
proof -
  obtain d n where f: "file_checked pe t d n" "transferred d n t (log (it_link t))" "0 < unat (it_max_retries t)"
    using ok st by (auto simp: inj_ok_def)
  let ?f = "command_frame (it_seq t) RS422_CMD_RECONFIG_START [md_file_type (it_metadata t), md_file_sub_type (it_metadata t)]"
  obtain ret l where s: "send (it_link t) ?f = Some (ret, l)" "valid l" "log l = log (it_link t) @ [(?f, ret, [], 0)]"
    using send_returns [OF v] by blast
  let ?t = "t\<lparr>it_seq := it_seq t + 1, it_link := l\<rparr>"
  have h: "handle_reconfig_start send now t = (if ret \<noteq> SUCCESS then Some (ERROR_GENERAL, transition_state now FPGA_INJ_STATE_FAILED ?t)
      else Some (SUCCESS, transition_state now FPGA_INJ_STATE_RECONFIG_POLLING (?t\<lparr>it_last_activity := now\<rparr>)))"
    using s(1) by (simp add: handle_reconfig_start_def build_commands Let_def)
  let ?w = "transition_state now FPGA_INJ_STATE_RECONFIG_POLLING (?t\<lparr>it_last_activity := now\<rparr>)"
  have sw: "same_task t ?w" by simp
  have "inj_ok pe (log l) ?w"
    using same_task_keeps(1) [OF sw f(1)] same_task_transferred [OF sw transferred_append [OF f(2)]] f(3) s(3)
    by (intro inj_ok_after) (simp_all add: transition_state_def)
  moreover have "inj_ok pe (log l) (transition_state now FPGA_INJ_STATE_FAILED ?t)"
    using f(3) by (intro inj_ok_failed) (simp_all add: transition_state_def)
  ultimately show ?thesis using h s(2) by (cases "ret = SUCCESS") simp_all
qed

lemma reconfig_polling_turn:
  assumes st: "it_state t = FPGA_INJ_STATE_RECONFIG_POLLING" and v: "valid (it_link t)" and ok: "inj_ok pe (log (it_link t)) t"
  shows "\<exists>ret t'. handle_reconfig_polling exchange now t = Some (ret, t') \<and> valid (it_link t') \<and> inj_ok pe (log (it_link t')) t'
     \<and> same_task t t'"
proof -
  obtain d n where f: "file_checked pe t d n" "transferred d n t (log (it_link t))" "0 < unat (it_max_retries t)"
    using ok st by (auto simp: inj_ok_def)
  let ?f = "command_frame (it_seq t) RS422_CMD_RECONFIG_QUERY []"
  obtain res l where x: "exchange (it_link t) ?f 256 RS422_CMD_RECONFIG_ACK = Some (res, l)" "valid l"
      "log l = log (it_link t) @ [(?f, res)]" "fst res = SUCCESS \<longrightarrow> reply_ok RS422_CMD_RECONFIG_ACK res"
    using exchange_returns [OF v, of RS422_CMD_RECONFIG_ACK ?f 256] by auto
  obtain rr where rr: "reply_result rs422_parse_data_ack res = Some rr" using reply_result_returns [OF x(4)] by blast
  let ?t = "t\<lparr>it_seq := it_seq t + 1, it_link := l\<rparr>"
  have h: "handle_reconfig_polling exchange now t = (if now - it_last_activity t > 600
        then Some (ERROR_TIMEOUT, transition_state now FPGA_INJ_STATE_FAILED t)
      else case rr of None \<Rightarrow> Some (ERROR_GENERAL, ?t)
        | Some r \<Rightarrow> if r = 0 then Some (SUCCESS, transition_state now FPGA_INJ_STATE_COMPLETED ?t)
            else if r = 0x11 then Some (SUCCESS, ?t) else Some (ERROR_GENERAL, transition_state now FPGA_INJ_STATE_FAILED ?t))"
    using x(1) rr by (simp add: handle_reconfig_polling_def build_commands Let_def split: option.split)
  have sw: "same_task t ?t" "same_task t (transition_state now s ?t)" for s by simp_all
  have failed: "inj_ok pe lg (transition_state now FPGA_INJ_STATE_FAILED y)" if "same_task t y" for lg y
    using f(3) that by (intro inj_ok_failed) (simp_all add: same_task_def transition_state_def)
  have again: "inj_ok pe (log l) ?t"
    using same_task_keeps(1) [OF sw(1) f(1)] same_task_transferred [OF sw(1) transferred_append [OF f(2)]] f(3) x(3) st
    by (intro inj_ok_after) simp_all
  have fin: "inj_ok pe (log l) (transition_state now FPGA_INJ_STATE_COMPLETED ?t)" if "rr = Some 0"
  proof (rule inj_ok_after [OF same_task_keeps(1) [OF sw(2) f(1)]])
    show "transferred d n (transition_state now FPGA_INJ_STATE_COMPLETED ?t) (log l)"
      unfolding x(3) by (rule same_task_transferred [OF sw(2) transferred_append [OF f(2)]])
    show "it_state (transition_state now FPGA_INJ_STATE_COMPLETED ?t) \<in> {FPGA_INJ_STATE_RECONFIG_START, FPGA_INJ_STATE_RECONFIG_POLLING}
      \<or> it_state (transition_state now FPGA_INJ_STATE_COMPLETED ?t) = FPGA_INJ_STATE_COMPLETED \<and> (?f, res) \<in> set (log l) \<and> acknowledged res"
      using that rr by (simp add: x(3) acknowledged_def)
  qed (use f(3) in \<open>simp add: transition_state_def\<close>)
  show ?thesis
    using h fin again failed x(2) v by (cases "now - it_last_activity t > 600"; cases rr) auto
qed

end

definition completed_ok :: "'c package_env \<Rightarrow> (bytes \<times> line_result) list \<Rightarrow> 'l fpga_injection_task \<Rightarrow> bool" where
  "completed_ok pe lg t \<longleftrightarrow> (\<exists>d n. file_checked pe t d n \<and> transferred d n t lg
     \<and> (\<exists>seq res. (command_frame seq RS422_CMD_RECONFIG_QUERY [], res) \<in> set lg \<and> acknowledged res))"

lemma inj_ok_completed: "inj_ok pe lg t \<Longrightarrow> it_state t = FPGA_INJ_STATE_COMPLETED \<Longrightarrow> completed_ok pe lg t"
  by (simp add: inj_ok_def completed_ok_def)

lemma completed_ok_keeps:
  assumes "completed_ok pe lg t" "same_task t t'"
  shows "completed_ok pe (lg @ D) t'"
  using assms(1) same_task_keeps(1) [OF assms(2)] same_task_transferred [OF assms(2)] transferred_append
  unfolding completed_ok_def set_append by (meson UnI1)

context rs422_link
begin

lemma upload_notify_returns:
  assumes "valid (it_link t)"
  shows "\<exists>ret l. send_upload_notify send code t = Some (ret, t\<lparr>it_link := l, it_seq := rs422_seq_counter_rollback (it_seq t + 1)\<rparr>)
     \<and> valid l \<and> log l = log (it_link t) @ [(command_frame (it_seq t) RS422_CMD_UPLOAD_NOTIFY [code, 0xAA], ret, [], 0)]"
proof -
  let ?f = "command_frame (it_seq t) RS422_CMD_UPLOAD_NOTIFY [code, 0xAA]"
  obtain ret l where "send (it_link t) ?f = Some (ret, l)" "valid l" "log l = log (it_link t) @ [(?f, ret, [], 0)]"
    using send_returns [OF assms] by blast
  then show ?thesis by (auto simp: send_upload_notify_def build_commands Let_def)
qed

lemma exit_thread_returns:
  assumes "valid (it_link t)"
  shows "\<exists>t' D. exit_thread send t = Some t' \<and> valid (it_link t') \<and> it_state t' = it_state t \<and> same_task t t'
     \<and> log (it_link t') = log (it_link t) @ D \<and> it_bin_fp t' = None \<and> \<not> it_in_progress t'"
  using upload_notify_returns [OF assms, of 2] by (auto simp: exit_thread_def)

lemma injection_turn_returns:
  assumes v: "valid (it_link t)" and ok: "inj_ok pe (log (it_link t)) t" and small: "package_small pe (it_version_dir t)"
  shows "\<exists>ret t'. injection_turn send exchange pe e t = Some (ret, t') \<and> valid (it_link t') \<and> inj_ok pe (log (it_link t')) t'
     \<and> it_version_dir t' = it_version_dir t"
proof (cases "it_state t")
  case FPGA_INJ_STATE_PARSING_METADATA
  have "0 < unat (it_max_retries t)" using ok by (simp add: inj_ok_def)
  note m = metadata_turn [OF this, where pe = pe and malloc_ok = "ti_malloc_ok e" and now = "ti_now e"]
  show ?thesis
    using m FPGA_INJ_STATE_PARSING_METADATA v by (cases "handle_parsing_metadata pe (ti_malloc_ok e) (ti_now e) t") (simp add: injection_turn_def)
next
  case FPGA_INJ_STATE_TRANSFER_START
  obtain d n where "file_checked pe t d n" using ok FPGA_INJ_STATE_TRANSFER_START by (auto simp: inj_ok_def)
  then have "unat (md_file_size (it_metadata t)) + 1048576 \<le> 2 ^ 32" using package_small_checked [OF small] by (simp add: file_checked_def)
  from transfer_start_turn [OF FPGA_INJ_STATE_TRANSFER_START v ok this, of "ti_polls e" "ti_abort_after e" "ti_now e"]
  show ?thesis using FPGA_INJ_STATE_TRANSFER_START by (auto simp: injection_turn_def)
next
  case FPGA_INJ_STATE_TRANSFER_DATA
  then obtain d n i j r A B where f: "file_checked pe t d n" "data_at d n i j r t" "log (it_link t) = A @ B" "announced t A"
      "sent_ok d n (done_packets n i j) B" "0 < unat (it_max_retries t)"
    using ok by (auto simp: inj_ok_def)
  obtain ret t' entries where s: "handle_transfer_data send exchange (ti_fseek_ok e) (ti_now e) t = Some (ret, t')" "valid (it_link t')"
      "log (it_link t') = log (it_link t) @ entries" "same_task t t'" "data_outcome d n i j r t' entries"
    using transfer_data_step [OF f(2) v] by blast
  have "0 < unat (it_max_retries t')" "it_version_dir t' = it_version_dir t" using f(6) s(4) by (simp_all add: same_task_def)
  moreover have "inj_ok pe (A @ B @ entries) t'"
    by (rule data_outcome_log [OF s(5) f(5) same_task_keeps(1) [OF s(4) f(1)] same_task_keeps(2) [OF s(4) f(4)]]) (rule calculation(1))
  ultimately show ?thesis using FPGA_INJ_STATE_TRANSFER_DATA s(1-3) f(3) by (simp add: injection_turn_def)
next
  case FPGA_INJ_STATE_TRANSFER_END
  from transfer_end_turn [OF this v ok, of "ti_now e"] show ?thesis
    using FPGA_INJ_STATE_TRANSFER_END by (auto simp: injection_turn_def same_task_def)
next
  case FPGA_INJ_STATE_RECONFIG_START
  from reconfig_start_turn [OF this v ok, of "ti_now e"] show ?thesis
    using FPGA_INJ_STATE_RECONFIG_START by (auto simp: injection_turn_def same_task_def)
next
  case FPGA_INJ_STATE_RECONFIG_POLLING
  from reconfig_polling_turn [OF this v ok, of "ti_now e"] show ?thesis
    using FPGA_INJ_STATE_RECONFIG_POLLING by (auto simp: injection_turn_def same_task_def)
qed (use v ok in \<open>simp_all add: injection_turn_def\<close>)

lemma thread_loop_returns:
  assumes "valid (it_link t)" and "inj_ok pe (log (it_link t)) t" and "package_small pe (it_version_dir t)"
  shows "\<exists>fin t'. thread_loop send exchange pe es t = Some (fin, t') \<and> valid (it_link t')
     \<and> (fin \<longrightarrow> it_bin_fp t' = None \<and> \<not> it_in_progress t')
     \<and> (it_state t' = FPGA_INJ_STATE_COMPLETED \<longrightarrow> completed_ok pe (log (it_link t')) t')"
  using assms
proof (induction es arbitrary: t)
  case Nil
  then show ?case using inj_ok_completed by auto
next
  case (Cons e es)
  let ?t = "note_abort (ti_abort e) t"
  have t: "valid (it_link ?t)" "inj_ok pe (log (it_link ?t)) ?t" using Cons.prems by simp_all
  have d: "package_small pe (it_version_dir ?t)" using Cons.prems(3) by (simp add: note_abort_def)
  show ?case
  proof (cases "it_abort_requested ?t \<or> it_state ?t = FPGA_INJ_STATE_COMPLETED \<or> it_state ?t = FPGA_INJ_STATE_FAILED")
    case True
    obtain t' D where x: "exit_thread send ?t = Some t'" "valid (it_link t')" "it_state t' = it_state ?t" "same_task ?t t'"
        "log (it_link t') = log (it_link ?t) @ D" "it_bin_fp t' = None" "\<not> it_in_progress t'"
      using exit_thread_returns [OF t(1)] by blast
    have "completed_ok pe (log (it_link t')) t'" if "it_state t' = FPGA_INJ_STATE_COMPLETED"
      unfolding x(5) by (rule completed_ok_keeps [OF inj_ok_completed [OF t(2)] x(4)]) (use that x(3) in simp)
    moreover have "thread_loop send exchange pe (e # es) t = Some (True, t')" using True x(1) by (simp add: Let_def)
    ultimately show ?thesis using x(2,6,7) by blast
  next
    case False
    obtain ret t' where x: "injection_turn send exchange pe e ?t = Some (ret, t')" "valid (it_link t')"
        "inj_ok pe (log (it_link t')) t'" "it_version_dir t' = it_version_dir ?t"
      using injection_turn_returns [OF t d] by blast
    have step: "thread_loop send exchange pe (e # es) t = (case ret of None \<Rightarrow> Some (False, t') | Some r \<Rightarrow> thread_loop send exchange pe es t')"
      using False x(1) by (simp add: Let_def)
    show ?thesis
    proof (cases ret)
      case None
      then show ?thesis using step x inj_ok_completed by auto
    next
      case (Some r)
      then show ?thesis using step Cons.IH [OF x(2,3)] x(4) d by simp
    qed
  qed
qed

lemma thread_returns:
  assumes v: "valid (it_link t)" and st: "it_state t = FPGA_INJ_STATE_PARSING_METADATA" and m: "0 < unat (it_max_retries t)"
    and small: "package_small pe (it_version_dir t)"
  shows "\<exists>fin t'. injection_thread_func send exchange pe es t = Some (fin, t') \<and> valid (it_link t')
     \<and> (fin \<longrightarrow> it_bin_fp t' = None \<and> \<not> it_in_progress t')
     \<and> (it_state t' = FPGA_INJ_STATE_COMPLETED \<longrightarrow> completed_ok pe (log (it_link t')) t')"
proof -
  let ?s = "rs422_seq_counter_rollback (it_seq t + 1)"
  obtain ret l where n: "send_upload_notify send 1 t = Some (ret, t\<lparr>it_link := l, it_seq := ?s\<rparr>)" "valid l"
    using upload_notify_returns [OF v, of 1] by blast
  let ?t = "t\<lparr>it_link := l, it_seq := ?s\<rparr>"
  have "inj_ok pe (log (it_link ?t)) ?t" using st m by (simp add: inj_ok_def)
  then show ?thesis using thread_loop_returns [of ?t pe es] n small by (simp add: injection_thread_func_def)
qed

end

end
