(* ===== verification/InjectionRun.thy ===== *)
theory InjectionRun
  imports FpgaInjector
begin

text \<open>
  Whole runs of the firmware injector: what a run that completes has done, that the data phase is
  over after a bounded number of turns, and that a package whose every command is acknowledged is
  injected. A line that acknowledges every command is an interface of its own, which extends
  \<open>rs422_link\<close> and which the serial client provides when the kernel delivers the acknowledgements.
\<close>

subsection \<open>A line that acknowledges\<close>

text \<open>The calls to come are pairs of the length of the frame and the command of the reply.\<close>

locale rs422_answered = rs422_link +
  fixes answers :: "(nat \<times> u16) list \<Rightarrow> 'a \<Rightarrow> bool"
  assumes send_answered: "answers ((length f, c) # ns) l \<Longrightarrow> \<exists>l'. send l f = Some (SUCCESS, l') \<and> answers ns l'"
    and exchange_answered: "answers ((length f, cmd) # ns) l \<Longrightarrow> cmd \<noteq> 0 \<Longrightarrow>
      \<exists>res l'. exchange l f 256 cmd = Some (res, l') \<and> acknowledged res \<and> answers ns l'"

definition answer_input :: "nat \<times> u16 \<Rightarrow> line_input" where
  "answer_input = (\<lambda>(k, cmd). ([int k], (0, 0),
     [((0, 0), Read_bytes (rs422_frame RS422_SYNC_WORD_ACK RS422_APID_CONTROL 0xC000 cmd [0]))]))"

definition line_answers :: "(nat \<times> u16) list \<Rightarrow> rs422_line \<Rightarrow> bool" where
  "line_answers ns l \<longleftrightarrow> line_valid l \<and> uc_is_open (ln_client l) \<and> 0 \<le> uc_fd (ln_client l) \<and> 0 < uc_timeout_ms (ln_client l)
     \<and> list_all (\<lambda>(k, cmd). 0 < k \<and> k < 2 ^ 32) ns \<and> (\<exists>rest. ln_script l = map answer_input ns @ rest)"

lemma acknowledged_reply:
  assumes "unat n = 13" "take (unat n) fb = rs422_frame RS422_SYNC_WORD_ACK pid sc cmd [0]"
  shows "acknowledged (SUCCESS, fb, n)"
proof -
  have fb: "fb = rs422_frame RS422_SYNC_WORD_ACK pid sc cmd [0] @ drop 13 fb"
    using assms append_take_drop_id [of 13 fb] by simp
  from assms(1) have "12 + length [0 :: u8] \<le> unat n" by simp
  from rs422_decode_ok [OF _ this, of pid sc cmd "drop 13 fb" out_zero] fb
  show ?thesis by (auto simp: acknowledged_def reply_result_def rs422_parse_data_ack_def arr_get_def)
qed

lemma line_answers_next:
  assumes "line_answers ((k, cmd) # ns) l"
  shows "line_next l = (int k # replicate (unat (uc_max_retries (ln_client l)) + 1) (- 1), (0, 0),
      [((0, 0), Read_bytes (rs422_frame RS422_SYNC_WORD_ACK RS422_APID_CONTROL 0xC000 cmd [0]))])"
    and "ctx_inv c \<Longrightarrow> line_answers ns (line_done l c f r)"
  using assms line_done_valid by (auto simp: line_answers_def line_next_def answer_input_def line_done_def)

interpretation line: rs422_answered line_send line_exchange ln_log line_valid line_answers
proof
  fix f :: bytes and c ns l assume a: "line_answers ((length f, c) # ns) l"
  have k: "0 < length f" "unat (of_nat (length f) :: u32) = length f" using a u32_of_nat by (auto simp: line_answers_def)
  have v: "ctx_inv (ln_ctx l)" "uc_is_open (ln_client l)" using a by (simp_all add: line_answers_def line_valid_def)
  have "(of_nat (length f) :: u32) \<noteq> 0" using k unat_0 by (metis less_irrefl)
  then have "uart_rs422_send_frame (ln_client l) (of_nat (length f)) (int (length f) # ws) = Some (SUCCESS, 1, ws)" for ws
    using v(2) k(2) by (simp add: uart_rs422_send_frame_def send_loop.simps u32_le_nat)
  then have "line_send l f = Some (SUCCESS, line_done l (ln_ctx l) f (SUCCESS, [], 0))"
    by (simp add: line_send_def line_answers_next(1) [OF a] del: replicate_Suc)
  then show "\<exists>l'. line_send l f = Some (SUCCESS, l') \<and> line_answers ns l'"
    using line_answers_next(2) [OF a v(1)] by blast
next
  fix f :: bytes and cmd ns l assume a: "line_answers ((length f, cmd) # ns) l" and cmd: "cmd \<noteq> (0 :: u16)"
  let ?w = "of_nat (length f) :: u32" and ?f = "rs422_frame RS422_SYNC_WORD_ACK RS422_APID_CONTROL 0xC000 cmd [0]"
  have k: "0 < length f" "unat ?w = length f" using a u32_of_nat by (auto simp: line_answers_def)
  then have k0: "?w \<noteq> 0" using unat_0 by (metis less_irrefl)
  have v: "ctx_inv (ln_ctx l)" "uc_is_open (ln_client l)" "0 \<le> uc_fd (ln_client l)" "elapsed_ms (0, 0) (0, 0) < uc_timeout_ms (ln_client l)"
    using a by (simp_all add: line_answers_def line_valid_def elapsed_ms_def)
  have fs: "list_all ack_frame [?f]" "[?f] = [] @ [?f]" by (auto simp: ack_frame_def)
  have b: "length (concat [?f]) \<le> 1024" "12 + length [0 :: u8] \<le> unat (256 :: u32)"
    "unat (256 :: u32) \<le> length (replicate 256 (0 :: u8))" by simp_all
  obtain c fb n where x: "uart_rs422_send_and_wait (ln_client l) (ln_ctx l) ?w (replicate 256 0) 256 0 cmd
        (int (unat ?w) # replicate (unat (uc_max_retries (ln_client l)) + 1) (- 1)) (0, 0) (((0, 0), Read_bytes (concat [?f])) # [])
      = Some (Returned (if cmd = cmd then SUCCESS else ERROR_GENERAL) c fb n)"
      "unat n = 12 + length [0 :: u8]" "take (unat n) fb = ?f" "ctx_inv c"
    using send_and_wait_burst [OF v(1-3) k0 fs b(1) v(4) b(2,3) cmd] by blast
  have "line_exchange l f 256 cmd = Some ((SUCCESS, fb, n), line_done l c f (SUCCESS, fb, n))"
    using x(1) k(2) by (simp add: line_exchange_def line_answers_next(1) [OF a] del: replicate_Suc)
  then show "\<exists>res l'. line_exchange l f 256 cmd = Some (res, l') \<and> acknowledged res \<and> line_answers ns l'"
    using acknowledged_reply x(2,3) line_answers_next(2) [OF a x(4)] by auto
qed

subsection \<open>The packets that are left\<close>

definition left_packets :: "nat \<Rightarrow> nat \<Rightarrow> nat \<Rightarrow> (nat \<times> nat) list" where
  "left_packets n i j = (if i < seg_count n
     then map (Pair i) [j..<pk_count n i] @ concat (map (\<lambda>k. map (Pair k) [0..<pk_count n k]) [Suc i..<seg_count n]) else [])"

lemma left_packets_simps:
  "i < seg_count n \<Longrightarrow> j < pk_count n i \<Longrightarrow> left_packets n i j = (i, j) # left_packets n i (Suc j)"
  "i < seg_count n \<Longrightarrow> left_packets n i (pk_count n i) = left_packets n (Suc i) 0"
  "left_packets n (seg_count n) j = []"
  "left_packets n 0 0 = file_packets n"
  by (auto simp: left_packets_def file_packets_def upt_conv_Cons)

text \<open>The turns of the thread that the data phase still takes at most, when a packet is sent \<open>R\<close> times
  at most and \<open>r\<close> failures of the current one are counted.\<close>

definition turns_left :: "nat \<Rightarrow> nat \<Rightarrow> nat \<Rightarrow> nat \<Rightarrow> nat \<Rightarrow> nat" where
  "turns_left n R i j r = R * length (left_packets n i j) - r + (seg_count n - i) + 1"

lemma turns_left_less:
  assumes "i < seg_count n" "r < R"
  shows "turns_left n R (Suc i) 0 0 < turns_left n R i (pk_count n i) 0"
    "j < pk_count n i \<Longrightarrow> turns_left n R i (Suc j) 0 < turns_left n R i j r"
    "j < pk_count n i \<Longrightarrow> turns_left n R i j (Suc r) < turns_left n R i j r"
  using assms by (simp_all add: turns_left_def left_packets_simps)

lemma data_at_retry: "data_at d n i (pk_count n i) r t \<Longrightarrow> i < seg_count n \<Longrightarrow> r = 0"
  by (auto simp: data_at_def)

text \<open>A turn in the data state looks at the abort flag and leaves it alone.\<close>

lemma transfer_abort_flag:
  "send_transfer_abort send xchg t = Some (ret, t') \<Longrightarrow> it_abort_requested t' = it_abort_requested t"
  by (auto simp: send_transfer_abort_def Let_def split: prod.splits if_splits bind_splits)

lemma transfer_data_flag:
  assumes "handle_transfer_data send xchg ok now t = Some (ret, t')"
  shows "it_abort_requested t' = it_abort_requested t"
proof -
  have o: "it_abort_requested y = it_abort_requested x" if "data_open_segment ok x = Some (b, y)" for b x y
    using that by (auto simp: data_open_segment_def Let_def split: if_splits bind_splits)
  have r: "it_abort_requested y = it_abort_requested x" if "data_read ok x = Some (b, y)" for b x y
  proof -
    have "pred_option (\<lambda>z. it_abort_requested (snd z) = it_abort_requested x) (data_read ok x)"
      by (auto simp: data_read_def Let_def split: bind_split)
    then show ?thesis using that by simp
  qed
  have p: "it_abort_requested (progress_report x) = it_abort_requested x" for x :: "'a fpga_injection_task"
    by (simp add: progress_report_def Let_def)
  have y: "it_abort_requested y = it_abort_requested x" if "data_retry send xchg now x = Some (b, y)" for b x y
    using that transfer_abort_flag by (fastforce simp: data_retry_def transition_state_def Let_def split: if_splits bind_splits)
  have s: "it_abort_requested y = it_abort_requested x" if "data_send send xchg now bs x = Some (b, y)" for b bs x y
    using that y by (fastforce simp: data_send_def transition_state_def p Let_def split: if_splits bind_splits prod.splits)
  show ?thesis
    using assms o r s by (fastforce simp: handle_transfer_data_def transition_state_def split: if_splits bind_splits option.splits)
qed

lemma data_turn:
  assumes "it_state t = FPGA_INJ_STATE_TRANSFER_DATA" "\<not> it_abort_requested t" "\<not> ti_abort e"
    "handle_transfer_data send xchg (ti_fseek_ok e) (ti_now e) t = Some (ret, t')"
  shows "thread_loop send xchg pe (e # es) t = thread_loop send xchg pe es t'" "\<not> it_abort_requested t'"
proof -
  have "note_abort (ti_abort e) t = t" using assms(2,3) by (simp add: note_abort_def)
  then show "thread_loop send xchg pe (e # es) t = thread_loop send xchg pe es t'"
    using assms by (simp add: Let_def injection_turn_def)
  show "\<not> it_abort_requested t'" using transfer_data_flag [OF assms(4)] assms(2) by simp
qed

context rs422_link
begin

lemma data_phase_bounded:
  assumes "data_at d n i j r t" "valid (it_link t)" "\<not> it_abort_requested t" "list_all (\<lambda>e. \<not> ti_abort e) es"
    "turns_left n (unat (it_max_retries t)) i j r \<le> length es"
  shows "\<exists>k t'. k \<le> turns_left n (unat (it_max_retries t)) i j r
     \<and> thread_loop send exchange pe es t = thread_loop send exchange pe (drop k es) t' \<and> same_task t t' \<and> valid (it_link t')
     \<and> it_state t' \<in> {FPGA_INJ_STATE_TRANSFER_END, FPGA_INJ_STATE_FAILED}"
  using assms
proof (induction es arbitrary: i j r t)
  case Nil
  then show ?case by (simp add: turns_left_def)
next
  case (Cons e es)
  let ?R = "unat (it_max_retries t)"
  note a = data_atD [OF Cons.prems(1)]
  obtain ret t' entries where s: "handle_transfer_data send exchange (ti_fseek_ok e) (ti_now e) t = Some (ret, t')" "valid (it_link t')"
      "same_task t t'" "data_outcome d n i j r t' entries"
    using transfer_data_step [OF Cons.prems(1,2)] by blast
  have na: "\<not> ti_abort e" using Cons.prems(4) by simp
  note step = data_turn [OF a(2) Cons.prems(3) na s(1)]
  have step1: "thread_loop send exchange pe (e # es) t = thread_loop send exchange pe es t'" by (rule step(1))
  have R: "unat (it_max_retries t') = ?R" using s(3) by (simp add: same_task_def)
  have ?case if at: "data_at d n i' j' r' t'" and less: "turns_left n ?R i' j' r' < turns_left n ?R i j r" for i' j' r'
  proof -
    have es: "list_all (\<lambda>e. \<not> ti_abort e) es" "turns_left n (unat (it_max_retries t')) i' j' r' \<le> length es"
      using Cons.prems(4,5) less R by simp_all
    obtain k u where k: "k \<le> turns_left n ?R i' j' r'" "thread_loop send exchange pe es t' = thread_loop send exchange pe (drop k es) u"
        "same_task t' u" "valid (it_link u)" "it_state u \<in> {FPGA_INJ_STATE_TRANSFER_END, FPGA_INJ_STATE_FAILED}"
      using Cons.IH [OF at s(2) step(2) es] unfolding R by blast
    have "Suc k \<le> turns_left n ?R i j r" using k(1) less by simp
    then show ?thesis using k(2,4,5) step1 same_task_trans [OF s(3) k(3)] by (intro exI [of _ "Suc k"] exI [of _ u]) (simp del: thread_loop.simps)
  qed
  note go = this
  have fin: ?case if "it_state t' \<in> {FPGA_INJ_STATE_TRANSFER_END, FPGA_INJ_STATE_FAILED}"
    using that step1 s(2,3) by (intro exI [of _ 1] exI [of _ t']) (simp add: turns_left_def del: thread_loop.simps)
  have r0: "r = 0 \<and> data_at d n i (pk_count n i) 0 t" if "i < seg_count n" "j = pk_count n i"
    using Cons.prems(1) that data_at_retry by blast
  have "(\<exists>i' j' r'. data_at d n i' j' r' t' \<and> turns_left n ?R i' j' r' < turns_left n ?R i j r)
      \<or> it_state t' \<in> {FPGA_INJ_STATE_TRANSFER_END, FPGA_INJ_STATE_FAILED}"
    using s(4) turns_left_less(1) [of i n r ?R] turns_left_less(2,3) [of i n r ?R j] a(6) r0 unfolding data_outcome_def by blast
  then show ?case using go fin by blast
qed

end

subsection \<open>A run without failures\<close>

text \<open>A turn that meets no abort, no failure of a library call and one poll at the time of the turn.\<close>

definition smooth :: "turn_input \<Rightarrow> bool" where
  "smooth e \<longleftrightarrow> \<not> ti_abort e \<and> ti_malloc_ok e \<and> ti_fseek_ok e \<and> \<not> ti_abort_after e \<and> (\<exists>ps. ti_polls e = (False, ti_now e) # ps)"

definition packet_calls :: "nat \<Rightarrow> (nat \<times> nat) list \<Rightarrow> (nat \<times> u16) list" where
  "packet_calls n ps = map (\<lambda>(i, j). (12 + pk_size n i j, RS422_CMD_DATA_ACK)) ps"

lemma packet_frame_length: "i < seg_count n \<Longrightarrow> j < pk_count n i \<Longrightarrow> n \<le> length d \<Longrightarrow> length (packet_frame d n (i, j)) = 12 + pk_size n i j"
  using pk_size_bounds(3) [of i n j] by (simp add: packet_frame_def pk_data_def)

lemma turn_step:
  assumes "\<not> it_abort_requested t" "smooth e" "it_state t \<notin> {FPGA_INJ_STATE_COMPLETED, FPGA_INJ_STATE_FAILED}"
    "injection_turn send xchg pe e t = Some (Some ret, t')"
  shows "thread_loop send xchg pe (e # es) t = thread_loop send xchg pe es t'"
proof -
  have "note_abort (ti_abort e) t = t" using assms(1,2) by (simp add: note_abort_def smooth_def)
  then show ?thesis using assms by (simp add: Let_def)
qed

context rs422_answered
begin

lemma packet_answered:
  assumes at: "data_at d n i j 0 t" and i: "i < seg_count n" and j: "j < pk_count n i"
    and a: "answers ((12 + pk_size n i j, RS422_CMD_DATA_ACK) # ns) (it_link t)"
  shows "\<exists>ret t'. handle_transfer_data send exchange True now t = Some (ret, t') \<and> data_at d n i (Suc j) 0 t'
     \<and> answers ns (it_link t') \<and> same_task t t'"
proof -
  have n: "n + 1048576 \<le> 2 ^ 32" "n \<le> length d" using data_atD(1) [OF at] by (simp_all add: data_file_def)
  let ?f = "packet_frame d n (i, j)"
  have lf: "length ?f = 12 + pk_size n i j" by (rule packet_frame_length [OF i j n(2)])
  obtain t1 where o: "data_open_segment True t = Some (True, t1)" "it_link t1 = it_link t" "same_task t t1"
      "data_at d n i j 0 t1" "segment_open d n i j 0 t1"
    using open_segment [OF at i, of True] by auto
  note b = data_atD [OF o(4)]
  have tot: "it_total_packets_in_segment t1 = of_nat (pk_count n i)" using o(5) by (simp add: segment_open_def)
  have "\<not> it_total_segments t \<le> it_current_segment t" using data_at_end [OF at] i by simp
  moreover have "\<not> it_total_packets_in_segment t1 \<le> it_current_packet_in_segment t1"
    using word_of_nat_le [of "pk_count n i" j] j pk_count_bounds(3) [OF i] unfolding tot b(4) by simp
  ultimately have h: "handle_transfer_data send exchange True now t
      = data_send send exchange now (pk_data d n (i, j)) (t1\<lparr>it_bin_fp := Some (d, pk_start i j + pk_size n i j)\<rparr>)"
    using o(1) read_packet [OF o(4) i o(5) j, of True] by (simp add: handle_transfer_data_def)
  obtain res l where x: "exchange (it_link t1) ?f 256 RS422_CMD_DATA_ACK = Some (res, l)" "acknowledged res" "answers ns l"
    using exchange_answered [of ?f RS422_CMD_DATA_ACK ns "it_link t"] a lf o(2) by auto
  let ?u = "t1\<lparr>it_bin_fp := Some (d, pk_start i j + pk_size n i j), it_link := l,
      it_current_packet_in_segment := it_current_packet_in_segment t1 + 1, it_retry_count := 0\<rparr>"
  have "data_send send exchange now (pk_data d n (i, j)) (t1\<lparr>it_bin_fp := Some (d, pk_start i j + pk_size n i j)\<rparr>)
      = Some (SUCCESS, progress_report ?u)"
    using build_packet [OF i j n] x(1,2) lf by (simp add: data_send_def b(3,4) tot Let_def acknowledged_def)
  moreover have "same_task t1 ?u" by (simp add: same_task_def)
  ultimately show ?thesis
    using h x(3) same_task_trans [OF o(3)] data_at_acknowledged [OF o(4,5) i j, of l] by simp
qed

lemma segment_answered:
  assumes at: "data_at d n i (pk_count n i) 0 t" and i: "i < seg_count n"
  shows "\<exists>ret t'. handle_transfer_data send exchange True now t = Some (ret, t') \<and> data_at d n (Suc i) 0 0 t'
     \<and> it_link t' = it_link t \<and> same_task t t'"
proof -
  obtain t1 where o: "data_open_segment True t = Some (True, t1)" "it_link t1 = it_link t" "same_task t t1"
      "data_at d n i (pk_count n i) 0 t1" "segment_open d n i (pk_count n i) 0 t1"
    using open_segment [OF at i, of True] by auto
  let ?u = "t1\<lparr>it_current_segment := it_current_segment t1 + 1, it_current_packet_in_segment := 0, it_retry_count := 0\<rparr>"
  have "\<not> it_total_segments t \<le> it_current_segment t" using data_at_end [OF at] i by simp
  moreover have "it_total_packets_in_segment t1 \<le> it_current_packet_in_segment t1"
    using o(5) data_atD(4) [OF o(4)] by (simp add: segment_open_def)
  ultimately have "handle_transfer_data send exchange True now t = Some (SUCCESS, ?u)" using o(1) by (simp add: handle_transfer_data_def)
  moreover have "data_at d n (Suc i) 0 0 ?u" using o(4) i by (auto simp: data_at_def data_file_def)
  moreover have "same_task t ?u" using o(3) by (simp add: same_task_def)
  ultimately show ?thesis using o(2) by simp
qed

end

context rs422_answered
begin

lemma send_frame_answered:
  assumes "answers ((k, c) # ns) l" "length f = k"
  obtains l' where "send l f = Some (SUCCESS, l')" "answers ns l'"
  using assms send_answered [of f c ns l] by blast

lemma command_answered:
  assumes "answers ((k, cmd) # ns) l" "cmd \<noteq> 0" "length f = k"
  obtains res l' where "exchange l f 256 cmd = Some (res, l')" "acknowledged res" "answers ns l'"
  using assms exchange_answered [of f cmd ns l] by blast

lemma data_phase_answered:
  assumes "data_at d n i j 0 t" "\<not> it_abort_requested t" "list_all smooth eds"
    "length eds = length (left_packets n i j) + (seg_count n - i) + 1"
    "answers (packet_calls n (left_packets n i j) @ ns) (it_link t)"
  shows "\<exists>t'. thread_loop send exchange pe (eds @ es) t = thread_loop send exchange pe es t' \<and> same_task t t'
     \<and> it_state t' = FPGA_INJ_STATE_TRANSFER_END \<and> \<not> it_abort_requested t' \<and> answers ns (it_link t')"
  using assms
proof (induction eds arbitrary: i j t)
  case (Cons e eds)
  note a = data_atD [OF Cons.prems(1)]
  have sm: "\<not> ti_abort e" "ti_fseek_ok e = True" "list_all smooth eds" using Cons.prems(3) smooth_def [of e] by auto
  have rest: ?case if s: "handle_transfer_data send exchange True (ti_now e) t = Some (ret, u)" "data_at d n i' j' 0 u" "same_task t u"
      and l: "length eds = length (left_packets n i' j') + (seg_count n - i') + 1"
        "answers (packet_calls n (left_packets n i' j') @ ns) (it_link u)" for ret u i' j'
  proof -
    note s1 = s(1) [folded sm(2)]
    obtain t' where "thread_loop send exchange pe (eds @ es) u = thread_loop send exchange pe es t'" "same_task u t'"
        "it_state t' = FPGA_INJ_STATE_TRANSFER_END" "\<not> it_abort_requested t'" "answers ns (it_link t')"
      using Cons.IH [OF s(2) data_turn(2) [OF a(2) Cons.prems(2) sm(1) s1] sm(3) l] by blast
    moreover have "thread_loop send exchange pe ((e # eds) @ es) t = thread_loop send exchange pe (eds @ es) u"
      using data_turn(1) [OF a(2) Cons.prems(2) sm(1) s1] by (simp del: thread_loop.simps)
    ultimately show ?thesis using same_task_trans [OF s(3)] by metis
  qed
  consider (last) "i = seg_count n" | (seg) "i < seg_count n" "j = pk_count n i" | (pk) "i < seg_count n" "j < pk_count n i"
    using a(7,8) by fastforce
  then show ?case
  proof cases
    case last
    then have j: "j = 0" using Cons.prems(1) by (simp add: data_at_def)
    let ?u = "transition_state (ti_now e) FPGA_INJ_STATE_TRANSFER_END t"
    have h: "handle_transfer_data send exchange (ti_fseek_ok e) (ti_now e) t = Some (SUCCESS, ?u)"
      using data_at_end [OF Cons.prems(1)] last by (simp add: handle_transfer_data_def)
    have "eds = []" using Cons.prems(4) last by (simp add: left_packets_simps)
    then have "thread_loop send exchange pe ((e # eds) @ es) t = thread_loop send exchange pe es ?u"
      using data_turn(1) [OF a(2) Cons.prems(2) sm(1) h] by (simp del: thread_loop.simps)
    then show ?thesis
      using Cons.prems(2,5) last by (intro exI [of _ ?u]) (simp add: left_packets_simps packet_calls_def transition_state_def same_task_def del: thread_loop.simps)
  next
    case seg
    obtain ret u where s: "handle_transfer_data send exchange True (ti_now e) t = Some (ret, u)" "data_at d n (Suc i) 0 0 u"
        "it_link u = it_link t" "same_task t u"
      using segment_answered [OF Cons.prems(1) [unfolded seg(2)] seg(1)] by blast
    show ?thesis
      using Cons.prems(4,5) seg s(3) by (intro rest [OF s(1,2,4)]) (simp_all add: left_packets_simps)
  next
    case pk
    have ans: "answers ((12 + pk_size n i j, RS422_CMD_DATA_ACK) # packet_calls n (left_packets n i (Suc j)) @ ns) (it_link t)"
      using Cons.prems(5) pk by (simp add: left_packets_simps(1) packet_calls_def)
    obtain ret u where s: "handle_transfer_data send exchange True (ti_now e) t = Some (ret, u)" "data_at d n i (Suc j) 0 u"
        "answers (packet_calls n (left_packets n i (Suc j)) @ ns) (it_link u)" "same_task t u"
      using packet_answered [OF Cons.prems(1) pk ans] by blast
    show ?thesis using Cons.prems(4) pk by (intro rest [OF s(1,2,4) _ s(3)]) (simp add: left_packets_simps(1))
  qed
qed simp

lemma start_answered:
  assumes st: "it_state t = FPGA_INJ_STATE_TRANSFER_START" and na: "\<not> it_abort_requested t" and sm: "smooth e"
    and f: "file_checked pe t d n" and small: "n + 1048576 \<le> 2 ^ 32" and m: "0 < unat (it_max_retries t)"
    and a: "answers ((27, RS422_CMD_TRANSFER_START_ACK) # ns) (it_link t)"
  shows "\<exists>t'. thread_loop send exchange pe (e # es) t = thread_loop send exchange pe es t' \<and> data_at d n 0 0 0 t' \<and> same_task t t'
     \<and> \<not> it_abort_requested t' \<and> answers ns (it_link t')"
proof -
  let ?f = "command_frame (it_seq t) RS422_CMD_TRANSFER_START (start_payload (transfer_start_params t))"
  have lf: "length ?f = 27" by (simp add: start_payload_def)
  obtain res l where x: "exchange (it_link t) ?f 256 RS422_CMD_TRANSFER_START_ACK = Some (res, l)" "acknowledged res" "answers ns l"
    by (rule command_answered [OF a _ lf]) (simp, rule that)
  obtain ps where p: "ti_polls e = (False, ti_now e) # ps" "\<not> ti_abort_after e" using sm by (auto simp: smooth_def)
  have bytes: "pe_bytes pe (md_bin_file_path (it_metadata t)) = Some d" using f by (simp add: file_checked_def)
  let ?u = "transition_state (ti_now e) FPGA_INJ_STATE_TRANSFER_DATA (t\<lparr>it_seq := it_seq t + 1, it_link := l, it_bin_fp := Some (d, 0),
      it_current_segment := 0, it_current_packet_in_segment := 0, it_segment_offset := 0, it_retry_count := 0\<rparr>)"
  have id: "note_abort False y = y" for y :: "'a fpga_injection_task" by (simp add: note_abort_def)
  have "handle_transfer_start exchange pe (ti_polls e) (ti_abort_after e) (ti_now e) t = Some (Some SUCCESS, ?u)"
    using p na x(1,2) bytes lf by (simp add: handle_transfer_start_def build_commands id acknowledged_def Let_def)
  then have "thread_loop send exchange pe (e # es) t = thread_loop send exchange pe es ?u"
    by (intro turn_step [OF na sm]) (simp_all add: st injection_turn_def)
  moreover have "data_at d n 0 0 0 ?u"
    using file_checked_data [OF f small] m by (simp add: data_at_def data_file_def transition_state_def)
  ultimately show ?thesis using na x(3) by (intro exI [of _ ?u]) (simp add: transition_state_def same_task_def del: thread_loop.simps)
qed

lemma tail_answered:
  assumes st: "it_state t = FPGA_INJ_STATE_TRANSFER_END" and na: "\<not> it_abort_requested t" and sm: "list_all smooth [e1, e2, e3, e4]"
    and clock: "ti_now e3 - ti_now e2 \<le> FPGA_RECONFIG_TIMEOUT_SEC"
    and a: "answers [(12, RS422_CMD_TRANSFER_END_ACK), (14, 0), (12, RS422_CMD_RECONFIG_ACK), (14, 0)] (it_link t)"
  shows "\<exists>t'. thread_loop send exchange pe [e1, e2, e3, e4] t = Some (True, t') \<and> it_state t' = FPGA_INJ_STATE_COMPLETED"
proof -
  let ?f1 = "command_frame (it_seq t) RS422_CMD_TRANSFER_END []"
  obtain res1 l1 where x1: "exchange (it_link t) ?f1 256 RS422_CMD_TRANSFER_END_ACK = Some (res1, l1)" "acknowledged res1"
      "answers [(14, 0), (12, RS422_CMD_RECONFIG_ACK), (14, 0)] l1"
    by (rule command_answered [OF a, where f = ?f1]) (simp, simp, rule that)
  let ?t1 = "transition_state (ti_now e1) FPGA_INJ_STATE_RECONFIG_START (t\<lparr>it_bin_fp := None, it_seq := it_seq t + 1, it_link := l1\<rparr>)"
  have "handle_transfer_end send exchange (ti_now e1) t = Some (SUCCESS, ?t1)"
    using x1 by (simp add: handle_transfer_end_def build_commands acknowledged_def Let_def)
  then have s1: "thread_loop send exchange pe [e1, e2, e3, e4] t = thread_loop send exchange pe [e2, e3, e4] ?t1"
    using sm by (intro turn_step [OF na]) (simp_all add: st injection_turn_def)
  let ?f2 = "command_frame (it_seq ?t1) RS422_CMD_RECONFIG_START [md_file_type (it_metadata t), md_file_sub_type (it_metadata t)]"
  obtain l2 where x2: "send l1 ?f2 = Some (SUCCESS, l2)" "answers [(12, RS422_CMD_RECONFIG_ACK), (14, 0)] l2"
    using send_frame_answered [OF x1(3), of ?f2] by auto
  let ?t2 = "transition_state (ti_now e2) FPGA_INJ_STATE_RECONFIG_POLLING (?t1\<lparr>it_seq := it_seq ?t1 + 1, it_link := l2\<rparr>)"
  have "handle_reconfig_start send (ti_now e2) ?t1 = Some (SUCCESS, ?t2)"
    using x2 by (simp add: handle_reconfig_start_def build_commands transition_state_def Let_def)
  then have s2: "thread_loop send exchange pe [e2, e3, e4] ?t1 = thread_loop send exchange pe [e3, e4] ?t2"
    using sm na by (intro turn_step) (simp_all add: injection_turn_def transition_state_def)
  let ?f3 = "command_frame (it_seq ?t2) RS422_CMD_RECONFIG_QUERY []"
  obtain res3 l3 where x3: "exchange l2 ?f3 256 RS422_CMD_RECONFIG_ACK = Some (res3, l3)" "acknowledged res3" "answers [(14, 0)] l3"
    by (rule command_answered [OF x2(2), where f = ?f3]) (simp, simp, rule that)
  let ?t3 = "transition_state (ti_now e3) FPGA_INJ_STATE_COMPLETED (?t2\<lparr>it_seq := it_seq ?t2 + 1, it_link := l3\<rparr>)"
  have "handle_reconfig_polling exchange (ti_now e3) ?t2 = Some (SUCCESS, ?t3)"
    using x3 clock by (simp add: handle_reconfig_polling_def build_commands acknowledged_def transition_state_def Let_def)
  then have s3: "thread_loop send exchange pe [e3, e4] ?t2 = thread_loop send exchange pe [e4] ?t3"
    using sm na by (intro turn_step) (simp_all add: injection_turn_def transition_state_def)
  let ?f4 = "command_frame (it_seq ?t3) RS422_CMD_UPLOAD_NOTIFY [2, 0xAA]"
  obtain l4 where x4: "send l3 ?f4 = Some (SUCCESS, l4)" using send_frame_answered [OF x3(3), of ?f4] by auto
  have "\<exists>t'. thread_loop send exchange pe [e4] ?t3 = Some (True, t') \<and> it_state t' = FPGA_INJ_STATE_COMPLETED"
    using x4 by (simp add: exit_thread_def send_upload_notify_def build_commands transition_state_def note_abort_def Let_def)
  then show ?thesis unfolding s1 s2 s3 .
qed

end

text \<open>The calls and the turns of a run without failures.\<close>

definition run_calls :: "nat \<Rightarrow> (nat \<times> u16) list" where
  "run_calls n = [(14, 0), (27, RS422_CMD_TRANSFER_START_ACK)] @ packet_calls n (file_packets n)
     @ [(12, RS422_CMD_TRANSFER_END_ACK), (14, 0), (12, RS422_CMD_RECONFIG_ACK), (14, 0)]"

definition run_turns :: "nat \<Rightarrow> nat" where
  "run_turns n = 2 + (length (file_packets n) + seg_count n + 1) + 4"

text \<open>A package whose metadata, digest and size are right.\<close>

definition package_ok :: "'c package_env \<Rightarrow> string \<Rightarrow> bytes \<Rightarrow> nat \<Rightarrow> bool" where
  "package_ok pe dir d n \<longleftrightarrow> (case firmware_parse_metadata (pe_text pe) (pe_stat pe) dir of (ret, m) \<Rightarrow>
     ret = SUCCESS \<and> unat (md_file_size m) = n \<and> pe_bytes pe (md_bin_file_path m) = Some d \<and> n \<le> length d
     \<and> firmware_verify_integrity (pe_sha_init pe) (pe_sha_update pe) (pe_sha_final pe) (pe_bytes pe)
         (md_bin_file_path m) (md_sha256 m) = SUCCESS)"

lemma metadata_smooth:
  assumes "package_ok pe (it_version_dir t) d n" "malloc_ok"
  shows "\<exists>t'. handle_parsing_metadata pe malloc_ok now t = (SUCCESS, t') \<and> file_checked pe t' d n
     \<and> it_state t' = FPGA_INJ_STATE_TRANSFER_START \<and> it_link t' = it_link t \<and> it_max_retries t' = it_max_retries t
     \<and> it_abort_requested t' = it_abort_requested t"
  using assms by (auto simp: package_ok_def handle_parsing_metadata_def transition_state_def file_checked_def Let_def min_def
      split: prod.splits)

lemma split_turns:
  fixes es :: "'b list"
  assumes "length es = run_turns n"
  obtains e1 e2 eds e3 e4 e5 e6 where "es = e1 # e2 # eds @ [e3, e4, e5, e6]" "length eds = length (file_packets n) + seg_count n + 1"
proof -
  let ?k = "length (file_packets n) + seg_count n + 1"
  have "length es = Suc (Suc (?k + 4))" using assms by (simp add: run_turns_def)
  then obtain e1 e2 r where r: "es = e1 # e2 # r" "length r = ?k + 4"
    by (cases es; cases "tl es") auto
  have four: "\<exists>a b c d. xs = [a, b, c, d]" if "length xs = 4" for xs :: "'b list"
    using that by (auto simp: length_Suc_conv eval_nat_numeral)
  have "length (drop ?k r) = 4" using r(2) by simp
  then obtain a b c d where "drop ?k r = [a, b, c, d]" using four by blast
  then have "es = e1 # e2 # take ?k r @ [a, b, c, d]" using r(1) append_take_drop_id [of ?k r] by simp
  then show ?thesis using that r(2) by simp
qed

context rs422_answered
begin

lemma thread_answered:
  assumes ok: "package_ok pe (it_version_dir t) d n" and small: "n + 1048576 \<le> 2 ^ 32" and m: "0 < unat (it_max_retries t)"
    and st: "it_state t = FPGA_INJ_STATE_PARSING_METADATA" and na: "\<not> it_abort_requested t"
    and a: "answers (run_calls n) (it_link t)" and sm: "list_all smooth es" and len: "length es = run_turns n"
    and clock: "successively (\<lambda>e e'. ti_now e' - ti_now e \<le> FPGA_RECONFIG_TIMEOUT_SEC) es"
  shows "\<exists>t'. injection_thread_func send exchange pe es t = Some (True, t') \<and> it_state t' = FPGA_INJ_STATE_COMPLETED"
proof -
  obtain e1 e2 eds e3 e4 e5 e6 where es: "es = e1 # e2 # eds @ [e3, e4, e5, e6]" "length eds = length (file_packets n) + seg_count n + 1"
    using split_turns [OF len] by blast
  have sm': "smooth e1" "smooth e2" "list_all smooth eds" "list_all smooth [e3, e4, e5, e6]" using sm es(1) by simp_all
  have clock': "ti_now e5 - ti_now e4 \<le> FPGA_RECONFIG_TIMEOUT_SEC" using clock unfolding es(1)
    by (auto simp: successively_Cons successively_append_iff)
  let ?f = "command_frame (it_seq t) RS422_CMD_UPLOAD_NOTIFY [1, 0xAA]"
  obtain l where x: "send (it_link t) ?f = Some (SUCCESS, l)" "answers (tl (run_calls n)) l"
    using send_frame_answered [OF a [unfolded run_calls_def append_Cons], of ?f] by (auto simp: run_calls_def)
  let ?t1 = "t\<lparr>it_link := l, it_seq := rs422_seq_counter_rollback (it_seq t + 1)\<rparr>"
  have s0: "injection_thread_func send exchange pe es t = thread_loop send exchange pe es ?t1"
    using x(1) by (simp add: injection_thread_func_def send_upload_notify_def build_commands Let_def)
  obtain t2 where t2: "handle_parsing_metadata pe (ti_malloc_ok e1) (ti_now e1) ?t1 = (SUCCESS, t2)" "file_checked pe t2 d n"
      "it_state t2 = FPGA_INJ_STATE_TRANSFER_START" "it_link t2 = l" "it_max_retries t2 = it_max_retries t" "\<not> it_abort_requested t2"
    using metadata_smooth [of pe ?t1 d n "ti_malloc_ok e1" "ti_now e1"] ok sm'(1) na by (auto simp: smooth_def)
  have s1: "thread_loop send exchange pe es ?t1 = thread_loop send exchange pe (e2 # eds @ [e3, e4, e5, e6]) t2"
    unfolding es(1) using st na sm'(1) t2(1) by (intro turn_step) (simp_all add: injection_turn_def)
  have a2: "answers ((27, RS422_CMD_TRANSFER_START_ACK) # packet_calls n (file_packets n)
      @ [(12, RS422_CMD_TRANSFER_END_ACK), (14, 0), (12, RS422_CMD_RECONFIG_ACK), (14, 0)]) (it_link t2)"
    using x(2) t2(4) by (simp add: run_calls_def)
  have m2: "0 < unat (it_max_retries t2)" using m t2(5) by simp
  obtain t3 where t3: "thread_loop send exchange pe (e2 # eds @ [e3, e4, e5, e6]) t2 = thread_loop send exchange pe (eds @ [e3, e4, e5, e6]) t3"
      "data_at d n 0 0 0 t3" "\<not> it_abort_requested t3"
      "answers (packet_calls n (left_packets n 0 0) @ [(12, RS422_CMD_TRANSFER_END_ACK), (14, 0), (12, RS422_CMD_RECONFIG_ACK), (14, 0)]) (it_link t3)"
    using start_answered [OF t2(3,6) sm'(2) t2(2) small m2 a2] unfolding left_packets_simps(4) by blast
  have l3: "length eds = length (left_packets n 0 0) + (seg_count n - 0) + 1" using es(2) by (simp add: left_packets_simps)
  obtain t4 where t4: "thread_loop send exchange pe (eds @ [e3, e4, e5, e6]) t3 = thread_loop send exchange pe [e3, e4, e5, e6] t4"
      "it_state t4 = FPGA_INJ_STATE_TRANSFER_END" "\<not> it_abort_requested t4"
      "answers [(12, RS422_CMD_TRANSFER_END_ACK), (14, 0), (12, RS422_CMD_RECONFIG_ACK), (14, 0)] (it_link t4)"
    using data_phase_answered [OF t3(2,3) sm'(3) l3 t3(4)] by blast
  show ?thesis
    unfolding s0 s1 t3(1) t4(1) by (rule tail_answered [OF t4(2,3) sm'(4) clock' t4(4)])
qed

end

section \<open>Properties\<close>

text \<open>The task as a call of the start function leaves it.\<close>

abbreviation started :: "'l \<Rightarrow> u16 \<Rightarrow> string \<Rightarrow> string \<Rightarrow> int \<Rightarrow> 'l fpga_injection_task" where
  "started link seq dir num now \<equiv>
     snd (fpga_firmware_injection_start True now dir num (snd (fpga_firmware_injection_init link seq)))"

lemma started_task:
  "it_state (started link seq dir num now) = FPGA_INJ_STATE_PARSING_METADATA" "it_link (started link seq dir num now) = link"
  "it_version_dir (started link seq dir num now) = take 255 dir" "it_max_retries (started link seq dir num now) = 3"
  "\<not> it_abort_requested (started link seq dir num now)" "it_seq (started link seq dir num now) = seq"
  by (simp_all add: fpga_firmware_injection_start_def fpga_firmware_injection_init_def)

text \<open>C6. A completed injection has transferred the file. Whatever the serial line delivers, whatever
  library calls fail and whenever an abort is requested, the injection thread meets no fault; when
  it ends, the file is closed and the task is no longer in progress; and a task in state COMPLETED
  has a package whose metadata parsed and whose digest was right, announced it to the FPGA with
  the CRC of the file, had exactly the packets of the file acknowledged, each once, in order
  (together they are the file), and after that the end of the transfer and the success of the
  reconfiguration.\<close>

theorem injection_completed:
  assumes "line_valid link" and "package_small pe (take 255 dir)"
  shows "\<exists>fin t'. injection_thread_func line_send line_exchange pe es (started link seq dir num now) = Some (fin, t')
     \<and> (fin \<longrightarrow> it_bin_fp t' = None \<and> \<not> it_in_progress t')
     \<and> (it_state t' = FPGA_INJ_STATE_COMPLETED \<longrightarrow>
         (\<exists>d n. file_checked pe t' d n \<and> transferred d n t' (ln_log (it_link t'))
            \<and> concat (map (pk_data d n) (file_packets n)) = take n d
            \<and> (\<exists>seq res. (command_frame seq RS422_CMD_RECONFIG_QUERY [], res) \<in> set (ln_log (it_link t')) \<and> acknowledged res)))"
proof -
  let ?t = "started link seq dir num now"
  have "line_valid (it_link ?t)" "0 < unat (it_max_retries ?t)" "package_small pe (it_version_dir ?t)"
    using assms by (simp_all add: started_task)
  then obtain fin t' where "injection_thread_func line_send line_exchange pe es ?t = Some (fin, t')"
      "fin \<longrightarrow> it_bin_fp t' = None \<and> \<not> it_in_progress t'"
      "it_state t' = FPGA_INJ_STATE_COMPLETED \<longrightarrow> completed_ok pe (ln_log (it_link t')) t'"
    using line.thread_returns [OF _ started_task(1)] by blast
  then show ?thesis unfolding completed_ok_def using file_packets_data by blast
qed

definition package_example :: "bytes package_env" where
  "package_example = \<lparr>pe_text = fs_example, pe_stat = stat_example,
     pe_bytes = (\<lambda>p. if p = ''v/top.bin'' then Some (0xAB # 0x12 # replicate 4094 0) else None),
     pe_sha_init = [], pe_sha_update = (@), pe_sha_final = take 2\<rparr>"

definition line_example :: rs422_line where
  "line_example = \<lparr>ln_client = client_example, ln_ctx = uart_recv_context_init,
     ln_script = map answer_input (run_calls 4096), ln_log = []\<rparr>"

definition turns_example :: "turn_input list" where
  "turns_example = replicate 13 \<lparr>ti_abort = False, ti_now = 0, ti_malloc_ok = True, ti_fseek_ok = True,
     ti_polls = [(False, 0)], ti_abort_after = False\<rparr>"

lemma package_example_ok:
  "package_ok package_example ''v'' (0xAB # 0x12 # replicate 4094 0) 4096" "package_small package_example ''v''"
proof -
  have v: "firmware_verify_integrity [] (@) (take 2) (pe_bytes package_example) ''v/top.bin'' ''ab12'' = SUCCESS"
    using foldl_update [of "(@)" "[]" "chunks (0xAB # 0x12 # replicate 4094 0)"]
    by (simp add: firmware_verify_integrity_def package_example_def concat_chunks hex_byte_def hex_digit_def tolower_def)
  show "package_ok package_example ''v'' (0xAB # 0x12 # replicate 4094 0) 4096" "package_small package_example ''v''"
    using v by (simp_all add: package_ok_def package_small_def package_example_def metadata_example)
qed

lemma line_example_ok: "line_answers (run_calls 4096) line_example" "line_valid line_example"
proof -
  have e: "event_ok ((0, 0), Read_bytes (rs422_frame RS422_SYNC_WORD_ACK RS422_APID_CONTROL 0xC000 cmd [0]))" for cmd
    by (simp add: event_ok_def)
  have "list_all (\<lambda>(k, cmd). 0 < k \<and> k < 2 ^ 32) (run_calls 4096)"
    by (auto simp: run_calls_def packet_calls_def list_all_iff pk_size_def min_def)
  moreover show v: "line_valid line_example"
    using e by (auto simp: line_valid_def line_example_def ctx_inv_init client_example_simps list_all_iff answer_input_def)
  ultimately show "line_answers (run_calls 4096) line_example"
    by (simp add: line_answers_def line_example_def client_example_simps)
qed

text \<open>C7. An acknowledged package is injected. When the package is right, every command is acknowledged
  with success and no abort is requested, the thread ends in state COMPLETED after two turns, one
  turn for each packet and each segment, one that finds the file sent and four more.\<close>

theorem injection_completes:
  assumes "package_ok pe (take 255 dir) d n" and "n + 1048576 \<le> 2 ^ 32" and "line_answers (run_calls n) link"
    and "list_all smooth es" and "length es = run_turns n"
    and "successively (\<lambda>e e'. ti_now e' - ti_now e \<le> FPGA_RECONFIG_TIMEOUT_SEC) es"
  shows "\<exists>t'. injection_thread_func line_send line_exchange pe es (started link seq dir num now) = Some (True, t')
     \<and> it_state t' = FPGA_INJ_STATE_COMPLETED"
  using assms by (intro line.thread_answered [where d = d and n = n]) (simp_all add: started_task)

lemma turns_example_ok: "list_all smooth turns_example" "length turns_example = run_turns 4096"
    "successively (\<lambda>e e'. ti_now e' - ti_now e \<le> FPGA_RECONFIG_TIMEOUT_SEC) turns_example"
proof -
  have "pk_count 4096 0 = 5" "seg_count 4096 = 1" by (simp_all add: pk_count_def seg_len_def seg_count_def)
  then show "length turns_example = run_turns 4096" by (simp add: turns_example_def run_turns_def file_packets_def)
  show "list_all smooth turns_example" by (simp add: turns_example_def smooth_def list_all_iff)
  show "successively (\<lambda>e e'. ti_now e' - ti_now e \<le> FPGA_RECONFIG_TIMEOUT_SEC) turns_example"
    by (simp add: turns_example_def eval_nat_numeral)
qed

theorem injection_completes_witness:
  "\<exists>t'. injection_thread_func line_send line_exchange package_example turns_example (started line_example 0 ''v'' ''1.0'' 0)
       = Some (True, t') \<and> it_state t' = FPGA_INJ_STATE_COMPLETED"
  by (rule injection_completes [where n = 4096 and d = "0xAB # 0x12 # replicate 4094 0"])
     (use package_example_ok(1) line_example_ok(1) turns_example_ok in simp_all)

theorem injection_completed_witness:
  "\<exists>t' d n. injection_thread_func line_send line_exchange package_example turns_example (started line_example 0 ''v'' ''1.0'' 0)
       = Some (True, t') \<and> it_state t' = FPGA_INJ_STATE_COMPLETED \<and> it_bin_fp t' = None \<and> \<not> it_in_progress t'
     \<and> file_checked package_example t' d n \<and> transferred d n t' (ln_log (it_link t'))"
proof -
  let ?t = "started line_example 0 ''v'' ''1.0'' 0"
  have "\<exists>t'. injection_thread_func line_send line_exchange package_example turns_example ?t = Some (True, t')
     \<and> it_state t' = FPGA_INJ_STATE_COMPLETED"
    by (rule line.thread_answered [where n = 4096 and d = "0xAB # 0x12 # replicate 4094 0"])
       (use package_example_ok(1) line_example_ok(1) turns_example_ok in \<open>simp_all add: started_task\<close>)
  moreover have "package_small package_example (take 255 ''v'')" using package_example_ok(2) by simp
  ultimately show ?thesis
    using injection_completed [OF line_example_ok(2), of package_example "''v''" turns_example 0 "''1.0''" 0] by fastforce
qed

text \<open>The data phase ends. Without an abort request, from its start the thread leaves the data state
  after at most three turns for each packet of the file, one for each segment and one more, with
  the transfer at its end or failed, whatever the line does.\<close>

theorem data_phase_ends:
  assumes "data_at d n 0 0 0 t" and "line_valid (it_link t)" and "\<not> it_abort_requested t" and "it_max_retries t = 3"
    and "list_all (\<lambda>e. \<not> ti_abort e) es" and "3 * length (file_packets n) + seg_count n + 1 \<le> length es"
  shows "\<exists>k t'. k \<le> 3 * length (file_packets n) + seg_count n + 1
     \<and> thread_loop line_send line_exchange pe es t = thread_loop line_send line_exchange pe (drop k es) t' \<and> same_task t t'
     \<and> it_state t' \<in> {FPGA_INJ_STATE_TRANSFER_END, FPGA_INJ_STATE_FAILED}"
proof -
  have "turns_left n (unat (it_max_retries t)) 0 0 0 = 3 * length (file_packets n) + seg_count n + 1"
    using assms(4) by (simp add: turns_left_def left_packets_simps)
  then show ?thesis using line.data_phase_bounded [OF assms(1-3,5), of pe] assms(6) by metis
qed

definition data_example :: "rs422_line fpga_injection_task" where
  "data_example = (started (line_example\<lparr>ln_script := []\<rparr>) 0 ''v'' ''1.0'' 0)\<lparr>it_state := FPGA_INJ_STATE_TRANSFER_DATA,
     it_metadata := metadata_zero\<lparr>md_file_size := 3\<rparr>, it_total_segments := 1, it_bin_fp := Some ([7, 8, 9], 0)\<rparr>"

theorem data_phase_ends_witness:
  "\<exists>k t'. k \<le> 5
     \<and> thread_loop line_send line_exchange package_example turns_example data_example
       = thread_loop line_send line_exchange package_example (drop k turns_example) t' \<and> same_task data_example t'
     \<and> it_state t' \<in> {FPGA_INJ_STATE_TRANSFER_END, FPGA_INJ_STATE_FAILED}"
proof -
  have s: "seg_count 3 = 1" "pk_count 3 0 = 1" by (simp_all add: seg_count_def pk_count_def seg_len_def)
  then have p: "length (file_packets 3) = 1" by (simp add: file_packets_def)
  have at: "data_at [7, 8, 9] 3 0 0 0 data_example"
    by (simp add: data_example_def data_at_def data_file_def s fpga_firmware_injection_start_def fpga_firmware_injection_init_def)
  have l: "line_valid (it_link data_example)" "\<not> it_abort_requested data_example" "it_max_retries data_example = 3"
    using line_example_ok(2)
    by (simp_all add: data_example_def fpga_firmware_injection_start_def fpga_firmware_injection_init_def line_valid_def)
  have e: "list_all (\<lambda>e. \<not> ti_abort e) turns_example" "3 * length (file_packets 3) + seg_count 3 + 1 \<le> length turns_example"
    by (simp_all add: turns_example_def list_all_iff p s)
  show ?thesis using data_phase_ends [OF at l e] by (simp add: p s del: thread_loop.simps)
qed

end
