(* ===== verification/ClientPorts.thy ===== *)
theory ClientPorts
  imports Prelude
begin

text \<open>
  The two ways out of the program: \<open>uart_client_send\<close> of uart_client.c, which hands command frames to
  the FPGA, and \<open>tcp_client_send\<close> of tcp_client.c, which hands messages to the BBU. A port is
  whether it is open, a script of what the successive system calls give, and the bytes that the
  kernel took so far. A script that has ended means a kernel that takes what it is given. The
  mutexes make each call atomic.
\<close>

datatype io_result = Wrote nat | Interrupted | Would_block | Failed

record port =
  po_open :: bool
  po_script :: "io_result list"
  po_out :: bytes

text \<open>The loops over the rest of the data. \<open>write\<close> takes no more than it is given.\<close>

fun uart_write_loop :: "bytes \<Rightarrow> io_result list \<Rightarrow> int \<times> bytes \<times> io_result list" where
  "uart_write_loop [] script = (SUCCESS, [], script)"
| "uart_write_loop (b # bs) [] = (SUCCESS, b # bs, [])"
| "uart_write_loop (b # bs) (r # script) =
     (case r of
        Interrupted \<Rightarrow> uart_write_loop (b # bs) script
      | Wrote n \<Rightarrow>
          if n = 0 then (ERROR_GENERAL, [], script)
          else let (ret, taken, rest) = uart_write_loop (drop n (b # bs)) script
               in (ret, take n (b # bs) @ taken, rest)
      | _ \<Rightarrow> (ERROR_GENERAL, [], script))"

definition uart_client_send :: "port \<Rightarrow> bytes \<Rightarrow> int \<times> port" where
  "uart_client_send p data =
     (if data = [] then (ERROR_INVALID_PARAM, p)
      else if \<not> po_open p then (ERROR_GENERAL, p)
      else let (ret, taken, rest) = uart_write_loop data (po_script p)
           in (ret, p\<lparr>po_out := po_out p @ taken, po_script := rest\<rparr>))"

fun tcp_send_loop :: "bytes \<Rightarrow> io_result list \<Rightarrow> int \<times> bytes \<times> io_result list" where
  "tcp_send_loop [] script = (SUCCESS, [], script)"
| "tcp_send_loop (b # bs) [] = (SUCCESS, b # bs, [])"
| "tcp_send_loop (b # bs) (r # script) =
     (case r of
        Interrupted \<Rightarrow> tcp_send_loop (b # bs) script
      | Would_block \<Rightarrow> (ERROR_TIMEOUT, [], script)
      | Failed \<Rightarrow> (ERROR_NETWORK, [], script)
      | Wrote n \<Rightarrow>
          let (ret, taken, rest) = tcp_send_loop (drop n (b # bs)) script
          in (ret, take n (b # bs) @ taken, rest))"

definition tcp_client_send :: "port \<Rightarrow> bytes \<Rightarrow> int \<times> port" where
  "tcp_client_send p data =
     (if data = [] then (ERROR_INVALID_PARAM, p)
      else if \<not> po_open p then (ERROR_NETWORK, p)
      else let (ret, taken, rest) = tcp_send_loop data (po_script p)
           in (ret, p\<lparr>po_out := po_out p @ taken, po_script := rest\<rparr>))"

subsection \<open>The interface\<close>

text \<open>A sender puts a prefix of the data on the stream, the whole of it when it returns SUCCESS, and
  changes nothing else that a caller can see.\<close>

locale byte_sender =
  fixes send :: "port \<Rightarrow> bytes \<Rightarrow> int \<times> port"
  assumes send_prefix: "send p d = (ret, p') \<Longrightarrow>
      \<exists>k \<le> length d. po_out p' = po_out p @ take k d \<and> po_open p' = po_open p \<and> (ret = SUCCESS \<longrightarrow> k = length d \<and> d \<noteq> [])"
begin

lemma send_ok: "send p d = (SUCCESS, p') \<Longrightarrow> po_out p' = po_out p @ d"
  using send_prefix [of p d SUCCESS p'] by auto

lemma send_open: "po_open (snd (send p d)) = po_open p"
  using send_prefix [of p d "fst (send p d)" "snd (send p d)"] by auto

end

lemma piece_prefix:
  assumes "k \<le> length (drop n d)" "ok \<longrightarrow> k = length (drop n d)"
  shows "\<exists>k' \<le> length d. take n d @ take k (drop n d) = take k' d \<and> (ok \<longrightarrow> k' = length d)"
  using assms by (intro exI [of _ "min (length d) (n + k)"]) (auto simp: take_add [symmetric] min_def)

lemma uart_write_loop_prefix:
  "uart_write_loop d s = (ret, taken, rest) \<Longrightarrow> \<exists>k \<le> length d. taken = take k d \<and> (ret = SUCCESS \<longrightarrow> k = length d)"
proof (induction d s arbitrary: ret taken rest rule: uart_write_loop.induct)
  case (3 b bs r script)
  show ?case
  proof (cases r)
    case (Wrote n)
    obtain ret' t' rest' where w: "uart_write_loop (drop n (b # bs)) script = (ret', t', rest')" by (cases rule: prod_cases3)
    show ?thesis
    proof (cases "n = 0")
      case False
      then show ?thesis using 3(1) [OF Wrote False w] 3(3) Wrote w piece_prefix [of _ n "b # bs" "ret' = SUCCESS"] by auto
    qed (use 3(3) Wrote in \<open>auto intro: exI [of _ 0]\<close>)
  qed (use 3 in auto)
qed auto

lemma tcp_send_loop_prefix:
  "tcp_send_loop d s = (ret, taken, rest) \<Longrightarrow> \<exists>k \<le> length d. taken = take k d \<and> (ret = SUCCESS \<longrightarrow> k = length d)"
proof (induction d s arbitrary: ret taken rest rule: tcp_send_loop.induct)
  case (3 b bs r script)
  show ?case
  proof (cases r)
    case (Wrote n)
    obtain ret' t' rest' where w: "tcp_send_loop (drop n (b # bs)) script = (ret', t', rest')" by (cases rule: prod_cases3)
    then show ?thesis using 3(1) [OF Wrote w] 3(3) Wrote w piece_prefix [of _ n "b # bs" "ret' = SUCCESS"] by auto
  qed (use 3 in auto)
qed auto

lemma send_by_loop:
  assumes "(if d = [] then (e1, p) else if \<not> po_open p then (e2, p)
      else let (ret, taken, rest) = loop d (po_script p) in (ret, p\<lparr>po_out := po_out p @ taken, po_script := rest\<rparr>)) = (ret, p')"
    and "\<And>s ret taken rest. loop d s = (ret, taken, rest) \<Longrightarrow> \<exists>k \<le> length d. taken = take k d \<and> (ret = SUCCESS \<longrightarrow> k = length d)"
    and "e1 \<noteq> SUCCESS" "e2 \<noteq> SUCCESS"
  shows "\<exists>k \<le> length d. po_out p' = po_out p @ take k d \<and> po_open p' = po_open p \<and> (ret = SUCCESS \<longrightarrow> k = length d \<and> d \<noteq> [])"
proof (cases "d = [] \<or> \<not> po_open p")
  case True
  then show ?thesis using assms(1,3,4) by (intro exI [of _ 0]) (auto split: if_splits)
next
  case False
  obtain r t s where l: "loop d (po_script p) = (r, t, s)" by (cases rule: prod_cases3)
  then show ?thesis using assms(2) [OF l] assms(1) False by auto
qed

interpretation uart: byte_sender uart_client_send
proof
  fix p d ret p' assume "uart_client_send p d = (ret, p')"
  then show "\<exists>k \<le> length d. po_out p' = po_out p @ take k d \<and> po_open p' = po_open p \<and> (ret = SUCCESS \<longrightarrow> k = length d \<and> d \<noteq> [])"
    unfolding uart_client_send_def by (rule send_by_loop) (rule uart_write_loop_prefix, simp_all)
qed

interpretation tcp: byte_sender tcp_client_send
proof
  fix p d ret p' assume "tcp_client_send p d = (ret, p')"
  then show "\<exists>k \<le> length d. po_out p' = po_out p @ take k d \<and> po_open p' = po_open p \<and> (ret = SUCCESS \<longrightarrow> k = length d \<and> d \<noteq> [])"
    unfolding tcp_client_send_def by (rule send_by_loop) (rule tcp_send_loop_prefix, simp_all)
qed

end
