(* ===== verification/FpgaHandler.thy ===== *)
theory FpgaHandler
  imports ClientPorts AlarmManager
begin

text \<open>
  The FPGA handler of fpga_handler.c: the last status frame that the FPGA sent, and one function for
  each command, which encodes a frame into a buffer of its own and hands it to the serial port.
\<close>

subsection \<open>The status of the FPGA\<close>

record fpga_state_manager =
  fs_current_status :: fpga_status_frame
  fs_status_valid :: bool
  fs_last_update_time :: int

definition status_data_zero :: fpga_status_data where
  "status_data_zero = status_data_raw (replicate 127 0)"

definition status_frame_zero :: fpga_status_frame where
  "status_frame_zero = \<lparr>sf_frame_header = 0, sf_length = 0, sf_data = status_data_zero, sf_frame_tail = 0\<rparr>"

definition fpga_handler_init :: "bool \<Rightarrow> fpga_state_manager \<Rightarrow> int \<times> fpga_state_manager" where
  "fpga_handler_init mutex_ok g =
     (let g = \<lparr>fs_current_status = status_frame_zero, fs_status_valid = False, fs_last_update_time = 0\<rparr>
      in if \<not> mutex_ok then (ERROR_GENERAL, g) else (SUCCESS, g))"

definition fpga_handler_on_status_update ::
  "alarm_env \<Rightarrow> fpga_status_frame option \<Rightarrow> fpga_state_manager \<Rightarrow> alarm_manager \<Rightarrow> int \<times> fpga_state_manager \<times> alarm_manager" where
  "fpga_handler_on_status_update env status g am =
     (case status of
        None \<Rightarrow> (ERROR_INVALID_PARAM, g, am)
      | Some local_copy \<Rightarrow>
          (SUCCESS, g\<lparr>fs_current_status := local_copy, fs_status_valid := True, fs_last_update_time := en_time env\<rparr>,
           alarm_periodic_check env am local_copy))"

definition fpga_handler_get_status :: "fpga_state_manager \<Rightarrow> int \<times> fpga_status_frame option" where
  "fpga_handler_get_status g =
     (if \<not> fs_status_valid g then (ERROR_GENERAL, None) else (SUCCESS, Some (fs_current_status g)))"

definition fpga_handler_get_fiber_ports :: "fpga_state_manager \<Rightarrow> u8 \<Rightarrow> u8 \<Rightarrow> int \<times> u8 \<times> u8" where
  "fpga_handler_get_fiber_ports g main_port sub_port =
     (if \<not> fs_status_valid g then (ERROR_GENERAL, main_port, sub_port)
      else (SUCCESS, sd_main_fiber_num (sf_data (fs_current_status g)), sd_backup_fiber_num (sf_data (fs_current_status g))))"

subsection \<open>Commands\<close>

text \<open>The part that the commands share: encoding into a local buffer and handing over the frame.\<close>

definition fpga_send_message :: "port \<Rightarrow> fpga_msg_id \<Rightarrow> bytes \<Rightarrow> u32 \<Rightarrow> (int \<times> port) option" where
  "fpga_send_message uart msg_id payload buffer_size = do {
     (len, buffer) \<leftarrow> fpga_encode_message []
        \<lparr>fm_msg_id = fpga_msg_code msg_id, fm_payload = Some (Outside payload), fm_payload_len = of_nat (length payload)\<rparr>
        (replicate (unat buffer_size) 0) buffer_size;
     Some (if len > 0 then uart_client_send uart (take (nat len) buffer) else (ERROR_GENERAL, uart)) }"

definition fpga_send_cpri_mode :: "port \<Rightarrow> u32 \<Rightarrow> (int \<times> port) option" where
  "fpga_send_cpri_mode uart mode = fpga_send_message uart FPGA_MSG_CPRI_CONFIG (be32 mode) 32"

definition fpga_send_cpri_config :: "port \<Rightarrow> u32 \<Rightarrow> (int \<times> port) option" where
  "fpga_send_cpri_config uart config = fpga_send_message uart FPGA_MSG_CPRI_MODE (be32 config) 32"

definition fpga_send_beam_num :: "port \<Rightarrow> u8 \<Rightarrow> u8 \<Rightarrow> (int \<times> port) option" where
  "fpga_send_beam_num uart cmd_beam_num service_beam_num = do {
     (ret, uart) \<leftarrow> fpga_send_message uart FPGA_MSG_CMD_BEAM_NUM [cmd_beam_num] 32;
     fpga_send_message uart FPGA_MSG_SERVICE_BEAM_NUM [service_beam_num] 32 }"

definition fpga_send_phase_restore :: "port \<Rightarrow> u32 \<Rightarrow> (int \<times> port) option" where
  "fpga_send_phase_restore uart restore_type = fpga_send_message uart FPGA_MSG_PHASE_RESTORE (be32 restore_type) 32"

definition fpga_send_calibration :: "port \<Rightarrow> u32 \<Rightarrow> (int \<times> port) option" where
  "fpga_send_calibration uart calib_params = fpga_send_message uart FPGA_MSG_CALIBRATION (be32 calib_params) 32"

definition fpga_send_loopback :: "port \<Rightarrow> u8 \<Rightarrow> (int \<times> port) option" where
  "fpga_send_loopback uart loopback_type = fpga_send_message uart FPGA_MSG_LOOPBACK [loopback_type] 32"

definition fpga_send_freq_band :: "port \<Rightarrow> u32 \<Rightarrow> u32 \<Rightarrow> u32 \<Rightarrow> (int \<times> port) option" where
  "fpga_send_freq_band uart dl_freq ul_freq bandwidth =
     (let dl_encoded = fpga_encode_frequency dl_freq;
          ul_encoded = fpga_encode_frequency ul_freq
      in fpga_send_message uart FPGA_MSG_FREQ_BAND (be32 dl_encoded @ be32 bandwidth @ be32 ul_encoded) 64)"

text \<open>The local time, when \<open>localtime_r\<close> gives it, with the offsets of \<open>struct tm\<close> added.\<close>

definition fpga_send_system_time :: "port \<Rightarrow> local_time option \<Rightarrow> (int \<times> port) option" where
  "fpga_send_system_time uart now =
     (case now of
        None \<Rightarrow> Some (ERROR_GENERAL, uart)
      | Some (y, mo, d, h, mi, s) \<Rightarrow>
          fpga_send_message uart FPGA_MSG_SYSTEM_TIME
            [of_int s, of_int mi, of_int h, of_int d, of_int mo, of_int (y mod 256)] 32)"

definition fpga_send_tx_control :: "port \<Rightarrow> u8 \<Rightarrow> (int \<times> port) option" where
  "fpga_send_tx_control uart tx_enable = fpga_send_message uart FPGA_MSG_TX_CONTROL [tx_enable] 32"

definition fpga_send_passthrough :: "port \<Rightarrow> bytes \<Rightarrow> (int \<times> port) option" where
  "fpga_send_passthrough uart data =
     (if length data = 0 then Some (ERROR_INVALID_PARAM, uart)
      else if length data > 255 then Some (ERROR_INVALID_PARAM, uart)
      else fpga_send_message uart FPGA_MSG_PASSTHROUGH data 512)"

definition FPGA_RAW_MAX_LEN :: nat where "FPGA_RAW_MAX_LEN = 1024"

definition fpga_send_raw :: "port \<Rightarrow> bytes \<Rightarrow> int \<times> port" where
  "fpga_send_raw uart data =
     (if length data = 0 then (ERROR_INVALID_PARAM, uart)
      else if length data > FPGA_RAW_MAX_LEN then (ERROR_INVALID_PARAM, uart)
      else uart_client_send uart data)"

definition fpga_handler_set_work_mode :: "port \<Rightarrow> u32 \<Rightarrow> (int \<times> port) option" where
  "fpga_handler_set_work_mode uart work_mode = fpga_send_cpri_mode uart work_mode"

subsection \<open>What goes over the line\<close>

lemma fpga_send_message_frame:
  assumes "6 + length payload \<le> unat n" "unat n < 2 ^ 31"
  shows "fpga_send_message uart i payload n = Some (uart_client_send uart (fpga_frame (fpga_msg_code i) payload))"
proof -
  let ?m = "\<lparr>fm_msg_id = fpga_msg_code i, fm_payload = Some (Outside payload), fm_payload_len = of_nat (length payload)\<rparr> :: fpga_message"
  have u: "unat (of_nat (length payload) :: u32) = length payload" using assms by (intro u32_of_nat) simp
  then have "fpga_msg_ok [] ?m" "fpga_payload [] ?m = payload" by (simp_all add: fpga_msg_ok_def fpga_payload_def payload_bytes_def)
  then have e: "fpga_encode_message [] ?m (replicate (unat n) 0) n
      = Some (int (6 + length payload), fpga_frame (fpga_msg_code i) payload @ drop (6 + length payload) (replicate (unat n) 0))"
    using fpga_encode_frame [of "[]" ?m n "replicate (unat n) 0"] assms u by simp
  have l: "length (fpga_frame (fpga_msg_code i) payload) = 6 + length payload" by (simp add: fpga_frame_def)
  show ?thesis unfolding fpga_send_message_def e by (simp add: l)
qed

lemma be32_length [simp]: "length (be32 w) = 4"
  by (simp add: be32_def)

text \<open>Each command is one frame on the serial line.\<close>

lemmas fpga_command_defs = fpga_send_cpri_mode_def fpga_send_cpri_config_def fpga_send_phase_restore_def
  fpga_send_calibration_def fpga_send_loopback_def fpga_send_freq_band_def fpga_send_tx_control_def fpga_handler_set_work_mode_def

lemma fpga_commands:
  "fpga_send_cpri_mode uart w = Some (uart_client_send uart (fpga_frame 2 (be32 w)))"
  "fpga_handler_set_work_mode uart w = Some (uart_client_send uart (fpga_frame 2 (be32 w)))"
  "fpga_send_cpri_config uart w = Some (uart_client_send uart (fpga_frame 1 (be32 w)))"
  "fpga_send_phase_restore uart w = Some (uart_client_send uart (fpga_frame 5 (be32 w)))"
  "fpga_send_calibration uart w = Some (uart_client_send uart (fpga_frame 6 (be32 w)))"
  "fpga_send_loopback uart b = Some (uart_client_send uart (fpga_frame 7 [b]))"
  "fpga_send_tx_control uart b = Some (uart_client_send uart (fpga_frame 11 [b]))"
  "fpga_send_freq_band uart dl ul bw = Some (uart_client_send uart
     (fpga_frame 8 (be32 (fpga_encode_frequency dl) @ be32 bw @ be32 (fpga_encode_frequency ul))))"
  by (simp_all add: fpga_command_defs fpga_send_message_frame Let_def)

lemma fpga_beam_num:
  "fpga_send_beam_num uart a b = Some (uart_client_send (snd (uart_client_send uart (fpga_frame 3 [a]))) (fpga_frame 4 [b]))"
  by (simp add: fpga_send_beam_num_def fpga_send_message_frame split: prod.split)

end
