(* ===== verification/InfoElements.thy ===== *)
theory InfoElements
  imports CpriProtocol
begin

text \<open>
  Information elements, the contents of most CPRI payloads: a type and a length of two bytes each,
  the length counting them, and data. Two pieces of code occur again in several files and are
  modelled once here: \<open>add_ie\<close>, which appends an element to a buffer of 4096 bytes (channel_setup.c,
  status_query.c, param_query.c), and the loop that walks through the elements of a payload. The
  interface \<open>ie_visitor\<close> says when the body of such a loop looks at nothing but its element; then
  the loop is a fold over the elements that \<open>parse_ies\<close> cuts the payload into.
\<close>

subsection \<open>Building\<close>

definition MAX_PAYLOAD_SIZE :: u32 where "MAX_PAYLOAD_SIZE = 4096"

text \<open>The buffer and the offset of the next element. The first argument is what \<open>malloc\<close> gives: nothing,
  or a block with whatever bytes are in it.\<close>

type_synonym ie_state = "bytes option \<times> u32"

definition add_ie :: "bytes option \<Rightarrow> u16 \<Rightarrow> bytes \<Rightarrow> ie_state \<Rightarrow> (int \<times> ie_state) option" where
  "add_ie heap ie_type ie_data st =
     (let ie_data_len = of_nat (length ie_data) :: u16;
          ie_len = 4 + ie_data_len
      in case (case fst st of Some b \<Rightarrow> Some (b, snd st) | None \<Rightarrow> map_option (\<lambda>b. (b, 0)) heap) of
           None \<Rightarrow> Some (ERROR_MEMORY, st)
         | Some (b, offset) \<Rightarrow>
             if offset + ucast ie_len > MAX_PAYLOAD_SIZE then Some (ERROR_MEMORY, (Some b, offset))
             else do {
               b \<leftarrow> mem_put b (unat offset) (le16 ie_type);
               let offset = offset + 2;
               b \<leftarrow> mem_put b (unat offset) (le16 ie_len);
               let offset = offset + 2;
               if ie_data_len > 0
               then do {
                 b \<leftarrow> mem_put b (unat offset) ie_data;
                 Some (SUCCESS, (Some b, offset + ucast ie_data_len)) }
               else Some (SUCCESS, (Some b, offset)) })"

text \<open>Calls one after the other, as the callers do it: what \<open>add_ie\<close> returns is not looked at.\<close>

fun put_ies :: "bytes option \<Rightarrow> (u16 \<times> bytes) list \<Rightarrow> ie_state \<Rightarrow> ie_state option" where
  "put_ies heap [] st = Some st"
| "put_ies heap ((t, d) # ies) st = do { (ret, st) \<leftarrow> add_ie heap t d st; put_ies heap ies st }"

subsection \<open>Walking\<close>

text \<open>The loop \<open>while (offset + 4 <= payload_len)\<close> with its checks; the body is an argument.\<close>

partial_function (option) ie_loop ::
  "(bytes \<Rightarrow> u16 \<Rightarrow> u16 \<Rightarrow> u32 \<Rightarrow> 's \<Rightarrow> 's option) \<Rightarrow> bytes \<Rightarrow> u32 \<Rightarrow> u32 \<Rightarrow> 's \<Rightarrow> 's option" where
  "ie_loop body payload payload_len offset st =
     (if offset + 4 \<le> payload_len
      then do {
        ie_type \<leftarrow> read_le16 payload (unat offset);
        ie_len \<leftarrow> read_le16 payload (unat (offset + 2));
        if ie_len < 4 \<or> offset + ucast ie_len > payload_len then Some st
        else do {
          st \<leftarrow> body payload ie_type ie_len offset st;
          ie_loop body payload payload_len (offset + ucast ie_len) st } }
      else Some st)"

subsection \<open>Elements as data\<close>

text \<open>The payload of a request is the block its pointer leads to, of which \<open>payload_len\<close> bytes count.\<close>

definition message_bytes :: "pool \<Rightarrow> cpri_message \<Rightarrow> bytes" where
  "message_bytes pool m = (case cm_payload m of None \<Rightarrow> [] | Some p \<Rightarrow> payload_bytes pool p)"

definition ie_bytes :: "(u16 \<times> bytes) list \<Rightarrow> bytes" where
  "ie_bytes ies = concat (map (\<lambda>(t, d). le16 t @ le16 (4 + of_nat (length d)) @ d) ies)"

text \<open>The reference parser: elements until the rest is too short or the length is wrong.\<close>

function parse_ies :: "bytes \<Rightarrow> (u16 \<times> bytes) list" where
  "parse_ies bs =
     (if length bs < 4 then []
      else let t = of_le16 (bs ! 0) (bs ! 1); n = unat (of_le16 (bs ! 2) (bs ! 3))
           in if n < 4 \<or> length bs < n then [] else (t, take (n - 4) (drop 4 bs)) # parse_ies (drop n bs))"
  by auto
termination by (relation "measure length") auto

declare parse_ies.simps [simp del]

fun fold_ies :: "(u16 \<Rightarrow> bytes \<Rightarrow> 's \<Rightarrow> 's option) \<Rightarrow> (u16 \<times> bytes) list \<Rightarrow> 's \<Rightarrow> 's option" where
  "fold_ies g [] st = Some st"
| "fold_ies g ((t, d) # ies) st = g t d st \<bind> fold_ies g ies"

lemma ie_bytes_simps [simp]:
  "ie_bytes [] = []" "ie_bytes ((t, d) # ies) = le16 t @ le16 (4 + of_nat (length d)) @ d @ ie_bytes ies"
  "ie_bytes (a @ b) = ie_bytes a @ ie_bytes b"
  by (simp_all add: ie_bytes_def)

lemma le16_nth: "le16 w = [ucast w, ucast (drop_bit 8 w)]"
  by (simp add: le16_def)

lemma le16_read: "of_le16 (ucast w) (ucast (drop_bit 8 w)) = w"
  by (rule of_le16_le16)

text \<open>Reading back what was built, whatever follows that is no element.\<close>

lemma parse_ies_bytes:
  assumes "list_all (\<lambda>(t, d). length d < 65532) ies" "length rest < 4"
  shows "parse_ies (ie_bytes ies @ rest) = ies"
  using assms
proof (induction ies)
  case Nil
  then show ?case by (simp add: parse_ies.simps)
next
  case (Cons e ies)
  obtain t d where e: "e = (t, d)" by (cases e)
  have u: "unat (4 + of_nat (length d) :: u16) = 4 + length d"
    using u16_of_nat [of "4 + length d"] Cons.prems(1) e by simp
  have dr: "drop (4 + length d) (a # b # c # e' # d @ x) = x" for a b c e' x by (simp add: eval_nat_numeral)
  have IH: "parse_ies (ie_bytes ies @ rest) = ies" using Cons by simp
  show ?case
    unfolding e by (subst parse_ies.simps) (simp add: le16_nth le16_read u Let_def IH dr)
qed

lemma read_le16_at:
  assumes "i + 2 \<le> length bs"
  shows "read_le16 bs i = Some (of_le16 (bs ! i) (bs ! (i + 1)))"
  using assms by (simp add: read_le16_def arr_get_def)

subsection \<open>The interface of a walk\<close>

locale ie_visitor =
  fixes visit :: "bytes \<Rightarrow> u16 \<Rightarrow> u16 \<Rightarrow> u32 \<Rightarrow> 's \<Rightarrow> 's option"
    and answer :: "u16 \<Rightarrow> bytes \<Rightarrow> 's \<Rightarrow> 's option"
  assumes visit_answer: "4 \<le> unat n \<Longrightarrow> unat i + unat n \<le> length buf \<Longrightarrow> length buf < 2 ^ 31 \<Longrightarrow>
      visit buf t n i st = answer t (take (unat n - 4) (drop (unat i + 4) buf)) st"
begin

lemma loop_from:
  assumes "unat n \<le> length buf" "length buf < 2 ^ 31" "unat i \<le> unat n"
  shows "ie_loop visit buf n i st = fold_ies answer (parse_ies (take (unat n - unat i) (drop (unat i) buf))) st"
  using assms(3)
proof (induction "unat n - unat i" arbitrary: i st rule: less_induct)
  case less
  let ?bs = "take (unat n - unat i) (drop (unat i) buf)"
  have small: "unat i < 2 ^ 31" "unat n < 2 ^ 31" using less.prems assms by simp_all
  have i4: "unat (i + 4) = unat i + 4" "unat (i + 2) = unat i + 2" using small by (subst u32_add_nat; simp)+
  have len: "length ?bs = unat n - unat i" using assms(1) by simp
  show ?case
  proof (cases "i + 4 \<le> n")
    case False
    then have "length ?bs < 4" using len i4 by (simp add: u32_le_nat)
    then show ?thesis using False by (subst ie_loop.simps, subst parse_ies.simps) simp
  next
    case True
    then have le: "unat i + 4 \<le> unat n" using i4 by (simp add: u32_le_nat)
    have nth: "?bs ! k = buf ! (unat i + k)" if "k < 4" for k using that le assms(1) by simp
    define t where "t = of_le16 (?bs ! 0) (?bs ! 1)"
    define l where "l = of_le16 (?bs ! 2) (?bs ! 3)"
    have rd: "read_le16 buf (unat i) = Some t" "read_le16 buf (unat (i + 2)) = Some l"
      using read_le16_at [of "unat i" buf] read_le16_at [of "unat i + 2" buf] le assms(1) nth i4
      by (simp_all add: numeral_3_eq_3 t_def l_def)
    have il: "unat (i + ucast l) = unat i + unat l"
      using small(1) u16_bound [of l] by (subst u32_add_nat) (simp_all add: unat_ucast_up)
    have l4: "l < 4 \<longleftrightarrow> unat l < 4" by (simp add: word_less_nat_alt)
    have big: "i + ucast l > n \<longleftrightarrow> length ?bs < unat l" using il len le unfolding u32_less_nat by auto
    have nl: "\<not> length ?bs < 4" using le len by simp
    have ps: "parse_ies ?bs = (if unat l < 4 \<or> length ?bs < unat l then []
        else (t, take (unat l - 4) (drop 4 ?bs)) # parse_ies (drop (unat l) ?bs))"
      unfolding t_def l_def by (subst parse_ies.simps) (simp only: Let_def if_not_P [OF nl])
    show ?thesis
    proof (cases "l < 4 \<or> i + ucast l > n")
      case stop: True
      then have "parse_ies ?bs = []" unfolding ps using l4 big by simp
      then show ?thesis using stop True rd by (subst ie_loop.simps) simp
    next
      case False
      then have c: "4 \<le> unat l" "unat i + unat l \<le> unat n" using l4 big len le by auto
      let ?d = "take (unat l - 4) (drop 4 ?bs)"
      have d: "?d = take (unat l - 4) (drop (unat i + 4) buf)"
        using c le by (simp add: drop_take add.commute)
      have v: "visit buf t l i st = answer t ?d st"
        unfolding d by (rule visit_answer [OF c(1) order_trans [OF c(2) assms(1)] assms(2)])
      have rest: "drop (unat l) ?bs = take (unat n - unat (i + ucast l)) (drop (unat (i + ucast l)) buf)"
        unfolding il by (simp add: drop_take add.commute)
      have p: "parse_ies ?bs = (t, ?d) # parse_ies (drop (unat l) ?bs)"
        using False l4 big unfolding ps by simp
      have go: "ie_loop visit buf n (i + ucast l) st' = fold_ies answer (parse_ies (drop (unat l) ?bs)) st'" for st'
        unfolding rest by (rule less.hyps) (use il c in simp_all)
      have "ie_loop visit buf n i st = visit buf t l i st \<bind> ie_loop visit buf n (i + ucast l)"
        by (subst ie_loop.simps) (use True False rd in simp)
      moreover have "ie_loop visit buf n (i + ucast l) = fold_ies answer (parse_ies (drop (unat l) ?bs))" using go by (rule ext)
      ultimately show ?thesis unfolding p fold_ies.simps v by simp
    qed
  qed
qed

text \<open>The whole walk is the fold over the elements; in particular it ends.\<close>

lemma loop_is_fold:
  assumes "unat n \<le> length buf" "length buf < 2 ^ 31"
  shows "ie_loop visit buf n 0 st = fold_ies answer (parse_ies (take (unat n) buf)) st"
  using loop_from [OF assms, of 0] by simp

end

subsection \<open>What is built\<close>

definition ie_fits :: "(u16 \<times> bytes) list \<Rightarrow> bytes \<Rightarrow> bool" where
  "ie_fits ies d \<longleftrightarrow> length (ie_bytes ies) + 4 + length d \<le> 4096"

definition ie_append :: "(u16 \<times> bytes) list \<Rightarrow> u16 \<Rightarrow> bytes \<Rightarrow> (u16 \<times> bytes) list" where
  "ie_append ies t d = (if ie_fits ies d then ies @ [(t, d)] else ies)"

text \<open>The elements that are in the buffer so far. Without a buffer there are none.\<close>

definition ie_built :: "ie_state \<Rightarrow> (u16 \<times> bytes) list \<Rightarrow> bool" where
  "ie_built st ies \<longleftrightarrow> length (ie_bytes ies) \<le> 4096 \<and> snd st = of_nat (length (ie_bytes ies)) \<and>
     (case fst st of None \<Rightarrow> ies = []
      | Some b \<Rightarrow> length b = 4096 \<and> take (length (ie_bytes ies)) b = ie_bytes ies)"

lemma ie_built_start [simp]: "ie_built (None, 0) []"
  by (simp add: ie_built_def)

lemma mem_put_mid:
  assumes "length a = i" "length src \<le> length rest"
  shows "mem_put (a @ rest) i src = Some (a @ src @ drop (length src) rest)"
  using mem_put_at [OF assms] by simp

lemma add_ie_buffer:
  assumes "length b = 4096" "take k b = pre" "length pre = k" "k + 4 + length d \<le> 4096"
  shows "\<exists>b'. do {
      b \<leftarrow> mem_put b k (le16 t);
      b \<leftarrow> mem_put b (k + 2) (le16 n);
      if 0 < length d then do { b \<leftarrow> mem_put b (k + 4) d; Some b } else Some b } = Some b'
     \<and> length b' = 4096 \<and> take (k + 4 + length d) b' = pre @ le16 t @ le16 n @ d"
proof -
  have b: "b = pre @ drop k b" using assms(2) append_take_drop_id [of k b] by simp
  have k4: "k + 4 = Suc (Suc (Suc (Suc k)))" by simp
  have 1: "mem_put b k (le16 t) = Some (pre @ le16 t @ drop (k + 2) b)"
    using mem_put_mid [of pre k "le16 t" "drop k b"] assms b by simp
  have 2: "mem_put (pre @ le16 t @ drop (k + 2) b) (k + 2) (le16 n) = Some (pre @ le16 t @ le16 n @ drop (k + 4) b)"
    using mem_put_mid [of "pre @ le16 t" "k + 2" "le16 n" "drop (k + 2) b"] assms unfolding k4 by simp
  have 3: "mem_put (pre @ le16 t @ le16 n @ drop (k + 4) b) (k + 4) d = Some (pre @ le16 t @ le16 n @ d @ drop (k + 4 + length d) b)"
    using mem_put_mid [of "pre @ le16 t @ le16 n" "k + 4" d "drop (k + 4) b"] assms by (simp add: add.commute)
  show ?thesis unfolding 1 bind.simps 2 3 using assms by (cases d) auto
qed

lemma add_ie_built:
  assumes built: "ie_built st ies" and h: "length h = 4096" and d: "length d \<le> 4096"
  shows "\<exists>st'. add_ie (Some h) t d st = Some (if ie_fits ies d then SUCCESS else ERROR_MEMORY, st') \<and> ie_built st' (ie_append ies t d)"
proof -
  let ?k = "length (ie_bytes ies)"
  obtain b where b: "(case fst st of Some b \<Rightarrow> Some (b, snd st) | None \<Rightarrow> map_option (\<lambda>b. (b, 0)) (Some h)) = Some (b, of_nat ?k)"
      "length b = 4096" "take ?k b = ie_bytes ies" "?k \<le> 4096"
    using built h by (cases "fst st") (auto simp: ie_built_def)
  have k: "unat (of_nat ?k :: u32) = ?k" using b(4) by (intro u32_of_nat) simp
  have dl: "unat (of_nat (length d) :: u16) = length d" using d by (intro u16_of_nat) simp
  have n: "unat (4 + of_nat (length d) :: u16) = 4 + length d" using d u16_of_nat [of "4 + length d"] by simp
  have full: "(of_nat ?k :: u32) + ucast (4 + of_nat (length d) :: u16) > MAX_PAYLOAD_SIZE \<longleftrightarrow> \<not> ie_fits ies d"
  proof -
    have "unat ((of_nat ?k :: u32) + ucast (4 + of_nat (length d) :: u16)) = ?k + (4 + length d)"
      using b(4) d k n by (subst u32_add_nat) (simp_all add: unat_ucast_up)
    then show ?thesis by (auto simp: u32_less_nat MAX_PAYLOAD_SIZE_def ie_fits_def)
  qed
  show ?thesis
  proof (cases "ie_fits ies d")
    case False
    then have nf: "(of_nat ?k :: u32) + ucast (4 + of_nat (length d) :: u16) > MAX_PAYLOAD_SIZE" using full by blast
    have "add_ie (Some h) t d st = Some (ERROR_MEMORY, Some b, of_nat ?k)"
      unfolding add_ie_def Let_def b(1) option.case prod.case if_P [OF nf] ..
    then show ?thesis using False b by (simp add: ie_append_def ie_built_def)
  next
    case True
    then have nf: "\<not> (of_nat ?k :: u32) + ucast (4 + of_nat (length d) :: u16) > MAX_PAYLOAD_SIZE" using full by blast
    have o: "unat ((of_nat ?k :: u32) + 2) = ?k + 2" "unat ((of_nat ?k :: u32) + 2 + 2) = ?k + 4"
      using b(4) k u32_add_nat [of "of_nat ?k" 2] u32_add_nat [of "of_nat ?k + 2" 2] by simp_all
    have z: "(0 :: u16) < of_nat (length d) \<longleftrightarrow> 0 < length d" using dl by (simp add: word_less_nat_alt)
    have e: "(of_nat ?k :: u32) + 2 + 2 + ucast (of_nat (length d) :: u16) = of_nat (?k + 4 + length d)"
    proof -
      have "(ucast (of_nat (length d) :: u16) :: u32) = of_nat (length d)" using dl d by (simp add: u32_eq_nat unat_ucast_up u32_of_nat)
      then show ?thesis by simp
    qed
    have e0: "(of_nat ?k :: u32) + 2 + 2 = of_nat (?k + 4 + length d)" if "d = []" using that by simp
    obtain b' where b': "do {
        b \<leftarrow> mem_put b ?k (le16 t);
        b \<leftarrow> mem_put b (?k + 2) (le16 (4 + of_nat (length d)));
        if 0 < length d then do { b \<leftarrow> mem_put b (?k + 4) d; Some b } else Some b } = Some b'" "length b' = 4096"
        "take (?k + 4 + length d) b' = ie_bytes ies @ le16 t @ le16 (4 + of_nat (length d)) @ d"
      using add_ie_buffer [OF b(2,3), of d t "4 + of_nat (length d)"] True unfolding ie_fits_def by auto
    have "add_ie (Some h) t d st = Some (SUCCESS, Some b', of_nat (?k + 4 + length d))"
      unfolding add_ie_def Let_def b(1) option.case prod.case if_not_P [OF nf] k o z e
      using b'(1) e0 by (auto split: bind_splits if_splits)
    moreover have l: "length (ie_bytes (ies @ [(t, d)])) = ?k + 4 + length d"
      "ie_bytes (ies @ [(t, d)]) = ie_bytes ies @ le16 t @ le16 (4 + of_nat (length d)) @ d" by simp_all
    moreover have "ie_built (Some b', of_nat (?k + 4 + length d)) (ies @ [(t, d)])"
      using True b'(2,3) unfolding ie_built_def l(1) fst_conv snd_conv option.case ie_fits_def unfolding l(2) by blast
    ultimately show ?thesis using True by (simp add: ie_append_def)
  qed
qed

text \<open>Appending several elements, each when it still fits.\<close>

definition ie_appends :: "(u16 \<times> bytes) list \<Rightarrow> (u16 \<times> bytes) list \<Rightarrow> (u16 \<times> bytes) list" where
  "ie_appends = foldl (\<lambda>ies (t, d). ie_append ies t d)"

lemma ie_appends_simps [simp]:
  "ie_appends ies [] = ies" "ie_appends ies ((t, d) # rs) = ie_appends (ie_append ies t d) rs"
  "ie_appends ies (rs @ rs') = ie_appends (ie_appends ies rs) rs'"
  by (simp_all add: ie_appends_def)

lemma ie_appends_longer: "length (ie_bytes ies) \<le> length (ie_bytes (ie_appends ies rs))"
proof (induction rs arbitrary: ies)
  case (Cons e rs)
  obtain t d where "e = (t, d)" by (cases e)
  moreover have "length (ie_bytes ies) \<le> length (ie_bytes (ie_append ies t d))" by (simp add: ie_append_def)
  ultimately show ?case using Cons [of "ie_append ies t d"] by simp
qed simp

lemma ie_appends_all:
  assumes "length (ie_bytes (ies @ rs)) \<le> 4096"
  shows "ie_appends ies rs = ies @ rs"
  using assms
proof (induction rs arbitrary: ies)
  case (Cons e rs)
  obtain t d where e: "e = (t, d)" by (cases e)
  have "ie_append ies t d = ies @ [(t, d)]" using Cons.prems e by (simp add: ie_append_def ie_fits_def)
  then show ?case using Cons.IH [of "ies @ [(t, d)]"] Cons.prems e by simp
qed simp

lemma ie_appends_cases:
  assumes "list_all (\<lambda>(t, d). length d \<le> m) rs" and m: "m \<le> 4092"
  shows "ie_appends ies rs = ies @ rs \<or> 4092 - m < length (ie_bytes (ie_appends ies rs))"
  using assms(1)
proof (induction rs arbitrary: ies)
  case (Cons e rs)
  obtain t d where e: "e = (t, d)" by (cases e)
  show ?case
  proof (cases "ie_fits ies d")
    case True
    then show ?thesis using Cons.IH [of "ies @ [(t, d)]"] Cons.prems e by (simp add: ie_append_def)
  next
    case False
    then have "4092 - m < length (ie_bytes ies)" using Cons.prems e m by (auto simp: ie_fits_def)
    then show ?thesis using ie_appends_longer [of ies rs] False e by (simp add: ie_append_def)
  qed
qed simp

lemma ie_built_payload:
  assumes "ie_built (p, n) ies"
  shows "unat n = length (ie_bytes ies)" "length (ie_bytes ies) \<le> 4096"
    "(case map_option Outside p of None \<Rightarrow> [] | Some q \<Rightarrow> take (unat n) (payload_bytes pool q)) = ie_bytes ies"
proof -
  have n: "n = of_nat (length (ie_bytes ies))" "length (ie_bytes ies) \<le> 4096" using assms by (simp_all add: ie_built_def)
  then show u: "unat n = length (ie_bytes ies)" "length (ie_bytes ies) \<le> 4096" by (simp_all add: u32_of_nat)
  show "(case map_option Outside p of None \<Rightarrow> [] | Some q \<Rightarrow> take (unat n) (payload_bytes pool q)) = ie_bytes ies"
    using assms u(1) by (cases p) (simp_all add: ie_built_def payload_bytes_def)
qed

text \<open>A message with a payload that was built, through a buffer of the caller.\<close>

lemma encode_built_sized:
  assumes "ie_built (p, n) ies" and N: "15 \<le> unat N" "unat N \<le> 8192"
  shows "cpri_encode_message pool \<lparr>cm_header = h, cm_payload = map_option Outside p, cm_payload_len = n\<rparr> (replicate (unat N) 0) N
     = Some (if 15 + length (ie_bytes ies) \<le> unat N then (int (15 + length (ie_bytes ies)),
           cpri_frame h (ie_bytes ies) @ replicate (unat N - (15 + length (ie_bytes ies))) 0)
         else (ERROR_INVALID_PARAM, replicate (unat N) 0))"
proof -
  note b = ie_built_payload(1,2) [OF assms(1)] ie_built_payload(3) [OF assms(1), of pool]
  let ?m = "\<lparr>cm_header = h, cm_payload = map_option Outside p, cm_payload_len = n\<rparr> :: cpri_message"
  have p: "cpri_payload pool ?m = ie_bytes ies" using b(3) by (cases p) (simp_all add: cpri_payload_def)
  then have ok: "cpri_msg_ok pool ?m" using b(1) by (simp add: cpri_msg_ok_def)
  show ?thesis
  proof (cases "15 + length (ie_bytes ies) \<le> unat N")
    case True
    then show ?thesis using cpri_encode_frame [OF ok, of N "replicate (unat N) 0"] b(1) p N by simp
  next
    case False
    have "unat (15 + n) = 15 + unat n" using b(1,2) by (subst u32_add_nat) simp_all
    then have "N < 15 + n" using False b(1) by (simp add: u32_less_nat)
    then show ?thesis using False by (simp add: cpri_encode_message_def CPRI_HEADER_LEN_def)
  qed
qed

lemma encode_built:
  assumes "ie_built (p, n) ies"
  shows "cpri_encode_message pool \<lparr>cm_header = h, cm_payload = map_option Outside p, cm_payload_len = n\<rparr> (replicate 2048 0) 2048
     = Some (if length (ie_bytes ies) \<le> 2033 then (int (15 + length (ie_bytes ies)),
           cpri_frame h (ie_bytes ies) @ replicate (2033 - length (ie_bytes ies)) 0)
         else (ERROR_INVALID_PARAM, replicate 2048 0))"
  using encode_built_sized [OF assms, of 2048 pool h] by simp

lemma put_ies_appends:
  assumes "length h = 4096" "ie_built st ies" "list_all (\<lambda>(t, d). length d \<le> 4096) rs"
  shows "\<exists>st'. put_ies (Some h) rs st = Some st' \<and> ie_built st' (ie_appends ies rs)"
  using assms(2,3)
proof (induction rs arbitrary: st ies)
  case (Cons e rs)
  obtain t d where e: "e = (t, d)" by (cases e)
  obtain st' where "add_ie (Some h) t d st = Some (if ie_fits ies d then SUCCESS else ERROR_MEMORY, st')" "ie_built st' (ie_append ies t d)"
    using add_ie_built [OF Cons.prems(1) assms(1), of d t] Cons.prems(2) e by auto
  then show ?case using Cons.IH [of st' "ie_append ies t d"] Cons.prems(2) e by simp
qed simp

lemma put_ies_built:
  assumes "length h = 4096" "ie_built st ies" "length (ie_bytes (ies @ rs)) \<le> 4096"
  shows "\<exists>st'. put_ies (Some h) rs st = Some st' \<and> ie_built st' (ies @ rs)"
proof -
  have "length d \<le> length (ie_bytes rs)" if "(t, d) \<in> set rs" for t d
    using that by (induction rs) auto
  then have "list_all (\<lambda>(t, d). length d \<le> 4096) rs" using assms(3) by (fastforce simp: list_all_iff)
  from put_ies_appends [OF assms(1,2) this] show ?thesis unfolding ie_appends_all [OF assms(3)] .
qed

end
