(* ===== verification/Config.thy ===== *)
theory Config
  imports FirmwarePackage
begin

text \<open>
  The configuration file of config.c: at most 64 lines \<open>key = value\<close>, kept as a list in the order of
  the file and searched from its start, and the global settings that are copied out of it.
\<close>

subsection \<open>State\<close>

datatype log_level = LOG_LEVEL_DEBUG | LOG_LEVEL_INFO | LOG_LEVEL_WARN | LOG_LEVEL_ERROR

record global_config =
  gc_bbu_ip :: string
  gc_bbu_port :: u16
  gc_paau_ip :: string
  gc_reconnect_interval_ms :: u32
  gc_heartbeat_interval_ms :: u32
  gc_log_level :: log_level
  gc_log_max_size :: u64
  gc_log_max_backups :: int
  gc_log_rotate_on_startup :: bool

record config_state =
  cf_items :: "(string \<times> string) list"
  cf_global :: global_config

definition g_config :: global_config where
  "g_config = \<lparr>gc_bbu_ip = ''10.10.10.6'', gc_bbu_port = 30000, gc_paau_ip = ''10.10.10.8'', gc_reconnect_interval_ms = 3000,
     gc_heartbeat_interval_ms = 3000, gc_log_level = LOG_LEVEL_INFO, gc_log_max_size = 0, gc_log_max_backups = 0,
     gc_log_rotate_on_startup = False\<rparr>"

definition MAX_CONFIG_ITEMS :: nat where "MAX_CONFIG_ITEMS = 64"

subsection \<open>Reading\<close>

definition config_get_string :: "(string \<times> string) list \<Rightarrow> string \<Rightarrow> string option \<Rightarrow> string option" where
  "config_get_string items key default_value =
     (case find (\<lambda>e. fst e = key) items of Some e \<Rightarrow> Some (snd e) | None \<Rightarrow> default_value)"

text \<open>\<open>atoi\<close>: white space, a sign, decimal digits; the value is assumed to fit an \<open>int\<close>, as the C
  standard does.\<close>

definition atoi :: "string \<Rightarrow> int" where
  "atoi s =
     (case dropWhile isspace s of
        [] \<Rightarrow> 0
      | c # r \<Rightarrow> if c = CHR ''-'' then - int (digits_value 10 r)
                 else if c = CHR ''+'' then int (digits_value 10 r) else int (digits_value 10 (c # r)))"

definition config_get_int :: "(string \<times> string) list \<Rightarrow> string \<Rightarrow> int \<Rightarrow> int" where
  "config_get_int items key default_value =
     (case config_get_string items key None of Some v \<Rightarrow> atoi v | None \<Rightarrow> default_value)"

text \<open>\<open>strtoul\<close> with base 16 or 10 on a 64-bit \<open>unsigned long\<close>; with base 16 a prefix \<open>0x\<close> before a digit
  is skipped.\<close>

definition strtoul_base :: "nat \<Rightarrow> string \<Rightarrow> u64" where
  "strtoul_base base s =
     (let t = dropWhile isspace s;
          neg = (t \<noteq> [] \<and> hd t = CHR ''-'');
          u = (if t \<noteq> [] \<and> (hd t = CHR ''-'' \<or> hd t = CHR ''+'') then tl t else t);
          u = (case u of
                 z # x # d # r \<Rightarrow>
                   if base = 16 \<and> z = CHR ''0'' \<and> (x = CHR ''x'' \<or> x = CHR ''X'') \<and> digit_val d < 16 then d # r else u
               | _ \<Rightarrow> u);
          v = digits_value base u;
          w = (if v < 2 ^ 64 then of_nat v else - 1)
      in if neg \<and> v < 2 ^ 64 then - w else w)"

definition config_get_uint32 :: "(string \<times> string) list \<Rightarrow> string \<Rightarrow> u32 \<Rightarrow> u32" where
  "config_get_uint32 items key default_value =
     (case config_get_string items key None of
        Some v \<Rightarrow> if take 2 v = ''0x'' \<or> take 2 v = ''0X'' then ucast (strtoul_base 16 v) else ucast (strtoul_base 10 v)
      | None \<Rightarrow> default_value)"

subsection \<open>Loading\<close>

definition blank :: "char \<Rightarrow> bool" where
  "blank c \<longleftrightarrow> c = CHR '' '' \<or> ch c = 9"

definition trailing :: "char \<Rightarrow> bool" where
  "trailing c \<longleftrightarrow> blank c \<or> ch c = 10 \<or> ch c = 13"

text \<open>The first character that is no blank is kept whatever it is.\<close>

definition config_trim :: "string \<Rightarrow> string" where
  "config_trim str =
     (case dropWhile blank str of
        [] \<Rightarrow> []
      | c # r \<Rightarrow> c # rev (dropWhile trailing (rev r)))"

text \<open>\<open>fgets\<close> with a buffer of 256.\<close>

definition config_fgets :: "string \<Rightarrow> string" where
  "config_fgets s = fgets 255 s"

lemma config_fgets_progress: "s \<noteq> [] \<Longrightarrow> config_fgets s \<noteq> []"
  by (simp add: config_fgets_def fgets_progress)

text \<open>One line: nothing for a comment, an empty line and a line without \<open>=\<close>.\<close>

definition config_line :: "string \<Rightarrow> (string \<times> string) option" where
  "config_line line =
     (let l = config_trim (cstr line)
      in if l = [] \<or> hd l = CHR ''#'' then None
         else if CHR ''='' \<notin> set l then None
         else let key = takeWhile (\<lambda>c. c \<noteq> CHR ''='') l;
                  value = drop (length key + 1) l
              in Some (take 63 (config_trim key), take 191 (config_trim value)))"

function load_loop :: "string \<Rightarrow> (string \<times> string) list \<Rightarrow> (string \<times> string) list" where
  "load_loop text items =
     (if text = [] then items
      else if length items < MAX_CONFIG_ITEMS
      then load_loop (drop (length (config_fgets text)) text)
             (case config_line (config_fgets text) of None \<Rightarrow> items | Some kv \<Rightarrow> items @ [kv])
      else items)"
  by auto
termination by (relation "measure (length \<circ> fst)") (auto simp: config_fgets_progress)

declare load_loop.simps [simp del]

definition apply_config :: "(string \<times> string) list \<Rightarrow> global_config \<Rightarrow> global_config" where
  "apply_config items g =
     (let str = (\<lambda>k d. the (config_get_string items k (Some d)));
          level = str ''LOG_LEVEL'' ''INFO''
      in g\<lparr>gc_bbu_ip := take 31 (str ''BBU_IP'' ''10.10.10.6''),
           gc_bbu_port := of_int (config_get_int items ''BBU_PORT'' 30000),
           gc_paau_ip := take 31 (str ''PAAU_IP'' ''10.10.10.8''),
           gc_reconnect_interval_ms := of_int (config_get_int items ''RECONNECT_INTERVAL_MS'' 3000),
           gc_heartbeat_interval_ms := of_int (config_get_int items ''HEARTBEAT_INTERVAL_MS'' 3000),
           gc_log_level := (if level = ''DEBUG'' then LOG_LEVEL_DEBUG else if level = ''INFO'' then LOG_LEVEL_INFO
                            else if level = ''WARN'' then LOG_LEVEL_WARN else if level = ''ERROR'' then LOG_LEVEL_ERROR
                            else gc_log_level g),
           gc_log_max_size := of_int (config_get_int items ''LOG_MAX_SIZE'' 10485760),
           gc_log_max_backups := config_get_int items ''LOG_MAX_BACKUPS'' 5,
           gc_log_rotate_on_startup := (config_get_int items ''LOG_ROTATE_ON_STARTUP'' 1 \<noteq> 0)\<rparr>)"

definition config_load :: "string option \<Rightarrow> config_state \<Rightarrow> int \<times> config_state" where
  "config_load file st =
     (case file of
        None \<Rightarrow> (ERROR_GENERAL, st)
      | Some text \<Rightarrow>
          let items = load_loop text []
          in (SUCCESS, st\<lparr>cf_items := items, cf_global := apply_config items (cf_global st)\<rparr>))"

subsection \<open>A file of settings\<close>

definition config_word :: "nat \<Rightarrow> string \<Rightarrow> bool" where
  "config_word n s \<longleftrightarrow> s \<noteq> [] \<and> length s \<le> n \<and> list_all (\<lambda>c. ch c \<noteq> 0 \<and> \<not> trailing c) s"

definition setting_line :: "string \<times> string \<Rightarrow> string" where
  "setting_line = (\<lambda>(k, v). k @ '' = '' @ v @ [newline])"

definition setting_ok :: "string \<times> string \<Rightarrow> bool" where
  "setting_ok = (\<lambda>(k, v). config_word 63 k \<and> CHR ''='' \<notin> set k \<and> hd k \<noteq> CHR ''#'' \<and> config_word 180 v)"

lemma trailing_newline: "trailing newline" "\<not> blank newline" "trailing c \<or> \<not> blank c" "ch newline = 10"
  by (auto simp: trailing_def blank_def)

lemma config_trim_word:
  assumes "config_word n s" "list_all blank pre" "list_all trailing post"
  shows "config_trim (pre @ s @ post) = s"
proof -
  obtain c r where s: "s = c # r" using assms(1) by (cases s) (auto simp: config_word_def)
  have nb: "\<not> blank c" "list_all (\<lambda>c. \<not> trailing c) r" using assms(1) s by (auto simp: config_word_def trailing_def list_all_iff)
  have d1: "dropWhile blank (pre @ s @ post) = c # r @ post"
    using assms(2) nb(1) s by (induction pre) auto
  have "dropWhile trailing (rev (r @ post)) = dropWhile trailing (rev r)"
    using assms(3) by (induction post rule: rev_induct) auto
  also have "\<dots> = rev r" using nb(2) by (cases "rev r") (auto simp: list_all_iff)
  finally show ?thesis unfolding config_trim_def d1 by (simp add: s)
qed

lemma config_line_setting:
  assumes "setting_ok (k, v)"
  shows "config_line (setting_line (k, v)) = Some (k, v)"
proof -
  have kv: "config_word 63 k" "config_word 180 v" "CHR ''='' \<notin> set k" "hd k \<noteq> CHR ''#''" using assms by (simp_all add: setting_ok_def)
  then have kne: "k \<noteq> []" "v \<noteq> []" by (auto simp: config_word_def)
  have "list_all (\<lambda>c. ch c \<noteq> 0) (setting_line (k, v))"
    using kv(1,2) by (auto simp: setting_line_def config_word_def list_all_iff trailing_newline)
  then have c: "cstr (setting_line (k, v)) = k @ '' = '' @ v @ [newline]"
    by (auto simp: cstr_def setting_line_def list_all_iff takeWhile_eq_all_conv)
  let ?l = "k @ '' = '' @ v"
  have t: "config_trim (k @ '' = '' @ v @ [newline]) = ?l"
  proof -
    obtain a r where k: "k = a # r" using kne(1) by (cases k) auto
    have v: "v = butlast v @ [last v]" "\<not> trailing (last v)"
      using kne(2) kv(2) by (simp_all add: config_word_def list_all_iff)
    have "\<not> blank a" using kv(1) k by (auto simp: config_word_def trailing_def)
    moreover have "dropWhile trailing (rev (r @ '' = '' @ v @ [newline])) = rev (r @ '' = '' @ v)"
      using v(2) by (subst (1 2) v(1)) (simp add: trailing_newline)
    ultimately show ?thesis unfolding config_trim_def by (simp add: k)
  qed
  have key: "takeWhile (\<lambda>c. c \<noteq> CHR ''='') ?l = k @ '' ''"
  proof -
    have "\<forall>c \<in> set k. c \<noteq> CHR ''=''" using kv(3) by blast
    then show ?thesis by (simp add: takeWhile_append)
  qed
  have val: "drop (length (k @ '' '') + 1) ?l = '' '' @ v" by simp
  have tk: "config_trim (k @ '' '') = k" using config_trim_word [OF kv(1), of "[]" "'' ''"] by (simp add: trailing_def blank_def)
  have tv: "config_trim ('' '' @ v) = v" using config_trim_word [OF kv(2), of "'' ''" "[]"] by (simp add: blank_def)
  have len: "length k \<le> 63" "length v \<le> 191" using kv(1,2) by (auto simp: config_word_def)
  have "hd ?l \<noteq> CHR ''#''" using kne(1) kv(4) by (cases k) auto
  then show ?thesis
    unfolding config_line_def c t Let_def key val tk tv using len kne by auto
qed

lemma config_fgets_setting:
  assumes "setting_ok kv"
  shows "config_fgets (setting_line kv @ rest) = setting_line kv"
proof -
  obtain k v where kv: "kv = (k, v)" by (cases kv)
  let ?w = "k @ '' = '' @ v"
  have "newline \<notin> set k" "newline \<notin> set v" "newline \<noteq> CHR '' ''" "newline \<noteq> CHR ''=''"
    using assms kv by (auto simp: setting_ok_def config_word_def list_all_iff trailing_newline)
  then have "newline \<notin> set ?w" by auto
  moreover have "length ?w < 255" using assms kv by (simp add: setting_ok_def config_word_def)
  ultimately show ?thesis using fgets_newline [of ?w 255 rest] kv by (simp add: config_fgets_def setting_line_def)
qed

lemma load_loop_settings:
  assumes "list_all setting_ok kvs" "length items + length kvs \<le> 64"
  shows "load_loop (concat (map setting_line kvs)) items = items @ kvs"
  using assms
proof (induction kvs arbitrary: items)
  case Nil
  then show ?case by (simp add: load_loop.simps)
next
  case (Cons kv kvs)
  obtain k v where kv: "kv = (k, v)" by (cases kv)
  have ok: "setting_ok kv" using Cons.prems(1) by simp
  have g: "config_fgets (concat (map setting_line (kv # kvs))) = setting_line kv"
    using config_fgets_setting [OF ok] by simp
  have ne: "setting_line kv \<noteq> []" by (simp add: kv setting_line_def)
  have "load_loop (concat (map setting_line (kv # kvs))) items = load_loop (concat (map setting_line kvs)) (items @ [kv])"
    using ne g config_line_setting [of k v] ok kv Cons.prems(2) by (subst load_loop.simps) (simp add: MAX_CONFIG_ITEMS_def)
  then show ?case using Cons.IH [of "items @ [kv]"] Cons.prems by simp
qed

lemma config_get_string_map: "config_get_string items k d = (case map_of items k of Some v \<Rightarrow> Some v | None \<Rightarrow> d)"
  by (induction items) (auto simp: config_get_string_def)

subsection \<open>Properties\<close>

text \<open>Settings are found. A file of at most 64 lines \<open>key = value\<close> whose words fit is loaded so that
  every key has the value of its first line and every other key its default.\<close>

theorem config_settings_found:
  assumes "list_all setting_ok kvs" and "length kvs \<le> 64"
  shows "\<exists>st'. config_load (Some (concat (map setting_line kvs))) st = (SUCCESS, st')
     \<and> (\<forall>k d. config_get_string (cf_items st') k d = (case map_of kvs k of Some v \<Rightarrow> Some v | None \<Rightarrow> d))"
  using load_loop_settings [OF assms(1), of "[]"] assms(2) by (simp add: config_load_def config_get_string_map)

theorem config_settings_found_witness:
  "\<exists>st'. config_load (Some (concat (map setting_line [(''BBU_PORT'', ''30001''), (''PAAU_ID'', ''7''), (''PAAU_ID'', ''8'')])))
       \<lparr>cf_items = [], cf_global = g_config\<rparr> = (SUCCESS, st')
     \<and> (\<forall>k d. config_get_string (cf_items st') k d
          = (case map_of [(''BBU_PORT'', ''30001''), (''PAAU_ID'', ''7''), (''PAAU_ID'', ''8'')] k of Some v \<Rightarrow> Some v | None \<Rightarrow> d))"
  by (rule config_settings_found) (simp_all add: setting_ok_def config_word_def trailing_def blank_def)

end
