(* ===== verification/StatusQuery.thy ===== *)
theory StatusQuery
  imports FpgaHandler InfoElements Config
begin

text \<open>
  The status query of status_query.c and its handler in msg_handler.c: the request is a payload of
  query elements, the response one of answers taken from the last status frame of the FPGA, or
  defaults when there is none. The block that holds the response is given back at the end, which
  leaves the payload pool as it is. Whether the calibration result is reported as it is comes from the
  configuration and is read once.
\<close>

subsection \<open>Elements\<close>

abbreviation (input) IE_TYPE_BEAM_STATUS_QUERY :: u16 where "IE_TYPE_BEAM_STATUS_QUERY \<equiv> 303"
abbreviation (input) IE_TYPE_LO_STATUS_QUERY :: u16 where "IE_TYPE_LO_STATUS_QUERY \<equiv> 304"
abbreviation (input) IE_TYPE_CLOCK_STATUS_QUERY :: u16 where "IE_TYPE_CLOCK_STATUS_QUERY \<equiv> 305"
abbreviation (input) IE_TYPE_RUN_STATUS_QUERY :: u16 where "IE_TYPE_RUN_STATUS_QUERY \<equiv> 306"
abbreviation (input) IE_TYPE_CPRI_MODE_QUERY :: u16 where "IE_TYPE_CPRI_MODE_QUERY \<equiv> 307"
abbreviation (input) IE_TYPE_CALIB_RESULT_QUERY :: u16 where "IE_TYPE_CALIB_RESULT_QUERY \<equiv> 308"
abbreviation (input) IE_TYPE_BEAM_STATUS_RESP :: u16 where "IE_TYPE_BEAM_STATUS_RESP \<equiv> 353"
abbreviation (input) IE_TYPE_LO_STATUS_RESP :: u16 where "IE_TYPE_LO_STATUS_RESP \<equiv> 354"
abbreviation (input) IE_TYPE_CLOCK_STATUS_RESP :: u16 where "IE_TYPE_CLOCK_STATUS_RESP \<equiv> 355"
abbreviation (input) IE_TYPE_RUN_STATUS_RESP :: u16 where "IE_TYPE_RUN_STATUS_RESP \<equiv> 356"
abbreviation (input) IE_TYPE_CPRI_MODE_RESP :: u16 where "IE_TYPE_CPRI_MODE_RESP \<equiv> 357"
abbreviation (input) IE_TYPE_CALIB_RESULT_RESP :: u16 where "IE_TYPE_CALIB_RESULT_RESP \<equiv> 358"
abbreviation (input) CALIB_RESULT_SUCCESS :: u8 where "CALIB_RESULT_SUCCESS \<equiv> 0"
abbreviation (input) CALIB_RESULT_FAILURE :: u8 where "CALIB_RESULT_FAILURE \<equiv> 1"
abbreviation (input) CALIB_RESULT_UNAVAILABLE :: u8 where "CALIB_RESULT_UNAVAILABLE \<equiv> 2"

record calib_query_cfg =
  cq_report_real :: int
  cq_loaded :: bool

definition calib_query_cfg_load :: "(string \<times> string) list \<Rightarrow> calib_query_cfg \<Rightarrow> calib_query_cfg" where
  "calib_query_cfg_load items q =
     (if cq_loaded q then q
      else q\<lparr>cq_report_real := config_get_int items ''CALIB_QUERY_REPORT_REAL'' 1, cq_loaded := True\<rparr>)"

text \<open>The state of the loop: the response built so far and the cached setting. What \<open>add_ie\<close> returns
  is not looked at.\<close>

type_synonym status_state = "ie_state \<times> calib_query_cfg"

definition status_put :: "bytes option \<Rightarrow> u16 \<Rightarrow> bytes \<Rightarrow> status_state \<Rightarrow> status_state option" where
  "status_put heap t d st = do { (ret, ie) \<leftarrow> add_ie heap t d (fst st); Some (ie, snd st) }"

definition beam_put :: "bytes option \<Rightarrow> fpga_status_data option \<Rightarrow> u16 \<Rightarrow> bool \<Rightarrow> status_state \<Rightarrow> status_state option" where
  "beam_put heap status beam known st =
     (let beam_status = (case status of
          Some d \<Rightarrow> if known then (if drop_bit (unat beam) (sd_beam_status d) AND 1 \<noteq> 0 then 0 else 1) else 1
        | None \<Rightarrow> (1 :: u32))
      in status_put heap IE_TYPE_BEAM_STATUS_RESP ([0, ucast beam] @ le32 beam_status) st)"

fun beams_loop :: "bytes option \<Rightarrow> fpga_status_data option \<Rightarrow> nat list \<Rightarrow> status_state \<Rightarrow> status_state option" where
  "beams_loop heap status [] st = Some st"
| "beams_loop heap status (i # is) st = beam_put heap status (of_nat i) True st \<bind> beams_loop heap status is"

definition status_query_ie :: "(string \<times> string) list \<Rightarrow> fpga_status_data option \<Rightarrow> bytes option
    \<Rightarrow> bytes \<Rightarrow> u16 \<Rightarrow> u16 \<Rightarrow> u32 \<Rightarrow> status_state \<Rightarrow> status_state option" where
  "status_query_ie items status heap payload ie_type ie_len req_offset st =
     (let ie_data = unat (req_offset + 4);
          ie_data_len = ie_len - 4
      in if ie_type = IE_TYPE_BEAM_STATUS_QUERY
         then do {
           beam_number \<leftarrow> (if ie_data_len \<ge> 2 then read_le16 payload ie_data else Some 0xFFFF);
           if beam_number = 0xFFFF then beams_loop heap status [0..<16] st
           else beam_put heap status beam_number (beam_number < 16) st }
         else if ie_type = IE_TYPE_LO_STATUS_QUERY
         then status_put heap IE_TYPE_LO_STATUS_RESP
                (case status of
                   Some d \<Rightarrow> le32 (fpga_decode_frequency (sd_lo_frequency d) div 100) @ le32 (sd_lo_lock_status d)
                 | None \<Rightarrow> le32 21000 @ le32 0) st
         else if ie_type = IE_TYPE_CLOCK_STATUS_QUERY
         then status_put heap IE_TYPE_CLOCK_STATUS_RESP
                (case status of Some d \<Rightarrow> le32 (sd_clock_sync_status d) | None \<Rightarrow> le32 0) st
         else if ie_type = IE_TYPE_RUN_STATUS_QUERY
         then status_put heap IE_TYPE_RUN_STATUS_RESP
                (case status of Some d \<Rightarrow> le32 (sd_phased_array_work_mode d) | None \<Rightarrow> le32 0) st
         else if ie_type = IE_TYPE_CPRI_MODE_QUERY
         then status_put heap IE_TYPE_CPRI_MODE_RESP
                (case status of Some d \<Rightarrow> le32 (sd_cpri_work_mode d) | None \<Rightarrow> le32 0) st
         else if ie_type = IE_TYPE_CALIB_RESULT_QUERY
         then let q = calib_query_cfg_load items (snd st);
                  calib_resp = (if cq_report_real q = 0 then CALIB_RESULT_SUCCESS
                                else case status of
                                       None \<Rightarrow> CALIB_RESULT_UNAVAILABLE
                                     | Some d \<Rightarrow> if sd_calib_result d = 0 then CALIB_RESULT_SUCCESS else CALIB_RESULT_FAILURE)
              in status_put heap IE_TYPE_CALIB_RESULT_RESP [calib_resp] (fst st, q)
         else Some st)"

subsection \<open>The response\<close>

definition status_query_create_response ::
  "(string \<times> string) list \<Rightarrow> fpga_state_manager \<Rightarrow> bytes option \<Rightarrow> pool \<Rightarrow> cpri_message \<Rightarrow> calib_query_cfg
     \<Rightarrow> (int \<times> cpri_message \<times> calib_query_cfg) option" where
  "status_query_create_response items fpga heap pool request q = do {
     let status = map_option sf_data (snd (fpga_handler_get_status fpga));
     ((payload, offset), q) \<leftarrow> ie_loop (status_query_ie items status heap) (message_bytes pool request) (cm_payload_len request) 0
        ((None, 0), q);
     Some (SUCCESS, \<lparr>cm_header = (cm_header request)\<lparr>ch_msg_id := cpri_msg_code MSG_PAAU_STATUS_QUERY_RSP, ch_msg_length := 0\<rparr>,
        cm_payload = map_option Outside payload, cm_payload_len = offset\<rparr>, q) }"

definition status_query_handle_request :: "cpri_message \<Rightarrow> int" where
  "status_query_handle_request msg = SUCCESS"

definition handle_status_query ::
  "(string \<times> string) list \<Rightarrow> fpga_state_manager \<Rightarrow> bytes option \<Rightarrow> pool \<Rightarrow> cpri_message \<Rightarrow> calib_query_cfg \<times> port
     \<Rightarrow> (int \<times> calib_query_cfg \<times> port) option" where
  "handle_status_query items fpga heap pool msg st =
     (let ret = status_query_handle_request msg
      in if ret \<noteq> SUCCESS then Some (ret, st)
         else do {
           (ret, response, q) \<leftarrow> status_query_create_response items fpga heap pool msg (fst st);
           if ret \<noteq> SUCCESS then Some (ret, q, snd st)
           else do {
             (len, buffer) \<leftarrow> cpri_encode_message pool response (replicate 2048 0) 2048;
             Some (SUCCESS, q, if len > 0 then snd (tcp_client_send (snd st) (take (nat len) buffer)) else snd st) } })"

subsection \<open>The answers\<close>

text \<open>What a query element is answered with, as a list of elements.\<close>

definition beam_reply :: "fpga_status_data option \<Rightarrow> u16 \<Rightarrow> bool \<Rightarrow> u16 \<times> bytes" where
  "beam_reply status beam known = (IE_TYPE_BEAM_STATUS_RESP, [0, ucast beam] @ le32 (case status of
     Some d \<Rightarrow> if known \<and> bit (sd_beam_status d) (unat beam) then 0 else 1 | None \<Rightarrow> 1))"

definition calib_reply :: "bool \<Rightarrow> fpga_status_data option \<Rightarrow> u8" where
  "calib_reply real status = (if \<not> real then CALIB_RESULT_SUCCESS else case status of
     None \<Rightarrow> CALIB_RESULT_UNAVAILABLE | Some d \<Rightarrow> if sd_calib_result d = 0 then CALIB_RESULT_SUCCESS else CALIB_RESULT_FAILURE)"

definition status_reply :: "bool \<Rightarrow> fpga_status_data option \<Rightarrow> u16 \<Rightarrow> bytes \<Rightarrow> (u16 \<times> bytes) list" where
  "status_reply real status t d =
     (let field = (\<lambda>sel. case status of Some s \<Rightarrow> le32 (sel s) | None \<Rightarrow> le32 0)
      in if t = IE_TYPE_BEAM_STATUS_QUERY
         then let beam = (if 2 \<le> length d then of_le16 (d ! 0) (d ! 1) else 0xFFFF)
              in if beam = 0xFFFF then map (\<lambda>i. beam_reply status (of_nat i) True) [0..<16]
                 else [beam_reply status beam (beam < 16)]
         else if t = IE_TYPE_LO_STATUS_QUERY
         then [(IE_TYPE_LO_STATUS_RESP, case status of
                  Some s \<Rightarrow> le32 (fpga_decode_frequency (sd_lo_frequency s) div 100) @ le32 (sd_lo_lock_status s)
                | None \<Rightarrow> le32 21000 @ le32 0)]
         else if t = IE_TYPE_CLOCK_STATUS_QUERY then [(IE_TYPE_CLOCK_STATUS_RESP, field sd_clock_sync_status)]
         else if t = IE_TYPE_RUN_STATUS_QUERY then [(IE_TYPE_RUN_STATUS_RESP, field sd_phased_array_work_mode)]
         else if t = IE_TYPE_CPRI_MODE_QUERY then [(IE_TYPE_CPRI_MODE_RESP, field sd_cpri_work_mode)]
         else if t = IE_TYPE_CALIB_RESULT_QUERY then [(IE_TYPE_CALIB_RESULT_RESP, [calib_reply real status])]
         else [])"

definition status_replies :: "bool \<Rightarrow> fpga_status_data option \<Rightarrow> bytes \<Rightarrow> (u16 \<times> bytes) list" where
  "status_replies real status request = concat (map (\<lambda>(t, d). status_reply real status t d) (parse_ies request))"

text \<open>Whether the setting, read or still to be read, asks for the real result.\<close>

definition report_real :: "(string \<times> string) list \<Rightarrow> calib_query_cfg \<Rightarrow> bool" where
  "report_real items q \<longleftrightarrow> cq_report_real (calib_query_cfg_load items q) \<noteq> 0"

lemma report_real_load [simp]: "report_real items (calib_query_cfg_load items q) = report_real items q"
  by (simp add: report_real_def calib_query_cfg_load_def)

fun status_puts :: "bytes option \<Rightarrow> (u16 \<times> bytes) list \<Rightarrow> status_state \<Rightarrow> status_state option" where
  "status_puts heap [] st = Some st"
| "status_puts heap ((t, d) # rs) st = status_put heap t d st \<bind> status_puts heap rs"

lemma status_puts_end [simp]: "status_puts heap [] = Some"
  by (rule ext) simp

definition status_answer :: "(string \<times> string) list \<Rightarrow> fpga_status_data option \<Rightarrow> bytes option \<Rightarrow> u16 \<Rightarrow> bytes
    \<Rightarrow> status_state \<Rightarrow> status_state option" where
  "status_answer items status heap t d st =
     status_puts heap (status_reply (report_real items (snd st)) status t d)
       (fst st, if t = IE_TYPE_CALIB_RESULT_QUERY then calib_query_cfg_load items (snd st) else snd st)"

lemma beam_put_reply: "beam_put heap status beam known st = (case beam_reply status beam known of (t, d) \<Rightarrow> status_put heap t d st)"
proof -
  have "drop_bit n w AND 1 \<noteq> 0 \<longleftrightarrow> bit w n" for n and w :: u32
    by (simp add: bit_iff_odd_drop_bit and_one_eq odd_iff_mod_2_eq_one)
  then show ?thesis by (simp add: beam_put_def beam_reply_def split: option.split)
qed

lemma beams_loop_puts: "beams_loop heap status is st = status_puts heap (map (\<lambda>i. beam_reply status (of_nat i) True) is) st"
proof (induction "is" arbitrary: st)
  case (Cons i js)
  obtain t d where e: "beam_reply status (of_nat i) True = (t, d)" by (cases "beam_reply status (of_nat i) True")
  have "beams_loop heap status js = status_puts heap (map (\<lambda>i. beam_reply status (of_nat i) True) js)" using Cons by (rule ext)
  then show ?case by (simp add: beam_put_reply e)
qed simp

interpretation status: ie_visitor "status_query_ie items status heap" "status_answer items status heap" for items status heap
proof
  fix n t :: u16 and i :: u32 and buf :: bytes and st :: status_state
  assume n: "4 \<le> unat n" "unat i + unat n \<le> length buf" "length buf < 2 ^ 31"
  let ?d = "take (unat n - 4) (drop (unat i + 4) buf)"
  have i4: "unat (i + 4) = unat i + 4" using n by (subst u32_add_nat) simp_all
  have l: "n - 4 \<ge> 2 \<longleftrightarrow> 2 \<le> length ?d"
  proof -
    have "unat (n - 4) = unat n - 4" using n(1) by (subst unat_sub) (simp_all add: word_le_nat_alt)
    then show ?thesis using n by (simp add: word_le_nat_alt)
  qed
  have r: "read_le16 buf (unat i + 4) = Some (of_le16 (?d ! 0) (?d ! 1))" if "2 \<le> length ?d"
  proof -
    have "unat i + 4 + 2 \<le> length buf" "2 \<le> unat n - 4" using that n by auto
    moreover from this have "?d ! 0 = buf ! (unat i + 4)" "?d ! 1 = buf ! (unat i + 4 + 1)" by simp_all
    ultimately show ?thesis using read_le16_at [of "unat i + 4" buf] by (simp only:)
  qed
  define d where "d = ?d"
  define beam where "beam = (if 2 \<le> length d then of_le16 (d ! 0) (d ! 1) else 0xFFFF)"
  have b: "(if 2 \<le> n - 4 then read_le16 buf (unat i + 4) else Some 0xFFFF) = Some beam"
    using l r unfolding d_def beam_def by presburger
  show "status_query_ie items status heap buf t n i st = status_answer items status heap t ?d st"
    unfolding d_def [symmetric] status_query_ie_def status_answer_def status_reply_def Let_def i4 b beam_def [symmetric]
    by (cases st; cases status; cases "beam_reply status beam (beam < 16)")
      (simp_all add: beams_loop_puts beam_put_reply report_real_def calib_reply_def del: upt.simps upt_rec_numeral)
qed

lemma reply_short: "list_all (\<lambda>(t, d). length d \<le> 8) (status_reply real status t d)"
  by (auto simp: status_reply_def Let_def list_all_iff beam_reply_def split: option.splits)

lemma replies_short: "list_all (\<lambda>(t, d). length d \<le> 8) (status_replies real status request)"
proof -
  have "list_all (\<lambda>(t, d). length d \<le> 8) (concat (map (\<lambda>(t, d). status_reply real status t d) xs))" for xs
    by (induction xs) (auto simp: reply_short)
  then show ?thesis unfolding status_replies_def .
qed

lemma status_puts_built:
  assumes "length h = 4096" "list_all (\<lambda>(t, d). length d \<le> 8) rs" "ie_built (fst st) ies"
  shows "\<exists>ie. status_puts (Some h) rs st = Some (ie, snd st) \<and> ie_built ie (ie_appends ies rs)"
  using assms(2,3)
proof (induction rs arbitrary: st ies)
  case Nil
  then show ?case by (cases st) simp
next
  case (Cons e rs)
  obtain t d where e: "e = (t, d)" by (cases e)
  obtain ret ie where a: "add_ie (Some h) t d (fst st) = Some (ret, ie)" "ie_built ie (ie_append ies t d)"
    using add_ie_built [OF Cons.prems(2) assms(1), of d t] Cons.prems(1) e by auto
  then have "status_puts (Some h) (e # rs) st = status_puts (Some h) rs (ie, snd st)" by (simp add: e status_put_def)
  moreover have "\<exists>ie'. status_puts (Some h) rs (ie, snd st) = Some (ie', snd st) \<and> ie_built ie' (ie_appends (ie_append ies t d) rs)"
    using Cons.IH [of "(ie, snd st)"] Cons.prems(1) a(2) by simp
  ultimately show ?case by (simp add: e)
qed

lemma fold_answers:
  assumes h: "length h = 4096" and b: "ie_built (fst st) ies"
  shows "\<exists>ie q. fold_ies (status_answer items status (Some h)) reqs st = Some (ie, q) \<and> report_real items q = report_real items (snd st)
     \<and> ie_built ie (ie_appends ies (concat (map (\<lambda>(t, d). status_reply (report_real items (snd st)) status t d) reqs)))"
  using b
proof (induction reqs arbitrary: st ies)
  case Nil
  then show ?case by (cases st) simp
next
  case (Cons e reqs)
  obtain t d where e: "e = (t, d)" by (cases e)
  let ?r = "report_real items (snd st)"
  let ?q = "if t = IE_TYPE_CALIB_RESULT_QUERY then calib_query_cfg_load items (snd st) else snd st"
  obtain ie where p: "status_puts (Some h) (status_reply ?r status t d) (fst st, ?q) = Some (ie, ?q)"
      "ie_built ie (ie_appends ies (status_reply ?r status t d))"
    using status_puts_built [OF h reply_short, of "(fst st, ?q)" ies ?r status t d] Cons.prems by auto
  have q: "report_real items ?q = ?r" by simp
  have s: "fold_ies (status_answer items status (Some h)) (e # reqs) st = fold_ies (status_answer items status (Some h)) reqs (ie, ?q)"
    using p(1) by (simp add: e status_answer_def)
  obtain ie' q' where "fold_ies (status_answer items status (Some h)) reqs (ie, ?q) = Some (ie', q')" "report_real items q' = ?r"
      "ie_built ie' (ie_appends (ie_appends ies (status_reply ?r status t d)) (concat (map (\<lambda>(t, d). status_reply ?r status t d) reqs)))"
    using Cons.IH [of "(ie, ?q)"] p(2) q by (simp only: fst_conv snd_conv) blast
  then show ?case unfolding s by (simp add: e)
qed

lemma create_response_built:
  assumes h: "length h = 4096" and n: "unat (cm_payload_len request) \<le> length (message_bytes pool request)"
    "length (message_bytes pool request) < 2 ^ 31"
  shows "\<exists>payload offset q'. status_query_create_response items fpga (Some h) pool request q
      = Some (SUCCESS, \<lparr>cm_header = (cm_header request)\<lparr>ch_msg_id := cpri_msg_code MSG_PAAU_STATUS_QUERY_RSP, ch_msg_length := 0\<rparr>,
          cm_payload = map_option Outside payload, cm_payload_len = offset\<rparr>, q')
     \<and> report_real items q' = report_real items q
     \<and> ie_built (payload, offset) (ie_appends [] (status_replies (report_real items q)
          (map_option sf_data (snd (fpga_handler_get_status fpga))) (take (unat (cm_payload_len request)) (message_bytes pool request))))"
proof -
  let ?status = "map_option sf_data (snd (fpga_handler_get_status fpga))"
  let ?bs = "take (unat (cm_payload_len request)) (message_bytes pool request)"
  have l: "ie_loop (status_query_ie items ?status (Some h)) (message_bytes pool request) (cm_payload_len request) 0 ((None, 0), q)
      = fold_ies (status_answer items ?status (Some h)) (parse_ies ?bs) ((None, 0), q)"
    by (rule status.loop_is_fold [OF n])
  obtain ie q' where "fold_ies (status_answer items ?status (Some h)) (parse_ies ?bs) ((None, 0), q) = Some (ie, q')"
      "report_real items q' = report_real items q" "ie_built ie (ie_appends [] (status_replies (report_real items q) ?status ?bs))"
    using fold_answers [OF h, of "((None, 0), q)" "[]" items ?status "parse_ies ?bs"] unfolding status_replies_def by auto
  moreover obtain payload offset where "ie = (payload, offset)" by (cases ie)
  ultimately show ?thesis unfolding status_query_create_response_def Let_def l
    by (intro exI [of _ payload] exI [of _ offset] exI [of _ q']) simp
qed

subsection \<open>Properties\<close>

text \<open>C20. The status query answers what was asked. For any request payload, the loop over its elements
  equals the reference: the elements of the payload are answered one after the other from the last
  status frame, and the answer that goes out carries the identifiers and the serial number of the
  request and exactly these answers. An answer of more than 2033 bytes is not sent at all; the
  handler reports SUCCESS in both cases.\<close>

theorem status_query_answered:
  assumes "length h = 4096" and "unat (cm_payload_len msg) \<le> length (message_bytes pool msg)" and "length (message_bytes pool msg) < 2 ^ 31"
  shows "\<exists>q'. handle_status_query items fpga (Some h) pool msg (q, tcp) = Some (SUCCESS, q',
     let answer = ie_bytes (status_replies (report_real items q) (map_option sf_data (snd (fpga_handler_get_status fpga)))
                    (take (unat (cm_payload_len msg)) (message_bytes pool msg)))
     in if length answer \<le> 2033
        then snd (tcp_client_send tcp (cpri_frame
               ((cm_header msg)\<lparr>ch_msg_id := cpri_msg_code MSG_PAAU_STATUS_QUERY_RSP, ch_msg_length := 0\<rparr>) answer))
        else tcp)"
proof -
  let ?R = "status_replies (report_real items q) (map_option sf_data (snd (fpga_handler_get_status fpga)))
                    (take (unat (cm_payload_len msg)) (message_bytes pool msg))"
  let ?h = "(cm_header msg)\<lparr>ch_msg_id := cpri_msg_code MSG_PAAU_STATUS_QUERY_RSP, ch_msg_length := 0\<rparr>"
  obtain p n q' where c: "status_query_create_response items fpga (Some h) pool msg q
      = Some (SUCCESS, \<lparr>cm_header = ?h, cm_payload = map_option Outside p, cm_payload_len = n\<rparr>, q')" "ie_built (p, n) (ie_appends [] ?R)"
    using create_response_built [OF assms] by blast
  have short: "list_all (\<lambda>(t, d). length d \<le> 8) ?R" by (rule replies_short)
  have e: "length (ie_bytes (ie_appends [] ?R)) \<le> 2033 \<longleftrightarrow> length (ie_bytes ?R) \<le> 2033"
      "length (ie_bytes ?R) \<le> 2033 \<Longrightarrow> ie_appends [] ?R = ?R"
    using ie_appends_cases [OF short, of "[]"] ie_appends_all [of "[]" ?R] by auto
  have l: "length (cpri_frame ?h x) = 15 + length x" for x by (rule cpri_frame_length)
  show ?thesis
    unfolding handle_status_query_def status_query_handle_request_def Let_def
    using c(1) encode_built [OF c(2), of pool ?h] e l by (auto simp: Let_def)
qed

definition query_example :: cpri_message where
  "query_example = \<lparr>cm_header = \<lparr>ch_msg_id = 0, ch_msg_length = 0, ch_paau_id = 1, ch_bbu_id = 2, ch_port_num = 3,
       ch_serial_num = 0x01020304\<rparr>, cm_payload = Some (Outside [0x31, 1, 4, 0, 0x34, 1, 4, 0, 7]), cm_payload_len = 9\<rparr>"

theorem status_query_answered_witness:
  "\<exists>q'. handle_status_query [] \<lparr>fs_current_status = status_frame_zero, fs_status_valid = False, fs_last_update_time = 0\<rparr>
        (Some (replicate 4096 7)) [] query_example (\<lparr>cq_report_real = 1, cq_loaded = False\<rparr>, \<lparr>po_open = True, po_script = [Wrote 28], po_out = []\<rparr>)
      = Some (SUCCESS, q', snd (tcp_client_send \<lparr>po_open = True, po_script = [Wrote 28], po_out = []\<rparr> (cpri_frame
          ((cm_header query_example)\<lparr>ch_msg_id := cpri_msg_code MSG_PAAU_STATUS_QUERY_RSP, ch_msg_length := 0\<rparr>)
          [0x63, 1, 8, 0, 0, 0, 0, 0, 0x66, 1, 5, 0, 2])))"
proof -
  let ?fpga = "\<lparr>fs_current_status = status_frame_zero, fs_status_valid = False, fs_last_update_time = 0\<rparr>"
  have m: "message_bytes [] query_example = [0x31, 1, 4, 0, 0x34, 1, 4, 0, 7]" "cm_payload_len query_example = 9"
    by (simp_all add: message_bytes_def query_example_def payload_bytes_def)
  have "parse_ies (take (unat (9 :: u32)) [0x31, 1, 4, 0, 0x34, 1, 4, 0, 7]) = [(IE_TYPE_CLOCK_STATUS_QUERY, []), (IE_TYPE_CALIB_RESULT_QUERY, [])]"
    by (simp add: parse_ies.simps of_le16_def Let_def)
  then have "ie_bytes (status_replies (report_real [] \<lparr>cq_report_real = 1, cq_loaded = False\<rparr>) None
      (take (unat (9 :: u32)) [0x31, 1, 4, 0, 0x34, 1, 4, 0, 7])) = [0x63, 1, 8, 0, 0, 0, 0, 0, 0x66, 1, 5, 0, 2]"
    by (simp add: status_replies_def status_reply_def Let_def calib_reply_def report_real_def calib_query_cfg_load_def
        config_get_int_def config_get_string_def le16_def le32_def)
  then show ?thesis
    using status_query_answered [of "replicate 4096 7" query_example "[]" "[]" ?fpga "\<lparr>cq_report_real = 1, cq_loaded = False\<rparr>"
        "\<lparr>po_open = True, po_script = [Wrote 28], po_out = []\<rparr>"]
    unfolding m by (simp add: fpga_handler_get_status_def)
qed

end
