(* ===== verification/MsgHandler.thy ===== *)
theory MsgHandler
  imports CpriProtocol Config
begin

text \<open>
  The dispatcher of msg_handler.c: which messages from the baseband unit are accepted, by their
  number and by the identifier of the antenna they are for, and which handler each goes to. The
  handlers are what the function pointers of the table stand for; how a handler runs is an argument
  of the dispatch, which looks at nothing but what it returns.
\<close>

subsection \<open>Transparent messages\<close>

abbreviation (input) MSG_TRANSPARENT_PAAU_TO_BBU_BASE :: u32 where "MSG_TRANSPARENT_PAAU_TO_BBU_BASE \<equiv> 221"
abbreviation (input) MSG_TRANSPARENT_PAAU_TO_BBU_10 :: u32 where "MSG_TRANSPARENT_PAAU_TO_BBU_10 \<equiv> 230"
abbreviation (input) MSG_TRANSPARENT_BBU_TO_PAAU_BASE :: u32 where "MSG_TRANSPARENT_BBU_TO_PAAU_BASE \<equiv> 231"
abbreviation (input) MSG_TRANSPARENT_BBU_TO_PAAU_10 :: u32 where "MSG_TRANSPARENT_BBU_TO_PAAU_10 \<equiv> 240"

definition is_transparent_message :: "u32 \<Rightarrow> bool" where
  "is_transparent_message msg_id \<longleftrightarrow>
     msg_id \<ge> MSG_TRANSPARENT_PAAU_TO_BBU_BASE \<and> msg_id \<le> MSG_TRANSPARENT_PAAU_TO_BBU_10 \<or>
     msg_id \<ge> MSG_TRANSPARENT_BBU_TO_PAAU_BASE \<and> msg_id \<le> MSG_TRANSPARENT_BBU_TO_PAAU_10"

definition is_bbu_to_paau_transparent :: "u32 \<Rightarrow> bool" where
  "is_bbu_to_paau_transparent msg_id \<longleftrightarrow>
     msg_id \<ge> MSG_TRANSPARENT_BBU_TO_PAAU_BASE \<and> msg_id \<le> MSG_TRANSPARENT_BBU_TO_PAAU_10"

subsection \<open>The check of the identifier\<close>

abbreviation (input) PAAU_ID_CHECK_OFF :: int where "PAAU_ID_CHECK_OFF \<equiv> 0"
abbreviation (input) PAAU_ID_CHECK_WARN :: int where "PAAU_ID_CHECK_WARN \<equiv> 1"
abbreviation (input) PAAU_ID_CHECK_ENFORCE :: int where "PAAU_ID_CHECK_ENFORCE \<equiv> 2"

record paau_id_cfg =
  pi_local :: int
  pi_broadcast :: int
  pi_check_mode :: int
  pi_cfg_loaded :: bool
  pi_mismatch_count :: u32

definition paau_id_start :: paau_id_cfg where
  "paau_id_start = \<lparr>pi_local = 0, pi_broadcast = 255, pi_check_mode = PAAU_ID_CHECK_WARN, pi_cfg_loaded = False, pi_mismatch_count = 0\<rparr>"

definition paau_id_cfg_load :: "(string \<times> string) list \<Rightarrow> paau_id_cfg \<Rightarrow> paau_id_cfg" where
  "paau_id_cfg_load items g =
     (if pi_cfg_loaded g then g
      else let mode = config_get_int items ''PAAU_ID_CHECK'' PAAU_ID_CHECK_WARN
           in g\<lparr>pi_local := config_get_int items ''PAAU_ID'' 0,
                pi_broadcast := config_get_int items ''PAAU_ID_BROADCAST'' 255,
                pi_check_mode := (if mode < PAAU_ID_CHECK_OFF \<or> mode > PAAU_ID_CHECK_ENFORCE then PAAU_ID_CHECK_WARN else mode),
                pi_cfg_loaded := True\<rparr>)"

definition paau_id_accept :: "(string \<times> string) list \<Rightarrow> u8 \<Rightarrow> paau_id_cfg \<Rightarrow> bool \<times> paau_id_cfg" where
  "paau_id_accept items inbound_id g =
     (let g = paau_id_cfg_load items g
      in if pi_check_mode g = PAAU_ID_CHECK_OFF then (True, g)
         else if pi_broadcast g \<ge> 0 \<and> pi_broadcast g \<le> 255 \<and> inbound_id = of_int (pi_broadcast g) then (True, g)
         else if inbound_id = of_int (pi_local g) then (True, g)
         else (pi_check_mode g \<noteq> PAAU_ID_CHECK_ENFORCE, g\<lparr>pi_mismatch_count := pi_mismatch_count g + 1\<rparr>))"

subsection \<open>The table\<close>

datatype msg_handler_func =
    Channel_setup_req | Heartbeat | Phased_array_calib_req | Status_query | Param_query | Param_config
    | Alarm_query_req | Cell_config | Log_upload_req | Version_download_req | Version_activate_ind
    | Loopback_req | Reset_ind | Remote_reset_ind | Transparent_msg

definition g_msg_handlers :: "(u32 \<times> msg_handler_func) list" where
  "g_msg_handlers = map (\<lambda>(m, f). (cpri_msg_code m, f))
    [(MSG_CHANNEL_SETUP_CFG, Channel_setup_req), (MSG_BBU_HEARTBEAT, Heartbeat),
     (MSG_PHASED_ARRAY_CALIB_IND, Phased_array_calib_req), (MSG_PAAU_STATUS_QUERY, Status_query),
     (MSG_PAAU_PARAM_QUERY, Param_query), (MSG_PAAU_PARAM_CONFIG, Param_config),
     (MSG_ALARM_QUERY_REQ, Alarm_query_req), (MSG_NR_CELL_CONFIG, Cell_config),
     (MSG_LOG_UPLOAD_REQ, Log_upload_req), (MSG_VERSION_DOWNLOAD_REQ, Version_download_req),
     (MSG_PAAU_VERSION_ACTIVATE_IND, Version_activate_ind), (MSG_LOOPBACK_REQ, Loopback_req),
     (MSG_RESET_IND, Reset_ind), (MSG_REMOTE_PAAU_RESET_IND, Remote_reset_ind)]"

definition msg_id_is_accepted :: "u32 \<Rightarrow> bool" where
  "msg_id_is_accepted msg_id \<longleftrightarrow> is_bbu_to_paau_transparent msg_id \<or> list_ex (\<lambda>(i, f). i = msg_id) g_msg_handlers"

type_synonym 's run_handler = "msg_handler_func \<Rightarrow> pool \<Rightarrow> cpri_message \<Rightarrow> 's \<Rightarrow> (int \<times> 's) option"

definition msg_handler_dispatch ::
  "'s run_handler \<Rightarrow> (string \<times> string) list \<Rightarrow> pool \<Rightarrow> cpri_message \<Rightarrow> paau_id_cfg \<times> 's \<Rightarrow> (int \<times> paau_id_cfg \<times> 's) option" where
  "msg_handler_dispatch run items pool msg st =
     (let msg_id = ch_msg_id (cm_header msg)
      in if \<not> msg_id_is_accepted msg_id then Some (ERROR_INVALID_PARAM, st)
         else case paau_id_accept items (ch_paau_id (cm_header msg)) (fst st) of
                (False, g) \<Rightarrow> Some (ERROR_INVALID_PARAM, g, snd st)
              | (True, g) \<Rightarrow>
                  if is_transparent_message msg_id
                  then do { (ret, s) \<leftarrow> run Transparent_msg pool msg (snd st); Some (ret, g, s) }
                  else case find (\<lambda>(i, f). i = msg_id) g_msg_handlers of
                         Some (i, f) \<Rightarrow> do { (ret, s) \<leftarrow> run f pool msg (snd st); Some (ret, g, s) }
                       | None \<Rightarrow> Some (ERROR_GENERAL, g, snd st))"

subsection \<open>What is admitted\<close>

text \<open>The handler of a message number, and the identifiers that the settings of the configuration
  file let through.\<close>

definition message_handler :: "u32 \<Rightarrow> msg_handler_func option" where
  "message_handler i = (if 231 \<le> i \<and> i \<le> 240 then Some Transparent_msg else map_of g_msg_handlers i)"

definition id_check_mode :: "(string \<times> string) list \<Rightarrow> int" where
  "id_check_mode items = (let m = config_get_int items ''PAAU_ID_CHECK'' 1 in if m \<in> {0, 1, 2} then m else 1)"

definition id_admitted :: "(string \<times> string) list \<Rightarrow> u8 \<Rightarrow> bool" where
  "id_admitted items i \<longleftrightarrow> id_check_mode items \<noteq> 2 \<or> i = of_int (config_get_int items ''PAAU_ID'' 0)
     \<or> int (unat i) = config_get_int items ''PAAU_ID_BROADCAST'' 255"

definition admitted :: "(string \<times> string) list \<Rightarrow> cpri_message \<Rightarrow> bool" where
  "admitted items m \<longleftrightarrow> message_handler (ch_msg_id (cm_header m)) \<noteq> None \<and> id_admitted items (ch_paau_id (cm_header m))"

text \<open>Several messages one after the other, through the dispatch and straight to their handlers. As
  in the receive loop, what the dispatch returns is not looked at.\<close>

fun dispatch_all :: "'s run_handler \<Rightarrow> (string \<times> string) list \<Rightarrow> pool \<Rightarrow> cpri_message list \<Rightarrow> paau_id_cfg \<times> 's \<Rightarrow> (paau_id_cfg \<times> 's) option" where
  "dispatch_all run items pool [] st = Some st"
| "dispatch_all run items pool (m # ms) st = do { (ret, st) \<leftarrow> msg_handler_dispatch run items pool m st; dispatch_all run items pool ms st }"

fun handle_all :: "'s run_handler \<Rightarrow> pool \<Rightarrow> cpri_message list \<Rightarrow> 's \<Rightarrow> 's option" where
  "handle_all run pool [] s = Some s"
| "handle_all run pool (m # ms) s = do {
     f \<leftarrow> message_handler (ch_msg_id (cm_header m));
     (ret, s) \<leftarrow> run f pool m s;
     handle_all run pool ms s }"

text \<open>The settings are those of the file from the first message on.\<close>

definition id_cfg_ok :: "(string \<times> string) list \<Rightarrow> paau_id_cfg \<Rightarrow> bool" where
  "id_cfg_ok items g \<longleftrightarrow> (pi_cfg_loaded g \<longrightarrow> pi_check_mode g = id_check_mode items
     \<and> pi_local g = config_get_int items ''PAAU_ID'' 0 \<and> pi_broadcast g = config_get_int items ''PAAU_ID_BROADCAST'' 255)"

lemma id_cfg_load:
  assumes "id_cfg_ok items g"
  shows "pi_check_mode (paau_id_cfg_load items g) = id_check_mode items"
    "pi_local (paau_id_cfg_load items g) = config_get_int items ''PAAU_ID'' 0"
    "pi_broadcast (paau_id_cfg_load items g) = config_get_int items ''PAAU_ID_BROADCAST'' 255"
    "pi_cfg_loaded (paau_id_cfg_load items g)"
  using assms by (auto simp: paau_id_cfg_load_def id_cfg_ok_def id_check_mode_def Let_def)

lemma u8_is_int: "0 \<le> b \<and> b \<le> 255 \<and> (i :: u8) = of_int b \<longleftrightarrow> int (unat i) = b"
proof
  assume a: "0 \<le> b \<and> b \<le> 255 \<and> i = of_int b"
  then have "unat (of_nat (nat b) :: u8) = nat b" by (intro u8_of_nat) (use a in \<open>simp add: nat_less_iff\<close>)
  then show "int (unat i) = b" using a by simp
next
  assume a: "int (unat i) = b"
  moreover have "int (unat i) \<le> 255" using u8_bound [of i] by linarith
  ultimately show "0 \<le> b \<and> b \<le> 255 \<and> i = of_int b" by auto
qed

lemma accept_admitted:
  assumes "id_cfg_ok items g"
  shows "\<exists>g'. paau_id_accept items i g = (id_admitted items i, g') \<and> id_cfg_ok items g'"
proof -
  note l = id_cfg_load [OF assms]
  let ?g = "paau_id_cfg_load items g"
  have "id_cfg_ok items ?g" "id_cfg_ok items (?g\<lparr>pi_mismatch_count := pi_mismatch_count ?g + 1\<rparr>)" using l by (simp_all add: id_cfg_ok_def)
  moreover have "fst (paau_id_accept items i g) = id_admitted items i"
    unfolding paau_id_accept_def Let_def l using u8_is_int [of "config_get_int items ''PAAU_ID_BROADCAST'' 255" i]
    by (auto simp: id_admitted_def)
  moreover have "snd (paau_id_accept items i g) \<in> {?g, ?g\<lparr>pi_mismatch_count := pi_mismatch_count ?g + 1\<rparr>}"
    by (simp add: paau_id_accept_def Let_def)
  ultimately show ?thesis by (cases "paau_id_accept items i g") auto
qed

lemma accepted_handler: "msg_id_is_accepted i \<longleftrightarrow> message_handler i \<noteq> None"
proof -
  have "list_ex (\<lambda>(k, f). k = i) xs \<longleftrightarrow> map_of xs i \<noteq> None" for xs :: "(u32 \<times> msg_handler_func) list"
    by (induction xs) auto
  then show ?thesis by (simp add: msg_id_is_accepted_def message_handler_def is_bbu_to_paau_transparent_def) blast
qed

lemma find_map_of: "find (\<lambda>(i, f). i = k) xs = map_option (\<lambda>f. (k, f)) (map_of xs k)"
  by (induction xs) auto

text \<open>No row of the table has a transparent number, so that the numbers of the other direction find
  nothing.\<close>

lemma transparent_not_in_table: "is_transparent_message i \<Longrightarrow> map_of g_msg_handlers i = None"
proof (rule ccontr)
  assume i: "is_transparent_message i" and "map_of g_msg_handlers i \<noteq> None"
  then have "i \<in> fst ` set g_msg_handlers" by (simp add: map_of_eq_None_iff)
  then have "i \<in> {2, 181, 71, 41, 51, 61, 121, 195, 131, 21, 31, 81, 141, 151}" by (auto simp: g_msg_handlers_def)
  then show False using i by (auto simp: is_transparent_message_def)
qed

lemma dispatch_one:
  assumes ok: "id_cfg_ok items g"
  shows "\<exists>g' r. id_cfg_ok items g' \<and> msg_handler_dispatch run items pool m (g, s)
     = (if admitted items m
        then do { (ret, s) \<leftarrow> run (the (message_handler (ch_msg_id (cm_header m)))) pool m s; Some (ret, g', s) }
        else Some (r, g', s))"
proof -
  let ?i = "ch_msg_id (cm_header m)" and ?p = "ch_paau_id (cm_header m)"
  obtain g' where a: "paau_id_accept items ?p g = (id_admitted items ?p, g')" "id_cfg_ok items g'"
    using accept_admitted [OF ok] by blast
  have h: "message_handler ?i = (if is_transparent_message ?i then Some Transparent_msg else map_of g_msg_handlers ?i)" if "message_handler ?i \<noteq> None"
    using that transparent_not_in_table [of ?i] by (auto simp: message_handler_def is_transparent_message_def split: if_splits)
  show ?thesis
  proof (cases "message_handler ?i = None")
    case True
    then have "msg_handler_dispatch run items pool m (g, s) = Some (ERROR_INVALID_PARAM, g, s)"
      by (simp add: msg_handler_dispatch_def accepted_handler Let_def)
    then show ?thesis using True ok by (auto simp: admitted_def)
  next
    case False
    then show ?thesis using a h
      by (intro exI [of _ g'] exI [of _ ERROR_INVALID_PARAM])
        (auto simp: msg_handler_dispatch_def accepted_handler Let_def admitted_def find_map_of split: bool.split)
  qed
qed

subsection \<open>Properties\<close>

text \<open>C31. Only admitted messages reach a handler. Over any sequence of messages, whatever the handlers do,
  dispatching has the effect of running the handlers of the admitted messages in their order and of
  nothing else: those whose number has a handler and, when the configuration asks for the check to be
  enforced, whose identifier is that of this antenna or the broadcast one.\<close>

theorem dispatch_filters:
  "map_option snd (dispatch_all run items pool ms (paau_id_start, s)) = handle_all run pool (filter (admitted items) ms) s"
proof -
  have "map_option snd (dispatch_all run items pool ms (g, s)) = handle_all run pool (filter (admitted items) ms) s" if "id_cfg_ok items g" for g
    using that
  proof (induction ms arbitrary: g s)
    case (Cons m ms)
    obtain g' r where d: "id_cfg_ok items g'" "msg_handler_dispatch run items pool m (g, s)
        = (if admitted items m
           then do { (ret, s) \<leftarrow> run (the (message_handler (ch_msg_id (cm_header m)))) pool m s; Some (ret, g', s) }
           else Some (r, g', s))"
      using dispatch_one [OF Cons.prems, of run pool m s] by blast
    show ?case
    proof (cases "admitted items m")
      case True
      then obtain f where "message_handler (ch_msg_id (cm_header m)) = Some f" by (auto simp: admitted_def)
      then show ?thesis using True d Cons.IH [OF d(1)] by (cases "run f pool m s") (auto simp: split_beta)
    next
      case False
      then show ?thesis using d(2) Cons.IH [OF d(1)] by simp
    qed
  qed simp
  then show ?thesis by (simp add: id_cfg_ok_def paau_id_start_def)
qed

end
