(* ===== verification/BbuStream.thy ===== *)
theory BbuStream
  imports MsgHandler
begin

text \<open>
  The receive side of the connection to the baseband unit, from main.c: the bytes of the TCP stream
  are gathered in a buffer of 8192 bytes and cut into CPRI messages by the length in their header;
  each message is decoded and dispatched. What the handlers, the transmit gate and the version trial
  do is an argument.
\<close>

subsection \<open>The callback\<close>

text \<open>What main.c calls on the way: \<open>cell_config_notify_bbu_link(true, \<dots>)\<close>,
  \<open>version_trial_on_channel_established\<close> and the handlers.\<close>

record 's stream_calls =
  sc_bbu_link_up :: "'s \<Rightarrow> 's option"
  sc_trial_established :: "'s \<Rightarrow> 's option"
  sc_run :: "'s run_handler"

text \<open>The state besides the buffer: whether the channel is established, the payload pool, the settings
  of the dispatcher and the rest.\<close>

type_synonym 's stream_state = "bool \<times> pool \<times> paau_id_cfg \<times> 's"

definition uninit_message :: cpri_message where
  "uninit_message = \<lparr>cm_header = \<lparr>ch_msg_id = 0, ch_msg_length = 0, ch_paau_id = 0, ch_bbu_id = 0, ch_port_num = 0, ch_serial_num = 0\<rparr>,
     cm_payload = None, cm_payload_len = 0\<rparr>"

definition process_message ::
  "'s stream_calls \<Rightarrow> (string \<times> string) list \<Rightarrow> bytes \<Rightarrow> u32 \<Rightarrow> 's stream_state \<Rightarrow> 's stream_state option" where
  "process_message k items buffer msg_length st =
     (case st of (established, pool, g, s) \<Rightarrow> do {
        (ret, pool, msg) \<leftarrow> cpri_decode_message pool buffer msg_length uninit_message;
        if ret = SUCCESS
        then do {
          (established, s) \<leftarrow>
            (if ch_msg_id (cm_header msg) = cpri_msg_code MSG_CHANNEL_SETUP_CFG
             then do { s \<leftarrow> sc_bbu_link_up k s; s \<leftarrow> sc_trial_established k s; Some (True, s) }
             else Some (established, s));
          (ret, g, s) \<leftarrow> msg_handler_dispatch (sc_run k) items pool msg (g, s);
          Some (established, fst (cpri_free_message pool msg), g, s) }
        else Some (established, pool, g, s) })"

definition RECV_BUFFER_SIZE :: u32 where "RECV_BUFFER_SIZE = 8192"

partial_function (option) bbu_recv_loop ::
  "'s stream_calls \<Rightarrow> (string \<times> string) list \<Rightarrow> bytes \<Rightarrow> u32 \<Rightarrow> 's stream_state \<Rightarrow> (bytes \<times> u32 \<times> 's stream_state) option" where
  "bbu_recv_loop k items g_recv_buffer g_recv_offset st =
     (if g_recv_offset \<ge> CPRI_HEADER_LEN
      then do {
        msg_length \<leftarrow> read_le32 g_recv_buffer 4;
        if msg_length < CPRI_HEADER_LEN \<or> msg_length > RECV_BUFFER_SIZE then Some (g_recv_buffer, 0, st)
        else if g_recv_offset < msg_length then Some (g_recv_buffer, g_recv_offset, st)
        else do {
          st \<leftarrow> process_message k items g_recv_buffer msg_length st;
          let g_recv_offset = g_recv_offset - msg_length;
          g_recv_buffer \<leftarrow> (if g_recv_offset > 0 then mem_copy g_recv_buffer 0 g_recv_buffer (unat msg_length) (unat g_recv_offset)
                             else Some g_recv_buffer);
          bbu_recv_loop k items g_recv_buffer g_recv_offset st } }
      else Some (g_recv_buffer, g_recv_offset, st))"

definition on_tcp_data_received ::
  "'s stream_calls \<Rightarrow> (string \<times> string) list \<Rightarrow> bytes \<Rightarrow> bytes \<times> u32 \<times> 's stream_state \<Rightarrow> (bytes \<times> u32 \<times> 's stream_state) option" where
  "on_tcp_data_received k items data r =
     (case r of (g_recv_buffer, g_recv_offset, st) \<Rightarrow>
        let len = of_nat (length data) :: u32
        in if g_recv_offset + len > RECV_BUFFER_SIZE then Some (g_recv_buffer, 0, st)
           else do {
             g_recv_buffer \<leftarrow> mem_copy g_recv_buffer (unat g_recv_offset) data 0 (length data);
             bbu_recv_loop k items g_recv_buffer (g_recv_offset + len) st })"

subsection \<open>Streams\<close>

text \<open>The data of several reads, and messages handled one by one.\<close>

fun receive_all :: "'s stream_calls \<Rightarrow> (string \<times> string) list \<Rightarrow> bytes list \<Rightarrow> bytes \<times> u32 \<times> 's stream_state \<Rightarrow> (bytes \<times> u32 \<times> 's stream_state) option" where
  "receive_all k items [] r = Some r"
| "receive_all k items (c # cs) r = on_tcp_data_received k items c r \<bind> receive_all k items cs"

fun process_all :: "'s stream_calls \<Rightarrow> (string \<times> string) list \<Rightarrow> bytes list \<Rightarrow> 's stream_state \<Rightarrow> 's stream_state option" where
  "process_all k items [] st = Some st"
| "process_all k items (f # fs) st = process_message k items f (of_nat (length f)) st \<bind> process_all k items fs"

definition stream_frame :: "bytes \<Rightarrow> bool" where
  "stream_frame f \<longleftrightarrow> 15 \<le> length f \<and> length f \<le> 8192 \<and> read_le32 f 4 = Some (of_nat (length f))"

lemma cpri_stream_frame: "15 + length d \<le> 8192 \<Longrightarrow> stream_frame (cpri_frame h d)"
  using cpri_frame_fields(2) [of h d "[]"] by (simp add: stream_frame_def cpri_frame_length)

lemma read_le32_prefix: "i + 4 \<le> length a \<Longrightarrow> read_le32 (a @ b) i = read_le32 a i"
  by (simp add: read_le32_def arr_get_def nth_append)

lemma decode_prefix:
  assumes "length f = unat n"
  shows "cpri_decode_message pool (f @ rest) n m = cpri_decode_message pool f n m"
proof (cases "n < CPRI_HEADER_LEN")
  case True
  then show ?thesis by (simp add: cpri_decode_message_def)
next
  case False
  then have l: "15 \<le> length f" using assms by (simp add: u32_less_nat CPRI_HEADER_LEN_def)
  then have n: "unat (n - CPRI_HEADER_LEN) = length f - 15" using assms by (subst u32_sub_nat) (simp_all add: CPRI_HEADER_LEN_def)
  have g: "arr_get (f @ rest) i = arr_get f i" if "i < 15" for i using that l by (simp add: arr_get_def nth_append)
  have r: "mem_read (f @ rest) 15 (length f - 15) = mem_read f 15 (length f - 15)" using l by (simp add: mem_read_def)
  show ?thesis unfolding cpri_decode_message_def Let_def n r using l by (simp add: g read_le32_prefix)
qed

lemma process_prefix:
  assumes "length f = unat n"
  shows "process_message k items (f @ rest) n st = process_message k items f n st"
  unfolding process_message_def decode_prefix [OF assms] ..

subsection \<open>The reference\<close>

text \<open>What the bytes in the buffer stand for: the whole messages at their front and the start of the next one; an impossible length gives up all that is left.\<close>

function bbu_cut :: "bytes \<Rightarrow> bytes list \<times> bytes" where
  "bbu_cut b =
     (if length b < 15 then ([], b)
      else case read_le32 b 4 of
        None \<Rightarrow> ([], b)
      | Some n \<Rightarrow>
          if unat n < 15 \<or> unat n > 8192 then ([], [])
          else if length b < unat n then ([], b)
          else case bbu_cut (drop (unat n) b) of (fs, r) \<Rightarrow> (take (unat n) b # fs, r))"
  by auto
termination by (relation "measure length") auto

declare bbu_cut.simps [simp del]

text \<open>Reads one after another, behind the start of a message that is already there: a read that does not fit is given up together with it.\<close>

fun bbu_reads :: "bytes \<Rightarrow> bytes list \<Rightarrow> bytes list \<times> bytes" where
  "bbu_reads r [] = ([], r)"
| "bbu_reads r (c # cs) =
     (if length r + length c > 8192 then bbu_reads [] cs
      else case bbu_cut (r @ c) of (fs, r) \<Rightarrow> (case bbu_reads r cs of (gs, r) \<Rightarrow> (fs @ gs, r)))"

fun reads_fit :: "bytes \<Rightarrow> bytes list \<Rightarrow> bool" where
  "reads_fit r [] \<longleftrightarrow> True"
| "reads_fit r (c # cs) \<longleftrightarrow> length r + length c \<le> 8192 \<and> reads_fit (snd (bbu_cut (r @ c))) cs"

lemma read_le32_some: "15 \<le> length b \<Longrightarrow> \<exists>n. read_le32 b 4 = Some n"
  by (simp add: read_le32_def arr_get_def)

lemma bbu_cut_rest: "length (snd (bbu_cut b)) \<le> length b"
  by (induction b rule: bbu_cut.induct) (subst bbu_cut.simps, fastforce split: option.splits prod.splits)

lemma process_all_append: "process_all k items (gs @ fs) st = process_all k items gs st \<bind> process_all k items fs"
  by (induction gs arbitrary: st) (auto split: bind_splits)

lemma take_front:
  assumes "take (length a + length b) xs = a @ b" "length a + length b \<le> length xs"
  shows "xs = a @ drop (length a) xs" "take (length b) (drop (length a) xs) = b"
proof -
  have "take (length a) xs = a \<and> take (length b) (drop (length a) xs) = b"
    using assms by (simp add: take_add)
  then show "xs = a @ drop (length a) xs" "take (length b) (drop (length a) xs) = b"
    using append_take_drop_id [of "length a" xs] by simp_all
qed

text \<open>The loop handles what the reference cuts from the front of the buffer and keeps the rest.\<close>

lemma bbu_loop_cut:
  assumes "length buf = 8192" "length b \<le> 8192" "take (length b) buf = b"
  shows "\<exists>buf'. length buf' = 8192 \<and> take (length (snd (bbu_cut b))) buf' = snd (bbu_cut b) \<and>
     (\<forall>k items (st :: 's stream_state). bbu_recv_loop k items buf (of_nat (length b)) st
        = map_option (\<lambda>st. (buf', of_nat (length (snd (bbu_cut b))), st)) (process_all k items (fst (bbu_cut b)) st))"
  using assms
proof (induction b arbitrary: buf rule: bbu_cut.induct)
  case (1 b)
  note ih = "1.IH"
  have u: "unat (of_nat (length b) :: u32) = length b" using 1(3) by (intro u32_of_nat) simp
  show ?case
  proof (cases "length b < 15")
    case True
    then have "\<not> of_nat (length b) \<ge> CPRI_HEADER_LEN" using u by (simp add: u32_le_nat CPRI_HEADER_LEN_def)
    then show ?thesis using 1(2,4) True by (intro exI [of _ buf]) (simp add: bbu_cut.simps [of b] bbu_recv_loop.simps)
  next
    case False
    then obtain n where n: "read_le32 b 4 = Some n" using read_le32_some [of b] by auto
    have rd: "read_le32 buf 4 = Some n"
      using read_le32_prefix [of 4 b "drop (length b) buf"] False n 1(4) append_take_drop_id [of "length b" buf] by simp
    have h: "of_nat (length b) \<ge> CPRI_HEADER_LEN" using False u by (simp add: u32_le_nat CPRI_HEADER_LEN_def)
    have bad: "n < CPRI_HEADER_LEN \<or> n > RECV_BUFFER_SIZE \<longleftrightarrow> unat n < 15 \<or> unat n > 8192"
      by (simp add: u32_less_nat CPRI_HEADER_LEN_def RECV_BUFFER_SIZE_def)
    have short: "of_nat (length b) < n \<longleftrightarrow> length b < unat n" using u by (simp add: u32_less_nat)
    consider "unat n < 15 \<or> unat n > 8192" | "\<not> (unat n < 15 \<or> unat n > 8192)" "length b < unat n"
      | "\<not> (unat n < 15 \<or> unat n > 8192)" "\<not> length b < unat n" by blast
    then show ?thesis
    proof cases
      case 1
      then show ?thesis using \<open>length buf = 8192\<close> False n
        by (intro exI [of _ buf]) (subst bbu_recv_loop.simps, simp add: bbu_cut.simps [of b] h rd bad)
    next
      case 2
      have "bbu_recv_loop k items buf (of_nat (length b)) st = Some (buf, of_nat (length b), st)" for k items and st :: "'s stream_state"
        using 2 by (subst bbu_recv_loop.simps) (simp only: h rd bad short if_True if_False bind.simps)
      then show ?thesis using 2 \<open>length buf = 8192\<close> \<open>take (length b) buf = b\<close> False n by (intro exI [of _ buf]) (simp add: bbu_cut.simps [of b])
    next
      case 3
      define f rest where "f = take (unat n) b" and "rest = drop (unat n) b"
      have fr: "b = f @ rest" "length f = unat n" using 3 by (simp_all add: f_def rest_def)
      have b: "buf = f @ drop (length f) buf" "take (length rest) (drop (length f) buf) = rest"
        using take_front [of f rest buf] \<open>take (length b) buf = b\<close> \<open>length b \<le> 8192\<close> \<open>length buf = 8192\<close> fr by simp_all
      define buf1 where "buf1 = (if rest = [] then buf else rest @ drop (length rest) buf)"
      have l: "length rest \<le> 8192" "length f + length rest \<le> 8192" using \<open>length b \<le> 8192\<close> fr by auto
      have b1: "length buf1 = 8192" "take (length rest) buf1 = rest" using \<open>length buf = 8192\<close> l by (auto simp: buf1_def)
      have t: "of_nat (length b) - n = (of_nat (length rest) :: u32)" unfolding fr(1) by (simp add: fr(2))
      have z2: "unat (of_nat (length rest) :: u32) = length rest" using l by (intro u32_of_nat) simp
      have z1: "(of_nat (length rest) :: u32) > 0 \<longleftrightarrow> rest \<noteq> []" unfolding u32_less_nat z2 by simp
      have mv: "(if (of_nat (length rest) :: u32) > 0 then mem_copy buf 0 buf (unat n) (unat (of_nat (length rest) :: u32)) else Some buf) = Some buf1"
        unfolding z1 z2 fr(2) [symmetric] using b l \<open>length buf = 8192\<close> by (simp add: buf1_def)
      have n': "n = of_nat (length f)" by (simp add: fr(2))
      have step: "bbu_recv_loop k items buf (of_nat (length b)) st = process_message k items f n st \<bind> bbu_recv_loop k items buf1 (of_nat (length rest))"
        for k items and st :: "'s stream_state"
      proof -
        have "process_message k items buf n st = process_message k items f n st" by (subst b(1)) (rule process_prefix [OF fr(2)])
        then show ?thesis using 3 by (subst bbu_recv_loop.simps) (simp only: h rd bad short if_True if_False bind.simps Let_def t mv)
      qed
      have cut: "bbu_cut b = (f # fst (bbu_cut rest), snd (bbu_cut rest))" using 3 False n by (simp add: bbu_cut.simps [of b] f_def rest_def split_beta)
      obtain buf' where "length buf' = 8192" "take (length (snd (bbu_cut rest))) buf' = snd (bbu_cut rest)"
          "\<forall>k items (st :: 's stream_state). bbu_recv_loop k items buf1 (of_nat (length rest)) st
            = map_option (\<lambda>st. (buf', of_nat (length (snd (bbu_cut rest))), st)) (process_all k items (fst (bbu_cut rest)) st)"
        using ih [OF False n 3, of buf1] b1 l(1) unfolding rest_def by blast
      then show ?thesis unfolding step cut fst_conv snd_conv
        by (intro exI [of _ buf']) (auto simp: n' map_option_bind comp_def split: bind_splits)
    qed
  qed
qed

text \<open>A part of a stream of messages is some whole messages and the start of the next.\<close>

definition starts :: "bytes \<Rightarrow> bytes list \<Rightarrow> bool" where
  "starts r fs \<longleftrightarrow> (case fs of [] \<Rightarrow> r = [] | f # fs' \<Rightarrow> length r < length f \<and> r = take (length r) f)"

lemma cut_stream:
  assumes "n \<le> length (concat fs)"
  shows "\<exists>gs fs' r. fs = gs @ fs' \<and> take n (concat fs) = concat gs @ r \<and> starts r fs'"
  using assms
proof (induction fs arbitrary: n)
  case (Cons f fs)
  show ?case
  proof (cases "n < length f")
    case True
    then show ?thesis by (intro exI [of _ "[]"] exI [of _ "f # fs"] exI [of _ "take n f"]) (simp add: starts_def)
  next
    case False
    have "n - length f \<le> length (concat fs)" using Cons.prems by simp
    then obtain gs fs' r where g: "fs = gs @ fs'" "take (n - length f) (concat fs) = concat gs @ r" "starts r fs'"
      using Cons.IH by blast
    have "take n (concat (f # fs)) = concat (f # gs) @ r" using False g(2) by simp
    then show ?thesis using g(1,3) by (intro exI [of _ "f # gs"] exI [of _ fs'] exI [of _ r]) simp
  qed
qed (simp add: starts_def)

lemma receive_chunk:
  assumes "length buf = 8192" "length r + length c \<le> 8192" "take (length r) buf = r"
  shows "\<exists>buf'. length buf' = 8192 \<and> take (length r + length c) buf' = r @ c \<and>
     (\<forall>k items st. on_tcp_data_received k items c (buf, of_nat (length r), st)
        = bbu_recv_loop k items buf' (of_nat (length r + length c)) (st :: 's stream_state))"
proof -
  have u: "unat (of_nat (length r) :: u32) = length r" "unat (of_nat (length r) + of_nat (length c) :: u32) = length r + length c"
    using assms(2) u32_of_nat [of "length r + length c"] by (simp_all add: u32_of_nat)
  have "mem_copy buf (length r) c 0 (length c) = Some (r @ c @ drop (length r + length c) buf)"
    using assms by (subst mem_copy_Some) simp_all
  moreover have "\<not> of_nat (length r) + of_nat (length c) > RECV_BUFFER_SIZE"
    unfolding u32_less_nat u using assms(2) by (simp add: RECV_BUFFER_SIZE_def)
  ultimately show ?thesis using assms
    by (intro exI [of _ "r @ c @ drop (length r + length c) buf"]) (simp add: on_tcp_data_received_def u(1) Let_def)
qed

text \<open>Reads that follow the reference.\<close>

lemma receive_reads:
  assumes "list_all (\<lambda>c. length c \<le> 8192) cs" "length buf = 8192" "length r \<le> 8192" "take (length r) buf = r"
  shows "\<exists>buf'. length buf' = 8192 \<and> take (length (snd (bbu_reads r cs))) buf' = snd (bbu_reads r cs)
     \<and> (\<forall>k items (st :: 's stream_state). receive_all k items cs (buf, of_nat (length r), st)
         = map_option (\<lambda>st. (buf', of_nat (length (snd (bbu_reads r cs))), st)) (process_all k items (fst (bbu_reads r cs)) st))"
  using assms
proof (induction cs arbitrary: r buf)
  case Nil
  then show ?case by (intro exI [of _ buf]) simp
next
  case (Cons c cs)
  show ?case
  proof (cases "length r + length c > 8192")
    case True
    have "unat (of_nat (length r) + of_nat (length c) :: u32) = length r + length c"
      using Cons.prems(1,3) u32_of_nat [of "length r + length c"] by simp
    then have "on_tcp_data_received k items c (buf, of_nat (length r), st) = Some (buf, 0, st)" for k items and st :: "'s stream_state"
      using True by (simp add: on_tcp_data_received_def u32_less_nat RECV_BUFFER_SIZE_def Let_def)
    then show ?thesis using Cons.IH [of buf "[]"] Cons.prems(1,2) True by simp
  next
    case False
    obtain fs r1 where c: "bbu_cut (r @ c) = (fs, r1)" by (cases "bbu_cut (r @ c)")
    obtain buf1 where b1: "length buf1 = 8192" "take (length (r @ c)) buf1 = r @ c"
        "\<And>k items st. on_tcp_data_received k items c (buf, of_nat (length r), st)
          = bbu_recv_loop k items buf1 (of_nat (length (r @ c))) (st :: 's stream_state)"
      using receive_chunk [where 's = 's, OF Cons.prems(2) _ Cons.prems(4), of c] False by auto
    obtain buf2 where b2: "length buf2 = 8192" "take (length r1) buf2 = r1"
        "\<And>k items st. bbu_recv_loop k items buf1 (of_nat (length (r @ c))) (st :: 's stream_state)
          = map_option (\<lambda>st. (buf2, of_nat (length r1), st)) (process_all k items fs st)"
      using bbu_loop_cut [where 's = 's, OF b1(1) _ b1(2)] False unfolding c by auto
    have l: "length r1 \<le> 8192" using bbu_cut_rest [of "r @ c"] False c by simp
    obtain gs r2 where g: "bbu_reads r1 cs = (gs, r2)" by (cases "bbu_reads r1 cs")
    obtain buf3 where b3: "length buf3 = 8192" "take (length r2) buf3 = r2" "\<And>k items st. receive_all k items cs (buf2, of_nat (length r1), st :: 's stream_state)
       = map_option (\<lambda>st. (buf3, of_nat (length r2), st)) (process_all k items gs st)"
      using Cons.IH [OF _ b2(1) l b2(2)] Cons.prems(1) unfolding g by auto
    have "receive_all k items (c # cs) (buf, of_nat (length r), st) = map_option (\<lambda>st. (buf3, of_nat (length r2), st)) (process_all k items (fs @ gs) st)"
      for k items and st :: "'s stream_state"
      unfolding receive_all.simps b1(3) b2(3) process_all_append by (cases "process_all k items fs st") (simp_all add: b3(3))
    moreover have "bbu_reads r (c # cs) = (fs @ gs, r2)" using False c g by simp
    ultimately show ?thesis using b3(1,2) by (intro exI [of _ buf3]) simp
  qed
qed

text \<open>A stream of messages is cut back into them.\<close>

lemma cut_start:
  assumes "list_all stream_frame fs" "starts r fs"
  shows "bbu_cut r = ([], r)"
proof (cases "length r < 15")
  case True
  then show ?thesis by (simp add: bbu_cut.simps)
next
  case False
  then obtain f fs' where f: "fs = f # fs'" "length r < length f" "r = take (length r) f" using assms(2) by (auto simp: starts_def split: list.splits)
  have n: "read_le32 f 4 = Some (of_nat (length f))" "length f \<le> 8192" "15 \<le> length f" using assms(1) f(1) by (simp_all add: stream_frame_def)
  have "read_le32 r 4 = read_le32 f 4" using read_le32_prefix [of 4 r "drop (length r) f"] False f(3) append_take_drop_id [of "length r" f] by simp
  then show ?thesis using False f(2) n u32_of_nat [of "length f"] by (simp add: bbu_cut.simps)
qed

lemma cut_frames:
  assumes "list_all stream_frame gs" "list_all stream_frame fs" "starts r fs"
  shows "bbu_cut (concat gs @ r) = (gs, r)"
  using assms(1)
proof (induction gs)
  case Nil
  then show ?case using cut_start [OF assms(2,3)] by simp
next
  case (Cons f gs)
  have f: "15 \<le> length f" "length f \<le> 8192" "read_le32 f 4 = Some (of_nat (length f))" using Cons.prems by (simp_all add: stream_frame_def)
  have "read_le32 (f @ concat gs @ r) 4 = Some (of_nat (length f))" using read_le32_prefix [of 4 f] f by simp
  moreover have "unat (of_nat (length f) :: u32) = length f" using f(2) by (intro u32_of_nat) simp
  ultimately show ?case using Cons.IH Cons.prems f by (subst bbu_cut.simps) simp
qed

lemma reads_of_stream:
  assumes "reads_fit r cs" "r @ concat cs = concat fs" "list_all stream_frame fs" "starts r fs"
  shows "bbu_reads r cs = (fs, [])"
  using assms
proof (induction cs arbitrary: r fs)
  case Nil
  then show ?case by (auto simp: starts_def split: list.splits)
next
  case (Cons c cs)
  have "length r + length c \<le> length (concat fs)" using arg_cong [OF Cons.prems(2), of length] by simp
  moreover have "take (length r + length c) (concat fs) = r @ c" using Cons.prems(2) [symmetric] by simp
  ultimately obtain gs fs' r' where g: "fs = gs @ fs'" "r @ c = concat gs @ r'" "starts r' fs'"
    using cut_stream [of "length r + length c" fs] by auto
  have gl: "list_all stream_frame gs" "list_all stream_frame fs'" using Cons.prems(3) g(1) by simp_all
  have c: "bbu_cut (r @ c) = (gs, r')" unfolding g(2) by (rule cut_frames [OF gl g(3)])
  have "(concat gs @ r') @ concat cs = concat gs @ concat fs'" using Cons.prems(2) unfolding g(2) [symmetric] g(1) by simp
  then have "bbu_reads r' cs = (fs', [])" using Cons.IH [of r' fs'] Cons.prems(1) gl(2) g(3) c by simp
  then show ?case using Cons.prems(1) c g(1) by simp
qed

text \<open>Reads are sure to fit when the longest read and the longest message but one byte fit together.\<close>

lemma short_reads_fit:
  assumes "list_all (\<lambda>f. stream_frame f \<and> length f \<le> F) fs" "list_all (\<lambda>c. length c \<le> C) cs" "F + C \<le> 8193" "0 < F"
    "r @ concat cs = concat fs" "starts r fs"
  shows "reads_fit r cs"
  using assms
proof (induction cs arbitrary: r fs)
  case (Cons c cs)
  have "length r + length c \<le> length (concat fs)" using arg_cong [OF Cons.prems(5), of length] by simp
  moreover have "take (length r + length c) (concat fs) = r @ c" using Cons.prems(5) [symmetric] by simp
  ultimately obtain gs fs' r' where g: "fs = gs @ fs'" "r @ c = concat gs @ r'" "starts r' fs'"
    using cut_stream [of "length r + length c" fs] by auto
  have gl: "list_all stream_frame gs" "list_all stream_frame fs'" using Cons.prems(1) g(1) by (auto simp: list_all_iff)
  have "length r < F" using Cons.prems(1,4,6) by (auto simp: starts_def split: list.splits)
  moreover have "(concat gs @ r') @ concat cs = concat gs @ concat fs'" using Cons.prems(5) unfolding g(2) [symmetric] g(1) by simp
  moreover have "bbu_cut (r @ c) = (gs, r')" unfolding g(2) by (rule cut_frames [OF gl g(3)])
  ultimately show ?case using Cons.IH [of fs' r'] Cons.prems(1-4) g(1,3) by auto
qed simp

subsection \<open>Properties\<close>

text \<open>C2. The bytes of the TCP stream, in reads of any length up to the 8192 bytes that \<open>tcp_recv_thread\<close> asks for and with any content. The callback meets no fault of its own, whatever the
  handlers do: it handles exactly the messages that the reference cuts from the reads, in order and each as if it had come alone, and keeps exactly the rest. When the bytes are a stream of messages and every
  read fits into the buffer behind the start of the message before it, then these are all the messages, each once, and nothing is kept. A read that does not fit is given up, with the
  start of the message and with every message in it; it is sure to fit when the longest message and the longest read have at most 8193 bytes together (\<open>short_reads_fit\<close>).\<close>

theorem bbu_messages_in_pieces:
  fixes st :: "'s stream_state"
  assumes "list_all (\<lambda>c. length c \<le> 8192) cs" and "length buf = 8192"
  shows "(\<exists>buf'. length buf' = 8192 \<and> take (length (snd (bbu_reads [] cs))) buf' = snd (bbu_reads [] cs)
      \<and> receive_all k items cs (buf, 0, st)
        = map_option (\<lambda>st. (buf', of_nat (length (snd (bbu_reads [] cs))), st)) (process_all k items (fst (bbu_reads [] cs)) st))
    \<and> (concat cs = concat fs \<and> list_all stream_frame fs \<and> reads_fit [] cs \<longrightarrow> bbu_reads [] cs = (fs, []))"
proof (intro conjI impI)
  show "\<exists>buf'. length buf' = 8192 \<and> take (length (snd (bbu_reads [] cs))) buf' = snd (bbu_reads [] cs)
      \<and> receive_all k items cs (buf, 0, st)
        = map_option (\<lambda>st. (buf', of_nat (length (snd (bbu_reads [] cs))), st)) (process_all k items (fst (bbu_reads [] cs)) st)"
    using receive_reads [where 's = 's, OF assms, of "[]"] by (simp del: split_paired_All) metis
  assume f: "concat cs = concat fs \<and> list_all stream_frame fs \<and> reads_fit [] cs"
  then have "starts [] fs" by (auto simp: starts_def stream_frame_def split: list.splits)
  then show "bbu_reads [] cs = (fs, [])" using f by (intro reads_of_stream) simp_all
qed

definition count_calls :: "nat stream_calls" where
  "count_calls = \<lparr>sc_bbu_link_up = Some, sc_trial_established = Some, sc_run = (\<lambda>f pool m s. Some (SUCCESS, s + 1))\<rparr>"

theorem bbu_messages_in_pieces_witness:
  "\<exists>buf'. length buf' = 8192 \<and> receive_all count_calls [] [take 4 (cpri_frame (cm_header cpri_example) [1]), drop 4 (cpri_frame (cm_header cpri_example) [1])]
      (replicate 8192 0, 0, False, [], paau_id_start, 0)
    = map_option (\<lambda>st. (buf', 0, st)) (process_all count_calls [] [cpri_frame (cm_header cpri_example) [1]] (False, [], paau_id_start, 0))"
proof -
  let ?f = "cpri_frame (cm_header cpri_example) [1]"
  let ?cs = "[take 4 ?f, drop 4 ?f]"
  have f: "stream_frame ?f" "length ?f = 16" by (simp_all add: cpri_stream_frame cpri_frame_length)
  have "reads_fit [] ?cs" using f by (intro short_reads_fit [of 16 "[?f]" 16]) (simp_all add: starts_def)
  then show ?thesis
    using bbu_messages_in_pieces [of ?cs "replicate 8192 0" count_calls "[]" "(False, [], paau_id_start, 0)" "[?f]"] f by auto
qed

text \<open>A channel configuration for another antenna. With the identifier check enforced the dispatcher
  drops the message and no handler runs; the receive callback has by then marked the channel as
  established, opened the gate for transmission and confirmed the version on trial.\<close>

theorem foreign_setup_establishes:
  assumes "ch_msg_id h = cpri_msg_code MSG_CHANNEL_SETUP_CFG" and "\<not> id_admitted items (ch_paau_id h)" and "id_cfg_ok items g"
    and "pool_inv 16 8192 pool" and "pool_used pool = {}" and "15 + length d \<le> 8192"
  shows "\<exists>pool' g'. process_message k items (cpri_frame h d) (of_nat (15 + length d)) (False, pool, g, s)
      = map_option (\<lambda>s. (True, pool', g', s)) (sc_bbu_link_up k s \<bind> sc_trial_established k)"
proof -
  have "pool_used pool \<noteq> {..<16}" using assms(5) lessThan_empty_iff [of "16 :: nat"] by simp
  then obtain pool1 m where d: "cpri_decode_message pool (cpri_frame h d) (of_nat (15 + length d)) uninit_message = Some (SUCCESS, pool1, m)"
      "cm_header m = cpri_wire_header h (length d)"
    using cpri_decode_frame [OF assms(4), of d h "[]" uninit_message] assms(6) unfolding append_Nil2 by auto
  have m: "\<not> admitted items m" "ch_msg_id (cm_header m) = cpri_msg_code MSG_CHANNEL_SETUP_CFG"
    using assms(1,2) d(2) by (simp_all add: admitted_def cpri_wire_header_def)
  have "\<exists>g' r. \<forall>s. msg_handler_dispatch (sc_run k) items pool1 m (g, s) = Some (r, g', s)"
  proof -
    obtain g' where "paau_id_accept items (ch_paau_id (cm_header m)) g = (False, g')"
      using accept_admitted [OF assms(3), of "ch_paau_id (cm_header m)"] assms(2) d(2) by (auto simp: cpri_wire_header_def)
    then show ?thesis by (auto simp: msg_handler_dispatch_def Let_def)
  qed
  then obtain g' r where g: "\<And>s. msg_handler_dispatch (sc_run k) items pool1 m (g, s) = Some (r, g', s)" by blast
  show ?thesis
    unfolding process_message_def prod.case d(1) using m(2)
    by (intro exI [of _ "fst (cpri_free_message pool1 m)"] exI [of _ g']) (auto simp: g split: bind_splits)
qed

theorem foreign_setup_establishes_witness:
  "\<exists>pool' g'. process_message count_calls [(''PAAU_ID_CHECK'', ''2'')] (cpri_frame ((cm_header cpri_example)\<lparr>ch_msg_id := 2\<rparr>) [1]) (of_nat (15 + length [1 :: u8]))
        (False, g_cpri_payload_pool, paau_id_start, 5)
      = map_option (\<lambda>s. (True, pool', g', s)) (sc_bbu_link_up count_calls 5 \<bind> sc_trial_established count_calls)"
proof (rule foreign_setup_establishes)
  have c: "config_get_int [(''PAAU_ID_CHECK'', ''2'')] ''PAAU_ID_CHECK'' 1 = 2" "config_get_int [(''PAAU_ID_CHECK'', ''2'')] ''PAAU_ID'' 0 = 0"
      "config_get_int [(''PAAU_ID_CHECK'', ''2'')] ''PAAU_ID_BROADCAST'' 255 = 255"
    by code_simp+
  show "\<not> id_admitted [(''PAAU_ID_CHECK'', ''2'')] (ch_paau_id ((cm_header cpri_example)\<lparr>ch_msg_id := 2\<rparr>))"
    by (simp add: id_admitted_def id_check_mode_def c Let_def cpri_example_def)
qed (simp_all add: cpri_example_def id_cfg_ok_def paau_id_start_def cpri_pool_initial)

end
