(* ===== verification/CellConfig.thy ===== *)
theory CellConfig
  imports FpgaHandler
begin

text \<open>
  The transmit control of cell_config.c and the table of cells it depends on: the transmitter may be
  on only while a frequency is in effect at the antenna and the baseband unit can be reached. The
  worker thread applies configurations; the receive thread and the main loop report changes of the
  link. Both use the two flags behind a mutex that they do not hold while a command goes to the FPGA.
\<close>

subsection \<open>The table of cells\<close>

record cell_info =
  ci_active :: bool
  ci_local_cell_id :: u32
  ci_cell_power :: u16
  ci_cell_type :: u8
  ci_freq_count :: u8

record freq_info =
  fi_active :: bool
  fi_sent_to_antenna :: bool
  fi_local_cell_id :: u32
  fi_beam_id :: u8
  fi_dl_center_freq :: u32
  fi_ul_center_freq :: u32
  fi_beam_bandwidth :: u32
  fi_ul_dl_config :: u32
  fi_special_subframe :: u8

text \<open>\<open>MAX_CELLS\<close> cells and for each \<open>MAX_FREQS_PER_CELL\<close> frequencies.\<close>

record cell_config_manager =
  cm_cells :: "cell_info list"
  cm_freqs :: "freq_info list list"

definition has_any_freq :: "cell_config_manager \<Rightarrow> bool" where
  "has_any_freq g \<longleftrightarrow> list_ex (\<lambda>(c, fs). ci_active c \<and> list_ex (\<lambda>f. fi_active f \<and> fi_sent_to_antenna f) fs) (zip (cm_cells g) (cm_freqs g))"

subsection \<open>Transmit control\<close>

record tx_guard =
  tg_bbu_link_ok :: bool
  tg_tx_on :: bool

definition tx_guard_start :: tx_guard where
  "tx_guard_start = \<lparr>tg_bbu_link_ok = False, tg_tx_on = False\<rparr>"

text \<open>The state besides the table: the flags and the serial port of the FPGA.\<close>

type_synonym tx_state = "tx_guard \<times> port"

definition apply_tx_control :: "bool \<Rightarrow> tx_state \<Rightarrow> tx_state option" where
  "apply_tx_control on st = do {
     (ret, uart) \<leftarrow> fpga_send_tx_control (snd st) (if on then 1 else 0);
     Some (if ret \<noteq> SUCCESS then (fst st, uart) else ((fst st)\<lparr>tg_tx_on := on\<rparr>, uart)) }"

definition update_tx_control :: "cell_config_manager \<Rightarrow> tx_state \<Rightarrow> tx_state option" where
  "update_tx_control g st =
     (let link_ok = tg_bbu_link_ok (fst st)
      in if \<not> link_ok then Some st
         else if has_any_freq g then apply_tx_control True st else apply_tx_control False st)"

text \<open>The section of the notification that holds the mutex: what it leaves in \<open>need_off\<close>.\<close>

definition notify_section :: "bool \<Rightarrow> tx_guard \<Rightarrow> bool \<times> tx_guard" where
  "notify_section up g = (if up then (False, g\<lparr>tg_bbu_link_ok := True\<rparr>) else (tg_tx_on g, g\<lparr>tg_bbu_link_ok := False\<rparr>))"

definition cell_config_notify_bbu_link :: "bool \<Rightarrow> tx_state \<Rightarrow> tx_state option" where
  "cell_config_notify_bbu_link up st =
     (let was_ok = tg_bbu_link_ok (fst st); (need_off, g) = notify_section up (fst st)
      in if up then Some (g, snd st)
         else if \<not> was_ok \<and> \<not> need_off then Some (g, snd st)
         else if need_off then apply_tx_control False (g, snd st)
         else Some (g, snd st))"

subsection \<open>Cell configuration\<close>

abbreviation (input) CELL_CFG_ESTABLISH :: u8 where "CELL_CFG_ESTABLISH \<equiv> 0"
abbreviation (input) CELL_CFG_RECONFIG :: u8 where "CELL_CFG_RECONFIG \<equiv> 1"
abbreviation (input) CELL_CFG_DELETE :: u8 where "CELL_CFG_DELETE \<equiv> 2"
abbreviation (input) CELL_RESULT_SUCCESS :: u32 where "CELL_RESULT_SUCCESS \<equiv> 0"
abbreviation (input) CELL_RESULT_FAILURE :: u32 where "CELL_RESULT_FAILURE \<equiv> 1"

record cell_config_ie =
  cc_cell_cfg_flag :: u8
  cc_local_cell_id :: u32
  cc_cell_power :: u16
  cc_reserved :: u8
  cc_freq_count :: u8
  cc_cell_type :: u8

definition cell_config_parse_cell_ie :: "bytes \<Rightarrow> int \<times> cell_config_ie option" where
  "cell_config_parse_cell_ie d =
     (if length d < 10 then (ERROR_INVALID_PARAM, None)
      else (SUCCESS, Some \<lparr>cc_cell_cfg_flag = d ! 0, cc_local_cell_id = of_le32 (d ! 1) (d ! 2) (d ! 3) (d ! 4),
              cc_cell_power = of_le16 (d ! 5) (d ! 6), cc_reserved = d ! 7, cc_freq_count = d ! 8, cc_cell_type = d ! 9\<rparr>))"

text \<open>The two loops over the cells: the cell with an identifier, and a free one.\<close>

definition find_cell :: "(cell_info \<Rightarrow> bool) \<Rightarrow> cell_config_manager \<Rightarrow> nat option" where
  "find_cell p g = find (\<lambda>i. p (cm_cells g ! i)) [0..<length (cm_cells g)]"

definition clear_freqs :: "freq_info list \<Rightarrow> freq_info list" where
  "clear_freqs fs = map (\<lambda>f. f\<lparr>fi_active := False, fi_sent_to_antenna := False\<rparr>) fs"

definition cell_config_apply_cell :: "cell_config_ie \<Rightarrow> cell_config_manager \<times> tx_state \<Rightarrow> (u32 \<times> cell_config_manager \<times> tx_state) option" where
  "cell_config_apply_cell cfg st =
     (case st of (g, tx) \<Rightarrow>
        let cell_idx = find_cell (\<lambda>c. ci_active c \<and> ci_local_cell_id c = cc_local_cell_id cfg) g
        in if cc_cell_cfg_flag cfg = CELL_CFG_ESTABLISH
           then (case cell_idx of
                   Some i \<Rightarrow>
                     Some (if ci_cell_power (cm_cells g ! i) = cc_cell_power cfg \<and> ci_cell_type (cm_cells g ! i) = cc_cell_type cfg
                           then CELL_RESULT_SUCCESS else CELL_RESULT_FAILURE, g, tx)
                 | None \<Rightarrow>
                     (case find_cell (\<lambda>c. \<not> ci_active c) g of
                        Some i \<Rightarrow> Some (CELL_RESULT_SUCCESS,
                          g\<lparr>cm_cells := (cm_cells g)[i := \<lparr>ci_active = True, ci_local_cell_id = cc_local_cell_id cfg,
                               ci_cell_power = cc_cell_power cfg, ci_cell_type = cc_cell_type cfg, ci_freq_count = 0\<rparr>]\<rparr>, tx)
                      | None \<Rightarrow> Some (CELL_RESULT_FAILURE, g, tx)))
           else if cc_cell_cfg_flag cfg = CELL_CFG_RECONFIG
           then (case cell_idx of
                   None \<Rightarrow> Some (CELL_RESULT_FAILURE, g, tx)
                 | Some i \<Rightarrow> Some (CELL_RESULT_SUCCESS,
                     g\<lparr>cm_cells := (cm_cells g)[i := (cm_cells g ! i)\<lparr>ci_cell_power := cc_cell_power cfg\<rparr>]\<rparr>, tx))
           else if cc_cell_cfg_flag cfg = CELL_CFG_DELETE
           then (case cell_idx of
                   Some i \<Rightarrow> do {
                     let g = g\<lparr>cm_freqs := (cm_freqs g)[i := clear_freqs (cm_freqs g ! i)],
                                cm_cells := (cm_cells g)[i := (cm_cells g ! i)\<lparr>ci_freq_count := 0, ci_active := False\<rparr>]\<rparr>;
                     tx \<leftarrow> update_tx_control g tx;
                     Some (CELL_RESULT_SUCCESS, g, tx) }
                 | None \<Rightarrow> Some (CELL_RESULT_SUCCESS, g, tx))
           else Some (CELL_RESULT_FAILURE, g, tx))"

subsection \<open>One call at a time\<close>

text \<open>The calls that use the transmit control, with the table at the time of the call.\<close>

datatype tx_call = Link bool | Update cell_config_manager

fun tx_run :: "tx_call list \<Rightarrow> tx_state \<Rightarrow> tx_state option" where
  "tx_run [] st = Some st"
| "tx_run (Link up # cs) st = cell_config_notify_bbu_link up st \<bind> tx_run cs"
| "tx_run (Update g # cs) st = update_tx_control g st \<bind> tx_run cs"

definition tx_command :: "bool \<Rightarrow> bytes" where
  "tx_command on = fpga_frame 11 [if on then 1 else 0]"

lemma apply_tx_works:
  assumes "po_open uart" "po_script uart = []"
  shows "apply_tx_control on (g, uart) = Some (g\<lparr>tg_tx_on := on\<rparr>, uart\<lparr>po_out := po_out uart @ tx_command on\<rparr>)"
proof -
  have "uart_client_send uart (tx_command on) = (SUCCESS, uart\<lparr>po_out := po_out uart @ tx_command on\<rparr>)"
    using assms by (cases "tx_command on") (simp_all add: uart_client_send_def tx_command_def fpga_frame_def be16_def)
  then show ?thesis by (simp add: apply_tx_control_def fpga_commands tx_command_def)
qed

text \<open>The flag is the last command, and with the link down it is off.\<close>

definition tx_inv :: "bytes \<Rightarrow> bool list \<Rightarrow> tx_state \<Rightarrow> bool" where
  "tx_inv before cmds st \<longleftrightarrow> po_open (snd st) \<and> po_script (snd st) = [] \<and> po_out (snd st) = before @ concat (map tx_command cmds)
     \<and> (tg_tx_on (fst st) \<longleftrightarrow> cmds \<noteq> [] \<and> last cmds) \<and> (tg_tx_on (fst st) \<longrightarrow> tg_bbu_link_ok (fst st))"

lemma tx_call_inv:
  assumes "tx_inv before cmds st"
  shows "\<exists>new st'. tx_run [c] st = Some st' \<and> tx_inv before (cmds @ new) st'"
proof -
  obtain g uart where st: "st = (g, uart)" by (cases st)
  note i = assms [unfolded tx_inv_def st fst_conv snd_conv]
  have ap: "apply_tx_control on (g', uart) = Some (g'\<lparr>tg_tx_on := on\<rparr>, uart\<lparr>po_out := po_out uart @ tx_command on\<rparr>)" for on g'
    using i by (intro apply_tx_works) simp_all
  show ?thesis
  proof (cases c)
    case (Update t)
    show ?thesis
    proof (cases "tg_bbu_link_ok g")
      case False
      then show ?thesis using assms Update by (intro exI [of _ "[]"] exI [of _ st]) (simp add: update_tx_control_def st)
    next
      case True
      then have "tx_run [c] st = Some (g\<lparr>tg_tx_on := has_any_freq t\<rparr>, uart\<lparr>po_out := po_out uart @ tx_command (has_any_freq t)\<rparr>)"
        using Update by (simp add: update_tx_control_def st ap)
      then show ?thesis using i True by (intro exI [of _ "[has_any_freq t]"]) (simp add: tx_inv_def)
    qed
  next
    case (Link up)
    show ?thesis
    proof (cases "\<not> up \<and> tg_tx_on g")
      case False
      then have "tx_run [c] st = Some (g\<lparr>tg_bbu_link_ok := up\<rparr>, uart)"
        using Link by (auto simp: cell_config_notify_bbu_link_def notify_section_def st)
      then show ?thesis using i False by (intro exI [of _ "[]"]) (auto simp: tx_inv_def)
    next
      case True
      then have "tx_run [c] st = Some (g\<lparr>tg_bbu_link_ok := False, tg_tx_on := False\<rparr>, uart\<lparr>po_out := po_out uart @ tx_command False\<rparr>)"
        using Link by (simp add: cell_config_notify_bbu_link_def notify_section_def st ap)
      then show ?thesis using i by (intro exI [of _ "[False]"]) (simp add: tx_inv_def)
    qed
  qed
qed

lemma tx_run_cons: "tx_run (c # cs) st = tx_run [c] st \<bind> tx_run cs"
proof -
  have "tx_run [] = Some" by (rule ext) simp
  then show ?thesis by (cases c) (simp_all split: bind_splits)
qed

subsection \<open>Interleaved calls\<close>

text \<open>The worker reads the link flag under the mutex, sends the command and sets the flag under the mutex;
  a notification changes the link flag and reads the other under the mutex, and then may send and set
  the flag too. Between these steps the other thread runs. The commands that the line took are kept.\<close>

datatype worker_pc = W_idle | W_send bool | W_record bool
datatype link_pc = L_idle | L_send | L_record

type_synonym tx_conf = "tx_guard \<times> bool list \<times> worker_pc \<times> link_pc"

inductive tx_step :: "tx_conf \<Rightarrow> tx_conf \<Rightarrow> bool" where
  w_read: "tx_step (g, cmds, W_idle, l) (g, cmds, if tg_bbu_link_ok g then W_send (has_any_freq t) else W_idle, l)"
| w_send: "tx_step (g, cmds, W_send on, l) (g, cmds @ [on], W_record on, l)"
| w_record: "tx_step (g, cmds, W_record on, l) (g\<lparr>tg_tx_on := on\<rparr>, cmds, W_idle, l)"
| l_notify: "notify_section up g = (need_off, g') \<Longrightarrow> tx_step (g, cmds, w, L_idle) (g', cmds, w, if need_off then L_send else L_idle)"
| l_send: "tx_step (g, cmds, w, L_send) (g, cmds @ [False], w, L_record)"
| l_record: "tx_step (g, cmds, w, L_record) (g\<lparr>tg_tx_on := False\<rparr>, cmds, w, L_idle)"

definition busy_table :: cell_config_manager where
  "busy_table = \<lparr>cm_cells = [\<lparr>ci_active = True, ci_local_cell_id = 1, ci_cell_power = 0, ci_cell_type = 3, ci_freq_count = 1\<rparr>],
     cm_freqs = [[\<lparr>fi_active = True, fi_sent_to_antenna = True, fi_local_cell_id = 1, fi_beam_id = 0, fi_dl_center_freq = 2100000, fi_ul_center_freq = 1900000,
        fi_beam_bandwidth = 20, fi_ul_dl_config = 0, fi_special_subframe = 0\<rparr>]]\<rparr>"

lemma busy_table_freq: "has_any_freq busy_table"
  by (simp add: has_any_freq_def busy_table_def)

lemma step_on:
  "tx_step\<^sup>*\<^sup>* (\<lparr>tg_bbu_link_ok = True, tg_tx_on = x\<rparr>, cmds, W_idle, l) (\<lparr>tg_bbu_link_ok = True, tg_tx_on = x\<rparr>, cmds, W_send True, l)"
  using w_read [of "\<lparr>tg_bbu_link_ok = True, tg_tx_on = x\<rparr>" cmds l busy_table] busy_table_freq by (auto intro: r_into_rtranclp)

lemma tx_race_run:
  "tx_step\<^sup>*\<^sup>* (tx_guard_start, [], W_idle, L_idle) (\<lparr>tg_bbu_link_ok = False, tg_tx_on = False\<rparr>, [True, False, True], W_idle, L_idle)"
proof -
  let ?g = "\<lambda>l t. \<lparr>tg_bbu_link_ok = l, tg_tx_on = t\<rparr>"
  have "tx_step (tx_guard_start, [], W_idle, L_idle) (?g True False, [], W_idle, L_idle)"
    using l_notify [of True tx_guard_start False "?g True False" "[]" W_idle] by (simp add: notify_section_def tx_guard_start_def)
  also note step_on
  also have "tx_step (?g True False, [], W_send True, L_idle) (?g True False, [True], W_record True, L_idle)" using w_send [of _ "[]"] by simp
  also have "tx_step (?g True False, [True], W_record True, L_idle) (?g True True, [True], W_idle, L_idle)" using w_record [of "?g True False" "[True]" True] by simp
  also note step_on
  also have "tx_step (?g True True, [True], W_send True, L_idle) (?g False True, [True], W_send True, L_send)"
    using l_notify [of False "?g True True" True "?g False True" "[True]" "W_send True"] by (simp add: notify_section_def)
  also have "tx_step (?g False True, [True], W_send True, L_send) (?g False True, [True, False], W_send True, L_record)" using l_send [of _ "[True]"] by simp
  also have "tx_step (?g False True, [True, False], W_send True, L_record) (?g False True, [True, False, True], W_record True, L_record)" using w_send [of _ "[True, False]"] by simp
  also have "tx_step (?g False True, [True, False, True], W_record True, L_record) (?g False True, [True, False, True], W_idle, L_record)" using w_record [of "?g False True" "[True, False, True]" True] by simp
  also have "tx_step (?g False True, [True, False, True], W_idle, L_record) (?g False False, [True, False, True], W_idle, L_idle)" using l_record [of "?g False True"] by simp
  finally show ?thesis by simp
qed

subsection \<open>Properties\<close>

text \<open>C5. No transmission without the link, one call at a time. On a line that takes what it is given, any
  sequence of link notifications and updates of the transmit control sends only on and off commands,
  the flag is the last of them, and while the baseband unit cannot be reached the last command is
  off.\<close>

theorem tx_off_without_link:
  assumes "po_open uart" and "po_script uart = []"
  shows "\<exists>cmds g uart'. tx_run calls (tx_guard_start, uart) = Some (g, uart')
     \<and> po_out uart' = po_out uart @ concat (map tx_command cmds)
     \<and> (tg_tx_on g \<longleftrightarrow> cmds \<noteq> [] \<and> last cmds) \<and> (tg_tx_on g \<longrightarrow> tg_bbu_link_ok g)"
proof -
  have "\<exists>new st'. tx_run calls st = Some st' \<and> tx_inv before (cmds @ new) st'" if "tx_inv before cmds st" for before cmds st
    using that
  proof (induction calls arbitrary: cmds st)
    case Nil
    then show ?case by (intro exI [of _ "[]"] exI [of _ st]) simp
  next
    case (Cons c cs)
    obtain new st' where "tx_run [c] st = Some st'" "tx_inv before (cmds @ new) st'" using tx_call_inv [OF Cons.prems] by blast
    moreover obtain new' st'' where "tx_run cs st' = Some st''" "tx_inv before ((cmds @ new) @ new') st''"
      using Cons.IH calculation(2) by blast
    ultimately show ?case unfolding tx_run_cons [of c cs] by (intro exI [of _ "new @ new'"] exI [of _ st'']) simp
  qed
  moreover have "tx_inv (po_out uart) [] (tx_guard_start, uart)" using assms by (simp add: tx_inv_def tx_guard_start_def)
  ultimately obtain new st' where r: "tx_run calls (tx_guard_start, uart) = Some st'" "tx_inv (po_out uart) ([] @ new) st'" by blast
  obtain g uart' where "st' = (g, uart')" by (cases st')
  then show ?thesis using r unfolding tx_inv_def append_Nil by (intro exI [of _ new] exI [of _ g] exI [of _ uart']) simp
qed

theorem tx_off_without_link_witness:
  "\<exists>cmds g uart'. tx_run [Link True, Update busy_table, Link False] (tx_guard_start, \<lparr>po_open = True, po_script = [], po_out = []\<rparr>) = Some (g, uart')
     \<and> po_out uart' = po_out \<lparr>po_open = True, po_script = [], po_out = []\<rparr> @ concat (map tx_command cmds)
     \<and> (tg_tx_on g \<longleftrightarrow> cmds \<noteq> [] \<and> last cmds) \<and> (tg_tx_on g \<longrightarrow> tg_bbu_link_ok g)"
  by (rule tx_off_without_link) simp_all

text \<open>C40. The race of the transmit control. When the link is lost after the worker has read the link flag and
  before it has sent its command, the commands can end with on and the flag be off at the end: the
  antenna transmits without the baseband unit, and no later notification of the loss sends
  anything.\<close>

theorem tx_race:
  "\<exists>g cmds. tx_step\<^sup>*\<^sup>* (tx_guard_start, [], W_idle, L_idle) (g, cmds, W_idle, L_idle) \<and> last cmds \<and> \<not> tg_bbu_link_ok g
     \<and> (\<forall>uart. cell_config_notify_bbu_link False (g, uart) = Some (g, uart))"
  by (intro exI conjI, rule tx_race_run) (simp_all add: cell_config_notify_bbu_link_def notify_section_def)

end
