(* ===== verification/FreqConfig.thy ===== *)
theory FreqConfig
  imports CellConfig InfoElements
begin

text \<open>
  The configuration of frequencies and the response to a cell configuration request, from cell_config.c.
  A frequency goes to the FPGA, and after the antenna has left its mode and come back the record counts
  as sent; the wait polls the status frame every 100 ms for at most five seconds without the mutex.
\<close>

subsection \<open>Elements\<close>

abbreviation (input) IE_TYPE_CELL_CONFIG :: u16 where "IE_TYPE_CELL_CONFIG \<equiv> 0x5E2"
abbreviation (input) IE_TYPE_FREQ_CONFIG :: u16 where "IE_TYPE_FREQ_CONFIG \<equiv> 0x5E3"
abbreviation (input) IE_TYPE_CELL_CONFIG_RESP :: u16 where "IE_TYPE_CELL_CONFIG_RESP \<equiv> 0x5EC"
abbreviation (input) IE_TYPE_FREQ_CONFIG_RESP :: u16 where "IE_TYPE_FREQ_CONFIG_RESP \<equiv> 0x5ED"
abbreviation (input) FREQ_CFG_ESTABLISH :: u8 where "FREQ_CFG_ESTABLISH \<equiv> 0"
abbreviation (input) FREQ_CFG_DELETE :: u8 where "FREQ_CFG_DELETE \<equiv> 1"
abbreviation (input) PHASED_ARRAY_MODE_BUSINESS :: u32 where "PHASED_ARRAY_MODE_BUSINESS \<equiv> 0"
abbreviation (input) PHASED_ARRAY_MODE_SPECTRUM :: u32 where "PHASED_ARRAY_MODE_SPECTRUM \<equiv> 1"

record freq_config_ie =
  fc_freq_cfg_flag :: u8
  fc_local_cell_id :: u32
  fc_beam_id :: u8
  fc_dl_center_freq :: u32
  fc_reserved1 :: u32
  fc_special_subframe :: u8
  fc_sys_subframe_num :: u32
  fc_beam_bandwidth :: u32
  fc_ul_dl_config :: u32
  fc_reserved2 :: u8
  fc_ul_center_freq :: u32

definition cell_config_parse_freq_ie :: "bytes \<Rightarrow> int \<times> freq_config_ie option" where
  "cell_config_parse_freq_ie d =
     (if length d < 32 then (ERROR_INVALID_PARAM, None)
      else let w = (\<lambda>i. of_le32 (d ! i) (d ! (i + 1)) (d ! (i + 2)) (d ! (i + 3)))
           in (SUCCESS, Some \<lparr>fc_freq_cfg_flag = d ! 0, fc_local_cell_id = w 1, fc_beam_id = d ! 5, fc_dl_center_freq = w 6,
                fc_reserved1 = w 10, fc_special_subframe = d ! 14, fc_sys_subframe_num = w 15, fc_beam_bandwidth = w 19,
                fc_ul_dl_config = w 23, fc_reserved2 = d ! 27, fc_ul_center_freq = w 28\<rparr>))"

subsection \<open>Waiting for the antenna\<close>

text \<open>What the outside does during one call: the mode that the successive reads of the status find, if there
  is a status, and what other threads do to the state while the mutex is given up.\<close>

record freq_env =
  fe_mode :: "nat \<Rightarrow> u32 option"
  fe_meanwhile :: "cell_config_manager \<times> tx_state \<Rightarrow> cell_config_manager \<times> tx_state"

function wait_change :: "freq_env \<Rightarrow> u32 \<Rightarrow> int \<Rightarrow> nat \<Rightarrow> bool \<times> int \<times> nat" where
  "wait_change env initial elapsed k =
     (if elapsed < 5000
      then case fe_mode env k of
             Some m \<Rightarrow> if m \<noteq> initial then (True, elapsed, k + 1) else wait_change env initial (elapsed + 100) (k + 1)
           | None \<Rightarrow> wait_change env initial (elapsed + 100) (k + 1)
      else (False, elapsed, k))"
  by pat_completeness auto
termination by (relation "measure (\<lambda>(env, initial, elapsed, k). nat (5000 - elapsed))") auto

function wait_back :: "freq_env \<Rightarrow> u32 \<Rightarrow> int \<Rightarrow> nat \<Rightarrow> bool" where
  "wait_back env initial elapsed k =
     (if elapsed < 5000
      then case fe_mode env k of
             Some m \<Rightarrow> if m = initial then True else wait_back env initial (elapsed + 100) (k + 1)
           | None \<Rightarrow> wait_back env initial (elapsed + 100) (k + 1)
      else False)"
  by pat_completeness auto
termination by (relation "measure (\<lambda>(env, initial, elapsed, k). nat (5000 - elapsed))") auto

declare wait_change.simps [simp del] wait_back.simps [simp del]

text \<open>The first read of the wait is the second of the call.\<close>

definition wait_for_antenna_mode_cycle :: "freq_env \<Rightarrow> int" where
  "wait_for_antenna_mode_cycle env =
     (case fe_mode env 1 of
        None \<Rightarrow> ERROR_GENERAL
      | Some initial_mode \<Rightarrow>
          if initial_mode \<noteq> PHASED_ARRAY_MODE_BUSINESS \<and> initial_mode \<noteq> PHASED_ARRAY_MODE_SPECTRUM then SUCCESS
          else case wait_change env initial_mode 0 2 of
                 (mode_changed, elapsed, k) \<Rightarrow>
                   if \<not> mode_changed then SUCCESS
                   else if wait_back env initial_mode elapsed k then SUCCESS else ERROR_TIMEOUT)"

subsection \<open>Applying\<close>

definition store_freq_info :: "freq_info \<Rightarrow> freq_config_ie \<Rightarrow> bool \<Rightarrow> freq_info" where
  "store_freq_info slot cfg sent = slot\<lparr>fi_active := True, fi_sent_to_antenna := sent, fi_local_cell_id := fc_local_cell_id cfg,
     fi_beam_id := fc_beam_id cfg, fi_dl_center_freq := fc_dl_center_freq cfg, fi_ul_center_freq := fc_ul_center_freq cfg,
     fi_beam_bandwidth := fc_beam_bandwidth cfg, fi_ul_dl_config := fc_ul_dl_config cfg, fi_special_subframe := fc_special_subframe cfg\<rparr>"

definition find_freq :: "(freq_info \<Rightarrow> bool) \<Rightarrow> freq_info list \<Rightarrow> nat option" where
  "find_freq p fs = find (\<lambda>i. p (fs ! i)) [0..<length fs]"

definition set_freq :: "nat \<Rightarrow> nat \<Rightarrow> freq_info \<Rightarrow> cell_config_manager \<Rightarrow> cell_config_manager" where
  "set_freq c i f g = g\<lparr>cm_freqs := (cm_freqs g)[c := (cm_freqs g ! c)[i := f]]\<rparr>"

definition set_count :: "nat \<Rightarrow> u8 \<Rightarrow> cell_config_manager \<Rightarrow> cell_config_manager" where
  "set_count c n g = g\<lparr>cm_cells := (cm_cells g)[c := (cm_cells g ! c)\<lparr>ci_freq_count := n\<rparr>]\<rparr>"

text \<open>The record of a beam, or else a free one, which is then counted.\<close>

definition freq_slot :: "nat \<Rightarrow> u8 \<Rightarrow> cell_config_manager \<Rightarrow> (nat \<times> cell_config_manager) option" where
  "freq_slot c beam g =
     (case find_freq (\<lambda>f. fi_active f \<and> fi_beam_id f = beam) (cm_freqs g ! c) of
        Some i \<Rightarrow> Some (i, g)
      | None \<Rightarrow> map_option (\<lambda>i. (i, set_count c (ci_freq_count (cm_cells g ! c) + 1) g)) (find_freq (\<lambda>f. \<not> fi_active f) (cm_freqs g ! c)))"

definition same_freq :: "freq_config_ie \<Rightarrow> freq_info \<Rightarrow> bool" where
  "same_freq cfg f \<longleftrightarrow> fi_dl_center_freq f = fc_dl_center_freq cfg \<and> fi_ul_center_freq f = fc_ul_center_freq cfg
     \<and> fi_beam_bandwidth f = fc_beam_bandwidth cfg"

text \<open>The record counts as sent, and the transmit control is brought up to date.\<close>

definition freq_in_effect :: "nat \<Rightarrow> nat \<Rightarrow> cell_config_manager \<times> tx_state \<Rightarrow> (int \<times> u32 \<times> cell_config_manager \<times> tx_state) option" where
  "freq_in_effect c i st = do {
     let g = set_freq c i ((cm_freqs (fst st) ! c ! i)\<lparr>fi_sent_to_antenna := True\<rparr>) (fst st);
     tx \<leftarrow> update_tx_control g (snd st);
     Some (SUCCESS, CELL_RESULT_SUCCESS, g, tx) }"

definition establish_freq :: "freq_env \<Rightarrow> freq_config_ie \<Rightarrow> nat \<Rightarrow> cell_config_manager \<times> tx_state
    \<Rightarrow> (int \<times> u32 \<times> cell_config_manager \<times> tx_state) option" where
  "establish_freq env cfg c st =
     (case st of (g, tx) \<Rightarrow>
        let mode_check_passed = (case fe_mode env 0 of
               Some m \<Rightarrow> m = PHASED_ARRAY_MODE_BUSINESS \<or> m = PHASED_ARRAY_MODE_SPECTRUM | None \<Rightarrow> False);
            need_send_to_antenna = \<not> list_ex (\<lambda>f. fi_active f \<and> fi_sent_to_antenna f \<and> same_freq cfg f) (cm_freqs g ! c)
        in if \<not> mode_check_passed
           then (case freq_slot c (fc_beam_id cfg) g of
                   Some (i, g) \<Rightarrow> Some (SUCCESS, CELL_RESULT_FAILURE, set_freq c i (store_freq_info (cm_freqs g ! c ! i) cfg False) g, tx)
                 | None \<Rightarrow> Some (SUCCESS, CELL_RESULT_FAILURE, g, tx))
           else case freq_slot c (fc_beam_id cfg) g of
                  None \<Rightarrow> Some (ERROR_GENERAL, CELL_RESULT_FAILURE, g, tx)
                | Some (i, g) \<Rightarrow>
                    let g = set_freq c i (store_freq_info (cm_freqs g ! c ! i) cfg False) g
                    in if need_send_to_antenna
                       then do {
                         (ret, uart) \<leftarrow> fpga_send_freq_band (snd tx) (fc_dl_center_freq cfg) (fc_ul_center_freq cfg) (fc_beam_bandwidth cfg);
                         if ret \<noteq> SUCCESS then Some (SUCCESS, CELL_RESULT_FAILURE, g, fst tx, uart)
                         else let mode_check_ret = wait_for_antenna_mode_cycle env;
                                  (g, tx) = fe_meanwhile env (g, fst tx, uart)
                              in case find_cell (\<lambda>c. ci_active c \<and> ci_local_cell_id c = fc_local_cell_id cfg) g of
                                   None \<Rightarrow> Some (SUCCESS, CELL_RESULT_FAILURE, g, tx)
                                 | Some c \<Rightarrow>
                                     (case find_freq (\<lambda>f. fi_active f \<and> fi_beam_id f = fc_beam_id cfg \<and> same_freq cfg f) (cm_freqs g ! c) of
                                        None \<Rightarrow> Some (SUCCESS, CELL_RESULT_FAILURE, g, tx)
                                      | Some i \<Rightarrow> if mode_check_ret \<noteq> SUCCESS then Some (SUCCESS, CELL_RESULT_FAILURE, g, tx)
                                                 else freq_in_effect c i (g, tx)) }
                       else freq_in_effect c i (g, tx))"

definition cell_config_apply_freq :: "freq_env \<Rightarrow> freq_config_ie \<Rightarrow> cell_config_manager \<times> tx_state
    \<Rightarrow> (int \<times> u32 \<times> cell_config_manager \<times> tx_state) option" where
  "cell_config_apply_freq env cfg st =
     (case st of (g, tx) \<Rightarrow>
        case find_cell (\<lambda>c. ci_active c \<and> ci_local_cell_id c = fc_local_cell_id cfg) g of
          None \<Rightarrow> Some (ERROR_GENERAL, CELL_RESULT_FAILURE, g, tx)
        | Some c \<Rightarrow>
            if fc_freq_cfg_flag cfg = FREQ_CFG_ESTABLISH then establish_freq env cfg c (g, tx)
            else if fc_freq_cfg_flag cfg = FREQ_CFG_DELETE
            then (case find_freq (\<lambda>f. fi_active f \<and> fi_beam_id f = fc_beam_id cfg) (cm_freqs g ! c) of
                    Some i \<Rightarrow> do {
                      let g = set_count c (ci_freq_count (cm_cells g ! c) - 1)
                                (set_freq c i ((cm_freqs g ! c ! i)\<lparr>fi_active := False, fi_sent_to_antenna := False\<rparr>) g);
                      tx \<leftarrow> update_tx_control g tx;
                      Some (SUCCESS, CELL_RESULT_SUCCESS, g, tx) }
                  | None \<Rightarrow> Some (SUCCESS, CELL_RESULT_SUCCESS, g, tx))
            else Some (SUCCESS, CELL_RESULT_FAILURE, g, tx))"

subsection \<open>The table stays well-formed\<close>

definition active_count :: "freq_info list \<Rightarrow> nat" where
  "active_count fs = length (filter fi_active fs)"

definition beams_unique :: "freq_info list \<Rightarrow> bool" where
  "beams_unique fs \<longleftrightarrow> (\<forall>i < length fs. \<forall>j < length fs. fi_active (fs ! i) \<and> fi_active (fs ! j) \<and> fi_beam_id (fs ! i) = fi_beam_id (fs ! j) \<longrightarrow> i = j)"

text \<open>A cell and its frequencies: no beam twice, the count right, and none for a cell that is not active.\<close>

definition cell_ok :: "cell_info \<Rightarrow> freq_info list \<Rightarrow> bool" where
  "cell_ok ci fs \<longleftrightarrow> length fs = 16 \<and> beams_unique fs
     \<and> (if ci_active ci then unat (ci_freq_count ci) = active_count fs else active_count fs = 0)"

definition cells_inv :: "cell_config_manager \<Rightarrow> bool" where
  "cells_inv g \<longleftrightarrow> length (cm_cells g) = 16 \<and> length (cm_freqs g) = 16 \<and> (\<forall>c < 16. cell_ok (cm_cells g ! c) (cm_freqs g ! c))
     \<and> (\<forall>c < 16. \<forall>d < 16. ci_active (cm_cells g ! c) \<and> ci_active (cm_cells g ! d)
          \<and> ci_local_cell_id (cm_cells g ! c) = ci_local_cell_id (cm_cells g ! d) \<longrightarrow> c = d)"

lemma active_count_update:
  "i < length fs \<Longrightarrow> active_count (fs[i := f]) + of_bool (fi_active (fs ! i)) = active_count fs + of_bool (fi_active f)"
proof (induction fs arbitrary: i)
  case (Cons x fs)
  then show ?case by (cases i) (auto simp: active_count_def)
qed simp

lemma active_count_bound: "active_count fs \<le> length fs"
  by (simp add: active_count_def)

lemma beams_unique_update:
  assumes "beams_unique fs" "fi_active f \<longrightarrow> (\<forall>j < length fs. j \<noteq> i \<longrightarrow> fi_active (fs ! j) \<longrightarrow> fi_beam_id (fs ! j) \<noteq> fi_beam_id f)"
  shows "beams_unique (fs[i := f])"
  unfolding beams_unique_def
proof (intro allI impI)
  fix a b assume "a < length (fs[i := f])" "b < length (fs[i := f])" "fi_active (fs[i := f] ! a) \<and> fi_active (fs[i := f] ! b) \<and> fi_beam_id (fs[i := f] ! a) = fi_beam_id (fs[i := f] ! b)"
  then show "a = b" using assms unfolding beams_unique_def by (cases "a = i"; cases "b = i") auto
qed

lemma cells_inv_update:
  assumes "cells_inv g" "c < 16" "cell_ok ci fs"
    "ci_active ci \<longrightarrow> (\<forall>d < 16. d \<noteq> c \<longrightarrow> ci_active (cm_cells g ! d) \<longrightarrow> ci_local_cell_id (cm_cells g ! d) \<noteq> ci_local_cell_id ci)"
  shows "cells_inv (g\<lparr>cm_cells := (cm_cells g)[c := ci], cm_freqs := (cm_freqs g)[c := fs]\<rparr>)"
  using assms unfolding cells_inv_def by (auto simp: nth_list_update)

lemma find_index:
  "find (\<lambda>i. p (xs ! i)) [0..<length xs] = Some i \<Longrightarrow> i < length xs \<and> p (xs ! i)"
  "find (\<lambda>i. p (xs ! i)) [0..<length xs] = None \<Longrightarrow> j < length xs \<Longrightarrow> \<not> p (xs ! j)"
  by (auto simp: find_Some_iff find_None_iff)

lemma find_cell_index:
  assumes "cells_inv g"
  shows "find_cell p g = Some c \<Longrightarrow> c < 16 \<and> p (cm_cells g ! c)" "find_cell p g = None \<Longrightarrow> d < 16 \<Longrightarrow> \<not> p (cm_cells g ! d)"
  using find_index(1) [of p "cm_cells g" c] find_index(2) [of p "cm_cells g" d] assms unfolding find_cell_def cells_inv_def by simp_all

text \<open>The frequencies of a cell change and its identifier does not.\<close>

lemma cells_inv_freqs:
  assumes "cells_inv g" "c < 16" "cell_ok ((cm_cells g ! c)\<lparr>ci_freq_count := n\<rparr>) fs"
  shows "cells_inv (g\<lparr>cm_cells := (cm_cells g)[c := (cm_cells g ! c)\<lparr>ci_freq_count := n\<rparr>], cm_freqs := (cm_freqs g)[c := fs]\<rparr>)"
  using assms(1,2) by (intro cells_inv_update [OF assms]) (auto simp: cells_inv_def)

lemma cells_inv_apply_cell:
  assumes inv: "cells_inv g" and r: "cell_config_apply_cell cfg (g, tx) = Some (res, g', tx')"
  shows "cells_inv g'"
proof (cases "find_cell (\<lambda>c. ci_active c \<and> ci_local_cell_id c = cc_local_cell_id cfg) g")
  case None
  note out = find_cell_index(2) [OF inv None]
  show ?thesis
  proof (cases "cc_cell_cfg_flag cfg = 0 \<and> find_cell (\<lambda>c. \<not> ci_active c) g \<noteq> None")
    case True
    then obtain i where i: "find_cell (\<lambda>c. \<not> ci_active c) g = Some i" by blast
    let ?ci = "\<lparr>ci_active = True, ci_local_cell_id = cc_local_cell_id cfg, ci_cell_power = cc_cell_power cfg, ci_cell_type = cc_cell_type cfg, ci_freq_count = 0\<rparr>"
    have j: "i < 16" "\<not> ci_active (cm_cells g ! i)" using find_cell_index(1) [OF inv i] by simp_all
    have "cell_ok ?ci (cm_freqs g ! i)" using inv j by (auto simp: cells_inv_def cell_ok_def)
    then have "cells_inv (g\<lparr>cm_cells := (cm_cells g)[i := ?ci], cm_freqs := (cm_freqs g)[i := cm_freqs g ! i]\<rparr>)"
      using out by (intro cells_inv_update [OF inv j(1)]) auto
    then show ?thesis using r True None i by (simp add: cell_config_apply_cell_def Let_def)
  next
    case False
    then show ?thesis using r inv None by (auto simp: cell_config_apply_cell_def Let_def split: if_splits option.splits)
  qed
next
  case (Some i)
  have i: "i < 16" "ci_active (cm_cells g ! i)" using find_cell_index(1) [OF inv Some] by simp_all
  note ok = inv [unfolded cells_inv_def]
  consider "cc_cell_cfg_flag cfg = 1" | "cc_cell_cfg_flag cfg = 2" | "cc_cell_cfg_flag cfg \<noteq> 1" "cc_cell_cfg_flag cfg \<noteq> 2" by blast
  then show ?thesis
  proof cases
    case 1
    let ?ci = "(cm_cells g ! i)\<lparr>ci_cell_power := cc_cell_power cfg\<rparr>"
    have "cells_inv (g\<lparr>cm_cells := (cm_cells g)[i := ?ci], cm_freqs := (cm_freqs g)[i := cm_freqs g ! i]\<rparr>)"
      using ok i by (intro cells_inv_update [OF inv i(1)]) (auto simp: cell_ok_def)
    then show ?thesis using r 1 Some by (simp add: cell_config_apply_cell_def Let_def)
  next
    case 2
    let ?ci = "(cm_cells g ! i)\<lparr>ci_freq_count := 0, ci_active := False\<rparr>" and ?fs = "clear_freqs (cm_freqs g ! i)"
    have "filter fi_active ?fs = []" by (induction "cm_freqs g ! i") (auto simp: clear_freqs_def filter_empty_conv)
    then have "cell_ok ?ci ?fs" using ok i by (auto simp: cell_ok_def active_count_def beams_unique_def clear_freqs_def)
    then have "cells_inv (g\<lparr>cm_cells := (cm_cells g)[i := ?ci], cm_freqs := (cm_freqs g)[i := ?fs]\<rparr>)"
      by (intro cells_inv_update [OF inv i(1)]) simp_all
    then have "cells_inv (g\<lparr>cm_freqs := (cm_freqs g)[i := ?fs], cm_cells := (cm_cells g)[i := ?ci]\<rparr>)" by (simp add: cells_inv_def)
    then show ?thesis using r 2 Some by (auto simp: cell_config_apply_cell_def Let_def split: bind_splits)
  next
    case 3
    then show ?thesis using r inv Some by (auto simp: cell_config_apply_cell_def Let_def split: if_splits)
  qed
qed

lemma find_freq_index:
  "find_freq p fs = Some i \<Longrightarrow> i < length fs \<and> p (fs ! i)" "find_freq p fs = None \<Longrightarrow> j < length fs \<Longrightarrow> \<not> p (fs ! j)"
  unfolding find_freq_def by (rule find_index; assumption)+

text \<open>A record of a cell is replaced and the count goes with it.\<close>

lemma cell_ok_freq:
  assumes "cell_ok ci fs" "ci_active ci" "i < 16"
    and "int (unat n) = int (unat (ci_freq_count ci)) + of_bool (fi_active f) - of_bool (fi_active (fs ! i))"
    and "fi_active f \<longrightarrow> (\<forall>j < 16. j \<noteq> i \<longrightarrow> fi_active (fs ! j) \<longrightarrow> fi_beam_id (fs ! j) \<noteq> fi_beam_id f)"
  shows "cell_ok (ci\<lparr>ci_freq_count := n\<rparr>) (fs[i := f])"
proof -
  have l: "length fs = 16" "unat (ci_freq_count ci) = active_count fs" "beams_unique fs" using assms(1,2) by (simp_all add: cell_ok_def)
  have "int (active_count (fs[i := f])) = int (active_count fs) + of_bool (fi_active f) - of_bool (fi_active (fs ! i))"
    using active_count_update [of i fs f] assms(3) l(1) by (cases "fi_active f"; cases "fi_active (fs ! i)") simp_all
  then have "unat n = active_count (fs[i := f])" using assms(4) l(2) by linarith
  then show ?thesis using beams_unique_update [OF l(3), of f i] assms(2,5) l(1) by (simp add: cell_ok_def)
qed

lemma set_freq_inv:
  assumes inv: "cells_inv g" and c: "c < 16" "ci_active (cm_cells g ! c)" and i: "i < 16"
    and n: "int (unat n) = int (unat (ci_freq_count (cm_cells g ! c))) + of_bool (fi_active f) - of_bool (fi_active (cm_freqs g ! c ! i))"
    and b: "fi_active f \<longrightarrow> (\<forall>j < 16. j \<noteq> i \<longrightarrow> fi_active (cm_freqs g ! c ! j) \<longrightarrow> fi_beam_id (cm_freqs g ! c ! j) \<noteq> fi_beam_id f)"
  shows "cells_inv (g\<lparr>cm_cells := (cm_cells g)[c := (cm_cells g ! c)\<lparr>ci_freq_count := n\<rparr>], cm_freqs := (cm_freqs g)[c := (cm_freqs g ! c)[i := f]]\<rparr>)"
proof -
  have "cell_ok (cm_cells g ! c) (cm_freqs g ! c)" using inv c(1) by (simp add: cells_inv_def)
  from cells_inv_freqs [OF inv c(1) cell_ok_freq [OF this c(2) i n b]] show ?thesis .
qed

text \<open>Replacing a record without a change of the count.\<close>

lemma set_freq_keeps:
  assumes "cells_inv g" "c < 16" "ci_active (cm_cells g ! c)" "i < 16" "fi_active f = fi_active (cm_freqs g ! c ! i)"
    "fi_active f \<longrightarrow> (\<forall>j < 16. j \<noteq> i \<longrightarrow> fi_active (cm_freqs g ! c ! j) \<longrightarrow> fi_beam_id (cm_freqs g ! c ! j) \<noteq> fi_beam_id f)"
  shows "cells_inv (set_freq c i f g)"
  using set_freq_inv [of g c i "ci_freq_count (cm_cells g ! c)" f] assms by (simp add: set_freq_def)

lemma beam_alone:
  assumes "cells_inv g" "c < 16" "i < 16" "fi_active (cm_freqs g ! c ! i)" "j < 16" "j \<noteq> i" "fi_active (cm_freqs g ! c ! j)"
  shows "fi_beam_id (cm_freqs g ! c ! j) \<noteq> fi_beam_id (cm_freqs g ! c ! i)"
proof -
  have "beams_unique (cm_freqs g ! c)" "length (cm_freqs g ! c) = 16" using assms(1,2) by (auto simp: cells_inv_def cell_ok_def)
  then show ?thesis using assms(3-) unfolding beams_unique_def by metis
qed

lemma freqs_length: "cells_inv g \<Longrightarrow> c < 16 \<Longrightarrow> length (cm_freqs g ! c) = 16"
  by (auto simp: cells_inv_def cell_ok_def)

lemma freq_slot_inv:
  assumes inv: "cells_inv g" and c: "c < 16" "ci_active (cm_cells g ! c)" and s: "freq_slot c (fc_beam_id cfg) g = Some (i, g')"
  shows "cells_inv (set_freq c i (store_freq_info (cm_freqs g' ! c ! i) cfg sent) g')" "i < 16" "cm_freqs g' = cm_freqs g"
    "ci_active (cm_cells (set_freq c i (store_freq_info (cm_freqs g' ! c ! i) cfg sent) g') ! c)"
proof -
  let ?fs = "cm_freqs g ! c"
  have l: "length ?fs = 16" "length (cm_cells g) = 16" using inv c freqs_length [OF inv c(1)] by (simp_all add: cells_inv_def)
  have "cells_inv (set_freq c i (store_freq_info (cm_freqs g' ! c ! i) cfg sent) g') \<and> i < 16 \<and> cm_freqs g' = cm_freqs g
      \<and> ci_active (cm_cells (set_freq c i (store_freq_info (cm_freqs g' ! c ! i) cfg sent) g') ! c)"
  proof (cases "find_freq (\<lambda>f. fi_active f \<and> fi_beam_id f = fc_beam_id cfg) ?fs")
    case (Some k)
    then have k: "i = k" "g' = g" "i < 16" "fi_active (?fs ! i)" "fi_beam_id (?fs ! i) = fc_beam_id cfg"
      using s find_freq_index(1) [OF Some] l(1) by (auto simp: freq_slot_def)
    have "cells_inv (set_freq c i (store_freq_info (?fs ! i) cfg sent) g)"
      using beam_alone [OF inv c(1) k(3,4)] k(4,5) by (intro set_freq_keeps [OF inv c k(3)]) (auto simp: store_freq_info_def)
    then show ?thesis using k c by (simp add: set_freq_def)
  next
    case None
    then obtain k where k: "find_freq (\<lambda>f. \<not> fi_active f) ?fs = Some k" "i = k" "g' = set_count c (ci_freq_count (cm_cells g ! c) + 1) g"
      using s by (auto simp: freq_slot_def)
    have i: "i < 16" "\<not> fi_active (?fs ! i)" using find_freq_index(1) [OF k(1)] k(2) l(1) by simp_all
    have cnt: "unat (ci_freq_count (cm_cells g ! c)) = active_count ?fs" using inv c by (auto simp: cells_inv_def cell_ok_def)
    have "active_count ?fs < 16"
    proof -
      have "?fs ! i \<in> set ?fs" using i l(1) by simp
      then have "active_count ?fs < length ?fs" unfolding active_count_def using i(2) by (rule length_filter_less)
      then show ?thesis using l(1) by simp
    qed
    then have n: "unat (ci_freq_count (cm_cells g ! c) + 1) = Suc (active_count ?fs)" using cnt by (simp add: unat_word_ariths)
    have "cells_inv (g\<lparr>cm_cells := (cm_cells g)[c := (cm_cells g ! c)\<lparr>ci_freq_count := ci_freq_count (cm_cells g ! c) + 1\<rparr>],
        cm_freqs := (cm_freqs g)[c := ?fs[i := store_freq_info (?fs ! i) cfg sent]]\<rparr>)"
      using find_freq_index(2) [OF None] l(1) i n cnt
      by (intro set_freq_inv [OF inv c i(1)]) (auto simp: store_freq_info_def simp del: of_nat_unat)
    then show ?thesis using i c l(2) by (simp add: k(3) set_freq_def set_count_def)
  qed
  then show "cells_inv (set_freq c i (store_freq_info (cm_freqs g' ! c ! i) cfg sent) g')" "i < 16" "cm_freqs g' = cm_freqs g"
    "ci_active (cm_cells (set_freq c i (store_freq_info (cm_freqs g' ! c ! i) cfg sent) g') ! c)" by blast+
qed

lemma freq_in_effect_inv:
  assumes "cells_inv g" "c < 16" "ci_active (cm_cells g ! c)" "i < 16" "freq_in_effect c i (g, tx) = Some (ret, res, g', tx')"
  shows "cells_inv g'"
proof -
  have "cells_inv (set_freq c i ((cm_freqs g ! c ! i)\<lparr>fi_sent_to_antenna := True\<rparr>) g)"
    using beam_alone [OF assms(1,2,4)] by (intro set_freq_keeps [OF assms(1-4)]) auto
  then show ?thesis using assms(5) by (auto simp: freq_in_effect_def Let_def split: bind_splits)
qed

text \<open>Other threads keep the table well-formed while the mutex is given up.\<close>

definition env_ok :: "freq_env \<Rightarrow> bool" where
  "env_ok env \<longleftrightarrow> (\<forall>st. cells_inv (fst st) \<longrightarrow> cells_inv (fst (fe_meanwhile env st)))"

lemma establish_inv:
  assumes inv: "cells_inv g" and c: "c < 16" "ci_active (cm_cells g ! c)" and env: "env_ok env"
    and r: "establish_freq env cfg c (g, tx) = Some (ret, res, g', tx')"
  shows "cells_inv g'"
proof (cases "freq_slot c (fc_beam_id cfg) g")
  case None
  then show ?thesis using r inv by (auto simp: establish_freq_def Let_def split: if_splits)
next
  case (Some ig)
  obtain i g1 where ig: "ig = (i, g1)" by (cases ig)
  note slot = freq_slot_inv [OF inv c Some [unfolded ig]]
  define g2 where "g2 = set_freq c i (store_freq_info (cm_freqs g1 ! c ! i) cfg False) g1"
  have g2: "cells_inv g2" "ci_active (cm_cells g2 ! c)" unfolding g2_def by (rule slot)+
  let ?pass = "case fe_mode env 0 of Some m \<Rightarrow> m = PHASED_ARRAY_MODE_BUSINESS \<or> m = PHASED_ARRAY_MODE_SPECTRUM | None \<Rightarrow> False"
  let ?sent = "list_ex (\<lambda>f. fi_active f \<and> fi_sent_to_antenna f \<and> same_freq cfg f) (cm_freqs g ! c)"
  consider "\<not> ?pass" | "?pass" "?sent" | "?pass" "\<not> ?sent" by blast
  then show ?thesis
  proof cases
    case 1
    then show ?thesis using r g2(1) Some ig by (simp add: establish_freq_def Let_def g2_def)
  next
    case 2
    then have "freq_in_effect c i (g2, tx) = Some (ret, res, g', tx')" using r Some ig by (simp add: establish_freq_def Let_def g2_def)
    then show ?thesis using freq_in_effect_inv [OF g2(1) c(1) g2(2) slot(2)] by blast
  next
    case 3
    obtain rt uart where u: "fpga_send_freq_band (snd tx) (fc_dl_center_freq cfg) (fc_ul_center_freq cfg) (fc_beam_bandwidth cfg) = Some (rt, uart)"
      by (simp add: fpga_commands) (meson surj_pair)
    obtain g3 tx3 where m: "fe_meanwhile env (g2, fst tx, uart) = (g3, tx3)" by (cases "fe_meanwhile env (g2, fst tx, uart)")
    have g3: "cells_inv g3" using env g2(1) m unfolding env_ok_def by (metis fst_conv)
    let ?c = "find_cell (\<lambda>c. ci_active c \<and> ci_local_cell_id c = fc_local_cell_id cfg) g3"
    let ?i = "\<lambda>c. find_freq (\<lambda>f. fi_active f \<and> fi_beam_id f = fc_beam_id cfg \<and> same_freq cfg f) (cm_freqs g3 ! c)"
    have step: "Some (ret, res, g', tx') = (if rt \<noteq> SUCCESS then Some (SUCCESS, CELL_RESULT_FAILURE, g2, fst tx, uart)
        else case ?c of None \<Rightarrow> Some (SUCCESS, CELL_RESULT_FAILURE, g3, tx3)
             | Some c \<Rightarrow> (case ?i c of None \<Rightarrow> Some (SUCCESS, CELL_RESULT_FAILURE, g3, tx3)
                 | Some i \<Rightarrow> if wait_for_antenna_mode_cycle env \<noteq> SUCCESS then Some (SUCCESS, CELL_RESULT_FAILURE, g3, tx3) else freq_in_effect c i (g3, tx3)))"
      using r Some ig 3 u m unfolding g2_def by (cases "rt = SUCCESS") (simp_all add: establish_freq_def Let_def)
    show ?thesis
    proof (cases "rt = SUCCESS \<and> ?c \<noteq> None \<and> ?i (the ?c) \<noteq> None \<and> wait_for_antenna_mode_cycle env = SUCCESS")
      case True
      then obtain c' i' where ci: "?c = Some c'" "?i c' = Some i'" by auto
      then have e: "freq_in_effect c' i' (g3, tx3) = Some (ret, res, g', tx')" using step True by simp
      have "c' < 16" "ci_active (cm_cells g3 ! c')" using find_cell_index(1) [OF g3 ci(1)] by simp_all
      moreover have "i' < 16" using find_freq_index(1) [OF ci(2)] freqs_length [OF g3] calculation(1) by simp
      ultimately show ?thesis using freq_in_effect_inv [OF g3 _ _ _ e] by blast
    next
      case False
      then have "g' = g2 \<or> g' = g3" using step by (auto split: if_splits option.splits)
      then show ?thesis using g2(1) g3 by blast
    qed
  qed
qed

lemma cells_inv_apply_freq:
  assumes inv: "cells_inv g" and env: "env_ok env" and r: "cell_config_apply_freq env cfg (g, tx) = Some (ret, res, g', tx')"
  shows "cells_inv g'"
proof (cases "find_cell (\<lambda>c. ci_active c \<and> ci_local_cell_id c = fc_local_cell_id cfg) g")
  case None
  then show ?thesis using r inv by (simp add: cell_config_apply_freq_def)
next
  case (Some c)
  have c: "c < 16" "ci_active (cm_cells g ! c)" using find_cell_index(1) [OF inv Some] by simp_all
  let ?fs = "cm_freqs g ! c" and ?n = "ci_freq_count (cm_cells g ! c)"
  consider "fc_freq_cfg_flag cfg = 0" | i where "fc_freq_cfg_flag cfg = 1" "find_freq (\<lambda>f. fi_active f \<and> fi_beam_id f = fc_beam_id cfg) ?fs = Some i"
    | "g' = g"
    using r Some by (auto simp: cell_config_apply_freq_def split: if_splits option.splits)
  then show ?thesis
  proof cases
    case 1
    then have "establish_freq env cfg c (g, tx) = Some (ret, res, g', tx')" using r Some by (simp add: cell_config_apply_freq_def)
    then show ?thesis by (rule establish_inv [OF inv c env])
  next
    case (2 i)
    have i: "i < 16" "fi_active (?fs ! i)" using find_freq_index(1) [OF 2(2)] freqs_length [OF inv c(1)] by simp_all
    have cnt: "unat ?n = active_count ?fs" using inv c by (auto simp: cells_inv_def cell_ok_def)
    have "?fs ! i \<in> set ?fs" using i freqs_length [OF inv c(1)] by simp
    then have "filter fi_active ?fs \<noteq> []" using i(2) by (auto simp: filter_empty_conv)
    then have p: "1 \<le> unat ?n" using cnt by (simp add: active_count_def Suc_le_eq)
    then have "unat (?n - 1) = unat ?n - 1" by (subst unat_sub) (simp_all add: word_le_nat_alt)
    then have "cells_inv (g\<lparr>cm_cells := (cm_cells g)[c := (cm_cells g ! c)\<lparr>ci_freq_count := ?n - 1\<rparr>],
        cm_freqs := (cm_freqs g)[c := ?fs[i := (?fs ! i)\<lparr>fi_active := False, fi_sent_to_antenna := False\<rparr>]]\<rparr>)"
      using i p by (intro set_freq_inv [OF inv c i(1)]) (simp_all add: of_nat_diff del: of_nat_unat)
    then show ?thesis using r Some 2 by (auto simp: cell_config_apply_freq_def set_freq_def set_count_def Let_def cells_inv_def split: bind_splits)
  qed (use inv in simp)
qed

lemma update_tx_total: "\<exists>tx'. update_tx_control g tx = Some tx'"
  by (cases tx) (simp add: update_tx_control_def apply_tx_control_def fpga_commands Let_def split_beta)

subsection \<open>Requests\<close>

text \<open>One configuration element, and a sequence of them from the zeroed table on.\<close>

datatype cell_element = Cell cell_config_ie | Freq freq_env freq_config_ie

fun apply_element :: "cell_element \<Rightarrow> cell_config_manager \<times> tx_state \<Rightarrow> (u32 \<times> cell_config_manager \<times> tx_state) option" where
  "apply_element (Cell cfg) st = cell_config_apply_cell cfg st"
| "apply_element (Freq env cfg) st = map_option snd (cell_config_apply_freq env cfg st)"

fun apply_elements :: "cell_element list \<Rightarrow> cell_config_manager \<times> tx_state \<Rightarrow> (cell_config_manager \<times> tx_state) option" where
  "apply_elements [] st = Some st"
| "apply_elements (e # es) st = do { (res, st) \<leftarrow> apply_element e st; apply_elements es st }"

definition cell_table_start :: cell_config_manager where
  "cell_table_start =
     (let c = \<lparr>ci_active = False, ci_local_cell_id = 0, ci_cell_power = 0, ci_cell_type = 0, ci_freq_count = 0\<rparr>;
          f = \<lparr>fi_active = False, fi_sent_to_antenna = False, fi_local_cell_id = 0, fi_beam_id = 0, fi_dl_center_freq = 0, fi_ul_center_freq = 0,
               fi_beam_bandwidth = 0, fi_ul_dl_config = 0, fi_special_subframe = 0\<rparr>
      in \<lparr>cm_cells = replicate 16 c, cm_freqs = replicate 16 (replicate 16 f)\<rparr>)"

lemma cell_table_start_inv: "cells_inv cell_table_start"
  by (auto simp: cell_table_start_def cells_inv_def cell_ok_def beams_unique_def active_count_def Let_def)

lemma freq_in_effect_total: "\<exists>r. freq_in_effect c i st = Some r"
  using update_tx_total [of "set_freq c i ((cm_freqs (fst st) ! c ! i)\<lparr>fi_sent_to_antenna := True\<rparr>) (fst st)" "snd st"]
  by (auto simp: freq_in_effect_def Let_def)

lemma apply_element_total: "\<exists>r. apply_element e st = Some r"
proof -
  obtain g tx where st: "st = (g, tx)" by (cases st)
  obtain upd where upd: "\<And>g tx. update_tx_control g tx = Some (upd g tx)" using update_tx_total by metis
  obtain eff where eff: "\<And>c i st. freq_in_effect c i st = Some (eff c i st)" using freq_in_effect_total by metis
  show ?thesis
  proof (cases e)
    case (Cell cfg)
    then show ?thesis by (simp add: st cell_config_apply_cell_def Let_def upd split: option.split)
  next
    case (Freq env cfg)
    have "establish_freq env cfg c (g, tx) \<noteq> None" for c
      unfolding establish_freq_def Let_def fpga_commands bind.simps
      by (simp add: eff del: not_None_eq split: prod.split option.split)
    then have "apply_element e st \<noteq> None" using Freq by (auto simp: st cell_config_apply_freq_def Let_def upd simp del: not_None_eq split: option.split)
    then show ?thesis by blast
  qed
qed

definition element_ok :: "cell_element \<Rightarrow> bool" where
  "element_ok e \<longleftrightarrow> (case e of Freq env cfg \<Rightarrow> env_ok env | Cell cfg \<Rightarrow> True)"

lemma apply_element_inv:
  assumes "cells_inv g" "element_ok e" "apply_element e (g, tx) = Some (res, g', tx')"
  shows "cells_inv g'"
proof (cases e)
  case (Cell cfg)
  then show ?thesis using assms(3) cells_inv_apply_cell [OF assms(1)] by simp
next
  case (Freq env cfg)
  then show ?thesis using assms(2,3) cells_inv_apply_freq [OF assms(1), of env cfg tx] by (auto simp: element_ok_def)
qed

subsection \<open>Properties\<close>

text \<open>C29. The table of cells stays well-formed. Any sequence of cell and frequency configurations from the
  zeroed table on, whatever the antenna and the serial line do, is carried out, and afterwards no two
  active cells have the same identifier, no cell has a beam twice, the count of each active cell is the
  number of its active frequencies, and a cell that is not active has none.\<close>

theorem cell_table_wellformed:
  assumes "list_all element_ok es"
  shows "\<exists>g tx'. apply_elements es (cell_table_start, tx) = Some (g, tx') \<and> cells_inv g"
proof -
  have "\<exists>g' tx'. apply_elements es (g, tx) = Some (g', tx') \<and> cells_inv g'" if "cells_inv g" for g
    using assms that
  proof (induction es arbitrary: g tx)
    case (Cons e es)
    obtain res g1 tx1 where a: "apply_element e (g, tx) = Some (res, g1, tx1)" using apply_element_total [of e "(g, tx)"] by (metis prod_cases3)
    have "cells_inv g1" using apply_element_inv [OF Cons.prems(2) _ a] Cons.prems(1) by simp
    then show ?case using Cons.IH [of g1 tx1] Cons.prems(1) a by simp
  qed simp
  then show ?thesis using cell_table_start_inv .
qed

definition quiet_env :: freq_env where
  "quiet_env = \<lparr>fe_mode = (\<lambda>k. Some 0), fe_meanwhile = (\<lambda>st. st)\<rparr>"

definition freq_request :: "u8 \<Rightarrow> u32 \<Rightarrow> freq_config_ie" where
  "freq_request beam dl = \<lparr>fc_freq_cfg_flag = 0, fc_local_cell_id = 1, fc_beam_id = beam, fc_dl_center_freq = dl, fc_reserved1 = 0, fc_special_subframe = 0,
     fc_sys_subframe_num = 0, fc_beam_bandwidth = 20, fc_ul_dl_config = 0, fc_reserved2 = 0, fc_ul_center_freq = 1900000\<rparr>"

definition cell_request :: cell_config_ie where
  "cell_request = \<lparr>cc_cell_cfg_flag = 0, cc_local_cell_id = 1, cc_cell_power = 0, cc_reserved = 0, cc_freq_count = 0, cc_cell_type = 3\<rparr>"

theorem cell_table_wellformed_witness:
  "\<exists>g tx'. apply_elements [Cell cell_request, Freq quiet_env (freq_request 1 2100000)]
      (cell_table_start, tx_guard_start, \<lparr>po_open = True, po_script = [], po_out = []\<rparr>) = Some (g, tx') \<and> cells_inv g"
  by (rule cell_table_wellformed) (simp add: element_ok_def env_ok_def quiet_env_def)

lemma quiet_wait: "wait_for_antenna_mode_cycle quiet_env = SUCCESS"
  by code_simp

text \<open>A frequency that is not sent again. The FPGA has one frequency at a time. After frequency A for one beam
  and B for another, a request for A is answered with success and nothing is sent, since the first record
  still counts as sent: the last frequency command on the line is that for B.\<close>

theorem stale_frequency_skipped:
  "case apply_elements [Cell cell_request, Freq quiet_env (freq_request 1 2100000), Freq quiet_env (freq_request 2 2200000)]
          (cell_table_start, tx_guard_start, \<lparr>po_open = True, po_script = [], po_out = []\<rparr>) of
     None \<Rightarrow> False
   | Some (g, tx) \<Rightarrow>
       po_out (snd tx) = fpga_frame 8 (be32 (fpga_encode_frequency 2100000) @ be32 20 @ be32 (fpga_encode_frequency 1900000))
           @ fpga_frame 8 (be32 (fpga_encode_frequency 2200000) @ be32 20 @ be32 (fpga_encode_frequency 1900000))
     \<and> (case cell_config_apply_freq quiet_env (freq_request 3 2100000) (g, tx) of
          None \<Rightarrow> False
        | Some (ret, res, g', tx') \<Rightarrow> ret = SUCCESS \<and> res = CELL_RESULT_SUCCESS \<and> po_out (snd tx') = po_out (snd tx))"
  by code_simp

end
