(* ===== verification/CellJobs.thy ===== *)
theory CellJobs
  imports FreqConfig
begin

text \<open>
  The requests of cell_config.c: the receive thread copies a request and puts it into a ring of eight
  jobs, the worker thread takes jobs out, applies their elements and answers. When the ring is full the
  request is answered with failures at once.
\<close>

subsection \<open>The ring of jobs\<close>

record cell_cfg_job =
  jb_paau_id :: u8
  jb_bbu_id :: u8
  jb_port_num :: u8
  jb_serial_num :: u32
  jb_payload_len :: u32
  jb_payload :: "bytes option"

definition CELL_CFG_JOB_QUEUE_LEN :: nat where "CELL_CFG_JOB_QUEUE_LEN = 8"

record job_queue =
  jq_queue :: "cell_cfg_job option list"
  jq_head :: nat
  jq_tail :: nat
  jq_count :: nat

definition job_queue_start :: job_queue where
  "job_queue_start = \<lparr>jq_queue = replicate CELL_CFG_JOB_QUEUE_LEN None, jq_head = 0, jq_tail = 0, jq_count = 0\<rparr>"

text \<open>Putting a job in fails when the ring is full; taking one out waits while it is empty.\<close>

definition job_put :: "cell_cfg_job \<Rightarrow> job_queue \<Rightarrow> job_queue option" where
  "job_put job q =
     (if jq_count q \<ge> CELL_CFG_JOB_QUEUE_LEN then None
      else Some (q\<lparr>jq_queue := (jq_queue q)[jq_tail q := Some job], jq_tail := (jq_tail q + 1) mod CELL_CFG_JOB_QUEUE_LEN,
                   jq_count := jq_count q + 1\<rparr>))"

definition job_take :: "job_queue \<Rightarrow> (cell_cfg_job option \<times> job_queue) option" where
  "job_take q =
     (if jq_count q = 0 then None
      else Some (jq_queue q ! jq_head q, q\<lparr>jq_queue := (jq_queue q)[jq_head q := None],
                   jq_head := (jq_head q + 1) mod CELL_CFG_JOB_QUEUE_LEN, jq_count := jq_count q - 1\<rparr>))"

subsection \<open>Answering\<close>

text \<open>The elements of a request are applied one by one, each in its environment, and each that can be read
  is answered. The state has the number of frequency elements so far.\<close>

type_synonym cell_run = "ie_state \<times> nat \<times> cell_config_manager \<times> tx_state"

definition cell_config_visit :: "bytes option \<Rightarrow> (nat \<Rightarrow> freq_env) \<Rightarrow> bytes \<Rightarrow> u16 \<Rightarrow> u16 \<Rightarrow> u32 \<Rightarrow> cell_run \<Rightarrow> cell_run option" where
  "cell_config_visit heap envs payload ie_type ie_len req_offset st =
     (case st of (ie, n, g, tx) \<Rightarrow>
        if ie_type = IE_TYPE_CELL_CONFIG
        then do {
          ie_data \<leftarrow> mem_read payload (unat (req_offset + 4)) (unat (ie_len - 4));
          case cell_config_parse_cell_ie ie_data of
            (_, Some cfg) \<Rightarrow> do {
              (cell_result, g, tx) \<leftarrow> cell_config_apply_cell cfg (g, tx);
              (ret, ie) \<leftarrow> add_ie heap IE_TYPE_CELL_CONFIG_RESP (le32 (cc_local_cell_id cfg) @ le32 cell_result) ie;
              Some (ie, n, g, tx) }
          | (_, None) \<Rightarrow> Some (ie, n, g, tx) }
        else if ie_type = IE_TYPE_FREQ_CONFIG
        then do {
          ie_data \<leftarrow> mem_read payload (unat (req_offset + 4)) (unat (ie_len - 4));
          case cell_config_parse_freq_ie ie_data of
            (_, Some cfg) \<Rightarrow> do {
              (ret, freq_result, g, tx) \<leftarrow> cell_config_apply_freq (envs n) cfg (g, tx);
              (ret, ie) \<leftarrow> add_ie heap IE_TYPE_FREQ_CONFIG_RESP (le32 (fc_local_cell_id cfg) @ [fc_beam_id cfg] @ le32 freq_result) ie;
              Some (ie, n + 1, g, tx) }
          | (_, None) \<Rightarrow> Some (ie, n, g, tx) }
        else Some (ie, n, g, tx))"

definition cell_config_create_response :: "bytes option \<Rightarrow> (nat \<Rightarrow> freq_env) \<Rightarrow> pool \<Rightarrow> cpri_message \<Rightarrow> cell_config_manager \<times> tx_state
    \<Rightarrow> (int \<times> cpri_message \<times> cell_config_manager \<times> tx_state) option" where
  "cell_config_create_response heap envs pool request st = do {
     ((payload, offset), n, g, tx) \<leftarrow> ie_loop (cell_config_visit heap envs) (message_bytes pool request) (cm_payload_len request) 0
        ((None, 0), 0, st);
     Some (SUCCESS, \<lparr>cm_header = (cm_header request)\<lparr>ch_msg_id := cpri_msg_code MSG_NR_CELL_CONFIG_RSP, ch_msg_length := 0\<rparr>,
        cm_payload = map_option Outside payload, cm_payload_len = offset\<rparr>, g, tx) }"

definition CELL_CFG_RESP_BUF_SIZE :: u32 where "CELL_CFG_RESP_BUF_SIZE = 4096"

text \<open>The body of the worker loop for one job.\<close>

definition cell_cfg_worker :: "bytes option \<Rightarrow> (nat \<Rightarrow> freq_env) \<Rightarrow> cell_cfg_job \<Rightarrow> (cell_config_manager \<times> tx_state) \<times> port
    \<Rightarrow> ((cell_config_manager \<times> tx_state) \<times> port) option" where
  "cell_cfg_worker heap envs job st = do {
     let request = \<lparr>cm_header = \<lparr>ch_msg_id = cpri_msg_code MSG_NR_CELL_CONFIG, ch_msg_length = 0, ch_paau_id = jb_paau_id job,
           ch_bbu_id = jb_bbu_id job, ch_port_num = jb_port_num job, ch_serial_num = jb_serial_num job\<rparr>,
         cm_payload = map_option Outside (jb_payload job), cm_payload_len = jb_payload_len job\<rparr>;
     (ret, response, cells) \<leftarrow> cell_config_create_response heap envs [] request (fst st);
     if ret = SUCCESS
     then do {
       (len, buffer) \<leftarrow> cpri_encode_message [] response (replicate (unat CELL_CFG_RESP_BUF_SIZE) 0) CELL_CFG_RESP_BUF_SIZE;
       Some (cells, if len > 0 then snd (tcp_client_send (snd st) (take (nat len) buffer)) else snd st) }
     else Some (cells, snd st) }"

definition busy_visit :: "bytes option \<Rightarrow> bytes \<Rightarrow> u16 \<Rightarrow> u16 \<Rightarrow> u32 \<Rightarrow> ie_state \<Rightarrow> ie_state option" where
  "busy_visit heap payload ie_type ie_len req_offset ie =
     (if ie_type = IE_TYPE_CELL_CONFIG
      then map_option snd (add_ie heap IE_TYPE_CELL_CONFIG_RESP (replicate 4 0 @ le32 CELL_RESULT_FAILURE) ie)
      else if ie_type = IE_TYPE_FREQ_CONFIG
      then map_option snd (add_ie heap IE_TYPE_FREQ_CONFIG_RESP (replicate 5 0 @ le32 CELL_RESULT_FAILURE) ie)
      else Some ie)"

definition cell_config_send_busy_response :: "bytes option \<Rightarrow> pool \<Rightarrow> cpri_message \<Rightarrow> port \<Rightarrow> port option" where
  "cell_config_send_busy_response heap pool msg tcp =
     (if cm_payload msg = None then Some tcp
      else do {
        (payload, offset) \<leftarrow> ie_loop (busy_visit heap) (message_bytes pool msg) (cm_payload_len msg) 0 (None, 0);
        if payload = None \<or> offset = 0 then Some tcp
        else do {
          (len, buffer) \<leftarrow> cpri_encode_message pool
             \<lparr>cm_header = (cm_header msg)\<lparr>ch_msg_id := cpri_msg_code MSG_NR_CELL_CONFIG_RSP, ch_msg_length := 0\<rparr>,
              cm_payload = map_option Outside payload, cm_payload_len = offset\<rparr>
             (replicate (unat CELL_CFG_RESP_BUF_SIZE) 0) CELL_CFG_RESP_BUF_SIZE;
          Some (if len > 0 then snd (tcp_client_send tcp (take (nat len) buffer)) else tcp) } })"

text \<open>The first two arguments tell whether the job and its copy of the payload can be allocated.\<close>

definition cell_config_submit_request :: "bool \<Rightarrow> bool \<Rightarrow> bytes option \<Rightarrow> pool \<Rightarrow> cpri_message \<Rightarrow> job_queue \<times> port
    \<Rightarrow> (int \<times> job_queue \<times> port) option" where
  "cell_config_submit_request job_ok payload_ok heap pool msg st =
     (if \<not> job_ok then Some (ERROR_GENERAL, st)
      else let has_payload = (cm_payload_len msg > 0 \<and> cm_payload msg \<noteq> None)
           in if has_payload \<and> \<not> payload_ok then Some (ERROR_GENERAL, st)
              else do {
                payload \<leftarrow> (if has_payload then map_option Some (mem_read (message_bytes pool msg) 0 (unat (cm_payload_len msg))) else Some None);
                let h = cm_header msg;
                case job_put \<lparr>jb_paau_id = ch_paau_id h, jb_bbu_id = ch_bbu_id h, jb_port_num = ch_port_num h, jb_serial_num = ch_serial_num h,
                              jb_payload_len = cm_payload_len msg, jb_payload = payload\<rparr> (fst st) of
                  Some q \<Rightarrow> Some (SUCCESS, q, snd st)
                | None \<Rightarrow> do {
                    tcp \<leftarrow> cell_config_send_busy_response heap pool msg (snd st);
                    Some (ERROR_GENERAL, fst st, tcp) } })"

definition handle_cell_config :: "bool \<Rightarrow> bool \<Rightarrow> bytes option \<Rightarrow> pool \<Rightarrow> cpri_message \<Rightarrow> job_queue \<times> port \<Rightarrow> (int \<times> job_queue \<times> port) option" where
  "handle_cell_config job_ok payload_ok heap pool msg st = do {
     (ret, st) \<leftarrow> cell_config_submit_request job_ok payload_ok heap pool msg st;
     Some (if ret \<noteq> SUCCESS then (ret, st) else (SUCCESS, st)) }"

subsection \<open>The ring is a queue\<close>

definition jobs :: "job_queue \<Rightarrow> cell_cfg_job option list" where
  "jobs q = map (\<lambda>k. jq_queue q ! ((jq_head q + k) mod 8)) [0..<jq_count q]"

definition job_queue_inv :: "job_queue \<Rightarrow> bool" where
  "job_queue_inv q \<longleftrightarrow> length (jq_queue q) = 8 \<and> jq_head q < 8 \<and> jq_count q \<le> 8 \<and> jq_tail q = (jq_head q + jq_count q) mod 8"

lemma job_queue_start_inv: "job_queue_inv job_queue_start" "jobs job_queue_start = []"
  by (simp_all add: job_queue_inv_def job_queue_start_def jobs_def CELL_CFG_JOB_QUEUE_LEN_def)

lemma mod8_distinct:
  assumes "k < n" "n < k + 8"
  shows "(h + k) mod 8 \<noteq> (h + n) mod (8 :: nat)"
proof
  assume "(h + k) mod 8 = (h + n) mod 8"
  then have "8 dvd (h + n) - (h + k)" using mod_eq_dvd_iff_nat [of "h + k" "h + n" 8] assms(1) by simp
  then show False using assms by (auto dest: dvd_imp_le)
qed

lemma job_put_queue:
  assumes "job_queue_inv q"
  shows "job_put j q = None \<longleftrightarrow> length (jobs q) = 8"
    "job_put j q = Some q' \<Longrightarrow> job_queue_inv q' \<and> jobs q' = jobs q @ [Some j]"
proof -
  note i = assms [unfolded job_queue_inv_def]
  show "job_put j q = None \<longleftrightarrow> length (jobs q) = 8" using i by (auto simp: job_put_def jobs_def CELL_CFG_JOB_QUEUE_LEN_def)
  assume p: "job_put j q = Some q'"
  then have c: "jq_count q < 8" and q': "q' = q\<lparr>jq_queue := (jq_queue q)[jq_tail q := Some j], jq_tail := (jq_tail q + 1) mod 8, jq_count := jq_count q + 1\<rparr>"
    by (auto simp: job_put_def CELL_CFG_JOB_QUEUE_LEN_def split: if_splits)
  have "jq_tail q < 8" using i by simp
  moreover have "(jq_queue q)[jq_tail q := Some j] ! ((jq_head q + k) mod 8) = jq_queue q ! ((jq_head q + k) mod 8)" if "k < jq_count q" for k
    using that c i mod8_distinct [of k "jq_count q" "jq_head q"] by (subst nth_list_update_neq) auto
  ultimately have "jobs q' = jobs q @ [Some j]" using i by (simp add: jobs_def q')
  moreover have "job_queue_inv q'" using i c by (simp add: job_queue_inv_def q' mod_Suc_eq)
  ultimately show "job_queue_inv q' \<and> jobs q' = jobs q @ [Some j]" by blast
qed

lemma job_take_queue:
  assumes "job_queue_inv q"
  shows "job_take q = None \<longleftrightarrow> jobs q = []" "job_take q = Some (j, q') \<Longrightarrow> job_queue_inv q' \<and> jobs q = j # jobs q'"
proof -
  note i = assms [unfolded job_queue_inv_def]
  show "job_take q = None \<longleftrightarrow> jobs q = []" by (simp add: job_take_def jobs_def)
  assume p: "job_take q = Some (j, q')"
  then have c: "0 < jq_count q" and j: "j = jq_queue q ! jq_head q"
    and q': "q' = q\<lparr>jq_queue := (jq_queue q)[jq_head q := None], jq_head := (jq_head q + 1) mod 8, jq_count := jq_count q - 1\<rparr>"
    by (auto simp: job_take_def CELL_CFG_JOB_QUEUE_LEN_def split: if_splits)
  have e: "(jq_queue q)[jq_head q := None] ! (((jq_head q + 1) mod 8 + k) mod 8) = jq_queue q ! ((jq_head q + Suc k) mod 8)" if "k < jq_count q - 1" for k
  proof -
    have m: "((jq_head q + 1) mod 8 + k) mod 8 = (jq_head q + Suc k) mod 8" by (simp add: mod_add_left_eq)
    have "Suc k < 8" using that i by linarith
    then have "(jq_head q + Suc k) mod 8 \<noteq> jq_head q" using i mod8_distinct [of 0 "Suc k" "jq_head q"] by auto
    then show ?thesis unfolding m by simp
  qed
  obtain n where n: "jq_count q = Suc n" using c by (cases "jq_count q") auto
  have "jobs q = j # map (\<lambda>k. jq_queue q ! ((jq_head q + Suc k) mod 8)) [0..<n]"
    using i by (simp add: jobs_def n j upt_conv_Cons map_Suc_upt [symmetric] del: upt_Suc)
  moreover have "jobs q' = map (\<lambda>k. jq_queue q ! ((jq_head q + Suc k) mod 8)) [0..<n]" using e by (simp add: jobs_def q' n)
  moreover have "job_queue_inv q'" using i n by (auto simp: job_queue_inv_def q' mod_add_left_eq)
  ultimately show "job_queue_inv q' \<and> jobs q = j # jobs q'" by simp
qed

subsection \<open>Properties\<close>

text \<open>What a sequence of puts and takes returns, on the ring and on a list.\<close>

datatype queue_call = Put cell_cfg_job | Take

datatype queue_reply = Accepted | Full | Taken "cell_cfg_job option" | Empty

fun ring_replies :: "queue_call list \<Rightarrow> job_queue \<Rightarrow> queue_reply list" where
  "ring_replies [] q = []"
| "ring_replies (Put j # cs) q = (case job_put j q of Some q' \<Rightarrow> Accepted # ring_replies cs q' | None \<Rightarrow> Full # ring_replies cs q)"
| "ring_replies (Take # cs) q = (case job_take q of Some (j, q') \<Rightarrow> Taken j # ring_replies cs q' | None \<Rightarrow> Empty # ring_replies cs q)"

fun list_replies :: "queue_call list \<Rightarrow> cell_cfg_job list \<Rightarrow> queue_reply list" where
  "list_replies [] js = []"
| "list_replies (Put j # cs) js = (if length js = 8 then Full # list_replies cs js else Accepted # list_replies cs (js @ [j]))"
| "list_replies (Take # cs) [] = Empty # list_replies cs []"
| "list_replies (Take # cs) (j # js) = Taken (Some j) # list_replies cs js"

text \<open>C30. The ring of jobs is a queue of at most eight. Whatever the receive thread and the worker do in whatever
  order, the worker gets the accepted requests in the order they came, each once, and a request is turned
  away exactly when eight wait.\<close>

theorem job_ring_fifo: "ring_replies cs job_queue_start = list_replies cs []"
proof -
  have "ring_replies cs q = list_replies cs js" if "job_queue_inv q" "jobs q = map Some js" for q js
    using that
  proof (induction cs arbitrary: q js)
    case (Cons c cs)
    show ?case
    proof (cases c)
      case (Put j)
      note p = job_put_queue [OF Cons.prems(1), of j]
      show ?thesis
      proof (cases "job_put j q")
        case None
        then show ?thesis using Put p(1) Cons by simp
      next
        case (Some q')
        then show ?thesis using Put p(1) p(2) [OF Some] Cons.prems Cons.IH [of q' "js @ [j]"] by auto
      qed
    next
      case Take
      note t = job_take_queue [OF Cons.prems(1)]
      show ?thesis
      proof (cases js)
        case Nil
        then show ?thesis using Take t(1) Cons by simp
      next
        case (Cons j js')
        then have "job_take q \<noteq> None" using t(1) Cons.prems(2) by simp
        then obtain x q' where x: "job_take q = Some (x, q')" by auto
        then show ?thesis using Take t(2) [OF x] Cons Cons.IH [of q' js'] Cons.prems(2) by auto
      qed
    qed
  qed simp
  then show ?thesis using job_queue_start_inv by simp
qed

subsection \<open>The answers of the worker\<close>

text \<open>What an element is applied as and answered with, if it can be read.\<close>

definition cell_apply :: "(nat \<Rightarrow> freq_env) \<Rightarrow> nat \<Rightarrow> u16 \<Rightarrow> bytes \<Rightarrow> (cell_element \<times> (u32 \<Rightarrow> u16 \<times> bytes)) option" where
  "cell_apply envs n t d =
     (if t = IE_TYPE_CELL_CONFIG
      then map_option (\<lambda>cfg. (Cell cfg, \<lambda>res. (IE_TYPE_CELL_CONFIG_RESP, le32 (cc_local_cell_id cfg) @ le32 res))) (snd (cell_config_parse_cell_ie d))
      else if t = IE_TYPE_FREQ_CONFIG
      then map_option (\<lambda>cfg. (Freq (envs n) cfg, \<lambda>res. (IE_TYPE_FREQ_CONFIG_RESP, le32 (fc_local_cell_id cfg) @ [fc_beam_id cfg] @ le32 res)))
             (snd (cell_config_parse_freq_ie d))
      else None)"

text \<open>The answers to a list of elements, with the state afterwards.\<close>

fun cell_answers :: "(nat \<Rightarrow> freq_env) \<Rightarrow> nat \<Rightarrow> (u16 \<times> bytes) list \<Rightarrow> cell_config_manager \<times> tx_state
    \<Rightarrow> ((u16 \<times> bytes) list \<times> nat \<times> cell_config_manager \<times> tx_state) option" where
  "cell_answers envs n [] st = Some ([], n, st)"
| "cell_answers envs n ((t, d) # es) st =
     (case cell_apply envs n t d of
        None \<Rightarrow> cell_answers envs n es st
      | Some (e, reply) \<Rightarrow> do {
          (res, st) \<leftarrow> apply_element e st;
          (as, n, st) \<leftarrow> cell_answers envs (if t = IE_TYPE_FREQ_CONFIG then n + 1 else n) es st;
          Some (reply res # as, n, st) })"

definition cell_answer :: "bytes option \<Rightarrow> (nat \<Rightarrow> freq_env) \<Rightarrow> u16 \<Rightarrow> bytes \<Rightarrow> cell_run \<Rightarrow> cell_run option" where
  "cell_answer heap envs t d st =
     (case st of (ie, n, cells) \<Rightarrow>
        (case cell_apply envs n t d of
           None \<Rightarrow> Some (ie, n, cells)
         | Some (e, reply) \<Rightarrow> do {
             (res, cells) \<leftarrow> apply_element e cells;
             (ret, ie) \<leftarrow> add_ie heap (fst (reply res)) (snd (reply res)) ie;
             Some (ie, if t = IE_TYPE_FREQ_CONFIG then n + 1 else n, cells) }))"

interpretation cells: ie_visitor "cell_config_visit heap envs" "cell_answer heap envs" for heap envs
proof
  fix n t :: u16 and i :: u32 and buf :: bytes and st :: cell_run
  assume n: "4 \<le> unat n" "unat i + unat n \<le> length buf" "length buf < 2 ^ 31"
  define d where "d = take (unat n - 4) (drop (unat i + 4) buf)"
  have i4: "unat (i + 4) = unat i + 4" using n by (subst u32_add_nat) simp_all
  have n4: "unat (n - 4) = unat n - 4" using n(1) by (subst unat_sub) (simp_all add: word_le_nat_alt)
  have m: "mem_read buf (unat i + 4) (unat n - 4) = Some d" using n by (simp add: d_def)
  obtain ie k g tx where st: "st = (ie, k, g, tx)" by (cases st)
  have "cell_config_visit heap envs buf t n i st = cell_answer heap envs t d st"
    unfolding cell_config_visit_def cell_answer_def cell_apply_def st prod.case i4 n4 m
    by (cases "snd (cell_config_parse_cell_ie d)"; cases "snd (cell_config_parse_freq_ie d)")
      (auto simp: cell_config_parse_cell_ie_def cell_config_parse_freq_ie_def Let_def bind_map_option comp_def split_beta split: bind_splits if_splits)
  then show "cell_config_visit heap envs buf t n i st = cell_answer heap envs t (take (unat n - 4) (drop (unat i + 4) buf)) st"
    unfolding d_def .
qed

lemma cell_reply_short: "cell_apply envs n t d = Some (e, reply) \<Longrightarrow> length (snd (reply res)) \<le> 9"
  by (auto simp: cell_apply_def split: if_splits)

lemma cell_answers_total: "\<exists>as n' cells'. cell_answers envs n es cells = Some (as, n', cells') \<and> list_all (\<lambda>(t, d). length d \<le> 9) as"
proof (induction es arbitrary: n cells)
  case (Cons te es)
  obtain t d where td: "te = (t, d)" by (cases te)
  show ?case
  proof (cases "cell_apply envs n t d")
    case (Some er)
    obtain e reply where er: "er = (e, reply)" by (cases er)
    obtain res cells' where a: "apply_element e cells = Some (res, cells')" using apply_element_total [of e cells] by auto
    let ?n = "if t = IE_TYPE_FREQ_CONFIG then n + 1 else n"
    obtain as n' cells'' where "cell_answers envs ?n es cells' = Some (as, n', cells'')" "list_all (\<lambda>(t, d). length d \<le> 9) as" using Cons by blast
    moreover obtain rt rd where "reply res = (rt, rd)" by (cases "reply res")
    ultimately show ?thesis using Some er a td cell_reply_short [of envs n t d e reply res]
      by (intro exI [of _ "reply res # as"] exI [of _ n'] exI [of _ cells'']) simp
  qed (use Cons td in simp)
next
  case Nil
  then show ?case by (cases cells) simp
qed

lemma cell_answers_inv:
  assumes "\<forall>k. env_ok (envs k)"
  shows "cell_answers envs n es cells = Some (as, n', cells') \<Longrightarrow> cells_inv (fst cells) \<Longrightarrow> cells_inv (fst cells')"
proof (induction es arbitrary: n cells as)
  case (Cons te es)
  obtain t d where td: "te = (t, d)" by (cases te)
  show ?case
  proof (cases "cell_apply envs n t d")
    case (Some er)
    obtain e reply where er: "er = (e, reply)" by (cases er)
    let ?n = "if t = IE_TYPE_FREQ_CONFIG then n + 1 else n"
    obtain res c1 as1 where r: "apply_element e cells = Some (res, c1)" "cell_answers envs ?n es c1 = Some (as1, n', cells')"
      using Cons.prems(1) Some er td by (auto split: bind_splits)
    have "element_ok e" using Some er assms by (auto simp: cell_apply_def element_ok_def split: if_splits)
    then have "cells_inv (fst c1)" using apply_element_inv [of "fst cells" e "snd cells" res "fst c1" "snd c1"] Cons.prems(2) r(1) by simp
    then show ?thesis using Cons.IH [OF r(2)] by blast
  qed (use Cons td in simp)
qed simp

lemma fold_cell_answers:
  assumes h: "length h = 4096" and b: "ie_built ie ies" and a: "cell_answers envs n es cells = Some (as, n', cells')"
  shows "\<exists>ie'. fold_ies (cell_answer (Some h) envs) es (ie, n, cells) = Some (ie', n', cells') \<and> ie_built ie' (ie_appends ies as)"
  using b a
proof (induction es arbitrary: ie ies n cells as)
  case (Cons te es)
  obtain t d where td: "te = (t, d)" by (cases te)
  show ?case
  proof (cases "cell_apply envs n t d")
    case None
    then show ?thesis using Cons td by (cases cells) (simp add: cell_answer_def)
  next
    case (Some er)
    obtain e reply where er: "er = (e, reply)" by (cases er)
    let ?n = "if t = IE_TYPE_FREQ_CONFIG then n + 1 else n"
    obtain res c1 as1 where r: "apply_element e cells = Some (res, c1)" "cell_answers envs ?n es c1 = Some (as1, n', cells')" "as = reply res # as1"
      using Cons.prems(2) Some er td by (auto split: bind_splits)
    obtain rt rd where rp: "reply res = (rt, rd)" by (cases "reply res")
    obtain ret ie1 where i1: "add_ie (Some h) rt rd ie = Some (ret, ie1)" "ie_built ie1 (ie_append ies rt rd)"
      using add_ie_built [OF Cons.prems(1) h, of rd rt] cell_reply_short [of envs n t d e reply res] Some er rp by auto
    obtain ie' where "fold_ies (cell_answer (Some h) envs) es (ie1, ?n, c1) = Some (ie', n', cells')" "ie_built ie' (ie_appends (ie_append ies rt rd) as1)"
      using Cons.IH [OF i1(2) r(2)] by blast
    moreover have "cell_answer (Some h) envs t d (ie, n, cells) = Some (ie1, ?n, c1)"
      using Some er r(1) i1(1) rp by (simp add: cell_answer_def)
    ultimately show ?thesis using td r(3) rp by (intro exI [of _ ie']) simp
  qed
qed (auto simp: cell_answer_def)

text \<open>What follows an element does not change its answer; in particular the result of a cell is fixed before the
  frequencies of the request are applied.\<close>

lemma cell_answers_append:
  "cell_answers envs n (es @ fs) st = do {
     (as, n, st) \<leftarrow> cell_answers envs n es st;
     (bs, n, st) \<leftarrow> cell_answers envs n fs st;
     Some (as @ bs, n, st) }"
proof (induction es arbitrary: n st)
  case (Cons te es)
  then show ?case by (cases te) (auto split: option.splits bind_splits)
qed (auto split: bind_splits)

text \<open>C24. The worker answers what it was asked. For any payload of a job, its elements are applied in order,
  each that can be read is answered with its identifiers and its own result, and the answer
  carries the identifiers and the serial number of the request and exactly these answers. When they need more than
  4081 bytes nothing is sent, although the elements have been applied. The result of a cell is that of the cell
  element alone: it is success also when every frequency that follows it fails, which the notes on the cell
  configuration exclude. The table stays well-formed.\<close>

theorem cell_request_answered:
  assumes "length h = 4096" and "jb_payload job = Some payload" and "unat (jb_payload_len job) \<le> length payload" and "length payload < 2 ^ 31"
  shows "\<exists>answers n cells'. cell_answers envs 0 (parse_ies (take (unat (jb_payload_len job)) payload)) cells = Some (answers, n, cells')
    \<and> cell_cfg_worker (Some h) envs job (cells, tcp) = Some (cells',
        if length (ie_bytes answers) \<le> 4081
        then snd (tcp_client_send tcp (cpri_frame \<lparr>ch_msg_id = cpri_msg_code MSG_NR_CELL_CONFIG_RSP, ch_msg_length = 0, ch_paau_id = jb_paau_id job,
               ch_bbu_id = jb_bbu_id job, ch_port_num = jb_port_num job, ch_serial_num = jb_serial_num job\<rparr> (ie_bytes answers)))
        else tcp)
    \<and> (cells_inv (fst cells) \<and> (\<forall>k. env_ok (envs k)) \<longrightarrow> cells_inv (fst cells'))"
proof -
  let ?es = "parse_ies (take (unat (jb_payload_len job)) payload)"
  let ?h = "\<lparr>ch_msg_id = cpri_msg_code MSG_NR_CELL_CONFIG_RSP, ch_msg_length = 0, ch_paau_id = jb_paau_id job,
               ch_bbu_id = jb_bbu_id job, ch_port_num = jb_port_num job, ch_serial_num = jb_serial_num job\<rparr>"
  obtain as n' cells' where a: "cell_answers envs 0 ?es cells = Some (as, n', cells')" "list_all (\<lambda>(t, d). length d \<le> 9) as"
    using cell_answers_total by blast
  obtain p w where f: "fold_ies (cell_answer (Some h) envs) ?es ((None, 0), 0, cells) = Some ((p, w), n', cells')" "ie_built (p, w) (ie_appends [] as)"
    using fold_cell_answers [OF assms(1) ie_built_start a(1)] by auto
  have l: "ie_loop (cell_config_visit (Some h) envs) payload (jb_payload_len job) 0 ((None, 0), 0, cells) = Some ((p, w), n', cells')"
    using cells.loop_is_fold [OF assms(3,4), of "Some h" envs] f(1) by simp
  have e: "length (ie_bytes (ie_appends [] as)) \<le> 4081 \<longleftrightarrow> length (ie_bytes as) \<le> 4081" "length (ie_bytes as) \<le> 4081 \<Longrightarrow> ie_appends [] as = as"
    using ie_appends_cases [OF a(2), of "[]"] ie_appends_all [of "[]" as] by auto
  have "cell_cfg_worker (Some h) envs job (cells, tcp) = Some (cells', if length (ie_bytes as) \<le> 4081 then snd (tcp_client_send tcp (cpri_frame ?h (ie_bytes as))) else tcp)"
    using l encode_built_sized [OF f(2), of CELL_CFG_RESP_BUF_SIZE "[]" ?h] e assms(2)
    by (cases cells') (auto simp: cell_cfg_worker_def cell_config_create_response_def message_bytes_def payload_bytes_def CELL_CFG_RESP_BUF_SIZE_def
        cpri_frame_length Let_def split: if_splits)
  then show ?thesis using a(1) cell_answers_inv [OF _ a(1)] by blast
qed

definition job_example :: cell_cfg_job where
  "job_example = \<lparr>jb_paau_id = 1, jb_bbu_id = 2, jb_port_num = 3, jb_serial_num = 4, jb_payload_len = 14,
     jb_payload = Some [0xE2, 5, 14, 0, 0, 1, 0, 0, 0, 0, 0, 0, 0, 3]\<rparr>"

theorem cell_request_answered_witness:
  "\<exists>cells' tcp'. cell_cfg_worker (Some (replicate 4096 0)) (\<lambda>k. quiet_env) job_example
      ((cell_table_start, tx_guard_start, \<lparr>po_open = True, po_script = [], po_out = []\<rparr>), \<lparr>po_open = True, po_script = [], po_out = []\<rparr>)
    = Some (cells', tcp') \<and> cells_inv (fst cells')"
proof -
  have p: "jb_payload job_example = Some [0xE2, 5, 14, 0, 0, 1, 0, 0, 0, 0, 0, 0, 0, 3]" "jb_payload_len job_example = 14"
    by (simp_all add: job_example_def)
  have "env_ok quiet_env" by (simp add: env_ok_def quiet_env_def)
  then show ?thesis
    using cell_request_answered [of "replicate 4096 0" job_example, OF _ p(1), of "\<lambda>k. quiet_env"
        "(cell_table_start, tx_guard_start, \<lparr>po_open = True, po_script = [], po_out = []\<rparr>)" "\<lparr>po_open = True, po_script = [], po_out = []\<rparr>"]
      cell_table_start_inv p(2) by auto
qed

end
