(* ===== verification/AlarmQuery.thy ===== *)
theory AlarmQuery
  imports AlarmManager ClientPorts InfoElements
begin

text \<open>
  The alarm query of alarm_query.c and its handler in msg_handler.c: a request names an alarm, all
  alarms of a code or all alarms, and is answered with one report for each active alarm that
  matches and is not older than a day, or with a single report that says there is none. The local
  time and the clock are arguments; every turn of the loop reads the clock anew.
\<close>

subsection \<open>Reports\<close>

abbreviation (input) ALARM_QUERY_ALL :: u32 where "ALARM_QUERY_ALL \<equiv> 0xFFFFFFFF"
abbreviation (input) ALARM_VALIDITY_VALID :: u16 where "ALARM_VALIDITY_VALID \<equiv> 0"
abbreviation (input) ALARM_VALIDITY_INVALID :: u16 where "ALARM_VALIDITY_INVALID \<equiv> 1"

definition alarm_query_init :: "bool \<Rightarrow> int \<times> bool" where
  "alarm_query_init initialized = (SUCCESS, True)"

definition alarm_query_cleanup :: "bool \<Rightarrow> bool" where
  "alarm_query_cleanup initialized = (if \<not> initialized then initialized else False)"

definition alarm_matches_query :: "alarm_record \<Rightarrow> u32 \<Rightarrow> u32 \<Rightarrow> bool" where
  "alarm_matches_query r query_code query_subcode =
     (if query_code = ALARM_QUERY_ALL \<and> query_subcode = ALARM_QUERY_ALL then True
      else if query_code \<noteq> ALARM_QUERY_ALL \<and> query_subcode = ALARM_QUERY_ALL then ar_alarm_code r = query_code
      else if query_code \<noteq> ALARM_QUERY_ALL \<and> query_subcode \<noteq> ALARM_QUERY_ALL
      then ar_alarm_code r = query_code \<and> ar_sub_code r = query_subcode
      else False)"

text \<open>The field of 20 bytes that \<open>strftime\<close> fills. It has room for a year of four digits; for any other
  year its contents are not defined and the result is \<open>None\<close>. Without a local time it stays empty.\<close>

definition stamp_text :: "(int \<Rightarrow> local_time option) \<Rightarrow> int \<Rightarrow> string option" where
  "stamp_text local t =
     (case local t of
        None \<Rightarrow> Some []
      | Some tm \<Rightarrow> if 1000 \<le> fst tm \<and> fst tm \<le> 9999 then Some (timestamp_text tm) else None)"

text \<open>The 134 bytes of the element, in the order of the packed structure.\<close>

definition query_report_ie :: "u16 \<Rightarrow> u32 \<Rightarrow> u32 \<Rightarrow> u32 \<Rightarrow> string \<Rightarrow> string \<Rightarrow> bytes" where
  "query_report_ie validity code sub clear_flag timestamp info =
     le16 validity @ le32 code @ le32 sub @ le32 clear_flag @ char_field 20 timestamp @ char_field 100 info"

text \<open>What both reports do with their element: message number 122, the rest of the header from the
  request, and a buffer of 2048 bytes. What \<open>tcp_client_send\<close> returns is not looked at.\<close>

definition query_reply_header :: "cpri_msg_header \<Rightarrow> cpri_msg_header" where
  "query_reply_header h = \<lparr>ch_msg_id = cpri_msg_code MSG_ALARM_REPORT_REQ_ACK, ch_msg_length = 0, ch_paau_id = ch_paau_id h,
     ch_bbu_id = ch_bbu_id h, ch_port_num = ch_port_num h, ch_serial_num = ch_serial_num h\<rparr>"

definition send_alarm_element :: "cpri_msg_header \<Rightarrow> bytes \<Rightarrow> port \<Rightarrow> (int \<times> port) option" where
  "send_alarm_element h ie p = do {
     let ie_len = (4 + of_nat (length ie) :: u16);
     let response = \<lparr>cm_header = query_reply_header h, cm_payload = Some (Outside (le16 1001 @ le16 ie_len @ ie)),
                     cm_payload_len = ucast ie_len\<rparr>;
     (len, buffer) \<leftarrow> cpri_encode_message [] response (replicate 2048 0) 2048;
     Some (if len > 0 then SUCCESS else ERROR_GENERAL,
           if len > 0 then snd (tcp_client_send p (take (nat len) buffer)) else p) }"

definition send_alarm_report_from_record ::
  "(int \<Rightarrow> local_time option) \<Rightarrow> cpri_msg_header \<Rightarrow> alarm_record \<Rightarrow> port \<Rightarrow> (int \<times> port) option" where
  "send_alarm_report_from_record local h r p = do {
     timestamp \<leftarrow> stamp_text local (ar_start_time r);
     send_alarm_element h (query_report_ie ALARM_VALIDITY_VALID (ar_alarm_code r) (ar_sub_code r)
       (if ar_active r then ALARM_CLEAR_FLAG_ACTIVE else ALARM_CLEAR_FLAG_CLEARED) timestamp (ar_additional_info r)) p }"

definition send_invalid_alarm_response ::
  "(int \<Rightarrow> local_time option) \<Rightarrow> int \<Rightarrow> cpri_msg_header \<Rightarrow> u32 \<Rightarrow> u32 \<Rightarrow> port \<Rightarrow> (int \<times> port) option" where
  "send_invalid_alarm_response local now h code sub p = do {
     timestamp \<leftarrow> stamp_text local now;
     send_alarm_element h (query_report_ie ALARM_VALIDITY_INVALID code sub ALARM_CLEAR_FLAG_CLEARED timestamp
       ''Alarm not found or already cleared'') p }"

subsection \<open>The request\<close>

text \<open>One turn of the loop: the number of reports so far and the connection.\<close>

definition query_turn :: "(int \<Rightarrow> local_time option) \<Rightarrow> cpri_msg_header \<Rightarrow> u32 \<Rightarrow> u32 \<Rightarrow> int \<Rightarrow> alarm_record
    \<Rightarrow> nat \<times> port \<Rightarrow> (nat \<times> port) option" where
  "query_turn local h query_code query_subcode now r st =
     (if \<not> ar_active r then Some st
      else if \<not> alarm_matches_query r query_code query_subcode then Some st
      else if now - ar_start_time r > 86400 then Some st
      else do {
        (ret, p) \<leftarrow> send_alarm_report_from_record local h r (snd st);
        Some (if ret = SUCCESS then fst st + 1 else fst st, p) })"

fun query_loop :: "(int \<Rightarrow> local_time option) \<Rightarrow> (nat \<Rightarrow> int) \<Rightarrow> cpri_msg_header \<Rightarrow> u32 \<Rightarrow> u32 \<Rightarrow> nat \<Rightarrow> alarm_record list
    \<Rightarrow> nat \<times> port \<Rightarrow> (nat \<times> port) option" where
  "query_loop local clock h query_code query_subcode i [] st = Some st"
| "query_loop local clock h query_code query_subcode i (r # rs) st =
     query_turn local h query_code query_subcode (clock i) r st \<bind> query_loop local clock h query_code query_subcode (Suc i) rs"

definition handle_alarm_query_request :: "bool \<Rightarrow> (int \<Rightarrow> local_time option) \<Rightarrow> (nat \<Rightarrow> int) \<Rightarrow> alarm_manager
    \<Rightarrow> cpri_msg_header \<Rightarrow> u32 \<Rightarrow> u32 \<Rightarrow> port \<Rightarrow> (int \<times> port) option" where
  "handle_alarm_query_request initialized local clock am h query_code query_subcode p =
     (if \<not> initialized then Some (ERROR_NOT_INITIALIZED, p)
      else case alarm_get_active_alarms am (int MAX_ALARM_RECORDS) of
        (ret, alarms) \<Rightarrow>
          if ret \<noteq> SUCCESS then Some (ret, p)
          else do {
            (reported_count, p) \<leftarrow> query_loop local clock h query_code query_subcode 0 alarms (0, p);
            if reported_count = 0
            then do {
              (ret, p) \<leftarrow> send_invalid_alarm_response local (clock (length alarms)) h query_code query_subcode p;
              Some (SUCCESS, p) }
            else Some (SUCCESS, p) })"

definition handle_alarm_query_req :: "bool \<Rightarrow> (int \<Rightarrow> local_time option) \<Rightarrow> (nat \<Rightarrow> int) \<Rightarrow> alarm_manager
    \<Rightarrow> pool \<Rightarrow> cpri_message \<Rightarrow> port \<Rightarrow> (int \<times> port) option" where
  "handle_alarm_query_req initialized local clock am pool msg p =
     (if cm_payload msg = None then Some (ERROR_INVALID_PARAM, p)
      else if cm_payload_len msg < 4 + 8 then Some (ERROR_INVALID_PARAM, p)
      else do {
        query_code \<leftarrow> read_le32 (message_bytes pool msg) 4;
        query_subcode \<leftarrow> read_le32 (message_bytes pool msg) 8;
        handle_alarm_query_request initialized local clock am (cm_header msg) query_code query_subcode p })"

subsection \<open>What a query asks for\<close>

text \<open>The keys a query names. A wildcard for the code with a definite sub code names none.\<close>

definition queried :: "u32 \<Rightarrow> u32 \<Rightarrow> (u32 \<times> u32) set" where
  "queried code sub =
     (if code = ALARM_QUERY_ALL then (if sub = ALARM_QUERY_ALL then UNIV else {})
      else {code} \<times> (if sub = ALARM_QUERY_ALL then UNIV else {sub}))"

lemma matches_queried: "alarm_matches_query r code sub \<longleftrightarrow> record_key r \<in> queried code sub"
  by (auto simp: alarm_matches_query_def queried_def record_key_def)

text \<open>The records that are reported: active, asked for, and of the last day when their turn comes.\<close>

definition query_hits :: "(nat \<Rightarrow> int) \<Rightarrow> u32 \<Rightarrow> u32 \<Rightarrow> (nat \<times> alarm_record) list \<Rightarrow> alarm_record list" where
  "query_hits clock code sub irs =
     map snd (filter (\<lambda>(i, r). record_key r \<in> queried code sub \<and> clock i \<le> ar_start_time r + 86400) irs)"

definition element_frame :: "cpri_msg_header \<Rightarrow> bytes \<Rightarrow> bytes" where
  "element_frame h ie = cpri_frame (query_reply_header h) (ie_bytes [(1001, ie)])"

definition report_frame :: "(int \<Rightarrow> local_time option) \<Rightarrow> cpri_msg_header \<Rightarrow> alarm_record \<Rightarrow> bytes" where
  "report_frame local h r = element_frame h (query_report_ie ALARM_VALIDITY_VALID (ar_alarm_code r) (ar_sub_code r)
     ALARM_CLEAR_FLAG_ACTIVE (the (stamp_text local (ar_start_time r))) (ar_additional_info r))"

definition missing_frame :: "(int \<Rightarrow> local_time option) \<Rightarrow> int \<Rightarrow> cpri_msg_header \<Rightarrow> u32 \<Rightarrow> u32 \<Rightarrow> bytes" where
  "missing_frame local now h code sub = element_frame h (query_report_ie ALARM_VALIDITY_INVALID code sub
     ALARM_CLEAR_FLAG_CLEARED (the (stamp_text local now)) ''Alarm not found or already cleared'')"

definition query_answer :: "(int \<Rightarrow> local_time option) \<Rightarrow> (nat \<Rightarrow> int) \<Rightarrow> alarm_manager \<Rightarrow> cpri_msg_header \<Rightarrow> u32 \<Rightarrow> u32
    \<Rightarrow> bytes list" where
  "query_answer local clock am h code sub =
     (let active = filter ar_active (am_records am);
          hits = query_hits clock code sub (enumerate 0 active)
      in if hits = [] then [missing_frame local (clock (length active)) h code sub] else map (report_frame local h) hits)"

text \<open>Sending several frames one after the other.\<close>

definition send_frames :: "bytes list \<Rightarrow> port \<Rightarrow> port" where
  "send_frames fs p = foldl (\<lambda>p f. snd (tcp_client_send p f)) p fs"

lemma query_report_ie_length [simp]: "length (query_report_ie v c s f t i) = 134"
  by (simp add: query_report_ie_def)

lemma send_alarm_element_frame:
  assumes "length ie = 134"
  shows "send_alarm_element h ie p = Some (SUCCESS, snd (tcp_client_send p (element_frame h ie)))"
proof -
  define m where "m = \<lparr>cm_header = query_reply_header h, cm_payload = Some (Outside (le16 1001 @ le16 (4 + of_nat (length ie)) @ ie)),
     cm_payload_len = ucast (4 + of_nat (length ie) :: u16)\<rparr>"
  have n: "unat (cm_payload_len m) = 138" using assms by (simp add: m_def)
  have pl: "cpri_payload [] m = ie_bytes [(1001, ie)]"
    using n assms by (simp add: cpri_payload_def m_def payload_bytes_def)
  have "cpri_msg_ok [] m" unfolding cpri_msg_ok_def pl n using assms by simp
  then have "cpri_encode_message [] m (replicate 2048 0) 2048
      = Some (153, cpri_frame (query_reply_header h) (ie_bytes [(1001, ie)]) @ replicate 1895 0)"
    using pl n by (subst cpri_encode_frame) (simp_all add: m_def)
  moreover have "length (cpri_frame (query_reply_header h) (ie_bytes [(1001, ie)])) = 153"
    using assms by (simp add: cpri_frame_length)
  ultimately show ?thesis
    unfolding send_alarm_element_def Let_def m_def [symmetric] by (simp add: element_frame_def)
qed

lemma query_loop_result:
  assumes "\<And>t. stamp_text local t \<noteq> None" "list_all ar_active rs"
  shows "query_loop local clock h code sub i rs (n, p) =
     Some (n + length (query_hits clock code sub (enumerate i rs)),
       send_frames (map (report_frame local h) (query_hits clock code sub (enumerate i rs))) p)"
  using assms(2)
proof (induction rs arbitrary: i n p)
  case Nil
  then show ?case by (simp add: query_hits_def send_frames_def)
next
  case (Cons r rs)
  obtain ts where ts: "stamp_text local (ar_start_time r) = Some ts" using assms(1) by blast
  have old: "clock i - ar_start_time r > 86400 \<longleftrightarrow> \<not> clock i \<le> ar_start_time r + 86400" by linarith
  show ?case
    using Cons ts
    by (simp add: query_turn_def matches_queried old query_hits_def send_frames_def send_alarm_report_from_record_def
        send_alarm_element_frame report_frame_def)
qed


lemma query_request_result:
  assumes "length (am_records am) = 64" "\<And>t. stamp_text local t \<noteq> None"
  shows "handle_alarm_query_request True local clock am h code sub p
     = Some (SUCCESS, send_frames (query_answer local clock am h code sub) p)"
proof -
  let ?active = "filter ar_active (am_records am)"
  have "length ?active \<le> 64" using assms(1) length_filter_le [of ar_active "am_records am"] by simp
  then have a: "alarm_get_active_alarms am (int MAX_ALARM_RECORDS) = (SUCCESS, ?active)"
    by (simp add: alarm_get_active_alarms_def MAX_ALARM_RECORDS_def)
  obtain ts where ts: "stamp_text local (clock (length ?active)) = Some ts" using assms(2) by blast
  have "list_all ar_active ?active" by (simp add: list_all_iff)
  from query_loop_result [OF assms(2) this, of clock h code sub 0 0 p] ts show ?thesis
    by (simp add: handle_alarm_query_request_def a query_answer_def Let_def send_invalid_alarm_response_def
        send_alarm_element_frame missing_frame_def send_frames_def)
qed

lemma in_set_enumerateD: "(i, x) \<in> set (enumerate n xs) \<Longrightarrow> x \<in> set xs"
  by (auto simp: in_set_enumerate_eq)

text \<open>An alarm that is active but older than a day at every turn.\<close>

lemma stale_not_hit:
  assumes inv: "am_inv am" and f: "find_alarm_record am code sub = Some k"
    and old: "\<And>i. clock i > ar_start_time (am_records am ! k) + 86400"
    and def: "code \<noteq> ALARM_QUERY_ALL" "sub \<noteq> ALARM_QUERY_ALL"
  shows "query_hits clock code sub (enumerate 0 (filter ar_active (am_records am))) = []"
proof -
  let ?rs = "am_records am"
  have "\<not> clock i \<le> ar_start_time r + 86400"
    if "(i, r) \<in> set (enumerate 0 (filter ar_active ?rs))" "record_key r \<in> queried code sub" for i r
  proof -
    have "r \<in> set (filter ar_active ?rs)" using that(1) by (rule in_set_enumerateD)
    then obtain j where j: "j < length ?rs" "?rs ! j = r" "ar_active r" by (auto simp: in_set_conv_nth)
    have "record_key r = (code, sub)" using that(2) def by (simp add: queried_def)
    moreover have "distinct (key_list ?rs)" "length ?rs = 64" using inv by (simp_all add: am_inv_def)
    ultimately have "j = k" using find_alarm_Some [OF f] j by (intro key_list_distinct_index [of ?rs]) simp_all
    then show ?thesis using old [of i] j by simp
  qed
  then show ?thesis by (auto simp: query_hits_def filter_empty_conv)
qed

section \<open>Properties\<close>

definition query_example :: cpri_message where
  "query_example = \<lparr>cm_header = \<lparr>ch_msg_id = 121, ch_msg_length = 27, ch_paau_id = 1, ch_bbu_id = 2, ch_port_num = 3, ch_serial_num = 9\<rparr>,
     cm_payload = Some (Outside (le16 1101 @ le16 12 @ le32 ALARM_CODE_LO_UNLOCK @ le32 0)), cm_payload_len = 12\<rparr>"

definition local_example :: "int \<Rightarrow> local_time option" where
  "local_example t = Some (2026, 1, 1, 0, 0, 0)"

definition port_example :: port where
  "port_example = \<lparr>po_open = True, po_script = [], po_out = []\<rparr>"

lemma query_example_reads:
  "read_le32 (message_bytes [] query_example) 4 = Some ALARM_CODE_LO_UNLOCK" "read_le32 (message_bytes [] query_example) 8 = Some 0"
  "cm_payload query_example \<noteq> None" "12 \<le> unat (cm_payload_len query_example)" "stamp_text local_example t \<noteq> None"
  by (simp_all add: query_example_def message_bytes_def payload_bytes_def local_example_def stamp_text_def
      read_le32_def arr_get_def le16_def le32_def of_le32_def)

text \<open>C25. An alarm query is answered, on every path, with exactly what it asks for: one report for each record
  of the table that is active, named by the query and not older than a day when its turn comes, in the order of the
  table, or a single report marked as invalid when there is none. Every report goes out under the
  identity and the serial number of the request.\<close>

theorem alarm_query_answered:
  assumes "cm_payload msg \<noteq> None" "12 \<le> unat (cm_payload_len msg)"
    and "read_le32 (message_bytes pool msg) 4 = Some code" "read_le32 (message_bytes pool msg) 8 = Some sub"
    and "length (am_records am) = 64" "\<And>t. stamp_text local t \<noteq> None"
  shows "handle_alarm_query_req True local clock am pool msg p
     = Some (SUCCESS, send_frames (query_answer local clock am (cm_header msg) code sub) p)"
proof -
  have "\<not> cm_payload_len msg < 12" using assms(2) by (simp add: word_less_nat_alt)
  then show ?thesis using assms query_request_result by (simp add: handle_alarm_query_req_def)
qed

theorem alarm_query_answered_witness:
  "handle_alarm_query_req True local_example (\<lambda>i. 50) am_start [] query_example port_example
     = Some (SUCCESS, send_frames [missing_frame local_example 50 (cm_header query_example) ALARM_CODE_LO_UNLOCK 0] port_example)"
proof -
  have 1: "length (am_records am_start) = 64" using am_start_inv(1) by (simp add: am_inv_def)
  have "filter ar_active (am_records am_start) = []"
    using am_start_inv(3) by (simp add: active_keys_def key_list_def)
  then have "query_answer local_example (\<lambda>i. 50) am_start h c s = [missing_frame local_example 50 h c s]" for h c s
    by (simp add: query_answer_def query_hits_def)
  then show ?thesis
    using alarm_query_answered [OF query_example_reads(3,4,1,2) 1 query_example_reads(5), of "\<lambda>i. 50"] by simp
qed

text \<open>An alarm that has been active for more than a day is denied: a query for it is answered with the
  single report "Alarm not found or already cleared", marked as invalid and cleared, although the alarm is
  active in the table.\<close>

theorem stale_alarm_denied:
  assumes "am_inv am" "find_alarm_record am code sub = Some k" "\<And>i. clock i > ar_start_time (am_records am ! k) + 86400"
    and "code \<noteq> ALARM_QUERY_ALL" "sub \<noteq> ALARM_QUERY_ALL" "\<And>t. stamp_text local t \<noteq> None"
  shows "alarm_is_active am code sub \<and> handle_alarm_query_request True local clock am h code sub p
     = Some (SUCCESS, snd (tcp_client_send p (missing_frame local (clock (card (active_keys am))) h code sub)))"
proof -
  have "card (active_keys am) = length (filter ar_active (am_records am))"
    using active_keys_card [OF assms(1)] by (simp add: key_list_def)
  then show ?thesis
    using stale_not_hit [OF assms(1-5)] query_request_result [OF _ assms(6), of am clock h code sub p] assms(1,2)
    by (simp add: query_answer_def Let_def send_frames_def alarm_is_active_def am_inv_def)
qed


definition old_alarm :: alarm_manager where
  "old_alarm = am_start\<lparr>am_records := alarm_record_zero\<lparr>ar_active := True, ar_alarm_code := ALARM_CODE_LO_UNLOCK\<rparr>
     # replicate 63 alarm_record_zero, am_alarm_count := 1\<rparr>"

theorem stale_alarm_denied_witness:
  "alarm_is_active old_alarm ALARM_CODE_LO_UNLOCK 0
     \<and> handle_alarm_query_request True local_example (\<lambda>i. 86401) old_alarm (cm_header query_example) ALARM_CODE_LO_UNLOCK 0 port_example
       = Some (SUCCESS, snd (tcp_client_send port_example (missing_frame local_example 86401 (cm_header query_example) ALARM_CODE_LO_UNLOCK 0)))"
proof -
  have "am_inv old_alarm" by (simp add: am_inv_def old_alarm_def key_list_def alarm_record_zero_def)
  moreover have "find_alarm_record old_alarm ALARM_CODE_LO_UNLOCK 0 = Some 0"
    by (simp add: find_alarm_record_def old_alarm_def MAX_ALARM_RECORDS_def upt_conv_Cons alarm_record_zero_def)
  moreover have "ar_start_time (am_records old_alarm ! 0) = 0" by (simp add: old_alarm_def alarm_record_zero_def)
  ultimately show ?thesis
    using stale_alarm_denied [of old_alarm ALARM_CODE_LO_UNLOCK 0 0 "\<lambda>i. 86401" local_example] query_example_reads(5) by simp
qed

end
