(* ===== verification/ParamConfig.thy ===== *)
theory ParamConfig
  imports FpgaHandler InfoElements
begin

text \<open>
  The parameter configuration of param_config.c and its handler in msg_handler.c: a request sets the
  clock of the system, the period of the load statistics and the mode of the CPRI port, each by an
  element of its payload, and is answered with one result for each kind of element it has. The
  conversion of a calendar time is a function \<open>mktime\<close> of the C library that depends on the time zone;
  it and the success of \<open>settimeofday\<close> are arguments.
\<close>

subsection \<open>Elements and state\<close>

abbreviation (input) IE_SYSTEM_TIME_CONFIG :: u16 where "IE_SYSTEM_TIME_CONFIG \<equiv> 11"
abbreviation (input) IE_CPU_PERIOD_CONFIG :: u16 where "IE_CPU_PERIOD_CONFIG \<equiv> 502"
abbreviation (input) IE_CPRI_WORK_MODE_CONFIG :: u16 where "IE_CPRI_WORK_MODE_CONFIG \<equiv> 504"
abbreviation (input) IE_SYSTEM_TIME_CONFIG_RESP :: u16 where "IE_SYSTEM_TIME_CONFIG_RESP \<equiv> 551"
abbreviation (input) IE_CPU_PERIOD_CONFIG_RESP :: u16 where "IE_CPU_PERIOD_CONFIG_RESP \<equiv> 553"
abbreviation (input) IE_CPRI_WORK_MODE_CONFIG_RESP :: u16 where "IE_CPRI_WORK_MODE_CONFIG_RESP \<equiv> 555"
abbreviation (input) CPRI_MODE_LOAD_SHARING :: u32 where "CPRI_MODE_LOAD_SHARING \<equiv> 3"
abbreviation (input) CONFIG_RESULT_SUCCESS :: u32 where "CONFIG_RESULT_SUCCESS \<equiv> 0"
abbreviation (input) CONFIG_RESULT_FAILURE :: u32 where "CONFIG_RESULT_FAILURE \<equiv> 1"
abbreviation (input) INVALID_FIBER_PORT :: u8 where "INVALID_FIBER_PORT \<equiv> 0xFF"

record system_time_config_ie =
  st_second :: u8
  st_minute :: u8
  st_hour :: u8
  st_day :: u8
  st_month :: u8
  st_year :: u16

text \<open>\<open>struct tm\<close>, and the calls of the library.\<close>

record tm_struct =
  tm_year :: int
  tm_mon :: int
  tm_mday :: int
  tm_hour :: int
  tm_min :: int
  tm_sec :: int

record clock_calls =
  cl_mktime :: "tm_struct \<Rightarrow> int"
  cl_settimeofday :: "int \<Rightarrow> bool"

text \<open>The clock of the system as it was last set, \<open>g_cpu_stat_period\<close>, the serial port of the FPGA and
  the static buffer of the response.\<close>

record param_state =
  ps_clock :: "int option"
  ps_cpu_stat_period :: u32
  ps_uart :: port
  ps_resp_buffer :: bytes

subsection \<open>Setting\<close>

definition time_fields :: "system_time_config_ie \<Rightarrow> tm_struct" where
  "time_fields ie = \<lparr>tm_year = int (unat (st_year ie)) - 1900, tm_mon = int (unat (st_month ie)) - 1, tm_mday = int (unat (st_day ie)),
     tm_hour = int (unat (st_hour ie)), tm_min = int (unat (st_minute ie)), tm_sec = int (unat (st_second ie))\<rparr>"

definition param_config_set_system_time :: "clock_calls \<Rightarrow> system_time_config_ie \<Rightarrow> param_state \<Rightarrow> int \<times> param_state" where
  "param_config_set_system_time k ie s =
     (if st_second ie > 59 \<or> st_minute ie > 59 \<or> st_hour ie > 23 \<or> st_day ie < 1 \<or> st_day ie > 31 \<or> st_month ie < 1 \<or> st_month ie > 12
      then (ERROR_INVALID_PARAM, s)
      else let new_time = cl_mktime k (time_fields ie)
           in if new_time = - 1 then (ERROR_GENERAL, s)
              else if \<not> cl_settimeofday k new_time then (ERROR_GENERAL, s)
              else (SUCCESS, s\<lparr>ps_clock := Some new_time\<rparr>))"

definition param_config_set_cpu_period :: "u32 \<Rightarrow> param_state \<Rightarrow> int \<times> param_state" where
  "param_config_set_cpu_period period s =
     (if period < 1 \<or> period > 3600 then (ERROR_INVALID_PARAM, s) else (SUCCESS, s\<lparr>ps_cpu_stat_period := period\<rparr>))"

definition param_config_set_cpri_mode :: "u32 \<Rightarrow> param_state \<Rightarrow> (int \<times> param_state) option" where
  "param_config_set_cpri_mode work_mode s =
     (if work_mode > CPRI_MODE_LOAD_SHARING then Some (ERROR_INVALID_PARAM, s)
      else do {
        (ret, uart) \<leftarrow> fpga_handler_set_work_mode (ps_uart s) work_mode;
        Some (if ret \<noteq> SUCCESS then (ret, s\<lparr>ps_uart := uart\<rparr>) else (SUCCESS, s\<lparr>ps_uart := uart\<rparr>)) })"

definition param_config_get_cpu_period :: "param_state \<Rightarrow> u32" where
  "param_config_get_cpu_period s = ps_cpu_stat_period s"

subsection \<open>The loop over the elements\<close>

record config_run =
  cr_time_result :: u32
  cr_period_result :: u32
  cr_mode_result :: u32
  cr_main_port :: u8
  cr_sub_port :: u8
  cr_time_processed :: bool
  cr_period_processed :: bool
  cr_mode_processed :: bool

definition config_run_start :: config_run where
  "config_run_start = \<lparr>cr_time_result = CONFIG_RESULT_FAILURE, cr_period_result = CONFIG_RESULT_FAILURE,
     cr_mode_result = CONFIG_RESULT_FAILURE, cr_main_port = INVALID_FIBER_PORT, cr_sub_port = INVALID_FIBER_PORT,
     cr_time_processed = False, cr_period_processed = False, cr_mode_processed = False\<rparr>"

text \<open>Reading the packed structure of the clock at its place in the payload.\<close>

definition read_system_time :: "bytes \<Rightarrow> nat \<Rightarrow> system_time_config_ie option" where
  "read_system_time data i = do {
     s \<leftarrow> arr_get data (i + 4); mi \<leftarrow> arr_get data (i + 5); h \<leftarrow> arr_get data (i + 6); d \<leftarrow> arr_get data (i + 7);
     mo \<leftarrow> arr_get data (i + 8); y \<leftarrow> read_le16 data (i + 9);
     Some \<lparr>st_second = s, st_minute = mi, st_hour = h, st_day = d, st_month = mo, st_year = y\<rparr> }"

definition config_ie :: "clock_calls \<Rightarrow> fpga_state_manager \<Rightarrow> bytes \<Rightarrow> u16 \<Rightarrow> u16 \<Rightarrow> nat \<Rightarrow> config_run \<times> param_state
    \<Rightarrow> (config_run \<times> param_state) option" where
  "config_ie k fpga data ie_type ie_length offset rs =
     (case rs of (r, s) \<Rightarrow>
        if ie_type = IE_SYSTEM_TIME_CONFIG
        then if ie_length < 11 then Some (r\<lparr>cr_time_processed := True\<rparr>, s)
             else do {
               ie \<leftarrow> read_system_time data offset;
               let (ret, s) = param_config_set_system_time k ie s;
               let r = (if ret = SUCCESS then r\<lparr>cr_time_result := CONFIG_RESULT_SUCCESS\<rparr> else r);
               Some (r\<lparr>cr_time_processed := True\<rparr>, s) }
        else if ie_type = IE_CPU_PERIOD_CONFIG
        then if ie_length < 8 then Some (r\<lparr>cr_period_processed := True\<rparr>, s)
             else do {
               period \<leftarrow> read_le32 data (offset + 4);
               let (ret, s) = param_config_set_cpu_period period s;
               let r = (if ret = SUCCESS then r\<lparr>cr_period_result := CONFIG_RESULT_SUCCESS\<rparr> else r);
               Some (r\<lparr>cr_period_processed := True\<rparr>, s) }
        else if ie_type = IE_CPRI_WORK_MODE_CONFIG
        then if ie_length < 8 then Some (r\<lparr>cr_mode_processed := True\<rparr>, s)
             else do {
               work_mode \<leftarrow> read_le32 data (offset + 4);
               (ret, s) \<leftarrow> param_config_set_cpri_mode work_mode s;
               let r = (if ret = SUCCESS
                        then case fpga_handler_get_fiber_ports fpga (cr_main_port r) (cr_sub_port r) of
                               (ret, main_port, sub_port) \<Rightarrow>
                                 if ret \<noteq> SUCCESS
                                 then r\<lparr>cr_mode_result := CONFIG_RESULT_SUCCESS, cr_main_port := 0, cr_sub_port := INVALID_FIBER_PORT\<rparr>
                                 else r\<lparr>cr_mode_result := CONFIG_RESULT_SUCCESS, cr_main_port := main_port, cr_sub_port := sub_port\<rparr>
                        else r);
               Some (r\<lparr>cr_mode_processed := True\<rparr>, s) }
        else Some (r, s))"

text \<open>The offset and the length have 16 bits; the comparisons are done on \<open>int\<close>.\<close>

partial_function (option) config_loop :: "clock_calls \<Rightarrow> fpga_state_manager \<Rightarrow> bytes \<Rightarrow> u16 \<Rightarrow> u16 \<Rightarrow> config_run \<times> param_state
    \<Rightarrow> (config_run \<times> param_state) option" where
  "config_loop k fpga data payload_len offset rs =
     (if offset < payload_len
      then if unat offset + 4 > unat payload_len then Some rs
           else do {
             ie_type \<leftarrow> read_le16 data (unat offset);
             ie_length \<leftarrow> read_le16 data (unat offset + 2);
             if ie_length < 4 \<or> unat offset + unat ie_length > unat payload_len then Some rs
             else do {
               rs \<leftarrow> config_ie k fpga data ie_type ie_length (unat offset) rs;
               config_loop k fpga data payload_len (offset + ie_length) rs } }
      else Some rs)"

subsection \<open>The response\<close>

text \<open>An element of the response is put at the offset when its kind was seen.\<close>

definition put_resp :: "bool \<Rightarrow> bytes \<Rightarrow> bytes \<times> u16 \<Rightarrow> (bytes \<times> u16) option" where
  "put_resp processed ie bo =
     (if processed then do { buf \<leftarrow> mem_put (fst bo) (unat (snd bo)) ie; Some (buf, snd bo + of_nat (length ie)) } else Some bo)"

definition handle_config_ie :: "clock_calls \<Rightarrow> fpga_state_manager \<Rightarrow> pool \<Rightarrow> cpri_message \<Rightarrow> cpri_message \<Rightarrow> param_state
    \<Rightarrow> (int \<times> cpri_message \<times> param_state) option" where
  "handle_config_ie k fpga pool request response s = do {
     let data = message_bytes pool request;
     let payload_len = (ucast (ch_msg_length (cm_header request) - 15) :: u16);
     (r, s) \<leftarrow> config_loop k fpga data payload_len 0 (config_run_start, s);
     bo \<leftarrow> put_resp (cr_time_processed r) (le16 IE_SYSTEM_TIME_CONFIG_RESP @ le16 8 @ le32 (cr_time_result r)) (ps_resp_buffer s, 0);
     bo \<leftarrow> put_resp (cr_period_processed r) (le16 IE_CPU_PERIOD_CONFIG_RESP @ le16 8 @ le32 (cr_period_result r)) bo;
     (resp_buffer, resp_offset) \<leftarrow> put_resp (cr_mode_processed r)
        (le16 IE_CPRI_WORK_MODE_CONFIG_RESP @ le16 10 @ [cr_main_port r, cr_sub_port r] @ le32 (cr_mode_result r)) bo;
     Some (SUCCESS, response\<lparr>cm_header := (cm_header response)\<lparr>ch_msg_id := 62, ch_msg_length := 15 + ucast resp_offset,
              ch_serial_num := ch_serial_num (cm_header request)\<rparr>,
           cm_payload := Some (Outside resp_buffer), cm_payload_len := ucast resp_offset\<rparr>,
        s\<lparr>ps_resp_buffer := resp_buffer\<rparr>) }"

definition param_config_handle_request :: "clock_calls \<Rightarrow> fpga_state_manager \<Rightarrow> pool \<Rightarrow> cpri_message \<Rightarrow> cpri_message \<Rightarrow> param_state
    \<Rightarrow> (int \<times> cpri_message \<times> param_state) option" where
  "param_config_handle_request k fpga pool request response s =
     (if ch_msg_id (cm_header request) \<noteq> 61 then Some (ERROR_INVALID_PARAM, response, s)
      else handle_config_ie k fpga pool request response s)"

definition zero_message :: cpri_message where
  "zero_message = \<lparr>cm_header = \<lparr>ch_msg_id = 0, ch_msg_length = 0, ch_paau_id = 0, ch_bbu_id = 0, ch_port_num = 0, ch_serial_num = 0\<rparr>,
     cm_payload = None, cm_payload_len = 0\<rparr>"

definition handle_param_config :: "clock_calls \<Rightarrow> fpga_state_manager \<Rightarrow> pool \<Rightarrow> cpri_message \<Rightarrow> param_state \<times> port
    \<Rightarrow> (int \<times> param_state \<times> port) option" where
  "handle_param_config k fpga pool msg st = do {
     (ret, response, s) \<leftarrow> param_config_handle_request k fpga pool msg zero_message (fst st);
     if ret \<noteq> SUCCESS then Some (ret, s, snd st)
     else do {
       (len, buffer) \<leftarrow> cpri_encode_message pool response (replicate 2048 0) 2048;
       Some (if len \<le> 0 then (ERROR_GENERAL, s, snd st)
             else (SUCCESS, s, snd (tcp_client_send (snd st) (take (nat len) buffer)))) } }"

subsection \<open>What a request asks for\<close>

text \<open>An element that sets the clock, the period or the mode, and the value it has.\<close>

definition time_of :: "bytes \<Rightarrow> system_time_config_ie" where
  "time_of d = \<lparr>st_second = d ! 0, st_minute = d ! 1, st_hour = d ! 2, st_day = d ! 3, st_month = d ! 4, st_year = of_le16 (d ! 5) (d ! 6)\<rparr>"

definition word_of :: "bytes \<Rightarrow> u32" where
  "word_of d = of_le32 (d ! 0) (d ! 1) (d ! 2) (d ! 3)"

definition time_ok :: "system_time_config_ie \<Rightarrow> bool" where
  "time_ok ie \<longleftrightarrow> st_second ie \<le> 59 \<and> st_minute ie \<le> 59 \<and> st_hour ie \<le> 23 \<and> st_day ie \<noteq> 0 \<and> st_day ie \<le> 31 \<and> st_month ie \<noteq> 0 \<and> st_month ie \<le> 12"

definition time_set :: "clock_calls \<Rightarrow> u16 \<times> bytes \<Rightarrow> int option" where
  "time_set k = (\<lambda>(t, d). let v = cl_mktime k (time_fields (time_of d))
     in if t = IE_SYSTEM_TIME_CONFIG \<and> 7 \<le> length d \<and> time_ok (time_of d) \<and> v \<noteq> - 1 \<and> cl_settimeofday k v then Some v else None)"

definition period_set :: "u16 \<times> bytes \<Rightarrow> u32 option" where
  "period_set = (\<lambda>(t, d). if t = IE_CPU_PERIOD_CONFIG \<and> 4 \<le> length d \<and> word_of d \<noteq> 0 \<and> word_of d \<le> 3600 then Some (word_of d) else None)"

definition mode_set :: "u16 \<times> bytes \<Rightarrow> u32 option" where
  "mode_set = (\<lambda>(t, d). if t = IE_CPRI_WORK_MODE_CONFIG \<and> 4 \<le> length d \<and> word_of d \<le> 3 then Some (word_of d) else None)"

text \<open>The last value of a kind counts.\<close>

definition last_set :: "('e \<Rightarrow> 'v option) \<Rightarrow> 'e list \<Rightarrow> 'v \<Rightarrow> 'v" where
  "last_set sel es v = fold (\<lambda>e v. case sel e of None \<Rightarrow> v | Some w \<Rightarrow> w) es v"

text \<open>Every mode goes to the FPGA; whether one of the transfers succeeded.\<close>

fun send_modes :: "u32 list \<Rightarrow> port \<Rightarrow> bool \<times> port" where
  "send_modes [] uart = (False, uart)"
| "send_modes (w # ws) uart =
     (let (ret, uart) = uart_client_send uart (fpga_frame 2 (be32 w)); (ok, uart) = send_modes ws uart in (ret = SUCCESS \<or> ok, uart))"

definition modes_asked :: "(u16 \<times> bytes) list \<Rightarrow> u32 list" where
  "modes_asked es = List.map_filter mode_set es"

definition has_kind :: "u16 \<Rightarrow> (u16 \<times> bytes) list \<Rightarrow> bool" where
  "has_kind t es \<longleftrightarrow> t \<in> fst ` set es"

definition result_of :: "bool \<Rightarrow> bytes" where
  "result_of ok = le32 (if ok then CONFIG_RESULT_SUCCESS else CONFIG_RESULT_FAILURE)"

definition fiber_ports :: "fpga_state_manager \<Rightarrow> bool \<Rightarrow> bytes" where
  "fiber_ports fpga ok = (if \<not> ok then [0xFF, 0xFF] else if fs_status_valid fpga
     then [sd_main_fiber_num (sf_data (fs_current_status fpga)), sd_backup_fiber_num (sf_data (fs_current_status fpga))] else [0, 0xFF])"

definition config_answers :: "clock_calls \<Rightarrow> fpga_state_manager \<Rightarrow> port \<Rightarrow> (u16 \<times> bytes) list \<Rightarrow> (u16 \<times> bytes) list" where
  "config_answers k fpga uart es =
     (if has_kind IE_SYSTEM_TIME_CONFIG es then [(IE_SYSTEM_TIME_CONFIG_RESP, result_of (list_ex (\<lambda>e. time_set k e \<noteq> None) es))] else [])
   @ (if has_kind IE_CPU_PERIOD_CONFIG es then [(IE_CPU_PERIOD_CONFIG_RESP, result_of (list_ex (\<lambda>e. period_set e \<noteq> None) es))] else [])
   @ (if has_kind IE_CPRI_WORK_MODE_CONFIG es
      then let ok = fst (send_modes (modes_asked es) uart) in [(IE_CPRI_WORK_MODE_CONFIG_RESP, fiber_ports fpga ok @ result_of ok)] else [])"

subsection \<open>The loop does what the request asks for\<close>

definition config_step :: "clock_calls \<Rightarrow> fpga_state_manager \<Rightarrow> u16 \<times> bytes \<Rightarrow> config_run \<times> param_state \<Rightarrow> config_run \<times> param_state" where
  "config_step k fpga e rs =
     (case rs of (r, s) \<Rightarrow>
        if fst e = IE_SYSTEM_TIME_CONFIG
        then (case time_set k e of
                None \<Rightarrow> (r\<lparr>cr_time_processed := True\<rparr>, s)
              | Some v \<Rightarrow> (r\<lparr>cr_time_result := CONFIG_RESULT_SUCCESS, cr_time_processed := True\<rparr>, s\<lparr>ps_clock := Some v\<rparr>))
        else if fst e = IE_CPU_PERIOD_CONFIG
        then (case period_set e of
                None \<Rightarrow> (r\<lparr>cr_period_processed := True\<rparr>, s)
              | Some v \<Rightarrow> (r\<lparr>cr_period_result := CONFIG_RESULT_SUCCESS, cr_period_processed := True\<rparr>, s\<lparr>ps_cpu_stat_period := v\<rparr>))
        else if fst e = IE_CPRI_WORK_MODE_CONFIG
        then (case mode_set e of
                None \<Rightarrow> (r\<lparr>cr_mode_processed := True\<rparr>, s)
              | Some w \<Rightarrow>
                  let (ret, uart) = uart_client_send (ps_uart s) (fpga_frame 2 (be32 w)); ports = fiber_ports fpga True
                  in (if ret = SUCCESS
                      then r\<lparr>cr_mode_result := CONFIG_RESULT_SUCCESS, cr_main_port := ports ! 0, cr_sub_port := ports ! 1, cr_mode_processed := True\<rparr>
                      else r\<lparr>cr_mode_processed := True\<rparr>, s\<lparr>ps_uart := uart\<rparr>))
        else (r, s))"

lemma set_system_time_spec:
  "7 \<le> length d \<Longrightarrow> param_config_set_system_time k (time_of d) s = (case time_set k (11, d) of
     Some v \<Rightarrow> (SUCCESS, s\<lparr>ps_clock := Some v\<rparr>)
   | None \<Rightarrow> (if time_ok (time_of d) then ERROR_GENERAL else ERROR_INVALID_PARAM, s))"
  by (auto simp: param_config_set_system_time_def time_set_def time_ok_def Let_def not_less)

lemma set_cpu_period_spec:
  "4 \<le> length d \<Longrightarrow> param_config_set_cpu_period (word_of d) s = (case period_set (502, d) of
     Some v \<Rightarrow> (SUCCESS, s\<lparr>ps_cpu_stat_period := v\<rparr>) | None \<Rightarrow> (ERROR_INVALID_PARAM, s))"
  by (auto simp: param_config_set_cpu_period_def period_set_def not_less)

lemma set_cpri_mode_spec:
  "4 \<le> length d \<Longrightarrow> param_config_set_cpri_mode (word_of d) s = Some (case mode_set (504, d) of
     Some w \<Rightarrow> (fst (uart_client_send (ps_uart s) (fpga_frame 2 (be32 w))), s\<lparr>ps_uart := snd (uart_client_send (ps_uart s) (fpga_frame 2 (be32 w)))\<rparr>)
   | None \<Rightarrow> (ERROR_INVALID_PARAM, s))"
  by (auto simp: param_config_set_cpri_mode_def mode_set_def fpga_commands not_less split_beta)

text \<open>Reading inside the data of an element.\<close>

lemma element_reads:
  fixes m i :: nat and buf :: bytes
  defines "d \<equiv> take m (drop i buf)"
  shows "\<And>j. j < length d \<Longrightarrow> arr_get buf (i + j) = Some (d ! j)"
    "4 \<le> length d \<Longrightarrow> read_le32 buf i = Some (word_of d)"
    "7 \<le> length d \<Longrightarrow> 4 \<le> i \<Longrightarrow> read_system_time buf (i - 4) = Some (time_of d)"
proof -
  show nth: "arr_get buf (i + j) = Some (d ! j)" if "j < length d" for j
    using that by (auto simp: d_def arr_get_def)
  show "4 \<le> length d \<Longrightarrow> read_le32 buf i = Some (word_of d)"
    using nth [of 0] nth [of 1] nth [of 2] nth [of 3] by (cases "d = []") (simp_all add: read_le32_def word_of_def)
  show "read_system_time buf (i - 4) = Some (time_of d)" if l: "7 \<le> length d" "4 \<le> i"
  proof -
    obtain o4 where "i = o4 + 4" using l(2) by (metis add.commute le_Suc_ex)
    then show ?thesis
      using l(1) nth [of 0] nth [of 1] nth [of 2] nth [of 3] nth [of 4] nth [of 5] nth [of 6]
      by (cases "d = []") (simp_all add: read_system_time_def read_le16_def time_of_def add.commute)
  qed
qed

lemma config_ie_step:
  assumes n: "4 \<le> unat n" "i + unat n \<le> length buf"
  shows "config_ie k fpga buf t n i rs = Some (config_step k fpga (t, take (unat n - 4) (drop (i + 4) buf)) rs)"
proof -
  obtain r s where rs: "rs = (r, s)" by (cases rs)
  define d where "d = take (unat n - 4) (drop (i + 4) buf)"
  have ld: "length d = unat n - 4" using n by (simp add: d_def)
  have c: "n < 11 \<longleftrightarrow> \<not> 7 \<le> length d" "n < 8 \<longleftrightarrow> \<not> 4 \<le> length d" using ld n(1) by (auto simp: word_less_nat_alt)
  note w = element_reads(2) [of "unat n - 4" "i + 4" buf, folded d_def]
  note y = element_reads(3) [of "unat n - 4" "i + 4" buf, folded d_def, simplified]
  have short: "\<not> 7 \<le> length d \<Longrightarrow> time_set k (11, d) = None" "\<not> 4 \<le> length d \<Longrightarrow> period_set (502, d) = None" "\<not> 4 \<le> length d \<Longrightarrow> mode_set (504, d) = None"
    by (simp_all add: time_set_def period_set_def mode_set_def Let_def)
  consider "t = 11" | "t = 502" | "t = 504" | "t \<notin> {11, 502, 504}" by blast
  then have "config_ie k fpga buf t n i (r, s) = Some (config_step k fpga (t, d) (r, s))"
  proof cases
    case 1
    then show ?thesis
      by (cases "7 \<le> length d") (simp_all add: config_ie_def config_step_def c y set_system_time_spec short Let_def split: option.split)
  next
    case 2
    then show ?thesis
      by (cases "4 \<le> length d") (simp_all add: config_ie_def config_step_def c w set_cpu_period_spec short Let_def split: option.split)
  next
    case 3
    then show ?thesis
      by (cases "4 \<le> length d") (simp_all add: config_ie_def config_step_def c w set_cpri_mode_spec short Let_def split_beta
          fpga_handler_get_fiber_ports_def fiber_ports_def split: option.split)
  next
    case 4
    then show ?thesis by (simp add: config_ie_def config_step_def)
  qed
  then show ?thesis unfolding d_def rs .
qed

interpretation config: ie_visitor "\<lambda>buf t n i. config_ie k fpga buf t n (unat i)" "\<lambda>t d rs. Some (config_step k fpga (t, d) rs)" for k fpga
  by unfold_locales (rule config_ie_step)

lemma fold_ies_Some: "fold_ies (\<lambda>t d rs. Some (f (t, d) rs)) es st = Some (fold f es st)"
  by (induction es arbitrary: st) auto

text \<open>The loop with its offset of 16 bits is the walk.\<close>

lemma config_loop_walk:
  assumes "unat n \<le> length buf" "unat i \<le> unat n"
  shows "config_loop k fpga buf n i rs = ie_loop (\<lambda>buf t n i. config_ie k fpga buf t n (unat i)) buf (ucast n) (ucast i) rs"
  using assms(2)
proof (induction "unat n - unat i" arbitrary: i rs rule: less_induct)
  case less
  have b: "unat n < 65536" by (rule u16_bound)
  have u: "unat (ucast i :: u32) = unat i" "unat (ucast n :: u32) = unat n" "unat ((ucast i :: u32) + 4) = unat i + 4" "unat ((ucast i :: u32) + 2) = unat i + 2"
    using less.prems b by (simp_all add: unat_ucast_up u32_add_nat)
  have g: "(ucast i :: u32) + 4 \<le> ucast n \<longleftrightarrow> i < n \<and> \<not> unat i + 4 > unat n" unfolding u32_le_nat u by (auto simp: word_less_nat_alt)
  show ?case
  proof (cases "i < n \<and> \<not> unat i + 4 > unat n")
    case False
    then show ?thesis using g by (subst config_loop.simps, subst ie_loop.simps) auto
  next
    case True
    obtain t l where rd: "read_le16 buf (unat i) = Some t" "read_le16 buf (unat i + 2) = Some l"
      using True assms(1) read_le16_at [of "unat i" buf] read_le16_at [of "unat i + 2" buf] by auto
    have s: "unat ((ucast i :: u32) + ucast l) = unat i + unat l"
      using less.prems b u16_bound [of l] by (subst u32_add_nat) (simp_all add: unat_ucast_up)
    have big: "(ucast i :: u32) + ucast l > ucast n \<longleftrightarrow> unat i + unat l > unat n" unfolding u32_less_nat s u ..
    show ?thesis
    proof (cases "l < 4 \<or> unat i + unat l > unat n")
      case stop: True
      then show ?thesis using True g rd big u by (subst config_loop.simps, subst ie_loop.simps) simp
    next
      case go: False
      then have l: "4 \<le> unat l" "unat i + unat l \<le> unat n" by (auto simp: word_less_nat_alt)
      have il: "unat (i + l) = unat i + unat l" using l(2) b by (simp add: unat_word_ariths)
      have e: "ucast (i + l) = (ucast i :: u32) + ucast l" unfolding u32_eq_nat s using il by (simp add: unat_ucast_up)
      have IH: "config_loop k fpga buf n (i + l) = ie_loop (\<lambda>buf t n i. config_ie k fpga buf t n (unat i)) buf (ucast n) (ucast i + ucast l)"
        unfolding e [symmetric] by (rule ext, rule less.hyps) (use il l in simp_all)
      show ?thesis
        using True g rd big go u IH by (subst config_loop.simps, subst ie_loop.simps) simp
    qed
  qed
qed

subsection \<open>Every setting on its own\<close>

lemma kinds_apart:
  "fst e \<noteq> 11 \<Longrightarrow> time_set k e = None" "fst e \<noteq> 502 \<Longrightarrow> period_set e = None" "fst e \<noteq> 504 \<Longrightarrow> mode_set e = None"
  by (auto simp: time_set_def period_set_def mode_set_def Let_def split: prod.splits)

lemma config_step_cases:
  obtains (time) "fst e = 11" | (period) "fst e = 502" | (mode) "fst e = 504" | (other) "fst e \<noteq> 11" "fst e \<noteq> 502" "fst e \<noteq> 504"
  by blast

lemma config_fold_time:
  "(ps_clock (snd (fold (config_step k fpga) es rs)) = last_set (\<lambda>e. map_option Some (time_set k e)) es (ps_clock (snd rs)))
   \<and> (cr_time_result (fst (fold (config_step k fpga) es rs)) = (if list_ex (\<lambda>e. time_set k e \<noteq> None) es then 0 else cr_time_result (fst rs)))
   \<and> (cr_time_processed (fst (fold (config_step k fpga) es rs)) \<longleftrightarrow> cr_time_processed (fst rs) \<or> has_kind 11 es)"
proof (induction es arbitrary: rs)
  case (Cons e es)
  have "ps_clock (snd (config_step k fpga e rs)) = (case time_set k e of None \<Rightarrow> ps_clock (snd rs) | Some v \<Rightarrow> Some v)"
    "cr_time_result (fst (config_step k fpga e rs)) = (if time_set k e \<noteq> None then 0 else cr_time_result (fst rs))"
    "cr_time_processed (fst (config_step k fpga e rs)) \<longleftrightarrow> cr_time_processed (fst rs) \<or> fst e = 11"
    using kinds_apart(1) [of e k]
    by (cases e rule: config_step_cases; auto simp: config_step_def Let_def split_beta split: option.split)+
  then show ?case
    using Cons by (auto simp: last_set_def has_kind_def split: option.split)
qed (simp_all add: last_set_def has_kind_def)

lemma config_fold_period:
  "(ps_cpu_stat_period (snd (fold (config_step k fpga) es rs)) = last_set period_set es (ps_cpu_stat_period (snd rs)))
   \<and> (cr_period_result (fst (fold (config_step k fpga) es rs)) = (if list_ex (\<lambda>e. period_set e \<noteq> None) es then 0 else cr_period_result (fst rs)))
   \<and> (cr_period_processed (fst (fold (config_step k fpga) es rs)) \<longleftrightarrow> cr_period_processed (fst rs) \<or> has_kind 502 es)"
proof (induction es arbitrary: rs)
  case (Cons e es)
  have "ps_cpu_stat_period (snd (config_step k fpga e rs)) = (case period_set e of None \<Rightarrow> ps_cpu_stat_period (snd rs) | Some v \<Rightarrow> v)"
    "cr_period_result (fst (config_step k fpga e rs)) = (if period_set e \<noteq> None then 0 else cr_period_result (fst rs))"
    "cr_period_processed (fst (config_step k fpga e rs)) \<longleftrightarrow> cr_period_processed (fst rs) \<or> fst e = 502"
    using kinds_apart(2) [of e]
    by (cases e rule: config_step_cases; auto simp: config_step_def Let_def split_beta split: option.split)+
  then show ?case
    using Cons by (auto simp: last_set_def has_kind_def)
qed (simp_all add: last_set_def has_kind_def)

lemma config_fold_mode:
  "(ps_uart (snd (fold (config_step k fpga) es rs)) = snd (send_modes (modes_asked es) (ps_uart (snd rs))))
   \<and> (cr_mode_result (fst (fold (config_step k fpga) es rs)) = (if fst (send_modes (modes_asked es) (ps_uart (snd rs))) then 0 else cr_mode_result (fst rs)))
   \<and> (cr_main_port (fst (fold (config_step k fpga) es rs)) = (if fst (send_modes (modes_asked es) (ps_uart (snd rs))) then fiber_ports fpga True ! 0 else cr_main_port (fst rs)))
   \<and> (cr_sub_port (fst (fold (config_step k fpga) es rs)) = (if fst (send_modes (modes_asked es) (ps_uart (snd rs))) then fiber_ports fpga True ! 1 else cr_sub_port (fst rs)))
   \<and> (cr_mode_processed (fst (fold (config_step k fpga) es rs)) \<longleftrightarrow> cr_mode_processed (fst rs) \<or> has_kind 504 es)
   \<and> (ps_resp_buffer (snd (fold (config_step k fpga) es rs)) = ps_resp_buffer (snd rs))"
proof (induction es arbitrary: rs)
  case (Cons e es)
  let ?rs = "config_step k fpga e rs"
  let ?send = "\<lambda>w. uart_client_send (ps_uart (snd rs)) (fpga_frame 2 (be32 w))"
  have st: "ps_uart (snd ?rs) = (case mode_set e of None \<Rightarrow> ps_uart (snd rs) | Some w \<Rightarrow> snd (?send w))"
    "cr_mode_result (fst ?rs) = (case mode_set e of None \<Rightarrow> cr_mode_result (fst rs) | Some w \<Rightarrow> if fst (?send w) = SUCCESS then 0 else cr_mode_result (fst rs))"
    "cr_main_port (fst ?rs) = (case mode_set e of None \<Rightarrow> cr_main_port (fst rs) | Some w \<Rightarrow> if fst (?send w) = SUCCESS then fiber_ports fpga True ! 0 else cr_main_port (fst rs))"
    "cr_sub_port (fst ?rs) = (case mode_set e of None \<Rightarrow> cr_sub_port (fst rs) | Some w \<Rightarrow> if fst (?send w) = SUCCESS then fiber_ports fpga True ! 1 else cr_sub_port (fst rs))"
    "cr_mode_processed (fst ?rs) \<longleftrightarrow> cr_mode_processed (fst rs) \<or> fst e = 504"
    "ps_resp_buffer (snd ?rs) = ps_resp_buffer (snd rs)"
    using kinds_apart(3) [of e]
    by (cases e rule: config_step_cases; auto simp: config_step_def Let_def split_beta split: option.split)+
  have ma: "modes_asked (e # es) = (case mode_set e of None \<Rightarrow> modes_asked es | Some w \<Rightarrow> w # modes_asked es)"
    by (auto simp: modes_asked_def List.map_filter_def split: option.split)
  have fd: "fold (config_step k fpga) (e # es) rs = fold (config_step k fpga) es ?rs" by simp
  show ?case
    unfolding fd using Cons [of ?rs] unfolding st ma by (auto simp: has_kind_def Let_def split_beta split: option.split)
qed (simp_all add: modes_asked_def List.map_filter_def has_kind_def)

subsection \<open>The answer\<close>

definition resp_built :: "bytes \<times> u16 \<Rightarrow> bytes \<Rightarrow> bool" where
  "resp_built bo pre \<longleftrightarrow> length (fst bo) = 256 \<and> unat (snd bo) = length pre \<and> take (length pre) (fst bo) = pre"

lemma put_resp_built:
  assumes "resp_built bo pre" "length pre + length ie \<le> 256"
  shows "\<exists>bo'. put_resp p ie bo = Some bo' \<and> resp_built bo' (pre @ (if p then ie else []))"
proof (cases p)
  case True
  obtain buf w where bo: "bo = (buf, w)" by (cases bo)
  have b: "buf = pre @ drop (length pre) buf" "length buf = 256" "unat w = length pre"
    using assms(1) append_take_drop_id [of "length pre" buf] by (simp_all add: resp_built_def bo)
  have "mem_put (pre @ drop (length pre) buf) (length pre) ie = Some (pre @ ie @ drop (length ie) (drop (length pre) buf))"
    by (rule mem_put_mid) (use assms(2) b in simp_all)
  then have m: "mem_put buf (unat w) ie = Some (pre @ ie @ drop (length ie) (drop (length pre) buf))" using b by simp
  have "unat (w + of_nat (length ie)) = length pre + length ie"
    using b(3) assms(2) u16_of_nat [of "length ie"] by (simp add: unat_word_ariths)
  then show ?thesis using m True assms(2) b(2) by (simp add: put_resp_def bo resp_built_def)
qed (use assms(1) in \<open>simp add: put_resp_def\<close>)

lemma handle_config_ie_spec:
  fixes es
  assumes n: "unat (cm_payload_len msg) < 65536" "ch_msg_length (cm_header msg) = 15 + cm_payload_len msg"
    "unat (cm_payload_len msg) \<le> length (message_bytes pool msg)" "length (message_bytes pool msg) < 2 ^ 31"
    and buf: "length (ps_resp_buffer s) = 256"
  defines "es \<equiv> parse_ies (take (unat (cm_payload_len msg)) (message_bytes pool msg))"
  shows "\<exists>buf w. handle_config_ie k fpga pool msg zero_message s = Some (SUCCESS,
      \<lparr>cm_header = \<lparr>ch_msg_id = 62, ch_msg_length = 15 + ucast w, ch_paau_id = 0, ch_bbu_id = 0, ch_port_num = 0, ch_serial_num = ch_serial_num (cm_header msg)\<rparr>,
       cm_payload = Some (Outside buf), cm_payload_len = ucast w\<rparr>,
      \<lparr>ps_clock = last_set (\<lambda>e. map_option Some (time_set k e)) es (ps_clock s), ps_cpu_stat_period = last_set period_set es (ps_cpu_stat_period s),
       ps_uart = snd (send_modes (modes_asked es) (ps_uart s)), ps_resp_buffer = buf\<rparr>)
     \<and> resp_built (buf, w) (ie_bytes (config_answers k fpga (ps_uart s) es))"
proof -
  let ?n = "ucast (ch_msg_length (cm_header msg) - 15) :: u16"
  have un: "unat ?n = unat (cm_payload_len msg)" using n(1,2) by (simp add: unsigned_ucast_eq take_bit_nat_eq_self)
  define rs where "rs = fold (config_step k fpga) es (config_run_start, s)"
  have "config_loop k fpga (message_bytes pool msg) ?n 0 (config_run_start, s) = Some rs"
  proof -
    have "config_loop k fpga (message_bytes pool msg) ?n 0 (config_run_start, s)
        = ie_loop (\<lambda>buf t n i. config_ie k fpga buf t n (unat i)) (message_bytes pool msg) (ucast ?n) 0 (config_run_start, s)"
      using config_loop_walk [of ?n "message_bytes pool msg" 0] n(3) un by simp
    also have "\<dots> = Some rs"
      using config.loop_is_fold [of "ucast ?n" "message_bytes pool msg" k fpga "(config_run_start, s)"] n(3,4) un
      by (simp add: unat_ucast_up fold_ies_Some rs_def es_def)
    finally show ?thesis .
  qed
  note loop = this
  note f = config_fold_time [of k fpga es "(config_run_start, s)"] config_fold_period [of k fpga es "(config_run_start, s)"]
    config_fold_mode [of k fpga es "(config_run_start, s)"]
  obtain r s' where r: "rs = (r, s')" by (cases rs)
  note g = f [folded rs_def, unfolded r fst_conv snd_conv]
  let ?a = "le16 551 @ le16 8 @ le32 (cr_time_result r)" and ?b = "le16 553 @ le16 8 @ le32 (cr_period_result r)"
    and ?c = "le16 555 @ le16 10 @ [cr_main_port r, cr_sub_port r] @ le32 (cr_mode_result r)"
  define q1 where "q1 = (if cr_time_processed r then ?a else [])"
  define q2 where "q2 = q1 @ (if cr_period_processed r then ?b else [])"
  have l: "length ([] :: bytes) + length ?a \<le> 256" "length q1 + length ?b \<le> 256" "length q2 + length ?c \<le> 256" by (simp_all add: q1_def q2_def)
  have "resp_built (ps_resp_buffer s', 0) []" using g buf by (simp add: resp_built_def)
  from put_resp_built [OF this l(1)] obtain bo1 where p1: "put_resp (cr_time_processed r) ?a (ps_resp_buffer s', 0) = Some bo1" "resp_built bo1 q1"
    unfolding q1_def append_Nil by blast
  from put_resp_built [OF p1(2) l(2)] obtain bo2 where p2: "put_resp (cr_period_processed r) ?b bo1 = Some bo2" "resp_built bo2 q2"
    unfolding q2_def by blast
  from put_resp_built [OF p2(2) l(3)] obtain bo3 where p3: "put_resp (cr_mode_processed r) ?c bo2 = Some bo3"
      "resp_built bo3 (q2 @ (if cr_mode_processed r then ?c else []))" by blast
  obtain buf' w where bw: "bo3 = (buf', w)" by (cases bo3)
  have a: "q2 @ (if cr_mode_processed r then ?c else []) = ie_bytes (config_answers k fpga (ps_uart s) es)"
    using g by (auto simp: q1_def q2_def config_answers_def config_run_start_def result_of_def fiber_ports_def Let_def)
  have s': "s'\<lparr>ps_resp_buffer := buf'\<rparr> = \<lparr>ps_clock = last_set (\<lambda>e. map_option Some (time_set k e)) es (ps_clock s), ps_cpu_stat_period = last_set period_set es (ps_cpu_stat_period s),
       ps_uart = snd (send_modes (modes_asked es) (ps_uart s)), ps_resp_buffer = buf'\<rparr>"
    using g by (intro param_state.equality) simp_all
  show ?thesis
    unfolding handle_config_ie_def Let_def loop r using p1(1) p2(1) p3 bw s' unfolding a
    by (intro exI [of _ buf'] exI [of _ w]) (simp add: zero_message_def)
qed

lemma config_answers_short: "length (ie_bytes (config_answers k fpga uart es)) \<le> 26"
  by (auto simp: config_answers_def result_of_def fiber_ports_def Let_def)

lemma encode_resp:
  assumes "resp_built (buf, w) pre"
  shows "\<exists>tail. cpri_encode_message pool \<lparr>cm_header = h, cm_payload = Some (Outside buf), cm_payload_len = ucast w\<rparr> (replicate 2048 0) 2048
     = Some (int (15 + length pre), cpri_frame h pre @ tail)"
proof -
  let ?m = "\<lparr>cm_header = h, cm_payload = Some (Outside buf), cm_payload_len = ucast w\<rparr> :: cpri_message"
  have w: "unat (ucast w :: u32) = length pre" "length pre \<le> 256" "take (length pre) buf = pre"
    using assms by (auto simp: resp_built_def unat_ucast_up dest: arg_cong [of _ _ length])
  then have "cpri_payload pool ?m = pre" "cpri_msg_ok pool ?m"
    by (simp_all add: cpri_payload_def cpri_msg_ok_def payload_bytes_def)
  then show ?thesis using cpri_encode_frame [of pool ?m 2048 "replicate 2048 0"] w by simp
qed

subsection \<open>Properties\<close>

text \<open>C21. A configuration request does what it says. The clock and the period of the statistics end up with
  the last valid value that the request gives for them, the period stays between one second and an
  hour, every valid mode goes to the FPGA in order, and the answer has one result for each kind of
  element in the request: success exactly when one element of that kind was valid and took effect.
  Short, invalid and unknown elements change nothing.\<close>

theorem param_config_applied:
  fixes es
  assumes "ch_msg_id (cm_header msg) = 61" and "ch_msg_length (cm_header msg) = 15 + cm_payload_len msg" and "unat (cm_payload_len msg) < 65536"
    and "unat (cm_payload_len msg) \<le> length (message_bytes pool msg)" and "length (message_bytes pool msg) < 2 ^ 31"
    and "length (ps_resp_buffer s) = 256" and "1 \<le> unat (ps_cpu_stat_period s)" and "unat (ps_cpu_stat_period s) \<le> 3600"
  defines "es \<equiv> parse_ies (take (unat (cm_payload_len msg)) (message_bytes pool msg))"
  shows "\<exists>s'. handle_param_config k fpga pool msg (s, tcp) = Some (SUCCESS, s', snd (tcp_client_send tcp (cpri_frame
       \<lparr>ch_msg_id = 62, ch_msg_length = 15 + of_nat (length (ie_bytes (config_answers k fpga (ps_uart s) es))), ch_paau_id = 0, ch_bbu_id = 0,
        ch_port_num = 0, ch_serial_num = ch_serial_num (cm_header msg)\<rparr> (ie_bytes (config_answers k fpga (ps_uart s) es)))))
    \<and> ps_clock s' = last_set (\<lambda>e. map_option Some (time_set k e)) es (ps_clock s)
    \<and> ps_cpu_stat_period s' = last_set period_set es (ps_cpu_stat_period s)
    \<and> 1 \<le> unat (param_config_get_cpu_period s') \<and> unat (param_config_get_cpu_period s') \<le> 3600
    \<and> ps_uart s' = snd (send_modes (modes_asked es) (ps_uart s))
    \<and> length (ps_resp_buffer s') = 256"
proof -
  let ?A = "ie_bytes (config_answers k fpga (ps_uart s) es)"
  obtain buf w where h: "handle_config_ie k fpga pool msg zero_message s = Some (SUCCESS,
      \<lparr>cm_header = \<lparr>ch_msg_id = 62, ch_msg_length = 15 + ucast w, ch_paau_id = 0, ch_bbu_id = 0, ch_port_num = 0, ch_serial_num = ch_serial_num (cm_header msg)\<rparr>,
       cm_payload = Some (Outside buf), cm_payload_len = ucast w\<rparr>,
      \<lparr>ps_clock = last_set (\<lambda>e. map_option Some (time_set k e)) es (ps_clock s), ps_cpu_stat_period = last_set period_set es (ps_cpu_stat_period s),
       ps_uart = snd (send_modes (modes_asked es) (ps_uart s)), ps_resp_buffer = buf\<rparr>)"
      "resp_built (buf, w) ?A"
    using handle_config_ie_spec [OF assms(3,2,4,5,6), of k fpga] unfolding es_def by blast
  have w: "(ucast w :: u32) = of_nat (length ?A)"
    using h(2) config_answers_short [of k fpga "ps_uart s" es] by (simp add: resp_built_def u32_eq_nat unat_ucast_up u32_of_nat)
  have p: "1 \<le> unat (last_set period_set es v) \<and> unat (last_set period_set es v) \<le> 3600" if "1 \<le> unat v" "unat v \<le> 3600" for v
    using that unfolding last_set_def
  proof (induction es arbitrary: v)
    case (Cons e es)
    have "1 \<le> unat x \<and> unat x \<le> 3600" if "period_set e = Some x" for x
      using that by (auto simp: period_set_def u32_le_nat unat_gt_0 Suc_le_eq split: prod.splits if_splits)
    then show ?case using Cons by (cases "period_set e") simp_all
  qed simp
  let ?H = "\<lparr>ch_msg_id = 62, ch_msg_length = 15 + ucast w, ch_paau_id = 0, ch_bbu_id = 0, ch_port_num = 0, ch_serial_num = ch_serial_num (cm_header msg)\<rparr>"
  let ?s = "\<lparr>ps_clock = last_set (\<lambda>e. map_option Some (time_set k e)) es (ps_clock s), ps_cpu_stat_period = last_set period_set es (ps_cpu_stat_period s),
       ps_uart = snd (send_modes (modes_asked es) (ps_uart s)), ps_resp_buffer = buf\<rparr>"
  obtain tail where e: "cpri_encode_message pool \<lparr>cm_header = ?H, cm_payload = Some (Outside buf), cm_payload_len = ucast w\<rparr> (replicate 2048 0) 2048
     = Some (int (15 + length ?A), cpri_frame ?H ?A @ tail)"
    using encode_resp [OF h(2)] by blast
  have q: "param_config_handle_request k fpga pool msg zero_message s = Some (SUCCESS, \<lparr>cm_header = ?H, cm_payload = Some (Outside buf), cm_payload_len = ucast w\<rparr>, ?s)"
    using h(1) assms(1) by (simp add: param_config_handle_request_def)
  have "handle_param_config k fpga pool msg (s, tcp) = Some (SUCCESS, ?s, snd (tcp_client_send tcp (cpri_frame ?H ?A)))"
    unfolding handle_param_config_def fst_conv snd_conv q bind.simps prod.case e by (simp add: cpri_frame_length)
  then show ?thesis unfolding w using p [OF assms(7,8)] h(2)
    by (intro exI [of _ ?s]) (simp add: resp_built_def param_config_get_cpu_period_def)
qed

definition config_example :: cpri_message where
  "config_example = \<lparr>cm_header = \<lparr>ch_msg_id = 61, ch_msg_length = 31, ch_paau_id = 1, ch_bbu_id = 2, ch_port_num = 3, ch_serial_num = 9\<rparr>,
     cm_payload = Some (Outside [0xF6, 1, 8, 0, 10, 0, 0, 0, 0xF6, 1, 8, 0, 0, 0, 0, 0]), cm_payload_len = 16\<rparr>"

definition config_state_example :: param_state where
  "config_state_example = \<lparr>ps_clock = None, ps_cpu_stat_period = 60, ps_uart = \<lparr>po_open = True, po_script = [], po_out = []\<rparr>, ps_resp_buffer = replicate 256 0\<rparr>"

theorem param_config_applied_witness:
  "\<exists>s' tcp'. handle_param_config \<lparr>cl_mktime = (\<lambda>t. 0), cl_settimeofday = (\<lambda>t. True)\<rparr> \<lparr>fs_current_status = status_frame_zero, fs_status_valid = False, fs_last_update_time = 0\<rparr>
      [] config_example (config_state_example, \<lparr>po_open = True, po_script = [], po_out = []\<rparr>) = Some (SUCCESS, s', tcp')
    \<and> ps_cpu_stat_period s' = 10"
proof -
  let ?k = "\<lparr>cl_mktime = (\<lambda>t. 0), cl_settimeofday = (\<lambda>t. True)\<rparr> :: clock_calls"
  let ?f = "\<lparr>fs_current_status = status_frame_zero, fs_status_valid = False, fs_last_update_time = 0\<rparr>"
  let ?p = "\<lparr>po_open = True, po_script = [], po_out = []\<rparr>"
  have m: "message_bytes [] config_example = [0xF6, 1, 8, 0, 10, 0, 0, 0, 0xF6, 1, 8, 0, 0, 0, 0, 0]" "cm_payload_len config_example = 16"
    by (simp_all add: message_bytes_def config_example_def payload_bytes_def)
  have e: "parse_ies [0xF6, 1, 8, 0, 10, 0, 0, 0, 0xF6, 1, 8, 0, 0, 0, 0, 0] = [(502, [10, 0, 0, 0]), (502, [0, 0, 0, 0])]"
    by (simp add: parse_ies.simps of_le16_def Let_def)
  have l: "last_set period_set [(502, [10, 0, 0, 0]), (502, [0, 0, 0, 0])] 60 = 10"
    by (simp add: last_set_def period_set_def word_of_def of_le32_def)
  show ?thesis
    using param_config_applied [of config_example "[]" config_state_example ?k ?f ?p, unfolded m] e l
    by (auto simp: config_example_def config_state_example_def)
qed

end
