(* ===== verification/Heartbeat.thy ===== *)
theory Heartbeat
  imports CpriProtocol ClientPorts
begin

text \<open>
  The heartbeat of heartbeat.c: the antenna sends its own and counts the intervals of three seconds in
  which none of the baseband unit arrived; at twenty the link counts as lost. Times are seconds of
  \<open>time(NULL)\<close> and arguments of the operations.
\<close>

subsection \<open>The manager\<close>

abbreviation (input) HEARTBEAT_INTERVAL_SEC :: int where "HEARTBEAT_INTERVAL_SEC \<equiv> 3"
abbreviation (input) HEARTBEAT_TIMEOUT_COUNT :: u32 where "HEARTBEAT_TIMEOUT_COUNT \<equiv> 20"

record heartbeat_manager =
  hb_paau_heartbeat_count :: u32
  hb_bbu_heartbeat_miss_count :: u32
  hb_last_bbu_heartbeat_time :: int
  hb_heartbeat_enabled :: bool

text \<open>\<open>g_heartbeat_mutex_ready\<close> is the second component.\<close>

definition heartbeat_init :: "bool \<Rightarrow> heartbeat_manager \<times> bool \<Rightarrow> int \<times> heartbeat_manager \<times> bool" where
  "heartbeat_init mutex_ok st =
     (let g = \<lparr>hb_paau_heartbeat_count = 0, hb_bbu_heartbeat_miss_count = 0, hb_last_bbu_heartbeat_time = 0, hb_heartbeat_enabled = False\<rparr>
      in if \<not> mutex_ok then (ERROR_GENERAL, g, snd st) else (SUCCESS, g, True))"

definition heartbeat_start :: "int \<Rightarrow> heartbeat_manager \<Rightarrow> int \<times> heartbeat_manager" where
  "heartbeat_start now g = (SUCCESS, g\<lparr>hb_heartbeat_enabled := True, hb_paau_heartbeat_count := 0,
     hb_bbu_heartbeat_miss_count := 0, hb_last_bbu_heartbeat_time := now\<rparr>)"

definition heartbeat_stop :: "heartbeat_manager \<Rightarrow> int \<times> heartbeat_manager" where
  "heartbeat_stop g = (SUCCESS, g\<lparr>hb_heartbeat_enabled := False\<rparr>)"

definition heartbeat_next_serial :: "u32 \<Rightarrow> u32 \<times> u32" where
  "heartbeat_next_serial g_serial_num = (let serial = g_serial_num + 1 in (serial, serial))"

text \<open>The state of sending: the manager, \<open>g_serial_num\<close> and the connection.\<close>

definition heartbeat_send_paau :: "heartbeat_manager \<times> u32 \<times> port \<Rightarrow> (int \<times> heartbeat_manager \<times> u32 \<times> port) option" where
  "heartbeat_send_paau st =
     (case st of (g, g_serial_num, tcp) \<Rightarrow>
        if \<not> hb_heartbeat_enabled g then Some (SUCCESS, g, g_serial_num, tcp)
        else let (serial, g_serial_num) = heartbeat_next_serial g_serial_num;
                 msg = \<lparr>cm_header = \<lparr>ch_msg_id = cpri_msg_code MSG_PAAU_HEARTBEAT, ch_msg_length = 0, ch_paau_id = 0, ch_bbu_id = 0,
                           ch_port_num = 0, ch_serial_num = serial\<rparr>, cm_payload = None, cm_payload_len = 0\<rparr>
             in do {
               (len, buffer) \<leftarrow> cpri_encode_message [] msg (replicate 32 0) 32;
               Some (if len > 0
                     then (SUCCESS, g\<lparr>hb_paau_heartbeat_count := hb_paau_heartbeat_count g + 1\<rparr>, g_serial_num,
                           snd (tcp_client_send tcp (take (nat len) buffer)))
                     else (ERROR_GENERAL, g, g_serial_num, tcp)) })"

definition heartbeat_handle_bbu :: "int \<Rightarrow> heartbeat_manager \<Rightarrow> int \<times> heartbeat_manager" where
  "heartbeat_handle_bbu now g =
     (if \<not> hb_heartbeat_enabled g then (SUCCESS, g)
      else (SUCCESS, g\<lparr>hb_last_bbu_heartbeat_time := now, hb_bbu_heartbeat_miss_count := 0\<rparr>))"

definition heartbeat_check_timeout :: "int \<Rightarrow> heartbeat_manager \<Rightarrow> bool \<times> heartbeat_manager" where
  "heartbeat_check_timeout now g =
     (if \<not> hb_heartbeat_enabled g then (False, g)
      else let elapsed = now - hb_last_bbu_heartbeat_time g
           in if elapsed \<ge> HEARTBEAT_INTERVAL_SEC
              then let g = g\<lparr>hb_bbu_heartbeat_miss_count := hb_bbu_heartbeat_miss_count g + 1\<rparr>
                   in if hb_bbu_heartbeat_miss_count g \<ge> HEARTBEAT_TIMEOUT_COUNT then (True, g)
                      else (False, g\<lparr>hb_last_bbu_heartbeat_time := now\<rparr>)
              else (False, g))"

definition heartbeat_destroy :: "heartbeat_manager \<times> bool \<Rightarrow> heartbeat_manager \<times> bool" where
  "heartbeat_destroy st = (if snd st then (fst st, False) else st)"

subsection \<open>Sending\<close>

lemma heartbeat_send_frame:
  "heartbeat_send_paau (g, n, tcp) = Some (SUCCESS,
     if hb_heartbeat_enabled g
     then (g\<lparr>hb_paau_heartbeat_count := hb_paau_heartbeat_count g + 1\<rparr>, n + 1, snd (tcp_client_send tcp
            (cpri_frame \<lparr>ch_msg_id = 171, ch_msg_length = 0, ch_paau_id = 0, ch_bbu_id = 0, ch_port_num = 0, ch_serial_num = n + 1\<rparr> [])))
     else (g, n, tcp))"
proof -
  let ?h = "\<lparr>ch_msg_id = 171, ch_msg_length = 0, ch_paau_id = 0, ch_bbu_id = 0, ch_port_num = 0, ch_serial_num = n + 1\<rparr>"
  let ?m = "\<lparr>cm_header = ?h, cm_payload = None, cm_payload_len = 0\<rparr> :: cpri_message"
  have "cpri_msg_ok [] ?m" "cpri_payload [] ?m = []" by (simp_all add: cpri_msg_ok_def cpri_payload_def)
  then have "cpri_encode_message [] ?m (replicate 32 0) 32 = Some (15, cpri_frame ?h [] @ drop 15 (replicate 32 0))"
    using cpri_encode_frame [of "[]" ?m 32 "replicate 32 0"] by simp
  then show ?thesis by (simp add: heartbeat_send_paau_def heartbeat_next_serial_def Let_def cpri_frame_length)
qed

subsection \<open>Runs\<close>

datatype hb_event = Start int | Stop | Beat int | Check int

fun hb_step :: "hb_event \<Rightarrow> heartbeat_manager \<Rightarrow> heartbeat_manager" where
  "hb_step (Start t) g = snd (heartbeat_start t g)"
| "hb_step Stop g = snd (heartbeat_stop g)"
| "hb_step (Beat t) g = snd (heartbeat_handle_bbu t g)"
| "hb_step (Check t) g = snd (heartbeat_check_timeout t g)"

text \<open>The last sign of the other side: a start or a heartbeat.\<close>

fun last_sign :: "hb_event \<Rightarrow> int \<Rightarrow> int" where
  "last_sign (Start t) b = t"
| "last_sign (Beat t) b = t"
| "last_sign e b = b"

text \<open>Each missed interval took three seconds. The counter wraps after \<open>2\<^sup>3\<^sup>2\<close> checks beyond the
  timeout, which is why only the first nineteen count.\<close>

definition hb_inv :: "int \<Rightarrow> heartbeat_manager \<Rightarrow> bool" where
  "hb_inv b g \<longleftrightarrow> (hb_heartbeat_enabled g \<longrightarrow>
     b + 3 * int (min (unat (hb_bbu_heartbeat_miss_count g)) 19) \<le> hb_last_bbu_heartbeat_time g)"

lemma miss_step: "unat ((w :: u32) + 1) \<le> Suc (unat w)"
  by (simp add: unat_word_ariths)

lemma check_inv:
  assumes "hb_inv b g" and r: "heartbeat_check_timeout now g = (r, g')"
  shows "hb_inv b g'" "r \<Longrightarrow> b + 60 \<le> now"
proof -
  let ?m = "hb_bbu_heartbeat_miss_count g"
  have m: "unat (?m + 1) \<le> Suc (unat ?m)" "20 \<le> ?m + 1 \<longleftrightarrow> 20 \<le> unat (?m + 1)" by (rule miss_step) (simp add: u32_le_nat)
  show "hb_inv b g'" using assms m by (auto simp: hb_inv_def heartbeat_check_timeout_def Let_def simp del: of_nat_unat split: if_splits)
  show "b + 60 \<le> now" if r using that assms m by (auto simp: hb_inv_def heartbeat_check_timeout_def Let_def simp del: of_nat_unat split: if_splits)
qed

lemma hb_step_inv:
  assumes "hb_inv b g"
  shows "hb_inv (last_sign e b) (hb_step e g)"
proof (cases e)
  case (Check now)
  then show ?thesis using check_inv(1) [OF assms prod.collapse [symmetric], of now] by simp
qed (use assms in \<open>auto simp: hb_inv_def heartbeat_start_def heartbeat_stop_def heartbeat_handle_bbu_def\<close>)

lemma hb_fold_inv: "hb_inv b g \<Longrightarrow> hb_inv (fold last_sign es b) (fold hb_step es g)"
  by (induction es arbitrary: b g) (simp_all add: hb_step_inv)

text \<open>Checks in a row: whether one of them reports the loss.\<close>

fun any_timeout :: "int list \<Rightarrow> heartbeat_manager \<Rightarrow> bool" where
  "any_timeout [] g \<longleftrightarrow> False"
| "any_timeout (t # ts) g \<longleftrightarrow> (case heartbeat_check_timeout t g of (r, g) \<Rightarrow> r \<or> any_timeout ts g)"

text \<open>Times at most \<open>d\<close> apart.\<close>

fun regular :: "int \<Rightarrow> int \<Rightarrow> int list \<Rightarrow> bool" where
  "regular d p [] \<longleftrightarrow> True"
| "regular d p (t # ts) \<longleftrightarrow> p \<le> t \<and> t \<le> p + d \<and> regular d t ts"

lemma no_timeout_bound:
  assumes "regular d p ts" "\<not> any_timeout ts g" "hb_heartbeat_enabled g" "hb_bbu_heartbeat_miss_count g < 20" "0 \<le> d"
    "hb_last_bbu_heartbeat_time g \<le> p" "p < hb_last_bbu_heartbeat_time g + 3"
  shows "last (p # ts) < hb_last_bbu_heartbeat_time g + (19 - int (unat (hb_bbu_heartbeat_miss_count g))) * (3 + d) + 3"
  using assms(1-4,6,7)
proof (induction ts arbitrary: p g)
  case Nil
  let ?m = "unat (hb_bbu_heartbeat_miss_count g)"
  have "0 \<le> (19 - int ?m) * (3 + d)" using Nil.prems(4) assms(5) by (intro mult_nonneg_nonneg) (simp_all add: u32_less_nat del: of_nat_unat)
  then show ?case using Nil.prems by simp
next
  case (Cons t ts)
  let ?m = "hb_bbu_heartbeat_miss_count g" and ?l = "hb_last_bbu_heartbeat_time g"
  show ?case
  proof (cases "t - ?l \<ge> 3")
    case False
    then have "heartbeat_check_timeout t g = (False, g)" by (simp add: heartbeat_check_timeout_def)
    then show ?thesis using Cons.IH [of t g] Cons.prems False by auto
  next
    case True
    have u: "unat (?m + 1) = Suc (unat ?m)" using Cons.prems(4) by (intro u32_suc_nat)
    let ?g = "g\<lparr>hb_bbu_heartbeat_miss_count := ?m + 1, hb_last_bbu_heartbeat_time := t\<rparr>"
    have c: "\<not> ?m + 1 \<ge> 20" "heartbeat_check_timeout t g = (False, ?g)"
      using Cons.prems(2,3) True by (auto simp: heartbeat_check_timeout_def Let_def split: if_splits)
    have "last (t # ts) < t + (19 - int (unat (?m + 1))) * (3 + d) + 3"
      using Cons.IH [of t ?g] Cons.prems c by auto
    moreover have "t < ?l + 3 + d" using Cons.prems(1,6) by simp
    ultimately show ?thesis unfolding u by (simp add: algebra_simps)
  qed
qed

subsection \<open>Properties\<close>

text \<open>C38. The link is not given up early. Over any sequence of starts, stops, heartbeats and checks, at any
  times, a check reports the loss only sixty seconds or more after the last start or heartbeat.\<close>

theorem heartbeat_timeout_sound:
  assumes "fst (heartbeat_check_timeout now (fold hb_step es (snd (heartbeat_start t\<^sub>0 g))))"
  shows "fold last_sign es t\<^sub>0 + 60 \<le> now"
proof -
  have "hb_inv t\<^sub>0 (snd (heartbeat_start t\<^sub>0 g))" by (simp add: hb_inv_def heartbeat_start_def)
  from check_inv(2) [OF hb_fold_inv [OF this] prod.collapse [symmetric]] show ?thesis using assms .
qed

definition hb_example :: heartbeat_manager where
  "hb_example = \<lparr>hb_paau_heartbeat_count = 0, hb_bbu_heartbeat_miss_count = 0, hb_last_bbu_heartbeat_time = 0, hb_heartbeat_enabled = False\<rparr>"

theorem heartbeat_timeout_sound_witness:
  "fst (heartbeat_check_timeout 65 (fold hb_step (Beat 5 # map (\<lambda>i. Check (5 + 3 * int i)) [1..<20]) (snd (heartbeat_start 0 hb_example))))
     \<and> fold last_sign (Beat 5 # map (\<lambda>i. Check (5 + 3 * int i)) [1..<20]) 0 + 60 \<le> 65"
proof -
  have c: "fst (heartbeat_check_timeout 65 (fold hb_step (Beat 5 # map (\<lambda>i. Check (5 + 3 * int i)) [1..<20]) (snd (heartbeat_start 0 hb_example))))"
    by code_simp
  then show ?thesis using heartbeat_timeout_sound [OF c] by blast
qed

text \<open>A silent baseband unit is noticed. When checks come at most \<open>d\<close> seconds apart from the last start
  on, one of them reports the loss at the latest \<open>60 + 19 d\<close> seconds after it; the main loop checks
  every second, which gives 79 seconds.\<close>

theorem heartbeat_loss_detected:
  assumes "regular d t\<^sub>0 ts" and "0 \<le> d" and "ts \<noteq> []" and "t\<^sub>0 + 60 + 19 * d \<le> last ts"
  shows "any_timeout ts (snd (heartbeat_start t\<^sub>0 g))"
proof (rule ccontr)
  assume "\<not> any_timeout ts (snd (heartbeat_start t\<^sub>0 g))"
  then have "last (t\<^sub>0 # ts) < t\<^sub>0 + 19 * (3 + d) + 3"
    using no_timeout_bound [OF assms(1), of "snd (heartbeat_start t\<^sub>0 g)"] assms(2) by (simp add: heartbeat_start_def)
  then show False using assms(3,4) by simp
qed

theorem heartbeat_loss_detected_witness:
  "any_timeout (map int [1..<80]) (snd (heartbeat_start 0 hb_example))"
proof (rule heartbeat_loss_detected [of 1])
  show "regular 1 0 (map int [1..<80])" by code_simp
qed (simp_all add: last_map)

end
