(* ===== verification/ChannelSetup.thy ===== *)
theory ChannelSetup
  imports ParamConfig Config Heartbeat
begin

text \<open>
  The setup of the channel to the baseband unit, from channel_setup.c, with its handler in msg_handler.c and
  the callback of main.c that opens it: the request describes the product, taken from the configuration,
  and what the antenna can do, taken from the last status frame of the FPGA or from defaults; the
  configuration that answers it sets the clock and passes settings on to the FPGA, is acknowledged, and
  starts the heartbeat. The calls of the clock are an argument, as in \<open>ParamConfig\<close>.
\<close>

subsection \<open>The request\<close>

abbreviation (input) IE_TYPE_PRODUCT_ID :: u16 where "IE_TYPE_PRODUCT_ID \<equiv> 1"
abbreviation (input) IE_TYPE_SETUP_REASON :: u16 where "IE_TYPE_SETUP_REASON \<equiv> 2"
abbreviation (input) IE_TYPE_PHASED_ARRAY_CAP :: u16 where "IE_TYPE_PHASED_ARRAY_CAP \<equiv> 3"
abbreviation (input) IE_TYPE_HARDWARE_INFO :: u16 where "IE_TYPE_HARDWARE_INFO \<equiv> 5"
abbreviation (input) IE_TYPE_SOFTWARE_VERSION :: u16 where "IE_TYPE_SOFTWARE_VERSION \<equiv> 6"
abbreviation (input) IE_TYPE_FREQ_BAND_CAP :: u16 where "IE_TYPE_FREQ_BAND_CAP \<equiv> 7"
abbreviation (input) IE_TYPE_SYSTEM_TIME :: u16 where "IE_TYPE_SYSTEM_TIME \<equiv> 11"
abbreviation (input) IE_TYPE_OPERATION_MODE :: u16 where "IE_TYPE_OPERATION_MODE \<equiv> 13"
abbreviation (input) IE_TYPE_VERSION_CHECK :: u16 where "IE_TYPE_VERSION_CHECK \<equiv> 14"
abbreviation (input) IE_TYPE_PHASED_ARRAY_BEAM :: u16 where "IE_TYPE_PHASED_ARRAY_BEAM \<equiv> 15"
abbreviation (input) IE_TYPE_SETUP_RESPONSE :: u16 where "IE_TYPE_SETUP_RESPONSE \<equiv> 21"
abbreviation (input) IE_TYPE_CPU_STAT_PERIOD :: u16 where "IE_TYPE_CPU_STAT_PERIOD \<equiv> 502"
abbreviation (input) IE_TYPE_CPRI_WORK_MODE :: u16 where "IE_TYPE_CPRI_WORK_MODE \<equiv> 504"

datatype channel_setup_reason = CHANNEL_SETUP_REASON_POWER_ON | CHANNEL_SETUP_REASON_RESET | CHANNEL_SETUP_REASON_RECONNECT

primrec setup_reason_code :: "channel_setup_reason \<Rightarrow> u8" where
  "setup_reason_code CHANNEL_SETUP_REASON_POWER_ON = 0"
| "setup_reason_code CHANNEL_SETUP_REASON_RESET = 1"
| "setup_reason_code CHANNEL_SETUP_REASON_RECONNECT = 2"

text \<open>\<open>strncpy\<close> into a field of \<open>n\<close> bytes, which a long string fills without a final NUL.\<close>

definition strncpy_field :: "nat \<Rightarrow> string \<Rightarrow> bytes" where
  "strncpy_field n s = map of_char (take n s) @ replicate (n - length s) 0"

definition config_text :: "(string \<times> string) list \<Rightarrow> string \<Rightarrow> string \<Rightarrow> string" where
  "config_text items key default_value = (case config_get_string items key (Some default_value) of Some s \<Rightarrow> s | None \<Rightarrow> default_value)"

definition product_id :: "(string \<times> string) list \<Rightarrow> bytes" where
  "product_id items =
     strncpy_field 16 (config_text items ''PRODUCT_MANUFACTURER'' ''StarNet'')
     @ strncpy_field 16 (config_text items ''PRODUCT_NAME'' ''S-Band PAAU'')
     @ strncpy_field 16 (config_text items ''PRODUCT_SERIAL'' ''SN00000000'')
     @ strncpy_field 16 (config_text items ''PRODUCT_DATE'' ''2026-01-01'')
     @ strncpy_field 16 (config_text items ''PRODUCT_SERVICE_DATE'' ''2026-01-01'')
     @ strncpy_field 16 (config_text items ''PRODUCT_INFO'' [])"

definition phased_cap :: "u32 \<Rightarrow> u16 \<Rightarrow> u16 \<Rightarrow> bytes" where
  "phased_cap beams max_power modes =
     le32 beams @ replicate 5 0 @ le16 max_power @ replicate 9 0 @ le16 modes @ replicate 5 0"

text \<open>The capability and the hardware: \<open>hw_type\<close> of the frame has 32 bytes, of which \<open>memcpy\<close> takes all.\<close>

definition capability :: "fpga_status_data option \<Rightarrow> (bytes \<times> bytes) option" where
  "capability status =
     (case status of
        Some d \<Rightarrow> do {
          hw_type \<leftarrow> mem_read (sd_hw_type d) 0 32;
          Some (phased_cap (sd_nr_beam_count d) (sd_max_tx_power d) (sd_supported_modes d),
                hw_type @ char_field 16 (''HW_v'' @ dec (unat (sd_hw_version d)))) }
      | None \<Rightarrow> Some (phased_cap 16 22425 3, strncpy_field 32 ''S-Band Phased Array'' @ strncpy_field 16 ''HW_v1.0''))"

definition sw_version :: "(string \<times> string) list \<Rightarrow> bytes" where
  "sw_version items =
     strncpy_field 40 (config_text items ''SOFTWARE_VERSION'' ''v1.0.0'')
     @ strncpy_field 40 (config_text items ''FIRMWARE_VERSION'' ''FPGA_v1.0.0'')"

definition freq_cap :: bytes where
  "freq_cap = le16 21200 @ le16 21900 @ le16 19300 @ le16 20100 @ le16 100 @ [16]"

definition setup_header :: "(string \<times> string) list \<Rightarrow> cpri_msg_type \<Rightarrow> cpri_msg_header" where
  "setup_header items m = \<lparr>ch_msg_id = cpri_msg_code m, ch_msg_length = 0, ch_paau_id = of_int (config_get_int items ''PAAU_ID'' 0),
     ch_bbu_id = 0, ch_port_num = 0, ch_serial_num = 0\<rparr>"

definition channel_setup_create_request ::
  "(string \<times> string) list \<Rightarrow> fpga_state_manager \<Rightarrow> bytes option \<Rightarrow> channel_setup_reason \<Rightarrow> (int \<times> cpri_message) option" where
  "channel_setup_create_request items fpga heap reason = do {
     st \<leftarrow> put_ies heap [(IE_TYPE_PRODUCT_ID, product_id items), (IE_TYPE_SETUP_REASON, setup_reason_code reason # replicate 4 0)] (None, 0);
     (cap, hw_info) \<leftarrow> capability (map_option sf_data (snd (fpga_handler_get_status fpga)));
     (payload, offset) \<leftarrow> put_ies heap [(IE_TYPE_PHASED_ARRAY_CAP, cap), (IE_TYPE_HARDWARE_INFO, hw_info),
        (IE_TYPE_SOFTWARE_VERSION, sw_version items), (IE_TYPE_FREQ_BAND_CAP, freq_cap)] st;
     Some (SUCCESS, \<lparr>cm_header = setup_header items MSG_CHANNEL_SETUP_REQ, cm_payload = map_option Outside payload, cm_payload_len = offset\<rparr>) }"

text \<open>Sending it, from \<open>on_tcp_connected\<close> and from the main loop: \<open>g_serial_num\<close> and the connection are the
  state. The block of the payload is given back, which leaves the pool as it is.\<close>

definition send_setup_request ::
  "(string \<times> string) list \<Rightarrow> fpga_state_manager \<Rightarrow> bytes option \<Rightarrow> channel_setup_reason \<Rightarrow> u32 \<times> port \<Rightarrow> (u32 \<times> port) option" where
  "send_setup_request items fpga heap reason st = do {
     (ret, request) \<leftarrow> channel_setup_create_request items fpga heap reason;
     if ret \<noteq> SUCCESS then Some st
     else do {
       let (serial, g_serial_num) = heartbeat_next_serial (fst st);
       let request = request\<lparr>cm_header := (cm_header request)\<lparr>ch_serial_num := serial\<rparr>\<rparr>;
       (len, buffer) \<leftarrow> cpri_encode_message [] request (replicate 2048 0) 2048;
       Some (g_serial_num, if len > 0 then snd (tcp_client_send (snd st) (take (nat len) buffer)) else snd st) } }"

definition on_tcp_connected ::
  "(string \<times> string) list \<Rightarrow> fpga_state_manager \<Rightarrow> bytes option \<Rightarrow> bool \<times> u32 \<times> port \<Rightarrow> (bool \<times> u32 \<times> port) option" where
  "on_tcp_connected items fpga heap st = do {
     (g_serial_num, tcp) \<leftarrow> send_setup_request items fpga heap CHANNEL_SETUP_REASON_POWER_ON (snd st);
     Some (False, g_serial_num, tcp) }"

subsection \<open>The configuration\<close>

text \<open>The clock of the system as it was last set, and the serial port of the FPGA.\<close>

type_synonym setup_state = "int option \<times> port"

text \<open>No check of the fields here: \<open>mktime\<close> brings them into their ranges.\<close>

definition setup_clock :: "clock_calls \<Rightarrow> system_time_config_ie \<Rightarrow> setup_state \<Rightarrow> setup_state" where
  "setup_clock k ie st =
     (let new_time = cl_mktime k (time_fields ie)
      in if new_time \<noteq> - 1 then (if cl_settimeofday k new_time then (Some new_time, snd st) else st) else st)"

text \<open>The version check is only read and logged.\<close>

definition version_check :: "bytes \<Rightarrow> nat \<Rightarrow> u16 \<Rightarrow> unit option" where
  "version_check payload ie_data ie_data_len = do {
     version_type \<leftarrow> arr_get payload ie_data;
     if ie_data_len \<ge> 285 \<and> version_type = 1
     then do {
       result \<leftarrow> read_le32 payload (ie_data + 1);
       file_path \<leftarrow> mem_read payload (ie_data + 5) 200;
       file_name \<leftarrow> mem_read payload (ie_data + 205) 16;
       file_len \<leftarrow> read_le32 payload (ie_data + 221);
       file_time \<leftarrow> mem_read payload (ie_data + 225) 20;
       file_version \<leftarrow> mem_read payload (ie_data + 245) 40;
       Some () }
     else Some () }"

definition channel_setup_ie :: "clock_calls \<Rightarrow> bytes \<Rightarrow> u16 \<Rightarrow> u16 \<Rightarrow> u32 \<Rightarrow> setup_state \<Rightarrow> setup_state option" where
  "channel_setup_ie k payload ie_type ie_len offset st =
     (let ie_data = unat (offset + 4);
          ie_data_len = ie_len - 4
      in if ie_type = IE_TYPE_SYSTEM_TIME
         then if ie_data_len \<ge> 7 then do { ie \<leftarrow> read_system_time payload (unat offset); Some (setup_clock k ie st) } else Some st
         else if ie_type = IE_TYPE_OPERATION_MODE
         then if ie_data_len \<ge> 4
              then do { mode \<leftarrow> read_le32 payload ie_data; (ret, uart) \<leftarrow> fpga_send_cpri_config (snd st) mode; Some (fst st, uart) }
              else Some st
         else if ie_type = IE_TYPE_VERSION_CHECK
         then if ie_data_len \<ge> 1 then do { u \<leftarrow> version_check payload ie_data ie_data_len; Some st } else Some st
         else if ie_type = IE_TYPE_PHASED_ARRAY_BEAM
         then if ie_data_len \<ge> 2
              then do {
                cmd_beam_num \<leftarrow> arr_get payload ie_data;
                service_beam_num \<leftarrow> arr_get payload (ie_data + 1);
                (ret, uart) \<leftarrow> fpga_send_beam_num (snd st) cmd_beam_num service_beam_num;
                Some (fst st, uart) }
              else Some st
         else if ie_type = IE_TYPE_CPU_STAT_PERIOD
         then if ie_data_len \<ge> 4 then do { period \<leftarrow> read_le32 payload ie_data; Some st } else Some st
         else if ie_type = IE_TYPE_CPRI_WORK_MODE
         then if ie_data_len \<ge> 4
              then do { work_mode \<leftarrow> read_le32 payload ie_data; (ret, uart) \<leftarrow> fpga_send_cpri_mode (snd st) work_mode; Some (fst st, uart) }
              else Some st
         else Some st)"

definition channel_setup_handle_config :: "clock_calls \<Rightarrow> pool \<Rightarrow> cpri_message \<Rightarrow> setup_state \<Rightarrow> (int \<times> setup_state) option" where
  "channel_setup_handle_config k pool msg st =
     (if cm_payload msg = None then Some (ERROR_INVALID_PARAM, st)
      else do {
        st \<leftarrow> ie_loop (channel_setup_ie k) (message_bytes pool msg) (cm_payload_len msg) 0 st;
        Some (SUCCESS, st) })"

definition channel_setup_create_response :: "(string \<times> string) list \<Rightarrow> bytes option \<Rightarrow> u32 \<Rightarrow> (int \<times> cpri_message) option" where
  "channel_setup_create_response items heap result = do {
     (payload, offset) \<leftarrow> put_ies heap [(IE_TYPE_SETUP_RESPONSE, le32 result)] (None, 0);
     Some (SUCCESS, \<lparr>cm_header = setup_header items MSG_CHANNEL_SETUP_CFG_ACK, cm_payload = map_option Outside payload, cm_payload_len = offset\<rparr>) }"

text \<open>The handler: the state is the clock, the port of the FPGA, the connection and the heartbeat.\<close>

definition handle_channel_setup_req :: "clock_calls \<Rightarrow> (string \<times> string) list \<Rightarrow> bytes option \<Rightarrow> int \<Rightarrow> pool \<Rightarrow> cpri_message
    \<Rightarrow> setup_state \<times> port \<times> heartbeat_manager \<Rightarrow> (int \<times> setup_state \<times> port \<times> heartbeat_manager) option" where
  "handle_channel_setup_req k items heap now pool msg s =
     (case s of (st, tcp, hb) \<Rightarrow> do {
        (ret, st) \<leftarrow> channel_setup_handle_config k pool msg st;
        if ret \<noteq> SUCCESS then Some (ret, st, tcp, hb)
        else do {
          (ret, response) \<leftarrow> channel_setup_create_response items heap 0;
          if ret \<noteq> SUCCESS then Some (ret, st, tcp, hb)
          else do {
            let h = (cm_header response)\<lparr>ch_serial_num := ch_serial_num (cm_header msg), ch_bbu_id := ch_bbu_id (cm_header msg),
                       ch_port_num := ch_port_num (cm_header msg)\<rparr>;
            (len, buffer) \<leftarrow> cpri_encode_message pool (response\<lparr>cm_header := h\<rparr>) (replicate 2048 0) 2048;
            let tcp = (if len > 0 then snd (tcp_client_send tcp (take (nat len) buffer)) else tcp);
            Some (SUCCESS, st, tcp, snd (heartbeat_start now hb)) } } })"


subsection \<open>What the request says\<close>

declare dec.simps [simp del]

lemma strncpy_field_length [simp]: "length (strncpy_field n s) = n"
  by (simp add: strncpy_field_def min_def)

text \<open>The elements of the request.\<close>

definition capability_of :: "fpga_status_data option \<Rightarrow> bytes \<times> bytes" where
  "capability_of status =
     (case status of
        Some d \<Rightarrow> (phased_cap (sd_nr_beam_count d) (sd_max_tx_power d) (sd_supported_modes d),
                   sd_hw_type d @ char_field 16 (''HW_v'' @ dec (unat (sd_hw_version d))))
      | None \<Rightarrow> (phased_cap 16 22425 3, strncpy_field 32 ''S-Band Phased Array'' @ strncpy_field 16 ''HW_v1.0''))"

definition setup_elements :: "(string \<times> string) list \<Rightarrow> fpga_state_manager \<Rightarrow> channel_setup_reason \<Rightarrow> (u16 \<times> bytes) list" where
  "setup_elements items fpga reason =
     (let (cap, hw) = capability_of (map_option sf_data (snd (fpga_handler_get_status fpga)))
      in [(IE_TYPE_PRODUCT_ID, product_id items), (IE_TYPE_SETUP_REASON, setup_reason_code reason # replicate 4 0),
          (IE_TYPE_PHASED_ARRAY_CAP, cap), (IE_TYPE_HARDWARE_INFO, hw), (IE_TYPE_SOFTWARE_VERSION, sw_version items),
          (IE_TYPE_FREQ_BAND_CAP, freq_cap)])"

definition hw_type_ok :: "fpga_state_manager \<Rightarrow> bool" where
  "hw_type_ok fpga \<longleftrightarrow> length (sd_hw_type (sf_data (fs_current_status fpga))) = 32"

lemma element_sizes:
  "length (product_id items) = 96" "length (phased_cap a b c) = 27" "length (sw_version items) = 80" "length freq_cap = 11"
  by (simp_all add: product_id_def phased_cap_def sw_version_def freq_cap_def)

lemma capability_ok:
  assumes "hw_type_ok fpga"
  obtains cap hw where "capability (map_option sf_data (snd (fpga_handler_get_status fpga))) = Some (cap, hw)"
    "capability_of (map_option sf_data (snd (fpga_handler_get_status fpga))) = (cap, hw)" "length cap = 27" "length hw = 48"
  using assms that
  by (cases "fs_status_valid fpga"; cases "capability_of (map_option sf_data (snd (fpga_handler_get_status fpga)))")
    (auto simp: capability_def capability_of_def fpga_handler_get_status_def hw_type_ok_def element_sizes)

lemma create_request_built:
  assumes "length h = 4096" "hw_type_ok fpga"
  shows "\<exists>p n. channel_setup_create_request items fpga (Some h) reason
       = Some (SUCCESS, \<lparr>cm_header = setup_header items MSG_CHANNEL_SETUP_REQ, cm_payload = map_option Outside p, cm_payload_len = n\<rparr>)
     \<and> ie_built (p, n) (setup_elements items fpga reason)"
proof -
  obtain cap hw where c: "capability (map_option sf_data (snd (fpga_handler_get_status fpga))) = Some (cap, hw)" "length cap = 27" "length hw = 48"
    "setup_elements items fpga reason = [(1, product_id items), (2, setup_reason_code reason # replicate 4 0), (3, cap), (5, hw),
       (6, sw_version items), (7, freq_cap)]"
    by (rule capability_ok [OF assms(2)]) (simp add: setup_elements_def)
  note sz = element_sizes c(2,3)
  let ?front = "[(1, product_id items), (2, setup_reason_code reason # replicate 4 0)] :: (u16 \<times> bytes) list"
  obtain st where 1: "put_ies (Some h) ?front (None, 0) = Some st" "ie_built st ?front"
    using put_ies_built [OF assms(1) ie_built_start, of ?front] sz by auto
  obtain p n where 2: "put_ies (Some h) [(3, cap), (5, hw), (6, sw_version items), (7, freq_cap)] st = Some (p, n)"
      "ie_built (p, n) (setup_elements items fpga reason)"
    using put_ies_built [OF assms(1) 1(2), of "[(3, cap), (5, hw), (6, sw_version items), (7, freq_cap)]"] sz unfolding c(4) by auto
  show ?thesis unfolding channel_setup_create_request_def using 1(1) 2 c(1) by (intro exI [of _ p] exI [of _ n]) (simp del: put_ies.simps)
qed

lemma setup_elements_size:
  assumes "hw_type_ok fpga"
  shows "length (ie_bytes (setup_elements items fpga reason)) = 291"
    "list_all (\<lambda>(t, d). length d < 65532) (setup_elements items fpga reason)"
  by (rule capability_ok [OF assms], simp add: setup_elements_def element_sizes)+

lemma send_setup_request_frame:
  assumes "length h = 4096" "hw_type_ok fpga"
  shows "send_setup_request items fpga (Some h) reason (n, tcp) = Some (n + 1, snd (tcp_client_send tcp
     (cpri_frame ((setup_header items MSG_CHANNEL_SETUP_REQ)\<lparr>ch_serial_num := n + 1\<rparr>)
        (ie_bytes (setup_elements items fpga reason)))))"
proof -
  let ?es = "setup_elements items fpga reason"
  obtain p l where r: "channel_setup_create_request items fpga (Some h) reason
       = Some (SUCCESS, \<lparr>cm_header = setup_header items MSG_CHANNEL_SETUP_REQ, cm_payload = map_option Outside p, cm_payload_len = l\<rparr>)"
      "ie_built (p, l) ?es"
    using create_request_built [OF assms, of items reason] by blast
  note l = setup_elements_size(1) [OF assms(2), of items reason]
  show ?thesis
    using encode_built [OF r(2), of "[]" "(setup_header items MSG_CHANNEL_SETUP_REQ)\<lparr>ch_serial_num := n + 1\<rparr>"] l
    by (simp add: send_setup_request_def r(1) heartbeat_next_serial_def Let_def cpri_frame_length)
qed

subsection \<open>What the configuration does\<close>

text \<open>The frames that an element puts on the line of the FPGA, and the clock it sets.\<close>

definition setup_commands :: "u16 \<times> bytes \<Rightarrow> bytes list" where
  "setup_commands = (\<lambda>(t, d).
     if t = IE_TYPE_OPERATION_MODE \<and> 4 \<le> length d then [fpga_frame 1 (be32 (word_of d))]
     else if t = IE_TYPE_PHASED_ARRAY_BEAM \<and> 2 \<le> length d then [fpga_frame 3 [d ! 0], fpga_frame 4 [d ! 1]]
     else if t = IE_TYPE_CPRI_WORK_MODE \<and> 4 \<le> length d then [fpga_frame 2 (be32 (word_of d))]
     else [])"

definition setup_time :: "clock_calls \<Rightarrow> u16 \<times> bytes \<Rightarrow> int option" where
  "setup_time k = (\<lambda>(t, d). let v = cl_mktime k (time_fields (time_of d))
     in if t = IE_TYPE_SYSTEM_TIME \<and> 7 \<le> length d \<and> v \<noteq> - 1 \<and> cl_settimeofday k v then Some v else None)"

definition uart_frames :: "bytes list \<Rightarrow> port \<Rightarrow> port" where
  "uart_frames fs p = foldl (\<lambda>p f. snd (uart_client_send p f)) p fs"

definition setup_step :: "clock_calls \<Rightarrow> u16 \<times> bytes \<Rightarrow> setup_state \<Rightarrow> setup_state" where
  "setup_step k e st = (case setup_time k e of None \<Rightarrow> fst st | v \<Rightarrow> v, uart_frames (setup_commands e) (snd st))"

lemma uart_frames_simps [simp]: "uart_frames [] p = p" "uart_frames (f # fs) p = uart_frames fs (snd (uart_client_send p f))"
  "uart_frames (fs @ gs) p = uart_frames gs (uart_frames fs p)"
  by (simp_all add: uart_frames_def)

lemma version_check_total:
  assumes "1 \<le> unat l" "j + unat l \<le> length buf"
  shows "version_check buf j l = Some ()"
proof -
  obtain v where v: "arr_get buf j = Some v" using assms by (simp add: arr_get_def)
  show ?thesis
  proof (cases "285 \<le> l")
    case True
    then have "j + 285 \<le> length buf" using assms(2) by (simp add: word_le_nat_alt)
    moreover from this obtain a b where "read_le32 buf (j + 1) = Some a" "read_le32 buf (j + 221) = Some b"
      using read_le32_Some [of "j + 1" buf] read_le32_Some [of "j + 221" buf] by auto
    ultimately show ?thesis unfolding version_check_def v by simp
  qed (simp add: version_check_def v)
qed

interpretation setup_walk: ie_visitor "channel_setup_ie k" "\<lambda>t d st. Some (setup_step k (t, d) st)" for k
proof
  fix n t :: u16 and i :: u32 and buf :: bytes and st :: setup_state
  assume n: "4 \<le> unat n" "unat i + unat n \<le> length buf" "length buf < 2 ^ 31"
  define d where "d = take (unat n - 4) (drop (unat i + 4) buf)"
  have ld: "length d = unat n - 4" "unat i + 4 + length d \<le> length buf" using n by (simp_all add: d_def)
  have i4: "unat (i + 4) = unat i + 4" using n by (subst u32_add_nat) simp_all
  have n4: "m \<le> n - 4 \<longleftrightarrow> unat m \<le> length d" for m :: u16
    using n(1) ld by (simp add: word_le_nat_alt unat_sub)
  note r = element_reads [where m = "unat n - 4" and i = "unat i + 4" and buf = buf, folded d_def]
  have v: "version_check buf (unat i + 4) (n - 4) = Some ()" if "1 \<le> length d"
    using that ld n(1) by (intro version_check_total) (simp_all add: unat_sub word_le_nat_alt)
  consider "t = 11" | "t = 13" | "t = 14" | "t = 15" | "t = 502" | "t = 504" | "t \<notin> {11, 13, 14, 15, 502, 504}" by blast
  then have "channel_setup_ie k buf t n i st = Some (setup_step k (t, d) st)"
  proof cases
    case 1
    then show ?thesis using r(3) by (auto simp: channel_setup_ie_def setup_step_def setup_time_def setup_commands_def setup_clock_def n4 Let_def)
  next
    case 4
    have "arr_get buf (unat i + 4) = Some (d ! 0)" "arr_get buf (unat i + 4 + 1) = Some (d ! 1)" if "2 \<le> length d"
      using that r(1) [of 0] r(1) [of 1] by (cases "d = []"; simp)+
    with 4 show ?thesis by (auto simp: channel_setup_ie_def setup_step_def setup_time_def setup_commands_def i4 n4 fpga_beam_num split_beta)
  qed (use r(2) v in \<open>auto simp: channel_setup_ie_def setup_step_def setup_time_def setup_commands_def i4 n4 fpga_commands split_beta\<close>)
  then show "channel_setup_ie k buf t n i st = Some (setup_step k (t, take (unat n - 4) (drop (unat i + 4) buf)) st)"
    unfolding d_def .
qed

text \<open>The clock after the elements.\<close>

definition setup_clock_after :: "clock_calls \<Rightarrow> (u16 \<times> bytes) list \<Rightarrow> int option \<Rightarrow> int option" where
  "setup_clock_after k = fold (\<lambda>e c. case setup_time k e of None \<Rightarrow> c | Some v \<Rightarrow> Some v)"

lemma fold_setup_step:
  "fold (setup_step k) es (c, p) = (setup_clock_after k es c, uart_frames (concat (map setup_commands es)) p)"
  by (induction es arbitrary: c p) (auto simp: setup_clock_after_def setup_step_def split: option.splits)


lemma setup_response_built:
  assumes "length h = 4096"
  shows "\<exists>p n. channel_setup_create_response items (Some h) result
       = Some (SUCCESS, \<lparr>cm_header = setup_header items MSG_CHANNEL_SETUP_CFG_ACK, cm_payload = map_option Outside p, cm_payload_len = n\<rparr>)
     \<and> ie_built (p, n) [(IE_TYPE_SETUP_RESPONSE, le32 result)]"
proof -
  obtain p n where "put_ies (Some h) [(21, le32 result)] (None, 0) = Some (p, n)" "ie_built (p, n) [(21, le32 result)]"
    using put_ies_built [OF assms ie_built_start, of "[(21, le32 result)]"] by auto
  then show ?thesis by (intro exI [of _ p] exI [of _ n]) (simp add: channel_setup_create_response_def del: put_ies.simps)
qed

section \<open>Properties\<close>

definition setup_ack_header :: "(string \<times> string) list \<Rightarrow> cpri_msg_header \<Rightarrow> cpri_msg_header" where
  "setup_ack_header items h = (setup_header items MSG_CHANNEL_SETUP_CFG_ACK)\<lparr>ch_serial_num := ch_serial_num h, ch_bbu_id := ch_bbu_id h,
     ch_port_num := ch_port_num h\<rparr>"

definition setup_example :: cpri_message where
  "setup_example = \<lparr>cm_header = \<lparr>ch_msg_id = 2, ch_msg_length = 21, ch_paau_id = 1, ch_bbu_id = 2, ch_port_num = 3, ch_serial_num = 9\<rparr>,
     cm_payload = Some (Outside (le16 15 @ le16 6 @ [4, 12])), cm_payload_len = 6\<rparr>"

definition clock_example :: clock_calls where
  "clock_example = \<lparr>cl_mktime = (\<lambda>t. 0), cl_settimeofday = (\<lambda>t. True)\<rparr>"

definition fpga_start :: fpga_state_manager where
  "fpga_start = \<lparr>fs_current_status = status_frame_zero, fs_status_valid = False, fs_last_update_time = 0\<rparr>"

definition port_open :: port where
  "port_open = \<lparr>po_open = True, po_script = [], po_out = []\<rparr>"

text \<open>When the connection comes up, the channel counts as not established and one request goes out under the
  next serial number; whoever walks through its payload finds exactly the six elements that describe the
  product, the reason, the capability and hardware of the FPGA (or the defaults without a status frame), the
  versions and the band, and the message has 306 bytes, far from the limit of its buffer.\<close>

theorem setup_request_sent:
  assumes "length h = 4096" "hw_type_ok fpga"
  shows "\<exists>frame. on_tcp_connected items fpga (Some h) (established, n, tcp) = Some (False, n + 1, snd (tcp_client_send tcp frame))
     \<and> frame = cpri_frame ((setup_header items MSG_CHANNEL_SETUP_REQ)\<lparr>ch_serial_num := n + 1\<rparr>) (drop 15 frame)
     \<and> parse_ies (drop 15 frame) = setup_elements items fpga CHANNEL_SETUP_REASON_POWER_ON \<and> length frame = 306"
proof -
  let ?es = "setup_elements items fpga CHANNEL_SETUP_REASON_POWER_ON"
  note sz = setup_elements_size [OF assms(2), of items CHANNEL_SETUP_REASON_POWER_ON]
  let ?f = "cpri_frame ((setup_header items MSG_CHANNEL_SETUP_REQ)\<lparr>ch_serial_num := n + 1\<rparr>) (ie_bytes ?es)"
  have "drop 15 ?f = ie_bytes ?es" by (simp add: cpri_frame_def)
  moreover have "parse_ies (ie_bytes ?es) = ?es" using parse_ies_bytes [OF sz(2), of "[]"] by simp
  moreover have "length ?f = 306" using sz(1) by (simp add: cpri_frame_length)
  ultimately show ?thesis
    using send_setup_request_frame [OF assms] by (intro exI [of _ ?f]) (simp add: on_tcp_connected_def)
qed

theorem setup_request_sent_witness:
  "\<exists>frame. on_tcp_connected [] fpga_start (Some (replicate 4096 0)) (True, 6, port_open) = Some (False, 7, snd (tcp_client_send port_open frame))
     \<and> length frame = 306"
proof -
  have "hw_type_ok fpga_start" by (simp add: hw_type_ok_def fpga_start_def status_frame_zero_def status_data_zero_def status_data_raw_def)
  then show ?thesis using setup_request_sent [of "replicate 4096 0" fpga_start "[]" True 6 port_open] by auto
qed

text \<open>The element numbers 501 and 503, under which the notes on the channel setup list the system time and the
  operating mode, are not handled: the code knows these two as 11 and 13.\<close>

lemma elements_501_503_ignored:
  "t = 501 \<or> t = 503 \<Longrightarrow> setup_commands (t, d) = [] \<and> setup_time k (t, d) = None"
  by (auto simp: setup_commands_def setup_time_def)

text \<open>C22. A setup configuration is carried out element by element, in order: each operating mode (13), pair of
  beam numbers (15) and CPRI mode (504) goes to the FPGA as a command, the clock is the last one of the elements 11 that
  the system accepted, and elements that are too short, of another number or behind a wrong length do nothing. The
  configuration is then acknowledged under the serial number, unit and port of the request, and the
  heartbeat starts with no missed interval. The acknowledgement always carries result 0, also when the clock or a
  command failed, and the time is not sent to the FPGA: here the code departs from the notes on the channel
  setup, which also give the time and the operating mode the numbers 501 and 503.\<close>

theorem channel_setup_applied:
  assumes "cm_payload msg \<noteq> None" "unat (cm_payload_len msg) \<le> length (message_bytes pool msg)"
    "length (message_bytes pool msg) < 2 ^ 31" "length h = 4096"
  defines "es \<equiv> parse_ies (take (unat (cm_payload_len msg)) (message_bytes pool msg))"
  shows "handle_channel_setup_req k items (Some h) now pool msg ((c, uart), tcp, hb) = Some (SUCCESS,
     (setup_clock_after k es c, uart_frames (concat (map setup_commands es)) uart),
     snd (tcp_client_send tcp (cpri_frame (setup_ack_header items (cm_header msg)) (ie_bytes [(IE_TYPE_SETUP_RESPONSE, le32 0)]))),
     hb\<lparr>hb_heartbeat_enabled := True, hb_paau_heartbeat_count := 0, hb_bbu_heartbeat_miss_count := 0, hb_last_bbu_heartbeat_time := now\<rparr>)"
proof -
  have w: "ie_loop (channel_setup_ie k) (message_bytes pool msg) (cm_payload_len msg) 0 (c, uart)
      = Some (setup_clock_after k es c, uart_frames (concat (map setup_commands es)) uart)"
    unfolding setup_walk.loop_is_fold [OF assms(2,3)] fold_ies_Some fold_setup_step es_def ..
  obtain p n where r: "channel_setup_create_response items (Some h) 0
       = Some (SUCCESS, \<lparr>cm_header = setup_header items MSG_CHANNEL_SETUP_CFG_ACK, cm_payload = map_option Outside p, cm_payload_len = n\<rparr>)"
      "ie_built (p, n) [(IE_TYPE_SETUP_RESPONSE, le32 0)]"
    using setup_response_built [OF assms(4)] by blast
  show ?thesis
    using encode_built [OF r(2), of pool "setup_ack_header items (cm_header msg)"] assms(1)
    by (simp add: handle_channel_setup_req_def channel_setup_handle_config_def w r(1) heartbeat_start_def Let_def
        setup_ack_header_def cpri_frame_length)
qed

theorem channel_setup_applied_witness:
  "\<exists>tcp' hb'. handle_channel_setup_req clock_example [] (Some (replicate 4096 0)) 5 [] setup_example ((None, port_open), port_open, hb_example)
     = Some (SUCCESS, (None, uart_frames [fpga_frame 3 [4], fpga_frame 4 [12]] port_open), tcp', hb') \<and> hb_heartbeat_enabled hb'"
proof -
  have "parse_ies (le16 15 @ le16 6 @ [4, 12]) = [(15, [4, 12])]"
    using parse_ies_bytes [of "[(15, [4, 12])]" "[]"] by simp
  then show ?thesis
    using channel_setup_applied [of setup_example "[]" "replicate 4096 0" clock_example "[]" 5 None port_open port_open hb_example]
    by (simp add: setup_example_def message_bytes_def payload_bytes_def setup_clock_after_def setup_time_def setup_commands_def)
qed

end
