(* ===== verification/Disk.thy ===== *)
theory Disk
  imports FirmwarePackage "HOL-Library.AList"
begin

text \<open>
  The part of a Unix file system that the version manager works with: plain files with their contents and
  whether they may be executed, symbolic links, and directories, each by its full path. A disk is the file
  system as it is, the states it went through, and a script of what the next system calls give; a script
  that has ended means calls that succeed. The calls reach the disk in their order, which is what the
  calls of \<open>fsync\<close> and \<open>sync\<close> in the program are for; a loss of power leaves one of the states that
  the disk went through.
\<close>

subsection \<open>File systems\<close>

record file_system =
  fs_files :: "(string \<times> string \<times> bool) list"
  fs_links :: "(string \<times> string) list"
  fs_dirs :: "string list"

definition fs_read :: "file_system \<Rightarrow> string \<Rightarrow> string option" where
  "fs_read fs path = map_option fst (map_of (fs_files fs) path)"

definition fs_link :: "file_system \<Rightarrow> string \<Rightarrow> string option" where
  "fs_link fs path = map_of (fs_links fs) path"

definition fs_put :: "string \<Rightarrow> string \<Rightarrow> file_system \<Rightarrow> file_system" where
  "fs_put path content fs = fs\<lparr>fs_files := AList.update path (content, False) (fs_files fs)\<rparr>"

definition fs_drop :: "string \<Rightarrow> file_system \<Rightarrow> file_system" where
  "fs_drop path fs = fs\<lparr>fs_files := AList.delete path (fs_files fs), fs_links := AList.delete path (fs_links fs)\<rparr>"

definition fs_move :: "string \<Rightarrow> string \<Rightarrow> file_system \<Rightarrow> file_system" where
  "fs_move source target fs =
     (case map_of (fs_files fs) source of
        Some f \<Rightarrow> (fs_drop target (fs_drop source fs))\<lparr>fs_files := AList.update target f (fs_files (fs_drop target (fs_drop source fs)))\<rparr>
      | None \<Rightarrow>
          (case map_of (fs_links fs) source of
             Some l \<Rightarrow> (fs_drop target (fs_drop source fs))\<lparr>fs_links := AList.update target l (fs_links (fs_drop target (fs_drop source fs)))\<rparr>
           | None \<Rightarrow> fs))"

definition fs_has :: "file_system \<Rightarrow> string \<Rightarrow> bool" where
  "fs_has fs path \<longleftrightarrow> map_of (fs_files fs) path \<noteq> None \<or> map_of (fs_links fs) path \<noteq> None \<or> path \<in> set (fs_dirs fs)"

subsection \<open>System calls\<close>

datatype call_result = Call_ok | Call_fails | Call_short nat

record disk =
  dk_fs :: file_system
  dk_past :: "file_system list"
  dk_script :: "call_result list"

definition next_result :: "disk \<Rightarrow> call_result \<times> disk" where
  "next_result d = (case dk_script d of [] \<Rightarrow> (Call_ok, d) | r # rs \<Rightarrow> (r, d\<lparr>dk_script := rs\<rparr>))"

definition disk_step :: "(file_system \<Rightarrow> file_system) \<Rightarrow> disk \<Rightarrow> disk" where
  "disk_step f d = d\<lparr>dk_fs := f (dk_fs d), dk_past := dk_past d @ [dk_fs d]\<rparr>"

definition disk_call :: "bool \<Rightarrow> (file_system \<Rightarrow> file_system) \<Rightarrow> disk \<Rightarrow> bool \<times> disk" where
  "disk_call possible f d =
     (case next_result d of (r, d) \<Rightarrow> if r = Call_ok \<and> possible then (True, disk_step f d) else (False, d))"

text \<open>\<open>fopen\<close> for writing, the buffered output behind it, \<open>rename\<close>, \<open>unlink\<close>, \<open>symlink\<close> and \<open>mkdir\<close>. Output may
  reach the disk in part or not at all. For \<open>mkdir\<close> a directory that is there already counts as success,
  as all callers take it.\<close>

definition sys_create :: "string \<Rightarrow> disk \<Rightarrow> bool \<times> disk" where
  "sys_create path d = disk_call True (fs_put path []) d"

definition sys_output :: "string \<Rightarrow> string \<Rightarrow> disk \<Rightarrow> bool \<times> disk" where
  "sys_output path content d =
     (case next_result d of (r, d) \<Rightarrow>
        case r of
          Call_ok \<Rightarrow> (True, disk_step (fs_put path content) d)
        | Call_short n \<Rightarrow> (False, disk_step (fs_put path (take n content)) d)
        | Call_fails \<Rightarrow> (False, d))"

definition sys_rename :: "string \<Rightarrow> string \<Rightarrow> disk \<Rightarrow> bool \<times> disk" where
  "sys_rename source target d = disk_call (fs_has (dk_fs d) source) (fs_move source target) d"

definition sys_unlink :: "string \<Rightarrow> disk \<Rightarrow> bool \<times> disk" where
  "sys_unlink path d =
     disk_call (map_of (fs_files (dk_fs d)) path \<noteq> None \<or> map_of (fs_links (dk_fs d)) path \<noteq> None) (fs_drop path) d"

definition sys_symlink :: "string \<Rightarrow> string \<Rightarrow> disk \<Rightarrow> bool \<times> disk" where
  "sys_symlink target path d =
     disk_call (\<not> fs_has (dk_fs d) path) (\<lambda>fs. fs\<lparr>fs_links := AList.update path target (fs_links fs)\<rparr>) d"

definition sys_mkdir :: "string \<Rightarrow> disk \<Rightarrow> bool \<times> disk" where
  "sys_mkdir path d =
     (if fs_has (dk_fs d) path then (True, snd (next_result d))
      else disk_call True (\<lambda>fs. fs\<lparr>fs_dirs := path # fs_dirs fs\<rparr>) d)"

text \<open>\<open>rm -rf\<close>: the path and all that is below it.\<close>

definition below :: "string \<Rightarrow> string \<Rightarrow> bool" where
  "below dir path \<longleftrightarrow> path = dir \<or> take (length dir + 1) path = dir @ ''/''"

definition fs_remove_tree :: "string \<Rightarrow> file_system \<Rightarrow> file_system" where
  "fs_remove_tree dir fs = fs\<lparr>fs_files := filter (\<lambda>(p, f). \<not> below dir p) (fs_files fs),
     fs_links := filter (\<lambda>(p, l). \<not> below dir p) (fs_links fs), fs_dirs := filter (\<lambda>p. \<not> below dir p) (fs_dirs fs)\<rparr>"

subsection \<open>Laws\<close>

lemma read_put [simp]: "fs_read (fs_put p c fs) q = (if q = p then Some c else fs_read fs q)"
  by (simp add: fs_read_def fs_put_def update_conv')

lemma link_put [simp]: "fs_link (fs_put p c fs) q = fs_link fs q"
  by (simp add: fs_link_def fs_put_def)

lemma read_drop [simp]: "fs_read (fs_drop p fs) q = (if q = p then None else fs_read fs q)"
  by (simp add: fs_read_def fs_drop_def delete_conv')

lemma link_drop [simp]: "fs_link (fs_drop p fs) q = (if q = p then None else fs_link fs q)"
  by (simp add: fs_link_def fs_drop_def delete_conv')

lemma move_file [simp]:
  assumes "fs_read fs p = Some c"
  shows "fs_read (fs_move p t fs) q = (if q = t then Some c else if q = p then None else fs_read fs q)"
    "fs_link (fs_move p t fs) q = (if q = t \<or> q = p then None else fs_link fs q)"
  using assms by (auto simp: fs_read_def fs_link_def fs_move_def fs_drop_def update_conv' delete_conv' split: option.splits)

lemma move_link [simp]:
  assumes "fs_read fs p = None" "fs_link fs p = Some l"
  shows "fs_link (fs_move p t fs) q = (if q = t then Some l else if q = p then None else fs_link fs q)"
    "fs_read (fs_move p t fs) q = (if q = t \<or> q = p then None else fs_read fs q)"
  using assms by (auto simp: fs_read_def fs_link_def fs_move_def fs_drop_def update_conv' delete_conv' split: option.splits)

text \<open>Nothing but the script decides about a call that is possible.\<close>

lemma next_result_ok [simp]: "dk_script d = [] \<Longrightarrow> next_result d = (Call_ok, d)"
  by (simp add: next_result_def)

lemma disk_step_simps [simp]:
  "dk_fs (disk_step f d) = f (dk_fs d)" "dk_past (disk_step f d) = dk_past d @ [dk_fs d]" "dk_script (disk_step f d) = dk_script d"
  by (simp_all add: disk_step_def)

subsection \<open>Loss of power\<close>

definition crash_states :: "disk \<Rightarrow> file_system list" where
  "crash_states d = dk_past d @ [dk_fs d]"

lemma crash_states_step [simp]: "crash_states (disk_step f d) = crash_states d @ [f (dk_fs d)]"
  by (simp add: crash_states_def)

text \<open>After the loss of power the system starts from what is on the disk.\<close>

definition restart :: "file_system \<Rightarrow> disk" where
  "restart fs = \<lparr>dk_fs = fs, dk_past = [], dk_script = []\<rparr>"

lemma restart_simps [simp]: "dk_fs (restart fs) = fs" "dk_past (restart fs) = []" "dk_script (restart fs) = []"
  by (simp_all add: restart_def)

end
