(* ===== verification/VersionTrial.thy ===== *)
theory VersionTrial
  imports Disk AlarmManager Config
begin

text \<open>
  The switch to another software version and its trial run, from version_manager.c and
  scripts/upgrade-guard.sh. The running version is the target of a symbolic link. When the baseband unit activates
  a version, a record of the trial is written first and the link is replaced after it. The guard runs before
  every start of the service, counts the starts in the record and goes back to the previous version when there
  were too many; the program removes the record when the channel to the baseband unit is established.
\<close>

subsection \<open>Paths\<close>

abbreviation (input) VERSION_BASE_DIR :: string where "VERSION_BASE_DIR \<equiv> ''/opt/vendor/versions''"
definition VERSION_CURRENT_LINK :: string where "VERSION_CURRENT_LINK = ''/opt/vendor/current''"
definition VERSION_ROLLBACK_DIR :: string where "VERSION_ROLLBACK_DIR = ''/opt/vendor/versions/.rollback''"
definition VERSION_TRIAL_FILE :: string where "VERSION_TRIAL_FILE = VERSION_ROLLBACK_DIR @ ''/trial''"
definition VERSION_AUTO_ROLLBACK_NOTICE :: string where "VERSION_AUTO_ROLLBACK_NOTICE = VERSION_ROLLBACK_DIR @ ''/auto_rollback.last''"

abbreviation (input) ACTIVATE_RESULT_SUCCESS :: u8 where "ACTIVATE_RESULT_SUCCESS \<equiv> 0"
abbreviation (input) ACTIVATE_RESULT_NOT_EXIST :: u8 where "ACTIVATE_RESULT_NOT_EXIST \<equiv> 1"
abbreviation (input) ACTIVATE_RESULT_CORRUPTED :: u8 where "ACTIVATE_RESULT_CORRUPTED \<equiv> 2"
abbreviation (input) ACTIVATE_RESULT_MISMATCH :: u8 where "ACTIVATE_RESULT_MISMATCH \<equiv> 3"
abbreviation (input) ACTIVATE_RESULT_OTHER :: u8 where "ACTIVATE_RESULT_OTHER \<equiv> 4"

text \<open>The loop over the slashes behind the first character; it is never called with an empty path.\<close>

fun mkdir_all :: "string list \<Rightarrow> disk \<Rightarrow> bool \<times> disk" where
  "mkdir_all [] d = (True, d)"
| "mkdir_all (p # ps) d = (case sys_mkdir p d of (ok, d) \<Rightarrow> if \<not> ok then (False, d) else mkdir_all ps d)"

definition create_directory_recursive :: "string \<Rightarrow> disk \<Rightarrow> int \<times> disk" where
  "create_directory_recursive path d =
     (let tmp = take 511 path;
          tmp = (if tmp \<noteq> [] \<and> last tmp = CHR ''/'' then butlast tmp else tmp);
          prefixes = map (\<lambda>i. take i tmp) (filter (\<lambda>i. tmp ! i = CHR ''/'') [1..<length tmp])
      in case mkdir_all (prefixes @ [tmp]) d of (ok, d) \<Rightarrow> (if ok then SUCCESS else ERROR_GENERAL, d))"

subsection \<open>The record of a trial\<close>

record version_trial =
  vt_new_dir :: string
  vt_prev_dir :: string
  vt_attempts :: u32
  vt_time :: string

definition trial_zero :: version_trial where
  "trial_zero = \<lparr>vt_new_dir = [], vt_prev_dir = [], vt_attempts = 0, vt_time = []\<rparr>"

definition read_current_link :: "file_system \<Rightarrow> string" where
  "read_current_link fs = (case fs_link fs VERSION_CURRENT_LINK of Some target \<Rightarrow> take 511 target | None \<Rightarrow> [])"

definition trial_line :: "version_trial \<Rightarrow> string \<Rightarrow> version_trial" where
  "trial_line t line =
     (let line = takeWhile (\<lambda>c. ch c \<noteq> 13 \<and> c \<noteq> newline) (cstr line)
      in if CHR ''='' \<notin> set line then t
         else let key = takeWhile (\<lambda>c. c \<noteq> CHR ''='') line; val = tl (dropWhile (\<lambda>c. c \<noteq> CHR ''='') line)
              in if key = ''new'' then t\<lparr>vt_new_dir := take 511 val\<rparr>
                 else if key = ''previous'' then t\<lparr>vt_prev_dir := take 511 val\<rparr>
                 else if key = ''attempts'' then t\<lparr>vt_attempts := ucast (strtoul_base 10 val)\<rparr>
                 else if key = ''time'' then t\<lparr>vt_time := take 31 val\<rparr>
                 else t)"

definition trial_read :: "file_system \<Rightarrow> int \<times> version_trial" where
  "trial_read fs =
     (case fs_read fs VERSION_TRIAL_FILE of
        None \<Rightarrow> (ERROR_GENERAL, trial_zero)
      | Some text \<Rightarrow>
          let t = foldl trial_line trial_zero (fgets_all 639 text)
          in (if vt_new_dir t \<noteq> [] then SUCCESS else ERROR_GENERAL, t))"

definition record_text :: "string \<Rightarrow> string \<Rightarrow> nat \<Rightarrow> string \<Rightarrow> string" where
  "record_text new_dir prev_dir attempts tm = concat (map (\<lambda>l. l @ [newline])
     [field_line ''new'' new_dir, field_line ''previous'' prev_dir, field_line ''attempts'' (dec attempts), field_line ''time'' tm])"

text \<open>What the output functions return is not looked at.\<close>

definition trial_write :: "version_trial \<Rightarrow> disk \<Rightarrow> int \<times> disk" where
  "trial_write t d =
     (let tmp = VERSION_TRIAL_FILE @ ''.tmp''
      in case sys_create tmp d of (ok, d) \<Rightarrow>
         if \<not> ok then (ERROR_GENERAL, d)
         else let d = snd (sys_output tmp (record_text (vt_new_dir t) (vt_prev_dir t) (unat (vt_attempts t)) (vt_time t)) d)
         in case sys_rename tmp VERSION_TRIAL_FILE d of (ok, d) \<Rightarrow>
            if \<not> ok then (ERROR_GENERAL, snd (sys_unlink tmp d)) else (SUCCESS, d))"

definition trial_remove :: "disk \<Rightarrow> disk" where
  "trial_remove d = snd (sys_unlink VERSION_TRIAL_FILE d)"

definition replace_current_link :: "string \<Rightarrow> disk \<Rightarrow> int \<times> disk" where
  "replace_current_link target d =
     (let tmp_link = VERSION_CURRENT_LINK @ ''.tmp'';
          d = snd (sys_unlink tmp_link d)
      in case sys_symlink target tmp_link d of (ok, d) \<Rightarrow>
         if \<not> ok then (ERROR_GENERAL, d)
         else case sys_rename tmp_link VERSION_CURRENT_LINK d of (ok, d) \<Rightarrow>
            if \<not> ok then (ERROR_GENERAL, snd (sys_unlink tmp_link d)) else (SUCCESS, d))"

subsection \<open>Switching\<close>

text \<open>The conversion \<open>%Y%m%d_%H%M%S\<close>; the buffer has room for any year.\<close>

definition version_stamp :: "local_time \<Rightarrow> string" where
  "version_stamp t = (case t of (y, mo, d, h, mi, s) \<Rightarrow>
     dec_int y @ pad_int 2 mo @ pad_int 2 d @ ''_'' @ pad_int 2 h @ pad_int 2 mi @ pad_int 2 s)"

definition rollback_json :: "string \<Rightarrow> string \<Rightarrow> string \<Rightarrow> string \<Rightarrow> string" where
  "rollback_json stamp previous new reason =
     ''{'' @ [newline] @ ''  \"timestamp\": \"'' @ stamp @ ''\",'' @ [newline] @ ''  \"previous_version\": \"'' @ previous @ ''\",'' @ [newline]
     @ ''  \"new_version\": \"'' @ new @ ''\",'' @ [newline] @ ''  \"reason\": \"'' @ reason @ ''\"'' @ [newline] @ ''}'' @ [newline]"

text \<open>The entry for the audit: an error only when its directory cannot be made.\<close>

definition save_rollback_info :: "string \<Rightarrow> string \<Rightarrow> string \<Rightarrow> string \<Rightarrow> disk \<Rightarrow> bool \<times> disk" where
  "save_rollback_info stamp current_target version reason d =
     (let rollback_dir = take 511 (VERSION_ROLLBACK_DIR @ ''/'' @ stamp)
      in case create_directory_recursive rollback_dir d of (ret, d) \<Rightarrow>
         if ret \<noteq> SUCCESS then (False, d)
         else let rollback_info = take 1023 (rollback_dir @ ''/rollback.json'')
              in case sys_create rollback_info d of (ok, d) \<Rightarrow>
                 (True, if ok then snd (sys_output rollback_info (rollback_json stamp current_target version reason) d) else d))"

text \<open>The record is written or removed before the link is touched.\<close>

definition arm_trial :: "string \<Rightarrow> string \<Rightarrow> string \<Rightarrow> bool \<Rightarrow> disk \<Rightarrow> disk" where
  "arm_trial version_dir current_target stamp trial d =
     (let same_version = (current_target \<noteq> [] \<and> current_target = version_dir)
      in if trial \<and> \<not> same_version \<and> current_target \<noteq> [] \<and> current_target \<in> set (fs_dirs (dk_fs d))
         then snd (trial_write \<lparr>vt_new_dir = take 511 version_dir, vt_prev_dir = take 511 current_target, vt_attempts = 0, vt_time = take 31 stamp\<rparr> d)
         else if \<not> same_version then trial_remove d
         else d)"

text \<open>The metadata of a version are only looked for here: \<open>load_version_metadata\<close> fails exactly when
  neither of its files can be opened, and what it reads is shown in the log.\<close>

definition has_metadata :: "file_system \<Rightarrow> string \<Rightarrow> bool" where
  "has_metadata fs dir \<longleftrightarrow> fs_read fs (dir @ ''/metadata.txt'') \<noteq> None \<or> fs_read fs (dir @ ''/version.json'') \<noteq> None"

text \<open>The second component of the state is \<open>g_current_version\<close>.\<close>

definition switch_to_version :: "local_time option \<Rightarrow> string \<Rightarrow> string option \<Rightarrow> bool \<Rightarrow> disk \<times> string \<Rightarrow> u8 \<times> disk \<times> string" where
  "switch_to_version now version reason trial st =
     (case st of (d, g_current_version) \<Rightarrow>
        case now of
          None \<Rightarrow> (ACTIVATE_RESULT_OTHER, st)
        | Some tm \<Rightarrow>
            let stamp = version_stamp tm;
                version_dir = take 511 (VERSION_BASE_DIR @ ''/'' @ version)
            in if version_dir \<notin> set (fs_dirs (dk_fs d)) then (ACTIVATE_RESULT_NOT_EXIST, st)
               else if \<not> has_metadata (dk_fs d) version_dir then (ACTIVATE_RESULT_CORRUPTED, st)
               else let current_target = read_current_link (dk_fs d)
               in case (if current_target \<noteq> []
                        then save_rollback_info stamp current_target version (case reason of Some r \<Rightarrow> r | None \<Rightarrow> ''upgrade'') d
                        else (True, d)) of
                    (ok, d) \<Rightarrow>
                      if \<not> ok then (ACTIVATE_RESULT_OTHER, d, g_current_version)
                      else let d = arm_trial version_dir current_target stamp trial d
                      in case replace_current_link version_dir d of (ret, d) \<Rightarrow>
                           if ret \<noteq> SUCCESS then (ACTIVATE_RESULT_OTHER, trial_remove d, g_current_version)
                           else (ACTIVATE_RESULT_SUCCESS, d, take 39 version))"

definition version_rollback :: "local_time option \<Rightarrow> string option \<Rightarrow> string option \<Rightarrow> disk \<times> string \<Rightarrow> int \<times> disk \<times> string" where
  "version_rollback now version reason st =
     (case version of
        None \<Rightarrow> (ERROR_INVALID_PARAM, st)
      | Some version \<Rightarrow>
          (case switch_to_version now version reason False st of
             (result, st) \<Rightarrow> (if result = ACTIVATE_RESULT_SUCCESS then SUCCESS else ERROR_GENERAL, st)))"

subsection \<open>The program during a trial\<close>

record trial_flags =
  tf_confirmed :: bool
  tf_stable_done :: bool
  tf_stable_sec :: u32

definition version_trial_on_channel_established :: "trial_flags \<times> disk \<Rightarrow> trial_flags \<times> disk" where
  "version_trial_on_channel_established st =
     (case st of (g, d) \<Rightarrow>
        if tf_confirmed g then st
        else let g = g\<lparr>tf_confirmed := True\<rparr>;
                 d = (if fst (trial_read (dk_fs d)) = SUCCESS then trial_remove d else d)
             in (g, snd (sys_unlink VERSION_AUTO_ROLLBACK_NOTICE d)))"

definition version_trial_on_uptime :: "u32 \<Rightarrow> trial_flags \<times> disk \<Rightarrow> trial_flags \<times> disk" where
  "version_trial_on_uptime uptime_sec st =
     (case st of (g, d) \<Rightarrow>
        if uptime_sec < tf_stable_sec g then st
        else if tf_stable_done g \<or> tf_confirmed g then st
        else let g = g\<lparr>tf_stable_done := True\<rparr>
             in case trial_read (dk_fs d) of (ret, t) \<Rightarrow>
                if ret = SUCCESS \<and> vt_attempts t \<noteq> 0
                then if read_current_link (dk_fs d) = vt_new_dir t then (g, snd (trial_write (t\<lparr>vt_attempts := 0\<rparr>) d)) else (g, d)
                else (g, d))"

text \<open>The part of \<open>version_manager_init\<close> about the trial: flags, and a record that is not about the running version.\<close>

definition trial_init :: "(string \<times> string) list \<Rightarrow> disk \<Rightarrow> trial_flags \<times> disk" where
  "trial_init items d =
     (let stable_sec = config_get_int items ''UPGRADE_TRIAL_STABLE_SEC'' 120;
          g = \<lparr>tf_confirmed = False, tf_stable_done = False, tf_stable_sec = (if stable_sec > 0 then of_int stable_sec else 120)\<rparr>
      in case trial_read (dk_fs d) of (ret, t) \<Rightarrow>
         if ret = SUCCESS \<and> read_current_link (dk_fs d) \<noteq> vt_new_dir t then (g, trial_remove d) else (g, d))"

subsection \<open>The guard\<close>

text \<open>\<open>sed -n "s/^key=//p" | head -n 1 | tr -d '\r'\<close>: the first line with the key, of any length.\<close>

definition trial_get :: "string \<Rightarrow> string \<Rightarrow> string" where
  "trial_get key text =
     (let ls = map (takeWhile (\<lambda>c. c \<noteq> newline)) (fgets_all (Suc (length text)) text)
      in case filter (\<lambda>l. take (length key + 1) l = key @ ''='') ls of
           [] \<Rightarrow> []
         | l # _ \<Rightarrow> filter (\<lambda>c. ch c \<noteq> 13) (drop (length key + 1) l))"

definition attempts_of :: "string \<Rightarrow> nat" where
  "attempts_of s = (if s = [] \<or> \<not> list_all (\<lambda>c. digit_val c < 10) s then 0 else digits_value 10 s)"

text \<open>The number of starts comes from the configuration; what is missing or less than one is three.\<close>

definition guard_max_starts :: "nat option \<Rightarrow> nat" where
  "guard_max_starts n = (case n of Some n \<Rightarrow> if n < 1 then 3 else n | None \<Rightarrow> 3)"

definition guard_count :: "string \<Rightarrow> string \<Rightarrow> nat \<Rightarrow> string \<Rightarrow> disk \<Rightarrow> disk" where
  "guard_count new_dir prev_dir attempts tm d =
     (let tmp = VERSION_TRIAL_FILE @ ''.tmp''
      in case sys_create tmp d of (ok, d) \<Rightarrow>
         if \<not> ok then snd (sys_unlink tmp d)
         else case sys_output tmp (record_text new_dir prev_dir attempts tm) d of (ok, d) \<Rightarrow>
         if \<not> ok then snd (sys_unlink tmp d)
         else case sys_rename tmp VERSION_TRIAL_FILE d of (ok, d) \<Rightarrow>
         if \<not> ok then snd (sys_unlink tmp d) else d)"

text \<open>The link is replaced like in the program; then the notice and the entry for the audit are written and the record
  is removed.\<close>

definition notice_text :: "string \<Rightarrow> string \<Rightarrow> string \<Rightarrow> nat \<Rightarrow> string" where
  "notice_text ts new_dir prev_dir attempts = concat (map (\<lambda>l. l @ [newline])
     [field_line ''time'' ts, field_line ''from'' new_dir, field_line ''to'' prev_dir, field_line ''attempts'' (dec attempts)])"

definition guard_rollback :: "string \<Rightarrow> string \<Rightarrow> string \<Rightarrow> nat \<Rightarrow> disk \<Rightarrow> disk" where
  "guard_rollback ts new_dir prev_dir attempts d =
     (if prev_dir = [] \<or> fs_read (dk_fs d) (prev_dir @ ''/antenna_mgmt'') = None then trial_remove d
      else case replace_current_link prev_dir d of (ret, d) \<Rightarrow>
        if ret \<noteq> SUCCESS then trial_remove d
        else let tmp = VERSION_AUTO_ROLLBACK_NOTICE @ ''.tmp'';
                 d = (case sys_create tmp d of (ok, d) \<Rightarrow>
                        if \<not> ok then d
                        else case sys_output tmp (notice_text ts new_dir prev_dir attempts) d of (ok, d) \<Rightarrow>
                        if \<not> ok then d else snd (sys_rename tmp VERSION_AUTO_ROLLBACK_NOTICE d));
                 d = snd (save_rollback_info ts new_dir prev_dir (''auto rollback: not confirmed after '' @ dec attempts @ '' starts'') d)
             in trial_remove d)"

definition upgrade_guard :: "nat option \<Rightarrow> string \<Rightarrow> disk \<Rightarrow> disk" where
  "upgrade_guard max_starts ts d =
     (case fs_read (dk_fs d) VERSION_TRIAL_FILE of
        None \<Rightarrow> d
      | Some text \<Rightarrow>
          let new_dir = trial_get ''new'' text; prev_dir = trial_get ''previous'' text;
              attempts = attempts_of (trial_get ''attempts'' text); tm = trial_get ''time'' text;
              current = (case fs_link (dk_fs d) VERSION_CURRENT_LINK of Some l \<Rightarrow> l | None \<Rightarrow> [])
          in if new_dir = [] \<or> current \<noteq> new_dir then trial_remove d
             else if attempts < guard_max_starts max_starts then guard_count new_dir prev_dir (attempts + 1) tm d
             else guard_rollback ts new_dir prev_dir attempts d)"


text \<open>One start of the service.\<close>

definition service_start :: "nat option \<Rightarrow> string \<Rightarrow> (string \<times> string) list \<Rightarrow> disk \<Rightarrow> trial_flags \<times> disk" where
  "service_start max_starts ts items d = trial_init items (upgrade_guard max_starts ts d)"

text \<open>A life of the service: its start, with the time of the guard, and what the trial is told until the process ends.\<close>

datatype life_event = Uptime u32 | Channel_established

fun life_step :: "life_event \<Rightarrow> trial_flags \<times> disk \<Rightarrow> trial_flags \<times> disk" where
  "life_step (Uptime uptime_sec) st = version_trial_on_uptime uptime_sec st"
| "life_step Channel_established st = version_trial_on_channel_established st"

definition service_life :: "nat option \<Rightarrow> (string \<times> string) list \<Rightarrow> string \<times> life_event list \<Rightarrow> disk \<Rightarrow> disk" where
  "service_life max_starts items l d = snd (fold life_step (snd l) (service_start max_starts (fst l) items d))"

subsection \<open>Numbers and records as text\<close>

declare dec.simps [simp del]

lemma digit_val_dec: "k < 10 \<Longrightarrow> digit_val (dec_digit k) = k"
proof -
  assume "k < 10"
  then have "k \<in> {0, 1, 2, 3, 4, 5, 6, 7, 8, 9}" by auto
  then show ?thesis by (auto simp: dec_digit_def digit_val_def)
qed

lemma dec_digits: "list_all (\<lambda>c. digit_val c < 10) (dec n)" "dec n \<noteq> []"
proof -
  show "list_all (\<lambda>c. digit_val c < 10) (dec n)" by (induction n rule: dec.induct) (subst dec.simps, simp add: digit_val_dec)
  show "dec n \<noteq> []" by (subst dec.simps) simp
qed

lemma digits_value_dec: "digits_value 10 (dec n) = n"
proof -
  have all: "takeWhile (\<lambda>c. digit_val c < 10) (dec m) = dec m" for m
    using dec_digits(1) [of m] by (simp add: takeWhile_eq_all_conv list_all_iff)
  show ?thesis
    unfolding digits_value_def all
  proof (induction n rule: dec.induct)
    case (1 n)
    then show ?case by (cases "n < 10") (subst dec.simps, simp add: digit_val_dec)+
  qed
qed

lemma digit_char: "digit_val c < 10 \<Longrightarrow> 48 \<le> ch c \<and> ch c \<le> 57"
  by (auto simp: digit_val_def split: if_splits)

lemma dec_plain: "c \<in> set (dec n) \<Longrightarrow> 48 \<le> ch c \<and> ch c \<le> 57"
  using dec_digits(1) [of n] digit_char by (auto simp: list_all_iff)

lemma attempts_of_dec: "attempts_of (dec n) = n"
  using dec_digits [of n] by (simp add: attempts_of_def digits_value_dec)

lemma strtoul_dec:
  assumes "n < 2 ^ 32"
  shows "(ucast (strtoul_base 10 (dec n)) :: u32) = of_nat n"
proof -
  obtain c r where c: "dec n = c # r" using dec_digits(2) [of n] by (cases "dec n") auto
  then have "48 \<le> ch c" "ch c \<le> 57" using dec_plain [of c n] by auto
  then have "\<not> isspace c" "c \<noteq> CHR ''-''" "c \<noteq> CHR ''+''" by (auto simp: isspace_def)
  moreover have "digits_value 10 (c # r) = n" using digits_value_dec [of n] c by simp
  ultimately have "strtoul_base 10 (dec n) = of_nat n" using assms by (auto simp: strtoul_base_def Let_def c split: list.splits)
  then show ?thesis using assms by (simp add: unsigned_of_nat take_bit_nat_eq_self)
qed

text \<open>Fields that a record can hold.\<close>

definition plain :: "nat \<Rightarrow> string \<Rightarrow> bool" where
  "plain n s \<longleftrightarrow> length s \<le> n \<and> list_all (\<lambda>c. c \<noteq> newline \<and> ch c \<noteq> 13 \<and> ch c \<noteq> 0) s"

definition record_ok :: "string \<Rightarrow> string \<Rightarrow> string \<Rightarrow> bool" where
  "record_ok new_dir prev_dir tm \<longleftrightarrow> plain 511 new_dir \<and> plain 511 prev_dir \<and> plain 31 tm \<and> new_dir \<noteq> []"

lemma plain_dec: "plain (length (dec n)) (dec n)"
  using dec_plain [of _ n] by (fastforce simp: plain_def list_all_iff)

lemma cstr_plain: "plain m v \<Longrightarrow> list_all (\<lambda>c. ch c \<noteq> 0) k \<Longrightarrow> cstr (field_line k v @ [newline]) = field_line k v @ [newline]"
  unfolding cstr_def by (auto simp: list_all_iff takeWhile_eq_all_conv field_line_def plain_def)


lemma trial_line_field:
  assumes "plain m v" "k \<in> {''new'', ''previous'', ''attempts'', ''time''}"
  shows "trial_line t (field_line k v @ [newline]) =
     (if k = ''new'' then t\<lparr>vt_new_dir := take 511 v\<rparr>
      else if k = ''previous'' then t\<lparr>vt_prev_dir := take 511 v\<rparr>
      else if k = ''attempts'' then t\<lparr>vt_attempts := ucast (strtoul_base 10 v)\<rparr>
      else t\<lparr>vt_time := take 31 v\<rparr>)"
proof -
  have k: "list_all (\<lambda>c. c \<noteq> newline \<and> ch c \<noteq> 13 \<and> ch c \<noteq> 0 \<and> c \<noteq> CHR ''='') k" using assms(2) by auto
  then have c: "cstr (field_line k v @ [newline]) = field_line k v @ [newline]"
    using assms(1) by (intro cstr_plain) (auto simp: list_all_iff)
  have "\<forall>c \<in> set (field_line k v). ch c \<noteq> 13 \<and> c \<noteq> newline"
    using k assms(1) by (auto simp: field_line_def plain_def list_all_iff)
  then have t: "takeWhile (\<lambda>c. ch c \<noteq> 13 \<and> c \<noteq> newline) (field_line k v @ [newline]) = field_line k v"
    by (simp add: takeWhile_append)
  have "\<forall>c \<in> set k. c \<noteq> CHR ''=''" using k by (auto simp: list_all_iff)
  then have kv: "takeWhile (\<lambda>c. c \<noteq> CHR ''='') (field_line k v) = k" "dropWhile (\<lambda>c. c \<noteq> CHR ''='') (field_line k v) = CHR ''='' # v"
    by (simp_all add: field_line_def takeWhile_append dropWhile_append)
  show ?thesis unfolding trial_line_def c t Let_def kv using assms(2) by (auto simp: field_line_def)
qed

lemma field_line_plain:
  assumes "plain m v" "k \<in> {''new'', ''previous'', ''attempts'', ''time''}"
  shows "newline \<notin> set (field_line k v)" "length (field_line k v) \<le> m + 9"
proof -
  have "newline \<notin> set v" "length v \<le> m" using assms(1) by (auto simp: plain_def list_all_iff)
  moreover have "newline \<notin> set k" "length k \<le> 8" using assms(2) by (elim insertE emptyE; simp)+
  ultimately show "newline \<notin> set (field_line k v)" "length (field_line k v) \<le> m + 9" by (simp_all add: field_line_def)
qed

lemma dec_length: "n < 2 ^ 32 \<Longrightarrow> length (dec n) \<le> 10"
proof -
  have "n < 10 ^ Suc k \<Longrightarrow> length (dec n) \<le> Suc k" for k n
  proof (induction k arbitrary: n)
    case (Suc k)
    then have "n div 10 < 10 ^ Suc k" by simp
    then show ?case using Suc.IH [of "n div 10"] by (subst dec.simps) simp
  qed (subst dec.simps, simp)
  from this [of n 9] show "n < 2 ^ 32 \<Longrightarrow> length (dec n) \<le> 10" by simp
qed

lemma record_lines:
  assumes "record_ok new_dir prev_dir tm" "n < 2 ^ 32" "639 \<le> m"
  shows "fgets_all m (record_text new_dir prev_dir n tm) = map (\<lambda>l. l @ [newline])
     [field_line ''new'' new_dir, field_line ''previous'' prev_dir, field_line ''attempts'' (dec n), field_line ''time'' tm]"
  unfolding record_text_def
proof (rule fgets_all_lines)
  have "plain 511 new_dir" "plain 511 prev_dir" "plain 10 (dec n)" "plain 31 tm"
    using assms plain_dec [of n] dec_length [of n] by (auto simp: record_ok_def plain_def)
  then show "list_all (\<lambda>l. newline \<notin> set l \<and> length l < m)
     [field_line ''new'' new_dir, field_line ''previous'' prev_dir, field_line ''attempts'' (dec n), field_line ''time'' tm]"
    using assms(3) field_line_plain [of 511 new_dir "''new''"] field_line_plain [of 511 prev_dir "''previous''"]
      field_line_plain [of 10 "dec n" "''attempts''"] field_line_plain [of 31 tm "''time''"] by simp
qed

text \<open>The program and the guard read the same record.\<close>

lemma trial_read_record:
  assumes "fs_read fs VERSION_TRIAL_FILE = Some (record_text new_dir prev_dir n tm)" "record_ok new_dir prev_dir tm" "n < 2 ^ 32"
  shows "trial_read fs = (SUCCESS, \<lparr>vt_new_dir = new_dir, vt_prev_dir = prev_dir, vt_attempts = of_nat n, vt_time = tm\<rparr>)"
proof -
  have p: "plain 511 new_dir" "plain 511 prev_dir" "plain (length (dec n)) (dec n)" "plain 31 tm" "new_dir \<noteq> []"
    using assms(2) plain_dec [of n] by (auto simp: record_ok_def)
  then have "take 511 new_dir = new_dir" "take 511 prev_dir = prev_dir" "take 31 tm = tm" by (simp_all add: plain_def)
  then have "foldl trial_line trial_zero (fgets_all 639 (record_text new_dir prev_dir n tm))
      = \<lparr>vt_new_dir = new_dir, vt_prev_dir = prev_dir, vt_attempts = of_nat n, vt_time = tm\<rparr>"
    unfolding record_lines [OF assms(2,3) order_refl]
    by (simp add: trial_line_field [OF p(1)] trial_line_field [OF p(2)] trial_line_field [OF p(3)] trial_line_field [OF p(4)]
        strtoul_dec [OF assms(3)] trial_zero_def)
  then show ?thesis using assms(1) p(5) by (simp add: trial_read_def Let_def)
qed

lemma line_of_newline: "newline \<notin> set l \<Longrightarrow> takeWhile (\<lambda>c. c \<noteq> newline) (l @ [newline]) = l"
  by (subst takeWhile_append2) auto

lemma guard_reads_record:
  assumes "record_ok new_dir prev_dir tm"
  shows "trial_get ''new'' (record_text new_dir prev_dir n tm) = new_dir" "trial_get ''previous'' (record_text new_dir prev_dir n tm) = prev_dir"
    "trial_get ''attempts'' (record_text new_dir prev_dir n tm) = dec n" "trial_get ''time'' (record_text new_dir prev_dir n tm) = tm"
proof -
  let ?ls = "[field_line ''new'' new_dir, field_line ''previous'' prev_dir, field_line ''attempts'' (dec n), field_line ''time'' tm]"
  have p: "plain 511 new_dir" "plain 511 prev_dir" "plain (length (dec n)) (dec n)" "plain 31 tm"
    using assms plain_dec [of n] by (auto simp: record_ok_def)
  have cr: "filter (\<lambda>c. ch c \<noteq> 13) v = v" if "plain m v" for m v using that by (auto simp: plain_def list_all_iff intro: filter_True)
  have nl: "list_all (\<lambda>l. newline \<notin> set l) ?ls" using p [THEN field_line_plain(1)] by simp
  have "list_all (\<lambda>l. length l < Suc (length (record_text new_dir prev_dir n tm))) ?ls"
    by (simp add: record_text_def)
  then have "fgets_all (Suc (length (record_text new_dir prev_dir n tm))) (record_text new_dir prev_dir n tm) = map (\<lambda>l. l @ [newline]) ?ls"
    using nl unfolding record_text_def by (intro fgets_all_lines) (auto simp: list_all_iff)
  moreover have "takeWhile (\<lambda>c. c \<noteq> newline) (l @ [newline]) = l" if "l \<in> set ?ls" for l
    using nl that by (intro line_of_newline) (auto simp: list_all_iff)
  ultimately have ls: "map (takeWhile (\<lambda>c. c \<noteq> newline)) (fgets_all (Suc (length (record_text new_dir prev_dir n tm))) (record_text new_dir prev_dir n tm)) = ?ls"
    by simp
  show "trial_get ''new'' (record_text new_dir prev_dir n tm) = new_dir" "trial_get ''previous'' (record_text new_dir prev_dir n tm) = prev_dir"
    "trial_get ''attempts'' (record_text new_dir prev_dir n tm) = dec n" "trial_get ''time'' (record_text new_dir prev_dir n tm) = tm"
    unfolding trial_get_def ls Let_def by (simp_all add: field_line_def cr [OF p(1)] cr [OF p(2)] cr [OF p(3)] cr [OF p(4)])
qed


subsection \<open>Replacing in one step\<close>

text \<open>An update of something on the disk whose every intermediate state shows the old or the new value, and nothing
  else that the other updates look at.\<close>

locale atomic_update =
  fixes update :: "disk \<Rightarrow> int \<times> disk" and view :: "file_system \<Rightarrow> 'v" and rest :: "file_system \<Rightarrow> 'f" and new :: 'v
    and ready :: "file_system \<Rightarrow> bool"
  assumes update_atomic: "dk_script d = [] \<Longrightarrow> ready (dk_fs d) \<Longrightarrow>
    \<exists>d' mid. update d = (SUCCESS, d') \<and> dk_script d' = [] \<and> view (dk_fs d') = new \<and> crash_states d' = crash_states d @ mid @ [dk_fs d']
      \<and> (\<forall>s \<in> set (mid @ [dk_fs d']). ready s \<and> rest s = rest (dk_fs d) \<and> view s \<in> {view (dk_fs d), new})"

text \<open>Two of them in a fixed order: no state shows the second change without the first.\<close>

locale ordered_updates = first: atomic_update update1 view1 view2 new1 ready + second: atomic_update update2 view2 view1 new2 ready
  for update1 update2 :: "disk \<Rightarrow> int \<times> disk" and view1 :: "file_system \<Rightarrow> 'a" and view2 :: "file_system \<Rightarrow> 'b"
    and new1 :: 'a and new2 :: 'b and ready :: "file_system \<Rightarrow> bool"
begin

lemma ordered:
  assumes "dk_script d = []" "ready (dk_fs d)"
  shows "\<exists>d' mid. update2 (snd (update1 d)) = (SUCCESS, d') \<and> dk_script d' = [] \<and> view1 (dk_fs d') = new1 \<and> view2 (dk_fs d') = new2
     \<and> crash_states d' = crash_states d @ mid \<and> ready (dk_fs d')
     \<and> (\<forall>s \<in> set mid. ready s \<and> (view1 s, view2 s) \<in> {(view1 (dk_fs d), view2 (dk_fs d)), (new1, view2 (dk_fs d)), (new1, new2)})"
proof -
  obtain d1 m1 where 1: "update1 d = (SUCCESS, d1)" "dk_script d1 = []" "view1 (dk_fs d1) = new1"
      "crash_states d1 = crash_states d @ m1 @ [dk_fs d1]"
      "\<forall>s \<in> set (m1 @ [dk_fs d1]). ready s \<and> view2 s = view2 (dk_fs d) \<and> view1 s \<in> {view1 (dk_fs d), new1}"
    using first.update_atomic [OF assms] by blast
  obtain d2 m2 where 2: "update2 d1 = (SUCCESS, d2)" "dk_script d2 = []" "view2 (dk_fs d2) = new2"
      "crash_states d2 = crash_states d1 @ m2 @ [dk_fs d2]"
      "\<forall>s \<in> set (m2 @ [dk_fs d2]). ready s \<and> view1 s = view1 (dk_fs d1) \<and> view2 s \<in> {view2 (dk_fs d1), new2}"
    using second.update_atomic [OF 1(2)] 1(5) by (auto 0 4)
  have "view2 (dk_fs d1) = view2 (dk_fs d)" "view1 (dk_fs d2) = new1" using 1(3,5) 2(5) by auto
  then show ?thesis
    using 1 2 by (intro exI [of _ d2] exI [of _ "m1 @ [dk_fs d1] @ m2 @ [dk_fs d2]"]) auto
qed

end

lemmas path_defs = VERSION_CURRENT_LINK_def VERSION_TRIAL_FILE_def VERSION_ROLLBACK_DIR_def VERSION_AUTO_ROLLBACK_NOTICE_def

definition trial_of :: "file_system \<Rightarrow> string option" where
  "trial_of fs = fs_read fs VERSION_TRIAL_FILE"

definition current_of :: "file_system \<Rightarrow> string option" where
  "current_of fs = fs_link fs VERSION_CURRENT_LINK"

text \<open>No directory is in the way of the temporary link.\<close>

definition link_ready :: "file_system \<Rightarrow> bool" where
  "link_ready fs \<longleftrightarrow> VERSION_CURRENT_LINK @ ''.tmp'' \<notin> set (fs_dirs fs)"

definition text_of_trial :: "version_trial \<Rightarrow> string" where
  "text_of_trial t = record_text (vt_new_dir t) (vt_prev_dir t) (unat (vt_attempts t)) (vt_time t)"

lemma fs_has_read: "fs_has fs p \<longleftrightarrow> fs_read fs p \<noteq> None \<or> fs_link fs p \<noteq> None \<or> p \<in> set (fs_dirs fs)"
  by (simp add: fs_has_def fs_read_def fs_link_def)

lemma dirs_kept [simp]: "fs_dirs (fs_put p c fs) = fs_dirs fs" "fs_dirs (fs_drop p fs) = fs_dirs fs" "fs_dirs (fs_move p q fs) = fs_dirs fs"
  by (auto simp: fs_put_def fs_drop_def fs_move_def split: option.split)

interpretation trial_update: atomic_update "trial_write t" trial_of current_of "Some (text_of_trial t)" link_ready for t
proof
  fix d :: disk
  assume "dk_script d = []" "link_ready (dk_fs d)"
  let ?tmp = "VERSION_TRIAL_FILE @ ''.tmp''" and ?text = "text_of_trial t"
  let ?d1 = "disk_step (fs_put ?tmp []) d"
  let ?d3 = "disk_step (fs_move ?tmp VERSION_TRIAL_FILE) (disk_step (fs_put ?tmp ?text) ?d1)"
  have "trial_write t d = (SUCCESS, ?d3)"
    using \<open>dk_script d = []\<close>
    by (simp add: trial_write_def sys_create_def sys_output_def sys_rename_def disk_call_def fs_has_read text_of_trial_def Let_def)
  moreover have "?tmp \<noteq> VERSION_TRIAL_FILE" "?tmp \<noteq> VERSION_CURRENT_LINK" "VERSION_TRIAL_FILE \<noteq> VERSION_CURRENT_LINK" by (simp_all add: path_defs)
  ultimately show "\<exists>d' mid. trial_write t d = (SUCCESS, d') \<and> dk_script d' = [] \<and> trial_of (dk_fs d') = Some ?text
      \<and> crash_states d' = crash_states d @ mid @ [dk_fs d']
      \<and> (\<forall>s \<in> set (mid @ [dk_fs d']). link_ready s \<and> current_of s = current_of (dk_fs d) \<and> trial_of s \<in> {trial_of (dk_fs d), Some ?text})"
    using \<open>dk_script d = []\<close> \<open>link_ready (dk_fs d)\<close>
    by (intro exI [of _ ?d3] exI [of _ "[fs_put ?tmp [] (dk_fs d), fs_put ?tmp ?text (fs_put ?tmp [] (dk_fs d))]"])
      (simp add: trial_of_def current_of_def link_ready_def)
qed


definition fs_symlink :: "string \<Rightarrow> string \<Rightarrow> file_system \<Rightarrow> file_system" where
  "fs_symlink target path fs = fs\<lparr>fs_links := AList.update path target (fs_links fs)\<rparr>"

lemma symlink_simps [simp]: "fs_dirs (fs_symlink t p fs) = fs_dirs fs" "fs_read (fs_symlink t p fs) q = fs_read fs q"
  "fs_link (fs_symlink t p fs) q = (if q = p then Some t else fs_link fs q)"
  by (simp_all add: fs_symlink_def fs_read_def fs_link_def update_conv')

lemma unlink_cases:
  assumes "dk_script d = []"
  obtains "snd (sys_unlink p d) = d" "fs_read (dk_fs d) p = None" "fs_link (dk_fs d) p = None"
    | "snd (sys_unlink p d) = disk_step (fs_drop p) d"
  using assms by (cases "fs_read (dk_fs d) p = None \<and> fs_link (dk_fs d) p = None") (auto simp: sys_unlink_def disk_call_def fs_read_def fs_link_def)

lemma trial_remove_view:
  assumes "dk_script d = []"
  shows "dk_script (trial_remove d) = []" "trial_of (dk_fs (trial_remove d)) = None" "current_of (dk_fs (trial_remove d)) = current_of (dk_fs d)"
    "link_ready (dk_fs (trial_remove d)) = link_ready (dk_fs d)"
    "p \<noteq> VERSION_TRIAL_FILE \<Longrightarrow> fs_read (dk_fs (trial_remove d)) p = fs_read (dk_fs d) p"
proof -
  have "VERSION_TRIAL_FILE \<noteq> VERSION_CURRENT_LINK" by (simp add: path_defs)
  then show "dk_script (trial_remove d) = []" "trial_of (dk_fs (trial_remove d)) = None" "current_of (dk_fs (trial_remove d)) = current_of (dk_fs d)"
    "link_ready (dk_fs (trial_remove d)) = link_ready (dk_fs d)"
    "p \<noteq> VERSION_TRIAL_FILE \<Longrightarrow> fs_read (dk_fs (trial_remove d)) p = fs_read (dk_fs d) p"
    using assms unfolding trial_remove_def
    by (cases rule: unlink_cases [OF assms, of VERSION_TRIAL_FILE]; simp add: trial_of_def current_of_def link_ready_def)+
qed

interpretation link_update: atomic_update "replace_current_link target" current_of trial_of "Some target" link_ready for target
proof
  fix d :: disk
  assume s: "dk_script d = []" and r: "link_ready (dk_fs d)"
  let ?tmp = "VERSION_CURRENT_LINK @ ''.tmp''"
  define d1 where "d1 = snd (sys_unlink ?tmp d)"
  have ne: "?tmp \<noteq> VERSION_CURRENT_LINK" "?tmp \<noteq> VERSION_TRIAL_FILE" "VERSION_TRIAL_FILE \<noteq> VERSION_CURRENT_LINK" by (simp_all add: path_defs)
  obtain m where m: "crash_states d1 = crash_states d @ m" "\<forall>x \<in> set m. x = fs_drop ?tmp (dk_fs d)"
    by (cases rule: unlink_cases [OF s, of ?tmp]) (auto simp: d1_def)
  have d1: "dk_script d1 = []" "fs_dirs (dk_fs d1) = fs_dirs (dk_fs d)" "fs_read (dk_fs d1) ?tmp = None" "fs_link (dk_fs d1) ?tmp = None"
      "current_of (dk_fs d1) = current_of (dk_fs d)" "trial_of (dk_fs d1) = trial_of (dk_fs d)"
    using s ne unfolding d1_def current_of_def trial_of_def
    by (cases rule: unlink_cases [OF s, of ?tmp]; simp)+
  let ?d2 = "disk_step (fs_symlink target ?tmp) d1"
  let ?d3 = "disk_step (fs_move ?tmp VERSION_CURRENT_LINK) ?d2"
  have "\<not> fs_has (dk_fs d1) ?tmp" using d1 r by (simp add: fs_has_read link_ready_def)
  then have "replace_current_link target d = (SUCCESS, ?d3)"
    using d1 unfolding replace_current_link_def Let_def d1_def [symmetric]
    by (simp add: sys_symlink_def sys_rename_def disk_call_def fs_has_read fs_symlink_def [symmetric])
  then show "\<exists>d' mid. replace_current_link target d = (SUCCESS, d') \<and> dk_script d' = [] \<and> current_of (dk_fs d') = Some target
      \<and> crash_states d' = crash_states d @ mid @ [dk_fs d']
      \<and> (\<forall>x \<in> set (mid @ [dk_fs d']). link_ready x \<and> trial_of x = trial_of (dk_fs d) \<and> current_of x \<in> {current_of (dk_fs d), Some target})"
    using d1 m r ne
    by (intro exI [of _ ?d3] exI [of _ "m @ [dk_fs ?d2]"]) (auto simp: trial_of_def current_of_def link_ready_def)
qed

interpretation activation: ordered_updates "trial_write t" "replace_current_link target" trial_of current_of "Some (text_of_trial t)" "Some target" link_ready
  for t target
  by unfold_locales

subsection \<open>Entries for the audit\<close>

text \<open>Making directories and writing the entry touches neither the record nor the link, nor a file whose name does not
  end like that of the entry.\<close>

definition quiet_for :: "disk \<Rightarrow> disk \<Rightarrow> bool" where
  "quiet_for d d' \<longleftrightarrow> dk_script d' = [] \<and> set (fs_dirs (dk_fs d)) \<subseteq> set (fs_dirs (dk_fs d'))
     \<and> (\<forall>p. last p \<noteq> CHR ''n'' \<longrightarrow> fs_read (dk_fs d') p = fs_read (dk_fs d) p) \<and> (\<exists>mid. crash_states d' = crash_states d @ mid
     \<and> (\<forall>x \<in> set (mid @ [dk_fs d']). trial_of x = trial_of (dk_fs d) \<and> current_of x = current_of (dk_fs d) \<and> link_ready x = link_ready (dk_fs d)))"

lemma quiet_refl: "dk_script d = [] \<Longrightarrow> quiet_for d d"
  by (auto simp: quiet_for_def intro: exI [of _ "[]"])

lemma quiet_trans: "quiet_for d d' \<Longrightarrow> quiet_for d' d'' \<Longrightarrow> quiet_for d d''"
  unfolding quiet_for_def by (elim conjE exE) (auto intro: exI [of _ "_ @ _"])

lemma quiet_step:
  assumes "dk_script d = []" "trial_of (f (dk_fs d)) = trial_of (dk_fs d)" "current_of (f (dk_fs d)) = current_of (dk_fs d)"
    "link_ready (f (dk_fs d)) = link_ready (dk_fs d)" "set (fs_dirs (dk_fs d)) \<subseteq> set (fs_dirs (f (dk_fs d)))"
    "\<And>p. last p \<noteq> CHR ''n'' \<Longrightarrow> fs_read (f (dk_fs d)) p = fs_read (dk_fs d) p"
  shows "quiet_for d (disk_step f d)"
  using assms by (auto simp: quiet_for_def)


lemma mkdir_all_quiet:
  assumes "dk_script d = []" "VERSION_CURRENT_LINK @ ''.tmp'' \<notin> set ps"
  shows "\<exists>d'. mkdir_all ps d = (True, d') \<and> quiet_for d d'"
  using assms
proof (induction ps arbitrary: d)
  case Nil
  then show ?case by (simp add: quiet_refl)
next
  case (Cons p ps)
  have "\<exists>d1. sys_mkdir p d = (True, d1) \<and> quiet_for d d1"
  proof (cases "fs_has (dk_fs d) p")
    case True
    then show ?thesis using Cons.prems(1) by (simp add: sys_mkdir_def quiet_refl)
  next
    case False
    have "quiet_for d (disk_step (\<lambda>fs. fs\<lparr>fs_dirs := p # fs_dirs fs\<rparr>) d)"
      using Cons.prems by (intro quiet_step) (auto simp: trial_of_def current_of_def link_ready_def fs_read_def fs_link_def)
    then show ?thesis using False Cons.prems(1) by (simp add: sys_mkdir_def disk_call_def)
  qed
  then obtain d1 where 1: "sys_mkdir p d = (True, d1)" "quiet_for d d1" by blast
  then have "dk_script d1 = []" by (simp add: quiet_for_def)
  then have "\<exists>d'. mkdir_all ps d1 = (True, d') \<and> quiet_for d1 d'" using Cons.IH Cons.prems(2) by simp
  then show ?case using 1 quiet_trans by fastforce
qed

lemma create_rollback_dir_quiet:
  assumes "dk_script d = []"
  shows "\<exists>d'. create_directory_recursive (take 511 (VERSION_ROLLBACK_DIR @ ''/'' @ stamp)) d = (SUCCESS, d') \<and> quiet_for d d'"
proof -
  let ?p = "take 511 (VERSION_ROLLBACK_DIR @ ''/'' @ stamp)"
  define tmp where "tmp = (if take 511 ?p \<noteq> [] \<and> last (take 511 ?p) = CHR ''/'' then butlast (take 511 ?p) else take 511 ?p)"
  have "?p = VERSION_ROLLBACK_DIR @ take 481 (''/'' @ stamp)" by (simp add: path_defs)
  then have start: "\<exists>r. tmp = VERSION_ROLLBACK_DIR @ r"
    by (auto simp: tmp_def butlast_append path_defs)
  have "take i tmp \<noteq> VERSION_CURRENT_LINK @ ''.tmp''" for i
  proof
    assume e: "take i tmp = VERSION_CURRENT_LINK @ ''.tmp''"
    obtain r where r: "tmp = VERSION_ROLLBACK_DIR @ r" using start by blast
    have "min (length tmp) i = 23" using arg_cong [OF e, of length] by (simp add: VERSION_CURRENT_LINK_def)
    then have "12 < i" by linarith
    then have "take i tmp ! 12 = tmp ! 12" by simp
    then show False using e r by (simp add: path_defs)
  qed
  then have ne: "VERSION_CURRENT_LINK @ ''.tmp'' \<noteq> take i tmp" for i by metis
  then have "VERSION_CURRENT_LINK @ ''.tmp'' \<noteq> tmp" by (metis take_all order_refl)
  then have "VERSION_CURRENT_LINK @ ''.tmp'' \<notin> set (map (\<lambda>i. take i tmp) (filter (\<lambda>i. tmp ! i = CHR ''/'') [1..<length tmp]) @ [tmp])"
    using ne by (simp only: set_append set_map list.set image_iff) blast
  from mkdir_all_quiet [OF assms this] obtain d'
    where e: "mkdir_all (map (\<lambda>i. take i tmp) (filter (\<lambda>i. tmp ! i = CHR ''/'') [1..<length tmp]) @ [tmp]) d = (True, d')" "quiet_for d d'"
    by blast
  have "create_directory_recursive ?p d = (SUCCESS, d')"
    unfolding create_directory_recursive_def Let_def tmp_def [symmetric] e(1) by simp
  then show ?thesis using e(2) by blast
qed

lemma save_rollback_info_quiet:
  assumes "dk_script d = []"
  shows "\<exists>d'. save_rollback_info stamp current version reason d = (True, d') \<and> quiet_for d d'"
proof -
  let ?dir = "take 511 (VERSION_ROLLBACK_DIR @ ''/'' @ stamp)"
  define info where "info = take 1023 (?dir @ ''/rollback.json'')"
  obtain d1 where 1: "create_directory_recursive ?dir d = (SUCCESS, d1)" "quiet_for d d1"
    using create_rollback_dir_quiet [OF assms] by blast
  then have s: "dk_script d1 = []" by (simp add: quiet_for_def)
  have "info = ?dir @ ''/rollback.json''" by (simp add: info_def)
  then have "last info = CHR ''n''" by (simp only: last_appendR) simp
  moreover have "last VERSION_TRIAL_FILE = CHR ''l''" by (simp add: path_defs)
  ultimately have ne: "info \<noteq> VERSION_TRIAL_FILE" "\<And>p. last p \<noteq> CHR ''n'' \<Longrightarrow> p \<noteq> info" by auto
  let ?d2 = "disk_step (fs_put info []) d1"
  let ?d3 = "disk_step (fs_put info (rollback_json stamp current version reason)) ?d2"
  have "quiet_for d1 ?d2" using s ne by (intro quiet_step) (auto simp: trial_of_def current_of_def link_ready_def)
  moreover have "quiet_for ?d2 ?d3" using s ne by (intro quiet_step) (auto simp: trial_of_def current_of_def link_ready_def)
  ultimately have "quiet_for d ?d3" using 1(2) quiet_trans by blast
  moreover have "save_rollback_info stamp current version reason d = (True, ?d3)"
    unfolding save_rollback_info_def Let_def 1(1) info_def [symmetric]
    using s by (simp add: sys_create_def sys_output_def disk_call_def)
  ultimately show ?thesis by blast
qed


subsection \<open>The switch\<close>

lemma plain_append: "plain n (a @ b) \<longleftrightarrow> length a + length b \<le> n \<and> plain (length a) a \<and> plain (length b) b"
  by (auto simp: plain_def)

lemma version_stamp_plain: "plain 31 (take 31 (version_stamp tm))"
proof -
  define P where "P = (\<lambda>c. c \<noteq> newline \<and> ch c \<noteq> 13 \<and> ch c \<noteq> 0)"
  have c: "P CHR ''-''" "P CHR ''0''" "P CHR ''_''" by (simp_all add: P_def)
  have d: "list_all P (dec n)" for n using plain_dec [of n] by (simp add: plain_def P_def)
  have "list_all P (dec_int i)" for i using c d by (simp add: dec_int_def)
  moreover have "list_all P (pad_int k i)" for i k using c d by (auto simp: pad_int_def Let_def list_all_iff)
  ultimately have "list_all P (version_stamp tm)" using c by (simp add: version_stamp_def split: prod.split)
  then have "list_all P (take 31 (version_stamp tm))" by (auto simp: list_all_iff dest: in_set_takeD)
  then show ?thesis by (simp add: plain_def P_def)
qed

definition version_dir_of :: "string \<Rightarrow> string" where
  "version_dir_of version = VERSION_BASE_DIR @ ''/'' @ version"

lemma version_dir_plain:
  assumes "shell_safe_name version" 
  shows "plain 511 (version_dir_of version)" "version_dir_of version \<noteq> []" "take 511 (version_dir_of version) = version_dir_of version"
proof -
  have v: "length version \<le> 255" "list_all name_char version" using assms by (auto simp: shell_safe_name_def split: if_splits)
  then have "list_all (\<lambda>c. c \<noteq> newline \<and> ch c \<noteq> 13 \<and> ch c \<noteq> 0) version"
    by (auto simp: list_all_iff name_char_def)
  then show "plain 511 (version_dir_of version)" using v(1) by (simp add: version_dir_of_def plain_def)
  then show "take 511 (version_dir_of version) = version_dir_of version" by (simp add: plain_def)
  show "version_dir_of version \<noteq> []" by (simp add: version_dir_of_def)
qed

text \<open>What an activation starts from: the version is there with its metadata, another one is running and there too.\<close>

definition can_activate :: "string \<Rightarrow> string \<Rightarrow> file_system \<Rightarrow> bool" where
  "can_activate version old fs \<longleftrightarrow> shell_safe_name version \<and> version_dir_of version \<in> set (fs_dirs fs) \<and> has_metadata fs (version_dir_of version)
     \<and> current_of fs = Some old \<and> plain 511 old \<and> old \<noteq> [] \<and> old \<noteq> version_dir_of version \<and> old \<in> set (fs_dirs fs) \<and> link_ready fs"

lemma activation_states:
  fixes tm :: local_time
  assumes s: "dk_script d = []" and c: "can_activate version old (dk_fs d)"
  defines "new \<equiv> version_dir_of version" and "r \<equiv> record_text (version_dir_of version) old 0 (take 31 (version_stamp tm))"
  shows "\<exists>d' mid. switch_to_version (Some tm) version reason True (d, g) = (ACTIVATE_RESULT_SUCCESS, d', take 39 version)
     \<and> dk_script d' = [] \<and> trial_of (dk_fs d') = Some r \<and> current_of (dk_fs d') = Some new \<and> link_ready (dk_fs d')
     \<and> crash_states d' = crash_states d @ mid
     \<and> (\<forall>x \<in> set mid. link_ready x \<and> (trial_of x, current_of x) \<in> {(trial_of (dk_fs d), Some old), (Some r, Some old), (Some r, Some new)})"
proof -
  note v = version_dir_plain [of version]
  have safe: "shell_safe_name version" and old: "plain 511 old" "old \<noteq> []" "old \<noteq> new" "current_of (dk_fs d) = Some old" "old \<in> set (fs_dirs (dk_fs d))"
    using c by (simp_all add: can_activate_def new_def)
  have cur: "read_current_link (dk_fs d) = old" using old(1,4) by (simp add: read_current_link_def current_of_def plain_def)
  let ?reason = "case reason of Some r \<Rightarrow> r | None \<Rightarrow> ''upgrade''"
  obtain d1 where 1: "save_rollback_info (version_stamp tm) old version ?reason d = (True, d1)" "quiet_for d d1"
    using save_rollback_info_quiet [OF s] by blast
  obtain m1 where q: "dk_script d1 = []" "old \<in> set (fs_dirs (dk_fs d1))" "crash_states d1 = crash_states d @ m1"
      "\<forall>x \<in> set (m1 @ [dk_fs d1]). trial_of x = trial_of (dk_fs d) \<and> current_of x = Some old \<and> link_ready x"
    using 1(2) old(4,5) c by (auto simp: quiet_for_def can_activate_def)
  define t where "t = \<lparr>vt_new_dir = new, vt_prev_dir = old, vt_attempts = 0, vt_time = take 31 (version_stamp tm)\<rparr>"
  have t: "text_of_trial t = r" by (simp add: text_of_trial_def t_def r_def new_def)
  have arm: "arm_trial new old (version_stamp tm) True d1 = snd (trial_write t d1)"
    using old(1-3) q(2) v(3) [OF safe] by (simp add: arm_trial_def t_def new_def plain_def Let_def)
  obtain d' m2 where 2: "replace_current_link new (snd (trial_write t d1)) = (SUCCESS, d')" "dk_script d' = []" "trial_of (dk_fs d') = Some r"
      "current_of (dk_fs d') = Some new" "crash_states d' = crash_states d1 @ m2" "link_ready (dk_fs d')"
      "\<forall>x \<in> set m2. link_ready x \<and> (trial_of x, current_of x) \<in> {(trial_of (dk_fs d), Some old), (Some r, Some old), (Some r, Some new)}"
    using activation.ordered [where t = t and target = new, OF q(1)] q(4) unfolding t by auto
  have vd: "take 511 (VERSION_BASE_DIR @ ''/'' @ version) = new" using v(3) [OF safe] by (simp only: version_dir_of_def new_def)
  have "new \<in> set (fs_dirs (dk_fs d))" "has_metadata (dk_fs d) new" using c by (simp_all add: can_activate_def new_def)
  then have "switch_to_version (Some tm) version reason True (d, g) = (ACTIVATE_RESULT_SUCCESS, d', take 39 version)"
    unfolding switch_to_version_def Let_def prod.case option.case vd cur using old(2) 1(1) arm 2(1) by simp
  then show ?thesis using 2 q(3,4) by (intro exI [of _ d'] exI [of _ "m1 @ m2"]) auto
qed


subsection \<open>Starts\<close>

text \<open>A trial of a version with a record of \<open>n\<close> starts.\<close>

definition on_trial :: "string \<Rightarrow> string \<Rightarrow> string \<Rightarrow> nat \<Rightarrow> disk \<Rightarrow> bool" where
  "on_trial new_dir prev_dir tm n d \<longleftrightarrow> dk_script d = [] \<and> link_ready (dk_fs d) \<and> record_ok new_dir prev_dir tm
     \<and> trial_of (dk_fs d) = Some (record_text new_dir prev_dir n tm) \<and> current_of (dk_fs d) = Some new_dir"

lemma guard_count_write:
  assumes "dk_script d = []" "n < 2 ^ 32"
  shows "guard_count new_dir prev_dir n tm d = snd (trial_write \<lparr>vt_new_dir = new_dir, vt_prev_dir = prev_dir, vt_attempts = of_nat n, vt_time = tm\<rparr> d)"
  using assms by (simp add: guard_count_def trial_write_def sys_create_def sys_output_def sys_rename_def disk_call_def fs_has_read Let_def u32_of_nat)

lemma trial_write_keeps:
  assumes "dk_script d = []" "p \<noteq> VERSION_TRIAL_FILE" "p \<noteq> VERSION_TRIAL_FILE @ ''.tmp''"
  shows "fs_read (dk_fs (snd (trial_write t d))) p = fs_read (dk_fs d) p"
  using assms by (simp add: trial_write_def sys_create_def sys_output_def sys_rename_def disk_call_def fs_has_read Let_def)

lemma guard_on_trial:
  assumes "on_trial new_dir prev_dir tm n d" "n < 2 ^ 32"
  shows "upgrade_guard mx ts d = (if n < guard_max_starts mx then guard_count new_dir prev_dir (n + 1) tm d else guard_rollback ts new_dir prev_dir n d)"
  using assms by (simp add: on_trial_def upgrade_guard_def trial_of_def current_of_def guard_reads_record attempts_of_dec record_ok_def Let_def)

lemma trial_init_keeps:
  assumes "on_trial new_dir prev_dir tm n d" "n < 2 ^ 32"
  shows "snd (trial_init items d) = d"
proof -
  have "read_current_link (dk_fs d) = new_dir" using assms(1) by (simp add: on_trial_def read_current_link_def current_of_def record_ok_def plain_def)
  then show ?thesis using trial_read_record [of "dk_fs d"] assms by (simp add: on_trial_def trial_init_def trial_of_def Let_def)
qed

lemma start_counts:
  assumes t: "on_trial new_dir prev_dir tm n d" and n: "n < guard_max_starts mx" "guard_max_starts mx < 2 ^ 32"
  shows "on_trial new_dir prev_dir tm (n + 1) (snd (service_start mx ts items d))"
    "fs_read (dk_fs (snd (service_start mx ts items d))) (prev_dir @ ''/antenna_mgmt'') = fs_read (dk_fs d) (prev_dir @ ''/antenna_mgmt'')"
proof -
  let ?t = "\<lparr>vt_new_dir = new_dir, vt_prev_dir = prev_dir, vt_attempts = of_nat (n + 1), vt_time = tm\<rparr>"
  have s: "dk_script d = []" "link_ready (dk_fs d)" "n + 1 < 2 ^ 32" using t n by (simp_all add: on_trial_def)
  obtain d' mid where w: "trial_write ?t d = (SUCCESS, d')" "dk_script d' = []" "trial_of (dk_fs d') = Some (text_of_trial ?t)"
      "\<forall>x \<in> set (mid @ [dk_fs d']). link_ready x \<and> current_of x = current_of (dk_fs d) \<and> trial_of x \<in> {trial_of (dk_fs d), Some (text_of_trial ?t)}"
    using trial_update.update_atomic [OF s(1,2), of ?t] by blast
  have "upgrade_guard mx ts d = d'"
    using guard_on_trial [OF t] guard_count_write [OF s(1,3)] n s(3) w(1) by simp
  moreover have o: "on_trial new_dir prev_dir tm (n + 1) d'"
    using t w(2,3,4) unfolding text_of_trial_def version_trial.select_convs u32_of_nat [OF s(3)] by (simp add: on_trial_def)
  ultimately have e: "snd (service_start mx ts items d) = d'" using trial_init_keeps [OF o s(3)] by (simp add: service_start_def)
  show "on_trial new_dir prev_dir tm (n + 1) (snd (service_start mx ts items d))" using o e by simp
  have l: "last (prev_dir @ ''/antenna_mgmt'') = CHR ''t''" "last VERSION_TRIAL_FILE = CHR ''l''" "last (VERSION_TRIAL_FILE @ ''.tmp'') = CHR ''p''"
    by (simp_all add: path_defs)
  then have "prev_dir @ ''/antenna_mgmt'' \<noteq> VERSION_TRIAL_FILE" "prev_dir @ ''/antenna_mgmt'' \<noteq> VERSION_TRIAL_FILE @ ''.tmp''" by fastforce+
  then show "fs_read (dk_fs (snd (service_start mx ts items d))) (prev_dir @ ''/antenna_mgmt'') = fs_read (dk_fs d) (prev_dir @ ''/antenna_mgmt'')"
    using trial_write_keeps [OF s(1), of "prev_dir @ ''/antenna_mgmt''" ?t] w(1) e by simp
qed


lemma guard_rolls_back:
  assumes "dk_script d = []" "link_ready (dk_fs d)" "prev_dir \<noteq> []" "fs_read (dk_fs d) (prev_dir @ ''/antenna_mgmt'') \<noteq> None"
  shows "\<exists>d'. guard_rollback ts new_dir prev_dir n d = d' \<and> dk_script d' = [] \<and> trial_of (dk_fs d') = None \<and> current_of (dk_fs d') = Some prev_dir
     \<and> fs_read (dk_fs d') VERSION_AUTO_ROLLBACK_NOTICE = Some (notice_text ts new_dir prev_dir n)"
proof -
  obtain d1 mid where 1: "replace_current_link prev_dir d = (SUCCESS, d1)" "dk_script d1 = []" "current_of (dk_fs d1) = Some prev_dir"
    using link_update.update_atomic [OF assms(1,2), of prev_dir] by blast
  let ?tmp = "VERSION_AUTO_ROLLBACK_NOTICE @ ''.tmp''" and ?text = "notice_text ts new_dir prev_dir n"
  define d2 where "d2 = disk_step (fs_move ?tmp VERSION_AUTO_ROLLBACK_NOTICE) (disk_step (fs_put ?tmp ?text) (disk_step (fs_put ?tmp []) d1))"
  have ne: "?tmp \<noteq> VERSION_AUTO_ROLLBACK_NOTICE" "?tmp \<noteq> VERSION_CURRENT_LINK" "VERSION_AUTO_ROLLBACK_NOTICE \<noteq> VERSION_CURRENT_LINK"
      "VERSION_AUTO_ROLLBACK_NOTICE \<noteq> VERSION_TRIAL_FILE"
    by (simp_all add: path_defs)
  have d2: "dk_script d2 = []" "current_of (dk_fs d2) = Some prev_dir" "fs_read (dk_fs d2) VERSION_AUTO_ROLLBACK_NOTICE = Some ?text"
    using 1(2,3) ne by (simp_all add: d2_def current_of_def)
  obtain d3 where 3: "save_rollback_info ts new_dir prev_dir (''auto rollback: not confirmed after '' @ dec n @ '' starts'') d2 = (True, d3)"
      "quiet_for d2 d3"
    using save_rollback_info_quiet [OF d2(1)] by blast
  have "last VERSION_AUTO_ROLLBACK_NOTICE \<noteq> CHR ''n''" by (simp add: path_defs)
  then have d3: "dk_script d3 = []" "current_of (dk_fs d3) = Some prev_dir" "fs_read (dk_fs d3) VERSION_AUTO_ROLLBACK_NOTICE = Some ?text"
    using 3(2) d2 by (auto simp: quiet_for_def)
  have notice: "(case sys_create ?tmp d1 of (ok, d) \<Rightarrow> if \<not> ok then d
      else case sys_output ?tmp ?text d of (ok, d) \<Rightarrow> if \<not> ok then d else snd (sys_rename ?tmp VERSION_AUTO_ROLLBACK_NOTICE d)) = d2"
    using 1(2) by (simp add: sys_create_def sys_output_def sys_rename_def disk_call_def fs_has_read d2_def)
  have "guard_rollback ts new_dir prev_dir n d = trial_remove d3"
    unfolding guard_rollback_def Let_def 1(1) prod.case notice 3(1) using assms(3,4) by auto
  then show ?thesis using trial_remove_view [OF d3(1)] d3 ne(4) by simp
qed

lemma guard_removes_record:
  assumes "dk_script d = []" "trial_of (dk_fs d) = Some text" "trial_get ''new'' text = [] \<or> current_of (dk_fs d) \<noteq> Some (trial_get ''new'' text)"
  shows "upgrade_guard mx ts d = trial_remove d"
  using assms by (auto simp: upgrade_guard_def trial_of_def current_of_def Let_def split: option.splits)

lemma no_trial_start:
  assumes "trial_of (dk_fs d) = None"
  shows "upgrade_guard mx ts d = d" "snd (service_start mx ts items d) = d"
  using assms by (simp_all add: service_start_def upgrade_guard_def trial_init_def trial_read_def trial_of_def Let_def)

subsection \<open>Lives without a confirmation\<close>

definition trial_stable_sec :: "(string \<times> string) list \<Rightarrow> u32" where
  "trial_stable_sec items = tf_stable_sec (fst (trial_init items (restart \<lparr>fs_files = [], fs_links = [], fs_dirs = []\<rparr>)))"

definition life_unconfirmed :: "string \<times> life_event list \<Rightarrow> bool" where
  "life_unconfirmed l \<longleftrightarrow> list_all (\<lambda>e. e \<noteq> Channel_established) (snd l)"

text \<open>A life that reached the time from which a version counts as stable.\<close>

definition life_stable :: "(string \<times> string) list \<Rightarrow> string \<times> life_event list \<Rightarrow> bool" where
  "life_stable items l \<longleftrightarrow> list_ex (\<lambda>e. case e of Uptime t \<Rightarrow> trial_stable_sec items \<le> t | Channel_established \<Rightarrow> False) (snd l)"

lemma init_flags: "fst (trial_init items d) = \<lparr>tf_confirmed = False, tf_stable_done = False, tf_stable_sec = trial_stable_sec items\<rparr>"
  by (auto simp: trial_stable_sec_def trial_init_def Let_def split: prod.split)

lemma stable_done_life:
  assumes "tf_stable_done g" "list_all (\<lambda>e. e \<noteq> Channel_established) es"
  shows "fold life_step es (g, d) = (g, d)"
  using assms(2)
proof (induction es)
  case (Cons e es)
  then show ?case using assms(1) by (cases e) (simp_all add: version_trial_on_uptime_def)
qed simp

lemma no_trial_life:
  assumes "trial_of (dk_fs d) = None" "list_all (\<lambda>e. e \<noteq> Channel_established) es"
  shows "snd (fold life_step es (g, d)) = d"
  using assms(2)
proof (induction es arbitrary: g)
  case (Cons e es)
  obtain t where e: "e = Uptime t" using Cons.prems by (cases e) auto
  have "snd (version_trial_on_uptime t (g, d)) = d"
    using assms(1) by (simp add: version_trial_on_uptime_def trial_read_def trial_of_def Let_def)
  then obtain g' where "version_trial_on_uptime t (g, d) = (g', d)" by (metis prod.collapse)
  then show ?case using Cons e by simp
qed simp

lemma prev_program_apart: "p @ ''/antenna_mgmt'' \<noteq> VERSION_TRIAL_FILE" "p @ ''/antenna_mgmt'' \<noteq> VERSION_TRIAL_FILE @ ''.tmp''"
proof -
  have "last (p @ ''/antenna_mgmt'') = CHR ''t''" "last VERSION_TRIAL_FILE = CHR ''l''" "last (VERSION_TRIAL_FILE @ ''.tmp'') = CHR ''p''"
    by (simp_all add: path_defs)
  then show "p @ ''/antenna_mgmt'' \<noteq> VERSION_TRIAL_FILE" "p @ ''/antenna_mgmt'' \<noteq> VERSION_TRIAL_FILE @ ''.tmp''" by fastforce+
qed

text \<open>The moment at which the version counts as stable: the count of the record goes back to zero.\<close>

lemma uptime_resets:
  assumes t: "on_trial new_dir prev_dir tm n d" "n < 2 ^ 32" and g: "\<not> tf_confirmed g" "\<not> tf_stable_done g" "tf_stable_sec g \<le> uptime"
  shows "\<exists>d'. version_trial_on_uptime uptime (g, d) = (g\<lparr>tf_stable_done := True\<rparr>, d') \<and> on_trial new_dir prev_dir tm 0 d'
    \<and> fs_read (dk_fs d') (prev_dir @ ''/antenna_mgmt'') = fs_read (dk_fs d) (prev_dir @ ''/antenna_mgmt'')"
proof -
  have s: "dk_script d = []" "link_ready (dk_fs d)" "record_ok new_dir prev_dir tm" using t by (simp_all add: on_trial_def)
  have r: "trial_read (dk_fs d) = (SUCCESS, \<lparr>vt_new_dir = new_dir, vt_prev_dir = prev_dir, vt_attempts = of_nat n, vt_time = tm\<rparr>)"
    using t trial_read_record [OF _ s(3)] by (simp add: on_trial_def trial_of_def)
  let ?t = "\<lparr>vt_new_dir = new_dir, vt_prev_dir = prev_dir, vt_attempts = 0, vt_time = tm\<rparr>"
  have c: "read_current_link (dk_fs d) = new_dir" using t s(3) by (simp add: on_trial_def read_current_link_def current_of_def record_ok_def plain_def)
  obtain d' mid where w: "trial_write ?t d = (SUCCESS, d')" "dk_script d' = []" "trial_of (dk_fs d') = Some (text_of_trial ?t)"
      "\<forall>x \<in> set (mid @ [dk_fs d']). link_ready x \<and> current_of x = current_of (dk_fs d) \<and> trial_of x \<in> {trial_of (dk_fs d), Some (text_of_trial ?t)}"
    using trial_update.update_atomic [OF s(1,2), of ?t] by blast
  then have o: "on_trial new_dir prev_dir tm 0 d'" using t by (simp add: on_trial_def text_of_trial_def)
  have k: "fs_read (dk_fs d') (prev_dir @ ''/antenna_mgmt'') = fs_read (dk_fs d) (prev_dir @ ''/antenna_mgmt'')"
    using trial_write_keeps [OF s(1) prev_program_apart [of prev_dir], of ?t] w(1) by simp
  have z: "(of_nat n :: u32) = 0 \<longleftrightarrow> n = 0" using u32_of_nat [OF t(2)] by auto
  show ?thesis
  proof (cases "n = 0")
    case True
    then have "version_trial_on_uptime uptime (g, d) = (g\<lparr>tf_stable_done := True\<rparr>, d)"
      unfolding version_trial_on_uptime_def prod.case r Let_def using g by simp
    then show ?thesis using True t(1) by simp
  next
    case False
    then have "version_trial_on_uptime uptime (g, d) = (g\<lparr>tf_stable_done := True\<rparr>, d')"
      unfolding version_trial_on_uptime_def prod.case r Let_def c version_trial.select_convs using g w(1) z by simp
    then show ?thesis using o k by simp
  qed
qed

lemma life_counts:
  assumes "on_trial new_dir prev_dir tm n d" "n < 2 ^ 32" "\<not> tf_confirmed g" "\<not> tf_stable_done g" "list_all (\<lambda>e. e \<noteq> Channel_established) es"
  shows "on_trial new_dir prev_dir tm
      (if list_ex (\<lambda>e. case e of Uptime t \<Rightarrow> tf_stable_sec g \<le> t | Channel_established \<Rightarrow> False) es then 0 else n) (snd (fold life_step es (g, d)))
    \<and> fs_read (dk_fs (snd (fold life_step es (g, d)))) (prev_dir @ ''/antenna_mgmt'') = fs_read (dk_fs d) (prev_dir @ ''/antenna_mgmt'')"
  using assms(5)
proof (induction es)
  case (Cons e es)
  obtain t where e: "e = Uptime t" using Cons.prems by (cases e) auto
  show ?case
  proof (cases "tf_stable_sec g \<le> t")
    case True
    obtain d' where d': "version_trial_on_uptime t (g, d) = (g\<lparr>tf_stable_done := True\<rparr>, d')" "on_trial new_dir prev_dir tm 0 d'"
        "fs_read (dk_fs d') (prev_dir @ ''/antenna_mgmt'') = fs_read (dk_fs d) (prev_dir @ ''/antenna_mgmt'')"
      using uptime_resets [OF assms(1-4) True] by blast
    have "fold life_step (e # es) (g, d) = (g\<lparr>tf_stable_done := True\<rparr>, d')" using d'(1) stable_done_life [of "g\<lparr>tf_stable_done := True\<rparr>" es d'] Cons.prems e by simp
    then show ?thesis using d'(2,3) True e by simp
  next
    case False
    then have "version_trial_on_uptime t (g, d) = (g, d)" by (simp add: version_trial_on_uptime_def not_le)
    then show ?thesis using Cons e False by simp
  qed
qed (use assms(1) in simp)

text \<open>How the count goes on over the lives, as long as the version is not given up.\<close>

fun trial_count :: "nat \<Rightarrow> (string \<times> string) list \<Rightarrow> nat \<Rightarrow> (string \<times> life_event list) list \<Rightarrow> nat option" where
  "trial_count mx items n [] = Some n"
| "trial_count mx items n (l # ls) = (if mx \<le> n then None else trial_count mx items (if life_stable items l then 0 else n + 1) ls)"

definition failing_block :: "nat \<Rightarrow> (string \<times> string) list \<Rightarrow> (string \<times> life_event list) list \<Rightarrow> bool" where
  "failing_block k items ls \<longleftrightarrow> (\<exists>b c. ls = b @ c \<and> length b = k \<and> list_all (\<lambda>l. \<not> life_stable items l) b \<and> c \<noteq> [])"

lemma failing_block_0: "failing_block 0 items ls \<longleftrightarrow> ls \<noteq> []"
  by (auto simp: failing_block_def)

lemma failing_block_Suc: "failing_block (Suc k) items ls \<longleftrightarrow> (\<exists>l ls'. ls = l # ls' \<and> \<not> life_stable items l \<and> failing_block k items ls')"
proof
  assume "failing_block (Suc k) items ls"
  then obtain b c where b: "ls = b @ c" "length b = Suc k" "list_all (\<lambda>l. \<not> life_stable items l) b" "c \<noteq> []" by (auto simp: failing_block_def)
  then obtain l b' where "b = l # b'" by (cases b) auto
  then show "\<exists>l ls'. ls = l # ls' \<and> \<not> life_stable items l \<and> failing_block k items ls'" using b unfolding failing_block_def by auto
next
  assume "\<exists>l ls'. ls = l # ls' \<and> \<not> life_stable items l \<and> failing_block k items ls'"
  then obtain l b c where "ls = (l # b) @ c" "length (l # b) = Suc k" "list_all (\<lambda>l. \<not> life_stable items l) (l # b)" "c \<noteq> []" by (auto simp: failing_block_def)
  then show "failing_block (Suc k) items ls" unfolding failing_block_def by blast
qed

lemma failing_block_mono: "failing_block (k + j) items ls \<Longrightarrow> failing_block k items ls"
proof (induction k arbitrary: ls)
  case 0
  then show ?case by (auto simp: failing_block_def)
qed (auto simp: failing_block_Suc)

lemma trial_count_None:
  assumes "n \<le> mx" "0 < mx"
  shows "trial_count mx items n ls = None \<longleftrightarrow> failing_block (mx - n) items ls \<or> (\<exists>a b. ls = a @ b \<and> failing_block mx items b)"
  using assms(1)
proof (induction ls arbitrary: n)
  case Nil
  then show ?case using assms(2) by (auto simp: failing_block_def)
next
  case (Cons l ls)
  have split: "(\<exists>a b. l # ls = a @ b \<and> failing_block mx items b) \<longleftrightarrow> failing_block mx items (l # ls) \<or> (\<exists>a b. ls = a @ b \<and> failing_block mx items b)"
    by (metis append_Cons append_Nil append_eq_Cons_conv)
  show ?case
  proof (cases "mx \<le> n")
    case True
    then show ?thesis using Cons.prems by (simp add: failing_block_0)
  next
    case False
    then obtain j where j: "mx - n = Suc j" "mx - (n + 1) = j" by (metis Suc_diff_Suc add.commute not_le plus_1_eq_Suc)
    have m: "failing_block mx items (l # ls) \<Longrightarrow> failing_block (Suc j) items (l # ls)"
    proof -
      have "mx = Suc j + n" using j(1) by simp
      then show "failing_block mx items (l # ls) \<Longrightarrow> failing_block (Suc j) items (l # ls)" using failing_block_mono by metis
    qed
    show ?thesis
    proof (cases "life_stable items l")
      case True
      have mx': "\<exists>k. mx = Suc k" using assms(2) by (cases mx) auto
      have "\<not> failing_block (Suc j) items (l # ls)" "\<not> failing_block mx items (l # ls)" using True mx' by (auto simp: failing_block_Suc)
      moreover have "failing_block mx items ls \<Longrightarrow> \<exists>a b. ls = a @ b \<and> failing_block mx items b" by (metis append_Nil)
      ultimately show ?thesis using True False Cons.IH [of 0] by (auto simp: j(1) split)
    next
      case unstable: False
      then show ?thesis using False Cons.IH [of "n + 1"] j m by (auto simp: split failing_block_Suc [of j])
    qed
  qed
qed

lemma lives_count:
  assumes "on_trial new_dir prev_dir tm n d" "n \<le> guard_max_starts mx" "guard_max_starts mx < 2 ^ 32"
    "prev_dir \<noteq> []" "fs_read (dk_fs d) (prev_dir @ ''/antenna_mgmt'') \<noteq> None" "list_all life_unconfirmed ls"
  shows "let d' = fold (service_life mx items) ls d
     in case trial_count (guard_max_starts mx) items n ls of
          Some m \<Rightarrow> on_trial new_dir prev_dir tm m d'
        | None \<Rightarrow> current_of (dk_fs d') = Some prev_dir \<and> trial_of (dk_fs d') = None
            \<and> (\<exists>ts. fs_read (dk_fs d') VERSION_AUTO_ROLLBACK_NOTICE = Some (notice_text ts new_dir prev_dir (guard_max_starts mx)))"
  using assms
proof (induction ls arbitrary: n d)
  case (Cons l ls)
  let ?n = "guard_max_starts mx"
  have u: "list_all (\<lambda>e. e \<noteq> Channel_established) (snd l)" "list_all life_unconfirmed ls" using Cons.prems(6) unfolding list.pred_inject by (simp_all add: life_unconfirmed_def [of l])
  show ?case
  proof (cases "?n \<le> n")
    case True
    then have n: "n = ?n" using Cons.prems(2) by simp
    have "dk_script d = []" "link_ready (dk_fs d)" using Cons.prems(1) by (simp_all add: on_trial_def)
    from guard_rolls_back [OF this Cons.prems(4,5), of "fst l" new_dir ?n] obtain d' where
      d': "upgrade_guard mx (fst l) d = d'" "trial_of (dk_fs d') = None" "current_of (dk_fs d') = Some prev_dir"
        "fs_read (dk_fs d') VERSION_AUTO_ROLLBACK_NOTICE = Some (notice_text (fst l) new_dir prev_dir ?n)"
      using guard_on_trial [OF Cons.prems(1), of mx "fst l"] Cons.prems(3) n by auto
    obtain g where "service_start mx (fst l) items d = (g, d')"
      using d'(1,2) by (auto simp: service_start_def trial_init_def trial_read_def trial_of_def Let_def)
    then have l: "service_life mx items l d = d'" using no_trial_life [OF d'(2) u(1)] by (simp add: service_life_def)
    have "service_life mx items x d' = d'" if "life_unconfirmed x" for x
      using no_trial_start(2) [OF d'(2), of mx "fst x" items] no_trial_life [OF d'(2), of "snd x" "fst (service_start mx (fst x) items d')"] that
      by (simp add: service_life_def life_unconfirmed_def) (metis prod.collapse)
    then have "fold (service_life mx items) ls d' = d'" using u(2) by (induction ls) simp_all
    then show ?thesis using l d'(2-4) True by auto
  next
    case False
    obtain g d1 where s: "service_start mx (fst l) items d = (g, d1)" by (cases "service_start mx (fst l) items d")
    have 1: "on_trial new_dir prev_dir tm (n + 1) d1" "fs_read (dk_fs d1) (prev_dir @ ''/antenna_mgmt'') \<noteq> None"
      using start_counts [OF Cons.prems(1) _ Cons.prems(3), of "fst l" items] False s Cons.prems(5) by simp_all
    have g: "g = \<lparr>tf_confirmed = False, tf_stable_done = False, tf_stable_sec = trial_stable_sec items\<rparr>"
      using s init_flags [of items "upgrade_guard mx (fst l) d"] by (simp add: service_start_def)
    have "on_trial new_dir prev_dir tm (if life_stable items l then 0 else n + 1) (service_life mx items l d)"
      "fs_read (dk_fs (service_life mx items l d)) (prev_dir @ ''/antenna_mgmt'') \<noteq> None"
      using life_counts [OF 1(1) _ _ _ u(1), of g] 1(2) False Cons.prems(3) s by (simp_all add: g service_life_def life_stable_def)
    then show ?thesis using Cons.IH [of "if life_stable items l then 0 else n + 1" "service_life mx items l d"] Cons.prems(3,4) u(2) False by (simp split: if_splits)
  qed
qed simp

lemma no_trial_starts:
  assumes "trial_of (dk_fs d) = None"
  shows "((\<lambda>d. snd (service_start mx ts items d)) ^^ n) d = d"
  by (induction n) (simp_all add: no_trial_start [OF assms])

lemma removing_start:
  assumes "dk_script d = []" "upgrade_guard mx ts d = trial_remove d"
  shows "snd (service_start mx ts items d) = trial_remove d"
  using trial_remove_view(2) [OF assms(1)] assms(2) by (simp add: service_start_def trial_init_def trial_read_def trial_of_def Let_def)

lemma stale_start:
  assumes "dk_script d = []" "record_ok new_dir prev_dir tm" "trial_of (dk_fs d) = Some (record_text new_dir prev_dir n tm)"
    "current_of (dk_fs d) = Some old" "old \<noteq> new_dir"
  shows "current_of (dk_fs (snd (service_start mx ts items d))) = Some old" "trial_of (dk_fs (snd (service_start mx ts items d))) = None"
proof -
  have "upgrade_guard mx ts d = trial_remove d"
    using assms by (intro guard_removes_record) (auto simp: guard_reads_record [OF assms(2)])
  from removing_start [OF assms(1) this] show "current_of (dk_fs (snd (service_start mx ts items d))) = Some old" "trial_of (dk_fs (snd (service_start mx ts items d))) = None"
    using trial_remove_view [OF assms(1)] assms(4) by simp_all
qed

lemma guard_max_starts_pos: "0 < guard_max_starts mx"
  by (simp add: guard_max_starts_def split: option.split)

text \<open>A disk with two versions, the first of them running, and the same during the trial of the second.\<close>

definition two_versions :: file_system where
  "two_versions = \<lparr>fs_files = [(''/opt/vendor/versions/v1/antenna_mgmt'', ''program'', True), (''/opt/vendor/versions/v2/metadata.txt'', ''type=SW'', False)],
     fs_links = [(VERSION_CURRENT_LINK, ''/opt/vendor/versions/v1'')],
     fs_dirs = [''/opt/vendor/versions/v1'', ''/opt/vendor/versions/v2'']\<rparr>"

definition second_on_trial :: file_system where
  "second_on_trial = (fs_put VERSION_TRIAL_FILE (record_text ''/opt/vendor/versions/v2'' ''/opt/vendor/versions/v1'' 0 ''now'') two_versions)
     \<lparr>fs_links := [(VERSION_CURRENT_LINK, ''/opt/vendor/versions/v2'')]\<rparr>"

lemma two_versions_ready:
  "can_activate ''v2'' ''/opt/vendor/versions/v1'' two_versions" "fs_read two_versions VERSION_TRIAL_FILE = None"
  by (simp_all add: can_activate_def two_versions_def version_dir_of_def has_metadata_def current_of_def link_ready_def plain_def
      fs_read_def fs_link_def path_defs shell_safe_name_def name_char_def)

lemma second_on_trial_ready:
  "on_trial ''/opt/vendor/versions/v2'' ''/opt/vendor/versions/v1'' ''now'' 0 (restart second_on_trial)"
  "fs_read second_on_trial (''/opt/vendor/versions/v1'' @ ''/antenna_mgmt'') = Some ''program''"
proof -
  have t: "trial_of second_on_trial = Some (record_text ''/opt/vendor/versions/v2'' ''/opt/vendor/versions/v1'' 0 ''now'')"
    by (simp add: second_on_trial_def trial_of_def fs_read_def fs_put_def update_conv')
  show "on_trial ''/opt/vendor/versions/v2'' ''/opt/vendor/versions/v1'' ''now'' 0 (restart second_on_trial)"
    using t by (simp add: on_trial_def link_ready_def record_ok_def plain_def current_of_def second_on_trial_def two_versions_def fs_link_def fs_put_def path_defs)
  show "fs_read second_on_trial (''/opt/vendor/versions/v1'' @ ''/antenna_mgmt'') = Some ''program''"
    by (simp add: second_on_trial_def two_versions_def fs_read_def fs_put_def update_conv' path_defs)
qed

subsection \<open>Properties\<close>

text \<open>C8. When the baseband unit activates a version and the power fails at any moment of the switch, the next start
  runs either the old version with no trial left over, or the new version on trial with one start counted.
\<close>

theorem activation_crash_safe:
  fixes tm :: local_time and reason :: "string option" and g :: string
  assumes c: "can_activate version old fs" and none: "fs_read fs VERSION_TRIAL_FILE = None" and mx: "guard_max_starts mx < 2 ^ 32"
  defines "run \<equiv> switch_to_version (Some tm) version reason True (restart fs, g)"
  shows "fst run = ACTIVATE_RESULT_SUCCESS \<and> on_trial (version_dir_of version) old (take 31 (version_stamp tm)) 0 (fst (snd run))
    \<and> (\<forall>x \<in> set (crash_states (fst (snd run))).
         let d = snd (service_start mx ts items (restart x))
         in (current_of (dk_fs d) = Some old \<and> trial_of (dk_fs d) = None)
          \<or> on_trial (version_dir_of version) old (take 31 (version_stamp tm)) 1 d)"
proof -
  let ?stamp = "take 31 (version_stamp tm)" and ?new = "version_dir_of version"
  let ?r = "record_text ?new old 0 ?stamp"
  obtain d' mid where run: "run = (ACTIVATE_RESULT_SUCCESS, d', take 39 version)" "dk_script d' = []" "trial_of (dk_fs d') = Some ?r"
      "current_of (dk_fs d') = Some ?new" "link_ready (dk_fs d')" "crash_states d' = crash_states (restart fs) @ mid"
      "\<forall>x \<in> set mid. link_ready x \<and> (trial_of x, current_of x) \<in> {(trial_of fs, Some old), (Some ?r, Some old), (Some ?r, Some ?new)}"
    using activation_states [of "restart fs" version old tm reason g] c unfolding run_def by auto
  have ok: "record_ok ?new old ?stamp"
    using c version_dir_plain [of version] version_stamp_plain [of tm] by (simp add: record_ok_def can_activate_def)
  have old: "old \<noteq> ?new" "current_of fs = Some old" "trial_of fs = None" "link_ready fs" using c none by (auto simp: can_activate_def trial_of_def)
  have cs: "set (crash_states d') = insert fs (set mid)" unfolding run(6) by (simp add: crash_states_def)
  have "let d = snd (service_start mx ts items (restart x))
        in (current_of (dk_fs d) = Some old \<and> trial_of (dk_fs d) = None) \<or> on_trial ?new old ?stamp 1 d" if "x \<in> set (crash_states d')" for x
  proof -
    from that have "link_ready x" and "(trial_of x, current_of x) \<in> {(None, Some old), (Some ?r, Some old), (Some ?r, Some ?new)}"
      using run(7) old cs by auto
    then consider "trial_of x = None" "current_of x = Some old" | "trial_of x = Some ?r" "current_of x = Some old"
      | "on_trial ?new old ?stamp 0 (restart x)"
      using ok by (auto simp: on_trial_def)
    then show ?thesis
    proof cases
      case 1
      then show ?thesis by (simp add: no_trial_start)
    next
      case 2
      then show ?thesis using stale_start [of "restart x", OF _ ok] old(1) by (simp add: Let_def)
    next
      case 3
      then show ?thesis using start_counts(1) [OF 3 guard_max_starts_pos mx] by (simp add: Let_def)
    qed
  qed
  moreover have "on_trial ?new old ?stamp 0 d'" using run(2-5) ok by (simp add: on_trial_def)
  ultimately show ?thesis using run(1) by simp
qed

theorem activation_crash_safe_witness:
  "fst (switch_to_version (Some (2026, 1, 2, 3, 4, 5)) ''v2'' None True (restart two_versions, ''v1'')) = ACTIVATE_RESULT_SUCCESS"
  using activation_crash_safe [OF two_versions_ready, of None "(2026, 1, 2, 3, 4, 5)" None "''v1''"] by (simp add: guard_max_starts_def)

text \<open>C9. A version on trial that keeps failing is given up, and only that one. Over any sequence of lives of the service in which the channel to the baseband unit never comes up, the previous version runs
  at the end exactly when as many lives in a row as the guard allows, none of which reached the time from which the version counts as stable, were followed by another start; then the record is gone and the notice for the
  alarm names both versions. In all other cases the new version still runs, on trial. A life that reaches the stable time sets the count back: a version that is stable but never confirmed stays.
\<close>

theorem failed_version_rolled_back:
  assumes "on_trial new_dir prev_dir tm 0 d" and "guard_max_starts mx < 2 ^ 32"
    and "prev_dir \<noteq> []" and "fs_read (dk_fs d) (prev_dir @ ''/antenna_mgmt'') \<noteq> None" and "list_all life_unconfirmed lives"
  shows "let d' = fold (service_life mx items) lives d
     in if \<exists>a b c. lives = a @ b @ c \<and> length b = guard_max_starts mx \<and> list_all (\<lambda>l. \<not> life_stable items l) b \<and> c \<noteq> []
        then current_of (dk_fs d') = Some prev_dir \<and> trial_of (dk_fs d') = None
          \<and> (\<exists>ts. fs_read (dk_fs d') VERSION_AUTO_ROLLBACK_NOTICE = Some (notice_text ts new_dir prev_dir (guard_max_starts mx)))
        else \<exists>n. on_trial new_dir prev_dir tm n d'"
proof -
  have "trial_count (guard_max_starts mx) items 0 lives = None \<longleftrightarrow> (\<exists>a b. lives = a @ b \<and> failing_block (guard_max_starts mx) items b)"
    using trial_count_None [of 0 "guard_max_starts mx" items lives] guard_max_starts_pos by (auto intro: append_Nil [symmetric])
  also have "\<dots> \<longleftrightarrow> (\<exists>a b c. lives = a @ b @ c \<and> length b = guard_max_starts mx \<and> list_all (\<lambda>l. \<not> life_stable items l) b \<and> c \<noteq> [])"
    unfolding failing_block_def by blast
  finally show ?thesis using lives_count [OF assms(1) _ assms(2-5), of items] by (auto simp: Let_def split: option.splits)
qed

theorem failed_version_rolled_back_witness:
  "current_of (dk_fs (fold (service_life None []) [(''t1'', [Uptime 1]), (''t2'', []), (''t3'', [Uptime 7, Uptime 8]), (''t4'', [])] (restart second_on_trial))) = Some ''/opt/vendor/versions/v1''"
proof -
  let ?ls = "[(''t1'', [Uptime 1]), (''t2'', []), (''t3'', [Uptime 7, Uptime 8]), (''t4'', [])]"
  have "trial_stable_sec [] = 120" by (simp add: trial_stable_sec_def trial_init_def config_get_int_def config_get_string_def trial_read_def fs_read_def Let_def)
  then have "?ls = [] @ take 3 ?ls @ [(''t4'', [])] \<and> length (take 3 ?ls) = guard_max_starts None \<and> list_all (\<lambda>l. \<not> life_stable [] l) (take 3 ?ls) \<and> [(''t4'', [] :: life_event list)] \<noteq> []"
    by (simp add: guard_max_starts_def life_stable_def word_le_nat_alt)
  then have "\<exists>a b c. ?ls = a @ b @ c \<and> length b = guard_max_starts None \<and> list_all (\<lambda>l. \<not> life_stable [] l) b \<and> c \<noteq> []" by blast
  then show ?thesis
    using failed_version_rolled_back [OF second_on_trial_ready(1), of None ?ls "[]"] second_on_trial_ready(2)
    unfolding Let_def by (simp add: guard_max_starts_def life_unconfirmed_def)
qed

text \<open>C10. A version on trial whose channel to the baseband unit comes up is kept by every later start; one that runs for
  the configured time without it starts again with a count of zero.
\<close>

theorem confirmed_version_kept:
  assumes t: "on_trial new_dir prev_dir tm n d" "n < 2 ^ 32"
    and g: "\<not> tf_confirmed g"
  shows "current_of (dk_fs (((\<lambda>d. snd (service_start mx ts items d)) ^^ k) (snd (version_trial_on_channel_established (g, d))))) = Some new_dir
    \<and> (\<not> tf_stable_done g \<longrightarrow> tf_stable_sec g \<le> uptime \<longrightarrow>
       on_trial new_dir prev_dir tm 0 (snd (version_trial_on_uptime uptime (g, d))))"
proof (intro conjI impI)
  have s: "dk_script d = []" "link_ready (dk_fs d)" "record_ok new_dir prev_dir tm" using t by (simp_all add: on_trial_def)
  have r: "trial_read (dk_fs d) = (SUCCESS, \<lparr>vt_new_dir = new_dir, vt_prev_dir = prev_dir, vt_attempts = of_nat n, vt_time = tm\<rparr>)"
    using t trial_read_record [OF _ s(3)] by (simp add: on_trial_def trial_of_def)
  let ?e = "trial_remove d"
  let ?d = "snd (sys_unlink VERSION_AUTO_ROLLBACK_NOTICE ?e)"
  have ne: "VERSION_AUTO_ROLLBACK_NOTICE \<noteq> VERSION_CURRENT_LINK" "VERSION_AUTO_ROLLBACK_NOTICE \<noteq> VERSION_TRIAL_FILE" by (simp_all add: path_defs)
  have e: "dk_script ?e = []" "trial_of (dk_fs ?e) = None" "current_of (dk_fs ?e) = Some new_dir"
    using trial_remove_view [OF s(1)] t by (simp_all add: on_trial_def)
  then have "trial_of (dk_fs ?d) = None \<and> current_of (dk_fs ?d) = Some new_dir"
    using ne by (cases rule: unlink_cases [OF e(1), of VERSION_AUTO_ROLLBACK_NOTICE]) (simp_all add: trial_of_def current_of_def)
  then show "current_of (dk_fs (((\<lambda>d. snd (service_start mx ts items d)) ^^ k) (snd (version_trial_on_channel_established (g, d))))) = Some new_dir"
    using g r by (simp add: version_trial_on_channel_established_def no_trial_starts Let_def)
  assume up: "\<not> tf_stable_done g" "tf_stable_sec g \<le> uptime"
  show "on_trial new_dir prev_dir tm 0 (snd (version_trial_on_uptime uptime (g, d)))" using uptime_resets [OF t g up] by auto
qed

theorem confirmed_version_kept_witness:
  "current_of (dk_fs (((\<lambda>d. snd (service_start None ''t'' [] d)) ^^ 9)
     (snd (version_trial_on_channel_established (fst (trial_init [] (restart second_on_trial)), restart second_on_trial))))) = Some ''/opt/vendor/versions/v2''"
proof -
  have "\<not> tf_confirmed (fst (trial_init [] (restart second_on_trial)))" by (auto simp: trial_init_def Let_def split: prod.split)
  then show ?thesis using confirmed_version_kept [OF second_on_trial_ready(1)] by simp
qed

text \<open>The record of a trial is taken as written although nothing of it reached the disk: the write reports success,
  the record replaces the one before and cannot be read, the guard discards it, and the version of the link
  stays, whatever the number of starts.\<close>

theorem lost_record_unprotected:
  assumes "dk_script d = [Call_ok, Call_fails]"
  shows "fst (trial_write t d) = SUCCESS \<and> fst (trial_read (dk_fs (snd (trial_write t d)))) = ERROR_GENERAL
    \<and> current_of (dk_fs (((\<lambda>d. snd (service_start mx ts items d)) ^^ k) (snd (trial_write t d)))) = current_of (dk_fs d)"
proof -
  let ?tmp = "VERSION_TRIAL_FILE @ ''.tmp''"
  let ?d = "(disk_step (fs_move ?tmp VERSION_TRIAL_FILE) (disk_step (fs_put ?tmp []) d))\<lparr>dk_script := []\<rparr>"
  have w: "trial_write t d = (SUCCESS, ?d)"
    using assms by (simp add: trial_write_def sys_create_def sys_output_def sys_rename_def disk_call_def next_result_def fs_has_read disk_step_def Let_def)
  have ne: "?tmp \<noteq> VERSION_TRIAL_FILE" "?tmp \<noteq> VERSION_CURRENT_LINK" "VERSION_TRIAL_FILE \<noteq> VERSION_CURRENT_LINK" by (simp_all add: path_defs)
  have d: "dk_script ?d = []" "trial_of (dk_fs ?d) = Some []" "current_of (dk_fs ?d) = current_of (dk_fs d)"
    using ne by (simp_all add: trial_of_def current_of_def)
  have "trial_get ''new'' [] = []" by (simp add: trial_get_def Let_def fgets_all.simps)
  then have "snd (service_start mx ts items ?d) = trial_remove ?d" using guard_removes_record [OF d(1,2)] removing_start [OF d(1)] by simp
  then have "current_of (dk_fs (((\<lambda>d. snd (service_start mx ts items d)) ^^ k) ?d)) = current_of (dk_fs d)"
    using d no_trial_starts [OF trial_remove_view(2) [OF d(1)]] trial_remove_view(3) [OF d(1)]
    by (cases k) (simp_all add: funpow_Suc_right del: funpow.simps(2))
  moreover have "fst (trial_read (dk_fs ?d)) = ERROR_GENERAL" using d(2) by (simp add: trial_read_def trial_of_def trial_zero_def fgets_all.simps Let_def)
  ultimately show ?thesis using w by simp
qed

theorem lost_record_unprotected_witness:
  "fst (trial_write trial_zero ((restart two_versions)\<lparr>dk_script := [Call_ok, Call_fails]\<rparr>)) = SUCCESS"
  using lost_record_unprotected [of "(restart two_versions)\<lparr>dk_script := [Call_ok, Call_fails]\<rparr>" trial_zero] by simp

end
