(* ===== verification/VersionInstall.thy ===== *)
theory VersionInstall
  imports VersionTrial ClientPorts CpriProtocol
begin

text \<open>
  The download and installation of a version, from version_manager.c: the archive is fetched by curl, its
  members are listed and checked before it is unpacked by tar, the program in it is compared with the
  checksum that came with it, and what does not match is removed. Software goes to a directory of its own
  version, firmware first to a staging area and then to the directory of its kind of FPGA. The programs
  curl, tar and rm, the order in which a directory is read, the times of directories and OpenSSL's SHA-256 are
  arguments; what the theorems need of them is stated with them.
\<close>

subsection \<open>The outside\<close>

text \<open>Running a program gives the status that \<open>shell_run\<close> returns, the whole output and the disk afterwards. Times and
  the sizes of directories are those of \<open>stat\<close>. A directory cannot be opened as a file here, and no path leads
  over a symbolic link.\<close>

record 'c tools =
  tl_run :: "string list \<Rightarrow> disk \<Rightarrow> int \<times> string \<times> disk"
  tl_order :: "string \<Rightarrow> string list \<Rightarrow> string list"
  tl_mtime :: "file_system \<Rightarrow> string \<Rightarrow> int"
  tl_dir_size :: "file_system \<Rightarrow> string \<Rightarrow> int"
  tl_memory :: bool
  tl_sha_init :: 'c
  tl_sha_update :: "'c \<Rightarrow> bytes \<Rightarrow> 'c"
  tl_sha_final :: "'c \<Rightarrow> bytes"

text \<open>The text that \<open>shell_run\<close> leaves in a buffer of \<open>n\<close> bytes, as a C string.\<close>

definition run_captured :: "'c tools \<Rightarrow> string list \<Rightarrow> nat \<Rightarrow> disk \<Rightarrow> int \<times> string \<times> disk" where
  "run_captured t argv n d = (case tl_run t argv d of (status, out, d) \<Rightarrow> (status, cstr (take (n - 1) out), d))"

text \<open>The names in a directory, and whether a name ends like a suffix behind at least one more character.\<close>

definition entry_name :: "string \<Rightarrow> string \<Rightarrow> string option" where
  "entry_name dir path =
     (let n = drop (length dir + 1) path
      in if take (length dir + 1) path = dir @ ''/'' \<and> n \<noteq> [] \<and> CHR ''/'' \<notin> set n then Some n else None)"

definition dir_entries :: "file_system \<Rightarrow> string \<Rightarrow> string list" where
  "dir_entries fs dir = remdups (List.map_filter (entry_name dir) (map fst (fs_files fs) @ map fst (fs_links fs) @ fs_dirs fs))"

definition read_dir :: "'c tools \<Rightarrow> file_system \<Rightarrow> string \<Rightarrow> string list option" where
  "read_dir t fs dir = (if dir \<in> set (fs_dirs fs) then Some (tl_order t dir (dir_entries fs dir)) else None)"

definition has_suffix :: "string \<Rightarrow> string \<Rightarrow> bool" where
  "has_suffix s name \<longleftrightarrow> length name > length s \<and> drop (length name - length s) name = s"

text \<open>\<open>strstr\<close> gives the rest of the text from the first occurrence; \<open>strtok_r\<close> with a newline gives the non-empty lines.\<close>

fun strstr :: "string \<Rightarrow> string \<Rightarrow> string option" where
  "strstr needle [] = (if needle = [] then Some [] else None)"
| "strstr needle (c # cs) = (if take (length needle) (c # cs) = needle then Some (c # cs) else strstr needle cs)"

fun text_lines :: "string \<Rightarrow> string list" where
  "text_lines [] = [[]]"
| "text_lines (c # cs) =
     (if c = newline then [] # text_lines cs
      else case text_lines cs of [] \<Rightarrow> [[c]] | l # ls \<Rightarrow> (c # l) # ls)"

definition strtok_lines :: "string \<Rightarrow> string list" where
  "strtok_lines s = filter (\<lambda>l. l \<noteq> []) (text_lines s)"

subsection \<open>Archives\<close>

abbreviation (input) TAR_MAX_MEMBERS :: nat where "TAR_MAX_MEMBERS \<equiv> 4096"

fun type_scan :: "nat \<Rightarrow> string list \<Rightarrow> int \<times> nat" where
  "type_scan scanned [] = (SUCCESS, scanned)"
| "type_scan scanned (line # ls) =
     (if length line < 2 \<or> line ! 1 \<notin> {CHR ''r'', CHR ''w'', CHR ''x'', CHR ''-''} then type_scan scanned ls
      else if line ! 0 \<noteq> CHR ''-'' \<and> line ! 0 \<noteq> CHR ''d'' then (ERROR_GENERAL, scanned + 1)
      else type_scan (scanned + 1) ls)"

definition check_tar_member_types :: "'c tools \<Rightarrow> string \<Rightarrow> disk \<Rightarrow> int \<times> disk" where
  "check_tar_member_types t tar_path d =
     (if \<not> tl_memory t then (ERROR_GENERAL, d)
      else case run_captured t [''tar'', ''-tvzf'', tar_path] 65536 d of (status, out, d) \<Rightarrow>
        if status < 0 \<or> status \<noteq> 0 then (ERROR_GENERAL, d)
        else if length out \<ge> 65536 - 1 then (ERROR_GENERAL, d)
        else case type_scan 0 (strtok_lines out) of (ret, scanned) \<Rightarrow>
          (if ret = SUCCESS \<and> scanned = 0 then ERROR_GENERAL else ret, d))"

fun member_scan :: "nat \<Rightarrow> string list \<Rightarrow> int \<times> nat" where
  "member_scan scanned [] = (SUCCESS, scanned)"
| "member_scan scanned (line # ls) =
     (if scanned + 1 > TAR_MAX_MEMBERS then (ERROR_GENERAL, scanned + 1)
      else if \<not> shell_safe_tar_member line then (ERROR_GENERAL, scanned + 1)
      else member_scan (scanned + 1) ls)"

definition verify_tar_members :: "'c tools \<Rightarrow> string \<Rightarrow> disk \<Rightarrow> int \<times> disk" where
  "verify_tar_members t tar_path d =
     (if \<not> tl_memory t then (ERROR_GENERAL, d)
      else case run_captured t [''tar'', ''-tzf'', tar_path] 65536 d of (status, out, d) \<Rightarrow>
        if status < 0 then (ERROR_GENERAL, d)
        else if status \<noteq> 0 then (ERROR_GENERAL, d)
        else if length out \<ge> 65536 - 1 then (ERROR_GENERAL, d)
        else case member_scan 0 (strtok_lines out) of (ret, scanned) \<Rightarrow>
          if ret = SUCCESS \<and> scanned \<noteq> 0 then check_tar_member_types t tar_path d else (ERROR_GENERAL, d))"

definition extract_argv :: "string \<Rightarrow> string \<Rightarrow> string list" where
  "extract_argv tar_path dest_dir = [''tar'', ''-xzf'', tar_path, ''-C'', dest_dir, ''--no-same-owner'']"

definition extract_tar_file :: "'c tools \<Rightarrow> string \<Rightarrow> string \<Rightarrow> disk \<Rightarrow> int \<times> disk" where
  "extract_tar_file t tar_path dest_dir d =
     (case verify_tar_members t tar_path d of (ret, d) \<Rightarrow>
        if ret \<noteq> SUCCESS then (ERROR_GENERAL, d)
        else case run_captured t (extract_argv tar_path dest_dir) 1024 d of (status, out, d) \<Rightarrow>
          if status < 0 then (ERROR_GENERAL, d)
          else if status \<noteq> 0 then (ERROR_GENERAL, d)
          else (SUCCESS, d))"

subsection \<open>Checksums\<close>

definition sha256_hex :: "'c tools \<Rightarrow> string \<Rightarrow> string" where
  "sha256_hex t content = concat (map hex_byte (take 32 (tl_sha_final t (foldl (tl_sha_update t) (tl_sha_init t) (chunks (map of_char content))))))"

definition calculate_sha256 :: "'c tools \<Rightarrow> file_system \<Rightarrow> string \<Rightarrow> string option" where
  "calculate_sha256 t fs file_path = map_option (sha256_hex t) (fs_read fs file_path)"

text \<open>Sixty-four hexadecimal digits at the start of a text.\<close>

definition hex64 :: "string \<Rightarrow> string option" where
  "hex64 s = (let h = takeWhile (\<lambda>c. digit_val c < 16) (take 64 s) in if length h = 64 then Some h else None)"

definition checksum_line :: "string \<Rightarrow> string option" where
  "checksum_line line =
     (let start = dropWhile (\<lambda>c. c = CHR '' '' \<or> ch c = 9) (cstr line)
      in if start = [] \<or> hd start = newline \<or> hd start = CHR ''#'' then None
         else case (case strstr ''sha256='' start of Some p \<Rightarrow> hex64 (drop 7 p) | None \<Rightarrow> None) of
                Some c \<Rightarrow> Some c
              | None \<Rightarrow> hex64 start)"

fun first_checksum :: "string list \<Rightarrow> string option" where
  "first_checksum [] = None"
| "first_checksum (line # ls) = (case checksum_line line of Some c \<Rightarrow> Some c | None \<Rightarrow> first_checksum ls)"

definition read_checksum_from_txt :: "'c tools \<Rightarrow> file_system \<Rightarrow> string \<Rightarrow> string option" where
  "read_checksum_from_txt t fs version_dir =
     (case read_dir t fs version_dir of
        None \<Rightarrow> None
      | Some names \<Rightarrow>
          (case find (has_suffix ''.txt'') names of
             None \<Rightarrow> None
           | Some n \<Rightarrow>
               (case fs_read fs (take 511 (version_dir @ ''/'' @ n)) of
                  None \<Rightarrow> None
                | Some text \<Rightarrow> first_checksum (fgets_all 255 text))))"

abbreviation (input) DOWNLOAD_RESULT_SUCCESS :: u32 where "DOWNLOAD_RESULT_SUCCESS \<equiv> 0"
abbreviation (input) DOWNLOAD_RESULT_NOT_EXIST :: u32 where "DOWNLOAD_RESULT_NOT_EXIST \<equiv> 1"
abbreviation (input) DOWNLOAD_RESULT_TIMEOUT :: u32 where "DOWNLOAD_RESULT_TIMEOUT \<equiv> 2"
abbreviation (input) DOWNLOAD_RESULT_TOO_LARGE :: u32 where "DOWNLOAD_RESULT_TOO_LARGE \<equiv> 3"
abbreviation (input) DOWNLOAD_RESULT_CHECKSUM :: u32 where "DOWNLOAD_RESULT_CHECKSUM \<equiv> 4"
abbreviation (input) DOWNLOAD_RESULT_EXTRACT :: u32 where "DOWNLOAD_RESULT_EXTRACT \<equiv> 5"
abbreviation (input) DOWNLOAD_RESULT_OTHER :: u32 where "DOWNLOAD_RESULT_OTHER \<equiv> 6"

text \<open>The loop over the names stops at the first \<open>.bin\<close>; before it, the last program without a suffix counts.\<close>

definition runnable :: "file_system \<Rightarrow> string \<Rightarrow> bool" where
  "runnable fs path = (case map_of (fs_files fs) path of Some (content, x) \<Rightarrow> x | None \<Rightarrow> False)"

fun bin_scan :: "file_system \<Rightarrow> string \<Rightarrow> string list \<Rightarrow> string \<Rightarrow> string \<times> string" where
  "bin_scan fs dir [] executable_file = ([], executable_file)"
| "bin_scan fs dir (n # ns) executable_file =
     (let path = take 511 (dir @ ''/'' @ n)
      in if n \<noteq> [] \<and> hd n = CHR ''.'' then bin_scan fs dir ns executable_file
         else if has_suffix ''.bin'' n then (path, executable_file)
         else if CHR ''.'' \<notin> set n \<and> runnable fs path then bin_scan fs dir ns path
         else bin_scan fs dir ns executable_file)"

definition verify_bin_file_checksum :: "'c tools \<Rightarrow> file_system \<Rightarrow> string \<Rightarrow> u32" where
  "verify_bin_file_checksum t fs version_dir =
     (case read_dir t fs version_dir of
        None \<Rightarrow> DOWNLOAD_RESULT_CHECKSUM
      | Some names \<Rightarrow>
          case bin_scan fs version_dir names [] of (bin_file, executable_file) \<Rightarrow>
            if bin_file = [] \<and> executable_file = [] then DOWNLOAD_RESULT_EXTRACT
            else let executable_file = (if bin_file \<noteq> [] then bin_file else executable_file)
            in case read_checksum_from_txt t fs version_dir of
                 None \<Rightarrow> DOWNLOAD_RESULT_CHECKSUM
               | Some expected_checksum \<Rightarrow>
                   (case calculate_sha256 t fs executable_file of
                      None \<Rightarrow> DOWNLOAD_RESULT_CHECKSUM
                    | Some actual_checksum \<Rightarrow>
                        if map tolower actual_checksum \<noteq> map tolower expected_checksum then DOWNLOAD_RESULT_CHECKSUM
                        else DOWNLOAD_RESULT_SUCCESS))"

subsection \<open>Metadata and directories\<close>

record version_metadata =
  vm_version :: string
  vm_build_time :: string
  vm_checksum :: string
  vm_file_size :: u32
  vm_ver_type :: u8
  vm_install_path :: string

definition json_field :: "string \<Rightarrow> string \<Rightarrow> string" where
  "json_field key value = ''  \"'' @ key @ ''\": \"'' @ value @ ''\"''"

definition json_number :: "string \<Rightarrow> nat \<Rightarrow> string" where
  "json_number key n = ''  \"'' @ key @ ''\": '' @ dec n"

definition metadata_json :: "version_metadata \<Rightarrow> string" where
  "metadata_json m = concat (map (\<lambda>l. l @ [newline])
     [''{'', json_field ''version'' (vm_version m) @ '','', json_field ''build_time'' (vm_build_time m) @ '','',
      json_field ''checksum'' (vm_checksum m) @ '','', json_number ''file_size'' (unat (vm_file_size m)) @ '','',
      json_number ''ver_type'' (unat (vm_ver_type m)) @ '','', json_field ''install_path'' (vm_install_path m), ''}''])"

definition save_version_metadata :: "string \<Rightarrow> version_metadata \<Rightarrow> disk \<Rightarrow> int \<times> disk" where
  "save_version_metadata dir metadata d =
     (let meta_path = take 543 (dir @ ''/version.json'')
      in case sys_create meta_path d of (ok, d) \<Rightarrow>
         if \<not> ok then (ERROR_GENERAL, d)
         else (SUCCESS, snd (sys_output meta_path (metadata_json metadata) d)))"

definition remove_tree :: "'c tools \<Rightarrow> string \<Rightarrow> disk \<Rightarrow> disk" where
  "remove_tree t path d =
     (if \<not> fs_has (dk_fs d) path then d
      else case run_captured t [''rm'', ''-rf'', path] 256 d of (rm_ret, rm_out, d) \<Rightarrow> d)"

abbreviation (input) FIRMWARE_BASE_DIR :: string where "FIRMWARE_BASE_DIR \<equiv> ''/opt/vendor/firmware''"
abbreviation (input) FIRMWARE_STAGING_DIR :: string where "FIRMWARE_STAGING_DIR \<equiv> ''/opt/vendor/firmware/.staging''"
abbreviation (input) VERSION_DOWNLOAD_SW_DIR :: string where "VERSION_DOWNLOAD_SW_DIR \<equiv> ''/opt/vendor/downloads/software''"
abbreviation (input) VERSION_DOWNLOAD_FW_DIR :: string where "VERSION_DOWNLOAD_FW_DIR \<equiv> ''/opt/vendor/downloads/firmware''"
abbreviation (input) VERSION_TYPE_SOFTWARE :: u8 where "VERSION_TYPE_SOFTWARE \<equiv> 0"
abbreviation (input) VERSION_TYPE_FIRMWARE :: u8 where "VERSION_TYPE_FIRMWARE \<equiv> 1"

text \<open>The directory of a version in that of one kind: by its exact name, else by a name that differs in case.\<close>

definition firmware_candidate :: "'c tools \<Rightarrow> file_system \<Rightarrow> string \<Rightarrow> string \<Rightarrow> string option" where
  "firmware_candidate t fs base version =
     (let candidate = take 511 (base @ ''/'' @ version)
      in if candidate \<in> set (fs_dirs fs) then Some candidate
         else case read_dir t fs base of
           None \<Rightarrow> None
         | Some names \<Rightarrow>
             map_option (\<lambda>n. take 511 (base @ ''/'' @ n))
               (find (\<lambda>n. \<not> (n \<noteq> [] \<and> hd n = CHR ''.'') \<and> map tolower n = map tolower version
                          \<and> take 511 (base @ ''/'' @ n) \<in> set (fs_dirs fs)) names))"

text \<open>The best so far: directory, kind and time, and the number of matches.\<close>

type_synonym firmware_best = "(string \<times> fpga_kind \<times> int) option"

definition firmware_kind_turn :: "'c tools \<Rightarrow> file_system \<Rightarrow> string \<Rightarrow> firmware_best \<Rightarrow> fpga_kind \<Rightarrow> firmware_best" where
  "firmware_kind_turn t fs version best k =
     (case firmware_fpga_kind_dir k of
        None \<Rightarrow> best
      | Some kind_dir \<Rightarrow>
          (case firmware_candidate t fs (take 255 (FIRMWARE_BASE_DIR @ ''/'' @ kind_dir)) version of
             None \<Rightarrow> best
           | Some found \<Rightarrow>
               (case best of
                  None \<Rightarrow> Some (found, k, tl_mtime t fs found)
                | Some (best_dir, best_kind, best_mtime) \<Rightarrow>
                    if tl_mtime t fs found > best_mtime then Some (found, k, tl_mtime t fs found) else best)))"

definition find_firmware_directory :: "'c tools \<Rightarrow> file_system \<Rightarrow> string \<Rightarrow> (string \<times> fpga_kind) option" where
  "find_firmware_directory t fs version =
     (case foldl (firmware_kind_turn t fs version) None [FPGA_KIND_V7A, FPGA_KIND_V7B, FPGA_KIND_SUBARRAY] of
        None \<Rightarrow> None
      | Some (best_dir, best_kind, best_mtime) \<Rightarrow> Some (best_dir, best_kind))"

subsection \<open>The download\<close>

record version_download_task =
  dt_version :: string
  dt_file_path :: string
  dt_file_name :: string
  dt_file_time :: string
  dt_file_len :: u32
  dt_ver_type :: u8
  dt_ftp_server :: string
  dt_ftp_port :: u16
  dt_req_header :: cpri_msg_header
  dt_in_progress :: bool

definition ftp_url :: "string \<Rightarrow> u16 \<Rightarrow> string \<Rightarrow> string \<Rightarrow> string" where
  "ftp_url ftp_server ftp_port remote_path remote_file =
     take 511 (''ftp://'' @ ftp_server @ '':'' @ dec (unat ftp_port) @
       (if remote_path \<noteq> []
        then if hd remote_path = CHR ''/'' then remote_path @ ''/'' @ remote_file else ''/'' @ remote_path @ ''/'' @ remote_file
        else ''/'' @ remote_file))"

definition curl_argv :: "string \<Rightarrow> string \<Rightarrow> string list" where
  "curl_argv local_file full_url =
     [''curl'', ''-s'', ''-S'', ''--connect-timeout'', ''30'', ''--max-time'', ''600'', ''-o'', local_file, full_url]"

fun ftp_attempts :: "'c tools \<Rightarrow> string \<Rightarrow> string \<Rightarrow> nat \<Rightarrow> disk \<Rightarrow> int \<times> disk" where
  "ftp_attempts t full_url local_file 0 d = (ERROR_GENERAL, d)"
| "ftp_attempts t full_url local_file (Suc left) d =
     (case run_captured t (curl_argv local_file full_url) 1024 d of (status, out, d) \<Rightarrow>
        if status < 0 then ftp_attempts t full_url local_file left d
        else if status = 0 then (SUCCESS, d)
        else ftp_attempts t full_url local_file left d)"

definition ftp_download_file_with_curl :: "'c tools \<Rightarrow> string \<Rightarrow> u16 \<Rightarrow> string \<Rightarrow> string \<Rightarrow> string \<Rightarrow> nat \<Rightarrow> disk \<Rightarrow> int \<times> disk" where
  "ftp_download_file_with_curl t ftp_server ftp_port remote_path remote_file local_file retry_count d =
     ftp_attempts t (ftp_url ftp_server ftp_port remote_path remote_file) local_file retry_count d"

text \<open>The messages of the module: an element of its own layout and the header of the request.\<close>

definition version_reply :: "bool \<Rightarrow> cpri_msg_type \<Rightarrow> cpri_msg_header \<Rightarrow> bytes \<Rightarrow> port \<Rightarrow> (int \<times> port) option" where
  "version_reply memory m h element p =
     (if \<not> memory then Some (ERROR_MEMORY, p)
      else do {
        (len, buffer) \<leftarrow> cpri_encode_message [] \<lparr>cm_header = h\<lparr>ch_msg_id := cpri_msg_code m, ch_msg_length := 0\<rparr>,
          cm_payload = Some (Outside element), cm_payload_len = of_nat (length element)\<rparr> (replicate 2048 0) 2048;
        Some (if len > 0 then SUCCESS else ERROR_GENERAL,
              if len > 0 then snd (tcp_client_send p (take (nat len) buffer)) else p) })"

definition send_version_download_ack :: "bool \<Rightarrow> cpri_msg_header \<Rightarrow> u8 \<Rightarrow> u32 \<Rightarrow> port \<Rightarrow> (int \<times> port) option" where
  "send_version_download_ack memory h ver_type result p =
     version_reply memory MSG_VERSION_DOWNLOAD_ACK h (le16 0x65 @ le16 9 @ [ver_type] @ le32 result) p"

definition send_version_download_result :: "bool \<Rightarrow> cpri_msg_header \<Rightarrow> u8 \<Rightarrow> u32 \<Rightarrow> port \<Rightarrow> (int \<times> port) option" where
  "send_version_download_result memory h ver_type result p =
     version_reply memory MSG_VERSION_DOWNLOAD_RESULT_IND h (le16 0x6F @ le16 9 @ [ver_type] @ le32 result) p"

definition send_version_activate_ack :: "bool \<Rightarrow> cpri_msg_header \<Rightarrow> u8 \<Rightarrow> u8 \<Rightarrow> port \<Rightarrow> (int \<times> port) option" where
  "send_version_activate_ack memory h ver_type result p =
     version_reply memory MSG_PAAU_VERSION_ACTIVATE_ACK h (le16 0x141 @ le16 6 @ [ver_type, result]) p"

subsection \<open>Installing\<close>

definition fs_stat :: "'c tools \<Rightarrow> file_system \<Rightarrow> string \<Rightarrow> int option" where
  "fs_stat t fs path =
     (case fs_read fs path of
        Some content \<Rightarrow> Some (int (length content))
      | None \<Rightarrow> if path \<in> set (fs_dirs fs) then Some (tl_dir_size t fs path) else None)"

text \<open>\<open>rename\<close> of a directory, which may replace an empty one.\<close>

definition fs_move_tree :: "string \<Rightarrow> string \<Rightarrow> file_system \<Rightarrow> file_system" where
  "fs_move_tree source target fs =
     (let new = (\<lambda>p. if below source p then target @ drop (length source) p else p)
      in fs\<lparr>fs_files := map (\<lambda>(p, f). (new p, f)) (fs_files fs), fs_links := map (\<lambda>(p, l). (new p, l)) (fs_links fs),
            fs_dirs := map new (fs_dirs fs)\<rparr>)"

definition sys_rename_dir :: "string \<Rightarrow> string \<Rightarrow> disk \<Rightarrow> bool \<times> disk" where
  "sys_rename_dir source target d =
     (let fs = dk_fs d
      in disk_call (source \<in> set (fs_dirs fs) \<and> filter (below target) (map fst (fs_files fs) @ map fst (fs_links fs)) = []
             \<and> filter (below target) (fs_dirs fs) \<in> {[], [target]})
           (fs_move_tree source target) d)"

text \<open>Fetching the archive: the error, or its path, its checksum and its size.\<close>

definition fetch_package :: "'c tools \<Rightarrow> version_download_task \<Rightarrow> disk \<Rightarrow> (u32 + string \<times> string \<times> int) \<times> disk" where
  "fetch_package t task d =
     (let download_dir = (if dt_ver_type task = VERSION_TYPE_FIRMWARE then VERSION_DOWNLOAD_FW_DIR else VERSION_DOWNLOAD_SW_DIR)
      in case create_directory_recursive download_dir d of (ret, d) \<Rightarrow>
         if ret \<noteq> SUCCESS then (Inl DOWNLOAD_RESULT_OTHER, d)
         else let download_path = take 511 (download_dir @ ''/'' @ dt_file_name task)
         in case ftp_download_file_with_curl t (dt_ftp_server task) (dt_ftp_port task) (dt_file_path task) (dt_file_name task) download_path 3 d of
              (ret, d) \<Rightarrow>
                if ret \<noteq> SUCCESS then (Inl DOWNLOAD_RESULT_TIMEOUT, d)
                else case fs_stat t (dk_fs d) download_path of
                  None \<Rightarrow> (Inl DOWNLOAD_RESULT_NOT_EXIST, d)
                | Some st_size \<Rightarrow>
                    (case calculate_sha256 t (dk_fs d) download_path of
                       None \<Rightarrow> (Inl DOWNLOAD_RESULT_CHECKSUM, d)
                     | Some checksum \<Rightarrow> (Inr (download_path, checksum, st_size), d)))"

text \<open>Both give the result and the directory.\<close>

definition install_software :: "'c tools \<Rightarrow> version_download_task \<Rightarrow> string \<Rightarrow> disk \<Rightarrow> u32 \<times> string \<times> disk" where
  "install_software t task download_path d =
     (let version_dir = take 511 (VERSION_BASE_DIR @ ''/'' @ dt_version task)
      in case create_directory_recursive version_dir d of (ret, d) \<Rightarrow>
         if ret \<noteq> SUCCESS then (DOWNLOAD_RESULT_OTHER, version_dir, d)
         else case extract_tar_file t download_path version_dir d of (ret, d) \<Rightarrow>
         if ret \<noteq> SUCCESS then (DOWNLOAD_RESULT_EXTRACT, version_dir, d)
         else let result = verify_bin_file_checksum t (dk_fs d) version_dir
         in if result \<noteq> DOWNLOAD_RESULT_SUCCESS then (result, version_dir, remove_tree t version_dir d)
            else (DOWNLOAD_RESULT_SUCCESS, version_dir, d))"

definition firmware_version_of :: "firmware_metadata \<Rightarrow> string \<Rightarrow> string" where
  "firmware_version_of fw_meta version =
     (if md_version fw_meta \<noteq> [] \<and> shell_safe_name (md_version fw_meta) then take 39 (md_version fw_meta) else take 39 version)"

definition store_firmware :: "'c tools \<Rightarrow> string \<Rightarrow> string \<Rightarrow> string \<Rightarrow> disk \<Rightarrow> u32 \<times> string \<times> disk" where
  "store_firmware t staging_dir kind_dir real_version d =
     (let kind_base = take 255 (FIRMWARE_BASE_DIR @ ''/'' @ kind_dir)
      in case create_directory_recursive kind_base d of (ret, d) \<Rightarrow>
         if ret \<noteq> SUCCESS then (DOWNLOAD_RESULT_OTHER, [], remove_tree t staging_dir d)
         else let version_dir = take 511 (kind_base @ ''/'' @ real_version);
                  d = (if fs_has (dk_fs d) version_dir then remove_tree t version_dir d else d)
         in case sys_rename_dir staging_dir version_dir d of (ok, d) \<Rightarrow>
            if \<not> ok then (DOWNLOAD_RESULT_OTHER, version_dir, remove_tree t staging_dir d)
            else (DOWNLOAD_RESULT_SUCCESS, version_dir, d))"

definition install_firmware :: "'c tools \<Rightarrow> version_download_task \<Rightarrow> string \<Rightarrow> disk \<Rightarrow> u32 \<times> string \<times> string \<times> disk" where
  "install_firmware t task download_path d =
     (let staging_dir = take 511 (FIRMWARE_STAGING_DIR @ ''/'' @ dt_version task);
          version = dt_version task;
          d = remove_tree t staging_dir d
      in case create_directory_recursive staging_dir d of (ret, d) \<Rightarrow>
         if ret \<noteq> SUCCESS then (DOWNLOAD_RESULT_OTHER, [], version, d)
         else case extract_tar_file t download_path staging_dir d of (ret, d) \<Rightarrow>
         if ret \<noteq> SUCCESS then (DOWNLOAD_RESULT_EXTRACT, [], version, remove_tree t staging_dir d)
         else let result = verify_bin_file_checksum t (dk_fs d) staging_dir
         in if result \<noteq> DOWNLOAD_RESULT_SUCCESS then (result, [], version, remove_tree t staging_dir d)
         else case firmware_parse_metadata (fs_read (dk_fs d)) (fs_stat t (dk_fs d)) staging_dir of (ret, fw_meta) \<Rightarrow>
         if ret \<noteq> SUCCESS then (DOWNLOAD_RESULT_EXTRACT, [], version, remove_tree t staging_dir d)
         else case firmware_fpga_kind_dir (firmware_fpga_kind (md_file_sub_type fw_meta)) of
           None \<Rightarrow> (DOWNLOAD_RESULT_OTHER, [], version, remove_tree t staging_dir d)
         | Some kind_dir \<Rightarrow>
             let real_version = firmware_version_of fw_meta version
             in case store_firmware t staging_dir kind_dir real_version d of (result, version_dir, d) \<Rightarrow>
                (result, version_dir, if result = DOWNLOAD_RESULT_SUCCESS then real_version else version, d))"

definition download_and_install :: "'c tools \<Rightarrow> version_download_task \<Rightarrow> disk \<Rightarrow> u32 \<times> version_download_task \<times> disk" where
  "download_and_install t task d =
     (case fetch_package t task d of
        (Inl result, d) \<Rightarrow> (result, task, d)
      | (Inr (download_path, checksum, st_size), d) \<Rightarrow>
          (case (if dt_ver_type task = VERSION_TYPE_FIRMWARE then install_firmware t task download_path d
                 else case install_software t task download_path d of (result, version_dir, d) \<Rightarrow> (result, version_dir, dt_version task, d)) of
             (result, version_dir, version, d) \<Rightarrow>
               if result \<noteq> DOWNLOAD_RESULT_SUCCESS then (result, task, d)
               else let task = task\<lparr>dt_version := take 39 version\<rparr>;
                        metadata = \<lparr>vm_version = take 39 version, vm_build_time = take 19 (dt_file_time task), vm_checksum = take 64 checksum,
                          vm_file_size = of_int st_size, vm_ver_type = dt_ver_type task, vm_install_path = take 255 version_dir\<rparr>
               in case save_version_metadata version_dir metadata d of (ret, d) \<Rightarrow>
                    if ret \<noteq> SUCCESS then (DOWNLOAD_RESULT_OTHER, task, d)
                    else (DOWNLOAD_RESULT_SUCCESS, task, snd (sys_unlink download_path d))))"

definition version_download_thread_func :: "'c tools \<Rightarrow> bool \<Rightarrow> version_download_task \<times> disk \<times> port
    \<Rightarrow> (version_download_task \<times> disk \<times> port) option" where
  "version_download_thread_func t g_shutting_down st =
     (case st of (task, d, p) \<Rightarrow>
        case download_and_install t task d of (result, task, d) \<Rightarrow> do {
          p \<leftarrow> (if \<not> g_shutting_down
               then map_option snd (send_version_download_result (tl_memory t) (dt_req_header task) (dt_ver_type task) result p)
               else Some p);
          Some (task\<lparr>dt_in_progress := False\<rparr>, d, p) })"

subsection \<open>What a step leaves alone\<close>

text \<open>Files and links outside \<open>P\<close> are as before, and so are the directories there, apart from new ones.\<close>

definition untouched :: "(string \<Rightarrow> bool) \<Rightarrow> disk \<Rightarrow> disk \<Rightarrow> bool" where
  "untouched P d d' \<longleftrightarrow> (\<forall>p. \<not> P p \<longrightarrow> fs_read (dk_fs d') p = fs_read (dk_fs d) p \<and> fs_link (dk_fs d') p = fs_link (dk_fs d) p
     \<and> (p \<in> set (fs_dirs (dk_fs d)) \<longrightarrow> p \<in> set (fs_dirs (dk_fs d'))))"

lemma untouched_refl [simp]: "untouched P d d"
  by (simp add: untouched_def)

lemma untouched_trans: "untouched P d d' \<Longrightarrow> untouched P d' d'' \<Longrightarrow> untouched P d d''"
  by (simp add: untouched_def)

lemma untouched_mono: "untouched P d d' \<Longrightarrow> (\<And>p. P p \<Longrightarrow> Q p) \<Longrightarrow> untouched Q d d'"
  by (auto simp: untouched_def)

lemma next_result_fs: "next_result d = (r, d') \<Longrightarrow> dk_fs d' = dk_fs d"
  by (auto simp: next_result_def split: list.splits)

lemma next_result_snd [simp]: "dk_fs (snd (next_result d)) = dk_fs d"
  by (simp add: next_result_def split: list.split)

lemma untouched_call:
  assumes "disk_call b f d = (ok, d')" "\<And>p fs. \<not> P p \<Longrightarrow> fs_read (f fs) p = fs_read fs p \<and> fs_link (f fs) p = fs_link fs p
    \<and> (p \<in> set (fs_dirs fs) \<longrightarrow> p \<in> set (fs_dirs (f fs)))"
  shows "untouched P d d'"
  using assms by (auto simp: untouched_def disk_call_def dest: next_result_fs split: prod.splits if_splits)

lemma mkdir_untouched: "sys_mkdir path d = (ok, d') \<Longrightarrow> untouched P d d'"
proof (cases "fs_has (dk_fs d) path")
  case True
  assume "sys_mkdir path d = (ok, d')"
  then have "next_result d = (fst (next_result d), d')" using True by (auto simp: sys_mkdir_def)
  then show ?thesis using next_result_fs by (simp add: untouched_def)
next
  case False
  assume "sys_mkdir path d = (ok, d')"
  then show ?thesis using False
    by (intro untouched_call [of True "\<lambda>fs. fs\<lparr>fs_dirs := path # fs_dirs fs\<rparr>" d]) (auto simp: sys_mkdir_def fs_read_def fs_link_def)
qed

lemma mkdir_all_untouched: "mkdir_all ps d = (ok, d') \<Longrightarrow> untouched P d d'"
proof (induction ps arbitrary: d)
  case (Cons p ps)
  then show ?case by (auto split: prod.splits if_splits dest: mkdir_untouched intro: untouched_trans)
qed simp

lemma create_directory_untouched: "create_directory_recursive path d = (ret, d') \<Longrightarrow> untouched P d d'"
  by (auto simp: create_directory_recursive_def Let_def dest: mkdir_all_untouched split: prod.splits)

lemma create_untouched: "sys_create path d = (ok, d') \<Longrightarrow> untouched (\<lambda>p. p = path) d d'"
  unfolding sys_create_def by (erule untouched_call) simp

lemma unlink_untouched: "untouched (\<lambda>p. p = path) d (snd (sys_unlink path d))"
  by (cases "sys_unlink path d") (auto simp: sys_unlink_def elim!: untouched_call)

lemma output_untouched: "untouched (\<lambda>p. p = path) d (snd (sys_output path c d))"
  by (auto simp: sys_output_def untouched_def dest: next_result_fs split: prod.splits call_result.splits)

lemma below_cases:
  assumes "below s q"
  obtains r where "q = s @ r" "r = [] \<or> (\<exists>x. r = ''/'' @ x)"
proof (cases "q = s")
  case False
  then have "take (length s + 1) q = s @ ''/''" using assms by (auto simp: below_def)
  then have "q = s @ ''/'' @ drop (length s + 1) q" using append_take_drop_id [of "length s + 1" q] by simp
  then show thesis by (rule that) blast
qed (use that [of "[]"] in simp)

lemma below_moved: "below s q \<Longrightarrow> below t (t @ drop (length s) q)"
  by (erule below_cases) (auto simp: below_def)

lemma map_of_moved:
  assumes "\<not> below s p" "\<not> below t p"
  shows "map_of (map (\<lambda>(q, f). (if below s q then t @ drop (length s) q else q, f)) xs) p = map_of xs p"
proof (induction xs)
  case (Cons x xs)
  obtain q f where x: "x = (q, f)" by (cases x)
  show ?case
  proof (cases "below s q")
    case True
    then have "t @ drop (length s) q \<noteq> p" "q \<noteq> p" using below_moved [of s q t] assms by auto
    then show ?thesis using Cons.IH x True by simp
  qed (use Cons.IH x in simp)
qed simp

lemma rename_dir_untouched: "sys_rename_dir source target d = (ok, d') \<Longrightarrow> untouched (\<lambda>p. below source p \<or> below target p) d d'"
  unfolding sys_rename_dir_def Let_def
proof (erule untouched_call)
  fix p :: string and fs
  assume p: "\<not> (below source p \<or> below target p)"
  then show "fs_read (fs_move_tree source target fs) p = fs_read fs p \<and> fs_link (fs_move_tree source target fs) p = fs_link fs p
      \<and> (p \<in> set (fs_dirs fs) \<longrightarrow> p \<in> set (fs_dirs (fs_move_tree source target fs)))"
    using map_of_moved [of source p target "fs_files fs"] map_of_moved [of source p target "fs_links fs"]
    by (simp add: fs_move_tree_def fs_read_def fs_link_def Let_def image_iff)
qed

subsection \<open>What the programs may do\<close>

text \<open>Listing an archive changes nothing and prints no NUL; unpacking one whose listed names are all safe and whose
  entries are files and directories changes nothing outside the directory it is given; \<open>rm -rf\<close> changes nothing
  outside its path, and curl nothing but the file it writes.\<close>

definition members_listed :: "'c tools \<Rightarrow> string \<Rightarrow> disk \<Rightarrow> string list" where
  "members_listed t a d = strtok_lines (fst (snd (tl_run t [''tar'', ''-tzf'', a] d)))"

definition plain_entry :: "string \<Rightarrow> bool" where
  "plain_entry l \<longleftrightarrow> length l < 2 \<or> l ! 1 \<notin> {CHR ''r'', CHR ''w'', CHR ''x'', CHR ''-''} \<or> l ! 0 \<in> {CHR ''-'', CHR ''d''}"

definition types_listed :: "'c tools \<Rightarrow> string \<Rightarrow> disk \<Rightarrow> string list" where
  "types_listed t a d = strtok_lines (fst (snd (tl_run t [''tar'', ''-tvzf'', a] d)))"

definition tools_confined :: "'c tools \<Rightarrow> bool" where
  "tools_confined t \<longleftrightarrow>
     (\<forall>a d. snd (snd (tl_run t [''tar'', ''-tzf'', a] d)) = d \<and> list_all (\<lambda>c. ch c \<noteq> 0) (fst (snd (tl_run t [''tar'', ''-tzf'', a] d))))
   \<and> (\<forall>a d. snd (snd (tl_run t [''tar'', ''-tvzf'', a] d)) = d \<and> list_all (\<lambda>c. ch c \<noteq> 0) (fst (snd (tl_run t [''tar'', ''-tvzf'', a] d))))
   \<and> (\<forall>a dir d. list_all shell_safe_tar_member (members_listed t a d) \<and> list_all plain_entry (types_listed t a d)
        \<longrightarrow> untouched (below dir) d (snd (snd (tl_run t (extract_argv a dir) d))))
   \<and> (\<forall>path d. untouched (below path) d (snd (snd (tl_run t [''rm'', ''-rf'', path] d))))
   \<and> (\<forall>file url d. untouched (\<lambda>p. p = file) d (snd (snd (tl_run t (curl_argv file url) d))))"

lemma captured_whole:
  assumes "run_captured t argv n d = (status, out, d')" "length out < n - 1" "list_all (\<lambda>c. ch c \<noteq> 0) (fst (snd (tl_run t argv d)))"
  shows "out = fst (snd (tl_run t argv d))" "d' = snd (snd (tl_run t argv d))"
proof -
  obtain o1 where o: "tl_run t argv d = (status, o1, d')" "out = cstr (take (n - 1) o1)"
    using assms(1) by (auto simp: run_captured_def split: prod.splits)
  have "list_all (\<lambda>c. ch c \<noteq> 0) (take (n - 1) o1)" using assms(3) o(1) by (auto simp: list_all_iff dest: in_set_takeD)
  then have "out = take (n - 1) o1" using o(2) by (simp add: cstr_def takeWhile_eq_all_conv list_all_iff)
  then have "out = o1" using assms(2) by simp
  then show "out = fst (snd (tl_run t argv d))" "d' = snd (snd (tl_run t argv d))" using o(1) by simp_all
qed

lemma member_scan_safe: "member_scan k ls = (SUCCESS, n) \<Longrightarrow> list_all shell_safe_tar_member ls \<and> n = k + length ls"
  by (induction k ls rule: member_scan.induct) (auto split: if_splits)

lemma type_scan_plain: "type_scan k ls = (SUCCESS, n) \<Longrightarrow> list_all plain_entry ls"
  by (induction k ls rule: type_scan.induct) (auto simp: plain_entry_def split: if_splits)

lemma check_types_sound:
  assumes "tools_confined t" "check_tar_member_types t a d = (ret, d')"
  shows "d' = d" "ret = SUCCESS \<Longrightarrow> list_all plain_entry (types_listed t a d)"
proof -
  have l: "snd (snd (tl_run t [''tar'', ''-tvzf'', a] d)) = d" "list_all (\<lambda>c. ch c \<noteq> 0) (fst (snd (tl_run t [''tar'', ''-tvzf'', a] d)))"
    using assms(1) by (auto simp: tools_confined_def)
  show "d' = d" using assms(2) l(1)
    by (auto simp: check_tar_member_types_def run_captured_def split: prod.splits if_splits)
  show "list_all plain_entry (types_listed t a d)" if ok: "ret = SUCCESS"
  proof -
    obtain out d1 n where "run_captured t [''tar'', ''-tvzf'', a] 65536 d = (0, out, d1)" "length out < 65536 - 1" "type_scan 0 (strtok_lines out) = (SUCCESS, n)"
      using assms(2) ok by (auto simp: check_tar_member_types_def split: prod.splits if_splits)
    then show ?thesis using captured_whole(1) [OF _ _ l(2)] type_scan_plain by (metis types_listed_def)
  qed
qed

lemma verify_members_sound:
  assumes "tools_confined t" "verify_tar_members t a d = (ret, d')"
  shows "d' = d" "ret = SUCCESS \<Longrightarrow> list_all shell_safe_tar_member (members_listed t a d) \<and> list_all plain_entry (types_listed t a d)
     \<and> members_listed t a d \<noteq> []"
proof -
  have l: "snd (snd (tl_run t [''tar'', ''-tzf'', a] d)) = d" "list_all (\<lambda>c. ch c \<noteq> 0) (fst (snd (tl_run t [''tar'', ''-tzf'', a] d)))"
    using assms(1) by (auto simp: tools_confined_def)
  obtain status out d1 where r: "run_captured t [''tar'', ''-tzf'', a] 65536 d = (status, out, d1)" by (metis prod_cases3)
  then have d1: "d1 = d" using l(1) by (auto simp: run_captured_def split: prod.splits)
  show "d' = d" using assms(2) r d1 check_types_sound(1) [OF assms(1)]
    by (auto simp: verify_tar_members_def split: prod.splits if_splits)
  show "list_all shell_safe_tar_member (members_listed t a d) \<and> list_all plain_entry (types_listed t a d) \<and> members_listed t a d \<noteq> []"
    if ok: "ret = SUCCESS"
  proof -
    obtain n where n: "length out < 65536 - 1" "member_scan 0 (strtok_lines out) = (SUCCESS, n)" "n \<noteq> 0"
        "check_tar_member_types t a d = (SUCCESS, d')"
      using assms(2) ok r d1 by (auto simp: verify_tar_members_def split: prod.splits if_splits)
    have "strtok_lines out = members_listed t a d" using captured_whole(1) [OF r n(1) l(2)] by (simp add: members_listed_def)
    then show ?thesis using member_scan_safe [OF n(2)] n(3) check_types_sound(2) [OF assms(1) n(4)] by auto
  qed
qed

lemma extract_untouched:
  assumes "tools_confined t" "extract_tar_file t a dir d = (ret, d')"
  shows "untouched (below dir) d d'"
proof -
  obtain r1 d1 where v: "verify_tar_members t a d = (r1, d1)" by (cases "verify_tar_members t a d")
  note s = verify_members_sound [OF assms(1) v]
  show ?thesis
  proof (cases "r1 = SUCCESS")
    case True
    then have "untouched (below dir) d (snd (snd (tl_run t (extract_argv a dir) d)))" using s(2) assms(1) by (simp add: tools_confined_def)
    then show ?thesis using assms(2) v s(1) True by (auto simp: extract_tar_file_def run_captured_def split: prod.splits if_splits)
  qed (use assms(2) v s(1) in \<open>auto simp: extract_tar_file_def\<close>)
qed

lemma remove_tree_untouched:
  assumes "tools_confined t"
  shows "untouched (below path) d (remove_tree t path d)"
  using assms unfolding tools_confined_def remove_tree_def run_captured_def by (auto split: prod.splits) (metis snd_conv)

lemma curl_untouched:
  assumes "tools_confined t" "ftp_attempts t url file n d = (ret, d')"
  shows "untouched (\<lambda>p. p = file) d d'"
  using assms(2)
proof (induction n arbitrary: d)
  case (Suc n)
  obtain status out d1 where r: "run_captured t (curl_argv file url) 1024 d = (status, out, d1)" by (metis prod_cases3)
  then have "d1 = snd (snd (tl_run t (curl_argv file url) d))" by (auto simp: run_captured_def split: prod.splits)
  then have "untouched (\<lambda>p. p = file) d d1" using assms(1) by (simp add: tools_confined_def)
  moreover have "untouched (\<lambda>p. p = file) d1 d'" using Suc r by (auto split: if_splits)
  ultimately show ?case by (rule untouched_trans)
qed simp

subsection \<open>Where a download writes\<close>

definition task_ok :: "version_download_task \<Rightarrow> bool" where
  "task_ok task \<longleftrightarrow> shell_safe_name (dt_version task) \<and> length (dt_version task) < 40 \<and> shell_safe_name (dt_file_name task)"

definition firmware_place :: "string \<Rightarrow> bool" where
  "firmware_place p \<longleftrightarrow> (\<exists>k dir n. firmware_fpga_kind_dir k = Some dir \<and> shell_safe_name n \<and> below (FIRMWARE_BASE_DIR @ ''/'' @ dir @ ''/'' @ n) p)"

definition install_place :: "version_download_task \<Rightarrow> string \<Rightarrow> bool" where
  "install_place task p \<longleftrightarrow>
     (if dt_ver_type task = VERSION_TYPE_FIRMWARE
      then p = VERSION_DOWNLOAD_FW_DIR @ ''/'' @ dt_file_name task \<or> below (FIRMWARE_STAGING_DIR @ ''/'' @ dt_version task) p \<or> firmware_place p
      else p = VERSION_DOWNLOAD_SW_DIR @ ''/'' @ dt_file_name task \<or> below (version_dir_of (dt_version task)) p)"

lemma below_child: "below dir (dir @ ''/'' @ n)"
  by (simp add: below_def)

lemma safe_name_short: "shell_safe_name n \<Longrightarrow> length n \<le> 255"
  by (auto simp: shell_safe_name_def split: if_splits)

lemma parse_version_short:
  assumes "firmware_parse_metadata fopen stat dir = (ret, m)"
  shows "length (md_version m) \<le> 39"
proof -
  have z: "length (md_version metadata_zero) \<le> 39" by (simp add: metadata_zero_def)
  show ?thesis
  proof (cases "fopen (take 511 (dir @ ''/metadata.txt''))")
    case (Some content)
    obtain m0 b k where st: "foldl (\<lambda>st line. parse_line line st) (metadata_zero, [], 0) (fgets_all 511 content) = (m0, b, k)"
      by (rule prod_cases3)
    have "fields_bounded (m0, b, k)"
      using parse_lines_bounded [of "(metadata_zero, [], 0)" "fgets_all 511 content"] unfolding st
      by (simp add: fields_bounded_def metadata_zero_def)
    then show ?thesis using assms Some st
      by (auto simp: firmware_parse_metadata_def Let_def fields_bounded_def split: if_splits prod.splits)
  qed (use assms z in \<open>auto simp: firmware_parse_metadata_def\<close>)
qed

lemma firmware_version_safe:
  assumes "task_ok task" "length (md_version m) \<le> 39"
  shows "shell_safe_name (firmware_version_of m (dt_version task))"
  using assms by (auto simp: firmware_version_of_def task_ok_def)

lemma save_metadata_untouched:
  assumes "save_version_metadata dir m d = (ret, d')" "length dir \<le> 511"
  shows "untouched (below dir) d d'"
proof -
  have p: "take 543 (dir @ ''/version.json'') = dir @ ''/version.json''" using assms(2) by simp
  obtain ok d1 where c: "sys_create (dir @ ''/version.json'') d = (ok, d1)" by (cases "sys_create (dir @ ''/version.json'') d")
  have b: "below dir q" if "q = dir @ ''/version.json''" for q using that by (simp add: below_def)
  have "untouched (below dir) d d1" using create_untouched [OF c] b by (rule untouched_mono)
  moreover have "untouched (below dir) d1 (snd (sys_output (dir @ ''/version.json'') x d1))" for x
    using output_untouched b by (rule untouched_mono)
  ultimately show ?thesis using assms(1) c p by (auto simp: save_version_metadata_def Let_def split: if_splits intro: untouched_trans)
qed

lemma fetch_untouched:
  assumes "tools_confined t" "task_ok task" "fetch_package t task d = (r, d')"
  shows "untouched (install_place task) d d'"
    "r = Inr (path, checksum, n) \<Longrightarrow> install_place task path"
proof -
  define dl where "dl = (if dt_ver_type task = VERSION_TYPE_FIRMWARE then VERSION_DOWNLOAD_FW_DIR else VERSION_DOWNLOAD_SW_DIR)"
  have path: "take 511 (dl @ ''/'' @ dt_file_name task) = dl @ ''/'' @ dt_file_name task"
    using assms(2) safe_name_short [of "dt_file_name task"] by (simp add: task_ok_def dl_def)
  have place: "install_place task (dl @ ''/'' @ dt_file_name task)" by (simp add: install_place_def dl_def)
  obtain r1 d1 where 1: "create_directory_recursive dl d = (r1, d1)" by (cases "create_directory_recursive dl d")
  obtain r2 d2 where 2: "ftp_attempts t (ftp_url (dt_ftp_server task) (dt_ftp_port task) (dt_file_path task) (dt_file_name task))
      (dl @ ''/'' @ dt_file_name task) 3 d1 = (r2, d2)"
    by (metis surj_pair)
  have u1: "untouched (install_place task) d d1" using 1 by (rule create_directory_untouched)
  have "untouched (install_place task) d1 d2"
    using curl_untouched [OF assms(1) 2] place by (elim untouched_mono) simp
  then have u2: "untouched (install_place task) d d2" using u1 untouched_trans by blast
  show "untouched (install_place task) d d'"
    using assms(3) u1 u2 unfolding fetch_package_def Let_def dl_def [symmetric] path 1 ftp_download_file_with_curl_def prod.case 2
    by (auto split: if_splits option.splits)
  show "install_place task path" if "r = Inr (path, checksum, n)"
    using assms(3) that place unfolding fetch_package_def Let_def dl_def [symmetric] path 1 ftp_download_file_with_curl_def prod.case 2
    by (auto split: if_splits option.splits)
qed

lemma software_untouched:
  assumes "tools_confined t" "task_ok task" "install_software t task path d = (result, dir, d')"
  shows "untouched (below (version_dir_of (dt_version task))) d d'" "dir = version_dir_of (dt_version task)"
proof -
  let ?dir = "version_dir_of (dt_version task)"
  have dir: "take 511 (VERSION_BASE_DIR @ ''/'' @ dt_version task) = ?dir"
    using version_dir_plain(3) [of "dt_version task"] assms(2) by (simp only: version_dir_of_def task_ok_def)
  obtain r1 d1 where 1: "create_directory_recursive ?dir d = (r1, d1)" by (cases "create_directory_recursive ?dir d")
  obtain r2 d2 where 2: "extract_tar_file t path ?dir d1 = (r2, d2)" by (cases "extract_tar_file t path ?dir d1")
  have u1: "untouched (below ?dir) d d1" using 1 by (rule create_directory_untouched)
  have u2: "untouched (below ?dir) d d2" using u1 extract_untouched [OF assms(1) 2] by (rule untouched_trans)
  have u3: "untouched (below ?dir) d (remove_tree t ?dir d2)" using u2 remove_tree_untouched [OF assms(1)] by (rule untouched_trans)
  show "untouched (below ?dir) d d'" "dir = ?dir"
    using assms(3) u1 u2 u3 unfolding install_software_def Let_def dir 1 prod.case 2 by (auto split: if_splits)
qed

lemma kind_dir_short: "firmware_fpga_kind_dir k = Some dir \<Longrightarrow> length dir \<le> 8"
  by (cases k) (auto simp: firmware_fpga_kind_dir_def)

lemma store_untouched:
  assumes "tools_confined t" "firmware_fpga_kind_dir k = Some kind_dir" "shell_safe_name n"
    "store_firmware t staging kind_dir n d = (result, dir, d')"
  defines "P \<equiv> \<lambda>p. below staging p \<or> firmware_place p"
  shows "untouched P d d'" "result = DOWNLOAD_RESULT_SUCCESS \<Longrightarrow> dir = FIRMWARE_BASE_DIR @ ''/'' @ kind_dir @ ''/'' @ n"
proof -
  let ?base = "FIRMWARE_BASE_DIR @ ''/'' @ kind_dir" and ?dir = "FIRMWARE_BASE_DIR @ ''/'' @ kind_dir @ ''/'' @ n"
  have base: "take 255 ?base = ?base" and vd: "take 511 (?base @ ''/'' @ n) = ?dir"
    using kind_dir_short [OF assms(2)] safe_name_short [OF assms(3)] by simp_all
  have place: "P p" if "below ?dir p" for p using that assms(2,3) by (auto simp: P_def firmware_place_def)
  have rm: "untouched P x (remove_tree t staging x)" for x
    using remove_tree_untouched [OF assms(1)] by (rule untouched_mono) (simp add: P_def)
  obtain r1 d1 where 1: "create_directory_recursive ?base d = (r1, d1)" by (cases "create_directory_recursive ?base d")
  define d2 where "d2 = (if fs_has (dk_fs d1) ?dir then remove_tree t ?dir d1 else d1)"
  obtain ok d3 where 3: "sys_rename_dir staging ?dir d2 = (ok, d3)" by (cases "sys_rename_dir staging ?dir d2")
  have u1: "untouched P d d1" using 1 by (rule create_directory_untouched)
  have "untouched P d (remove_tree t ?dir d1)" using remove_tree_untouched [OF assms(1)] place by (rule untouched_mono [THEN untouched_trans [OF u1]])
  then have u2: "untouched P d d2" using u1 by (simp only: d2_def split: if_split) blast
  have "P p" if "below staging p" for p using that by (simp add: P_def)
  then have "untouched P d2 d3" using rename_dir_untouched [OF 3] place by (elim untouched_mono disjE) blast+
  then have u3: "untouched P d d3" using u2 untouched_trans by blast
  note u1 [THEN untouched_trans, OF rm] u3 [THEN untouched_trans, OF rm]
  then show "untouched P d d'" "result = DOWNLOAD_RESULT_SUCCESS \<Longrightarrow> dir = ?dir"
    using assms(4) u1 u3 unfolding store_firmware_def Let_def base 1 prod.case vd d2_def [symmetric] 3
    by (auto split: if_splits)
qed

lemma firmware_untouched:
  assumes c: "tools_confined t" and ok: "task_ok task" and run: "install_firmware t task path d = (result, dir, v, d')"
  defines "P \<equiv> \<lambda>p. below (FIRMWARE_STAGING_DIR @ ''/'' @ dt_version task) p \<or> firmware_place p"
  shows "untouched P d d'" "result = DOWNLOAD_RESULT_SUCCESS \<Longrightarrow> (\<forall>p. below dir p \<longrightarrow> firmware_place p) \<and> length dir \<le> 511"
proof -
  define st where "st = FIRMWARE_STAGING_DIR @ ''/'' @ dt_version task"
  have sd: "take 511 (FIRMWARE_STAGING_DIR @ ''/'' @ dt_version task) = st"
    using ok safe_name_short [of "dt_version task"] by (simp add: task_ok_def st_def)
  have rm: "untouched P x (remove_tree t st x)" for x
    using remove_tree_untouched [OF c] by (rule untouched_mono) (simp add: P_def st_def)
  obtain r1 d1 where 1: "create_directory_recursive st (remove_tree t st d) = (r1, d1)" by (cases "create_directory_recursive st (remove_tree t st d)")
  obtain r2 d2 where 2: "extract_tar_file t path st d1 = (r2, d2)" by (cases "extract_tar_file t path st d1")
  obtain r3 m where 3: "firmware_parse_metadata (fs_read (dk_fs d2)) (fs_stat t (dk_fs d2)) st = (r3, m)"
    by (cases "firmware_parse_metadata (fs_read (dk_fs d2)) (fs_stat t (dk_fs d2)) st")
  have u1: "untouched P d d1" using rm create_directory_untouched [OF 1] by (rule untouched_trans)
  have "untouched P d1 d2" using extract_untouched [OF c 2] by (rule untouched_mono) (simp add: P_def st_def)
  then have u2: "untouched P d d2" using u1 untouched_trans by blast
  then have u3: "untouched P d (remove_tree t st d2)" using rm untouched_trans by blast
  have safe: "shell_safe_name (firmware_version_of m (dt_version task))" using firmware_version_safe [OF ok parse_version_short [OF 3]] .
  have store: "untouched P d x" "y = DOWNLOAD_RESULT_SUCCESS \<Longrightarrow> (\<forall>p. below z p \<longrightarrow> firmware_place p) \<and> length z \<le> 511"
    if k: "firmware_fpga_kind_dir k = Some kd" and r: "store_firmware t st kd (firmware_version_of m (dt_version task)) d2 = (y, z, x)" for k kd x y z
  proof -
    note s = store_untouched [OF c k safe r]
    show "untouched P d x" using s(1) u2 untouched_trans unfolding P_def st_def by blast
    show "(\<forall>p. below z p \<longrightarrow> firmware_place p) \<and> length z \<le> 511" if "y = DOWNLOAD_RESULT_SUCCESS"
      using s(2) [OF that] k safe kind_dir_short [OF k] safe_name_short [OF safe] by (auto simp: firmware_place_def)
  qed
  show "untouched P d d'" "result = DOWNLOAD_RESULT_SUCCESS \<Longrightarrow> (\<forall>p. below dir p \<longrightarrow> firmware_place p) \<and> length dir \<le> 511"
    using run u1 u2 u3 store unfolding install_firmware_def Let_def sd 1 prod.case 2 3
    by (auto split: if_splits option.splits prod.splits)
qed

lemma download_untouched:
  assumes "tools_confined t" "task_ok task" "download_and_install t task d = (result, task', d')"
  shows "untouched (install_place task) d d'"
proof -
  obtain r d1 where f: "fetch_package t task d = (r, d1)" by (cases "fetch_package t task d")
  note u1 = fetch_untouched [OF assms(1,2) f]
  show ?thesis
  proof (cases r)
    case (Inl e)
    then show ?thesis using assms(3) f u1(1) by (simp add: download_and_install_def)
  next
    case (Inr a)
    then obtain path digest n where r: "r = Inr (path, digest, n)" by (cases a) auto
    define q where "q = (if dt_ver_type task = VERSION_TYPE_FIRMWARE then install_firmware t task path d1
       else case install_software t task path d1 of (result, dir, d) \<Rightarrow> (result, dir, dt_version task, d))"
    obtain res dir v d2 where q: "q = (res, dir, v, d2)" by (metis prod_cases4)
    have i: "untouched (install_place task) d1 d2 \<and> (res = DOWNLOAD_RESULT_SUCCESS \<longrightarrow> (\<forall>p. below dir p \<longrightarrow> install_place task p) \<and> length dir \<le> 511)"
    proof (cases "dt_ver_type task = VERSION_TYPE_FIRMWARE")
      case True
      then show ?thesis using firmware_untouched [OF assms(1,2), of path d1 res dir v d2] q
        by (auto simp: q_def install_place_def elim!: untouched_mono)
    next
      case False
      then have "install_software t task path d1 = (res, dir, d2)" using q by (auto simp: q_def split: prod.splits)
      note i = software_untouched [OF assms(1,2) this]
      have "untouched (install_place task) d1 d2" using i(1) False by (elim untouched_mono) (simp add: install_place_def)
      then show ?thesis using i(2) version_dir_plain(1) [of "dt_version task"] False assms(2) by (simp add: install_place_def plain_def task_ok_def)
    qed
    then have u2: "untouched (install_place task) d d2" using u1(1) untouched_trans by blast
    have m: "untouched (install_place task) d (snd (sys_unlink path d3)) \<and> untouched (install_place task) d d3"
      if "res = DOWNLOAD_RESULT_SUCCESS" "save_version_metadata dir x d2 = (y, d3)" for x y d3
    proof -
      have "untouched (install_place task) d2 d3"
        using save_metadata_untouched [OF that(2)] i that(1) by (auto elim!: untouched_mono)
      moreover have "untouched (install_place task) d3 (snd (sys_unlink path d3))"
        using unlink_untouched [of path d3] u1(2) [OF r] by (elim untouched_mono) simp
      ultimately show ?thesis using u2 untouched_trans by blast
    qed
    show ?thesis using assms(3) u2 m unfolding download_and_install_def f r prod.case sum.case q_def [symmetric] q
      by (auto simp: Let_def split: if_splits prod.splits)
  qed
qed

subsection \<open>What is installed was verified\<close>

text \<open>A directory holds a program, a file with its checksum and the metadata of the installation.\<close>

definition verified_in :: "'c tools \<Rightarrow> file_system \<Rightarrow> string \<Rightarrow> bool" where
  "verified_in t fs dir \<longleftrightarrow> (\<exists>n m content info c. (has_suffix ''.bin'' n \<or> CHR ''.'' \<notin> set n) \<and> has_suffix ''.txt'' m
     \<and> fs_read fs (dir @ ''/'' @ n) = Some content \<and> fs_read fs (dir @ ''/'' @ m) = Some info
     \<and> first_checksum (fgets_all 255 info) = Some c \<and> map tolower (sha256_hex t content) = map tolower c)"

text \<open>The names that a directory gives have at most 255 characters.\<close>

definition names_short :: "'c tools \<Rightarrow> bool" where
  "names_short t \<longleftrightarrow> (\<forall>dir xs. list_all (\<lambda>n. length n \<le> 255) (tl_order t dir xs))"

lemma bin_scan_result:
  assumes "bin_scan fs dir ns ex = (b, e)"
  shows "(b \<noteq> [] \<longrightarrow> (\<exists>n \<in> set ns. has_suffix ''.bin'' n \<and> b = take 511 (dir @ ''/'' @ n)))
     \<and> (e \<noteq> ex \<longrightarrow> (\<exists>n \<in> set ns. CHR ''.'' \<notin> set n \<and> e = take 511 (dir @ ''/'' @ n)))"
  using assms
proof (induction fs dir ns ex rule: bin_scan.induct)
  case (2 fs dir n ns ex)
  define path where "path = take 511 (dir @ ''/'' @ n)"
  have step: "bin_scan fs dir (n # ns) ex = (if n \<noteq> [] \<and> hd n = CHR ''.'' then bin_scan fs dir ns ex
      else if has_suffix ''.bin'' n then (path, ex)
      else if CHR ''.'' \<notin> set n \<and> runnable fs path then bin_scan fs dir ns path else bin_scan fs dir ns ex)"
    by (simp only: bin_scan.simps Let_def path_def)
  note IH = "2.IH" [folded path_def, OF refl]
  show ?case
  proof (cases "\<not> (n \<noteq> [] \<and> hd n = CHR ''.'') \<and> \<not> has_suffix ''.bin'' n \<and> CHR ''.'' \<notin> set n \<and> runnable fs path")
    case True
    then have "bin_scan fs dir ns path = (b, e)" using "2.prems" unfolding step by auto
    then show ?thesis using IH True by (cases "e = path") (auto simp: path_def)
  next
    case False
    then consider "bin_scan fs dir ns ex = (b, e)" "(n \<noteq> [] \<and> hd n = CHR ''.'') \<or> \<not> has_suffix ''.bin'' n" | "has_suffix ''.bin'' n" "b = path" "e = ex"
      using "2.prems" unfolding step by (auto split: if_splits)
    then show ?thesis using IH False by cases (auto simp: path_def)
  qed
qed simp

lemma verify_sound:
  assumes "verify_bin_file_checksum t fs dir = DOWNLOAD_RESULT_SUCCESS" "names_short t" "length dir \<le> 250"
  shows "verified_in t fs dir"
proof -
  obtain ns b e c a where v: "read_dir t fs dir = Some ns" "bin_scan fs dir ns [] = (b, e)" "b \<noteq> [] \<or> e \<noteq> []"
      "read_checksum_from_txt t fs dir = Some c" "calculate_sha256 t fs (if b \<noteq> [] then b else e) = Some a" "map tolower a = map tolower c"
    using assms(1) by (fastforce simp: verify_bin_file_checksum_def Let_def split: option.splits prod.splits if_splits)
  have short: "take 511 (dir @ ''/'' @ n) = dir @ ''/'' @ n" if "n \<in> set ns" for n
  proof -
    have "length n \<le> 255" using v(1) that assms(2) by (auto simp: read_dir_def names_short_def list_all_iff split: if_splits)
    then show ?thesis using assms(3) by simp
  qed
  obtain n where n: "n \<in> set ns" "has_suffix ''.bin'' n \<or> CHR ''.'' \<notin> set n" "(if b \<noteq> [] then b else e) = take 511 (dir @ ''/'' @ n)"
    using bin_scan_result [OF v(2)] v(3) by (cases "b = []") auto
  obtain m info where m: "find (has_suffix ''.txt'') ns = Some m" "fs_read fs (take 511 (dir @ ''/'' @ m)) = Some info"
      "first_checksum (fgets_all 255 info) = Some c"
    using v(1,4) by (auto simp: read_checksum_from_txt_def split: option.splits)
  then have "m \<in> set ns" "has_suffix ''.txt'' m" by (auto simp: find_Some_iff)
  then show ?thesis
    using n m v(5,6) short [OF n(1)] short [of m] unfolding verified_in_def calculate_sha256_def by fastforce
qed

lemma verified_kept:
  assumes "verified_in t fs dir" "\<And>n. n \<noteq> ''version.json'' \<Longrightarrow> fs_read fs' (dir' @ ''/'' @ n) = fs_read fs (dir @ ''/'' @ n)"
  shows "verified_in t fs' dir'"
proof -
  have "\<not> has_suffix ''.bin'' ''version.json''" "\<not> has_suffix ''.txt'' ''version.json''" by (simp_all add: has_suffix_def)
  moreover obtain n m content info c where v: "has_suffix ''.bin'' n \<or> CHR ''.'' \<notin> set n" "has_suffix ''.txt'' m"
      "fs_read fs (dir @ ''/'' @ n) = Some content" "fs_read fs (dir @ ''/'' @ m) = Some info"
      "first_checksum (fgets_all 255 info) = Some c" "map tolower (sha256_hex t content) = map tolower c"
    using assms(1) unfolding verified_in_def by blast
  ultimately have "n \<noteq> ''version.json''" "m \<noteq> ''version.json''" by auto
  then show ?thesis using v assms(2) unfolding verified_in_def by metis
qed

lemma moved_read:
  assumes "filter (below target) (map fst (fs_files fs)) = []" 
  shows "fs_read (fs_move_tree source target fs) (target @ ''/'' @ n) = fs_read fs (source @ ''/'' @ n)"
proof -
  have "map_of (map (\<lambda>(q, f). (if below source q then target @ drop (length source) q else q, f)) xs) (target @ ''/'' @ n) = map_of xs (source @ ''/'' @ n)"
    if "\<forall>q \<in> set (map fst xs). \<not> below target q" for xs :: "(string \<times> string \<times> bool) list"
    using that
  proof (induction xs)
    case (Cons x xs)
    obtain q f where x: "x = (q, f)" by (cases x)
    have "below source (source @ ''/'' @ n)" "below target (target @ ''/'' @ n)" by (simp_all add: below_def)
    moreover have "target @ drop (length source) q = target @ ''/'' @ n \<longleftrightarrow> q = source @ ''/'' @ n" if "below source q"
      using that by (rule below_cases) simp
    ultimately show ?case using Cons x by auto
  qed simp
  from this [of "fs_files fs"] show ?thesis using assms by (simp add: fs_move_tree_def fs_read_def Let_def filter_empty_conv)
qed

lemma store_verified:
  assumes "store_firmware t staging kind_dir n d = (DOWNLOAD_RESULT_SUCCESS, dir, d')" "tools_confined t" "verified_in t (dk_fs d) staging"
    "firmware_fpga_kind_dir k = Some kind_dir" "shell_safe_name n" "\<And>p. below staging p \<Longrightarrow> \<not> firmware_place p"
  shows "verified_in t (dk_fs d') dir"
proof -
  let ?base = "FIRMWARE_BASE_DIR @ ''/'' @ kind_dir" and ?dir = "FIRMWARE_BASE_DIR @ ''/'' @ kind_dir @ ''/'' @ n"
  have base: "take 255 ?base = ?base" and vd: "take 511 (?base @ ''/'' @ n) = ?dir"
    using kind_dir_short [OF assms(4)] safe_name_short [OF assms(5)] by simp_all
  obtain r1 d1 where 1: "create_directory_recursive ?base d = (r1, d1)" by (cases "create_directory_recursive ?base d")
  define d2 where "d2 = (if fs_has (dk_fs d1) ?dir then remove_tree t ?dir d1 else d1)"
  have r: "sys_rename_dir staging ?dir d2 = (True, d')" "dir = ?dir"
    using assms(1) unfolding store_firmware_def Let_def base 1 prod.case vd d2_def [symmetric] by (auto split: if_splits prod.splits)
  have "untouched firmware_place d d1" using 1 by (rule create_directory_untouched)
  moreover have "untouched firmware_place d1 d2"
  proof -
    have "untouched firmware_place d1 (remove_tree t ?dir d1)"
      using remove_tree_untouched [OF assms(2)] by (rule untouched_mono) (use assms(4,5) in \<open>unfold firmware_place_def, blast\<close>)
    then show ?thesis by (simp add: d2_def)
  qed
  ultimately have u: "untouched firmware_place d d2" by (rule untouched_trans)
  have "fs_read (dk_fs d2) (staging @ ''/'' @ x) = fs_read (dk_fs d) (staging @ ''/'' @ x)" for x
    using u assms(6) [of "staging @ ''/'' @ x"] below_child [of staging x] by (simp add: untouched_def)
  moreover have "fs_read (dk_fs d') (?dir @ ''/'' @ x) = fs_read (dk_fs d2) (staging @ ''/'' @ x)" for x
  proof -
    have f: "filter (below ?dir) (map fst (fs_files (dk_fs d2))) = []" "dk_fs d' = fs_move_tree staging ?dir (dk_fs d2)"
      using r(1) by (auto simp: sys_rename_dir_def disk_call_def Let_def dest: next_result_fs split: prod.splits if_splits)
    show ?thesis unfolding f(2) by (rule moved_read [OF f(1)])
  qed
  ultimately show ?thesis using assms(3) r(2) by (auto intro: verified_kept)
qed

lemma staging_apart: "below (FIRMWARE_STAGING_DIR @ ''/'' @ v) p \<Longrightarrow> \<not> firmware_place p"
proof
  assume b: "below (FIRMWARE_STAGING_DIR @ ''/'' @ v) p" and "firmware_place p"
  then obtain k kd n where k: "firmware_fpga_kind_dir k = Some kd" "below (FIRMWARE_BASE_DIR @ ''/'' @ kd @ ''/'' @ n) p"
    unfolding firmware_place_def by blast
  obtain r1 r2 where e: "p = (FIRMWARE_STAGING_DIR @ ''/'' @ v) @ r1" "p = (FIRMWARE_BASE_DIR @ ''/'' @ kd @ ''/'' @ n) @ r2"
    using b k(2) by (elim below_cases) blast
  have "p ! 21 = CHR ''.''" using e(1) by simp
  moreover have "kd \<noteq> [] \<and> hd kd \<noteq> CHR ''.''" using k(1) by (cases k) (auto simp: firmware_fpga_kind_dir_def)
  ultimately show False using e(2) by (cases kd) auto
qed

lemma firmware_verified:
  assumes c: "tools_confined t" and ns: "names_short t" and ok: "task_ok task"
    and run: "install_firmware t task path d = (DOWNLOAD_RESULT_SUCCESS, dir, v, d')"
  shows "verified_in t (dk_fs d') dir \<and> (\<exists>k kd. firmware_fpga_kind_dir k = Some kd \<and> shell_safe_name v \<and> length v < 40 \<and> dir = FIRMWARE_BASE_DIR @ ''/'' @ kd @ ''/'' @ v)"
proof -
  define st where "st = FIRMWARE_STAGING_DIR @ ''/'' @ dt_version task"
  have sd: "take 511 (FIRMWARE_STAGING_DIR @ ''/'' @ dt_version task) = st" "length st \<le> 250"
    using ok by (simp_all add: task_ok_def st_def)
  obtain r1 d1 where 1: "create_directory_recursive st (remove_tree t st d) = (r1, d1)" by (cases "create_directory_recursive st (remove_tree t st d)")
  obtain r2 d2 where 2: "extract_tar_file t path st d1 = (r2, d2)" by (cases "extract_tar_file t path st d1")
  obtain r3 m where 3: "firmware_parse_metadata (fs_read (dk_fs d2)) (fs_stat t (dk_fs d2)) st = (r3, m)"
    by (cases "firmware_parse_metadata (fs_read (dk_fs d2)) (fs_stat t (dk_fs d2)) st")
  let ?k = "firmware_fpga_kind (md_file_sub_type m)" and ?v = "firmware_version_of m (dt_version task)"
  obtain kd where s: "verify_bin_file_checksum t (dk_fs d2) st = DOWNLOAD_RESULT_SUCCESS" "firmware_fpga_kind_dir ?k = Some kd"
      "store_firmware t st kd ?v d2 = (DOWNLOAD_RESULT_SUCCESS, dir, d')" "v = ?v"
    using run unfolding install_firmware_def Let_def sd(1) 1 prod.case 2 3 by (auto split: if_splits option.splits prod.splits)
  have safe: "shell_safe_name ?v" using firmware_version_safe [OF ok parse_version_short [OF 3]] .
  have short: "length ?v < 40" by (auto simp: firmware_version_of_def)
  have "verified_in t (dk_fs d2) st" using verify_sound [OF s(1) ns sd(2)] .
  then have "verified_in t (dk_fs d') dir" using store_verified [OF s(3) c _ s(2) safe] staging_apart unfolding st_def by blast
  then show ?thesis using store_untouched(2) [OF c s(2) safe s(3)] s(2,4) safe short by auto
qed

lemma saved_metadata:
  assumes "save_version_metadata dir m d = (SUCCESS, d')" "length dir \<le> 511"
  shows "fs_read (dk_fs d') (dir @ ''/version.json'') \<noteq> None"
    "p \<noteq> dir @ ''/version.json'' \<Longrightarrow> fs_read (dk_fs d') p = fs_read (dk_fs d) p"
proof -
  let ?p = "dir @ ''/version.json''"
  have p: "take 543 ?p = ?p" using assms(2) by simp
  obtain d1 where c: "sys_create ?p d = (True, d1)" "d' = snd (sys_output ?p (metadata_json m) d1)"
    using assms(1) unfolding save_version_metadata_def Let_def p by (auto split: prod.splits if_splits)
  have "dk_fs d1 = fs_put ?p [] (dk_fs d)"
    using c(1) by (auto simp: sys_create_def disk_call_def dest: next_result_fs split: prod.splits if_splits)
  then show "fs_read (dk_fs d') ?p \<noteq> None" "p \<noteq> ?p \<Longrightarrow> fs_read (dk_fs d') p = fs_read (dk_fs d) p"
    unfolding c(2) sys_output_def by (auto dest!: next_result_fs split: prod.splits call_result.splits)
qed

lemma fetch_result:
  assumes "fetch_package t task d = (r, d')"
  shows "r \<noteq> Inl DOWNLOAD_RESULT_SUCCESS" "r = Inr (path, digest, n) \<Longrightarrow> 12 < length path \<and> path ! 12 = CHR ''d''"
  using assms by (auto simp: fetch_package_def Let_def split: if_splits prod.splits option.splits)

lemma software_verified:
  assumes "names_short t" "task_ok task" "install_software t task path d = (DOWNLOAD_RESULT_SUCCESS, dir, d')"
  shows "verified_in t (dk_fs d') dir" "dir = version_dir_of (dt_version task)"
proof -
  have dir: "take 511 (VERSION_BASE_DIR @ ''/'' @ dt_version task) = version_dir_of (dt_version task)"
    using version_dir_plain(3) [of "dt_version task"] assms(2) by (simp only: version_dir_of_def task_ok_def)
  then show e: "dir = version_dir_of (dt_version task)"
    using assms(3) by (auto simp: install_software_def Let_def split: if_splits prod.splits)
  have "length dir \<le> 250" using assms(2) by (simp add: e version_dir_of_def task_ok_def)
  moreover have "verify_bin_file_checksum t (dk_fs d') dir = DOWNLOAD_RESULT_SUCCESS"
    using assms(3) unfolding install_software_def Let_def dir e by (auto split: if_splits prod.splits)
  ultimately show "verified_in t (dk_fs d') dir" using verify_sound assms(1) by blast
qed

lemma mkdir_all_last: "mkdir_all (ps @ [p]) d = (True, d') \<Longrightarrow> fs_has (dk_fs d') p"
proof (induction ps arbitrary: d)
  case Nil
  then show ?case
    by (auto simp: sys_mkdir_def disk_call_def fs_has_def dest: next_result_fs split: if_splits prod.splits)
qed (auto split: prod.splits if_splits)

lemma created_directory:
  assumes "create_directory_recursive path d = (SUCCESS, d')" "path \<noteq> []" "last path \<noteq> CHR ''/''" "length path \<le> 511"
  shows "fs_has (dk_fs d') path"
  using assms by (auto simp: create_directory_recursive_def Let_def dest!: mkdir_all_last split: prod.splits if_splits)

text \<open>Programs as the laws describe them, on an archive of one program and a checksum that is written beside it; the
  digest is that of no SHA-256 but has its length.\<close>

definition archive_example :: "string \<Rightarrow> file_system \<Rightarrow> file_system" where
  "archive_example dir fs = fs\<lparr>fs_files := AList.update (dir @ ''/sum.txt'') (replicate 64 (CHR ''0'') @ [newline], False)
     (AList.update (dir @ ''/app'') (''program'', True) (fs_files fs))\<rparr>"

definition tools_example :: "string \<Rightarrow> unit tools" where
  "tools_example digest = \<lparr>
     tl_run = (\<lambda>argv d.
       if argv ! 0 = ''rm'' then (0, [], disk_step (fs_remove_tree (argv ! 2)) d)
       else if argv ! 0 = ''curl'' then (0, [], disk_step (fs_put (argv ! 8) ''archive'') d)
       else if argv ! 1 = ''-tzf'' then (0, ''app'' @ [newline] @ ''sum.txt'' @ [newline], d)
       else if argv ! 1 = ''-tvzf'' then (0, ''-rwx app'' @ [newline] @ ''-rw- sum.txt'' @ [newline], d)
       else (0, [], disk_step (archive_example (argv ! 4)) d)),
     tl_order = (\<lambda>dir names. filter (\<lambda>n. length n \<le> 255) names), tl_mtime = (\<lambda>fs p. 0), tl_dir_size = (\<lambda>fs p. 4096), tl_memory = True,
     tl_sha_init = (), tl_sha_update = (\<lambda>c b. c), tl_sha_final = (\<lambda>c. replicate 32 (of_nat (length digest)))\<rparr>"

definition task_example :: version_download_task where
  "task_example = \<lparr>dt_version = ''v1'', dt_file_path = [], dt_file_name = ''v1.tar.gz'', dt_file_time = [], dt_file_len = 7, dt_ver_type = 0,
     dt_ftp_server = ''10.0.0.1'', dt_ftp_port = 21,
     dt_req_header = \<lparr>ch_msg_id = 21, ch_msg_length = 0, ch_paau_id = 1, ch_bbu_id = 2, ch_port_num = 0, ch_serial_num = 5\<rparr>, dt_in_progress = True\<rparr>"

lemma task_example_ok: "task_ok task_example"
  by (simp add: task_ok_def task_example_def shell_safe_name_def name_char_def)

lemma filtered_map_of: "\<not> below dir p \<Longrightarrow> map_of (filter (\<lambda>(q, f). \<not> below dir q) xs) p = map_of xs p"
  by (induction xs) auto

lemma filtered_map_of_None: "below dir p \<Longrightarrow> map_of (filter (\<lambda>(q, f). \<not> below dir q) xs) p = None"
  by (induction xs) auto

lemma remove_tree_untouched_fs: "untouched (below path) d (disk_step (fs_remove_tree path) d)"
  by (simp add: untouched_def fs_remove_tree_def fs_read_def fs_link_def filtered_map_of)

lemma put_untouched: "untouched (\<lambda>p. p = path) d (disk_step (fs_put path c) d)"
  by (simp add: untouched_def fs_put_def fs_read_def fs_link_def update_conv')

lemma tools_example_ok: "tools_confined (tools_example digest)" "names_short (tools_example digest)"
proof -
  show "tools_confined (tools_example digest)"
    unfolding tools_confined_def
  proof (intro conjI allI impI)
    fix a dir d
    have "untouched (below dir) d (disk_step (archive_example dir) d)"
      by (auto simp: untouched_def archive_example_def fs_read_def fs_link_def update_conv' below_def)
    then show "untouched (below dir) d (snd (snd (tl_run (tools_example digest) (extract_argv a dir) d)))"
      by (simp add: tools_example_def extract_argv_def)
  qed (simp_all add: tools_example_def curl_argv_def remove_tree_untouched_fs put_untouched)
  show "names_short (tools_example digest)" by (simp add: names_short_def tools_example_def list_all_iff)
qed

lemma example_members: "verify_tar_members (tools_example g) a d = (SUCCESS, d)"
  by (simp add: verify_tar_members_def check_tar_member_types_def run_captured_def tools_example_def cstr_def strtok_lines_def
      shell_safe_tar_member_def control_char_def segments_ok.simps Let_def)

lemma example_extract: "extract_tar_file (tools_example g) a dir d = (SUCCESS, disk_step (archive_example dir) d)"
  unfolding extract_tar_file_def example_members by (simp add: run_captured_def extract_argv_def tools_example_def)

definition with_parents :: disk where
  "with_parents = restart (two_versions\<lparr>fs_files := fs_files two_versions @ [(''/opt/vendor/downloads/software/v1.tar.gz'', ''archive'', False)],
     fs_dirs := [''/opt'', ''/opt/vendor'', ''/opt/vendor/versions'', ''/opt/vendor/downloads'',
     ''/opt/vendor/downloads/software''] @ fs_dirs two_versions\<rparr>)"

lemma example_entries:
  "read_dir (tools_example g) (archive_example ''/opt/vendor/versions/v1'' (dk_fs with_parents)) ''/opt/vendor/versions/v1''
     = Some [''antenna_mgmt'', ''app'', ''sum.txt'']"
  by (simp add: read_dir_def dir_entries_def entry_name_def List.map_filter_def archive_example_def tools_example_def with_parents_def
      two_versions_def path_defs Let_def)

lemma example_sum: "first_checksum (fgets_all 255 (replicate 64 (CHR ''0'') @ [newline])) = Some (replicate 64 (CHR ''0''))"
proof -
  have "fgets_all 255 (replicate 64 (CHR ''0'') @ [newline]) = [replicate 64 (CHR ''0'') @ [newline]]"
    using fgets_all_lines [of 255 "[replicate 64 (CHR ''0'')]"] by simp
  moreover have "checksum_line (replicate 64 (CHR ''0'') @ [newline]) = Some (replicate 64 (CHR ''0''))"
    by (simp add: checksum_line_def cstr_def hex64_def digit_val_def numeral_eq_Suc Let_def)
  ultimately show ?thesis by simp
qed

lemma example_digest: "sha256_hex (tools_example []) c = replicate 64 (CHR ''0'')" "map tolower (sha256_hex (tools_example ''x'') c) \<noteq> map tolower (replicate 64 (CHR ''0''))"
proof -
  have h: "hex_byte 0 = ''00''" "hex_byte 1 = ''01''" by (simp_all add: hex_byte_def hex_digit_def)
  have r: "replicate 32 b = b # replicate 31 b" for b :: u8 by (simp add: numeral_eq_Suc)
  have "concat (replicate 32 ''00'') = replicate 64 (CHR ''0'')" by (simp add: numeral_eq_Suc)
  then show "sha256_hex (tools_example []) c = replicate 64 (CHR ''0'')" by (simp add: sha256_hex_def tools_example_def h)
  have z: "replicate 64 (CHR ''0'') = CHR ''0'' # CHR ''0'' # replicate 62 (CHR ''0'')" by (simp add: numeral_eq_Suc)
  have "sha256_hex (tools_example ''x'') c = CHR ''0'' # CHR ''1'' # concat (map hex_byte (replicate 31 1))"
    by (simp add: sha256_hex_def tools_example_def h r)
  then show "map tolower (sha256_hex (tools_example ''x'') c) \<noteq> map tolower (replicate 64 (CHR ''0''))" by (simp add: z tolower_def)
qed

lemma example_verify:
  "verify_bin_file_checksum (tools_example g) (archive_example ''/opt/vendor/versions/v1'' (dk_fs with_parents)) ''/opt/vendor/versions/v1''
     = (if map tolower (sha256_hex (tools_example g) ''program'') \<noteq> map tolower (replicate 64 (CHR ''0'')) then DOWNLOAD_RESULT_CHECKSUM else DOWNLOAD_RESULT_SUCCESS)"
proof -
  let ?fs = "archive_example ''/opt/vendor/versions/v1'' (dk_fs with_parents)"
  have f: "fs_read ?fs ''/opt/vendor/versions/v1/app'' = Some ''program''" "fs_read ?fs ''/opt/vendor/versions/v1/sum.txt'' = Some (replicate 64 (CHR ''0'') @ [newline])"
    by (simp_all add: archive_example_def fs_read_def update_conv' with_parents_def)
  have b: "bin_scan ?fs ''/opt/vendor/versions/v1'' [''antenna_mgmt'', ''app'', ''sum.txt''] [] = ([], ''/opt/vendor/versions/v1/app'')"
    by (simp add: has_suffix_def runnable_def archive_example_def update_conv' with_parents_def two_versions_def Let_def)
  have c: "read_checksum_from_txt (tools_example g) ?fs ''/opt/vendor/versions/v1'' = Some (replicate 64 (CHR ''0''))"
    using f(2) example_sum by (simp add: read_checksum_from_txt_def example_entries has_suffix_def)
  show ?thesis unfolding verify_bin_file_checksum_def example_entries b c option.case prod.case Let_def calculate_sha256_def using f(1) by simp
qed

lemma example_dirs:
  assumes "dk_fs d = dk_fs with_parents" "dk_script d = []"
  shows "create_directory_recursive ''/opt/vendor/versions/v1'' d = (SUCCESS, d)" "create_directory_recursive ''/opt/vendor/downloads/software'' d = (SUCCESS, d)"
proof -
  have "fs_has (dk_fs d) p" if "p \<in> set (fs_dirs (dk_fs with_parents))" for p using assms(1) that by (simp add: fs_has_def)
  then have "sys_mkdir p d = (True, d)" if "p \<in> set (fs_dirs (dk_fs with_parents))" for p using that assms(2) by (simp add: sys_mkdir_def)
  then show "create_directory_recursive ''/opt/vendor/versions/v1'' d = (SUCCESS, d)" "create_directory_recursive ''/opt/vendor/downloads/software'' d = (SUCCESS, d)"
    by (simp_all add: create_directory_recursive_def with_parents_def two_versions_def upt_conv_Cons Let_def)
qed

lemma example_install:
  assumes "dk_fs d = dk_fs with_parents" "dk_script d = []"
  shows "install_software (tools_example g) task_example path d =
    (if map tolower (sha256_hex (tools_example g) ''program'') \<noteq> map tolower (replicate 64 (CHR ''0''))
     then (DOWNLOAD_RESULT_CHECKSUM, ''/opt/vendor/versions/v1'', remove_tree (tools_example g) ''/opt/vendor/versions/v1'' (disk_step (archive_example ''/opt/vendor/versions/v1'') d))
     else (DOWNLOAD_RESULT_SUCCESS, ''/opt/vendor/versions/v1'', disk_step (archive_example ''/opt/vendor/versions/v1'') d))"
proof -
  have v: "take 511 (VERSION_BASE_DIR @ ''/'' @ dt_version task_example) = ''/opt/vendor/versions/v1''" by (simp add: task_example_def)
  show ?thesis
    unfolding install_software_def Let_def v example_dirs(1) [OF assms] prod.case example_extract disk_step_simps assms(1) example_verify by simp
qed

lemma example_curl: "tl_run (tools_example g) (curl_argv file url) d = (0, [], disk_step (fs_put file ''archive'') d)"
  by (simp add: tools_example_def curl_argv_def)

lemma example_installed: "fst (download_and_install (tools_example []) task_example with_parents) = DOWNLOAD_RESULT_SUCCESS"
proof -
  let ?path = "''/opt/vendor/downloads/software/v1.tar.gz''"
  let ?d = "disk_step (fs_put ?path ''archive'') with_parents"
  have d: "dk_fs ?d = dk_fs with_parents" "dk_script ?d = []" by (simp_all add: with_parents_def fs_put_def two_versions_def)
  have s: "dk_script with_parents = []" by (simp add: with_parents_def)
  have "fs_read (dk_fs ?d) ?path = Some ''archive''" by simp
  then have f: "fetch_package (tools_example []) task_example with_parents = (Inr (?path, sha256_hex (tools_example []) ''archive'', 7), ?d)"
    by (simp add: fetch_package_def task_example_def example_dirs(2) [OF refl s] ftp_download_file_with_curl_def numeral_3_eq_3 run_captured_def
        example_curl fs_stat_def calculate_sha256_def Let_def)
  have "dt_ver_type task_example \<noteq> VERSION_TYPE_FIRMWARE" by (simp add: task_example_def)
  moreover have "fst (save_version_metadata dir m (disk_step (archive_example dir) ?d)) = SUCCESS" for dir m
    using s by (simp add: save_version_metadata_def sys_create_def disk_call_def Let_def)
  ultimately show ?thesis
    unfolding download_and_install_def f prod.case sum.case
    by (auto simp: example_install [OF d] example_digest(1) Let_def split: prod.split) (metis fst_conv)
qed

lemma tools_example_laws:
  "below path p \<Longrightarrow> fs_read (dk_fs (snd (snd (tl_run (tools_example g) [''rm'', ''-rf'', path] d)))) p = None"
  "fs_has (dk_fs d) dir \<Longrightarrow> fs_has (dk_fs (snd (snd (tl_run (tools_example g) (extract_argv a dir) d)))) dir"
  by (simp_all add: tools_example_def extract_argv_def fs_remove_tree_def fs_read_def filtered_map_of_None archive_example_def fs_has_def update_conv')

subsection \<open>Properties\<close>

text \<open>C11. A download writes only where it belongs. With programs that keep to their arguments, a download of an accepted
  request changes no file and no link but the archive it fetches and what lies below the directory of its
  version, for firmware that of its kind or the staging area. The link to the running version stays, and so
  does the record of a trial unless the version has the name of its directory.\<close>

theorem download_confined:
  assumes "tools_confined t" "task_ok task" "download_and_install t task d = (result, task', d')"
  shows "(\<forall>p. \<not> install_place task p \<longrightarrow> fs_read (dk_fs d') p = fs_read (dk_fs d) p \<and> fs_link (dk_fs d') p = fs_link (dk_fs d) p)
    \<and> current_of (dk_fs d') = current_of (dk_fs d)
    \<and> (dt_version task \<noteq> ''.rollback'' \<longrightarrow> trial_of (dk_fs d') = trial_of (dk_fs d))"
proof -
  note u = download_untouched [OF assms]
  have c: "\<not> install_place task VERSION_CURRENT_LINK"
    by (auto simp: install_place_def firmware_place_def below_def path_defs version_dir_of_def)
  have "\<not> install_place task VERSION_TRIAL_FILE" if "dt_version task \<noteq> ''.rollback''"
  proof
    assume "install_place task VERSION_TRIAL_FILE"
    then have "below (version_dir_of (dt_version task)) VERSION_TRIAL_FILE"
      by (auto simp: install_place_def firmware_place_def below_def path_defs split: if_splits)
    then obtain r where r: "VERSION_TRIAL_FILE = version_dir_of (dt_version task) @ r" "r = [] \<or> (\<exists>x. r = ''/'' @ x)" by (rule below_cases)
    have v: "CHR ''/'' \<notin> set (dt_version task)" using assms(2) safe_name_no_slash by (simp add: task_ok_def)
    have e: "dt_version task @ r = ''.rollback'' @ ''/trial''" using r(1) by (simp add: path_defs version_dir_of_def)
    then have "r \<noteq> []" using v by auto
    then obtain x where "r = ''/'' @ x" using r(2) by blast
    then have "takeWhile (\<lambda>c. c \<noteq> CHR ''/'') (dt_version task @ r) = dt_version task" using v by (subst takeWhile_append2) auto
    then show False using e that by simp
  qed
  then show ?thesis using u c by (auto simp: untouched_def current_of_def trial_of_def)
qed

theorem download_confined_witness:
  "current_of (dk_fs (snd (snd (download_and_install (tools_example []) task_example with_parents)))) = Some ''/opt/vendor/versions/v1''"
proof -
  obtain r task' d' where e: "download_and_install (tools_example []) task_example with_parents = (r, task', d')" by (metis prod_cases3)
  then show ?thesis using download_confined [OF tools_example_ok(1) task_example_ok e]
    by (simp add: current_of_def with_parents_def two_versions_def fs_link_def)
qed

text \<open>C12. What a download reports as installed was verified: the directory of the version, for firmware that of its kind,
  holds a program whose digest equals the checksum in a text file beside it, and the metadata that an
  activation looks for.\<close>

theorem installed_is_verified:
  assumes "tools_confined t" "names_short t" "task_ok task" "download_and_install t task d = (DOWNLOAD_RESULT_SUCCESS, task', d')"
  shows "\<exists>dir. verified_in t (dk_fs d') dir \<and> has_metadata (dk_fs d') dir
     \<and> (if dt_ver_type task = VERSION_TYPE_FIRMWARE
        then \<exists>k kd. firmware_fpga_kind_dir k = Some kd \<and> shell_safe_name (dt_version task') \<and> dir = FIRMWARE_BASE_DIR @ ''/'' @ kd @ ''/'' @ dt_version task'
        else dir = version_dir_of (dt_version task))"
proof -
  obtain path digest n d1 where f: "fetch_package t task d = (Inr (path, digest, n), d1)"
    using assms(4) fetch_result(1) [of t task d] by (auto simp: download_and_install_def split: prod.splits sum.splits)
  define q where "q = (if dt_ver_type task = VERSION_TYPE_FIRMWARE then install_firmware t task path d1
     else case install_software t task path d1 of (result, dir, d) \<Rightarrow> (result, dir, dt_version task, d))"
  obtain dir v d2 m d3 where q: "q = (DOWNLOAD_RESULT_SUCCESS, dir, v, d2)" "save_version_metadata dir m d2 = (SUCCESS, d3)"
      "d' = snd (sys_unlink path d3)" "dt_version task' = take 39 v"
    using assms(4) unfolding download_and_install_def f prod.case sum.case q_def [symmetric] by (auto simp: Let_def split: prod.splits if_splits)
  let ?fw = "dt_ver_type task = VERSION_TYPE_FIRMWARE"
  have i: "verified_in t (dk_fs d2) dir \<and> length dir \<le> 250 \<and> dir ! 12 \<noteq> CHR ''d'' \<and> 12 < length dir \<and> (if ?fw
      then \<exists>k kd. firmware_fpga_kind_dir k = Some kd \<and> shell_safe_name (dt_version task') \<and> dir = FIRMWARE_BASE_DIR @ ''/'' @ kd @ ''/'' @ dt_version task'
      else dir = version_dir_of (dt_version task))"
  proof (cases ?fw)
    case True
    then obtain k kd where v: "verified_in t (dk_fs d2) dir" "firmware_fpga_kind_dir k = Some kd" "shell_safe_name v" "length v < 40"
        "dir = FIRMWARE_BASE_DIR @ ''/'' @ kd @ ''/'' @ v"
      using firmware_verified [OF assms(1-3), of path d1 dir v d2] q(1) by (auto simp: q_def)
    then have "length dir \<le> 250" "dir ! 12 \<noteq> CHR ''d''" "12 < length dir" using kind_dir_short [OF v(2)] by simp_all
    then show ?thesis using v True q(4) by auto
  next
    case False
    then have "install_software t task path d1 = (DOWNLOAD_RESULT_SUCCESS, dir, d2)" using q(1) by (auto simp: q_def split: prod.splits)
    note v = software_verified [OF assms(2,3) this]
    have "length dir \<le> 250" "dir ! 12 \<noteq> CHR ''d''" "12 < length dir" using assms(3) by (simp_all add: v(2) version_dir_of_def task_ok_def)
    then show ?thesis using v False by simp
  qed
  have ne: "path \<noteq> dir @ x" for x using i fetch_result(2) [OF f refl] by (metis nth_append)
  have "length dir \<le> 511" using i by simp
  note s = saved_metadata [OF q(2) this]
  have r: "fs_read (dk_fs d') (dir @ x) = fs_read (dk_fs d3) (dir @ x)" for x
    using unlink_untouched [of path d3] ne [of x] by (simp add: q(3) untouched_def)
  have "fs_read (dk_fs d') (dir @ ''/'' @ x) = fs_read (dk_fs d2) (dir @ ''/'' @ x)" if "x \<noteq> ''version.json''" for x
    using r [of "''/'' @ x"] s(2) [of "dir @ ''/'' @ x"] that by simp
  then have "verified_in t (dk_fs d') dir" by (rule verified_kept [OF conjunct1 [OF i]])
  moreover have "has_metadata (dk_fs d') dir" unfolding has_metadata_def r using s(1) by simp
  moreover note i [THEN conjunct2, THEN conjunct2, THEN conjunct2, THEN conjunct2]
  ultimately show ?thesis by (intro exI [of _ dir] conjI)
qed

theorem installed_is_verified_witness:
  "\<exists>dir. verified_in (tools_example []) (dk_fs (snd (snd (download_and_install (tools_example []) task_example with_parents)))) dir"
proof -
  obtain task' d' where e: "download_and_install (tools_example []) task_example with_parents = (DOWNLOAD_RESULT_SUCCESS, task', d')"
    using example_installed by (metis prod.collapse)
  then show ?thesis using installed_is_verified [OF tools_example_ok task_example_ok e] by auto
qed

text \<open>A download that does not verify erases the version of the same name, whatever was there before: its directory is
  removed although it may be that of the running version; under the name of the directory of the trials it
  is the record of a trial that is lost. Of the programs it is used that \<open>rm -rf\<close> removes what is below its path
  and that tar leaves the directory where it is.\<close>

theorem corrupt_download_erases:
  assumes "tools_confined t"
    and rm: "\<And>path d p. below path p \<Longrightarrow> fs_read (dk_fs (snd (snd (tl_run t [''rm'', ''-rf'', path] d)))) p = None"
    and tar: "\<And>a dir d. fs_has (dk_fs d) dir \<Longrightarrow> fs_has (dk_fs (snd (snd (tl_run t (extract_argv a dir) d)))) dir"
    and ok: "task_ok task" and run: "install_software t task path d = (DOWNLOAD_RESULT_CHECKSUM, dir, d')"
  shows "(\<forall>p. below (version_dir_of (dt_version task)) p \<longrightarrow> fs_read (dk_fs d') p = None)
    \<and> (current_of (dk_fs d) = Some dir \<longrightarrow> current_of (dk_fs d') = Some dir \<and> fs_read (dk_fs d') (dir @ ''/antenna_mgmt'') = None)
    \<and> (dt_version task = ''.rollback'' \<longrightarrow> trial_of (dk_fs d') = None)"
proof -
  let ?dir = "version_dir_of (dt_version task)"
  have td: "take 511 (VERSION_BASE_DIR @ ''/'' @ dt_version task) = ?dir"
    using version_dir_plain(3) [of "dt_version task"] ok by (simp only: version_dir_of_def task_ok_def)
  note u = software_untouched [OF assms(1) ok run]
  obtain d1 d2 where s: "create_directory_recursive ?dir d = (SUCCESS, d1)" "extract_tar_file t path ?dir d1 = (SUCCESS, d2)"
      "d' = remove_tree t ?dir d2"
    using run unfolding install_software_def Let_def td by (auto split: if_splits prod.splits)
  have v: "CHR ''/'' \<notin> set (dt_version task)" "dt_version task \<noteq> []" using ok safe_name_no_slash by (auto simp: task_ok_def)
  then have "last (dt_version task) \<noteq> CHR ''/''" by (metis last_in_set)
  then have "last ?dir \<noteq> CHR ''/''" "length ?dir \<le> 511" "?dir \<noteq> []"
    using ok v(2) by (auto simp: version_dir_of_def task_ok_def)
  then have "fs_has (dk_fs d1) ?dir" using created_directory [OF s(1)] by blast
  moreover have "d2 = snd (snd (tl_run t (extract_argv path ?dir) d1))"
    using s(2) verify_members_sound(1) [OF assms(1), of path d1]
    by (auto simp: extract_tar_file_def run_captured_def split: prod.splits if_splits)
  ultimately have "fs_has (dk_fs d2) ?dir" using tar by simp
  then have gone: "fs_read (dk_fs d') p = None" if "below ?dir p" for p
    using rm [OF that, of d2] by (auto simp: s(3) remove_tree_def run_captured_def split: prod.splits)
  have "current_of (dk_fs d') = current_of (dk_fs d)"
    using u(1) by (simp add: untouched_def current_of_def below_def path_defs version_dir_of_def)
  moreover have "below ?dir (?dir @ ''/antenna_mgmt'')" by (simp add: below_def)
  moreover have "below ?dir VERSION_TRIAL_FILE" if "dt_version task = ''.rollback''"
    using that by (simp add: below_def version_dir_of_def path_defs)
  ultimately show ?thesis using gone u(2) by (auto simp: trial_of_def)
qed

theorem corrupt_download_erases_witness:
  "fs_read (dk_fs with_parents) ''/opt/vendor/versions/v1/antenna_mgmt'' = Some ''program''
   \<and> (let d' = snd (snd (install_software (tools_example ''x'') task_example ''/a'' with_parents))
      in current_of (dk_fs d') = Some ''/opt/vendor/versions/v1'' \<and> fs_read (dk_fs d') ''/opt/vendor/versions/v1/antenna_mgmt'' = None)"
proof -
  have "current_of (dk_fs with_parents) = Some ''/opt/vendor/versions/v1''" "fs_read (dk_fs with_parents) ''/opt/vendor/versions/v1/antenna_mgmt'' = Some ''program''"
    by (simp_all add: with_parents_def two_versions_def current_of_def fs_link_def fs_read_def)
  moreover have "below (version_dir_of (dt_version task_example)) ''/opt/vendor/versions/v1/antenna_mgmt''"
    by (simp add: task_example_def version_dir_of_def below_def)
  moreover obtain d' where e: "install_software (tools_example ''x'') task_example ''/a'' with_parents = (DOWNLOAD_RESULT_CHECKSUM, ''/opt/vendor/versions/v1'', d')"
    using example_install [OF refl, of "''x''" "''/a''"] example_digest(2) by (simp only: with_parents_def restart_simps) simp
  ultimately show ?thesis
    using corrupt_download_erases [OF tools_example_ok(1) tools_example_laws task_example_ok e] by simp
qed

end
