(* ===== verification/VersionRequests.thy ===== *)
theory VersionRequests
  imports VersionInstall FpgaInjector InfoElements
begin

text \<open>
  The interface of the version manager, from version_manager.c, with its handlers in msg_handler.c: the start of the
  module, the requests of the baseband unit to download and to activate a version, the queries, and the
  file with the metadata of a version.
\<close>

subsection \<open>The metadata file\<close>

text \<open>\<open>sscanf\<close> with the formats that are used here: white space in the format skips any, a string stops at a quote and
  takes at least one character, a number has at least one digit.\<close>

definition skip_space :: "string \<Rightarrow> string" where
  "skip_space s = dropWhile isspace s"

definition scan_literal :: "string \<Rightarrow> string \<Rightarrow> string option" where
  "scan_literal lit s = (if take (length lit) s = lit then Some (drop (length lit) s) else None)"

definition scan_string :: "string \<Rightarrow> nat \<Rightarrow> string \<Rightarrow> string option" where
  "scan_string key n line = do {
     r \<leftarrow> scan_literal (''\"'' @ key @ ''\":'') (skip_space line);
     r \<leftarrow> scan_literal ''\"'' (skip_space r);
     let v = takeWhile (\<lambda>c. c \<noteq> CHR 34) (take n r);
     if v = [] then None else Some v }"

definition scan_number :: "string \<Rightarrow> string \<Rightarrow> u64 option" where
  "scan_number key line = do {
     r \<leftarrow> scan_literal (''\"'' @ key @ ''\":'') (skip_space line);
     let u = (let r = skip_space r in if r \<noteq> [] \<and> (hd r = CHR ''-'' \<or> hd r = CHR ''+'') then tl r else r);
     if u \<noteq> [] \<and> digit_val (hd u) < 10 then Some (strtoul_base 10 r) else None }"

definition set_found :: "('a \<Rightarrow> version_metadata \<Rightarrow> version_metadata) \<Rightarrow> 'a option \<Rightarrow> version_metadata \<Rightarrow> version_metadata" where
  "set_found f v m = (case v of Some v \<Rightarrow> f v m | None \<Rightarrow> m)"

definition json_line :: "version_metadata \<Rightarrow> string \<Rightarrow> version_metadata" where
  "json_line m line =
     (if strstr ''\"version\"'' line \<noteq> None then set_found (\<lambda>v. vm_version_update (\<lambda>_. v)) (scan_string ''version'' 39 line) m
      else if strstr ''\"build_time\"'' line \<noteq> None then set_found (\<lambda>v. vm_build_time_update (\<lambda>_. v)) (scan_string ''build_time'' 19 line) m
      else if strstr ''\"checksum\"'' line \<noteq> None then set_found (\<lambda>v. vm_checksum_update (\<lambda>_. v)) (scan_string ''checksum'' 64 line) m
      else if strstr ''\"file_size\"'' line \<noteq> None then set_found (\<lambda>v. vm_file_size_update (\<lambda>_. ucast v)) (scan_number ''file_size'' line) m
      else if strstr ''\"ver_type\"'' line \<noteq> None then set_found (\<lambda>v. vm_ver_type_update (\<lambda>_. ucast v)) (scan_number ''ver_type'' line) m
      else if strstr ''\"install_path\"'' line \<noteq> None then set_found (\<lambda>v. vm_install_path_update (\<lambda>_. v)) (scan_string ''install_path'' 255 line) m
      else m)"

text \<open>The trimming keeps the first character behind the leading blanks.\<close>

definition trim_blanks :: "string \<Rightarrow> string" where
  "trim_blanks s =
     (let blank = (\<lambda>c. c = CHR '' '' \<or> ch c = 9); s = dropWhile blank s
      in if s = [] then [] else hd s # rev (dropWhile blank (rev (tl s))))"

definition txt_line :: "version_metadata \<Rightarrow> string \<Rightarrow> version_metadata" where
  "txt_line m line =
     (if line = [] \<or> hd line = CHR ''#'' then m
      else if CHR ''='' \<notin> set line then m
      else let key = trim_blanks (takeWhile (\<lambda>c. c \<noteq> CHR ''='') line); value = trim_blanks (tl (dropWhile (\<lambda>c. c \<noteq> CHR ''='') line))
           in if key = ''version'' then m\<lparr>vm_version := take 39 value\<rparr>
              else if key = ''sha256'' then m\<lparr>vm_checksum := take 64 value\<rparr>
              else m)"

definition version_metadata_zero :: version_metadata where
  "version_metadata_zero = \<lparr>vm_version = [], vm_build_time = [], vm_checksum = [], vm_file_size = 0, vm_ver_type = 0, vm_install_path = []\<rparr>"

definition last_segment :: "string \<Rightarrow> string" where
  "last_segment path = rev (takeWhile (\<lambda>c. c \<noteq> CHR ''/'') (rev path))"

definition load_version_metadata :: "file_system \<Rightarrow> string \<Rightarrow> version_metadata option" where
  "load_version_metadata fs dir =
     (let path = (if fs_read fs (take 543 (dir @ ''/metadata.txt'')) \<noteq> None then take 543 (dir @ ''/metadata.txt'') else take 543 (dir @ ''/version.json''))
      in case fs_read fs path of
           None \<Rightarrow> None
         | Some content \<Rightarrow>
             let is_txt_format = (strstr ''metadata.txt'' path \<noteq> None);
                 m = foldl (\<lambda>m line. let line = takeWhile (\<lambda>c. ch c \<noteq> 13 \<and> c \<noteq> newline) (cstr line)
                                     in if is_txt_format then txt_line m line else json_line m line)
                       version_metadata_zero (fgets_all 511 content)
             in Some (if vm_version m = [] then m\<lparr>vm_version := take 39 (last_segment dir)\<rparr> else m))"

subsection \<open>Requests to download\<close>

definition read_text :: "bytes \<Rightarrow> nat \<Rightarrow> nat \<Rightarrow> string option" where
  "read_text buf i n = do { bs \<leftarrow> mem_read buf i n; Some (cstr (map (\<lambda>b. char_of (unat b)) bs)) }"

record ie_version_download_req =
  dr_ver_type :: u8
  dr_result :: u32
  dr_file_path :: string
  dr_file_name :: string
  dr_file_len :: u32
  dr_file_time :: string
  dr_file_ver :: string

definition read_download_req :: "bytes \<Rightarrow> ie_version_download_req option" where
  "read_download_req buf = do {
     ver_type \<leftarrow> arr_get buf 4;
     result \<leftarrow> read_le32 buf 5;
     file_path \<leftarrow> read_text buf 9 200;
     file_name \<leftarrow> read_text buf 209 16;
     file_len \<leftarrow> read_le32 buf 225;
     file_time \<leftarrow> read_text buf 229 20;
     file_ver \<leftarrow> read_text buf 249 40;
     Some \<lparr>dr_ver_type = ver_type, dr_result = result, dr_file_path = file_path, dr_file_name = file_name, dr_file_len = file_len,
       dr_file_time = file_time, dr_file_ver = file_ver\<rparr> }"

definition version_from_name :: "string \<Rightarrow> string" where
  "version_from_name name =
     (case strstr ''.tar.gz'' name of
        Some r \<Rightarrow> let len = length name - length r in if len < 40 then take len name else take 39 name
      | None \<Rightarrow> take 39 name)"

definition download_task_of :: "ie_version_download_req \<Rightarrow> version_download_task" where
  "download_task_of ie =
     \<lparr>dt_version = (if dr_file_ver ie \<noteq> [] then take 39 (dr_file_ver ie) else version_from_name (dr_file_name ie)),
      dt_file_path = take 199 (dr_file_path ie), dt_file_name = take 15 (dr_file_name ie), dt_file_time = take 19 (dr_file_time ie),
      dt_file_len = dr_file_len ie, dt_ver_type = dr_ver_type ie, dt_ftp_server = [], dt_ftp_port = 0,
      dt_req_header = \<lparr>ch_msg_id = 0, ch_msg_length = 0, ch_paau_id = 0, ch_bbu_id = 0, ch_port_num = 0, ch_serial_num = 0\<rparr>,
      dt_in_progress = True\<rparr>"

abbreviation (input) DOWNLOAD_ACK_ACCEPT :: u32 where "DOWNLOAD_ACK_ACCEPT \<equiv> 0"
abbreviation (input) DOWNLOAD_ACK_REJECT_BUSY :: u32 where "DOWNLOAD_ACK_REJECT_BUSY \<equiv> 1"
abbreviation (input) MAX_IMAGE_BYTES :: u32 where "MAX_IMAGE_BYTES \<equiv> 256 * 1024 * 1024"

definition version_handle_download_request :: "(string \<times> string) list \<Rightarrow> string \<Rightarrow> bool \<Rightarrow> bool \<Rightarrow> pool \<Rightarrow> cpri_message
    \<Rightarrow> version_download_task \<times> port \<Rightarrow> (int \<times> version_download_task \<times> port) option" where
  "version_handle_download_request items bbu_ip memory thread_ok pool msg st =
     (case st of (g_download_task, p) \<Rightarrow>
        if cm_payload msg = None then Some (ERROR_INVALID_PARAM, st)
        else if cm_payload_len msg < 289 then Some (ERROR_INVALID_PARAM, st)
        else do {
          ie_req \<leftarrow> read_download_req (message_bytes pool msg);
          let h = cm_header msg;
          let ver_type = dr_ver_type ie_req;
          if dt_in_progress g_download_task
          then do { (ret, p) \<leftarrow> send_version_download_ack memory h ver_type DOWNLOAD_ACK_REJECT_BUSY p; Some (ERROR_GENERAL, g_download_task, p) }
          else do {
            let task = download_task_of ie_req;
            let idle = task\<lparr>dt_in_progress := False\<rparr>;
            if \<not> shell_safe_name (dt_version task) \<or> \<not> shell_safe_name (dt_file_name task)
               \<or> (dt_file_path task \<noteq> [] \<and> \<not> shell_safe_relpath (dt_file_path task))
            then do { (ret, p) \<leftarrow> send_version_download_result memory h ver_type DOWNLOAD_RESULT_OTHER p; Some (ERROR_INVALID_PARAM, idle, p) }
            else if dt_file_len task > MAX_IMAGE_BYTES
            then do { (ret, p) \<leftarrow> send_version_download_result memory h ver_type DOWNLOAD_RESULT_TOO_LARGE p; Some (ERROR_INVALID_PARAM, idle, p) }
            else do {
              let server = (case config_get_string items ''FTP_SERVER'' (Some bbu_ip) of Some s \<Rightarrow> s | None \<Rightarrow> bbu_ip);
              let task = task\<lparr>dt_ftp_server := take 63 server, dt_ftp_port := of_int (config_get_int items ''FTP_PORT'' 21), dt_req_header := h\<rparr>;
              (ret, p) \<leftarrow> send_version_download_ack memory h ver_type DOWNLOAD_ACK_ACCEPT p;
              if ret \<noteq> SUCCESS then Some (ret, task\<lparr>dt_in_progress := False\<rparr>, p)
              else if \<not> thread_ok
              then do {
                (ret, p) \<leftarrow> send_version_download_result memory h ver_type DOWNLOAD_RESULT_OTHER p;
                Some (ERROR_GENERAL, task\<lparr>dt_in_progress := False\<rparr>, p) }
              else Some (SUCCESS, task, p) } } })"

definition handle_version_download_req :: "(string \<times> string) list \<Rightarrow> string \<Rightarrow> bool \<Rightarrow> bool \<Rightarrow> pool \<Rightarrow> cpri_message
    \<Rightarrow> version_download_task \<times> port \<Rightarrow> (int \<times> version_download_task \<times> port) option" where
  "handle_version_download_req = version_handle_download_request"

text \<open>At the end a running download is not waited for: the flag only keeps its thread from sending the result.\<close>

definition version_manager_destroy :: "bool \<Rightarrow> bool" where
  "version_manager_destroy g_shutting_down = True"

subsection \<open>Requests to activate\<close>

text \<open>The state: the disk, \<open>g_current_version\<close>, the injection task, the connection, and whether a restart of the service is
  scheduled; \<open>fork_ok\<close> is whether \<open>fork\<close> gives a process for it.\<close>

type_synonym 'l activate_state = "disk \<times> string \<times> 'l fpga_injection_task \<times> port \<times> bool"

definition version_schedule_service_restart :: "bool \<Rightarrow> bool \<Rightarrow> bool" where
  "version_schedule_service_restart fork_ok scheduled = (if \<not> fork_ok then scheduled else True)"

definition firmware_check :: "'c tools \<Rightarrow> file_system \<Rightarrow> string \<Rightarrow> u8 \<times> string \<times> string" where
  "firmware_check t fs version =
     (case find_firmware_directory t fs version of
        None \<Rightarrow> (ACTIVATE_RESULT_NOT_EXIST, [], version)
      | Some (fw_dir, kind) \<Rightarrow>
          (case firmware_parse_metadata (fs_read fs) (fs_stat t fs) fw_dir of
             (ret, fw_meta) \<Rightarrow>
               if ret \<noteq> SUCCESS then (ACTIVATE_RESULT_CORRUPTED, fw_dir, version)
               else if firmware_fpga_kind (md_file_sub_type fw_meta) \<noteq> kind then (ACTIVATE_RESULT_MISMATCH, fw_dir, version)
               else (ACTIVATE_RESULT_SUCCESS, fw_dir, take 39 (if CHR ''/'' \<in> set fw_dir then last_segment fw_dir else version))))"

definition activate_version :: "string \<Rightarrow> string" where
  "activate_version version_num =
     (let version = take 39 version_num
      in case strstr ''.tar.gz'' version of Some r \<Rightarrow> take (length version - length r) version | None \<Rightarrow> version)"

definition version_handle_activate_request :: "'c tools \<Rightarrow> local_time option \<Rightarrow> int \<Rightarrow> bool \<Rightarrow> bool \<Rightarrow> pool \<Rightarrow> cpri_message
    \<Rightarrow> 'l activate_state \<Rightarrow> (int \<times> 'l activate_state) option" where
  "version_handle_activate_request t local_now now thread_ok fork_ok pool msg st =
     (case st of (d, g_current_version, task, p, scheduled) \<Rightarrow>
        if cm_payload msg = None then Some (ERROR_INVALID_PARAM, st)
        else if cm_payload_len msg < 45 then Some (ERROR_INVALID_PARAM, st)
        else do {
          ver_type \<leftarrow> arr_get (message_bytes pool msg) 4;
          version_num \<leftarrow> read_text (message_bytes pool msg) 5 40;
          let version = activate_version version_num;
          if \<not> shell_safe_name version
          then do {
            (ret, p) \<leftarrow> send_version_activate_ack (tl_memory t) (cm_header msg) ver_type ACTIVATE_RESULT_OTHER p;
            Some (ERROR_INVALID_PARAM, d, g_current_version, task, p, scheduled) }
          else do {
            let ((result, fw_dir, version), d, g_current_version) =
              (if ver_type = VERSION_TYPE_FIRMWARE then (firmware_check t (dk_fs d) version, d, g_current_version)
               else case switch_to_version local_now version (Some ''BBU activate request'') True (d, g_current_version) of
                      (result, d, g) \<Rightarrow> ((result, [], version), d, g));
            (ret, p) \<leftarrow> send_version_activate_ack (tl_memory t) (cm_header msg) ver_type result p;
            if result = ACTIVATE_RESULT_SUCCESS
            then if ver_type = VERSION_TYPE_FIRMWARE
                 then Some (SUCCESS, d, g_current_version, snd (fpga_firmware_injection_start thread_ok now fw_dir version task), p, scheduled)
                 else Some (SUCCESS, d, g_current_version, task, p, version_schedule_service_restart fork_ok scheduled)
            else Some (SUCCESS, d, g_current_version, task, p, scheduled) } })"

definition handle_version_activate_ind :: "'c tools \<Rightarrow> local_time option \<Rightarrow> int \<Rightarrow> bool \<Rightarrow> bool \<Rightarrow> pool \<Rightarrow> cpri_message
    \<Rightarrow> 'l activate_state \<Rightarrow> (int \<times> 'l activate_state) option" where
  "handle_version_activate_ind = version_handle_activate_request"

subsection \<open>Start and queries\<close>

definition init_directories :: "string list" where
  "init_directories = [VERSION_BASE_DIR, VERSION_ROLLBACK_DIR, ''/opt/vendor/downloads'', VERSION_DOWNLOAD_SW_DIR, VERSION_DOWNLOAD_FW_DIR,
     FIRMWARE_STAGING_DIR] @ map (\<lambda>k. take 255 (FIRMWARE_BASE_DIR @ ''/'' @ (case firmware_fpga_kind_dir k of Some dir \<Rightarrow> dir | None \<Rightarrow> [])))
       [FPGA_KIND_V7A, FPGA_KIND_V7B, FPGA_KIND_SUBARRAY]"

definition notice_line :: "string \<times> string \<Rightarrow> string \<Rightarrow> string \<times> string" where
  "notice_line st line =
     (let line = takeWhile (\<lambda>c. ch c \<noteq> 13 \<and> c \<noteq> newline) (cstr line)
      in if take 5 line = ''from='' then (drop 5 line, snd st)
         else if take 3 line = ''to='' then (fst st, drop 3 line)
         else st)"

definition rollback_notice :: "file_system \<Rightarrow> string option" where
  "rollback_notice fs =
     (case fs_read fs VERSION_AUTO_ROLLBACK_NOTICE of
        None \<Rightarrow> None
      | Some content \<Rightarrow>
          (case foldl notice_line ([], []) (fgets_all 639 content) of
             (from, to) \<Rightarrow> Some (take 79 (''auto rollback '' @ last_segment from @ '' -> '' @ last_segment to))))"

definition version_manager_init :: "alarm_env \<Rightarrow> (string \<times> string) list \<Rightarrow> disk \<times> string \<times> alarm_manager \<times> version_download_task
    \<Rightarrow> int \<times> trial_flags \<times> disk \<times> string \<times> alarm_manager \<times> version_download_task" where
  "version_manager_init env items st =
     (case st of (d, g_current_version, am, g_download_task) \<Rightarrow>
        let d = foldl (\<lambda>d path. snd (create_directory_recursive path d)) d init_directories;
            target = read_current_link (dk_fs d);
            g_current_version = (if target \<noteq> [] \<and> CHR ''/'' \<in> set target then take 39 (last_segment target) else g_current_version);
            (g, d) = trial_init items d;
            am = (case rollback_notice (dk_fs d) of Some info \<Rightarrow> alarm_trigger_version_activate_fail env am (Some info) | None \<Rightarrow> am)
        in (SUCCESS, g, d, g_current_version, am, g_download_task\<lparr>dt_in_progress := False\<rparr>))"

definition version_get_current :: "string \<Rightarrow> nat \<Rightarrow> int \<times> string" where
  "version_get_current g_current_version len =
     (if len = 0 then (ERROR_INVALID_PARAM, []) else (SUCCESS, take (len - 1) g_current_version))"

definition version_list_installed :: "'c tools \<Rightarrow> file_system \<Rightarrow> nat \<Rightarrow> string list" where
  "version_list_installed t fs max_count =
     (case read_dir t fs VERSION_BASE_DIR of
        None \<Rightarrow> []
      | Some names \<Rightarrow>
          take max_count (map (take 39) (filter (\<lambda>n. \<not> (n \<noteq> [] \<and> hd n = CHR ''.'') \<and> take 511 (VERSION_BASE_DIR @ ''/'' @ n) \<in> set (fs_dirs fs)) names)))"

subsection \<open>Saving and loading\<close>

lemma strstr_skip: "needle \<noteq> [] \<Longrightarrow> hd needle \<notin> set a \<Longrightarrow> strstr needle (a @ b) = strstr needle b"
proof (induction a)
  case (Cons c a)
  have "take (length needle) (c # a @ b) \<noteq> needle" using Cons.prems by (cases needle) auto
  then show ?case using Cons by simp
qed simp

lemma quote_match:
  assumes "CHR 34 \<notin> set x" "CHR 34 \<notin> set k"
  shows "take (Suc (length k)) (x @ CHR 34 # r) = k @ [CHR 34] \<longleftrightarrow> x = k"
  using assms
proof (induction k arbitrary: x)
  case Nil
  then show ?case by (cases x) auto
next
  case (Cons c k)
  then show ?case by (cases x) auto
qed

lemma strstr_quoted:
  assumes "CHR 34 \<notin> set x" "CHR 34 \<notin> set k" "x \<noteq> k"
  shows "strstr (CHR 34 # k @ [CHR 34]) (CHR 34 # x @ CHR 34 # r) = strstr (CHR 34 # k @ [CHR 34]) (CHR 34 # r)"
  using assms strstr_skip [of "CHR 34 # k @ [CHR 34]" x "CHR 34 # r"] quote_match [OF assms(1,2), of r] by simp

lemma strstr_last_quote: "CHR 34 \<notin> set r \<Longrightarrow> strstr (CHR 34 # k @ [CHR 34]) (CHR 34 # r) = None"
proof -
  assume r: "CHR 34 \<notin> set r"
  have "take (Suc (length k)) r \<noteq> k @ [CHR 34]"
  proof
    assume "take (Suc (length k)) r = k @ [CHR 34]"
    then have "CHR 34 \<in> set (take (Suc (length k)) r)" by simp
    then show False using r set_take_subset by fast
  qed
  moreover have "strstr (CHR 34 # k @ [CHR 34]) (r @ []) = None" using r by (subst strstr_skip) simp_all
  ultimately show ?thesis by simp
qed

text \<open>The line of another key is not taken for the line of this one, unless its value is the key itself.\<close>

lemma other_key:
  assumes "CHR 34 \<notin> set k" "CHR 34 \<notin> set key" "CHR 34 \<notin> set r" "key \<noteq> k" "k \<noteq> '': ''"
  shows "CHR 34 \<notin> set v \<Longrightarrow> v \<noteq> k \<Longrightarrow> strstr (CHR 34 # k @ [CHR 34]) (json_field key v @ r) = None"
    "strstr (CHR 34 # k @ [CHR 34]) (json_number key n @ r) = None"
proof -
  have sp: "strstr (CHR 34 # k @ [CHR 34]) (''  '' @ x) = strstr (CHR 34 # k @ [CHR 34]) x" for x by (rule strstr_skip) simp_all
  have "CHR 34 \<notin> set (dec n)" using dec_plain [of "CHR 34" n] by auto
  then have "strstr (CHR 34 # k @ [CHR 34]) (CHR 34 # '': '' @ dec n @ r) = None"
    using assms(3) by (intro strstr_last_quote) simp
  then show "strstr (CHR 34 # k @ [CHR 34]) (json_number key n @ r) = None"
    unfolding json_number_def append_assoc sp using strstr_quoted [OF assms(2,1,4), of "'': '' @ dec n @ r"] by simp
  show "strstr (CHR 34 # k @ [CHR 34]) (json_field key v @ r) = None" if v: "CHR 34 \<notin> set v" "v \<noteq> k"
  proof -
    have "strstr (CHR 34 # k @ [CHR 34]) (CHR 34 # '': '' @ CHR 34 # v @ CHR 34 # r) = None"
      using strstr_quoted [of "'': ''" k "v @ CHR 34 # r"] strstr_quoted [OF v(1) assms(1) v(2), of r] strstr_last_quote [OF assms(3)] assms(1,5) by simp
    then show ?thesis
      unfolding json_field_def append_assoc sp using strstr_quoted [OF assms(2,1,4), of "'': '' @ CHR 34 # v @ CHR 34 # r"] by simp
  qed
qed

lemma own_key: "strstr (CHR 34 # key @ [CHR 34]) (json_field key v @ r) \<noteq> None" "strstr (CHR 34 # key @ [CHR 34]) (json_number key n @ r) \<noteq> None"
  by (simp_all add: json_field_def json_number_def)

lemma scan_string_field:
  assumes "CHR 34 \<notin> set v" "length v \<le> n"
  shows "scan_string key n (json_field key v @ r) = (if v = [] then None else Some v)"
proof -
  have "takeWhile (\<lambda>c. c \<noteq> CHR 34) (take n (v @ CHR 34 # r)) = v"
    using assms by (cases "n - length v") (auto simp: takeWhile_eq_all_conv takeWhile_append)
  then show ?thesis by (simp add: scan_string_def scan_literal_def skip_space_def json_field_def isspace_def Let_def)
qed

lemma scan_number_field:
  assumes "n < 2 ^ 32"
  shows "scan_number key (json_number key n @ '','') = Some (of_nat n)"
proof -
  obtain c r where c: "dec n = c # r" using dec_digits(2) [of n] by (cases "dec n") auto
  then have "48 \<le> ch c" "ch c \<le> 57" using dec_plain [of c n] by auto
  then have h: "\<not> isspace c" "c \<noteq> CHR ''-''" "c \<noteq> CHR ''+''" "digit_val c < 10" by (auto simp: isspace_def digit_val_def)
  have t: "takeWhile (\<lambda>c. digit_val c < 10) (dec n) = dec n" using dec_digits(1) [of n] by (simp add: list_all_iff takeWhile_eq_all_conv)
  have "\<not> digit_val (CHR '','') < 10" by (simp add: digit_val_def)
  then have "takeWhile (\<lambda>c. digit_val c < 10) (dec n @ '','') = takeWhile (\<lambda>c. digit_val c < 10) (dec n)"
    using dec_digits(1) [of n] unfolding t by (auto simp: takeWhile_append list_all_iff t)
  then have "digits_value 10 (c # r @ '','') = n" using digits_value_dec [of n] c by (simp add: digits_value_def)
  moreover have "n < 2 ^ 64" using assms by simp
  moreover have "isspace (CHR '' '')" by (simp add: isspace_def)
  moreover have "(case w of [] \<Rightarrow> x | [a] \<Rightarrow> x | a # b # l \<Rightarrow> x) = x" for w x :: string by (simp split: list.split)
  ultimately have "strtoul_base 10 ('' '' @ c # r @ '','') = of_nat n" using h(1,2,3) unfolding strtoul_base_def Let_def by simp
  moreover have "isspace (CHR '' '')" "\<not> isspace (CHR 34)" by (simp_all add: isspace_def)
  ultimately show ?thesis using h by (simp add: scan_number_def scan_literal_def skip_space_def json_number_def Let_def c)
qed

text \<open>Values that a line of the file can hold.\<close>

definition json_value :: "nat \<Rightarrow> string \<Rightarrow> bool" where
  "json_value n v \<longleftrightarrow> length v \<le> n \<and> CHR 34 \<notin> set v \<and> list_all (\<lambda>c. c \<noteq> newline \<and> ch c \<noteq> 13 \<and> ch c \<noteq> 0) v
     \<and> v \<notin> {''version'', ''build_time'', ''checksum'', ''file_size'', ''ver_type'', ''install_path''}"

definition metadata_ok :: "version_metadata \<Rightarrow> bool" where
  "metadata_ok m \<longleftrightarrow> json_value 39 (vm_version m) \<and> vm_version m \<noteq> [] \<and> json_value 19 (vm_build_time m) \<and> json_value 64 (vm_checksum m)
     \<and> json_value 255 (vm_install_path m)"

definition metadata_lines :: "version_metadata \<Rightarrow> string list" where
  "metadata_lines m = [''{'', json_field ''version'' (vm_version m) @ '','', json_field ''build_time'' (vm_build_time m) @ '','',
      json_field ''checksum'' (vm_checksum m) @ '','', json_number ''file_size'' (unat (vm_file_size m)) @ '','',
      json_number ''ver_type'' (unat (vm_ver_type m)) @ '','', json_field ''install_path'' (vm_install_path m), ''}'']"

lemma metadata_lines_plain:
  assumes "metadata_ok m" "l \<in> set (metadata_lines m)"
  shows "length l < 511 \<and> list_all (\<lambda>c. c \<noteq> newline \<and> ch c \<noteq> 13 \<and> ch c \<noteq> 0) l"
proof -
  have n: "list_all (\<lambda>c. c \<noteq> newline \<and> ch c \<noteq> 13 \<and> ch c \<noteq> 0) (dec k)" for k
    using dec_plain [of _ k] by (fastforce simp: list_all_iff)
  have "unat (vm_ver_type m) < 2 ^ 32" using unsigned_less [of "vm_ver_type m", where ?'a = nat] by simp
  then have "length (dec (unat (vm_file_size m))) \<le> 10" "length (dec (unat (vm_ver_type m))) \<le> 10"
    using unsigned_less [of "vm_file_size m", where ?'a = nat] by (auto intro!: dec_length)
  then show ?thesis using assms n by (auto simp: metadata_lines_def metadata_ok_def json_value_def json_field_def json_number_def)
qed

lemma lines_of_json:
  assumes "metadata_ok m"
  shows "map (\<lambda>line. takeWhile (\<lambda>c. ch c \<noteq> 13 \<and> c \<noteq> newline) (cstr line)) (fgets_all 511 (metadata_json m)) = metadata_lines m"
proof -
  have f: "fgets_all 511 (metadata_json m) = map (\<lambda>l. l @ [newline]) (metadata_lines m)"
    using metadata_lines_plain [OF assms] unfolding metadata_json_def metadata_lines_def [symmetric]
    by (intro fgets_all_lines) (auto simp: list_all_iff)
  have "takeWhile (\<lambda>c. ch c \<noteq> 13 \<and> c \<noteq> newline) (cstr (l @ [newline])) = l" if "l \<in> set (metadata_lines m)" for l
  proof -
    have "cstr (l @ [newline]) = l @ [newline]"
      using metadata_lines_plain [OF assms that] by (simp add: cstr_def list_all_iff takeWhile_eq_all_conv)
    then show ?thesis using metadata_lines_plain [OF assms that] by (auto simp: list_all_iff takeWhile_append takeWhile_eq_all_conv)
  qed
  then show ?thesis unfolding f by (simp add: map_idI)
qed

definition json_keys :: "string set" where
  "json_keys = {''version'', ''build_time'', ''checksum'', ''file_size'', ''ver_type'', ''install_path''}"

lemma json_key_found:
  assumes "k \<in> json_keys" "key \<in> json_keys" "CHR 34 \<notin> set r"
  shows "json_value n v \<Longrightarrow> strstr (CHR 34 # k @ [CHR 34]) (json_field key v @ r) \<noteq> None \<longleftrightarrow> key = k"
    "strstr (CHR 34 # k @ [CHR 34]) (json_number key i @ r) \<noteq> None \<longleftrightarrow> key = k"
proof -
  have q: "CHR 34 \<notin> set k" "CHR 34 \<notin> set key" "k \<noteq> '': ''" using assms(1,2) by (auto simp: json_keys_def)
  show "strstr (CHR 34 # k @ [CHR 34]) (json_field key v @ r) \<noteq> None \<longleftrightarrow> key = k" if "json_value n v"
  proof (cases "key = k")
    case False
    have "CHR 34 \<notin> set v" "v \<noteq> k" using that assms(1) by (auto simp: json_value_def json_keys_def)
    then show ?thesis using other_key(1) [OF q(1,2) assms(3) False q(3)] False by simp
  qed (simp add: own_key)
  show "strstr (CHR 34 # k @ [CHR 34]) (json_number key i @ r) \<noteq> None \<longleftrightarrow> key = k"
    using other_key(2) [OF q(1,2) assms(3) _ q(3)] own_key(2) by (cases "key = k") auto
qed

lemma json_line_keys:
  "json_line m line =
     (if strstr (CHR 34 # ''version'' @ [CHR 34]) line \<noteq> None then set_found (\<lambda>v. vm_version_update (\<lambda>_. v)) (scan_string ''version'' 39 line) m
      else if strstr (CHR 34 # ''build_time'' @ [CHR 34]) line \<noteq> None then set_found (\<lambda>v. vm_build_time_update (\<lambda>_. v)) (scan_string ''build_time'' 19 line) m
      else if strstr (CHR 34 # ''checksum'' @ [CHR 34]) line \<noteq> None then set_found (\<lambda>v. vm_checksum_update (\<lambda>_. v)) (scan_string ''checksum'' 64 line) m
      else if strstr (CHR 34 # ''file_size'' @ [CHR 34]) line \<noteq> None then set_found (\<lambda>v. vm_file_size_update (\<lambda>_. ucast v)) (scan_number ''file_size'' line) m
      else if strstr (CHR 34 # ''ver_type'' @ [CHR 34]) line \<noteq> None then set_found (\<lambda>v. vm_ver_type_update (\<lambda>_. ucast v)) (scan_number ''ver_type'' line) m
      else if strstr (CHR 34 # ''install_path'' @ [CHR 34]) line \<noteq> None then set_found (\<lambda>v. vm_install_path_update (\<lambda>_. v)) (scan_string ''install_path'' 255 line) m
      else m)"
  unfolding json_line_def append_Cons append_Nil by (rule refl)

lemma in_json_keys: "''version'' \<in> json_keys" "''build_time'' \<in> json_keys" "''checksum'' \<in> json_keys" "''file_size'' \<in> json_keys"
  "''ver_type'' \<in> json_keys" "''install_path'' \<in> json_keys"
  by (simp_all add: json_keys_def)

lemma json_line_brace: "json_line m ''{'' = m" "json_line m ''}'' = m"
  by (simp_all add: json_line_def)

text \<open>One line sets the field of its key.\<close>

lemma json_line_field:
  assumes "key \<in> json_keys" "CHR 34 \<notin> set r" "json_value n v"
  shows "json_line m (json_field key v @ r) =
     (if key = ''version'' then set_found (\<lambda>v. vm_version_update (\<lambda>_. v)) (scan_string ''version'' 39 (json_field key v @ r)) m
      else if key = ''build_time'' then set_found (\<lambda>v. vm_build_time_update (\<lambda>_. v)) (scan_string ''build_time'' 19 (json_field key v @ r)) m
      else if key = ''checksum'' then set_found (\<lambda>v. vm_checksum_update (\<lambda>_. v)) (scan_string ''checksum'' 64 (json_field key v @ r)) m
      else if key = ''file_size'' then set_found (\<lambda>v. vm_file_size_update (\<lambda>_. ucast v)) (scan_number ''file_size'' (json_field key v @ r)) m
      else if key = ''ver_type'' then set_found (\<lambda>v. vm_ver_type_update (\<lambda>_. ucast v)) (scan_number ''ver_type'' (json_field key v @ r)) m
      else set_found (\<lambda>v. vm_install_path_update (\<lambda>_. v)) (scan_string ''install_path'' 255 (json_field key v @ r)) m)"
  unfolding json_line_keys json_key_found(1) [OF in_json_keys(1) assms] json_key_found(1) [OF in_json_keys(2) assms]
    json_key_found(1) [OF in_json_keys(3) assms] json_key_found(1) [OF in_json_keys(4) assms] json_key_found(1) [OF in_json_keys(5) assms]
    json_key_found(1) [OF in_json_keys(6) assms]
  using assms(1) by (auto simp: json_keys_def)

lemma json_line_number:
  assumes "key \<in> json_keys"
  shows "json_line m (json_number key i @ '','') =
     (if key = ''version'' then set_found (\<lambda>v. vm_version_update (\<lambda>_. v)) (scan_string ''version'' 39 (json_number key i @ '','')) m
      else if key = ''build_time'' then set_found (\<lambda>v. vm_build_time_update (\<lambda>_. v)) (scan_string ''build_time'' 19 (json_number key i @ '','')) m
      else if key = ''checksum'' then set_found (\<lambda>v. vm_checksum_update (\<lambda>_. v)) (scan_string ''checksum'' 64 (json_number key i @ '','')) m
      else if key = ''file_size'' then set_found (\<lambda>v. vm_file_size_update (\<lambda>_. ucast v)) (scan_number ''file_size'' (json_number key i @ '','')) m
      else if key = ''ver_type'' then set_found (\<lambda>v. vm_ver_type_update (\<lambda>_. ucast v)) (scan_number ''ver_type'' (json_number key i @ '','')) m
      else set_found (\<lambda>v. vm_install_path_update (\<lambda>_. v)) (scan_string ''install_path'' 255 (json_number key i @ '','')) m)"
proof -
  have c: "CHR 34 \<notin> set '',''" by simp
  show ?thesis
    unfolding json_line_keys json_key_found(2) [OF in_json_keys(1) assms c] json_key_found(2) [OF in_json_keys(2) assms c]
      json_key_found(2) [OF in_json_keys(3) assms c] json_key_found(2) [OF in_json_keys(4) assms c] json_key_found(2) [OF in_json_keys(5) assms c]
      json_key_found(2) [OF in_json_keys(6) assms c]
    using assms by (auto simp: json_keys_def)
qed

lemma json_lines_read:
  assumes "metadata_ok m"
  shows "foldl json_line version_metadata_zero (metadata_lines m) = m"
proof -
  have v: "json_value 39 (vm_version m)" "json_value 19 (vm_build_time m)" "json_value 64 (vm_checksum m)" "json_value 255 (vm_install_path m)"
    using assms by (simp_all add: metadata_ok_def)
  have q: "CHR 34 \<notin> set w" "length w \<le> n" if "json_value n w" for n w using that by (simp_all add: json_value_def)
  have t: "unat (vm_ver_type m) < 2 ^ 32" "unat (vm_file_size m) < 2 ^ 32"
    using unsigned_less [of "vm_ver_type m", where ?'a = nat] unsigned_less [of "vm_file_size m", where ?'a = nat] by simp_all
  have c: "CHR 34 \<notin> set '',''" "CHR 34 \<notin> set []" by simp_all
  have "(ucast (of_nat (unat (vm_file_size m)) :: u64) :: u32) = vm_file_size m" "(ucast (of_nat (unat (vm_ver_type m)) :: u64) :: u8) = vm_ver_type m"
    by (rule bit_word_eqI, simp add: bit_simps)+
  then have u: "(ucast (ucast (vm_file_size m) :: u64) :: u32) = vm_file_size m" "(ucast (ucast (vm_ver_type m) :: u64) :: u8) = vm_ver_type m" by simp_all
  have l: "json_line x (json_field ''version'' (vm_version m) @ '','') = (if vm_version m = [] then x else x\<lparr>vm_version := vm_version m\<rparr>)"
    "json_line x (json_field ''build_time'' (vm_build_time m) @ '','') = (if vm_build_time m = [] then x else x\<lparr>vm_build_time := vm_build_time m\<rparr>)"
    "json_line x (json_field ''checksum'' (vm_checksum m) @ '','') = (if vm_checksum m = [] then x else x\<lparr>vm_checksum := vm_checksum m\<rparr>)"
    "json_line x (json_field ''install_path'' (vm_install_path m) @ []) = (if vm_install_path m = [] then x else x\<lparr>vm_install_path := vm_install_path m\<rparr>)"
    "json_line x (json_number ''file_size'' (unat (vm_file_size m)) @ '','') = x\<lparr>vm_file_size := vm_file_size m\<rparr>"
    "json_line x (json_number ''ver_type'' (unat (vm_ver_type m)) @ '','') = x\<lparr>vm_ver_type := vm_ver_type m\<rparr>" for x
    unfolding json_line_field [OF in_json_keys(1) c(1) v(1)] json_line_field [OF in_json_keys(2) c(1) v(2)]
      json_line_field [OF in_json_keys(3) c(1) v(3)] json_line_field [OF in_json_keys(6) c(2) v(4)]
      json_line_number [OF in_json_keys(4)] json_line_number [OF in_json_keys(5)]
      scan_string_field [OF q(1,2) [OF v(1)]] scan_string_field [OF q(1,2) [OF v(2)]] scan_string_field [OF q(1,2) [OF v(3)]]
      scan_string_field [OF q(1,2) [OF v(4)]] scan_number_field [OF t(1)] scan_number_field [OF t(2)]
    by (simp_all add: set_found_def u)
  show ?thesis
    unfolding metadata_lines_def foldl_Cons foldl_Nil json_line_brace l l(4) [simplified]
    by (cases m) (simp add: version_metadata_zero_def)
qed

lemma load_has_metadata:
  "length dir \<le> 511 \<Longrightarrow> load_version_metadata fs dir \<noteq> None \<longleftrightarrow> has_metadata fs dir"
  by (auto simp: load_version_metadata_def has_metadata_def Let_def split: option.splits)

subsection \<open>Answers\<close>

definition reply_frame :: "cpri_msg_type \<Rightarrow> cpri_msg_header \<Rightarrow> bytes \<Rightarrow> bytes" where
  "reply_frame m h element = cpri_frame (h\<lparr>ch_msg_id := cpri_msg_code m, ch_msg_length := 0\<rparr>) element"

definition ack_frame_of :: "cpri_msg_header \<Rightarrow> u8 \<Rightarrow> u32 \<Rightarrow> bytes" where
  "ack_frame_of h ver_type result = reply_frame MSG_VERSION_DOWNLOAD_ACK h (le16 0x65 @ le16 9 @ [ver_type] @ le32 result)"

definition result_frame_of :: "cpri_msg_header \<Rightarrow> u8 \<Rightarrow> u32 \<Rightarrow> bytes" where
  "result_frame_of h ver_type result = reply_frame MSG_VERSION_DOWNLOAD_RESULT_IND h (le16 0x6F @ le16 9 @ [ver_type] @ le32 result)"

definition activate_frame_of :: "cpri_msg_header \<Rightarrow> u8 \<Rightarrow> u8 \<Rightarrow> bytes" where
  "activate_frame_of h ver_type result = reply_frame MSG_PAAU_VERSION_ACTIVATE_ACK h (le16 0x141 @ le16 6 @ [ver_type, result])"

lemma version_reply_frame:
  assumes "length element \<le> 300"
  shows "version_reply True m h element p = Some (SUCCESS, snd (tcp_client_send p (reply_frame m h element)))"
proof -
  define x where "x = \<lparr>cm_header = h\<lparr>ch_msg_id := cpri_msg_code m, ch_msg_length := 0\<rparr>,
          cm_payload = Some (Outside element), cm_payload_len = of_nat (length element)\<rparr>"
  have n: "unat (cm_payload_len x) = length element" using assms by (simp add: x_def u32_of_nat)
  have pl: "cpri_payload [] x = element" using n by (simp add: cpri_payload_def x_def payload_bytes_def)
  have "cpri_msg_ok [] x" unfolding cpri_msg_ok_def pl n by simp
  then have "cpri_encode_message [] x (replicate 2048 0) 2048
      = Some (int (15 + length element), reply_frame m h element @ drop (15 + length element) (replicate 2048 0))"
    using pl n assms by (subst cpri_encode_frame) (simp_all add: x_def reply_frame_def)
  moreover have "length (reply_frame m h element) = 15 + length element" by (simp add: reply_frame_def cpri_frame_length)
  ultimately show ?thesis unfolding version_reply_def x_def [symmetric] by simp
qed

lemma version_sends:
  "send_version_download_ack True h v r p = Some (SUCCESS, snd (tcp_client_send p (ack_frame_of h v r)))"
  "send_version_download_result True h v r p = Some (SUCCESS, snd (tcp_client_send p (result_frame_of h v r)))"
  "send_version_activate_ack True h v a p = Some (SUCCESS, snd (tcp_client_send p (activate_frame_of h v a)))"
  by (simp_all add: send_version_download_ack_def send_version_download_result_def send_version_activate_ack_def version_reply_frame
      ack_frame_of_def result_frame_of_def activate_frame_of_def)

subsection \<open>One download at a time\<close>

lemma read_download_req_total:
  assumes "289 \<le> length buf"
  obtains ie where "read_download_req buf = Some ie"
proof -
  obtain v where v: "arr_get buf 4 = Some v" using assms by (simp add: arr_get_def)
  obtain r l where "read_le32 buf 5 = Some r" "read_le32 buf 225 = Some l"
    using read_le32_Some [of 5 buf] read_le32_Some [of 225 buf] assms by auto
  then show thesis using assms v that by (simp add: read_download_req_def read_text_def)
qed

text \<open>What the handler does with an element that can be read.\<close>

definition request_rejected :: "version_download_task \<Rightarrow> u32 option" where
  "request_rejected task =
     (if \<not> shell_safe_name (dt_version task) \<or> \<not> shell_safe_name (dt_file_name task)
         \<or> (dt_file_path task \<noteq> [] \<and> \<not> shell_safe_relpath (dt_file_path task)) then Some DOWNLOAD_RESULT_OTHER
      else if dt_file_len task > MAX_IMAGE_BYTES then Some DOWNLOAD_RESULT_TOO_LARGE
      else None)"

lemma download_task_short: "length (dt_version (download_task_of ie)) < 40"
  by (auto simp: download_task_of_def version_from_name_def Let_def split: option.split)

lemma download_request_cases:
  assumes "cm_payload msg \<noteq> None" "289 \<le> unat (cm_payload_len msg)" "read_download_req (message_bytes pool msg) = Some ie"
  defines "h \<equiv> cm_header msg" and "v \<equiv> dr_ver_type ie" and "task \<equiv> download_task_of ie"
  shows "dt_in_progress g \<Longrightarrow> version_handle_download_request items ip True thread_ok pool msg (g, p)
      = Some (ERROR_GENERAL, g, snd (tcp_client_send p (ack_frame_of h v DOWNLOAD_ACK_REJECT_BUSY)))"
    and "\<not> dt_in_progress g \<Longrightarrow> request_rejected task = Some r \<Longrightarrow> version_handle_download_request items ip True thread_ok pool msg (g, p)
      = Some (ERROR_INVALID_PARAM, task\<lparr>dt_in_progress := False\<rparr>, snd (tcp_client_send p (result_frame_of h v r)))"
    and "\<not> dt_in_progress g \<Longrightarrow> request_rejected task = None \<Longrightarrow> \<exists>task'. task_ok task' \<and> dt_ver_type task' = v \<and> dt_req_header task' = h
      \<and> dt_version task' = dt_version task \<and> dt_file_name task' = dt_file_name task \<and> dt_file_path task' = dt_file_path task
      \<and> version_handle_download_request items ip True thread_ok pool msg (g, p)
        = (if thread_ok then Some (SUCCESS, task'\<lparr>dt_in_progress := True\<rparr>, snd (tcp_client_send p (ack_frame_of h v DOWNLOAD_ACK_ACCEPT)))
           else Some (ERROR_GENERAL, task'\<lparr>dt_in_progress := False\<rparr>,
             snd (tcp_client_send (snd (tcp_client_send p (ack_frame_of h v DOWNLOAD_ACK_ACCEPT))) (result_frame_of h v DOWNLOAD_RESULT_OTHER))))"
proof -
  have l: "\<not> cm_payload_len msg < 289" using assms(2) by (simp add: word_less_nat_alt)
  note defs = version_handle_download_request_def Let_def h_def v_def task_def request_rejected_def version_sends
  show "version_handle_download_request items ip True thread_ok pool msg (g, p)
      = Some (ERROR_GENERAL, g, snd (tcp_client_send p (ack_frame_of h v DOWNLOAD_ACK_REJECT_BUSY)))" if "dt_in_progress g"
    using that assms(1,3) l by (simp add: defs)
  show "version_handle_download_request items ip True thread_ok pool msg (g, p)
      = Some (ERROR_INVALID_PARAM, task\<lparr>dt_in_progress := False\<rparr>, snd (tcp_client_send p (result_frame_of h v r)))"
    if "\<not> dt_in_progress g" "request_rejected task = Some r"
    using that assms(1,3) l by (auto simp: defs split: if_splits)
  show "\<exists>task'. task_ok task' \<and> dt_ver_type task' = v \<and> dt_req_header task' = h
      \<and> dt_version task' = dt_version task \<and> dt_file_name task' = dt_file_name task \<and> dt_file_path task' = dt_file_path task
      \<and> version_handle_download_request items ip True thread_ok pool msg (g, p)
        = (if thread_ok then Some (SUCCESS, task'\<lparr>dt_in_progress := True\<rparr>, snd (tcp_client_send p (ack_frame_of h v DOWNLOAD_ACK_ACCEPT)))
           else Some (ERROR_GENERAL, task'\<lparr>dt_in_progress := False\<rparr>,
             snd (tcp_client_send (snd (tcp_client_send p (ack_frame_of h v DOWNLOAD_ACK_ACCEPT))) (result_frame_of h v DOWNLOAD_RESULT_OTHER))))"
    if "\<not> dt_in_progress g" "request_rejected task = None"
  proof -
    define server where "server = (case config_get_string items ''FTP_SERVER'' (Some ip) of Some s \<Rightarrow> s | None \<Rightarrow> ip)"
    define task' where "task' = task\<lparr>dt_ftp_server := take 63 server, dt_ftp_port := of_int (config_get_int items ''FTP_PORT'' 21), dt_req_header := h\<rparr>"
    have p: "dt_in_progress task'" "dt_ver_type task' = v" by (simp_all add: task'_def task_def download_task_of_def v_def)
    have "task_ok task'" using that(2) download_task_short [of ie] by (simp add: task_ok_def task'_def request_rejected_def task_def split: if_splits)
    moreover have "version_handle_download_request items ip True thread_ok pool msg (g, p)
        = (if thread_ok then Some (SUCCESS, task', snd (tcp_client_send p (ack_frame_of h v DOWNLOAD_ACK_ACCEPT)))
           else Some (ERROR_GENERAL, task'\<lparr>dt_in_progress := False\<rparr>,
             snd (tcp_client_send (snd (tcp_client_send p (ack_frame_of h v DOWNLOAD_ACK_ACCEPT))) (result_frame_of h v DOWNLOAD_RESULT_OTHER))))"
      using that assms(1,3) l by (simp add: defs task'_def server_def split: if_splits)
    moreover have "task'\<lparr>dt_in_progress := True\<rparr> = task'" using p(1) by simp
    ultimately show ?thesis using p(2) by (intro exI [of _ task']) (simp add: task'_def)
  qed
qed

text \<open>Requests and threads in any order; the number counts the threads that run. A thread takes effect in one step,
  at its end: while it runs no request for a download changes the task or the disk.\<close>

inductive download_step :: "'c tools \<Rightarrow> (string \<times> string) list \<Rightarrow> string \<Rightarrow> version_download_task \<times> disk \<times> port \<times> nat
    \<Rightarrow> version_download_task \<times> disk \<times> port \<times> nat \<Rightarrow> bool" for t :: "'c tools" and items ip where
  request: "version_handle_download_request items ip memory thread_ok pool msg (g, p) = Some (ret, g', p')
    \<Longrightarrow> download_step t items ip (g, d, p, n) (g', d, p', if ret = SUCCESS then n + 1 else n)"
| finished: "0 < n \<Longrightarrow> version_download_thread_func t shutting_down (g, d, p) = Some (g', d', p')
    \<Longrightarrow> download_step t items ip (g, d, p, n) (g', d', p', n - 1)"

lemma request_gate:
  assumes "version_handle_download_request items ip memory thread_ok pool msg (g, p) = Some (ret, g', p')"
  shows "if dt_in_progress g then g' = g \<and> ret \<noteq> SUCCESS else (ret = SUCCESS \<longleftrightarrow> dt_in_progress g') \<and> (ret = SUCCESS \<longrightarrow> task_ok g')"
proof (cases "cm_payload msg = None \<or> cm_payload_len msg < 289 \<or> dt_in_progress g")
  case True
  then show ?thesis using assms
    by (auto simp: version_handle_download_request_def Let_def bind_eq_Some_conv split: if_splits prod.splits)
next
  case False
  then obtain ie where ie: "read_download_req (message_bytes pool msg) = Some ie" "\<not> dt_in_progress g"
    using assms by (auto simp: version_handle_download_request_def bind_eq_Some_conv)
  then show ?thesis using assms False download_task_short [of ie]
    by (auto simp: version_handle_download_request_def Let_def bind_eq_Some_conv task_ok_def download_task_of_def split: if_splits prod.splits)
qed

lemma thread_ends:
  assumes "version_download_thread_func t shutting_down (g, d, p) = Some (g', d', p')"
  shows "\<not> dt_in_progress g'" "\<exists>result task'. download_and_install t g d = (result, task', d')"
  using assms by (auto simp: version_download_thread_func_def bind_eq_Some_conv split: prod.splits if_splits)

lemma place_not_current: "\<not> install_place task VERSION_CURRENT_LINK"
  by (auto simp: install_place_def firmware_place_def below_def path_defs version_dir_of_def)

lemma downloads_inv:
  assumes "(download_step t items ip)\<^sup>*\<^sup>* (g, d, p, 0) s" "\<not> dt_in_progress g" "tools_confined t"
  shows "case s of (g', d', p', n) \<Rightarrow> n = of_bool (dt_in_progress g') \<and> (n = 1 \<longrightarrow> task_ok g') \<and> current_of (dk_fs d') = current_of (dk_fs d)"
  using assms(1)
proof (induction rule: rtranclp_induct)
  case base
  then show ?case using assms(2) by simp
next
  case (step s s')
  from step(2,3) show ?case
  proof cases
    case (request memory thread_ok pool msg g p ret g' p' d n)
    then show ?thesis using request_gate [OF request(3)] step(3) by (auto split: if_splits)
  next
    case (finished n shutting_down g1 d1 p1 g' d' p')
    then obtain result task' where r: "download_and_install t g1 d1 = (result, task', d')" "\<not> dt_in_progress g'"
      using thread_ends by blast
    have "task_ok g1" "n = 1" using step(3) finished(1,3) by (auto split: if_splits)
    then have "current_of (dk_fs d') = current_of (dk_fs d1)"
      using download_untouched [OF assms(3) _ r(1)] place_not_current by (simp add: untouched_def current_of_def)
    then show ?thesis using step(3) finished(1,2) r(2) \<open>n = 1\<close> by auto
  qed
qed

subsection \<open>Activation\<close>

lemma read_text_total: "i + n \<le> length buf \<Longrightarrow> \<exists>s. read_text buf i n = Some s"
  by (simp add: read_text_def)

text \<open>The directory of one kind, and what the search over the kinds finds: the newest.\<close>

definition candidate :: "'c tools \<Rightarrow> file_system \<Rightarrow> string \<Rightarrow> fpga_kind \<Rightarrow> string option" where
  "candidate t fs version k = (case firmware_fpga_kind_dir k of None \<Rightarrow> None
     | Some kd \<Rightarrow> firmware_candidate t fs (take 255 (FIRMWARE_BASE_DIR @ ''/'' @ kd)) version)"

definition newest :: "'c tools \<Rightarrow> file_system \<Rightarrow> string \<Rightarrow> fpga_kind set \<Rightarrow> firmware_best \<Rightarrow> bool" where
  "newest t fs version ks best = (case best of
     None \<Rightarrow> (\<forall>k \<in> ks. candidate t fs version k = None)
   | Some (dir, k, m) \<Rightarrow> k \<in> ks \<and> candidate t fs version k = Some dir \<and> m = tl_mtime t fs dir
       \<and> (\<forall>k' \<in> ks. \<forall>dir'. candidate t fs version k' = Some dir' \<longrightarrow> tl_mtime t fs dir' \<le> m))"

lemma newest_turn: "newest t fs version ks b \<Longrightarrow> newest t fs version (insert k ks) (firmware_kind_turn t fs version b k)"
proof -
  assume b: "newest t fs version ks b"
  have turn: "firmware_kind_turn t fs version b k = (case candidate t fs version k of None \<Rightarrow> b | Some found \<Rightarrow>
      (case b of None \<Rightarrow> Some (found, k, tl_mtime t fs found)
       | Some (dir, k', m) \<Rightarrow> if tl_mtime t fs found > m then Some (found, k, tl_mtime t fs found) else b))"
    by (simp add: firmware_kind_turn_def candidate_def split: option.split)
  show ?thesis using b unfolding turn newest_def by (auto split: option.splits)
qed

lemma find_directory_newest:
  assumes "find_firmware_directory t fs version = Some (dir, kind)"
  shows "candidate t fs version kind = Some dir" "candidate t fs version k = Some dir' \<Longrightarrow> tl_mtime t fs dir' \<le> tl_mtime t fs dir"
proof -
  let ?b = "foldl (firmware_kind_turn t fs version) None [FPGA_KIND_V7A, FPGA_KIND_V7B, FPGA_KIND_SUBARRAY]"
  have "newest t fs version {} None" by (simp add: newest_def)
  from newest_turn [OF newest_turn [OF newest_turn [OF this, of FPGA_KIND_V7A], of FPGA_KIND_V7B], of FPGA_KIND_SUBARRAY]
  have n: "newest t fs version {FPGA_KIND_SUBARRAY, FPGA_KIND_V7B, FPGA_KIND_V7A} ?b" by simp
  obtain m where m: "?b = Some (dir, kind, m)" using assms unfolding find_firmware_directory_def by (auto split: option.splits)
  show "candidate t fs version kind = Some dir" using n unfolding m by (simp add: newest_def)
  have "k \<in> {FPGA_KIND_SUBARRAY, FPGA_KIND_V7B, FPGA_KIND_V7A} \<or> candidate t fs version k = None"
    by (cases k) (simp_all add: candidate_def firmware_fpga_kind_dir_def)
  then show "tl_mtime t fs dir' \<le> tl_mtime t fs dir" if "candidate t fs version k = Some dir'"
    using n that unfolding m newest_def by auto
qed

subsection \<open>Properties\<close>

definition task_idle :: version_download_task where
  "task_idle = task_example\<lparr>dt_in_progress := False\<rparr>"

definition download_example :: cpri_message where
  "download_example = \<lparr>cm_header = dt_req_header task_example,
     cm_payload = Some (Outside (le16 14 @ le16 289 @ [0] @ le32 0 @ replicate 200 0 @ map of_char ''v1.tar.gz'' @ replicate 7 0 @ le32 7
       @ replicate 20 0 @ map of_char ''v1'' @ replicate 38 0)), cm_payload_len = 289\<rparr>"

definition port_open_example :: port where
  "port_open_example = \<lparr>po_open = True, po_script = [], po_out = []\<rparr>"

lemma char_of_byte [simp]: "(char_of (unat (of_char c :: u8)) :: char) = c"
proof -
  have "of_char c < (256 :: nat)" by (rule nat_of_char_less_256)
  then have "unat (of_nat (of_char c) :: u8) = of_char c" by (simp add: u8_of_nat)
  then show ?thesis by (simp only: of_nat_of_char char_of_char)
qed

text \<open>A field of a fixed size, filled up with zeros.\<close>

definition text_field :: "nat \<Rightarrow> string \<Rightarrow> bytes" where
  "text_field n s = map of_char s @ replicate (n - length s) 0"

lemma read_text_field:
  assumes "buf = pre @ text_field n s @ post" "length pre = i" "length s \<le> n" "list_all (\<lambda>c. ch c \<noteq> 0) s"
  shows "read_text buf i n = Some s"
proof -
  have "mem_read buf i n = Some (text_field n s)" using assms(1-3) by (simp add: mem_read_def text_field_def)
  moreover have "cstr (s @ replicate k (char_of (0 :: nat))) = s" for k
    using assms(4) by (cases k) (auto simp: cstr_def list_all_iff takeWhile_eq_all_conv takeWhile_append)
  ultimately show ?thesis by (simp add: read_text_def text_field_def o_def)
qed

lemma download_example_accepted:
  "\<exists>g' p'. version_handle_download_request [] ''10.0.0.1'' True True [] download_example (task_idle, port_open_example) = Some (SUCCESS, g', p')"
proof -
  let ?b = "message_bytes [] download_example"
  let ?h = "le16 14 @ le16 289 @ [0] @ le32 0"
  let ?path = "text_field 200 []" and ?name = "text_field 16 ''v1.tar.gz''" and ?ver = "text_field 40 ''v1''" and ?time = "text_field 20 []"
  have b: "?b = ?h @ ?path @ ?name @ le32 7 @ ?time @ ?ver"
    by (simp add: message_bytes_def download_example_def payload_bytes_def text_field_def)
  have "read_text ?b 9 200 = Some []" by (rule read_text_field [OF b]) simp_all
  moreover have "read_text ?b 209 16 = Some ''v1.tar.gz''"
    by (rule read_text_field [where pre = "?h @ ?path"]) (simp_all add: b text_field_def)
  moreover have "read_text ?b 229 20 = Some []"
    by (rule read_text_field [where pre = "?h @ ?path @ ?name @ le32 7"]) (simp_all add: b text_field_def)
  moreover have "read_text ?b 249 40 = Some ''v1''"
    by (rule read_text_field [where pre = "?h @ ?path @ ?name @ le32 7 @ ?time" and post = "[]"]) (simp_all add: b text_field_def)
  moreover have "read_le32 ?b 225 = Some 7" "read_le32 ?b 5 = Some 0" "arr_get ?b 4 = Some 0"
    by (simp_all add: b read_le32_def arr_get_def nth_append le16_def le32_def of_le32_def text_field_def)
  ultimately obtain ie where ie: "read_download_req ?b = Some ie" "dr_file_name ie = ''v1.tar.gz''" "dr_file_path ie = []"
      "dr_file_ver ie = ''v1''" "dr_file_len ie = 7" by (simp add: read_download_req_def)
  have "\<not> dt_in_progress task_idle" by (simp add: task_idle_def)
  moreover have "request_rejected (download_task_of ie) = None"
    using ie by (simp add: request_rejected_def download_task_of_def shell_safe_name_def name_char_def)
  ultimately show ?thesis
    using download_request_cases(3) [OF _ _ ie(1), of task_idle "[]" "''10.0.0.1''" True port_open_example] by (auto simp: download_example_def)
qed

text \<open>C13. However requests and the ends of downloads follow one another, at most one download runs, its version and its file have
  safe names, and no download ever moves the link to the running version.\<close>

theorem one_download_at_a_time:
  assumes "(download_step t items ip)\<^sup>*\<^sup>* (g, d, p, 0) (g', d', p', n)" "\<not> dt_in_progress g" "tools_confined t"
  shows "n \<le> 1 \<and> (n = 1 \<longleftrightarrow> dt_in_progress g') \<and> (n = 1 \<longrightarrow> shell_safe_name (dt_version g') \<and> shell_safe_name (dt_file_name g'))
    \<and> current_of (dk_fs d') = current_of (dk_fs d)"
  using downloads_inv [OF assms] by (auto simp: task_ok_def)

theorem one_download_at_a_time_witness:
  "\<exists>g' p'. (download_step (tools_example []) [] ''10.0.0.1'')\<^sup>*\<^sup>* (task_idle, with_parents, port_open_example, 0) (g', with_parents, p', 1) \<and> dt_in_progress g'"
proof -
  obtain g' p' where "version_handle_download_request [] ''10.0.0.1'' True True [] download_example (task_idle, port_open_example) = Some (SUCCESS, g', p')"
    using download_example_accepted by blast
  from download_step.request [OF this, of "tools_example []" with_parents 0]
  have r: "(download_step (tools_example []) [] ''10.0.0.1'')\<^sup>*\<^sup>* (task_idle, with_parents, port_open_example, 0) (g', with_parents, p', 1)" by simp
  moreover have "\<not> dt_in_progress task_idle" by (simp add: task_idle_def)
  ultimately show ?thesis using one_download_at_a_time [OF r _ tools_example_ok(1)] by blast
qed

text \<open>What the file of a package says, read as an activation reads it.\<close>

definition package_metadata :: "string \<Rightarrow> string \<Rightarrow> version_metadata" where
  "package_metadata dir content =
     (let m = foldl (\<lambda>m line. txt_line m (takeWhile (\<lambda>c. ch c \<noteq> 13 \<and> c \<noteq> newline) (cstr line))) version_metadata_zero (fgets_all 511 content)
      in if vm_version m = [] then m\<lparr>vm_version := take 39 (last_segment dir)\<rparr> else m)"

definition text_fields_only :: "version_metadata \<Rightarrow> bool" where
  "text_fields_only m \<longleftrightarrow> vm_build_time m = [] \<and> vm_file_size m = 0 \<and> vm_ver_type m = 0 \<and> vm_install_path m = []"

lemma package_fields: "text_fields_only (package_metadata dir content)"
proof -
  have "text_fields_only (txt_line m l)" if "text_fields_only m" for m l using that by (simp add: text_fields_only_def txt_line_def Let_def)
  then have f: "text_fields_only (foldl (\<lambda>m l. txt_line m (f l)) m ls)" if "text_fields_only m" for m and f :: "string \<Rightarrow> string" and ls
    using that by (induction ls arbitrary: m) simp_all
  have "text_fields_only version_metadata_zero" by (simp add: text_fields_only_def version_metadata_zero_def)
  from f [OF this, of "\<lambda>line. takeWhile (\<lambda>c. ch c \<noteq> 13 \<and> c \<noteq> newline) (cstr line)" "fgets_all 511 content"]
  show ?thesis by (simp add: package_metadata_def text_fields_only_def Let_def)
qed

lemma strstr_end: "strstr k (d @ k) \<noteq> None"
proof (induction d)
  case Nil
  then show ?case by (cases k) simp_all
qed simp

text \<open>C15. What the installation saves and what an activation loads. When the directory has no \<open>metadata.txt\<close>, an activation loads exactly what the installation saved. When it has one from its package, as packages are documented, the
  saved file is not read: the activation loads what the package says of its version and checksum and nothing else. Both hold after a save that succeeds, and it does on a disk without errors.\<close>

theorem version_record_round_trip:
  assumes m: "metadata_ok m" and d: "dk_script d = []" and dir: "length dir \<le> 511" "strstr ''metadata.txt'' (dir @ ''/version.json'') = None"
  shows "\<exists>d'. save_version_metadata dir m d = (SUCCESS, d')
    \<and> (case fs_read (dk_fs d) (dir @ ''/metadata.txt'') of
         None \<Rightarrow> load_version_metadata (dk_fs d') dir = Some m
       | Some content \<Rightarrow> load_version_metadata (dk_fs d') dir = Some (package_metadata dir content) \<and> text_fields_only (package_metadata dir content))"
proof -
  let ?p = "dir @ ''/version.json''" and ?t = "dir @ ''/metadata.txt''"
  have p: "take 543 ?p = ?p" "take 543 ?t = ?t" "?p \<noteq> ?t" using dir(1) by simp_all
  define d' where "d' = snd (sys_output ?p (metadata_json m) (snd (sys_create ?p d)))"
  have s: "save_version_metadata dir m d = (SUCCESS, d')"
    using d unfolding save_version_metadata_def Let_def p d'_def by (simp add: sys_create_def disk_call_def split: prod.splits)
  have r: "fs_read (dk_fs d') ?p = Some (metadata_json m)" "fs_read (dk_fs d') ?t = fs_read (dk_fs d) ?t"
    using d p(3) unfolding d'_def by (simp_all add: sys_create_def disk_call_def sys_output_def)
  have "foldl (\<lambda>m line. json_line m (takeWhile (\<lambda>c. ch c \<noteq> 13 \<and> c \<noteq> newline) (cstr line))) version_metadata_zero (fgets_all 511 (metadata_json m))
      = foldl json_line version_metadata_zero (metadata_lines m)"
    unfolding lines_of_json [OF m, symmetric] foldl_map ..
  then have "load_version_metadata (dk_fs d') dir = Some m" if "fs_read (dk_fs d) ?t = None"
    using m r dir(2) that unfolding load_version_metadata_def Let_def p by (simp add: json_lines_read [OF m] metadata_ok_def)
  moreover have "strstr ''metadata.txt'' ?t \<noteq> None" using strstr_end [of "''metadata.txt''" "dir @ ''/''"] by simp
  then have "load_version_metadata (dk_fs d') dir = Some (package_metadata dir content)" if "fs_read (dk_fs d) ?t = Some content" for content
    using r(2) that unfolding load_version_metadata_def Let_def p by (simp add: package_metadata_def Let_def)
  ultimately show ?thesis using s package_fields by (auto split: option.split)
qed

theorem version_record_round_trip_witness:
  "\<exists>d'. save_version_metadata ''/opt/vendor/versions/v3'' \<lparr>vm_version = ''v3'', vm_build_time = [], vm_checksum = ''00ff'', vm_file_size = 7,
       vm_ver_type = 0, vm_install_path = ''/opt/vendor/versions/v3''\<rparr> with_parents = (SUCCESS, d')
     \<and> load_version_metadata (dk_fs d') ''/opt/vendor/versions/v3'' = Some \<lparr>vm_version = ''v3'', vm_build_time = [], vm_checksum = ''00ff'',
       vm_file_size = 7, vm_ver_type = 0, vm_install_path = ''/opt/vendor/versions/v3''\<rparr>"
proof -
  let ?m = "\<lparr>vm_version = ''v3'', vm_build_time = [], vm_checksum = ''00ff'', vm_file_size = 7, vm_ver_type = 0, vm_install_path = ''/opt/vendor/versions/v3''\<rparr> :: version_metadata"
  have "fs_read (dk_fs with_parents) (''/opt/vendor/versions/v3'' @ ''/metadata.txt'') = None" by (simp add: with_parents_def two_versions_def fs_read_def)
  then show ?thesis using version_record_round_trip [of ?m with_parents "''/opt/vendor/versions/v3''"]
    by (simp add: metadata_ok_def json_value_def with_parents_def two_versions_def fs_read_def)
qed

text \<open>A directory that may be injected: the newest of this version among the kinds, with metadata that can be read and that
  name the kind of the directory.\<close>

definition firmware_ready :: "'c tools \<Rightarrow> file_system \<Rightarrow> string \<Rightarrow> string \<Rightarrow> bool" where
  "firmware_ready t fs version dir \<longleftrightarrow> (\<exists>kind m. candidate t fs version kind = Some dir
     \<and> (\<forall>k dir'. candidate t fs version k = Some dir' \<longrightarrow> tl_mtime t fs dir' \<le> tl_mtime t fs dir)
     \<and> firmware_parse_metadata (fs_read fs) (fs_stat t fs) dir = (SUCCESS, m) \<and> firmware_fpga_kind (md_file_sub_type m) = kind)"

lemma firmware_check_ready:
  assumes "firmware_check t fs version = (ACTIVATE_RESULT_SUCCESS, dir, n)"
  shows "firmware_ready t fs version dir"
proof -
  obtain kind m where "find_firmware_directory t fs version = Some (dir, kind)"
      "firmware_parse_metadata (fs_read fs) (fs_stat t fs) dir = (SUCCESS, m)" "firmware_fpga_kind (md_file_sub_type m) = kind"
    using assms by (auto simp: firmware_check_def split: option.splits prod.splits if_splits)
  then show ?thesis unfolding firmware_ready_def using find_directory_newest by blast
qed

text \<open>C14. A request to activate that can be read gets exactly one answer. Firmware is injected only from the newest directory of that
  version among the kinds, and only when its metadata can be read and name the kind of the directory; for software the
  link is switched as a trial and the restart is scheduled; any other answer starts neither.\<close>

theorem activation_answered:
  assumes msg: "cm_payload msg \<noteq> None" "45 \<le> unat (cm_payload_len msg)" "arr_get (message_bytes pool msg) 4 = Some v"
      "read_text (message_bytes pool msg) 5 40 = Some num" and mem: "tl_memory t"
    and safe: "shell_safe_name (activate_version num)"
  shows "\<exists>r d' g' task' scheduled'. version_handle_activate_request t tm now thread_ok True pool msg (d, g, task, p, False)
      = Some (SUCCESS, d', g', task', snd (tcp_client_send p (activate_frame_of (cm_header msg) v r)), scheduled')
    \<and> (if v = VERSION_TYPE_FIRMWARE
       then d' = d \<and> g' = g \<and> \<not> scheduled'
         \<and> (if r = ACTIVATE_RESULT_SUCCESS
            then \<exists>dir n. firmware_ready t (dk_fs d) (activate_version num) dir
              \<and> task' = snd (fpga_firmware_injection_start thread_ok now dir n task)
            else task' = task)
       else task' = task \<and> (scheduled' \<longleftrightarrow> r = ACTIVATE_RESULT_SUCCESS)
         \<and> switch_to_version tm (activate_version num) (Some ''BBU activate request'') True (d, g) = (r, d', g'))"
proof -
  have l: "\<not> cm_payload_len msg < 45" using msg(2) by (simp add: word_less_nat_alt)
  note defs = version_handle_activate_request_def msg(3,4) mem version_sends Let_def version_schedule_service_restart_def
  show ?thesis
  proof (cases "v = VERSION_TYPE_FIRMWARE")
    case False
    obtain r d' g' where s: "switch_to_version tm (activate_version num) (Some ''BBU activate request'') True (d, g) = (r, d', g')"
      by (metis prod_cases3)
    then show ?thesis using False msg(1) l safe
      by (intro exI [of _ r] exI [of _ d'] exI [of _ g'] exI [of _ task] exI [of _ "r = ACTIVATE_RESULT_SUCCESS"]) (simp add: defs)
  next
    case True
    obtain r dir n where c: "firmware_check t (dk_fs d) (activate_version num) = (r, dir, n)" by (metis prod_cases3)
    define task' where "task' = (if r = ACTIVATE_RESULT_SUCCESS then snd (fpga_firmware_injection_start thread_ok now dir n task) else task)"
    have run: "version_handle_activate_request t tm now thread_ok True pool msg (d, g, task, p, False)
      = Some (SUCCESS, d, g, task', snd (tcp_client_send p (activate_frame_of (cm_header msg) v r)), False)"
      using True msg(1) l safe c by (simp add: defs task'_def)
    have "firmware_ready t (dk_fs d) (activate_version num) dir" if "r = ACTIVATE_RESULT_SUCCESS"
      using c that by (intro firmware_check_ready) simp
    then show ?thesis using run True unfolding task'_def
      by (intro exI [of _ r] exI [of _ d] exI [of _ g] exI [of _ task'] exI [of _ False]) (auto simp: task'_def)
  qed
qed

definition activate_example :: cpri_message where
  "activate_example = \<lparr>cm_header = dt_req_header task_example, cm_payload = Some (Outside (le16 0x13D @ le16 45 @ [0] @ text_field 40 ''v2'')),
     cm_payload_len = 45\<rparr>"

theorem activation_answered_witness:
  "\<forall>task :: unit fpga_injection_task. \<exists>d' g'. version_handle_activate_request (tools_example []) (Some (2026, 1, 2, 3, 4, 5)) 0 True True [] activate_example
     (restart two_versions, ''v1'', task, port_open_example, False)
       = Some (SUCCESS, d', g', task, snd (tcp_client_send port_open_example (activate_frame_of (dt_req_header task_example) 0 ACTIVATE_RESULT_SUCCESS)), True)"
proof
  fix task :: "unit fpga_injection_task"
  let ?b = "message_bytes [] activate_example"
  have b: "?b = (le16 0x13D @ le16 45 @ [0]) @ text_field 40 ''v2'' @ []"
    by (simp add: message_bytes_def activate_example_def payload_bytes_def text_field_def)
  have m: "cm_payload activate_example \<noteq> None" "45 \<le> unat (cm_payload_len activate_example)" "arr_get ?b 4 = Some 0"
    unfolding b by (simp_all add: activate_example_def arr_get_def le16_def nth_append)
  have t: "read_text ?b 5 40 = Some ''v2''" by (rule read_text_field [OF b]) simp_all
  have v: "activate_version ''v2'' = ''v2''" "shell_safe_name ''v2''" by (simp_all add: activate_version_def Let_def shell_safe_name_def name_char_def)
  obtain d' g' where s: "switch_to_version (Some (2026, 1, 2, 3, 4, 5)) ''v2'' (Some ''BBU activate request'') True (restart two_versions, ''v1'')
      = (ACTIVATE_RESULT_SUCCESS, d', g')"
    using activation_states [of "restart two_versions", OF _ ] two_versions_ready(1) by fastforce
  show "\<exists>d' g'. version_handle_activate_request (tools_example []) (Some (2026, 1, 2, 3, 4, 5)) 0 True True [] activate_example
     (restart two_versions, ''v1'', task, port_open_example, False)
       = Some (SUCCESS, d', g', task, snd (tcp_client_send port_open_example (activate_frame_of (dt_req_header task_example) 0 ACTIVATE_RESULT_SUCCESS)), True)"
    using activation_answered [OF m t, of "tools_example []" "Some (2026, 1, 2, 3, 4, 5)" 0 True "restart two_versions" "''v1''" task port_open_example] v s
    by (auto simp: tools_example_def activate_example_def)
qed

end
