(* ===== verification/ControlMessages.thy ===== *)
theory ControlMessages
  imports FpgaHandler CpriProtocol InfoElements Config MsgHandler
begin

text \<open>
  Requests that are passed on to the FPGA: reset (reset.c), loopback (loopback.c) and the calibration of the array
  (phased_array_calib.c), with their handlers in msg_handler.c. The audit logs are kept as lists; the time that they show is an argument.
\<close>

subsection \<open>Answers\<close>

text \<open>What the senders share: a message from a local block is encoded into a buffer of \<open>n\<close> bytes and handed over.\<close>

definition encode_and_send :: "u32 \<Rightarrow> cpri_msg_header \<Rightarrow> bytes \<Rightarrow> port \<Rightarrow> (int \<times> port) option" where
  "encode_and_send n h payload p = do {
     (len, buffer) \<leftarrow> cpri_encode_message [] \<lparr>cm_header = h, cm_payload = Some (Outside payload), cm_payload_len = of_nat (length payload)\<rparr>
        (replicate (unat n) 0) n;
     Some (if len > 0 then (SUCCESS, snd (tcp_client_send p (take (nat len) buffer))) else (ERROR_GENERAL, p)) }"

definition answer_header :: "cpri_msg_type \<Rightarrow> cpri_msg_header \<Rightarrow> cpri_msg_header" where
  "answer_header m h = h\<lparr>ch_msg_id := cpri_msg_code m, ch_msg_length := 0\<rparr>"

subsection \<open>Reset\<close>

abbreviation (input) RESET_TYPE_SOFT :: u32 where "RESET_TYPE_SOFT \<equiv> 0"
abbreviation (input) RESET_TYPE_HARD :: u32 where "RESET_TYPE_HARD \<equiv> 1"
abbreviation (input) RESET_ERR_FORMAT :: int where "RESET_ERR_FORMAT \<equiv> - 2001"
abbreviation (input) RESET_ERR_PERMISSION :: int where "RESET_ERR_PERMISSION \<equiv> - 2002"
abbreviation (input) RESET_ERR_OUT_OF_RANGE :: int where "RESET_ERR_OUT_OF_RANGE \<equiv> - 2003"
abbreviation (input) RESET_ERR_INVALID_TYPE :: int where "RESET_ERR_INVALID_TYPE \<equiv> - 2004"

record reset_state =
  rs_initialized :: bool
  rs_restart_service :: int
  rs_reboot_system :: int
  rs_cfg_loaded :: bool

definition reset_cfg_load :: "(string \<times> string) list \<Rightarrow> reset_state \<Rightarrow> reset_state" where
  "reset_cfg_load items g =
     (if rs_cfg_loaded g then g
      else g\<lparr>rs_restart_service := config_get_int items ''RESET_RESTART_SERVICE'' 1,
             rs_reboot_system := config_get_int items ''RESET_REBOOT_SYSTEM'' 0, rs_cfg_loaded := True\<rparr>)"

text \<open>A child process that runs the command after two seconds, when there is one: the list holds the commands that are waiting.\<close>

definition reset_schedule_action :: "bool \<Rightarrow> string list \<Rightarrow> string list list \<Rightarrow> string list list" where
  "reset_schedule_action fork_ok argv actions = (if \<not> fork_ok then actions else actions @ [argv])"

definition reset_init :: "reset_state \<Rightarrow> int \<times> reset_state" where
  "reset_init g = (if rs_initialized g then (SUCCESS, g) else (SUCCESS, g\<lparr>rs_initialized := True\<rparr>))"

definition reset_cleanup :: "reset_state \<Rightarrow> reset_state" where
  "reset_cleanup g = (if \<not> rs_initialized g then g else g\<lparr>rs_initialized := False\<rparr>)"

definition reset_validate_indication :: "u32 \<Rightarrow> int" where
  "reset_validate_indication reset_type = (if reset_type > RESET_TYPE_HARD then RESET_ERR_INVALID_TYPE else SUCCESS)"

record reset_parse_result =
  rp_msg_id :: u16
  rp_timestamp :: string
  rp_source_ip :: string
  rp_parse_status :: int
  rp_reset_type :: u32

definition reset_result_zero :: reset_parse_result where
  "reset_result_zero = \<lparr>rp_msg_id = 0, rp_timestamp = [], rp_source_ip = [], rp_parse_status = 0, rp_reset_type = 0\<rparr>"

definition reset_parse_indication :: "string \<Rightarrow> bytes \<Rightarrow> reset_parse_result \<Rightarrow> (int \<times> reset_parse_result) option" where
  "reset_parse_indication timestamp data result =
     (if length data < 4 then Some (RESET_ERR_FORMAT, result)
      else do {
        reset_type \<leftarrow> read_le32 data 0;
        let result = reset_result_zero;
        let result = result\<lparr>rp_msg_id := ucast (cpri_msg_code MSG_RESET_IND), rp_timestamp := take 31 timestamp, rp_reset_type := reset_type\<rparr>;
        let ret = reset_validate_indication reset_type;
        Some (ret, result\<lparr>rp_parse_status := ret\<rparr>) })"

definition reset_alarm :: "int \<Rightarrow> u32 \<times> string" where
  "reset_alarm error_code =
     (if error_code = RESET_ERR_FORMAT then (70001, ''Reset message format error'')
      else if error_code = RESET_ERR_PERMISSION then (70002, ''Reset permission denied'')
      else if error_code = RESET_ERR_OUT_OF_RANGE then (70003, ''Reset field out of range'')
      else if error_code = RESET_ERR_INVALID_TYPE then (70004, ''Invalid reset type'')
      else (70001, ''Unknown error''))"

definition trigger_reset_parse_alarm :: "alarm_env \<Rightarrow> int \<Rightarrow> alarm_manager \<Rightarrow> alarm_manager" where
  "trigger_reset_parse_alarm env error_code am =
     (case reset_alarm error_code of (alarm_code, error_desc) \<Rightarrow> snd (alarm_trigger env am alarm_code 0 (Some error_desc)))"

text \<open>The state: the module, the serial port, the alarms, the commands that are waiting and the audit log.\<close>

type_synonym reset_run = "reset_state \<times> port \<times> alarm_manager \<times> string list list \<times> reset_parse_result list"

definition handle_reset_indication :: "alarm_env \<Rightarrow> (string \<times> string) list \<Rightarrow> bool \<Rightarrow> string \<Rightarrow> bytes \<Rightarrow> string option \<Rightarrow> u16 \<Rightarrow> reset_run
    \<Rightarrow> (int \<times> reset_run) option" where
  "handle_reset_indication env items fork_ok timestamp ind_ie source_ip msg_id st =
     (case st of (g, uart, am, actions, audit) \<Rightarrow>
        if \<not> rs_initialized g then Some (ERROR_NOT_INITIALIZED, st)
        else do {
          let parse_result = reset_result_zero\<lparr>rp_msg_id := msg_id, rp_source_ip := (case source_ip of Some ip \<Rightarrow> take 15 ip | None \<Rightarrow> [])\<rparr>;
          (ret, parse_result) \<leftarrow> reset_parse_indication timestamp (take 4 ind_ie) parse_result;
          let audit = audit @ [parse_result];
          if ret \<noteq> SUCCESS then Some (ret, g, uart, trigger_reset_parse_alarm env ret am, actions, audit)
          else do {
            reset_type \<leftarrow> read_le32 ind_ie 0;
            let g = reset_cfg_load items g;
            if reset_type = RESET_TYPE_SOFT
            then do {
              (fpga_ret, uart) \<leftarrow> fpga_send_phase_restore uart reset_type;
              if fpga_ret \<noteq> SUCCESS then Some (ERROR_GENERAL, g, uart, am, actions, audit)
              else Some (SUCCESS, g, uart, am,
                if rs_restart_service g \<noteq> 0 then reset_schedule_action fork_ok [''systemctl'', ''restart'', ''antenna-mgmt.service''] actions
                else actions, audit) }
            else if reset_type = RESET_TYPE_HARD
            then do {
              (fpga_ret, uart) \<leftarrow> fpga_send_phase_restore uart reset_type;
              if fpga_ret \<noteq> SUCCESS then Some (ERROR_GENERAL, g, uart, am, actions, audit)
              else Some (SUCCESS, g, uart, am,
                if rs_reboot_system g \<noteq> 0 then reset_schedule_action fork_ok [''shutdown'', ''-r'', ''now''] actions else actions, audit) }
            else Some (SUCCESS, g, uart, am, actions, audit) } })"

text \<open>The handlers of the two messages differ in the number that they pass on.\<close>

definition reset_request :: "cpri_msg_type \<Rightarrow> alarm_env \<Rightarrow> (string \<times> string) list \<Rightarrow> bool \<Rightarrow> string \<Rightarrow> pool \<Rightarrow> cpri_message \<Rightarrow> reset_run
    \<Rightarrow> (int \<times> reset_run) option" where
  "reset_request m env items fork_ok timestamp pool msg st =
     (if cm_payload msg = None then Some (ERROR_INVALID_PARAM, st)
      else if cm_payload_len msg < 4 + 4 then Some (ERROR_INVALID_PARAM, st)
      else handle_reset_indication env items fork_ok timestamp (drop 4 (message_bytes pool msg))
             (config_get_string items ''BBU_IP'' (Some ''unknown'')) (ucast (cpri_msg_code m)) st)"

definition handle_reset_ind :: "alarm_env \<Rightarrow> (string \<times> string) list \<Rightarrow> bool \<Rightarrow> string \<Rightarrow> pool \<Rightarrow> cpri_message \<Rightarrow> reset_run
    \<Rightarrow> (int \<times> reset_run) option" where
  "handle_reset_ind = reset_request MSG_RESET_IND"

definition handle_remote_reset_ind :: "alarm_env \<Rightarrow> (string \<times> string) list \<Rightarrow> bool \<Rightarrow> string \<Rightarrow> pool \<Rightarrow> cpri_message \<Rightarrow> reset_run
    \<Rightarrow> (int \<times> reset_run) option" where
  "handle_remote_reset_ind = reset_request MSG_REMOTE_PAAU_RESET_IND"

subsection \<open>Loopback\<close>

abbreviation (input) LOOPBACK_TYPE_DISABLE :: u8 where "LOOPBACK_TYPE_DISABLE \<equiv> 3"
abbreviation (input) MAX_PORT_NUMBER :: u8 where "MAX_PORT_NUMBER \<equiv> 7"
abbreviation (input) LOOPBACK_RESULT_SUCCESS :: u8 where "LOOPBACK_RESULT_SUCCESS \<equiv> 0"
abbreviation (input) LOOPBACK_RESULT_NOT_SUPPORT :: u8 where "LOOPBACK_RESULT_NOT_SUPPORT \<equiv> 1"
abbreviation (input) LOOPBACK_ERR_FORMAT :: int where "LOOPBACK_ERR_FORMAT \<equiv> - 1001"
abbreviation (input) LOOPBACK_ERR_PERMISSION :: int where "LOOPBACK_ERR_PERMISSION \<equiv> - 1002"
abbreviation (input) LOOPBACK_ERR_OUT_OF_RANGE :: int where "LOOPBACK_ERR_OUT_OF_RANGE \<equiv> - 1003"
abbreviation (input) LOOPBACK_ERR_INVALID_TYPE :: int where "LOOPBACK_ERR_INVALID_TYPE \<equiv> - 1004"
abbreviation (input) LOOPBACK_ERR_INVALID_PORT :: int where "LOOPBACK_ERR_INVALID_PORT \<equiv> - 1005"
abbreviation (input) LOOPBACK_ERR_INVALID_BEAM :: int where "LOOPBACK_ERR_INVALID_BEAM \<equiv> - 1006"

record ie_loopback_req =
  lb_loopback_type :: u8
  lb_test_period :: u16
  lb_port_number :: u8
  lb_beam_number :: u8

record loopback_parse_result =
  lp_msg_id :: u16
  lp_timestamp :: string
  lp_source_ip :: string
  lp_parse_status :: int
  lp_request :: ie_loopback_req

definition loopback_init :: "bool \<Rightarrow> int \<times> bool" where
  "loopback_init initialized = (if initialized then (SUCCESS, initialized) else (SUCCESS, True))"

definition loopback_cleanup :: "bool \<Rightarrow> bool" where
  "loopback_cleanup initialized = (if \<not> initialized then initialized else False)"

definition read_loopback_req :: "bytes \<Rightarrow> ie_loopback_req option" where
  "read_loopback_req data = do {
     loopback_type \<leftarrow> arr_get data 0;
     test_period \<leftarrow> read_le16 data 1;
     port_number \<leftarrow> arr_get data 3;
     beam_number \<leftarrow> arr_get data 4;
     Some \<lparr>lb_loopback_type = loopback_type, lb_test_period = test_period, lb_port_number = port_number, lb_beam_number = beam_number\<rparr> }"

definition loopback_validate_request :: "ie_loopback_req \<Rightarrow> int" where
  "loopback_validate_request req =
     (if lb_loopback_type req > LOOPBACK_TYPE_DISABLE then LOOPBACK_ERR_INVALID_TYPE
      else if lb_port_number req > MAX_PORT_NUMBER then LOOPBACK_ERR_INVALID_PORT
      else SUCCESS)"

definition loopback_parse_request :: "string \<Rightarrow> bytes \<Rightarrow> loopback_parse_result \<Rightarrow> (int \<times> loopback_parse_result) option" where
  "loopback_parse_request timestamp data result =
     (if length data < 5 then Some (LOOPBACK_ERR_FORMAT, result)
      else do {
        request \<leftarrow> read_loopback_req data;
        let ret = loopback_validate_request request;
        Some (ret, \<lparr>lp_msg_id = ucast (cpri_msg_code MSG_LOOPBACK_REQ), lp_timestamp = take 31 timestamp, lp_source_ip = [],
          lp_parse_status = ret, lp_request = request\<rparr>) })"

definition loopback_alarm :: "int \<Rightarrow> u32 \<times> string" where
  "loopback_alarm error_code =
     (if error_code = LOOPBACK_ERR_FORMAT then (60001, ''Loopback message format error'')
      else if error_code = LOOPBACK_ERR_PERMISSION then (60002, ''Loopback permission denied'')
      else if error_code = LOOPBACK_ERR_OUT_OF_RANGE then (60003, ''Loopback field out of range'')
      else if error_code = LOOPBACK_ERR_INVALID_TYPE then (60004, ''Invalid loopback type'')
      else if error_code = LOOPBACK_ERR_INVALID_PORT then (60005, ''Invalid port number'')
      else if error_code = LOOPBACK_ERR_INVALID_BEAM then (60006, ''Invalid beam number'')
      else (60001, ''Unknown error''))"

definition trigger_loopback_parse_alarm :: "alarm_env \<Rightarrow> int \<Rightarrow> alarm_manager \<Rightarrow> alarm_manager" where
  "trigger_loopback_parse_alarm env error_code am =
     (case loopback_alarm error_code of (alarm_code, error_desc) \<Rightarrow> snd (alarm_trigger env am alarm_code 0 (Some error_desc)))"

definition send_loopback_response :: "cpri_msg_header \<Rightarrow> ie_loopback_req \<Rightarrow> u8 \<Rightarrow> port \<Rightarrow> (int \<times> port) option" where
  "send_loopback_response req_header req_ie result p =
     encode_and_send 2048 (answer_header MSG_LOOPBACK_REQ_RSP req_header)
       (le16 0x583 @ le16 (4 + 4) @ [lb_loopback_type req_ie, lb_port_number req_ie, lb_beam_number req_ie, result]) p"

text \<open>The state: whether the module is initialised, the serial port, the connection, the alarms and the audit log.\<close>

type_synonym loopback_run = "bool \<times> port \<times> port \<times> alarm_manager \<times> loopback_parse_result list"

definition handle_loopback_request :: "alarm_env \<Rightarrow> string \<Rightarrow> cpri_msg_header \<Rightarrow> bytes \<Rightarrow> string option \<Rightarrow> loopback_run
    \<Rightarrow> (int \<times> loopback_run) option" where
  "handle_loopback_request env timestamp req_header data source_ip st =
     (case st of (initialized, uart, tcp, am, audit) \<Rightarrow>
        if \<not> initialized then Some (ERROR_NOT_INITIALIZED, st)
        else do {
          req_ie \<leftarrow> read_loopback_req data;
          let parse_result = \<lparr>lp_msg_id = 0, lp_timestamp = [], lp_source_ip = (case source_ip of Some ip \<Rightarrow> take 15 ip | None \<Rightarrow> []), lp_parse_status = 0,
             lp_request = \<lparr>lb_loopback_type = 0, lb_test_period = 0, lb_port_number = 0, lb_beam_number = 0\<rparr>\<rparr>;
          (ret, parse_result) \<leftarrow> loopback_parse_request timestamp (take 5 data) parse_result;
          let audit = audit @ [parse_result];
          if ret \<noteq> SUCCESS
          then do {
            let am = trigger_loopback_parse_alarm env ret am;
            (sent, tcp) \<leftarrow> send_loopback_response req_header req_ie LOOPBACK_RESULT_NOT_SUPPORT tcp;
            Some (ret, initialized, uart, tcp, am, audit) }
          else do {
            (fpga_ret, uart) \<leftarrow> fpga_send_loopback uart (lb_loopback_type req_ie);
            (ret, tcp) \<leftarrow> send_loopback_response req_header req_ie
               (if fpga_ret \<noteq> SUCCESS then LOOPBACK_RESULT_NOT_SUPPORT else LOOPBACK_RESULT_SUCCESS) tcp;
            Some (ret, initialized, uart, tcp, am, audit) } })"

definition handle_loopback_req :: "alarm_env \<Rightarrow> (string \<times> string) list \<Rightarrow> string \<Rightarrow> pool \<Rightarrow> cpri_message \<Rightarrow> loopback_run \<Rightarrow> (int \<times> loopback_run) option" where
  "handle_loopback_req env items timestamp pool msg st =
     (if cm_payload msg = None then Some (ERROR_INVALID_PARAM, st)
      else if cm_payload_len msg < 4 + 5 then Some (ERROR_INVALID_PARAM, st)
      else handle_loopback_request env timestamp (cm_header msg) (drop 4 (message_bytes pool msg))
             (config_get_string items ''BBU_IP'' (Some ''unknown'')) st)"

subsection \<open>Calibration\<close>

definition phased_array_calib_init :: "bool \<Rightarrow> int \<times> bool" where
  "phased_array_calib_init initialized = (if initialized then (SUCCESS, initialized) else (SUCCESS, True))"

definition phased_array_calib_cleanup :: "bool \<Rightarrow> bool" where
  "phased_array_calib_cleanup initialized = (if \<not> initialized then initialized else False)"

definition send_phased_array_calib_ack :: "cpri_msg_header \<Rightarrow> u8 \<Rightarrow> port \<Rightarrow> (int \<times> port) option" where
  "send_phased_array_calib_ack req_header result p =
     encode_and_send 256 (answer_header MSG_PHASED_ARRAY_CALIB_IND_ACK req_header) (le16 0x2F9 @ le16 (4 + 1) @ [result]) p"

definition handle_phased_array_calib_request :: "cpri_msg_header \<Rightarrow> bool \<times> port \<times> port \<Rightarrow> (int \<times> bool \<times> port \<times> port) option" where
  "handle_phased_array_calib_request req_header st =
     (case st of (initialized, uart, tcp) \<Rightarrow>
        if \<not> initialized then Some (ERROR_NOT_INITIALIZED, st)
        else do {
          (fpga_ret, uart) \<leftarrow> fpga_send_calibration uart 0;
          (ret, tcp) \<leftarrow> send_phased_array_calib_ack req_header (if fpga_ret \<noteq> SUCCESS then 1 else 0) tcp;
          Some (ret, initialized, uart, tcp) })"

definition handle_phased_array_calib_req :: "cpri_message \<Rightarrow> bool \<times> port \<times> port \<Rightarrow> (int \<times> bool \<times> port \<times> port) option" where
  "handle_phased_array_calib_req msg st =
     (if cm_payload msg = None then Some (ERROR_INVALID_PARAM, st) else handle_phased_array_calib_request (cm_header msg) st)"

subsection \<open>What goes out\<close>

lemma encode_and_send_frame:
  assumes "15 + length payload \<le> unat n" "unat n < 2 ^ 31"
  shows "encode_and_send n h payload p = Some (SUCCESS, snd (tcp_client_send p (cpri_frame h payload)))"
proof -
  define x where "x = \<lparr>cm_header = h, cm_payload = Some (Outside payload), cm_payload_len = of_nat (length payload)\<rparr>"
  have n: "unat (cm_payload_len x) = length payload" using assms by (simp add: x_def u32_of_nat)
  have pl: "cpri_payload [] x = payload" using n by (simp add: cpri_payload_def x_def payload_bytes_def)
  have "cpri_msg_ok [] x" unfolding cpri_msg_ok_def pl n by simp
  then have "cpri_encode_message [] x (replicate (unat n) 0) n
      = Some (int (15 + length payload), cpri_frame h payload @ drop (15 + length payload) (replicate (unat n) 0))"
    using pl n assms by (subst cpri_encode_frame) (simp_all add: x_def)
  moreover have "length (cpri_frame h payload) = 15 + length payload" by (simp add: cpri_frame_length)
  ultimately show ?thesis unfolding encode_and_send_def x_def [symmetric] by simp
qed

definition loopback_answer :: "cpri_msg_header \<Rightarrow> ie_loopback_req \<Rightarrow> u8 \<Rightarrow> bytes" where
  "loopback_answer h req result = cpri_frame (answer_header MSG_LOOPBACK_REQ_RSP h)
     (ie_bytes [(0x583, [lb_loopback_type req, lb_port_number req, lb_beam_number req, result])])"

definition calib_answer :: "cpri_msg_header \<Rightarrow> u8 \<Rightarrow> bytes" where
  "calib_answer h result = cpri_frame (answer_header MSG_PHASED_ARRAY_CALIB_IND_ACK h) (ie_bytes [(0x2F9, [result])])"

lemma control_answers:
  "send_loopback_response h req r p = Some (SUCCESS, snd (tcp_client_send p (loopback_answer h req r)))"
  "send_phased_array_calib_ack h r p = Some (SUCCESS, snd (tcp_client_send p (calib_answer h r)))"
  by (simp_all add: send_loopback_response_def send_phased_array_calib_ack_def encode_and_send_frame loopback_answer_def calib_answer_def)

subsection \<open>Properties\<close>

lemma read_le32_drop: "read_le32 buf 4 = Some w \<Longrightarrow> read_le32 (drop 4 buf) 0 = Some w \<and> read_le32 (take 4 (drop 4 buf)) 0 = Some w \<and> 8 \<le> length buf"
  by (auto simp: read_le32_def arr_get_def bind_eq_Some_conv split: if_splits)

definition reset_actions :: "reset_state \<Rightarrow> u32 \<Rightarrow> string list list" where
  "reset_actions g reset_type =
     (if reset_type = RESET_TYPE_SOFT \<and> rs_restart_service g \<noteq> 0 then [[''systemctl'', ''restart'', ''antenna-mgmt.service'']]
      else if reset_type = RESET_TYPE_HARD \<and> rs_reboot_system g \<noteq> 0 then [[''shutdown'', ''-r'', ''now'']]
      else [])"

lemma reset_run_cases:
  assumes "rs_initialized g" "read_le32 buf 4 = Some ty"
  shows "\<exists>entry. rp_source_ip entry = [] \<and> rp_msg_id entry = 141 \<and> rp_reset_type entry = ty
    \<and> handle_reset_indication env items True ts (drop 4 buf) ip i (g, uart, am, actions, audit) = Some
      (if ty \<le> RESET_TYPE_HARD
       then (case uart_client_send uart (fpga_frame 5 (be32 ty)) of (sent, uart') \<Rightarrow>
           if sent = SUCCESS then (SUCCESS, reset_cfg_load items g, uart', am, actions @ reset_actions (reset_cfg_load items g) ty, audit @ [entry])
           else (ERROR_GENERAL, reset_cfg_load items g, uart', am, actions, audit @ [entry]))
       else (RESET_ERR_INVALID_TYPE, g, uart, snd (alarm_trigger env am 70004 0 (Some ''Invalid reset type'')), actions, audit @ [entry]))"
proof -
  define ret where "ret = reset_validate_indication ty"
  define entry where "entry = reset_result_zero\<lparr>rp_msg_id := 141, rp_timestamp := take 31 ts, rp_reset_type := ty, rp_parse_status := ret\<rparr>"
  have r: "read_le32 (drop 4 buf) 0 = Some ty" "reset_parse_indication ts (take 4 (drop 4 buf)) x = Some (ret, entry)" for x
    using read_le32_drop [OF assms(2)] by (auto simp: reset_parse_indication_def ret_def entry_def Let_def)
  have e: "rp_source_ip entry = []" "rp_msg_id entry = 141" "rp_reset_type entry = ty" by (simp_all add: entry_def reset_result_zero_def)
  note defs = handle_reset_indication_def r assms(1) Let_def ret_def reset_validate_indication_def fpga_commands reset_actions_def
    reset_schedule_action_def trigger_reset_parse_alarm_def reset_alarm_def
  have "unat ty = 0 \<or> unat ty = 1 \<or> 1 < unat ty" by linarith
  then consider "ty = 0" | "ty = 1" | "ty > 1" by (auto simp: word_less_nat_alt word_unat_eq_iff)
  then show ?thesis
  proof cases
    case 3
    then have "ty \<noteq> 0" "ty \<noteq> 1" "\<not> ty \<le> 1" by auto
    then show ?thesis using e by (intro exI [of _ entry]) (simp add: defs)
  qed (use e in \<open>(intro exI [of _ entry], auto simp: defs split: prod.split)+\<close>)
qed

text \<open>A reset is passed on to the FPGA and answered with success exactly when the serial line took the whole command; only then the service or the system
  is started again, as the configuration says. An unknown kind of reset does nothing but raise its alarm. The remote reset
  is treated in the same way, and the audit log of both shows neither its number nor where it came from.\<close>

theorem reset_obeyed:
  assumes "rs_initialized g" "cm_payload msg \<noteq> None" "8 \<le> unat (cm_payload_len msg)" "read_le32 (message_bytes pool msg) 4 = Some ty"
  shows "handle_remote_reset_ind env items True ts pool msg (g, uart, am, actions, audit) = handle_reset_ind env items True ts pool msg (g, uart, am, actions, audit)
   \<and> (\<exists>entry. rp_source_ip entry = [] \<and> rp_msg_id entry = 141 \<and> rp_reset_type entry = ty
     \<and> handle_reset_ind env items True ts pool msg (g, uart, am, actions, audit) = Some
      (if ty \<le> RESET_TYPE_HARD
       then (case uart_client_send uart (fpga_frame 5 (be32 ty)) of (sent, uart') \<Rightarrow>
           if sent = SUCCESS then (SUCCESS, reset_cfg_load items g, uart', am, actions @ reset_actions (reset_cfg_load items g) ty, audit @ [entry])
           else (ERROR_GENERAL, reset_cfg_load items g, uart', am, actions, audit @ [entry]))
       else (RESET_ERR_INVALID_TYPE, g, uart, snd (alarm_trigger env am 70004 0 (Some ''Invalid reset type'')), actions, audit @ [entry])))"
proof -
  let ?st = "(g, uart, am, actions, audit)"
  have l: "\<not> cm_payload_len msg < 4 + 4" using assms(3) by (simp add: word_less_nat_alt)
  have h: "reset_request m env items True ts pool msg ?st = handle_reset_indication env items True ts (drop 4 (message_bytes pool msg))
      (config_get_string items ''BBU_IP'' (Some ''unknown'')) (ucast (cpri_msg_code m)) ?st" for m
    using assms(2) l unfolding reset_request_def by auto
  have same: "handle_reset_indication env items True ts (drop 4 (message_bytes pool msg)) ip i ?st = handle_reset_indication env items True ts (drop 4 (message_bytes pool msg)) ip j ?st"
    for ip i j using read_le32_drop [OF assms(4)] by (auto simp: handle_reset_indication_def reset_parse_indication_def Let_def)
  show ?thesis unfolding handle_reset_ind_def handle_remote_reset_ind_def h
    using same reset_run_cases [OF assms(1,4)] by blast
qed

definition control_header :: cpri_msg_header where
  "control_header = \<lparr>ch_msg_id = 141, ch_msg_length = 0, ch_paau_id = 1, ch_bbu_id = 2, ch_port_num = 3, ch_serial_num = 4\<rparr>"

definition control_message :: "bytes \<Rightarrow> cpri_message" where
  "control_message d = \<lparr>cm_header = control_header, cm_payload = Some (Outside d), cm_payload_len = of_nat (length d)\<rparr>"

definition line_example :: port where
  "line_example = \<lparr>po_open = True, po_script = [], po_out = []\<rparr>"

lemma control_message_bytes [simp]: "message_bytes [] (control_message d) = d" "cm_payload (control_message d) \<noteq> None"
    "cm_payload_len (control_message d) = of_nat (length d)" "cm_header (control_message d) = control_header"
  by (simp_all add: control_message_def message_bytes_def payload_bytes_def)

lemma line_takes: "uart_client_send line_example (fpga_frame c d) = (SUCCESS, line_example\<lparr>po_out := fpga_frame c d\<rparr>)"
  by (cases "fpga_frame c d") (simp_all add: uart_client_send_def line_example_def fpga_frame_def be16_def)

theorem reset_obeyed_witness:
  "\<forall>env am. \<exists>st. handle_reset_ind env [] True ''t'' [] (control_message (le16 0x515 @ le16 8 @ le32 0))
     (\<lparr>rs_initialized = True, rs_restart_service = 1, rs_reboot_system = 0, rs_cfg_loaded = False\<rparr>, line_example, am, [], [])
     = Some (SUCCESS, st) \<and> fst (snd (snd (snd st))) = [[''systemctl'', ''restart'', ''antenna-mgmt.service'']]"
proof (intro allI)
  fix env am
  let ?g = "\<lparr>rs_initialized = True, rs_restart_service = 1, rs_reboot_system = 0, rs_cfg_loaded = False\<rparr> :: reset_state"
  let ?m = "control_message (le16 0x515 @ le16 8 @ le32 0)"
  have r: "read_le32 (message_bytes [] ?m) 4 = Some 0" by (simp add: read_le32_def arr_get_def le16_def le32_def of_le32_def)
  show "\<exists>st. handle_reset_ind env [] True ''t'' [] ?m (?g, line_example, am, [], []) = Some (SUCCESS, st) \<and> fst (snd (snd (snd st))) = [[''systemctl'', ''restart'', ''antenna-mgmt.service'']]"
    using reset_obeyed [of ?g ?m "[]" 0, OF _ _ _ r, of env "[]" "''t''" line_example am "[]" "[]"]
    by (auto simp: le16_def le32_def line_takes reset_actions_def reset_cfg_load_def config_get_int_def config_get_string_def)
qed

text \<open>A request for a loopback gets exactly one answer that repeats its type, port and beam. A valid one is passed on to the FPGA, and the result is success
  exactly when the serial line took the command; an invalid one raises the alarm for its error and the FPGA gets nothing.\<close>

theorem loopback_answered:
  assumes "cm_payload msg \<noteq> None" "9 \<le> unat (cm_payload_len msg)" "read_loopback_req (drop 4 (message_bytes pool msg)) = Some req"
  defines "err \<equiv> loopback_validate_request req"
  shows "\<exists>entry. lp_request entry = req \<and> lp_source_ip entry = []
     \<and> handle_loopback_req env items ts pool msg (True, uart, tcp, am, audit) = Some
      (if lb_loopback_type req \<le> 3 \<and> lb_port_number req \<le> 7
       then (case uart_client_send uart (fpga_frame 7 [lb_loopback_type req]) of (sent, uart') \<Rightarrow>
          (SUCCESS, True, uart', snd (tcp_client_send tcp (loopback_answer (cm_header msg) req (if sent = SUCCESS then 0 else 1))), am, audit @ [entry]))
       else (if lb_loopback_type req \<le> 3 then LOOPBACK_ERR_INVALID_PORT else LOOPBACK_ERR_INVALID_TYPE, True, uart,
          snd (tcp_client_send tcp (loopback_answer (cm_header msg) req 1)),
          (if lb_loopback_type req \<le> 3 then snd (alarm_trigger env am 60005 0 (Some ''Invalid port number''))
           else snd (alarm_trigger env am 60004 0 (Some ''Invalid loopback type''))), audit @ [entry]))"
proof -
  have l: "\<not> cm_payload_len msg < 4 + 5" using assms(2) by (simp add: word_less_nat_alt)
  let ?d = "drop 4 (message_bytes pool msg)"
  have n: "5 \<le> length ?d" "read_loopback_req (take 5 ?d) = Some req"
    using assms(3) by (auto simp: read_loopback_req_def read_le16_def arr_get_def bind_eq_Some_conv split: if_splits)
  define entry where "entry = \<lparr>lp_msg_id = 81, lp_timestamp = take 31 ts, lp_source_ip = [], lp_parse_status = err, lp_request = req\<rparr>"
  have p: "loopback_parse_request ts (take 5 ?d) x = Some (err, entry)" for x
    using n by (simp add: loopback_parse_request_def entry_def err_def Let_def)
  have "lp_request entry = req" "lp_source_ip entry = []" by (simp_all add: entry_def)
  then show ?thesis using assms(1) l
    by (intro exI [of _ entry]) (auto simp: handle_loopback_req_def handle_loopback_request_def assms(3) p Let_def control_answers fpga_commands err_def
        loopback_validate_request_def trigger_loopback_parse_alarm_def loopback_alarm_def split: prod.split)
qed

theorem loopback_answered_witness:
  "\<forall>env am. \<exists>uart' audit'. handle_loopback_req env [] ''t'' [] (control_message (le16 0x579 @ le16 9 @ [2, 0, 0, 1, 5])) (True, line_example, line_example, am, [])
     = Some (SUCCESS, True, uart', snd (tcp_client_send line_example (loopback_answer control_header
         \<lparr>lb_loopback_type = 2, lb_test_period = 0, lb_port_number = 1, lb_beam_number = 5\<rparr> 0)), am, audit')"
proof (intro allI)
  fix env am
  let ?m = "control_message (le16 0x579 @ le16 9 @ [2, 0, 0, 1, 5])"
  let ?r = "\<lparr>lb_loopback_type = 2, lb_test_period = 0, lb_port_number = 1, lb_beam_number = 5\<rparr>"
  have r: "read_loopback_req (drop 4 (message_bytes [] ?m)) = Some ?r"
    by (simp add: read_loopback_req_def read_le16_def arr_get_def le16_def of_le16_def)
  show "\<exists>uart' audit'. handle_loopback_req env [] ''t'' [] ?m (True, line_example, line_example, am, [])
     = Some (SUCCESS, True, uart', snd (tcp_client_send line_example (loopback_answer control_header ?r 0)), am, audit')"
    using loopback_answered [of ?m "[]" ?r, OF _ _ r, of env "[]" "''t''" line_example line_example am "[]"]
    by (auto simp: le16_def line_takes)
qed

text \<open>A calibration is passed on and answered with whether the serial line took the command.\<close>

theorem calibration_answered:
  assumes "cm_payload msg \<noteq> None"
  shows "handle_phased_array_calib_req msg (True, uart, tcp) = Some (case uart_client_send uart (fpga_frame 6 (be32 0)) of (sent, uart') \<Rightarrow>
      (SUCCESS, True, uart', snd (tcp_client_send tcp (calib_answer (cm_header msg) (if sent = SUCCESS then 0 else 1)))))"
  using assms by (auto simp: handle_phased_array_calib_req_def handle_phased_array_calib_request_def fpga_commands control_answers split: prod.split)

theorem calibration_answered_witness:
  "\<exists>uart' tcp'. handle_phased_array_calib_req (control_message []) (True, line_example, line_example) = Some (SUCCESS, True, uart', tcp')"
  using calibration_answered [of "control_message []" line_example line_example] by (auto split: prod.splits)

end
