(* ===== verification/TransparentMsg.thy ===== *)
theory TransparentMsg
  imports ControlMessages
begin

text \<open>
  Transparent messages, from transparent_msg.c with the handler of msg_handler.c: the content of a message of the baseband unit is written
  to the FPGA as it is and, when this is configured, sent back.
\<close>

subsection \<open>The module\<close>

abbreviation (input) TRANSPARENT_CONTENT_MAX_LEN :: nat where "TRANSPARENT_CONTENT_MAX_LEN \<equiv> 1024"
abbreviation (input) IE_TRANSPARENT_TARGET :: u16 where "IE_TRANSPARENT_TARGET \<equiv> 0x641"
abbreviation (input) IE_TRANSPARENT_CONTENT :: u16 where "IE_TRANSPARENT_CONTENT \<equiv> 0x642"
abbreviation (input) TRANSPARENT_TARGET_OMC :: u8 where "TRANSPARENT_TARGET_OMC \<equiv> 0"

record transparent_state =
  tp_initialized :: bool
  tp_enable :: int
  tp_auto_reply :: int
  tp_cfg_loaded :: bool

definition transparent_cfg_load :: "(string \<times> string) list \<Rightarrow> transparent_state \<Rightarrow> transparent_state" where
  "transparent_cfg_load items g =
     (if tp_cfg_loaded g then g
      else g\<lparr>tp_enable := config_get_int items ''TRANSPARENT_ENABLE'' 1, tp_auto_reply := config_get_int items ''TRANSPARENT_AUTO_REPLY'' 1,
             tp_cfg_loaded := True\<rparr>)"

definition transparent_msg_init :: "transparent_state \<Rightarrow> int \<times> transparent_state" where
  "transparent_msg_init g = (if tp_initialized g then (SUCCESS, g) else (SUCCESS, g\<lparr>tp_initialized := True\<rparr>))"

definition transparent_msg_cleanup :: "transparent_state \<Rightarrow> transparent_state" where
  "transparent_msg_cleanup g = (if \<not> tp_initialized g then g else g\<lparr>tp_initialized := False\<rparr>)"

subsection \<open>Parsing\<close>

record transparent_message =
  tm_target_id :: u8
  tm_content :: bytes
  tm_content_len :: u16
  tm_effective_len :: u16

definition message_zero :: transparent_message where
  "message_zero = \<lparr>tm_target_id = TRANSPARENT_TARGET_OMC, tm_content = replicate TRANSPARENT_CONTENT_MAX_LEN 0, tm_content_len = 0, tm_effective_len = 0\<rparr>"

text \<open>The loop backwards over trailing zeros; the length is 16 bits wide and only counts down.\<close>

fun effective_from :: "bytes \<Rightarrow> nat \<Rightarrow> nat option" where
  "effective_from content 0 = Some 0"
| "effective_from content (Suc len) = do { b \<leftarrow> arr_get content len; if b = 0 then effective_from content len else Some (Suc len) }"

definition calc_effective_len :: "bytes \<Rightarrow> u16 \<Rightarrow> u16 option" where
  "calc_effective_len content content_len = map_option of_nat (effective_from content (unat content_len))"

text \<open>The body of the loop: the message and whether the elements for the target and the content were found.\<close>

type_synonym transparent_scan = "transparent_message \<times> bool \<times> bool"

definition transparent_ie :: "bytes \<Rightarrow> u16 \<Rightarrow> nat \<Rightarrow> nat \<Rightarrow> transparent_scan \<Rightarrow> transparent_scan option" where
  "transparent_ie payload ie_type ie_data ie_data_len st =
     (case st of (data, has_target_ie, has_content_ie) \<Rightarrow>
        if ie_type = IE_TRANSPARENT_TARGET
        then if ie_data_len \<ge> 1 then do { b \<leftarrow> arr_get payload ie_data; Some (data\<lparr>tm_target_id := b\<rparr>, True, has_content_ie) } else Some st
        else if ie_type = IE_TRANSPARENT_CONTENT
        then do {
          let copy_len = (if ie_data_len > TRANSPARENT_CONTENT_MAX_LEN then TRANSPARENT_CONTENT_MAX_LEN else ie_data_len);
          content \<leftarrow> mem_copy (tm_content data) 0 payload ie_data copy_len;
          Some (data\<lparr>tm_content := content, tm_content_len := of_nat copy_len\<rparr>, has_target_ie, True) }
        else Some st)"

text \<open>The sum of the offset and the header is taken in 64 bits, the sum of the offset and the length in 32.\<close>

partial_function (option) transparent_loop :: "bytes \<Rightarrow> u32 \<Rightarrow> u32 \<Rightarrow> transparent_scan \<Rightarrow> (int \<times> transparent_scan) option" where
  "transparent_loop payload payload_len offset st =
     (if unat offset + 4 \<le> unat payload_len
      then do {
        ie_type \<leftarrow> read_le16 payload (unat offset);
        ie_length \<leftarrow> read_le16 payload (unat offset + 2);
        if ie_length < 4 then Some (ERROR_INVALID_PARAM, st)
        else if offset + ucast ie_length > payload_len then Some (ERROR_INVALID_PARAM, st)
        else do {
          st \<leftarrow> transparent_ie payload ie_type (unat offset + 4) (unat ie_length - 4) st;
          transparent_loop payload payload_len (offset + ucast ie_length) st } }
      else Some (SUCCESS, st))"

definition transparent_msg_parse :: "bytes \<Rightarrow> u32 \<Rightarrow> (int \<times> transparent_message) option" where
  "transparent_msg_parse payload payload_len =
     (if payload_len < 4 then Some (ERROR_INVALID_PARAM, message_zero)
      else do {
        (ret, data, has_target_ie, has_content_ie) \<leftarrow> transparent_loop payload payload_len 0 (message_zero, False, False);
        if ret \<noteq> SUCCESS then Some (ret, data)
        else if \<not> has_content_ie then Some (ERROR_INVALID_PARAM, data)
        else do {
          effective_len \<leftarrow> calc_effective_len (tm_content data) (tm_content_len data);
          Some (SUCCESS, data\<lparr>tm_effective_len := effective_len\<rparr>) } })"

subsection \<open>Handling\<close>

text \<open>The state: the module, the serial port and the connection.\<close>

type_synonym transparent_run = "transparent_state \<times> port \<times> port"

definition send_transparent_paau_to_bbu :: "transparent_state \<Rightarrow> u16 \<Rightarrow> u8 \<Rightarrow> bytes \<Rightarrow> u16 \<Rightarrow> port \<Rightarrow> (int \<times> port) option" where
  "send_transparent_paau_to_bbu g msg_id target_id content content_len p =
     (if \<not> tp_initialized g then Some (ERROR_NOT_INITIALIZED, p)
      else if ucast msg_id < MSG_TRANSPARENT_PAAU_TO_BBU_BASE \<or> ucast msg_id > MSG_TRANSPARENT_PAAU_TO_BBU_10 then Some (ERROR_INVALID_PARAM, p)
      else if unat content_len > TRANSPARENT_CONTENT_MAX_LEN then Some (ERROR_INVALID_PARAM, p)
      else do {
        content \<leftarrow> mem_read content 0 (unat content_len);
        let payload = le16 IE_TRANSPARENT_TARGET @ le16 (4 + 1) @ [target_id] @ le16 IE_TRANSPARENT_CONTENT @ le16 (4 + content_len) @ content;
        encode_and_send 1088 \<lparr>ch_msg_id = ucast msg_id, ch_msg_length = 0, ch_paau_id = 0, ch_bbu_id = 0, ch_port_num = 0, ch_serial_num = 0\<rparr> payload p })"

definition handle_transparent_bbu_to_paau :: "u32 \<Rightarrow> transparent_message \<Rightarrow> transparent_run \<Rightarrow> (int \<times> transparent_run) option" where
  "handle_transparent_bbu_to_paau msg_id trans_msg st =
     (case st of (g, uart, tcp) \<Rightarrow>
        if \<not> tp_initialized g then Some (ERROR_NOT_INITIALIZED, st)
        else do {
          (fpga_ret, uart) \<leftarrow> (if tm_effective_len trans_msg > 0
             then do { content \<leftarrow> mem_read (tm_content trans_msg) 0 (unat (tm_effective_len trans_msg)); Some (fpga_send_raw uart content) }
             else Some (SUCCESS, uart));
          if fpga_ret \<noteq> SUCCESS then Some (fpga_ret, g, uart, tcp)
          else if tp_auto_reply g = 0 then Some (SUCCESS, g, uart, tcp)
          else do {
            let reply_msg_id = (ucast (MSG_TRANSPARENT_PAAU_TO_BBU_BASE + (msg_id - MSG_TRANSPARENT_BBU_TO_PAAU_BASE)) :: u16);
            (ret, tcp) \<leftarrow> send_transparent_paau_to_bbu g reply_msg_id (tm_target_id trans_msg) (tm_content trans_msg) (tm_effective_len trans_msg) tcp;
            if ret \<noteq> SUCCESS then Some (ret, g, uart, tcp) else Some (SUCCESS, g, uart, tcp) } })"

definition transparent_msg_handle :: "(string \<times> string) list \<Rightarrow> pool \<Rightarrow> cpri_message \<Rightarrow> transparent_run \<Rightarrow> (int \<times> transparent_run) option" where
  "transparent_msg_handle items pool msg st =
     (case st of (g, uart, tcp) \<Rightarrow>
        if cm_payload msg = None then Some (ERROR_INVALID_PARAM, st)
        else let g = transparent_cfg_load items g
        in if tp_enable g = 0 then Some (ERROR_INVALID_PARAM, g, uart, tcp)
        else do {
          (ret, data) \<leftarrow> transparent_msg_parse (message_bytes pool msg) (cm_payload_len msg);
          if ret \<noteq> SUCCESS then Some (ret, g, uart, tcp)
          else if ch_msg_id (cm_header msg) \<ge> MSG_TRANSPARENT_BBU_TO_PAAU_BASE \<and> ch_msg_id (cm_header msg) \<le> MSG_TRANSPARENT_BBU_TO_PAAU_10
          then handle_transparent_bbu_to_paau (ch_msg_id (cm_header msg)) data (g, uart, tcp)
          else Some (SUCCESS, g, uart, tcp) })"

definition handle_transparent_msg :: "(string \<times> string) list \<Rightarrow> pool \<Rightarrow> cpri_message \<Rightarrow> transparent_run \<Rightarrow> (int \<times> transparent_run) option" where
  "handle_transparent_msg items pool msg st =
     (if cm_payload msg = None then Some (ERROR_INVALID_PARAM, st) else transparent_msg_handle items pool msg st)"

subsection \<open>The reference\<close>

text \<open>The content without its padding, and the message that a list of elements describes: the last target and the last content count.\<close>

definition strip_zeros :: "bytes \<Rightarrow> bytes" where
  "strip_zeros bs = rev (dropWhile (\<lambda>b. b = 0) (rev bs))"

definition scan_element :: "u8 \<times> bytes option \<Rightarrow> u16 \<times> bytes \<Rightarrow> u8 \<times> bytes option" where
  "scan_element a e = (case (a, e) of ((target, content), (t, d)) \<Rightarrow>
     if t = IE_TRANSPARENT_TARGET then (if d = [] then target else hd d, content)
     else if t = IE_TRANSPARENT_CONTENT then (target, Some (take TRANSPARENT_CONTENT_MAX_LEN d))
     else a)"

definition scanned :: "transparent_scan \<Rightarrow> u8 \<times> bytes option \<Rightarrow> bool" where
  "scanned st a \<longleftrightarrow> (case (st, a) of ((data, has_target, has_content), (target, content)) \<Rightarrow>
     tm_target_id data = target \<and> length (tm_content data) = 1024 \<and> (has_content \<longleftrightarrow> content \<noteq> None)
     \<and> (\<forall>c. content = Some c \<longrightarrow> unat (tm_content_len data) = length c \<and> length c \<le> 1024 \<and> take (length c) (tm_content data) = c))"

lemma effective_from_strip: "len \<le> length content \<Longrightarrow> effective_from content len = Some (length (strip_zeros (take len content)))"
  by (induction len) (auto simp: strip_zeros_def arr_get_def take_Suc_conv_app_nth)

lemma strip_zeros_prefix: "strip_zeros c = take (length (strip_zeros c)) c"
proof -
  have "c = strip_zeros c @ rev (takeWhile (\<lambda>b. b = 0) (rev c))"
    unfolding strip_zeros_def by (metis rev_append rev_rev_ident takeWhile_dropWhile_id)
  then show ?thesis by (metis append_eq_conv_conj)
qed

lemma strip_zeros_length: "length (strip_zeros c) \<le> length c"
  by (simp add: strip_zeros_def) (metis length_dropWhile_le length_rev)

lemma transparent_ie_scan:
  assumes "scanned st a" "i + length d \<le> length payload" "take (length d) (drop i payload) = d"
  shows "\<exists>st'. transparent_ie payload t i (length d) st = Some st' \<and> scanned st' (scan_element a (t, d))"
proof -
  obtain data ht hc target content where st: "st = (data, ht, hc)" "a = (target, content)" by (metis prod_cases3 surj_pair)
  have get: "arr_get payload i = Some (hd d)" if "d \<noteq> []"
  proof -
    have "take (length d) (drop i payload) ! 0 = payload ! i" using that assms(2) by simp
    then show ?thesis using that assms(2) unfolding assms(3) by (cases d) (auto simp: arr_get_def)
  qed
  let ?k = "if length d > 1024 then 1024 else length d"
  have l: "length (tm_content data) = 1024" using assms(1) by (simp add: st scanned_def)
  have tk: "take ?k (drop i payload) = take 1024 d" 
  proof -
    have "take ?k (drop i payload) = take ?k (take (length d) (drop i payload))" by simp
    then show ?thesis unfolding assms(3) by simp
  qed
  have "mem_copy (tm_content data) 0 payload i ?k = Some (take 1024 d @ drop ?k (tm_content data))"
    using l assms(2) tk by (simp add: mem_copy_def)
  then show ?thesis using assms(1) get l
    by (cases "d = []") (auto simp: st transparent_ie_def scan_element_def scanned_def Let_def u16_of_nat Suc_le_eq)
qed

lemma transparent_loop_scan:
  assumes "scanned st a" "list_all (\<lambda>(t, d). length d < 65532) ies" "length rest < 4" "length pre + length (ie_bytes ies) + 4 < 2 ^ 31"
  shows "\<exists>st'. transparent_loop (pre @ ie_bytes ies @ rest) (of_nat (length (pre @ ie_bytes ies @ rest))) (of_nat (length pre)) st = Some (SUCCESS, st')
    \<and> scanned st' (foldl scan_element a ies)"
  using assms
proof (induction ies arbitrary: pre st a)
  case Nil
  have "unat (of_nat (length pre) :: u32) = length pre" "unat (of_nat (length pre + length rest) :: u32) = length pre + length rest"
    using Nil by (intro u32_of_nat; simp)+
  then show ?case using Nil by (subst transparent_loop.simps) simp
next
  case (Cons e ies)
  obtain t d where e: "e = (t, d)" by (cases e)
  let ?el = "le16 t @ le16 (4 + of_nat (length d)) @ d"
  let ?buf = "pre @ ie_bytes (e # ies) @ rest"
  have d: "length d < 65532" using Cons.prems(2) e by simp
  have u: "unat (4 + of_nat (length d) :: u16) = 4 + length d" using u16_of_nat [of "4 + length d"] d by simp
  have len: "length ?buf = length pre + 4 + length d + length (ie_bytes ies) + length rest" by (simp add: e)
  have o: "unat (of_nat (length pre) :: u32) = length pre" "unat (of_nat (length ?buf) :: u32) = length ?buf"
    using Cons.prems(3,4) len by (intro u32_of_nat; simp add: e)+
  have "unat (of_nat (4 + length d) :: u32) = 4 + length d" using d by (intro u32_of_nat) simp
  then have "ucast (4 + of_nat (length d) :: u16) = (of_nat (4 + length d) :: u32)"
    using u by (simp only: word_unat_eq_iff unat_ucast_up)
  then have nx: "(of_nat (length pre) :: u32) + ucast (4 + of_nat (length d) :: u16) = of_nat (length (pre @ ?el))" by simp
  have ou: "unat (of_nat (length (pre @ ?el)) :: u32) = length (pre @ ?el)"
    using Cons.prems(4) by (intro u32_of_nat) (simp add: e)
  have rd: "read_le16 ?buf (length pre) = Some t" "read_le16 ?buf (length pre + 2) = Some (4 + of_nat (length d))"
    by (simp_all add: e read_le16_def arr_get_def nth_append le16_def of_le16_le16 nth_Cons')
  have dd: "take (length d) (drop (length pre + 4) ?buf) = d" by (simp add: e le16_def)
  obtain st1 where st1: "transparent_ie ?buf t (length pre + 4) (length d) st = Some st1" "scanned st1 (scan_element a (t, d))"
    using transparent_ie_scan [OF Cons.prems(1) _ dd, of t] len by (metis (no_types, lifting) add.assoc le_add1)
  have "\<exists>st'. transparent_loop ((pre @ ?el) @ ie_bytes ies @ rest) (of_nat (length ((pre @ ?el) @ ie_bytes ies @ rest))) (of_nat (length (pre @ ?el))) st1
      = Some (SUCCESS, st') \<and> scanned st' (foldl scan_element (scan_element a (t, d)) ies)"
    using Cons.prems(2-4) by (intro Cons.IH st1(2)) (simp_all add: e)
  then obtain st' where rec: "transparent_loop ?buf (of_nat (length ?buf)) (of_nat (length (pre @ ?el))) st1 = Some (SUCCESS, st')"
      "scanned st' (foldl scan_element a (e # ies))" by (auto simp: e)
  define N I J :: u32 where "N = of_nat (length ?buf)" and "I = of_nat (length pre)" and "J = of_nat (length (pre @ ?el))"
  have f: "unat N = length ?buf" "unat I = length pre" "I + ucast (4 + of_nat (length d) :: u16) = J"
      "transparent_loop ?buf N J st1 = Some (SUCCESS, st')"
    using o nx rec(1) by (simp_all only: N_def I_def J_def)
  have c: "\<not> (4 + of_nat (length d) :: u16) < 4" "\<not> J > N" "length pre + 4 \<le> length ?buf"
    using u ou f(1) len by (simp_all only: word_less_nat_alt J_def) simp_all
  have "transparent_loop ?buf N I st = Some (SUCCESS, st')"
    using rd st1(1) c f u by (subst transparent_loop.simps) (simp del: ie_bytes_simps)
  then have "transparent_loop ?buf (of_nat (length ?buf)) (of_nat (length pre)) st = Some (SUCCESS, st')" by (simp only: N_def I_def)
  then show ?case using rec(2) by blast
qed

text \<open>A payload that is a list of elements, with fewer than four bytes behind it.\<close>

definition elements_payload :: "bytes \<Rightarrow> u32 \<Rightarrow> (u16 \<times> bytes) list \<Rightarrow> bool" where
  "elements_payload payload n ies \<longleftrightarrow> (\<exists>rest. payload = ie_bytes ies @ rest \<and> length rest < 4) \<and> list_all (\<lambda>(t, d). length d < 65532) ies
     \<and> n = of_nat (length payload) \<and> length payload < 2 ^ 30"

lemma transparent_parse_scan:
  assumes "elements_payload payload n ies" "foldl scan_element (TRANSPARENT_TARGET_OMC, None) ies = (target, content)"
  shows "content = None \<Longrightarrow> \<exists>m. transparent_msg_parse payload n = Some (ERROR_INVALID_PARAM, m)"
    "content = Some c \<Longrightarrow> \<exists>m. transparent_msg_parse payload n = Some (SUCCESS, m) \<and> tm_target_id m = target \<and> length (tm_content m) = 1024
       \<and> unat (tm_effective_len m) = length (strip_zeros c) \<and> take (length (strip_zeros c)) (tm_content m) = strip_zeros c"
proof -
  obtain rest where p: "payload = ie_bytes ies @ rest" "length rest < 4" "n = of_nat (length payload)" "length payload < 2 ^ 30"
      "list_all (\<lambda>(t, d). length d < 65532) ies"
    using assms(1) by (auto simp: elements_payload_def)
  have "scanned (message_zero, False, False) (0, None)" by (simp add: scanned_def message_zero_def)
  from transparent_loop_scan [OF this p(5,2), of "[]"] p(1,3,4) assms(2) obtain st where
    "transparent_loop payload n 0 (message_zero, False, False) = Some (SUCCESS, st)" "scanned st (target, content)" by auto
  then obtain data ht hc where l: "transparent_loop payload n 0 (message_zero, False, False) = Some (SUCCESS, data, ht, hc)"
      "scanned (data, ht, hc) (target, content)" by (metis prod_cases3)
  have n: "unat n = length payload" using p(3,4) by (simp add: u32_of_nat)
  have short: "ies = []" if "n < 4"
    using that n p(1) by (cases ies) (auto simp: word_less_nat_alt)
  show "\<exists>m. transparent_msg_parse payload n = Some (ERROR_INVALID_PARAM, m)" if "content = None"
    using l that by (simp add: transparent_msg_parse_def scanned_def)
  show "\<exists>m. transparent_msg_parse payload n = Some (SUCCESS, m) \<and> tm_target_id m = target \<and> length (tm_content m) = 1024
       \<and> unat (tm_effective_len m) = length (strip_zeros c) \<and> take (length (strip_zeros c)) (tm_content m) = strip_zeros c" if c: "content = Some c"
  proof -
    have sc: "hc" "tm_target_id data = target" "length (tm_content data) = 1024" "unat (tm_content_len data) = length c" "length c \<le> 1024"
        "take (length c) (tm_content data) = c" using l(2) c by (simp_all add: scanned_def)
    have ge: "\<not> n < 4" using short assms(2) c by auto
    have k: "length (strip_zeros c) \<le> length c" by (rule strip_zeros_length)
    have "calc_effective_len (tm_content data) (tm_content_len data) = Some (of_nat (length (strip_zeros c)))"
      using effective_from_strip [of "length c" "tm_content data"] sc by (simp add: calc_effective_len_def)
    moreover have "unat (of_nat (length (strip_zeros c)) :: u16) = length (strip_zeros c)" using k sc(5) by (intro u16_of_nat) simp
    moreover have "take (length (strip_zeros c)) (tm_content data) = take (length (strip_zeros c)) (take (length c) (tm_content data))"
      using k by simp
    ultimately show ?thesis using l(1) sc ge strip_zeros_prefix [of c]
      by (intro exI [of _ "data\<lparr>tm_effective_len := of_nat (length (strip_zeros c))\<rparr>"]) (simp add: transparent_msg_parse_def)
  qed
qed

subsection \<open>Properties\<close>

definition transparent_reply :: "u32 \<Rightarrow> u8 \<Rightarrow> bytes \<Rightarrow> bytes" where
  "transparent_reply msg_id target content =
     cpri_frame \<lparr>ch_msg_id = msg_id - 10, ch_msg_length = 0, ch_paau_id = 0, ch_bbu_id = 0, ch_port_num = 0, ch_serial_num = 0\<rparr>
       (ie_bytes [(IE_TRANSPARENT_TARGET, [target]), (IE_TRANSPARENT_CONTENT, content)])"

lemma transparent_send_frame:
  assumes "tp_initialized g" "231 \<le> i" "i \<le> 240" "length (strip_zeros c) \<le> 1024" "unat k = length (strip_zeros c)"
    "length content = 1024" "take (length (strip_zeros c)) content = strip_zeros c"
  shows "send_transparent_paau_to_bbu g (ucast (221 + (i - 231 :: u32))) target content k tcp
    = Some (SUCCESS, snd (tcp_client_send tcp (transparent_reply i target (strip_zeros c))))"
proof -
  have w: "221 + (i - 231) = i - 10" by simp
  have i: "unat (i - 10) = unat i - 10" "unat i \<le> 240" "231 \<le> unat i" using assms(2,3) by (auto simp: word_le_nat_alt unat_sub)
  have "unat (ucast (i - 10) :: u16) = unat (i - 10)" using i by (simp add: unsigned_ucast_eq take_bit_nat_eq_self)
  then have u: "ucast (ucast (i - 10) :: u16) = i - 10" by (simp add: word_unat_eq_iff unat_ucast_up)
  have r: "\<not> (i - 10 < 221)" "\<not> (i - 10 > 230)" using i by (auto simp: word_less_nat_alt)
  have k: "(4 + k :: u16) = 4 + of_nat (length (strip_zeros c))" using assms(5) by (metis of_nat_unat ucast_id)
  have m: "mem_read content 0 (unat k) = Some (strip_zeros c)" using assms(4-7) by simp
  show ?thesis using assms(1,4,5) r m
    unfolding send_transparent_paau_to_bbu_def w u k by (simp add: encode_and_send_frame transparent_reply_def)
qed

text \<open>C23. What the baseband unit sends through the channel reaches the FPGA as it is, without the zeros at its end, and is sent back under the number that
  is ten lower; a message without content, or one while the channel is closed, changes nothing outside.\<close>

theorem transparent_forwarded:
  fixes items :: "(string \<times> string) list"
  assumes "tp_initialized g" "cm_payload msg \<noteq> None" "231 \<le> ch_msg_id (cm_header msg)" "ch_msg_id (cm_header msg) \<le> 240"
    "elements_payload (message_bytes pool msg) (cm_payload_len msg) ies"
    "foldl scan_element (TRANSPARENT_TARGET_OMC, None) ies = (target, content)"
  defines "g' \<equiv> transparent_cfg_load items g"
  shows "handle_transparent_msg items pool msg (g, uart, tcp) = Some (case content of
       None \<Rightarrow> (ERROR_INVALID_PARAM, g', uart, tcp)
     | Some c \<Rightarrow>
         if tp_enable g' = 0 then (ERROR_INVALID_PARAM, g', uart, tcp)
         else (case (if strip_zeros c = [] then (SUCCESS, uart) else uart_client_send uart (strip_zeros c)) of (ret, uart') \<Rightarrow>
           if ret \<noteq> SUCCESS then (ret, g', uart', tcp)
           else (SUCCESS, g', uart', if tp_auto_reply g' = 0 then tcp
             else snd (tcp_client_send tcp (transparent_reply (ch_msg_id (cm_header msg)) target (strip_zeros c))))))"
proof (cases "tp_enable g' = 0")
  case True
  then show ?thesis using assms(2) unfolding handle_transparent_msg_def transparent_msg_handle_def g'_def
    by (auto simp: Let_def split: option.split)
next
  case on: False
  let ?i = "ch_msg_id (cm_header msg)" and ?p = "transparent_msg_parse (message_bytes pool msg) (cm_payload_len msg)"
  have init: "tp_initialized g'" using assms(1) by (simp add: g'_def transparent_cfg_load_def)
  have h: "handle_transparent_msg items pool msg (g, uart, tcp) = do {
          (ret, data) \<leftarrow> ?p; if ret \<noteq> SUCCESS then Some (ret, g', uart, tcp) else handle_transparent_bbu_to_paau ?i data (g', uart, tcp) }"
    using assms(2-4) on unfolding handle_transparent_msg_def transparent_msg_handle_def g'_def by (cases ?p) (auto simp: Let_def)
  show ?thesis
  proof (cases content)
    case None
    then show ?thesis using transparent_parse_scan(1) [OF assms(5,6)] h by auto
  next
    case (Some c)
    obtain m where m: "?p = Some (SUCCESS, m)" "tm_target_id m = target" "length (tm_content m) = 1024"
        "unat (tm_effective_len m) = length (strip_zeros c)" "take (length (strip_zeros c)) (tm_content m) = strip_zeros c"
      using transparent_parse_scan(2) [OF assms(5,6) Some] by blast
    have l: "length (strip_zeros c) \<le> 1024" using m(3,5) by (metis length_take min.cobounded1)
    have e: "tm_effective_len m > 0 \<longleftrightarrow> strip_zeros c \<noteq> []" using m(4) by (auto simp: word_less_nat_alt)
    have raw: "mem_read (tm_content m) 0 (length (strip_zeros c)) = Some (strip_zeros c)" using m(3,5) l by simp
    have sr: "fpga_send_raw uart (strip_zeros c) = uart_client_send uart (strip_zeros c)" if "strip_zeros c \<noteq> []"
      using that l by (simp add: fpga_send_raw_def FPGA_RAW_MAX_LEN_def)
    note send = transparent_send_frame [OF init assms(3,4) l m(4,3,5), of target tcp]
    show ?thesis unfolding h m(1) Some
      using init on e raw sr m(2,4) send by (auto simp: handle_transparent_bbu_to_paau_def Let_def split: prod.split)
  qed
qed

theorem transparent_forwarded_witness:
  "\<exists>g' uart' tcp'. handle_transparent_msg [] [] ((control_message (ie_bytes [(IE_TRANSPARENT_TARGET, [1]), (IE_TRANSPARENT_CONTENT, [0xEB, 0x90, 0, 0])]))
       \<lparr>cm_header := control_header\<lparr>ch_msg_id := 233\<rparr>\<rparr>)
     (\<lparr>tp_initialized = True, tp_enable = 1, tp_auto_reply = 1, tp_cfg_loaded = True\<rparr>, line_example, line_example)
     = Some (SUCCESS, g', uart', tcp') \<and> po_out uart' = [0xEB, 0x90] \<and> po_out tcp' = transparent_reply 233 1 [0xEB, 0x90]"
proof -
  let ?ies = "[(IE_TRANSPARENT_TARGET, [1]), (IE_TRANSPARENT_CONTENT, [0xEB, 0x90, 0, 0])] :: (u16 \<times> bytes) list"
  let ?m = "(control_message (ie_bytes ?ies))\<lparr>cm_header := control_header\<lparr>ch_msg_id := 233\<rparr>\<rparr>"
  let ?g = "\<lparr>tp_initialized = True, tp_enable = 1, tp_auto_reply = 1, tp_cfg_loaded = True\<rparr> :: transparent_state"
  have b: "message_bytes [] ?m = ie_bytes ?ies" by (simp add: control_message_def message_bytes_def payload_bytes_def)
  have el: "elements_payload (message_bytes [] ?m) (cm_payload_len ?m) ?ies"
    unfolding b elements_payload_def by (simp add: control_message_def)
  have f: "foldl scan_element (TRANSPARENT_TARGET_OMC, None) ?ies = (1, Some [0xEB, 0x90, 0, 0])" by (simp add: scan_element_def)
  have s: "strip_zeros [0xEB, 0x90, 0, 0] = [0xEB, 0x90]" by (simp add: strip_zeros_def)
  have t: "po_out (snd (tcp_client_send line_example (transparent_reply 233 1 d))) = transparent_reply 233 1 d" for d
    by (cases "transparent_reply 233 1 d") (simp_all add: tcp_client_send_def line_example_def)
  have u: "uart_client_send line_example [0xEB, 0x90] = (SUCCESS, line_example\<lparr>po_out := [0xEB, 0x90]\<rparr>)"
    by (simp add: uart_client_send_def line_example_def)
  have "handle_transparent_msg [] [] ?m (?g, line_example, line_example)
      = Some (SUCCESS, ?g, line_example\<lparr>po_out := [0xEB, 0x90]\<rparr>, snd (tcp_client_send line_example (transparent_reply 233 1 [0xEB, 0x90])))"
    using transparent_forwarded [of ?g ?m "[]" ?ies 1 "Some [0xEB, 0x90, 0, 0]", OF _ _ _ _ el f, of "[]" line_example line_example]
    by (simp add: control_message_def transparent_cfg_load_def s u)
  then show ?thesis using t [of "[0xEB, 0x90]"] by simp
qed

end
