(* ===== verification/TcpClient.thy ===== *)
theory TcpClient
  imports AlarmManager ClientPorts
begin

text \<open>
  The connection to the baseband unit, from tcp_client.c: one thread connects again and again, and for each connection
  it starts a thread that receives. The steps of the two threads interleave freely, except where one
  waits for the other, and with those of the thread that stops the client. Steps of the program are kept apart from
  what only the other side or a signal can cause: a thread that is blocked in \<open>recv\<close> wakes up for data, for the end of the connection, for a signal,
  or because the program has shut the socket down. A socket is known by the number of its connection; the callbacks are kept as
  a trace, each with the connection it is about: \<open>tc_owner\<close> is the connection for which the receiving thread was started.
\<close>

subsection \<open>The client\<close>

datatype tcp_state = TCP_STATE_DISCONNECTED | TCP_STATE_CONNECTING | TCP_STATE_CONNECTED | TCP_STATE_ERROR

datatype tcp_callback = On_connected | On_data bytes | On_disconnected

text \<open>Where the threads are: the receiving thread at the head of its loop, in \<open>recv\<close>, and at each step of its end; the connecting
  thread at the head of its loop, before it reads the state, in \<open>connect\<close>, and at each step behind a connection that came up; the stopping
  thread at each of its steps.\<close>

datatype recv_thread = Recv_none | Recv_head | Recv_blocked | Recv_close | Recv_status | Recv_alarm | Recv_callback | Recv_ended

datatype reconnect_thread = Conn_none | Conn_head | Conn_state | Conn_connect | Conn_status | Conn_alarm | Conn_join | Conn_create | Conn_callback | Conn_ended

datatype stop_thread = Stop_none | Stop_join_reconnect | Stop_shutdown | Stop_join_recv | Stop_close | Stop_done

record tcp_client =
  tc_sockfd :: "nat option"
  tc_state :: tcp_state
  tc_server_ip :: string
  tc_server_port :: u16
  tc_recv :: recv_thread
  tc_reconnect :: reconnect_thread
  tc_stop :: stop_thread
  tc_shut :: bool
  tc_running :: bool
  tc_connection :: nat
  tc_owner :: nat
  tc_alarms :: alarm_manager
  tc_trace :: "(nat \<times> tcp_callback) list"

definition tcp_client_init :: "bool \<Rightarrow> bool \<Rightarrow> string \<Rightarrow> u16 \<Rightarrow> alarm_manager \<Rightarrow> int \<times> tcp_client" where
  "tcp_client_init mutex1_ok mutex2_ok server_ip server_port am =
     (let c = \<lparr>tc_sockfd = None, tc_state = TCP_STATE_DISCONNECTED, tc_server_ip = take 31 server_ip, tc_server_port = server_port,
               tc_recv = Recv_none, tc_reconnect = Conn_none, tc_stop = Stop_none, tc_shut = False, tc_running = False, tc_connection = 0, tc_owner = 0, tc_alarms = am, tc_trace = []\<rparr>
      in if \<not> mutex1_ok then (ERROR_GENERAL, c) else if \<not> mutex2_ok then (ERROR_GENERAL, c) else (SUCCESS, c))"

definition tcp_client_start :: "bool \<Rightarrow> tcp_client \<Rightarrow> int \<times> tcp_client" where
  "tcp_client_start thread_ok c =
     (let c = c\<lparr>tc_running := True\<rparr>
      in if \<not> thread_ok then (ERROR_GENERAL, c\<lparr>tc_running := False\<rparr>) else (SUCCESS, c\<lparr>tc_reconnect := Conn_head\<rparr>))"

definition tcp_client_get_state :: "tcp_client \<Rightarrow> tcp_state" where
  "tcp_client_get_state c = tc_state c"

subsection \<open>Connecting\<close>

text \<open>What the system calls for a connection give.\<close>

record connect_calls =
  cn_socket :: bool
  cn_connect :: bool
  cn_in_progress :: bool
  cn_select :: int
  cn_error :: int

text \<open>The part of \<open>tcp_connect_to_server\<close> up to the connected socket.\<close>

definition tcp_open_socket :: "connect_calls \<Rightarrow> int" where
  "tcp_open_socket k =
     (if \<not> cn_socket k then ERROR_NETWORK
      else if \<not> cn_connect k
      then if \<not> cn_in_progress k then ERROR_NETWORK
           else if cn_select k \<le> 0 then ERROR_TIMEOUT
           else if cn_error k \<noteq> 0 then ERROR_NETWORK
           else SUCCESS
      else SUCCESS)"

text \<open>The steps of the connecting thread. It may be stopped at any of them; a connection that comes up all the same is handled to the end. The wait for
  the connection is bounded by the time limit of \<open>select\<close>, so that its end, with whatever result, is a step of the program. The interruptible sleeps are no steps of their own.\<close>

inductive reconnect_step :: "alarm_env \<Rightarrow> tcp_client \<Rightarrow> tcp_client \<Rightarrow> bool" for env where
  stop: "\<lbrakk>tc_reconnect c = Conn_head; \<not> tc_running c\<rbrakk> \<Longrightarrow> reconnect_step env c (c\<lparr>tc_reconnect := Conn_ended\<rparr>)"
| turn: "\<lbrakk>tc_reconnect c = Conn_head; tc_running c\<rbrakk> \<Longrightarrow> reconnect_step env c (c\<lparr>tc_reconnect := Conn_state\<rparr>)"
| wait: "\<lbrakk>tc_reconnect c = Conn_state; tc_state c \<noteq> TCP_STATE_DISCONNECTED\<rbrakk> \<Longrightarrow> reconnect_step env c (c\<lparr>tc_reconnect := Conn_head\<rparr>)"
| begin_connect: "\<lbrakk>tc_reconnect c = Conn_state; tc_state c = TCP_STATE_DISCONNECTED\<rbrakk> \<Longrightarrow> reconnect_step env c (c\<lparr>tc_reconnect := Conn_connect\<rparr>)"
| failed: "\<lbrakk>tc_reconnect c = Conn_connect; tcp_open_socket k \<noteq> SUCCESS\<rbrakk> \<Longrightarrow> reconnect_step env c (c\<lparr>tc_reconnect := Conn_head\<rparr>)"
| connected: "\<lbrakk>tc_reconnect c = Conn_connect; tcp_open_socket k = SUCCESS\<rbrakk>
    \<Longrightarrow> reconnect_step env c (c\<lparr>tc_connection := Suc (tc_connection c), tc_sockfd := Some (Suc (tc_connection c)), tc_shut := False,
         tc_state := TCP_STATE_CONNECTED, tc_reconnect := Conn_status\<rparr>)"
| status_up: "tc_reconnect c = Conn_status
    \<Longrightarrow> reconnect_step env c (c\<lparr>tc_alarms := alarm_set_tcp_status env (tc_alarms c) True, tc_reconnect := Conn_alarm\<rparr>)"
| alarm_off: "tc_reconnect c = Conn_alarm
    \<Longrightarrow> reconnect_step env c (c\<lparr>tc_alarms := alarm_clear_tcp_disconnect env (tc_alarms c), tc_reconnect := Conn_join\<rparr>)"
| join: "\<lbrakk>tc_reconnect c = Conn_join; tc_recv c = Recv_none \<or> tc_recv c = Recv_ended\<rbrakk>
    \<Longrightarrow> reconnect_step env c (c\<lparr>tc_recv := Recv_none, tc_reconnect := Conn_create\<rparr>)"
| created: "tc_reconnect c = Conn_create \<Longrightarrow> reconnect_step env c (c\<lparr>tc_recv := Recv_head, tc_owner := tc_connection c, tc_reconnect := Conn_callback\<rparr>)"
| not_created: "tc_reconnect c = Conn_create
    \<Longrightarrow> reconnect_step env c (c\<lparr>tc_sockfd := None, tc_state := TCP_STATE_DISCONNECTED, tc_reconnect := Conn_head\<rparr>)"
| call_connected: "tc_reconnect c = Conn_callback
    \<Longrightarrow> reconnect_step env c (c\<lparr>tc_trace := tc_trace c @ [(tc_connection c, On_connected)], tc_reconnect := Conn_head\<rparr>)"

subsection \<open>Receiving\<close>

text \<open>The steps of the receiving thread; a callback is told with the socket that was read. A call of \<open>recv\<close> on a socket that the program has shut down returns 0, and on none
  at all it fails.\<close>

inductive recv_step :: "alarm_env \<Rightarrow> tcp_client \<Rightarrow> tcp_client \<Rightarrow> bool" for env where
  head: "\<lbrakk>tc_recv c = Recv_head; tc_running c\<rbrakk> \<Longrightarrow> recv_step env c (c\<lparr>tc_recv := Recv_blocked\<rparr>)"
| stopped: "\<lbrakk>tc_recv c = Recv_head; \<not> tc_running c\<rbrakk> \<Longrightarrow> recv_step env c (c\<lparr>tc_recv := Recv_close\<rparr>)"
| woken: "\<lbrakk>tc_recv c = Recv_blocked; tc_shut c \<or> tc_sockfd c = None\<rbrakk> \<Longrightarrow> recv_step env c (c\<lparr>tc_recv := Recv_close\<rparr>)"
| close: "tc_recv c = Recv_close
    \<Longrightarrow> recv_step env c (c\<lparr>tc_sockfd := None, tc_state := TCP_STATE_DISCONNECTED, tc_recv := Recv_status\<rparr>)"
| status_down: "tc_recv c = Recv_status
    \<Longrightarrow> recv_step env c (c\<lparr>tc_alarms := alarm_set_tcp_status env (tc_alarms c) False, tc_recv := Recv_alarm\<rparr>)"
| alarm_on: "tc_recv c = Recv_alarm
    \<Longrightarrow> recv_step env c (c\<lparr>tc_alarms := alarm_trigger_tcp_disconnect env (tc_alarms c) (Some ''Connection lost''), tc_recv := Recv_callback\<rparr>)"
| call_disconnected: "tc_recv c = Recv_callback
    \<Longrightarrow> recv_step env c (c\<lparr>tc_trace := tc_trace c @ [(tc_owner c, On_disconnected)], tc_recv := Recv_ended\<rparr>)"

text \<open>What reaches the receiving thread from outside while it is blocked: data, a signal, and the end of the connection or an error.\<close>

inductive recv_event :: "tcp_client \<Rightarrow> tcp_client \<Rightarrow> bool" where
  data: "\<lbrakk>tc_recv c = Recv_blocked; tc_sockfd c = Some n; data \<noteq> []\<rbrakk>
    \<Longrightarrow> recv_event c (c\<lparr>tc_trace := tc_trace c @ [(n, On_data data)], tc_recv := Recv_head\<rparr>)"
| interrupted: "tc_recv c = Recv_blocked \<Longrightarrow> recv_event c (c\<lparr>tc_recv := Recv_head\<rparr>)"
| closed: "tc_recv c = Recv_blocked \<Longrightarrow> recv_event c (c\<lparr>tc_recv := Recv_close\<rparr>)"

subsection \<open>Stopping\<close>

text \<open>The steps of \<open>tcp_client_stop\<close>: it waits for the connecting thread, shuts the socket down, waits for the receiving thread and closes what is left. A send that is under way ends
  by its own time limit before the socket is shut down.\<close>

inductive tcp_client_stop :: "tcp_client \<Rightarrow> tcp_client \<Rightarrow> bool" where
  called: "tc_stop c = Stop_none \<Longrightarrow> tcp_client_stop c (c\<lparr>tc_running := False, tc_stop := Stop_join_reconnect\<rparr>)"
| join_reconnect: "\<lbrakk>tc_stop c = Stop_join_reconnect; tc_reconnect c = Conn_none \<or> tc_reconnect c = Conn_ended\<rbrakk>
    \<Longrightarrow> tcp_client_stop c (c\<lparr>tc_reconnect := Conn_none, tc_stop := Stop_shutdown\<rparr>)"
| shutdown: "tc_stop c = Stop_shutdown \<Longrightarrow> tcp_client_stop c (c\<lparr>tc_shut := (tc_sockfd c \<noteq> None \<or> tc_shut c), tc_stop := Stop_join_recv\<rparr>)"
| join_recv: "\<lbrakk>tc_stop c = Stop_join_recv; tc_recv c = Recv_none \<or> tc_recv c = Recv_ended\<rbrakk>
    \<Longrightarrow> tcp_client_stop c (c\<lparr>tc_recv := Recv_none, tc_stop := Stop_close\<rparr>)"
| close: "tc_stop c = Stop_close \<Longrightarrow> tcp_client_stop c (c\<lparr>tc_sockfd := None, tc_state := TCP_STATE_DISCONNECTED, tc_stop := Stop_done\<rparr>)"

text \<open>What the program does by itself, and all that can happen.\<close>

inductive program_step :: "alarm_env \<Rightarrow> tcp_client \<Rightarrow> tcp_client \<Rightarrow> bool" for env where
  reconnect: "reconnect_step env c c' \<Longrightarrow> program_step env c c'"
| receive: "recv_step env c c' \<Longrightarrow> program_step env c c'"
| stopping: "tcp_client_stop c c' \<Longrightarrow> program_step env c c'"

inductive tcp_step :: "alarm_env \<Rightarrow> tcp_client \<Rightarrow> tcp_client \<Rightarrow> bool" for env where
  own: "program_step env c c' \<Longrightarrow> tcp_step env c c'"
| outside: "recv_event c c' \<Longrightarrow> tcp_step env c c'"

definition tcp_start :: "string \<Rightarrow> u16 \<Rightarrow> alarm_manager \<Rightarrow> tcp_client" where
  "tcp_start ip port am = snd (tcp_client_start True (snd (tcp_client_init True True ip port am)))"

subsection \<open>The invariant\<close>

text \<open>Which callback may follow which: those of one connection come before those of the next, and within one connection
  nothing but the late notice that it came up follows its end.\<close>

definition may_follow :: "nat \<times> tcp_callback \<Rightarrow> nat \<times> tcp_callback \<Rightarrow> bool" where
  "may_follow x y \<longleftrightarrow> fst x < fst y \<or> (fst x = fst y \<and> (snd x = On_disconnected \<longrightarrow> snd y = On_connected) \<and> (snd x = On_connected \<longrightarrow> snd y \<noteq> On_connected))"

definition receiving :: "tcp_client \<Rightarrow> bool" where
  "receiving c \<longleftrightarrow> tc_recv c \<in> {Recv_head, Recv_blocked, Recv_close}"

definition leaving :: "tcp_client \<Rightarrow> bool" where
  "leaving c \<longleftrightarrow> tc_recv c \<in> {Recv_status, Recv_alarm, Recv_callback}"

definition fresh :: "tcp_client \<Rightarrow> bool" where
  "fresh c \<longleftrightarrow> tc_reconnect c \<in> {Conn_status, Conn_alarm, Conn_join, Conn_create}"

definition tcp_inv :: "tcp_client \<Rightarrow> bool" where
  "tcp_inv c \<longleftrightarrow>
     (\<forall>n. tc_sockfd c = Some n \<longrightarrow> n = tc_connection c)
   \<and> tc_state c = (if tc_sockfd c = None then TCP_STATE_DISCONNECTED else TCP_STATE_CONNECTED)
   \<and> (receiving c \<longrightarrow> tc_owner c = tc_connection c \<and> tc_sockfd c \<noteq> None \<and> \<not> fresh c)
   \<and> (leaving c \<longrightarrow> tc_reconnect c \<noteq> Conn_create \<and> (if fresh c then tc_owner c < tc_connection c else tc_owner c = tc_connection c))
   \<and> (fresh c \<longrightarrow> tc_sockfd c \<noteq> None)
   \<and> (tc_reconnect c = Conn_connect \<longrightarrow> tc_sockfd c = None)
   \<and> (tc_reconnect c = Conn_create \<longrightarrow> tc_recv c = Recv_none)
   \<and> (\<forall>x \<in> set (tc_trace c). fst x \<le> tc_connection c \<and> (fresh c \<longrightarrow> fst x < tc_connection c)
        \<and> (receiving c \<or> leaving c \<longrightarrow> fst x \<le> tc_owner c \<and> (snd x = On_disconnected \<longrightarrow> fst x < tc_owner c))
        \<and> (tc_reconnect c = Conn_callback \<and> snd x = On_connected \<longrightarrow> fst x < tc_connection c))
   \<and> sorted_wrt may_follow (tc_trace c)"

text \<open>How far the stopping thread is tells where the others can be.\<close>

definition stop_ok :: "tcp_client \<Rightarrow> bool" where
  "stop_ok c \<longleftrightarrow>
     (tc_running c \<longleftrightarrow> tc_stop c = Stop_none)
   \<and> (tc_stop c \<in> {Stop_shutdown, Stop_join_recv, Stop_close, Stop_done} \<longrightarrow> tc_reconnect c = Conn_none)
   \<and> (tc_stop c = Stop_join_recv \<longrightarrow> tc_sockfd c = None \<or> tc_shut c)
   \<and> (tc_stop c \<in> {Stop_close, Stop_done} \<longrightarrow> tc_recv c = Recv_none)
   \<and> (tc_stop c = Stop_done \<longrightarrow> tc_sockfd c = None)"

lemma stop_ok_step:
  assumes "tcp_step env c c'" "stop_ok c"
  shows "stop_ok c'"
  using assms(1)
proof cases
  case own
  then show ?thesis
  proof cases
    case reconnect
    then show ?thesis using assms(2) by (cases rule: reconnect_step.cases) (simp_all add: stop_ok_def)
  next
    case receive
    then show ?thesis using assms(2) by (cases rule: recv_step.cases) (auto simp: stop_ok_def)
  next
    case stopping
    then show ?thesis using assms(2) by (cases rule: tcp_client_stop.cases) (auto simp: stop_ok_def)
  qed
next
  case outside
  then show ?thesis using assms(2) by (cases rule: recv_event.cases) (auto simp: stop_ok_def)
qed

text \<open>Which thread moves which of these.\<close>

lemma phases [simp]:
  "receiving (c\<lparr>tc_reconnect := r\<rparr>) = receiving c" "receiving (c\<lparr>tc_alarms := m\<rparr>) = receiving c" "receiving (c\<lparr>tc_trace := x\<rparr>) = receiving c"
  "receiving (c\<lparr>tc_sockfd := q\<rparr>) = receiving c" "receiving (c\<lparr>tc_state := st\<rparr>) = receiving c" "receiving (c\<lparr>tc_connection := k\<rparr>) = receiving c"
  "receiving (c\<lparr>tc_running := w\<rparr>) = receiving c" "receiving (c\<lparr>tc_stop := z\<rparr>) = receiving c" "receiving (c\<lparr>tc_shut := w\<rparr>) = receiving c" "receiving (c\<lparr>tc_owner := k\<rparr>) = receiving c"
  "receiving (c\<lparr>tc_recv := v\<rparr>) \<longleftrightarrow> v = Recv_head \<or> v = Recv_blocked \<or> v = Recv_close"
  "leaving (c\<lparr>tc_reconnect := r\<rparr>) = leaving c" "leaving (c\<lparr>tc_alarms := m\<rparr>) = leaving c" "leaving (c\<lparr>tc_trace := x\<rparr>) = leaving c"
  "leaving (c\<lparr>tc_sockfd := q\<rparr>) = leaving c" "leaving (c\<lparr>tc_state := st\<rparr>) = leaving c" "leaving (c\<lparr>tc_connection := k\<rparr>) = leaving c"
  "leaving (c\<lparr>tc_running := w\<rparr>) = leaving c" "leaving (c\<lparr>tc_stop := z\<rparr>) = leaving c" "leaving (c\<lparr>tc_shut := w\<rparr>) = leaving c" "leaving (c\<lparr>tc_owner := k\<rparr>) = leaving c"
  "leaving (c\<lparr>tc_recv := v\<rparr>) \<longleftrightarrow> v = Recv_status \<or> v = Recv_alarm \<or> v = Recv_callback"
  "fresh (c\<lparr>tc_recv := v\<rparr>) = fresh c" "fresh (c\<lparr>tc_alarms := m\<rparr>) = fresh c" "fresh (c\<lparr>tc_trace := x\<rparr>) = fresh c"
  "fresh (c\<lparr>tc_sockfd := q\<rparr>) = fresh c" "fresh (c\<lparr>tc_state := st\<rparr>) = fresh c" "fresh (c\<lparr>tc_connection := k\<rparr>) = fresh c"
  "fresh (c\<lparr>tc_running := w\<rparr>) = fresh c" "fresh (c\<lparr>tc_stop := z\<rparr>) = fresh c" "fresh (c\<lparr>tc_shut := w\<rparr>) = fresh c" "fresh (c\<lparr>tc_owner := k\<rparr>) = fresh c"
  "fresh (c\<lparr>tc_reconnect := r\<rparr>) \<longleftrightarrow> r = Conn_status \<or> r = Conn_alarm \<or> r = Conn_join \<or> r = Conn_create"
  by (simp_all add: receiving_def leaving_def fresh_def)

lemma phase_of:
  "tc_recv c = v \<Longrightarrow> receiving c \<longleftrightarrow> v = Recv_head \<or> v = Recv_blocked \<or> v = Recv_close"
  "tc_recv c = v \<Longrightarrow> leaving c \<longleftrightarrow> v = Recv_status \<or> v = Recv_alarm \<or> v = Recv_callback"
  "tc_reconnect c = r \<Longrightarrow> fresh c \<longleftrightarrow> r = Conn_status \<or> r = Conn_alarm \<or> r = Conn_join \<or> r = Conn_create"
  by (simp_all add: receiving_def leaving_def fresh_def)

lemma start_inv: "tcp_inv (tcp_start ip port am) \<and> stop_ok (tcp_start ip port am)"
  by (simp add: stop_ok_def tcp_start_def tcp_client_start_def tcp_client_init_def tcp_inv_def receiving_def leaving_def fresh_def)

lemma reconnect_inv:
  assumes "reconnect_step env c c'" "tcp_inv c"
  shows "tcp_inv c'"
  using assms(1)
proof cases
  case stop
  then show ?thesis using assms(2) phase_of(3) [OF stop(2)] by (auto simp: tcp_inv_def)
next
  case turn
  then show ?thesis using assms(2) phase_of(3) [OF turn(2)] by (auto simp: tcp_inv_def)
next
  case wait
  then show ?thesis using assms(2) phase_of(3) [OF wait(2)] by (auto simp: tcp_inv_def)
next
  case begin_connect
  then show ?thesis using assms(2) phase_of(3) [OF begin_connect(2)] by (auto simp: tcp_inv_def split: if_splits)
next
  case (failed k)
  then show ?thesis using assms(2) phase_of(3) [OF failed(2)] by (auto simp: tcp_inv_def)
next
  case (connected k)
  have "tc_sockfd c = None" "\<not> receiving c" using assms(2) connected(2) by (auto simp: tcp_inv_def split: if_splits)
  then show ?thesis using assms(2) connected(1,2) phase_of(3) [OF connected(2)] by (auto simp: tcp_inv_def)
next
  case status_up
  then show ?thesis using assms(2) phase_of(3) [OF status_up(2)] by (auto simp: tcp_inv_def)
next
  case alarm_off
  then show ?thesis using assms(2) phase_of(3) [OF alarm_off(2)] by (auto simp: tcp_inv_def)
next
  case join
  then show ?thesis using assms(2) phase_of(3) [OF join(2)] by (auto simp: tcp_inv_def)
next
  case created
  then show ?thesis using assms(2) phase_of(3) [OF created(2)] by (auto simp: tcp_inv_def)
next
  case not_created
  then show ?thesis using assms(2) phase_of(3) [OF not_created(2)] by (auto simp: tcp_inv_def receiving_def leaving_def)
next
  case call_connected
  then show ?thesis using assms(2) phase_of(3) [OF call_connected(2)] by (auto simp: tcp_inv_def sorted_wrt_append may_follow_def)
qed

lemma recv_inv:
  assumes "recv_step env c c'" "tcp_inv c"
  shows "tcp_inv c'"
  using assms(1)
proof cases
  case head
  then show ?thesis using assms(2) phase_of(1,2) [OF head(2)] by (auto simp: tcp_inv_def)
next
  case stopped
  then show ?thesis using assms(2) phase_of(1,2) [OF stopped(2)] by (auto simp: tcp_inv_def)
next
  case woken
  then show ?thesis using assms(2) phase_of(1,2) [OF woken(2)] by (auto simp: tcp_inv_def)
next
  case close
  then show ?thesis using assms(2) phase_of(1,2) [OF close(2)] by (auto simp: tcp_inv_def fresh_def)
next
  case status_down
  then show ?thesis using assms(2) phase_of(1,2) [OF status_down(2)] by (auto simp: tcp_inv_def)
next
  case alarm_on
  then show ?thesis using assms(2) phase_of(1,2) [OF alarm_on(2)] by (auto simp: tcp_inv_def)
next
  case call_disconnected
  then show ?thesis using assms(2) phase_of(1,2) [OF call_disconnected(2)] by (auto simp: tcp_inv_def sorted_wrt_append may_follow_def split: if_splits)
qed

lemma recv_event_inv:
  assumes "recv_event c c'" "tcp_inv c"
  shows "tcp_inv c'"
  using assms(1)
proof cases
  case (data n d)
  then show ?thesis using assms(2) phase_of(1,2) [OF data(2)] by (auto simp: tcp_inv_def sorted_wrt_append may_follow_def)
next
  case interrupted
  then show ?thesis using assms(2) phase_of(1,2) [OF interrupted(2)] by (auto simp: tcp_inv_def)
next
  case closed
  then show ?thesis using assms(2) phase_of(1,2) [OF closed(2)] by (auto simp: tcp_inv_def)
qed

lemma stop_inv:
  assumes "tcp_client_stop c c'" "tcp_inv c" "stop_ok c"
  shows "tcp_inv c'"
  using assms(1)
proof cases
  case join_reconnect
  moreover have "\<not> fresh c" using join_reconnect(3) by (auto simp: fresh_def)
  ultimately show ?thesis using assms(2) by (auto simp: tcp_inv_def)
next
  case join_recv
  moreover have "\<not> receiving c" "\<not> leaving c" using join_recv(3) by (auto simp: receiving_def leaving_def)
  ultimately show ?thesis using assms(2) by (auto simp: tcp_inv_def)
next
  case close
  moreover have "\<not> receiving c" "\<not> leaving c" "\<not> fresh c" "tc_reconnect c = Conn_none" using assms(3) close(2) by (auto simp: stop_ok_def receiving_def leaving_def fresh_def)
  ultimately show ?thesis using assms(2) by (auto simp: tcp_inv_def)
qed (use assms(2) in \<open>auto simp: tcp_inv_def\<close>)

lemma tcp_step_inv:
  assumes "tcp_step env c c'" "tcp_inv c \<and> stop_ok c"
  shows "tcp_inv c' \<and> stop_ok c'"
proof -
  have "tcp_inv c'" using assms
    by (elim tcp_step.cases program_step.cases) (blast intro: reconnect_inv recv_inv recv_event_inv stop_inv)+
  then show ?thesis using stop_ok_step assms by blast
qed

lemma tcp_reachable_inv: "(tcp_step env)\<^sup>*\<^sup>* (tcp_start ip port am) c \<Longrightarrow> tcp_inv c \<and> stop_ok c"
  by (induction rule: rtranclp_induct) (rule start_inv, rule tcp_step_inv)

subsection \<open>The way to the end\<close>

fun recv_left :: "recv_thread \<Rightarrow> nat" where
  "recv_left Recv_blocked = 6"
| "recv_left Recv_head = 5"
| "recv_left Recv_close = 4"
| "recv_left Recv_status = 3"
| "recv_left Recv_alarm = 2"
| "recv_left Recv_callback = 1"
| "recv_left _ = 0"

fun reconnect_left :: "reconnect_thread \<Rightarrow> nat" where
  "reconnect_left Conn_state = 13"
| "reconnect_left Conn_connect = 12"
| "reconnect_left Conn_status = 11"
| "reconnect_left Conn_alarm = 10"
| "reconnect_left Conn_join = 9"
| "reconnect_left Conn_create = 8"
| "reconnect_left Conn_callback = 2"
| "reconnect_left Conn_head = 1"
| "reconnect_left _ = 0"

fun stop_left :: "stop_thread \<Rightarrow> nat" where
  "stop_left Stop_none = 5"
| "stop_left Stop_join_reconnect = 4"
| "stop_left Stop_shutdown = 3"
| "stop_left Stop_join_recv = 2"
| "stop_left Stop_close = 1"
| "stop_left Stop_done = 0"

definition steps_left :: "tcp_client \<Rightarrow> nat" where
  "steps_left c = recv_left (tc_recv c) + reconnect_left (tc_reconnect c) + stop_left (tc_stop c)"

lemma stopped_step:
  assumes "tcp_step env c c'" "tc_stop c \<noteq> Stop_none" "tcp_inv c \<and> stop_ok c"
  shows "tc_stop c' \<noteq> Stop_none" "steps_left c' < steps_left c"
proof -
  have r: "\<not> tc_running c" using assms(2,3) by (simp add: stop_ok_def)
  have "tc_stop c' \<noteq> Stop_none \<and> steps_left c' < steps_left c"
    using assms(1)
  proof cases
    case own
    then show ?thesis
    proof cases
      case reconnect
      moreover have "tc_reconnect c = Conn_create \<longrightarrow> tc_recv c = Recv_none" using assms(3) by (simp add: tcp_inv_def)
      ultimately show ?thesis using assms(2) r by (cases rule: reconnect_step.cases) (auto simp: steps_left_def)
    next
      case receive
      then show ?thesis using assms(2) r by (cases rule: recv_step.cases) (auto simp: steps_left_def)
    next
      case stopping
      then show ?thesis using assms(2) by (cases rule: tcp_client_stop.cases) (auto simp: steps_left_def)
    qed
  next
    case outside
    then show ?thesis using assms(2) by (cases rule: recv_event.cases) (auto simp: steps_left_def)
  qed
  then show "tc_stop c' \<noteq> Stop_none" "steps_left c' < steps_left c" by simp_all
qed

lemma stopped_steps:
  "(tcp_step env ^^ n) c c' \<Longrightarrow> tc_stop c \<noteq> Stop_none \<Longrightarrow> tcp_inv c \<and> stop_ok c \<Longrightarrow> n + steps_left c' \<le> steps_left c"
proof (induction n arbitrary: c)
  case (Suc n)
  then obtain b where b: "tcp_step env c b" "(tcp_step env ^^ n) b c'" by (metis relpowp_Suc_D2)
  then show ?case using Suc.IH [OF b(2)] stopped_step [OF b(1) Suc.prems(2,3)] tcp_step_inv [OF b(1) Suc.prems(3)] by simp
qed simp

lemma steps_left_bound: "tc_stop c \<noteq> Stop_none \<Longrightarrow> steps_left c \<le> 23"
  unfolding steps_left_def by (cases "tc_recv c"; cases "tc_reconnect c"; cases "tc_stop c") simp_all

text \<open>No thread waits for anything but another thread that goes on; in particular the one blocked in \<open>recv\<close> has been woken by then.\<close>

lemma recv_goes_on:
  assumes "\<not> tc_running c" "tc_recv c \<notin> {Recv_none, Recv_ended}" "tc_recv c = Recv_blocked \<Longrightarrow> tc_shut c \<or> tc_sockfd c = None"
  shows "\<exists>c'. program_step env c c'"
proof -
  have "\<exists>c'. recv_step env c c'" using assms recv_step.intros [where env = env and c = c] by (cases "tc_recv c") auto
  then show ?thesis using program_step.receive by blast
qed

lemma reconnect_goes_on:
  assumes "\<not> tc_running c" "tcp_inv c" "tc_reconnect c \<notin> {Conn_none, Conn_ended}"
  shows "\<exists>c'. program_step env c c'"
proof (cases "tc_reconnect c = Conn_join \<and> tc_recv c \<notin> {Recv_none, Recv_ended}")
  case True
  then have "tc_recv c \<noteq> Recv_blocked" using assms(2) by (auto simp: tcp_inv_def receiving_def fresh_def)
  then show ?thesis using recv_goes_on assms(1) True by blast
next
  case False
  have "tcp_open_socket \<lparr>cn_socket = False, cn_connect = False, cn_in_progress = False, cn_select = 0, cn_error = 0\<rparr> \<noteq> SUCCESS" by (simp add: tcp_open_socket_def)
  then have "\<exists>c'. reconnect_step env c c'"
    using False assms(1,3) reconnect_step.intros [where env = env and c = c] by (cases "tc_reconnect c") auto
  then show ?thesis using program_step.reconnect by blast
qed

lemma not_done_step:
  assumes "tc_stop c \<noteq> Stop_none" "tc_stop c \<noteq> Stop_done" "tcp_inv c \<and> stop_ok c"
  shows "\<exists>c'. program_step env c c'"
proof -
  have r: "\<not> tc_running c" and i: "tcp_inv c" using assms(1,3) by (simp_all add: stop_ok_def)
  note s = tcp_client_stop.intros [of c, THEN program_step.stopping [where env = env]]
  show ?thesis
  proof (cases "tc_stop c")
    case Stop_join_reconnect
    then show ?thesis using s(2) reconnect_goes_on [OF r i, of env] by blast
  next
    case Stop_join_recv
    moreover have "tc_sockfd c = None \<or> tc_shut c" using assms(3) Stop_join_recv by (simp add: stop_ok_def)
    ultimately show ?thesis using s(4) recv_goes_on [OF r, of env] by blast
  qed (use s assms in auto)
qed

subsection \<open>Properties\<close>

text \<open>C26. However the two threads interleave, connections do not overlap: every callback about one connection comes before every callback
  about the next, the data and the end of a connection are told by the thread that was started for it,
  and after its end nothing follows but the late notice that it had come up. This is what the comment in
  \<open>on_tcp_disconnected\<close> relies on when it resets the receive buffer without a lock.\<close>

theorem connections_do_not_overlap:
  assumes "(tcp_step env)\<^sup>*\<^sup>* (tcp_start ip port am) c" "i < j" "j < length (tc_trace c)"
  shows "fst (tc_trace c ! i) < fst (tc_trace c ! j)
     \<or> (fst (tc_trace c ! i) = fst (tc_trace c ! j) \<and> (snd (tc_trace c ! i) = On_disconnected \<longrightarrow> snd (tc_trace c ! j) = On_connected))"
  using tcp_reachable_inv [OF assms(1)] assms(2,3) by (auto simp: tcp_inv_def sorted_wrt_iff_nth_less may_follow_def)

lemma stopped_ends:
  "tc_stop c \<noteq> Stop_none \<Longrightarrow> tcp_inv c \<and> stop_ok c \<Longrightarrow> \<exists>e. (program_step env)\<^sup>*\<^sup>* c e \<and> tc_stop e = Stop_done"
proof (induction "steps_left c" arbitrary: c rule: less_induct)
  case less
  show ?case
  proof (cases "tc_stop c = Stop_done")
    case False
    then obtain b where b: "program_step env c b" using not_done_step [OF less.prems(1) _ less.prems(2)] by blast
    then have t: "tcp_step env c b" by (rule tcp_step.own)
    obtain e where "(program_step env)\<^sup>*\<^sup>* b e" "tc_stop e = Stop_done"
      using less.hyps [of b] stopped_step [OF t less.prems] tcp_step_inv [OF t less.prems(2)] by blast
    then show ?thesis using b by (meson converse_rtranclp_into_rtranclp)
  qed blast
qed

text \<open>C27. Stopping the client ends, and needs no help from outside. Wherever the threads are when \<open>tcp_client_stop\<close> is called, a thread blocked in \<open>recv\<close> on a silent connection and one in
  the middle of connecting included: until it returns, the program can always go on by itself, whatever the other side does; no run from then on is longer than 23 steps; and when it
  returns, both threads have ended and the socket is closed.\<close>

theorem tcp_stop_ends:
  assumes "(tcp_step env)\<^sup>*\<^sup>* (tcp_start ip port am) c" "tc_stop c \<noteq> Stop_none"
  shows "(tc_stop c \<noteq> Stop_done \<longrightarrow> (\<exists>c'. program_step env c c')) \<and> (\<exists>c'. (program_step env)\<^sup>*\<^sup>* c c' \<and> tc_stop c' = Stop_done)
    \<and> (\<forall>n c'. (tcp_step env ^^ n) c c' \<longrightarrow> n \<le> 23)
    \<and> (tc_stop c = Stop_done \<longrightarrow> tc_reconnect c = Conn_none \<and> tc_recv c = Recv_none \<and> tc_sockfd c = None \<and> tc_state c = TCP_STATE_DISCONNECTED)"
proof (intro conjI allI impI)
  note i = tcp_reachable_inv [OF assms(1)]
  show "\<exists>c'. program_step env c c'" if "tc_stop c \<noteq> Stop_done" using not_done_step [OF assms(2) that i] .
  show "\<exists>c'. (program_step env)\<^sup>*\<^sup>* c c' \<and> tc_stop c' = Stop_done" using stopped_ends [OF assms(2) i] .
  show "n \<le> 23" if "(tcp_step env ^^ n) c c'" for n c'
    using stopped_steps [OF that assms(2) i] steps_left_bound [OF assms(2)] by simp
qed (use tcp_reachable_inv [OF assms(1)] in \<open>simp_all add: tcp_inv_def stop_ok_def\<close>)

subsection \<open>A lost connection that is found late\<close>

lemma tcp_flag_kept:
  "am_tcp_connected (snd (alarm_trigger env g c s i)) = am_tcp_connected g"
  "\<not> am_tcp_connected g \<Longrightarrow> am_sent (snd (alarm_trigger env g c s i)) = am_sent g"
  "am_tcp_connected (snd (alarm_clear env g c s)) = am_tcp_connected g"
  "am_tcp_connected (alarm_trigger_tcp_disconnect env g r) = am_tcp_connected g"
  "am_tcp_connected (alarm_clear_tcp_disconnect env g) = am_tcp_connected g"
  "\<not> b \<Longrightarrow> am_tcp_connected (alarm_set_tcp_status env g b) = b"
proof -
  have r: "am_tcp_connected (snd (alarm_report_to_bbu env g c s f i)) = am_tcp_connected g" for g c s f i
    using report_table(3) [of env g c s f i] by (simp add: alarm_rest_def)
  have m: "am_tcp_connected (mark_reported_section g idx c s) = am_tcp_connected g" for g idx c s by (simp add: mark_reported_section_def Let_def)
  have t: "am_tcp_connected (snd (trigger_section env g c s i)) = am_tcp_connected g" "am_sent (snd (trigger_section env g c s i)) = am_sent g" for g c s i
    by (auto simp: trigger_section_def Let_def split: option.splits if_splits)
  have k: "am_tcp_connected (snd (clear_section env g c s)) = am_tcp_connected g" for g c s by (auto simp: clear_section_def split: option.splits)
  show tr: "am_tcp_connected (snd (alarm_trigger env g c s i)) = am_tcp_connected g" for g c s i
    using t(1) [of g c s i] by (auto simp: alarm_trigger_def r m split: prod.splits trigger_result.splits)
  show "\<not> am_tcp_connected g \<Longrightarrow> am_sent (snd (alarm_trigger env g c s i)) = am_sent g"
    using t [of g c s i] by (auto simp: alarm_trigger_def split: prod.splits trigger_result.splits)
  show cl: "am_tcp_connected (snd (alarm_clear env g c s)) = am_tcp_connected g" for g c s
    using k [of g c s] by (auto simp: alarm_clear_def r split: prod.splits option.splits)
  show "am_tcp_connected (alarm_trigger_tcp_disconnect env g r) = am_tcp_connected g" by (simp add: alarm_trigger_tcp_disconnect_def Let_def tr)
  show "am_tcp_connected (alarm_clear_tcp_disconnect env g) = am_tcp_connected g" by (simp add: alarm_clear_tcp_disconnect_def Let_def cl)
  show "\<not> b \<Longrightarrow> am_tcp_connected (alarm_set_tcp_status env g b) = b" by (simp add: alarm_set_tcp_status_def)
qed

definition good_calls :: connect_calls where
  "good_calls = \<lparr>cn_socket = True, cn_connect = True, cn_in_progress = False, cn_select = 0, cn_error = 0\<rparr>"

text \<open>A connection that comes up, as far as the receiving thread of the one before, and the rest once that thread has ended.\<close>

lemma own_steps:
  "(reconnect_step env)\<^sup>*\<^sup>* c c' \<Longrightarrow> (tcp_step env)\<^sup>*\<^sup>* c c'" "(recv_step env)\<^sup>*\<^sup>* c c' \<Longrightarrow> (tcp_step env)\<^sup>*\<^sup>* c c'"
  by (rule mono_rtranclp [rule_format], auto intro: tcp_step.own program_step.intros)+

lemma comes_up:
  assumes "tc_reconnect c = Conn_head" "tc_running c" "tc_state c = TCP_STATE_DISCONNECTED"
  shows "(tcp_step env)\<^sup>*\<^sup>* c (c\<lparr>tc_connection := Suc (tc_connection c), tc_sockfd := Some (Suc (tc_connection c)), tc_shut := False, tc_state := TCP_STATE_CONNECTED,
     tc_alarms := alarm_clear_tcp_disconnect env (alarm_set_tcp_status env (tc_alarms c) True), tc_reconnect := Conn_join\<rparr>)"
proof -
  let ?a = "c\<lparr>tc_reconnect := Conn_state\<rparr>" and ?b = "c\<lparr>tc_reconnect := Conn_connect\<rparr>"
  let ?s1 = "?b\<lparr>tc_connection := Suc (tc_connection ?b), tc_sockfd := Some (Suc (tc_connection ?b)), tc_shut := False, tc_state := TCP_STATE_CONNECTED, tc_reconnect := Conn_status\<rparr>"
  let ?s2 = "?s1\<lparr>tc_alarms := alarm_set_tcp_status env (tc_alarms ?s1) True, tc_reconnect := Conn_alarm\<rparr>"
  have "reconnect_step env c ?a" using assms by (intro reconnect_step.turn)
  moreover have "reconnect_step env ?a ?b" using reconnect_step.begin_connect [of ?a env] assms by simp
  moreover have "reconnect_step env ?b ?s1" by (intro reconnect_step.connected [where k = good_calls]) (simp_all add: tcp_open_socket_def good_calls_def)
  moreover have "reconnect_step env ?s1 ?s2" by (rule reconnect_step.status_up) simp
  moreover have "reconnect_step env ?s2 (?s2\<lparr>tc_alarms := alarm_clear_tcp_disconnect env (tc_alarms ?s2), tc_reconnect := Conn_join\<rparr>)"
    by (rule reconnect_step.alarm_off) simp
  ultimately have "(reconnect_step env)\<^sup>*\<^sup>* c (?s2\<lparr>tc_alarms := alarm_clear_tcp_disconnect env (tc_alarms ?s2), tc_reconnect := Conn_join\<rparr>)"
    by (meson converse_rtranclp_into_rtranclp rtranclp.rtrancl_refl)
  then have "(tcp_step env)\<^sup>*\<^sup>* c (?s2\<lparr>tc_alarms := alarm_clear_tcp_disconnect env (tc_alarms ?s2), tc_reconnect := Conn_join\<rparr>)" by (rule own_steps(1))
  then show ?thesis by simp
qed

lemma comes_to_receive:
  assumes "tc_reconnect c = Conn_join" "tc_running c" "tc_recv c = Recv_none \<or> tc_recv c = Recv_ended"
  shows "(tcp_step env)\<^sup>*\<^sup>* c (c\<lparr>tc_owner := tc_connection c, tc_trace := tc_trace c @ [(tc_connection c, On_connected)],
     tc_reconnect := Conn_head, tc_recv := Recv_blocked\<rparr>)"
proof -
  let ?s1 = "c\<lparr>tc_recv := Recv_none, tc_reconnect := Conn_create\<rparr>"
  let ?s2 = "?s1\<lparr>tc_recv := Recv_head, tc_owner := tc_connection ?s1, tc_reconnect := Conn_callback\<rparr>"
  let ?s3 = "?s2\<lparr>tc_trace := tc_trace ?s2 @ [(tc_connection ?s2, On_connected)], tc_reconnect := Conn_head\<rparr>"
  have "reconnect_step env c ?s1" using assms by (intro reconnect_step.join)
  moreover have "reconnect_step env ?s1 ?s2" by (rule reconnect_step.created) simp
  moreover have "reconnect_step env ?s2 ?s3" by (rule reconnect_step.call_connected) simp
  ultimately have "(tcp_step env)\<^sup>*\<^sup>* c ?s3"
    by (meson converse_rtranclp_into_rtranclp rtranclp.rtrancl_refl own_steps(1))
  moreover have "recv_step env ?s3 (?s3\<lparr>tc_recv := Recv_blocked\<rparr>)" using assms(2) by (intro recv_step.head) simp_all
  ultimately have "(tcp_step env)\<^sup>*\<^sup>* c (?s3\<lparr>tc_recv := Recv_blocked\<rparr>)" by (meson rtranclp.rtrancl_into_rtrancl tcp_step.own program_step.receive)
  then show ?thesis by simp
qed

lemma goes_down:
  assumes "tc_recv c = Recv_blocked"
  shows "(tcp_step env)\<^sup>*\<^sup>* c (c\<lparr>tc_sockfd := None, tc_state := TCP_STATE_DISCONNECTED, tc_recv := Recv_status\<rparr>)"
proof -
  let ?s1 = "c\<lparr>tc_recv := Recv_close\<rparr>"
  have "tcp_step env c ?s1" using assms by (intro tcp_step.outside recv_event.closed)
  moreover have "tcp_step env ?s1 (?s1\<lparr>tc_sockfd := None, tc_state := TCP_STATE_DISCONNECTED, tc_recv := Recv_status\<rparr>)"
    by (intro tcp_step.own program_step.receive recv_step.close) simp
  ultimately have "(tcp_step env)\<^sup>*\<^sup>* c (?s1\<lparr>tc_sockfd := None, tc_state := TCP_STATE_DISCONNECTED, tc_recv := Recv_status\<rparr>)"
    by (meson converse_rtranclp_into_rtranclp rtranclp.rtrancl_refl)
  then show ?thesis by simp
qed

lemma tells_end:
  assumes "tc_recv c = Recv_status"
  shows "(tcp_step env)\<^sup>*\<^sup>* c (c\<lparr>tc_alarms := alarm_trigger_tcp_disconnect env (alarm_set_tcp_status env (tc_alarms c) False) (Some ''Connection lost''),
     tc_trace := tc_trace c @ [(tc_owner c, On_disconnected)], tc_recv := Recv_ended\<rparr>)"
proof -
  let ?s1 = "c\<lparr>tc_alarms := alarm_set_tcp_status env (tc_alarms c) False, tc_recv := Recv_alarm\<rparr>"
  let ?s2 = "?s1\<lparr>tc_alarms := alarm_trigger_tcp_disconnect env (tc_alarms ?s1) (Some ''Connection lost''), tc_recv := Recv_callback\<rparr>"
  have "recv_step env c ?s1" using assms by (rule recv_step.status_down)
  moreover have "recv_step env ?s1 ?s2" by (rule recv_step.alarm_on) simp
  moreover have "recv_step env ?s2 (?s2\<lparr>tc_trace := tc_trace ?s2 @ [(tc_owner ?s2, On_disconnected)], tc_recv := Recv_ended\<rparr>)"
    by (rule recv_step.call_disconnected) simp
  ultimately have "(tcp_step env)\<^sup>*\<^sup>* c (?s2\<lparr>tc_trace := tc_trace ?s2 @ [(tc_owner ?s2, On_disconnected)], tc_recv := Recv_ended\<rparr>)"
    by (meson converse_rtranclp_into_rtranclp rtranclp.rtrancl_refl own_steps(2))
  then show ?thesis by simp
qed

lemma late_end_schedule:
  "\<exists>c. (tcp_step env)\<^sup>*\<^sup>* (tcp_start ip port am) c \<and> tc_state c = TCP_STATE_CONNECTED \<and> tc_recv c = Recv_blocked \<and> tc_reconnect c = Conn_head \<and> tc_running c
     \<and> map snd (tc_trace c) = [On_connected, On_disconnected, On_connected]
     \<and> (\<forall>code sub info. am_sent (snd (alarm_trigger env (tc_alarms c) code sub info)) = am_sent (tc_alarms c))"
proof -
  define c0 where "c0 = tcp_start ip port am"
  have 0: "tc_reconnect c0 = Conn_head" "tc_running c0" "tc_state c0 = TCP_STATE_DISCONNECTED" "tc_recv c0 = Recv_none" "tc_trace c0 = []"
    by (simp_all add: c0_def tcp_start_def tcp_client_start_def tcp_client_init_def)
  obtain c1 where 1: "(tcp_step env)\<^sup>*\<^sup>* c0 c1" "tc_reconnect c1 = Conn_join" "tc_running c1" "tc_recv c1 = Recv_none" "tc_trace c1 = []"
    using comes_up [OF 0(1-3)] 0 by fastforce
  obtain c2 where 2: "(tcp_step env)\<^sup>*\<^sup>* c1 c2" "tc_reconnect c2 = Conn_head" "tc_running c2" "tc_recv c2 = Recv_blocked" "map snd (tc_trace c2) = [On_connected]"
    using comes_to_receive [OF 1(2,3), of env] 1 by fastforce
  obtain c3 where 3: "(tcp_step env)\<^sup>*\<^sup>* c2 c3" "tc_reconnect c3 = Conn_head" "tc_running c3" "tc_recv c3 = Recv_status" "tc_state c3 = TCP_STATE_DISCONNECTED"
      "map snd (tc_trace c3) = [On_connected]"
    using goes_down [OF 2(4), of env] 2 by fastforce
  obtain c4 where 4: "(tcp_step env)\<^sup>*\<^sup>* c3 c4" "tc_reconnect c4 = Conn_join" "tc_running c4" "tc_recv c4 = Recv_status" "tc_state c4 = TCP_STATE_CONNECTED"
      "map snd (tc_trace c4) = [On_connected]"
    using comes_up [OF 3(2,3,5)] 3 by fastforce
  obtain c5 where 5: "(tcp_step env)\<^sup>*\<^sup>* c4 c5" "tc_reconnect c5 = Conn_join" "tc_running c5" "tc_recv c5 = Recv_ended" "tc_state c5 = TCP_STATE_CONNECTED"
      "map snd (tc_trace c5) = [On_connected, On_disconnected]" "\<not> am_tcp_connected (tc_alarms c5)"
    using tells_end [OF 4(4), of env] 4 by (fastforce simp: tcp_flag_kept)
  obtain c6 where 6: "(tcp_step env)\<^sup>*\<^sup>* c5 c6" "tc_reconnect c6 = Conn_head" "tc_running c6" "tc_recv c6 = Recv_blocked" "tc_state c6 = TCP_STATE_CONNECTED"
      "map snd (tc_trace c6) = [On_connected, On_disconnected, On_connected]" "\<not> am_tcp_connected (tc_alarms c6)"
    using comes_to_receive [OF 5(2,3), of env] 5 by fastforce
  have "(tcp_step env)\<^sup>*\<^sup>* c0 c6" using 1(1) 2(1) 3(1) 4(1) 5(1) 6(1) by (meson rtranclp_trans)
  then show ?thesis using 6(2-6) tcp_flag_kept(2) [OF 6(7)] unfolding c0_def by (intro exI [of _ c6]) simp
qed

text \<open>The connecting thread tells the alarms that the connection is up before it waits for the receiving thread of the old one, which may only then
  tell them that it is down: the client is connected and receives, but the alarms are kept back until the next connection.\<close>

theorem late_end_mutes_alarms:
  "\<exists>c. (tcp_step env)\<^sup>*\<^sup>* (tcp_start ip port am) c \<and> tc_state c = TCP_STATE_CONNECTED \<and> tc_recv c = Recv_blocked \<and> tc_reconnect c = Conn_head \<and> tc_running c
     \<and> map snd (tc_trace c) = [On_connected, On_disconnected, On_connected]
     \<and> (\<forall>code sub info. am_sent (snd (alarm_trigger env (tc_alarms c) code sub info)) = am_sent (tc_alarms c))"
  by (rule late_end_schedule)

theorem connections_do_not_overlap_witness:
  "\<forall>env ip port am. \<exists>c. (tcp_step env)\<^sup>*\<^sup>* (tcp_start ip port am) c \<and> fst (tc_trace c ! 1) \<le> fst (tc_trace c ! 2)"
proof (intro allI)
  fix env ip port am
  obtain c where c: "(tcp_step env)\<^sup>*\<^sup>* (tcp_start ip port am) c" "map snd (tc_trace c) = [On_connected, On_disconnected, On_connected]"
    using late_end_schedule [of env ip port am] by (elim exE conjE) (rule that)
  have "length (map snd (tc_trace c)) = 3" unfolding c(2) by simp
  then have "2 < length (tc_trace c)" by simp
  then show "\<exists>c. (tcp_step env)\<^sup>*\<^sup>* (tcp_start ip port am) c \<and> fst (tc_trace c ! 1) \<le> fst (tc_trace c ! 2)"
    using connections_do_not_overlap [OF c(1), of 1 2] c(1) by auto
qed

theorem tcp_stop_ends_witness:
  "\<forall>env ip port am. \<exists>c'. (tcp_step env)\<^sup>*\<^sup>* (tcp_start ip port am) c' \<and> tc_stop c' = Stop_done \<and> tc_sockfd c' = None"
proof (intro allI)
  fix env ip port am
  let ?c = "tcp_start ip port am"
  let ?d = "?c\<lparr>tc_running := False, tc_stop := Stop_join_reconnect\<rparr>"
  have "tcp_step env ?c ?d"
    by (intro tcp_step.own program_step.stopping tcp_client_stop.called) (simp add: tcp_start_def tcp_client_start_def tcp_client_init_def)
  then have d: "(tcp_step env)\<^sup>*\<^sup>* ?c ?d" by blast
  obtain e where e: "(program_step env)\<^sup>*\<^sup>* ?d e" "tc_stop e = Stop_done" using tcp_stop_ends [OF d] by auto
  have "(tcp_step env)\<^sup>*\<^sup>* ?d e" using e(1) by (rule mono_rtranclp [rule_format, rotated]) (rule tcp_step.own)
  then have c: "(tcp_step env)\<^sup>*\<^sup>* ?c e" using d by simp
  then show "\<exists>c'. (tcp_step env)\<^sup>*\<^sup>* ?c c' \<and> tc_stop c' = Stop_done \<and> tc_sockfd c' = None"
    using tcp_stop_ends [OF c] e(2) by auto
qed

end
