(* ===== verification/FpgaWatchdog.thy ===== *)
theory FpgaWatchdog
  imports AlarmManager
begin

unbundle bit_operations_syntax

text \<open>
  The watchdog of the FPGA, from fpga_watchdog.c: a pin of the processor is set up through memory-mapped registers, and a thread toggles it
  every three seconds. What a register holds after a write is an argument, so that registers that ignore writes are covered.
\<close>

subsection \<open>Registers\<close>

abbreviation (input) GPIO0_BASE :: u32 where "GPIO0_BASE \<equiv> 0x28004000"
abbreviation (input) GPIO1_BASE :: u32 where "GPIO1_BASE \<equiv> 0x28005000"
abbreviation (input) PIN_MUX_BASE :: u32 where "PIN_MUX_BASE \<equiv> 0x28180000"
abbreviation (input) SWPORTA_DR_OFFSET :: u32 where "SWPORTA_DR_OFFSET \<equiv> 0"
abbreviation (input) SWPORTA_DDR_OFFSET :: u32 where "SWPORTA_DDR_OFFSET \<equiv> 4"
abbreviation (input) SWPORTB_DR_OFFSET :: u32 where "SWPORTB_DR_OFFSET \<equiv> 0x0C"
abbreviation (input) SWPORTB_DDR_OFFSET :: u32 where "SWPORTB_DDR_OFFSET \<equiv> 0x10"
abbreviation (input) GPIO_FUNCTION_VALUE :: u32 where "GPIO_FUNCTION_VALUE \<equiv> 2"
abbreviation (input) WATCHDOG_FEED_FAIL_ALARM_THRESHOLD :: u32 where "WATCHDOG_FEED_FAIL_ALARM_THRESHOLD \<equiv> 3"
abbreviation (input) ALARM_CODE_WATCHDOG_FEED_FAIL :: u32 where "ALARM_CODE_WATCHDOG_FEED_FAIL \<equiv> 1161"

text \<open>The device: address, old value, written value, and what the register holds then.\<close>

type_synonym device = "u32 \<Rightarrow> u32 \<Rightarrow> u32 \<Rightarrow> u32"

record gpio_config =
  gp_gpio_base :: u32
  gp_pin_mux_offset :: u32
  gp_mux_func_bit :: u32
  gp_mux_pull_bit :: u32
  gp_port :: u32
  gp_use_portb :: u32

text \<open>The manager with the file-level variables: the descriptor of the memory device, the two mappings, and the registers.\<close>

record fpga_watchdog_manager =
  wd_gpio :: gpio_config
  wd_feed_count :: u32
  wd_consecutive_feed_fails :: u32
  wd_enabled :: bool
  wd_thread :: bool
  wd_mutex_ready :: bool
  wd_mem_fd :: bool
  wd_gpio_mapped_base :: "u32 option"
  wd_iomux_mapped_base :: "u32 option"
  wd_regs :: "u32 \<Rightarrow> u32"

record watchdog_calls =
  wc_mutex :: bool
  wc_open :: bool
  wc_mmap :: "u32 \<Rightarrow> bool"
  wc_thread :: bool

definition REG_WRITE :: "device \<Rightarrow> u32 \<Rightarrow> u32 \<Rightarrow> fpga_watchdog_manager \<Rightarrow> fpga_watchdog_manager" where
  "REG_WRITE dev addr val w = w\<lparr>wd_regs := (wd_regs w)(addr := dev addr (wd_regs w addr) val)\<rparr>"

text \<open>A mapping covers 4096 bytes; a shift by 32 or more has no defined value.\<close>

definition mapped :: "u32 \<Rightarrow> u32 \<Rightarrow> u32 option" where
  "mapped base off = (if unat off + 4 \<le> 0x1000 then Some (base + off) else None)"

definition shifted :: "u32 \<Rightarrow> u32 \<Rightarrow> u32 option" where
  "shifted v n = (if n < 32 then Some (push_bit (unat n) v) else None)"

definition mmap_init :: "watchdog_calls \<Rightarrow> u32 \<Rightarrow> fpga_watchdog_manager \<Rightarrow> u32 option \<times> fpga_watchdog_manager" where
  "mmap_init k base_addr w =
     (if \<not> wd_mem_fd w \<and> \<not> wc_open k then (None, w)
      else let w = w\<lparr>wd_mem_fd := True\<rparr>
           in if \<not> wc_mmap k base_addr then (None, w) else (Some base_addr, w))"

definition configure_iomux :: "device \<Rightarrow> watchdog_calls \<Rightarrow> gpio_config \<Rightarrow> fpga_watchdog_manager \<Rightarrow> (int \<times> fpga_watchdog_manager) option" where
  "configure_iomux dev k config w =
     (case (case wd_iomux_mapped_base w of
              Some b \<Rightarrow> (Some b, w)
            | None \<Rightarrow> (case mmap_init k PIN_MUX_BASE w of (b, w) \<Rightarrow> (b, w\<lparr>wd_iomux_mapped_base := b\<rparr>))) of
        (None, w) \<Rightarrow> Some (ERROR_GENERAL, w)
      | (Some base, w) \<Rightarrow> do {
          mux_reg \<leftarrow> mapped base (gp_pin_mux_offset config);
          clear \<leftarrow> shifted 0xF (gp_mux_func_bit config);
          func \<leftarrow> shifted GPIO_FUNCTION_VALUE (gp_mux_func_bit config);
          let mux_val = (wd_regs w mux_reg AND NOT clear) OR func;
          let w = REG_WRITE dev mux_reg mux_val w;
          Some (if wd_regs w mux_reg \<noteq> mux_val then (ERROR_GENERAL, w) else (SUCCESS, w)) })"

definition gpio_init :: "device \<Rightarrow> watchdog_calls \<Rightarrow> gpio_config \<Rightarrow> fpga_watchdog_manager \<Rightarrow> (int \<times> fpga_watchdog_manager) option" where
  "gpio_init dev k config w = do {
     (ret, w) \<leftarrow> configure_iomux dev k config w;
     Some (if ret \<noteq> SUCCESS then (ERROR_GENERAL, w) else (SUCCESS, w)) }"

text \<open>Setting or clearing the bit of the port in one of the registers of the controller: what the functions for the direction and for the value share.\<close>

definition gpio_set_bit :: "device \<Rightarrow> gpio_config \<Rightarrow> u32 \<Rightarrow> bool \<Rightarrow> fpga_watchdog_manager \<Rightarrow> (int \<times> fpga_watchdog_manager) option" where
  "gpio_set_bit dev config off on w =
     (if gp_gpio_base config \<noteq> GPIO0_BASE \<and> gp_gpio_base config \<noteq> GPIO1_BASE then Some (ERROR_GENERAL, w)
      else case wd_gpio_mapped_base w of
             None \<Rightarrow> Some (ERROR_GENERAL, w)
           | Some base \<Rightarrow> do {
               reg \<leftarrow> mapped base off;
               mask \<leftarrow> shifted 1 (gp_port config);
               let temp = wd_regs w reg;
               Some (SUCCESS, REG_WRITE dev reg (if on then temp OR mask else temp AND NOT mask) w) })"

definition gpio_set_direction :: "device \<Rightarrow> gpio_config \<Rightarrow> bool \<Rightarrow> fpga_watchdog_manager \<Rightarrow> (int \<times> fpga_watchdog_manager) option" where
  "gpio_set_direction dev config output w =
     gpio_set_bit dev config (if gp_use_portb config \<noteq> 0 then SWPORTB_DDR_OFFSET else SWPORTA_DDR_OFFSET) output w"

definition dr_offset :: "gpio_config \<Rightarrow> u32" where
  "dr_offset config = (if gp_use_portb config \<noteq> 0 then SWPORTB_DR_OFFSET else SWPORTA_DR_OFFSET)"

definition gpio_set_value :: "device \<Rightarrow> gpio_config \<Rightarrow> bool \<Rightarrow> fpga_watchdog_manager \<Rightarrow> (int \<times> fpga_watchdog_manager) option" where
  "gpio_set_value dev config high w = gpio_set_bit dev config (dr_offset config) high w"

definition watchdog_gpio_init :: "device \<Rightarrow> watchdog_calls \<Rightarrow> gpio_config \<Rightarrow> fpga_watchdog_manager \<Rightarrow> (int \<times> fpga_watchdog_manager) option" where
  "watchdog_gpio_init dev k config w =
     (case mmap_init k (gp_gpio_base config) w of (b, w) \<Rightarrow>
        let w = w\<lparr>wd_gpio_mapped_base := b\<rparr>
        in if b = None then Some (ERROR_GENERAL, w)
           else do {
             (ret, w) \<leftarrow> gpio_init dev k config w;
             if ret \<noteq> SUCCESS then Some (ERROR_GENERAL, w)
             else do {
               (ret, w) \<leftarrow> gpio_set_direction dev config True w;
               if ret \<noteq> SUCCESS then Some (ERROR_GENERAL, w)
               else do {
                 (ret, w) \<leftarrow> gpio_set_value dev config False w;
                 Some (if ret \<noteq> SUCCESS then (ERROR_GENERAL, w) else (SUCCESS, w)) } } })"

subsection \<open>The thread\<close>

definition watchdog_feed :: "device \<Rightarrow> gpio_config \<Rightarrow> fpga_watchdog_manager \<Rightarrow> (int \<times> fpga_watchdog_manager) option" where
  "watchdog_feed dev config w =
     (case wd_gpio_mapped_base w of
        None \<Rightarrow> Some (ERROR_GENERAL, w)
      | Some base \<Rightarrow> do {
          dr_reg \<leftarrow> mapped base (dr_offset config);
          mask \<leftarrow> shifted 1 (gp_port config);
          let current_value = wd_regs w dr_reg;
          let new_value = (if current_value AND mask \<noteq> 0 then current_value AND NOT mask else current_value OR mask);
          Some (SUCCESS, REG_WRITE dev dr_reg new_value w) })"

text \<open>One turn of the loop: whether it goes on, the manager and the alarms.\<close>

definition watchdog_turn :: "alarm_env \<Rightarrow> device \<Rightarrow> fpga_watchdog_manager \<times> alarm_manager \<Rightarrow> (bool \<times> fpga_watchdog_manager \<times> alarm_manager) option" where
  "watchdog_turn env dev st =
     (case st of (w, am) \<Rightarrow>
        if \<not> wd_enabled w then Some (False, w, am)
        else do {
          (ret, w) \<leftarrow> watchdog_feed dev (wd_gpio w) w;
          if ret \<noteq> 0
          then let w = w\<lparr>wd_consecutive_feed_fails := wd_consecutive_feed_fails w + 1\<rparr>
               in Some (True, w, if wd_consecutive_feed_fails w = WATCHDOG_FEED_FAIL_ALARM_THRESHOLD
                    then snd (alarm_trigger env am ALARM_CODE_WATCHDOG_FEED_FAIL 0 (Some ''FPGA watchdog feed failing repeatedly'')) else am)
          else let w = w\<lparr>wd_feed_count := wd_feed_count w + 1\<rparr>;
                   am = (if wd_consecutive_feed_fails w \<ge> WATCHDOG_FEED_FAIL_ALARM_THRESHOLD then snd (alarm_clear env am ALARM_CODE_WATCHDOG_FEED_FAIL 0) else am)
               in Some (True, w\<lparr>wd_consecutive_feed_fails := 0\<rparr>, am) })"

text \<open>The thread after a number of turns.\<close>

fun watchdog_thread_func :: "alarm_env \<Rightarrow> device \<Rightarrow> nat \<Rightarrow> fpga_watchdog_manager \<times> alarm_manager \<Rightarrow> (fpga_watchdog_manager \<times> alarm_manager) option" where
  "watchdog_thread_func env dev 0 st = Some st"
| "watchdog_thread_func env dev (Suc n) st = do {
     (more, st) \<leftarrow> watchdog_turn env dev st;
     if more then watchdog_thread_func env dev n st else Some st }"

subsection \<open>Operations\<close>

definition fpga_watchdog_init :: "device \<Rightarrow> watchdog_calls \<Rightarrow> gpio_config \<Rightarrow> fpga_watchdog_manager \<Rightarrow> (int \<times> fpga_watchdog_manager) option" where
  "fpga_watchdog_init dev k config w =
     (let w = w\<lparr>wd_feed_count := 0, wd_consecutive_feed_fails := 0, wd_enabled := False, wd_thread := False\<rparr>
      in if \<not> wc_mutex k then Some (ERROR_GENERAL, w)
         else let w = w\<lparr>wd_mutex_ready := True, wd_gpio := config\<rparr>
              in do {
                (ret, w) \<leftarrow> watchdog_gpio_init dev k config w;
                Some (if ret \<noteq> 0 then (ERROR_GENERAL, w\<lparr>wd_mutex_ready := False\<rparr>) else (SUCCESS, w)) })"

definition fpga_watchdog_start :: "watchdog_calls \<Rightarrow> fpga_watchdog_manager \<Rightarrow> int \<times> fpga_watchdog_manager" where
  "fpga_watchdog_start k w =
     (if \<not> wd_mutex_ready w then (ERROR_GENERAL, w)
      else if wd_enabled w then (SUCCESS, w)
      else let w = w\<lparr>wd_enabled := True, wd_feed_count := 0, wd_consecutive_feed_fails := 0\<rparr>
           in if \<not> wc_thread k then (ERROR_GENERAL, w\<lparr>wd_enabled := False\<rparr>) else (SUCCESS, w\<lparr>wd_thread := True\<rparr>))"

text \<open>The thread ends with the next look at the flag, and is waited for.\<close>

definition fpga_watchdog_stop :: "fpga_watchdog_manager \<Rightarrow> int \<times> fpga_watchdog_manager" where
  "fpga_watchdog_stop w =
     (if \<not> wd_mutex_ready w then (SUCCESS, w)
      else if \<not> wd_enabled w then (SUCCESS, w)
      else (SUCCESS, w\<lparr>wd_enabled := False, wd_thread := False\<rparr>))"

definition fpga_watchdog_is_running :: "fpga_watchdog_manager \<Rightarrow> bool" where
  "fpga_watchdog_is_running w = (if \<not> wd_mutex_ready w then False else wd_enabled w)"

definition fpga_watchdog_destroy :: "fpga_watchdog_manager \<Rightarrow> fpga_watchdog_manager" where
  "fpga_watchdog_destroy w =
     (let w = snd (fpga_watchdog_stop w);
          w = (if wd_gpio_mapped_base w \<noteq> None then w\<lparr>wd_gpio_mapped_base := None\<rparr> else w);
          w = (if wd_iomux_mapped_base w \<noteq> None then w\<lparr>wd_iomux_mapped_base := None\<rparr> else w);
          w = (if wd_mem_fd w then w\<lparr>wd_mem_fd := False\<rparr> else w)
      in if wd_mutex_ready w then w\<lparr>wd_mutex_ready := False\<rparr> else w)"

subsection \<open>After a successful start\<close>

definition data_register :: "fpga_watchdog_manager \<Rightarrow> u32" where
  "data_register w = gp_gpio_base (wd_gpio w) + dr_offset (wd_gpio w)"

definition watchdog_ready :: "fpga_watchdog_manager \<Rightarrow> bool" where
  "watchdog_ready w \<longleftrightarrow> wd_gpio_mapped_base w = Some (gp_gpio_base (wd_gpio w)) \<and> gp_port (wd_gpio w) < 32 \<and> wd_mutex_ready w"

lemma mapped_dr [simp]: "mapped base (dr_offset config) = Some (base + dr_offset config)"
  by (simp add: mapped_def dr_offset_def)

lemma write_simps [simp]:
  "wd_gpio (REG_WRITE dev a v w) = wd_gpio w" "wd_gpio_mapped_base (REG_WRITE dev a v w) = wd_gpio_mapped_base w"
  "wd_mutex_ready (REG_WRITE dev a v w) = wd_mutex_ready w" "wd_enabled (REG_WRITE dev a v w) = wd_enabled w"
  "wd_feed_count (REG_WRITE dev a v w) = wd_feed_count w" "wd_consecutive_feed_fails (REG_WRITE dev a v w) = wd_consecutive_feed_fails w"
  "wd_thread (REG_WRITE dev a v w) = wd_thread w"
  "wd_regs (REG_WRITE dev a v w) b = (if b = a then dev a (wd_regs w a) v else wd_regs w b)"
  by (simp_all add: REG_WRITE_def)

lemma iomux_keeps:
  assumes "configure_iomux dev k config w = Some (ret, w')"
  shows "wd_gpio w' = wd_gpio w \<and> wd_gpio_mapped_base w' = wd_gpio_mapped_base w \<and> wd_mutex_ready w' = wd_mutex_ready w
     \<and> wd_enabled w' = wd_enabled w \<and> wd_thread w' = wd_thread w"
  using assms by (auto simp: configure_iomux_def mmap_init_def Let_def bind_eq_Some_conv split: option.splits if_splits prod.splits)

lemma set_bit_keeps:
  assumes "gpio_set_bit dev config off on w = Some (SUCCESS, w')"
  shows "wd_gpio w' = wd_gpio w \<and> wd_gpio_mapped_base w' = wd_gpio_mapped_base w \<and> wd_mutex_ready w' = wd_mutex_ready w
     \<and> wd_enabled w' = wd_enabled w \<and> wd_thread w' = wd_thread w \<and> gp_port config < 32"
    "wd_gpio_mapped_base w = Some base \<Longrightarrow> mapped base off = Some a
     \<Longrightarrow> wd_regs w' a = dev a (wd_regs w a) (if on then wd_regs w a OR push_bit (unat (gp_port config)) 1 else wd_regs w a AND NOT (push_bit (unat (gp_port config)) 1))"
  using assms by (auto simp: gpio_set_bit_def shifted_def Let_def bind_eq_Some_conv split: option.splits if_splits)

lemma init_ready:
  assumes "fpga_watchdog_init dev k config w0 = Some (SUCCESS, w)"
  shows "watchdog_ready w" "wd_gpio w = config" "\<not> wd_enabled w" "\<not> wd_thread w"
    "\<exists>v. wd_regs w (data_register w) = dev (data_register w) v (v AND NOT (push_bit (unat (gp_port config)) 1))"
proof -
  define w1 where "w1 = w0\<lparr>wd_feed_count := 0, wd_consecutive_feed_fails := 0, wd_enabled := False, wd_thread := False,
     wd_mutex_ready := True, wd_gpio := config\<rparr>"
  have "watchdog_gpio_init dev k config w1 = Some (SUCCESS, w)"
    using assms by (auto simp: fpga_watchdog_init_def w1_def Let_def bind_eq_Some_conv split: if_splits)
  then obtain w2 w3 w4 where s: "mmap_init k (gp_gpio_base config) w1 = (Some (gp_gpio_base config), w2)"
      "configure_iomux dev k config (w2\<lparr>wd_gpio_mapped_base := Some (gp_gpio_base config)\<rparr>) = Some (SUCCESS, w3)"
      "gpio_set_direction dev config True w3 = Some (SUCCESS, w4)" "gpio_set_value dev config False w4 = Some (SUCCESS, w)"
    by (auto simp: watchdog_gpio_init_def gpio_init_def Let_def bind_eq_Some_conv mmap_init_def split: if_splits prod.splits)
  have 2: "wd_gpio w2 = config" "wd_mutex_ready w2" "\<not> wd_enabled w2" "\<not> wd_thread w2"
    using s(1) by (auto simp: mmap_init_def w1_def Let_def split: if_splits)
  note k = iomux_keeps [OF s(2)] set_bit_keeps(1) [OF s(3) [unfolded gpio_set_direction_def]] set_bit_keeps(1) [OF s(4) [unfolded gpio_set_value_def]]
  show "watchdog_ready w" "wd_gpio w = config" "\<not> wd_enabled w" "\<not> wd_thread w" using k 2 by (simp_all add: watchdog_ready_def)
  show "\<exists>v. wd_regs w (data_register w) = dev (data_register w) v (v AND NOT (push_bit (unat (gp_port config)) 1))"
    using set_bit_keeps(2) [OF s(4) [unfolded gpio_set_value_def], of "gp_gpio_base config"] k 2 by (auto simp: data_register_def)
qed

lemma ready_turn:
  assumes "watchdog_ready w" "wd_enabled w" "wd_consecutive_feed_fails w = 0"
  shows "\<exists>w'. watchdog_turn env dev (w, am) = Some (True, w', am) \<and> watchdog_ready w' \<and> wd_enabled w' \<and> wd_consecutive_feed_fails w' = 0 \<and> wd_gpio w' = wd_gpio w
     \<and> wd_feed_count w' = wd_feed_count w + 1
     \<and> wd_regs w' = (wd_regs w)(data_register w := dev (data_register w) (wd_regs w (data_register w))
          (wd_regs w (data_register w) XOR push_bit (unat (gp_port (wd_gpio w))) 1))"
proof -
  let ?r = "data_register w" and ?m = "push_bit (unat (gp_port (wd_gpio w))) 1 :: u32"
  have x: "(if v AND ?m \<noteq> 0 then v AND NOT ?m else v OR ?m) = v XOR ?m" for v
  proof (rule bit_word_eqI)
    fix i assume l: "i < LENGTH(32)"
    have "v AND ?m \<noteq> 0 \<longleftrightarrow> bit v (unat (gp_port (wd_gpio w)))"
      by (rule bit_iff_and_push_bit_not_eq_0 [symmetric])
    then show "bit (if v AND ?m \<noteq> 0 then v AND NOT ?m else v OR ?m) i = bit (v XOR ?m) i"
      using l by (auto simp: bit_simps)
  qed
  define w' where "w' = (REG_WRITE dev ?r (wd_regs w ?r XOR ?m) w)\<lparr>wd_feed_count := wd_feed_count w + 1, wd_consecutive_feed_fails := 0\<rparr>"
  have "watchdog_feed dev (wd_gpio w) w = Some (SUCCESS, REG_WRITE dev ?r (if wd_regs w ?r AND ?m \<noteq> 0 then wd_regs w ?r AND NOT ?m else wd_regs w ?r OR ?m) w)"
    using assms(1) unfolding data_register_def by (simp add: watchdog_feed_def watchdog_ready_def shifted_def Let_def)
  then have "watchdog_feed dev (wd_gpio w) w = Some (SUCCESS, REG_WRITE dev ?r (wd_regs w ?r XOR ?m) w)" unfolding x .
  then have "watchdog_turn env dev (w, am) = Some (True, w', am)" using assms(2,3) by (simp add: watchdog_turn_def w'_def Let_def)
  moreover have "watchdog_ready w'" "wd_enabled w'" "wd_consecutive_feed_fails w' = 0" "wd_gpio w' = wd_gpio w" "wd_feed_count w' = wd_feed_count w + 1"
    using assms by (simp_all add: w'_def watchdog_ready_def)
  moreover have "wd_regs w' = (wd_regs w)(?r := dev ?r (wd_regs w ?r) (wd_regs w ?r XOR ?m))" by (simp add: w'_def REG_WRITE_def)
  ultimately show ?thesis by blast
qed

definition healthy :: device where
  "healthy addr old new = new"

lemma healthy_writes: "healthy addr old new = new"
  by (simp add: healthy_def)

lemma ready_turns:
  assumes "watchdog_ready w" "wd_enabled w" "wd_consecutive_feed_fails w = 0"
  shows "\<exists>w'. watchdog_thread_func env dev n (w, am) = Some (w', am) \<and> watchdog_ready w' \<and> wd_enabled w' \<and> wd_consecutive_feed_fails w' = 0 \<and> wd_gpio w' = wd_gpio w
     \<and> wd_feed_count w' = wd_feed_count w + of_nat n
     \<and> (dev = healthy \<longrightarrow> wd_regs w' = (wd_regs w)(data_register w := (if odd n then wd_regs w (data_register w) XOR push_bit (unat (gp_port (wd_gpio w))) 1
          else wd_regs w (data_register w))))"
  using assms
proof (induction n arbitrary: w)
  case 0
  then show ?case by auto
next
  case (Suc n)
  obtain w1 where 1: "watchdog_turn env dev (w, am) = Some (True, w1, am)" "watchdog_ready w1" "wd_enabled w1" "wd_consecutive_feed_fails w1 = 0"
      "wd_gpio w1 = wd_gpio w" "wd_feed_count w1 = wd_feed_count w + 1"
      "wd_regs w1 = (wd_regs w)(data_register w := dev (data_register w) (wd_regs w (data_register w))
          (wd_regs w (data_register w) XOR push_bit (unat (gp_port (wd_gpio w))) 1))"
    using ready_turn [OF Suc.prems] by blast
  have r: "data_register w1 = data_register w" using 1(5) by (simp add: data_register_def)
  have z: "(v XOR m) XOR m = v" for v m :: u32 by (simp add: xor.assoc)
  from Suc.IH [OF 1(2-4)] obtain w' where w': "watchdog_thread_func env dev n (w1, am) = Some (w', am)" "watchdog_ready w'" "wd_enabled w'"
      "wd_consecutive_feed_fails w' = 0" "wd_gpio w' = wd_gpio w1" "wd_feed_count w' = wd_feed_count w1 + of_nat n"
      "dev = healthy \<Longrightarrow> wd_regs w' = (wd_regs w1)(data_register w1 := (if odd n then wd_regs w1 (data_register w1) XOR push_bit (unat (gp_port (wd_gpio w1))) 1
          else wd_regs w1 (data_register w1)))" by blast
  have "dev = healthy \<Longrightarrow> wd_regs w' = (wd_regs w)(data_register w := (if odd (Suc n) then wd_regs w (data_register w) XOR push_bit (unat (gp_port (wd_gpio w))) 1
          else wd_regs w (data_register w)))"
    using w'(7) 1(5,7) by (cases "odd n") (simp_all add: r z healthy_writes)
  then show ?case using 1(1-6) w'(1-6) by (intro exI [of _ w']) simp
qed

subsection \<open>Properties\<close>

text \<open>C28. After a successful start the pin of the watchdog starts low and changes its level with every turn of the thread; no other bit of its register and no
  other register changes, and the alarms are left alone.\<close>

theorem watchdog_pin_toggles:
  assumes "fpga_watchdog_init healthy k config w0 = Some (SUCCESS, w)" "fpga_watchdog_start k w = (SUCCESS, w1)"
  shows "\<exists>w'. watchdog_thread_func env healthy n (w1, am) = Some (w', am) \<and> wd_feed_count w' = of_nat n
     \<and> bit (wd_regs w' (data_register w)) (unat (gp_port config)) = odd n
     \<and> (\<forall>i. i \<noteq> unat (gp_port config) \<longrightarrow> bit (wd_regs w' (data_register w)) i = bit (wd_regs w (data_register w)) i)
     \<and> (\<forall>a. a \<noteq> data_register w \<longrightarrow> wd_regs w' a = wd_regs w a)"
proof -
  note i = init_ready [OF assms(1)]
  have 1: "watchdog_ready w1" "wd_enabled w1" "wd_consecutive_feed_fails w1 = 0" "wd_gpio w1 = config" "wd_feed_count w1 = 0" "wd_regs w1 = wd_regs w"
    using assms(2) i by (auto simp: fpga_watchdog_start_def watchdog_ready_def Let_def split: if_splits)
  have r: "data_register w1 = data_register w" using 1(4) i(2) by (simp add: data_register_def)
  have p: "unat (gp_port config) < 32" using i(1,2) by (simp add: watchdog_ready_def word_less_nat_alt)
  have low: "\<not> bit (wd_regs w (data_register w)) (unat (gp_port config))" using i(5) p by (auto simp: healthy_def bit_simps)
  obtain w' where w': "watchdog_thread_func env healthy n (w1, am) = Some (w', am)" "wd_feed_count w' = of_nat n"
      "wd_regs w' = (wd_regs w)(data_register w := (if odd n then wd_regs w (data_register w) XOR push_bit (unat (gp_port config)) 1 else wd_regs w (data_register w)))"
    using ready_turns [OF 1(1-3), of env healthy n am] 1(4-6) r by auto
  have "bit (wd_regs w' (data_register w)) i = (if i = unat (gp_port config) then odd n else bit (wd_regs w (data_register w)) i)" for i
    using low p unfolding w'(3) by (auto simp: bit_simps)
  then show ?thesis using w' by (intro exI [of _ w']) simp
qed

text \<open>Whatever the registers do with what is written, no feeding is ever counted as failed and the alarm of the watchdog is never raised: the
  value is not read back, although the comment in the thread promises the alarm for writes that get lost.\<close>

theorem lost_feed_unnoticed:
  assumes "fpga_watchdog_init dev k config w0 = Some (SUCCESS, w)" "fpga_watchdog_start k w = (SUCCESS, w1)"
  shows "\<exists>w'. watchdog_thread_func env dev n (w1, am) = Some (w', am) \<and> wd_consecutive_feed_fails w' = 0 \<and> wd_feed_count w' = of_nat n"
proof -
  have "watchdog_ready w1" "wd_enabled w1" "wd_consecutive_feed_fails w1 = 0" "wd_feed_count w1 = 0"
    using assms(2) init_ready [OF assms(1)] by (auto simp: fpga_watchdog_start_def watchdog_ready_def Let_def split: if_splits)
  then show ?thesis using ready_turns [of w1 env dev n am] by auto
qed

definition gpio_example :: gpio_config where
  "gpio_example = \<lparr>gp_gpio_base = GPIO0_BASE, gp_pin_mux_offset = 0x214, gp_mux_func_bit = 8, gp_mux_pull_bit = 10, gp_port = 6, gp_use_portb = 1\<rparr>"

definition calls_example :: watchdog_calls where
  "calls_example = \<lparr>wc_mutex = True, wc_open = True, wc_mmap = (\<lambda>_. True), wc_thread = True\<rparr>"

definition manager_example :: fpga_watchdog_manager where
  "manager_example = \<lparr>wd_gpio = gpio_example, wd_feed_count = 0, wd_consecutive_feed_fails = 0, wd_enabled = False, wd_thread = False, wd_mutex_ready = False,
     wd_mem_fd = False, wd_gpio_mapped_base = None, wd_iomux_mapped_base = None, wd_regs = (\<lambda>_. 0)\<rparr>"

text \<open>A data register that ignores every write.\<close>

definition stuck :: device where
  "stuck addr old new = (if addr = 0x2800400C then old else new)"

lemma example_init:
  assumes "\<And>a old new. a \<noteq> 0x2800400C \<Longrightarrow> dev a old new = new"
  shows "\<exists>w w1. fpga_watchdog_init dev calls_example gpio_example manager_example = Some (SUCCESS, w) \<and> fpga_watchdog_start calls_example w = (SUCCESS, w1)
    \<and> data_register w = 0x2800400C"
  by (simp add: fpga_watchdog_init_def watchdog_gpio_init_def gpio_init_def configure_iomux_def mmap_init_def gpio_set_direction_def gpio_set_value_def gpio_set_bit_def
      calls_example_def gpio_example_def manager_example_def mapped_def shifted_def dr_offset_def fpga_watchdog_start_def data_register_def assms Let_def
      del: fun_upd_apply)

theorem watchdog_pin_toggles_witness:
  "\<forall>env am. \<exists>w1 w'. watchdog_thread_func env healthy 5 (w1, am) = Some (w', am) \<and> bit (wd_regs w' 0x2800400C) 6"
proof (intro allI)
  fix env am
  obtain w w1 where w: "fpga_watchdog_init healthy calls_example gpio_example manager_example = Some (SUCCESS, w)" "fpga_watchdog_start calls_example w = (SUCCESS, w1)"
      "data_register w = 0x2800400C" using example_init [of healthy] by (auto simp: healthy_def)
  from watchdog_pin_toggles [OF w(1,2), of env 5 am]
  show "\<exists>w1 w'. watchdog_thread_func env healthy 5 (w1, am) = Some (w', am) \<and> bit (wd_regs w' 0x2800400C) 6"
    by (auto simp: w(3) gpio_example_def)
qed

theorem lost_feed_unnoticed_witness:
  "\<forall>env am. \<exists>w1 w'. watchdog_thread_func env stuck 5 (w1, am) = Some (w', am) \<and> wd_feed_count w' = 5"
proof (intro allI)
  fix env am
  obtain w w1 where w: "fpga_watchdog_init stuck calls_example gpio_example manager_example = Some (SUCCESS, w)" "fpga_watchdog_start calls_example w = (SUCCESS, w1)"
    using example_init [of stuck] by (auto simp: stuck_def)
  from lost_feed_unnoticed [OF w(1,2), of env 5 am]
  show "\<exists>w1 w'. watchdog_thread_func env stuck 5 (w1, am) = Some (w', am) \<and> wd_feed_count w' = 5" by auto
qed

end
