(* ===== verification/MainLoop.thy ===== *)
theory MainLoop
  imports BbuStream CellConfig ChannelSetup VersionTrial
begin

text \<open>
  The main loop of main.c: once a second it asks for the channel while there is none, sends the heartbeat while there is one
  and gives the link up when the baseband unit is silent. The other threads act between two turns: the end
  of a connection, the heartbeat of the other side and the worker that updates the transmitter. No thread holds the mutex of the transmit control while a command goes out,
  so that a command, and the record of it behind it, are steps of their own.
\<close>

subsection \<open>The state\<close>

text \<open>What the loop shares with the callbacks, and its timers. Both timers are reset before they leave a small range, so that they are whole numbers. The
  connection is open exactly while \<open>tcp_client_get_state\<close> gives \<open>TCP_STATE_CONNECTED\<close>.\<close>

record main_state =
  ms_running :: bool
  ms_exit_signal :: int
  ms_established :: bool
  ms_recv_offset :: u32
  ms_serial_num :: u32
  ms_tcp :: port
  ms_heartbeat :: heartbeat_manager
  ms_trial :: "trial_flags \<times> disk"
  ms_tx :: tx_state
  ms_worker :: worker_pc
  ms_loop :: link_pc
  ms_recv :: link_pc
  ms_channel_setup_timer :: int
  ms_heartbeat_timer :: int
  ms_uptime_sec :: u32

abbreviation (input) SIGINT :: int where "SIGINT \<equiv> 2"
abbreviation (input) SIGTERM :: int where "SIGTERM \<equiv> 15"

definition signal_handler :: "int \<Rightarrow> main_state \<Rightarrow> main_state" where
  "signal_handler signo st = (if signo = SIGINT \<or> signo = SIGTERM then st\<lparr>ms_exit_signal := signo, ms_running := False\<rparr> else st)"

text \<open>The loss of the link as far as the section that holds the mutex, and what is left to do behind it, by whichever thread: send the command and record it.\<close>

definition link_lost :: "tx_state \<Rightarrow> link_pc \<times> tx_state" where
  "link_lost tx = (case notify_section False (fst tx) of (need_off, g) \<Rightarrow> (if need_off then L_send else L_idle, (g, snd tx)))"

fun link_act :: "link_pc \<Rightarrow> tx_state \<Rightarrow> (link_pc \<times> tx_state) option" where
  "link_act L_idle tx = Some (L_idle, tx)"
| "link_act L_send tx = do {
     (ret, uart) \<leftarrow> fpga_send_tx_control (snd tx) 0;
     Some (if ret \<noteq> SUCCESS then L_idle else L_record, (fst tx, uart)) }"
| "link_act L_record tx = Some (L_idle, ((fst tx)\<lparr>tg_tx_on := False\<rparr>, snd tx))"

text \<open>The worker in the same way: it reads the flag of the link, and may then send a command and record it.\<close>

definition worker_read :: "cell_config_manager \<Rightarrow> tx_guard \<Rightarrow> worker_pc" where
  "worker_read t g = (if tg_bbu_link_ok g then W_send (has_any_freq t) else W_idle)"

fun worker_act :: "worker_pc \<Rightarrow> tx_state \<Rightarrow> (worker_pc \<times> tx_state) option" where
  "worker_act W_idle tx = Some (W_idle, tx)"
| "worker_act (W_send on) tx = do {
     (ret, uart) \<leftarrow> fpga_send_tx_control (snd tx) (if on then 1 else 0);
     Some (if ret \<noteq> SUCCESS then W_idle else W_record on, (fst tx, uart)) }"
| "worker_act (W_record on) tx = Some (W_idle, ((fst tx)\<lparr>tg_tx_on := on\<rparr>, snd tx))"

text \<open>Done without a break, these steps are the calls of cell_config.c.\<close>

lemma link_steps_notify:
  "cell_config_notify_bbu_link False tx = map_option snd (case link_lost tx of (pc, tx) \<Rightarrow> link_act pc tx \<bind> (\<lambda>(pc, tx). link_act pc tx))"
  by (auto simp: cell_config_notify_bbu_link_def notify_section_def link_lost_def apply_tx_control_def fpga_commands split_beta)

lemma worker_steps_update:
  "update_tx_control t tx = map_option snd (worker_act (worker_read t (fst tx)) tx \<bind> (\<lambda>(pc, tx). worker_act pc tx))"
  by (auto simp: update_tx_control_def worker_read_def apply_tx_control_def fpga_commands Let_def split_beta)

definition on_tcp_disconnected :: "main_state \<Rightarrow> main_state" where
  "on_tcp_disconnected st =
     (let st = st\<lparr>ms_recv_offset := 0, ms_established := False, ms_heartbeat := snd (heartbeat_stop (ms_heartbeat st))\<rparr>
      in case link_lost (ms_tx st) of (pc, tx) \<Rightarrow> st\<lparr>ms_tx := tx, ms_recv := pc\<rparr>)"

subsection \<open>One turn\<close>

text \<open>The request for the channel.\<close>

definition request_turn :: "(string \<times> string) list \<Rightarrow> fpga_state_manager \<Rightarrow> bytes option \<Rightarrow> main_state \<Rightarrow> main_state option" where
  "request_turn items fpga heap st =
     (if \<not> ms_established st \<and> po_open (ms_tcp st)
      then if ms_channel_setup_timer st \<ge> 5
           then do {
             (g_serial_num, tcp) \<leftarrow> send_setup_request items fpga heap CHANNEL_SETUP_REASON_RECONNECT (ms_serial_num st, ms_tcp st);
             Some (st\<lparr>ms_channel_setup_timer := 0, ms_serial_num := g_serial_num, ms_tcp := tcp\<rparr>) }
           else Some st
      else Some (st\<lparr>ms_channel_setup_timer := 0\<rparr>))"

definition send_turn :: "main_state \<Rightarrow> main_state option" where
  "send_turn st =
     (if ms_heartbeat_timer st \<ge> HEARTBEAT_INTERVAL_SEC
      then do {
        (ret, hb, g_serial_num, tcp) \<leftarrow> heartbeat_send_paau (ms_heartbeat st, ms_serial_num st, ms_tcp st);
        Some (st\<lparr>ms_heartbeat_timer := 0, ms_heartbeat := hb, ms_serial_num := g_serial_num, ms_tcp := tcp\<rparr>) }
      else Some st)"

text \<open>The heartbeat, with the time of the check.\<close>

definition heartbeat_turn :: "int \<Rightarrow> main_state \<Rightarrow> main_state option" where
  "heartbeat_turn now st =
     (if ms_established st \<and> po_open (ms_tcp st)
      then do {
        st \<leftarrow> send_turn st;
        case heartbeat_check_timeout now (ms_heartbeat st) of (lost, hb) \<Rightarrow>
          if lost
          then (case link_lost (ms_tx st) of (pc, tx) \<Rightarrow>
            Some (st\<lparr>ms_established := False, ms_heartbeat := snd (heartbeat_stop hb), ms_tx := tx, ms_loop := pc\<rparr>))
          else Some (st\<lparr>ms_heartbeat := hb\<rparr>) }
      else Some (st\<lparr>ms_heartbeat_timer := 0\<rparr>))"

definition main_turn :: "(string \<times> string) list \<Rightarrow> fpga_state_manager \<Rightarrow> bytes option \<Rightarrow> int \<Rightarrow> main_state \<Rightarrow> main_state option" where
  "main_turn items fpga heap now st = do {
     let st = st\<lparr>ms_channel_setup_timer := ms_channel_setup_timer st + 1, ms_heartbeat_timer := ms_heartbeat_timer st + 1,
        ms_uptime_sec := ms_uptime_sec st + 1\<rparr>;
     let st = st\<lparr>ms_trial := version_trial_on_uptime (ms_uptime_sec st) (ms_trial st)\<rparr>;
     st \<leftarrow> request_turn items fpga heap st;
     heartbeat_turn now st }"

text \<open>What happens around the loop: a turn with its time, the beginning of an update of the transmitter by the worker with the table as it is then, a further step of the worker, of the loop and of the receiving
  thread behind their sections, a heartbeat of the baseband unit, and the end of the connection. A turn runs only while no signal has asked for the end. A thread that is not through
  with the transmit control begins nothing else.\<close>

datatype main_event = Turn int | Worker_reads cell_config_manager | Worker_acts | Loop_acts | Recv_acts | Bbu_beat int | Connection_lost | Signalled int

fun main_step :: "(string \<times> string) list \<Rightarrow> fpga_state_manager \<Rightarrow> bytes option \<Rightarrow> main_event \<Rightarrow> main_state \<Rightarrow> main_state option" where
  "main_step items fpga heap (Turn now) st = (if ms_running st \<and> ms_loop st = L_idle then main_turn items fpga heap now st else Some st)"
| "main_step items fpga heap (Worker_reads t) st = Some (if ms_worker st = W_idle then st\<lparr>ms_worker := worker_read t (fst (ms_tx st))\<rparr> else st)"
| "main_step items fpga heap Worker_acts st = map_option (\<lambda>(pc, tx). st\<lparr>ms_worker := pc, ms_tx := tx\<rparr>) (worker_act (ms_worker st) (ms_tx st))"
| "main_step items fpga heap Loop_acts st = map_option (\<lambda>(pc, tx). st\<lparr>ms_loop := pc, ms_tx := tx\<rparr>) (link_act (ms_loop st) (ms_tx st))"
| "main_step items fpga heap Recv_acts st = map_option (\<lambda>(pc, tx). st\<lparr>ms_recv := pc, ms_tx := tx\<rparr>) (link_act (ms_recv st) (ms_tx st))"
| "main_step items fpga heap (Bbu_beat now) st = Some (st\<lparr>ms_heartbeat := snd (heartbeat_handle_bbu now (ms_heartbeat st))\<rparr>)"
| "main_step items fpga heap Connection_lost st =
     Some (if ms_recv st = L_idle then on_tcp_disconnected (st\<lparr>ms_tcp := (ms_tcp st)\<lparr>po_open := False\<rparr>\<rparr>) else st)"
| "main_step items fpga heap (Signalled signo) st = Some (signal_handler signo st)"

fun main_run :: "(string \<times> string) list \<Rightarrow> fpga_state_manager \<Rightarrow> bytes option \<Rightarrow> main_event list \<Rightarrow> main_state \<Rightarrow> main_state option" where
  "main_run items fpga heap [] st = Some st"
| "main_run items fpga heap (e # es) st = main_step items fpga heap e st \<bind> main_run items fpga heap es"

subsection \<open>Turns without a channel\<close>

lemma send_keeps_open [simp]: "po_open (snd (tcp_client_send p d)) = po_open p"
  by (simp add: tcp_client_send_def Let_def split: prod.splits)

text \<open>The request as it goes out.\<close>

definition setup_request :: "(string \<times> string) list \<Rightarrow> fpga_state_manager \<Rightarrow> u32 \<Rightarrow> bytes" where
  "setup_request items fpga serial = cpri_frame ((setup_header items MSG_CHANNEL_SETUP_REQ)\<lparr>ch_serial_num := serial\<rparr>)
     (ie_bytes (setup_elements items fpga CHANNEL_SETUP_REASON_RECONNECT))"

lemma turn_without_channel:
  assumes "length h = 4096" "hw_type_ok fpga" "\<not> ms_established st"
  shows "main_turn items fpga (Some h) now st = Some (let due = po_open (ms_tcp st) \<and> ms_channel_setup_timer st \<ge> 4;
       n = ms_serial_num st + 1
     in st\<lparr>ms_uptime_sec := ms_uptime_sec st + 1, ms_trial := version_trial_on_uptime (ms_uptime_sec st + 1) (ms_trial st), ms_heartbeat_timer := 0,
          ms_channel_setup_timer := (if due \<or> \<not> po_open (ms_tcp st) then 0 else ms_channel_setup_timer st + 1),
          ms_serial_num := (if due then n else ms_serial_num st),
          ms_tcp := (if due then snd (tcp_client_send (ms_tcp st) (setup_request items fpga n)) else ms_tcp st)\<rparr>)"
  using assms(3) send_setup_request_frame [OF assms(1,2), of items CHANNEL_SETUP_REASON_RECONNECT "ms_serial_num st" "ms_tcp st"]
  by (simp add: main_turn_def request_turn_def heartbeat_turn_def setup_request_def Let_def)

subsection \<open>Turns with a channel\<close>













subsection \<open>Silence\<close>









subsection \<open>Properties\<close>


lemma main_run_append: "main_run items fpga heap (es @ fs) st = main_run items fpga heap es st \<bind> main_run items fpga heap fs"
  by (induction es arbitrary: st) (simp_all split: bind_splits)

text \<open>As long as the channel is not there, a request goes out with every fifth turn, whether or not the one before was answered, each under the next serial number.\<close>

theorem setup_requests_repeat:
  assumes "length h = 4096" and "hw_type_ok fpga" and "ms_running st" and "\<not> ms_established st" and "po_open (ms_tcp st)" and "ms_channel_setup_timer st = 0" and "ms_loop st = L_idle"
  shows "\<exists>st'. main_run items fpga (Some h) (map Turn ts) st = Some st' \<and> \<not> ms_established st' \<and> ms_serial_num st' = ms_serial_num st + of_nat (length ts div 5)
     \<and> ms_tcp st' = fold (\<lambda>i p. snd (tcp_client_send p (setup_request items fpga (ms_serial_num st + of_nat i)))) [1..<Suc (length ts div 5)] (ms_tcp st)"
proof -
  let ?send = "\<lambda>i p. snd (tcp_client_send p (setup_request items fpga (ms_serial_num st + of_nat i)))"
  have "\<exists>st'. main_run items fpga (Some h) (map Turn ts) st = Some st' \<and> \<not> ms_established st' \<and> ms_serial_num st' = ms_serial_num st + of_nat (length ts div 5)
     \<and> ms_tcp st' = fold ?send [1..<Suc (length ts div 5)] (ms_tcp st) \<and> ms_running st' \<and> ms_loop st' = L_idle \<and> po_open (ms_tcp st') \<and> ms_channel_setup_timer st' = int (length ts mod 5)"
  proof (induction ts rule: rev_induct)
    case (snoc t ts)
    then obtain s1 where 1: "main_run items fpga (Some h) (map Turn ts) st = Some s1" "\<not> ms_established s1" "ms_serial_num s1 = ms_serial_num st + of_nat (length ts div 5)"
        "ms_tcp s1 = fold ?send [1..<Suc (length ts div 5)] (ms_tcp st)" "ms_running s1 \<and> ms_loop s1 = L_idle" "po_open (ms_tcp s1)" "ms_channel_setup_timer s1 = int (length ts mod 5)" by blast
    note n = main_run_append [of items fpga "Some h" "map Turn ts" "[Turn t]" st] turn_without_channel [OF assms(1,2) 1(2), of items t]
    show ?case
    proof (cases "length ts mod 5 = 4")
      case True
      then have d: "Suc (length ts) div 5 = Suc (length ts div 5)" "Suc (length ts) mod 5 = 0" by presburger+
      have e: "ms_serial_num st + of_nat (Suc k) = ms_serial_num st + of_nat k + 1" for k by simp
      show ?thesis using n 1 True by (simp add: d Let_def e del: of_nat_Suc)
    next
      case False
      then have d: "Suc (length ts) div 5 = length ts div 5" "Suc (length ts) mod 5 = Suc (length ts mod 5)" "\<not> 4 \<le> int (length ts mod 5)" by presburger+
      show ?thesis using n 1 d(3) by (simp add: d(1,2) Let_def)
    qed
  qed (use assms in auto)
  then show ?thesis by blast
qed

text \<open>What the receive callback calls, on the state of the program; the handlers are an argument.\<close>

definition main_calls :: "main_state run_handler \<Rightarrow> main_state stream_calls" where
  "main_calls run = \<lparr>sc_bbu_link_up = (\<lambda>st. map_option (\<lambda>tx. st\<lparr>ms_tx := tx\<rparr>) (cell_config_notify_bbu_link True (ms_tx st))),
     sc_trial_established = (\<lambda>st. Some (st\<lparr>ms_trial := version_trial_on_channel_established (ms_trial st)\<rparr>)), sc_run = run\<rparr>"

lemma muted_turns:
  assumes "ms_established st" "po_open (ms_tcp st)" "ms_running st" "\<not> hb_heartbeat_enabled (ms_heartbeat st)"
  shows "\<exists>st'. main_run items fpga heap (map Turn ts) st = Some st' \<and> ms_established st' \<and> ms_tcp st' = ms_tcp st \<and> ms_tx st' = ms_tx st"
  using assms
proof (induction ts arbitrary: st)
  case (Cons t ts)
  have "\<exists>s1. main_turn items fpga heap t st = Some s1 \<and> ms_established s1 \<and> ms_tcp s1 = ms_tcp st \<and> ms_running s1 \<and> ms_heartbeat s1 = ms_heartbeat st \<and> ms_tx s1 = ms_tx st"
    using Cons.prems by (simp add: main_turn_def request_turn_def heartbeat_turn_def send_turn_def heartbeat_send_frame heartbeat_check_timeout_def Let_def)
  then obtain s1 where "main_turn items fpga heap t st = Some s1" "ms_established s1" "ms_tcp s1 = ms_tcp st" "ms_running s1"
      "ms_heartbeat s1 = ms_heartbeat st" "ms_tx s1 = ms_tx st" by blast
  then show ?case using Cons.IH [of s1] Cons.IH [of st] Cons.prems by (cases "ms_loop st = L_idle") simp_all
qed simp

text \<open>A channel configuration for another antenna silences this one. The dispatcher drops the message, so that no handler runs and the heartbeat stays
  off; but the channel counts as established and the gate is open. From then on the loop sends neither a request nor a heartbeat, the
  silence of the baseband unit is never noticed, and the gate stays open until the connection ends.\<close>

theorem foreign_setup_silences:
  assumes "ch_msg_id m = cpri_msg_code MSG_CHANNEL_SETUP_CFG" and "\<not> id_admitted items (ch_paau_id m)" and "id_cfg_ok items g"
    and "pool_inv 16 8192 pool" and "pool_used pool = {}" and "15 + length d \<le> 8192"
    and "po_open (ms_tcp st)" and "ms_running st" and "\<not> hb_heartbeat_enabled (ms_heartbeat st)"
  shows "\<exists>pool' g' st\<^sub>1. process_message (main_calls run) items (cpri_frame m d) (of_nat (15 + length d)) (False, pool, g, st) = Some (True, pool', g', st\<^sub>1)
     \<and> (\<forall>ts. \<exists>st'. main_run items fpga heap (map Turn ts) (st\<^sub>1\<lparr>ms_established := True\<rparr>) = Some st' \<and> ms_established st'
          \<and> ms_tcp st' = ms_tcp st \<and> tg_bbu_link_ok (fst (ms_tx st')))"
proof -
  let ?s = "st\<lparr>ms_tx := ((fst (ms_tx st))\<lparr>tg_bbu_link_ok := True\<rparr>, snd (ms_tx st)), ms_trial := version_trial_on_channel_established (ms_trial st)\<rparr>"
  obtain pool' g' where "process_message (main_calls run) items (cpri_frame m d) (of_nat (15 + length d)) (False, pool, g, st)
      = map_option (\<lambda>s. (True, pool', g', s)) (sc_bbu_link_up (main_calls run) st \<bind> sc_trial_established (main_calls run))"
    using foreign_setup_establishes [OF assms(1-6), of "main_calls run" st] by blast
  also have "\<dots> = Some (True, pool', g', ?s)" by (simp add: main_calls_def cell_config_notify_bbu_link_def notify_section_def)
  finally show ?thesis
    using muted_turns [of "?s\<lparr>ms_established := True\<rparr>" items fpga heap] assms(7-9)
    by (intro exI [of _ pool'] exI [of _ g'] exI [of _ ?s]) fastforce
qed

subsection \<open>Witnesses\<close>

definition main_example :: "bool \<Rightarrow> heartbeat_manager \<Rightarrow> main_state" where
  "main_example established hb = \<lparr>ms_running = True, ms_exit_signal = 0, ms_established = established, ms_recv_offset = 0, ms_serial_num = 6, ms_tcp = port_open,
     ms_heartbeat = hb, ms_trial = (\<lparr>tf_confirmed = False, tf_stable_done = False, tf_stable_sec = 120\<rparr>, restart \<lparr>fs_files = [], fs_links = [], fs_dirs = []\<rparr>),
     ms_tx = (\<lparr>tg_bbu_link_ok = True, tg_tx_on = False\<rparr>, port_open), ms_worker = W_idle, ms_loop = L_idle, ms_recv = L_idle, ms_channel_setup_timer = 0, ms_heartbeat_timer = 0, ms_uptime_sec = 0\<rparr>"

lemma fpga_start_ok: "hw_type_ok fpga_start"
  by (simp add: hw_type_ok_def fpga_start_def status_frame_zero_def status_data_zero_def status_data_raw_def)









theorem setup_requests_repeat_witness:
  "\<exists>st'. main_run [] fpga_start (Some (replicate 4096 0)) (map Turn [1,2,3,4,5,6]) (main_example False hb_example) = Some st' \<and> ms_serial_num st' = 7"
  using setup_requests_repeat [of "replicate 4096 0" fpga_start "main_example False hb_example" "[]" "[1,2,3,4,5,6]"]
  by (auto simp: fpga_start_ok main_example_def port_open_def)

theorem foreign_setup_silences_witness:
  "\<exists>pool' g' st\<^sub>1. process_message (main_calls (\<lambda>_ _ _ _. None)) [(''PAAU_ID_CHECK'', ''2'')] (cpri_frame ((cm_header cpri_example)\<lparr>ch_msg_id := 2\<rparr>) [1]) (of_nat (15 + length [1 :: u8]))
        (False, g_cpri_payload_pool, paau_id_start, main_example False hb_example) = Some (True, pool', g', st\<^sub>1)
     \<and> (\<forall>ts. \<exists>st'. main_run [(''PAAU_ID_CHECK'', ''2'')] fpga_start None (map Turn ts) (st\<^sub>1\<lparr>ms_established := True\<rparr>) = Some st' \<and> ms_established st'
          \<and> ms_tcp st' = ms_tcp (main_example False hb_example) \<and> tg_bbu_link_ok (fst (ms_tx st')))"
proof (rule foreign_setup_silences)
  have c: "config_get_int [(''PAAU_ID_CHECK'', ''2'')] ''PAAU_ID_CHECK'' 1 = 2" "config_get_int [(''PAAU_ID_CHECK'', ''2'')] ''PAAU_ID'' 0 = 0"
      "config_get_int [(''PAAU_ID_CHECK'', ''2'')] ''PAAU_ID_BROADCAST'' 255 = 255"
    by code_simp+
  show "\<not> id_admitted [(''PAAU_ID_CHECK'', ''2'')] (ch_paau_id ((cm_header cpri_example)\<lparr>ch_msg_id := 2\<rparr>))"
    by (simp add: id_admitted_def id_check_mode_def c Let_def cpri_example_def)
qed (simp_all add: cpri_example_def id_cfg_ok_def paau_id_start_def cpri_pool_initial main_example_def port_open_def hb_example_def)

end
