(* ===== verification/UartStream.thy ===== *)
theory UartStream
  imports FpgaHandler
begin

text \<open>
  The serial line of the FPGA, from uart_client.c: the bytes that arrive are gathered in a buffer of 2048 bytes, in which status frames and
  telemetry frames are told apart by their headers and cut out; whatever is not a frame is skipped byte by byte. Positions stay
  below 70000, so that they are natural numbers here.
\<close>

subsection \<open>The client\<close>

datatype uart_state = UART_STATE_CLOSED | UART_STATE_OPEN | UART_STATE_ERROR

record uart_client =
  uc_fd :: bool
  uc_state :: uart_state
  uc_device :: string
  uc_recv_thread :: bool
  uc_poll_thread :: bool
  uc_running :: bool

definition uart_client_init :: "bool \<Rightarrow> string \<Rightarrow> int \<times> uart_client" where
  "uart_client_init mutex_ok device =
     (let c = \<lparr>uc_fd = False, uc_state = UART_STATE_CLOSED, uc_device = take 63 device, uc_recv_thread = False, uc_poll_thread = False, uc_running = False\<rparr>
      in if \<not> mutex_ok then (ERROR_GENERAL, c) else (SUCCESS, c))"

text \<open>Whether the calls of \<open>uart_client_open\<close> succeed.\<close>

record uart_open_calls =
  uo_open :: bool
  uo_getattr :: bool
  uo_setattr :: bool
  uo_recv_thread :: bool
  uo_poll_thread :: bool

definition uart_client_open :: "uart_open_calls \<Rightarrow> uart_client \<Rightarrow> int \<times> uart_client" where
  "uart_client_open k c =
     (if \<not> uo_open k then (ERROR_GENERAL, c\<lparr>uc_fd := False\<rparr>)
      else if \<not> uo_getattr k then (ERROR_GENERAL, c\<lparr>uc_fd := False\<rparr>)
      else if \<not> uo_setattr k then (ERROR_GENERAL, c\<lparr>uc_fd := False\<rparr>)
      else let c = c\<lparr>uc_fd := True, uc_state := UART_STATE_OPEN, uc_running := True\<rparr>
           in if \<not> uo_recv_thread k then (ERROR_GENERAL, c\<lparr>uc_fd := False, uc_state := UART_STATE_CLOSED\<rparr>)
              else if \<not> uo_poll_thread k
              then (ERROR_GENERAL, c\<lparr>uc_running := False, uc_recv_thread := False, uc_fd := False, uc_state := UART_STATE_CLOSED\<rparr>)
              else (SUCCESS, c\<lparr>uc_recv_thread := True, uc_poll_thread := True\<rparr>))"

definition uart_client_get_state :: "uart_client \<Rightarrow> uart_state" where
  "uart_client_get_state c = uc_state c"

text \<open>The threads are waited for.\<close>

definition uart_client_close :: "uart_client \<Rightarrow> int \<times> uart_client" where
  "uart_client_close c = (SUCCESS, c\<lparr>uc_running := False, uc_fd := False, uc_state := UART_STATE_CLOSED, uc_recv_thread := False, uc_poll_thread := False\<rparr>)"

text \<open>One turn of the polling thread.\<close>

definition uart_poll_turn :: "port \<Rightarrow> port option" where
  "uart_poll_turn uart = map_option snd (fpga_send_message uart FPGA_MSG_STATUS_QUERY [0] 16)"

subsection \<open>Cutting the stream\<close>

definition FPGA_TELEMETRY_LOG_HEADER :: u16 where "FPGA_TELEMETRY_LOG_HEADER = 0xEB93"

abbreviation (input) FPGA_MIN_FRAME_SIZE :: nat where "FPGA_MIN_FRAME_SIZE \<equiv> 6"
abbreviation (input) FRAME_BUFFER_SIZE :: nat where "FRAME_BUFFER_SIZE \<equiv> 2048"

text \<open>The callbacks, as a trace.\<close>

datatype fpga_event = On_telemetry_log_frame bytes | On_status_received fpga_status_frame | On_data_received bytes

function find_header :: "bytes \<Rightarrow> nat \<Rightarrow> nat \<Rightarrow> nat \<Rightarrow> (nat \<times> u16) option option" where
  "find_header frame_buffer buf_start remaining header_pos =
     (if header_pos + 1 < remaining
      then case read_be16 frame_buffer (buf_start + header_pos) of
             None \<Rightarrow> None
           | Some frame_hdr \<Rightarrow>
               if frame_hdr = FPGA_FRAME_HEADER \<or> frame_hdr = FPGA_TELEMETRY_LOG_HEADER then Some (Some (header_pos, frame_hdr))
               else find_header frame_buffer buf_start remaining (header_pos + 1)
      else Some None)"
  by auto
termination by (relation "measure (\<lambda>(b, s, r, i). r - i)") auto

declare find_header.simps [simp del]

text \<open>The length of the frame and the length field of a status frame; nothing for a telemetry frame of an unknown source or with a wrong length.\<close>

definition expected_frame_len :: "bytes \<Rightarrow> nat \<Rightarrow> u16 \<Rightarrow> (nat \<times> u16) option option" where
  "expected_frame_len frame_buffer buf_start frame_hdr =
     (if frame_hdr = FPGA_TELEMETRY_LOG_HEADER
      then do {
        src \<leftarrow> arr_get frame_buffer (buf_start + 2);
        data_len \<leftarrow> arr_get frame_buffer (buf_start + 3);
        let expect_len = fpga_telemetry_payload_len src;
        Some (if expect_len = 0 \<or> ucast data_len \<noteq> expect_len then None else Some (6 + unat data_len, 0)) }
      else do {
        length_field \<leftarrow> read_be16 frame_buffer (buf_start + 2);
        Some (Some (2 + 2 + unat length_field + 2, length_field)) })"

definition handle_frame :: "bytes \<Rightarrow> nat \<Rightarrow> u16 \<Rightarrow> nat \<Rightarrow> u16 \<Rightarrow> fpga_event list option" where
  "handle_frame frame_buffer buf_start frame_hdr len length_field = do {
     frame \<leftarrow> mem_read frame_buffer buf_start len;
     if frame_hdr = FPGA_TELEMETRY_LOG_HEADER then Some [On_telemetry_log_frame frame]
     else if len = 133 \<and> length_field = 127
     then do {
       (ret, status) \<leftarrow> fpga_decode_status_frame frame (of_nat len) status_frame_zero;
       Some (if ret = SUCCESS then [On_status_received status] else []) }
     else Some [On_data_received frame] }"

partial_function (option) uart_frame_loop :: "bytes \<Rightarrow> nat \<Rightarrow> nat \<Rightarrow> fpga_event list \<Rightarrow> (nat \<times> fpga_event list) option" where
  "uart_frame_loop frame_buffer frame_offset processed_bytes events =
     (if processed_bytes < frame_offset
      then do {
        let remaining = frame_offset - processed_bytes;
        found \<leftarrow> find_header frame_buffer processed_bytes remaining 0;
        case found of
          None \<Rightarrow> do {
            b \<leftarrow> arr_get frame_buffer (processed_bytes + (remaining - 1));
            Some (if remaining \<ge> 1 \<and> b = ucast (drop_bit 8 FPGA_FRAME_HEADER) then processed_bytes + (remaining - 1) else frame_offset, events) }
        | Some (header_pos, frame_hdr) \<Rightarrow>
            let processed_bytes = processed_bytes + header_pos;
                remaining = remaining - header_pos
            in if remaining < 4 then Some (processed_bytes, events)
               else do {
                 l \<leftarrow> expected_frame_len frame_buffer processed_bytes frame_hdr;
                 case l of
                   None \<Rightarrow> uart_frame_loop frame_buffer frame_offset (processed_bytes + 1) events
                 | Some (len, length_field) \<Rightarrow>
                     if len < FPGA_MIN_FRAME_SIZE \<or> len > FRAME_BUFFER_SIZE
                     then uart_frame_loop frame_buffer frame_offset (processed_bytes + 1) events
                     else if remaining < len then Some (processed_bytes, events)
                     else do {
                       tail \<leftarrow> read_be16 frame_buffer (processed_bytes + len - 2);
                       if tail \<noteq> FPGA_FRAME_TAIL then uart_frame_loop frame_buffer frame_offset (processed_bytes + 1) events
                       else do {
                         es \<leftarrow> handle_frame frame_buffer processed_bytes frame_hdr len length_field;
                         uart_frame_loop frame_buffer frame_offset (processed_bytes + len) (events @ es) } } } }
      else Some (processed_bytes, events))"

text \<open>What is left is moved to the front.\<close>

definition remove_processed :: "bytes \<Rightarrow> nat \<Rightarrow> nat \<Rightarrow> (bytes \<times> nat) option" where
  "remove_processed frame_buffer frame_offset processed_bytes =
     (if processed_bytes > 0
      then if processed_bytes \<ge> frame_offset then Some (frame_buffer, 0)
           else let remaining_bytes = frame_offset - processed_bytes
                in if processed_bytes > FRAME_BUFFER_SIZE \<or> remaining_bytes > FRAME_BUFFER_SIZE \<or> processed_bytes + remaining_bytes > FRAME_BUFFER_SIZE
                   then Some (frame_buffer, 0)
                   else do {
                     frame_buffer \<leftarrow> mem_copy frame_buffer 0 frame_buffer processed_bytes remaining_bytes;
                     Some (frame_buffer, remaining_bytes) }
      else Some (frame_buffer, frame_offset))"

text \<open>One read: the buffer with what is in use, and the callbacks.\<close>

definition uart_recv_data :: "bytes \<Rightarrow> bytes \<times> nat \<Rightarrow> ((bytes \<times> nat) \<times> fpga_event list) option" where
  "uart_recv_data data st =
     (case st of (frame_buffer, frame_offset) \<Rightarrow>
        let frame_offset = (if frame_offset + length data > FRAME_BUFFER_SIZE then 0 else frame_offset)
        in if length data > FRAME_BUFFER_SIZE then Some ((frame_buffer, frame_offset), [])
           else do {
             frame_buffer \<leftarrow> mem_copy frame_buffer frame_offset data 0 (length data);
             let frame_offset = frame_offset + length data;
             (processed_bytes, events) \<leftarrow> uart_frame_loop frame_buffer frame_offset 0 [];
             st \<leftarrow> remove_processed frame_buffer frame_offset processed_bytes;
             Some (st, events) })"

text \<open>The receiving thread over the results of its reads: data, nothing yet, or an error that ends it.\<close>

datatype uart_read = Read_data bytes | Read_nothing | Read_error

fun uart_recv_loop :: "uart_read list \<Rightarrow> bytes \<times> nat \<Rightarrow> ((bytes \<times> nat) \<times> fpga_event list) option" where
  "uart_recv_loop [] st = Some (st, [])"
| "uart_recv_loop (Read_data d # rs) st = do {
     (st, es) \<leftarrow> uart_recv_data d st;
     (st, fs) \<leftarrow> uart_recv_loop rs st;
     Some (st, es @ fs) }"
| "uart_recv_loop (Read_nothing # rs) st = uart_recv_loop rs st"
| "uart_recv_loop (Read_error # rs) st = Some (st, [])"

definition uart_recv_thread :: "uart_read list \<Rightarrow> ((bytes \<times> nat) \<times> fpga_event list) option" where
  "uart_recv_thread rs = uart_recv_loop rs (replicate FRAME_BUFFER_SIZE 0, 0)"

subsection \<open>Frames at the front of a stream\<close>

text \<open>The reference: what the bytes at hand begin with. \<open>Wait\<close> means that they may be the beginning of a frame.\<close>

datatype view = Wait | Skip | Frame nat

definition frame_size :: "bytes \<Rightarrow> nat option" where
  "frame_size bs =
     (if of_be16 (bs ! 0) (bs ! 1) = FPGA_TELEMETRY_LOG_HEADER
      then if fpga_telemetry_payload_len (bs ! 2) \<noteq> 0 \<and> ucast (bs ! 3) = fpga_telemetry_payload_len (bs ! 2) then Some (6 + unat (bs ! 3)) else None
      else if 6 + unat (of_be16 (bs ! 2) (bs ! 3)) \<le> 2048 then Some (6 + unat (of_be16 (bs ! 2) (bs ! 3))) else None)"

definition view_of :: "bytes \<Rightarrow> view" where
  "view_of bs =
     (if bs = [] then Wait
      else if length bs = 1 then if hd bs = 0xEB then Wait else Skip
      else if of_be16 (bs ! 0) (bs ! 1) \<notin> {FPGA_FRAME_HEADER, FPGA_TELEMETRY_LOG_HEADER} then Skip
      else if length bs < 4 then Wait
      else case frame_size bs of
             None \<Rightarrow> Skip
           | Some n \<Rightarrow> if length bs < n then Wait else if of_be16 (bs ! (n - 2)) (bs ! (n - 1)) = FPGA_FRAME_TAIL then Frame n else Skip)"

text \<open>The callback for a frame.\<close>

definition frame_event :: "bytes \<Rightarrow> fpga_event" where
  "frame_event f =
     (if of_be16 (f ! 0) (f ! 1) = FPGA_TELEMETRY_LOG_HEADER then On_telemetry_log_frame f
      else if length f = 133 then On_status_received (snd (the (fpga_decode_status_frame f 133 status_frame_zero)))
      else On_data_received f)"

lemma frame_size_bounds: "frame_size bs = Some n \<Longrightarrow> 6 \<le> n \<and> n \<le> 2048"
proof -
  have "unat (bs ! 3) < 256" by (rule u8_bound)
  then show "frame_size bs = Some n \<Longrightarrow> 6 \<le> n \<and> n \<le> 2048" by (auto simp: frame_size_def split: if_splits)
qed

lemma view_Frame: "view_of bs = Frame n \<Longrightarrow> 6 \<le> n \<and> n \<le> length bs \<and> n \<le> 2048"
  using frame_size_bounds [of bs] by (auto simp: view_of_def split: if_splits option.splits)

lemma view_Skip: "view_of bs = Skip \<Longrightarrow> bs \<noteq> []"
  by (auto simp: view_of_def)

function cut_frames :: "bytes \<Rightarrow> fpga_event list \<times> bytes" where
  "cut_frames bs =
     (case view_of bs of
        Wait \<Rightarrow> ([], bs)
      | Skip \<Rightarrow> cut_frames (tl bs)
      | Frame n \<Rightarrow> (case cut_frames (drop n bs) of (es, rest) \<Rightarrow> (frame_event (take n bs) # es, rest)))"
  by auto
termination by (relation "measure length") (auto dest!: view_Skip view_Frame)

declare cut_frames.simps [simp del]

lemma cut_frames_view:
  "view_of bs = Wait \<Longrightarrow> cut_frames bs = ([], bs)"
  "view_of bs = Skip \<Longrightarrow> cut_frames bs = cut_frames (tl bs)"
  "view_of bs = Frame n \<Longrightarrow> cut_frames bs = (frame_event (take n bs) # fst (cut_frames (drop n bs)), snd (cut_frames (drop n bs)))"
  by (simp_all add: cut_frames.simps [of bs] split_beta)

text \<open>More bytes do not change what has been decided.\<close>

lemma header_first_byte: "of_be16 a b \<in> {FPGA_FRAME_HEADER, FPGA_TELEMETRY_LOG_HEADER} \<Longrightarrow> a = 0xEB"
proof -
  have "FPGA_TELEMETRY_LOG_HEADER = of_be16 0xEB 0x93" by (simp add: FPGA_TELEMETRY_LOG_HEADER_def of_be16_def of_le16_def)
  then show "of_be16 a b \<in> {FPGA_FRAME_HEADER, FPGA_TELEMETRY_LOG_HEADER} \<Longrightarrow> a = 0xEB"
    using read_be16_eq [of 0 "[a, b]" "0xEB" "0x90"] read_be16_eq [of 0 "[a, b]" "0xEB" "0x93"]
    by (auto simp: fpga_marks read_be16_def arr_get_def)
qed

lemma view_append:
  "view_of a = Skip \<Longrightarrow> view_of (a @ b) = Skip"
  "view_of a = Frame n \<Longrightarrow> view_of (a @ b) = Frame n"
proof -
  have long: "view_of a \<noteq> Wait \<Longrightarrow> view_of (a @ b) = view_of a" if "length a \<ge> 2"
  proof -
    have nth: "(a @ b) ! i = a ! i" if "i < length a" for i using that by (simp add: nth_append)
    have "frame_size (a @ b) = frame_size a" if "length a \<ge> 4"
    proof -
      have "(a @ b) ! 0 = a ! 0" "(a @ b) ! 1 = a ! 1" "(a @ b) ! 2 = a ! 2" "(a @ b) ! 3 = a ! 3" by (rule nth, use that in linarith)+
      then show ?thesis unfolding frame_size_def by presburger
    qed
    moreover have "n - 1 < length a" "n - 2 < length a" if "frame_size a = Some n" "\<not> length a < n" for n using frame_size_bounds [OF that(1)] that(2) by arith+
    ultimately show "view_of a \<noteq> Wait \<Longrightarrow> view_of (a @ b) = view_of a"
      using that nth [of 0] nth [of 1] nth by (auto simp: view_of_def split: if_splits option.splits)
  qed
  show "view_of a = Skip \<Longrightarrow> view_of (a @ b) = Skip"
  proof (cases "length a \<ge> 2")
    case False
    assume s: "view_of a = Skip"
    have "length a = 1" using False view_Skip [OF s] length_0_conv [of a] by linarith
    then obtain x where x: "a = [x]" by (cases a) auto
    then have "x \<noteq> 0xEB" using s by (auto simp: view_of_def)
    with x show ?thesis using header_first_byte [of x "b ! 0"] by (auto simp: view_of_def)
  qed (use long in simp)
  show "view_of a = Frame n \<Longrightarrow> view_of (a @ b) = Frame n"
    using long view_Frame [of a n] by simp
qed

lemma cut_append:
  "cut_frames (a @ b) = (fst (cut_frames a) @ fst (cut_frames (snd (cut_frames a) @ b)), snd (cut_frames (snd (cut_frames a) @ b)))"
proof (induction a rule: cut_frames.induct)
  case (1 a)
  show ?case
  proof (cases "view_of a")
    case Wait
    then show ?thesis by (simp add: cut_frames_view(1))
  next
    case Skip
    then have "tl (a @ b) = tl a @ b" using view_Skip by simp
    then show ?thesis using 1(1) [OF Skip] by (simp add: cut_frames_view(2) [OF Skip] cut_frames_view(2) [OF view_append(1) [OF Skip]])
  next
    case (Frame n)
    then have "n \<le> length a" using view_Frame by blast
    then show ?thesis using 1(2) [OF Frame] by (simp add: cut_frames_view(3) [OF Frame] cut_frames_view(3) [OF view_append(2) [OF Frame]])
  qed
qed

subsection \<open>The code cuts frames\<close>

lemma read_be16_at: "i + 1 < length b \<Longrightarrow> read_be16 b i = Some (of_be16 (b ! i) (b ! (i + 1)))"
  by (simp add: read_be16_def arr_get_def)

lemma view_no_header: "2 \<le> length bs \<Longrightarrow> of_be16 (bs ! 0) (bs ! 1) \<notin> {FPGA_FRAME_HEADER, FPGA_TELEMETRY_LOG_HEADER} \<Longrightarrow> view_of bs = Skip"
  by (auto simp: view_of_def)

lemma find_header_cut:
  assumes "s + r \<le> length buf" "i < r"
  defines "bs \<equiv> drop s (take (s + r) buf)"
  shows "\<exists>f. find_header buf s r i = Some f
     \<and> (f = None \<longrightarrow> cut_frames (drop i bs) = ([], if last bs = 0xEB then [last bs] else []))
     \<and> (\<forall>j h. f = Some (j, h) \<longrightarrow> j + 1 < r \<and> h = of_be16 (bs ! j) (bs ! (j + 1)) \<and> h \<in> {FPGA_FRAME_HEADER, FPGA_TELEMETRY_LOG_HEADER}
          \<and> cut_frames (drop i bs) = cut_frames (drop j bs))"
  using assms(2)
proof (induction "r - i" arbitrary: i)
  case 0
  then show ?case by simp
next
  case (Suc k)
  have l: "length bs = r" using assms(1) by (simp add: bs_def)
  show ?case
  proof (cases "i + 1 < r")
    case False
    then have "drop i bs = [last bs]" using Suc.prems l by (cases bs rule: rev_cases) auto
    then show ?thesis using False by (subst find_header.simps) (auto simp: view_of_def cut_frames_view(1) cut_frames_view(2) cut_frames_view(1) [of "[]"])
  next
    case True
    let ?h = "of_be16 (bs ! i) (bs ! (i + 1))"
    have rd: "read_be16 buf (s + i) = Some ?h" using True assms(1) by (simp add: read_be16_at bs_def)
    show ?thesis
    proof (cases "?h \<in> {FPGA_FRAME_HEADER, FPGA_TELEMETRY_LOG_HEADER}")
      case h: True
      then show ?thesis using True rd by (subst find_header.simps) simp
    next
      case h: False
      have "view_of (drop i bs) = Skip" using True l h by (intro view_no_header) auto
      then have "cut_frames (drop i bs) = cut_frames (drop (Suc i) bs)" by (simp add: cut_frames_view(2) tl_drop drop_Suc)
      moreover have "find_header buf s r i = find_header buf s r (i + 1)" using True rd h by (subst find_header.simps) simp
      moreover note Suc.hyps(1) [of "i + 1"]
      ultimately show ?thesis using Suc.hyps(2) True by simp
    qed
  qed
qed

lemma handle_frame_event:
  assumes "off \<le> length buf" "p \<le> off"
  defines "bs \<equiv> drop p (take off buf)"
  assumes "view_of bs = Frame n"
  shows "handle_frame buf p (of_be16 (bs ! 0) (bs ! 1)) n (if of_be16 (bs ! 0) (bs ! 1) = FPGA_TELEMETRY_LOG_HEADER then 0 else of_be16 (bs ! 2) (bs ! 3))
     = Some [frame_event (take n bs)]"
proof -
  note v = view_Frame [OF assms(4)]
  have n: "p + n \<le> length buf" "n \<le> length bs" "n \<le> off - p" using v assms(1,2) by (auto simp: bs_def)
  have rd: "mem_read buf p n = Some (take n bs)" using n by (simp add: bs_def drop_take min_def)
  show ?thesis
  proof (cases "of_be16 (bs ! 0) (bs ! 1) = FPGA_TELEMETRY_LOG_HEADER")
    case True
    then show ?thesis using v by (simp add: handle_frame_def rd frame_event_def)
  next
    case False
    then have f: "of_be16 (bs ! 0) (bs ! 1) = FPGA_FRAME_HEADER" "n = 6 + unat (of_be16 (bs ! 2) (bs ! 3))" "of_be16 (bs ! (n - 2)) (bs ! (n - 1)) = FPGA_FRAME_TAIL"
      using assms(4) by (auto simp: view_of_def frame_size_def split: if_splits option.splits)
    have lf: "n = 133 \<longleftrightarrow> of_be16 (bs ! 2) (bs ! 3) = 127"
      using f(2) unat_eq_nat_uint by (auto simp: word_eq_iff_unsigned unat_arith_simps)
    show ?thesis
    proof (cases "n = 133")
      case True
      have "take 2 (take 133 bs) = [0xEB, 0x90] \<and> take 2 (drop 131 (take 133 bs)) = [0x55, 0x55]"
        using read_be16_eq [of 0 bs "0xEB" "0x90"] read_be16_eq [of 131 bs "0x55" "0x55"] f(1,3) n(2) True by (simp add: read_be16_at fpga_marks drop_take)
      then have "fst (the (fpga_decode_status_frame (take 133 bs) 133 status_frame_zero)) = SUCCESS" "\<exists>r. fpga_decode_status_frame (take 133 bs) 133 status_frame_zero = Some r"
        using n(2) True by (simp_all add: fpga_status_decode)
      then show ?thesis using False True lf f(1) n(2) rd by (auto simp: handle_frame_def frame_event_def split_beta)
    next
      case other: False
      then show ?thesis using False lf n(2) v by (simp add: handle_frame_def rd frame_event_def)
    qed
  qed
qed

lemma loop_turn:
  assumes "off \<le> length buf" "p < off" "find_header buf p (off - p) 0 = Some (Some (j, h))"
  defines "q \<equiv> p + j" and "cs \<equiv> drop (p + j) (take off buf)"
  assumes "q + 1 < off" "h = of_be16 (cs ! 0) (cs ! 1)" "h \<in> {FPGA_FRAME_HEADER, FPGA_TELEMETRY_LOG_HEADER}"
  shows "uart_frame_loop buf off p es = (case view_of cs of Wait \<Rightarrow> Some (q, es) | Skip \<Rightarrow> uart_frame_loop buf off (q + 1) es
     | Frame n \<Rightarrow> uart_frame_loop buf off (q + n) (es @ [frame_event (take n cs)]))"
proof -
  have l: "length cs = off - q" "2 \<le> length cs" using assms(1,6) by (simp_all add: cs_def q_def)
  have nth: "buf ! (q + i) = cs ! i" if "q + i < off" for i using that assms(1) by (simp add: cs_def q_def)
  show ?thesis
  proof (cases "length cs < 4")
    case True
    then have "view_of cs = Wait" using l assms(7,8) by (auto simp: view_of_def)
    then show ?thesis using True l(1) assms(2,3) by (subst uart_frame_loop.simps) (simp add: Let_def q_def)
  next
    case False
    let ?lf = "if h = FPGA_TELEMETRY_LOG_HEADER then 0 else of_be16 (cs ! 2) (cs ! 3)"
    have g: "arr_get buf (q + 2) = Some (cs ! 2)" "arr_get buf (q + 3) = Some (cs ! 3)"
      using False l(1) assms(1) nth [of 2] nth [of 3] by (simp_all add: arr_get_def)
    have "q + 2 + 1 = q + 3" by simp
    then have g3: "read_be16 buf (q + 2) = Some (of_be16 (cs ! 2) (cs ! 3))" by (simp only: read_be16_def g bind.bind_lunit)
    have t: "read_be16 buf (q + n - 2) = Some (of_be16 (cs ! (n - 2)) (cs ! (n - 1)))" if "2 \<le> n" "n \<le> length cs" for n
    proof -
      have "q + n - 2 = q + (n - 2)" "q + (n - 2) + 1 = q + (n - 1)" using that(1) by simp_all
      then show ?thesis using read_be16_at [of "q + (n - 2)" buf] nth [of "n - 2"] nth [of "n - 1"] that l(1) assms(1) by simp
    qed
    have hf: "handle_frame buf q h n ?lf = Some [frame_event (take n cs)]" if "view_of cs = Frame n" for n
    proof -
      have c: "cs = drop q (take off buf)" by (simp add: cs_def q_def)
      show ?thesis unfolding assms(7) c by (rule handle_frame_event) (use that assms(1,6) c in simp_all)
    qed
    have u: "uart_frame_loop buf off p es = expected_frame_len buf q h \<bind> (\<lambda>l. case l of
         None \<Rightarrow> uart_frame_loop buf off (q + 1) es
       | Some (len, lf) \<Rightarrow>
           if len < 6 \<or> len > 2048 then uart_frame_loop buf off (q + 1) es
           else if off - q < len then Some (q, es)
           else read_be16 buf (q + len - 2) \<bind> (\<lambda>tail. if tail \<noteq> FPGA_FRAME_TAIL then uart_frame_loop buf off (q + 1) es
             else handle_frame buf q h len lf \<bind> (\<lambda>es'. uart_frame_loop buf off (q + len) (es @ es'))))"
      using False l(1) assms(2,3) unfolding q_def diff_diff_left [symmetric] by (subst uart_frame_loop.simps) (simp add: Let_def)
    have e: "expected_frame_len buf q h = Some (if h = FPGA_TELEMETRY_LOG_HEADER
         then if fpga_telemetry_payload_len (cs ! 2) = 0 \<or> ucast (cs ! 3) \<noteq> fpga_telemetry_payload_len (cs ! 2) then None else Some (6 + unat (cs ! 3), 0)
         else Some (6 + unat (of_be16 (cs ! 2) (cs ! 3)), of_be16 (cs ! 2) (cs ! 3)))"
      unfolding expected_frame_len_def g g3 by (simp add: Let_def)
    have s0: "uart_frame_loop buf off p es = uart_frame_loop buf off (q + 1) es" if "frame_size cs = None"
      using that unfolding u e frame_size_def assms(7) [symmetric] by (auto split: if_splits)
    have s1: "uart_frame_loop buf off p es = (if off - q < n then Some (q, es)
         else read_be16 buf (q + n - 2) \<bind> (\<lambda>tail. if tail \<noteq> FPGA_FRAME_TAIL then uart_frame_loop buf off (q + 1) es
             else handle_frame buf q h n ?lf \<bind> (\<lambda>es'. uart_frame_loop buf off (q + n) (es @ es'))))" if "frame_size cs = Some n" for n
      using frame_size_bounds [OF that] that unfolding u e frame_size_def assms(7) [symmetric] by (auto split: if_splits)
    have v: "view_of cs = (case frame_size cs of None \<Rightarrow> Skip
         | Some n \<Rightarrow> if off - q < n then Wait else if of_be16 (cs ! (n - 2)) (cs ! (n - 1)) = FPGA_FRAME_TAIL then Frame n else Skip)"
      using False l(2) assms(7,8) unfolding l(1) [symmetric] by (auto simp: view_of_def)
    show ?thesis
    proof (cases "frame_size cs")
      case None
      then show ?thesis using s0 v by simp
    next
      case (Some n)
      have "6 \<le> n" using frame_size_bounds [OF Some] by simp
      then show ?thesis using s1 [OF Some] v Some t [of n] l(1) hf [of n] by auto
    qed
  qed
qed

lemma loop_cuts:
  assumes "off \<le> length buf" "p \<le> off"
  shows "uart_frame_loop buf off p es = Some (off - length (snd (cut_frames (drop p (take off buf)))), es @ fst (cut_frames (drop p (take off buf))))"
  using assms(2)
proof (induction "off - p" arbitrary: p es rule: less_induct)
  case less
  define bs where "bs = drop p (take off buf)"
  have l: "length bs = off - p" using assms(1) by (simp add: bs_def)
  show ?case
  proof (cases "p < off")
    case False
    then show ?thesis using less.prems by (subst uart_frame_loop.simps) (simp add: cut_frames_view(1) view_of_def)
  next
    case True
    note fc = find_header_cut [of p "off - p" buf 0]
    obtain f where f: "find_header buf p (off - p) 0 = Some f" "f = None \<Longrightarrow> cut_frames bs = ([], if last bs = 0xEB then [last bs] else [])"
        "\<And>j h. f = Some (j, h) \<Longrightarrow> j + 1 < off - p \<and> h = of_be16 (bs ! j) (bs ! (j + 1)) \<and> h \<in> {FPGA_FRAME_HEADER, FPGA_TELEMETRY_LOG_HEADER}
          \<and> cut_frames bs = cut_frames (drop j bs)"
      using fc True assms(1) by (auto simp: bs_def)
    show ?thesis
    proof (cases f)
      case None
      have "arr_get buf (p + (off - p - 1)) = Some (last bs)" using True assms(1) l by (auto simp: arr_get_def last_conv_nth bs_def)
      moreover have "ucast (drop_bit 8 FPGA_FRAME_HEADER) = (0xEB :: u8)" by (simp add: FPGA_FRAME_HEADER_def)
      ultimately show ?thesis using True f(1,2) None
        by (subst uart_frame_loop.simps) (simp add: bs_def [symmetric] Let_def)
    next
      case (Some jh)
      then obtain j h where jh: "f = Some (j, h)" by (cases jh) auto
      define q where "q = p + j"
      define cs where "cs = drop q (take off buf)"
      have cs: "cs = drop j bs" "length cs = off - q" "q < off" "j + 1 < off - p" "h = of_be16 (cs ! 0) (cs ! 1)" "h \<in> {FPGA_FRAME_HEADER, FPGA_TELEMETRY_LOG_HEADER}"
          "cut_frames bs = cut_frames cs"
        using f(3) [OF jh] l True by (auto simp: cs_def q_def bs_def add.commute)
      have nx: "uart_frame_loop buf off r es' = Some (off - length (snd (cut_frames (drop (r - q) cs))), es' @ fst (cut_frames (drop (r - q) cs)))"
        if "q < r" "r \<le> off" for r es'
        using less.hyps [of r es'] that by (simp add: cs_def q_def)
      have b: "uart_frame_loop buf off p es = (case view_of cs of Wait \<Rightarrow> Some (q, es) | Skip \<Rightarrow> uart_frame_loop buf off (q + 1) es
          | Frame n \<Rightarrow> uart_frame_loop buf off (q + n) (es @ [frame_event (take n cs)]))"
        unfolding q_def cs_def by (rule loop_turn [OF assms(1) True f(1) [unfolded jh]]) (use cs(4-6) in \<open>auto simp: q_def cs_def\<close>)
      show ?thesis
      proof (cases "view_of cs")
        case Wait
        then show ?thesis using b cs(2,3,7) by (simp add: cut_frames_view(1) bs_def [symmetric])
      next
        case Skip
        then show ?thesis using b cs(3,7) nx [of "q + 1" es] by (simp add: cut_frames_view(2) bs_def [symmetric] drop_Suc)
      next
        case (Frame n)
        then have "q < q + n" "q + n \<le> off" using view_Frame [OF Frame] cs(2,3) by linarith+
        with Frame show ?thesis using b cs(7) nx [of "q + n" "es @ [frame_event (take n cs)]"]
          by (simp add: cut_frames_view(3) bs_def [symmetric])
      qed
    qed
  qed
qed

lemma cut_rest: "(\<exists>a. bs = a @ snd (cut_frames bs)) \<and> cut_frames (snd (cut_frames bs)) = ([], snd (cut_frames bs))"
proof (induction bs rule: cut_frames.induct)
  case (1 bs)
  show ?case
  proof (cases "view_of bs")
    case Wait
    then show ?thesis by (simp add: cut_frames_view(1))
  next
    case Skip
    then have "bs = [hd bs] @ tl bs" using view_Skip [of bs] by simp
    moreover obtain a where "tl bs = a @ snd (cut_frames (tl bs))" using 1(1) [OF Skip] by blast
    ultimately have "bs = ([hd bs] @ a) @ snd (cut_frames (tl bs))" by (metis append.assoc)
    then show ?thesis using 1(1) [OF Skip] unfolding cut_frames_view(2) [OF Skip] by blast
  next
    case (Frame n)
    obtain a where "drop n bs = a @ snd (cut_frames (drop n bs))" using 1(2) [OF Frame] by blast
    then have "bs = (take n bs @ a) @ snd (cut_frames (drop n bs))" by (metis append.assoc append_take_drop_id)
    then show ?thesis using 1(2) [OF Frame] unfolding cut_frames_view(3) [OF Frame] snd_conv by blast
  qed
qed

text \<open>One read, when it fits behind what is left.\<close>

lemma recv_data_cuts:
  assumes "length buf = 2048" "take (length r) buf = r" "length r + length d \<le> 2048"
  shows "\<exists>buf'. uart_recv_data d (buf, length r) = Some ((buf', length (snd (cut_frames (r @ d)))), fst (cut_frames (r @ d)))
     \<and> length buf' = 2048 \<and> take (length (snd (cut_frames (r @ d)))) buf' = snd (cut_frames (r @ d))"
proof -
  let ?n = "length r + length d" and ?rest = "snd (cut_frames (r @ d))"
  define b1 where "b1 = r @ d @ drop ?n buf"
  have c: "mem_copy buf (length r) d 0 (length d) = Some b1" using assms by (simp add: b1_def)
  have l: "length b1 = 2048" "take ?n b1 = r @ d" using assms(1,3) by (simp_all add: b1_def)
  have u: "uart_frame_loop b1 ?n 0 [] = Some (?n - length ?rest, fst (cut_frames (r @ d)))"
    using loop_cuts [of ?n b1 0 "[]"] l assms(3) by simp
  obtain a where a: "r @ d = a @ ?rest" using cut_rest by blast
  then have len: "?n = length a + length ?rest" using length_append by metis
  have b1: "b1 = a @ ?rest @ drop ?n b1" using l(2) a by (metis append.assoc append_take_drop_id)
  have "\<exists>buf'. remove_processed b1 ?n (?n - length ?rest) = Some (buf', length ?rest) \<and> length buf' = 2048 \<and> take (length ?rest) buf' = ?rest"
  proof (cases "a = [] \<or> ?rest = []")
    case True
    then have "?rest = r @ d \<or> ?rest = []" using a by (metis append_Nil)
    then show ?thesis using l by (auto simp: remove_processed_def)
  next
    case False
    have "take (length ?rest) (drop (length a) b1) = ?rest" by (subst b1) simp
    then show ?thesis using False len l(1) assms(3) by (simp add: remove_processed_def Let_def)
  qed
  then show ?thesis using c u assms(3) by (auto simp: uart_recv_data_def Let_def)
qed

text \<open>Reads that fit one after the other.\<close>

fun read_bytes :: "uart_read \<Rightarrow> bytes" where
  "read_bytes (Read_data d) = d"
| "read_bytes _ = []"

fun fits :: "bytes \<Rightarrow> uart_read list \<Rightarrow> bool" where
  "fits r [] = True"
| "fits r (c # cs) = (length r + length (read_bytes c) \<le> 2048 \<and> fits (snd (cut_frames (r @ read_bytes c))) cs)"

lemma recv_loop_cuts:
  assumes "length buf = 2048" "take (length r) buf = r" "cut_frames r = ([], r)" "fits r rs" "Read_error \<notin> set rs"
  shows "\<exists>buf'. uart_recv_loop rs (buf, length r) = Some ((buf', length (snd (cut_frames (r @ concat (map read_bytes rs))))), fst (cut_frames (r @ concat (map read_bytes rs))))"
  using assms
proof (induction rs arbitrary: buf r)
  case (Cons c rs)
  show ?case
  proof (cases c)
    case (Read_data d)
    let ?r = "snd (cut_frames (r @ d))"
    obtain b where b: "uart_recv_data d (buf, length r) = Some ((b, length ?r), fst (cut_frames (r @ d)))" "length b = 2048" "take (length ?r) b = ?r"
      using recv_data_cuts [OF Cons.prems(1,2), of d] Cons.prems(4) Read_data by auto
    have "cut_frames ?r = ([], ?r)" using cut_rest by blast
    then obtain b' where "uart_recv_loop rs (b, length ?r) = Some ((b', length (snd (cut_frames (?r @ concat (map read_bytes rs))))), fst (cut_frames (?r @ concat (map read_bytes rs))))"
      using Cons.IH [OF b(2,3)] Cons.prems(4,5) Read_data by auto
    then show ?thesis using b(1) Read_data cut_append [of "r @ d" "concat (map read_bytes rs)"] by simp
  next
    case Read_nothing
    then show ?thesis using Cons.IH [OF Cons.prems(1-3)] Cons.prems(3-5) by simp
  qed (use Cons.prems(5) in simp)
qed simp

subsection \<open>Frames with noise between them\<close>

text \<open>A frame with the header of a status frame, and a telemetry frame of one of the three sources.\<close>

definition uart_frame :: "bytes \<Rightarrow> bool" where
  "uart_frame f \<longleftrightarrow>
     (\<exists>d. length d \<le> 1018 \<and> f = be16 FPGA_FRAME_HEADER @ be16 (of_nat (length d)) @ d @ be16 FPGA_FRAME_TAIL)
     \<or> (\<exists>src d. fpga_telemetry_payload_len src \<noteq> 0 \<and> length d = unat (fpga_telemetry_payload_len src)
          \<and> f = be16 FPGA_TELEMETRY_LOG_HEADER @ [src, of_nat (length d)] @ d @ be16 FPGA_FRAME_TAIL)"

lemma be16_bytes: "of_be16 (be16 w ! 0) (be16 w ! 1) = w"
  by (simp add: be16_def of_be16_def codec_simps)

lemma header_neq: "FPGA_FRAME_HEADER \<noteq> FPGA_TELEMETRY_LOG_HEADER"
  by (simp add: FPGA_FRAME_HEADER_def FPGA_TELEMETRY_LOG_HEADER_def)

lemma frame_tail_at: "of_be16 ((a @ be16 w) ! (length (a @ be16 w) - 2)) ((a @ be16 w) ! (length (a @ be16 w) - 1)) = w"
  using be16_bytes [of w] by (simp add: nth_append)

lemma view_FrameI:
  assumes "6 \<le> length f" "of_be16 (f ! 0) (f ! 1) \<in> {FPGA_FRAME_HEADER, FPGA_TELEMETRY_LOG_HEADER}" "frame_size f = Some (length f)"
    "of_be16 (f ! (length f - 2)) (f ! (length f - 1)) = FPGA_FRAME_TAIL"
  shows "view_of f = Frame (length f)"
  using assms by (auto simp: view_of_def)

lemma uart_frame_view:
  assumes "uart_frame f"
  shows "view_of f = Frame (length f)" "length f \<le> 1024"
proof -
  consider d where "length d \<le> 1018" "f = be16 FPGA_FRAME_HEADER @ be16 (of_nat (length d)) @ d @ be16 FPGA_FRAME_TAIL"
    | src d where "fpga_telemetry_payload_len src \<noteq> 0" "length d = unat (fpga_telemetry_payload_len src)"
        "f = be16 FPGA_TELEMETRY_LOG_HEADER @ [src, of_nat (length d)] @ d @ be16 FPGA_FRAME_TAIL"
    using assms unfolding uart_frame_def by blast
  then have "view_of f = Frame (length f) \<and> length f \<le> 1024"
  proof cases
    case 1
    have h: "of_be16 (f ! 0) (f ! 1) = FPGA_FRAME_HEADER" "of_be16 (f ! 2) (f ! 3) = of_nat (length d)"
      using be16_bytes [of FPGA_FRAME_HEADER] be16_bytes [of "of_nat (length d)"] by (simp_all add: 1(2) be16_def)
    have "unat (of_nat (length d) :: u16) = length d" using 1(1) by (intro u16_of_nat) simp
    then have "frame_size f = Some (length f)" using h header_neq 1 by (simp add: frame_size_def)
    moreover have "of_be16 (f ! (length f - 2)) (f ! (length f - 1)) = FPGA_FRAME_TAIL"
      using frame_tail_at [of "be16 FPGA_FRAME_HEADER @ be16 (of_nat (length d)) @ d"] unfolding 1(2) append.assoc .
    ultimately show ?thesis using h 1 by (intro conjI view_FrameI) simp_all
  next
    case 2
    have len: "length d < 256" using 2(1,2) by (auto simp: fpga_telemetry_payload_len_def split: if_splits)
    have h: "of_be16 (f ! 0) (f ! 1) = FPGA_TELEMETRY_LOG_HEADER" "f ! 2 = src" "f ! 3 = of_nat (length d)"
      using be16_bytes [of FPGA_TELEMETRY_LOG_HEADER] by (simp_all add: 2(3) be16_def)
    have "unat (of_nat (length d) :: u8) = length d" "ucast (of_nat (length d) :: u8) = fpga_telemetry_payload_len src"
      using len 2(2) u8_of_nat [of "length d"] by (auto simp: u32_eq_nat unat_ucast_up)
    then have "frame_size f = Some (length f)" using h 2 by (simp add: frame_size_def)
    moreover have "of_be16 (f ! (length f - 2)) (f ! (length f - 1)) = FPGA_FRAME_TAIL"
      using frame_tail_at [of "be16 FPGA_TELEMETRY_LOG_HEADER @ [src, of_nat (length d)] @ d"] unfolding 2(3) append.assoc .
    ultimately show ?thesis using h 2(3) len by (intro conjI view_FrameI) simp_all
  qed
  then show "view_of f = Frame (length f)" "length f \<le> 1024" by simp_all
qed

lemma cut_noise: "0xEB \<notin> set z \<Longrightarrow> cut_frames (z @ bs) = cut_frames bs"
proof (induction z)
  case (Cons x z)
  have "view_of (x # z @ bs) = Skip"
  proof (cases "z @ bs")
    case (Cons y ys)
    then show ?thesis using header_first_byte [of x y] \<open>0xEB \<notin> set (x # z)\<close> by (auto simp: view_of_def)
  qed (use Cons.prems in \<open>auto simp: view_of_def\<close>)
  then show ?case using Cons by (simp add: cut_frames_view(2))
qed simp

lemma cut_frame: "uart_frame f \<Longrightarrow> cut_frames (f @ bs) = (frame_event f # fst (cut_frames bs), snd (cut_frames bs))"
  using cut_frames_view(3) [OF view_append(2) [OF uart_frame_view(1)], of f bs] by simp

definition noisy_frame :: "bytes \<times> bytes \<Rightarrow> bool" where
  "noisy_frame i \<longleftrightarrow> 0xEB \<notin> set (fst i) \<and> uart_frame (snd i)"

lemma cut_nothing [simp]: "cut_frames [] = ([], [])"
  by (simp add: cut_frames_view(1) view_of_def)

lemma cut_noisy: "list_all noisy_frame items \<Longrightarrow> cut_frames (concat (map (\<lambda>(z, f). z @ f) items)) = (map (frame_event \<circ> snd) items, [])"
  by (induction items) (auto simp: noisy_frame_def cut_noise cut_frame)

lemma frame_prefix:
  assumes "uart_frame f" "m < length f"
  shows "cut_frames (take m f) = ([], take m f)"
proof (cases "view_of (take m f)")
  case Wait
  then show ?thesis by (rule cut_frames_view(1))
next
  case Skip
  then show ?thesis using view_append(1) [OF Skip, of "drop m f"] uart_frame_view(1) [OF assms(1)] by simp
next
  case (Frame n)
  then show ?thesis using view_append(2) [OF Frame, of "drop m f"] uart_frame_view(1) [OF assms(1)] view_Frame [OF Frame] assms(2) by simp
qed

lemma noisy_rest:
  "list_all noisy_frame items \<Longrightarrow> x @ y = concat (map (\<lambda>(z, f). z @ f) items) \<Longrightarrow> length (snd (cut_frames x)) < 1024"
proof (induction items arbitrary: x)
  case (Cons i items)
  obtain z f where i: "i = (z, f)" by (cases i)
  have ok: "0xEB \<notin> set z" "uart_frame f" using Cons.prems(1) i by (simp_all add: noisy_frame_def)
  show ?case
  proof (cases "length (z @ f) \<le> length x")
    case True
    have "x @ y = (z @ f) @ concat (map (\<lambda>(z, f). z @ f) items)" using Cons.prems(2) i by simp
    then obtain x' where "x = (z @ f) @ x' \<and> x' @ y = concat (map (\<lambda>(z, f). z @ f) items) \<or> x @ x' = z @ f \<and> y = x' @ concat (map (\<lambda>(z, f). z @ f) items)"
      unfolding append_eq_append_conv2 by blast
    moreover have "x' = []" if "x @ x' = z @ f" using arg_cong [OF that, of length] True length_0_conv [of x'] unfolding length_append by linarith
    ultimately have "\<exists>x'. x = z @ f @ x' \<and> x' @ y = concat (map (\<lambda>(z, f). z @ f) items)" by auto
    then obtain x' where "x = z @ f @ x'" "x' @ y = concat (map (\<lambda>(z, f). z @ f) items)" by blast
    then show ?thesis using Cons.IH [of x'] Cons.prems(1) ok by (simp add: cut_noise cut_frame)
  next
    case False
    then have x: "x = take (length x) (z @ f)" using Cons.prems(2) i by (auto simp: append_eq_append_conv2 append_eq_conv_conj)
    show ?thesis
    proof (cases "length x \<le> length z")
      case True
      then have "0xEB \<notin> set x" using x ok(1) by (metis append_eq_conv_conj in_set_takeD take_append take_take diff_is_0_eq take0 append_Nil2)
      then show ?thesis using cut_noise [of x "[]"] by simp
    next
      case not_noise: False
      then have "x = z @ take (length x - length z) f" "length x - length z < length f" using x False by simp_all
      then have "cut_frames x = ([], take (length x - length z) f)" using ok frame_prefix cut_noise by metis
      then show ?thesis using False not_noise uart_frame_view(2) [OF ok(2)] by auto
    qed
  qed
qed simp

lemma noisy_fits:
  assumes "list_all noisy_frame items"
  shows "x @ concat (map read_bytes rs) = concat (map (\<lambda>(z, f). z @ f) items) \<Longrightarrow> list_all (\<lambda>c. length (read_bytes c) \<le> 1024) rs \<Longrightarrow> fits (snd (cut_frames x)) rs"
proof (induction rs arbitrary: x)
  case (Cons c rs)
  have "length (snd (cut_frames x)) < 1024" using noisy_rest [OF assms] Cons.prems(1) by blast
  moreover have "fits (snd (cut_frames (x @ read_bytes c))) rs" using Cons.IH [of "x @ read_bytes c"] Cons.prems by simp
  ultimately show ?case using Cons.prems(2) cut_append [of x "read_bytes c"] by simp
qed simp

subsection \<open>Properties\<close>

text \<open>C4. The callbacks do not depend on how the bytes arrive. For any bytes, noise included, as long as no read overflows the buffer, the receiving thread makes the
  callbacks that the whole stream gives when it is cut at once, in the same order, and keeps exactly the bytes that may still become a frame;
  it always ends a read and stays inside its buffer.\<close>

theorem uart_cuts_stream:
  assumes "fits [] rs" and "Read_error \<notin> set rs"
  shows "\<exists>buf. uart_recv_thread rs = Some ((buf, length (snd (cut_frames (concat (map read_bytes rs))))), fst (cut_frames (concat (map read_bytes rs))))"
  using recv_loop_cuts [of "replicate 2048 0" "[]" rs] assms by (simp add: uart_recv_thread_def)

text \<open>Frames get through. A stream of well-formed frames of at most 1024 bytes, with noise between them that does not contain the first byte of a header, comes in reads
  of at most 1024 bytes, cut anywhere: each frame gives its callback once, in order, and the buffer is empty at the end.\<close>

theorem uart_frames_in_pieces:
  assumes "list_all noisy_frame items" and "list_all (\<lambda>c. length (read_bytes c) \<le> 1024) rs" and "Read_error \<notin> set rs"
    and "concat (map read_bytes rs) = concat (map (\<lambda>(z, f). z @ f) items)"
  shows "\<exists>buf. uart_recv_thread rs = Some ((buf, 0), map (frame_event \<circ> snd) items)"
  using recv_loop_cuts [of "replicate 2048 0" "[]" rs] noisy_fits [OF assms(1), of "[]" rs] cut_noisy [OF assms(1)] assms(2-4)
  by (simp add: uart_recv_thread_def)

definition frame_example :: bytes where
  "frame_example = be16 FPGA_FRAME_HEADER @ be16 1 @ [7] @ be16 FPGA_FRAME_TAIL"

lemma frame_example_ok: "uart_frame frame_example"
  unfolding uart_frame_def frame_example_def by (intro disjI1 exI [of _ "[7]"]) simp

theorem uart_cuts_stream_witness:
  "\<exists>buf. uart_recv_thread [Read_data [0xEB], Read_nothing, Read_data [1]] = Some ((buf, 0), [])"
proof -
  have "view_of [0xEB] = Wait" "view_of [1] = Skip" by (simp_all add: view_of_def)
  moreover have "view_of [0xEB, 1] = Skip" by (simp add: view_of_def FPGA_FRAME_HEADER_def FPGA_TELEMETRY_LOG_HEADER_def of_be16_def of_le16_def)
  ultimately have "cut_frames [0xEB] = ([], [0xEB])" "cut_frames [0xEB, 1] = ([], [])" by (simp_all add: cut_frames_view)
  then show ?thesis using uart_cuts_stream [of "[Read_data [0xEB], Read_nothing, Read_data [1]]"] by simp
qed

theorem uart_frames_in_pieces_witness:
  "\<exists>buf. uart_recv_thread [Read_data (1 # take 3 frame_example), Read_nothing, Read_data (drop 3 frame_example)] = Some ((buf, 0), [frame_event frame_example])"
proof -
  have "noisy_frame ([1], frame_example)" using frame_example_ok by (simp add: noisy_frame_def)
  moreover have "length frame_example = 7" by (simp add: frame_example_def)
  ultimately show ?thesis
    using uart_frames_in_pieces [of "[([1], frame_example)]" "[Read_data (1 # take 3 frame_example), Read_nothing, Read_data (drop 3 frame_example)]"] by simp
qed

end
