(* ===== verification/ParamQuery.thy ===== *)
theory ParamQuery
  imports ParamConfig FirmwarePackage
begin

text \<open>
  The parameter query of param_query.c and its handler in msg_handler.c: each query element of the request is answered from
  the clock, the load of the processor, the configured period or the last status frame of the FPGA. The current time, the conversion to local time
  and the contents of \<open>/proc/stat\<close> are arguments; \<open>time\<close> gives the same value throughout a request.
\<close>

subsection \<open>The load of the processor\<close>

text \<open>\<open>g_cpu_stats\<close> with the two static variables of \<open>read_cpu_usage\<close>.\<close>

record cpu_stats =
  cs_cpu_usage :: u32
  cs_stat_period :: u32
  cs_last_update :: int
  cs_prev_total :: u64
  cs_prev_idle :: u64

text \<open>The conversion \<open>%llu\<close> of \<open>sscanf\<close>, and seven of them behind the word cpu.\<close>

definition scan_ull :: "string \<Rightarrow> (u64 \<times> string) option" where
  "scan_ull s =
     (let t = dropWhile isspace s;
          (negative, u) = (case t of c # r \<Rightarrow> if c = CHR ''-'' then (True, r) else if c = CHR ''+'' then (False, r) else (False, t) | [] \<Rightarrow> (False, t));
          ds = takeWhile (\<lambda>c. digit_val c < 10) u;
          v = digits_value 10 u
      in if ds = [] then None
         else Some (if v \<ge> 2 ^ 64 then - 1 else if negative then - of_nat v else of_nat v, drop (length ds) u))"

fun scan_ulls :: "nat \<Rightarrow> string \<Rightarrow> u64 list" where
  "scan_ulls 0 s = []"
| "scan_ulls (Suc n) s = (case scan_ull s of None \<Rightarrow> [] | Some (v, r) \<Rightarrow> v # scan_ulls n r)"

definition scan_cpu :: "string \<Rightarrow> u64 list" where
  "scan_cpu line = (if take 3 line = ''cpu'' then scan_ulls 7 (drop 3 line) else [])"

definition read_cpu_usage :: "string option \<Rightarrow> cpu_stats \<Rightarrow> u32 \<times> cpu_stats" where
  "read_cpu_usage proc_stat c =
     (case proc_stat of
        None \<Rightarrow> (0, c)
      | Some text \<Rightarrow>
          if text = [] then (0, c)
          else case scan_cpu (fgets 255 text) of
                 [user, nice, system, idle, iowait, irq, softirq] \<Rightarrow>
                   let total = user + nice + system + idle + iowait + irq + softirq
                   in if cs_prev_total c = 0 then (0, c\<lparr>cs_prev_total := total, cs_prev_idle := idle\<rparr>)
                      else let total_diff = total - cs_prev_total c;
                               idle_diff = idle - cs_prev_idle c;
                               usage = (if total_diff > 0 then ucast (100 * (total_diff - idle_diff) div total_diff) else 0)
                           in (usage, c\<lparr>cs_prev_total := total, cs_prev_idle := idle\<rparr>)
               | _ \<Rightarrow> (0, c))"

definition param_query_init :: "int \<Rightarrow> string option \<Rightarrow> cpu_stats \<Rightarrow> int \<times> cpu_stats" where
  "param_query_init now proc_stat c =
     (SUCCESS, snd (read_cpu_usage proc_stat (c\<lparr>cs_cpu_usage := 0, cs_stat_period := 5, cs_last_update := now\<rparr>)))"



definition param_query_update_cpu_stats :: "int \<Rightarrow> u32 \<Rightarrow> cpu_stats \<Rightarrow> cpu_stats" where
  "param_query_update_cpu_stats now usage c = c\<lparr>cs_cpu_usage := usage, cs_last_update := now\<rparr>"

subsection \<open>Elements\<close>














subsection \<open>The request\<close>

text \<open>What the handlers return is not looked at.\<close>

definition query_put :: "(int \<times> ie_state) option \<Rightarrow> cpu_stats \<Rightarrow> (ie_state \<times> cpu_stats) option" where
  "query_put r c = map_option (\<lambda>(ret, response). (response, c)) r"





subsection \<open>The answers\<close>









lemma query_put_Some [simp]: "query_put (Some (ret, response)) c = Some (response, c)"
  by (simp add: query_put_def)





subsection \<open>Properties\<close>


lemma times_100: "100 * unat (x :: u64) < 2 ^ 64 \<Longrightarrow> unat (100 * x) = 100 * unat x"
  by (simp add: unat_word_ariths)

text \<open>The load is a percentage: when the counters of the processor do not run backwards, the value is the share of the time since the last reading in which the processor
  was not idle, rounded down, and at most 100.\<close>

theorem cpu_usage_percent:
  assumes "scan_cpu (fgets 255 text) = [user, nice, system, idle, iowait, irq, softirq]" and "text \<noteq> []"
    and "tot = user + nice + system + idle + iowait + irq + softirq" and "cs_prev_total c \<noteq> 0"
    and "cs_prev_total c < tot" and "cs_prev_idle c \<le> idle" and "idle - cs_prev_idle c \<le> tot - cs_prev_total c"
    and "100 * unat (tot - cs_prev_total c) < 2 ^ 64"
  shows "unat (fst (read_cpu_usage (Some text) c)) = 100 * (unat (tot - cs_prev_total c) - unat (idle - cs_prev_idle c)) div unat (tot - cs_prev_total c)
     \<and> unat (fst (read_cpu_usage (Some text) c)) \<le> 100"
proof -
  let ?t = "tot - cs_prev_total c" and ?i = "idle - cs_prev_idle c"
  have t: "0 < unat ?t" "?t > 0" using assms(5) by (simp_all add: word_less_nat_alt unat_sub word_le_nat_alt)
  have d: "unat (?t - ?i) = unat ?t - unat ?i" using assms(7) by (simp add: unat_sub)
  have m: "unat (100 * (?t - ?i)) = 100 * (unat ?t - unat ?i)"
    using times_100 [of "?t - ?i"] assms(8) unfolding d by simp
  have q: "unat (100 * (?t - ?i) div ?t) = 100 * (unat ?t - unat ?i) div unat ?t" using m by (simp add: unat_div)
  have le: "100 * (unat ?t - unat ?i) div unat ?t \<le> 100"
  proof -
    have "100 * (unat ?t - unat ?i) \<le> 100 * unat ?t" by simp
    then show ?thesis using t(1) by (metis div_le_mono nonzero_mult_div_cancel_right less_numeral_extra(3))
  qed
  have "fst (read_cpu_usage (Some text) c) = ucast (100 * (?t - ?i) div ?t)"
    using assms(1-4) t(2) by (simp add: read_cpu_usage_def Let_def)
  moreover have "unat (ucast (100 * (?t - ?i) div ?t) :: u32) = unat (100 * (?t - ?i) div ?t)"
    using q le by (simp add: unsigned_ucast_eq take_bit_nat_eq_self)
  ultimately show ?thesis using q le by simp
qed

definition stats_example :: cpu_stats where
  "stats_example = \<lparr>cs_cpu_usage = 0, cs_stat_period = 5, cs_last_update = 0, cs_prev_total = 50, cs_prev_idle = 50\<rparr>"



lemma scan_ulls_numeral: "scan_ulls (numeral n) s = (case scan_ull s of None \<Rightarrow> [] | Some (v, r) \<Rightarrow> v # scan_ulls (pred_numeral n) r)"
  by (simp add: numeral_eq_Suc)

lemma scan_example: "scan_cpu (fgets 255 ''cpu 10 0 0 90 0 0 0'') = [10, 0, 0, 90, 0, 0, 0]"
  by (simp add: scan_cpu_def fgets_def scan_ulls_numeral scan_ull_def isspace_def digit_val_def digits_value_def Let_def)

theorem cpu_usage_percent_witness: "unat (fst (read_cpu_usage (Some ''cpu 10 0 0 90 0 0 0'') stats_example)) = 20"
  using cpu_usage_percent [OF scan_example, of 100 stats_example] by (simp add: stats_example_def)


end
