(* ===== verification/TelemetryLog.thy ===== *)
theory TelemetryLog
  imports FpgaHandler Config
begin

text \<open>
  The telemetry log of telemetry_log.c: telemetry frames that the serial line of the FPGA delivers go into a ring of 32 slots, from which a thread appends them to a
  file; a file that would grow beyond its limit becomes the newest of a row of backups. The files are numbered: 0 is the current one, \<open>i\<close> the backup with
  the suffix \<open>i\<close>. Bytes that \<open>fwrite\<close> takes count as written. Positions in the ring stay below 32 and are natural numbers.
\<close>

subsection \<open>The ring\<close>

definition TEL_QUEUE_SLOTS :: nat where "TEL_QUEUE_SLOTS = 32"
definition TEL_SLOT_MAX_FRAME :: nat where "TEL_SLOT_MAX_FRAME = 160"

record tel_slot =
  ts_len :: u16
  ts_data :: bytes

record tel_queue =
  tq_ring :: "tel_slot list"
  tq_head :: nat
  tq_tail :: nat
  tq_count :: nat
  tq_dropped :: u64
  tq_stopping :: bool

definition telemetry_log_on_frame :: "bytes \<Rightarrow> tel_queue \<Rightarrow> tel_queue option" where
  "telemetry_log_on_frame frame q =
     (if length frame = 0 \<or> length frame > TEL_SLOT_MAX_FRAME then Some q
      else if tq_stopping q then Some q
      else if tq_count q \<ge> TEL_QUEUE_SLOTS then Some (q\<lparr>tq_dropped := tq_dropped q + 1\<rparr>)
      else do {
        slot \<leftarrow> arr_get (tq_ring q) (tq_tail q);
        data \<leftarrow> mem_copy (ts_data slot) 0 frame 0 (length frame);
        ring \<leftarrow> arr_set (tq_ring q) (tq_tail q) \<lparr>ts_len = of_nat (length frame), ts_data = data\<rparr>;
        Some (q\<lparr>tq_ring := ring, tq_tail := (tq_tail q + 1) mod TEL_QUEUE_SLOTS, tq_count := tq_count q + 1\<rparr>) })"

text \<open>The next slot for the writing thread, if there is one.\<close>

definition tel_take :: "tel_queue \<Rightarrow> (tel_slot \<times> tel_queue) option option" where
  "tel_take q =
     (if tq_count q = 0 then Some None
      else do {
        slot \<leftarrow> arr_get (tq_ring q) (tq_head q);
        Some (Some (slot, q\<lparr>tq_head := (tq_head q + 1) mod TEL_QUEUE_SLOTS, tq_count := tq_count q - 1\<rparr>)) })"

subsection \<open>The files\<close>

record tel_file =
  tf_files :: "nat \<Rightarrow> bytes option"
  tf_fp :: bool
  tf_bytes :: u64
  tf_max_size :: u64
  tf_max_backups :: int

text \<open>What the calls of a rotation give: whether the oldest backup can be removed, which files can be renamed and whether the new file can be opened.\<close>

record rotate_io =
  ro_unlink :: bool
  ro_rename :: "nat \<Rightarrow> bool"
  ro_open :: bool

definition move_file :: "rotate_io \<Rightarrow> nat \<Rightarrow> (nat \<Rightarrow> 'b option) \<Rightarrow> nat \<Rightarrow> 'b option" where
  "move_file io i files = (if files i \<noteq> None \<and> ro_rename io i then files(i + 1 := files i, i := None) else files)"

fun rename_loop :: "rotate_io \<Rightarrow> nat \<Rightarrow> (nat \<Rightarrow> 'b option) \<Rightarrow> nat \<Rightarrow> 'b option" where
  "rename_loop io 0 files = files"
| "rename_loop io (Suc i) files = rename_loop io i (move_file io (Suc i) files)"

definition tel_rotate_locked :: "rotate_io \<Rightarrow> tel_file \<Rightarrow> tel_file" where
  "tel_rotate_locked io f =
     (let files = tf_files f;
          files = (if tf_max_backups f > 0 \<and> ro_unlink io then files(nat (tf_max_backups f) := None) else files);
          files = rename_loop io (nat (tf_max_backups f - 1)) files;
          files = move_file io 0 files;
          files = (if ro_open io then files(0 := Some (case files 0 of None \<Rightarrow> [] | Some b \<Rightarrow> b)) else files)
      in f\<lparr>tf_files := files, tf_fp := ro_open io, tf_bytes := 0\<rparr>)"

definition append_file :: "bytes \<Rightarrow> tel_file \<Rightarrow> tel_file" where
  "append_file d f = f\<lparr>tf_files := (tf_files f)(0 := Some ((case tf_files f 0 of None \<Rightarrow> [] | Some b \<Rightarrow> b) @ d))\<rparr>"

text \<open>The calls of one write: a rotation, a first attempt, a rotation after its failure and a second attempt.\<close>

record write_io =
  wi_first :: rotate_io
  wi_taken :: nat
  wi_again :: rotate_io
  wi_taken_again :: nat

definition tel_write :: "write_io \<Rightarrow> bytes \<Rightarrow> tel_file \<Rightarrow> tel_file" where
  "tel_write io d f =
     (let len = of_nat (length d) :: u64;
          f = (if tf_bytes f + len \<ge> tf_max_size f then tel_rotate_locked (wi_first io) f else f)
      in if \<not> tf_fp f then f
         else let f = append_file (take (wi_taken io) d) f
              in if wi_taken io \<ge> length d then f\<lparr>tf_bytes := tf_bytes f + len\<rparr>
                 else let f = tel_rotate_locked (wi_again io) f
                      in if \<not> tf_fp f then f
                         else let f = append_file (take (wi_taken_again io) d) f
                              in if wi_taken_again io \<ge> length d then f\<lparr>tf_bytes := tf_bytes f + len\<rparr> else f)"

text \<open>One turn of the writing thread. It ends when the ring is empty and the module is stopping.\<close>

definition tel_writer_turn :: "write_io \<Rightarrow> tel_queue \<times> tel_file \<Rightarrow> (tel_queue \<times> tel_file) option" where
  "tel_writer_turn io st = do {
     r \<leftarrow> tel_take (fst st);
     case r of
       None \<Rightarrow> Some st
     | Some (slot, q) \<Rightarrow> do {
         d \<leftarrow> mem_read (ts_data slot) 0 (unat (ts_len slot));
         Some (q, tel_write io d (snd st)) } }"

text \<open>The copy for an upload, in blocks; how much of each block the target takes is an argument, as are the
  position at which reading fails, if it does, and whether the last flush succeeds.\<close>

function snapshot_copy :: "(nat \<Rightarrow> nat) \<Rightarrow> nat \<Rightarrow> bytes \<Rightarrow> int \<times> bytes" where
  "snapshot_copy taken i src =
     (let buf = take 4096 src; n = length buf
      in if n > 0 \<and> taken i < n then (ERROR_GENERAL, take (taken i) buf)
         else if n < 4096 then (SUCCESS, buf)
         else case snapshot_copy taken (i + 1) (drop 4096 src) of (ret, out) \<Rightarrow> (ret, buf @ out))"
  by auto
termination by (relation "measure (\<lambda>(t, i, src). length src)") (auto simp: min_def split: if_splits)

declare snapshot_copy.simps [simp del]

definition telemetry_log_snapshot :: "bool \<Rightarrow> bool \<Rightarrow> (nat \<Rightarrow> nat) \<Rightarrow> nat option \<Rightarrow> bool \<Rightarrow> tel_file \<Rightarrow> int \<times> bytes option" where
  "telemetry_log_snapshot src_ok dst_ok taken read_fails flush_ok f =
     (if \<not> tf_fp f then (ERROR_GENERAL, None)
      else case (if src_ok then tf_files f 0 else None) of
             None \<Rightarrow> (ERROR_GENERAL, None)
           | Some src \<Rightarrow>
               if \<not> dst_ok then (ERROR_GENERAL, None)
               else case snapshot_copy taken 0 (case read_fails of None \<Rightarrow> src | Some n \<Rightarrow> take n src) of (ret, out) \<Rightarrow>
                      (if ret = SUCCESS \<and> read_fails = None \<and> flush_ok then SUCCESS else ERROR_GENERAL, Some out))"

subsection \<open>Polling, start and end\<close>

text \<open>One turn of the polling thread.\<close>

definition tel_poll_turn :: "port \<Rightarrow> port option" where
  "tel_poll_turn uart =
     (if \<not> po_open uart then Some uart
      else do {
        (ret, uart) \<leftarrow> fpga_send_message uart FPGA_MSG_TELEMETRY_POLL_V7A [0] 16;
        (ret, uart) \<leftarrow> fpga_send_message uart FPGA_MSG_TELEMETRY_POLL_V7B1 [0] 16;
        (ret, uart) \<leftarrow> fpga_send_message uart FPGA_MSG_TELEMETRY_POLL_V7B2 [0] 16;
        Some uart })"

record tel_settings =
  tc_path :: string
  tc_max_size :: u64
  tc_max_backups :: int
  tc_poll_sec :: u32
  tc_poll_gap_ms :: u32

definition telemetry_settings :: "(string \<times> string) list \<Rightarrow> string \<Rightarrow> tel_settings" where
  "telemetry_settings items path =
     \<lparr>tc_path = (case config_get_string items ''TELEMETRY_LOG_FILE'' (Some ''logs/telemetry.bin'') of
          Some p \<Rightarrow> if p \<noteq> [] then take 255 p else path | None \<Rightarrow> path),
      tc_max_size = (let cfg_max_size = config_get_uint32 items ''TELEMETRY_LOG_MAX_SIZE'' 4194304
                     in if cfg_max_size > 0 then ucast cfg_max_size else 4194304),
      tc_max_backups = (let n = config_get_int items ''TELEMETRY_LOG_MAX_BACKUPS'' 5 in if n < 0 then 0 else n),
      tc_poll_sec = (let cfg_poll_sec = config_get_uint32 items ''TELEMETRY_LOG_POLL_SEC'' 60 in if cfg_poll_sec > 0 then cfg_poll_sec else 60),
      tc_poll_gap_ms = config_get_uint32 items ''TELEMETRY_LOG_POLL_GAP_MS'' 100\<rparr>"

definition tel_queue_start :: "tel_queue \<Rightarrow> tel_queue" where
  "tel_queue_start q = q\<lparr>tq_head := 0, tq_tail := 0, tq_count := 0, tq_dropped := 0, tq_stopping := False\<rparr>"

text \<open>The file part of \<open>telemetry_log_init\<close>: the file is opened for appending, and a file that is over its limit is rotated at once. The size is that of
  the file, if \<open>stat\<close> succeeds.\<close>

definition telemetry_open :: "tel_settings \<Rightarrow> bool \<Rightarrow> bool \<Rightarrow> rotate_io \<Rightarrow> (nat \<Rightarrow> bytes option) \<Rightarrow> int \<times> tel_file" where
  "telemetry_open c open_ok stat_ok io files =
     (let f = \<lparr>tf_files = files, tf_fp = False, tf_bytes = 0, tf_max_size = tc_max_size c, tf_max_backups = tc_max_backups c\<rparr>
      in if \<not> open_ok then (ERROR_GENERAL, f)
         else let f = (append_file [] f)\<lparr>tf_fp := True\<rparr>;
                  f = (case tf_files f 0 of Some b \<Rightarrow> if stat_ok then f\<lparr>tf_bytes := of_nat (length b)\<rparr> else f | None \<Rightarrow> f)
              in (SUCCESS, if tf_bytes f \<ge> tf_max_size f then tel_rotate_locked io f else f))"

text \<open>Stopping: the writing thread empties the ring first, then the file is closed.\<close>

fun tel_drain :: "write_io list \<Rightarrow> tel_queue \<times> tel_file \<Rightarrow> (tel_queue \<times> tel_file) option" where
  "tel_drain [] st = Some st"
| "tel_drain (io # ios) st = (if tq_count (fst st) = 0 then Some st else tel_writer_turn io st \<bind> tel_drain ios)"

definition telemetry_log_destroy :: "write_io list \<Rightarrow> tel_queue \<times> tel_file \<Rightarrow> (tel_queue \<times> tel_file) option" where
  "telemetry_log_destroy ios st = do {
     (q, f) \<leftarrow> tel_drain ios ((fst st)\<lparr>tq_stopping := True\<rparr>, snd st);
     Some (q, f\<lparr>tf_fp := False\<rparr>) }"

subsection \<open>The ring is a queue\<close>

definition frame_of :: "tel_slot \<Rightarrow> bytes" where
  "frame_of s = take (unat (ts_len s)) (ts_data s)"

definition ring_frames :: "tel_queue \<Rightarrow> bytes list" where
  "ring_frames q = map (\<lambda>i. frame_of (tq_ring q ! ((tq_head q + i) mod 32))) [0..<tq_count q]"

definition ring_ok :: "tel_queue \<Rightarrow> bool" where
  "ring_ok q \<longleftrightarrow> length (tq_ring q) = 32 \<and> tq_head q < 32 \<and> tq_count q \<le> 32 \<and> tq_tail q = (tq_head q + tq_count q) mod 32
     \<and> list_all (\<lambda>s. length (ts_data s) = 160 \<and> unat (ts_len s) \<le> 160) (tq_ring q)"

definition takes_frame :: "tel_queue \<Rightarrow> bytes \<Rightarrow> bool" where
  "takes_frame q f \<longleftrightarrow> f \<noteq> [] \<and> length f \<le> 160 \<and> \<not> tq_stopping q \<and> tq_count q < 32"

lemma on_frame_spec:
  assumes "ring_ok q"
  shows "\<exists>q'. telemetry_log_on_frame f q = Some q' \<and> ring_ok q' \<and> ring_frames q' = ring_frames q @ (if takes_frame q f then [f] else [])"
proof (cases "takes_frame q f")
  case False
  then show ?thesis using assms
    by (auto simp: telemetry_log_on_frame_def takes_frame_def TEL_SLOT_MAX_FRAME_def TEL_QUEUE_SLOTS_def ring_ok_def ring_frames_def)
next
  case True
  let ?t = "tq_tail q" and ?r = "tq_ring q"
  have t: "?t < 32" "length ?r = 32" "?t = (tq_head q + tq_count q) mod 32" "tq_head q < 32" "tq_count q < 32" "length f \<le> 160" "f \<noteq> []"
    using assms True by (auto simp: ring_ok_def takes_frame_def)
  have sl: "length (ts_data (?r ! ?t)) = 160" using assms t(1,2) by (auto simp: ring_ok_def list_all_length)
  define s where "s = \<lparr>ts_len = of_nat (length f), ts_data = f @ drop (length f) (ts_data (?r ! ?t))\<rparr>"
  define q' where "q' = q\<lparr>tq_ring := ?r[?t := s], tq_tail := (?t + 1) mod 32, tq_count := tq_count q + 1\<rparr>"
  have "mem_copy (ts_data (?r ! ?t)) 0 f 0 (length f) = Some (ts_data s)" using sl t(6) by (simp add: s_def)
  then have "telemetry_log_on_frame f q = Some q'"
    using True t by (simp add: telemetry_log_on_frame_def takes_frame_def TEL_SLOT_MAX_FRAME_def TEL_QUEUE_SLOTS_def arr_get_def arr_set_def q'_def s_def)
  moreover have u: "unat (of_nat (length f) :: u16) = length f" using t(6) by (intro u16_of_nat) simp
  then have "ring_ok q'" using assms t sl by (auto simp: ring_ok_def q'_def s_def list_all_length nth_list_update mod_simps)
  moreover have "ring_frames q' = ring_frames q @ [f]"
  proof -
    have "(tq_head q + i) mod 32 \<noteq> ?t" if "i < tq_count q" for i
      unfolding t(3) using that t(4,5) by (auto simp: mod_if)
    then have "map (\<lambda>i. frame_of (?r[?t := s] ! ((tq_head q + i) mod 32))) [0..<tq_count q] = ring_frames q"
      unfolding ring_frames_def by (intro map_cong) (auto simp: nth_list_update_neq [OF not_sym])
    moreover have "frame_of (?r[?t := s] ! ((tq_head q + tq_count q) mod 32)) = f" using t(1,2,3) u by (simp add: frame_of_def s_def)
    ultimately show ?thesis by (simp add: ring_frames_def q'_def)
  qed
  ultimately show ?thesis using True by auto
qed

lemma tel_take_spec:
  assumes "ring_ok q" "tq_count q \<noteq> 0"
  shows "\<exists>slot q'. tel_take q = Some (Some (slot, q')) \<and> ring_ok q' \<and> ring_frames q = frame_of slot # ring_frames q'
     \<and> mem_read (ts_data slot) 0 (unat (ts_len slot)) = Some (frame_of slot) \<and> length (frame_of slot) \<le> 160"
proof -
  let ?r = "tq_ring q" and ?h = "tq_head q"
  have h: "?h < 32" "length ?r = 32" "tq_count q \<le> 32" using assms(1) by (auto simp: ring_ok_def)
  define q' where "q' = q\<lparr>tq_head := (?h + 1) mod 32, tq_count := tq_count q - 1\<rparr>"
  have sl: "length (ts_data (?r ! ?h)) = 160" "unat (ts_len (?r ! ?h)) \<le> 160" using assms(1) h by (auto simp: ring_ok_def list_all_length)
  have "tel_take q = Some (Some (?r ! ?h, q'))" using assms(2) h by (simp add: tel_take_def arr_get_def q'_def TEL_QUEUE_SLOTS_def)
  moreover have "(?h + tq_count q) mod 32 = ((?h + 1) mod 32 + (tq_count q - 1)) mod 32" 
    unfolding mod_add_left_eq using assms(2) by simp
  then have "ring_ok q'" using assms by (auto simp: ring_ok_def q'_def)
  moreover have "ring_frames q = frame_of (?r ! ?h) # ring_frames q'"
  proof -
    obtain n where n: "tq_count q = Suc n" using assms(2) not0_implies_Suc by blast
    have "[0..<Suc n] = 0 # map Suc [0..<n]" by (simp add: map_Suc_upt upt_conv_Cons)
    then show ?thesis using h(1) by (simp add: ring_frames_def q'_def n mod_simps)
  qed
  ultimately show ?thesis using sl by (intro exI [of _ "?r ! ?h"] exI [of _ q']) (simp add: frame_of_def)
qed

subsection \<open>Rotation keeps the newest frames\<close>

definition rotate_good :: "rotate_io \<Rightarrow> bool" where
  "rotate_good io \<longleftrightarrow> ro_unlink io \<and> ro_rename io = (\<lambda>_. True) \<and> ro_open io"

definition file_bytes :: "tel_file \<Rightarrow> nat \<Rightarrow> bytes" where
  "file_bytes f i = (case tf_files f i of None \<Rightarrow> [] | Some b \<Rightarrow> b)"

text \<open>The frames in each file; all of them are below the limit, and the count is that of the current file.\<close>

definition log_inv :: "nat \<Rightarrow> u64 \<Rightarrow> (nat \<Rightarrow> bytes list) \<Rightarrow> tel_file \<Rightarrow> bool" where
  "log_inv k lim parts f \<longleftrightarrow> tf_fp f \<and> tf_max_backups f = int k \<and> tf_max_size f = lim \<and> tf_files f 0 \<noteq> None
     \<and> tf_bytes f = of_nat (length (concat (parts 0)))
     \<and> (\<forall>i\<le>k. file_bytes f i = concat (parts i) \<and> length (concat (parts i)) < unat lim)"

definition shifted_parts :: "(nat \<Rightarrow> bytes list) \<Rightarrow> nat \<Rightarrow> bytes list" where
  "shifted_parts parts i = (if i = 0 then [] else parts (i - 1))"

lemma rename_loop_shifts:
  assumes "rotate_good io" "files (Suc n) = None"
  shows "rename_loop io n files = (\<lambda>i. if 2 \<le> i \<and> i \<le> Suc n then files (i - 1) else if i = 1 \<and> 0 < n then None else files i)"
  using assms(2)
proof (induction n arbitrary: files)
  case 0
  then show ?case by (auto simp: fun_eq_iff)
next
  case (Suc n)
  have m: "move_file io (Suc n) files = files(Suc (Suc n) := files (Suc n), Suc n := None)"
    using assms(1) Suc.prems by (auto simp: move_file_def rotate_good_def fun_eq_iff)
  have "rename_loop io (Suc n) files = rename_loop io n (files(Suc (Suc n) := files (Suc n), Suc n := None))" by (simp add: m)
  also have "\<dots> = (\<lambda>i. if 2 \<le> i \<and> i \<le> Suc n then (files(Suc (Suc n) := files (Suc n), Suc n := None)) (i - 1)
       else if i = 1 \<and> 0 < n then None else (files(Suc (Suc n) := files (Suc n), Suc n := None)) i)"
    by (rule Suc.IH) simp
  also have "\<dots> = (\<lambda>i. if 2 \<le> i \<and> i \<le> Suc (Suc n) then files (i - 1) else if i = 1 \<and> 0 < Suc n then None else files i)"
    by (rule ext) auto
  finally show ?case .
qed

lemma row_shift:
  assumes "rotate_good io" "files 0 \<noteq> None" "i \<le> k"
  shows "move_file io 0 (rename_loop io (k - 1) (if 0 < k then files(k := None) else files)) i = (if i = 0 then None else files (i - 1))"
proof (cases k)
  case 0
  then show ?thesis using assms by (auto simp: move_file_def rotate_good_def)
next
  case (Suc n)
  define g where "g = files(Suc n := None)"
  have g: "rename_loop io n g = (\<lambda>i. if 2 \<le> i \<and> i \<le> Suc n then g (i - 1) else if i = 1 \<and> 0 < n then None else g i)"
    using rename_loop_shifts [OF assms(1), of g n] by (simp add: g_def)
  have "move_file io 0 (rename_loop io n g) = (rename_loop io n g)(1 := files 0, 0 := None)"
    using assms(1,2) by (auto simp: move_file_def rotate_good_def g) (auto simp: g_def)
  then have "move_file io 0 (rename_loop io n g) i = (if i = 0 then None else files (i - 1))" using assms(3) Suc unfolding g by (auto simp: g_def)
  then show ?thesis by (simp add: Suc g_def)
qed

lemma rotate_files:
  assumes "rotate_good io" "tf_files f 0 \<noteq> None" "tf_max_backups f = int k" "i \<le> k"
  shows "tf_files (tel_rotate_locked io f) i = (if i = 0 then Some [] else tf_files f (i - 1))"
proof -
  define g where "g = move_file io 0 (rename_loop io (k - 1) (if 0 < k then (tf_files f)(k := None) else tf_files f))"
  have n: "nat (tf_max_backups f - 1) = k - 1" "nat (tf_max_backups f) = k" "0 < tf_max_backups f \<longleftrightarrow> 0 < k" using assms(3) by auto
  have "tf_files (tel_rotate_locked io f) = g(0 := Some (case g 0 of None \<Rightarrow> [] | Some b \<Rightarrow> b))"
    using assms(1) unfolding tel_rotate_locked_def Let_def n g_def by (simp add: rotate_good_def)
  moreover have "g j = (if j = 0 then None else tf_files f (j - 1))" if "j \<le> k" for j
    unfolding g_def using assms(1,2) that by (rule row_shift)
  ultimately show ?thesis using assms(4) by simp
qed

lemma rotate_inv:
  assumes "rotate_good io" "log_inv k lim parts f"
  shows "log_inv k lim (shifted_parts parts) (tel_rotate_locked io f)"
proof -
  note f = assms(2) [unfolded log_inv_def]
  have b: "file_bytes (tel_rotate_locked io f) i = concat (shifted_parts parts i)" if "i \<le> k" for i
    using f that rotate_files [OF assms(1) _ _ that, of f] by (auto simp: file_bytes_def shifted_parts_def)
  have "tf_files (tel_rotate_locked io f) 0 \<noteq> None" using rotate_files [OF assms(1), of f k 0] f by simp
  moreover have "tf_fp (tel_rotate_locked io f)" "tf_max_backups (tel_rotate_locked io f) = int k" "tf_max_size (tel_rotate_locked io f) = lim" "tf_bytes (tel_rotate_locked io f) = 0"
    using f assms(1) by (simp_all add: tel_rotate_locked_def rotate_good_def Let_def)
  ultimately show ?thesis using b f by (auto simp: log_inv_def shifted_parts_def)
qed

lemma append_inv:
  assumes "log_inv k lim parts f" "length (concat (parts 0)) + length d < unat lim"
  shows "log_inv k lim (parts(0 := parts 0 @ [d])) ((append_file d f)\<lparr>tf_bytes := tf_bytes f + of_nat (length d)\<rparr>)"
  using assms by (auto simp: log_inv_def append_file_def file_bytes_def)

definition write_good :: "write_io \<Rightarrow> bool" where
  "write_good io \<longleftrightarrow> rotate_good (wi_first io) \<and> 160 \<le> wi_taken io"

lemma write_inv:
  assumes "log_inv k lim parts f" "write_good io" "length d \<le> 160" "160 < unat lim" "unat lim < 2 ^ 63"
  shows "log_inv k lim (if unat lim \<le> length (concat (parts 0)) + length d then (shifted_parts parts)(0 := [d]) else parts(0 := parts 0 @ [d])) (tel_write io d f)"
proof -
  note f = assms(1) [unfolded log_inv_def]
  let ?l = "length (concat (parts 0))"
  have len: "?l < unat lim" using f by blast
  have u: "unat (of_nat ?l + of_nat (length d) :: u64) = ?l + length d"
    using len assms(3,5) by (simp add: unat_word_ariths unat_of_nat take_bit_nat_eq_self)
  have w: "tel_write io d f = (let g = (if tf_bytes f + of_nat (length d) \<ge> lim then tel_rotate_locked (wi_first io) f else f)
      in (append_file d g)\<lparr>tf_bytes := tf_bytes g + of_nat (length d)\<rparr>)"
    using f assms(2,3) by (auto simp: tel_write_def write_good_def Let_def append_file_def tel_rotate_locked_def rotate_good_def)
  have full: "tf_bytes f + of_nat (length d) \<ge> lim \<longleftrightarrow> unat lim \<le> ?l + length d" using f u by (simp add: word_le_nat_alt)
  show ?thesis
  proof (cases "unat lim \<le> ?l + length d")
    case True
    have "log_inv k lim (shifted_parts parts) (tel_rotate_locked (wi_first io) f)" using rotate_inv assms(1,2) by (simp add: write_good_def)
    from append_inv [OF this, of d] show ?thesis using True assms(3,4) unfolding w full by (simp add: shifted_parts_def Let_def)
  next
    case False
    then show ?thesis using append_inv [OF assms(1), of d] unfolding w full by simp
  qed
qed

subsection \<open>Frames and turns in any order\<close>

datatype tel_event = Tel_frame bytes | Tel_turn write_io

text \<open>The events change the ring and the files; the third component are the frames that the ring took.\<close>

fun tel_run :: "tel_event list \<Rightarrow> tel_queue \<times> tel_file \<Rightarrow> (tel_queue \<times> tel_file \<times> bytes list) option" where
  "tel_run [] (q, f) = Some (q, f, [])"
| "tel_run (Tel_frame d # es) (q, f) = do {
     q' \<leftarrow> telemetry_log_on_frame d q;
     (q'', f', ds) \<leftarrow> tel_run es (q', f);
     Some (q'', f', (if takes_frame q d then [d] else []) @ ds) }"
| "tel_run (Tel_turn io # es) (q, f) = do {
     st \<leftarrow> tel_writer_turn io (q, f);
     tel_run es st }"

fun tel_healthy :: "tel_event \<Rightarrow> bool" where
  "tel_healthy (Tel_frame d) \<longleftrightarrow> True"
| "tel_healthy (Tel_turn io) \<longleftrightarrow> write_good io"

text \<open>The reference: the frames written so far, cut into files from the newest to the oldest. A frame goes into the newest file unless that would reach the limit; then a new one is begun.\<close>

fun log_segments :: "nat \<Rightarrow> bytes list list \<Rightarrow> bytes list \<Rightarrow> bytes list list" where
  "log_segments lim segs [] = segs"
| "log_segments lim segs (d # ds) =
     (case segs of
        [] \<Rightarrow> log_segments lim [[d]] ds
      | cur # old \<Rightarrow> log_segments lim (if lim \<le> length (concat cur) + length d then [d] # cur # old else (cur @ [d]) # old) ds)"

definition segment :: "bytes list list \<Rightarrow> nat \<Rightarrow> bytes list" where
  "segment segs i = (if i < length segs then segs ! i else [])"

lemma log_segments_snoc: "segs \<noteq> [] \<Longrightarrow> log_segments lim segs ds \<noteq> []
  \<and> log_segments lim segs (ds @ [d]) = log_segments lim (log_segments lim segs ds) [d]"
  by (induction lim segs ds rule: log_segments.induct) (auto split: list.splits)

lemma segment_concat: "concat (segment segs i) = (if i < length segs then concat (segs ! i) else [])"
  by (simp add: segment_def)

text \<open>No frame is lost between the files, and none changes its place.\<close>

lemma log_segments_concat: "segs \<noteq> [] \<Longrightarrow> concat (rev (log_segments lim segs ds)) = concat (rev segs) @ ds"
  by (induction lim segs ds rule: log_segments.induct) (auto split: list.splits)

lemma segment_step:
  assumes "log_inv k lim (segment segs) f" "write_good io" "length d \<le> 160" "160 < unat lim" "unat lim < 2 ^ 63" "segs \<noteq> []"
  shows "log_inv k lim (segment (log_segments (unat lim) segs [d])) (tel_write io d f)"
proof -
  obtain cur old where s: "segs = cur # old" using assms(6) by (cases segs) auto
  have c: "segment segs 0 = cur" by (simp add: s segment_def)
  have "(shifted_parts (segment segs))(0 := [d]) = segment ([d] # segs)"
    by (rule ext) (auto simp: shifted_parts_def segment_def nth_Cons')
  moreover have "(segment segs)(0 := cur @ [d]) = segment ((cur @ [d]) # old)" by (rule ext) (auto simp: s segment_def nth_Cons')
  ultimately show ?thesis using write_inv [OF assms(1-5)] unfolding c by (simp add: s split: if_splits)
qed

lemma writer_turn_inv:
  assumes "ring_ok q" "log_inv k lim (segment (log_segments (unat lim) [[]] written)) f" "write_good io" "160 < unat lim" "unat lim < 2 ^ 63"
  shows "\<exists>q' f' new. tel_writer_turn io (q, f) = Some (q', f') \<and> ring_ok q' \<and> ring_frames q = new @ ring_frames q'
     \<and> log_inv k lim (segment (log_segments (unat lim) [[]] (written @ new))) f'"
proof (cases "tq_count q = 0")
  case True
  then show ?thesis using assms by (auto simp: tel_writer_turn_def tel_take_def intro!: exI [of _ "[]"])
next
  case False
  obtain slot q' where t: "tel_take q = Some (Some (slot, q'))" "ring_ok q'" "ring_frames q = frame_of slot # ring_frames q'"
      "mem_read (ts_data slot) 0 (unat (ts_len slot)) = Some (frame_of slot)" "length (frame_of slot) \<le> 160"
    using tel_take_spec [OF assms(1) False] by blast
  have w: "tel_writer_turn io (q, f) = Some (q', tel_write io (frame_of slot) f)" using t(1,4) by (simp add: tel_writer_turn_def)
  note g = log_segments_snoc [of "[[]]" "unat lim" written "frame_of slot"]
  have "log_inv k lim (segment (log_segments (unat lim) [[]] (written @ [frame_of slot]))) (tel_write io (frame_of slot) f)"
    using segment_step [OF assms(2,3) t(5) assms(4,5)] g by simp
  then show ?thesis using w t(2,3) by (intro exI [of _ q'] exI [of _ "tel_write io (frame_of slot) f"] exI [of _ "[frame_of slot]"]) simp
qed

lemma tel_run_inv:
  assumes "ring_ok q" "log_inv k lim (segment (log_segments (unat lim) [[]] written)) f" "list_all tel_healthy es" "160 < unat lim" "unat lim < 2 ^ 63"
  shows "\<exists>q' f' ds new. tel_run es (q, f) = Some (q', f', ds) \<and> ring_ok q' \<and> ring_frames q @ ds = new @ ring_frames q'
     \<and> log_inv k lim (segment (log_segments (unat lim) [[]] (written @ new))) f'"
  using assms(1-3)
proof (induction es arbitrary: q f written)
  case Nil
  then show ?case by (auto intro!: exI [of _ "[]"])
next
  case (Cons e es)
  show ?case
  proof (cases e)
    case (Tel_frame d)
    obtain q1 where q1: "telemetry_log_on_frame d q = Some q1" "ring_ok q1" "ring_frames q1 = ring_frames q @ (if takes_frame q d then [d] else [])"
      using on_frame_spec [OF Cons.prems(1)] by blast
    from Cons.IH [OF q1(2) Cons.prems(2)] Cons.prems(3) obtain q' f' ds new where
      r: "tel_run es (q1, f) = Some (q', f', ds)" "ring_ok q'" "ring_frames q1 @ ds = new @ ring_frames q'"
        "log_inv k lim (segment (log_segments (unat lim) [[]] (written @ new))) f'" by auto
    have "tel_run (e # es) (q, f) = Some (q', f', (if takes_frame q d then [d] else []) @ ds)" using q1(1) r(1) by (simp add: Tel_frame)
    moreover have "ring_frames q @ (if takes_frame q d then [d] else []) @ ds = new @ ring_frames q'" using r(3) q1(3) by simp
    ultimately show ?thesis using r(2,4) by blast
  next
    case (Tel_turn io)
    obtain q1 f1 new1 where t: "tel_writer_turn io (q, f) = Some (q1, f1)" "ring_ok q1" "ring_frames q = new1 @ ring_frames q1"
        "log_inv k lim (segment (log_segments (unat lim) [[]] (written @ new1))) f1"
      using writer_turn_inv [OF Cons.prems(1,2) _ assms(4,5), of io] Cons.prems(3) Tel_turn by auto
    from Cons.IH [OF t(2,4)] Cons.prems(3) obtain q' f' ds new where
      r: "tel_run es (q1, f1) = Some (q', f', ds)" "ring_ok q'" "ring_frames q1 @ ds = new @ ring_frames q'"
        "log_inv k lim (segment (log_segments (unat lim) [[]] ((written @ new1) @ new))) f'" by auto
    have "tel_run (e # es) (q, f) = Some (q', f', ds)" using t(1) r(1) by (simp add: Tel_turn)
    moreover have "ring_frames q @ ds = (new1 @ new) @ ring_frames q'" using r(3) t(3) by simp
    ultimately show ?thesis using r(2,4) by (intro exI [of _ q'] exI [of _ f'] exI [of _ ds] exI [of _ "new1 @ new"]) simp
  qed
qed

text \<open>An empty row of files, opened with the settings.\<close>

definition empty_ring :: tel_queue where
  "empty_ring = \<lparr>tq_ring = replicate 32 \<lparr>ts_len = 0, ts_data = replicate 160 0\<rparr>, tq_head = 0, tq_tail = 0, tq_count = 0, tq_dropped = 0, tq_stopping = False\<rparr>"

lemma tel_start_inv:
  assumes "160 < unat (tc_max_size c)" "tc_max_backups c = int k"
  shows "ring_ok (tel_queue_start empty_ring)" "ring_frames (tel_queue_start empty_ring) = []"
    "log_inv k (tc_max_size c) (\<lambda>_. []) (snd (telemetry_open c True stat_ok io (\<lambda>_. None)))"
proof -
  show "ring_ok (tel_queue_start empty_ring)" "ring_frames (tel_queue_start empty_ring) = []"
    by (simp_all add: ring_ok_def tel_queue_start_def empty_ring_def ring_frames_def list_all_iff)
  have "\<not> tc_max_size c \<le> 0" using assms(1) by (auto simp: word_le_nat_alt)
  then show "log_inv k (tc_max_size c) (\<lambda>_. []) (snd (telemetry_open c True stat_ok io (\<lambda>_. None)))"
    using assms by (auto simp: log_inv_def telemetry_open_def append_file_def file_bytes_def Let_def)
qed

lemma settings_limit:
  "unat (tc_max_size (telemetry_settings items path)) < 2 ^ 32" "0 \<le> tc_max_backups (telemetry_settings items path)"
proof -
  have "unat (ucast (w::u32) :: u64) < 2 ^ 32" for w using u32_bound [of w] by (simp add: unsigned_ucast_eq take_bit_nat_eq_self)
  then show "unat (tc_max_size (telemetry_settings items path)) < 2 ^ 32" by (auto simp: telemetry_settings_def Let_def)
qed (auto simp: telemetry_settings_def Let_def)

text \<open>C17. The telemetry log keeps the newest frames. After any interleaving of frames from the line and healthy turns of the writing thread, from an empty start with the configured limits,
  the frames taken so far are those written, followed by those waiting in the ring, in order. The current file and the configured number of backups hold exactly the newest of the segments into which the
  reference cuts the written frames, the backup \<open>i\<close> the one before the backup \<open>i - 1\<close>; a new segment is begun only when the frame would bring the file to its limit, each file is below
  its limit, and together the segments are all the frames written. So a frame is given up only with a whole segment, and only when there are more segments than files.\<close>

theorem telemetry_keeps_newest:
  assumes c: "c = telemetry_settings items path" and "160 < unat (tc_max_size c)" "list_all tel_healthy es"
  shows "\<exists>q f ds written. tel_run es (tel_queue_start empty_ring, snd (telemetry_open c True stat_ok io (\<lambda>_. None))) = Some (q, f, ds)
     \<and> ds = written @ ring_frames q
     \<and> (let segs = log_segments (unat (tc_max_size c)) [[]] written
        in concat (rev segs) = written
         \<and> (\<forall>i\<le>nat (tc_max_backups c). file_bytes f i = (if i < length segs then concat (segs ! i) else []) \<and> length (file_bytes f i) < unat (tc_max_size c)))"
proof -
  have k: "tc_max_backups c = int (nat (tc_max_backups c))" using settings_limit(2) [of items path] by (simp add: c)
  have lim: "unat (tc_max_size c) < 2 ^ 63" using settings_limit(1) [of items path] by (simp add: c)
  note s = tel_start_inv [OF assms(2) k]
  have "segment (log_segments (unat (tc_max_size c)) [[]] []) = (\<lambda>_. [])" by (auto simp: segment_def)
  then have 0: "log_inv (nat (tc_max_backups c)) (tc_max_size c) (segment (log_segments (unat (tc_max_size c)) [[]] [])) (snd (telemetry_open c True stat_ok io (\<lambda>_. None)))"
    using s(3) by simp
  obtain q f ds new where r: "tel_run es (tel_queue_start empty_ring, snd (telemetry_open c True stat_ok io (\<lambda>_. None))) = Some (q, f, ds)"
      "ring_frames (tel_queue_start empty_ring) @ ds = new @ ring_frames q"
      "log_inv (nat (tc_max_backups c)) (tc_max_size c) (segment (log_segments (unat (tc_max_size c)) [[]] ([] @ new))) f"
    using tel_run_inv [OF s(1) 0 assms(3) assms(2) lim] by blast
  have "file_bytes f i = concat (segment (log_segments (unat (tc_max_size c)) [[]] new) i) \<and> length (file_bytes f i) < unat (tc_max_size c)"
    if "i \<le> nat (tc_max_backups c)" for i
    using r(3) that unfolding log_inv_def append_Nil by metis
  then have "\<forall>i\<le>nat (tc_max_backups c). file_bytes f i = (if i < length (log_segments (unat (tc_max_size c)) [[]] new) then concat (log_segments (unat (tc_max_size c)) [[]] new ! i) else [])
      \<and> length (file_bytes f i) < unat (tc_max_size c)" unfolding segment_concat by blast
  moreover have "ds = new @ ring_frames q" using r(2) s(2) by simp
  moreover have "concat (rev (log_segments (unat (tc_max_size c)) [[]] new)) = new" by (simp add: log_segments_concat)
  ultimately show ?thesis using r(1) unfolding Let_def by blast
qed

lemma telemetry_keeps_newest_witness:
  "\<exists>q f ds written. tel_run [Tel_frame [1, 2], Tel_turn \<lparr>wi_first = \<lparr>ro_unlink = True, ro_rename = \<lambda>_. True, ro_open = True\<rparr>, wi_taken = 160,
        wi_again = \<lparr>ro_unlink = True, ro_rename = \<lambda>_. True, ro_open = True\<rparr>, wi_taken_again = 160\<rparr>, Tel_frame [3]]
      (tel_queue_start empty_ring, snd (telemetry_open (telemetry_settings [] []) True True \<lparr>ro_unlink = True, ro_rename = \<lambda>_. True, ro_open = True\<rparr> (\<lambda>_. None))) = Some (q, f, ds)
     \<and> ds = written @ ring_frames q
     \<and> (let segs = log_segments (unat (tc_max_size (telemetry_settings [] []))) [[]] written
        in concat (rev segs) = written
         \<and> (\<forall>i\<le>nat (tc_max_backups (telemetry_settings [] [])). file_bytes f i = (if i < length segs then concat (segs ! i) else [])
             \<and> length (file_bytes f i) < unat (tc_max_size (telemetry_settings [] []))))"
proof -
  have "unat (tc_max_size (telemetry_settings [] [])) = 4194304" by (simp add: telemetry_settings_def config_get_uint32_def config_get_string_def Let_def)
  then show ?thesis by (intro telemetry_keeps_newest [OF refl]) (simp_all add: write_good_def rotate_good_def)
qed

subsection \<open>Snapshots\<close>

lemma snapshot_copy_success: "snapshot_copy taken i src = (SUCCESS, out) \<Longrightarrow> out = src"
proof (induction taken i src arbitrary: out rule: snapshot_copy.induct)
  case (1 taken i src)
  then show ?case
    by (subst (asm) (2) snapshot_copy.simps) (auto simp: Let_def min_def split: if_splits prod.splits)
qed

text \<open>A snapshot that reports success is an exact copy of the current file, hence of whole frames after healthy turns, whatever the target does with each block.\<close>

theorem snapshot_whole_frames:
  assumes "log_inv k lim parts f" "telemetry_log_snapshot src_ok dst_ok taken read_fails flush_ok f = (SUCCESS, out)"
  shows "out = Some (concat (parts 0))"
proof -
  have "out = tf_files f 0" "tf_files f 0 \<noteq> None" using assms(2)
    by (auto simp: telemetry_log_snapshot_def dest!: snapshot_copy_success split: if_splits option.splits prod.splits)
  then show ?thesis using assms(1) by (auto simp: log_inv_def file_bytes_def split: option.splits)
qed

lemma snapshot_whole_frames_witness:
  "log_inv 0 1000 (\<lambda>i. if i = 0 then [[1], [2]] else []) \<lparr>tf_files = [0 \<mapsto> [1, 2]], tf_fp = True, tf_bytes = 2, tf_max_size = 1000, tf_max_backups = 0\<rparr>
   \<and> telemetry_log_snapshot True True (\<lambda>_. 4096) None True \<lparr>tf_files = [0 \<mapsto> [1, 2]], tf_fp = True, tf_bytes = 2, tf_max_size = 1000, tf_max_backups = 0\<rparr>
     = (SUCCESS, Some (concat [[1], [2]]))"
proof -
  let ?f = "\<lparr>tf_files = [0 \<mapsto> [1, 2]], tf_fp = True, tf_bytes = 2, tf_max_size = 1000, tf_max_backups = 0\<rparr> :: tel_file"
  let ?p = "\<lambda>i::nat. if i = 0 then [[1], [2]] else [] :: bytes list"
  have i: "log_inv 0 1000 ?p ?f" by (simp add: log_inv_def file_bytes_def)
  have r: "telemetry_log_snapshot True True (\<lambda>_. 4096) None True ?f = (SUCCESS, Some [1, 2])" by (simp add: telemetry_log_snapshot_def snapshot_copy.simps)
  from snapshot_whole_frames [OF i r] show ?thesis using i r by simp
qed

subsection \<open>Faults\<close>

text \<open>A rotation whose rename of the current file fails starts counting at 0 although the file keeps its bytes.\<close>

theorem failed_rename_forgets_size:
  assumes "\<not> ro_rename io 0" "ro_open io" "tf_max_backups f = 0"
  shows "tf_files (tel_rotate_locked io f) 0 = Some (file_bytes f 0) \<and> tf_bytes (tel_rotate_locked io f) = 0"
  using assms by (auto simp: tel_rotate_locked_def move_file_def file_bytes_def Let_def)

end
