(* ===== verification/LogUpload.thy ===== *)
theory LogUpload
  imports VersionRequests TelemetryLog
begin

text \<open>
  The upload of the logs, from log_upload.c, with its handler in msg_handler.c: a request of the baseband unit is acknowledged, and a thread copies the text log
  and the telemetry log to a directory of its own, packs the copies with tar, sends the archive with curl, removes what it has made and reports the
  result. The programs cp, tar, curl and mkdir are those of the arguments \<open>tools\<close>.
\<close>

subsection \<open>Paths\<close>

text \<open>\<open>basename\<close> and \<open>dirname\<close> of the C library; a path of two leading slashes counts as one of a single slash.\<close>

definition strip_slashes :: "string \<Rightarrow> string" where
  "strip_slashes s = rev (dropWhile (\<lambda>c. c = CHR ''/'') (rev s))"

definition basename :: "string \<Rightarrow> string" where
  "basename path =
     (if path = [] then ''.''
      else let q = strip_slashes path in if q = [] then ''/'' else last_segment q)"

definition dirname :: "string \<Rightarrow> string" where
  "dirname path =
     (let q = strip_slashes path
      in if q = [] then (if path = [] then ''.'' else ''/'')
         else if CHR ''/'' \<notin> set q then ''.''
         else let d = strip_slashes (take (length q - length (last_segment q)) q) in if d = [] then ''/'' else d)"

text \<open>\<open>memory\<close> is whether \<open>strdup\<close> finds memory.\<close>

definition path_basename_or :: "bool \<Rightarrow> string \<Rightarrow> string \<Rightarrow> nat \<Rightarrow> string" where
  "path_basename_or memory path fallback out_size =
     (if \<not> memory then take (out_size - 1) fallback
      else let base = basename path
           in if base = [] \<or> base = ''/'' \<or> base = ''.'' \<or> base = ''..'' then take (out_size - 1) fallback else take (out_size - 1) base)"

subsection \<open>Messages\<close>

text \<open>The result codes.\<close>

abbreviation (input) LOG_UPLOAD_SUCCESS :: u8 where "LOG_UPLOAD_SUCCESS \<equiv> 0"
abbreviation (input) LOG_UPLOAD_FILE_NOT_EXIST :: u8 where "LOG_UPLOAD_FILE_NOT_EXIST \<equiv> 1"
abbreviation (input) LOG_UPLOAD_FAILED :: u8 where "LOG_UPLOAD_FAILED \<equiv> 2"
abbreviation (input) LOG_UPLOAD_ACK_ACCEPT :: u8 where "LOG_UPLOAD_ACK_ACCEPT \<equiv> 0"
abbreviation (input) LOG_UPLOAD_ACK_REJECT :: u8 where "LOG_UPLOAD_ACK_REJECT \<equiv> 1"

text \<open>The messages are built like those of the version manager, from a buffer on the stack.\<close>

definition send_log_upload_ack :: "cpri_msg_header \<Rightarrow> u8 \<Rightarrow> port \<Rightarrow> (int \<times> port) option" where
  "send_log_upload_ack req_header result p = version_reply True MSG_LOG_UPLOAD_REQ_ACK req_header (le16 0x04B5 @ le16 5 @ [result]) p"

definition send_log_upload_result :: "cpri_msg_header \<Rightarrow> u8 \<Rightarrow> string \<Rightarrow> string \<Rightarrow> port \<Rightarrow> (int \<times> port) option" where
  "send_log_upload_result req_header result store_path file_name p =
     version_reply True MSG_LOG_UPLOAD_RESULT_IND req_header
       (le16 0x04BB @ le16 221 @ [result] @ char_field 200 store_path @ char_field 16 file_name) p"

subsection \<open>The programs\<close>

definition upload_argv :: "string \<Rightarrow> string \<Rightarrow> bool \<Rightarrow> string list" where
  "upload_argv local_file full_url allow_resume =
     [''curl'', ''-S'', ''--ftp-create-dirs''] @ (if allow_resume then [''-C'', ''-''] else [])
     @ [''-T'', local_file, ''--user'', ''anonymous:'', ''--connect-timeout'', ''30'', ''--max-time'', ''7200'', ''--speed-limit'', ''512'',
        ''--speed-time'', ''120'', ''--retry'', ''3'', ''--retry-delay'', ''5'', full_url]"

definition ftp_upload_file_with_curl :: "'c tools \<Rightarrow> string \<Rightarrow> string \<Rightarrow> u16 \<Rightarrow> string \<Rightarrow> string \<Rightarrow> bool \<Rightarrow> disk \<Rightarrow> int \<times> disk" where
  "ftp_upload_file_with_curl t local_file ftp_server ftp_port remote_path file_name allow_resume d =
     (case run_captured t (upload_argv local_file (ftp_url ftp_server ftp_port remote_path file_name) allow_resume) 4096 d of (status, out, d) \<Rightarrow>
        if status < 0 then (ERROR_GENERAL, d)
        else if status \<noteq> 0 then (ERROR_GENERAL, d)
        else (SUCCESS, d))"

definition copy_file_quiet :: "'c tools \<Rightarrow> string \<Rightarrow> string \<Rightarrow> disk \<Rightarrow> int \<times> disk" where
  "copy_file_quiet t src dst d = (case run_captured t [''cp'', src, dst] 256 d of (status, out, d) \<Rightarrow> (status, d))"

definition run_tar_package :: "'c tools \<Rightarrow> string \<Rightarrow> string \<Rightarrow> string list \<Rightarrow> disk \<Rightarrow> int \<times> disk" where
  "run_tar_package t pkg_path dir names d =
     (case run_captured t ([''tar'', ''-czf'', pkg_path, ''-C'', dir] @ names) 256 d of (status, out, d) \<Rightarrow>
        (if status \<noteq> 0 then ERROR_GENERAL else SUCCESS, d))"

subsection \<open>The thread\<close>

record log_upload_task =
  ut_store_path :: string
  ut_log_file_path :: string
  ut_tel_log_path :: string
  ut_ftp_server :: string
  ut_ftp_port :: u16
  ut_req_header :: cpri_msg_header

text \<open>The calls of a snapshot of the telemetry log, as \<open>telemetry_log_snapshot\<close> has them.\<close>

record snap_io =
  si_src :: bool
  si_dst :: bool
  si_taken :: "nat \<Rightarrow> nat"
  si_read_fails :: "nat option"
  si_flush :: bool

text \<open>The names in the archive.\<close>

definition member_names :: "bool \<Rightarrow> log_upload_task \<Rightarrow> string \<times> string" where
  "member_names memory task =
     (let text_name = path_basename_or memory (ut_log_file_path task) ''antenna_mgmt.log'' 64;
          tel_name = path_basename_or memory (ut_tel_log_path task) ''telemetry.bin'' 64
      in (text_name, if text_name = tel_name then take 63 (text_name @ ''.tel'') else tel_name))"

text \<open>The telemetry log is copied when its current file, which its module keeps, is there and not empty. The copy reaches the disk as far as it was made.\<close>

definition telemetry_part :: "snap_io \<Rightarrow> tel_file \<Rightarrow> string \<Rightarrow> disk \<Rightarrow> bool \<times> disk" where
  "telemetry_part io f tel_snap d =
     (case tf_files f 0 of
        None \<Rightarrow> (False, d)
      | Some b \<Rightarrow>
          if b = [] then (False, d)
          else case telemetry_log_snapshot (si_src io) (si_dst io) (si_taken io) (si_read_fails io) (si_flush io) f of (ret, out) \<Rightarrow>
            (ret = SUCCESS, case out of None \<Rightarrow> d | Some bs \<Rightarrow> disk_step (fs_put tel_snap (map (\<lambda>b. char_of (unat b)) bs)) d))"

definition package_name :: "local_time option \<Rightarrow> string" where
  "package_name tm_info =
     (let mon = (case tm_info of Some (y, mo, da, h, mi, s) \<Rightarrow> mo | None \<Rightarrow> 1);
          mday = (case tm_info of Some (y, mo, da, h, mi, s) \<Rightarrow> da | None \<Rightarrow> 1);
          mon = (if mon < 1 \<or> mon > 12 then 1 else mon);
          mday = (if mday < 1 \<or> mday > 31 then 1 else mday)
      in ''PAAU'' @ pad_int 2 mon @ pad_int 2 mday @ ''.tgz'')"

text \<open>A path in the directory of the module, in a buffer of 400 bytes.\<close>

definition tmp_path :: "string \<Rightarrow> string \<Rightarrow> string" where
  "tmp_path tmp_dir name = take 399 (tmp_dir @ ''/'' @ name)"

text \<open>What the thread does up to its label \<open>send_result\<close>: the result, the name of the archive and the files it has made, in the order in which they are removed.\<close>

definition make_and_send :: "'c tools \<Rightarrow> local_time option \<Rightarrow> snap_io \<Rightarrow> string \<Rightarrow> log_upload_task \<Rightarrow> tel_file \<Rightarrow> disk \<Rightarrow> u8 \<times> string \<times> string list \<times> disk" where
  "make_and_send t tm_info io tmp_dir task f d =
     (if fs_stat t (dk_fs d) (ut_log_file_path task) = None then (LOG_UPLOAD_FILE_NOT_EXIST, [], [], d)
      else case member_names (tl_memory t) task of (text_name, tel_name) \<Rightarrow>
        let text_snap = tmp_path tmp_dir text_name
        in case copy_file_quiet t (ut_log_file_path task) text_snap d of (status, d) \<Rightarrow>
          if status \<noteq> 0 then (LOG_UPLOAD_FAILED, [], [], d)
          else let tel_snap = tmp_path tmp_dir tel_name
               in case telemetry_part io f tel_snap d of (tel_created, d) \<Rightarrow>
                 let pkg_path = tmp_path tmp_dir ''log_upload_pkg.tgz''; made = (if tel_created then [tel_snap] else []) @ [text_snap]
                 in case run_tar_package t pkg_path tmp_dir (text_name # (if tel_created then [tel_name] else [])) d of (ret, d) \<Rightarrow>
                   if ret \<noteq> SUCCESS then (LOG_UPLOAD_FAILED, [], made, d)
                   else let name = package_name tm_info; file_name = take 15 name
                        in if length name \<ge> 16 then (LOG_UPLOAD_FAILED, file_name, pkg_path # made, d)
                           else case ftp_upload_file_with_curl t pkg_path (ut_ftp_server task) (ut_ftp_port task) (ut_store_path task) file_name False d of (ret, d) \<Rightarrow>
                             (if ret \<noteq> SUCCESS then LOG_UPLOAD_FAILED else LOG_UPLOAD_SUCCESS, file_name, pkg_path # made, d))"

definition unlink_all :: "string list \<Rightarrow> disk \<Rightarrow> disk" where
  "unlink_all paths d = foldl (\<lambda>d path. snd (sys_unlink path d)) d paths"

text \<open>The state of the module: \<open>g_upload_task\<close>, \<open>g_upload_in_progress\<close>, \<open>g_upload_stopping\<close> and \<open>g_upload_tmp_dir\<close>.\<close>

record log_upload =
  up_task :: log_upload_task
  up_in_progress :: bool
  up_stopping :: bool
  up_tmp_dir :: string

definition log_upload_thread_func :: "'c tools \<Rightarrow> local_time option \<Rightarrow> snap_io \<Rightarrow> tel_file \<Rightarrow> log_upload \<times> disk \<times> port \<Rightarrow> (log_upload \<times> disk \<times> port) option" where
  "log_upload_thread_func t tm_info io f st =
     (case st of (u, d, p) \<Rightarrow>
        case make_and_send t tm_info io (up_tmp_dir u) (up_task u) f d of (result, file_name, made, d) \<Rightarrow> do {
          let d = unlink_all made d;
          p \<leftarrow> (if \<not> up_stopping u
               then map_option snd (send_log_upload_result (ut_req_header (up_task u)) result (ut_store_path (up_task u)) file_name p)
               else Some p);
          Some (u\<lparr>up_in_progress := False\<rparr>, d, p) })"

subsection \<open>The module\<close>

definition log_upload_init :: "'c tools \<Rightarrow> (string \<times> string) list \<Rightarrow> log_upload \<times> disk \<Rightarrow> int \<times> log_upload \<times> disk" where
  "log_upload_init t items st =
     (case st of (u, d) \<Rightarrow>
        let u = u\<lparr>up_in_progress := False\<rparr>;
            log_file = the (config_get_string items ''LOG_FILE'' (Some ''./logs/antenna_mgmt.log''))
        in if tl_memory t
           then let dir = take 255 (dirname log_file @ ''/.upload_tmp'')
                in case run_captured t [''mkdir'', ''-p'', dir] 256 d of (status, out, d) \<Rightarrow> (SUCCESS, u\<lparr>up_tmp_dir := dir\<rparr>, d)
           else (SUCCESS, u\<lparr>up_tmp_dir := ''.upload_tmp''\<rparr>, d))"

text \<open>A C string that starts within a block: without a NUL behind its start it is read beyond the block.\<close>

definition read_cstring :: "bytes \<Rightarrow> nat \<Rightarrow> string option" where
  "read_cstring buf i = (if 0 \<in> set (drop i buf) then Some (map (\<lambda>b. char_of (unat b)) (takeWhile (\<lambda>b. b \<noteq> 0) (drop i buf))) else None)"

definition upload_task_of :: "(string \<times> string) list \<Rightarrow> string \<Rightarrow> string \<Rightarrow> cpri_msg_header \<Rightarrow> string \<Rightarrow> log_upload_task" where
  "upload_task_of items bbu_ip tel_path h store_path =
     \<lparr>ut_store_path = take 199 store_path,
      ut_log_file_path = take 255 (the (config_get_string items ''LOG_FILE'' (Some ''./logs/antenna_mgmt.log''))),
      ut_tel_log_path = take 255 tel_path,
      ut_ftp_server = take 63 (the (config_get_string items ''FTP_SERVER'' (Some bbu_ip))),
      ut_ftp_port = of_int (config_get_int items ''FTP_PORT'' 21),
      ut_req_header = h\<rparr>"

definition log_upload_handle_request :: "(string \<times> string) list \<Rightarrow> string \<Rightarrow> string \<Rightarrow> bool \<Rightarrow> pool \<Rightarrow> cpri_message \<Rightarrow> log_upload \<times> port
    \<Rightarrow> (int \<times> log_upload \<times> port) option" where
  "log_upload_handle_request items bbu_ip tel_path thread_ok pool msg st =
     (case st of (u, p) \<Rightarrow>
        let h = cm_header msg
        in if cm_payload msg = None then Some (ERROR_INVALID_PARAM, st)
           else if up_in_progress u
           then do { (ret, p) \<leftarrow> send_log_upload_ack h LOG_UPLOAD_ACK_REJECT p; Some (ERROR_GENERAL, u, p) }
           else do {
             let u = u\<lparr>up_in_progress := True\<rparr>;
             if cm_payload_len msg < 204
             then do { (ret, p) \<leftarrow> send_log_upload_ack h LOG_UPLOAD_ACK_REJECT p; Some (ERROR_INVALID_PARAM, u\<lparr>up_in_progress := False\<rparr>, p) }
             else do {
               store_path \<leftarrow> read_cstring (message_bytes pool msg) 4;
               if \<not> shell_safe_relpath store_path
               then do { (ret, p) \<leftarrow> send_log_upload_ack h LOG_UPLOAD_ACK_REJECT p; Some (ERROR_INVALID_PARAM, u\<lparr>up_in_progress := False\<rparr>, p) }
               else do {
                 let u = u\<lparr>up_task := upload_task_of items bbu_ip tel_path h store_path\<rparr>;
                 (ret, p) \<leftarrow> send_log_upload_ack h LOG_UPLOAD_ACK_ACCEPT p;
                 if ret \<noteq> SUCCESS then Some (ret, u\<lparr>up_in_progress := False\<rparr>, p)
                 else if \<not> thread_ok
                 then do {
                   (ret, p) \<leftarrow> send_log_upload_result h LOG_UPLOAD_FAILED (ut_store_path (up_task u)) [] p;
                   Some (ERROR_GENERAL, u\<lparr>up_in_progress := False\<rparr>, p) }
                 else Some (SUCCESS, u, p) } } })"

definition handle_log_upload_req :: "(string \<times> string) list \<Rightarrow> string \<Rightarrow> string \<Rightarrow> bool \<Rightarrow> pool \<Rightarrow> cpri_message \<Rightarrow> log_upload \<times> port
    \<Rightarrow> (int \<times> log_upload \<times> port) option" where
  "handle_log_upload_req = log_upload_handle_request"

definition log_upload_destroy :: "log_upload \<Rightarrow> log_upload" where
  "log_upload_destroy u = u\<lparr>up_stopping := True\<rparr>"

subsection \<open>Answers\<close>

definition upload_ack_frame :: "cpri_msg_header \<Rightarrow> u8 \<Rightarrow> bytes" where
  "upload_ack_frame h result = reply_frame MSG_LOG_UPLOAD_REQ_ACK h (le16 0x04B5 @ le16 5 @ [result])"

definition upload_result_frame :: "cpri_msg_header \<Rightarrow> u8 \<Rightarrow> string \<Rightarrow> string \<Rightarrow> bytes" where
  "upload_result_frame h result store_path file_name =
     reply_frame MSG_LOG_UPLOAD_RESULT_IND h (le16 0x04BB @ le16 221 @ [result] @ char_field 200 store_path @ char_field 16 file_name)"

lemma upload_sends:
  "send_log_upload_ack h r p = Some (SUCCESS, snd (tcp_client_send p (upload_ack_frame h r)))"
  "send_log_upload_result h r s n p = Some (SUCCESS, snd (tcp_client_send p (upload_result_frame h r s n)))"
  by (simp_all add: send_log_upload_ack_def send_log_upload_result_def version_reply_frame upload_ack_frame_def upload_result_frame_def)

lemma upload_request_accepted:
  assumes "cm_payload msg \<noteq> None" "204 \<le> unat (cm_payload_len msg)" "read_cstring (message_bytes pool msg) 4 = Some store" "shell_safe_relpath store"
    "\<not> up_in_progress u"
  shows "log_upload_handle_request items ip tel True pool msg (u, p) = Some (SUCCESS,
     u\<lparr>up_in_progress := True, up_task := upload_task_of items ip tel (cm_header msg) store\<rparr>,
     snd (tcp_client_send p (upload_ack_frame (cm_header msg) LOG_UPLOAD_ACK_ACCEPT)))"
  using assms by (simp add: log_upload_handle_request_def upload_sends Let_def word_less_nat_alt)

subsection \<open>One upload at a time, in its own directory\<close>

text \<open>cp changes nothing but its target, tar nothing but the archive it writes, and an upload by curl nothing.\<close>

definition upload_confined :: "'c tools \<Rightarrow> bool" where
  "upload_confined t \<longleftrightarrow> (\<forall>src dst d. untouched (below dst) d (snd (snd (tl_run t [''cp'', src, dst] d))))
     \<and> (\<forall>pkg dir names d. untouched (below pkg) d (snd (snd (tl_run t ([''tar'', ''-czf'', pkg, ''-C'', dir] @ names) d))))
     \<and> (\<forall>file url resume d. untouched (\<lambda>_. False) d (snd (snd (tl_run t (upload_argv file url resume) d))))"

lemma below_inside: "below (dir @ ''/'' @ n) p \<Longrightarrow> below dir p"
  by (erule below_cases) (auto simp: below_def)

lemma inside_take:
  assumes "length dir \<le> 255"
  obtains n' where "tmp_path dir n = dir @ ''/'' @ n'"
proof -
  have "tmp_path dir n = dir @ ''/'' @ take (399 - length dir - 1) n" using assms by (simp add: tmp_path_def take_Cons' del: append_assoc)
  then show thesis by (rule that)
qed

lemma untouched_inside:
  assumes "length dir \<le> 255" "untouched (below (tmp_path dir n)) d d'"
  shows "untouched (below dir) d d'"
  by (rule inside_take [OF assms(1), of n]) (use assms(2) below_inside in \<open>auto elim!: untouched_mono\<close>)

lemma run_untouched: "run_captured t argv n d = (status, out, d') \<Longrightarrow> untouched P d (snd (snd (tl_run t argv d))) \<Longrightarrow> untouched P d d'"
  by (auto simp: run_captured_def split: prod.splits)

lemma telemetry_part_untouched: "telemetry_part io f path d = (b, d') \<Longrightarrow> untouched (below path) d d'"
  by (auto simp: telemetry_part_def below_def intro: untouched_mono [OF put_untouched] split: option.splits if_splits prod.splits)

lemma copy_untouched: "copy_file_quiet t src dst d = (status, d') \<Longrightarrow> upload_confined t \<Longrightarrow> untouched (below dst) d d'"
  by (auto simp: copy_file_quiet_def upload_confined_def split: prod.splits intro: run_untouched)

lemma tar_untouched: "run_tar_package t pkg dir names d = (ret, d') \<Longrightarrow> upload_confined t \<Longrightarrow> untouched (below pkg) d d'"
  unfolding run_tar_package_def upload_confined_def by (auto split: prod.splits intro: run_untouched simp del: append_Cons append.simps)

lemma upload_untouched: "ftp_upload_file_with_curl t file server prt path name r d = (ret, d') \<Longrightarrow> upload_confined t \<Longrightarrow> untouched P d d'"
  unfolding ftp_upload_file_with_curl_def upload_confined_def
  by (auto split: prod.splits if_splits intro: untouched_mono [OF run_untouched, where P = "\<lambda>_. False"])

lemma unlink_all_untouched: "list_all P paths \<Longrightarrow> untouched P d (unlink_all paths d)"
proof (induction paths arbitrary: d)
  case (Cons path paths)
  have "untouched P d (snd (sys_unlink path d))" using Cons.prems by (intro untouched_mono [OF unlink_untouched]) auto
  moreover have "untouched P (snd (sys_unlink path d)) (unlink_all paths (snd (sys_unlink path d)))" using Cons by simp
  ultimately show ?case using untouched_trans by (simp add: unlink_all_def)
qed (simp add: unlink_all_def)

lemma make_and_send_untouched:
  assumes "make_and_send t tm io dir task f d = (result, name, made, d')" "upload_confined t" "length dir \<le> 255"
  shows "untouched (below dir) d d' \<and> list_all (below dir) made"
proof -
  have b: "below dir (tmp_path dir n)" for n by (rule inside_take [OF assms(3), of n]) (simp add: below_def)
  have c: "untouched (below dir) x y" if "copy_file_quiet t src (tmp_path dir n) x = (s, y)" for src n x s y
    using untouched_inside [OF assms(3) copy_untouched [OF that assms(2)]] .
  have te: "untouched (below dir) x y" if "telemetry_part io f (tmp_path dir n) x = (s, y)" for n x s y
    using untouched_inside [OF assms(3) telemetry_part_untouched [OF that]] .
  have ta: "untouched (below dir) x y" if "run_tar_package t (tmp_path dir n) dir ns x = (s, y)" for n ns x s y
    using untouched_inside [OF assms(3) tar_untouched [OF that assms(2)]] .
  have up: "untouched (below dir) x y" if "ftp_upload_file_with_curl t local_file server prt path n r x = (s, y)" for local_file server prt path n r x s y
    using upload_untouched [OF that assms(2)] .
  note tr = untouched_trans [of "below dir"]
  show ?thesis using assms(1) unfolding make_and_send_def Let_def
    by (auto simp: b split: prod.splits if_splits dest!: c te ta up intro: tr)
qed

text \<open>Requests and threads in any order; the number counts the threads that run. A thread takes effect in one step, at its end.\<close>

inductive upload_step :: "'c tools \<Rightarrow> (string \<times> string) list \<Rightarrow> string \<Rightarrow> string \<Rightarrow> log_upload \<times> disk \<times> port \<times> nat \<Rightarrow> log_upload \<times> disk \<times> port \<times> nat \<Rightarrow> bool"
    for t :: "'c tools" and items ip tel where
  upload_request: "handle_log_upload_req items ip tel thread_ok pool msg (u, p) = Some (ret, u', p')
    \<Longrightarrow> upload_step t items ip tel (u, d, p, n) (u', d, p', if ret = SUCCESS then n + 1 else n)"
| upload_finished: "0 < n \<Longrightarrow> log_upload_thread_func t tm io f (u, d, p) = Some (u', d', p') \<Longrightarrow> upload_step t items ip tel (u, d, p, n) (u', d', p', n - 1)"
| upload_stopped: "upload_step t items ip tel (u, d, p, n) (log_upload_destroy u, d, p, n)"

lemma upload_gate:
  assumes "handle_log_upload_req items ip tel thread_ok pool msg (u, p) = Some (ret, u', p')"
  shows "up_tmp_dir u' = up_tmp_dir u \<and> (if up_in_progress u then u' = u \<and> ret \<noteq> SUCCESS else ret = SUCCESS \<longleftrightarrow> up_in_progress u')"
  using assms by (auto simp: handle_log_upload_req_def log_upload_handle_request_def upload_sends Let_def bind_eq_Some_conv split: if_splits)

lemma uploads_inv:
  assumes "(upload_step t items ip tel)\<^sup>*\<^sup>* (u, d, p, 0) s" "\<not> up_in_progress u" "upload_confined t" "length (up_tmp_dir u) \<le> 255"
  shows "case s of (u', d', p', n) \<Rightarrow> n = of_bool (up_in_progress u') \<and> up_tmp_dir u' = up_tmp_dir u \<and> untouched (below (up_tmp_dir u)) d d'"
  using assms(1)
proof (induction rule: rtranclp_induct)
  case base
  then show ?case using assms(2) by simp
next
  case (step s s')
  from step(2,3) show ?case
  proof cases
    case (upload_request thread_ok pool msg u1 p1 ret u' p' d1 n)
    then show ?thesis using upload_gate [OF upload_request(3)] step(3) by (auto split: if_splits)
  next
    case (upload_finished n tm io f u1 d1 p1 u' d' p')
    obtain result name made d2 where m: "make_and_send t tm io (up_tmp_dir u1) (up_task u1) f d1 = (result, name, made, d2)" by (metis prod_cases4)
    have e: "u' = u1\<lparr>up_in_progress := False\<rparr>" "d' = unlink_all made d2"
      using upload_finished(4) m by (auto simp: log_upload_thread_func_def Let_def upload_sends split: if_splits)
    have s1: "up_tmp_dir u1 = up_tmp_dir u" "untouched (below (up_tmp_dir u)) d d1" "n = of_bool (up_in_progress u1)"
      using step(3) upload_finished(1) by auto
    have "untouched (below (up_tmp_dir u)) d1 d2" "list_all (below (up_tmp_dir u)) made"
      using make_and_send_untouched [OF m assms(3)] assms(4) s1(1) by auto
    then have "untouched (below (up_tmp_dir u)) d d'" using s1(2) unlink_all_untouched untouched_trans unfolding e(2) by metis
    then show ?thesis using upload_finished(2,3) e(1) s1(1,3) by auto
  next
    case (upload_stopped u1 d1 p1 n)
    then show ?thesis using step(3) by (auto simp: log_upload_destroy_def)
  qed
qed

text \<open>C19. However requests, the ends of uploads and the end of the program follow one another, at most one upload runs, and nothing outside the module's own directory
  is changed: no log, and no file of another part.\<close>

theorem one_upload_at_a_time:
  assumes "(upload_step t items ip tel)\<^sup>*\<^sup>* (u, d, p, 0) (u', d', p', n)" "\<not> up_in_progress u" "upload_confined t" "length (up_tmp_dir u) \<le> 255"
  shows "n \<le> 1 \<and> (n = 1 \<longleftrightarrow> up_in_progress u') \<and> untouched (below (up_tmp_dir u)) d d'"
  using uploads_inv [OF assms] by simp

subsection \<open>An upload delivers the logs\<close>

text \<open>Programs that work: cp copies, tar writes the archive \<open>pack\<close> of the files it is given, and curl succeeds exactly when the server accepts the file under the
  address.\<close>

definition upload_tools :: "'c tools \<Rightarrow> ((string \<times> string) list \<Rightarrow> string) \<Rightarrow> (string \<Rightarrow> string \<Rightarrow> bool) \<Rightarrow> bool" where
  "upload_tools t pack accepts \<longleftrightarrow>
     (\<forall>src dst d c. fs_read (dk_fs d) src = Some c \<longrightarrow> (\<exists>out. tl_run t [''cp'', src, dst] d = (0, out, disk_step (fs_put dst c) d)))
   \<and> (\<forall>pkg dir names cs d. list_all2 (\<lambda>n c. fs_read (dk_fs d) (dir @ ''/'' @ n) = Some c) names cs
        \<longrightarrow> (\<exists>out. tl_run t ([''tar'', ''-czf'', pkg, ''-C'', dir] @ names) d = (0, out, disk_step (fs_put pkg (pack (zip names cs))) d)))
   \<and> (\<forall>file url d c. fs_read (dk_fs d) file = Some c \<longrightarrow> (\<exists>out. tl_run t (upload_argv file url False) d = (if accepts url c then 0 else 256, out, d)))"

definition snap_good :: "snap_io \<Rightarrow> bool" where
  "snap_good io \<longleftrightarrow> si_src io \<and> si_dst io \<and> (\<forall>i. 4096 \<le> si_taken io i) \<and> si_read_fails io = None \<and> si_flush io"

lemma snapshot_copy_good: "(\<forall>i. 4096 \<le> taken i) \<Longrightarrow> snapshot_copy taken i src = (SUCCESS, src)"
proof (induction taken i src rule: snapshot_copy.induct)
  case (1 taken i src)
  have "\<not> taken i < length (take 4096 src)" using 1(2) by (metis length_take linorder_not_less min.coboundedI2 order_less_le_trans)
  then show ?case using 1 by (subst snapshot_copy.simps) (auto simp: Let_def)
qed

lemma package_name_length: "length (package_name tm) = 12"
proof -
  have d: "length (pad_int 2 i) = 2" if "0 < i" "i < 100" for i
  proof -
    have "length (dec (nat i)) \<le> 2" "0 < length (dec (nat i))"
      using that by (auto simp: dec.simps [of "nat i"] dec.simps [of "nat i div 10"])
    then show ?thesis using that by (simp add: pad_int_def Let_def)
  qed
  show ?thesis unfolding package_name_def by (cases tm) (auto simp: Let_def d split: prod.splits)
qed

lemma unlink_read: "dk_script d = [] \<Longrightarrow> fs_read (dk_fs (snd (sys_unlink path d))) q = (if q = path then None else fs_read (dk_fs d) q) \<and> dk_script (snd (sys_unlink path d)) = []"
proof -
  assume s: "dk_script d = []"
  have "fs_read (dk_fs d) path = None" if "map_of (fs_files (dk_fs d)) path = None" using that by (simp add: fs_read_def)
  then show ?thesis using s by (cases "map_of (fs_files (dk_fs d)) path") (auto simp: sys_unlink_def disk_call_def)
qed

lemma unlink_all_read:
  "dk_script d = [] \<Longrightarrow> fs_read (dk_fs (unlink_all paths d)) q = (if q \<in> set paths then None else fs_read (dk_fs d) q)"
proof (induction paths arbitrary: d)
  case (Cons path paths)
  have "unlink_all (path # paths) d = unlink_all paths (snd (sys_unlink path d))" by (simp add: unlink_all_def)
  then show ?case using Cons.IH [of "snd (sys_unlink path d)"] unlink_read [OF Cons.prems, of path] by auto
qed (simp add: unlink_all_def)

lemma tmp_path_name: "length dir \<le> 255 \<Longrightarrow> length n \<le> 63 \<Longrightarrow> tmp_path dir n = dir @ ''/'' @ n"
  by (simp add: tmp_path_def)

lemma basename_or_short: "length (path_basename_or m path fallback n) \<le> n - 1"
  by (simp add: path_basename_or_def Let_def)

lemma member_names_short: "member_names m task = (a, b) \<Longrightarrow> length a \<le> 63 \<and> length b \<le> 63"
proof -
  assume "member_names m task = (a, b)"
  then have "a = path_basename_or m (ut_log_file_path task) ''antenna_mgmt.log'' 64"
      "b = take 63 (a @ ''.tel'') \<or> b = path_basename_or m (ut_tel_log_path task) ''telemetry.bin'' 64"
    unfolding member_names_def Let_def by (auto split: if_splits)
  then show ?thesis using basename_or_short [of m _ _ 64] by (metis diff_Suc_1 length_take min.cobounded2 numeral_eq_Suc pred_numeral_simps(2) semiring_norm(26,27,28))
qed

lemma make_and_send_delivers:
  fixes tm :: "local_time option"
  assumes t: "upload_tools t pack accepts" and io: "snap_good io" and dir: "length dir \<le> 255" and d: "dk_script d = []"
    and log: "fs_read (dk_fs d) (ut_log_file_path task) = Some log_text" and tel: "tf_fp f" "tf_files f 0 = Some frames" "frames \<noteq> []"
    and names: "member_names (tl_memory t) task = (text_name, tel_name)" "distinct [text_name, tel_name, ''log_upload_pkg.tgz'']"
  defines "copy \<equiv> map (\<lambda>b. char_of (unat b)) frames"
  defines "url \<equiv> ftp_url (ut_ftp_server task) (ut_ftp_port task) (ut_store_path task) (package_name tm)"
  shows "\<exists>d'. make_and_send t tm io dir task f d = (if accepts url (pack [(text_name, log_text), (tel_name, copy)]) then LOG_UPLOAD_SUCCESS else LOG_UPLOAD_FAILED,
      package_name tm, map (\<lambda>n. dir @ ''/'' @ n) [''log_upload_pkg.tgz'', tel_name, text_name], d')
    \<and> dk_script d' = [] \<and> (\<forall>q. q \<notin> set (map (\<lambda>n. dir @ ''/'' @ n) [''log_upload_pkg.tgz'', tel_name, text_name]) \<longrightarrow> fs_read (dk_fs d') q = fs_read (dk_fs d) q)"
proof -
  have p: "tmp_path dir text_name = dir @ ''/'' @ text_name" "tmp_path dir tel_name = dir @ ''/'' @ tel_name"
      "tmp_path dir ''log_upload_pkg.tgz'' = dir @ ''/'' @ ''log_upload_pkg.tgz''"
    using member_names_short [OF names(1)] dir by (simp_all only: tmp_path_name) (simp add: tmp_path_name)
  let ?a = "dir @ ''/'' @ text_name" and ?b = "dir @ ''/'' @ tel_name" and ?p = "dir @ ''/'' @ ''log_upload_pkg.tgz''"
  define d1 where "d1 = disk_step (fs_put ?a log_text) d"
  define d2 where "d2 = disk_step (fs_put ?b copy) d1"
  define d3 where "d3 = disk_step (fs_put ?p (pack [(text_name, log_text), (tel_name, copy)])) d2"
  have st: "fs_stat t (dk_fs d) (ut_log_file_path task) \<noteq> None" using log by (simp add: fs_stat_def)
  have c: "copy_file_quiet t (ut_log_file_path task) ?a d = (0, d1)"
  proof -
    obtain out where "tl_run t [''cp'', ut_log_file_path task, ?a] d = (0, out, d1)" 
      using t [unfolded upload_tools_def, THEN conjunct1, rule_format, OF log] unfolding d1_def by blast
    then show ?thesis by (simp add: copy_file_quiet_def run_captured_def)
  qed
  have te: "telemetry_part io f ?b d1 = (True, d2)"
    using io tel by (simp add: telemetry_part_def telemetry_log_snapshot_def snap_good_def snapshot_copy_good d2_def copy_def)
  have ta: "run_tar_package t ?p dir [text_name, tel_name] d2 = (SUCCESS, d3)"
  proof -
    have "list_all2 (\<lambda>n c. fs_read (dk_fs d2) (dir @ ''/'' @ n) = Some c) [text_name, tel_name] [log_text, copy]"
      using names(2) by (auto simp: d2_def d1_def)
    then obtain out where "tl_run t ([''tar'', ''-czf'', ?p, ''-C'', dir] @ [text_name, tel_name]) d2 = (0, out, disk_step (fs_put ?p (pack (zip [text_name, tel_name] [log_text, copy]))) d2)"
      using t [unfolded upload_tools_def, THEN conjunct2, THEN conjunct1, rule_format] by blast
    then show ?thesis by (simp add: run_tar_package_def run_captured_def d3_def)
  qed
  have up: "ftp_upload_file_with_curl t ?p (ut_ftp_server task) (ut_ftp_port task) (ut_store_path task) (package_name tm) False d3
      = (if accepts url (pack [(text_name, log_text), (tel_name, copy)]) then SUCCESS else ERROR_GENERAL, d3)"
  proof -
    have "fs_read (dk_fs d3) ?p = Some (pack [(text_name, log_text), (tel_name, copy)])" by (simp add: d3_def)
    then obtain out where "tl_run t (upload_argv ?p url False) d3 = (if accepts url (pack [(text_name, log_text), (tel_name, copy)]) then 0 else 256, out, d3)"
      using t [unfolded upload_tools_def, THEN conjunct2, THEN conjunct2, rule_format] by blast
    then show ?thesis by (simp add: ftp_upload_file_with_curl_def run_captured_def url_def)
  qed
  have "make_and_send t tm io dir task f d = (if accepts url (pack [(text_name, log_text), (tel_name, copy)]) then LOG_UPLOAD_SUCCESS else LOG_UPLOAD_FAILED,
      package_name tm, [?p, ?b, ?a], d3)"
    using st c te ta up unfolding make_and_send_def names(1) Let_def prod.case p by (simp add: package_name_length)
  moreover have "dk_script d3 = []" using d by (simp add: d3_def d2_def d1_def)
  moreover have "fs_read (dk_fs d3) q = fs_read (dk_fs d) q" if "q \<notin> {?p, ?b, ?a}" for q using that by (simp add: d3_def d2_def d1_def)
  ultimately show ?thesis by (intro exI [of _ d3]) simp
qed

lemma upload_thread_reports:
  assumes "upload_tools t pack accepts" "snap_good io" "length (up_tmp_dir u) \<le> 255" "dk_script d = []" "\<not> up_stopping u"
    "fs_read (dk_fs d) (ut_log_file_path (up_task u)) = Some log_text" "tf_fp f" "tf_files f 0 = Some frames" "frames \<noteq> []"
    "member_names (tl_memory t) (up_task u) = (text_name, tel_name)" "distinct [text_name, tel_name, ''log_upload_pkg.tgz'']"
  shows "\<exists>d'. log_upload_thread_func t tm io f (u, d, p) = Some (u\<lparr>up_in_progress := False\<rparr>, d',
      snd (tcp_client_send p (upload_result_frame (ut_req_header (up_task u))
        (if accepts (ftp_url (ut_ftp_server (up_task u)) (ut_ftp_port (up_task u)) (ut_store_path (up_task u)) (package_name tm))
              (pack [(text_name, log_text), (tel_name, map (\<lambda>b. char_of (unat b)) frames)])
         then LOG_UPLOAD_SUCCESS else LOG_UPLOAD_FAILED) (ut_store_path (up_task u)) (package_name tm))))
    \<and> length (package_name tm) = 12
    \<and> (\<forall>q. fs_read (dk_fs d') q = (if q \<in> set (map (\<lambda>n. up_tmp_dir u @ ''/'' @ n) [''log_upload_pkg.tgz'', tel_name, text_name]) then None else fs_read (dk_fs d) q))"
proof -
  let ?made = "map (\<lambda>n. up_tmp_dir u @ ''/'' @ n) [''log_upload_pkg.tgz'', tel_name, text_name]"
  obtain d1 result where m: "make_and_send t tm io (up_tmp_dir u) (up_task u) f d = (result, package_name tm, ?made, d1)" "dk_script d1 = []"
      "\<And>q. q \<notin> set ?made \<Longrightarrow> fs_read (dk_fs d1) q = fs_read (dk_fs d) q"
      "result = (if accepts (ftp_url (ut_ftp_server (up_task u)) (ut_ftp_port (up_task u)) (ut_store_path (up_task u)) (package_name tm))
              (pack [(text_name, log_text), (tel_name, map (\<lambda>b. char_of (unat b)) frames)]) then LOG_UPLOAD_SUCCESS else LOG_UPLOAD_FAILED)"
    using make_and_send_delivers [OF assms(1-4,6-11), of tm] by blast
  show ?thesis
  proof (intro exI conjI allI)
    show "log_upload_thread_func t tm io f (u, d, p) = Some (u\<lparr>up_in_progress := False\<rparr>, unlink_all ?made d1,
      snd (tcp_client_send p (upload_result_frame (ut_req_header (up_task u))
        (if accepts (ftp_url (ut_ftp_server (up_task u)) (ut_ftp_port (up_task u)) (ut_store_path (up_task u)) (package_name tm))
              (pack [(text_name, log_text), (tel_name, map (\<lambda>b. char_of (unat b)) frames)])
         then LOG_UPLOAD_SUCCESS else LOG_UPLOAD_FAILED) (ut_store_path (up_task u)) (package_name tm))))"
      using assms(5) unfolding log_upload_thread_func_def prod.case m(1) Let_def m(4) [symmetric] by (simp add: upload_sends)
    show "fs_read (dk_fs (unlink_all ?made d1)) q = (if q \<in> set ?made then None else fs_read (dk_fs d) q)" for q
      using unlink_all_read [OF m(2), of ?made q] m(3) by simp
  qed (rule package_name_length)
qed

text \<open>C18. An upload delivers the logs: with programs that work, the thread reports success exactly when the server accepted, under the address that the request asks for, the
  archive of the text log and of the current telemetry file, and it reports a failure otherwise. It reports once, gives the name of the archive in full, is
  ready for the next request, and leaves the files as they were, without the copies and the archive.\<close>

theorem log_upload_delivers:
  assumes "upload_tools t pack accepts" "snap_good io" "length (up_tmp_dir u) \<le> 255" "dk_script d = []" "\<not> up_stopping u"
    "fs_read (dk_fs d) (ut_log_file_path (up_task u)) = Some log_text" "tf_fp f" "tf_files f 0 = Some frames" "frames \<noteq> []"
    "member_names (tl_memory t) (up_task u) = (text_name, tel_name)" "distinct [text_name, tel_name, ''log_upload_pkg.tgz'']"
  shows "\<exists>d'. log_upload_thread_func t tm io f (u, d, p) = Some (u\<lparr>up_in_progress := False\<rparr>, d',
      snd (tcp_client_send p (upload_result_frame (ut_req_header (up_task u))
        (if accepts (ftp_url (ut_ftp_server (up_task u)) (ut_ftp_port (up_task u)) (ut_store_path (up_task u)) (package_name tm))
              (pack [(text_name, log_text), (tel_name, map (\<lambda>b. char_of (unat b)) frames)])
         then LOG_UPLOAD_SUCCESS else LOG_UPLOAD_FAILED) (ut_store_path (up_task u)) (package_name tm))))
    \<and> length (package_name tm) = 12
    \<and> (\<forall>q. fs_read (dk_fs d') q = (if q \<in> set (map (\<lambda>n. up_tmp_dir u @ ''/'' @ n) [''log_upload_pkg.tgz'', tel_name, text_name]) then None else fs_read (dk_fs d) q))"
  using assms by (rule upload_thread_reports)

subsection \<open>Witnesses\<close>

lemma read_cstring_text:
  assumes "list_all (\<lambda>c. ch c \<noteq> 0) s" "buf = pre @ map of_char s @ 0 # post" "length pre = i"
  shows "read_cstring buf i = Some s"
proof -
  have nz: "(of_char c :: u8) \<noteq> 0" if "ch c \<noteq> 0" for c
  proof
    assume "(of_char c :: u8) = 0"
    then have "c = char_of (0 :: nat)" using char_of_byte [of c] by simp
    then show False using that by simp
  qed
  have "takeWhile (\<lambda>b. b \<noteq> 0) (map of_char s @ (0 :: u8) # post) = map of_char s"
    using assms(1) nz by (simp add: takeWhile_append list_all_iff)
  then show ?thesis using assms(2,3) by (simp add: read_cstring_def o_def)
qed

text \<open>Programs as the laws describe them; the server accepts all.\<close>

definition pack_example :: "(string \<times> string) list \<Rightarrow> string" where
  "pack_example files = concat (map snd files)"

definition upload_tools_example :: "unit tools" where
  "upload_tools_example = (tools_example [])\<lparr>tl_run := (\<lambda>argv d.
     if argv ! 0 = ''cp'' then (case fs_read (dk_fs d) (argv ! 1) of Some c \<Rightarrow> (0, [], disk_step (fs_put (argv ! 2) c) d) | None \<Rightarrow> (256, [], d))
     else if argv ! 0 = ''tar'' then (0, [], disk_step (fs_put (argv ! 2)
            (pack_example (map (\<lambda>n. (n, case fs_read (dk_fs d) (argv ! 4 @ ''/'' @ n) of Some c \<Rightarrow> c | None \<Rightarrow> [])) (drop 5 argv)))) d)
     else (0, [], d))\<rparr>"

lemma read_all: "list_all2 (\<lambda>n c. fs_read fs (dir @ ''/'' @ n) = Some c) names cs
    \<Longrightarrow> map (\<lambda>n. (n, case fs_read fs (dir @ ''/'' @ n) of Some c \<Rightarrow> c | None \<Rightarrow> [])) names = zip names cs"
  by (induction rule: list_all2_induct) auto

lemma upload_tools_example_ok: "upload_tools upload_tools_example pack_example (\<lambda>_ _. True)"
  unfolding upload_tools_def upload_tools_example_def by (auto simp: read_all [simplified] upload_argv_def)

lemma upload_confined_example: "upload_confined upload_tools_example"
  unfolding upload_confined_def upload_tools_example_def
  by (auto simp: upload_argv_def below_def intro: untouched_mono [OF put_untouched] split: option.split)

definition upload_example :: log_upload where
  "upload_example = \<lparr>up_task = upload_task_of [] ''10.0.0.1'' ''logs/telemetry.bin'' (dt_req_header task_example) ''store'',
     up_in_progress = True, up_stopping = False, up_tmp_dir = ''./logs/.upload_tmp''\<rparr>"

definition upload_disk_example :: disk where
  "upload_disk_example = \<lparr>dk_fs = \<lparr>fs_files = [(''./logs/antenna_mgmt.log'', ''started'', False)], fs_links = [], fs_dirs = []\<rparr>, dk_past = [], dk_script = []\<rparr>"

lemma upload_example_names: "member_names True (up_task upload_example) = (''antenna_mgmt.log'', ''telemetry.bin'')"
  by (simp add: member_names_def upload_example_def upload_task_of_def config_get_string_def path_basename_or_def basename_def strip_slashes_def last_segment_def Let_def)

theorem log_upload_delivers_witness:
  "\<exists>d'. log_upload_thread_func upload_tools_example (Some (2024, 3, 9, 0, 0, 0)) \<lparr>si_src = True, si_dst = True, si_taken = (\<lambda>_. 4096), si_read_fails = None, si_flush = True\<rparr>
       \<lparr>tf_files = [0 \<mapsto> [65]], tf_fp = True, tf_bytes = 1, tf_max_size = 1000, tf_max_backups = 0\<rparr> (upload_example, upload_disk_example, port_open_example)
     = Some (upload_example\<lparr>up_in_progress := False\<rparr>, d',
         snd (tcp_client_send port_open_example (upload_result_frame (dt_req_header task_example) LOG_UPLOAD_SUCCESS ''store'' ''PAAU0309.tgz'')))"
proof -
  have n: "package_name (Some (2024, 3, 9, 0, 0, 0)) = ''PAAU0309.tgz''" by (simp add: package_name_def pad_int_def dec_digit_def)
  have h: "ut_req_header (up_task upload_example) = dt_req_header task_example" "ut_store_path (up_task upload_example) = ''store''" "length (up_tmp_dir upload_example) \<le> 255"
      "\<not> up_stopping upload_example" "ut_log_file_path (up_task upload_example) = ''./logs/antenna_mgmt.log''"
    by (simp_all add: upload_example_def upload_task_of_def config_get_string_def)
  have l: "fs_read (dk_fs upload_disk_example) ''./logs/antenna_mgmt.log'' = Some ''started''" "dk_script upload_disk_example = []"
    by (simp_all add: upload_disk_example_def fs_read_def)
  have m: "tl_memory upload_tools_example" by (simp add: upload_tools_example_def tools_example_def)
  from log_upload_delivers [where io = "\<lparr>si_src = True, si_dst = True, si_taken = (\<lambda>_. 4096), si_read_fails = None, si_flush = True\<rparr>"
      and u = upload_example and d = upload_disk_example and p = port_open_example and tm = "Some (2024, 3, 9, 0, 0, 0)" and frames = "[65]" and log_text = "''started''"
      and f = "\<lparr>tf_files = [0 \<mapsto> [65]], tf_fp = True, tf_bytes = 1, tf_max_size = 1000, tf_max_backups = 0\<rparr>" and text_name = "''antenna_mgmt.log''" and tel_name = "''telemetry.bin''",
      OF upload_tools_example_ok]
  show ?thesis using h l upload_example_names m n by (simp add: snap_good_def) blast
qed

theorem one_upload_at_a_time_witness:
  "\<exists>u' d' p'. (upload_step upload_tools_example [] ''10.0.0.1'' ''logs/telemetry.bin'')\<^sup>*\<^sup>* (upload_example\<lparr>up_in_progress := False\<rparr>, upload_disk_example, port_open_example, 0) (u', d', p', 1)
     \<and> up_in_progress u' \<and> untouched (below ''./logs/.upload_tmp'') upload_disk_example d'"
proof -
  let ?msg = "\<lparr>cm_header = dt_req_header task_example, cm_payload = Some (Outside (le16 1201 @ le16 204 @ map of_char ''store'' @ replicate 195 0)), cm_payload_len = 204\<rparr>"
  let ?u = "upload_example\<lparr>up_in_progress := False\<rparr>"
  have "read_cstring (message_bytes [] ?msg) 4 = Some ''store''"
    by (rule read_cstring_text [where pre = "le16 1201 @ le16 204" and post = "replicate 194 0"])
       (simp_all add: message_bytes_def payload_bytes_def numeral_eq_Suc)
  moreover have "shell_safe_relpath ''store''" by (simp add: shell_safe_relpath_def control_char_def segments_ok_split)
  ultimately have "handle_log_upload_req [] ''10.0.0.1'' ''logs/telemetry.bin'' True [] ?msg (?u, port_open_example) = Some (SUCCESS,
       ?u\<lparr>up_in_progress := True, up_task := upload_task_of [] ''10.0.0.1'' ''logs/telemetry.bin'' (cm_header ?msg) ''store''\<rparr>,
       snd (tcp_client_send port_open_example (upload_ack_frame (cm_header ?msg) LOG_UPLOAD_ACK_ACCEPT)))"
    unfolding handle_log_upload_req_def by (intro upload_request_accepted) simp_all
  from upload_request [OF this, of upload_tools_example upload_disk_example 0]
  obtain u' p' where r: "(upload_step upload_tools_example [] ''10.0.0.1'' ''logs/telemetry.bin'')\<^sup>*\<^sup>* (?u, upload_disk_example, port_open_example, 0) (u', upload_disk_example, p', 1)" by auto
  have "length (up_tmp_dir ?u) \<le> 255" "up_tmp_dir ?u = ''./logs/.upload_tmp''" by (simp_all add: upload_example_def)
  then have "up_in_progress u' \<and> untouched (below ''./logs/.upload_tmp'') upload_disk_example upload_disk_example"
    using one_upload_at_a_time [OF r _ upload_confined_example] by auto
  then show ?thesis using r by blast
qed

subsection \<open>The path is checked before it is cut\<close>

text \<open>The address that a cut path gives.\<close>

lemma cut_path_url:
  assumes "length server \<le> 63" "length a = 196"
  shows "ftp_url server prt (a @ ''/..'') (package_name tm) = ''ftp://'' @ server @ '':'' @ dec (unat prt) @ (if hd a = CHR ''/'' then a else ''/'' @ a) @ ''/../'' @ package_name tm"
proof -
  have "length (dec (unat prt)) \<le> 10" using u16_bound [of prt] by (intro dec_length) simp
  then have "length (''ftp://'' @ server @ '':'' @ dec (unat prt) @ (if hd a = CHR ''/'' then a else ''/'' @ a) @ ''/../'' @ package_name tm) \<le> 511"
    using assms package_name_length [of tm] by simp
  moreover have "a \<noteq> []" using assms(2) by auto
  then have "(if a @ ''/..'' \<noteq> [] then if hd (a @ ''/..'') = CHR ''/'' then (a @ ''/..'') @ ''/'' @ package_name tm else ''/'' @ (a @ ''/..'') @ ''/'' @ package_name tm
      else ''/'' @ package_name tm) = (if hd a = CHR ''/'' then a else ''/'' @ a) @ ''/../'' @ package_name tm" by simp
  ultimately show ?thesis unfolding ftp_url_def by (simp only: take_all)
qed

text \<open>C39. The check of the path covers the text up to its NUL, the upload uses 199 characters of it. Take any path that passes the check and has \<open>/..\<close> as its characters 197 to 199, such as one that goes on with \<open>x\<close>
  behind them: the request is accepted, although the path that is used would have been refused; and with programs that work the upload that follows asks the server to take the archive in the directory above the last one of the path,
  under an address with \<open>/../\<close> in it, and reports what the server said to that.\<close>

theorem cut_path_escapes:
  assumes "cm_payload msg \<noteq> None" "204 \<le> unat (cm_payload_len msg)" "read_cstring (message_bytes pool msg) 4 = Some (a @ ''/..'' @ r)" "length a = 196"
      "shell_safe_relpath (a @ ''/..'' @ r)" "\<not> up_in_progress u" "\<not> up_stopping u"
    and "upload_tools t pack accepts" "snap_good io" "length (up_tmp_dir u) \<le> 255" "dk_script d = []" "tf_fp f" "tf_files f 0 = Some frames" "frames \<noteq> []"
    and "task = upload_task_of items ip tel (cm_header msg) (a @ ''/..'' @ r)" "fs_read (dk_fs d) (ut_log_file_path task) = Some log_text"
      "member_names (tl_memory t) task = (text_name, tel_name)" "distinct [text_name, tel_name, ''log_upload_pkg.tgz'']"
  shows "\<exists>u' p' u'' d'. log_upload_handle_request items ip tel True pool msg (u, p) = Some (SUCCESS, u', p')
    \<and> \<not> shell_safe_relpath (ut_store_path (up_task u'))
    \<and> log_upload_thread_func t tm io f (u', d, p') = Some (u'', d',
        snd (tcp_client_send p' (upload_result_frame (cm_header msg)
          (if accepts (''ftp://'' @ ut_ftp_server task @ '':'' @ dec (unat (ut_ftp_port task)) @ (if hd a = CHR ''/'' then a else ''/'' @ a) @ ''/../'' @ package_name tm)
                (pack [(text_name, log_text), (tel_name, map (\<lambda>b. char_of (unat b)) frames)])
           then LOG_UPLOAD_SUCCESS else LOG_UPLOAD_FAILED) (a @ ''/..'') (package_name tm))))"
proof -
  define u' where "u' = u\<lparr>up_in_progress := True, up_task := task\<rparr>"
  define p' where "p' = snd (tcp_client_send p (upload_ack_frame (cm_header msg) LOG_UPLOAD_ACK_ACCEPT))"
  have h: "log_upload_handle_request items ip tel True pool msg (u, p) = Some (SUCCESS, u', p')"
    using upload_request_accepted [OF assms(1,2,3,5,6)] unfolding u'_def p'_def assms(15) .
  have t: "ut_store_path task = a @ ''/..''" "ut_req_header task = cm_header msg" "length (ut_ftp_server task) \<le> 63"
    using assms(4) by (simp_all add: assms(15) upload_task_of_def)
  note url = cut_path_url [OF t(3) assms(4), of "ut_ftp_port task" tm]
  have "split_path (b @ ''/..'') = split_path b @ [''..'']" for b
  proof (induction b)
    case (Cons c b)
    have "split_path b \<noteq> []" by (cases b) (auto split: list.splits)
    then show ?case using Cons by (auto split: list.splits)
  qed simp
  then have "\<not> shell_safe_relpath (a @ ''/..'')" by (simp add: shell_safe_relpath_def segments_ok_split list_ex_iff)
  moreover have "up_task u' = task" "up_tmp_dir u' = up_tmp_dir u" "up_stopping u' = up_stopping u" by (simp_all add: u'_def)
  moreover from this obtain d' where "log_upload_thread_func t tm io f (u', d, p') = Some (u'\<lparr>up_in_progress := False\<rparr>, d',
      snd (tcp_client_send p' (upload_result_frame (ut_req_header (up_task u'))
        (if accepts (ftp_url (ut_ftp_server (up_task u')) (ut_ftp_port (up_task u')) (ut_store_path (up_task u')) (package_name tm))
              (pack [(text_name, log_text), (tel_name, map (\<lambda>b. char_of (unat b)) frames)])
         then LOG_UPLOAD_SUCCESS else LOG_UPLOAD_FAILED) (ut_store_path (up_task u')) (package_name tm))))"
    using upload_thread_reports [OF assms(8,9), of u' d log_text f frames text_name tel_name tm p'] assms(7,10-14,16-18) by auto
  ultimately show ?thesis using h t(1,2) url by (intro exI [of _ u'] exI [of _ p'] exI [of _ "u'\<lparr>up_in_progress := False\<rparr>"] exI [of _ d']) simp
qed

theorem cut_path_escapes_witness:
  "\<exists>u' p'. log_upload_handle_request [] ''10.0.0.1'' ''logs/telemetry.bin'' True []
      \<lparr>cm_header = dt_req_header task_example, cm_payload = Some (Outside (le16 1201 @ le16 204 @ map of_char (replicate 196 (CHR ''a'') @ ''/..x'') @ [0])), cm_payload_len = 204\<rparr>
      (upload_example\<lparr>up_in_progress := False\<rparr>, port_open_example) = Some (SUCCESS, u', p') \<and> \<not> shell_safe_relpath (ut_store_path (up_task u'))"
proof -
  let ?a = "replicate 196 (CHR ''a'')"
  let ?s = "?a @ ''/..'' @ ''x''"
  let ?msg = "\<lparr>cm_header = dt_req_header task_example, cm_payload = Some (Outside (le16 1201 @ le16 204 @ map of_char (?a @ ''/..x'') @ [0])), cm_payload_len = 204\<rparr>"
  let ?task = "upload_task_of [] ''10.0.0.1'' ''logs/telemetry.bin'' (cm_header ?msg) ?s"
  have sp: "split_path (replicate n (CHR ''a'') @ ''/'' @ x) = replicate n (CHR ''a'') # split_path x" for n x by (induction n) auto
  have r: "read_cstring (message_bytes [] ?msg) 4 = Some ?s"
    by (rule read_cstring_text [where pre = "le16 1201 @ le16 204" and post = "[]"])
       (simp_all add: message_bytes_def payload_bytes_def list_all_iff)
  have "''..'' \<noteq> ?a" by (rule notI, drule arg_cong [of _ _ length]) simp
  then have safe: "shell_safe_relpath ?s"
    using sp [of 196 "''..x''"] by (simp add: shell_safe_relpath_def control_char_def segments_ok_split list_ex_iff)
  have n: "member_names (tl_memory upload_tools_example) ?task = (''antenna_mgmt.log'', ''telemetry.bin'')"
    using upload_example_names by (simp add: member_names_def upload_example_def upload_task_of_def upload_tools_example_def tools_example_def)
  have l: "fs_read (dk_fs upload_disk_example) (ut_log_file_path ?task) = Some ''started''" "dk_script upload_disk_example = []"
    by (simp_all add: upload_disk_example_def fs_read_def upload_task_of_def config_get_string_def)
  have u: "\<not> up_in_progress (upload_example\<lparr>up_in_progress := False\<rparr>)" "\<not> up_stopping (upload_example\<lparr>up_in_progress := False\<rparr>)"
      "length (up_tmp_dir (upload_example\<lparr>up_in_progress := False\<rparr>)) \<le> 255" by (simp_all add: upload_example_def)
  have g: "snap_good \<lparr>si_src = True, si_dst = True, si_taken = (\<lambda>_. 4096), si_read_fails = None, si_flush = True\<rparr>" by (simp add: snap_good_def)
  have f: "tf_fp \<lparr>tf_files = [0 \<mapsto> [65]], tf_fp = True, tf_bytes = 1, tf_max_size = 1000, tf_max_backups = 0\<rparr>"
    "tf_files \<lparr>tf_files = [0 \<mapsto> [65]], tf_fp = True, tf_bytes = 1, tf_max_size = 1000, tf_max_backups = 0\<rparr> 0 = Some [65]" "[65] \<noteq> ([] :: bytes)" by simp_all
  have p: "cm_payload ?msg \<noteq> None" "204 \<le> unat (cm_payload_len ?msg)" by simp_all
  have d: "distinct [''antenna_mgmt.log'', ''telemetry.bin'', ''log_upload_pkg.tgz'']" by simp
  show ?thesis
    using cut_path_escapes [OF p r length_replicate safe u(1,2) upload_tools_example_ok g u(3) l(2) f refl l(1) n d, of port_open_example None] by blast
qed

end
