(* ===== verification/Logger.thy ===== *)
theory Logger
  imports TelemetryLog
begin

text \<open>
  The text log of logger.c. Its files are numbered as those of the telemetry log: 0 is the current one, \<open>i\<close> the backup with the suffix \<open>i\<close>; the calls of a rotation are
  those of \<open>rotate_io\<close>. The notes that a rotation writes reach the file in full, or the file is not open.
\<close>

subsection \<open>Levels\<close>

fun log_level_code :: "log_level \<Rightarrow> nat" where
  "log_level_code LOG_LEVEL_DEBUG = 0"
| "log_level_code LOG_LEVEL_INFO = 1"
| "log_level_code LOG_LEVEL_WARN = 2"
| "log_level_code LOG_LEVEL_ERROR = 3"

lemma log_level_code_inj: "log_level_code a = log_level_code b \<Longrightarrow> a = b"
  by (cases a; cases b) simp_all

instantiation log_level :: linorder
begin

definition "a \<le> b \<longleftrightarrow> log_level_code a \<le> log_level_code b" for a b :: log_level

definition "a < b \<longleftrightarrow> log_level_code a < log_level_code b" for a b :: log_level

instance
  by standard (auto simp: less_eq_log_level_def less_log_level_def intro: log_level_code_inj)

end

definition log_level_str :: "log_level \<Rightarrow> string" where
  "log_level_str l = [''DEBUG'', ''INFO'', ''WARN'', ''ERROR''] ! log_level_code l"

subsection \<open>The state and rotation\<close>

record logger =
  lg_files :: "nat \<Rightarrow> string option"
  lg_file :: bool
  lg_level :: log_level
  lg_path :: string
  lg_bytes :: u64

definition log_stamp :: "local_time option \<Rightarrow> string" where
  "log_stamp tm_info =
     (case tm_info of
        Some (y, mo, d, h, mi, s) \<Rightarrow> dec_int y @ ''-'' @ pad_int 2 mo @ ''-'' @ pad_int 2 d @ '' '' @ pad_int 2 h @ '':'' @ pad_int 2 mi @ '':'' @ pad_int 2 s
      | None \<Rightarrow> ''1900-01-00 00:00:00'')"

definition start_note :: "local_time option \<Rightarrow> string" where
  "start_note tm_info = ''['' @ log_stamp tm_info @ ''] [INFO] Starting log rotation...'' @ [newline]"

definition done_note :: "local_time option \<Rightarrow> string \<Rightarrow> string" where
  "done_note tm_info new_path = ''['' @ log_stamp tm_info @ ''] [INFO] Log rotation completed, old log saved as '' @ new_path @ [newline]"

definition append_text :: "string \<Rightarrow> (nat \<Rightarrow> string option) \<Rightarrow> nat \<Rightarrow> string option" where
  "append_text s files = files(0 := Some ((case files 0 of None \<Rightarrow> [] | Some b \<Rightarrow> b) @ s))"

definition logger_rotate :: "global_config \<Rightarrow> local_time option \<Rightarrow> rotate_io \<Rightarrow> logger \<Rightarrow> int \<times> logger" where
  "logger_rotate g tm_info io l =
     (let files = (if lg_file l then append_text (start_note tm_info) (lg_files l) else lg_files l);
          b = nat (gc_log_max_backups g);
          files = (if gc_log_max_backups g > 0 \<and> files b \<noteq> None \<and> ro_unlink io then files(b := None) else files);
          files = rename_loop io (nat (gc_log_max_backups g - 1)) files
      in if \<not> (files 0 \<noteq> None \<and> ro_rename io 0)
         then (ERROR_GENERAL, l\<lparr>lg_files := (if ro_open io then append_text [] files else files), lg_file := ro_open io\<rparr>)
         else let files = move_file io 0 files
              in if \<not> ro_open io then (ERROR_GENERAL, l\<lparr>lg_files := files, lg_file := False\<rparr>)
                 else (SUCCESS, l\<lparr>lg_files := append_text (done_note tm_info (take 511 (lg_path l @ ''.1''))) files, lg_file := True, lg_bytes := 0\<rparr>))"

definition logger_check_and_rotate :: "global_config \<Rightarrow> local_time option \<Rightarrow> bool \<Rightarrow> rotate_io \<Rightarrow> logger \<Rightarrow> int \<times> logger" where
  "logger_check_and_rotate g tm_info stat_ok io l =
     (if lg_bytes l < gc_log_max_size g then (SUCCESS, l)
      else case (if stat_ok then lg_files l 0 else None) of
             None \<Rightarrow> (SUCCESS, l)
           | Some b \<Rightarrow>
               if of_nat (length b) < gc_log_max_size g then (SUCCESS, l\<lparr>lg_bytes := of_nat (length b)\<rparr>)
               else logger_rotate g tm_info io l)"

text \<open>The calls at the start: whether the directory is there or can be made, \<open>stat\<close> of the file before and after, the rotation, and the last \<open>fopen\<close>.\<close>

record init_io =
  ii_dir :: bool
  ii_mkdir :: bool
  ii_stat :: bool
  ii_first_open :: bool
  ii_rotate :: rotate_io
  ii_open :: bool
  ii_stat_again :: bool

definition logger_init :: "global_config \<Rightarrow> local_time option \<Rightarrow> init_io \<Rightarrow> string option \<Rightarrow> log_level \<Rightarrow> logger \<Rightarrow> int \<times> logger" where
  "logger_init g tm_info io log_file level l =
     (let l = l\<lparr>lg_level := level\<rparr>
      in case log_file of
           None \<Rightarrow> (SUCCESS, l)
         | Some path \<Rightarrow>
             let l = l\<lparr>lg_path := take 255 path\<rparr>
             in if \<not> ii_dir io \<and> \<not> ii_mkdir io then (ERROR_GENERAL, l)
                else let l = (case (if gc_log_rotate_on_startup g \<and> ii_stat io then lg_files l 0 else None) of
                               Some b \<Rightarrow>
                                 if of_nat (length b) \<ge> gc_log_max_size g
                                 then snd (logger_rotate g tm_info (ii_rotate io) (l\<lparr>lg_file := ii_first_open io\<rparr>))
                                 else l
                             | None \<Rightarrow> l)
                     in if \<not> ii_open io then (ERROR_GENERAL, l\<lparr>lg_file := False\<rparr>)
                        else let files = append_text [] (lg_files l)
                             in (SUCCESS, l\<lparr>lg_files := files, lg_file := True,
                                   lg_bytes := (if ii_stat_again io then of_nat (length (the (files 0))) else 0)\<rparr>))"

text \<open>One line: the calls of the check, whether \<open>fprintf\<close> reports success, and how much of the line reaches the file.\<close>

record log_io =
  li_stat :: bool
  li_rotate :: rotate_io
  li_printed :: bool
  li_taken :: nat

definition log_line :: "local_time option \<Rightarrow> log_level \<Rightarrow> string \<Rightarrow> int \<Rightarrow> string \<Rightarrow> string" where
  "log_line tm_info level file line msg =
     ''['' @ log_stamp tm_info @ ''] ['' @ log_level_str level @ ''] ['' @ file @ '':'' @ dec_int line @ ''] '' @ take 1023 msg @ [newline]"

definition logger_log :: "global_config \<Rightarrow> local_time option \<Rightarrow> log_io \<Rightarrow> log_level \<Rightarrow> string \<Rightarrow> int \<Rightarrow> string \<Rightarrow> logger \<Rightarrow> logger" where
  "logger_log g tm_info io level file line msg l =
     (if level < lg_level l then l
      else let l = snd (logger_check_and_rotate g tm_info (li_stat io) (li_rotate io) l);
               text = log_line tm_info level file line msg
           in if lg_file l
              then l\<lparr>lg_files := append_text (take (li_taken io) text) (lg_files l),
                     lg_bytes := (if li_printed io then lg_bytes l + of_nat (length text) else lg_bytes l)\<rparr>
              else l)"

definition logger_close :: "logger \<Rightarrow> logger" where
  "logger_close l = l\<lparr>lg_file := False\<rparr>"

subsection \<open>The newest lines are kept\<close>

text \<open>A call, with its surroundings.\<close>

record log_call =
  lc_time :: "local_time option"
  lc_io :: log_io
  lc_level :: log_level
  lc_file :: string
  lc_line :: int
  lc_msg :: string

definition do_log :: "global_config \<Rightarrow> log_call \<Rightarrow> logger \<Rightarrow> logger" where
  "do_log g c = logger_log g (lc_time c) (lc_io c) (lc_level c) (lc_file c) (lc_line c) (lc_msg c)"

definition call_line :: "log_call \<Rightarrow> string" where
  "call_line c = log_line (lc_time c) (lc_level c) (lc_file c) (lc_line c) (lc_msg c)"

text \<open>Calls that go well, with lines and notes of bounded length.\<close>

definition call_good :: "nat \<Rightarrow> log_call \<Rightarrow> bool" where
  "call_good m c \<longleftrightarrow> li_stat (lc_io c) \<and> rotate_good (li_rotate (lc_io c)) \<and> li_printed (lc_io c) \<and> length (call_line c) \<le> li_taken (lc_io c)
     \<and> length (call_line c) \<le> m \<and> length (log_stamp (lc_time c)) = 19"

text \<open>The lines in each file; the first component marks the notes of rotations.\<close>

definition file_text :: "logger \<Rightarrow> nat \<Rightarrow> string" where
  "file_text l i = (case lg_files l i of None \<Rightarrow> [] | Some b \<Rightarrow> b)"

definition lines_inv :: "nat \<Rightarrow> nat \<Rightarrow> global_config \<Rightarrow> (nat \<Rightarrow> (bool \<times> string) list) \<Rightarrow> logger \<Rightarrow> bool" where
  "lines_inv k m g parts l \<longleftrightarrow> lg_file l \<and> lg_files l 0 \<noteq> None \<and> gc_log_max_backups g = int k \<and> length (lg_path l) \<le> 255
     \<and> (\<forall>i\<le>k. file_text l i = concat (map snd (parts i)) \<and> length (file_text l i) < unat (gc_log_max_size g) + m + 400)
     \<and> unat (lg_bytes l) \<le> length (file_text l 0) \<and> length (file_text l 0) \<le> unat (lg_bytes l) + 340 \<and> unat (lg_bytes l) < unat (gc_log_max_size g) + m"

definition rotated_parts :: "local_time option \<Rightarrow> string \<Rightarrow> (nat \<Rightarrow> (bool \<times> string) list) \<Rightarrow> nat \<Rightarrow> (bool \<times> string) list" where
  "rotated_parts tm path parts i =
     (if i = 0 then [(True, done_note tm path)] else if i = 1 then parts 0 @ [(True, start_note tm)] else parts (i - 1))"

lemma note_lengths:
  assumes "length (log_stamp tm) = 19"
  shows "length (start_note tm) = 54" "length path \<le> 257 \<Longrightarrow> length (done_note tm path) \<le> 340"
  using assms by (simp_all add: start_note_def done_note_def)

lemma logger_rotate_files:
  fixes tm :: "local_time option"
  assumes "rotate_good io" "lg_file l" "lg_files l 0 \<noteq> None" "gc_log_max_backups g = int k" "i \<le> k"
  defines "l' \<equiv> snd (logger_rotate g tm io l)"
  shows "lg_files l' i = (if i = 0 then Some (done_note tm (take 511 (lg_path l @ ''.1''))) else if i = 1 then Some (file_text l 0 @ start_note tm) else lg_files l (i - 1))"
    "lg_file l'" "lg_bytes l' = 0" "lg_path l' = lg_path l" "lg_level l' = lg_level l"
proof -
  define fs where "fs = append_text (start_note tm) (lg_files l)"
  define h where "h = rename_loop io (k - 1) (if 0 < k then fs(k := None) else fs)"
  have fs: "fs 0 = Some (file_text l 0 @ start_note tm)" "\<And>j. j \<noteq> 0 \<Longrightarrow> fs j = lg_files l j" by (simp_all add: fs_def append_text_def file_text_def)
  have n: "nat (gc_log_max_backups g - 1) = k - 1" "nat (gc_log_max_backups g) = k" "0 < gc_log_max_backups g \<longleftrightarrow> 0 < k" using assms(4) by auto
  have u: "(if 0 < k \<and> fs k \<noteq> None \<and> ro_unlink io then fs(k := None) else fs) = (if 0 < k then fs(k := None) else fs)"
    using assms(1) by (auto simp: rotate_good_def fun_eq_iff)
  have m: "move_file io 0 h j = (if j = 0 then None else fs (j - 1))" if "j \<le> k" for j
    unfolding h_def using assms(1) fs(1) that by (intro row_shift) auto
  have h0: "h 0 \<noteq> None"
  proof
    assume "h 0 = None"
    then have e: "move_file io 0 h = h" by (simp add: move_file_def)
    show False
    proof (cases "k = 0")
      case True
      then show False using \<open>h 0 = None\<close> fs(1) by (simp add: h_def)
    next
      case False
      then have "h 1 = fs 0" using m [of 1] e by simp
      then have "h 1 \<noteq> None" using fs(1) by simp
      then show False using \<open>h 0 = None\<close> False fs(1) assms(1) rename_loop_shifts [OF assms(1), of "fs(k := None)" "k - 1"] by (auto simp: h_def split: if_splits)
    qed
  qed
  have r: "ro_rename io 0" "ro_open io" using assms(1) by (simp_all add: rotate_good_def)
  have "logger_rotate g tm io l = (SUCCESS, l\<lparr>lg_files := append_text (done_note tm (take 511 (lg_path l @ ''.1''))) (move_file io 0 h), lg_file := True, lg_bytes := 0\<rparr>)"
    unfolding logger_rotate_def Let_def n if_P [OF assms(2)] fs_def [symmetric] u h_def [symmetric] using h0 r by simp
  then have l': "l' = l\<lparr>lg_files := append_text (done_note tm (take 511 (lg_path l @ ''.1''))) (move_file io 0 h), lg_file := True, lg_bytes := 0\<rparr>" by (simp add: l'_def)
  show "lg_file l'" "lg_bytes l' = 0" "lg_path l' = lg_path l" "lg_level l' = lg_level l" by (simp_all add: l')
  show "lg_files l' i = (if i = 0 then Some (done_note tm (take 511 (lg_path l @ ''.1''))) else if i = 1 then Some (file_text l 0 @ start_note tm) else lg_files l (i - 1))"
    using m [of 0] m [OF assms(5)] fs by (simp add: l' append_text_def)
qed

lemma lines_invI:
  assumes "lg_file l" "lg_files l 0 \<noteq> None" "gc_log_max_backups g = int k" "length (lg_path l) \<le> 255"
    "\<And>i. i \<le> k \<Longrightarrow> file_text l i = concat (map snd (parts i))" "\<And>i. i \<le> k \<Longrightarrow> length (file_text l i) < unat (gc_log_max_size g) + m + 400"
    "unat (lg_bytes l) \<le> length (file_text l 0)" "length (file_text l 0) \<le> unat (lg_bytes l) + 340" "unat (lg_bytes l) < unat (gc_log_max_size g) + m"
  shows "lines_inv k m g parts l"
  unfolding lines_inv_def using assms by blast

lemma lines_invD:
  assumes "lines_inv k m g parts l"
  shows "lg_file l" "lg_files l 0 \<noteq> None" "gc_log_max_backups g = int k" "length (lg_path l) \<le> 255"
    "i \<le> k \<Longrightarrow> file_text l i = concat (map snd (parts i))" "i \<le> k \<Longrightarrow> length (file_text l i) < unat (gc_log_max_size g) + m + 400"
    "unat (lg_bytes l) \<le> length (file_text l 0)" "length (file_text l 0) \<le> unat (lg_bytes l) + 340" "unat (lg_bytes l) < unat (gc_log_max_size g) + m"
  using assms unfolding lines_inv_def by blast+

lemma line_inv:
  assumes "lines_inv k m g parts l" "call_good m c" "\<not> lg_bytes l \<ge> gc_log_max_size g" "lg_level l \<le> lc_level c" "unat (gc_log_max_size g) + m < 2 ^ 64"
  shows "lines_inv k m g (parts(0 := parts 0 @ [(False, call_line c)])) (l\<lparr>lg_files := append_text (call_line c) (lg_files l), lg_bytes := lg_bytes l + of_nat (length (call_line c))\<rparr>)"
proof -
  note i = assms(1) [unfolded lines_inv_def] and c = assms(2) [unfolded call_good_def]
  let ?n = "length (call_line c)"
  have b: "unat (lg_bytes l) < unat (gc_log_max_size g)" using assms(3) by (simp add: word_le_nat_alt)
  have u: "unat (lg_bytes l + of_nat ?n) = unat (lg_bytes l) + ?n" using b c assms(5) by (simp add: unat_word_ariths unat_of_nat)
  let ?l = "l\<lparr>lg_files := append_text (call_line c) (lg_files l), lg_bytes := lg_bytes l + of_nat ?n\<rparr>"
  have t: "file_text ?l 0 = file_text l 0 @ call_line c" "\<And>j. j \<noteq> 0 \<Longrightarrow> file_text ?l j = file_text l j" by (simp_all add: file_text_def append_text_def)
  have n: "?n \<le> m" using c by blast
  note d = lines_invD [OF assms(1)]
  show ?thesis
  proof (rule lines_invI)
    show "file_text ?l j = concat (map snd ((parts(0 := parts 0 @ [(False, call_line c)])) j))" if "j \<le> k" for j
      using d(5) [OF that] by (cases "j = 0") (simp_all add: t)
    have z: "length (file_text ?l 0) = length (file_text l 0) + ?n" by (simp add: t(1))
    show "length (file_text ?l j) < unat (gc_log_max_size g) + m + 400" if "j \<le> k" for j
    proof (cases "j = 0")
      case True
      show ?thesis unfolding True using d(8) b n z by linarith
    next
      case False
      then show ?thesis using d(6) [OF that] by (simp only: t(2) not_False_eq_True)
    qed
    show "unat (lg_bytes ?l) \<le> length (file_text ?l 0)" "length (file_text ?l 0) \<le> unat (lg_bytes ?l) + 340" "unat (lg_bytes ?l) < unat (gc_log_max_size g) + m"
      using d(7,8) b n u z by simp_all
  qed (use d(1-4) in \<open>simp_all add: append_text_def\<close>)
qed

lemma rotation_inv:
  assumes "lines_inv k m g parts l" "rotate_good io" "length (log_stamp tm) = 19" "0 < m"
  shows "lines_inv k m g (rotated_parts tm (take 511 (lg_path l @ ''.1'')) parts) (snd (logger_rotate g tm io l))" "lg_level (snd (logger_rotate g tm io l)) = lg_level l"
proof -
  note i = assms(1) [unfolded lines_inv_def]
  let ?l = "snd (logger_rotate g tm io l)" and ?p = "take 511 (lg_path l @ ''.1'')"
  have r: "lg_files ?l j = (if j = 0 then Some (done_note tm ?p) else if j = 1 then Some (file_text l 0 @ start_note tm) else lg_files l (j - 1))" if "j \<le> k" for j
    using logger_rotate_files(1) [OF assms(2) _ _ _ that, where g = g and l = l and tm = tm] i by blast
  have s: "lg_file ?l" "lg_bytes ?l = 0" "lg_path ?l = lg_path l" "lg_level ?l = lg_level l"
    using logger_rotate_files(2-5) [OF assms(2), where g = g and l = l and tm = tm and k = k and i = 0] i by blast+
  have "length (lg_path l) \<le> 255" using i by blast
  then have "length ?p \<le> 257" by (simp del: take_append)
  then have n: "length (start_note tm) = 54" "length (done_note tm ?p) \<le> 340" using note_lengths [OF assms(3)] by blast+
  have t: "file_text ?l j = concat (map snd (rotated_parts tm ?p parts j)) \<and> length (file_text ?l j) < unat (gc_log_max_size g) + m + 400" if "j \<le> k" for j
  proof -
    consider "j = 0" | "j = 1" | "j > 1" by linarith
    then show ?thesis
    proof cases
      case 3
      then have "j - 1 \<le> k" "file_text ?l j = file_text l (j - 1)" using that r [OF that] by (auto simp: file_text_def)
      moreover from this(1) have "file_text l (j - 1) = concat (map snd (parts (j - 1)))" "length (file_text l (j - 1)) < unat (gc_log_max_size g) + m + 400"
        using i by blast+
      ultimately show ?thesis using 3 by (simp add: rotated_parts_def)
    qed (use r [OF that] i n assms(4) that in \<open>auto simp: file_text_def rotated_parts_def\<close>)
  qed
  have "lg_files ?l 0 = Some (done_note tm ?p)" using r [of 0] by simp
  then have f0: "file_text ?l 0 = done_note tm ?p" by (simp add: file_text_def)
  show "lines_inv k m g (rotated_parts tm ?p parts) ?l"
  proof (rule lines_invI)
    show "length (file_text ?l 0) \<le> unat (lg_bytes ?l) + 340" using f0 n(2) s(2) by simp
    show "file_text ?l j = concat (map snd (rotated_parts tm ?p parts j))" "length (file_text ?l j) < unat (gc_log_max_size g) + m + 400" if "j \<le> k" for j
      using t [OF that] by blast+
    show "lg_files ?l 0 \<noteq> None" using \<open>lg_files ?l 0 = _\<close> by simp
  qed (use s lines_invD(3,4) [OF assms(1)] assms(4) in simp_all)
  show "lg_level ?l = lg_level l" by (rule s(4))
qed

definition lines_of :: "(bool \<times> string) list \<Rightarrow> string list" where
  "lines_of xs = map snd (filter (\<lambda>x. \<not> fst x) xs)"

definition kept :: "nat \<Rightarrow> (nat \<Rightarrow> (bool \<times> string) list) \<Rightarrow> string list" where
  "kept k parts = concat (map (\<lambda>i. lines_of (parts i)) (rev [0..<Suc k]))"

lemma kept_append: "kept k (parts(0 := parts 0 @ [(False, x)])) = kept k parts @ [x]"
proof -
  obtain ys where u: "[0..<Suc k] = 0 # ys" "0 \<notin> set ys" by (rule that [of "[1..<Suc k]"]) (simp_all add: upt_conv_Cons)
  have "map (\<lambda>i. lines_of ((parts(0 := parts 0 @ [(False, x)])) i)) (rev ys) = map (\<lambda>i. lines_of (parts i)) (rev ys)" using u(2) by (intro map_cong) auto
  then show ?thesis unfolding kept_def u(1) rev.simps map_append concat_append by (simp only:) (simp add: lines_of_def)
qed

lemma kept_rotated: "lines_of (parts k) @ kept k (rotated_parts tm path parts) = kept k parts"
proof -
  have u: "[0..<Suc k] = 0 # map Suc [0..<k]" by (simp add: map_Suc_upt upt_conv_Cons)
  have "lines_of (rotated_parts tm path parts (Suc j)) = lines_of (parts j)" for j by (simp add: rotated_parts_def lines_of_def)
  then have "kept k (rotated_parts tm path parts) = concat (map (\<lambda>i. lines_of (parts i)) (rev [0..<k]))"
    unfolding kept_def u by (simp add: rotated_parts_def lines_of_def rev_map o_def)
  then show ?thesis by (simp add: kept_def)
qed

lemma do_log_inv:
  assumes "lines_inv k m g parts l" "call_good m c" "unat (gc_log_max_size g) + m + 400 < 2 ^ 64" "0 < gc_log_max_size g"
  shows "\<exists>parts' gone. lines_inv k m g parts' (do_log g c l) \<and> lg_level (do_log g c l) = lg_level l
    \<and> gone @ kept k parts' = kept k parts @ (if lg_level l \<le> lc_level c then [call_line c] else [])"
proof (cases "lg_level l \<le> lc_level c")
  case False
  then show ?thesis using assms(1) by (intro exI [of _ parts] exI [of _ "[]"]) (simp add: do_log_def logger_log_def not_le)
next
  case True
  note i = assms(1) [unfolded lines_inv_def] and c = assms(2) [unfolded call_good_def]
  have m: "0 < m" using c by (auto simp: call_line_def log_line_def)
  define l1 where "l1 = snd (logger_check_and_rotate g (lc_time c) (li_stat (lc_io c)) (li_rotate (lc_io c)) l)"
  have l2: "do_log g c l = (if lg_file l1 then l1\<lparr>lg_files := append_text (call_line c) (lg_files l1), lg_bytes := lg_bytes l1 + of_nat (length (call_line c))\<rparr> else l1)"
    using True c by (simp add: do_log_def logger_log_def not_less Let_def l1_def call_line_def)
  obtain parts1 gone where p: "lines_inv k m g parts1 l1" "gone @ kept k parts1 = kept k parts" "\<not> lg_bytes l1 \<ge> gc_log_max_size g" "lg_level l1 = lg_level l"
  proof (cases "lg_bytes l < gc_log_max_size g")
    case True
    then show thesis using assms(1) by (intro that [of parts "[]"]) (auto simp: l1_def logger_check_and_rotate_def)
  next
    case False
    obtain b where b: "lg_files l 0 = Some b" "file_text l 0 = b" using i by (auto simp: file_text_def)
    have "length b < 2 ^ 64" "unat (lg_bytes l) \<le> length b" using i assms(3) b(2) by force+
    then have "\<not> of_nat (length b) < gc_log_max_size g" using False by (simp add: word_less_nat_alt unat_of_nat take_bit_nat_eq_self)
    then have l1: "l1 = snd (logger_rotate g (lc_time c) (li_rotate (lc_io c)) l)" using False b(1) c by (simp add: l1_def logger_check_and_rotate_def)
    have "lg_bytes l1 = 0" using logger_rotate_files(3) [where i = 0 and k = k] i c unfolding l1 by blast
    then have "\<not> lg_bytes l1 \<ge> gc_log_max_size g" using assms(4) by (simp add: not_le)
    moreover have "rotate_good (li_rotate (lc_io c))" "length (log_stamp (lc_time c)) = 19" using c by blast+
    then have "lines_inv k m g (rotated_parts (lc_time c) (take 511 (lg_path l @ ''.1'')) parts) l1" "lg_level l1 = lg_level l"
      using rotation_inv [OF assms(1)] m unfolding l1 by blast+
    ultimately show thesis using that kept_rotated by blast
  qed
  have "lines_inv k m g (parts1(0 := parts1 0 @ [(False, call_line c)])) (do_log g c l)"
    unfolding l2 if_P [OF lines_invD(1) [OF p(1)]] by (rule line_inv [OF p(1) assms(2) p(3)]) (use True p(4) assms(3) in simp_all)
  moreover have "lg_level (do_log g c l) = lg_level l" using p(4) by (simp add: l2)
  moreover have "gone @ kept k (parts1(0 := parts1 0 @ [(False, call_line c)])) = kept k parts @ [call_line c]" using p(2) by (simp add: kept_append)
  ultimately show ?thesis using True by auto
qed

lemma logs_inv:
  assumes "lines_inv k m g parts l" "list_all (call_good m) cs" "unat (gc_log_max_size g) + m + 400 < 2 ^ 64" "0 < gc_log_max_size g"
  shows "\<exists>parts' gone. lines_inv k m g parts' (fold (do_log g) cs l)
    \<and> gone @ kept k parts' = kept k parts @ map call_line (filter (\<lambda>c. lg_level l \<le> lc_level c) cs)"
  using assms(1,2)
proof (induction cs arbitrary: parts l)
  case Nil
  then show ?case by (intro exI [of _ parts] exI [of _ "[]"]) simp
next
  case (Cons c cs)
  obtain parts1 gone1 where 1: "lines_inv k m g parts1 (do_log g c l)" "lg_level (do_log g c l) = lg_level l"
      "gone1 @ kept k parts1 = kept k parts @ (if lg_level l \<le> lc_level c then [call_line c] else [])"
    using do_log_inv [OF Cons.prems(1) _ assms(3,4), of c] Cons.prems(2) by auto
  obtain parts2 gone2 where 2: "lines_inv k m g parts2 (fold (do_log g) cs (do_log g c l))"
      "gone2 @ kept k parts2 = kept k parts1 @ map call_line (filter (\<lambda>c. lg_level l \<le> lc_level c) cs)"
    using Cons.IH [OF 1(1)] Cons.prems(2) 1(2) by auto
  have "(gone1 @ gone2) @ kept k parts2 = (gone1 @ kept k parts1) @ map call_line (filter (\<lambda>c. lg_level l \<le> lc_level c) cs)" using 2(2) by simp
  then have "(gone1 @ gone2) @ kept k parts2 = kept k parts @ map call_line (filter (\<lambda>c. lg_level l \<le> lc_level c) (c # cs))" unfolding 1(3) by simp
  then show ?case using 2(1) by (intro exI [of _ parts2] exI [of _ "gone1 @ gone2"]) simp
qed

lemma init_lines_inv:
  assumes "gc_log_max_backups g = int k" "0 < gc_log_max_size g" "ii_dir io" "ii_open io" "lg_files start = (\<lambda>_. None)"
  shows "lines_inv k m g (\<lambda>_. []) (snd (logger_init g tm io (Some path) level start))" "lg_level (snd (logger_init g tm io (Some path) level start)) = level"
proof -
  have "0 < unat (gc_log_max_size g)" using assms(2) by (simp add: word_less_nat_alt)
  then show "lines_inv k m g (\<lambda>_. []) (snd (logger_init g tm io (Some path) level start))"
    using assms by (auto simp: lines_inv_def logger_init_def append_text_def file_text_def Let_def)
  show "lg_level (snd (logger_init g tm io (Some path) level start)) = level" using assms by (simp add: logger_init_def Let_def)
qed

text \<open>The text log keeps the newest lines: after a start with no files and any calls that go well, the lines in the files, from the oldest backup to the current file and without the
  notes of rotations, are the end of the sequence of all lines at or above the level, whole and in order, and no file is longer than the limit by more than one line
  and 400 characters.\<close>

theorem log_keeps_newest:
  assumes "gc_log_max_backups g = int k" "0 < gc_log_max_size g" "unat (gc_log_max_size g) + m + 400 < 2 ^ 64" "ii_dir io" "ii_open io"
    "lg_files start = (\<lambda>_. None)" "list_all (call_good m) cs" "l = fold (do_log g) cs (snd (logger_init g tm io (Some path) level start))"
  shows "\<exists>parts gone. map call_line (filter (\<lambda>c. level \<le> lc_level c) cs) = gone @ kept k parts
    \<and> (\<forall>i\<le>k. file_text l i = concat (map snd (parts i)) \<and> length (file_text l i) < unat (gc_log_max_size g) + m + 400)"
proof -
  have e: "kept k (\<lambda>_. []) = []" by (simp add: kept_def lines_of_def)
  obtain parts gone where p: "lines_inv k m g parts l"
      "gone @ kept k parts = kept k (\<lambda>_. []) @ map call_line (filter (\<lambda>c. lg_level (snd (logger_init g tm io (Some path) level start)) \<le> lc_level c) cs)"
    using logs_inv [OF init_lines_inv(1) [OF assms(1,2,4,5,6)] assms(7,3,2)] unfolding assms(8) by blast
  then have "map call_line (filter (\<lambda>c. level \<le> lc_level c) cs) = gone @ kept k parts" by (simp add: e init_lines_inv(2) [OF assms(1,2,4,5,6)])
  moreover have "\<forall>i\<le>k. file_text l i = concat (map snd (parts i)) \<and> length (file_text l i) < unat (gc_log_max_size g) + m + 400"
    using p(1) unfolding lines_inv_def by blast
  ultimately show ?thesis by blast
qed

definition log_config_example :: global_config where
  "log_config_example = g_config\<lparr>gc_log_max_size := 1000, gc_log_max_backups := 5\<rparr>"

definition rotate_example :: rotate_io where
  "rotate_example = \<lparr>ro_unlink = True, ro_rename = \<lambda>_. True, ro_open = True\<rparr>"

definition init_io_example :: init_io where
  "init_io_example = \<lparr>ii_dir = True, ii_mkdir = True, ii_stat = True, ii_first_open = True, ii_rotate = rotate_example, ii_open = True, ii_stat_again = True\<rparr>"

definition log_call_example :: log_call where
  "log_call_example = \<lparr>lc_time = None, lc_io = \<lparr>li_stat = True, li_rotate = rotate_example, li_printed = True, li_taken = 4096\<rparr>,
     lc_level = LOG_LEVEL_WARN, lc_file = ''main.c'', lc_line = 7, lc_msg = ''started''\<rparr>"

definition logger_example :: logger where
  "logger_example = \<lparr>lg_files = \<lambda>_. None, lg_file = False, lg_level = LOG_LEVEL_INFO, lg_path = [], lg_bytes = 0\<rparr>"

lemma log_call_example_good: "call_good 100 log_call_example"
proof -
  have "length (call_line log_call_example) \<le> 100"
    by (simp add: log_call_example_def call_line_def log_line_def log_stamp_def log_level_str_def dec_int_def)
  then show ?thesis by (simp add: call_good_def) (simp add: log_call_example_def rotate_example_def rotate_good_def log_stamp_def)
qed

lemma log_keeps_newest_witness:
  "\<exists>parts gone. map call_line (filter (\<lambda>c. LOG_LEVEL_INFO \<le> lc_level c) [log_call_example, log_call_example]) = gone @ kept 5 parts
    \<and> (\<forall>i\<le>5. file_text (fold (do_log log_config_example) [log_call_example, log_call_example]
             (snd (logger_init log_config_example None init_io_example (Some ''log'') LOG_LEVEL_INFO logger_example))) i = concat (map snd (parts i))
        \<and> length (file_text (fold (do_log log_config_example) [log_call_example, log_call_example]
             (snd (logger_init log_config_example None init_io_example (Some ''log'') LOG_LEVEL_INFO logger_example))) i) < unat (gc_log_max_size log_config_example) + 100 + 400)"
  by (rule log_keeps_newest) (simp_all add: log_call_example_good log_config_example_def init_io_example_def logger_example_def)

subsection \<open>A file that is lost stays lost\<close>

text \<open>When the new file cannot be opened at the end of a rotation, no later line is written anywhere: nothing opens the file again.\<close>

theorem lost_log_stays_lost:
  assumes "\<not> lg_file l" "lg_files l 0 = None"
  shows "fold (do_log g) cs l = l"
proof -
  have "do_log g c l = l" for c using assms by (simp add: do_log_def logger_log_def logger_check_and_rotate_def Let_def)
  then show ?thesis by (induction cs) simp_all
qed

end
