(* ===== verification/MessageRing.thy ===== *)
theory MessageRing
  imports Prelude
begin

text \<open>
  The queue of messages of a fixed length and the pair of buffers of rng.c, for use by other programs on the board. A client writes a message to the place it is
  given and then declares it done. A pointer into the buffer is the number of bytes before it.
\<close>

subsection \<open>The queue\<close>

record rng =
  rn_buf :: bytes
  rn_msgLen :: u32
  rn_maxMsgs :: u32
  rn_inIndex :: u32
  rn_outIndex :: u32

definition rngGetWriteBuf :: "rng \<Rightarrow> u32" where
  "rngGetWriteBuf r = rn_inIndex r * rn_msgLen r"

definition rngWriteDone :: "rng \<Rightarrow> rng" where
  "rngWriteDone r =
     (let added = rn_inIndex r + 1;
          added = (if added \<ge> rn_maxMsgs r then 0 else added)
      in if added = rn_outIndex r then r else r\<lparr>rn_inIndex := added\<rparr>)"

definition rngGetReadBuf :: "rng \<Rightarrow> u32" where
  "rngGetReadBuf r = rn_outIndex r * rn_msgLen r"

definition rngReadDone :: "rng \<Rightarrow> rng" where
  "rngReadDone r =
     (let added = rn_outIndex r + 1;
          added = (if added \<ge> rn_maxMsgs r then 0 else added)
      in r\<lparr>rn_outIndex := added\<rparr>)"

text \<open>The difference is that of two values of type \<open>int\<close>.\<close>

definition rngGetNMsgs :: "rng \<Rightarrow> u32" where
  "rngGetNMsgs r =
     (let n = sint (rn_inIndex r) - sint (rn_outIndex r)
      in if n < 0 then of_int n + rn_maxMsgs r else of_int n)"

definition rngClear :: "rng \<Rightarrow> rng" where
  "rngClear r = r\<lparr>rn_inIndex := 0, rn_outIndex := 0\<rparr>"

definition rngInit :: "rng \<Rightarrow> rng" where
  "rngInit r = rngClear r"

definition rngIsFul :: "rng \<Rightarrow> bool" where
  "rngIsFul r =
     (let added = rn_inIndex r + 1;
          added = (if added \<ge> rn_maxMsgs r then 0 else added)
      in added = rn_outIndex r)"

subsection \<open>The pair of buffers\<close>

definition pingpGetWriteBuf :: "rng \<Rightarrow> u32" where
  "pingpGetWriteBuf p = rn_inIndex p * rn_msgLen p"

definition pingpGetReadBuf :: "rng \<Rightarrow> u32" where
  "pingpGetReadBuf p = rn_outIndex p * rn_msgLen p"

definition pingpSwap :: "rng \<Rightarrow> rng" where
  "pingpSwap p = (if rn_inIndex p = 0 then p\<lparr>rn_inIndex := 1, rn_outIndex := 0\<rparr> else p\<lparr>rn_inIndex := 0, rn_outIndex := 1\<rparr>)"

fun zero_loop :: "nat \<Rightarrow> nat \<Rightarrow> bytes \<Rightarrow> bytes option" where
  "zero_loop i 0 buf = Some buf"
| "zero_loop i (Suc left) buf = do { buf \<leftarrow> arr_set buf i 0; zero_loop (i + 1) left buf }"

definition pingpInit :: "rng \<Rightarrow> rng option" where
  "pingpInit p = do {
     buf \<leftarrow> zero_loop 0 (unat (rn_msgLen p * 2)) (rn_buf p);
     Some (p\<lparr>rn_inIndex := 0, rn_outIndex := 1, rn_maxMsgs := 2, rn_buf := buf\<rparr>) }"

subsection \<open>Clients\<close>

text \<open>A client that writes or reads one message.\<close>

definition rng_write :: "bytes \<Rightarrow> rng \<Rightarrow> rng option" where
  "rng_write m r = do {
     buf \<leftarrow> mem_copy (rn_buf r) (unat (rngGetWriteBuf r)) m 0 (unat (rn_msgLen r));
     Some (rngWriteDone (r\<lparr>rn_buf := buf\<rparr>)) }"

definition rng_read :: "rng \<Rightarrow> (bytes \<times> rng) option" where
  "rng_read r = do {
     m \<leftarrow> mem_read (rn_buf r) (unat (rngGetReadBuf r)) (unat (rn_msgLen r));
     Some (m, rngReadDone r) }"

definition pingp_write :: "bytes \<Rightarrow> rng \<Rightarrow> rng option" where
  "pingp_write m p = map_option (\<lambda>buf. p\<lparr>rn_buf := buf\<rparr>) (mem_copy (rn_buf p) (unat (pingpGetWriteBuf p)) m 0 (unat (rn_msgLen p)))"

definition pingp_read :: "rng \<Rightarrow> bytes option" where
  "pingp_read p = mem_read (rn_buf p) (unat (pingpGetReadBuf p)) (unat (rn_msgLen p))"

subsection \<open>The messages in the queue\<close>

definition rng_ok :: "rng \<Rightarrow> bool" where
  "rng_ok r \<longleftrightarrow> rn_inIndex r < rn_maxMsgs r \<and> rn_outIndex r < rn_maxMsgs r \<and> unat (rn_maxMsgs r) < 2 ^ 31
     \<and> length (rn_buf r) = unat (rn_maxMsgs r) * unat (rn_msgLen r) \<and> length (rn_buf r) < 2 ^ 32"

definition slot_at :: "rng \<Rightarrow> nat \<Rightarrow> bytes" where
  "slot_at r i = take (unat (rn_msgLen r)) (drop (i * unat (rn_msgLen r)) (rn_buf r))"

definition rng_count :: "rng \<Rightarrow> nat" where
  "rng_count r = (unat (rn_inIndex r) + unat (rn_maxMsgs r) - unat (rn_outIndex r)) mod unat (rn_maxMsgs r)"

definition rng_msgs :: "rng \<Rightarrow> bytes list" where
  "rng_msgs r = map (\<lambda>i. slot_at r ((unat (rn_outIndex r) + i) mod unat (rn_maxMsgs r))) [0..<rng_count r]"

lemma mod_once: "a < 2 * n \<Longrightarrow> a mod n = (if a < n then a else a - n)" for a n :: nat
  by (auto simp: le_mod_geq)

lemma ring_distance: "i < n \<Longrightarrow> j < n \<Longrightarrow> (i + n - j) mod n = (if j \<le> i then i - j else i + n - j)" for i j n :: nat
  by (subst mod_once) auto

lemma next_index:
  assumes "unat i < unat n" "unat n < 2 ^ 31"
  shows "unat (if (i :: u32) + 1 \<ge> n then 0 else i + 1) = (unat i + 1) mod unat n"
proof -
  have "unat (i + 1) = unat i + 1" using assms by (simp add: unat_word_ariths)
  then show ?thesis using assms by (auto simp: word_le_nat_alt mod_if)
qed

lemma next_index_word:
  assumes "rng_ok r"
  shows "unat (if rn_inIndex r + 1 \<ge> rn_maxMsgs r then 0 else rn_inIndex r + 1) = (unat (rn_inIndex r) + 1) mod unat (rn_maxMsgs r)"
    "unat (if rn_outIndex r + 1 \<ge> rn_maxMsgs r then 0 else rn_outIndex r + 1) = (unat (rn_outIndex r) + 1) mod unat (rn_maxMsgs r)"
  by (rule next_index; use assms in \<open>simp add: rng_ok_def word_less_nat_alt\<close>)+

lemma rng_full_iff:
  assumes "rng_ok r"
  shows "rngIsFul r \<longleftrightarrow> rng_count r = unat (rn_maxMsgs r) - 1"
proof -
  let ?i = "unat (rn_inIndex r)" and ?o = "unat (rn_outIndex r)" and ?n = "unat (rn_maxMsgs r)"
  have b: "?i < ?n" "?o < ?n" using assms by (auto simp: rng_ok_def word_less_nat_alt)
  have "rngIsFul r \<longleftrightarrow> unat (if rn_inIndex r + 1 \<ge> rn_maxMsgs r then 0 else rn_inIndex r + 1) = ?o"
    unfolding rngIsFul_def Let_def by (simp only: word_unat_eq_iff)
  then have "rngIsFul r \<longleftrightarrow> (?i + 1) mod ?n = ?o" using next_index_word(1) [OF assms] by simp
  then show ?thesis using b by (auto simp: rng_count_def ring_distance mod_once split: if_splits)
qed

lemma slot_update:
  fixes L :: nat
  assumes "i < n" "j < n" "length buf = n * L" "length m = L"
  shows "take L (drop (j * L) (take (i * L) buf @ m @ drop (i * L + L) buf)) = (if j = i then m else take L (drop (j * L) buf))"
proof -
  have i: "i * L + L \<le> length buf" using assms(1,3) mult_le_mono1 [of "Suc i" n L] by simp
  consider "j = i" | "j < i" "j * L + L \<le> i * L" | "i < j" "i * L + L \<le> j * L"
    using mult_le_mono1 [of "Suc j" i L] mult_le_mono1 [of "Suc i" j L] by (cases i j rule: linorder_cases) auto
  then show ?thesis
  proof cases
    case 1
    then show ?thesis using i assms(4) by simp
  next
    case 2
    then have a: "length buf - j * L > i * L - j * L \<or> L = 0" "L \<le> i * L - j * L" using i by auto
    then show ?thesis using 2 i assms(4) by (auto simp: drop_take min_def)
  next
    case 3
    then have "j * L - (i * L + L) + (i * L + L) = j * L" by simp
    then show ?thesis using 3 i assms(4) by (simp add: add.commute)
  qed
qed

lemma index_offset:
  assumes "rng_ok r" "unat k < unat (rn_maxMsgs r)"
  shows "unat (k * rn_msgLen r) = unat k * unat (rn_msgLen r)" "unat k * unat (rn_msgLen r) + unat (rn_msgLen r) \<le> length (rn_buf r)"
proof -
  let ?L = "unat (rn_msgLen r)"
  have l: "length (rn_buf r) = unat (rn_maxMsgs r) * ?L" "length (rn_buf r) < 2 ^ 32" using assms(1) by (auto simp: rng_ok_def)
  show b: "unat k * ?L + ?L \<le> length (rn_buf r)" using assms(2) mult_le_mono1 [of "Suc (unat k)" "unat (rn_maxMsgs r)" ?L] by (simp add: l(1))
  show "unat (k * rn_msgLen r) = unat k * ?L" using b l(2) by (simp add: unat_word_ariths)
qed

lemma rng_write_spec:
  assumes "rng_ok r" "length m = unat (rn_msgLen r)"
  shows "\<exists>r'. rng_write m r = Some r' \<and> rng_ok r' \<and> rn_maxMsgs r' = rn_maxMsgs r \<and> rn_msgLen r' = rn_msgLen r
    \<and> rng_msgs r' = rng_msgs r @ (if rngIsFul r then [] else [m])"
proof -
  let ?i = "unat (rn_inIndex r)" and ?o = "unat (rn_outIndex r)" and ?n = "unat (rn_maxMsgs r)" and ?L = "unat (rn_msgLen r)"
  have b: "?i < ?n" "?o < ?n" "length (rn_buf r) = ?n * ?L" using assms(1) by (auto simp: rng_ok_def word_less_nat_alt)
  note off = index_offset [OF assms(1) b(1)]
  define buf where "buf = take (?i * ?L) (rn_buf r) @ m @ drop (?i * ?L + ?L) (rn_buf r)"
  define r1 where "r1 = r\<lparr>rn_buf := buf\<rparr>"
  have w: "rng_write m r = Some (rngWriteDone r1)" using off assms(2) by (simp add: rng_write_def rngGetWriteBuf_def buf_def r1_def)
  have len: "length buf = length (rn_buf r)" using off(2) assms(2) by (simp add: buf_def)
  have ok1: "rng_ok r1" using assms(1) len by (simp add: rng_ok_def r1_def)
  have sl: "slot_at r1 j = (if j = ?i then m else slot_at r j)" if "j < ?n" for j
    using slot_update [OF b(1) that b(3) assms(2)] by (simp add: slot_at_def r1_def buf_def)
  have c1: "rng_count r1 = rng_count r" "rngIsFul r1 = rngIsFul r" by (simp_all add: rng_count_def r1_def rngIsFul_def)
  have cnt: "rng_count r < ?n" using b by (simp add: rng_count_def)
  have ne: "(?o + k) mod ?n \<noteq> ?i" if "k < rng_count r" for k
    using that b by (auto simp: rng_count_def ring_distance mod_once split: if_splits)
  have m1: "rng_msgs r1 = rng_msgs r"
    unfolding rng_msgs_def c1 using sl ne b by (intro map_cong) (auto simp: r1_def)
  show ?thesis
  proof (cases "rngIsFul r")
    case True
    then have "rngWriteDone r1 = r1" using c1(2) by (simp add: rngWriteDone_def rngIsFul_def Let_def)
    then show ?thesis using w ok1 m1 True by (simp add: r1_def)
  next
    case False
    define r2 where "r2 = r1\<lparr>rn_inIndex := if rn_inIndex r + 1 \<ge> rn_maxMsgs r then 0 else rn_inIndex r + 1\<rparr>"
    have r2: "rngWriteDone r1 = r2" using False c1(2) by (simp add: rngWriteDone_def rngIsFul_def r2_def r1_def Let_def)
    have i2: "unat (rn_inIndex r2) = (?i + 1) mod ?n" using next_index_word(1) [OF assms(1)] by (simp add: r2_def)
    have s2: "rn_maxMsgs r2 = rn_maxMsgs r" "rn_outIndex r2 = rn_outIndex r" "rn_msgLen r2 = rn_msgLen r" "rn_buf r2 = buf" by (simp_all add: r2_def r1_def)
    have "rng_ok r2" using assms(1) i2 b len by (simp add: rng_ok_def word_less_nat_alt s2)
    moreover have "rng_count r2 = rng_count r + 1"
      using False b unfolding rng_full_iff [OF assms(1)] rng_count_def i2 by (auto simp: r2_def r1_def ring_distance mod_once split: if_splits)
    moreover have "(?o + rng_count r) mod ?n = ?i" using b by (auto simp: rng_count_def ring_distance mod_once)
    then have "slot_at r1 ((?o + rng_count r) mod ?n) = m" using sl b(1) by simp
    then have "map (\<lambda>k. slot_at r2 ((unat (rn_outIndex r2) + k) mod unat (rn_maxMsgs r2))) [0..<rng_count r + 1] = rng_msgs r1 @ [m]"
      unfolding rng_msgs_def c1 by (simp add: r2_def r1_def slot_at_def)
    ultimately have "rng_ok r2" "rng_msgs r2 = rng_msgs r @ [m]" using m1 by (simp_all add: rng_msgs_def [of r2])
    then show ?thesis using w r2 s2 False by simp
  qed
qed

lemma rng_read_spec:
  assumes "rng_ok r" "rng_msgs r \<noteq> []"
  shows "\<exists>r'. rng_read r = Some (hd (rng_msgs r), r') \<and> rng_ok r' \<and> rn_maxMsgs r' = rn_maxMsgs r \<and> rn_msgLen r' = rn_msgLen r \<and> rng_msgs r' = tl (rng_msgs r)"
proof -
  let ?i = "unat (rn_inIndex r)" and ?o = "unat (rn_outIndex r)" and ?n = "unat (rn_maxMsgs r)" and ?L = "unat (rn_msgLen r)"
  have b: "?i < ?n" "?o < ?n" using assms(1) by (auto simp: rng_ok_def word_less_nat_alt)
  note off = index_offset [OF assms(1) b(2)]
  define r' where "r' = rngReadDone r"
  have o': "unat (rn_outIndex r') = (?o + 1) mod ?n" using next_index_word(2) [OF assms(1)] by (simp add: r'_def rngReadDone_def Let_def)
  have same: "rn_buf r' = rn_buf r" "rn_maxMsgs r' = rn_maxMsgs r" "rn_msgLen r' = rn_msgLen r" "rn_inIndex r' = rn_inIndex r"
    by (simp_all add: r'_def rngReadDone_def Let_def)
  have "rng_ok r'" using assms(1) o' b by (simp add: rng_ok_def same word_less_nat_alt)
  moreover obtain k where k: "rng_count r = Suc k" using assms(2) by (cases "rng_count r") (auto simp: rng_msgs_def)
  have k': "rng_count r' = k" using k b unfolding rng_count_def o' same by (auto simp: ring_distance mod_once split: if_splits)
  have "rng_msgs r = slot_at r ?o # rng_msgs r'"
  proof -
    have "[0..<Suc k] = 0 # map Suc [0..<k]" by (simp add: map_Suc_upt upt_conv_Cons)
    then show ?thesis using b unfolding rng_msgs_def k k' o' same by (simp add: slot_at_def same mod_simps)
  qed
  moreover have "rng_read r = Some (slot_at r ?o, r')" using off by (simp add: rng_read_def rngGetReadBuf_def slot_at_def r'_def)
  ultimately show ?thesis using same by simp
qed

lemma rng_number:
  assumes "rng_ok r"
  shows "unat (rngGetNMsgs r) = length (rng_msgs r)"
proof -
  let ?i = "unat (rn_inIndex r)" and ?o = "unat (rn_outIndex r)" and ?n = "unat (rn_maxMsgs r)"
  have b: "?i < ?n" "?o < ?n" "?n < 2 ^ 31" using assms by (auto simp: rng_ok_def word_less_nat_alt)
  have "sint (rn_inIndex r) = int ?i" "sint (rn_outIndex r) = int ?o"
    using b by (simp_all add: u32_sint)
  moreover have "uint (rn_inIndex r) < uint (rn_outIndex r) \<longleftrightarrow> ?i < ?o" using of_nat_less_iff [of ?i ?o, where 'a = int] by simp
  moreover have "unat (of_int (int ?i - int ?o) + rn_maxMsgs r) = ?i + ?n - ?o" if "?i < ?o"
    using that b by (simp add: unat_word_ariths unat_sub_if_size word_size word_le_nat_alt mod_once)
  moreover have "unat (of_int (int ?i - int ?o) :: u32) = ?i - ?o" if "\<not> ?i < ?o"
    using that b by (simp add: unat_sub_if_size word_size word_le_nat_alt)
  ultimately show ?thesis using b by (auto simp: rngGetNMsgs_def Let_def rng_msgs_def rng_count_def ring_distance)
qed

subsection \<open>Properties\<close>

text \<open>Clients in any order; the result are the messages read.\<close>

datatype rng_op = Rng_put bytes | Rng_get

fun rng_run :: "rng_op list \<Rightarrow> rng \<Rightarrow> (bytes list \<times> rng) option" where
  "rng_run [] r = Some ([], r)"
| "rng_run (Rng_put m # ops) r = do { r \<leftarrow> rng_write m r; rng_run ops r }"
| "rng_run (Rng_get # ops) r = do { (m, r) \<leftarrow> rng_read r; (ms, r) \<leftarrow> rng_run ops r; Some (m # ms, r) }"

text \<open>The queue it stands for: a list of less than \<open>n\<close> messages, which drops what comes when it is full. Reading from the empty list has no meaning.\<close>

fun queue_run :: "nat \<Rightarrow> rng_op list \<Rightarrow> bytes list \<Rightarrow> (bytes list \<times> bytes list) option" where
  "queue_run n [] q = Some ([], q)"
| "queue_run n (Rng_put m # ops) q = queue_run n ops (if length q + 1 < n then q @ [m] else q)"
| "queue_run n (Rng_get # ops) [] = None"
| "queue_run n (Rng_get # ops) (m # q) = map_option (\<lambda>(ms, q). (m # ms, q)) (queue_run n ops q)"

fun put_fits :: "nat \<Rightarrow> rng_op \<Rightarrow> bool" where
  "put_fits l (Rng_put m) \<longleftrightarrow> length m = l"
| "put_fits l Rng_get \<longleftrightarrow> True"

lemma rng_full_length: "rng_ok r \<Longrightarrow> rngIsFul r \<longleftrightarrow> \<not> length (rng_msgs r) + 1 < unat (rn_maxMsgs r)"
proof -
  assume ok: "rng_ok r"
  then have "0 < unat (rn_maxMsgs r)" by (auto simp: rng_ok_def word_less_nat_alt)
  then have "rng_count r < unat (rn_maxMsgs r)" by (simp add: rng_count_def)
  then show ?thesis unfolding rng_full_iff [OF ok] by (auto simp: rng_msgs_def)
qed

text \<open>C35. For clients that read only when a message is there, the ring is a queue: in whatever order they write and read, the messages come out in the order in which they went in, each
  as it was written; a message that is written while the ring is full, that is while it holds one less than \<open>maxMsgs\<close>, is dropped and disturbs none of the others. At any time
  \<open>rngGetNMsgs\<close> is the number of messages waiting, so that a client can tell. The ring itself does not check: \<open>empty_read_fills\<close> shows what a read from the empty ring does.\<close>

theorem message_ring_fifo:
  assumes "rng_ok r" "list_all (put_fits (unat (rn_msgLen r))) ops" "queue_run (unat (rn_maxMsgs r)) ops (rng_msgs r) = Some (ms, q)"
  shows "\<exists>r'. rng_run ops r = Some (ms, r') \<and> rng_ok r' \<and> rng_msgs r' = q \<and> unat (rngGetNMsgs r') = length q"
  using assms
proof (induction ops arbitrary: r ms)
  case Nil
  then show ?case by (simp add: rng_number)
next
  case (Cons op ops)
  show ?case
  proof (cases op)
    case (Rng_put m)
    have l: "length m = unat (rn_msgLen r)" using Cons.prems(2) Rng_put by simp
    obtain r1 where r1: "rng_write m r = Some r1" "rng_ok r1" "rn_maxMsgs r1 = rn_maxMsgs r" "rn_msgLen r1 = rn_msgLen r"
        "rng_msgs r1 = rng_msgs r @ (if rngIsFul r then [] else [m])"
      using rng_write_spec [OF Cons.prems(1) l] by blast
    have "rng_msgs r1 = (if length (rng_msgs r) + 1 < unat (rn_maxMsgs r) then rng_msgs r @ [m] else rng_msgs r)"
      using r1(5) rng_full_length [OF Cons.prems(1)] by simp
    then show ?thesis using Cons.IH [OF r1(2)] Cons.prems(2,3) r1(1,3,4) Rng_put by simp
  next
    case Rng_get
    obtain m rest where c: "rng_msgs r = m # rest" using Cons.prems(3) Rng_get by (cases "rng_msgs r") simp_all
    then obtain r1 where r1: "rng_read r = Some (m, r1)" "rng_ok r1" "rn_maxMsgs r1 = rn_maxMsgs r" "rn_msgLen r1 = rn_msgLen r" "rng_msgs r1 = rest"
      using rng_read_spec [OF Cons.prems(1)] by auto
    moreover obtain ms' where "queue_run (unat (rn_maxMsgs r)) ops rest = Some (ms', q)" "ms = m # ms'" using Cons.prems(3) Rng_get c by auto
    ultimately show ?thesis using Cons.IH [OF r1(2)] Cons.prems(2) Rng_get by fastforce
  qed
qed

theorem message_ring_fifo_witness:
  "\<exists>r'. rng_run [Rng_put [1, 2], Rng_put [3, 4], Rng_put [5, 6], Rng_get, Rng_put [7, 8], Rng_get, Rng_get]
       \<lparr>rn_buf = replicate 6 0, rn_msgLen = 2, rn_maxMsgs = 3, rn_inIndex = 0, rn_outIndex = 0\<rparr> = Some ([[1, 2], [3, 4], [7, 8]], r') \<and> unat (rngGetNMsgs r') = 0"
proof -
  let ?r = "\<lparr>rn_buf = replicate 6 0, rn_msgLen = 2, rn_maxMsgs = 3, rn_inIndex = 0, rn_outIndex = 0\<rparr> :: rng"
  have "rng_ok ?r" "rng_msgs ?r = []" by (simp_all add: rng_ok_def rng_msgs_def rng_count_def)
  then show ?thesis using message_ring_fifo [of ?r "[Rng_put [1, 2], Rng_put [3, 4], Rng_put [5, 6], Rng_get, Rng_put [7, 8], Rng_get, Rng_get]"] by auto
qed

text \<open>The pair of buffers: a write is not seen by the reader before the buffers are swapped, and then it is what the reader gets.\<close>

definition pingp_ok :: "rng \<Rightarrow> bool" where
  "pingp_ok p \<longleftrightarrow> (rn_inIndex p, rn_outIndex p) \<in> {(0, 1), (1, 0)} \<and> length (rn_buf p) = 2 * unat (rn_msgLen p) \<and> length (rn_buf p) < 2 ^ 32"

theorem pingp_swaps:
  assumes "pingp_ok p" "length m = unat (rn_msgLen p)"
  shows "\<exists>p'. pingp_write m p = Some p' \<and> pingp_read p' = pingp_read p \<and> pingp_read (pingpSwap p') = Some m \<and> pingp_ok (pingpSwap p')"
proof -
  let ?L = "unat (rn_msgLen p)"
  consider "rn_inIndex p = 0" "rn_outIndex p = 1" | "rn_inIndex p = 1" "rn_outIndex p = 0" using assms(1) by (auto simp: pingp_ok_def)
  then show ?thesis
    by cases (use assms in \<open>auto simp: pingp_ok_def pingp_write_def pingp_read_def pingpSwap_def pingpGetWriteBuf_def pingpGetReadBuf_def\<close>)
qed

text \<open>Reading on when the ring is empty makes it full of old messages: only the number tells.\<close>

theorem empty_read_fills:
  assumes "rng_ok r" "rng_msgs r = []"
  shows "length (rng_msgs (rngReadDone r)) = unat (rn_maxMsgs r) - 1"
proof -
  have b: "unat (rn_inIndex r) < unat (rn_maxMsgs r)" "unat (rn_outIndex r) < unat (rn_maxMsgs r)" using assms(1) by (auto simp: rng_ok_def word_less_nat_alt)
  have "unat (rn_inIndex r) = unat (rn_outIndex r)" using assms(2) b by (auto simp: rng_msgs_def rng_count_def ring_distance split: if_splits)
  moreover have "unat (rn_outIndex (rngReadDone r)) = (unat (rn_outIndex r) + 1) mod unat (rn_maxMsgs r)"
    using next_index_word(2) [OF assms(1)] by (simp add: rngReadDone_def Let_def)
  moreover have "rn_maxMsgs (rngReadDone r) = rn_maxMsgs r" "rn_inIndex (rngReadDone r) = rn_inIndex r" by (simp_all add: rngReadDone_def Let_def)
  ultimately show ?thesis using b by (auto simp: rng_msgs_def rng_count_def ring_distance mod_once)
qed

end
