(* ===== verification/FpgaToCpri.thy ===== *)
theory FpgaToCpri
  imports InfoElements FpgaProtocol AlarmManager
begin

text \<open>
  The conversion of a status frame of the FPGA to messages for the baseband unit, from fpga_to_cpri.c. Its \<open>add_ie_to_payload\<close> is the \<open>add_ie\<close> of the other modules.
  No other part of the program calls these functions; the handlers of the queries build their answers themselves.
\<close>

subsection \<open>The conversions\<close>

definition add_ie_to_payload :: "bytes option \<Rightarrow> u16 \<Rightarrow> bytes \<Rightarrow> ie_state \<Rightarrow> (int \<times> ie_state) option" where
  "add_ie_to_payload = add_ie"

text \<open>The message that all three build: a zeroed header apart from the number and the port.\<close>

definition converted :: "cpri_msg_type \<Rightarrow> fpga_status_data \<Rightarrow> ie_state \<Rightarrow> cpri_message" where
  "converted t d st =
     \<lparr>cm_header = \<lparr>ch_msg_id = cpri_msg_code t, ch_msg_length = 0, ch_paau_id = 0, ch_bbu_id = 0, ch_port_num = sd_main_fiber_num d, ch_serial_num = 0\<rparr>,
      cm_payload = map_option Outside (fst st), cm_payload_len = snd st\<rparr>"

definition fpga_to_cpri_status_response :: "bytes option \<Rightarrow> fpga_status_frame \<Rightarrow> (int \<times> cpri_message) option" where
  "fpga_to_cpri_status_response heap fpga_status = do {
     let d = sf_data fpga_status;
     let lo_freq_100khz = fpga_decode_frequency (sd_lo_frequency d) div 100;
     st \<leftarrow> put_ies heap [
        (353, [0, 0] @ le32 0),
        (354, le32 lo_freq_100khz @ le32 (sd_lo_lock_status d)),
        (355, le32 (sd_clock_sync_status d)),
        (356, le32 (sd_phased_array_work_mode d)),
        (357, le32 (sd_cpri_work_mode d))] (None, 0);
     Some (SUCCESS, converted MSG_PAAU_STATUS_QUERY_RSP d st) }"

definition fpga_to_cpri_param_response :: "bytes option \<Rightarrow> fpga_status_frame \<Rightarrow> (int \<times> cpri_message) option" where
  "fpga_to_cpri_param_response heap fpga_status = do {
     let d = sf_data fpga_status;
     st \<leftarrow> put_ies heap (map (\<lambda>i. (453, [of_nat (i + 1), if i = 0 then sd_temp1 d else if i = 1 then sd_temp2 d else sd_temp3 d])) [0..<3]
        @ [(457, 0 # le16 (sd_current_output_power d)), (458, le32 (sd_toffset d)), (459, le32 (sd_t2a d)), (460, le32 (sd_ta3 d))]) (None, 0);
     Some (SUCCESS, converted MSG_PAAU_PARAM_QUERY_RSP d st) }"

text \<open>Temperatures are signed. The five bytes behind the text of the time are those that the stack holds.\<close>

definition has_alarm :: "fpga_status_data \<Rightarrow> bool" where
  "has_alarm d \<longleftrightarrow>
     sint (sd_temp1 d) > sint (sd_temp1_high d) \<or> sint (sd_temp1 d) < sint (sd_temp1_low d)
     \<or> sint (sd_temp2 d) > sint (sd_temp2_high d) \<or> sint (sd_temp2 d) < sint (sd_temp2_low d)
     \<or> sint (sd_temp3 d) > sint (sd_temp3_high d) \<or> sint (sd_temp3 d) < sint (sd_temp3_low d)
     \<or> sd_lo_lock_status d \<noteq> 0 \<or> sd_clock_sync_status d \<noteq> 0"

definition compact_time :: "local_time \<Rightarrow> string" where
  "compact_time t = (case t of (y, mo, d, h, mi, s) \<Rightarrow> take 19 (pad_int 4 y @ pad_int 2 mo @ pad_int 2 d @ pad_int 2 h @ pad_int 2 mi @ pad_int 2 s))"

definition alarm_data :: "bytes \<Rightarrow> local_time \<Rightarrow> bytes" where
  "alarm_data stack t =
     le16 1 @ le32 0x1001 @ le32 0 @ le32 0 @ take 20 (map of_char (compact_time t) @ [0] @ drop (length (compact_time t) + 1) stack)
     @ char_field 100 ''FPGA Status Alarm''"

definition fpga_to_cpri_alarm_report :: "bytes option \<Rightarrow> bytes \<Rightarrow> local_time option \<Rightarrow> fpga_status_frame \<Rightarrow> (int \<times> cpri_message option) option" where
  "fpga_to_cpri_alarm_report heap stack tm_info fpga_status =
     (let d = sf_data fpga_status
      in if \<not> has_alarm d then Some (ERROR_GENERAL, None)
         else case tm_info of
                None \<Rightarrow> Some (ERROR_GENERAL, Some (converted MSG_ALARM_REPORT_REQ d (None, 0)))
              | Some t \<Rightarrow> do {
                  (ret, st) \<leftarrow> add_ie_to_payload heap 1001 (alarm_data stack t) (None, 0);
                  Some (SUCCESS, Some (converted MSG_ALARM_REPORT_REQ d st)) })"

subsection \<open>What the messages carry\<close>

lemma converted_payload:
  assumes "length h = 4096" "length (ie_bytes rs) \<le> 4096" "rs \<noteq> []"
  shows "\<exists>st. put_ies (Some h) rs (None, 0) = Some st \<and> unat (cm_payload_len (converted t d st)) = length (ie_bytes rs)
    \<and> take (length (ie_bytes rs)) (message_bytes [] (converted t d st)) = ie_bytes rs"
proof -
  obtain st where st: "put_ies (Some h) rs (None, 0) = Some st" "ie_built st ([] @ rs)"
    using put_ies_built [OF assms(1) ie_built_start, of rs] assms(2) by auto
  then have b: "ie_built st rs" by simp
  then obtain buf where "fst st = Some buf" using assms(3) by (auto simp: ie_built_def split: option.splits)
  then show ?thesis using st(1) b by (auto simp: ie_built_def converted_def message_bytes_def payload_bytes_def u32_of_nat)
qed

text \<open>The conversions carry the values of the frame: with memory for the buffer, the payloads are exactly these elements.\<close>

theorem conversions_carry_status:
  fixes fr :: fpga_status_frame
  assumes "length h = 4096"
  defines "d \<equiv> sf_data fr"
  shows "\<exists>m n. fpga_to_cpri_status_response (Some h) fr = Some (SUCCESS, m) \<and> fpga_to_cpri_param_response (Some h) fr = Some (SUCCESS, n)
    \<and> take (unat (cm_payload_len m)) (message_bytes [] m) = ie_bytes [(353, replicate 6 0), (354, le32 (fpga_decode_frequency (sd_lo_frequency d) div 100) @ le32 (sd_lo_lock_status d)),
        (355, le32 (sd_clock_sync_status d)), (356, le32 (sd_phased_array_work_mode d)), (357, le32 (sd_cpri_work_mode d))]
    \<and> take (unat (cm_payload_len n)) (message_bytes [] n) = ie_bytes [(453, [1, sd_temp1 d]), (453, [2, sd_temp2 d]), (453, [3, sd_temp3 d]),
        (457, 0 # le16 (sd_current_output_power d)), (458, le32 (sd_toffset d)), (459, le32 (sd_t2a d)), (460, le32 (sd_ta3 d))]
    \<and> ch_port_num (cm_header m) = sd_main_fiber_num d \<and> ch_port_num (cm_header n) = sd_main_fiber_num d"
proof -
  let ?s = "[(353, [0, 0] @ le32 0), (354, le32 (fpga_decode_frequency (sd_lo_frequency d) div 100) @ le32 (sd_lo_lock_status d)),
        (355, le32 (sd_clock_sync_status d)), (356, le32 (sd_phased_array_work_mode d)), (357, le32 (sd_cpri_work_mode d))] :: (u16 \<times> bytes) list"
  let ?p = "[(453, [1, sd_temp1 d]), (453, [2, sd_temp2 d]), (453, [3, sd_temp3 d]),
        (457, 0 # le16 (sd_current_output_power d)), (458, le32 (sd_toffset d)), (459, le32 (sd_t2a d)), (460, le32 (sd_ta3 d))] :: (u16 \<times> bytes) list"
  have z: "[0, 0] @ le32 0 = replicate 6 (0 :: u8)" by (simp add: le32_def numeral_eq_Suc)
  obtain s where s: "put_ies (Some h) ?s (None, 0) = Some s" "unat (cm_payload_len (converted MSG_PAAU_STATUS_QUERY_RSP d s)) = length (ie_bytes ?s)"
      "take (length (ie_bytes ?s)) (message_bytes [] (converted MSG_PAAU_STATUS_QUERY_RSP d s)) = ie_bytes ?s"
    using converted_payload [OF assms(1), of ?s MSG_PAAU_STATUS_QUERY_RSP d] by auto
  obtain p where p: "put_ies (Some h) ?p (None, 0) = Some p" "unat (cm_payload_len (converted MSG_PAAU_PARAM_QUERY_RSP d p)) = length (ie_bytes ?p)"
      "take (length (ie_bytes ?p)) (message_bytes [] (converted MSG_PAAU_PARAM_QUERY_RSP d p)) = ie_bytes ?p"
    using converted_payload [OF assms(1), of ?p MSG_PAAU_PARAM_QUERY_RSP d] by auto
  have 1: "fpga_to_cpri_status_response (Some h) fr = Some (SUCCESS, converted MSG_PAAU_STATUS_QUERY_RSP d s)"
    using s(1) unfolding fpga_to_cpri_status_response_def Let_def d_def by simp
  have 2: "fpga_to_cpri_param_response (Some h) fr = Some (SUCCESS, converted MSG_PAAU_PARAM_QUERY_RSP d p)"
    using p(1) unfolding fpga_to_cpri_param_response_def Let_def d_def by (simp add: upt_rec numeral_eq_Suc)
  have 3: "ch_port_num (cm_header (converted MSG_PAAU_STATUS_QUERY_RSP d s)) = sd_main_fiber_num d"
      "ch_port_num (cm_header (converted MSG_PAAU_PARAM_QUERY_RSP d p)) = sd_main_fiber_num d" by (simp_all add: converted_def)
  note 4 = s(3) [folded s(2), unfolded z] and 5 = p(3) [folded p(2)]
  show ?thesis by (intro exI conjI) (fact 1 2 3 4 5)+
qed

lemma conversions_carry_status_witness:
  "\<exists>m n. fpga_to_cpri_status_response (Some (replicate 4096 0)) fr = Some (SUCCESS, m) \<and> fpga_to_cpri_param_response (Some (replicate 4096 0)) fr = Some (SUCCESS, n)"
  using conversions_carry_status [of "replicate 4096 0" fr] by auto

lemma compact_time_short: "length (compact_time t) \<le> 19"
  by (cases t) (simp add: compact_time_def del: take_append)

lemma alarm_data_length: "length stack = 20 \<Longrightarrow> length (alarm_data stack t) = 134"
  using compact_time_short [of t] by (simp add: alarm_data_def)

text \<open>A report of an alarm is made exactly when a temperature is outside its limits or the oscillator or the clock is not locked; it is one element of 134 bytes.\<close>

theorem alarm_report_made:
  assumes "length h = 4096" "length stack = 20"
  shows "\<exists>m. fpga_to_cpri_alarm_report (Some h) stack (Some t) fr = Some (if has_alarm (sf_data fr) then (SUCCESS, Some m) else (ERROR_GENERAL, None))
    \<and> take (unat (cm_payload_len m)) (message_bytes [] m) = ie_bytes [(1001, alarm_data stack t)]"
proof -
  obtain st where st: "put_ies (Some h) [(1001, alarm_data stack t)] (None, 0) = Some st"
      "unat (cm_payload_len (converted MSG_ALARM_REPORT_REQ (sf_data fr) st)) = length (ie_bytes [(1001, alarm_data stack t)])"
      "take (length (ie_bytes [(1001, alarm_data stack t)])) (message_bytes [] (converted MSG_ALARM_REPORT_REQ (sf_data fr) st)) = ie_bytes [(1001, alarm_data stack t)]"
    using converted_payload [OF assms(1), of "[(1001, alarm_data stack t)]" MSG_ALARM_REPORT_REQ "sf_data fr"] alarm_data_length [OF assms(2), of t] by auto
  then show ?thesis
    by (intro exI [of _ "converted MSG_ALARM_REPORT_REQ (sf_data fr) st"])
       (auto simp: fpga_to_cpri_alarm_report_def add_ie_to_payload_def Let_def bind_eq_Some_conv)
qed

text \<open>The report carries bytes of the stack, those behind the end of the time.\<close>

theorem stack_bytes_reported:
  assumes "length (compact_time t) < 19" "length stack = 20"
  shows "alarm_data stack t ! (15 + length (compact_time t)) = stack ! (length (compact_time t) + 1)"
  using assms by (simp add: alarm_data_def nth_append)

end
