(* ===== verification/MainProgram.thy ===== *)
theory MainProgram
  imports Prelude
begin

text \<open>
  The order of the calls of \<open>main\<close> in main.c: the start of the modules, of which some may fail and others end the start, and the clean-up, which every way through the program
  takes once the log is open. What the calls do is modelled with their components, and the main loop in \<open>MainLoop\<close>; here a call is its name, and an argument says which calls
  succeed. Only the order of the calls is modelled. In particular nothing is said of threads that go on after the call that ends their module: \<open>log_upload_destroy\<close> and
  \<open>version_manager_destroy\<close> only set a flag for theirs, and the callbacks of the connection may still reach a module that was ended before it.
\<close>

subsection \<open>The calls\<close>

datatype main_call =
    Config_load | Logger_init | Fpga_handler_init | Msg_handler_init | Heartbeat_init | Cell_config_init | Alarm_manager_init | Param_query_init
  | Param_config_init | Log_upload_init | Version_manager_init | Alarm_query_init | Loopback_init | Reset_init | Transparent_msg_init | Phased_array_calib_init
  | Rs422_protocol_init | Firmware_package_init | Uart_rs422_init | Uart_rs422_open | Fpga_firmware_injection_init | Uart_client_init | Uart_client_open
  | Telemetry_log_init | Fpga_watchdog_init | Fpga_watchdog_start | Tcp_client_init | Tcp_client_start | Signals | Main_loop
  | Fpga_watchdog_stop | Fpga_watchdog_destroy | Fpga_firmware_injection_cleanup | Uart_rs422_close | Firmware_package_cleanup | Rs422_protocol_cleanup
  | Heartbeat_stop | Cell_config_destroy | Telemetry_log_destroy | Log_upload_destroy | Version_manager_destroy | Tcp_client_stop | Tcp_client_destroy
  | Uart_client_close | Uart_client_destroy | Fpga_handler_destroy | Heartbeat_destroy | Alarm_manager_destroy | Alarm_query_cleanup | Loopback_cleanup
  | Reset_cleanup | Transparent_msg_cleanup | Phased_array_calib_cleanup | Msg_handler_destroy | Logger_close

text \<open>Calls one after the other, up to the first that fails.\<close>

fun run_until_failure :: "(main_call \<Rightarrow> bool) \<Rightarrow> main_call list \<Rightarrow> main_call list \<times> bool" where
  "run_until_failure ok [] = ([], True)"
| "run_until_failure ok (c # cs) = (if ok c then (case run_until_failure ok cs of (done, r) \<Rightarrow> (c # done, r)) else ([c], False))"

definition module_inits :: "main_call list" where
  "module_inits = [Fpga_handler_init, Msg_handler_init, Heartbeat_init, Cell_config_init, Alarm_manager_init, Param_query_init, Param_config_init, Log_upload_init,
     Version_manager_init, Alarm_query_init, Loopback_init, Reset_init, Transparent_msg_init, Phased_array_calib_init, Rs422_protocol_init, Firmware_package_init,
     Uart_rs422_init]"

text \<open>The second line, the first line, the telemetry log and the watchdog: a failure does not end the start.\<close>

definition injection_calls :: "(main_call \<Rightarrow> bool) \<Rightarrow> main_call list" where
  "injection_calls ok = Uart_rs422_open # (if ok Uart_rs422_open then [Fpga_firmware_injection_init] else [])"

definition side_calls :: "(main_call \<Rightarrow> bool) \<Rightarrow> main_call list" where
  "side_calls ok = [Uart_client_open, Telemetry_log_init, Fpga_watchdog_init] @ (if ok Fpga_watchdog_init then [Fpga_watchdog_start] else [])"

definition connection_inits :: "main_call list" where
  "connection_inits = [Tcp_client_init, Tcp_client_start]"

definition start_calls :: "(main_call \<Rightarrow> bool) \<Rightarrow> main_call list" where
  "start_calls ok =
     (case run_until_failure ok module_inits of (c1, r) \<Rightarrow>
        if \<not> r then c1
        else let c2 = c1 @ injection_calls ok @ [Uart_client_init]
             in if \<not> ok Uart_client_init then c2
                else case run_until_failure ok connection_inits of (c3, r) \<Rightarrow>
                  let c = c2 @ side_calls ok @ c3 in if r then c @ [Signals, Main_loop] else c)"

definition clean_up_calls :: "(main_call \<Rightarrow> bool) \<Rightarrow> main_call list" where
  "clean_up_calls ok =
     [Fpga_watchdog_stop, Fpga_watchdog_destroy, Fpga_firmware_injection_cleanup]
     @ (if ok Fpga_firmware_injection_cleanup then [Uart_rs422_close, Firmware_package_cleanup, Rs422_protocol_cleanup] else [])
     @ [Heartbeat_stop, Cell_config_destroy, Telemetry_log_destroy, Log_upload_destroy, Version_manager_destroy, Tcp_client_stop, Tcp_client_destroy, Uart_client_close,
        Uart_client_destroy, Fpga_handler_destroy, Heartbeat_destroy, Alarm_manager_destroy, Alarm_query_cleanup, Loopback_cleanup, Reset_cleanup,
        Transparent_msg_cleanup, Phased_array_calib_cleanup, Msg_handler_destroy, Logger_close]"

text \<open>The calls and the exit status.\<close>

definition main_program :: "(main_call \<Rightarrow> bool) \<Rightarrow> main_call list \<times> int" where
  "main_program ok =
     (if \<not> ok Config_load then ([Config_load], - 1)
      else if \<not> ok Logger_init then ([Config_load, Logger_init], - 1)
      else ([Config_load, Logger_init] @ start_calls ok @ clean_up_calls ok, 0))"

subsection \<open>When the main loop runs\<close>

definition needed :: "main_call list" where
  "needed = module_inits @ [Uart_client_init] @ connection_inits"

lemma run_until_all: "snd (run_until_failure ok cs) \<longleftrightarrow> list_all ok cs"
  by (induction cs) (auto split: prod.splits)

lemma run_until_subset: "set (fst (run_until_failure ok cs)) \<subseteq> set cs"
  by (induction cs) (auto split: prod.splits)

lemma start_calls_shape:
  obtains c1 r1 c3 r3 where "start_calls ok = (if \<not> r1 then c1 else if \<not> ok Uart_client_init then c1 @ injection_calls ok @ [Uart_client_init]
      else c1 @ injection_calls ok @ [Uart_client_init] @ side_calls ok @ c3 @ (if r3 then [Signals, Main_loop] else []))"
    "set c1 \<subseteq> set module_inits" "set c3 \<subseteq> set connection_inits" "r1 \<longleftrightarrow> list_all ok module_inits" "r3 \<longleftrightarrow> list_all ok connection_inits"
proof -
  obtain c1 r1 where 1: "run_until_failure ok module_inits = (c1, r1)" by (cases "run_until_failure ok module_inits")
  obtain c3 r3 where 3: "run_until_failure ok connection_inits = (c3, r3)" by (cases "run_until_failure ok connection_inits")
  show thesis
  proof (rule that)
    show "start_calls ok = (if \<not> r1 then c1 else if \<not> ok Uart_client_init then c1 @ injection_calls ok @ [Uart_client_init]
        else c1 @ injection_calls ok @ [Uart_client_init] @ side_calls ok @ c3 @ (if r3 then [Signals, Main_loop] else []))"
      unfolding start_calls_def 1 3 prod.case Let_def by simp
    show "set c1 \<subseteq> set module_inits" "set c3 \<subseteq> set connection_inits"
      using run_until_subset [of ok module_inits] run_until_subset [of ok connection_inits] unfolding 1 3 by simp_all
    show "r1 \<longleftrightarrow> list_all ok module_inits" "r3 \<longleftrightarrow> list_all ok connection_inits"
      using run_until_all [of ok module_inits] run_until_all [of ok connection_inits] unfolding 1 3 by simp_all
  qed
qed

definition start_names :: "main_call set" where
  "start_names = set module_inits \<union> {Uart_rs422_open, Fpga_firmware_injection_init, Uart_client_init, Uart_client_open, Telemetry_log_init, Fpga_watchdog_init, Fpga_watchdog_start,
     Tcp_client_init, Tcp_client_start, Signals, Main_loop}"

lemma side_names: "set (injection_calls ok) \<subseteq> start_names - {Main_loop}" "set (side_calls ok) \<subseteq> start_names - {Main_loop}"
    "set connection_inits \<subseteq> start_names - {Main_loop}" "set module_inits \<subseteq> start_names - {Main_loop}"
  by (cases "ok Uart_rs422_open"; simp add: injection_calls_def start_names_def)
     (cases "ok Fpga_watchdog_init"; simp add: side_calls_def connection_inits_def start_names_def module_inits_def)+

text \<open>The main loop runs exactly when every call that it needs has succeeded.\<close>

lemma main_loop_reached: "Main_loop \<in> set (start_calls ok) \<longleftrightarrow> list_all ok needed"
proof -
  obtain c1 r1 c3 r3 where c: "start_calls ok = (if \<not> r1 then c1 else if \<not> ok Uart_client_init then c1 @ injection_calls ok @ [Uart_client_init]
      else c1 @ injection_calls ok @ [Uart_client_init] @ side_calls ok @ c3 @ (if r3 then [Signals, Main_loop] else []))"
    "set c1 \<subseteq> set module_inits" "set c3 \<subseteq> set connection_inits" "r1 \<longleftrightarrow> list_all ok module_inits" "r3 \<longleftrightarrow> list_all ok connection_inits"
    by (rule start_calls_shape [of ok])
  have n: "Main_loop \<notin> set c1" "Main_loop \<notin> set c3" "Main_loop \<notin> set (injection_calls ok)" "Main_loop \<notin> set (side_calls ok)" using c(2,3) side_names(1,2) [of ok] side_names(3,4) by blast+
  have "Main_loop \<in> set (start_calls ok) \<longleftrightarrow> r1 \<and> ok Uart_client_init \<and> r3"
    unfolding c(1) using n by (cases r1; cases "ok Uart_client_init"; cases r3) simp_all
  then show ?thesis unfolding c(4,5) by (simp add: needed_def)
qed

text \<open>A start that fails after the log is open, at any call that the main loop needs, cleans up and ends with the status of success.\<close>

theorem failed_start_succeeds:
  assumes "ok Config_load" "ok Logger_init" "c \<in> set needed" "\<not> ok c"
  shows "snd (main_program ok) = 0 \<and> Main_loop \<notin> set (fst (main_program ok))"
proof -
  have "\<not> list_all ok needed" using assms(3,4) by (auto simp: list_all_iff)
  then show ?thesis using assms(1,2) main_loop_reached [of ok] by (simp add: main_program_def clean_up_calls_def)
qed

end
